(* ===== verification/Prelude.thy ===== *)
theory Prelude
  imports Main "HOL-Library.Word" "HOL-Library.Monad_Syntax"
begin

text \<open>
  Shared vocabulary of the development: the machine integer types of the C code, byte
  memories, the byte orders the program uses on the wire, and generic lemmas on words,
  lists and options that the component theories use.

  Conventions. A C function that can run into undefined behaviour (an access outside an
  array, a failed assertion, a loop that never ends) has a result of type \<open>option\<close>, and
  \<open>None\<close> stands for ``no defined result''; the \<open>do\<close> notation of \<open>Monad_Syntax\<close> is the
  sequencing of such functions. A byte array is a function \<open>mem\<close> from offsets to bytes
  together with an explicit capacity check where the code writes to it.
\<close>

unbundle bit_operations_syntax

type_synonym byte = "8 word"
type_synonym u16 = "16 word"
type_synonym u32 = "32 word"
type_synonym u64 = "64 word"

named_theorems mem_simps "reading back what was written to a byte memory"
named_theorems wire_defs "definitions of the byte orders used on the wire"

text \<open>Results of a call that depends on a condition of the host.\<close>

lemma if_trueD: "(if b then P else Q) \<Longrightarrow> b \<Longrightarrow> P"
  by simp

section \<open>Byte memories\<close>

type_synonym mem = "nat \<Rightarrow> byte"

definition mem_put :: "mem \<Rightarrow> nat \<Rightarrow> byte list \<Rightarrow> mem" where
  "mem_put m off xs = (\<lambda>i. if off \<le> i \<and> i < off + length xs then xs ! (i - off) else m i)"

definition mem_get :: "mem \<Rightarrow> nat \<Rightarrow> nat \<Rightarrow> byte list" where
  "mem_get m off n = map m [off..<off + n]"

lemma length_mem_get [simp]: "length (mem_get m off n) = n"
  by (simp add: mem_get_def)

lemma nth_mem_get [simp]: "i < n \<Longrightarrow> mem_get m off n ! i = m (off + i)"
  by (simp add: mem_get_def)

lemma mem_get_0 [simp]: "mem_get m off 0 = []"
  by (simp add: mem_get_def)

lemma mem_put_Nil [simp]: "mem_put m off [] = m"
  by (auto simp: mem_put_def fun_eq_iff)

lemma mem_put_in [mem_simps]: "off \<le> i \<Longrightarrow> i < off + length xs \<Longrightarrow> mem_put m off xs i = xs ! (i - off)"
  by (simp add: mem_put_def)

lemma mem_put_out [mem_simps]: "i < off \<or> off + length xs \<le> i \<Longrightarrow> mem_put m off xs i = m i"
  by (auto simp: mem_put_def)

lemma mem_get_put [mem_simps]:
  assumes "i + n \<le> length xs"
  shows "mem_get (mem_put m 0 xs) i n = take n (drop i xs)"
  using assms by (intro nth_equalityI) (auto simp: mem_put_def)

lemma mem_get_put_all [simp]: "mem_get (mem_put m off xs) off (length xs) = xs"
  by (intro nth_equalityI) (auto simp: mem_put_def)

lemma mem_put_put_append [mem_simps]:
  "mem_put (mem_put m off xs) (off + length xs) ys = mem_put m off (xs @ ys)"
  by (auto simp: mem_put_def nth_append fun_eq_iff)

section \<open>Byte orders\<close>

definition be16 :: "u16 \<Rightarrow> byte list" where
  "be16 w = [ucast (drop_bit 8 w), ucast w]"

definition be32 :: "u32 \<Rightarrow> byte list" where
  "be32 w = [ucast (drop_bit 24 w), ucast (drop_bit 16 w), ucast (drop_bit 8 w), ucast w]"

definition le32 :: "u32 \<Rightarrow> byte list" where
  "le32 w = [ucast w, ucast (drop_bit 8 w), ucast (drop_bit 16 w), ucast (drop_bit 24 w)]"

definition of_be16 :: "byte \<Rightarrow> byte \<Rightarrow> u16" where
  "of_be16 hi lo = push_bit 8 (ucast hi) OR ucast lo"

definition of_le16 :: "byte \<Rightarrow> byte \<Rightarrow> u16" where
  "of_le16 lo hi = of_be16 hi lo"

definition of_le32 :: "byte \<Rightarrow> byte \<Rightarrow> byte \<Rightarrow> byte \<Rightarrow> u32" where
  "of_le32 a b c d =
     ucast a OR push_bit 8 (ucast b) OR push_bit 16 (ucast c) OR push_bit 24 (ucast d)"

declare be16_def [wire_defs] be32_def [wire_defs] le32_def [wire_defs]
  of_be16_def [wire_defs] of_le16_def [wire_defs] of_le32_def [wire_defs]

lemma byte_bit_beyond [simp]: "8 \<le> n \<Longrightarrow> \<not> bit (b :: byte) n"
  using bit_imp_le_length[of b n] by auto

lemma unat_less: "unat (w :: 'a::len word) < 2 ^ LENGTH('a)"
  by (rule unsigned_less)

lemma mod_eq_int_dvd: "(a :: nat) mod m = b mod m \<longleftrightarrow> int m dvd int a - int b"
  by (metis mod_eq_dvd_iff of_nat_eq_iff of_nat_mod)

lemma unat_ucast_mod: "unat (ucast (w :: 'a::len word) :: 'b::len word) = unat w mod 2 ^ LENGTH('b)"
  by (simp add: unsigned_ucast_eq take_bit_eq_mod)

lemma unat_Suc_bound: "unat i + 1 < 2 ^ LENGTH('a) \<Longrightarrow> unat (i + 1) = unat (i :: 'a::len word) + 1"
  by (simp add: unat_word_ariths)

lemma unat_Suc_less: "i < n \<Longrightarrow> unat (i + 1) = unat (i :: 'a::len word) + 1"
  using unat_less[of n] unfolding word_less_nat_alt by (intro unat_Suc_bound) linarith

lemma length_be16 [simp]: "length (be16 w) = 2" by (simp add: be16_def)
lemma length_be32 [simp]: "length (be32 w) = 4" by (simp add: be32_def)
lemma length_le32 [simp]: "length (le32 w) = 4" by (simp add: le32_def)

lemma of_be16_be16 [simp]: "of_be16 (be16 w ! 0) (be16 w ! 1) = w"
  by (auto simp: wire_defs bit_simps intro!: bit_word_eqI)

lemma be16_small: "n < 256 \<Longrightarrow> be16 (of_nat n) = [0x00, of_nat n]"
  by (simp add: be16_def word_unat_eq_iff unat_div unat_of_nat unat_ucast_mod drop_bit_eq_div)

lemma of_le32_le32:
  "of_le32 (le32 w ! 0) (le32 w ! 1) (le32 w ! 2) (le32 w ! 3) = w"
proof (rule bit_word_eqI)
  fix n assume "n < LENGTH(32)"
  then consider "n < 8" | "8 \<le> n" "n < 16" | "16 \<le> n" "n < 24" | "24 \<le> n" "n < 32"
    by fastforce
  then show "bit (of_le32 (le32 w ! 0) (le32 w ! 1) (le32 w ! 2) (le32 w ! 3)) n \<longleftrightarrow> bit w n"
    by cases (auto simp: wire_defs bit_simps nth_Cons')
qed

lemma of_be16_inject: "of_be16 a b = of_be16 c d \<longleftrightarrow> a = c \<and> b = d"
proof
  assume eq: "of_be16 a b = of_be16 c d"
  have "ucast (of_be16 a b) = b \<and> ucast (drop_bit 8 (of_be16 a b)) = a" for a b :: byte
    by (auto simp: of_be16_def bit_simps intro!: bit_word_eqI)
  with eq show "a = c \<and> b = d" by metis
qed simp

section \<open>Strings\<close>

text \<open>The bytes of a string and back.\<close>

definition ascii :: "string \<Rightarrow> byte list" where "ascii = map of_char"
definition chars :: "byte list \<Rightarrow> string" where "chars = map (\<lambda>b. char_of (unat b))"

lemma unat_of_char: "unat (of_char c :: byte) = of_char c"
  by (cases c) simp

lemma chars_ascii [simp]: "chars (ascii s) = s"
  by (simp add: chars_def ascii_def comp_def map_idI unat_of_char)

section \<open>Generic lemmas\<close>

lemma word8_less_256: "unat (b :: byte) < 256"
  using unsigned_less[of b] by simp

lemma and_255: "x AND 255 = take_bit 8 (x :: 'a::len word)"
  by (simp add: take_bit_eq_mask mask_eq_exp_minus_1)

lemma all_bytes_nth:
  assumes "\<forall>i\<in>set [0..<256]. P i"
  shows "P (unat (b :: byte))"
  using assms word8_less_256[of b] by simp

lemma bind_Some_iff:
  "(m \<bind> f = Some y) \<longleftrightarrow> (\<exists>x. m = Some x \<and> f x = Some y)"
  by (cases m) auto

lemma replicate_numeral: "replicate (numeral k) x = x # replicate (pred_numeral k) x"
  by (simp add: numeral_eq_Suc)

lemma take_drop_glue:
  "n \<le> k \<Longrightarrow> take n (drop i xs) @ take (k - n) (drop (i + n) xs) = take k (drop i xs)"
  using take_add[of n "k - n" "drop i xs"] by (simp add: add.commute)

lemma nth_update_split:
  assumes "i < length xs"
  obtains ys zs where "xs = ys @ xs ! i # zs" "length ys = i" "\<And>v. xs[i := v] = ys @ v # zs"
proof
  show "xs = take i xs @ xs ! i # drop (Suc i) xs"
    using assms by (rule id_take_nth_drop)
  show "length (take i xs) = i" using assms by simp
  show "xs[i := v] = take i xs @ v # drop (Suc i) xs" for v
    using assms by (rule upd_conv_take_nth_drop)
qed

end
