(* ===== verification/Crc.thy ===== *)
theory Crc
  imports Prelude
begin

text \<open>
  Cyclic redundancy checks. The program computes four of them with lookup tables:
  \<open>crc16\<close> of checksum.c (most significant bit first, 16 bits) and \<open>ext4_crc32\<close>,
  \<open>ext4_crc32c\<close>, \<open>ext4_bg_crc16\<close> of lwext4 (least significant bit first). This theory
  defines the bit-serial shift registers they implement and states, as the locales
  \<open>msb_crc16\<close> and \<open>lsb_crc\<close>, what a table has to satisfy. Inside the locales:
  a table step is eight steps of the register, a step is injective both in the
  register and in the data byte, and a change of one byte always changes the result.
\<close>

section \<open>Shift registers\<close>

definition msb_bit :: "u16 \<Rightarrow> u16 \<Rightarrow> u16" where
  "msb_bit poly x = (if bit x 15 then push_bit 1 x XOR poly else push_bit 1 x)"

definition lsb_bit :: "'a::len word \<Rightarrow> 'a word \<Rightarrow> 'a word" where
  "lsb_bit poly x = (if bit x 0 then drop_bit 1 x XOR poly else drop_bit 1 x)"

definition msb_ref_byte :: "u16 \<Rightarrow> u16 \<Rightarrow> byte \<Rightarrow> u16" where
  "msb_ref_byte poly crc b = (msb_bit poly ^^ 8) (crc XOR push_bit 8 (ucast b))"

definition lsb_ref_byte :: "'a::len word \<Rightarrow> 'a word \<Rightarrow> byte \<Rightarrow> 'a word" where
  "lsb_ref_byte poly crc b = (lsb_bit poly ^^ 8) (crc XOR ucast b)"

lemma xor_left_inject: "(x XOR y = x XOR z) \<longleftrightarrow> y = (z :: 'a::len word)"
  by (metis xor.assoc xor.left_neutral xor_self_eq)

lemma xor_right_inject: "(y XOR x = z XOR x) \<longleftrightarrow> y = (z :: 'a::len word)"
  by (metis xor.assoc xor.right_neutral xor_self_eq)

lemma msb_bit_xor: "msb_bit p (x XOR y) = msb_bit p x XOR msb_bit p y"
  by (rule bit_word_eqI) (auto simp: msb_bit_def bit_simps)

lemma lsb_bit_xor: "lsb_bit p (x XOR y) = lsb_bit p x XOR lsb_bit p y"
  by (rule bit_word_eqI) (auto simp: lsb_bit_def bit_simps)

lemma msb_bits_xor: "(msb_bit p ^^ n) (x XOR y) = (msb_bit p ^^ n) x XOR (msb_bit p ^^ n) y"
  by (induction n) (simp_all add: msb_bit_xor)

lemma lsb_bits_xor: "(lsb_bit p ^^ n) (x XOR y) = (lsb_bit p ^^ n) x XOR (lsb_bit p ^^ n) y"
  by (induction n) (simp_all add: lsb_bit_xor)

lemma msb_bit_0: "\<not> bit x 15 \<Longrightarrow> msb_bit p x = push_bit 1 x"
  by (simp add: msb_bit_def)

lemma lsb_bit_0: "\<not> bit x 0 \<Longrightarrow> lsb_bit p x = drop_bit 1 x"
  by (simp add: lsb_bit_def)

lemma msb_bits_low:
  "n \<le> 16 \<Longrightarrow> (\<forall>i<n. \<not> bit x (15 - i)) \<Longrightarrow> (msb_bit p ^^ n) x = push_bit n x"
proof (induction n)
  case (Suc n)
  then have "(msb_bit p ^^ n) x = push_bit n x" by simp
  moreover have "\<not> bit (push_bit n x) 15" using Suc.prems by (auto simp: bit_simps)
  ultimately show ?case
    by (simp add: msb_bit_0 push_bit_push_bit del: push_bit_Suc)
qed simp

lemma lsb_bits_high:
  "(\<forall>i<n. \<not> bit x i) \<Longrightarrow> (lsb_bit p ^^ n) x = drop_bit n x"
proof (induction n)
  case (Suc n)
  then have "(lsb_bit p ^^ n) x = drop_bit n x" by simp
  moreover have "\<not> bit (drop_bit n x) 0" using Suc.prems by (auto simp: bit_simps)
  ultimately show ?case
    by (simp add: lsb_bit_0 drop_bit_drop_bit)
qed simp

text \<open>A register whose polynomial keeps the bit that is shifted out loses no information.\<close>

lemma msb_bit_inj:
  assumes "bit p 0" shows "inj (msb_bit p)"
proof (rule injI)
  fix x y assume eq: "msb_bit p x = msb_bit p y"
  have top: "bit (msb_bit p x) 0 \<longleftrightarrow> bit x 15" for x
    using assms by (auto simp: msb_bit_def bit_simps simp del: push_bit_Suc One_nat_def)
  have "bit x 15 \<longleftrightarrow> bit y 15" using top eq by metis
  with eq have sh: "push_bit 1 x = push_bit 1 y"
    by (auto simp: msb_bit_def xor_right_inject simp del: push_bit_Suc One_nat_def split: if_splits)
  show "x = y"
  proof (rule bit_word_eqI)
    fix n assume "n < LENGTH(16)"
    then consider "n = 15" | "n < 15" by fastforce
    then show "bit x n \<longleftrightarrow> bit y n"
    proof cases
      case 2
      have "bit (push_bit 1 x) (Suc n) \<longleftrightarrow> bit (push_bit 1 y) (Suc n)" by (simp only: sh)
      with 2 show ?thesis by (simp add: bit_simps del: push_bit_Suc)
    qed (use \<open>bit x 15 \<longleftrightarrow> bit y 15\<close> in simp)
  qed
qed

lemma lsb_bit_inj:
  assumes "bit (p :: 'a::len word) (LENGTH('a) - 1)" shows "inj (lsb_bit p)"
proof (rule injI)
  fix x y assume eq: "lsb_bit p x = lsb_bit p y"
  have low: "bit (lsb_bit p x) (LENGTH('a) - 1) \<longleftrightarrow> bit x 0" for x
    using assms by (auto simp: lsb_bit_def bit_simps)
  have b0: "bit x 0 \<longleftrightarrow> bit y 0" using low eq by metis
  with eq have sh: "drop_bit 1 x = drop_bit 1 y"
    by (auto simp: lsb_bit_def xor_right_inject split: if_splits)
  show "x = y"
  proof (rule bit_word_eqI)
    fix n
    show "bit x n \<longleftrightarrow> bit y n"
    proof (cases n)
      case (Suc m)
      have "bit (drop_bit 1 x) m \<longleftrightarrow> bit (drop_bit 1 y) m" by (simp only: sh)
      with Suc show ?thesis by (simp add: bit_simps)
    qed (use b0 in simp)
  qed
qed

section \<open>Folding a byte step over a message\<close>

text \<open>A loop over a buffer whose step is injective in both arguments detects every
  change of a single byte.\<close>

locale byte_fold =
  fixes step :: "'c \<Rightarrow> byte \<Rightarrow> 'c"
  assumes step_inj_reg: "step c b = step c' b \<Longrightarrow> c = c'"
    and step_inj_byte: "step c b = step c b' \<Longrightarrow> b = b'"
begin

lemma foldl_inj_reg: "foldl step c bs = foldl step c' bs \<Longrightarrow> c = c'"
  by (induction bs arbitrary: c c') (auto dest: step_inj_reg)

lemma foldl_single_change:
  assumes "i < length bs" and "v \<noteq> bs ! i"
  shows "foldl step c (bs[i := v]) \<noteq> foldl step c bs"
proof -
  obtain ys zs where bs: "bs = ys @ bs ! i # zs" and upd: "bs[i := v] = ys @ v # zs"
    using assms(1) by (rule nth_update_split) blast
  show ?thesis
  proof
    assume eq: "foldl step c (bs[i := v]) = foldl step c bs"
    have "foldl step (step (foldl step c ys) v) zs = foldl step c (bs[i := v])"
      by (simp add: upd)
    also have "\<dots> = foldl step c (ys @ bs ! i # zs)" using eq bs by simp
    finally have "foldl step (step (foldl step c ys) v) zs =
        foldl step (step (foldl step c ys) (bs ! i)) zs" by simp
    then show False
      using assms(2) by (auto dest: foldl_inj_reg step_inj_byte)
  qed
qed

end

section \<open>Tables of linear functions\<close>

text \<open>The values of an XOR-linear function on all bytes are spanned by its values on the
  eight powers of two, so a table is checked by spanning it, not entry by entry.\<close>

fun xor_dup :: "'a::len word \<Rightarrow> 'a word list \<Rightarrow> 'a word list" where
  "xor_dup c [] = []"
| "xor_dup c (x # xs) = x # (x XOR c) # xor_dup c xs"

fun xor_span :: "'a::len word list \<Rightarrow> 'a word list \<Rightarrow> 'a word list" where
  "xor_span [] xs = xs"
| "xor_span (c # cs) xs = xor_span cs (xor_dup c xs)"

lemma length_xor_dup [simp]: "length (xor_dup c xs) = 2 * length xs"
  by (induction xs) auto

lemma nth_xor_dup:
  "j < length xs \<Longrightarrow> xor_dup c xs ! (2 * j) = xs ! j \<and> xor_dup c xs ! (Suc (2 * j)) = xs ! j XOR c"
proof (induction xs arbitrary: j)
  case (Cons x xs)
  then show ?case by (cases j) auto
qed simp

lemma of_nat_pow_add_xor:
  assumes "i < 2 ^ n"
  shows "(of_nat (2 ^ n + i) :: 'a::len word) = 2 ^ n XOR of_nat i"
proof -
  have "\<not> bit i n" using assms by (simp add: bit_iff_odd)
  then have "(2 :: 'a word) ^ n AND of_nat i = 0"
    by (auto simp: bit_simps intro!: bit_word_eqI)
  then show ?thesis by (simp add: disjunctive_add_eq_xor)
qed

lemma nth_xor_span:
  fixes g :: "'a::len word \<Rightarrow> 'a word"
  assumes lin: "\<And>x y. g (x XOR y) = g x XOR g y"
  shows "j < length xs \<Longrightarrow> i < 2 ^ n \<Longrightarrow>
    xor_span (map (\<lambda>k. g (2 ^ k)) (rev [0..<n])) xs ! (2 ^ n * j + i) = xs ! j XOR g (of_nat i)"
proof (induction n arbitrary: xs j i)
  case 0
  have "g 0 = 0" using lin[of 0 0] by simp
  with 0 show ?case by simp
next
  case (Suc n)
  let ?ys = "xor_dup (g (2 ^ n)) xs"
  show ?case
  proof (cases "i < 2 ^ n")
    case True
    have "xor_span (map (\<lambda>k. g (2 ^ k)) (rev [0..<n])) ?ys ! (2 ^ n * (2 * j) + i) =
        ?ys ! (2 * j) XOR g (of_nat i)"
      using Suc.prems True by (intro Suc.IH) auto
    then show ?thesis using nth_xor_dup[OF Suc.prems(1)] by (simp add: mult_ac)
  next
    case False
    define i' where "i' = i - 2 ^ n"
    have i: "i = 2 ^ n + i'" "i' < 2 ^ n" using False Suc.prems by (auto simp: i'_def)
    have "xor_span (map (\<lambda>k. g (2 ^ k)) (rev [0..<n])) ?ys ! (2 ^ n * Suc (2 * j) + i') =
        ?ys ! Suc (2 * j) XOR g (of_nat i')"
      using Suc.prems i by (intro Suc.IH) auto
    then have "xor_span (map (\<lambda>k. g (2 ^ k)) (rev [0..<n])) ?ys ! (2 ^ n * Suc (2 * j) + i') =
        xs ! j XOR g (of_nat i)"
      using nth_xor_dup[OF Suc.prems(1)] i by (simp only: of_nat_pow_add_xor lin xor.assoc)
    then show ?thesis by (simp add: i(1) mult_ac add_ac)
  qed
qed

lemma xor_span_table:
  fixes g :: "'a::len word \<Rightarrow> 'a word"
  assumes "\<And>x y. g (x XOR y) = g x XOR g y" and "i < 256"
  shows "xor_span (map (\<lambda>k. g (2 ^ k)) [7, 6, 5, 4, 3, 2, 1, 0]) [0] ! i = g (of_nat i)"
proof -
  have "rev [0..<8] = [7, 6, 5, 4, 3, 2, 1, 0 :: nat]" by (simp add: upt_rec)
  with nth_xor_span[of g 0 "[0]" i 8] assms show ?thesis by simp
qed

lemma funpow_8: "f ^^ 8 = (\<lambda>x. f (f (f (f (f (f (f (f x))))))))"
  by (simp add: eval_nat_numeral fun_eq_iff)

text \<open>Evaluation rules for closed registers, and the two table criteria.\<close>

lemma msb_bit_numeral:
  "msb_bit p (numeral n) =
     (if bit (numeral n :: u16) 15 then push_bit 1 (numeral n) XOR p else push_bit 1 (numeral n))"
  "msb_bit p 0 = 0" "msb_bit p 1 = 2"
  by (simp_all add: msb_bit_def)

lemma lsb_bit_numeral:
  fixes p :: "'a::len word"
  shows "lsb_bit p (numeral n) =
     (if bit (numeral n :: 'a::len word) 0 then drop_bit 1 (numeral n) XOR p else drop_bit 1 (numeral n))"
  "lsb_bit p 0 = 0" "lsb_bit p 1 = p"
  by (simp_all add: lsb_bit_def)

lemma msb_table:
  assumes "tab = xor_span (map (\<lambda>k. (msb_bit p ^^ 8) (push_bit 8 (2 ^ k))) [7, 6, 5, 4, 3, 2, 1, 0]) [0]"
    and "i < 256"
  shows "tab ! i = (msb_bit p ^^ 8) (push_bit 8 (of_nat i))"
  unfolding assms(1)
  by (rule xor_span_table[of "\<lambda>x. (msb_bit p ^^ 8) (push_bit 8 x)"])
     (simp_all add: msb_bits_xor push_bit_xor assms(2))

lemma lsb_table:
  assumes "tab = xor_span (map (\<lambda>k. (lsb_bit p ^^ 8) (2 ^ k)) [7, 6, 5, 4, 3, 2, 1, 0]) [0]"
    and "i < 256"
  shows "tab ! i = (lsb_bit p ^^ 8) (of_nat i)"
  unfolding assms(1)
  by (rule xor_span_table[of "lsb_bit p ^^ 8"]) (simp_all add: lsb_bits_xor assms(2))

section \<open>Table-driven steps\<close>

locale msb_crc16 =
  fixes poly :: u16 and tab :: "u16 list"
  assumes table: "i < 256 \<Longrightarrow> tab ! i = (msb_bit poly ^^ 8) (push_bit 8 (of_nat i))"
    and poly_odd: "bit poly 0"
begin

lemma step_eq_ref:
  "push_bit 8 crc XOR tab ! unat ((drop_bit 8 crc XOR ucast b) AND 255) = msb_ref_byte poly crc b"
proof -
  define x where "x = crc XOR push_bit 8 (ucast b :: u16)"
  define i where "i = unat ((drop_bit 8 crc XOR ucast b) AND 255)"
  have idx: "(drop_bit 8 crc XOR ucast b) AND 255 = drop_bit 8 x"
  proof (rule bit_word_eqI)
    fix n
    have "\<not> bit crc (8 + n)" if "\<not> n < 8" using that bit_imp_le_length[of crc "8 + n"] by auto
    then show "bit ((drop_bit 8 crc XOR ucast b) AND 255) n \<longleftrightarrow> bit (drop_bit 8 x) n"
      by (cases "n < 8") (auto simp: x_def and_255 bit_simps)
  qed
  have hi: "of_nat i = drop_bit 8 x"
    unfolding i_def idx by simp
  have i: "i < 256"
  proof -
    have "(drop_bit 8 crc XOR ucast b) AND 255 \<le> (255 :: u16)" by (rule word_and_le1)
    then show ?thesis by (simp add: i_def word_le_nat_alt)
  qed
  have split: "x = push_bit 8 (drop_bit 8 x) XOR take_bit 8 x"
    by (rule bit_word_eqI) (auto simp: bit_simps)
  have "msb_ref_byte poly crc b = (msb_bit poly ^^ 8) x"
    by (simp add: msb_ref_byte_def x_def)
  also have "\<dots> = (msb_bit poly ^^ 8) (push_bit 8 (drop_bit 8 x)) XOR (msb_bit poly ^^ 8) (take_bit 8 x)"
    by (subst split) (rule msb_bits_xor)
  also have "(msb_bit poly ^^ 8) (push_bit 8 (drop_bit 8 x)) = tab ! i"
    using table[OF i] by (simp only: hi)
  also have "(msb_bit poly ^^ 8) (take_bit 8 x) = push_bit 8 (take_bit 8 x)"
    by (rule msb_bits_low) (auto simp: bit_simps)
  also have "push_bit 8 (take_bit 8 x) = push_bit 8 crc"
    by (rule bit_word_eqI) (auto simp: x_def bit_simps)
  finally show ?thesis by (simp add: i_def xor.commute)
qed

sublocale byte_fold "msb_ref_byte poly"
proof
  have inj: "inj (msb_bit poly ^^ 8)"
    by (intro inj_fn msb_bit_inj poly_odd)
  fix c c' b b'
  show "c = c'" if "msb_ref_byte poly c b = msb_ref_byte poly c' b"
    using injD[OF inj that[unfolded msb_ref_byte_def]] by (simp add: xor_right_inject)
  show "b = b'" if "msb_ref_byte poly c b = msb_ref_byte poly c b'"
  proof -
    have "push_bit 8 (ucast b :: u16) = push_bit 8 (ucast b')"
      using injD[OF inj that[unfolded msb_ref_byte_def]] by (simp add: xor_left_inject)
    then have "ucast (drop_bit 8 (push_bit 8 (ucast b :: u16))) =
        (ucast (drop_bit 8 (push_bit 8 (ucast b' :: u16))) :: byte)" by simp
    moreover have "ucast (drop_bit 8 (push_bit 8 (ucast b :: u16))) = b" for b :: byte
      by (rule bit_word_eqI) (auto simp: bit_simps)
    ultimately show ?thesis by metis
  qed
qed

end

locale lsb_crc =
  fixes poly :: "'a::len word" and tab :: "'a word list"
  assumes table: "i < 256 \<Longrightarrow> tab ! i = (lsb_bit poly ^^ 8) (of_nat i)"
    and poly_top: "bit poly (LENGTH('a) - 1)"
    and width: "8 \<le> LENGTH('a)"
begin

lemma step_eq_ref:
  "tab ! unat (take_bit 8 (crc XOR ucast b)) XOR drop_bit 8 crc = lsb_ref_byte poly crc b"
proof -
  define x where "x = crc XOR ucast b"
  have i: "unat (take_bit 8 x) < 256"
  proof -
    have "unat (take_bit 8 x) = take_bit 8 (unat x)" by (rule unsigned_take_bit_eq)
    then show ?thesis using take_bit_nat_less_exp[of 8 "unat x"] by simp
  qed
  have split: "x = take_bit 8 x XOR push_bit 8 (drop_bit 8 x)"
    by (rule bit_word_eqI) (auto simp: bit_simps)
  have "lsb_ref_byte poly crc b = (lsb_bit poly ^^ 8) x"
    by (simp add: lsb_ref_byte_def x_def)
  also have "\<dots> = (lsb_bit poly ^^ 8) (take_bit 8 x) XOR (lsb_bit poly ^^ 8) (push_bit 8 (drop_bit 8 x))"
    by (subst split) (rule lsb_bits_xor)
  also have "(lsb_bit poly ^^ 8) (take_bit 8 x) = tab ! unat (take_bit 8 x)"
    using table[OF i] by simp
  also have "(lsb_bit poly ^^ 8) (push_bit 8 (drop_bit 8 x)) = drop_bit 8 (push_bit 8 (drop_bit 8 x))"
    by (rule lsb_bits_high) (auto simp: bit_simps)
  also have "drop_bit 8 (push_bit 8 (drop_bit 8 x)) = drop_bit 8 crc"
    by (rule bit_word_eqI) (auto simp: x_def bit_simps dest: bit_imp_le_length)
  finally show ?thesis by (simp add: x_def)
qed

sublocale byte_fold "lsb_ref_byte poly"
proof
  have inj: "inj (lsb_bit poly ^^ 8)"
    by (intro inj_fn lsb_bit_inj poly_top)
  fix c c' b b'
  show "c = c'" if "lsb_ref_byte poly c b = lsb_ref_byte poly c' b"
    using injD[OF inj that[unfolded lsb_ref_byte_def]] by (simp add: xor_right_inject)
  show "b = b'" if "lsb_ref_byte poly c b = lsb_ref_byte poly c b'"
  proof -
    have "(ucast b :: 'a word) = ucast b'"
      using injD[OF inj that[unfolded lsb_ref_byte_def]] by (simp add: xor_left_inject)
    then have eq: "bit (ucast b :: 'a word) n = bit (ucast b' :: 'a word) n" for n by simp
    show ?thesis
    proof (rule bit_word_eqI)
      fix n assume "n < LENGTH(8)"
      then have "n < LENGTH('a)" using width by simp
      then show "bit b n = bit b' n" using eq[of n] by (simp add: bit_simps)
    qed
  qed
qed

end

end
