(* ===== verification/Checksum.thy ===== *)
theory Checksum
  imports Crc
begin

text \<open>
  checksum.c and checksum.h: the CRC-16 with its table, the Internet checksum \<open>ipcheck\<close>
  and the selection by type. Buffers are byte memories; the lengths are the C values
  (\<open>size_t\<close> passed as \<open>int\<close>), negative lengths included, because
  \<open>sprd_verify_frame\<close> computes them by subtraction.
\<close>

section \<open>Definitions\<close>

definition TYPE_CRC :: byte where "TYPE_CRC = 0"
definition TYPE_IPSUM :: byte where "TYPE_IPSUM = 1"

definition crc16_table :: "u16 list" where
  "crc16_table = [
   0x0000, 0x1021, 0x2042, 0x3063, 0x4084, 0x50a5, 0x60c6, 0x70e7,
   0x8108, 0x9129, 0xa14a, 0xb16b, 0xc18c, 0xd1ad, 0xe1ce, 0xf1ef,
   0x1231, 0x0210, 0x3273, 0x2252, 0x52b5, 0x4294, 0x72f7, 0x62d6,
   0x9339, 0x8318, 0xb37b, 0xa35a, 0xd3bd, 0xc39c, 0xf3ff, 0xe3de,
   0x2462, 0x3443, 0x0420, 0x1401, 0x64e6, 0x74c7, 0x44a4, 0x5485,
   0xa56a, 0xb54b, 0x8528, 0x9509, 0xe5ee, 0xf5cf, 0xc5ac, 0xd58d,
   0x3653, 0x2672, 0x1611, 0x0630, 0x76d7, 0x66f6, 0x5695, 0x46b4,
   0xb75b, 0xa77a, 0x9719, 0x8738, 0xf7df, 0xe7fe, 0xd79d, 0xc7bc,
   0x48c4, 0x58e5, 0x6886, 0x78a7, 0x0840, 0x1861, 0x2802, 0x3823,
   0xc9cc, 0xd9ed, 0xe98e, 0xf9af, 0x8948, 0x9969, 0xa90a, 0xb92b,
   0x5af5, 0x4ad4, 0x7ab7, 0x6a96, 0x1a71, 0x0a50, 0x3a33, 0x2a12,
   0xdbfd, 0xcbdc, 0xfbbf, 0xeb9e, 0x9b79, 0x8b58, 0xbb3b, 0xab1a,
   0x6ca6, 0x7c87, 0x4ce4, 0x5cc5, 0x2c22, 0x3c03, 0x0c60, 0x1c41,
   0xedae, 0xfd8f, 0xcdec, 0xddcd, 0xad2a, 0xbd0b, 0x8d68, 0x9d49,
   0x7e97, 0x6eb6, 0x5ed5, 0x4ef4, 0x3e13, 0x2e32, 0x1e51, 0x0e70,
   0xff9f, 0xefbe, 0xdfdd, 0xcffc, 0xbf1b, 0xaf3a, 0x9f59, 0x8f78,
   0x9188, 0x81a9, 0xb1ca, 0xa1eb, 0xd10c, 0xc12d, 0xf14e, 0xe16f,
   0x1080, 0x00a1, 0x30c2, 0x20e3, 0x5004, 0x4025, 0x7046, 0x6067,
   0x83b9, 0x9398, 0xa3fb, 0xb3da, 0xc33d, 0xd31c, 0xe37f, 0xf35e,
   0x02b1, 0x1290, 0x22f3, 0x32d2, 0x4235, 0x5214, 0x6277, 0x7256,
   0xb5ea, 0xa5cb, 0x95a8, 0x8589, 0xf56e, 0xe54f, 0xd52c, 0xc50d,
   0x34e2, 0x24c3, 0x14a0, 0x0481, 0x7466, 0x6447, 0x5424, 0x4405,
   0xa7db, 0xb7fa, 0x8799, 0x97b8, 0xe75f, 0xf77e, 0xc71d, 0xd73c,
   0x26d3, 0x36f2, 0x0691, 0x16b0, 0x6657, 0x7676, 0x4615, 0x5634,
   0xd94c, 0xc96d, 0xf90e, 0xe92f, 0x99c8, 0x89e9, 0xb98a, 0xa9ab,
   0x5844, 0x4865, 0x7806, 0x6827, 0x18c0, 0x08e1, 0x3882, 0x28a3,
   0xcb7d, 0xdb5c, 0xeb3f, 0xfb1e, 0x8bf9, 0x9bd8, 0xabbb, 0xbb9a,
   0x4a75, 0x5a54, 0x6a37, 0x7a16, 0x0af1, 0x1ad0, 0x2ab3, 0x3a92,
   0xfd2e, 0xed0f, 0xdd6c, 0xcd4d, 0xbdaa, 0xad8b, 0x9de8, 0x8dc9,
   0x7c26, 0x6c07, 0x5c64, 0x4c45, 0x3ca2, 0x2c83, 0x1ce0, 0x0cc1,
   0xef1f, 0xff3e, 0xcf5d, 0xdf7c, 0xaf9b, 0xbfba, 0x8fd9, 0x9ff8,
   0x6e17, 0x7e36, 0x4e55, 0x5e74, 0x2e93, 0x3eb2, 0x0ed1, 0x1ef0]"

definition crc16_byte :: "u16 \<Rightarrow> byte \<Rightarrow> u16" where
  "crc16_byte crc data =
     push_bit 8 crc XOR crc16_table ! unat ((drop_bit 8 crc XOR ucast data) AND 0xff)"

fun crc16 :: "u16 \<Rightarrow> byte list \<Rightarrow> u16" where
  "crc16 crc [] = crc"
| "crc16 crc (b # bs) = crc16 (crc16_byte crc b) bs"

text \<open>The loop of \<open>ipcheck\<close>: 16-bit little-endian words, then a last single byte,
  summed in an \<open>unsigned long\<close> (64 bits on the supported x86-64 hosts).\<close>

fun ip_sum :: "byte list \<Rightarrow> u64 \<Rightarrow> u64" where
  "ip_sum (a # b # bs) cksum = ip_sum bs (cksum + ucast (of_le16 a b))"
| "ip_sum [a] cksum = cksum + ucast a"
| "ip_sum [] cksum = cksum"

definition ip_finish :: "u64 \<Rightarrow> u16" where
  "ip_finish cksum0 =
     (let cksum1 = drop_bit 16 cksum0 + (cksum0 AND 0xffff);
          cksum2 = cksum1 + drop_bit 16 cksum1;
          cksum3 = ucast (ucast (NOT cksum2) :: u16) :: u64
      in ucast (drop_bit 8 cksum3 OR push_bit 8 cksum3))"

definition ipcheck :: "mem \<Rightarrow> int \<Rightarrow> u16" where
  "ipcheck buffer sz =
     ip_finish (if sz < 0 then ucast (buffer 0) else ip_sum (mem_get buffer 0 (nat sz)) 0)"

text \<open>With \<open>TYPE_CRC\<close> a negative length is a huge \<open>size_t\<close> and the loop runs off every
  buffer: no defined result.\<close>

definition checksum :: "byte \<Rightarrow> mem \<Rightarrow> int \<Rightarrow> u16 option" where
  "checksum type buffer len =
     (if type = TYPE_CRC then
        (if len < 0 then None else Some (crc16 0 (mem_get buffer 0 (nat len))))
      else if type = TYPE_IPSUM then Some (ipcheck buffer len)
      else Some (- 1))"

text \<open>The checksum of a byte list, the form the frame builders use.\<close>

definition checksum_list :: "byte \<Rightarrow> byte list \<Rightarrow> u16" where
  "checksum_list type bs =
     (if type = TYPE_CRC then crc16 0 bs
      else if type = TYPE_IPSUM then ip_finish (ip_sum bs 0) else - 1)"

text \<open>The sum of the little-endian 16-bit words of a message, as a number.\<close>

fun word_sum :: "byte list \<Rightarrow> nat" where
  "word_sum (a # b # bs) = unat a + 256 * unat b + word_sum bs"
| "word_sum [a] = unat a"
| "word_sum [] = 0"

definition swap16 :: "u16 \<Rightarrow> u16" where
  "swap16 w = drop_bit 8 w OR push_bit 8 w"

section \<open>CRC-16\<close>

lemma crc16_table_span:
  "crc16_table = xor_span
     (map (\<lambda>k. (msb_bit 0x1021 ^^ 8) (push_bit 8 (2 ^ k))) [7, 6, 5, 4, 3, 2, 1, 0]) [0]"
  unfolding crc16_table_def funpow_8 by (simp add: msb_bit_numeral)

interpretation crc16: msb_crc16 "0x1021" crc16_table
  by unfold_locales (simp_all add: msb_table[OF crc16_table_span])

lemma crc16_byte_ref: "crc16_byte = msb_ref_byte 0x1021"
  by (intro ext) (simp add: crc16_byte_def crc16.step_eq_ref)

lemma crc16_foldl: "crc16 crc bs = foldl crc16_byte crc bs"
  by (induction bs arbitrary: crc) auto

lemma crc16_append: "crc16 crc (xs @ ys) = crc16 (crc16 crc xs) ys"
  by (simp add: crc16_foldl)

text \<open>C28. The table-driven CRC of checksum.c equals the bit-serial CRC with generator
  0x11021 (x^16 + x^12 + x^5 + 1), most significant bit first, for every start value and
  every message.\<close>

theorem crc16_bitwise: "crc16 crc bs = foldl (msb_ref_byte 0x1021) crc bs"
  by (simp add: crc16_foldl crc16_byte_ref)

lemma crc16_single_change:
  "i < length bs \<Longrightarrow> v \<noteq> bs ! i \<Longrightarrow> crc16 crc (bs[i := v]) \<noteq> crc16 crc bs"
  using crc16.foldl_single_change by (simp add: crc16_foldl crc16_byte_ref)

section \<open>The Internet checksum\<close>

lemma unat_of_le16: "unat (of_le16 a b) = unat a + 256 * unat b"
proof -
  have "of_le16 a b = ucast a + push_bit 8 (ucast b)"
    unfolding of_le16_def of_be16_def
    by (subst disjunctive_add_eq_or) (auto simp: bit_simps or.commute intro!: bit_word_eqI)
  also have "unat \<dots> = unat a + 256 * unat b"
    using word8_less_256[of a] word8_less_256[of b]
    by (simp add: push_bit_eq_mult unat_word_ariths unat_ucast_mod)
  finally show ?thesis .
qed

lemma word_sum_bound: "word_sum bs \<le> 65535 * ((length bs + 1) div 2)"
proof (induction bs rule: word_sum.induct)
  case (1 a b bs)
  then show ?case using word8_less_256[of a] word8_less_256[of b] by simp
next
  case (2 a)
  then show ?case using word8_less_256[of a] by simp
qed simp

lemma unat_ip_sum: "unat c + word_sum bs < 2 ^ 64 \<Longrightarrow> unat (ip_sum bs c) = unat c + word_sum bs"
proof (induction bs c rule: ip_sum.induct)
  case (1 a b bs c)
  have "unat (of_le16 a b) < 2 ^ 16" using unsigned_less[of "of_le16 a b"] by simp
  then have le: "unat (ucast (of_le16 a b) :: u64) = unat a + 256 * unat b"
    by (simp add: unat_of_le16 unat_ucast_mod)
  have "unat (c + ucast (of_le16 a b)) = unat c + (unat a + 256 * unat b)"
    using 1(2) le by (subst unat_add_lem[THEN iffD1]) auto
  with 1 show ?case by simp
qed (auto simp: unat_ucast_mod unat_add_lem[THEN iffD1])

lemma swap16_swap16 [simp]: "swap16 (swap16 w) = w"
proof (rule bit_word_eqI)
  fix n assume "n < LENGTH(16)"
  moreover have "\<not> bit w (8 + n)" if "8 \<le> n" using that bit_imp_le_length[of w "8 + n"] by auto
  moreover have "\<not> bit w (8 + (8 + n))" using bit_imp_le_length[of w "8 + (8 + n)"] by auto
  ultimately show "bit (swap16 (swap16 w)) n \<longleftrightarrow> bit w n"
    by (cases "n < 8") (auto simp: swap16_def bit_simps)
qed

lemma swap16_inject [simp]: "swap16 a = swap16 b \<longleftrightarrow> a = b"
  by (metis swap16_swap16)

lemma unat_not16: "unat (NOT (w :: u16)) = 65535 - unat w"
proof -
  have "NOT w = 0xffff - w" by (simp add: not_eq_complement)
  moreover have "unat (0xffff - w) = unat (0xffff :: u16) - unat w"
    using unat_less[of w] by (intro unat_sub) (simp add: word_le_nat_alt)
  ultimately show ?thesis by simp
qed

lemma swap16_ip_finish:
  "swap16 (ip_finish c) = NOT (ucast (let d = drop_bit 16 c + (c AND 0xffff) in d + drop_bit 16 d))"
proof -
  have "ucast (drop_bit 8 (ucast w :: u64) OR push_bit 8 (ucast w)) = swap16 w" for w :: u16
    by (rule bit_word_eqI) (auto simp: swap16_def bit_simps)
  then show ?thesis
    by (auto simp: ip_finish_def Let_def bit_simps intro!: bit_word_eqI)
qed

text \<open>The two folding steps on numbers.\<close>

definition fold16 :: "nat \<Rightarrow> nat" where
  "fold16 s = (s div 65536 + s mod 65536) + (s div 65536 + s mod 65536) div 65536"

lemma unat_ip_finish:
  assumes c: "unat c < 2 ^ 32"
  shows "unat (swap16 (ip_finish c)) =
    65535 - fold16 (unat c) mod 65536"
proof -
  define d where "d = drop_bit 16 c + (c AND 0xffff)"
  have lo: "unat (c AND 0xffff) = unat c mod 65536"
  proof -
    have "c AND 0xffff = take_bit 16 c" by (simp add: take_bit_eq_mask mask_eq_exp_minus_1)
    then show ?thesis by (simp only: unsigned_take_bit_eq) (simp add: take_bit_eq_mod)
  qed
  have hi: "unat (drop_bit 16 c) = unat c div 65536"
    by (simp only: unat_drop_bit_eq) (simp add: drop_bit_eq_div)
  have d: "unat d = unat c div 65536 + unat c mod 65536"
    unfolding d_def using c by (subst unat_add_lem[THEN iffD1]) (simp_all add: lo hi)
  have d2: "unat (d + drop_bit 16 d) = unat d + unat d div 65536"
    using c d by (subst unat_add_lem[THEN iffD1]) (simp_all only: unat_drop_bit_eq, simp_all add: drop_bit_eq_div)
  show ?thesis
    unfolding swap16_ip_finish unat_not16 unat_ucast_mod using d2
    by (simp add: Let_def d_def[symmetric] d fold16_def)
qed

lemma fold_mod_65535:
  fixes s :: nat
  assumes "s < 2 ^ 32"
  shows "(65535 - fold16 s mod 65536 + s) mod 65535 = 0"
proof -
  define h l where "h = s div 65536" and "l = s mod 65536"
  have s: "s = 65536 * h + l" and l: "l < 65536" and h: "h < 65536"
    using assms by (simp_all add: h_def l_def)
  have "\<exists>k. 65535 - ((h + l) + (h + l) div 65536) mod 65536 + s = 65535 * k"
  proof (cases "h + l < 65536")
    case True
    then have "65535 - ((h + l) + (h + l) div 65536) mod 65536 + s = 65535 * (h + 1)"
      by (simp add: s)
    then show ?thesis by blast
  next
    case False
    then have "(h + l) div 65536 = 1" using l h by auto
    then have "65535 - ((h + l) + (h + l) div 65536) mod 65536 + s = 65535 * (h + 2)"
      using False l h by (simp add: s mod_if)
    then show ?thesis by blast
  qed
  then obtain k where "65535 - fold16 s mod 65536 + s = 65535 * k"
    by (auto simp: h_def l_def fold16_def)
  then show ?thesis by simp
qed

lemma word_sum_frame:
  assumes "length bs \<le> 131072"
  shows "word_sum bs < 2 ^ 32"
proof -
  have "65535 * ((length bs + 1) div 2) \<le> 65535 * (65536 :: nat)"
    using assms by (intro mult_le_mono2) auto
  with word_sum_bound[of bs] show ?thesis by simp
qed

lemma ip_law:
  assumes "length bs \<le> 131072"
  shows "(unat (swap16 (ip_finish (ip_sum bs 0))) + word_sum bs) mod 65535 = 0"
proof -
  have s: "word_sum bs < 2 ^ 32" using assms by (rule word_sum_frame)
  then have "unat (ip_sum bs 0) = word_sum bs" using unat_ip_sum[of 0 bs] by simp
  then have "unat (swap16 (ip_finish (ip_sum bs 0))) = 65535 - fold16 (word_sum bs) mod 65536"
    using s unat_ip_finish[of "ip_sum bs 0"] by simp
  then show ?thesis using fold_mod_65535[OF s] by simp
qed

text \<open>C29. The Internet checksum satisfies its defining law: with the two bytes it returns
  swapped back to host order, the message words and the checksum sum to zero in one's
  complement arithmetic (modulo 65535), for every message of at most 128 KiB (the two
  folding steps of the code are enough because the sum stays below 2^32).\<close>

theorem ipcheck_ones_complement:
  assumes "n \<le> 131072"
  shows "(unat (swap16 (ipcheck buf (int n))) + word_sum (mem_get buf 0 n)) mod 65535 = 0"
  using assms ip_law[of "mem_get buf 0 n"] by (simp add: ipcheck_def)

theorem ipcheck_ones_complement_witness:
  "(unat (swap16 (ipcheck (\<lambda>_. 0x80) (int 3))) + word_sum (mem_get (\<lambda>_. 0x80) 0 3)) mod 65535 = 0"
  by (rule ipcheck_ones_complement) simp

lemma ip_finish_sum_inj:
  assumes "length xs \<le> 131072" "length ys \<le> 131072"
    and "ip_finish (ip_sum xs 0) = ip_finish (ip_sum ys 0)"
  shows "word_sum xs mod 65535 = word_sum ys mod 65535"
proof -
  define k where "k = unat (swap16 (ip_finish (ip_sum ys 0)))"
  have "(k + word_sum xs) mod 65535 = 0" "(k + word_sum ys) mod 65535 = 0"
    using ip_law[OF assms(1)] ip_law[OF assms(2)] assms(3) by (simp_all add: k_def)
  then have "(k + word_sum xs) mod 65535 = (k + word_sum ys) mod 65535" by simp
  then show ?thesis by (simp only: mod_eq_int_dvd of_nat_add) simp
qed

lemma word_sum_change:
  "i < length bs \<Longrightarrow>
    word_sum (bs[i := v]) + (if even i then 1 else 256) * unat (bs ! i) =
    word_sum bs + (if even i then 1 else 256) * unat v"
proof (induction bs arbitrary: i rule: word_sum.induct)
  case (1 a b bs)
  consider "i = 0" | "i = 1" | j where "i = Suc (Suc j)" by (metis One_nat_def not0_implies_Suc)
  then show ?case
  proof cases
    case 3
    with 1 have "word_sum (bs[j := v]) + (if even j then 1 else 256) * unat (bs ! j) =
      word_sum bs + (if even j then 1 else 256) * unat v" by simp
    with 3 show ?thesis by auto
  qed auto
qed auto

lemma ip_single_change:
  assumes "i < length bs" "v \<noteq> bs ! i" "length bs \<le> 131072"
  shows "ip_finish (ip_sum (bs[i := v]) 0) \<noteq> ip_finish (ip_sum bs 0)"
proof
  assume "ip_finish (ip_sum (bs[i := v]) 0) = ip_finish (ip_sum bs 0)"
  then have eq: "word_sum (bs[i := v]) mod 65535 = word_sum bs mod 65535"
    using assms(3) by (intro ip_finish_sum_inj) auto
  define x y where "x = unat (bs ! i)" and "y = unat v"
  have xy: "x < 256" "y < 256" "x \<noteq> y"
    using assms(2) by (auto simp: x_def y_def word8_less_256 word_unat_eq_iff)
  define f :: int where "f = (if even i then 1 else 256)"
  have f: "1 \<le> f" "f \<le> 256" by (auto simp: f_def)
  have "int (word_sum (bs[i := v])) - int (word_sum bs) = f * (int y - int x)"
  proof -
    have "word_sum (bs[i := v]) + nat f * x = word_sum bs + nat f * y"
      using word_sum_change[OF assms(1), of v] by (auto simp: x_def y_def f_def)
    then have "int (word_sum (bs[i := v])) + f * int x = int (word_sum bs) + f * int y"
      using f by (metis of_nat_add of_nat_mult int_nat_eq order_trans zero_le_one)
    then show ?thesis by (simp add: algebra_simps)
  qed
  with eq have dvd: "65535 dvd f * (int y - int x)" by (simp add: mod_eq_int_dvd)
  have nz: "f * (int y - int x) \<noteq> 0" using f xy by auto
  have "\<bar>f * (int y - int x)\<bar> \<le> 256 * 255"
    unfolding abs_mult using f xy by (intro mult_mono) auto
  moreover have "65535 \<le> \<bar>f * (int y - int x)\<bar>"
    using dvd_imp_le_int[OF nz dvd] by simp
  ultimately show False by simp
qed

section \<open>The selected checksum\<close>

lemma checksum_nonneg:
  "checksum type buf (int n) = Some (checksum_list type (mem_get buf 0 n))"
  by (simp add: checksum_def checksum_list_def ipcheck_def)

lemma checksum_single_change:
  assumes "type = TYPE_CRC \<or> type = TYPE_IPSUM"
    and "i < length bs" and "v \<noteq> bs ! i" and "length bs \<le> 131072"
  shows "checksum_list type (bs[i := v]) \<noteq> checksum_list type bs"
  using assms crc16_single_change ip_single_change
  by (auto simp: checksum_list_def TYPE_CRC_def TYPE_IPSUM_def)

end
