(* ===== verification/Framing.thy ===== *)
theory Framing
  imports Checksum
begin

text \<open>
  protocol.h and the frame layer of main.c: the packet types of the boot loader protocol,
  the byte stuffing \<open>sprd_frame_exchange\<close> in both directions and the check
  \<open>sprd_verify_frame\<close> of a received frame. A frame is
  \<open>7e 00 type size_hi size_lo data crc_hi crc_lo 7e\<close>; on the wire every \<open>7d\<close> and every
  inner \<open>7e\<close> is escaped.
\<close>

section \<open>Packet types\<close>

datatype (plugins only: code) sprd_cmd_type =
    BSL_CMD_CONNECT | BSL_CMD_START_DATA | BSL_CMD_MIDST_DATA | BSL_CMD_END_DATA
  | BSL_CMD_EXEC_DATA | BSL_CMD_NORMAL_RESET | BSL_CMD_READ_FLASH | BSL_CMD_READ_CHIP_TYPE
  | BSL_CMD_LOOKUP_NVITEM | BSL_SET_BAUDRATE | BSL_ERASE_FLASH | BSL_REPARTITION
  | BSL_CMD_READ_MCP_TYPE | BSL_CMD_READ_FLASH_START | BSL_CMD_READ_FLASH_MIDST
  | BSL_CMD_READ_FLASH_END | BSL_CMD_OFF_CHG | BSL_CMD_POWER_DOWN_TYPE
  | BSL_CMD_CHECK_ROOTFLAG | BSL_CMD_TYPE_MAX
  | BSL_REP_ACK | BSL_REP_VER | BSL_REP_INVALID_CMD | BSL_REP_UNKNOW_CMD
  | BSL_REP_OPERATION_FAILED | BSL_REP_NOT_SUPPORT_BAUDRATE | BSL_REP_DOWN_NOT_START
  | BSL_REP_DOWN_MULTI_START | BSL_REP_DOWN_EARLY_END | BSL_REP_DOWN_DEST_ERROR
  | BSL_REP_DOWN_SIZE_ERROR | BSL_REP_VERIFY_ERROR | BSL_REP_NOT_VERIFY
  | BSL_PHONE_NOT_ENOUGH_MEMORY | BSL_PHONE_WAIT_INPUT_TIMEOUT | BSL_PHONE_SUCCEED
  | BSL_PHONE_VALID_BAUDRATE | BSL_PHONE_REPEAT_CONTINUE | BSL_PHONE_REPEAT_BREAK
  | BSL_REP_READ_FLASH | BSL_REP_READ_CHIP_TYPE | BSL_REP_LOOKUP_NVITEM
  | BSL_INCOMPATIBLE_PARTITION | BSL_UNKNOWN_DEVICE | BSL_INVALID_DEVICE_SIZE
  | BSL_ILLEGAL_SDRAM | BSL_WRONG_SDRAM_PARAMETER | BSL_REP_READ_MCP_TYPE
  | BSL_EEROR_CHECKSUM | BSL_CHECKSUM_DIFF | BSL_WRITE_ERROR
  | BSL_PHONE_ROOTFLAG | BSL_PKT_TYPE_MAX

text \<open>The value of each enumerator; an enumerator without an initialiser is one more than
  the one before it.\<close>

primrec bsl :: "sprd_cmd_type \<Rightarrow> byte" where
  "bsl BSL_CMD_CONNECT = 0"
| "bsl BSL_CMD_START_DATA = 1"
| "bsl BSL_CMD_MIDST_DATA = 2"
| "bsl BSL_CMD_END_DATA = 3"
| "bsl BSL_CMD_EXEC_DATA = 4"
| "bsl BSL_CMD_NORMAL_RESET = 5"
| "bsl BSL_CMD_READ_FLASH = 6"
| "bsl BSL_CMD_READ_CHIP_TYPE = 7"
| "bsl BSL_CMD_LOOKUP_NVITEM = 8"
| "bsl BSL_SET_BAUDRATE = 9"
| "bsl BSL_ERASE_FLASH = 0x0a"
| "bsl BSL_REPARTITION = 0x0b"
| "bsl BSL_CMD_READ_MCP_TYPE = 0x0d"
| "bsl BSL_CMD_READ_FLASH_START = 0x10"
| "bsl BSL_CMD_READ_FLASH_MIDST = 0x11"
| "bsl BSL_CMD_READ_FLASH_END = 0x12"
| "bsl BSL_CMD_OFF_CHG = 0x13"
| "bsl BSL_CMD_POWER_DOWN_TYPE = 0x17"
| "bsl BSL_CMD_CHECK_ROOTFLAG = 0x19"
| "bsl BSL_CMD_TYPE_MAX = 0x1a"
| "bsl BSL_REP_ACK = 0x80"
| "bsl BSL_REP_VER = 0x81"
| "bsl BSL_REP_INVALID_CMD = 0x82"
| "bsl BSL_REP_UNKNOW_CMD = 0x83"
| "bsl BSL_REP_OPERATION_FAILED = 0x84"
| "bsl BSL_REP_NOT_SUPPORT_BAUDRATE = 0x85"
| "bsl BSL_REP_DOWN_NOT_START = 0x86"
| "bsl BSL_REP_DOWN_MULTI_START = 0x87"
| "bsl BSL_REP_DOWN_EARLY_END = 0x88"
| "bsl BSL_REP_DOWN_DEST_ERROR = 0x89"
| "bsl BSL_REP_DOWN_SIZE_ERROR = 0x8a"
| "bsl BSL_REP_VERIFY_ERROR = 0x8b"
| "bsl BSL_REP_NOT_VERIFY = 0x8c"
| "bsl BSL_PHONE_NOT_ENOUGH_MEMORY = 0x8d"
| "bsl BSL_PHONE_WAIT_INPUT_TIMEOUT = 0x8e"
| "bsl BSL_PHONE_SUCCEED = 0x8f"
| "bsl BSL_PHONE_VALID_BAUDRATE = 0x90"
| "bsl BSL_PHONE_REPEAT_CONTINUE = 0x91"
| "bsl BSL_PHONE_REPEAT_BREAK = 0x92"
| "bsl BSL_REP_READ_FLASH = 0x93"
| "bsl BSL_REP_READ_CHIP_TYPE = 0x94"
| "bsl BSL_REP_LOOKUP_NVITEM = 0x95"
| "bsl BSL_INCOMPATIBLE_PARTITION = 0x96"
| "bsl BSL_UNKNOWN_DEVICE = 0x97"
| "bsl BSL_INVALID_DEVICE_SIZE = 0x98"
| "bsl BSL_ILLEGAL_SDRAM = 0x99"
| "bsl BSL_WRONG_SDRAM_PARAMETER = 0x9a"
| "bsl BSL_REP_READ_MCP_TYPE = 0x9b"
| "bsl BSL_EEROR_CHECKSUM = 0xa0"
| "bsl BSL_CHECKSUM_DIFF = 0xa1"
| "bsl BSL_WRITE_ERROR = 0xa2"
| "bsl BSL_PHONE_ROOTFLAG = 0xa7"
| "bsl BSL_PKT_TYPE_MAX = 0xa8"

definition SPRD_START_BYTE :: byte where "SPRD_START_BYTE = 0x7e"
definition SPRD_END_BYTE :: byte where "SPRD_END_BYTE = 0x7e"
definition SPRD_FRAME_TYPE_OFF :: nat where "SPRD_FRAME_TYPE_OFF = 2"
definition SPRD_FRAME_DATA_OFF :: nat where "SPRD_FRAME_DATA_OFF = 5"

named_theorems frame_consts "the constants of the frame layout"
declare SPRD_START_BYTE_def [frame_consts] SPRD_END_BYTE_def [frame_consts]
  SPRD_FRAME_TYPE_OFF_def [frame_consts] SPRD_FRAME_DATA_OFF_def [frame_consts]

section \<open>Byte stuffing\<close>

text \<open>Direction 0: the \<open>switch\<close> on one source byte at index \<open>i\<close> of \<open>n\<close>, and the loop.\<close>

definition stuff_byte :: "nat \<Rightarrow> nat \<Rightarrow> byte \<Rightarrow> byte list" where
  "stuff_byte i n b =
     (if b = 0x7e then (if i \<noteq> 0 \<and> i \<noteq> n - 1 then [0x7d, 0x5e] else [b])
      else if b = 0x7d then [0x7d, 0x5d]
      else [b])"

fun stuff_from :: "nat \<Rightarrow> nat \<Rightarrow> byte list \<Rightarrow> byte list" where
  "stuff_from i n [] = []"
| "stuff_from i n (b # bs) = stuff_byte i n b @ stuff_from (Suc i) n bs"

text \<open>Direction 1: \<open>nxt\<close> is the byte the buffer holds behind the last source byte; the code
  reads it when the source ends in the middle of an escape.\<close>

definition unstuff_byte :: "byte \<Rightarrow> byte list" where
  "unstuff_byte c = (if c = 0x5e then [0x7e] else if c = 0x5d then [0x7d] else [])"

fun unstuff :: "byte \<Rightarrow> byte list \<Rightarrow> byte list" where
  "unstuff nxt [] = []"
| "unstuff nxt [b] = (if b = 0x7d then unstuff_byte nxt else [b])"
| "unstuff nxt (b # c # bs) =
     (if b = 0x7d then unstuff_byte c @ unstuff nxt bs else b # unstuff nxt (c # bs))"

definition sprd_frame_exchange :: "byte \<Rightarrow> byte list \<Rightarrow> int \<Rightarrow> byte list" where
  "sprd_frame_exchange nxt src dir =
     (if dir AND 1 = 0 then stuff_from 0 (length src) src else unstuff nxt src)"

section \<open>Building and checking frames\<close>

text \<open>The layout all senders fill in by hand.\<close>

definition frame_body :: "byte \<Rightarrow> byte list \<Rightarrow> byte list" where
  "frame_body typ dat = [0x00, typ] @ be16 (of_nat (length dat)) @ dat"

definition frame_bytes :: "byte \<Rightarrow> byte \<Rightarrow> byte list \<Rightarrow> byte list" where
  "frame_bytes ct typ dat =
     [SPRD_START_BYTE] @ frame_body typ dat @ be16 (checksum_list ct (frame_body typ dat))
       @ [SPRD_END_BYTE]"

text \<open>\<open>sprd_verify_frame\<close>, evaluated in the order of the C code: an index below zero has no
  defined value.\<close>

definition sprd_verify_frame :: "byte \<Rightarrow> mem \<Rightarrow> nat \<Rightarrow> int option" where
  "sprd_verify_frame ct frame n =
     (if frame 0 \<noteq> SPRD_START_BYTE then Some (- 1)
      else if n < 1 then None
      else if frame (n - 1) \<noteq> SPRD_END_BYTE then Some (- 1)
      else do {
        c \<leftarrow> checksum ct (\<lambda>i. frame (Suc i)) (int n - 4);
        if n < 3 then None
        else if c \<noteq> of_be16 (frame (n - 3)) (frame (n - 2)) then Some (- 1)
        else Some 0
      })"

section \<open>Stuffing: round trip, delimiters, sizes, chunks\<close>

lemma exchange_0 [simp]: "sprd_frame_exchange nxt src 0 = stuff_from 0 (length src) src"
  by (simp add: sprd_frame_exchange_def)

lemma exchange_1 [simp]: "sprd_frame_exchange nxt src 1 = unstuff nxt src"
  by (simp add: sprd_frame_exchange_def)

lemma unstuff_Cons_plain: "b \<noteq> 0x7d \<Longrightarrow> unstuff nxt (b # bs) = b # unstuff nxt bs"
  by (cases bs) auto

lemma unstuff_stuff_byte: "unstuff nxt (stuff_byte i n b @ bs) = b # unstuff nxt bs"
  by (auto simp: stuff_byte_def unstuff_byte_def unstuff_Cons_plain)

lemma unstuff_stuff_from: "unstuff nxt (stuff_from i n bs) = bs"
  by (induction bs arbitrary: i) (simp_all add: unstuff_stuff_byte)

text \<open>C23. Unescaping what was escaped gives the frame back, for every byte string, whatever
  lies behind it in the buffer.\<close>

theorem frame_exchange_roundtrip:
  "sprd_frame_exchange nxt (sprd_frame_exchange nxt' src 0) 1 = src"
  by (simp add: unstuff_stuff_from)

lemma stuff_from_append:
  "stuff_from i n (xs @ ys) = stuff_from i n xs @ stuff_from (i + length xs) n ys"
  by (induction xs arbitrary: i) simp_all

lemma stuff_from_inner:
  "0 < i \<Longrightarrow> i + length bs \<le> n - 1 \<Longrightarrow> 0x7e \<notin> set (stuff_from i n bs)"
  by (induction bs arbitrary: i) (auto simp: stuff_byte_def)

lemma stuff_frame:
  "stuff_from 0 (length (0x7e # body @ [0x7e])) (0x7e # body @ [0x7e]) =
     0x7e # stuff_from 1 (length body + 2) body @ [0x7e]"
  by (simp add: stuff_from_append stuff_byte_def)

text \<open>On the wire the delimiter \<open>7e\<close> occurs only as the first and as the last byte of
  an escaped frame.\<close>

theorem frame_exchange_delimiters:
  "\<exists>inner. sprd_frame_exchange nxt (0x7e # body @ [0x7e]) 0 = 0x7e # inner @ [0x7e] \<and> 0x7e \<notin> set inner"
  using stuff_from_inner[of 1 body "length body + 2"] stuff_frame[of body] by fastforce

lemma length_stuff_byte: "length (stuff_byte i n b) \<le> 2" "1 \<le> length (stuff_byte i n b)"
  by (auto simp: stuff_byte_def)

lemma length_stuff_from: "length bs \<le> length (stuff_from i n bs)"
  "length (stuff_from i n bs) \<le> 2 * length bs"
proof (induction bs arbitrary: i)
  case (Cons b bs)
  { case 1 then show ?case using Cons(1)[of "Suc i"] length_stuff_byte[where i = i and n = n and b = b] by simp
  next
    case 2 then show ?case using Cons(2)[of "Suc i"] length_stuff_byte[where i = i and n = n and b = b] by simp
  }
qed simp_all

lemma length_stuff_frame:
  "length (stuff_from 0 (length (0x7e # body @ [0x7e])) (0x7e # body @ [0x7e])) \<le> 2 * length body + 2"
  unfolding stuff_frame using length_stuff_from(2)[of 1 "length body + 2" body] by simp

lemma length_stuff_special:
  "0 < i \<Longrightarrow> i + length bs \<le> n - 1 \<Longrightarrow> set bs \<subseteq> {0x7d, 0x7e} \<Longrightarrow> length (stuff_from i n bs) = 2 * length bs"
  by (induction bs arbitrary: i) (auto simp: stuff_byte_def)

text \<open>The receive loops cut the wire at arbitrary points but never behind a raw \<open>7d\<close>;
  such cuts commute with unescaping.\<close>

lemma unstuff_append:
  "xs = [] \<or> last xs \<noteq> 0x7d \<Longrightarrow> unstuff nxt (xs @ ys) = unstuff nxt' xs @ unstuff nxt ys"
proof (induction nxt' xs rule: unstuff.induct)
  case (2 nxt' b)
  then show ?case by (simp add: unstuff_Cons_plain)
next
  case (3 nxt' b c bs)
  then show ?case by (cases bs) (auto simp: unstuff_Cons_plain)
qed simp

section \<open>Frames\<close>

lemma length_frame_body [simp]: "length (frame_body typ dat) = 4 + length dat"
  by (simp add: frame_body_def)

lemma length_frame_bytes [simp]: "length (frame_bytes ct typ dat) = 8 + length dat"
  by (simp add: frame_bytes_def)

lemma frame_bytes_framed:
  "frame_bytes ct typ dat =
     0x7e # (frame_body typ dat @ be16 (checksum_list ct (frame_body typ dat))) @ [0x7e]"
  by (simp add: frame_bytes_def frame_consts)

lemma frame_bytes_nth:
  "frame_bytes ct typ dat ! 0 = 0x7e"
  "frame_bytes ct typ dat ! SPRD_FRAME_TYPE_OFF = typ"
  "drop SPRD_FRAME_DATA_OFF (frame_bytes ct typ dat) = dat @ be16 (checksum_list ct (frame_body typ dat)) @ [0x7e]"
  by (simp_all add: frame_bytes_def frame_body_def frame_consts be16_def)

lemma verify_frame_eq:
  assumes "4 \<le> n"
  shows "sprd_verify_frame ct f n =
    (if f 0 = 0x7e \<and> f (n - 1) = 0x7e \<and>
        checksum_list ct (mem_get f 1 (n - 4)) = of_be16 (f (n - 3)) (f (n - 2))
     then Some 0 else Some (- 1))"
proof -
  have len: "int n - 4 = int (n - 4)" using assms by simp
  have "mem_get (\<lambda>i. f (Suc i)) 0 (n - 4) = mem_get f 1 (n - 4)"
    by (intro nth_equalityI) auto
  then have "checksum ct (\<lambda>i. f (Suc i)) (int n - 4) = Some (checksum_list ct (mem_get f 1 (n - 4)))"
    unfolding len checksum_nonneg by simp
  then show ?thesis
    using assms by (simp add: sprd_verify_frame_def frame_consts)
qed

lemma verify_frame_mem:
  assumes "4 \<le> length xs"
  shows "sprd_verify_frame ct (mem_put m 0 xs) (length xs) =
    (if xs ! 0 = 0x7e \<and> last xs = 0x7e \<and>
        checksum_list ct (take (length xs - 4) (drop 1 xs)) = of_be16 (xs ! (length xs - 3)) (xs ! (length xs - 2))
     then Some 0 else Some (- 1))"
proof -
  have "mem_put m 0 xs k = xs ! k" if "k < length xs" for k
    using that by (simp add: mem_put_in)
  moreover have "last xs = xs ! (length xs - 1)" using assms by (intro last_conv_nth) auto
  moreover have "mem_get (mem_put m 0 xs) 1 (length xs - 4) = take (length xs - 4) (drop 1 xs)"
    using assms by (intro mem_get_put) auto
  moreover have "0 < length xs" using assms by linarith
  ultimately show ?thesis using assms by (subst verify_frame_eq) auto
qed

lemma verify_frame_bytes:
  "sprd_verify_frame ct (mem_put m 0 (frame_bytes ct typ dat)) (length (frame_bytes ct typ dat)) = Some 0"
proof -
  let ?b = "frame_body typ dat" and ?x = "frame_bytes ct typ dat"
  have "take (length ?x - 4) (drop 1 ?x) = ?b" by (simp add: frame_bytes_framed)
  moreover have "?x ! (length ?x - 3) = be16 (checksum_list ct ?b) ! 0"
    "?x ! (length ?x - 2) = be16 (checksum_list ct ?b) ! 1"
    by (simp_all add: frame_bytes_framed nth_append nth_Cons' be16_def)
  moreover have "last ?x = 0x7e" by (simp add: frame_bytes_framed)
  ultimately show ?thesis
    by (subst verify_frame_mem) (simp_all add: frame_bytes_nth of_be16_be16 del: One_nat_def)
qed

text \<open>The verification accepts every frame built with the same checksum type.\<close>

theorem verify_frame_accepts:
  "sprd_verify_frame ct (mem_put m 0 (frame_bytes ct typ dat)) (length (frame_bytes ct typ dat)) = Some 0"
  by (rule verify_frame_bytes)

text \<open>C19. A frame the verification accepts is rejected after any change of one byte:
  delimiter, header, data or checksum, with either checksum type.\<close>

theorem verify_frame_rejects_corruption:
  assumes ct: "ct = TYPE_CRC \<or> ct = TYPE_IPSUM"
    and n: "4 \<le> n" "n \<le> 131076"
    and ok: "sprd_verify_frame ct f n = Some 0"
    and i: "i < n" and v: "v \<noteq> f i"
  shows "sprd_verify_frame ct (f(i := v)) n = Some (- 1)"
proof -
  let ?g = "f(i := v)"
  let ?good = "\<lambda>f. checksum_list ct (mem_get f 1 (n - 4)) = of_be16 (f (n - 3)) (f (n - 2))"
  have f: "f 0 = 0x7e" "f (n - 1) = 0x7e" "?good f"
    using ok n(1) by (auto simp: verify_frame_eq split: if_splits)
  consider "i = 0" | "i = n - 1" | "i = n - 2 \<or> i = n - 3" "0 < i" | "0 < i" "i < n - 3" using i by linarith
  then have "?g 0 \<noteq> 0x7e \<or> ?g (n - 1) \<noteq> 0x7e \<or> \<not> ?good ?g"
  proof cases
    case 3
    then have "mem_get ?g 1 (n - 4) = mem_get f 1 (n - 4)"
      using n(1) by (intro nth_equalityI) auto
    then show ?thesis using 3 f(3) v n(1) by (auto simp: of_be16_inject)
  next
    case 4
    then have "mem_get ?g 1 (n - 4) = (mem_get f 1 (n - 4))[i - 1 := v]"
      by (intro nth_equalityI) (auto simp: nth_list_update)
    moreover have "checksum_list ct ((mem_get f 1 (n - 4))[i - 1 := v]) \<noteq> checksum_list ct (mem_get f 1 (n - 4))"
      using ct 4 v n by (intro checksum_single_change) auto
    ultimately show ?thesis using 4 f(3) by auto
  qed (use f v in auto)
  then show ?thesis using n(1) by (simp add: verify_frame_eq)
qed

theorem verify_frame_rejects_corruption_witness:
  "sprd_verify_frame TYPE_CRC ((mem_put (\<lambda>_. 0) 0 (frame_bytes TYPE_CRC 0x80 [1]))(2 := 7)) 9 = Some (- 1)"
proof (rule verify_frame_rejects_corruption)
  show "sprd_verify_frame TYPE_CRC (mem_put (\<lambda>_. 0) 0 (frame_bytes TYPE_CRC 0x80 [1])) 9 = Some 0"
    using verify_frame_bytes[of TYPE_CRC "\<lambda>_. 0" "0x80" "[1]"] by simp
qed (simp_all add: mem_put_def frame_bytes_def frame_body_def)

end
