(* ===== verification/Transport.thy ===== *)
theory Transport
  imports Framing
begin

text \<open>
  The program state and the transport layer of main.c. Two things lie outside the
  sources: libusb with the phone behind it, and the operating system. The first is a
  parameter: a record \<open>usb\<close> of the two bulk transfer calls over an arbitrary device
  state, nothing about it is assumed here. The second is modelled as far as the program
  uses it: a file store with the failures the code tests for (a file that cannot be
  opened, a full disk, a failing close), and counters of open descriptors and live heap
  blocks. Diagnostic output is not part of the state.
\<close>

section \<open>The host\<close>

record host =
  files :: "string \<rightharpoonup> byte list"    \<comment> \<open>regular files and their contents\<close>
  nonreg :: "string \<Rightarrow> bool"            \<comment> \<open>paths that exist and are not regular files\<close>
  denied :: "string \<Rightarrow> bool"            \<comment> \<open>paths \<open>open\<close> refuses\<close>
  space :: nat                          \<comment> \<open>bytes the disk still takes\<close>
  close_ok :: bool                      \<comment> \<open>whether \<open>close\<close> succeeds\<close>
  heap_ok :: bool                       \<comment> \<open>whether \<open>malloc\<close> succeeds\<close>
  fds :: nat                            \<comment> \<open>open descriptors\<close>
  allocs :: nat                         \<comment> \<open>live heap blocks\<close>

text \<open>\<open>malloc\<close> with the buffer taken. The functions that test its result for a null pointer ask \<open>heap_ok\<close>
  first; the others use the buffer as if it was there, and are modelled for a heap that has room.\<close>

definition malloc :: "'a host_scheme \<Rightarrow> 'a host_scheme" where
  "malloc s = s\<lparr>allocs := Suc (allocs s)\<rparr>"

definition free :: "'a host_scheme \<Rightarrow> 'a host_scheme" where
  "free s = s\<lparr>allocs := allocs s - 1\<rparr>"

text \<open>\<open>open(name, O_RDONLY)\<close>: the contents of the file, or \<open>None\<close> for the result -1.\<close>

definition open_rd :: "string \<Rightarrow> 'a host_scheme \<Rightarrow> byte list option \<times> 'a host_scheme" where
  "open_rd name s =
     (case files s name of
        None \<Rightarrow> (None, s)
      | Some c \<Rightarrow> if denied s name then (None, s) else (Some c, s\<lparr>fds := Suc (fds s)\<rparr>))"

text \<open>\<open>open(name, O_CREAT|O_WRONLY|O_TRUNC)\<close>.\<close>

definition open_wr :: "string \<Rightarrow> 'a host_scheme \<Rightarrow> bool \<times> 'a host_scheme" where
  "open_wr name s =
     (if denied s name \<or> nonreg s name then (False, s)
      else (True, s\<lparr>files := (files s)(name \<mapsto> []), fds := Suc (fds s)\<rparr>))"

text \<open>\<open>write\<close> to the file opened last under \<open>name\<close>: the number of bytes that fit, or -1.\<close>

definition write_fd :: "string \<Rightarrow> byte list \<Rightarrow> 'a host_scheme \<Rightarrow> int \<times> 'a host_scheme" where
  "write_fd name bs s =
     (let n = min (length bs) (space s) in
      if n = 0 \<and> bs \<noteq> [] then (- 1, s)
      else (int n, s\<lparr>files := (files s)(name \<mapsto> (case files s name of None \<Rightarrow> [] | Some c \<Rightarrow> c) @ take n bs),
                      space := space s - n\<rparr>))"

definition close_fd :: "'a host_scheme \<Rightarrow> int \<times> 'a host_scheme" where
  "close_fd s = (if close_ok s then 0 else - 1, s\<lparr>fds := fds s - 1\<rparr>)"

text \<open>\<open>get_file_size\<close>: an \<open>unsigned long\<close>, all ones if \<open>stat\<close> fails. (For a path that is not
  a regular file \<open>st_size\<close> is unspecified; the model takes 0.)\<close>

definition get_file_size :: "string \<Rightarrow> 'a host_scheme \<Rightarrow> u64" where
  "get_file_size path s =
     (case files s path of Some c \<Rightarrow> of_nat (length c) | None \<Rightarrow> if nonreg s path then 0 else - 1)"

section \<open>The device and the program state\<close>

record 'd usb =
  bulk_out :: "'d \<Rightarrow> byte list \<Rightarrow> int \<times> 'd"
  bulk_in :: "'d \<Rightarrow> nat \<Rightarrow> int \<times> byte list \<times> 'd"

record 'd st = host +
  dev :: 'd
  data_buffer :: mem
  checksum_type :: byte

lemma malloc_free_frame [simp]:
  "dev (malloc s) = dev s" "data_buffer (malloc s) = data_buffer s" "checksum_type (malloc s) = checksum_type s"
  "dev (free s) = dev s" "data_buffer (free s) = data_buffer s" "checksum_type (free s) = checksum_type s"
  by (simp_all add: malloc_def free_def)

definition DATA_BUFFER_SIZE :: nat where "DATA_BUFFER_SIZE = 0x400000"

definition sprd_usb_transfer :: "'d usb \<Rightarrow> byte list \<Rightarrow> 'd st \<Rightarrow> int \<times> 'd st" where
  "sprd_usb_transfer U data s = (let (r, d) = bulk_out U (dev s) data in (r, s\<lparr>dev := d\<rparr>))"

text \<open>\<open>sprd_usb_receive\<close> always offers \<open>DATA_BUFFER_SIZE\<close> bytes, whatever the caller's buffer
  holds; the bytes that arrived are returned here and stored by the callers below.\<close>

definition sprd_usb_receive :: "'d usb \<Rightarrow> 'd st \<Rightarrow> int \<times> byte list \<times> 'd st" where
  "sprd_usb_receive U s =
     (let (r, bs, d) = bulk_in U (dev s) DATA_BUFFER_SIZE in (r, bs, s\<lparr>dev := d\<rparr>))"

text \<open>Receiving into a buffer of \<open>cap\<close> bytes: more bytes than it holds is a buffer overflow.\<close>

definition recv_into :: "'d usb \<Rightarrow> nat \<Rightarrow> mem \<Rightarrow> 'd st \<Rightarrow> (int \<times> nat \<times> mem \<times> 'd st) option" where
  "recv_into U cap m s =
     (let (r, bs, s') = sprd_usb_receive U s in
      if cap < length bs then None else Some (r, length bs, mem_put m 0 bs, s'))"

definition recv_data :: "'d usb \<Rightarrow> 'd st \<Rightarrow> (int \<times> nat \<times> 'd st) option" where
  "recv_data U s = do {
     (r, cnt, m, s) \<leftarrow> recv_into U DATA_BUFFER_SIZE (data_buffer s) s;
     Some (r, cnt, s\<lparr>data_buffer := m\<rparr>) }"

definition sprd_com_nodata :: "'d usb \<Rightarrow> byte \<Rightarrow> 'd st \<Rightarrow> int \<times> 'd st" where
  "sprd_com_nodata U bsl_com_byte s =
     (let head = [SPRD_START_BYTE, 0x00, bsl_com_byte, 0x00, 0x00];
          crc = checksum_list (checksum_type s) (drop 1 head);
          frame = head @ [ucast (drop_bit 8 crc), ucast (crc AND 0xff), SPRD_END_BYTE]
      in sprd_usb_transfer U frame (s\<lparr>data_buffer := mem_put (data_buffer s) 0 frame\<rparr>))"

definition sprd_version :: "'d usb \<Rightarrow> 'd st \<Rightarrow> (int \<times> 'd st) option" where
  "sprd_version U s0 = do {
     let s = s0\<lparr>data_buffer := (data_buffer s0)(0 := SPRD_START_BYTE)\<rparr>;
     let (r, s) = sprd_usb_transfer U [SPRD_START_BYTE] s;
     if r \<noteq> 0 then Some (r, s)
     else do {
       (r, cnt, s) \<leftarrow> recv_data U s;
       if r \<noteq> 0 then Some (r, s)
       else do {
         v \<leftarrow> sprd_verify_frame (checksum_type s) (data_buffer s) cnt;
         Some (v, s) } } }"

text \<open>Receive a reply, verify it and require the type \<open>BSL_REP_ACK\<close>: the common tail of the
  command functions.\<close>

definition recv_ack :: "'d usb \<Rightarrow> 'd st \<Rightarrow> (int \<times> 'd st) option" where
  "recv_ack U s = do {
     (r, cnt, s) \<leftarrow> recv_data U s;
     if r \<noteq> 0 then Some (r, s)
     else do {
       v \<leftarrow> sprd_verify_frame (checksum_type s) (data_buffer s) cnt;
       if v \<noteq> 0 then Some (v, s)
       else if data_buffer s SPRD_FRAME_TYPE_OFF \<noteq> bsl BSL_REP_ACK then Some (- 1, s)
       else Some (0, s) } }"

definition com_ack :: "'d usb \<Rightarrow> byte \<Rightarrow> 'd st \<Rightarrow> (int \<times> 'd st) option" where
  "com_ack U c s =
     (let (r, s) = sprd_com_nodata U c s in if r \<noteq> 0 then Some (r, s) else recv_ack U s)"

definition sprd_connect :: "'d usb \<Rightarrow> 'd st \<Rightarrow> (int \<times> 'd st) option" where
  "sprd_connect U s = com_ack U (bsl BSL_CMD_CONNECT) s"

definition sprd_exec_data :: "'d usb \<Rightarrow> 'd st \<Rightarrow> (int \<times> 'd st) option" where
  "sprd_exec_data U s = com_ack U (bsl BSL_CMD_EXEC_DATA) s"

definition sprd_normal_reset :: "'d usb \<Rightarrow> 'd st \<Rightarrow> (int \<times> 'd st) option" where
  "sprd_normal_reset U s = com_ack U (bsl BSL_CMD_NORMAL_RESET) s"

definition sprd_power_down :: "'d usb \<Rightarrow> 'd st \<Rightarrow> (int \<times> 'd st) option" where
  "sprd_power_down U s = com_ack U (bsl BSL_CMD_POWER_DOWN_TYPE) s"

text \<open>The retry loops \<open>for(i = n; i; i--)\<close> around a receive: the counter at which they stop
  (0: every attempt failed), the last result, the byte count and the buffer.\<close>

fun recv_retry :: "'d usb \<Rightarrow> nat \<Rightarrow> nat \<Rightarrow> int \<Rightarrow> mem \<Rightarrow> 'd st
    \<Rightarrow> (nat \<times> int \<times> nat \<times> mem \<times> 'd st) option" where
  "recv_retry U cap 0 r m s = Some (0, r, 0, m, s)"
| "recv_retry U cap (Suc i) r m s = do {
     (r, cnt, m, s) \<leftarrow> recv_into U cap m s;
     if r \<noteq> 0 then recv_retry U cap i r m s else Some (Suc i, r, cnt, m, s) }"

section \<open>Reading a window of flash\<close>

text \<open>The request all three readers (\<open>sprd_upload\<close>, \<open>USB_disk_read\<close>, \<open>blockdev_bread\<close>) build in
  their \<open>com_buffer\<close>: size and offset are stored in host (little-endian) order.\<close>

definition read_request :: "byte \<Rightarrow> u32 \<Rightarrow> u32 \<Rightarrow> byte list" where
  "read_request ct s_size offset =
     (let head = [SPRD_START_BYTE, 0x00, bsl BSL_CMD_READ_FLASH_MIDST, 0x00, 0x08]
                 @ le32 s_size @ le32 offset;
          crc = checksum_list ct (drop 1 head)
      in head @ [ucast (drop_bit 8 crc), ucast crc, SPRD_END_BYTE])"

text \<open>The \<open>do \<dots> while (s_buffer[i-1] == 0x7d)\<close> loop; \<open>acc\<close> is \<open>s_buffer[0..i)\<close>.\<close>

partial_function (option) recv_chunk ::
  "'d usb \<Rightarrow> nat \<Rightarrow> byte list \<Rightarrow> 'd st \<Rightarrow> ((int + byte list) \<times> 'd st) option" where
  "recv_chunk U cap acc s =
     (case sprd_usb_receive U s of (r, bs, s') \<Rightarrow>
        if cap < length acc + length bs then None
        else if r \<noteq> 0 then Some (Inl r, s')
        else if acc @ bs = [] then None
        else if last (acc @ bs) = 0x7d then recv_chunk U cap (acc @ bs) s'
        else Some (Inr (acc @ bs), s'))"

text \<open>The loop \<open>for(cnt = 0; cnt != s_size + 8;)\<close> around it, which unescapes into
  \<open>data_buffer + cnt\<close>. A chunk does not end in \<open>7d\<close>, so the byte behind it is not read.\<close>

partial_function (option) recv_frame ::
  "'d usb \<Rightarrow> nat \<Rightarrow> nat \<Rightarrow> nat \<Rightarrow> 'd st \<Rightarrow> ((int + nat) \<times> 'd st) option" where
  "recv_frame U cap need cnt s =
     (if cnt = need then Some (Inr cnt, s)
      else Option.bind (recv_chunk U cap [] s) (\<lambda>(x, s).
        case x of
          Inl r \<Rightarrow> Some (Inl r, s)
        | Inr raw \<Rightarrow>
            (let out = sprd_frame_exchange 0 raw 1 in
             if DATA_BUFFER_SIZE < cnt + length out then None
             else recv_frame U cap need (cnt + length out)
                    (s\<lparr>data_buffer := mem_put (data_buffer s) cnt out\<rparr>))))"

text \<open>One turn of a reader's loop: send the request, collect the reply, verify it and take
  the data field. \<open>cap\<close> is the size of \<open>s_buffer\<close>.\<close>

definition read_window :: "'d usb \<Rightarrow> nat \<Rightarrow> u32 \<Rightarrow> u32 \<Rightarrow> 'd st \<Rightarrow> ((int + byte list) \<times> 'd st) option" where
  "read_window U cap s_size offset s =
     (let out = sprd_frame_exchange 0 (read_request (checksum_type s) s_size offset) 0 in
      if cap < length out then None
      else let (r, s) = sprd_usb_transfer U out s in
      if r \<noteq> 0 then Some (Inl r, s)
      else do {
        (x, s) \<leftarrow> recv_frame U cap (unat (s_size + 8)) 0 s;
        case x of
          Inl r \<Rightarrow> Some (Inl r, s)
        | Inr cnt \<Rightarrow> do {
            v \<leftarrow> sprd_verify_frame (checksum_type s) (data_buffer s) cnt;
            if v \<noteq> 0 \<or> data_buffer s SPRD_FRAME_TYPE_OFF \<noteq> bsl BSL_REP_READ_FLASH
            then Some (Inl (- 1), s)
            else Some (Inr (mem_get (data_buffer s) SPRD_FRAME_DATA_OFF (cnt - 8)), s) } })"

end
