(* ===== verification/Flash_Link.thy ===== *)
theory Flash_Link
  imports Transport
begin

text \<open>
  Correctness of the reading protocol. \<open>serves_flash\<close> is what the phone's boot loader is
  relied on to do: answer a read request with a \<open>BSL_REP_READ_FLASH\<close> frame that holds the
  requested bytes, escaped and cut into any non-empty USB packets. Under it the receive
  loops terminate and \<open>read_window\<close> returns exactly these bytes. The locale
  \<open>block_reader\<close> is the interface the two block readers of the program provide to the
  file systems above them.
\<close>

section \<open>Packets\<close>

fun delivers :: "'d usb \<Rightarrow> 'd \<Rightarrow> byte list list \<Rightarrow> 'd \<Rightarrow> bool" where
  "delivers U d [] d' \<longleftrightarrow> d' = d"
| "delivers U d (p # ps) d' \<longleftrightarrow>
     (\<exists>d1. bulk_in U d DATA_BUFFER_SIZE = (0, p, d1) \<and> delivers U d1 ps d')"

lemma delivers_append:
  "delivers U d (ps @ qs) d' \<longleftrightarrow> (\<exists>d1. delivers U d ps d1 \<and> delivers U d1 qs d')"
  by (induction ps arbitrary: d) auto

text \<open>Texts in which every \<open>7d\<close> starts one of the two escapes, as the sender produces them.\<close>

fun esc_ok :: "byte list \<Rightarrow> bool" where
  "esc_ok [] = True"
| "esc_ok [b] = (b \<noteq> 0x7d)"
| "esc_ok (b # c # bs) = (if b = 0x7d then (c = 0x5e \<or> c = 0x5d) \<and> esc_ok bs else esc_ok (c # bs))"

lemma esc_ok_Cons: "b \<noteq> 0x7d \<Longrightarrow> esc_ok (b # bs) = esc_ok bs"
  by (cases bs) auto

lemma esc_ok_stuff_byte: "esc_ok (stuff_byte i n b @ bs) = esc_ok bs"
  by (auto simp: stuff_byte_def esc_ok_Cons)

lemma esc_ok_stuff_from: "esc_ok (stuff_from i n bs)"
  by (induction bs arbitrary: i) (simp_all add: esc_ok_stuff_byte)

lemma esc_ok_last: "esc_ok xs \<Longrightarrow> xs \<noteq> [] \<Longrightarrow> last xs \<noteq> 0x7d"
  by (induction xs rule: esc_ok.induct) (auto split: if_splits)

lemma esc_ok_append: "xs = [] \<or> last xs \<noteq> 0x7d \<Longrightarrow> esc_ok (xs @ ys) \<Longrightarrow> esc_ok ys"
proof (induction xs rule: esc_ok.induct)
  case (2 b)
  then show ?case by (simp add: esc_ok_Cons)
next
  case (3 b c bs)
  then show ?case by (cases bs) (auto simp: esc_ok_Cons split: if_splits)
qed simp

lemma unstuff_nonempty: "esc_ok xs \<Longrightarrow> xs \<noteq> [] \<Longrightarrow> unstuff nxt xs \<noteq> []"
  by (induction xs rule: esc_ok.induct) (auto simp: unstuff_byte_def split: if_splits)

section \<open>The receive loops\<close>

lemma recv_chunk_delivers:
  assumes "delivers U (dev s) ps d'" and "\<forall>p\<in>set ps. p \<noteq> []" and "ps \<noteq> []"
    and "last (acc @ concat ps) \<noteq> 0x7d" and "length acc + length (concat ps) \<le> cap"
  shows "\<exists>qs rs d1. ps = qs @ rs \<and> qs \<noteq> [] \<and> last (acc @ concat qs) \<noteq> 0x7d \<and>
    delivers U d1 rs d' \<and> recv_chunk U cap acc s = Some (Inr (acc @ concat qs), s\<lparr>dev := d1\<rparr>)"
  using assms
proof (induction ps arbitrary: acc s)
  case (Cons p ps)
  obtain d1 where d1: "bulk_in U (dev s) DATA_BUFFER_SIZE = (0, p, d1)" "delivers U d1 ps d'"
    using Cons.prems(1) by auto
  have p: "p \<noteq> []" using Cons.prems(2) by simp
  have rc: "sprd_usb_receive U s = (0, p, s\<lparr>dev := d1\<rparr>)"
    by (simp add: sprd_usb_receive_def d1)
  have len: "\<not> cap < length acc + length p" using Cons.prems(5) by simp
  show ?case
  proof (cases "last (acc @ p) = 0x7d")
    case False
    then have "recv_chunk U cap acc s = Some (Inr (acc @ p), s\<lparr>dev := d1\<rparr>)"
      using p len by (subst recv_chunk.simps) (simp add: rc)
    with False d1(2) show ?thesis by (intro exI[of _ "[p]"] exI[of _ ps] exI[of _ d1]) simp
  next
    case True
    then have ps: "ps \<noteq> []" using Cons.prems(4) by auto
    have "\<exists>qs rs d2. ps = qs @ rs \<and> qs \<noteq> [] \<and> last ((acc @ p) @ concat qs) \<noteq> 0x7d \<and>
        delivers U d2 rs d' \<and>
        recv_chunk U cap (acc @ p) (s\<lparr>dev := d1\<rparr>) =
          Some (Inr ((acc @ p) @ concat qs), (s\<lparr>dev := d1\<rparr>)\<lparr>dev := d2\<rparr>)"
      using Cons.prems ps d1(2) by (intro Cons.IH) simp_all
    then obtain qs rs d2 where q: "ps = qs @ rs" "qs \<noteq> []" "last ((acc @ p) @ concat qs) \<noteq> 0x7d"
      "delivers U d2 rs d'" "recv_chunk U cap (acc @ p) (s\<lparr>dev := d1\<rparr>) =
          Some (Inr ((acc @ p) @ concat qs), s\<lparr>dev := d2\<rparr>)" by auto
    have "recv_chunk U cap acc s = recv_chunk U cap (acc @ p) (s\<lparr>dev := d1\<rparr>)"
      using p len True by (subst recv_chunk.simps) (simp add: rc)
    with q show ?thesis by (intro exI[of _ "p # qs"] exI[of _ rs] exI[of _ d2]) simp
  qed
qed simp

lemma recv_frame_delivers:
  assumes "delivers U (dev s) ps d'" and "\<forall>p\<in>set ps. p \<noteq> []" and "esc_ok (concat ps)"
    and "length (concat ps) \<le> cap" and "cnt + length (unstuff 0 (concat ps)) = need"
    and "need \<le> DATA_BUFFER_SIZE"
  shows "recv_frame U cap need cnt s =
    Some (Inr need, s\<lparr>dev := d', data_buffer := mem_put (data_buffer s) cnt (unstuff 0 (concat ps))\<rparr>)"
  using assms
proof (induction "length ps" arbitrary: ps cnt s rule: less_induct)
  case less
  show ?case
  proof (cases "ps = []")
    case True
    with less.prems show ?thesis by (subst recv_frame.simps) simp
  next
    case False
    then have ne: "concat ps \<noteq> []" using less.prems(2) by (cases ps) auto
    have "last ([] @ concat ps) \<noteq> 0x7d" using esc_ok_last[OF less.prems(3) ne] by simp
    then obtain qs rs d1 where q: "ps = qs @ rs" "qs \<noteq> []" "last (concat qs) \<noteq> 0x7d"
      "delivers U d1 rs d'" "recv_chunk U cap [] s = Some (Inr (concat qs), s\<lparr>dev := d1\<rparr>)"
      using recv_chunk_delivers[OF less.prems(1,2) False, of "[]" cap] less.prems(4) by auto
    let ?o = "unstuff 0 (concat qs)"
    have split: "unstuff 0 (concat ps) = ?o @ unstuff 0 (concat rs)"
      using unstuff_append[of "concat qs" 0 "concat rs" 0] q by simp
    have nz: "cnt \<noteq> need" using less.prems(5) unstuff_nonempty[OF less.prems(3) ne, of 0] by auto
    let ?s = "s\<lparr>dev := d1, data_buffer := mem_put (data_buffer s) cnt ?o\<rparr>"
    have rs: "esc_ok (concat rs)" using esc_ok_append[of "concat qs" "concat rs"] q less.prems(3) by simp
    have rec: "recv_frame U cap need (cnt + length ?o) ?s = Some (Inr need, ?s\<lparr>dev := d',
        data_buffer := mem_put (data_buffer ?s) (cnt + length ?o) (unstuff 0 (concat rs))\<rparr>)"
      using q rs less.prems split by (intro less.hyps) auto
    have "recv_frame U cap need cnt s = recv_frame U cap need (cnt + length ?o) ?s"
      using nz less.prems(5,6) split by (subst recv_frame.simps) (simp add: q(5) Let_def)
    also note rec
    finally show ?thesis by (simp add: split mem_put_put_append)
  qed
qed

section \<open>What the phone is relied on to do\<close>

definition on_wire :: "byte list \<Rightarrow> byte list" where
  "on_wire frame = sprd_frame_exchange 0 frame 0"

definition serves_flash ::
  "'d usb \<Rightarrow> byte \<Rightarrow> nat \<Rightarrow> nat \<Rightarrow> ('d \<Rightarrow> bool) \<Rightarrow> byte list \<Rightarrow> bool" where
  "serves_flash U ct cap win ready flash \<longleftrightarrow>
     (\<forall>d len offset. ready d \<longrightarrow> unat len \<le> win \<longrightarrow> unat offset + unat len \<le> length flash \<longrightarrow>
       (\<exists>d1 ps d2. bulk_out U d (on_wire (read_request ct len offset)) = (0, d1) \<and>
          delivers U d1 ps d2 \<and> (\<forall>p\<in>set ps. p \<noteq> []) \<and> length (concat ps) \<le> cap \<and>
          concat ps = on_wire (frame_bytes ct (bsl BSL_REP_READ_FLASH)
                                 (take (unat len) (drop (unat offset) flash))) \<and>
          ready d2))"

lemma read_request_frame:
  "read_request ct s_size offset = frame_bytes ct (bsl BSL_CMD_READ_FLASH_MIDST) (le32 s_size @ le32 offset)"
  by (simp add: read_request_def frame_bytes_def frame_body_def be16_def le32_def Let_def)

lemma length_read_request_wire: "length (on_wire (read_request ct s_size offset)) \<le> 30"
  using length_stuff_frame[of "frame_body (bsl BSL_CMD_READ_FLASH_MIDST) (le32 s_size @ le32 offset) @
    be16 (checksum_list ct (frame_body (bsl BSL_CMD_READ_FLASH_MIDST) (le32 s_size @ le32 offset)))"]
  by (simp add: on_wire_def read_request_frame frame_bytes_framed)

lemma esc_ok_on_wire: "esc_ok (on_wire frame)"
  by (simp add: on_wire_def esc_ok_stuff_from)

lemma unstuff_on_wire: "unstuff nxt (on_wire frame) = frame"
  by (simp add: on_wire_def unstuff_stuff_from)

lemma length_on_wire_frame: "length (on_wire (frame_bytes ct ty dat)) \<le> 2 * length dat + 14"
  unfolding on_wire_def exchange_0 frame_bytes_framed
  by (rule order_trans[OF length_stuff_frame]) simp

lemma on_wire_nonempty: "frame \<noteq> [] \<Longrightarrow> on_wire frame \<noteq> []"
  using unstuff_on_wire[of 0 frame] by auto

text \<open>Reading one window: the loops end, the reply is accepted and its data field returned.\<close>

lemma read_window_ok:
  assumes serves: "serves_flash U (checksum_type s) cap win ready flash"
    and ready: "ready (dev s)" and cap: "30 \<le> cap" and win: "win + 8 \<le> DATA_BUFFER_SIZE"
    and len: "unat len \<le> win" and rng: "unat offset + unat len \<le> length flash"
  shows "\<exists>d m. read_window U cap len offset s =
      Some (Inr (take (unat len) (drop (unat offset) flash)), s\<lparr>dev := d, data_buffer := m\<rparr>) \<and> ready d"
proof -
  let ?ct = "checksum_type s" and ?dat = "take (unat len) (drop (unat offset) flash)"
  let ?f = "frame_bytes ?ct (bsl BSL_REP_READ_FLASH) ?dat"
  obtain d1 ps d2 where o: "bulk_out U (dev s) (on_wire (read_request ?ct len offset)) = (0, d1)"
    and del: "delivers U d1 ps d2" and ne: "\<forall>p\<in>set ps. p \<noteq> []" and pcap: "length (concat ps) \<le> cap"
    and wire: "concat ps = on_wire ?f" and rd: "ready d2"
    using serves ready len rng unfolding serves_flash_def by meson
  have dat: "length ?dat = unat len" using rng by simp
  have need: "unat (len + 8) = unat len + 8"
    using len win by (subst unat_add_lem[THEN iffD1]) (auto simp: DATA_BUFFER_SIZE_def)
  have fr: "recv_frame U cap (unat (len + 8)) 0 (s\<lparr>dev := d1\<rparr>) = Some (Inr (unat len + 8),
      s\<lparr>dev := d2, data_buffer := mem_put (data_buffer s) 0 ?f\<rparr>)"
    using recv_frame_delivers[of U "s\<lparr>dev := d1\<rparr>" ps d2 cap 0 "unat len + 8"]
      del ne pcap dat len win by (simp add: need wire esc_ok_on_wire unstuff_on_wire)
  have ver: "sprd_verify_frame ?ct (mem_put (data_buffer s) 0 ?f) (unat len + 8) = Some 0"
    using verify_frame_bytes[of ?ct "data_buffer s" _ ?dat] dat by (simp add: add.commute)
  have ty: "mem_put (data_buffer s) 0 ?f SPRD_FRAME_TYPE_OFF = bsl BSL_REP_READ_FLASH"
    by (simp add: mem_put_in frame_bytes_nth SPRD_FRAME_TYPE_OFF_def
        frame_bytes_nth(2)[unfolded SPRD_FRAME_TYPE_OFF_def])
  have pay: "mem_get (mem_put (data_buffer s) 0 ?f) SPRD_FRAME_DATA_OFF (unat len) = ?dat"
    using dat by (subst mem_get_put) (simp_all add: frame_bytes_nth(3), simp add: SPRD_FRAME_DATA_OFF_def)
  have "length (on_wire (read_request ?ct len offset)) \<le> cap"
    using length_read_request_wire cap by (rule order_trans)
  then have "read_window U cap len offset s =
      Some (Inr ?dat, s\<lparr>dev := d2, data_buffer := mem_put (data_buffer s) 0 ?f\<rparr>)"
    unfolding read_window_def on_wire_def[symmetric] sprd_usb_transfer_def Let_def
    using fr ver ty pay by (simp add: o)
  with rd show ?thesis by blast
qed

section \<open>Command exchanges\<close>

text \<open>The phone takes a message and answers with an acknowledgement; a command without data is
  such a message.\<close>

definition acked :: "'d usb \<Rightarrow> byte \<Rightarrow> byte list \<Rightarrow> 'd \<Rightarrow> 'd \<Rightarrow> bool" where
  "acked U ct msg d d' \<longleftrightarrow>
     (\<exists>d1 dat. bulk_out U d msg = (0, d1) \<and> length dat + 8 \<le> DATA_BUFFER_SIZE \<and>
        bulk_in U d1 DATA_BUFFER_SIZE = (0, frame_bytes ct (bsl BSL_REP_ACK) dat, d'))"

definition acks :: "'d usb \<Rightarrow> byte \<Rightarrow> byte \<Rightarrow> 'd \<Rightarrow> 'd \<Rightarrow> bool" where
  "acks U ct c d d' \<longleftrightarrow> acked U ct (frame_bytes ct c []) d d'"

text \<open>Within \<open>k\<close> attempts a receive succeeds and delivers \<open>bs\<close>; failed attempts may leave
  fragments of at most \<open>cap\<close> bytes behind.\<close>

fun replies :: "'d usb \<Rightarrow> nat \<Rightarrow> nat \<Rightarrow> 'd \<Rightarrow> byte list \<Rightarrow> 'd \<Rightarrow> bool" where
  "replies U cap 0 d bs d' \<longleftrightarrow> False"
| "replies U cap (Suc k) d bs d' \<longleftrightarrow>
     (case bulk_in U d DATA_BUFFER_SIZE of (r, x, d1) \<Rightarrow>
        length x \<le> cap \<and> (if r = 0 then x = bs \<and> d' = d1 else replies U cap k d1 bs d'))"

lemma com_nodata_frame:
  "sprd_com_nodata U c s = sprd_usb_transfer U (frame_bytes (checksum_type s) c [])
     (s\<lparr>data_buffer := mem_put (data_buffer s) 0 (frame_bytes (checksum_type s) c [])\<rparr>)"
proof -
  have "(ucast (crc AND 0xff) :: byte) = ucast (crc :: u16)" for crc
    by (rule bit_word_eqI) (simp add: and_255 bit_simps)
  then show ?thesis
    by (simp add: sprd_com_nodata_def frame_bytes_def frame_body_def be16_def Let_def)
qed

lemma recv_ack_ok:
  assumes "bulk_in U (dev s) DATA_BUFFER_SIZE = (0, frame_bytes (checksum_type s) (bsl BSL_REP_ACK) dat, d')"
    and "length dat + 8 \<le> DATA_BUFFER_SIZE"
  shows "recv_ack U s = Some (0, s\<lparr>dev := d',
    data_buffer := mem_put (data_buffer s) 0 (frame_bytes (checksum_type s) (bsl BSL_REP_ACK) dat)\<rparr>)"
proof -
  let ?f = "frame_bytes (checksum_type s) (bsl BSL_REP_ACK) dat"
  have "mem_put (data_buffer s) 0 ?f SPRD_FRAME_TYPE_OFF = bsl BSL_REP_ACK"
    using frame_bytes_nth(2)[of "checksum_type s" "bsl BSL_REP_ACK" dat]
    by (simp add: mem_put_in SPRD_FRAME_TYPE_OFF_def)
  then show ?thesis
    using assms verify_frame_bytes[of "checksum_type s" "data_buffer s" "bsl BSL_REP_ACK" dat]
    by (simp add: recv_ack_def recv_data_def recv_into_def sprd_usb_receive_def)
qed

lemma acked_exchange:
  assumes "acked U (checksum_type s) msg (dev s) d'"
  shows "\<exists>s1 m. sprd_usb_transfer U msg s = (0, s1) \<and> recv_ack U s1 = Some (0, s\<lparr>dev := d', data_buffer := m\<rparr>)"
proof -
  obtain d1 dat where o: "bulk_out U (dev s) msg = (0, d1)"
    and l: "length dat + 8 \<le> DATA_BUFFER_SIZE"
    and i: "bulk_in U d1 DATA_BUFFER_SIZE = (0, frame_bytes (checksum_type s) (bsl BSL_REP_ACK) dat, d')"
    using assms by (auto simp: acked_def)
  show ?thesis
    using recv_ack_ok[of U "s\<lparr>dev := d1\<rparr>" dat d'] i l
    by (intro exI[of _ "s\<lparr>dev := d1\<rparr>"] exI) (simp add: sprd_usb_transfer_def o)
qed

lemma com_ack_ok:
  assumes "acks U (checksum_type s) c (dev s) d'"
  shows "\<exists>m. com_ack U c s = Some (0, s\<lparr>dev := d', data_buffer := m\<rparr>)"
proof -
  let ?f = "frame_bytes (checksum_type s) c []"
  let ?s = "s\<lparr>data_buffer := mem_put (data_buffer s) 0 ?f\<rparr>"
  obtain s1 m where "sprd_usb_transfer U ?f ?s = (0, s1)" "recv_ack U s1 = Some (0, ?s\<lparr>dev := d', data_buffer := m\<rparr>)"
    using acked_exchange[of U ?s ?f d'] assms by (auto simp: acks_def)
  then show ?thesis by (auto simp: com_ack_def com_nodata_frame)
qed

lemma recv_retry_ok:
  assumes "replies U cap k (dev s) bs d'"
  shows "\<exists>i m'. recv_retry U cap k r m s = Some (Suc i, 0, length bs, mem_put m' 0 bs, s\<lparr>dev := d'\<rparr>)"
  using assms
proof (induction k arbitrary: r m s)
  case (Suc k)
  obtain r' x d1 where b: "bulk_in U (dev s) DATA_BUFFER_SIZE = (r', x, d1)" by (metis prod_cases3)
  show ?case
  proof (cases "r' = 0")
    case True
    with Suc.prems b show ?thesis by (auto simp: recv_into_def sprd_usb_receive_def)
  next
    case False
    with Suc.prems b have "replies U cap k (dev (s\<lparr>dev := d1\<rparr>)) bs d'" by simp
    from Suc.IH[OF this, of r' "mem_put m 0 x"] False Suc.prems b
    show ?thesis by (simp add: recv_into_def sprd_usb_receive_def)
  qed
qed simp

section \<open>Reading consecutive windows into memory\<close>

text \<open>The loop of \<open>USB_disk_read\<close> and \<open>blockdev_bread\<close>, which are textually the same: windows
  of 12 KiB, each copied behind the one before. The result carries the bytes stored in the
  caller's buffer, also when a later window fails.\<close>

partial_function (option) window_loop ::
  "'d usb \<Rightarrow> u32 \<Rightarrow> u32 \<Rightarrow> u32 \<Rightarrow> byte list \<Rightarrow> 'd st \<Rightarrow> ((int + unit) \<times> byte list \<times> 'd st) option" where
  "window_loop U start_offset up_size offset buff s =
     (if up_size = 0 then Some (Inr (), buff, s)
      else Option.bind (read_window U 0x6000 (if up_size > 0x3000 then 0x3000 else up_size)
                          (offset + start_offset) s)
        (\<lambda>(x, s).
          case x of
            Inl r \<Rightarrow> Some (Inl r, buff, s)
          | Inr dat \<Rightarrow>
              window_loop U start_offset
                (up_size - (if up_size > 0x3000 then 0x3000 else up_size))
                (offset + (if up_size > 0x3000 then 0x3000 else up_size)) (buff @ dat) s))"

text \<open>The device serves \<open>flash\<close> to a program that currently uses the given checksum type.\<close>

definition flash_ok :: "'d usb \<Rightarrow> ('d \<Rightarrow> bool) \<Rightarrow> byte list \<Rightarrow> 'd st \<Rightarrow> bool" where
  "flash_ok U ready flash s \<longleftrightarrow>
     serves_flash U (checksum_type s) 0x6000 0x3000 ready flash \<and> ready (dev s) \<and> length flash \<le> 2 ^ 32"

lemma window_loop_ok:
  assumes "flash_ok U ready flash s" and "unat start + unat offset + unat up_size \<le> length flash"
  shows "\<exists>d m. window_loop U start up_size offset buff s =
      Some (Inr (), buff @ take (unat up_size) (drop (unat start + unat offset) flash),
        s\<lparr>dev := d, data_buffer := m\<rparr>) \<and> flash_ok U ready flash (s\<lparr>dev := d, data_buffer := m\<rparr>)"
  using assms
proof (induction "unat up_size" arbitrary: up_size offset s buff rule: less_induct)
  case less
  show ?case
  proof (cases "up_size = 0")
    case True
    with less.prems show ?thesis
      by (subst window_loop.simps) (intro exI[of _ "dev s"] exI[of _ "data_buffer s"], simp)
  next
    case False
    define n where "n = (if up_size > 0x3000 then 0x3000 else up_size)"
    have n: "unat n \<le> 0x3000" "unat n \<le> unat up_size" "0 < unat n"
      using False unat_gt_0[of up_size] by (auto simp: n_def word_less_nat_alt)
    have lt: "unat start + unat offset < 2 ^ 32"
      using less.prems n by (simp add: flash_ok_def)
    have off: "unat (offset + start) = unat start + unat offset"
      using lt by (subst unat_add_lem[THEN iffD1]) auto
    have srv: "serves_flash U (checksum_type s) 0x6000 0x3000 ready flash" "ready (dev s)"
      using less.prems(1) by (auto simp: flash_ok_def)
    let ?dat = "take (unat n) (drop (unat start + unat offset) flash)"
    obtain d m where w: "read_window U 0x6000 n (offset + start) s = Some (Inr ?dat, s\<lparr>dev := d, data_buffer := m\<rparr>)"
      and rd: "ready d"
      using read_window_ok[OF srv _ _ n(1), of "offset + start"] less.prems(2) n(2)
      by (auto simp: off DATA_BUFFER_SIZE_def)
    let ?s = "s\<lparr>dev := d, data_buffer := m\<rparr>"
    have step: "window_loop U start up_size offset buff s =
        window_loop U start (up_size - n) (offset + n) (buff @ ?dat) ?s"
      unfolding window_loop.simps[of U start up_size] n_def[symmetric] using False w by simp
    have sub: "unat (up_size - n) = unat up_size - unat n"
      using n(2) by (intro unat_sub) (simp add: word_le_nat_alt)
    have ok: "flash_ok U ready flash ?s" using less.prems(1) rd by (simp add: flash_ok_def)
    show ?thesis
    proof (cases "up_size - n = 0")
      case True
      then have "unat up_size = unat n" using n(2) sub by simp
      with True ok show ?thesis
        unfolding step by (subst window_loop.simps) (intro exI[of _ d] exI[of _ m], simp)
    next
      case more: False
      then have "0 < unat up_size - unat n" using sub unat_gt_0[of "up_size - n"] by simp
      then have add: "unat (offset + n) = unat offset + unat n"
        using less.prems n by (subst unat_add_lem[THEN iffD1]) (auto simp: flash_ok_def)
      have "\<exists>d' m'. window_loop U start (up_size - n) (offset + n) (buff @ ?dat) ?s =
          Some (Inr (), (buff @ ?dat) @ take (unat (up_size - n)) (drop (unat start + unat (offset + n)) flash),
            ?s\<lparr>dev := d', data_buffer := m'\<rparr>) \<and> flash_ok U ready flash (?s\<lparr>dev := d', data_buffer := m'\<rparr>)"
        using less.prems n ok by (intro less.hyps) (simp_all add: sub add)
      moreover have "?dat @ take (unat (up_size - n)) (drop (unat start + unat (offset + n)) flash) =
          take (unat up_size) (drop (unat start + unat offset) flash)"
        unfolding sub add add.assoc[symmetric] using n(2) by (rule take_drop_glue)
      ultimately show ?thesis unfolding step by (simp only: append_assoc) auto
    qed
  qed
qed

section \<open>The block reader interface\<close>

text \<open>What the file systems above rely on: a reader of 512-byte blocks that returns 0 and
  the requested part of \<open>flash\<close>, and stays usable.\<close>

locale block_reader =
  fixes bread :: "nat \<Rightarrow> nat \<Rightarrow> 's \<Rightarrow> (int \<times> byte list \<times> 's) option"
    and ok :: "'s \<Rightarrow> bool" and flash :: "byte list"
  assumes bread_ok: "ok s \<Longrightarrow> 512 * (blk + cnt) \<le> length flash \<Longrightarrow> 512 * cnt < 2 ^ 32 \<Longrightarrow>
    \<exists>s'. bread blk cnt s = Some (0, take (512 * cnt) (drop (512 * blk) flash), s') \<and> ok s'"
begin

lemma bread_length:
  assumes "ok s" "512 * (blk + cnt) \<le> length flash" "512 * cnt < 2 ^ 32"
    "bread blk cnt s = Some (r, bs, s')"
  shows "r = 0" "length bs = 512 * cnt" "ok s'"
  using bread_ok[OF assms(1-3)] assms(2,4) by auto

text \<open>Two reads of adjacent ranges give what one read of the whole range gives.\<close>

lemma bread_adjacent:
  assumes "ok s" "512 * (blk + n + k) \<le> length flash" "512 * (n + k) < 2 ^ 32"
  shows "\<exists>xs s1 ys s2. bread blk n s = Some (0, xs, s1) \<and> bread (blk + n) k s1 = Some (0, ys, s2) \<and>
    xs @ ys = take (512 * (n + k)) (drop (512 * blk) flash) \<and> ok s2"
proof -
  obtain s1 where 1: "bread blk n s = Some (0, take (512 * n) (drop (512 * blk) flash), s1)" "ok s1"
    using bread_ok[of s blk n] assms by auto
  obtain s2 where 2: "bread (blk + n) k s1 = Some (0, take (512 * k) (drop (512 * (blk + n)) flash), s2)" "ok s2"
    using bread_ok[OF 1(2), of "blk + n" k] assms by auto
  show ?thesis
    using 1 2 take_drop_glue[of "512 * n" "512 * (n + k)" "512 * blk" flash]
    by (auto simp: algebra_simps)
qed

end

text \<open>The arithmetic both readers do before the loop, when the range lies on the flash.\<close>

lemma window_loop_blocks:
  assumes ok: "flash_ok U ready flash s" and rng: "512 * (blk + cnt) \<le> length flash"
    and cnt: "512 * cnt < 2 ^ 32"
    and up: "unat up_size = 512 * cnt" and start: "unat start = 512 * blk mod 2 ^ 32"
  shows "\<exists>d m. window_loop U start up_size 0 [] s =
      Some (Inr (), take (512 * cnt) (drop (512 * blk) flash), s\<lparr>dev := d, data_buffer := m\<rparr>) \<and>
    flash_ok U ready flash (s\<lparr>dev := d, data_buffer := m\<rparr>)"
proof (cases "cnt = 0")
  case True
  then have "up_size = 0" using up by (simp add: unat_eq_zero)
  with True ok show ?thesis
    by (subst window_loop.simps) (intro exI[of _ "dev s"] exI[of _ "data_buffer s"], simp)
next
  case False
  then have "512 * blk < 2 ^ 32" using rng ok by (simp add: flash_ok_def)
  then have "unat start = 512 * blk" using start by simp
  with window_loop_ok[OF ok, of start 0 up_size "[]"] rng up show ?thesis
    by (simp add: algebra_simps)
qed

end
