(* ===== verification/Upload.thy ===== *)
theory Upload
  imports Flash_Link
begin

text \<open>
  Reading a partition into a file: the session start frame with the partition name, and
  \<open>sprd_upload\<close> of main.c with its window loop. The main result is end-to-end: if the phone
  accepts the session and serves the partition, \<open>sprd_upload\<close> returns 0, the file holds
  exactly the requested prefix of the partition, and no descriptor or heap block is left.
\<close>

section \<open>Definitions\<close>

text \<open>Writing into a fixed-size local buffer; outside of it there is no defined result.\<close>

definition buf_set :: "nat \<Rightarrow> byte list \<Rightarrow> byte list \<Rightarrow> byte list option" where
  "buf_set off xs buf =
     (if off + length xs \<le> length buf then Some (take off buf @ xs @ drop (off + length xs) buf)
      else None)"

text \<open>The loop that stores the partition name as 16-bit characters.\<close>

definition name_bytes :: "string \<Rightarrow> byte list" where
  "name_bytes part_name = concat (map (\<lambda>c. [of_char c, 0x00]) part_name)"

text \<open>The session start frames of \<open>sprd_upload\<close> and \<open>sprd_download_partition\<close>, in the order of
  the stores into \<open>com_buffer\<close>: \<open>len\<close> is the size of the array, \<open>n\<close> that of the frame and
  \<open>flds\<close> the 32-bit fields stored at offset 77. The \<open>n\<close> bytes in use are cleared first;
  those behind them are never sent, their initial value is irrelevant and taken to be 0.\<close>

definition start_frame :: "nat \<Rightarrow> nat \<Rightarrow> byte \<Rightarrow> byte \<Rightarrow> string \<Rightarrow> byte list \<Rightarrow> byte list option" where
  "start_frame len n ct cmd part_name flds = do {
     b \<leftarrow> buf_set 0 [SPRD_START_BYTE, 0x00, cmd, 0x00, of_nat (n - 8)] (replicate len 0x00);
     b \<leftarrow> buf_set (n - 1) [SPRD_END_BYTE] b;
     b \<leftarrow> buf_set 5 (name_bytes part_name) b;
     b \<leftarrow> buf_set 77 flds b;
     b \<leftarrow> buf_set (n - 3) (be16 (checksum_list ct (take (n - 4) (drop 1 b)))) b;
     Some (take n b) }"

definition upload_start :: "byte \<Rightarrow> string \<Rightarrow> byte list option" where
  "upload_start ct part_name =
     start_frame 84 84 ct (bsl BSL_CMD_READ_FLASH_START) part_name (le32 0xffffffff)"

partial_function (option) upload_loop ::
  "'d usb \<Rightarrow> nat \<Rightarrow> u32 \<Rightarrow> string \<Rightarrow> u32 \<Rightarrow> u32 \<Rightarrow> 'd st \<Rightarrow> ((int + unit) \<times> 'd st) option" where
  "upload_loop U cap win_size file_name up_size offset s =
     (if up_size = 0 then Some (Inr (), s)
      else Option.bind (read_window U cap (if up_size > win_size then win_size else up_size) offset s)
        (\<lambda>(x, s).
          case x of
            Inl r \<Rightarrow> Some (Inl r, s)
          | Inr dat \<Rightarrow>
              (case write_fd file_name dat s of (r, s) \<Rightarrow>
                 if r = - 1 then Some (Inl r, s)
                 else if r \<noteq> int (length dat) then Some (Inl r, s)
                 else upload_loop U cap win_size file_name
                        (up_size - (if up_size > win_size then win_size else up_size))
                        (offset + (if up_size > win_size then win_size else up_size)) s)))"

definition sprd_upload :: "'d usb \<Rightarrow> string \<Rightarrow> u32 \<Rightarrow> u32 \<Rightarrow> string \<Rightarrow> 'd st \<Rightarrow> (int \<times> 'd st) option" where
  "sprd_upload U part_name up_size win_size file_name s0 = do {
     let s = malloc s0;
     let cap = unat (win_size * 2);
     com_buffer \<leftarrow> upload_start (checksum_type s) part_name;
     let out = sprd_frame_exchange 0 com_buffer 0;
     if cap < length out then None
     else do {
       let (r, s) = sprd_usb_transfer U out s;
       if r \<noteq> 0 then Some (r, s)
       else do {
         (i, r, cnt, m, s) \<leftarrow> recv_retry U DATA_BUFFER_SIZE 5 r (data_buffer s) s;
         let s = s\<lparr>data_buffer := m\<rparr>;
         if i = 0 then Some (r, s)
         else do {
           v \<leftarrow> sprd_verify_frame (checksum_type s) (data_buffer s) cnt;
           if v \<noteq> 0 then Some (- 1, s)
           else let (ok, s) = open_wr file_name s in
           if \<not> ok then Some (- 1, s)
           else do {
             (x, s) \<leftarrow> upload_loop U cap win_size file_name up_size 0 s;
             case x of
               Inl r \<Rightarrow> Some (r, s)
             | Inr _ \<Rightarrow>
                 let (r, s) = close_fd (free s) in
                 if r \<noteq> 0 then Some (- 1, s)
                 else com_ack U (bsl BSL_CMD_READ_FLASH_END) s } } } } }"

section \<open>The start frame\<close>

lemma length_name_bytes [simp]: "length (name_bytes n) = 2 * length n"
  by (induction n) (auto simp: name_bytes_def)

lemma buf_set_mid:
  "length as = off \<Longrightarrow> length bs = length xs \<Longrightarrow> buf_set off xs (as @ bs @ cs) = Some (as @ xs @ cs)"
  by (simp add: buf_set_def)

text \<open>A partition frame: the name in 72 bytes, zero padded, followed by the given fields. A
  name of up to 36 characters leaves the fields behind it alone, and the buffer the code
  fills is then such a frame.\<close>

definition part_data :: "string \<Rightarrow> byte list \<Rightarrow> byte list" where
  "part_data part_name flds =
     name_bytes part_name @ replicate (72 - 2 * length part_name) 0 @ flds"

lemma length_part_data [simp]:
  "length part_name \<le> 36 \<Longrightarrow> length (part_data part_name flds) = 72 + length flds"
  by (simp add: part_data_def)

lemma start_frame_eq:
  assumes name: "length part_name \<le> 36" and n: "n = 80 + length flds" "n \<le> len" "length flds \<le> 100"
  shows "start_frame len n ct cmd part_name flds = Some (frame_bytes ct cmd (part_data part_name flds))"
proof -
  define nb k j where "nb = name_bytes part_name" and "k = 72 - length nb" and "j = len - n"
  have nb: "length nb + k = 72" "k = 72 - 2 * length part_name" "len = n + j"
    using name n by (simp_all add: nb_def k_def j_def)
  let ?h = "[SPRD_START_BYTE, 0x00, cmd, 0x00, of_nat (n - 8)]"
  let ?z = "\<lambda>n. replicate n (0 :: byte)"
  let ?t = "\<lambda>x y w z. ?h @ x @ ?z k @ y @ w @ z @ ?z j"
  let ?f = "length flds"
  have sz: "be16 (of_nat (length (part_data part_name flds))) = [0x00, of_nat (n - 8)]"
    using name n be16_small[of "n - 8"] by simp
  have 0: "?z len = [] @ ?z 5 @ ?z (length nb) @ ?z k @ ?z ?f @ ?z 2 @ ?z 1 @ ?z j"
    using nb n by (simp only: replicate_add[symmetric] append_Nil) simp
  have 1: "buf_set 0 ?h (?z len) = Some (?t (?z (length nb)) (?z ?f) (?z 2) (?z 1))"
    unfolding 0 by (subst buf_set_mid) simp_all
  have 2: "buf_set (n - 1) [SPRD_END_BYTE] (?t (?z (length nb)) (?z ?f) (?z 2) (?z 1)) =
      Some (?t (?z (length nb)) (?z ?f) (?z 2) [SPRD_END_BYTE])"
    using nb n buf_set_mid[of "?h @ ?z (length nb) @ ?z k @ ?z ?f @ ?z 2" "n - 1" "?z 1" "[SPRD_END_BYTE]" "?z j"]
    by simp
  have 3: "buf_set 5 nb (?t (?z (length nb)) (?z ?f) (?z 2) [SPRD_END_BYTE]) =
      Some (?t nb (?z ?f) (?z 2) [SPRD_END_BYTE])"
    by (rule buf_set_mid) simp_all
  have 4: "buf_set 77 flds (?t nb (?z ?f) (?z 2) [SPRD_END_BYTE]) = Some (?t nb flds (?z 2) [SPRD_END_BYTE])"
    using nb buf_set_mid[of "?h @ nb @ ?z k" 77 "?z ?f" flds "?z 2 @ [SPRD_END_BYTE] @ ?z j"] by simp
  let ?b = "frame_body cmd (part_data part_name flds)"
  have b: "drop 1 (?t nb flds y z) = ?b @ y @ z @ ?z j" "length ?b = n - 4" for y z
    using nb(2) name n sz by (simp_all add: frame_body_def, simp add: part_data_def nb_def)
  have 5: "take (n - 4) (drop 1 (?t nb flds (?z 2) [SPRD_END_BYTE])) = ?b"
    unfolding b(1) using b(2) by simp
  have 6: "buf_set (n - 3) c (?t nb flds (?z 2) [SPRD_END_BYTE]) = Some (?t nb flds c [SPRD_END_BYTE])"
    if "length c = 2" for c
    using nb n that buf_set_mid[of "?h @ nb @ ?z k @ flds" "n - 3" "?z 2" c "[SPRD_END_BYTE] @ ?z j"] by simp
  have t: "?t nb flds c [SPRD_END_BYTE] = ([SPRD_START_BYTE] @ ?b @ c @ [SPRD_END_BYTE]) @ ?z j" for c
    using b(1)[of c "[SPRD_END_BYTE]"] by simp
  have 7: "take n (?t nb flds c [SPRD_END_BYTE]) = [SPRD_START_BYTE] @ ?b @ c @ [SPRD_END_BYTE]"
    if "length c = 2" for c
  proof -
    have "length ([SPRD_START_BYTE] @ ?b @ c @ [SPRD_END_BYTE]) = n" using b(2) that n(1) by simp
    then show ?thesis unfolding t by (metis append_eq_conv_conj)
  qed
  show ?thesis
    unfolding start_frame_def 1 nb_def[symmetric]
    by (simp only: Option.bind.simps 2 3 4 5 6 7 length_be16) (simp add: frame_bytes_def)
qed

lemma upload_start_frame:
  "length part_name \<le> 36 \<Longrightarrow> upload_start ct part_name =
    Some (frame_bytes ct (bsl BSL_CMD_READ_FLASH_START) (part_data part_name (le32 0xffffffff)))"
  unfolding upload_start_def by (rule start_frame_eq) simp_all

section \<open>Correctness of the window loop\<close>

lemma upload_loop_ok:
  assumes "serves_flash U (checksum_type s) cap (unat win) ready flash" and "ready (dev s)"
    and "0 < win" and "30 \<le> cap" and "unat win + 8 \<le> DATA_BUFFER_SIZE"
    and "unat offset + unat up_size \<le> length flash" and "unat offset + unat up_size < 2 ^ 32"
    and "files s fname = Some c" and "unat up_size \<le> space s"
  shows "\<exists>d m. upload_loop U cap win fname up_size offset s =
      Some (Inr (), s\<lparr>dev := d, data_buffer := m,
        files := (files s)(fname \<mapsto> c @ take (unat up_size) (drop (unat offset) flash)),
        space := space s - unat up_size\<rparr>) \<and> ready d"
  using assms
proof (induction "unat up_size" arbitrary: up_size offset s c rule: less_induct)
  case less
  show ?case
  proof (cases "up_size = 0")
    case True
    with less.prems show ?thesis
      by (subst upload_loop.simps)
         (intro exI[of _ "dev s"] exI[of _ "data_buffer s"], simp add: map_upd_triv)
  next
    case False
    define n where "n = (if up_size > win then win else up_size)"
    let ?dat = "take (unat n) (drop (unat offset) flash)"
    have n: "unat n \<le> unat win" "unat n \<le> unat up_size" "0 < unat n"
    proof -
      have "0 < unat up_size" "0 < unat win"
        using False less.prems(3) by (auto simp: unat_gt_0)
      then show "unat n \<le> unat win" "unat n \<le> unat up_size" "0 < unat n"
        by (simp_all add: n_def word_less_nat_alt)
    qed
    obtain d m where w: "read_window U cap n offset s = Some (Inr ?dat, s\<lparr>dev := d, data_buffer := m\<rparr>)"
      and rd: "ready d"
      using read_window_ok[OF less.prems(1,2,4,5) n(1), of offset] less.prems(6) n(2) by auto
    have dat: "length ?dat = unat n" using less.prems(6) n(2) by simp
    let ?s = "s\<lparr>dev := d, data_buffer := m, files := (files s)(fname \<mapsto> c @ ?dat), space := space s - unat n\<rparr>"
    have wr: "write_fd fname ?dat (s\<lparr>dev := d, data_buffer := m\<rparr>) = (int (unat n), ?s)"
      using dat n less.prems(8,9) by (simp add: write_fd_def Let_def min_def)
    have sub: "unat (up_size - n) = unat up_size - unat n"
      using n(2) by (intro unat_sub) (simp add: word_le_nat_alt)
    have add: "unat (offset + n) = unat offset + unat n"
      using n(2) less.prems(7) by (subst unat_add_lem[THEN iffD1]) auto
    have "\<exists>d' m'. upload_loop U cap win fname (up_size - n) (offset + n) ?s =
        Some (Inr (), ?s\<lparr>dev := d', data_buffer := m',
          files := (files ?s)(fname \<mapsto> (c @ ?dat) @ take (unat (up_size - n)) (drop (unat (offset + n)) flash)),
          space := space ?s - unat (up_size - n)\<rparr>) \<and> ready d'"
      using less.prems n rd by (intro less.hyps) (simp_all add: sub add)
    then obtain d' m' where rec: "upload_loop U cap win fname (up_size - n) (offset + n) ?s =
        Some (Inr (), ?s\<lparr>dev := d', data_buffer := m',
          files := (files ?s)(fname \<mapsto> (c @ ?dat) @ take (unat (up_size - n)) (drop (unat (offset + n)) flash)),
          space := space ?s - unat (up_size - n)\<rparr>)" and rd': "ready d'" by auto
    have "uint n \<noteq> - 1" using uint_ge_0[of n] by linarith
    then have step: "upload_loop U cap win fname up_size offset s = upload_loop U cap win fname (up_size - n) (offset + n) ?s"
      unfolding upload_loop.simps[of U cap win fname up_size] n_def[symmetric]
      using False w wr dat by simp
    have cat: "?dat @ take (unat (up_size - n)) (drop (unat (offset + n)) flash) =
        take (unat up_size) (drop (unat offset) flash)"
      unfolding sub add using n(2) by (rule take_drop_glue)
    show ?thesis
      using rec rd' n(2) less.prems(9) unfolding step cat[symmetric]
      by (intro exI[of _ d'] exI[of _ m']) (simp add: sub fun_upd_upd)
  qed
qed

section \<open>The whole transfer\<close>

text \<open>The phone accepts a session start: the start frame is taken, and within five receives
  some well-formed reply arrives (its type is not looked at), after which it is ready.\<close>

definition starts :: "'d usb \<Rightarrow> byte \<Rightarrow> nat \<Rightarrow> byte list \<Rightarrow> 'd \<Rightarrow> 'd \<Rightarrow> bool" where
  "starts U ct cap frame d d' \<longleftrightarrow>
     (\<exists>d1 ty dat. bulk_out U d (on_wire frame) = (0, d1) \<and>
        replies U cap 5 d1 (frame_bytes ct ty dat) d')"

lemma recv_retry_verify:
  assumes "replies U cap k (dev s) (frame_bytes ct ty dat) d'"
  shows "\<exists>i cnt m'. recv_retry U cap k r m s = Some (Suc i, 0, cnt, m', s\<lparr>dev := d'\<rparr>) \<and>
    sprd_verify_frame ct m' cnt = Some 0"
  using recv_retry_ok[OF assms, of r m] verify_frame_bytes by metis

lemma sprd_upload_ok:
  assumes serves: "serves_flash U (checksum_type s) (unat (win * 2)) (unat win) ready flash"
    and start: "starts U (checksum_type s) DATA_BUFFER_SIZE
      (frame_bytes (checksum_type s) (bsl BSL_CMD_READ_FLASH_START) (part_data part (le32 0xffffffff)))
      (dev s) d0" and rd: "ready d0"
    and fin: "\<And>d. ready d \<Longrightarrow> \<exists>d'. acks U (checksum_type s) (bsl BSL_CMD_READ_FLASH_END) d d'"
    and win: "0x100 \<le> unat win" "unat win \<le> 0x10000" and part: "length part \<le> 36"
    and size: "unat up_size \<le> length flash" "unat up_size \<le> space s"
    and host: "\<not> denied s fname" "\<not> nonreg s fname" "close_ok s"
  shows "\<exists>d m. sprd_upload U part up_size win fname s =
    Some (0, s\<lparr>dev := d, data_buffer := m, files := (files s)(fname \<mapsto> take (unat up_size) flash),
      space := space s - unat up_size\<rparr>)"
proof -
  let ?ct = "checksum_type s" and ?cap = "unat (win * 2)"
  let ?fr = "frame_bytes ?ct (bsl BSL_CMD_READ_FLASH_START) (part_data part (le32 0xffffffff))"
  have cap: "?cap = unat win * 2" using win by (simp add: unat_word_ariths)
  obtain d1 ty dat where o: "bulk_out U (dev s) (on_wire ?fr) = (0, d1)"
    and rep: "replies U DATA_BUFFER_SIZE 5 d1 (frame_bytes ?ct ty dat) d0"
    using start by (auto simp: starts_def)
  have out: "length (on_wire ?fr) \<le> ?cap"
    using length_stuff_from(2)[of 0 "length ?fr" ?fr] win part by (simp add: on_wire_def cap)
  let ?s1 = "(malloc s)\<lparr>dev := d1\<rparr>"
  obtain i cnt m where rr: "recv_retry U DATA_BUFFER_SIZE 5 0 (data_buffer s) ?s1 =
      Some (Suc i, 0, cnt, m, ?s1\<lparr>dev := d0\<rparr>)" "sprd_verify_frame ?ct m cnt = Some 0"
    using recv_retry_verify[of U DATA_BUFFER_SIZE 5 ?s1 ?ct ty dat d0 0 "data_buffer s"] rep by auto
  let ?s2 = "s\<lparr>dev := d0, data_buffer := m, files := (files s)(fname \<mapsto> []), fds := Suc (fds s),
    allocs := Suc (allocs s)\<rparr>"
  obtain d2 m2 where lp: "upload_loop U ?cap win fname up_size 0 ?s2 = Some (Inr (), ?s2\<lparr>dev := d2,
      data_buffer := m2, files := (files ?s2)(fname \<mapsto> [] @ take (unat up_size) (drop (unat (0 :: u32)) flash)),
      space := space ?s2 - unat up_size\<rparr>)" and rd2: "ready d2"
    using upload_loop_ok[of U ?s2 ?cap win ready flash 0 up_size fname "[]"] serves rd win size
      unat_less[of up_size] cap by (auto simp: word_less_nat_alt DATA_BUFFER_SIZE_def)
  let ?s3 = "s\<lparr>dev := d2, data_buffer := m2, files := (files s)(fname \<mapsto> take (unat up_size) flash),
      space := space s - unat up_size\<rparr>"
  obtain d3 where "acks U ?ct (bsl BSL_CMD_READ_FLASH_END) d2 d3" using fin rd2 by blast
  then obtain m3 where ca: "com_ack U (bsl BSL_CMD_READ_FLASH_END) ?s3 = Some (0, ?s3\<lparr>dev := d3, data_buffer := m3\<rparr>)"
    using com_ack_ok[of U ?s3 "bsl BSL_CMD_READ_FLASH_END" d3] by auto
  have e2: "snd (open_wr fname ((?s1\<lparr>dev := d0\<rparr>)\<lparr>data_buffer := m\<rparr>)) = ?s2"
    using host by (simp add: open_wr_def malloc_def)
  have e3: "snd (close_fd (free (?s2\<lparr>dev := d2,
      data_buffer := m2, files := (files ?s2)(fname \<mapsto> [] @ take (unat up_size) (drop (unat (0 :: u32)) flash)),
      space := space ?s2 - unat up_size\<rparr>))) = ?s3"
    by (simp add: close_fd_def free_def)
  have b1: "sprd_usb_transfer U (on_wire ?fr) (malloc s) = (0, ?s1)"
    using o by (simp add: sprd_usb_transfer_def malloc_def)
  have b2: "open_wr fname ((?s1\<lparr>dev := d0\<rparr>)\<lparr>data_buffer := m\<rparr>) = (True, ?s2)"
    using e2 host by (simp add: open_wr_def malloc_def prod_eq_iff)
  have b3: "close_fd (free (?s2\<lparr>dev := d2,
      data_buffer := m2, files := (files ?s2)(fname \<mapsto> [] @ take (unat up_size) (drop (unat (0 :: u32)) flash)),
      space := space ?s2 - unat up_size\<rparr>)) = (0, ?s3)"
    using e3 host by (simp add: close_fd_def free_def prod_eq_iff)
  have "sprd_upload U part up_size win fname s = Some (0, ?s3\<lparr>dev := d3, data_buffer := m3\<rparr>)"
    unfolding sprd_upload_def on_wire_def[symmetric]
    using rr out b1 b2 b3 lp ca part
    by (simp add: upload_start_frame Let_def)
  then show ?thesis by (intro exI[of _ d3] exI[of _ m3]) simp
qed

end
