(* ===== verification/Download.thy ===== *)
theory Download
  imports Upload
begin

text \<open>
  Writing a file to the phone: \<open>sprd_download\<close> (to a memory address, used for the two boot
  stages), \<open>get_sum_file\<close> and \<open>sprd_download_partition\<close> (to a named partition). The two
  functions share the text of their sending loop. The main results are end-to-end: a phone
  that collects the data of the \<open>BSL_CMD_MIDST_DATA\<close> frames has exactly the file's bytes at
  the end.
\<close>

section \<open>Definitions\<close>

text \<open>One data frame: the bytes read are in \<open>data_buffer + 5\<close>, header and trailer are stored
  around them, the frame is escaped into \<open>s_buffer\<close> (of \<open>cap\<close> bytes), sent, and the
  acknowledgement received.\<close>

definition send_midst :: "'d usb \<Rightarrow> nat \<Rightarrow> byte list \<Rightarrow> 'd st \<Rightarrow> (int \<times> 'd st) option" where
  "send_midst U cap dat s =
     (let r_size = length dat;
          head = [SPRD_START_BYTE, 0x00, bsl BSL_CMD_MIDST_DATA, of_nat (drop_bit 8 r_size), of_nat r_size] @ dat;
          crc = checksum_list (checksum_type s) (drop 1 head);
          frame = head @ [ucast (drop_bit 8 crc), ucast crc, SPRD_END_BYTE];
          out = sprd_frame_exchange 0 frame 0
      in if DATA_BUFFER_SIZE < r_size + 8 \<or> cap < length out then None
         else let (r, s) = sprd_usb_transfer U out (s\<lparr>data_buffer := mem_put (data_buffer s) 0 frame\<rparr>) in
         if r \<noteq> 0 then Some (r, s) else recv_ack U s)"

text \<open>The loop \<open>while(download_size)\<close>; \<open>rest\<close> is what the descriptor still has to read. Reading
  nothing leaves both the buffer and the descriptor behind, a failed exchange frees the
  buffer only.\<close>

function download_loop ::
  "'d usb \<Rightarrow> nat \<Rightarrow> u32 \<Rightarrow> u32 \<Rightarrow> byte list \<Rightarrow> 'd st \<Rightarrow> ((int + unit) \<times> 'd st) option" where
  "download_loop U cap win_size download_size rest s =
     (if download_size = 0 then Some (Inr (), s)
      else let want = (if download_size > win_size then win_size else download_size);
               dat = take (unat want) rest
      in if dat = [] then Some (Inl (- 1), s)
      else do {
        (r, s) \<leftarrow> send_midst U cap dat s;
        if r \<noteq> 0 then Some (Inl r, free s)
        else download_loop U cap win_size (download_size - of_nat (length dat)) (drop (length dat) rest) s })"
  by pat_completeness auto
termination
  by (relation "measure (\<lambda>(U, cap, win, size, rest, s). length rest)") auto

declare download_loop.simps [simp del]

text \<open>The start frame of \<open>sprd_download\<close>, address and size in big-endian order; it is sent as it
  is, without escaping.\<close>

definition download_start :: "byte \<Rightarrow> u32 \<Rightarrow> u32 \<Rightarrow> byte list" where
  "download_start ct dst_addr download_size =
     (let head = [SPRD_START_BYTE, 0x00, bsl BSL_CMD_START_DATA, 0x00, 0x08] @ be32 dst_addr @ be32 download_size;
          crc = checksum_list ct (drop 1 head)
      in head @ [ucast (drop_bit 8 crc), ucast crc, SPRD_END_BYTE])"

definition sprd_download ::
  "'d usb \<Rightarrow> string \<Rightarrow> u32 \<Rightarrow> u32 \<Rightarrow> u32 \<Rightarrow> 'd st \<Rightarrow> (int \<times> 'd st) option" where
  "sprd_download U file_name download_size dst_addr win_size s0 = do {
     let (r, s) = sprd_usb_transfer U (download_start (checksum_type s0) dst_addr download_size) s0;
     if r \<noteq> 0 then Some (r, s)
     else do {
       (r, s) \<leftarrow> recv_ack U s;
       if r \<noteq> 0 then Some (r, s)
       else let (fd, s) = open_rd file_name s in
       case fd of
         None \<Rightarrow> Some (- 1, s)
       | Some contents \<Rightarrow> do {
           (x, s) \<leftarrow> download_loop U (unat (win_size * 2)) win_size download_size contents (malloc s);
           case x of
             Inl r \<Rightarrow> Some (r, s)
           | Inr _ \<Rightarrow>
               let (r, s) = close_fd (free s) in
               if r = - 1 then Some (- 1, s) else com_ack U (bsl BSL_CMD_END_DATA) s } } }"

text \<open>\<open>get_sum_file\<close>: the sum of all bytes, read in chunks of 10 KiB. The result of \<open>open\<close> is
  not checked: on a file that cannot be opened \<open>read\<close> returns -1 for ever, and the loop,
  which stops on 0 only, does not end.\<close>

function sum_chunks :: "byte list \<Rightarrow> u32 \<Rightarrow> u32" where
  "sum_chunks rest check_sum =
     (let buff = take 0x2800 rest in
      if buff = [] then check_sum
      else sum_chunks (drop (length buff) rest) (foldl (\<lambda>acc b. acc + ucast b) check_sum buff))"
  by pat_completeness auto
termination
  by (relation "measure (\<lambda>(rest, check_sum). length rest)") auto

declare sum_chunks.simps [simp del]

definition get_sum_file :: "string \<Rightarrow> 'a host_scheme \<Rightarrow> (u32 \<times> 'a host_scheme) option" where
  "get_sum_file pathname s =
     (let (fd, s) = open_rd pathname (malloc s) in
      case fd of
        None \<Rightarrow> None
      | Some contents \<Rightarrow> Some (sum_chunks contents 0, snd (close_fd (free s))))"

text \<open>The start frame of \<open>sprd_download_partition\<close>; \<open>l_fixnv1\<close> carries the sum of the file too.\<close>

definition partition_start :: "string \<Rightarrow> string \<Rightarrow> u32 \<Rightarrow> 'd st \<Rightarrow> (byte list \<times> 'd st) option" where
  "partition_start part_name file_name down_size s =
     (if part_name = ''l_fixnv1'' then do {
        (sum, s) \<leftarrow> get_sum_file file_name s;
        b \<leftarrow> start_frame 100 88 (checksum_type s) (bsl BSL_CMD_START_DATA) part_name (le32 down_size @ le32 sum);
        Some (b, s) }
      else do {
        b \<leftarrow> start_frame 100 84 (checksum_type s) (bsl BSL_CMD_START_DATA) part_name (le32 down_size);
        Some (b, s) })"

definition sprd_download_partition ::
  "'d usb \<Rightarrow> string option \<Rightarrow> string option \<Rightarrow> u32 \<Rightarrow> u32 \<Rightarrow> 'd st \<Rightarrow> (int \<times> 'd st) option" where
  "sprd_download_partition U part file_name down_size win_size s0 =
     (let s = malloc s0; cap = unat (win_size * 2) in
      if down_size = 0 then Some (- 1, s)
      else case (file_name, part) of
        (Some fname, Some pname) \<Rightarrow>
          if files s fname = None \<and> \<not> nonreg s fname then Some (- 1, s)
          else if nonreg s fname then Some (- 1, s)
          else do {
            (com_buffer, s) \<leftarrow> partition_start pname fname down_size s;
            let out = sprd_frame_exchange 0 com_buffer 0;
            if cap < length out then None
            else do {
              let (r, s) = sprd_usb_transfer U out s;
              if r \<noteq> 0 then Some (r, s)
              else do {
                (i, r, cnt, m, s) \<leftarrow> recv_retry U DATA_BUFFER_SIZE 5 r (data_buffer s) s;
                let s = s\<lparr>data_buffer := m\<rparr>;
                if i = 0 then Some (r, s)
                else do {
                  v \<leftarrow> sprd_verify_frame (checksum_type s) (data_buffer s) cnt;
                  if v \<noteq> 0 then Some (- 1, s)
                  else if data_buffer s SPRD_FRAME_TYPE_OFF \<noteq> bsl BSL_REP_ACK then Some (- 1, s)
                  else let (fd, s) = open_rd fname s in
                  case fd of
                    None \<Rightarrow> Some (- 1, s)
                  | Some contents \<Rightarrow> do {
                      (x, s) \<leftarrow> download_loop U cap win_size down_size contents s;
                      case x of
                        Inl r \<Rightarrow> Some (r, s)
                      | Inr _ \<Rightarrow>
                          let (r, s) = close_fd (free s) in
                          if r \<noteq> 0 then Some (- 1, s)
                          else com_ack U (bsl BSL_CMD_END_DATA) s } } } } }
      | _ \<Rightarrow> Some (- 1, s))"

section \<open>The file sum\<close>

lemma sum_chunks_sum: "sum_chunks bs acc = acc + of_nat (\<Sum>b\<leftarrow>bs. unat b)"
proof (induction bs acc rule: sum_chunks.induct)
  case (1 bs acc)
  have fold: "foldl (\<lambda>acc b. acc + ucast b) a xs = a + of_nat (\<Sum>b\<leftarrow>xs. unat b)" for a :: u32 and xs :: "byte list"
    by (induction xs arbitrary: a) (simp_all add: algebra_simps)
  show ?case
  proof (cases "bs = []")
    case False
    let ?k = "length (take 0x2800 bs)"
    have split: "(\<Sum>b\<leftarrow>bs. unat b) = (\<Sum>b\<leftarrow>take 0x2800 bs. unat b) + (\<Sum>b\<leftarrow>drop ?k bs. unat b)"
      by (simp add: min_def flip: sum_list_append map_append)
    from False have "take 0x2800 bs \<noteq> []" by simp
    with 1[OF refl this] show ?thesis
      unfolding split by (subst sum_chunks.simps) (simp add: Let_def fold add.assoc)
  qed (simp add: sum_chunks.simps)
qed

section \<open>Sending the data frames\<close>

lemma be16_of_nat: "[of_nat (drop_bit 8 n), of_nat n] = be16 (of_nat n)"
  using mod_mult2_eq[of n 256 256]
  by (simp add: be16_def word_unat_eq_iff unat_div unat_of_nat unat_ucast_mod drop_bit_eq_div mod_mod_cancel)

lemma send_midst_frame:
  "send_midst U cap dat s =
    (let frame = frame_bytes (checksum_type s) (bsl BSL_CMD_MIDST_DATA) dat in
     if DATA_BUFFER_SIZE < length dat + 8 \<or> cap < length (on_wire frame) then None
     else let (r, s) = sprd_usb_transfer U (on_wire frame) (s\<lparr>data_buffer := mem_put (data_buffer s) 0 frame\<rparr>) in
     if r \<noteq> 0 then Some (r, s) else recv_ack U s)"
proof -
  let ?h = "[SPRD_START_BYTE, 0x00, bsl BSL_CMD_MIDST_DATA, of_nat (drop_bit 8 (length dat)), of_nat (length dat)] @ dat"
  let ?c = "checksum_list (checksum_type s) (drop 1 ?h)"
  have "?h @ [ucast (drop_bit 8 ?c), ucast ?c, SPRD_END_BYTE] =
      frame_bytes (checksum_type s) (bsl BSL_CMD_MIDST_DATA) dat"
    by (simp add: frame_bytes_def frame_body_def be16_of_nat[symmetric]) (simp add: be16_def)
  then show ?thesis unfolding send_midst_def on_wire_def Let_def by (simp only:)
qed

text \<open>What the phone is relied on to do during a download: it takes a data frame, appends its
  data to what it has (\<open>got\<close>) and acknowledges.\<close>

definition collects :: "'d usb \<Rightarrow> byte \<Rightarrow> nat \<Rightarrow> ('d \<Rightarrow> byte list \<Rightarrow> bool) \<Rightarrow> bool" where
  "collects U ct win got \<longleftrightarrow>
     (\<forall>d bs dat. got d bs \<longrightarrow> dat \<noteq> [] \<longrightarrow> length dat \<le> win \<longrightarrow>
       (\<exists>d'. acked U ct (on_wire (frame_bytes ct (bsl BSL_CMD_MIDST_DATA) dat)) d d' \<and> got d' (bs @ dat)))"

text \<open>Every window of the file, or a part of it from its start, fits the send buffer after escaping. A window has at most
  \<open>win\<close> bytes and starts at a multiple of \<open>win\<close>.\<close>

definition fits :: "byte \<Rightarrow> nat \<Rightarrow> nat \<Rightarrow> byte list \<Rightarrow> bool" where
  "fits ct cap win bs \<longleftrightarrow>
     (\<forall>k n. n \<le> win \<longrightarrow> length (on_wire (frame_bytes ct (bsl BSL_CMD_MIDST_DATA) (take n (drop (k * win) bs)))) \<le> cap)"

lemma fits_drop: "fits ct cap win bs \<Longrightarrow> fits ct cap win (drop win bs)"
  unfolding fits_def by (metis drop_drop mult_Suc add.commute)

lemma send_midst_ok:
  assumes "collects U (checksum_type s) win got" "got (dev s) bs" "dat \<noteq> []" "length dat \<le> win"
    and "win + 8 \<le> DATA_BUFFER_SIZE"
    and "length (on_wire (frame_bytes (checksum_type s) (bsl BSL_CMD_MIDST_DATA) dat)) \<le> cap"
  shows "\<exists>d m. send_midst U cap dat s = Some (0, s\<lparr>dev := d, data_buffer := m\<rparr>) \<and> got d (bs @ dat)"
proof -
  let ?f = "frame_bytes (checksum_type s) (bsl BSL_CMD_MIDST_DATA) dat"
  let ?s = "s\<lparr>data_buffer := mem_put (data_buffer s) 0 ?f\<rparr>"
  obtain d where a: "acked U (checksum_type s) (on_wire ?f) (dev s) d" and g: "got d (bs @ dat)"
    using assms(1-4) unfolding collects_def by blast
  obtain s1 m where "sprd_usb_transfer U (on_wire ?f) ?s = (0, s1)"
      "recv_ack U s1 = Some (0, ?s\<lparr>dev := d, data_buffer := m\<rparr>)"
    using acked_exchange[of U ?s "on_wire ?f" d] a by auto
  with g assms(4-6) show ?thesis
    unfolding send_midst_frame by (intro exI[of _ d] exI[of _ m]) (simp add: Let_def)
qed

lemma download_loop_ok:
  assumes "collects U (checksum_type s) (unat win) got" "got (dev s) bs"
    and "0 < unat win" "unat win + 8 \<le> DATA_BUFFER_SIZE" "sz = 0 \<or> fits (checksum_type s) cap (unat win) rest"
    and "unat sz \<le> length rest"
  shows "\<exists>d m. download_loop U cap win sz rest s = Some (Inr (), s\<lparr>dev := d, data_buffer := m\<rparr>) \<and>
    got d (bs @ take (unat sz) rest)"
  using assms
proof (induction "unat sz" arbitrary: sz rest s bs rule: less_induct)
  case less
  show ?case
  proof (cases "sz = 0")
    case True
    with less.prems show ?thesis
      by (subst download_loop.simps) (intro exI[of _ "dev s"] exI[of _ "data_buffer s"], simp)
  next
    case False
    define n where "n = (if sz > win then win else sz)"
    let ?dat = "take (unat n) rest"
    have "0 < unat sz" using False by (auto simp: unat_gt_0)
    then have n: "unat n \<le> unat win" "unat n \<le> unat sz" "0 < unat n"
      using less.prems(3) by (simp_all add: n_def word_less_nat_alt)
    have dat: "length ?dat = unat n" "?dat \<noteq> []" using n less.prems(6) by auto
    have "length (on_wire (frame_bytes (checksum_type s) (bsl BSL_CMD_MIDST_DATA) ?dat)) \<le> cap"
      using less.prems(5) n(1) False unfolding fits_def by (metis drop0 mult_0)
    with send_midst_ok[OF less.prems(1,2) dat(2) _ less.prems(4)] dat n
    obtain d m where w: "send_midst U cap ?dat s = Some (0, s\<lparr>dev := d, data_buffer := m\<rparr>)"
      and g: "got d (bs @ ?dat)" by force
    let ?s = "s\<lparr>dev := d, data_buffer := m\<rparr>"
    have sub: "unat (sz - n) = unat sz - unat n"
      using n(2) by (intro unat_sub) (simp add: word_le_nat_alt)
    have step: "download_loop U cap win sz rest s = download_loop U cap win (sz - n) (drop (unat n) rest) ?s"
      unfolding download_loop.simps[of U cap win sz] n_def[symmetric] using False w dat by (simp add: Let_def)
    have fit: "sz - n = 0 \<or> fits (checksum_type ?s) cap (unat win) (drop (unat n) rest)"
      using less.prems(5) False fits_drop by (auto simp: n_def)
    have "\<exists>d' m'. download_loop U cap win (sz - n) (drop (unat n) rest) ?s =
        Some (Inr (), ?s\<lparr>dev := d', data_buffer := m'\<rparr>) \<and>
        got d' ((bs @ ?dat) @ take (unat (sz - n)) (drop (unat n) rest))"
      using less.prems n g fit by (intro less.hyps) (simp_all add: sub)
    moreover have "?dat @ take (unat (sz - n)) (drop (unat n) rest) = take (unat sz) rest"
      unfolding sub using n(2) take_drop_glue[of "unat n" "unat sz" 0 rest] by simp
    ultimately show ?thesis unfolding step by auto
  qed
qed

section \<open>Download to an address\<close>

text \<open>The end of a session after the loop: buffer and descriptor are given back, the phone
  acknowledges the end and keeps what it has.\<close>

definition finishes :: "'d usb \<Rightarrow> byte \<Rightarrow> ('d \<Rightarrow> byte list \<Rightarrow> bool) \<Rightarrow> bool" where
  "finishes U ct got \<longleftrightarrow> (\<forall>d bs. got d bs \<longrightarrow> (\<exists>d'. acks U ct (bsl BSL_CMD_END_DATA) d d' \<and> got d' bs))"

lemma close_free_balance:
  "close_ok s \<Longrightarrow> close_fd (free (s\<lparr>allocs := Suc (allocs s), fds := Suc (fds s), dev := d, data_buffer := m\<rparr>)) =
    (0, s\<lparr>dev := d, data_buffer := m\<rparr>)"
  by (simp add: close_fd_def free_def)

lemma end_data_ok:
  assumes "finishes U (checksum_type s) got" "got (dev s) bs"
  shows "\<exists>d m. com_ack U (bsl BSL_CMD_END_DATA) s = Some (0, s\<lparr>dev := d, data_buffer := m\<rparr>) \<and> got d bs"
  using assms com_ack_ok[of U s "bsl BSL_CMD_END_DATA"] unfolding finishes_def by blast

lemma open_rd_ok:
  "files s fname = Some c \<Longrightarrow> \<not> denied s fname \<Longrightarrow> open_rd fname s = (Some c, s\<lparr>fds := Suc (fds s)\<rparr>)"
  by (simp add: open_rd_def)

lemma download_start_frame:
  "download_start ct dst sz = frame_bytes ct (bsl BSL_CMD_START_DATA) (be32 dst @ be32 sz)"
  by (simp add: download_start_def frame_bytes_def frame_body_def be16_def Let_def)

lemma sprd_download_ok:
  assumes start: "acked U (checksum_type s)
      (frame_bytes (checksum_type s) (bsl BSL_CMD_START_DATA) (be32 dst @ be32 sz)) (dev s) d0"
    and coll: "collects U (checksum_type s) (unat win) got" "got d0 []" and fin: "finishes U (checksum_type s) got"
    and win: "0 < unat win" "unat win + 8 \<le> DATA_BUFFER_SIZE"
    and fits: "fits (checksum_type s) (unat (win * 2)) (unat win) c" and sz: "unat sz \<le> length c"
    and host: "files s fname = Some c" "\<not> denied s fname" "close_ok s"
  shows "\<exists>d m. sprd_download U fname sz dst win s = Some (0, s\<lparr>dev := d, data_buffer := m\<rparr>) \<and>
    got d (take (unat sz) c)"
proof -
  let ?f = "frame_bytes (checksum_type s) (bsl BSL_CMD_START_DATA) (be32 dst @ be32 sz)"
  obtain s1 m0 where st: "sprd_usb_transfer U ?f s = (0, s1)" "recv_ack U s1 = Some (0, s\<lparr>dev := d0, data_buffer := m0\<rparr>)"
    using acked_exchange[OF start] by blast
  let ?s2 = "malloc (s\<lparr>dev := d0, data_buffer := m0, fds := Suc (fds s)\<rparr>)"
  obtain d1 m1 where lp: "download_loop U (unat (win * 2)) win sz c ?s2 = Some (Inr (), ?s2\<lparr>dev := d1, data_buffer := m1\<rparr>)"
    and g: "got d1 (take (unat sz) c)"
    using download_loop_ok[of U ?s2 win got "[]" sz "unat (win * 2)" c] coll win fits sz by (auto simp: malloc_def)
  let ?s3 = "s\<lparr>dev := d1, data_buffer := m1\<rparr>"
  have cl: "close_fd (free (?s2\<lparr>dev := d1, data_buffer := m1\<rparr>)) = (0, ?s3)"
    using host(3) by (simp add: malloc_def close_fd_def free_def)
  obtain d m where e: "com_ack U (bsl BSL_CMD_END_DATA) ?s3 = Some (0, s\<lparr>dev := d, data_buffer := m\<rparr>)"
    and g': "got d (take (unat sz) c)" using end_data_ok[of U ?s3 got "take (unat sz) c"] fin g by auto
  have op: "open_rd fname (s\<lparr>dev := d0, data_buffer := m0\<rparr>) = (Some c, s\<lparr>dev := d0, data_buffer := m0, fds := Suc (fds s)\<rparr>)"
    using host by (simp add: open_rd_def)
  show ?thesis
    unfolding sprd_download_def Let_def download_start_frame
    using g' by (intro exI[of _ d] exI[of _ m]) (simp add: st op lp cl e del: bsl.simps)
qed

section \<open>Download to a partition\<close>

text \<open>The fields behind the partition name: the size, and for \<open>l_fixnv1\<close> the sum of the file.\<close>

definition start_fields :: "string \<Rightarrow> u32 \<Rightarrow> byte list \<Rightarrow> byte list" where
  "start_fields part sz c =
     le32 sz @ (if part = ''l_fixnv1'' then le32 (of_nat (\<Sum>b\<leftarrow>c. unat b)) else [])"

lemma length_start_fields: "length (start_fields part sz c) \<le> 8" "length (start_fields part sz c) + 80 \<le> 100"
  by (simp_all add: start_fields_def)

lemma partition_start_ok:
  assumes "length part \<le> 36" "files s fname = Some c" "\<not> denied s fname"
  shows "partition_start part fname sz s =
    Some (frame_bytes (checksum_type s) (bsl BSL_CMD_START_DATA) (part_data part (start_fields part sz c)), s)"
proof -
  have "get_sum_file fname s = Some (of_nat (\<Sum>b\<leftarrow>c. unat b), s)"
    using assms by (simp add: get_sum_file_def open_rd_def malloc_def free_def close_fd_def sum_chunks_sum)
  then show ?thesis
    using assms(1) by (simp add: partition_start_def start_fields_def start_frame_eq)
qed

lemma put_frame_type: "mem_put m 0 (frame_bytes ct ty dat) SPRD_FRAME_TYPE_OFF = ty"
  using frame_bytes_nth(2)[of ct ty dat] by (simp add: mem_put_in SPRD_FRAME_TYPE_OFF_def)

text \<open>The phone accepts the session: within five receives it acknowledges the start frame.\<close>

definition starts_ack :: "'d usb \<Rightarrow> byte \<Rightarrow> byte list \<Rightarrow> 'd \<Rightarrow> 'd \<Rightarrow> bool" where
  "starts_ack U ct frame d d' \<longleftrightarrow>
     (\<exists>d1 dat. bulk_out U d (on_wire frame) = (0, d1) \<and>
        replies U DATA_BUFFER_SIZE 5 d1 (frame_bytes ct (bsl BSL_REP_ACK) dat) d')"

lemma sprd_download_partition_ok:
  assumes start: "starts_ack U (checksum_type s) (frame_bytes (checksum_type s) (bsl BSL_CMD_START_DATA)
      (part_data part (start_fields part sz c))) (dev s) d0"
    and coll: "collects U (checksum_type s) (unat win) got" "got d0 []" and fin: "finishes U (checksum_type s) got"
    and win: "0x100 \<le> unat win" "unat win + 8 \<le> DATA_BUFFER_SIZE" and part: "length part \<le> 36"
    and fits: "fits (checksum_type s) (unat (win * 2)) (unat win) c" and sz: "unat sz \<le> length c" "sz \<noteq> 0"
    and host: "files s fname = Some c" "\<not> nonreg s fname" "\<not> denied s fname" "close_ok s"
  shows "\<exists>d m. sprd_download_partition U (Some part) (Some fname) sz win s =
      Some (0, s\<lparr>dev := d, data_buffer := m\<rparr>) \<and> got d (take (unat sz) c)"
proof -
  let ?ct = "checksum_type s" and ?cap = "unat (win * 2)"
  let ?f = "frame_bytes ?ct (bsl BSL_CMD_START_DATA) (part_data part (start_fields part sz c))"
  obtain d1 dat where o: "bulk_out U (dev s) (on_wire ?f) = (0, d1)"
    and rep: "replies U DATA_BUFFER_SIZE 5 d1 (frame_bytes ?ct (bsl BSL_REP_ACK) dat) d0"
    using start by (auto simp: starts_ack_def)
  have cap: "?cap = unat win * 2" using win by (simp add: unat_word_ariths DATA_BUFFER_SIZE_def)
  have out: "length (on_wire ?f) \<le> ?cap"
    using length_on_wire_frame[of ?ct "bsl BSL_CMD_START_DATA" "part_data part (start_fields part sz c)"]
      win part length_start_fields[of part sz c] by (simp add: cap del: bsl.simps)
  let ?s0 = "malloc s" and ?a = "frame_bytes ?ct (bsl BSL_REP_ACK) dat"
  obtain i m where rr: "recv_retry U DATA_BUFFER_SIZE 5 0 (data_buffer s) (?s0\<lparr>dev := d1\<rparr>) =
      Some (Suc i, 0, length ?a, mem_put m 0 ?a, ?s0\<lparr>dev := d0\<rparr>)"
    using recv_retry_ok[of U DATA_BUFFER_SIZE 5 "?s0\<lparr>dev := d1\<rparr>" ?a d0 0 "data_buffer s"] rep by auto
  let ?s2 = "s\<lparr>allocs := Suc (allocs s), dev := d0, data_buffer := mem_put m 0 ?a, fds := Suc (fds s)\<rparr>"
  obtain d2 m2 where lp: "download_loop U ?cap win sz c ?s2 = Some (Inr (), ?s2\<lparr>dev := d2, data_buffer := m2\<rparr>)"
    and g: "got d2 (take (unat sz) c)"
    using download_loop_ok[of U ?s2 win got "[]" sz ?cap c] coll win fits sz by auto
  let ?s3 = "s\<lparr>dev := d2, data_buffer := m2\<rparr>"
  note cl = close_free_balance[OF host(4), where d = d2 and m = m2]
  have op: "open_rd fname (?s0\<lparr>dev := d0, data_buffer := mem_put m 0 ?a\<rparr>) = (Some c, ?s2)"
    using host by (simp add: open_rd_def malloc_def)
  obtain d3 m3 where e: "com_ack U (bsl BSL_CMD_END_DATA) ?s3 = Some (0, s\<lparr>dev := d3, data_buffer := m3\<rparr>)"
    and g': "got d3 (take (unat sz) c)" using end_data_ok[of U ?s3 got "take (unat sz) c"] fin g by auto
  have ps: "partition_start part fname sz ?s0 = Some (?f, ?s0)"
    using partition_start_ok[of part ?s0 fname c sz] part host by (simp add: malloc_def)
  have tr: "sprd_usb_transfer U (on_wire ?f) ?s0 = (0, ?s0\<lparr>dev := d1\<rparr>)"
    by (simp add: sprd_usb_transfer_def o del: bsl.simps)
  have fs: "files ?s0 fname = Some c" "\<not> nonreg ?s0 fname" using host by (simp_all add: malloc_def)
  have ver: "sprd_verify_frame ?ct (mem_put m 0 ?a) (length ?a) = Some 0" by (rule verify_frame_bytes)
  show ?thesis
    unfolding sprd_download_partition_def on_wire_def[symmetric] Let_def
    using g' sz(2) out by (intro exI[of _ d3] exI[of _ m3])
      (simp add: fs ps tr rr ver put_frame_type op lp cl e del: length_frame_bytes bsl.simps)
qed

section \<open>The send buffer is too small\<close>

lemma length_on_wire_special:
  assumes "set dat \<subseteq> {0x7d, 0x7e}"
  shows "2 * length dat + 8 \<le> length (on_wire (frame_bytes ct ty dat))"
proof -
  define h c where "h = [0x00, ty] @ be16 (of_nat (length dat))" and "c = be16 (checksum_list ct (frame_body ty dat))"
  let ?b = "frame_body ty dat @ c"
  have b: "?b = h @ dat @ c" "length h = 4" "length c = 2" by (simp_all add: frame_body_def h_def c_def)
  have "length (on_wire (frame_bytes ct ty dat)) = 2 + length (stuff_from 1 (length ?b + 2) ?b)"
    unfolding on_wire_def exchange_0 frame_bytes_framed stuff_frame c_def by simp
  also have "length (stuff_from 1 (length ?b + 2) ?b) = length (stuff_from 1 (length ?b + 2) h) +
      length (stuff_from 5 (length ?b + 2) dat) + length (stuff_from (5 + length dat) (length ?b + 2) c)"
    unfolding b(1) stuff_from_append b(2) by simp
  also have "length (stuff_from 5 (length ?b + 2) dat) = 2 * length dat"
    using assms b by (intro length_stuff_special) simp_all
  finally show ?thesis
    using length_stuff_from(1)[of h 1 "length ?b + 2"] length_stuff_from(1)[of c "5 + length dat" "length ?b + 2"] b
    by simp
qed

lemma download_loop_special:
  assumes "unat win < 2 ^ 31" "0 < unat win" "unat win \<le> unat sz" "unat win \<le> length rest"
    and "set (take (unat win) rest) \<subseteq> {0x7d, 0x7e}"
  shows "download_loop U (unat (win * 2)) win sz rest s = None"
proof -
  let ?dat = "take (unat win) rest"
  have n: "(if sz > win then win else sz) = win" using assms(3)
    by (auto simp: word_less_nat_alt word_unat_eq_iff)
  have "unat (win * 2) = 2 * length ?dat" using assms(1,4) by (simp add: unat_word_ariths)
  then have "send_midst U (unat (win * 2)) ?dat s = None"
    unfolding send_midst_frame using length_on_wire_special[OF assms(5)]
    by (simp add: Let_def less_le_trans[OF _ length_on_wire_special[OF assms(5)]] del: length_take)
  moreover have "sz \<noteq> 0" "?dat \<noteq> []" using assms by auto
  ultimately show ?thesis
    by (subst download_loop.simps) (simp add: n Let_def)
qed

end
