(* ===== verification/Tasks.thy ===== *)
theory Tasks
  imports Download
begin

text \<open>
  The boot sequence of main.c: \<open>sprd_task_bootrom\<close> talks to the boot ROM with CRC-16 frames and
  loads \<open>fdl1.bin\<close>, \<open>sprd_task_fdl1\<close> talks to that loader and starts \<open>fdl2.bin\<close>. Both find
  their file beside the executable, whose path (the target of \<open>/proc/self/exe\<close>, if it can
  be read) is an argument.
\<close>

section \<open>Definitions\<close>

text \<open>The path of a loader file: \<open>readlink\<close> into an array of 1024 bytes, the name behind the last
  slash cut off and the file name appended. Without a slash the loop runs below the array;
  a long directory makes \<open>strcat\<close> run past it.\<close>

definition fdl_path :: "string option \<Rightarrow> string \<Rightarrow> (int + string) option" where
  "fdl_path exe name =
     (case exe of
        None \<Rightarrow> Some (Inl (- 1))
      | Some link \<Rightarrow>
          let dir = rev (dropWhile (\<lambda>c. c \<noteq> CHR ''/'') (rev (take 1024 link))) in
          if dir = [] then None
          else if 1024 < length dir + length name + 1 then None
          else Some (Inr (dir @ name)))"

definition sprd_task_bootrom :: "'d usb \<Rightarrow> string option \<Rightarrow> 'd st \<Rightarrow> (int \<times> 'd st) option" where
  "sprd_task_bootrom U exe s = do {
     (_, s) \<leftarrow> sprd_version U s;
     (r, s) \<leftarrow> sprd_connect U s;
     if r \<noteq> 0 then Some (r, s)
     else do {
       p \<leftarrow> fdl_path exe ''fdl1.bin'';
       case p of
         Inl r \<Rightarrow> Some (r, s)
       | Inr path \<Rightarrow> do {
           (r, s) \<leftarrow> sprd_download U path (ucast (get_file_size path s)) 0x50000000 528 s;
           if r \<noteq> 0 then Some (r, s) else sprd_exec_data U s } } }"

definition sprd_task_fdl1 :: "'d usb \<Rightarrow> string option \<Rightarrow> 'd st \<Rightarrow> (int \<times> 'd st) option" where
  "sprd_task_fdl1 U exe s = do {
     (r, s) \<leftarrow> sprd_version U s;
     (_, s) \<leftarrow> (if r \<noteq> 0 then sprd_version U s else Some (r, s));
     (r, s) \<leftarrow> sprd_connect U s;
     if r \<noteq> 0 then Some (r, s)
     else do {
       p \<leftarrow> fdl_path exe ''fdl2.bin'';
       case p of
         Inl r \<Rightarrow> Some (r, s)
       | Inr path \<Rightarrow> do {
           (r, s) \<leftarrow> sprd_download U path (ucast (get_file_size path s)) 0x9f000000 2112 s;
           if r \<noteq> 0 then Some (r, s)
           else do {
             let (_, s) = sprd_com_nodata U (bsl BSL_CMD_EXEC_DATA) s;
             (i, r, cnt, m, s) \<leftarrow> recv_retry U DATA_BUFFER_SIZE 15 0 (data_buffer s) s;
             let s = s\<lparr>data_buffer := m\<rparr>;
             if i = 0 then Some (- 1, s)
             else do {
               v \<leftarrow> sprd_verify_frame (checksum_type s) (data_buffer s) cnt;
               Some (0, s) } } } } }"

section \<open>The loader path\<close>

lemma fdl_path_ok:
  assumes "length dir + length name + 2 \<le> 1024" "length dir + length base < 1024" "CHR ''/'' \<notin> set base"
  shows "fdl_path (Some (dir @ CHR ''/'' # base)) name = Some (Inr (dir @ CHR ''/'' # name))"
proof -
  have "dropWhile (\<lambda>c. c \<noteq> CHR ''/'') (rev base @ CHR ''/'' # rev dir) = CHR ''/'' # rev dir"
    using assms(3) by (subst dropWhile_append2) auto
  then show ?thesis using assms by (simp add: fdl_path_def)
qed

section \<open>Loading the first stage\<close>

text \<open>The exchanges around the download: a phone that answers the version request with some
  frame and then acknowledges the connection, going from state \<open>d\<close> to \<open>d'\<close>.\<close>

definition hails :: "'d usb \<Rightarrow> byte \<Rightarrow> 'd \<Rightarrow> 'd \<Rightarrow> bool" where
  "hails U ct d d' \<longleftrightarrow>
     (\<exists>d1 ty dat d2. bulk_out U d [SPRD_START_BYTE] = (0, d1) \<and> length dat + 8 \<le> DATA_BUFFER_SIZE \<and>
        bulk_in U d1 DATA_BUFFER_SIZE = (0, frame_bytes ct ty dat, d2) \<and>
        acks U ct (bsl BSL_CMD_CONNECT) d2 d')"

lemma version_connect_ok:
  assumes "hails U (checksum_type s) (dev s) d'"
  shows "\<exists>m1 d1 m. sprd_version U s = Some (0, s\<lparr>dev := d1, data_buffer := m1\<rparr>) \<and>
    sprd_connect U (s\<lparr>dev := d1, data_buffer := m1\<rparr>) = Some (0, s\<lparr>dev := d', data_buffer := m\<rparr>)"
proof -
  obtain d1 ty dat d2 where h: "bulk_out U (dev s) [SPRD_START_BYTE] = (0, d1)"
      "length dat + 8 \<le> DATA_BUFFER_SIZE"
      "bulk_in U d1 DATA_BUFFER_SIZE = (0, frame_bytes (checksum_type s) ty dat, d2)"
      "acks U (checksum_type s) (bsl BSL_CMD_CONNECT) d2 d'"
    using assms by (auto simp: hails_def)
  let ?f = "frame_bytes (checksum_type s) ty dat"
  let ?m = "mem_put ((data_buffer s)(0 := SPRD_START_BYTE)) 0 ?f"
  have "sprd_version U s = Some (0, s\<lparr>dev := d2, data_buffer := ?m\<rparr>)"
    using h verify_frame_bytes[of "checksum_type s" "(data_buffer s)(0 := SPRD_START_BYTE)" ty dat]
    by (simp add: sprd_version_def sprd_usb_transfer_def recv_data_def recv_into_def sprd_usb_receive_def Let_def)
  moreover obtain m where "com_ack U (bsl BSL_CMD_CONNECT) (s\<lparr>dev := d2, data_buffer := ?m\<rparr>) =
      Some (0, s\<lparr>dev := d', data_buffer := m\<rparr>)"
    using com_ack_ok[of U "s\<lparr>dev := d2, data_buffer := ?m\<rparr>" "bsl BSL_CMD_CONNECT" d'] h(4) by auto
  ultimately show ?thesis unfolding sprd_connect_def by blast
qed

lemma sprd_task_bootrom_ok:
  assumes hail: "hails U (checksum_type s) (dev s) d0"
    and path: "fdl_path exe ''fdl1.bin'' = Some (Inr path)"
    and start: "acked U (checksum_type s) (frame_bytes (checksum_type s) (bsl BSL_CMD_START_DATA)
      (be32 0x50000000 @ be32 (of_nat (length c)))) d0 d1"
    and coll: "collects U (checksum_type s) 528 got" "got d1 []" and fin: "finishes U (checksum_type s) got"
    and exec: "\<And>d. got d c \<Longrightarrow> \<exists>d'. acks U (checksum_type s) (bsl BSL_CMD_EXEC_DATA) d d' \<and> running d' c"
    and fits: "fits (checksum_type s) 1056 528 c" and len: "length c < 2 ^ 32"
    and host: "files s path = Some c" "\<not> denied s path" "close_ok s"
  shows "\<exists>d m. sprd_task_bootrom U exe s = Some (0, s\<lparr>dev := d, data_buffer := m\<rparr>) \<and> running d c"
proof -
  obtain m1 d1' m2 where vc: "sprd_version U s = Some (0, s\<lparr>dev := d1', data_buffer := m1\<rparr>)"
      "sprd_connect U (s\<lparr>dev := d1', data_buffer := m1\<rparr>) = Some (0, s\<lparr>dev := d0, data_buffer := m2\<rparr>)"
    using version_connect_ok[OF hail] by blast
  let ?s = "s\<lparr>dev := d0, data_buffer := m2\<rparr>"
  have sz: "(ucast (get_file_size path ?s) :: u32) = of_nat (length c)" "unat (of_nat (length c) :: u32) = length c"
    using host(1) len by (simp_all add: get_file_size_def word_unat_eq_iff unat_ucast_mod unat_of_nat)
  obtain d m where dl: "sprd_download U path (of_nat (length c)) 0x50000000 528 ?s =
      Some (0, s\<lparr>dev := d, data_buffer := m\<rparr>)" and g: "got d c"
    using sprd_download_ok[of U ?s "0x50000000" "of_nat (length c)" d1 528 got c path] start coll fin fits host sz(2)
    by (auto simp: DATA_BUFFER_SIZE_def)
  obtain d' where "acks U (checksum_type s) (bsl BSL_CMD_EXEC_DATA) d d'" and run: "running d' c"
    using exec g by blast
  then obtain m' where "com_ack U (bsl BSL_CMD_EXEC_DATA) (s\<lparr>dev := d, data_buffer := m\<rparr>) =
      Some (0, s\<lparr>dev := d', data_buffer := m'\<rparr>)"
    using com_ack_ok[of U "s\<lparr>dev := d, data_buffer := m\<rparr>" "bsl BSL_CMD_EXEC_DATA" d'] by auto
  then have "sprd_task_bootrom U exe s = Some (0, s\<lparr>dev := d', data_buffer := m'\<rparr>)"
    by (simp add: sprd_task_bootrom_def vc path sz(1) dl sprd_exec_data_def del: bsl.simps)
  with run show ?thesis by blast
qed

end
