(* ===== verification/Diskio.thy ===== *)
theory Diskio
  imports Upload
begin

text \<open>
  ff12b/src/diskio.c: the disk layer FatFs sits on, attached to the phone's \<open>internalsd\<close>
  partition. Drives 1 and 2 are stubs that return an uninitialised variable, which has no
  defined value. \<open>USB_disk_read\<close> is an instance of the block reader interface.
\<close>

section \<open>Definitions\<close>

definition MAX_SS :: nat where "MAX_SS = 512"

definition STA_NOINIT :: byte where "STA_NOINIT = 0x01"

datatype dresult = RES_OK | RES_ERROR | RES_WRPRT | RES_NOTRDY | RES_PARERR

primrec dres :: "dresult \<Rightarrow> int" where
  "dres RES_OK = 0"
| "dres RES_ERROR = 1"
| "dres RES_WRPRT = 2"
| "dres RES_NOTRDY = 3"
| "dres RES_PARERR = 4"

definition internalsd_partition :: "byte list" where
  "internalsd_partition =
     [0x7e, 0x00, 0x10, 0x00, 0x4c, 0x69, 0x00, 0x6e, 0x00, 0x74, 0x00, 0x65,
      0x00, 0x72, 0x00, 0x6e, 0x00, 0x61, 0x00, 0x6c, 0x00, 0x73, 0x00, 0x64,
      0x00, 0x00, 0x00, 0x00, 0x00, 0x00, 0x00, 0x00, 0x00, 0x00, 0x00, 0x00,
      0x00, 0x00, 0x00, 0x00, 0x00, 0x00, 0x00, 0x00, 0x00, 0x00, 0x00, 0x00,
      0x00, 0x00, 0x00, 0x00, 0x00, 0x00, 0x00, 0x00, 0x00, 0x00, 0x00, 0x00,
      0x00, 0x00, 0x00, 0x00, 0x00, 0x00, 0x00, 0x00, 0x00, 0x00, 0x00, 0x00,
      0x00, 0x00, 0x00, 0x00, 0x00, 0xff, 0xff, 0xff, 0xff, 0xcb, 0x9f, 0x7e]"

text \<open>The session start both flash file systems share: send a prepared frame, wait for a reply
  in a 20-byte stack buffer (whose initial contents are \<open>junk\<close>) and verify it. The reply
  type is not looked at.\<close>

definition send_start :: "'d usb \<Rightarrow> mem \<Rightarrow> byte list \<Rightarrow> 'd st \<Rightarrow> (int \<times> 'd st) option" where
  "send_start U junk prepared s =
     (let (r, s) = sprd_usb_transfer U prepared s in
      if r \<noteq> 0 then Some (r, s)
      else do {
        (i, r, cnt, ack_buffer, s) \<leftarrow> recv_retry U 20 5 r junk s;
        if i = 0 then Some (r, s)
        else do {
          v \<leftarrow> sprd_verify_frame (checksum_type s) ack_buffer cnt;
          Some (if v \<noteq> 0 then 1 else 0, s) } })"

definition USB_disk_initialize :: "'d usb \<Rightarrow> mem \<Rightarrow> 'd st \<Rightarrow> (int \<times> 'd st) option" where
  "USB_disk_initialize U junk s = send_start U junk internalsd_partition s"

definition USB_disk_status :: int where
  "USB_disk_status = dres RES_OK"

definition USB_disk_read :: "'d usb \<Rightarrow> u32 \<Rightarrow> u32 \<Rightarrow> 'd st \<Rightarrow> (int \<times> byte list \<times> 'd st) option" where
  "USB_disk_read U sector count s = do {
     let up_size = of_nat MAX_SS * count;
     let start_offset = of_nat MAX_SS * sector;
     (x, buff, s) \<leftarrow> window_loop U start_offset up_size 0 [] (malloc s);
     case x of
       Inl r \<Rightarrow> Some (r, buff, s)
     | Inr _ \<Rightarrow> Some (0, buff, free s) }"

definition USB_disk_write :: "byte list \<Rightarrow> u32 \<Rightarrow> u32 \<Rightarrow> int" where
  "USB_disk_write buff sector count = dres RES_OK"

text \<open>Closing the session; \<open>blockdev_close\<close> has the same text.\<close>

definition send_end :: "'d usb \<Rightarrow> 'd st \<Rightarrow> (int \<times> 'd st) option" where
  "send_end U s =
     (let (r, s) = sprd_com_nodata U (bsl BSL_CMD_READ_FLASH_END) s in
      if r \<noteq> 0 then Some (r, s)
      else do {
        (r, cnt, s) \<leftarrow> recv_data U s;
        if r \<noteq> 0 then Some (r, s)
        else do {
          v \<leftarrow> sprd_verify_frame (checksum_type s) (data_buffer s) cnt;
          if v \<noteq> 0 \<or> data_buffer s SPRD_FRAME_TYPE_OFF \<noteq> bsl BSL_REP_ACK then Some (1, s)
          else Some (0, s) } })"

definition USB_disk_ioctl :: "'d usb \<Rightarrow> byte \<Rightarrow> 'd st \<Rightarrow> (int \<times> 'd st) option" where
  "USB_disk_ioctl U cmd s = send_end U s"

text \<open>The dispatchers on the drive number (0: USB, 1: MMC, 2: RAM).\<close>

definition disk_status :: "byte \<Rightarrow> byte option" where
  "disk_status pdrv =
     (if pdrv = 2 \<or> pdrv = 1 then None
      else if pdrv = 0 then Some (word_of_int USB_disk_status)
      else Some STA_NOINIT)"

definition disk_initialize :: "'d usb \<Rightarrow> mem \<Rightarrow> byte \<Rightarrow> 'd st \<Rightarrow> (byte \<times> 'd st) option" where
  "disk_initialize U junk pdrv s =
     (if pdrv = 2 \<or> pdrv = 1 then None
      else if pdrv = 0 then do {
        (result, s) \<leftarrow> USB_disk_initialize U junk s;
        Some (word_of_int result, s) }
      else Some (STA_NOINIT, s))"

definition disk_read :: "'d usb \<Rightarrow> byte \<Rightarrow> u32 \<Rightarrow> u32 \<Rightarrow> 'd st \<Rightarrow> (int \<times> byte list \<times> 'd st) option" where
  "disk_read U pdrv sector count s =
     (if pdrv = 2 \<or> pdrv = 1 then None
      else if pdrv = 0 then USB_disk_read U sector count s
      else Some (dres RES_PARERR, [], s))"

definition disk_write :: "byte \<Rightarrow> byte list \<Rightarrow> u32 \<Rightarrow> u32 \<Rightarrow> int option" where
  "disk_write pdrv buff sector count =
     (if pdrv = 2 \<or> pdrv = 1 then None
      else if pdrv = 0 then Some (USB_disk_write buff sector count)
      else Some (dres RES_PARERR))"

text \<open>The command is ignored: every control call on the USB drive ends the session.\<close>

definition disk_ioctl :: "'d usb \<Rightarrow> byte \<Rightarrow> byte \<Rightarrow> 'd st \<Rightarrow> (int \<times> 'd st) option" where
  "disk_ioctl U pdrv cmd s =
     (if pdrv = 2 \<or> pdrv = 1 then None
      else if pdrv = 0 then USB_disk_ioctl U 1 s
      else Some (dres RES_PARERR, s))"

section \<open>The prepared start frame\<close>

lemmas closed_frame_eval =
  frame_bytes_def frame_body_def frame_consts be16_def le32_def part_data_def name_bytes_def
  checksum_list_def TYPE_CRC_def TYPE_IPSUM_def ip_finish_def of_le16_def of_be16_def

lemma internalsd_frame:
  "internalsd_partition = frame_bytes TYPE_IPSUM (bsl BSL_CMD_READ_FLASH_START)
     (part_data ''internalsd'' (le32 0xffffffff))"
  by (simp add: internalsd_partition_def closed_frame_eval replicate_numeral Let_def)

lemma internalsd_no_escape: "on_wire internalsd_partition = internalsd_partition"
  by (simp add: on_wire_def internalsd_partition_def stuff_byte_def)

text \<open>The start frame \<open>USB_disk_initialize\<close> sends as a constant is the frame
  \<open>sprd_upload\<close> would build for the partition ``internalsd'' (with the Internet checksum, the
  type in use after \<open>ready\<close>), and needs no escaping, as its comment says.\<close>

theorem internalsd_partition_is_start_frame:
  "upload_start TYPE_IPSUM ''internalsd'' = Some internalsd_partition \<and>
   sprd_frame_exchange 0 internalsd_partition 0 = internalsd_partition"
  using internalsd_no_escape by (simp add: upload_start_frame internalsd_frame on_wire_def del: bsl.simps)

section \<open>Reading sectors\<close>

lemma flash_ok_malloc [simp]: "flash_ok U ready flash (malloc s) = flash_ok U ready flash s"
  "flash_ok U ready flash (free s) = flash_ok U ready flash s"
  by (simp_all add: flash_ok_def)

lemma unat_sectors:
  "unat (of_nat MAX_SS * of_nat n :: u32) = 512 * n mod 2 ^ 32"
  by (simp add: MAX_SS_def unat_word_ariths unat_of_nat mod_mult_right_eq)

section \<open>Sessions\<close>

lemma send_start_ok:
  assumes "starts U (checksum_type s) 20 frame (dev s) d0" "on_wire frame = frame"
  shows "send_start U junk frame s = Some (0, s\<lparr>dev := d0\<rparr>)"
proof -
  obtain d1 ty dat where 1: "bulk_out U (dev s) frame = (0, d1)"
    "replies U 20 5 d1 (frame_bytes (checksum_type s) ty dat) d0" using assms by (auto simp: starts_def)
  then show ?thesis
    using recv_retry_verify[of U 20 5 "s\<lparr>dev := d1\<rparr>" "checksum_type s" ty dat d0 0 junk]
    by (auto simp: send_start_def sprd_usb_transfer_def)
qed

lemma send_end_ok:
  assumes "acks U (checksum_type s) (bsl BSL_CMD_READ_FLASH_END) (dev s) d'"
  shows "\<exists>m. send_end U s = Some (0, s\<lparr>dev := d', data_buffer := m\<rparr>)"
  using com_ack_ok[OF assms]
  by (auto simp: com_ack_def recv_ack_def send_end_def bind_Some_iff split: prod.splits if_splits)

lemma USB_disk_read_state:
  assumes "flash_ok U ready flash s" "512 * (n + c) \<le> length flash" "512 * c < 2 ^ 32"
  shows "\<exists>d m. USB_disk_read U (of_nat n) (of_nat c) s = Some (0, take (512 * c) (drop (512 * n) flash), s\<lparr>dev := d, data_buffer := m\<rparr>) \<and>
    flash_ok U ready flash (s\<lparr>dev := d, data_buffer := m\<rparr>)"
proof -
  have "flash_ok U ready flash (malloc s)" using assms(1) by simp
  from window_loop_blocks[OF this assms(2,3), of "of_nat MAX_SS * of_nat c" "of_nat MAX_SS * of_nat n"] assms(3)
  obtain d m where w: "window_loop U (of_nat MAX_SS * of_nat n) (of_nat MAX_SS * of_nat c) 0 [] (malloc s) =
      Some (Inr (), take (512 * c) (drop (512 * n) flash), (malloc s)\<lparr>dev := d, data_buffer := m\<rparr>)"
    "flash_ok U ready flash ((malloc s)\<lparr>dev := d, data_buffer := m\<rparr>)"
    by (auto simp: unat_sectors)
  have "free ((malloc s)\<lparr>dev := d, data_buffer := m\<rparr>) = s\<lparr>dev := d, data_buffer := m\<rparr>" by (simp add: malloc_def free_def)
  with w show ?thesis by (intro exI[of _ d] exI[of _ m]) (auto simp: USB_disk_read_def Let_def flash_ok_def malloc_def)
qed

interpretation usb_disk: block_reader
  "\<lambda>blk cnt. USB_disk_read U (of_nat blk) (of_nat cnt)" "flash_ok U ready flash" flash
  for U ready flash
  by unfold_locales (use USB_disk_read_state in blast)

section \<open>Errors during initialisation\<close>

text \<open>\<open>disk_initialize\<close> returns the error code of the transfer as a status byte. FatFs tests
  its bit \<open>STA_NOINIT\<close>: for every even error code (such as -4, no device) the bit is clear and
  the drive counts as initialised.\<close>

theorem disk_initialize_even_error:
  assumes "bulk_out U (dev s) internalsd_partition = (r, d)" "even r" "r \<noteq> 0"
  shows "\<exists>stat. disk_initialize U junk 0 s = Some (stat, s\<lparr>dev := d\<rparr>) \<and> stat AND STA_NOINIT = 0"
proof -
  have "disk_initialize U junk 0 s = Some (word_of_int r, s\<lparr>dev := d\<rparr>)"
    using assms by (simp add: disk_initialize_def USB_disk_initialize_def send_start_def sprd_usb_transfer_def Let_def)
  moreover have "(word_of_int r :: byte) AND STA_NOINIT = 0"
    using assms(2) by (auto intro!: bit_word_eqI simp: STA_NOINIT_def bit_simps bit_1_iff bit_0)
  ultimately show ?thesis by blast
qed

theorem disk_initialize_even_error_witness:
  "\<forall>junk s. \<exists>stat. disk_initialize \<lparr>bulk_out = (\<lambda>d bs. (- 4, d)), bulk_in = (\<lambda>d n. (- 4, [], d))\<rparr> junk 0 s =
      Some (stat, s\<lparr>dev := dev s\<rparr>) \<and> stat AND STA_NOINIT = 0"
  by (intro allI disk_initialize_even_error[where r = "- 4"]) simp_all

end
