(* ===== verification/Blockdev.thy ===== *)
theory Blockdev
  imports Diskio
begin

text \<open>
  lwext4/blockdev/blockdev.c: the block device lwext4 sits on, attached to the phone's
  \<open>syberfs\<close> and \<open>data\<close> partitions. The two static instances are told apart by their
  address, which the model keeps as a datatype. Both are instances of the block reader
  interface; block numbers are 64 bits wide but the byte offset is computed in 32 bits.
\<close>

section \<open>Definitions\<close>

datatype bdev_id = Syberfsdev | Datadev | Other_bdev

definition EOK :: int where "EOK = 0"

definition EXT4_BLOCKDEV_BSIZE :: u64 where "EXT4_BLOCKDEV_BSIZE = 512"

definition EXT4_BLOCKDEV_BCNT :: u64 where "EXT4_BLOCKDEV_BCNT = 8 * 1024 * 1024"

definition syberfs_partition :: "byte list" where
  "syberfs_partition =
     [0x7e, 0x00, 0x10, 0x00, 0x4c, 0x73, 0x00, 0x79, 0x00, 0x62, 0x00, 0x65,
      0x00, 0x72, 0x00, 0x66, 0x00, 0x73, 0x00, 0x00, 0x00, 0x00, 0x00, 0x00,
      0x00, 0x00, 0x00, 0x00, 0x00, 0x00, 0x00, 0x00, 0x00, 0x00, 0x00, 0x00,
      0x00, 0x00, 0x00, 0x00, 0x00, 0x00, 0x00, 0x00, 0x00, 0x00, 0x00, 0x00,
      0x00, 0x00, 0x00, 0x00, 0x00, 0x00, 0x00, 0x00, 0x00, 0x00, 0x00, 0x00,
      0x00, 0x00, 0x00, 0x00, 0x00, 0x00, 0x00, 0x00, 0x00, 0x00, 0x00, 0x00,
      0x00, 0x00, 0x00, 0x00, 0x00, 0xff, 0xff, 0xff, 0xff, 0x01, 0xa1, 0x7e]"

definition data_partition :: "byte list" where
  "data_partition =
     [0x7e, 0x00, 0x10, 0x00, 0x4c, 0x64, 0x00, 0x61, 0x00, 0x74, 0x00, 0x61,
      0x00, 0x00, 0x00, 0x00, 0x00, 0x00, 0x00, 0x00, 0x00, 0x00, 0x00, 0x00,
      0x00, 0x00, 0x00, 0x00, 0x00, 0x00, 0x00, 0x00, 0x00, 0x00, 0x00, 0x00,
      0x00, 0x00, 0x00, 0x00, 0x00, 0x00, 0x00, 0x00, 0x00, 0x00, 0x00, 0x00,
      0x00, 0x00, 0x00, 0x00, 0x00, 0x00, 0x00, 0x00, 0x00, 0x00, 0x00, 0x00,
      0x00, 0x00, 0x00, 0x00, 0x00, 0x00, 0x00, 0x00, 0x00, 0x00, 0x00, 0x00,
      0x00, 0x00, 0x00, 0x00, 0x00, 0xff, 0xff, 0xff, 0xff, 0x65, 0xa2, 0x7e]"

definition blockdev_open :: "'d usb \<Rightarrow> mem \<Rightarrow> bdev_id \<Rightarrow> 'd st \<Rightarrow> (int \<times> 'd st) option" where
  "blockdev_open U junk bdev s =
     (case bdev of
        Syberfsdev \<Rightarrow> send_start U junk syberfs_partition s
      | Datadev \<Rightarrow> send_start U junk data_partition s
      | Other_bdev \<Rightarrow> Some (1, s))"

definition blockdev_bread ::
  "'d usb \<Rightarrow> bdev_id \<Rightarrow> u64 \<Rightarrow> u32 \<Rightarrow> 'd st \<Rightarrow> (int \<times> byte list \<times> 'd st) option" where
  "blockdev_bread U bdev blk_id blk_cnt s = do {
     let up_size = (ucast (EXT4_BLOCKDEV_BSIZE * ucast blk_cnt) :: u32);
     let start_offset = (ucast (EXT4_BLOCKDEV_BSIZE * blk_id) :: u32);
     if bdev \<noteq> Syberfsdev \<and> bdev \<noteq> Datadev then Some (1, [], s)
     else do {
       (x, buf, s) \<leftarrow> window_loop U start_offset up_size 0 [] (malloc s);
       case x of
         Inl r \<Rightarrow> Some (r, buf, s)
       | Inr _ \<Rightarrow> Some (EOK, buf, free s) } }"

definition blockdev_bwrite :: "bdev_id \<Rightarrow> byte list \<Rightarrow> u64 \<Rightarrow> u32 \<Rightarrow> int" where
  "blockdev_bwrite bdev buf blk_id blk_cnt = EOK"

definition blockdev_close :: "'d usb \<Rightarrow> bdev_id \<Rightarrow> 'd st \<Rightarrow> (int \<times> 'd st) option" where
  "blockdev_close U bdev s = send_end U s"

definition blockdev_lock :: "bdev_id \<Rightarrow> int" where
  "blockdev_lock bdev = EOK"

definition blockdev_unlock :: "bdev_id \<Rightarrow> int" where
  "blockdev_unlock bdev = EOK"

definition ext4_syberfsdev_get :: bdev_id where
  "ext4_syberfsdev_get = Syberfsdev"

definition ext4_datadev_get :: bdev_id where
  "ext4_datadev_get = Datadev"

section \<open>The prepared start frames\<close>

lemma syberfs_frame:
  "syberfs_partition = frame_bytes TYPE_IPSUM (bsl BSL_CMD_READ_FLASH_START)
     (part_data ''syberfs'' (le32 0xffffffff))"
  by (simp add: syberfs_partition_def closed_frame_eval replicate_numeral Let_def)

lemma data_frame:
  "data_partition = frame_bytes TYPE_IPSUM (bsl BSL_CMD_READ_FLASH_START)
     (part_data ''data'' (le32 0xffffffff))"
  by (simp add: data_partition_def closed_frame_eval replicate_numeral Let_def)

lemma bdev_no_escape:
  "on_wire syberfs_partition = syberfs_partition" "on_wire data_partition = data_partition"
  by (simp_all add: on_wire_def syberfs_partition_def data_partition_def stuff_byte_def)

text \<open>C30. The start frames \<open>blockdev_open\<close> sends as constants are the frames \<open>sprd_upload\<close>
  would build for the partitions ``syberfs'' and ``data'', and need no escaping.\<close>

theorem blockdev_partitions_are_start_frames:
  "upload_start TYPE_IPSUM ''syberfs'' = Some syberfs_partition \<and>
   sprd_frame_exchange 0 syberfs_partition 0 = syberfs_partition \<and>
   upload_start TYPE_IPSUM ''data'' = Some data_partition \<and>
   sprd_frame_exchange 0 data_partition 0 = data_partition"
  using bdev_no_escape
  by (simp add: upload_start_frame syberfs_frame data_frame on_wire_def del: bsl.simps)

section \<open>Reading blocks\<close>

lemma unat_bdev_offset:
  "unat (ucast (EXT4_BLOCKDEV_BSIZE * of_nat n) :: u32) = 512 * n mod 2 ^ 32"
proof -
  have "unat (ucast (EXT4_BLOCKDEV_BSIZE * of_nat n) :: u32) = 512 * n mod 2 ^ 64 mod 2 ^ 32"
    by (simp add: unat_ucast_mod EXT4_BLOCKDEV_BSIZE_def unat_word_ariths unat_of_nat mod_mult_right_eq)
  also have "\<dots> = 512 * n mod 2 ^ 32"
    by (rule mod_mod_cancel) (simp add: le_imp_power_dvd)
  finally show ?thesis .
qed

lemma unat_bdev_size:
  assumes "512 * n < 2 ^ 32"
  shows "unat (ucast (EXT4_BLOCKDEV_BSIZE * ucast (of_nat n :: u32)) :: u32) = 512 * n"
proof -
  have "(ucast (of_nat n :: u32) :: u64) = of_nat n"
    using assms by (simp add: word_unat_eq_iff unat_ucast_mod unat_of_nat)
  then show ?thesis using assms unat_bdev_offset[of n] by simp
qed

lemma blockdev_bread_ok:
  assumes "b \<noteq> Other_bdev" and ok: "flash_ok U ready flash s" and rng: "512 * (blk + cnt) \<le> length flash"
    and cnt: "512 * cnt < 2 ^ 32"
  shows "\<exists>d m. blockdev_bread U b (of_nat blk) (of_nat cnt) s =
      Some (0, take (512 * cnt) (drop (512 * blk) flash), s\<lparr>dev := d, data_buffer := m\<rparr>) \<and>
    flash_ok U ready flash (s\<lparr>dev := d, data_buffer := m\<rparr>)"
proof -
  let ?up = "ucast (EXT4_BLOCKDEV_BSIZE * ucast (of_nat cnt :: u32)) :: u32"
  let ?st = "ucast (EXT4_BLOCKDEV_BSIZE * of_nat blk) :: u32"
  from ok have "flash_ok U ready flash (malloc s)" by simp
  from window_loop_blocks[OF this rng cnt unat_bdev_size[OF cnt] unat_bdev_offset]
  obtain d m where "window_loop U ?st ?up 0 [] (malloc s) =
      Some (Inr (), take (512 * cnt) (drop (512 * blk) flash), (malloc s)\<lparr>dev := d, data_buffer := m\<rparr>)"
    "flash_ok U ready flash ((malloc s)\<lparr>dev := d, data_buffer := m\<rparr>)"
    by auto
  with assms(1) show ?thesis
    by (intro exI[of _ d] exI[of _ m])
       (cases b, simp_all add: blockdev_bread_def Let_def EOK_def malloc_def free_def flash_ok_def)
qed

interpretation syberfs_bdev: block_reader
  "\<lambda>blk cnt. blockdev_bread U Syberfsdev (of_nat blk) (of_nat cnt)" "flash_ok U ready flash" flash
  for U ready flash
  by unfold_locales (meson blockdev_bread_ok bdev_id.distinct)

interpretation data_bdev: block_reader
  "\<lambda>blk cnt. blockdev_bread U Datadev (of_nat blk) (of_nat cnt)" "flash_ok U ready flash" flash
  for U ready flash
  by unfold_locales (meson blockdev_bread_ok bdev_id.distinct)

end
