(* ===== verification/Commands.thy ===== *)
theory Commands
  imports Blockdev
begin

text \<open>
  The commands of main.c that copy files off the phone: \<open>sprd_ls_ext4fs\<close>, \<open>sprd_read_ext4fs\<close>
  and \<open>sprd_cat_ext4fs\<close> on lwext4, \<open>sprd_read_camera\<close> on FatFs. The file calls of the two
  file systems are arguments here (records \<open>ext4_ops\<close> and \<open>fat_ops\<close> over an arbitrary file
  system state), so these definitions are the programs of main.c above any implementation
  of those calls; the program state is passed through them because they use the phone.
\<close>

section \<open>Definitions\<close>

type_synonym ('d, 'x) reader = "'x \<Rightarrow> 'd st \<Rightarrow> (int \<times> byte list \<times> 'x \<times> 'd st) option"

record ('d, 'x) ext4_ops =
  lw_mount :: "bdev_id \<Rightarrow> 'x \<Rightarrow> 'd st \<Rightarrow> (bool \<times> 'x \<times> 'd st) option"
  lw_umount :: "'x \<Rightarrow> 'd st \<Rightarrow> (bool \<times> 'x \<times> 'd st) option"
  lw_dir_ls :: "string \<Rightarrow> 'x \<Rightarrow> 'd st \<Rightarrow> (byte list \<times> 'x \<times> 'd st) option"
  lw_fopen :: "string \<Rightarrow> 'x \<Rightarrow> 'd st \<Rightarrow> (int \<times> 'x \<times> 'd st) option"
  lw_fread :: "nat \<Rightarrow> ('d, 'x) reader"
  lw_fsize :: "'x \<Rightarrow> u64"
  lw_fclose :: "'x \<Rightarrow> 'd st \<Rightarrow> (int \<times> 'x \<times> 'd st) option"

record ('d, 'x) fat_ops =
  f_mount :: "'x \<Rightarrow> 'x"
  f_findfirst :: "'x \<Rightarrow> 'd st \<Rightarrow> (int \<times> string \<times> 'x \<times> 'd st) option"
  f_findnext :: "'x \<Rightarrow> 'd st \<Rightarrow> (int \<times> string \<times> 'x \<times> 'd st) option"
  f_open :: "string \<Rightarrow> 'x \<Rightarrow> 'd st \<Rightarrow> (int \<times> 'x \<times> 'd st) option"
  f_read :: "nat \<Rightarrow> ('d, 'x) reader"
  f_size :: "'x \<Rightarrow> u32"
  f_close :: "'x \<Rightarrow> 'd st \<Rightarrow> (int \<times> 'x \<times> 'd st) option"
  f_closedir :: "'x \<Rightarrow> 'x"

text \<open>``Partition detect'': paths under \<open>/data\<close> live on the data partition.\<close>

definition ext4_route :: "string \<Rightarrow> bdev_id \<times> string" where
  "ext4_route path =
     (if take 5 path = ''/data'' then
        (ext4_datadev_get, if length path = 5 then ''/'' else drop 5 path)
      else (ext4_syberfsdev_get, path))"

text \<open>The loop that moves \<open>path_dest\<close> behind every slash.\<close>

fun base_from :: "string \<Rightarrow> string \<Rightarrow> string" where
  "base_from path_dest [] = path_dest"
| "base_from path_dest (c # cs) = base_from (if c = CHR ''/'' then cs else path_dest) cs"

text \<open>Reading until the end and writing to a local file, the loop of \<open>sprd_read_ext4fs\<close> and
  \<open>sprd_read_camera\<close>. The progress display divides by the file size.\<close>

partial_function (option) copy_loop ::
  "('d, 'x) reader \<Rightarrow> u32 \<Rightarrow> string \<Rightarrow> 'x \<Rightarrow> 'd st \<Rightarrow> ((int + int) \<times> 'x \<times> 'd st) option" where
  "copy_loop rd file_size dest x s =
     Option.bind (rd x s) (\<lambda>(fr, dat, x, s).
       if fr = 0 \<and> dat \<noteq> [] then
         (case write_fd dest dat s of (r, s) \<Rightarrow>
            if r = - 1 then Some (Inl r, x, s)
            else if r \<noteq> int (length dat) then Some (Inl r, x, s)
            else if file_size = 0 then None
            else copy_loop rd file_size dest x s)
       else Some (Inr fr, x, s))"

text \<open>\<open>sprd_ls_ext4fs\<close> also returns the listing that was printed.\<close>

definition sprd_ls_ext4fs ::
  "('d, 'x) ext4_ops \<Rightarrow> string \<Rightarrow> 'x \<Rightarrow> 'd st \<Rightarrow> (int \<times> byte list \<times> 'x \<times> 'd st) option" where
  "sprd_ls_ext4fs L path x s = do {
     let (bd, path_redirect) = ext4_route path;
     (ok, x, s) \<leftarrow> lw_mount L bd x s;
     if \<not> ok then Some (- 1, [], x, s)
     else do {
       (out, x, s) \<leftarrow> lw_dir_ls L path_redirect x s;
       (ok, x, s) \<leftarrow> lw_umount L x s;
       Some (if ok then 0 else 1, out, x, s) } }"

definition sprd_read_ext4fs ::
  "('d, 'x) ext4_ops \<Rightarrow> string \<Rightarrow> 'x \<Rightarrow> 'd st \<Rightarrow> (int \<times> 'x \<times> 'd st) option" where
  "sprd_read_ext4fs L path x s0 = (
     if \<not> heap_ok s0 then Some (- 1, x, s0)
     else do {
       let s = malloc s0;
       let (bd, path_redirect) = ext4_route path;
       (ok, x, s) \<leftarrow> lw_mount L bd x s;
       if \<not> ok then Some (- 1, x, s)
       else do {
         let path_dest = base_from path_redirect path_redirect;
         if path_dest = [] then Some (- 1, x, s)
         else do {
           (r, x, s) \<leftarrow> lw_fopen L path_redirect x s;
           if r \<noteq> 0 then Some (r, x, s)
           else let (fd, s) = open_wr path_dest s in
           if \<not> fd then Some (- 1, x, s)
           else do {
             (res, x, s) \<leftarrow> copy_loop (lw_fread L 0x3000) (ucast (lw_fsize L x)) path_dest x s;
             case res of
               Inl r \<Rightarrow> Some (r, x, s)
             | Inr fr \<Rightarrow>
                 if fr \<noteq> 0 then Some (fr, x, s)
                 else do {
                   (_, x, s) \<leftarrow> lw_fclose L x (free s);
                   (ok, x, s) \<leftarrow> lw_umount L x (snd (close_fd s));
                   Some (if ok then 0 else 1, x, s) } } } } })"

text \<open>\<open>sprd_cat_ext4fs\<close> also returns the characters it printed.\<close>

partial_function (option) cat_loop ::
  "('d, 'x) reader \<Rightarrow> byte list \<Rightarrow> 'x \<Rightarrow> 'd st \<Rightarrow> (int \<times> byte list \<times> 'x \<times> 'd st) option" where
  "cat_loop rd out x s =
     Option.bind (rd x s) (\<lambda>(fr, dat, x, s).
       if fr = 0 \<and> dat \<noteq> [] then cat_loop rd (out @ dat) x s else Some (fr, out, x, s))"

definition sprd_cat_ext4fs ::
  "('d, 'x) ext4_ops \<Rightarrow> string \<Rightarrow> 'x \<Rightarrow> 'd st \<Rightarrow> (int \<times> byte list \<times> 'x \<times> 'd st) option" where
  "sprd_cat_ext4fs L path x s0 = (
     if \<not> heap_ok s0 then Some (- 1, [], x, s0)
     else do {
       let s = malloc s0;
       let (bd, path_redirect) = ext4_route path;
       (ok, x, s) \<leftarrow> lw_mount L bd x s;
       if \<not> ok then Some (- 1, [], x, s)
       else do {
         (r, x, s) \<leftarrow> lw_fopen L path_redirect x s;
         if r \<noteq> 0 then Some (r, [], x, s)
         else do {
           (fr, out, x, s) \<leftarrow> cat_loop (lw_fread L 0x3000) [] x s;
           if fr \<noteq> 0 then Some (fr, out, x, s)
           else do {
             (_, x, s) \<leftarrow> lw_fclose L x (free s);
             (ok, x, s) \<leftarrow> lw_umount L x s;
             Some (if ok then 0 else 1, out, x, s) } } } })"

text \<open>\<open>sprd_read_camera\<close>: the loop over the directory, with the two path arrays of 100 bytes, and
  the function around it. \<open>sys\<close> is the call of \<open>system\<close> that recreates the local directory.\<close>

definition camera_file ::
  "('d, 'x) fat_ops \<Rightarrow> string \<Rightarrow> 'x \<Rightarrow> 'd st \<Rightarrow> ((int + unit) \<times> 'x \<times> 'd st) option" where
  "camera_file F fname x s =
     (let path_dest = ''./syberos_camera/'' @ fname; path_src = ''0:/DCIM/Camera/'' @ fname in
      if 100 < length path_dest + 1 then None
      else let (fd, s) = open_wr path_dest s in
      if \<not> fd then Some (Inl (- 1), x, s)
      else if 100 < length path_src + 1 then None
      else do {
        (fr, x, s) \<leftarrow> f_open F path_src x s;
        if fr \<noteq> 0 then Some (Inl (- 1), x, s)
        else do {
          (res, x, s) \<leftarrow> copy_loop (f_read F 0x3000) (f_size F x) path_dest x s;
          case res of
            Inl r \<Rightarrow> Some (Inl r, x, s)
          | Inr fr \<Rightarrow>
              if fr \<noteq> 0 then Some (Inl fr, x, s)
              else do {
                (_, x, s) \<leftarrow> f_close F x s;
                Some (Inr (), x, snd (close_fd s)) } } })"

partial_function (option) camera_loop ::
  "('d, 'x) fat_ops \<Rightarrow> int \<Rightarrow> string \<Rightarrow> 'x \<Rightarrow> 'd st \<Rightarrow> ((int + int) \<times> 'x \<times> 'd st) option" where
  "camera_loop F fr fname x s =
     (if fr = 0 \<and> fname \<noteq> [] then
        Option.bind (camera_file F fname x s) (\<lambda>(res, x, s).
          case res of
            Inl r \<Rightarrow> Some (Inl r, x, s)
          | Inr _ \<Rightarrow>
              Option.bind (f_findnext F x s) (\<lambda>(fr, fname, x, s). camera_loop F fr fname x s))
      else Some (Inr fr, x, s))"

definition sprd_read_camera ::
  "'d usb \<Rightarrow> ('d, 'x) fat_ops \<Rightarrow> ('d st \<Rightarrow> int \<times> 'd st) \<Rightarrow> 'x \<Rightarrow> 'd st \<Rightarrow> (int \<times> 'x \<times> 'd st) option" where
  "sprd_read_camera U F sys x s0 = (
     if \<not> heap_ok s0 then Some (- 1, x, s0)
     else do {
       let s = malloc s0;
       let (r, s) = sys s;
       if r \<noteq> 0 then Some (r, x, s)
       else do {
         (fr, fname, x, s) \<leftarrow> f_findfirst F (f_mount F x) s;
         (res, x, s) \<leftarrow> camera_loop F fr fname x s;
         case res of
           Inl r \<Rightarrow> Some (r, x, s)
         | Inr fr \<Rightarrow>
             if fr \<noteq> 0 then Some (- 1, x, s)
             else do {
               (r, s) \<leftarrow> disk_ioctl U 0 1 s;
               if r \<noteq> 0 then Some (r, f_closedir F x, s)
               else Some (0, f_closedir F x, free s) } } })"

section \<open>Paths\<close>

lemma base_from_basename: "base_from p q = (if CHR ''/'' \<in> set q then rev (takeWhile (\<lambda>c. c \<noteq> CHR ''/'') (rev q)) else p)"
proof (induction q arbitrary: p)
  case (Cons c q)
  show ?case
  proof (cases "CHR ''/'' \<in> set q")
    case True
    then have "takeWhile (\<lambda>c. c \<noteq> CHR ''/'') (rev q @ [c]) = takeWhile (\<lambda>c. c \<noteq> CHR ''/'') (rev q)"
      by (intro takeWhile_append1[of "CHR ''/''"]) auto
    with True Cons show ?thesis by simp
  next
    case False
    then have "takeWhile (\<lambda>c. c \<noteq> CHR ''/'') (rev q @ [c]) = rev q @ takeWhile (\<lambda>c. c \<noteq> CHR ''/'') [c]"
      by (intro takeWhile_append2) auto
    with False Cons show ?thesis by (cases "c = CHR ''/''") auto
  qed
qed simp

lemma base_from_self: "base_from p p = rev (takeWhile (\<lambda>c. c \<noteq> CHR ''/'') (rev p))"
proof (cases "CHR ''/'' \<in> set p")
  case False
  then have tw: "takeWhile (\<lambda>c. c \<noteq> CHR ''/'') (rev p) = rev p" by (subst takeWhile_eq_all_conv) auto
  show ?thesis unfolding base_from_basename tw using False by simp
qed (simp add: base_from_basename)

section \<open>Copying\<close>

text \<open>What the file system is relied on to do for an open file with contents \<open>c\<close>: a read at
  position \<open>p\<close> succeeds and returns the next bytes, at least one unless the end is reached.
  It uses the phone but leaves the rest of the program state alone. \<open>pos x d p\<close> says that the file system
  in state \<open>x\<close>, with the phone in state \<open>d\<close>, stands at position \<open>p\<close>, and \<open>fin x d\<close> that the end was seen.
  The answers of the phone depend on the kind of checksum \<open>ct\<close>.\<close>

definition reads_file ::
  "byte \<Rightarrow> ('d, 'x) reader \<Rightarrow> ('x \<Rightarrow> 'd \<Rightarrow> nat \<Rightarrow> bool) \<Rightarrow> ('x \<Rightarrow> 'd \<Rightarrow> bool) \<Rightarrow> byte list \<Rightarrow> bool" where
  "reads_file ct rd pos fin c \<longleftrightarrow>
     (\<forall>x s p. checksum_type s = ct \<longrightarrow> pos x (dev s) p \<longrightarrow> p \<le> length c \<longrightarrow>
       (\<exists>n x' d m. rd x s = Some (0, take n (drop p c), x', s\<lparr>dev := d, data_buffer := m\<rparr>) \<and>
          (if p < length c then 0 < n \<and> pos x' d (p + length (take n (drop p c))) else fin x' d)))"

text \<open>A file system call that succeeds with result \<open>r\<close>, in the same sense: from the states \<open>P\<close> it leads to states \<open>Q\<close>.\<close>

definition runs ::
  "byte \<Rightarrow> ('x \<Rightarrow> 'd st \<Rightarrow> ('r \<times> 'x \<times> 'd st) option) \<Rightarrow> ('x \<Rightarrow> 'd \<Rightarrow> bool) \<Rightarrow> 'r \<Rightarrow> ('x \<Rightarrow> 'd \<Rightarrow> bool) \<Rightarrow> bool" where
  "runs ct f P r Q \<longleftrightarrow>
     (\<forall>x s. checksum_type s = ct \<longrightarrow> P x (dev s) \<longrightarrow>
       (\<exists>x' d m. f x s = Some (r, x', s\<lparr>dev := d, data_buffer := m\<rparr>) \<and> Q x' d))"

lemma runsD:
  "runs ct f P r Q \<Longrightarrow> checksum_type s = ct \<Longrightarrow> P x (dev s) \<Longrightarrow>
    \<exists>x' d m. f x s = Some (r, x', s\<lparr>dev := d, data_buffer := m\<rparr>) \<and> Q x' d"
  by (simp add: runs_def)

lemma reads_fileD:
  "reads_file ct rd pos fin c \<Longrightarrow> checksum_type s = ct \<Longrightarrow> pos x (dev s) p \<Longrightarrow> p \<le> length c \<Longrightarrow>
    \<exists>n x' d m. rd x s = Some (0, take n (drop p c), x', s\<lparr>dev := d, data_buffer := m\<rparr>) \<and>
      (if p < length c then 0 < n \<and> pos x' d (p + length (take n (drop p c))) else fin x' d)"
  by (simp add: reads_file_def)

lemma copy_loop_ok:
  assumes "reads_file ct rd pos fin c" "checksum_type s = ct" "pos x (dev s) p" "p \<le> length c" "fsz \<noteq> 0 \<or> p = length c"
    and "files s dest = Some w" "length c - p \<le> space s"
  shows "\<exists>x' d m. copy_loop rd fsz dest x s = Some (Inr 0, x', s\<lparr>dev := d, data_buffer := m,
      files := (files s)(dest \<mapsto> w @ drop p c), space := space s - (length c - p)\<rparr>) \<and> fin x' d"
  using assms
proof (induction "length c - p" arbitrary: p x s w rule: less_induct)
  case less
  obtain n x' d m where r: "rd x s = Some (0, take n (drop p c), x', s\<lparr>dev := d, data_buffer := m\<rparr>)"
    and pos: "if p < length c then 0 < n \<and> pos x' d (p + length (take n (drop p c))) else fin x' d"
    using reads_fileD[OF less.prems(1-4)] by blast
  let ?dat = "take n (drop p c)" and ?s = "s\<lparr>dev := d, data_buffer := m\<rparr>"
  show ?case
  proof (cases "p = length c")
    case True
    then show ?thesis
      using r pos less.prems(6) by (subst copy_loop.simps)
        (intro exI[of _ x'] exI[of _ d] exI[of _ m], simp add: map_upd_triv)
  next
    case False
    then have p: "p < length c" "?dat \<noteq> []" "0 < n" "pos x' d (p + length ?dat)" using less.prems(4) pos by auto
    let ?k = "length ?dat"
    let ?t = "s\<lparr>dev := d, data_buffer := m, files := (files s)(dest \<mapsto> w @ ?dat), space := space s - ?k\<rparr>"
    have "?k \<le> space s" using less.prems(7) by simp
    then have wr: "write_fd dest ?dat ?s = (int ?k, ?t)"
      using less.prems(6) p(2) by (simp add: write_fd_def Let_def min_def)
    have "copy_loop rd fsz dest x s = copy_loop rd fsz dest x' ?t"
      using r wr p less.prems(5) False by (subst copy_loop.simps) simp
    moreover have "\<exists>x2 d2 m2. copy_loop rd fsz dest x' ?t = Some (Inr 0, x2, ?t\<lparr>dev := d2, data_buffer := m2,
        files := (files ?t)(dest \<mapsto> (w @ ?dat) @ drop (p + ?k) c), space := space ?t - (length c - (p + ?k))\<rparr>) \<and>
        fin x2 d2"
      using less.prems p False by (intro less.hyps) (auto simp: min_def)
    moreover have "?dat @ drop (p + ?k) c = drop p c"
      using append_take_drop_id[of n "drop p c"] by (auto simp: min_def add.commute)
    moreover have "space s - ?k - (length c - (p + ?k)) = space s - (length c - p)" by auto
    ultimately show ?thesis by auto
  qed
qed

lemma cat_loop_ok:
  assumes "reads_file ct rd pos fin c" "checksum_type s = ct" "pos x (dev s) p" "p \<le> length c"
  shows "\<exists>x' d m. cat_loop rd out x s = Some (0, out @ drop p c, x', s\<lparr>dev := d, data_buffer := m\<rparr>) \<and> fin x' d"
  using assms
proof (induction "length c - p" arbitrary: p x s out rule: less_induct)
  case less
  obtain n x' d m where r: "rd x s = Some (0, take n (drop p c), x', s\<lparr>dev := d, data_buffer := m\<rparr>)"
    and pos: "if p < length c then 0 < n \<and> pos x' d (p + length (take n (drop p c))) else fin x' d"
    using reads_fileD[OF less.prems] by blast
  let ?dat = "take n (drop p c)"
  show ?case
  proof (cases "p = length c")
    case True
    then show ?thesis
      using r pos by (subst cat_loop.simps) (intro exI[of _ x'] exI[of _ d] exI[of _ m], simp)
  next
    case False
    then have p: "?dat \<noteq> []" "0 < n" "pos x' d (p + length ?dat)" using less.prems(4) pos by auto
    have "cat_loop rd out x s = cat_loop rd (out @ ?dat) x' (s\<lparr>dev := d, data_buffer := m\<rparr>)"
      using r p by (subst cat_loop.simps) simp
    moreover have "\<exists>x2 d2 m2. cat_loop rd (out @ ?dat) x' (s\<lparr>dev := d, data_buffer := m\<rparr>) =
        Some (0, (out @ ?dat) @ drop (p + length ?dat) c, x2, (s\<lparr>dev := d, data_buffer := m\<rparr>)\<lparr>dev := d2, data_buffer := m2\<rparr>) \<and>
        fin x2 d2"
      using less.prems p False by (intro less.hyps) (auto simp: min_def)
    moreover have "?dat @ drop (p + length ?dat) c = drop p c"
      using append_take_drop_id[of n "drop p c"] by (auto simp: min_def add.commute)
    ultimately show ?thesis by auto
  qed
qed

text \<open>The calls around a file: mounting the device, opening, and after the end closing and unmounting.\<close>

definition serves_file ::
  "('d, 'x) ext4_ops \<Rightarrow> byte \<Rightarrow> bdev_id \<Rightarrow> string \<Rightarrow> 'x \<Rightarrow> 'd \<Rightarrow> byte list \<Rightarrow> bool" where
  "serves_file L ct bd red x0 d0 c \<longleftrightarrow>
     (\<exists>P1 pos fin P2 r. runs ct (lw_mount L bd) (\<lambda>x d. x = x0 \<and> d = d0) True P1 \<and>
        runs ct (lw_fopen L red) P1 0 (\<lambda>x d. pos x d 0 \<and> lw_fsize L x = of_nat (length c)) \<and>
        reads_file ct (lw_fread L 0x3000) pos fin c \<and>
        runs ct (lw_fclose L) fin r P2 \<and> runs ct (lw_umount L) P2 True (\<lambda>_ _. True))"

lemma serves_fileD:
  assumes "serves_file L ct bd red x0 d0 c"
  obtains P1 pos fin P2 r where "runs ct (lw_mount L bd) (\<lambda>x d. x = x0 \<and> d = d0) True P1"
    "runs ct (lw_fopen L red) P1 0 (\<lambda>x d. pos x d 0 \<and> lw_fsize L x = of_nat (length c))"
    "reads_file ct (lw_fread L 0x3000) pos fin c" "runs ct (lw_fclose L) fin r P2" "runs ct (lw_umount L) P2 True (\<lambda>_ _. True)"
  using assms unfolding serves_file_def by blast

lemma heap_tested: "heap_ok s \<Longrightarrow> \<not> \<not> heap_ok s"
  by simp

text \<open>Without a buffer the commands end at once.\<close>

lemma no_buffer:
  assumes "\<not> heap_ok s"
  shows "sprd_read_ext4fs L path x s = Some (- 1, x, s)" "sprd_cat_ext4fs L path x s = Some (- 1, [], x, s)"
    "sprd_read_camera U F sys x s = Some (- 1, x, s)"
  using assms by (simp_all add: sprd_read_ext4fs_def sprd_cat_ext4fs_def sprd_read_camera_def)

lemma sprd_read_ext4fs_ok:
  assumes route: "ext4_route path = (bd, red)" and dest: "base_from red red = dest" "dest \<noteq> []"
    and serves: "serves_file L (checksum_type s) bd red x0 (dev s) c" and sz: "length c < 2 ^ 32"
    and host: "\<not> denied s dest" "\<not> nonreg s dest" "length c \<le> space s" and heap: "heap_ok s"
  shows "\<exists>x d m. sprd_read_ext4fs L path x0 s = Some (0, x, s\<lparr>files := (files s)(dest \<mapsto> c), space := space s - length c, dev := d, data_buffer := m\<rparr>)"
proof -
  let ?s0 = "s\<lparr>allocs := Suc (allocs s)\<rparr>" and ?ct = "checksum_type s"
  from serves obtain P1 pos fin P2 r where
    f: "runs ?ct (lw_mount L bd) (\<lambda>x d. x = x0 \<and> d = dev s) True P1"
      "runs ?ct (lw_fopen L red) P1 0 (\<lambda>x d. pos x d 0 \<and> lw_fsize L x = of_nat (length c))"
      "reads_file ?ct (lw_fread L 0x3000) pos fin c" "runs ?ct (lw_fclose L) fin r P2" "runs ?ct (lw_umount L) P2 True (\<lambda>_ _. True)"
    by (rule serves_fileD)
  obtain x1 d1 m1 where 1: "lw_mount L bd x0 ?s0 = Some (True, x1, ?s0\<lparr>dev := d1, data_buffer := m1\<rparr>)" "P1 x1 d1"
    using runsD[OF f(1), of ?s0 x0] by auto
  obtain x2 d2 m2 where 2: "lw_fopen L red x1 (?s0\<lparr>dev := d1, data_buffer := m1\<rparr>) = Some (0, x2, ?s0\<lparr>dev := d2, data_buffer := m2\<rparr>)"
    "pos x2 d2 0" "lw_fsize L x2 = of_nat (length c)"
    using runsD[OF f(2), of "?s0\<lparr>dev := d1, data_buffer := m1\<rparr>" x1] 1(2) by auto
  let ?s3 = "s\<lparr>allocs := Suc (allocs s), dev := d2, data_buffer := m2, files := (files s)(dest \<mapsto> []), fds := Suc (fds s)\<rparr>"
  have 3: "open_wr dest (?s0\<lparr>dev := d2, data_buffer := m2\<rparr>) = (True, ?s3)"
    using host by (simp add: open_wr_def)
  have fsz: "(ucast (lw_fsize L x2) :: u32) \<noteq> 0 \<or> 0 = length c"
    using sz 2(3) by (auto simp: word_unat_eq_iff unat_ucast_mod unat_of_nat)
  obtain x4 d4 m4 where 4: "copy_loop (lw_fread L 0x3000) (ucast (lw_fsize L x2)) dest x2 ?s3 =
      Some (Inr 0, x4, ?s3\<lparr>dev := d4, data_buffer := m4, files := (files ?s3)(dest \<mapsto> [] @ drop 0 c),
        space := space ?s3 - (length c - 0)\<rparr>)" "fin x4 d4"
    using copy_loop_ok[OF f(3), of ?s3 x2 0 "ucast (lw_fsize L x2)" dest "[]"] 2(2) fsz host by auto
  let ?s5 = "free (?s3\<lparr>dev := d4, data_buffer := m4, files := (files ?s3)(dest \<mapsto> [] @ drop 0 c),
        space := space ?s3 - (length c - 0)\<rparr>)"
  obtain x5 d5 m5 where 5: "lw_fclose L x4 ?s5 = Some (r, x5, ?s5\<lparr>dev := d5, data_buffer := m5\<rparr>)" "P2 x5 d5"
    using runsD[OF f(4), of ?s5 x4] 4(2) by auto
  let ?s6 = "\<lambda>d m. s\<lparr>files := (files s)(dest \<mapsto> c), space := space s - length c, dev := d, data_buffer := m\<rparr>"
  have 6: "snd (close_fd (?s5\<lparr>dev := d5, data_buffer := m5\<rparr>)) = ?s6 d5 m5"
    by (simp add: close_fd_def free_def)
  obtain x7 d7 m7 where 7: "lw_umount L x5 (?s6 d5 m5) = Some (True, x7, ?s6 d7 m7)"
    using runsD[OF f(5), of "?s6 d5 m5" x5] 5(2) by auto
  show ?thesis
    unfolding sprd_read_ext4fs_def if_not_P[OF heap_tested[OF heap]] route Let_def malloc_def
    by (intro exI[of _ x7] exI[of _ d7] exI[of _ m7]) (simp only: 1 2(1) 3 4(1) 5(1) 6 7 dest Option.bind.simps prod.case sum.case, simp)
qed

lemma sprd_cat_ext4fs_ok:
  assumes route: "ext4_route path = (bd, red)" and serves: "serves_file L (checksum_type s) bd red x0 (dev s) c" and heap: "heap_ok s"
  shows "\<exists>x d m. sprd_cat_ext4fs L path x0 s = Some (0, c, x, s\<lparr>dev := d, data_buffer := m\<rparr>)"
proof -
  let ?s0 = "s\<lparr>allocs := Suc (allocs s)\<rparr>" and ?ct = "checksum_type s"
  from serves obtain P1 pos fin P2 r where
    f: "runs ?ct (lw_mount L bd) (\<lambda>x d. x = x0 \<and> d = dev s) True P1"
      "runs ?ct (lw_fopen L red) P1 0 (\<lambda>x d. pos x d 0 \<and> lw_fsize L x = of_nat (length c))"
      "reads_file ?ct (lw_fread L 0x3000) pos fin c" "runs ?ct (lw_fclose L) fin r P2" "runs ?ct (lw_umount L) P2 True (\<lambda>_ _. True)"
    by (rule serves_fileD)
  obtain x1 d1 m1 where 1: "lw_mount L bd x0 ?s0 = Some (True, x1, ?s0\<lparr>dev := d1, data_buffer := m1\<rparr>)" "P1 x1 d1"
    using runsD[OF f(1), of ?s0 x0] by auto
  obtain x2 d2 m2 where 2: "lw_fopen L red x1 (?s0\<lparr>dev := d1, data_buffer := m1\<rparr>) = Some (0, x2, ?s0\<lparr>dev := d2, data_buffer := m2\<rparr>)"
    "pos x2 d2 0" using runsD[OF f(2), of "?s0\<lparr>dev := d1, data_buffer := m1\<rparr>" x1] 1(2) by auto
  obtain x4 d4 m4 where 4: "cat_loop (lw_fread L 0x3000) [] x2 (?s0\<lparr>dev := d2, data_buffer := m2\<rparr>) =
      Some (0, c, x4, ?s0\<lparr>dev := d4, data_buffer := m4\<rparr>)" "fin x4 d4"
    using cat_loop_ok[OF f(3), of "?s0\<lparr>dev := d2, data_buffer := m2\<rparr>" x2 0 "[]"] 2(2) by auto
  have 5: "free (?s0\<lparr>dev := d4, data_buffer := m4\<rparr>) = s\<lparr>dev := d4, data_buffer := m4\<rparr>"
    by (simp add: free_def)
  obtain x5 d5 m5 where 6: "lw_fclose L x4 (s\<lparr>dev := d4, data_buffer := m4\<rparr>) = Some (r, x5, s\<lparr>dev := d5, data_buffer := m5\<rparr>)" "P2 x5 d5"
    using runsD[OF f(4), of "s\<lparr>dev := d4, data_buffer := m4\<rparr>" x4] 4(2) by auto
  obtain x6 d6 m6 where 7: "lw_umount L x5 (s\<lparr>dev := d5, data_buffer := m5\<rparr>) = Some (True, x6, s\<lparr>dev := d6, data_buffer := m6\<rparr>)"
    using runsD[OF f(5), of "s\<lparr>dev := d5, data_buffer := m5\<rparr>" x5] 6(2) by auto
  show ?thesis
    unfolding sprd_cat_ext4fs_def if_not_P[OF heap_tested[OF heap]] route Let_def malloc_def
    by (intro exI[of _ x6] exI[of _ d6] exI[of _ m6]) (simp only: 1(1) 2(1) 4(1) 5 6(1) 7 Option.bind.simps prod.case, simp)
qed

text \<open>Listing a directory, above a listing \<open>out\<close> by the file system.\<close>

lemma sprd_ls_ext4fs_ok:
  assumes "ext4_route path = (bd, red)" "runs (checksum_type s) (lw_mount L bd) (\<lambda>x d. x = x0 \<and> d = dev s) True P1"
    "\<And>x s'. checksum_type s' = checksum_type s \<Longrightarrow> P1 x (dev s') \<Longrightarrow>
      \<exists>x' d m. lw_dir_ls L red x s' = Some (out, x', s'\<lparr>dev := d, data_buffer := m\<rparr>) \<and> P2 x' d"
    "runs (checksum_type s) (lw_umount L) P2 True (\<lambda>_ _. True)"
  shows "\<exists>x d m. sprd_ls_ext4fs L path x0 s = Some (0, out, x, s\<lparr>dev := d, data_buffer := m\<rparr>)"
proof -
  obtain x1 d1 m1 where 1: "lw_mount L bd x0 s = Some (True, x1, s\<lparr>dev := d1, data_buffer := m1\<rparr>)" "P1 x1 d1"
    using runsD[OF assms(2), of s x0] by auto
  obtain x2 d2 m2 where 2: "lw_dir_ls L red x1 (s\<lparr>dev := d1, data_buffer := m1\<rparr>) = Some (out, x2, s\<lparr>dev := d2, data_buffer := m2\<rparr>)" "P2 x2 d2"
    using assms(3)[of "s\<lparr>dev := d1, data_buffer := m1\<rparr>" x1] 1(2) by auto
  obtain x3 d3 m3 where 3: "lw_umount L x2 (s\<lparr>dev := d2, data_buffer := m2\<rparr>) = Some (True, x3, s\<lparr>dev := d3, data_buffer := m3\<rparr>)"
    using runsD[OF assms(4), of "s\<lparr>dev := d2, data_buffer := m2\<rparr>" x2] 2(2) by auto
  show ?thesis unfolding sprd_ls_ext4fs_def assms(1) Let_def
    by (intro exI[of _ x3] exI[of _ d3] exI[of _ m3]) (simp add: 1(1) 2(1) 3)
qed

end
