(* ===== verification/Cli.thy ===== *)
theory Cli
  imports Tasks Commands
begin

text \<open>
  The command line of main.c: finding the device, the partition table, the size argument and
  the dispatch of \<open>main\<close>. What libusb answers during the setup is a record of results.
\<close>

section \<open>Definitions\<close>

definition SPRD_VID :: u16 where "SPRD_VID = 0x1782"
definition SPRD_PID :: u16 where "SPRD_PID = 0x4d00"

text \<open>A device as \<open>libusb_get_device_descriptor\<close> shows it: result, product and vendor.\<close>

type_synonym usb_device = "int \<times> u16 \<times> u16"

fun is_sprd_dev :: "usb_device \<Rightarrow> int" where
  "is_sprd_dev (r, idProduct, idVendor) =
     (if r = 0 then (if idProduct = SPRD_PID \<and> idVendor = SPRD_VID then 0 else 1) else r)"

fun find_dev :: "usb_device list \<Rightarrow> usb_device option" where
  "find_dev [] = None"
| "find_dev (d # ds) = (if is_sprd_dev d = 0 then Some d else find_dev ds)"

definition part_table :: "string list" where
  "part_table =
     [''prodnv'', ''miscdata'', ''l_fixnv1'', ''l_fixnv2'', ''l_runtimenv1'', ''l_runtimenv2'',
      ''l_modem'', ''l_ldsp'', ''l_gdsp'', ''l_warm'', ''pm_sys'', ''sml'', ''logo'',
      ''fbootlogo'', ''wcnfdl'', ''wcnmodem'', ''boot'', ''system'', ''cache'', ''recovery'',
      ''misc'', ''userdata'', ''ubootlogo'', ''security'', ''dt'', ''cboot'', ''syberfs'',
      ''data'', ''internalsd'', '''']"

text \<open>The search loop: the entry it stops at, the empty end marker if the name is unknown.\<close>

fun find_part :: "string list \<Rightarrow> string \<Rightarrow> string" where
  "find_part [] name = []"
| "find_part (p # ps) name = (if p = [] then [] else if name = p then p else find_part ps name)"

text \<open>\<open>atoi\<close>: leading white space, a sign, digits; a value outside \<open>int\<close> is undefined.\<close>

definition is_space :: "char \<Rightarrow> bool" where
  "is_space c \<longleftrightarrow> c = CHR '' '' \<or> (9 \<le> (of_char c :: nat) \<and> (of_char c :: nat) \<le> 13)"

definition is_digit :: "char \<Rightarrow> bool" where
  "is_digit c \<longleftrightarrow> 48 \<le> (of_char c :: nat) \<and> (of_char c :: nat) \<le> 57"

fun digits_val :: "string \<Rightarrow> nat \<Rightarrow> nat" where
  "digits_val [] acc = acc"
| "digits_val (c # cs) acc = (if is_digit c then digits_val cs (acc * 10 + (of_char c - 48)) else acc)"

definition atoi :: "string \<Rightarrow> int option" where
  "atoi str =
     (let t = dropWhile is_space str;
          n = (case t of
                 [] \<Rightarrow> 0
               | c # cs \<Rightarrow> if c = CHR ''-'' then - int (digits_val cs 0)
                          else if c = CHR ''+'' then int (digits_val cs 0)
                          else int (digits_val t 0))
      in if - (2 ^ 31) \<le> n \<and> n < 2 ^ 31 then Some n else None)"

text \<open>The size argument of \<open>read\<close>; for an empty one the code reads the byte before the string.\<close>

definition parse_size :: "string \<Rightarrow> u32 option" where
  "parse_size arg = do {
     n \<leftarrow> atoi arg;
     let i_size = (word_of_int n :: u32);
     if arg = [] then None
     else if last arg = CHR ''m'' \<or> last arg = CHR ''M'' then Some (i_size * 1024 * 1024)
     else if last arg = CHR ''k'' \<or> last arg = CHR ''K'' then Some (i_size * 1024)
     else Some i_size }"

text \<open>What the setup calls answer.\<close>

record usb_setup =
  libusb_init_r :: int
  device_list :: "int + usb_device list"
  print_descriptor_r :: int
  libusb_open_r :: int
  libusb_claim_r :: int

text \<open>The default demo without arguments; the results are only printed.\<close>

definition demo ::
  "'d usb \<Rightarrow> ('d, 'x) fat_ops \<Rightarrow> ('d st \<Rightarrow> int \<times> 'd st) \<Rightarrow> string option \<Rightarrow> 'x \<Rightarrow> 'd st \<Rightarrow> ('x \<times> 'd st) option" where
  "demo U F sys exe x s = do {
     (_, s) \<leftarrow> sprd_task_bootrom U exe (s\<lparr>checksum_type := TYPE_CRC\<rparr>);
     (_, s) \<leftarrow> sprd_task_fdl1 U exe (s\<lparr>checksum_type := TYPE_IPSUM\<rparr>);
     (_, x, s) \<leftarrow> sprd_read_camera U F sys x s;
     (_, s) \<leftarrow> sprd_upload U ''boot'' 0x01000000 0x3000 ''boot-16m.img'' s;
     (_, s) \<leftarrow> sprd_upload U ''internalsd'' (200 * 1024 * 1024) 0x3000 ''internalsd-200m.img'' s;
     (_, s) \<leftarrow> sprd_upload U ''data'' (200 * 1024 * 1024) 0x3000 ''data-200m.img'' s;
     (_, s) \<leftarrow> sprd_normal_reset U s;
     Some (x, s) }"

text \<open>The dispatch on the arguments. \<open>r\<close> is the last result so far, that of claiming the
  interface; the branches that go to \<open>error_release\<close> without setting it return it.\<close>

definition command ::
  "'d usb \<Rightarrow> ('d, 'x) ext4_ops \<Rightarrow> ('d, 'x) fat_ops \<Rightarrow> ('d st \<Rightarrow> int \<times> 'd st) \<Rightarrow> string option \<Rightarrow>
   string list \<Rightarrow> int \<Rightarrow> 'x \<Rightarrow> 'd st \<Rightarrow> (int \<times> 'x \<times> 'd st) option" where
  "command U L F sys exe argv r x s =
     (let argc = length argv; ip = s\<lparr>checksum_type := TYPE_IPSUM\<rparr> in
      if argc = 1 then do { (x, s) \<leftarrow> demo U F sys exe x s; Some (r, x, s) }
      else if argc = 0 then None
      else if argv ! 1 = ''ready'' \<and> argc = 2 then do {
        (r, s) \<leftarrow> sprd_task_bootrom U exe (s\<lparr>checksum_type := TYPE_CRC\<rparr>);
        if r \<noteq> 0 then Some (r, x, s)
        else do {
          (r, s) \<leftarrow> sprd_task_fdl1 U exe (s\<lparr>checksum_type := TYPE_IPSUM\<rparr>);
          Some (r, x, s) } }
      else if argv ! 1 = ''reset'' \<and> argc = 2 then do {
        (r, s) \<leftarrow> sprd_normal_reset U ip; Some (r, x, s) }
      else if argv ! 1 = ''shutdown'' \<and> argc = 2 then do {
        (r, s) \<leftarrow> sprd_power_down U ip; Some (r, x, s) }
      else if argv ! 1 = ''read'' \<and> argc = 5 then
        (if find_part part_table (argv ! 2) = [] then Some (r, x, ip)
         else do {
           i_size \<leftarrow> parse_size (argv ! 3);
           (r, s) \<leftarrow> sprd_upload U (argv ! 2) i_size 0x3000 (argv ! 4) ip;
           Some (r, x, s) })
      else if argv ! 1 = ''write'' \<and> argc = 4 then
        (if find_part part_table (argv ! 2) = [] then Some (r, x, ip)
         else do {
           (r, s) \<leftarrow> sprd_download_partition U (Some (argv ! 2)) (Some (argv ! 3))
                       (ucast (get_file_size (argv ! 3) ip)) 0x5000 ip;
           Some (r, x, s) })
      else if argv ! 1 = ''camera'' \<and> argc = 2 then sprd_read_camera U F sys x ip
      else if argv ! 1 = ''ext4fs'' \<and> 4 \<le> argc then
        (if argv ! 2 = ''ls'' then do {
           (r, out, x, s) \<leftarrow> sprd_ls_ext4fs L (argv ! 3) x ip; Some (r, x, s) }
         else if argv ! 2 = ''get'' then sprd_read_ext4fs L (argv ! 3) x ip
         else if argv ! 2 = ''cat'' then do {
           (r, out, x, s) \<leftarrow> sprd_cat_ext4fs L (argv ! 3) x ip; Some (r, x, s) }
         else Some (r, x, ip))
      else Some (r, x, s))"

definition main ::
  "'d usb \<Rightarrow> usb_setup \<Rightarrow> ('d, 'x) ext4_ops \<Rightarrow> ('d, 'x) fat_ops \<Rightarrow> ('d st \<Rightarrow> int \<times> 'd st) \<Rightarrow> string option \<Rightarrow>
   string list \<Rightarrow> 'x \<Rightarrow> 'd st \<Rightarrow> (int \<times> 'x \<times> 'd st) option" where
  "main U E L F sys exe argv x s =
     (if length argv = 2 \<and> (argv ! 1 = ''help'' \<or> argv ! 1 = ''version'') then Some (0, x, s)
      else let s = s\<lparr>checksum_type := TYPE_CRC\<rparr> in
      if libusb_init_r E < 0 then Some (libusb_init_r E, x, s)
      else case device_list E of
        Inl cnt \<Rightarrow> Some (cnt, x, s)
      | Inr devs \<Rightarrow>
          if find_dev devs = None then Some (- 1, x, s)
          else if print_descriptor_r E \<noteq> 0 then Some (- 1, x, s)
          else if libusb_open_r E \<noteq> 0 then Some (- 1, x, s)
          else command U L F sys exe argv (libusb_claim_r E) x s)"

section \<open>Partition names\<close>

lemma find_part_mem: "find_part ps name \<noteq> [] \<Longrightarrow> name \<in> set ps \<and> find_part ps name = name"
  by (induction ps) (auto split: if_splits)

lemma known_names_short: "find_part part_table name \<noteq> [] \<Longrightarrow> length name \<le> 14"
  by (drule find_part_mem) (auto simp: part_table_def)

section \<open>The size argument\<close>

fun dec :: "nat \<Rightarrow> string" where
  "dec n = (if n < 10 then [char_of (48 + n)] else dec (n div 10) @ [char_of (48 + n mod 10)])"

declare dec.simps [simp del]

lemma of_char_digit: "n < 10 \<Longrightarrow> (of_char (char_of (48 + n :: nat)) :: nat) = 48 + n"
  by (simp add: of_char_of)

lemma mod_10_le [simp]: "n mod 10 \<le> (9 :: nat)"
  by (simp add: less_Suc_eq_le[symmetric])

lemma digits_val_dec: "digits_val (dec n @ cs) 0 = digits_val cs n"
proof (induction n arbitrary: cs rule: dec.induct)
  case (1 n)
  show ?case
  proof (cases "n < 10")
    case True
    then show ?thesis by (subst dec.simps) (simp add: is_digit_def of_char_digit)
  next
    case False
    have "digits_val (dec n @ cs) 0 = digits_val (dec (n div 10) @ char_of (48 + n mod 10) # cs) 0"
      using False by (subst dec.simps) simp
    also have "\<dots> = digits_val (char_of (48 + n mod 10) # cs) (n div 10)" using 1 False by blast
    also have "\<dots> = digits_val cs n" by (simp add: is_digit_def of_char_digit)
    finally show ?thesis .
  qed
qed

lemma dec_first: "\<exists>c cs. dec n = c # cs \<and> is_digit c"
proof (induction n rule: dec.induct)
  case (1 n)
  then show ?case by (subst dec.simps) (fastforce simp: is_digit_def of_char_digit)
qed

lemma atoi_dec:
  assumes "n < 2 ^ 31" "cs = [] \<or> \<not> is_digit (hd cs)"
  shows "atoi (dec n @ cs) = Some (int n)"
proof -
  obtain c ds where d: "dec n = c # ds" "is_digit c" using dec_first by blast
  have c: "\<not> is_space c" "c \<noteq> CHR ''-''" "c \<noteq> CHR ''+''" using d(2) by (auto simp: is_space_def is_digit_def)
  have v: "digits_val (dec n @ cs) 0 = n" using assms(2) unfolding digits_val_dec by (cases cs) auto
  have "atoi (c # ds @ cs) = Some (int (digits_val (c # ds @ cs) 0))"
    using c v assms(1) unfolding atoi_def d(1) append_Cons by (simp add: Let_def)
  with v show ?thesis by (simp add: d(1))
qed

lemma parse_size_dec:
  assumes "n < 2 ^ 31"
  shows "parse_size (dec n) = Some (of_nat n)"
    and "c \<in> {CHR ''k'', CHR ''K''} \<Longrightarrow> parse_size (dec n @ [c]) = Some (of_nat (1024 * n))"
    and "c \<in> {CHR ''m'', CHR ''M''} \<Longrightarrow> parse_size (dec n @ [c]) = Some (of_nat (1024 * 1024 * n))"
proof -
  have "is_digit (last (dec n))"
    by (subst dec.simps) (simp add: is_digit_def of_char_digit)
  moreover have "dec n \<noteq> []" using dec_first[of n] by auto
  ultimately show "parse_size (dec n) = Some (of_nat n)"
    using atoi_dec[OF assms, of "[]"] by (auto simp: parse_size_def is_digit_def Let_def)
  show "parse_size (dec n @ [c]) = Some (of_nat (1024 * n))" if "c \<in> {CHR ''k'', CHR ''K''}"
    using that atoi_dec[OF assms, of "[c]"] by (auto simp: parse_size_def is_digit_def Let_def)
  show "parse_size (dec n @ [c]) = Some (of_nat (1024 * 1024 * n))" if "c \<in> {CHR ''m'', CHR ''M''}"
    using that atoi_dec[OF assms, of "[c]"] by (auto simp: parse_size_def is_digit_def Let_def)
qed

text \<open>The size argument means what the usage text says: a decimal number below \<open>2^31\<close>,
  multiplied by 1024 or 1024 * 1024 for the suffixes, reduced modulo \<open>2^32\<close>.\<close>

theorem parse_size_correct:
  assumes "n < 2 ^ 31"
  shows "parse_size (dec n) = Some (of_nat n) \<and>
    parse_size (dec n @ ''k'') = Some (of_nat (1024 * n)) \<and> parse_size (dec n @ ''K'') = Some (of_nat (1024 * n)) \<and>
    parse_size (dec n @ ''m'') = Some (of_nat (1024 * 1024 * n)) \<and> parse_size (dec n @ ''M'') = Some (of_nat (1024 * 1024 * n))"
  using parse_size_dec[OF assms] by auto

theorem parse_size_correct_witness:
  "parse_size (dec 16) = Some (of_nat 16) \<and>
    parse_size (dec 16 @ ''k'') = Some (of_nat (1024 * 16)) \<and> parse_size (dec 16 @ ''K'') = Some (of_nat (1024 * 16)) \<and>
    parse_size (dec 16 @ ''m'') = Some (of_nat (1024 * 1024 * 16)) \<and> parse_size (dec 16 @ ''M'') = Some (of_nat (1024 * 1024 * 16))"
  by (rule parse_size_correct) simp

text \<open>Sizes of 4 GiB and more wrap around: ``4096m'' asks for 0 bytes.\<close>

theorem parse_size_wraps: "parse_size ''4096m'' = Some 0"
  by (simp add: parse_size_def atoi_def is_space_def is_digit_def Let_def)

section \<open>Exit status\<close>

text \<open>The setup succeeds: the device is there and can be opened and claimed.\<close>

definition setup_ok :: "usb_setup \<Rightarrow> bool" where
  "setup_ok E \<longleftrightarrow> 0 \<le> libusb_init_r E \<and> print_descriptor_r E = 0 \<and> libusb_open_r E = 0 \<and> libusb_claim_r E = 0 \<and>
     (case device_list E of Inl _ \<Rightarrow> False | Inr devs \<Rightarrow> find_dev devs \<noteq> None)"

definition setup0 :: usb_setup where
  "setup0 = \<lparr>libusb_init_r = 0, device_list = Inr [(0, 0x8000, 0x1d6b), (0, 0x4d00, 0x1782)],
     print_descriptor_r = 0, libusb_open_r = 0, libusb_claim_r = 0\<rparr>"

lemma setup0_ok: "setup_ok setup0"
  by (simp add: setup_ok_def setup0_def SPRD_PID_def SPRD_VID_def)

lemma main_command:
  assumes "setup_ok E" "length argv \<noteq> 2"
  shows "main U E L F sys exe argv x s = command U L F sys exe argv 0 x (s\<lparr>checksum_type := TYPE_CRC\<rparr>)"
  using assms by (auto simp: main_def setup_ok_def Let_def split: sum.splits)

text \<open>An unknown partition name, and arguments that match no command, end the program with
  the result of claiming the interface, which is 0 on success: the error is not visible in
  the exit status. The phone is not contacted.\<close>

theorem main_wrong_arguments:
  assumes "setup_ok E"
    and "argv = [p, ''read'', name, sz, fname] \<and> find_part part_table name = [] \<or>
         argv = [p, ''write'', name, fname] \<and> find_part part_table name = [] \<or>
         length argv = 6 \<and> argv ! 1 \<noteq> ''ext4fs''"
  shows "\<exists>ct. main U E L F sys exe argv x s = Some (0, x, s\<lparr>checksum_type := ct\<rparr>)"
  using assms(2)
proof (elim disjE conjE)
  assume "argv = [p, ''read'', name, sz, fname]" "find_part part_table name = []"
  with assms(1) show ?thesis by (intro exI[of _ TYPE_IPSUM]) (simp add: main_command command_def Let_def)
next
  assume "argv = [p, ''write'', name, fname]" "find_part part_table name = []"
  with assms(1) show ?thesis by (intro exI[of _ TYPE_IPSUM]) (simp add: main_command command_def Let_def)
next
  assume "length argv = 6" "argv ! 1 \<noteq> ''ext4fs''"
  with assms(1) show ?thesis by (intro exI[of _ TYPE_CRC]) (simp add: main_command command_def Let_def)
qed

theorem main_wrong_arguments_witness:
  "\<forall>U L F sys exe x s. \<exists>ct. main U setup0 L F sys exe
      [''syber_usb'', ''read'', ''nosuch'', ''16m'', ''out''] x s = Some (0, x, s\<lparr>checksum_type := ct\<rparr>)"
  by (intro allI main_wrong_arguments[where p = "''syber_usb''" and name = "''nosuch''" and sz = "''16m''" and fname = "''out''"])
     (simp_all add: setup0_ok part_table_def)

end
