(* ===== verification/Phone.thy ===== *)
theory Phone
  imports Cli
begin

text \<open>
  A reference phone: a device that behaves as the boot loader protocol asks, with a given
  flash content. It shows that the hypotheses about the device (\<open>serves_flash\<close>, \<open>starts\<close>,
  \<open>acks\<close>) can hold together, and the witnesses of the end-to-end results run against it.
  Its state is the list of packets it still has to send.
\<close>

section \<open>Definitions\<close>

definition phone_reply :: "byte \<Rightarrow> byte list \<Rightarrow> byte list \<Rightarrow> byte list list" where
  "phone_reply ct flash msg =
     (let f = unstuff 0 msg in
      if f ! 2 = bsl BSL_CMD_READ_FLASH_MIDST then
        [on_wire (frame_bytes ct (bsl BSL_REP_READ_FLASH)
           (take (unat (of_le32 (f ! 5) (f ! 6) (f ! 7) (f ! 8)))
              (drop (unat (of_le32 (f ! 9) (f ! 10) (f ! 11) (f ! 12))) flash)))]
      else [frame_bytes ct (bsl BSL_REP_ACK) []])"

definition phone_usb :: "byte \<Rightarrow> byte list \<Rightarrow> byte list list usb" where
  "phone_usb ct flash =
     \<lparr>bulk_out = (\<lambda>d msg. (0, phone_reply ct flash msg)),
      bulk_in = (\<lambda>d n. case d of [] \<Rightarrow> (- 7, [], []) | p # ps \<Rightarrow> (0, p, ps))\<rparr>"

definition idle :: "byte list list \<Rightarrow> bool" where
  "idle d \<longleftrightarrow> d = []"

text \<open>A state of the program on an empty host disk.\<close>

definition st0 :: "byte \<Rightarrow> (string \<rightharpoonup> byte list) \<Rightarrow> byte list list st" where
  "st0 ct fs =
     \<lparr>files = fs, nonreg = (\<lambda>_. False), denied = (\<lambda>_. False), space = 1000, close_ok = True, heap_ok = True,
      fds = 0, allocs = 0, dev = [], data_buffer = (\<lambda>_. 0), checksum_type = ct\<rparr>"

lemma st0_heap [simp]: "heap_ok (st0 ct fs)"
  by (simp add: st0_def)

text \<open>A phone that collects downloaded data; its state holds the pending packets and the data.\<close>

definition sink_out :: "byte \<Rightarrow> byte list list \<times> byte list \<Rightarrow> byte list \<Rightarrow> byte list list \<times> byte list" where
  "sink_out ct d msg =
     (let f = unstuff 0 msg in
      ([frame_bytes ct (bsl BSL_REP_ACK) []],
       if f ! 2 = bsl BSL_CMD_START_DATA then []
       else if f ! 2 = bsl BSL_CMD_MIDST_DATA then snd d @ take (length f - 8) (drop 5 f)
       else snd d))"

definition sink_usb :: "byte \<Rightarrow> (byte list list \<times> byte list) usb" where
  "sink_usb ct =
     \<lparr>bulk_out = (\<lambda>d msg. (0, sink_out ct d msg)),
      bulk_in = (\<lambda>d n. case fst d of [] \<Rightarrow> (- 7, [], d) | p # ps \<Rightarrow> (0, p, (ps, snd d)))\<rparr>"

definition sink_got :: "byte list list \<times> byte list \<Rightarrow> byte list \<Rightarrow> bool" where
  "sink_got d bs \<longleftrightarrow> d = ([], bs)"

definition sink_st :: "byte \<Rightarrow> (string \<rightharpoonup> byte list) \<Rightarrow> (byte list list \<times> byte list) st" where
  "sink_st ct fs =
     \<lparr>files = fs, nonreg = (\<lambda>_. False), denied = (\<lambda>_. False), space = 1000, close_ok = True, heap_ok = True,
      fds = 0, allocs = 0, dev = ([], []), data_buffer = (\<lambda>_. 0), checksum_type = ct\<rparr>"

section \<open>The reference phones meet the hypotheses\<close>

lemma sink_acked:
  assumes "unstuff 0 msg = frame_bytes ct ty dat"
  shows "acked (sink_usb ct) ct msg d ([], if ty = bsl BSL_CMD_START_DATA then []
      else if ty = bsl BSL_CMD_MIDST_DATA then snd d @ dat else snd d)"
proof -
  have "frame_bytes ct ty dat ! 2 = ty" "take (length dat) (drop 5 (frame_bytes ct ty dat)) = dat"
    using frame_bytes_nth(2,3)[of ct ty dat] by (simp_all add: frame_consts)
  then have "sink_out ct d msg = ([frame_bytes ct (bsl BSL_REP_ACK) []], if ty = bsl BSL_CMD_START_DATA then []
      else if ty = bsl BSL_CMD_MIDST_DATA then snd d @ dat else snd d)"
    unfolding sink_out_def assms Let_def by (auto simp del: bsl.simps)
  then show ?thesis
    unfolding acked_def by (intro exI[of _ "sink_out ct d msg"] exI[of _ "[]"])
      (simp add: sink_usb_def DATA_BUFFER_SIZE_def del: bsl.simps)
qed

lemma sink_got_start: "sink_got ([], bs) bs"
  by (simp add: sink_got_def)

lemma unstuff_plain: "0x7d \<notin> set bs \<Longrightarrow> unstuff nxt bs = bs"
  by (induction bs) (auto simp: unstuff_Cons_plain)

lemma sink_collects: "collects (sink_usb ct) ct win sink_got"
  unfolding collects_def sink_got_def
  using sink_acked[OF unstuff_on_wire, of ct "bsl BSL_CMD_MIDST_DATA"] by fastforce

lemma sink_finishes: "finishes (sink_usb TYPE_IPSUM) TYPE_IPSUM sink_got"
  unfolding finishes_def sink_got_def acks_def
proof (intro allI impI exI conjI)
  fix d :: "byte list list \<times> byte list" and bs assume d: "d = ([], bs)"
  have "unstuff 0 (frame_bytes TYPE_IPSUM (bsl BSL_CMD_END_DATA) []) = frame_bytes TYPE_IPSUM (bsl BSL_CMD_END_DATA) []"
    by (rule unstuff_plain) (simp add: closed_frame_eval Let_def)
  from sink_acked[OF this, of d] d
  show "acked (sink_usb TYPE_IPSUM) TYPE_IPSUM (frame_bytes TYPE_IPSUM (bsl BSL_CMD_END_DATA) []) d ([], bs)"
    by simp
qed simp

lemma replies_first:
  "bulk_in U d DATA_BUFFER_SIZE = (0, bs, d') \<Longrightarrow> length bs \<le> cap \<Longrightarrow> replies U cap 5 d bs d'"
  using replies.simps(2)[of U cap 4 d bs d'] by simp

lemma sink_starts_ack:
  "starts_ack (sink_usb ct) ct (frame_bytes ct (bsl BSL_CMD_START_DATA) dat) d ([], [])"
proof -
  let ?f = "frame_bytes ct (bsl BSL_CMD_START_DATA) dat" and ?a = "frame_bytes ct (bsl BSL_REP_ACK) []"
  have "?f ! 2 = bsl BSL_CMD_START_DATA"
    using frame_bytes_nth(2)[of ct "bsl BSL_CMD_START_DATA" dat] by (simp add: frame_consts)
  then have "bulk_out (sink_usb ct) d (on_wire ?f) = (0, ([?a], []))"
    by (simp add: sink_usb_def sink_out_def unstuff_on_wire Let_def del: bsl.simps)
  moreover have "replies (sink_usb ct) DATA_BUFFER_SIZE 5 ([?a], []) ?a ([], [])"
    by (rule replies_first) (simp_all add: sink_usb_def DATA_BUFFER_SIZE_def del: bsl.simps)
  ultimately show ?thesis unfolding starts_ack_def by blast
qed

lemma fits_short: "2 * length bs + 14 \<le> cap \<Longrightarrow> fits ct cap win bs"
  unfolding fits_def by (intro allI impI order_trans[OF length_on_wire_frame]) auto


lemma phone_serves:
  assumes "2 * length flash + 14 \<le> cap"
  shows "serves_flash (phone_usb ct flash) ct cap win idle flash"
  unfolding serves_flash_def
proof (intro allI impI)
  fix d :: "byte list list" and len offset :: u32
  assume "unat offset + unat len \<le> length flash"
  let ?dat = "take (unat len) (drop (unat offset) flash)"
  let ?w = "on_wire (frame_bytes ct (bsl BSL_REP_READ_FLASH) ?dat)"
  have "phone_reply ct flash (on_wire (read_request ct len offset)) = [?w]"
    using of_le32_le32[of len] of_le32_le32[of offset]
    by (simp add: phone_reply_def unstuff_on_wire read_request_def le32_def Let_def)
  moreover have "?w \<noteq> []" by (rule on_wire_nonempty) (simp add: frame_bytes_def)
  moreover have "length ?w \<le> cap"
  proof -
    have "2 * length ?dat + 14 \<le> cap" using assms by simp
    then show ?thesis by (rule order_trans[OF length_on_wire_frame])
  qed
  ultimately show "\<exists>d1 ps d2. bulk_out (phone_usb ct flash) d (on_wire (read_request ct len offset)) = (0, d1) \<and>
      delivers (phone_usb ct flash) d1 ps d2 \<and> (\<forall>p\<in>set ps. p \<noteq> []) \<and> length (concat ps) \<le> cap \<and>
      concat ps = ?w \<and> idle d2"
    by (intro exI[of _ "[?w]"] exI[of _ "[]"]) (simp add: phone_usb_def idle_def del: bsl.simps)
qed

lemma phone_flash_ok:
  "2 * length flash + 14 \<le> 0x6000 \<Longrightarrow> flash_ok (phone_usb ct flash) idle flash (st0 ct fs)"
  by (simp add: flash_ok_def phone_serves st0_def idle_def)

lemma phone_starts:
  assumes "frame ! 2 \<noteq> bsl BSL_CMD_READ_FLASH_MIDST" and "8 \<le> cap"
  shows "starts (phone_usb ct flash) ct cap frame d []"
  unfolding starts_def
  using assms
  by (intro exI[of _ "[frame_bytes ct (bsl BSL_REP_ACK) []]"] exI[of _ "bsl BSL_REP_ACK"] exI[of _ "[]"])
     (simp add: phone_usb_def phone_reply_def unstuff_on_wire Let_def eval_nat_numeral)

lemma phone_acks:
  assumes "c \<noteq> 0x7d" "c \<noteq> bsl BSL_CMD_READ_FLASH_MIDST"
  shows "acks (phone_usb ct flash) ct c d []"
proof -
  have "unstuff 0 (frame_bytes ct c []) ! 2 = c"
    using assms(1) by (simp add: frame_bytes_def frame_body_def frame_consts unstuff_Cons_plain be16_def)
  then show ?thesis
    unfolding acks_def acked_def using assms(2)
    by (intro exI[of _ "[frame_bytes ct (bsl BSL_REP_ACK) []]"] exI[of _ "[]"])
       (simp add: phone_usb_def phone_reply_def DATA_BUFFER_SIZE_def Let_def)
qed

section \<open>End to end\<close>



text \<open>C8. End to end: if the phone accepts the session for the partition, collects data frames
  and acknowledges the end, every window of the file fits the send buffer of \<open>2 * win_size\<close> bytes after escaping
  (\<open>fits\<close>), the window is between 0x100 bytes and what the frame buffer takes, and \<open>down_size\<close> is positive and not beyond the
  file, then \<open>sprd_download_partition\<close> returns 0, the phone has exactly the
  first \<open>down_size\<close> bytes of the file, and no descriptor or heap block is left behind. Files with windows that do not
  fit are the subject of \<open>download_loop_overflow\<close>.\<close>

theorem sprd_download_partition_correct:
  assumes "starts_ack U (checksum_type s) (frame_bytes (checksum_type s) (bsl BSL_CMD_START_DATA)
      (part_data part (start_fields part sz c))) (dev s) d0"
    and "collects U (checksum_type s) (unat win) got" "got d0 []" and "finishes U (checksum_type s) got"
    and "0x100 \<le> unat win" "unat win + 8 \<le> DATA_BUFFER_SIZE" and "length part \<le> 36"
    and "fits (checksum_type s) (unat (win * 2)) (unat win) c" and "unat sz \<le> length c" "sz \<noteq> 0"
    and "files s fname = Some c" "\<not> nonreg s fname" "\<not> denied s fname" "close_ok s"
  shows "\<exists>d m. sprd_download_partition U (Some part) (Some fname) sz win s =
      Some (0, s\<lparr>dev := d, data_buffer := m\<rparr>) \<and> got d (take (unat sz) c)"
  using assms by (rule sprd_download_partition_ok)

theorem sprd_download_partition_correct_witness:
  "\<exists>d m. sprd_download_partition (sink_usb TYPE_IPSUM) (Some ''l_fixnv1'') (Some ''nv'') 3 0x5000
      (sink_st TYPE_IPSUM [''nv'' \<mapsto> [0x7e, 2, 3, 4]]) =
      Some (0, (sink_st TYPE_IPSUM [''nv'' \<mapsto> [0x7e, 2, 3, 4]])\<lparr>dev := d, data_buffer := m\<rparr>) \<and>
    sink_got d (take (unat (3 :: u32)) [0x7e, 2, 3, 4])"
  by (rule sprd_download_partition_correct[where ?d0.0 = "([], [])"])
     (simp_all add: sink_st_def sink_starts_ack sink_collects sink_finishes fits_short sink_got_start
       DATA_BUFFER_SIZE_def del: bsl.simps)

text \<open>C24. End to end: if the phone takes the start frame, collects data frames and acknowledges the end, every window of
  the file fits the send buffer of \<open>2 * win_size\<close> bytes after escaping (\<open>fits\<close>), the window is not empty and fits the
  frame buffer, and \<open>download_size\<close> is not beyond the file, then \<open>sprd_download\<close> returns 0, the
  phone has exactly the first \<open>download_size\<close> bytes of the file, and no descriptor or heap block is left behind. The start frame is sent without
  escaping, so the phone has to take it in this form.\<close>

theorem sprd_download_correct:
  assumes "acked U (checksum_type s)
      (frame_bytes (checksum_type s) (bsl BSL_CMD_START_DATA) (be32 dst @ be32 sz)) (dev s) d0"
    and "collects U (checksum_type s) (unat win) got" "got d0 []" and "finishes U (checksum_type s) got"
    and "0 < unat win" "unat win + 8 \<le> DATA_BUFFER_SIZE"
    and "fits (checksum_type s) (unat (win * 2)) (unat win) c" and "unat sz \<le> length c"
    and "files s fname = Some c" "\<not> denied s fname" "close_ok s"
  shows "\<exists>d m. sprd_download U fname sz dst win s = Some (0, s\<lparr>dev := d, data_buffer := m\<rparr>) \<and>
    got d (take (unat sz) c)"
  using assms by (rule sprd_download_ok)

theorem sprd_download_correct_witness:
  "\<exists>d m. sprd_download (sink_usb TYPE_IPSUM) ''fdl2.bin'' 4 0x9f000000 2112
      (sink_st TYPE_IPSUM [''fdl2.bin'' \<mapsto> [0x7e, 2, 3, 4]]) =
      Some (0, (sink_st TYPE_IPSUM [''fdl2.bin'' \<mapsto> [0x7e, 2, 3, 4]])\<lparr>dev := d, data_buffer := m\<rparr>) \<and>
    sink_got d (take (unat (4 :: u32)) [0x7e, 2, 3, 4])"
proof (rule sprd_download_correct[where ?d0.0 = "([], [])"])
  let ?f = "frame_bytes TYPE_IPSUM (bsl BSL_CMD_START_DATA) (be32 0x9f000000 @ be32 4)"
  have "unstuff 0 ?f = ?f" by (rule unstuff_plain) (simp add: closed_frame_eval be32_def Let_def)
  from sink_acked[OF this] show "acked (sink_usb TYPE_IPSUM) (checksum_type (sink_st TYPE_IPSUM [''fdl2.bin'' \<mapsto> [0x7e, 2, 3, 4]]))
      (frame_bytes (checksum_type (sink_st TYPE_IPSUM [''fdl2.bin'' \<mapsto> [0x7e, 2, 3, 4]])) (bsl BSL_CMD_START_DATA)
        (be32 0x9f000000 @ be32 4)) (dev (sink_st TYPE_IPSUM [''fdl2.bin'' \<mapsto> [0x7e, 2, 3, 4]])) ([], [])"
    by (simp add: sink_st_def)
qed (simp_all add: sink_st_def sink_collects sink_finishes fits_short sink_got_start DATA_BUFFER_SIZE_def del: bsl.simps)

text \<open>C31. The send buffer of \<open>2 * win_size\<close> bytes is too small: if the first full window of the
  file consists of bytes that need escaping, the loop writes past its end (there is no defined
  result), whatever the phone does.\<close>

theorem download_loop_overflow:
  assumes "unat win < 2 ^ 31" "0 < unat win" "unat win \<le> unat sz" "unat win \<le> length rest"
    and "set (take (unat win) rest) \<subseteq> {0x7d, 0x7e}"
  shows "download_loop U (unat (win * 2)) win sz rest s = None"
  using assms by (rule download_loop_special)

theorem download_loop_overflow_witness:
  "download_loop (sink_usb TYPE_CRC) (unat (528 * 2 :: u32)) 528 600 (replicate 600 0x7e) (sink_st TYPE_CRC Map.empty) = None"
  by (rule download_loop_overflow) (auto simp: take_replicate)





text \<open>C32. The first boot stage: if the boot ROM answers, acknowledges the connection, takes the
  loader's data and acknowledges its start, and \<open>fdl1.bin\<close> in the directory of the executable is below 4 GiB and every
  window of 528 bytes of it fits the send buffer of 1056 bytes after escaping (\<open>fits\<close>), then \<open>sprd_task_bootrom\<close> returns 0 and the phone runs
  exactly the contents of that file.\<close>

theorem sprd_task_bootrom_correct:
  assumes "hails U (checksum_type s) (dev s) d0"
    and "fdl_path exe ''fdl1.bin'' = Some (Inr path)"
    and "acked U (checksum_type s) (frame_bytes (checksum_type s) (bsl BSL_CMD_START_DATA)
      (be32 0x50000000 @ be32 (of_nat (length c)))) d0 d1"
    and "collects U (checksum_type s) 528 got" "got d1 []" and "finishes U (checksum_type s) got"
    and "\<And>d. got d c \<Longrightarrow> \<exists>d'. acks U (checksum_type s) (bsl BSL_CMD_EXEC_DATA) d d' \<and> running d' c"
    and "fits (checksum_type s) 1056 528 c" and "length c < 2 ^ 32"
    and "files s path = Some c" "\<not> denied s path" "close_ok s"
  shows "\<exists>d m. sprd_task_bootrom U exe s = Some (0, s\<lparr>dev := d, data_buffer := m\<rparr>) \<and> running d c"
  using assms by (rule sprd_task_bootrom_ok)

lemma sink_acks:
  assumes "c \<in> {bsl BSL_CMD_CONNECT, bsl BSL_CMD_EXEC_DATA}"
  shows "acks (sink_usb TYPE_IPSUM) TYPE_IPSUM c d ([], snd d)"
proof -
  have "unstuff 0 (frame_bytes TYPE_IPSUM c []) = frame_bytes TYPE_IPSUM c []"
    using assms by (intro unstuff_plain) (auto simp: closed_frame_eval Let_def unsigned_minus_1_eq_mask mask_eq_exp_minus_1)
  from sink_acked[OF this, of d] assms show ?thesis unfolding acks_def by auto
qed

theorem sprd_task_bootrom_correct_witness:
  "\<exists>d m. sprd_task_bootrom (sink_usb TYPE_IPSUM) (Some ''/opt/syber_usb'') (sink_st TYPE_IPSUM [''/opt/fdl1.bin'' \<mapsto> [9, 8, 7]]) =
      Some (0, (sink_st TYPE_IPSUM [''/opt/fdl1.bin'' \<mapsto> [9, 8, 7]])\<lparr>dev := d, data_buffer := m\<rparr>) \<and> sink_got d [9, 8, 7]"
proof (rule sprd_task_bootrom_correct[where got = sink_got])
  let ?s = "sink_st TYPE_IPSUM [''/opt/fdl1.bin'' \<mapsto> [9, 8, 7]]"
  let ?d = "sink_out TYPE_IPSUM ([], []) [SPRD_START_BYTE]"
  show "hails (sink_usb TYPE_IPSUM) (checksum_type ?s) (dev ?s) ([], snd ?d)"
    unfolding hails_def sink_st_def
    using sink_acks[of "bsl BSL_CMD_CONNECT" "([], snd ?d)"]
    by (intro exI[of _ ?d] exI[of _ "bsl BSL_REP_ACK"] exI[of _ "[]"] exI[of _ "([], snd ?d)"])
       (simp add: sink_usb_def sink_out_def Let_def DATA_BUFFER_SIZE_def)
  let ?f = "frame_bytes TYPE_IPSUM (bsl BSL_CMD_START_DATA) (be32 0x50000000 @ be32 3)"
  have "unstuff 0 ?f = ?f" by (rule unstuff_plain) (simp add: closed_frame_eval be32_def Let_def)
  from sink_acked[OF this] show "acked (sink_usb TYPE_IPSUM) (checksum_type ?s)
      (frame_bytes (checksum_type ?s) (bsl BSL_CMD_START_DATA) (be32 0x50000000 @ be32 (of_nat (length [9 :: byte, 8, 7]))))
      ([], snd ?d) ([], [])"
    by (simp add: sink_st_def)
  show "fdl_path (Some ''/opt/syber_usb'') ''fdl1.bin'' = Some (Inr ''/opt/fdl1.bin'')"
    by (simp add: fdl_path_def)
  show "\<exists>d'. acks (sink_usb TYPE_IPSUM) (checksum_type ?s) (bsl BSL_CMD_EXEC_DATA) d d' \<and> sink_got d' [9, 8, 7]"
    if "sink_got d [9, 8, 7]" for d
    using that sink_acks[of "bsl BSL_CMD_EXEC_DATA" d] by (auto simp: sink_got_def sink_st_def)
qed (simp_all add: sink_st_def sink_collects sink_finishes fits_short sink_got_start del: bsl.simps)

end
