(* ===== verification/Ext4_Super.thy ===== *)
theory Ext4_Super
  imports Ext4_Crc
begin

text \<open>
  lwext4/src/ext4_super.c and the accessors of ext4_super.h. A superblock is its 1024-byte
  image (the host is little-endian, so the fields are read as stored); every accessor names
  the offset of its field in \<open>struct ext4_sblock\<close>. A division by zero and a shift that
  leaves the range of \<open>int\<close> have no defined result.
\<close>

section \<open>Definitions\<close>

definition get16 :: "mem \<Rightarrow> nat \<Rightarrow> u16" where
  "get16 m off = of_le16 (m off) (m (off + 1))"

definition get32 :: "mem \<Rightarrow> nat \<Rightarrow> u32" where
  "get32 m off = of_le32 (m off) (m (off + 1)) (m (off + 2)) (m (off + 3))"

definition put32 :: "mem \<Rightarrow> nat \<Rightarrow> u32 \<Rightarrow> mem" where
  "put32 m off v = mem_put m off (le32 v)"

subsection \<open>Fields\<close>

definition inodes_count :: "mem \<Rightarrow> u32" where "inodes_count sb = get32 sb 0"
definition log_block_size :: "mem \<Rightarrow> u32" where "log_block_size sb = get32 sb 24"
definition log_cluster_size :: "mem \<Rightarrow> u32" where "log_cluster_size sb = get32 sb 28"
definition blocks_per_group :: "mem \<Rightarrow> u32" where "blocks_per_group sb = get32 sb 32"
definition inodes_per_group :: "mem \<Rightarrow> u32" where "inodes_per_group sb = get32 sb 40"
definition magic :: "mem \<Rightarrow> u16" where "magic sb = get16 sb 56"
definition first_inode :: "mem \<Rightarrow> u32" where "first_inode sb = get32 sb 84"
definition inode_size :: "mem \<Rightarrow> u16" where "inode_size sb = get16 sb 88"
definition features_compatible :: "mem \<Rightarrow> u32" where "features_compatible sb = get32 sb 92"
definition features_incompatible :: "mem \<Rightarrow> u32" where "features_incompatible sb = get32 sb 96"
definition features_read_only :: "mem \<Rightarrow> u32" where "features_read_only sb = get32 sb 100"
definition reserved_gdt_blocks :: "mem \<Rightarrow> u16" where "reserved_gdt_blocks sb = get16 sb 206"
definition sb_flags :: "mem \<Rightarrow> u32" where "sb_flags sb = get32 sb 352"
definition log_groups_per_flex :: "mem \<Rightarrow> byte" where "log_groups_per_flex sb = sb 372"
definition sb_checksum_type :: "mem \<Rightarrow> byte" where "sb_checksum_type sb = sb 373"
definition sb_checksum :: "mem \<Rightarrow> u32" where "sb_checksum sb = get32 sb 1020"

definition EXT4_FRO_COM_SPARSE_SUPER :: u32 where "EXT4_FRO_COM_SPARSE_SUPER = 0x0001"
definition EXT4_FRO_COM_METADATA_CSUM :: u32 where "EXT4_FRO_COM_METADATA_CSUM = 0x0400"
definition EXT4_FINCOM_META_BG :: u32 where "EXT4_FINCOM_META_BG = 0x0010"
definition EXT4_SUPERBLOCK_MAGIC :: u16 where "EXT4_SUPERBLOCK_MAGIC = 0xef53"
definition EXT4_CRC32_INIT :: u32 where "EXT4_CRC32_INIT = 0xffffffff"

subsection \<open>Accessors of ext4\_super.h\<close>

definition ext4_sb_get_blocks_cnt :: "mem \<Rightarrow> u64" where
  "ext4_sb_get_blocks_cnt sb = push_bit 32 (ucast (get32 sb 336)) OR ucast (get32 sb 4)"

definition ext4_sb_set_blocks_cnt :: "mem \<Rightarrow> u64 \<Rightarrow> mem" where
  "ext4_sb_set_blocks_cnt sb cnt =
     put32 (put32 sb 4 (ucast (drop_bit 32 (push_bit 32 cnt)))) 336 (ucast (drop_bit 32 cnt))"

definition ext4_sb_get_free_blocks_cnt :: "mem \<Rightarrow> u64" where
  "ext4_sb_get_free_blocks_cnt sb = push_bit 32 (ucast (get32 sb 344)) OR ucast (get32 sb 12)"

definition ext4_sb_set_free_blocks_cnt :: "mem \<Rightarrow> u64 \<Rightarrow> mem" where
  "ext4_sb_set_free_blocks_cnt sb cnt =
     put32 (put32 sb 12 (ucast (drop_bit 32 (push_bit 32 cnt)))) 344 (ucast (drop_bit 32 cnt))"

definition ext4_sb_get_block_size :: "mem \<Rightarrow> u32 option" where
  "ext4_sb_get_block_size sb =
     (if log_block_size sb < 21 then Some (push_bit (unat (log_block_size sb)) 1024) else None)"

definition ext4_sb_get_desc_size :: "mem \<Rightarrow> u16" where
  "ext4_sb_get_desc_size sb = (let size = get16 sb 254 in if size < 32 then 32 else size)"

definition ext4_sb_check_flag :: "mem \<Rightarrow> u32 \<Rightarrow> bool" where
  "ext4_sb_check_flag sb v \<longleftrightarrow> sb_flags sb AND v \<noteq> 0"

definition ext4_sb_feature_com :: "mem \<Rightarrow> u32 \<Rightarrow> bool" where
  "ext4_sb_feature_com sb v \<longleftrightarrow> features_compatible sb AND v \<noteq> 0"

definition ext4_sb_feature_incom :: "mem \<Rightarrow> u32 \<Rightarrow> bool" where
  "ext4_sb_feature_incom sb v \<longleftrightarrow> features_incompatible sb AND v \<noteq> 0"

definition ext4_sb_feature_ro_com :: "mem \<Rightarrow> u32 \<Rightarrow> bool" where
  "ext4_sb_feature_ro_com sb v \<longleftrightarrow> features_read_only sb AND v \<noteq> 0"

definition ext4_sb_bg_to_flex :: "mem \<Rightarrow> u32 \<Rightarrow> u32 option" where
  "ext4_sb_bg_to_flex sb block_group =
     (if log_groups_per_flex sb < 32 then Some (drop_bit (unat (log_groups_per_flex sb)) block_group) else None)"

definition ext4_sb_flex_bg_size :: "mem \<Rightarrow> u32 option" where
  "ext4_sb_flex_bg_size sb =
     (if log_groups_per_flex sb < 31 then Some (push_bit (unat (log_groups_per_flex sb)) 1) else None)"

definition ext4_sb_first_meta_bg :: "mem \<Rightarrow> u32" where
  "ext4_sb_first_meta_bg sb = get32 sb 260"

subsection \<open>Operations of ext4\_super.c\<close>

definition ext4_block_group_cnt :: "mem \<Rightarrow> u32 option" where
  "ext4_block_group_cnt sb =
     (let blocks_count = ext4_sb_get_blocks_cnt sb; bpg = (ucast (blocks_per_group sb) :: u64) in
      if bpg = 0 then None
      else let n = (ucast (blocks_count div bpg) :: u32) in
      Some (if blocks_count mod bpg \<noteq> 0 then n + 1 else n))"

definition ext4_blocks_in_group_cnt :: "mem \<Rightarrow> u32 \<Rightarrow> u32 option" where
  "ext4_blocks_in_group_cnt sb bgid = do {
     block_group_count \<leftarrow> ext4_block_group_cnt sb;
     let total_blocks = ext4_sb_get_blocks_cnt sb;
     if bgid < block_group_count - 1 then Some (blocks_per_group sb)
     else Some (ucast (total_blocks - ucast ((block_group_count - 1) * blocks_per_group sb))) }"

definition ext4_inodes_in_group_cnt :: "mem \<Rightarrow> u32 \<Rightarrow> u32 option" where
  "ext4_inodes_in_group_cnt sb bgid = do {
     block_group_count \<leftarrow> ext4_block_group_cnt sb;
     if bgid < block_group_count - 1 then Some (inodes_per_group sb)
     else Some (inodes_count sb - ((block_group_count - 1) * inodes_per_group sb)) }"

definition ext4_sb_csum :: "mem \<Rightarrow> u32" where
  "ext4_sb_csum sb = ext4_crc32c EXT4_CRC32_INIT (mem_get sb 0 1020)"

definition ext4_sb_verify_csum :: "mem \<Rightarrow> bool" where
  "ext4_sb_verify_csum sb \<longleftrightarrow>
     (if \<not> ext4_sb_feature_ro_com sb EXT4_FRO_COM_METADATA_CSUM then True
      else if sb_checksum_type sb \<noteq> 1 then False
      else sb_checksum sb = ext4_sb_csum sb)"

definition ext4_sb_set_csum :: "mem \<Rightarrow> mem" where
  "ext4_sb_set_csum sb =
     (if \<not> ext4_sb_feature_ro_com sb EXT4_FRO_COM_METADATA_CSUM then sb
      else put32 sb 1020 (ext4_sb_csum sb))"

definition ext4_sb_check :: "mem \<Rightarrow> bool" where
  "ext4_sb_check sb \<longleftrightarrow>
     magic sb = EXT4_SUPERBLOCK_MAGIC \<and> inodes_count sb \<noteq> 0 \<and> ext4_sb_get_blocks_cnt sb \<noteq> 0 \<and>
     blocks_per_group sb \<noteq> 0 \<and> inodes_per_group sb \<noteq> 0 \<and> \<not> inode_size sb < 128 \<and>
     \<not> first_inode sb < 11 \<and> \<not> ext4_sb_get_desc_size sb < 32 \<and> \<not> ext4_sb_get_desc_size sb > 64 \<and>
     ext4_sb_verify_csum sb"

text \<open>\<open>is_power_of\<close>: for \<open>b\<close> = 1 the loop does not end, for \<open>b\<close> = 0 it divides by zero.\<close>

partial_function (option) is_power_of :: "u32 \<Rightarrow> u32 \<Rightarrow> bool option" where
  "is_power_of a b =
     (if a < b then Some False
      else if a = b then Some True
      else if b = 0 then None
      else if a mod b \<noteq> 0 then Some False
      else is_power_of (a div b) b)"

definition ext4_sb_sparse :: "u32 \<Rightarrow> bool option" where
  "ext4_sb_sparse grp =
     (if grp \<le> 1 then Some True
      else if grp AND 1 = 0 then Some False
      else do {
        p7 \<leftarrow> is_power_of grp 7;
        if p7 then Some True
        else do {
          p5 \<leftarrow> is_power_of grp 5;
          if p5 then Some True else is_power_of grp 3 } })"

definition ext4_sb_is_super_in_bg :: "mem \<Rightarrow> u32 \<Rightarrow> bool option" where
  "ext4_sb_is_super_in_bg sb grp =
     (if ext4_sb_feature_ro_com sb EXT4_FRO_COM_SPARSE_SUPER then ext4_sb_sparse grp else Some True)"

definition dsc_per_block :: "mem \<Rightarrow> u32 option" where
  "dsc_per_block sb = do {
     bs \<leftarrow> ext4_sb_get_block_size sb;
     Some (bs div ucast (ext4_sb_get_desc_size sb)) }"

definition ext4_bg_num_gdb_meta :: "mem \<Rightarrow> u32 \<Rightarrow> u32 option" where
  "ext4_bg_num_gdb_meta sb grp = do {
     dsc \<leftarrow> dsc_per_block sb;
     if dsc = 0 then None
     else let metagroup = grp div dsc; first = metagroup * dsc; last = first + dsc - 1 in
     Some (if grp = first \<or> grp = first + 1 \<or> grp = last then 1 else 0) }"

definition ext4_bg_num_gdb_nometa :: "mem \<Rightarrow> u32 \<Rightarrow> u32 option" where
  "ext4_bg_num_gdb_nometa sb grp = do {
     sup \<leftarrow> ext4_sb_is_super_in_bg sb grp;
     if \<not> sup then Some 0
     else do {
       dsc \<leftarrow> dsc_per_block sb;
       n \<leftarrow> ext4_block_group_cnt sb;
       if dsc = 0 then None
       else let db_count = (n + dsc - 1) div dsc in
       Some (if ext4_sb_feature_incom sb EXT4_FINCOM_META_BG then ext4_sb_first_meta_bg sb else db_count) } }"

definition ext4_bg_num_gdb :: "mem \<Rightarrow> u32 \<Rightarrow> u32 option" where
  "ext4_bg_num_gdb sb grp = do {
     dsc \<leftarrow> dsc_per_block sb;
     if dsc = 0 then None
     else let metagroup = grp div dsc in
     if \<not> ext4_sb_feature_incom sb EXT4_FINCOM_META_BG \<or> metagroup < ext4_sb_first_meta_bg sb
     then ext4_bg_num_gdb_nometa sb grp
     else ext4_bg_num_gdb_meta sb grp }"

definition ext4_num_base_meta_clusters :: "mem \<Rightarrow> u32 \<Rightarrow> u32 option" where
  "ext4_num_base_meta_clusters sb block_group = do {
     dsc \<leftarrow> dsc_per_block sb;
     sup \<leftarrow> ext4_sb_is_super_in_bg sb block_group;
     num \<leftarrow> (if \<not> ext4_sb_feature_incom sb EXT4_FINCOM_META_BG \<or> block_group < ext4_sb_first_meta_bg sb * dsc
            then (if sup then do {
                    gdb \<leftarrow> ext4_bg_num_gdb sb block_group;
                    Some (1 + gdb + ucast (reserved_gdt_blocks sb)) }
                  else Some 0)
            else do {
              gdb \<leftarrow> ext4_bg_num_gdb sb block_group;
              Some ((if sup then 1 else 0) + gdb) });
     bs \<leftarrow> ext4_sb_get_block_size sb;
     if log_cluster_size sb < 21 then
       let cluster_ratio = push_bit (unat (log_cluster_size sb)) 1024 div bs in
       Some (drop_bit (unat (log_cluster_size sb)) (num + cluster_ratio - 1))
     else None }"

section \<open>Fields\<close>

lemma get32_put32: "get32 (put32 m off v) off = v"
  unfolding get32_def put32_def using of_le32_le32[of v] by (simp add: mem_put_def)

lemma get32_put32_other: "off + 4 \<le> off' \<or> off' + 4 \<le> off \<Longrightarrow> get32 (put32 m off' v) off = get32 m off"
  by (auto simp: get32_def put32_def mem_put_def)

text \<open>The 64-bit counters of the superblock, stored as two halves, read back as written.\<close>

theorem sb_counts_roundtrip:
  "ext4_sb_get_blocks_cnt (ext4_sb_set_blocks_cnt sb cnt) = cnt \<and>
   ext4_sb_get_free_blocks_cnt (ext4_sb_set_free_blocks_cnt sb cnt) = cnt \<and>
   ext4_sb_get_blocks_cnt (ext4_sb_set_free_blocks_cnt sb cnt) = ext4_sb_get_blocks_cnt sb"
proof -
  have "push_bit 32 (ucast (ucast (drop_bit 32 cnt) :: u32)) OR ucast (ucast (drop_bit 32 (push_bit 32 cnt)) :: u32) = cnt"
    by (rule bit_word_eqI) (auto simp: bit_simps dest: bit_imp_le_length)
  then show ?thesis
    by (simp add: ext4_sb_get_blocks_cnt_def ext4_sb_set_blocks_cnt_def ext4_sb_get_free_blocks_cnt_def
        ext4_sb_set_free_blocks_cnt_def get32_put32 get32_put32_other)
qed

section \<open>Block groups\<close>

lemma ucast_diff_down: "(ucast (a - b :: u64) :: u32) = ucast a - ucast b"
proof -
  have "take_bit 32 (take_bit 64 (k - l)) = take_bit 32 (take_bit 64 k - take_bit 64 l)" for k l :: int
    using take_bit_diff[of 32 "take_bit 64 k" "take_bit 64 l"] take_bit_diff[of 32 k l] by simp
  then show ?thesis by transfer simp
qed

lemma ucast_up_down: "(ucast (ucast (x :: u32) :: u64) :: u32) = x"
  by (rule bit_word_eqI) (auto simp: bit_simps)

lemma block_group_cnt_ceil:
  fixes sb
  defines "T \<equiv> unat (ext4_sb_get_blocks_cnt sb)" and "B \<equiv> unat (blocks_per_group sb)"
  assumes "0 < B" "T \<le> (2 ^ 32 - 1) * B"
  shows "\<exists>n. ext4_block_group_cnt sb = Some n \<and> unat n = T div B + (if T mod B \<noteq> 0 then 1 else 0)"
proof -
  let ?b = "ucast (blocks_per_group sb) :: u64" and ?t = "ext4_sb_get_blocks_cnt sb"
  have b: "unat ?b = B" using unat_less[of "blocks_per_group sb"] by (simp add: B_def unat_ucast_mod)
  then have b0: "?b \<noteq> 0" using assms(3) by auto
  have le: "T div B \<le> 2 ^ 32 - 1" using div_le_mono[OF assms(4), of B] assms(3) by simp
  have m: "?t mod ?b \<noteq> 0 \<longleftrightarrow> T mod B \<noteq> 0"
    by (simp add: word_unat_eq_iff unat_mod b T_def)
  have d: "unat (ucast (?t div ?b) :: u32) = T div B"
  proof -
    have "unat (?t div ?b) = T div B" unfolding unat_div b T_def ..
    moreover have "T div B mod 2 ^ 32 = T div B" using le by simp
    ultimately show ?thesis by (simp only: unat_ucast_mod) simp
  qed
  have lt: "T div B < 2 ^ 32 - 1" if "T mod B \<noteq> 0"
  proof (rule ccontr)
    assume "\<not> T div B < 2 ^ 32 - 1"
    then have "T = (2 ^ 32 - 1) * B + T mod B" using le mult_div_mod_eq[of B T] by (simp add: mult.commute)
    with that assms(4) show False by linarith
  qed
  have "unat (ucast (?t div ?b) + 1 :: u32) = T div B + 1" if "T mod B \<noteq> 0"
    using lt[OF that] d by (subst unat_Suc_bound) simp_all
  with d m b0 show ?thesis by (auto simp: ext4_block_group_cnt_def Let_def)
qed

lemma ceil_bounds:
  fixes B T :: nat
  assumes "0 < B" "0 < T"
  defines "n \<equiv> T div B + (if T mod B \<noteq> 0 then 1 else 0)"
  shows "0 < n" "(n - 1) * B < T" "T \<le> n * B"
proof -
  have T: "(T div B) * B + T mod B = T" "T mod B < B" using assms(1) by simp_all
  have "0 < n \<and> (n - 1) * B < T \<and> T \<le> n * B"
  proof (cases "T mod B = 0")
    case True
    then obtain q where q: "T = q * B" using T(1) by (metis add_0_right)
    then show ?thesis using assms True by (cases q) auto
  next
    case False
    then have "T div B * B < T" "T \<le> T div B * B + B" using T by linarith+
    then show ?thesis using False by (simp add: n_def)
  qed
  then show "0 < n" "(n - 1) * B < T" "T \<le> n * B" by blast+
qed

lemma last_group:
  fixes total :: u64 and bpg n :: u32
  assumes "(unat n - 1) * unat bpg < unat total" "unat total \<le> unat n * unat bpg" "0 < unat n"
  shows "unat (ucast (total - ucast ((n - 1) * bpg)) :: u32) = unat total - (unat n - 1) * unat bpg"
proof -
  let ?d = "unat total - (unat n - 1) * unat bpg"
  have "n \<noteq> 0" using assms(3) by auto
  then have n1: "unat (n - 1) = unat n - 1" by (simp add: unat_minus_one)
  have "(ucast (total - ucast ((n - 1) * bpg)) :: u32) = ucast total - (n - 1) * bpg"
    unfolding ucast_diff_down ucast_up_down ..
  also have "\<dots> = of_nat (unat total) - of_nat ((unat n - 1) * unat bpg)"
    by (simp only: n1[symmetric] of_nat_mult of_nat_unat ucast_id)
  also have "\<dots> = of_nat ?d" using assms(1) by simp
  finally have "unat (ucast (total - ucast ((n - 1) * bpg)) :: u32) = ?d mod 2 ^ 32"
    by (simp add: unat_of_nat)
  moreover have "?d \<le> unat bpg"
    using assms(2,3) by (cases "unat n") (simp_all add: algebra_simps)
  ultimately show ?thesis using unat_less[of bpg] by simp
qed

text \<open>C37. For an accepted superblock the number of block groups is defined, and the groups divide
  the blocks of the file system: every group but the last has \<open>blocks_per_group\<close> blocks, the
  last between 1 and that many, and the sizes add up to the block count. (The group count
  has to fit its 32 bits; block counts beyond 2^32 are covered, although the last group's
  size is computed with 32-bit products.)\<close>

theorem groups_partition_blocks:
  assumes "ext4_sb_check sb" "unat (ext4_sb_get_blocks_cnt sb) \<le> (2 ^ 32 - 1) * unat (blocks_per_group sb)"
  shows "\<exists>n f. ext4_block_group_cnt sb = Some n \<and>
    (\<forall>i<unat n. ext4_blocks_in_group_cnt sb (of_nat i) = Some (f i) \<and> 0 < unat (f i) \<and> f i \<le> blocks_per_group sb) \<and>
    (\<Sum>i<unat n. unat (f i)) = unat (ext4_sb_get_blocks_cnt sb)"
proof -
  define T B where "T = unat (ext4_sb_get_blocks_cnt sb)" and "B = unat (blocks_per_group sb)"
  have pos: "0 < B" "0 < T"
    using assms(1) by (auto simp: ext4_sb_check_def B_def T_def unat_gt_0)
  obtain n where cnt: "ext4_block_group_cnt sb = Some n" and n: "unat n = T div B + (if T mod B \<noteq> 0 then 1 else 0)"
    using block_group_cnt_ceil[of sb] assms(2) pos by (auto simp: T_def B_def)
  have n0: "0 < unat n" "(unat n - 1) * B < T" "T \<le> unat n * B"
    using ceil_bounds[OF pos] by (simp_all add: n)
  define k where "k = unat n - 1"
  have k: "unat n = Suc k" "unat (n - 1) = k" using n0(1) by (auto simp: k_def unat_minus_one unat_gt_0)
  define f where "f i = (if i < k then blocks_per_group sb
      else ucast (ext4_sb_get_blocks_cnt sb - ucast ((n - 1) * blocks_per_group sb)))" for i
  have last: "unat (f k) = T - k * B"
    using last_group[of n "blocks_per_group sb" "ext4_sb_get_blocks_cnt sb"] n0 by (simp add: f_def T_def B_def k_def)
  have "of_nat i < n - 1 \<longleftrightarrow> i < k" if "i < unat n" for i
    using that k unat_less[of n] by (simp add: word_less_nat_alt unat_of_nat)
  then have "ext4_blocks_in_group_cnt sb (of_nat i) = Some (f i)" if "i < unat n" for i
    using that by (simp add: ext4_blocks_in_group_cnt_def cnt f_def Let_def)
  moreover have "0 < unat (f i) \<and> f i \<le> blocks_per_group sb" if "i < unat n" for i
  proof (cases "i < k")
    case True
    then show ?thesis using pos by (simp add: f_def B_def)
  next
    case False
    then have "i = k" using that k by simp
    moreover have "T - k * B \<le> B" using n0(3) k by simp
    ultimately show ?thesis using last n0(2) by (simp add: word_le_nat_alt B_def k)
  qed
  moreover have "(\<Sum>i<unat n. unat (f i)) = T"
  proof -
    have "(\<Sum>i<k. unat (f i)) = k * B" by (simp add: f_def B_def)
    then show ?thesis using last n0(2) by (simp add: k)
  qed
  ultimately show ?thesis using cnt unfolding T_def by blast
qed

section \<open>Groups with a superblock copy\<close>

lemma power_step:
  fixes a b :: nat
  assumes "1 < b" "b dvd a" "b < a"
  shows "(\<exists>k>0. a = b ^ k) \<longleftrightarrow> (\<exists>k>0. a div b = b ^ k)"
proof
  assume "\<exists>k>0. a = b ^ k"
  then obtain k where k: "0 < k" "a = b ^ k" by blast
  then obtain j where j: "k = Suc j" by (cases k) auto
  have "0 < j" using k j assms by (cases j) auto
  then show "\<exists>k>0. a div b = b ^ k" using k j assms(1) by (intro exI[of _ j]) simp
next
  assume "\<exists>k>0. a div b = b ^ k"
  then obtain k where "a div b = b ^ k" by blast
  then have "a = b ^ Suc k" using assms(2) by (metis dvd_mult_div_cancel power_Suc)
  then show "\<exists>k>0. a = b ^ k" by blast
qed

lemma is_power_of_eq:
  assumes "1 < unat b"
  shows "is_power_of a b = Some (\<exists>k>0. unat a = unat b ^ k)"
proof (induction "unat a" arbitrary: a rule: less_induct)
  case less
  have ge: "unat b \<le> unat b ^ k" if "0 < k" for k
    using that assms by (cases k) auto
  consider "unat a < unat b" | "unat a = unat b" | "unat b < unat a" "\<not> unat b dvd unat a"
    | "unat b < unat a" "unat b dvd unat a" by linarith
  then show ?case
  proof cases
    case 1
    then have "\<not> (\<exists>k>0. unat a = unat b ^ k)" using ge by (metis leD)
    with 1 show ?thesis by (subst is_power_of.simps) (simp add: word_less_nat_alt)
  next
    case 2
    then have "a = b" by (simp add: word_unat_eq_iff)
    moreover have "\<exists>k>0. unat b = unat b ^ k" by (intro exI[of _ 1]) simp
    ultimately show ?thesis by (subst is_power_of.simps) simp
  next
    case 3
    then have "\<not> (\<exists>k>0. unat a = unat b ^ k)" by (metis dvd_power)
    with 3 assms show ?thesis
      by (subst is_power_of.simps)
        (auto simp: word_less_nat_alt word_unat_eq_iff[of "a mod b"] unat_mod dvd_eq_mod_eq_0)
  next
    case 4
    have "unat (a div b) < unat a" using 4 assms by (simp add: unat_div)
    from less[OF this] have "is_power_of (a div b) b = Some (\<exists>k>0. unat a div unat b = unat b ^ k)"
      by (simp add: unat_div)
    with 4 assms power_step[of "unat b" "unat a"] show ?thesis
      by (subst is_power_of.simps)
        (auto simp: word_less_nat_alt word_unat_eq_iff[of "a mod b"] unat_mod dvd_eq_mod_eq_0)
  qed
qed

lemma sparse_if:
  assumes "\<not> g \<le> 1" "g AND 1 \<noteq> 0"
    and "is_power_of g 3 = Some p3" "is_power_of g 5 = Some p5" "is_power_of g 7 = Some p7"
  shows "ext4_sb_sparse g = Some (p3 \<or> p5 \<or> p7)"
  using assms by (simp add: ext4_sb_sparse_def)

text \<open>C39. The copies of the superblock are kept exactly in the groups 0 and 1 and in those whose
  number is a power of 3, 5 or 7: the test always returns, also when its loops run.\<close>

theorem sparse_groups:
  "ext4_sb_sparse g = Some (unat g \<le> 1 \<or> (\<exists>k. unat g = 3 ^ k \<or> unat g = 5 ^ k \<or> unat g = 7 ^ k))"
proof (cases "unat g \<le> 1")
  case True
  then show ?thesis by (simp add: ext4_sb_sparse_def word_le_nat_alt)
next
  case False
  let ?P = "\<lambda>p::nat. \<exists>k>0. unat g = p ^ k"
  have pos: "(\<exists>k. unat g = 3 ^ k \<or> unat g = 5 ^ k \<or> unat g = 7 ^ k) \<longleftrightarrow> ?P 3 \<or> ?P 5 \<or> ?P 7"
  proof -
    have "k > 0" if "unat g = p ^ k" for k p using False that by (cases k) auto
    then show ?thesis by blast
  qed
  show ?thesis
  proof (cases "even (unat g)")
    case True
    then have "\<not> (?P 3 \<or> ?P 5 \<or> ?P 7)" by (auto simp: even_power)
    moreover have "g AND 1 = 0" using True by (simp add: and_one_eq word_unat_eq_iff unat_mod)
    ultimately show ?thesis using False pos by (simp add: ext4_sb_sparse_def word_le_nat_alt)
  next
    case odd: False
    then have "g AND 1 \<noteq> 0" by (simp add: and_one_eq word_unat_eq_iff unat_mod odd_iff_mod_2_eq_one)
    moreover have "is_power_of g 3 = Some (?P 3)" "is_power_of g 5 = Some (?P 5)" "is_power_of g 7 = Some (?P 7)"
      by (simp_all add: is_power_of_eq)
    moreover have "\<not> g \<le> 1" using False by (simp add: word_le_nat_alt)
    ultimately have "ext4_sb_sparse g = Some (?P 3 \<or> ?P 5 \<or> ?P 7)" by (intro sparse_if)
    then show ?thesis by (simp only: pos False simp_thms)
  qed
qed

section \<open>The checksum of the superblock\<close>

lemma mem_get_update: "i < n \<Longrightarrow> mem_get (m(i := v)) 0 n = (mem_get m 0 n)[i := v]"
  by (intro nth_equalityI) (auto simp: nth_list_update)

lemma mem_get_put32: "n \<le> off \<Longrightarrow> mem_get (put32 m off v) 0 n = mem_get m 0 n"
  by (intro nth_equalityI) (auto simp: put32_def mem_put_def)

lemma bit_of_le32:
  assumes "n < 8"
  shows "bit (of_le32 a b c d) n = bit a n" "bit (of_le32 a b c d) (n + 8) = bit b n"
    "bit (of_le32 a b c d) (n + 16) = bit c n" "bit (of_le32 a b c d) (n + 24) = bit d n"
  unfolding of_le32_def bit_or_iff bit_push_bit_iff bit_ucast_iff using assms by auto

lemma of_le32_inject: "of_le32 a b c d = of_le32 a' b' c' d' \<longleftrightarrow> a = a' \<and> b = b' \<and> c = c' \<and> d = d'"
proof
  assume eq: "of_le32 a b c d = of_le32 a' b' c' d'"
  have "bit a n = bit a' n \<and> bit b n = bit b' n \<and> bit c n = bit c' n \<and> bit d n = bit d' n" if "n < 8" for n
    using bit_of_le32[OF that, of a b c d] bit_of_le32[OF that, of a' b' c' d'] eq by simp
  then show "a = a' \<and> b = b' \<and> c = c' \<and> d = d'"
    by (intro conjI bit_word_eqI) simp_all
qed simp

lemma get32_update: "off \<le> i \<Longrightarrow> i < off + 4 \<Longrightarrow> v \<noteq> m i \<Longrightarrow> get32 (m(i := v)) off \<noteq> get32 m off"
proof -
  assume "off \<le> i" "i < off + 4" "v \<noteq> m i"
  then have "i = off \<or> i = off + 1 \<or> i = off + 2 \<or> i = off + 3" by linarith
  with \<open>v \<noteq> m i\<close> show ?thesis by (auto simp: get32_def of_le32_inject)
qed

lemma set_csum_fields:
  assumes "i < 1020"
  shows "ext4_sb_set_csum sb i = sb i"
  using assms by (simp add: ext4_sb_set_csum_def put32_def mem_put_def)

lemma csum_ignores_csum: "ext4_sb_csum (ext4_sb_set_csum sb) = ext4_sb_csum sb"
  by (simp add: ext4_sb_csum_def ext4_sb_set_csum_def mem_get_put32)

lemma set_csum_update:
  "i < 1020 \<Longrightarrow> features_read_only ((ext4_sb_set_csum sb)(i := v)) = features_read_only (sb(i := v))"
  by (simp add: features_read_only_def get32_def set_csum_fields)

text \<open>C38. With the feature \<open>METADATA_CSUM\<close> on and the checksum type 1 (CRC-32C), what \<open>ext4_sb_set_csum\<close> writes,
  \<open>ext4_sb_verify_csum\<close> accepts; and after a change of a single byte of the superblock, the checksum included, it is
  rejected, unless the change switches the feature itself off (the code then accepts everything).\<close>

theorem superblock_checksum:
  assumes "ext4_sb_feature_ro_com sb EXT4_FRO_COM_METADATA_CSUM" "sb_checksum_type sb = 1"
    and "i < 1024" "v \<noteq> ext4_sb_set_csum sb i"
    and "i < 1020 \<longrightarrow> ext4_sb_feature_ro_com (sb(i := v)) EXT4_FRO_COM_METADATA_CSUM"
  shows "ext4_sb_verify_csum (ext4_sb_set_csum sb) \<and> \<not> ext4_sb_verify_csum ((ext4_sb_set_csum sb)(i := v))"
proof -
  let ?sb = "ext4_sb_set_csum sb"
  have feat: "features_read_only ?sb = features_read_only sb"
    by (simp add: features_read_only_def get32_def set_csum_fields)
  have sum: "sb_checksum ?sb = ext4_sb_csum sb"
    using assms(1) by (simp add: ext4_sb_set_csum_def sb_checksum_def get32_put32)
  have "\<not> ext4_sb_verify_csum (?sb(i := v))"
  proof (cases "i < 1020")
    case True
    have "ext4_sb_csum (?sb(i := v)) \<noteq> ext4_sb_csum ?sb"
      using crc32c.foldl_single_change[of i "mem_get ?sb 0 1020" v] True assms(4)
      by (simp add: ext4_sb_csum_def ext4_crc32c_foldl mem_get_update)
    moreover have "sb_checksum (?sb(i := v)) = sb_checksum ?sb"
      using True by (simp add: sb_checksum_def get32_def)
    ultimately show ?thesis
      using assms(5) True set_csum_update[OF True, of sb v]
      by (simp add: ext4_sb_verify_csum_def ext4_sb_feature_ro_com_def sum csum_ignores_csum)
  next
    case False
    then have "ext4_sb_csum (?sb(i := v)) = ext4_sb_csum ?sb"
      by (simp add: ext4_sb_csum_def mem_get_def)
    moreover have "sb_checksum (?sb(i := v)) \<noteq> sb_checksum ?sb"
      using False assms(3,4) by (simp add: sb_checksum_def get32_update)
    moreover have "ext4_sb_feature_ro_com (?sb(i := v)) = ext4_sb_feature_ro_com sb"
      using False feat by (simp add: fun_eq_iff ext4_sb_feature_ro_com_def features_read_only_def get32_def)
    ultimately show ?thesis
      using assms(1) by (simp add: ext4_sb_verify_csum_def sum csum_ignores_csum)
  qed
  then show ?thesis
    using assms(1,2) feat sum
    by (simp add: ext4_sb_verify_csum_def ext4_sb_feature_ro_com_def sb_checksum_type_def set_csum_fields csum_ignores_csum)
qed

text \<open>A small valid superblock, and one with the checksum feature.\<close>

definition sb0 :: mem where
  "sb0 = (\<lambda>_. 0)(0 := 16, 4 := 100, 32 := 64, 40 := 16, 56 := 0x53, 57 := 0xef, 84 := 11, 88 := 128)"

definition sb1 :: mem where
  "sb1 = (\<lambda>_. 0)(0 := 16, 4 := 100, 32 := 64, 40 := 16, 56 := 0x53, 57 := 0xef, 84 := 11, 88 := 128,
     101 := 4, 373 := 1)"

lemmas sb_eval = sb0_def get32_def get16_def inodes_count_def blocks_per_group_def inodes_per_group_def
  magic_def first_inode_def inode_size_def features_read_only_def ext4_sb_get_blocks_cnt_def
  ext4_sb_get_desc_size_def ext4_sb_feature_ro_com_def ext4_sb_verify_csum_def EXT4_SUPERBLOCK_MAGIC_def
  of_le32_def of_le16_def of_be16_def

lemma sb0_ok: "ext4_sb_check sb0"
  by (simp add: ext4_sb_check_def sb_eval)

theorem groups_partition_blocks_witness:
  "\<exists>n f. ext4_block_group_cnt sb0 = Some n \<and>
    (\<forall>i<unat n. ext4_blocks_in_group_cnt sb0 (of_nat i) = Some (f i) \<and> 0 < unat (f i) \<and> f i \<le> blocks_per_group sb0) \<and>
    (\<Sum>i<unat n. unat (f i)) = unat (ext4_sb_get_blocks_cnt sb0)"
  by (rule groups_partition_blocks[OF sb0_ok]) (simp add: sb_eval)

theorem superblock_checksum_witness:
  "ext4_sb_verify_csum (ext4_sb_set_csum sb1) \<and> \<not> ext4_sb_verify_csum ((ext4_sb_set_csum sb1)(4 := 101))"
  by (rule superblock_checksum)
    (simp_all add: set_csum_fields, simp_all add: sb1_def sb_checksum_type_def sb_eval EXT4_FRO_COM_METADATA_CSUM_def)

end
