(* ===== verification/Ext4_Bdev.thy ===== *)
theory Ext4_Bdev
  imports Blockdev
begin

text \<open>
  The part of lwext4/src/ext4_blockdev.c that does not use the block cache, and the two
  providers of its function pointers: lwext4/blockdev/blockdev.c (theory Blockdev) and the
  image file device lwext4/blockdev/linux/ext4_filedev.c. A device is a record of the fields of
  \<open>struct ext4_blockdev\<close> and \<open>struct ext4_blockdev_iface\<close> with the driver's own state \<open>drv\<close>;
  the function pointers of the interface are a second record, the argument \<open>ops\<close>. A buffer is a byte list
  of its capacity; a write behind its end has no defined result. A failed \<open>ext4_assert\<close>
  has no result either.

  The locale \<open>block_source\<close> states what reading through the pointers promises, \<open>block_store\<close>
  adds writing; inside them byte-granular reads and writes are shown to be reads and updates
  of the contents of the partition.
\<close>

section \<open>Definitions\<close>

definition EIO :: int where "EIO = 5"
definition ENXIO :: int where "ENXIO = 6"
definition EFAULT :: int where "EFAULT = 14"
definition EINVAL :: int where "EINVAL = 22"

record 's bdev =
  ph_bsize :: u32
  ph_bcnt :: u64
  ph_bbuf :: "byte list"
  ph_refctr :: u32
  bread_ctr :: u32
  bwrite_ctr :: u32
  part_offset :: u64
  part_size :: u64
  lg_bsize :: u32
  lg_bcnt :: u64
  cache_write_back :: u32
  drv :: 's

record 's bdif =
  p_open :: "'s bdev \<Rightarrow> (int \<times> 's bdev) option"
  p_bread :: "u64 \<Rightarrow> u32 \<Rightarrow> 's bdev \<Rightarrow> (int \<times> byte list \<times> 's bdev) option"
  p_bwrite :: "byte list \<Rightarrow> u64 \<Rightarrow> u32 \<Rightarrow> 's bdev \<Rightarrow> (int \<times> 's bdev) option"
  p_close :: "'s bdev \<Rightarrow> (int \<times> 's bdev) option"
  p_lock :: "('s bdev \<Rightarrow> int \<times> 's bdev) option"
  p_unlock :: "('s bdev \<Rightarrow> int \<times> 's bdev) option"

subsection \<open>The interface\<close>

definition ext4_bdif_lock :: "'s bdif \<Rightarrow> 's bdev \<Rightarrow> 's bdev option" where
  "ext4_bdif_lock ops bd =
     (case p_lock ops of
        None \<Rightarrow> Some bd
      | Some f \<Rightarrow> (case f bd of (r, bd) \<Rightarrow> if r = EOK then Some bd else None))"

definition ext4_bdif_unlock :: "'s bdif \<Rightarrow> 's bdev \<Rightarrow> 's bdev option" where
  "ext4_bdif_unlock ops bd =
     (case p_unlock ops of
        None \<Rightarrow> Some bd
      | Some f \<Rightarrow> (case f bd of (r, bd) \<Rightarrow> if r = EOK then Some bd else None))"

definition ext4_bdif_bread ::
  "'s bdif \<Rightarrow> u64 \<Rightarrow> u32 \<Rightarrow> 's bdev \<Rightarrow> (int \<times> byte list \<times> 's bdev) option" where
  "ext4_bdif_bread ops blk_id blk_cnt bd = do {
     bd \<leftarrow> ext4_bdif_lock ops bd;
     (r, dat, bd) \<leftarrow> p_bread ops blk_id blk_cnt bd;
     bd \<leftarrow> ext4_bdif_unlock ops (bd\<lparr>bread_ctr := bread_ctr bd + 1\<rparr>);
     Some (r, dat, bd) }"

definition ext4_bdif_bwrite ::
  "'s bdif \<Rightarrow> byte list \<Rightarrow> u64 \<Rightarrow> u32 \<Rightarrow> 's bdev \<Rightarrow> (int \<times> 's bdev) option" where
  "ext4_bdif_bwrite ops buf blk_id blk_cnt bd = do {
     bd \<leftarrow> ext4_bdif_lock ops bd;
     (r, bd) \<leftarrow> p_bwrite ops buf blk_id blk_cnt bd;
     bd \<leftarrow> ext4_bdif_unlock ops (bd\<lparr>bwrite_ctr := bwrite_ctr bd + 1\<rparr>);
     Some (r, bd) }"

definition ext4_block_init :: "'s bdif \<Rightarrow> 's bdev \<Rightarrow> (int \<times> 's bdev) option" where
  "ext4_block_init ops bd =
     (if ph_refctr bd \<noteq> 0 then Some (EOK, bd\<lparr>ph_refctr := ph_refctr bd + 1\<rparr>)
      else do {
        (rc, bd) \<leftarrow> p_open ops bd;
        if rc \<noteq> EOK then Some (rc, bd) else Some (EOK, bd\<lparr>ph_refctr := 1\<rparr>) })"

definition ext4_block_set_lb_size :: "u32 \<Rightarrow> 's bdev \<Rightarrow> 's bdev option" where
  "ext4_block_set_lb_size lb_bsize bd =
     (if ph_bsize bd = 0 \<or> lb_bsize mod ph_bsize bd \<noteq> 0 then None
      else if lb_bsize = 0 then None
      else Some (bd\<lparr>lg_bsize := lb_bsize, lg_bcnt := part_size bd div ucast lb_bsize\<rparr>))"

definition ext4_block_fini :: "'s bdif \<Rightarrow> 's bdev \<Rightarrow> (int \<times> 's bdev) option" where
  "ext4_block_fini ops bd =
     (if ph_refctr bd = 0 then Some (EOK, bd)
      else let bd = bd\<lparr>ph_refctr := ph_refctr bd - 1\<rparr> in
      if ph_refctr bd \<noteq> 0 then Some (EOK, bd) else p_close ops bd)"

subsection \<open>Logical blocks\<close>

definition ext4_blocks_get_direct ::
  "'s bdif \<Rightarrow> u64 \<Rightarrow> u32 \<Rightarrow> 's bdev \<Rightarrow> (int \<times> byte list \<times> 's bdev) option" where
  "ext4_blocks_get_direct ops lba cnt bd =
     (if ph_bsize bd = 0 then None
      else let pba = (lba * ucast (lg_bsize bd) + part_offset bd) div ucast (ph_bsize bd);
               pb_cnt = lg_bsize bd div ph_bsize bd in
      ext4_bdif_bread ops pba (pb_cnt * cnt) bd)"

definition ext4_blocks_set_direct ::
  "'s bdif \<Rightarrow> byte list \<Rightarrow> u64 \<Rightarrow> u32 \<Rightarrow> 's bdev \<Rightarrow> (int \<times> 's bdev) option" where
  "ext4_blocks_set_direct ops buf lba cnt bd =
     (if ph_bsize bd = 0 then None
      else let pba = (lba * ucast (lg_bsize bd) + part_offset bd) div ucast (ph_bsize bd);
               pb_cnt = lg_bsize bd div ph_bsize bd in
      ext4_bdif_bwrite ops buf pba (pb_cnt * cnt) bd)"

subsection \<open>Bytes\<close>

text \<open>Reading one physical block into \<open>ph_bbuf\<close>.\<close>

definition bread_bbuf :: "'s bdif \<Rightarrow> u64 \<Rightarrow> 's bdev \<Rightarrow> (int \<times> 's bdev) option" where
  "bread_bbuf ops block_idx bd = do {
     (r, dat, bd) \<leftarrow> ext4_bdif_bread ops block_idx 1 bd;
     b \<leftarrow> buf_set 0 dat (ph_bbuf bd);
     Some (r, bd\<lparr>ph_bbuf := b\<rparr>) }"

text \<open>The common start of both functions: the checks, the block index, the unaligned part
  and the length of the piece in the first block.\<close>

definition bytes_range :: "'s bdev \<Rightarrow> u64 \<Rightarrow> u32 \<Rightarrow> (int + u64 \<times> u32 \<times> u32) option" where
  "bytes_range bd off len =
     (if ph_refctr bd = 0 then Some (Inl EIO)
      else if off + ucast len > part_size bd then Some (Inl EINVAL)
      else if ph_bsize bd = 0 then None
      else let block_idx = (off + part_offset bd) div ucast (ph_bsize bd);
               unalg = (ucast (off AND ucast (ph_bsize bd - 1)) :: u32);
               wlen = (if unalg = 0 then 0
                       else if ph_bsize bd - unalg > len then len else ph_bsize bd - unalg) in
      Some (Inr (block_idx, unalg, wlen)))"

text \<open>In the read functions \<open>p\<close> is the offset of the pointer of that name in \<open>buf\<close>.\<close>

definition read_rest ::
  "'s bdif \<Rightarrow> byte list \<Rightarrow> nat \<Rightarrow> u32 \<Rightarrow> u64 \<Rightarrow> 's bdev \<Rightarrow> (int \<times> byte list \<times> 's bdev) option" where
  "read_rest ops buf p len block_idx bd =
     (if len = 0 then Some (EOK, buf, bd)
      else do {
        (r, bd) \<leftarrow> bread_bbuf ops block_idx bd;
        if r \<noteq> EOK then Some (r, buf, bd)
        else do {
          buf \<leftarrow> buf_set p (take (unat len) (ph_bbuf bd)) buf;
          Some (r, buf, bd) } })"

definition read_aligned ::
  "'s bdif \<Rightarrow> byte list \<Rightarrow> nat \<Rightarrow> u32 \<Rightarrow> u64 \<Rightarrow> 's bdev \<Rightarrow> (int \<times> byte list \<times> 's bdev) option" where
  "read_aligned ops buf p len block_idx bd = do {
     let blen = len div ph_bsize bd;
     (r, dat, bd) \<leftarrow> ext4_bdif_bread ops block_idx blen bd;
     buf \<leftarrow> buf_set p dat buf;
     if r \<noteq> EOK then Some (r, buf, bd)
     else read_rest ops buf (p + unat (ph_bsize bd * blen)) (len - ph_bsize bd * blen)
            (block_idx + ucast blen) bd }"

definition ext4_block_readbytes ::
  "'s bdif \<Rightarrow> u64 \<Rightarrow> byte list \<Rightarrow> u32 \<Rightarrow> 's bdev \<Rightarrow> (int \<times> byte list \<times> 's bdev) option" where
  "ext4_block_readbytes ops off buf len bd = do {
     rng \<leftarrow> bytes_range bd off len;
     case rng of
       Inl e \<Rightarrow> Some (e, buf, bd)
     | Inr (block_idx, unalg, rlen) \<Rightarrow>
         if unalg = 0 then read_aligned ops buf 0 len block_idx bd
         else do {
           (r, bd) \<leftarrow> bread_bbuf ops block_idx bd;
           if r \<noteq> EOK then Some (r, buf, bd)
           else do {
             buf \<leftarrow> buf_set 0 (take (unat rlen) (drop (unat unalg) (ph_bbuf bd))) buf;
             read_aligned ops buf (unat rlen) (len - rlen) (block_idx + 1) bd } } }"

text \<open>In the write functions \<open>p\<close> is what the pointer of that name still points to.\<close>

definition write_rest :: "'s bdif \<Rightarrow> byte list \<Rightarrow> u32 \<Rightarrow> u64 \<Rightarrow> 's bdev \<Rightarrow> (int \<times> 's bdev) option" where
  "write_rest ops p len block_idx bd =
     (if len = 0 then Some (EOK, bd)
      else do {
        (r, bd) \<leftarrow> bread_bbuf ops block_idx bd;
        if r \<noteq> EOK then Some (r, bd)
        else if length p < unat len then None
        else do {
          b \<leftarrow> buf_set 0 (take (unat len) p) (ph_bbuf bd);
          ext4_bdif_bwrite ops b block_idx 1 (bd\<lparr>ph_bbuf := b\<rparr>) } })"

definition write_aligned :: "'s bdif \<Rightarrow> byte list \<Rightarrow> u32 \<Rightarrow> u64 \<Rightarrow> 's bdev \<Rightarrow> (int \<times> 's bdev) option" where
  "write_aligned ops p len block_idx bd = do {
     let blen = len div ph_bsize bd;
     (r, bd) \<leftarrow> ext4_bdif_bwrite ops p block_idx blen bd;
     if r \<noteq> EOK then Some (r, bd)
     else write_rest ops (drop (unat (ph_bsize bd * blen)) p) (len - ph_bsize bd * blen)
            (block_idx + ucast blen) bd }"

definition ext4_block_writebytes ::
  "'s bdif \<Rightarrow> u64 \<Rightarrow> byte list \<Rightarrow> u32 \<Rightarrow> 's bdev \<Rightarrow> (int \<times> 's bdev) option" where
  "ext4_block_writebytes ops off p len bd = do {
     rng \<leftarrow> bytes_range bd off len;
     case rng of
       Inl e \<Rightarrow> Some (e, bd)
     | Inr (block_idx, unalg, wlen) \<Rightarrow>
         if unalg = 0 then write_aligned ops p len block_idx bd
         else do {
           (r, bd) \<leftarrow> bread_bbuf ops block_idx bd;
           if r \<noteq> EOK then Some (r, bd)
           else if length p < unat wlen then None
           else do {
             b \<leftarrow> buf_set (unat unalg) (take (unat wlen) p) (ph_bbuf bd);
             (r, bd) \<leftarrow> ext4_bdif_bwrite ops b block_idx 1 (bd\<lparr>ph_bbuf := b\<rparr>);
             if r \<noteq> EOK then Some (r, bd)
             else write_aligned ops (drop (unat wlen) p) (len - wlen) (block_idx + 1) bd } } }"

subsection \<open>The phone as a device\<close>

text \<open>The static instances of blockdev.c, \<open>junk\<close> what the stack array of the
  acknowledgement holds.\<close>

definition phone_ops :: "'d usb \<Rightarrow> mem \<Rightarrow> bdev_id \<Rightarrow> 'd st bdif" where
  "phone_ops U junk dv = \<lparr>
     p_open = \<lambda>bd. map_option (\<lambda>(r, s). (r, bd\<lparr>drv := s\<rparr>)) (blockdev_open U junk dv (drv bd)),
     p_bread = \<lambda>blk cnt bd. map_option (\<lambda>(r, dat, s). (r, dat, bd\<lparr>drv := s\<rparr>)) (blockdev_bread U dv blk cnt (drv bd)),
     p_bwrite = \<lambda>buf blk cnt bd. Some (blockdev_bwrite dv buf blk cnt, bd),
     p_close = \<lambda>bd. map_option (\<lambda>(r, s). (r, bd\<lparr>drv := s\<rparr>)) (blockdev_close U dv (drv bd)),
     p_lock = None, p_unlock = None\<rparr>"

definition phone_dev :: "'d st \<Rightarrow> 'd st bdev" where
  "phone_dev s = \<lparr>ph_bsize = ucast EXT4_BLOCKDEV_BSIZE, ph_bcnt = EXT4_BLOCKDEV_BCNT,
     ph_bbuf = replicate (unat EXT4_BLOCKDEV_BSIZE) 0, ph_refctr = 0, bread_ctr = 0, bwrite_ctr = 0,
     part_offset = 0, part_size = EXT4_BLOCKDEV_BCNT * EXT4_BLOCKDEV_BSIZE, lg_bsize = 0, lg_bcnt = 0,
     cache_write_back = 0, drv = s\<rparr>"

subsection \<open>An image file as a device\<close>

text \<open>ext4\_filedev.c: \<open>image\<close> is the file of that name, if it can be opened, \<open>dev_file\<close> the
  position of the stream while it is open and \<open>image_cap\<close> the length to which the host's
  disk lets the file grow.\<close>

record filedev =
  image :: "byte list option"
  dev_file :: "nat option"
  image_cap :: nat

definition EXT4_FILEDEV_BSIZE :: u32 where "EXT4_FILEDEV_BSIZE = 512"

definition fseeko :: "u64 \<Rightarrow> filedev \<Rightarrow> (bool \<times> filedev) option" where
  "fseeko off f =
     (if dev_file f = None then None
      else if off < 2 ^ 63 then Some (True, f\<lparr>dev_file := Some (unat off)\<rparr>) else Some (False, f))"

definition filedev_open :: "filedev bdev \<Rightarrow> (int \<times> filedev bdev) option" where
  "filedev_open bd =
     (case image (drv bd) of
        None \<Rightarrow> Some (EIO, bd\<lparr>drv := (drv bd)\<lparr>dev_file := None\<rparr>\<rparr>)
      | Some img \<Rightarrow>
          if 2 ^ 63 \<le> length img then Some (EFAULT, bd\<lparr>drv := (drv bd)\<lparr>dev_file := Some 0\<rparr>\<rparr>)
          else if ph_bsize bd = 0 then None
          else Some (EOK, bd\<lparr>part_offset := 0, part_size := of_nat (length img),
                 ph_bcnt := of_nat (length img) div ucast (ph_bsize bd),
                 drv := (drv bd)\<lparr>dev_file := Some (length img)\<rparr>\<rparr>))"

definition filedev_bread :: "u64 \<Rightarrow> u32 \<Rightarrow> filedev bdev \<Rightarrow> (int \<times> byte list \<times> filedev bdev) option" where
  "filedev_bread blk_id blk_cnt bd = do {
     (ok, f) \<leftarrow> fseeko (blk_id * ucast (ph_bsize bd)) (drv bd);
     if \<not> ok then Some (EIO, [], bd\<lparr>drv := f\<rparr>)
     else if blk_cnt = 0 then Some (EOK, [], bd\<lparr>drv := f\<rparr>)
     else do {
       img \<leftarrow> image f;
       pos \<leftarrow> dev_file f;
       let size = unat (ph_bsize bd * blk_cnt);
       let dat = take size (drop pos img);
       let bd = bd\<lparr>drv := f\<lparr>dev_file := Some (pos + length dat)\<rparr>\<rparr>;
       if size = 0 \<or> length dat < size then Some (EIO, dat, bd) else Some (EOK, dat, bd) } }"

definition filedev_bwrite :: "byte list \<Rightarrow> u64 \<Rightarrow> u32 \<Rightarrow> filedev bdev \<Rightarrow> (int \<times> filedev bdev) option" where
  "filedev_bwrite buf blk_id blk_cnt bd = do {
     (ok, f) \<leftarrow> fseeko (blk_id * ucast (ph_bsize bd)) (drv bd);
     if \<not> ok then Some (EIO, bd\<lparr>drv := f\<rparr>)
     else if blk_cnt = 0 then Some (EOK, bd\<lparr>drv := f\<rparr>)
     else do {
       img \<leftarrow> image f;
       pos \<leftarrow> dev_file f;
       let size = unat (ph_bsize bd * blk_cnt);
       if length buf < size then None
       else let dat = take (min size (image_cap f - pos)) buf;
                img' = take pos (img @ replicate (if dat = [] then 0 else pos - length img) 0) @ dat @
                       drop (pos + length dat) img;
                bd = bd\<lparr>drv := f\<lparr>image := Some img', dev_file := Some (pos + length dat)\<rparr>\<rparr> in
       if size = 0 \<or> length dat < size then Some (EIO, bd) else Some (EOK, bd) } }"

definition filedev_close :: "filedev bdev \<Rightarrow> (int \<times> filedev bdev) option" where
  "filedev_close bd =
     (if dev_file (drv bd) = None then None else Some (EOK, bd\<lparr>drv := (drv bd)\<lparr>dev_file := None\<rparr>\<rparr>))"

definition filedev_ops :: "filedev bdif" where
  "filedev_ops = \<lparr>p_open = filedev_open, p_bread = filedev_bread, p_bwrite = filedev_bwrite,
     p_close = filedev_close, p_lock = None, p_unlock = None\<rparr>"

definition filedev_dev :: "filedev \<Rightarrow> filedev bdev" where
  "filedev_dev f = \<lparr>ph_bsize = EXT4_FILEDEV_BSIZE, ph_bcnt = 0,
     ph_bbuf = replicate (unat EXT4_FILEDEV_BSIZE) 0, ph_refctr = 0, bread_ctr = 0, bwrite_ctr = 0,
     part_offset = 0, part_size = 0, lg_bsize = 0, lg_bcnt = 0, cache_write_back = 0, drv = f\<rparr>"

section \<open>Buffers and words\<close>

text \<open>Overwriting a part of an array.\<close>

definition patch :: "byte list \<Rightarrow> nat \<Rightarrow> byte list \<Rightarrow> byte list" where
  "patch xs off ys = take off xs @ ys @ drop (off + length ys) xs"

lemma length_patch [simp]: "off + length ys \<le> length xs \<Longrightarrow> length (patch xs off ys) = length xs"
  by (simp add: patch_def)

lemma patch_Nil [simp]: "patch xs off [] = xs"
  by (simp add: patch_def)

lemma patch_all: "length ys = length xs \<Longrightarrow> patch xs 0 ys = ys"
  by (simp add: patch_def)

lemma patch_patch:
  assumes "off + length ys \<le> length xs"
  shows "patch (patch xs off ys) (off + length ys) zs = patch xs off (ys @ zs)"
  using assms by (simp add: patch_def ac_simps)

lemma buf_set_patch: "off + length ys \<le> length xs \<Longrightarrow> buf_set off ys xs = Some (patch xs off ys)"
  by (simp add: buf_set_def patch_def)

lemma slice_patch_same:
  "off + length ys \<le> length xs \<Longrightarrow> take (length ys) (drop off (patch xs off ys)) = ys"
  by (simp add: patch_def)

lemma patch_block:
  assumes "i + length ys \<le> n" "a + n \<le> length xs"
  shows "patch xs a (patch (take n (drop a xs)) i ys) = patch xs (a + i) ys"
proof -
  have "take (a + i) xs = take a xs @ take i (drop a xs)" by (rule take_add)
  moreover have "take (n - (i + length ys)) (drop (a + i + length ys) xs) @ drop (a + n) xs = drop (a + i + length ys) xs"
    using append_take_drop_id[of "n - (i + length ys)" "drop (a + i + length ys) xs"] assms(1) by (simp add: add.assoc add.commute[of n])
  ultimately show ?thesis using assms by (simp add: patch_def drop_take ac_simps)
qed

lemma unat_up [simp]: "unat (ucast (x :: u32) :: u64) = unat x"
  using unat_less[of x] by (simp add: unat_ucast_mod)

lemma unat_and_mask:
  assumes "unat (bs :: u32) = 2 ^ k"
  shows "unat (ucast ((off :: u64) AND ucast (bs - 1)) :: u32) = unat off mod 2 ^ k"
proof -
  have k: "k < 32" using unat_less[of bs] assms power_less_imp_less_exp[of 2 k 32] by simp
  have "bs = of_nat (unat bs)" by simp
  then have "bs = 2 ^ k" by (simp add: assms)
  then have "(ucast (bs - 1) :: u64) = mask k"
    using k by (intro bit_word_eqI) (auto simp: mask_eq_exp_minus_1[symmetric] bit_simps)
  then have "off AND ucast (bs - 1) = take_bit k off" by (simp add: take_bit_eq_mask)
  moreover have "unat off mod 2 ^ k < 2 ^ 32"
    using k by (meson less_trans mod_less_divisor power_strict_increasing_iff one_less_numeral_iff semiring_norm(76) zero_less_power zero_less_numeral)
  moreover have "unat (take_bit k off) = unat off mod 2 ^ k"
    unfolding unsigned_take_bit_eq by (rule take_bit_eq_mod)
  ultimately show ?thesis by (simp only: unat_ucast_mod) simp
qed

section \<open>The contract of a device\<close>

text \<open>The fields that reading and writing leave alone, and when a device is usable: its
  driver is ready, block size and block buffer agree, and the partition starts at a block
  boundary. The partition may be larger than what the device serves: the phone's instances claim 4 GiB.\<close>

definition geom :: "'s bdev \<Rightarrow> u32 \<times> u64 \<times> u32 \<times> u64 \<times> u64 \<times> u32 \<times> u64 \<times> u32" where
  "geom b = (ph_bsize b, ph_bcnt b, ph_refctr b, part_offset b, part_size b, lg_bsize b, lg_bcnt b,
     cache_write_back b)"

lemma geom_eqD:
  "geom b' = geom b \<Longrightarrow> ph_bsize b' = ph_bsize b \<and> ph_refctr b' = ph_refctr b \<and> part_offset b' = part_offset b \<and>
     part_size b' = part_size b \<and> lg_bsize b' = lg_bsize b \<and> lg_bcnt b' = lg_bcnt b \<and>
     cache_write_back b' = cache_write_back b"
  by (simp add: geom_def)

definition dev_ok :: "('s \<Rightarrow> bool) \<Rightarrow> ('s \<Rightarrow> byte list) \<Rightarrow> nat \<Rightarrow> 's bdev \<Rightarrow> bool" where
  "dev_ok ok content bsize b \<longleftrightarrow> ok (drv b) \<and> unat (ph_bsize b) = bsize \<and> length (ph_bbuf b) = bsize \<and>
     bsize dvd unat (part_offset b) \<and> unat (part_offset b) + unat (part_size b) < 2 ^ 64"

locale block_source =
  fixes ops :: "'s bdif" and bsize :: nat and ok :: "'s \<Rightarrow> bool" and content :: "'s \<Rightarrow> byte list"
  assumes power: "\<exists>k. bsize = 2 ^ k"
    and whole: "ok s \<Longrightarrow> bsize dvd length (content s)"
    and small: "ok s \<Longrightarrow> length (content s) < 2 ^ 64"
    and lock: "ok (drv b) \<Longrightarrow> \<exists>s. ext4_bdif_lock ops b = Some (b\<lparr>drv := s\<rparr>) \<and> ok s \<and> content s = content (drv b)"
    and unlock: "ok (drv b) \<Longrightarrow> \<exists>s. ext4_bdif_unlock ops b = Some (b\<lparr>drv := s\<rparr>) \<and> ok s \<and> content s = content (drv b)"
    and bread: "ok (drv b) \<Longrightarrow> unat (ph_bsize b) = bsize \<Longrightarrow>
      bsize * (unat blk + unat cnt) \<le> length (content (drv b)) \<Longrightarrow> bsize * unat cnt < 2 ^ 32 \<Longrightarrow>
      \<exists>s. p_bread ops blk cnt b =
        Some (EOK, take (bsize * unat cnt) (drop (bsize * unat blk) (content (drv b))), b\<lparr>drv := s\<rparr>) \<and>
        ok s \<and> content s = content (drv b)"
begin

abbreviation good :: "'s bdev \<Rightarrow> bool" where "good b \<equiv> dev_ok ok content bsize b"

lemma bsize_pos: "0 < bsize" using power by auto

lemma goodD:
  assumes "good b"
  shows "ok (drv b)" "unat (ph_bsize b) = bsize" "ph_bsize b \<noteq> 0" "length (ph_bbuf b) = bsize"
    "length (content (drv b)) < 2 ^ 64" "bsize dvd length (content (drv b))" "bsize < 2 ^ 32"
proof -
  show "ok (drv b)" "unat (ph_bsize b) = bsize" "length (ph_bbuf b) = bsize"
    using assms by (simp_all add: dev_ok_def)
  then show "ph_bsize b \<noteq> 0" "length (content (drv b)) < 2 ^ 64" "bsize dvd length (content (drv b))" "bsize < 2 ^ 32"
    using bsize_pos small whole unat_less[of "ph_bsize b"] by auto
qed

lemma good_cong:
  "good b \<Longrightarrow> ok (drv b') \<Longrightarrow> length (content (drv b')) = length (content (drv b)) \<Longrightarrow> geom b' = geom b \<Longrightarrow>
   length (ph_bbuf b') = length (ph_bbuf b) \<Longrightarrow> good b'"
  by (auto simp: dev_ok_def dest: geom_eqD)

lemma bdif_bread:
  assumes "good b" "bsize * (unat blk + unat cnt) \<le> length (content (drv b))" "bsize * unat cnt < 2 ^ 32"
  shows "\<exists>b'. ext4_bdif_bread ops blk cnt b =
      Some (EOK, take (bsize * unat cnt) (drop (bsize * unat blk) (content (drv b))), b') \<and>
    good b' \<and> geom b' = geom b \<and> ph_bbuf b' = ph_bbuf b \<and> content (drv b') = content (drv b)"
proof -
  note b = goodD[OF assms(1)]
  obtain s1 where 1: "ext4_bdif_lock ops b = Some (b\<lparr>drv := s1\<rparr>)" "ok s1" "content s1 = content (drv b)"
    using lock[OF b(1)] by blast
  obtain s2 where 2: "p_bread ops blk cnt (b\<lparr>drv := s1\<rparr>) =
      Some (EOK, take (bsize * unat cnt) (drop (bsize * unat blk) (content (drv b))), b\<lparr>drv := s2\<rparr>)"
    "ok s2" "content s2 = content (drv b)"
    using bread[of "b\<lparr>drv := s1\<rparr>" blk cnt] 1 b assms by auto
  let ?b = "b\<lparr>drv := s2, bread_ctr := bread_ctr b + 1\<rparr>"
  obtain s3 where 3: "ext4_bdif_unlock ops ?b = Some (?b\<lparr>drv := s3\<rparr>)" "ok s3" "content s3 = content (drv b)"
    using unlock[of ?b] 2 by auto
  have "good (?b\<lparr>drv := s3\<rparr>)"
    by (rule good_cong[OF assms(1)]) (use 3 in \<open>simp_all add: geom_def\<close>)
  then show ?thesis
    by (intro exI[of _ "?b\<lparr>drv := s3\<rparr>"]) (use 1 2 3 in \<open>simp add: ext4_bdif_bread_def geom_def\<close>)
qed

lemma bread_bbuf_ok:
  assumes "good b" "bsize * (unat blk + 1) \<le> length (content (drv b))"
  shows "\<exists>b'. bread_bbuf ops blk b = Some (EOK, b') \<and> good b' \<and> geom b' = geom b \<and>
    ph_bbuf b' = take bsize (drop (bsize * unat blk) (content (drv b))) \<and> content (drv b') = content (drv b)"
proof -
  note b = goodD[OF assms(1)]
  obtain b1 where 1: "ext4_bdif_bread ops blk 1 b =
      Some (EOK, take bsize (drop (bsize * unat blk) (content (drv b))), b1)"
    "good b1" "geom b1 = geom b" "ph_bbuf b1 = ph_bbuf b" "content (drv b1) = content (drv b)"
    using bdif_bread[OF assms(1), of blk 1] assms(2) b(7) by auto
  let ?d = "take bsize (drop (bsize * unat blk) (content (drv b)))"
  have d: "length ?d = bsize" using assms(2) by simp
  then have "buf_set 0 ?d (ph_bbuf b1) = Some ?d" using 1 b by (simp add: buf_set_patch patch_all)
  moreover have "good (b1\<lparr>ph_bbuf := ?d\<rparr>)"
    by (rule good_cong[OF assms(1)]) (use 1 b d goodD[OF 1(2)] in \<open>simp_all add: geom_def\<close>)
  ultimately show ?thesis
    by (intro exI[of _ "b1\<lparr>ph_bbuf := ?d\<rparr>"]) (use 1 in \<open>simp add: bread_bbuf_def geom_def\<close>)
qed

text \<open>A position inside the last block of a device.\<close>

lemma block_inside:
  assumes "good b" "bsize * i + n \<le> length (content (drv b))" "0 < n" "n \<le> bsize"
  shows "bsize * (i + 1) \<le> length (content (drv b))"
proof -
  obtain m where m: "length (content (drv b)) = bsize * m" using goodD(6)[OF assms(1)] by blast
  have "bsize * i < bsize * m" using assms m by linarith
  then have "i + 1 \<le> m" by simp
  then show ?thesis unfolding m by (rule mult_le_mono2)
qed

lemma read_rest_ok:
  assumes "good b" "bsize * unat idx + unat len \<le> length (content (drv b))" "unat len \<le> bsize"
    "p + unat len \<le> length buf"
  shows "\<exists>b'. read_rest ops buf p len idx b =
      Some (EOK, patch buf p (take (unat len) (drop (bsize * unat idx) (content (drv b)))), b') \<and>
    good b' \<and> geom b' = geom b \<and> content (drv b') = content (drv b)"
proof (cases "len = 0")
  case True
  with assms(1) show ?thesis by (simp add: read_rest_def)
next
  case False
  then have pos: "0 < unat len" by (simp add: unat_gt_0)
  from bread_bbuf_ok[OF assms(1) block_inside[OF assms(1,2) pos assms(3)]]
  obtain b' where 1: "bread_bbuf ops idx b = Some (EOK, b')" "good b'" "geom b' = geom b"
    "ph_bbuf b' = take bsize (drop (bsize * unat idx) (content (drv b)))" "content (drv b') = content (drv b)"
    by blast
  have "take (unat len) (ph_bbuf b') = take (unat len) (drop (bsize * unat idx) (content (drv b)))"
    using 1(4) assms(3) by (simp add: min_absorb1)
  with 1 False assms show ?thesis by (simp add: read_rest_def buf_set_patch)
qed

text \<open>The whole blocks of a range and what is left behind them.\<close>

lemma aligned_part:
  assumes "good b" "bsize * unat (idx :: u64) + unat (len :: u32) \<le> length (content (drv b))"
  defines "n \<equiv> len div ph_bsize b"
  shows "bsize * unat n \<le> unat len" "unat (ph_bsize b * n) = bsize * unat n"
    "unat (len - ph_bsize b * n) = unat len - bsize * unat n" "unat len - bsize * unat n \<le> bsize"
    "unat (idx + ucast n) = unat idx + unat n" "bsize * (unat idx + unat n) \<le> length (content (drv b))"
    "bsize * unat n < 2 ^ 32"
    "bsize * unat (idx + ucast n) + unat (len - ph_bsize b * n) \<le> length (content (drv b))"
proof -
  note b = goodD[OF assms(1)]
  have n: "unat n = unat len div bsize" by (simp add: n_def unat_div b)
  show le: "bsize * unat n \<le> unat len" unfolding n by simp
  show lt: "bsize * unat n < 2 ^ 32" using le unat_less[of len] by simp
  show m: "unat (ph_bsize b * n) = bsize * unat n"
    using unat_mult_lem[THEN iffD1, of "ph_bsize b" n] lt by (simp add: b)
  show rest: "unat (len - ph_bsize b * n) = unat len - bsize * unat n"
    using le m by (simp add: unat_sub word_le_nat_alt)
  show in_c: "bsize * (unat idx + unat n) \<le> length (content (drv b))"
    using assms(2) le by (simp add: add_mult_distrib2)
  have "1 * (unat idx + unat n) \<le> bsize * (unat idx + unat n)" using bsize_pos by (intro mult_le_mono1) simp
  from order_le_less_trans[OF order_trans[OF this in_c] b(5)] have "unat idx + unat n < 2 ^ 64" by simp
  then show idx: "unat (idx + ucast n) = unat idx + unat n"
    using unat_add_lem[THEN iffD1, of idx "ucast n"] by simp
  show "unat len - bsize * unat n \<le> bsize"
    unfolding n using bsize_pos by (metis less_imp_le minus_mult_div_eq_mod mod_less_divisor)
  show "bsize * unat (idx + ucast n) + unat (len - ph_bsize b * n) \<le> length (content (drv b))"
    unfolding idx rest using assms(2) le by (simp add: add_mult_distrib2)
qed

lemma read_aligned_ok:
  assumes "good b" "bsize * unat idx + unat len \<le> length (content (drv b))" "p + unat len \<le> length buf"
  shows "\<exists>b'. read_aligned ops buf p len idx b =
      Some (EOK, patch buf p (take (unat len) (drop (bsize * unat idx) (content (drv b)))), b') \<and>
    good b' \<and> geom b' = geom b \<and> content (drv b') = content (drv b)"
proof -
  let ?n = "len div ph_bsize b" and ?c = "content (drv b)"
  note a = aligned_part[OF assms(1,2)]
  obtain b1 where 1: "ext4_bdif_bread ops idx ?n b = Some (EOK, take (bsize * unat ?n) (drop (bsize * unat idx) ?c), b1)"
    "good b1" "geom b1 = geom b" "content (drv b1) = ?c"
    using bdif_bread[OF assms(1) a(6,7)] by blast
  let ?x = "take (bsize * unat ?n) (drop (bsize * unat idx) ?c)"
  have lx: "length ?x = bsize * unat ?n" using assms(2) a(1) by simp
  have bs: "ph_bsize b1 = ph_bsize b" using geom_eqD[OF 1(3)] by blast
  have pos: "bsize * unat (idx + ucast ?n) + unat (len - ph_bsize b * ?n) \<le> length (content (drv b1))"
    using a(8) 1(4) by simp
  have rest: "unat (len - ph_bsize b * ?n) \<le> bsize" using a(3,4) by simp
  have buf: "p + bsize * unat ?n + unat (len - ph_bsize b * ?n) \<le> length (patch buf p ?x)"
    using assms(3) a(1,3) lx by simp
  obtain b2 where 2: "read_rest ops (patch buf p ?x) (p + bsize * unat ?n) (len - ph_bsize b * ?n) (idx + ucast ?n) b1 =
      Some (EOK, patch (patch buf p ?x) (p + bsize * unat ?n)
        (take (unat len - bsize * unat ?n) (drop (bsize * (unat idx + unat ?n)) ?c)), b2)"
    "good b2" "geom b2 = geom b1" "content (drv b2) = ?c"
    using read_rest_ok[OF 1(2) pos rest buf] unfolding a(3,5) 1(4) by blast
  have "patch (patch buf p ?x) (p + bsize * unat ?n) ys = patch buf p (?x @ ys)" for ys
    using patch_patch[of p ?x buf ys] assms(3) a(1) lx by simp
  moreover have "?x @ take (unat len - bsize * unat ?n) (drop (bsize * (unat idx + unat ?n)) ?c) =
      take (unat len) (drop (bsize * unat idx) ?c)"
    using take_drop_glue[OF a(1)] by (simp add: add_mult_distrib2)
  ultimately show ?thesis
    using 1 2 assms(3) a(1,2) lx by (simp add: read_aligned_def Let_def buf_set_patch bs)
qed

lemma bytes_range_ok:
  assumes "good b" "ph_refctr b \<noteq> 0" "unat off + unat len \<le> unat (part_size b)"
  shows "\<exists>idx ua wl. bytes_range b off len = Some (Inr (idx, ua, wl)) \<and>
    bsize * unat idx + unat ua = unat (part_offset b) + unat off \<and> unat ua < bsize \<and>
    (ua = 0 \<longrightarrow> wl = 0) \<and> (ua \<noteq> 0 \<longrightarrow> unat wl = min (unat len) (bsize - unat ua))"
proof -
  note b = goodD[OF assms(1)]
  obtain k where k: "bsize = 2 ^ k" using power by blast
  have po: "unat (part_offset b) + unat (part_size b) < 2 ^ 64" "bsize dvd unat (part_offset b)"
    using assms(1) by (simp_all add: dev_ok_def)
  have sum: "unat (off + ucast len) = unat off + unat len"
    using unat_add_lem[THEN iffD1, of off "ucast len"] assms(3) unat_less[of "part_size b"] by simp
  have off: "unat (off + part_offset b) = unat off + unat (part_offset b)"
    using unat_add_lem[THEN iffD1, of off "part_offset b"] assms(3) po(1) by simp
  define idx where "idx = (off + part_offset b) div ucast (ph_bsize b)"
  define ua where "ua = (ucast (off AND ucast (ph_bsize b - 1)) :: u32)"
  have idx: "unat idx = (unat off + unat (part_offset b)) div bsize"
    unfolding idx_def unat_div off unat_up b(2) ..
  have ua: "unat ua = unat off mod bsize"
    unfolding ua_def k using b(2) k by (intro unat_and_mask) simp
  have "(unat off + unat (part_offset b)) mod bsize = unat off mod bsize"
    using po(2) by (metis dvd_imp_mod_0 mod_add_right_eq add_0_right)
  then have "bsize * unat idx + unat ua = unat (part_offset b) + unat off"
    unfolding idx ua using mult_div_mod_eq[of bsize "unat off + unat (part_offset b)"] by linarith
  moreover have lt: "unat ua < bsize" unfolding ua using bsize_pos by simp
  moreover have "unat (ph_bsize b - ua) = bsize - unat ua"
    using lt b(2) by (simp add: unat_sub word_le_nat_alt)
  moreover have "\<not> off + ucast len > part_size b" using sum assms(3) by (simp add: word_less_nat_alt)
  ultimately show ?thesis
    using assms(2) b(3)
    by (intro exI[of _ idx] exI[of _ ua] exI[of _ "if ua = 0 then 0 else if ph_bsize b - ua > len then len else ph_bsize b - ua"])
      (simp add: bytes_range_def idx_def ua_def Let_def word_less_nat_alt)
qed

text \<open>The first block of an unaligned range, and where the rest of the range starts.\<close>

lemma head_block:
  assumes "good b" "bsize * unat (idx :: u64) + unat (ua :: u32) = pos" "unat ua < bsize" "ua \<noteq> 0"
    "pos + unat (len :: u32) \<le> length (content (drv b))" "unat (wl :: u32) = min (unat len) (bsize - unat ua)"
  shows "bsize * (unat idx + 1) \<le> length (content (drv b))" "unat (idx + 1) = unat idx + 1"
    "take (unat len - unat wl) (drop (bsize * unat (idx + 1)) (content (drv b))) =
     take (unat len - unat wl) (drop (pos + unat wl) (content (drv b)))"
    "bsize * unat (idx + 1) + (unat len - unat wl) \<le> length (content (drv b))"
proof -
  have "0 < unat ua" using assms(4) by (simp add: unat_gt_0)
  with assms show in_blk: "bsize * (unat idx + 1) \<le> length (content (drv b))"
    by (intro block_inside[of b "unat idx" "unat ua"]) auto
  have "1 * (unat idx + 1) \<le> bsize * (unat idx + 1)" using bsize_pos by (intro mult_le_mono1) simp
  then show idx: "unat (idx + 1) = unat idx + 1"
    using in_blk goodD(5)[OF assms(1)] by (intro unat_Suc_bound) simp
  show "take (unat len - unat wl) (drop (bsize * unat (idx + 1)) (content (drv b))) =
     take (unat len - unat wl) (drop (pos + unat wl) (content (drv b)))"
  proof (cases "unat len \<le> bsize - unat ua")
    case False
    then have "bsize * unat (idx + 1) = pos + unat wl" using assms(2,3,6) by (simp add: idx)
    then show ?thesis by simp
  qed (simp add: assms(6))
  show "bsize * unat (idx + 1) + (unat len - unat wl) \<le> length (content (drv b))"
  proof (cases "unat len \<le> bsize - unat ua")
    case True
    then show ?thesis using in_blk by (simp add: assms(6) idx)
  next
    case False
    then show ?thesis using assms(2,3,5,6) by (simp add: idx)
  qed
qed

text \<open>Byte-granular reading returns the bytes of the partition, at any offset and length.\<close>

lemma readbytes_ok:
  assumes "good b" "ph_refctr b \<noteq> 0" "unat off + unat len \<le> unat (part_size b)" "unat len \<le> length buf"
    and end_le: "unat (part_offset b) + unat off + unat len \<le> length (content (drv b))"
  shows "\<exists>b'. ext4_block_readbytes ops off buf len b =
      Some (EOK, take (unat len) (drop (unat (part_offset b) + unat off) (content (drv b))) @ drop (unat len) buf, b') \<and>
    good b' \<and> geom b' = geom b \<and> content (drv b') = content (drv b)"
proof -
  let ?c = "content (drv b)" and ?pos = "unat (part_offset b) + unat off"
  from end_le have all: "patch buf 0 (take (unat len) (drop ?pos ?c)) = take (unat len) (drop ?pos ?c) @ drop (unat len) buf"
    by (simp add: patch_def)
  from bytes_range_ok[OF assms(1-3)] obtain idx ua wl where
    r: "bytes_range b off len = Some (Inr (idx, ua, wl))" "bsize * unat idx + unat ua = ?pos" "unat ua < bsize"
      "ua \<noteq> 0 \<longrightarrow> unat wl = min (unat len) (bsize - unat ua)" by blast
  show ?thesis
  proof (cases "ua = 0")
    case True
    with r have "bsize * unat idx = ?pos" by simp
    with read_aligned_ok[OF assms(1), of idx len 0 buf] end_le assms(4) True r show ?thesis
      by (auto simp: ext4_block_readbytes_def all)
  next
    case False
    with r have wl: "unat wl = min (unat len) (bsize - unat ua)" by simp
    then have wl_le: "unat wl \<le> unat len" by simp
    then have lw: "unat (len - wl) = unat len - unat wl" by (simp add: unat_sub word_le_nat_alt)
    note in_blk = head_block[OF assms(1) r(2) r(3) False, of len wl, OF end_le wl]
    from bread_bbuf_ok[OF assms(1) in_blk(1)] obtain b1 where 1: "bread_bbuf ops idx b = Some (EOK, b1)" "good b1"
      "geom b1 = geom b" "ph_bbuf b1 = take bsize (drop (bsize * unat idx) ?c)" "content (drv b1) = ?c" by blast
    let ?x = "take (unat wl) (drop ?pos ?c)"
    have x: "take (unat wl) (drop (unat ua) (ph_bbuf b1)) = ?x" "length ?x = unat wl"
      using 1(4) wl r(2) end_le by (simp_all add: drop_take add.commute min_absorb1)
    have p1: "bsize * unat (idx + 1) + unat (len - wl) \<le> length (content (drv b1))"
      using in_blk(4) by (simp only: lw 1(5))
    have p2: "unat wl + unat (len - wl) \<le> length (patch buf 0 ?x)"
    proof -
      have "length (patch buf 0 ?x) = length buf"
        using x(2) wl_le assms(4) by (subst length_patch) simp_all
      then show ?thesis using assms(4) wl_le by (simp only: lw)
    qed
    from read_aligned_ok[OF 1(2) p1 p2, unfolded lw 1(5) in_blk(3)]
    obtain b2 where 2: "read_aligned ops (patch buf 0 ?x) (unat wl) (len - wl) (idx + 1) b1 =
        Some (EOK, patch (patch buf 0 ?x) (unat wl) (take (unat len - unat wl) (drop (?pos + unat wl) ?c)), b2)"
      "good b2" "geom b2 = geom b1" "content (drv b2) = ?c"
      by blast
    have "patch (patch buf 0 ?x) (unat wl) ys = patch buf 0 (?x @ ys)" for ys
      using patch_patch[of 0 ?x buf ys] x(2) wl_le assms(4) by simp
    moreover have "?x @ take (unat len - unat wl) (drop (?pos + unat wl) ?c) = take (unat len) (drop ?pos ?c)"
      using wl_le by (intro take_drop_glue) simp
    ultimately show ?thesis
      using 1 2 r(1) False x wl_le assms(4) by (simp add: ext4_block_readbytes_def buf_set_patch all)
  qed
qed

text \<open>The address of a logical block in physical blocks.\<close>

lemma logical_blocks:
  assumes "good b" "bsize dvd unat (lg_bsize b)" "(unat lba + unat cnt) * unat (lg_bsize b) \<le> unat (part_size b)"
    "unat (part_offset b) + (unat lba + unat cnt) * unat (lg_bsize b) \<le> length (content (drv b))" "unat (lg_bsize b) * unat cnt < 2 ^ 32"
  defines "pba \<equiv> (lba * ucast (lg_bsize b) + part_offset b) div ucast (ph_bsize b)"
    and "pb_cnt \<equiv> lg_bsize b div ph_bsize b"
  shows "bsize * unat pba = unat (part_offset b) + unat lba * unat (lg_bsize b)"
    "bsize * unat (pb_cnt * cnt) = unat (lg_bsize b) * unat cnt"
    "bsize * (unat pba + unat (pb_cnt * cnt)) \<le> length (content (drv b))"
proof -
  note b = goodD[OF assms(1)]
  have po: "unat (part_offset b) + unat (part_size b) < 2 ^ 64" "bsize dvd unat (part_offset b)"
    using assms(1) by (simp_all add: dev_ok_def)
  obtain m where m: "unat (lg_bsize b) = bsize * m" using assms(2) by blast
  have le: "unat lba * unat (lg_bsize b) + unat cnt * unat (lg_bsize b) \<le> unat (part_size b)"
    using assms(3) by (simp add: add_mult_distrib)
  have 1: "unat (lba * ucast (lg_bsize b)) = unat lba * unat (lg_bsize b)"
    using unat_mult_lem[THEN iffD1, of lba "ucast (lg_bsize b)"] le unat_less[of "part_size b"] by simp
  have 2: "unat (lba * ucast (lg_bsize b) + part_offset b) = unat lba * unat (lg_bsize b) + unat (part_offset b)"
    using unat_add_lem[THEN iffD1, of "lba * ucast (lg_bsize b)" "part_offset b"] 1 le po(1) by simp
  have "unat pba = (unat lba * unat (lg_bsize b) + unat (part_offset b)) div bsize"
    unfolding pba_def unat_div 2 unat_up b(2) ..
  moreover have "bsize dvd unat lba * unat (lg_bsize b) + unat (part_offset b)"
    using assms(2) po(2) by simp
  ultimately show pba: "bsize * unat pba = unat (part_offset b) + unat lba * unat (lg_bsize b)" by simp
  have pb: "unat pb_cnt = m" unfolding pb_cnt_def unat_div b(2) m using bsize_pos by simp
  have "m * unat cnt \<le> unat (lg_bsize b) * unat cnt" unfolding m using bsize_pos by (intro mult_le_mono1) simp
  then have "m * unat cnt < 2 ^ 32" using assms(5) by (rule order_le_less_trans)
  then have "unat (pb_cnt * cnt) = m * unat cnt"
    using unat_mult_lem[THEN iffD1, of pb_cnt cnt] pb by simp
  then show n: "bsize * unat (pb_cnt * cnt) = unat (lg_bsize b) * unat cnt" by (simp add: m)
  show "bsize * (unat pba + unat (pb_cnt * cnt)) \<le> length (content (drv b))"
    unfolding add_mult_distrib2 pba n using assms(4) by (simp add: algebra_simps)
qed

lemma get_direct_ok:
  assumes "good b" "bsize dvd unat (lg_bsize b)" "(unat lba + unat cnt) * unat (lg_bsize b) \<le> unat (part_size b)"
    "unat (part_offset b) + (unat lba + unat cnt) * unat (lg_bsize b) \<le> length (content (drv b))" "unat (lg_bsize b) * unat cnt < 2 ^ 32"
  shows "\<exists>b'. ext4_blocks_get_direct ops lba cnt b = Some (EOK, take (unat (lg_bsize b) * unat cnt)
      (drop (unat (part_offset b) + unat lba * unat (lg_bsize b)) (content (drv b))), b') \<and>
    good b' \<and> geom b' = geom b \<and> content (drv b') = content (drv b)"
proof -
  note l = logical_blocks[OF assms]
  from bdif_bread[OF assms(1) l(3)] l(2) assms(5) show ?thesis
    using goodD(3)[OF assms(1)] by (auto simp: ext4_blocks_get_direct_def Let_def l(1))
qed

end

text \<open>Writing as well: the contents of the device are updated.\<close>

locale block_store = block_source +
  assumes bwrite: "ok (drv b) \<Longrightarrow> unat (ph_bsize b) = bsize \<Longrightarrow>
      bsize * (unat blk + unat cnt) \<le> length (content (drv b)) \<Longrightarrow> bsize * unat cnt < 2 ^ 32 \<Longrightarrow>
      bsize * unat cnt \<le> length buf \<Longrightarrow>
      \<exists>s. p_bwrite ops buf blk cnt b = Some (EOK, b\<lparr>drv := s\<rparr>) \<and> ok s \<and>
        content s = patch (content (drv b)) (bsize * unat blk) (take (bsize * unat cnt) buf)"
begin

lemma bdif_bwrite:
  assumes "good b" "bsize * (unat blk + unat cnt) \<le> length (content (drv b))" "bsize * unat cnt < 2 ^ 32"
    "bsize * unat cnt \<le> length buf"
  shows "\<exists>b'. ext4_bdif_bwrite ops buf blk cnt b = Some (EOK, b') \<and> good b' \<and> geom b' = geom b \<and>
    content (drv b') = patch (content (drv b)) (bsize * unat blk) (take (bsize * unat cnt) buf)"
proof -
  note b = goodD[OF assms(1)]
  let ?c = "patch (content (drv b)) (bsize * unat blk) (take (bsize * unat cnt) buf)"
  have len: "length ?c = length (content (drv b))"
    using assms(2,4) by (intro length_patch) (simp add: add_mult_distrib2)
  obtain s1 where 1: "ext4_bdif_lock ops b = Some (b\<lparr>drv := s1\<rparr>)" "ok s1" "content s1 = content (drv b)"
    using lock[OF b(1)] by blast
  obtain s2 where 2: "p_bwrite ops buf blk cnt (b\<lparr>drv := s1\<rparr>) = Some (EOK, b\<lparr>drv := s2\<rparr>)" "ok s2" "content s2 = ?c"
    using bwrite[of "b\<lparr>drv := s1\<rparr>" blk cnt buf] 1 b assms by auto
  let ?b = "b\<lparr>drv := s2, bwrite_ctr := bwrite_ctr b + 1\<rparr>"
  obtain s3 where 3: "ext4_bdif_unlock ops ?b = Some (?b\<lparr>drv := s3\<rparr>)" "ok s3" "content s3 = ?c"
    using unlock[of ?b] 2 by auto
  have "good (?b\<lparr>drv := s3\<rparr>)"
    by (rule good_cong[OF assms(1)]) (use 3 len in \<open>simp_all add: geom_def\<close>)
  then show ?thesis
    by (intro exI[of _ "?b\<lparr>drv := s3\<rparr>"]) (use 1 2 3 in \<open>simp add: ext4_bdif_bwrite_def geom_def\<close>)
qed

text \<open>Reading a block, changing a part of it and writing it back changes that part.\<close>

lemma modify_block:
  assumes "good b" "bsize * (unat blk + 1) \<le> length (content (drv b))" "i + length ys \<le> bsize"
  shows "\<exists>b1 blkdat b2. bread_bbuf ops blk b = Some (EOK, b1) \<and>
    buf_set i ys (ph_bbuf b1) = Some blkdat \<and>
    ext4_bdif_bwrite ops blkdat blk 1 (b1\<lparr>ph_bbuf := blkdat\<rparr>) = Some (EOK, b2) \<and>
    good b2 \<and> geom b2 = geom b \<and> content (drv b2) = patch (content (drv b)) (bsize * unat blk + i) ys"
proof -
  let ?c = "content (drv b)" and ?o = "bsize * unat blk"
  from bread_bbuf_ok[OF assms(1,2)] obtain b1 where 1: "bread_bbuf ops blk b = Some (EOK, b1)" "good b1"
    "geom b1 = geom b" "ph_bbuf b1 = take bsize (drop ?o ?c)" "content (drv b1) = ?c" by blast
  let ?d = "patch (ph_bbuf b1) i ys"
  have d: "length ?d = bsize" using goodD(4)[OF 1(2)] assms(3) by simp
  have g: "good (b1\<lparr>ph_bbuf := ?d\<rparr>)"
    by (rule good_cong[OF 1(2)]) (use goodD[OF 1(2)] d in \<open>simp_all add: geom_def\<close>)
  from bdif_bwrite[OF g, of blk 1 ?d] obtain b2 where 2: "ext4_bdif_bwrite ops ?d blk 1 (b1\<lparr>ph_bbuf := ?d\<rparr>) = Some (EOK, b2)"
    "good b2" "geom b2 = geom (b1\<lparr>ph_bbuf := ?d\<rparr>)" "content (drv b2) = patch ?c ?o (take bsize ?d)"
    using assms(2) 1(5) d goodD(7)[OF assms(1)] by auto
  have "patch ?c ?o (take bsize ?d) = patch ?c (?o + i) ys"
    unfolding 1(4) using assms(2,3) d by (simp add: 1(4)[symmetric]) (simp add: 1(4) patch_block add_mult_distrib2)
  moreover have "buf_set i ys (ph_bbuf b1) = Some ?d"
    using goodD(4)[OF 1(2)] assms(3) by (simp add: buf_set_patch)
  ultimately show ?thesis using 1 2 by (auto simp: geom_def)
qed

lemma write_rest_ok:
  assumes "good b" "bsize * unat idx + unat len \<le> length (content (drv b))" "unat len \<le> bsize"
    "unat len \<le> length p"
  shows "\<exists>b'. write_rest ops p len idx b = Some (EOK, b') \<and> good b' \<and> geom b' = geom b \<and>
    content (drv b') = patch (content (drv b)) (bsize * unat idx) (take (unat len) p)"
proof (cases "len = 0")
  case True
  with assms(1) show ?thesis by (simp add: write_rest_def)
next
  case False
  then have pos: "0 < unat len" by (simp add: unat_gt_0)
  from modify_block[OF assms(1) block_inside[OF assms(1,2) pos assms(3)], of 0 "take (unat len) p"] False assms
  show ?thesis by (auto simp: write_rest_def)
qed

lemma write_aligned_ok:
  assumes "good b" "bsize * unat idx + unat len \<le> length (content (drv b))" "unat len \<le> length p"
  shows "\<exists>b'. write_aligned ops p len idx b = Some (EOK, b') \<and> good b' \<and> geom b' = geom b \<and>
    content (drv b') = patch (content (drv b)) (bsize * unat idx) (take (unat len) p)"
proof -
  let ?n = "len div ph_bsize b" and ?c = "content (drv b)"
  note a = aligned_part[OF assms(1,2)]
  let ?x = "take (bsize * unat ?n) p"
  have lx: "length ?x = bsize * unat ?n" using a(1) assms(3) by simp
  have "bsize * unat ?n \<le> length p" using a(1) assms(3) by simp
  from bdif_bwrite[OF assms(1) a(6,7) this] obtain b1 where 1: "ext4_bdif_bwrite ops p idx ?n b = Some (EOK, b1)"
    "good b1" "geom b1 = geom b" "content (drv b1) = patch ?c (bsize * unat idx) ?x" by blast
  have bs: "ph_bsize b1 = ph_bsize b" using geom_eqD[OF 1(3)] by blast
  have len: "length (content (drv b1)) = length ?c"
    unfolding 1(4) using a(6) lx by (intro length_patch) (simp add: add_mult_distrib2)
  have pos: "bsize * unat (idx + ucast ?n) + unat (len - ph_bsize b * ?n) \<le> length (content (drv b1))"
    using a(8) len by simp
  have rest: "unat (len - ph_bsize b * ?n) \<le> bsize" using a(3,4) by simp
  have buf: "unat (len - ph_bsize b * ?n) \<le> length (drop (bsize * unat ?n) p)"
    using assms(3) a(3) by simp
  obtain b2 where 2: "write_rest ops (drop (bsize * unat ?n) p) (len - ph_bsize b * ?n) (idx + ucast ?n) b1 = Some (EOK, b2)"
    "good b2" "geom b2 = geom b1" "content (drv b2) =
      patch (patch ?c (bsize * unat idx) ?x) (bsize * (unat idx + unat ?n)) (take (unat len - bsize * unat ?n) (drop (bsize * unat ?n) p))"
    using write_rest_ok[OF 1(2) pos rest buf] unfolding a(3,5) 1(4) by blast
  have "content (drv b2) = patch ?c (bsize * unat idx) (?x @ take (unat len - bsize * unat ?n) (drop (bsize * unat ?n) p))"
    using patch_patch[of "bsize * unat idx" ?x ?c] a(6) lx by (simp add: 2(4) add_mult_distrib2)
  moreover have "?x @ take (unat len - bsize * unat ?n) (drop (bsize * unat ?n) p) = take (unat len) p"
    using take_drop_glue[OF a(1), of 0 p] by simp
  ultimately show ?thesis
    using 1 2 a(2) by (simp add: write_aligned_def Let_def bs)
qed

text \<open>Byte-granular writing changes exactly the addressed bytes.\<close>

lemma writebytes_ok:
  assumes "good b" "ph_refctr b \<noteq> 0" "unat off + unat len \<le> unat (part_size b)" "unat len \<le> length p"
    and end_le: "unat (part_offset b) + unat off + unat len \<le> length (content (drv b))"
  shows "\<exists>b'. ext4_block_writebytes ops off p len b = Some (EOK, b') \<and> good b' \<and> geom b' = geom b \<and>
    content (drv b') = patch (content (drv b)) (unat (part_offset b) + unat off) (take (unat len) p)"
proof -
  let ?c = "content (drv b)" and ?pos = "unat (part_offset b) + unat off"
  from bytes_range_ok[OF assms(1-3)] obtain idx ua wl where
    r: "bytes_range b off len = Some (Inr (idx, ua, wl))" "bsize * unat idx + unat ua = ?pos" "unat ua < bsize"
      "ua \<noteq> 0 \<longrightarrow> unat wl = min (unat len) (bsize - unat ua)" by blast
  show ?thesis
  proof (cases "ua = 0")
    case True
    with r have "bsize * unat idx = ?pos" by simp
    with write_aligned_ok[OF assms(1), of idx len p] end_le assms(4) True r show ?thesis
      by (auto simp: ext4_block_writebytes_def)
  next
    case False
    with r have wl: "unat wl = min (unat len) (bsize - unat ua)" by simp
    then have wl_le: "unat wl \<le> unat len" by simp
    then have lw: "unat (len - wl) = unat len - unat wl" by (simp add: unat_sub word_le_nat_alt)
    note in_blk = head_block[OF assms(1) r(2) r(3) False, of len wl, OF end_le wl]
    let ?x = "take (unat wl) p"
    have x: "length ?x = unat wl" using wl_le assms(4) by simp
    have "unat ua + length ?x \<le> bsize" using wl r(3) unfolding x by simp
    from modify_block[OF assms(1) in_blk(1) this, unfolded r(2)] obtain b1 d b2 where
      1: "bread_bbuf ops idx b = Some (EOK, b1)" "buf_set (unat ua) ?x (ph_bbuf b1) = Some d"
        "ext4_bdif_bwrite ops d idx 1 (b1\<lparr>ph_bbuf := d\<rparr>) = Some (EOK, b2)" "good b2" "geom b2 = geom b"
        "content (drv b2) = patch ?c ?pos ?x" by blast
    have len: "length (content (drv b2)) = length ?c"
      unfolding 1(6) using x wl_le end_le by (intro length_patch) simp
    have p1: "bsize * unat (idx + 1) + unat (len - wl) \<le> length (content (drv b2))"
      using in_blk(4) len lw by simp
    have p2: "unat (len - wl) \<le> length (drop (unat wl) p)" using assms(4) lw by simp
    from write_aligned_ok[OF 1(4) p1 p2, unfolded lw 1(6)] obtain b3 where
      2: "write_aligned ops (drop (unat wl) p) (len - wl) (idx + 1) b2 = Some (EOK, b3)" "good b3" "geom b3 = geom b2"
        "content (drv b3) = patch (patch ?c ?pos ?x) (bsize * unat (idx + 1)) (take (unat len - unat wl) (drop (unat wl) p))"
      by blast
    have "content (drv b3) = patch ?c ?pos (?x @ take (unat len - unat wl) (drop (unat wl) p))"
    proof (cases "unat len \<le> bsize - unat ua")
      case True
      then show ?thesis unfolding 2(4) wl by simp
    next
      case False
      then have "bsize * unat (idx + 1) = ?pos + unat wl" using r(2,3) wl in_blk(2) by simp
      then show ?thesis using patch_patch[of ?pos ?x ?c] x wl_le end_le by (simp add: 2(4))
    qed
    moreover have "?x @ take (unat len - unat wl) (drop (unat wl) p) = take (unat len) p"
      using take_drop_glue[OF wl_le, of 0 p] by simp
    ultimately show ?thesis
      using 1 2 r(1) False wl_le assms(4) by (simp add: ext4_block_writebytes_def)
  qed
qed

lemma set_direct_ok:
  assumes "good b" "bsize dvd unat (lg_bsize b)" "(unat lba + unat cnt) * unat (lg_bsize b) \<le> unat (part_size b)"
    "unat (part_offset b) + (unat lba + unat cnt) * unat (lg_bsize b) \<le> length (content (drv b))" "unat (lg_bsize b) * unat cnt < 2 ^ 32" "unat (lg_bsize b) * unat cnt \<le> length buf"
  shows "\<exists>b'. ext4_blocks_set_direct ops buf lba cnt b = Some (EOK, b') \<and> good b' \<and> geom b' = geom b \<and>
    content (drv b') = patch (content (drv b)) (unat (part_offset b) + unat lba * unat (lg_bsize b))
      (take (unat (lg_bsize b) * unat cnt) buf)"
proof -
  note l = logical_blocks[OF assms(1-5)]
  from bdif_bwrite[OF assms(1) l(3)] l(2) assms(5,6) show ?thesis
    using goodD(3)[OF assms(1)] by (auto simp: ext4_blocks_set_direct_def Let_def l(1))
qed

end

section \<open>The devices of the repository\<close>

text \<open>The phone, as blockdev.c reads it, is a source of blocks of 512 bytes. Reading leaves everything but
  the phone and the receive buffer as it was in the state \<open>h\<close> of the program.\<close>

definition phone_ok :: "'d usb \<Rightarrow> ('d \<Rightarrow> bool) \<Rightarrow> byte list \<Rightarrow> bdev_id \<Rightarrow> 'd st \<Rightarrow> 'd st \<Rightarrow> bool" where
  "phone_ok U ready flash dv h s \<longleftrightarrow> dv \<noteq> Other_bdev \<and> flash_ok U ready flash s \<and> 512 dvd length flash \<and>
     (\<exists>d m. s = h\<lparr>dev := d, data_buffer := m\<rparr>)"

interpretation phone: block_source "phone_ops U junk dv" 512 "phone_ok U ready flash dv h" "\<lambda>_. flash"
  for U junk dv ready flash h
proof
  show "\<exists>k. (512 :: nat) = 2 ^ k" by (rule exI[of _ 9]) simp
  fix s :: "'a st" and b :: "'a st bdev" and blk :: u64 and cnt :: u32
  show "512 dvd length flash" "length flash < 2 ^ 64" if "phone_ok U ready flash dv h s"
    using that by (auto simp: phone_ok_def flash_ok_def)
  show "\<exists>s. ext4_bdif_lock (phone_ops U junk dv) b = Some (b\<lparr>drv := s\<rparr>) \<and> phone_ok U ready flash dv h s \<and> flash = flash"
    "\<exists>s. ext4_bdif_unlock (phone_ops U junk dv) b = Some (b\<lparr>drv := s\<rparr>) \<and> phone_ok U ready flash dv h s \<and> flash = flash"
    if "phone_ok U ready flash dv h (drv b)"
    using that by (auto intro!: exI[of _ "drv b"] simp: ext4_bdif_lock_def ext4_bdif_unlock_def phone_ops_def)
  assume "phone_ok U ready flash dv h (drv b)" "512 * (unat blk + unat cnt) \<le> length flash" "512 * unat cnt < 2 ^ 32"
  then show "\<exists>s. p_bread (phone_ops U junk dv) blk cnt b =
      Some (EOK, take (512 * unat cnt) (drop (512 * unat blk) flash), b\<lparr>drv := s\<rparr>) \<and>
      phone_ok U ready flash dv h s \<and> flash = flash"
    using blockdev_bread_ok[of dv U ready flash "drv b" "unat blk" "unat cnt"]
    by (fastforce simp: phone_ok_def phone_ops_def EOK_def)
qed

text \<open>An open image file of whole blocks is a store.\<close>

definition image_ok :: "filedev \<Rightarrow> bool" where
  "image_ok f \<longleftrightarrow> dev_file f \<noteq> None \<and> image f \<noteq> None \<and> 512 dvd length (the (image f)) \<and>
     length (the (image f)) < 2 ^ 63 \<and> length (the (image f)) \<le> image_cap f"

lemma fseeko_block:
  assumes "dev_file f \<noteq> None" "512 * unat blk \<le> n" "n < 2 ^ 63" "unat bs = 512"
  shows "fseeko (blk * ucast (bs :: u32)) f = Some (True, f\<lparr>dev_file := Some (512 * unat blk)\<rparr>)"
proof -
  have u: "unat (blk * ucast bs) = 512 * unat blk"
    using unat_mult_lem[THEN iffD1, of blk "ucast bs"] assms(2-4) by simp
  then show ?thesis using assms(1-3) by (auto simp: fseeko_def word_less_nat_alt)
qed

lemma filedev_blocks_ok:
  assumes "image_ok (drv b)" "unat (ph_bsize b) = 512" "512 * unat cnt < 2 ^ 32"
    "512 * (unat blk + unat cnt) \<le> length (the (image (drv b)))"
  shows "\<exists>s. filedev_bread blk cnt b =
      Some (EOK, take (512 * unat cnt) (drop (512 * unat blk) (the (image (drv b)))), b\<lparr>drv := s\<rparr>) \<and>
      image_ok s \<and> the (image s) = the (image (drv b))" (is ?read)
    "512 * unat cnt \<le> length buf \<Longrightarrow> \<exists>s. filedev_bwrite buf blk cnt b = Some (EOK, b\<lparr>drv := s\<rparr>) \<and>
      image_ok s \<and> the (image s) = patch (the (image (drv b))) (512 * unat blk) (take (512 * unat cnt) buf)"
proof -
  let ?n = "512 * unat cnt" and ?p = "512 * unat blk"
  obtain img where img: "image (drv b) = Some img" using assms(1) by (auto simp: image_ok_def)
  have seek: "fseeko (blk * ucast (ph_bsize b)) (drv b) = Some (True, (drv b)\<lparr>dev_file := Some ?p\<rparr>)"
    using assms(1,2,4) img by (intro fseeko_block[of _ _ "length img"]) (auto simp: image_ok_def)
  have sz: "unat (ph_bsize b * cnt) = ?n"
    using unat_mult_lem[THEN iffD1, of "ph_bsize b" cnt] assms(2,3) by simp
  have inside: "?p + ?n \<le> length img" "?n \<le> image_cap (drv b) - ?p" using assms(1,4) img by (auto simp: image_ok_def)
  have moved: "image_ok (f\<lparr>dev_file := Some p\<rparr>)" if "image_ok f" for f p using that by (simp add: image_ok_def)
  show ?read
  proof (cases "cnt = 0")
    case True
    then show ?thesis using seek moved[OF assms(1)] by (auto simp: filedev_bread_def)
  next
    case False
    then have "0 < ?n" by (simp add: unat_gt_0)
    with False have "filedev_bread blk cnt b =
        Some (EOK, take ?n (drop ?p img), b\<lparr>drv := (drv b)\<lparr>dev_file := Some (?p + ?n)\<rparr>\<rparr>)"
      using seek sz img inside by (simp add: filedev_bread_def Let_def)
    then show ?thesis using moved[OF assms(1)] img
      by (intro exI[of _ "(drv b)\<lparr>dev_file := Some (?p + ?n)\<rparr>"]) simp
  qed
  show "\<exists>s. filedev_bwrite buf blk cnt b = Some (EOK, b\<lparr>drv := s\<rparr>) \<and>
      image_ok s \<and> the (image s) = patch (the (image (drv b))) ?p (take ?n buf)" if "?n \<le> length buf"
  proof (cases "cnt = 0")
    case True
    then show ?thesis using seek moved[OF assms(1)] by (auto simp: filedev_bwrite_def)
  next
    case False
    then have n: "0 < ?n" by (simp add: unat_gt_0)
    have t: "take (min ?n (image_cap (drv b) - ?p)) buf = take ?n buf" "length (take ?n buf) = ?n"
      using inside(2) that by (simp_all add: min_absorb1)
    have "filedev_bwrite buf blk cnt b =
        Some (EOK, b\<lparr>drv := (drv b)\<lparr>image := Some (patch img ?p (take ?n buf)), dev_file := Some (?p + ?n)\<rparr>\<rparr>)"
      using seek sz img that False n t inside by (simp add: filedev_bwrite_def Let_def patch_def)
    moreover have "length (patch img ?p (take ?n buf)) = length img" using inside t by simp
    ultimately show ?thesis using assms(1) img
      by (intro exI[of _ "(drv b)\<lparr>image := Some (patch img ?p (take ?n buf)), dev_file := Some (?p + ?n)\<rparr>"])
        (simp add: image_ok_def)
  qed
qed

interpretation filedev: block_store filedev_ops 512 image_ok "\<lambda>f. the (image f)"
proof
  show "\<exists>k. (512 :: nat) = 2 ^ k" by (rule exI[of _ 9]) simp
  fix s :: filedev and b :: "filedev bdev" and blk :: u64 and cnt :: u32 and buf :: "byte list"
  show "512 dvd length (the (image s))" "length (the (image s)) < 2 ^ 64" if "image_ok s"
    using that by (auto simp: image_ok_def)
  show "\<exists>s. ext4_bdif_lock filedev_ops b = Some (b\<lparr>drv := s\<rparr>) \<and> image_ok s \<and> the (image s) = the (image (drv b))"
    "\<exists>s. ext4_bdif_unlock filedev_ops b = Some (b\<lparr>drv := s\<rparr>) \<and> image_ok s \<and> the (image s) = the (image (drv b))"
    if "image_ok (drv b)"
    using that by (auto intro!: exI[of _ "drv b"] simp: ext4_bdif_lock_def ext4_bdif_unlock_def filedev_ops_def)
qed (simp_all add: filedev_ops_def filedev_blocks_ok)

section \<open>Properties\<close>

text \<open>C14. On an image file, what \<open>ext4_block_writebytes\<close> wrote is what \<open>ext4_block_readbytes\<close>
  reads, for every offset and length inside the partition, aligned to blocks or not; bytes outside the
  written range are the old ones.\<close>

theorem writebytes_readbytes:
  assumes "dev_ok image_ok (\<lambda>f. the (image f)) 512 b" "ph_refctr b \<noteq> 0"
    and "unat (part_offset b) + unat (part_size b) \<le> length (the (image (drv b)))"
    and "unat off + unat len \<le> unat (part_size b)" "unat len \<le> length p"
    and "unat off' + unat len' \<le> unat (part_size b)" "unat len' \<le> length buf"
  shows "\<exists>b1 b2. ext4_block_writebytes filedev_ops off p len b = Some (EOK, b1) \<and>
    ext4_block_readbytes filedev_ops off' buf len' b1 = Some (EOK,
      take (unat len') (drop (unat (part_offset b) + unat off')
        (patch (the (image (drv b))) (unat (part_offset b) + unat off) (take (unat len) p))) @ drop (unat len') buf, b2)"
proof -
  obtain b1 where 1: "ext4_block_writebytes filedev_ops off p len b = Some (EOK, b1)" "dev_ok image_ok (\<lambda>f. the (image f)) 512 b1"
    "geom b1 = geom b" "the (image (drv b1)) = patch (the (image (drv b))) (unat (part_offset b) + unat off) (take (unat len) p)"
    using filedev.writebytes_ok[OF assms(1,2,4,5)] assms(3,4) by auto
  have g: "ph_refctr b1 \<noteq> 0" "unat off' + unat len' \<le> unat (part_size b1)" "part_offset b1 = part_offset b"
    using assms(2,6) geom_eqD[OF 1(3)] by auto
  have fit: "unat (part_offset b) + unat off' + unat len' \<le> length (the (image (drv b1)))"
    using assms(3-6) by (simp add: 1(4))
  from filedev.readbytes_ok[OF 1(2) g(1,2) assms(7)] 1(1,4) g(3) fit show ?thesis by auto
qed

definition image_dev :: "filedev bdev" where
  "image_dev = (filedev_dev \<lparr>image = Some (replicate 1536 0), dev_file = Some 0, image_cap = 2048\<rparr>)
     \<lparr>ph_refctr := 1, part_offset := 512, part_size := 1024, lg_bsize := 512, lg_bcnt := 2\<rparr>"

lemma image_dev_ok: "dev_ok image_ok (\<lambda>f. the (image f)) 512 image_dev" "ph_refctr image_dev \<noteq> 0"
  by (simp_all add: dev_ok_def image_ok_def image_dev_def filedev_dev_def EXT4_FILEDEV_BSIZE_def)

theorem writebytes_readbytes_witness:
  "\<exists>b1 b2. ext4_block_writebytes filedev_ops 500 [1, 2, 3] 3 image_dev = Some (EOK, b1) \<and>
    ext4_block_readbytes filedev_ops 499 [9, 9, 9, 9, 9] 5 b1 = Some (EOK,
      take (unat (5 :: u32)) (drop (unat (part_offset image_dev) + unat (499 :: u64))
        (patch (the (image (drv image_dev))) (unat (part_offset image_dev) + unat (500 :: u64)) (take (unat (3 :: u32)) [1, 2, 3])))
      @ drop (unat (5 :: u32)) [9, 9, 9, 9, 9], b2)"
  by (rule writebytes_readbytes[OF image_dev_ok]) (simp_all add: image_dev_def filedev_dev_def)

text \<open>C20. A device that is not open gives \<open>EIO\<close>, a range that ends behind the partition
  \<open>EINVAL\<close>; buffer and device are left as they are. (The end is computed in 64 bits: the range must
  not wrap around.)\<close>

theorem block_bytes_errors:
  assumes "ph_refctr b = 0 \<or> unat off + unat len < 2 ^ 64 \<and> unat (part_size b) < unat off + unat len"
  shows "\<exists>e. e = (if ph_refctr b = 0 then EIO else EINVAL) \<and>
    ext4_block_readbytes ops off buf len b = Some (e, buf, b) \<and> ext4_block_writebytes ops off p len b = Some (e, b)"
proof (cases "ph_refctr b = 0")
  case False
  then have "unat (off + ucast len) = unat off + unat len"
    using unat_add_lem[THEN iffD1, of off "ucast len"] assms by simp
  then have "part_size b < off + ucast len" using False assms by (simp add: word_less_nat_alt)
  with False show ?thesis by (simp add: ext4_block_readbytes_def ext4_block_writebytes_def bytes_range_def)
qed (simp add: ext4_block_readbytes_def ext4_block_writebytes_def bytes_range_def)

theorem block_bytes_errors_witness:
  "\<exists>e. e = (if ph_refctr image_dev = 0 then EIO else EINVAL) \<and>
    ext4_block_readbytes filedev_ops 1000 [1] 100 image_dev = Some (e, [1], image_dev) \<and>
    ext4_block_writebytes filedev_ops 1000 [2] 100 image_dev = Some (e, image_dev)"
  by (rule block_bytes_errors) (simp add: image_dev_def)

end
