(* ===== verification/Ext4_Inode.thy ===== *)
theory Ext4_Inode
  imports Ext4_Super Ext4_Bdev
begin

text \<open>
  lwext4/src/ext4_inode.c: the accessors of an inode. An inode is the memory at its address;
  every accessor names the offset of its field in \<open>struct ext4_inode\<close>. The properties show that
  what is set is what is got, on the fields that are split into halves, and that setting one field
  leaves the others alone.
\<close>

section \<open>Definitions\<close>

definition put16 :: "mem \<Rightarrow> nat \<Rightarrow> u16 \<Rightarrow> mem" where
  "put16 m off v = mem_put m off [ucast v, ucast (drop_bit 8 v)]"

definition creator_os :: "mem \<Rightarrow> u32" where "creator_os sb = get32 sb 72"
definition rev_level :: "mem \<Rightarrow> u32" where "rev_level sb = get32 sb 76"

definition EXT4_SUPERBLOCK_OS_LINUX :: u32 where "EXT4_SUPERBLOCK_OS_LINUX = 0"
definition EXT4_SUPERBLOCK_OS_HURD :: u32 where "EXT4_SUPERBLOCK_OS_HURD = 1"
definition EXT4_FRO_COM_HUGE_FILE :: u32 where "EXT4_FRO_COM_HUGE_FILE = 0x0008"
definition EXT4_FRO_COM_EXTRA_ISIZE :: u32 where "EXT4_FRO_COM_EXTRA_ISIZE = 0x0040"
definition EXT4_GOOD_OLD_INODE_SIZE :: u16 where "EXT4_GOOD_OLD_INODE_SIZE = 128"

definition EXT4_INODE_MODE_DIRECTORY :: u32 where "EXT4_INODE_MODE_DIRECTORY = 0x4000"
definition EXT4_INODE_MODE_FILE :: u32 where "EXT4_INODE_MODE_FILE = 0x8000"
definition EXT4_INODE_MODE_SOFTLINK :: u32 where "EXT4_INODE_MODE_SOFTLINK = 0xA000"
definition EXT4_INODE_MODE_TYPE_MASK :: u32 where "EXT4_INODE_MODE_TYPE_MASK = 0xF000"
definition EXT4_INODE_FLAG_IMMUTABLE :: u32 where "EXT4_INODE_FLAG_IMMUTABLE = 0x10"
definition EXT4_INODE_FLAG_APPEND :: u32 where "EXT4_INODE_FLAG_APPEND = 0x20"
definition EXT4_INODE_FLAG_HUGE_FILE :: u32 where "EXT4_INODE_FLAG_HUGE_FILE = 0x40000"
definition EXT4_INODE_FLAG_EXTENTS :: u32 where "EXT4_INODE_FLAG_EXTENTS = 0x80000"
definition EXT4_INODE_DIRECT_BLOCK_COUNT :: u32 where "EXT4_INODE_DIRECT_BLOCK_COUNT = 12"
definition EXT4_INODE_BLOCKS :: u32 where "EXT4_INODE_BLOCKS = 15"

text \<open>The \<open>do\<close> loop halves the size until it is at most 256.\<close>

function block_bits_loop :: "u32 \<Rightarrow> u32 \<Rightarrow> u32" where
  "block_bits_loop bits sz =
     (if drop_bit 1 sz > 256 then block_bits_loop (bits + 1) (drop_bit 1 sz) else bits + 1)"
  by pat_completeness auto
termination
  by (relation "measure (\<lambda>(bits, sz). unat sz)") (auto simp: word_less_nat_alt unat_div drop_bit_eq_div)

declare block_bits_loop.simps [simp del]

definition ext4_inode_block_bits_count :: "u32 \<Rightarrow> u32" where
  "ext4_inode_block_bits_count block_size = block_bits_loop 8 block_size"

subsection \<open>Mode, owner, size\<close>

definition ext4_inode_get_mode :: "mem \<Rightarrow> mem \<Rightarrow> u32" where
  "ext4_inode_get_mode sb inode =
     (let v = ucast (get16 inode 0) in
      if creator_os sb = EXT4_SUPERBLOCK_OS_HURD then v OR push_bit 16 (ucast (get16 inode 118)) else v)"

definition ext4_inode_set_mode :: "mem \<Rightarrow> mem \<Rightarrow> u32 \<Rightarrow> mem" where
  "ext4_inode_set_mode sb inode mode =
     (let inode = put16 inode 0 (ucast (drop_bit 16 (push_bit 16 mode))) in
      if creator_os sb = EXT4_SUPERBLOCK_OS_HURD then put16 inode 118 (ucast (drop_bit 16 mode)) else inode)"

definition ext4_inode_get_uid :: "mem \<Rightarrow> u32" where
  "ext4_inode_get_uid inode = ucast (get16 inode 2)"

definition ext4_inode_set_uid :: "mem \<Rightarrow> u32 \<Rightarrow> mem" where
  "ext4_inode_set_uid inode uid = put16 inode 2 (ucast uid)"

definition ext4_inode_type :: "mem \<Rightarrow> mem \<Rightarrow> u32" where
  "ext4_inode_type sb inode = ext4_inode_get_mode sb inode AND EXT4_INODE_MODE_TYPE_MASK"

definition ext4_inode_is_type :: "mem \<Rightarrow> mem \<Rightarrow> u32 \<Rightarrow> bool" where
  "ext4_inode_is_type sb inode ty \<longleftrightarrow> ext4_inode_type sb inode = ty"

definition ext4_inode_get_size :: "mem \<Rightarrow> mem \<Rightarrow> u64" where
  "ext4_inode_get_size sb inode =
     (let v = ucast (get32 inode 4) in
      if rev_level sb > 0 \<and> ext4_inode_is_type sb inode EXT4_INODE_MODE_FILE
      then v OR push_bit 32 (ucast (get32 inode 108)) else v)"

definition ext4_inode_set_size :: "mem \<Rightarrow> u64 \<Rightarrow> mem" where
  "ext4_inode_set_size inode sz =
     put32 (put32 inode 4 (ucast (drop_bit 32 (push_bit 32 sz)))) 108 (ucast (drop_bit 32 sz))"

definition ext4_inode_get_csum :: "mem \<Rightarrow> mem \<Rightarrow> u32" where
  "ext4_inode_get_csum sb inode =
     (let v = ucast (get16 inode 124) in
      if inode_size sb > EXT4_GOOD_OLD_INODE_SIZE then v OR push_bit 16 (ucast (get16 inode 130)) else v)"

definition ext4_inode_set_csum :: "mem \<Rightarrow> mem \<Rightarrow> u32 \<Rightarrow> mem" where
  "ext4_inode_set_csum sb inode csum =
     (let inode = put16 inode 124 (ucast (drop_bit 16 (push_bit 16 csum))) in
      if inode_size sb > EXT4_GOOD_OLD_INODE_SIZE then put16 inode 130 (ucast (drop_bit 16 csum)) else inode)"

subsection \<open>Times, links, flags\<close>

definition ext4_inode_get_access_time :: "mem \<Rightarrow> u32" where
  "ext4_inode_get_access_time inode = get32 inode 8"
definition ext4_inode_set_access_time :: "mem \<Rightarrow> u32 \<Rightarrow> mem" where
  "ext4_inode_set_access_time inode time = put32 inode 8 time"
definition ext4_inode_get_change_inode_time :: "mem \<Rightarrow> u32" where
  "ext4_inode_get_change_inode_time inode = get32 inode 12"
definition ext4_inode_set_change_inode_time :: "mem \<Rightarrow> u32 \<Rightarrow> mem" where
  "ext4_inode_set_change_inode_time inode time = put32 inode 12 time"
definition ext4_inode_get_modif_time :: "mem \<Rightarrow> u32" where
  "ext4_inode_get_modif_time inode = get32 inode 16"
definition ext4_inode_set_modif_time :: "mem \<Rightarrow> u32 \<Rightarrow> mem" where
  "ext4_inode_set_modif_time inode time = put32 inode 16 time"
definition ext4_inode_get_del_time :: "mem \<Rightarrow> u32" where
  "ext4_inode_get_del_time inode = get32 inode 20"
definition ext4_inode_set_del_time :: "mem \<Rightarrow> u32 \<Rightarrow> mem" where
  "ext4_inode_set_del_time inode time = put32 inode 20 time"
definition ext4_inode_get_gid :: "mem \<Rightarrow> u32" where
  "ext4_inode_get_gid inode = ucast (get16 inode 24)"
definition ext4_inode_set_gid :: "mem \<Rightarrow> u32 \<Rightarrow> mem" where
  "ext4_inode_set_gid inode gid = put16 inode 24 (ucast gid)"
definition ext4_inode_get_links_cnt :: "mem \<Rightarrow> u16" where
  "ext4_inode_get_links_cnt inode = get16 inode 26"
definition ext4_inode_set_links_cnt :: "mem \<Rightarrow> u16 \<Rightarrow> mem" where
  "ext4_inode_set_links_cnt inode cnt = put16 inode 26 cnt"
definition ext4_inode_get_flags :: "mem \<Rightarrow> u32" where
  "ext4_inode_get_flags inode = get32 inode 32"
definition ext4_inode_set_flags :: "mem \<Rightarrow> u32 \<Rightarrow> mem" where
  "ext4_inode_set_flags inode fl = put32 inode 32 fl"
definition ext4_inode_get_generation :: "mem \<Rightarrow> u32" where
  "ext4_inode_get_generation inode = get32 inode 100"
definition ext4_inode_set_generation :: "mem \<Rightarrow> u32 \<Rightarrow> mem" where
  "ext4_inode_set_generation inode gen = put32 inode 100 gen"

definition ext4_inode_has_flag :: "mem \<Rightarrow> u32 \<Rightarrow> bool" where
  "ext4_inode_has_flag inode f \<longleftrightarrow> ext4_inode_get_flags inode AND f \<noteq> 0"

definition ext4_inode_clear_flag :: "mem \<Rightarrow> u32 \<Rightarrow> mem" where
  "ext4_inode_clear_flag inode f = ext4_inode_set_flags inode (ext4_inode_get_flags inode AND NOT f)"

definition ext4_inode_set_flag :: "mem \<Rightarrow> u32 \<Rightarrow> mem" where
  "ext4_inode_set_flag inode f = ext4_inode_set_flags inode (ext4_inode_get_flags inode OR f)"

definition ext4_inode_can_truncate :: "mem \<Rightarrow> mem \<Rightarrow> bool" where
  "ext4_inode_can_truncate sb inode \<longleftrightarrow>
     (if ext4_inode_has_flag inode EXT4_INODE_FLAG_APPEND \<or> ext4_inode_has_flag inode EXT4_INODE_FLAG_IMMUTABLE
      then False
      else ext4_inode_is_type sb inode EXT4_INODE_MODE_FILE \<or>
        ext4_inode_is_type sb inode EXT4_INODE_MODE_DIRECTORY \<or>
        ext4_inode_is_type sb inode EXT4_INODE_MODE_SOFTLINK)"

subsection \<open>The block count, in units of 512 bytes or, for huge files, of blocks\<close>

definition ext4_inode_get_blocks_count :: "mem \<Rightarrow> mem \<Rightarrow> u64 option" where
  "ext4_inode_get_blocks_count sb inode =
     (let cnt = ucast (get32 inode 28) in
      if \<not> ext4_sb_feature_ro_com sb EXT4_FRO_COM_HUGE_FILE then Some cnt
      else let cnt = cnt OR push_bit 32 (ucast (get16 inode 116)) in
      if ext4_inode_has_flag inode EXT4_INODE_FLAG_HUGE_FILE then do {
        block_size \<leftarrow> ext4_sb_get_block_size sb;
        let b = ext4_inode_block_bits_count block_size;
        if b - 9 < 64 then Some (push_bit (unat (b - 9)) cnt) else None }
      else Some cnt)"

definition ext4_inode_set_blocks_count :: "mem \<Rightarrow> mem \<Rightarrow> u64 \<Rightarrow> (int \<times> mem) option" where
  "ext4_inode_set_blocks_count sb inode count =
     (if count \<le> 0xffffffff then
        Some (EOK, ext4_inode_clear_flag (put16 (put32 inode 28 (ucast count)) 116 0) EXT4_INODE_FLAG_HUGE_FILE)
      else if \<not> ext4_sb_feature_ro_com sb EXT4_FRO_COM_HUGE_FILE then Some (EINVAL, inode)
      else if count \<le> 0xffffffffffff then
        Some (EOK, ext4_inode_clear_flag
          (put16 (put32 inode 28 (ucast count)) 116 (ucast (drop_bit 32 count))) EXT4_INODE_FLAG_HUGE_FILE)
      else do {
        block_size \<leftarrow> ext4_sb_get_block_size sb;
        let b = ext4_inode_block_bits_count block_size;
        let inode = ext4_inode_set_flag inode EXT4_INODE_FLAG_HUGE_FILE;
        if b - 9 < 64 then
          (let count = drop_bit (unat (b - 9)) count in
           Some (EOK, put16 (put32 inode 28 (ucast count)) 116 (ucast (drop_bit 32 count))))
        else None })"

subsection \<open>Extended attributes and blocks\<close>

definition ext4_inode_get_extra_isize :: "mem \<Rightarrow> mem \<Rightarrow> u16" where
  "ext4_inode_get_extra_isize sb inode =
     (if ext4_sb_feature_ro_com sb EXT4_FRO_COM_EXTRA_ISIZE then get16 inode 128 else 0)"

definition ext4_inode_set_extra_isize :: "mem \<Rightarrow> mem \<Rightarrow> u16 \<Rightarrow> mem" where
  "ext4_inode_set_extra_isize sb inode sz =
     (if ext4_sb_feature_ro_com sb EXT4_FRO_COM_EXTRA_ISIZE then put16 inode 128 sz else inode)"

text \<open>The high half is shifted by 16, in 32 bits.\<close>

definition ext4_inode_get_file_acl :: "mem \<Rightarrow> mem \<Rightarrow> u64" where
  "ext4_inode_get_file_acl sb inode =
     (let v = ucast (get32 inode 104) in
      if creator_os sb = EXT4_SUPERBLOCK_OS_LINUX
      then v OR ucast (push_bit 16 (ucast (get16 inode 118)) :: u32) else v)"

definition ext4_inode_set_file_acl :: "mem \<Rightarrow> mem \<Rightarrow> u64 \<Rightarrow> mem" where
  "ext4_inode_set_file_acl sb inode acl =
     (let inode = put32 inode 104 (ucast (drop_bit 32 (push_bit 32 acl))) in
      if creator_os sb = EXT4_SUPERBLOCK_OS_LINUX then put16 inode 118 (ucast (drop_bit 32 acl)) else inode)"

definition ext4_inode_get_direct_block :: "mem \<Rightarrow> u32 \<Rightarrow> u32 option" where
  "ext4_inode_get_direct_block inode idx =
     (if idx < EXT4_INODE_BLOCKS then Some (get32 inode (40 + 4 * unat idx)) else None)"

definition ext4_inode_set_direct_block :: "mem \<Rightarrow> u32 \<Rightarrow> u32 \<Rightarrow> mem option" where
  "ext4_inode_set_direct_block inode idx block =
     (if idx < EXT4_INODE_BLOCKS then Some (put32 inode (40 + 4 * unat idx) block) else None)"

definition ext4_inode_get_indirect_block :: "mem \<Rightarrow> u32 \<Rightarrow> u32 option" where
  "ext4_inode_get_indirect_block inode idx = ext4_inode_get_direct_block inode (idx + 12)"

definition ext4_inode_set_indirect_block :: "mem \<Rightarrow> u32 \<Rightarrow> u32 \<Rightarrow> mem option" where
  "ext4_inode_set_indirect_block inode idx block = ext4_inode_set_direct_block inode (idx + 12) block"

definition ext4_inode_get_dev :: "mem \<Rightarrow> u32 option" where
  "ext4_inode_get_dev inode = do {
     dev_0 \<leftarrow> ext4_inode_get_direct_block inode 0;
     dev_1 \<leftarrow> ext4_inode_get_direct_block inode 1;
     Some (if dev_0 \<noteq> 0 then dev_0 else dev_1) }"

definition ext4_inode_set_dev :: "mem \<Rightarrow> u32 \<Rightarrow> mem option" where
  "ext4_inode_set_dev inode d =
     (if d AND NOT 0xFFFF \<noteq> 0 then ext4_inode_set_direct_block inode 1 d
      else ext4_inode_set_direct_block inode 0 d)"

text \<open>The root of the extent tree is stored in place of the block pointers.\<close>

definition ext4_inode_get_extent_header :: "mem \<Rightarrow> mem" where
  "ext4_inode_get_extent_header inode = (\<lambda>i. inode (40 + i))"

section \<open>Fields do not overlap\<close>

lemma get16_put16 [simp]: "get16 (put16 m off v) off = v"
  by (auto simp: get16_def put16_def mem_put_def wire_defs bit_simps intro!: bit_word_eqI)

lemma get16_put16_other: "off + 2 \<le> off' \<or> off' + 2 \<le> off \<Longrightarrow> get16 (put16 m off' v) off = get16 m off"
  by (auto simp: get16_def put16_def mem_put_def)

lemma get16_put32_other: "off + 2 \<le> off' \<or> off' + 4 \<le> off \<Longrightarrow> get16 (put32 m off' v) off = get16 m off"
  by (auto simp: get16_def put32_def mem_put_def)

lemma get32_put16_other: "off + 4 \<le> off' \<or> off' + 2 \<le> off \<Longrightarrow> get32 (put16 m off' v) off = get32 m off"
  by (auto simp: get32_def put16_def mem_put_def)

lemmas field_simps_mem = get16_put16_other get16_put32_other get32_put16_other get32_put32 get32_put32_other

lemma ucast_halves: "(ucast (ucast (drop_bit 32 (push_bit 32 (n :: u64))) :: u32) :: u64) = take_bit 32 n"
  by (auto simp: bit_simps intro!: bit_word_eqI)

lemma glue_halves: "take_bit 32 n OR push_bit 32 (ucast (ucast (drop_bit 32 n) :: u32)) = (n :: u64)"
  by (auto simp: bit_simps intro!: bit_word_eqI)

lemma glue_48: "ucast (ucast n :: u32) OR push_bit 32 (ucast (ucast (drop_bit 32 n) :: u16)) = take_bit 48 (n :: u64)"
  by (auto simp: bit_simps intro!: bit_word_eqI)

section \<open>Properties\<close>

text \<open>The size of an inode reads back as it was set: all 64 bits for a regular file of a file
  system with a revision, the low 32 bits otherwise.\<close>

theorem inode_size_roundtrip:
  "ext4_inode_get_size sb (ext4_inode_set_size inode n) =
     (if rev_level sb > 0 \<and> ext4_inode_is_type sb inode EXT4_INODE_MODE_FILE then n else take_bit 32 n)"
proof -
  have "ext4_inode_is_type sb (ext4_inode_set_size inode n) ty = ext4_inode_is_type sb inode ty" for ty
    by (simp add: ext4_inode_set_size_def ext4_inode_is_type_def ext4_inode_type_def ext4_inode_get_mode_def field_simps_mem Let_def)
  then show ?thesis
    by (simp add: ext4_inode_get_size_def Let_def) (simp add: ext4_inode_set_size_def field_simps_mem ucast_halves glue_halves)
qed

lemma unat_drop_bit: "unat (drop_bit k (w :: 'a::len word)) = unat w div 2 ^ k"
  by (simp only: unsigned_drop_bit_eq) (simp add: drop_bit_eq_div take_bit_nat_eq_self unat_less)

lemma unat_exp: "k < 32 \<Longrightarrow> unat ((2 :: u32) ^ k) = 2 ^ k"
  using unat_of_nat[of "2 ^ k", where 'a = 32] power_strict_increasing[of k 32 "2 :: nat"] by simp

lemma block_bits_power:
  assumes "9 \<le> k" "k < 32"
  shows "block_bits_loop bits (2 ^ k) = bits + of_nat (k - 8)"
  using assms
proof (induction "k - 9" arbitrary: k bits)
  case 0
  then have "k = 9" by simp
  then show ?case by (subst block_bits_loop.simps) simp
next
  case (Suc n)
  have half: "drop_bit 1 (2 ^ k :: u32) = 2 ^ (k - 1)"
    using Suc.prems Suc.hyps(2) by (auto simp: bit_simps intro!: bit_word_eqI)
  have "(2 :: nat) ^ 9 \<le> 2 ^ (k - 1)" using Suc.hyps(2) by (intro power_increasing) simp_all
  then have "unat (2 ^ (k - 1) :: u32) > 256"
    using Suc.prems by (simp add: unat_exp)
  then have "(2 ^ (k - 1) :: u32) > 256" by (simp add: word_less_nat_alt)
  then have "block_bits_loop bits (2 ^ k) = block_bits_loop (bits + 1) (2 ^ (k - 1))"
    by (subst block_bits_loop.simps) (simp only: half if_True)
  moreover have "block_bits_loop (bits + 1) (2 ^ (k - 1)) = bits + 1 + of_nat (k - 1 - 8)"
    using Suc by (intro Suc.hyps(1)) simp_all
  moreover have "k - 8 = Suc (k - 1 - 8)" using Suc.hyps(2) by simp
  ultimately show ?case by (simp only: of_nat_Suc) simp
qed

lemma block_size_bits:
  assumes "log_block_size sb < 21"
  shows "\<exists>bs. ext4_sb_get_block_size sb = Some bs \<and> unat (ext4_inode_block_bits_count bs - 9) = unat (log_block_size sb) + 1"
proof -
  let ?k = "unat (log_block_size sb)"
  have k: "?k < 21" using assms by (simp add: word_less_nat_alt)
  have "push_bit ?k 1024 = (2 :: u32) ^ (10 + ?k)" by (simp add: push_bit_eq_mult power_add)
  then have bs: "ext4_sb_get_block_size sb = Some (2 ^ (10 + ?k))" using assms by (simp add: ext4_sb_get_block_size_def)
  have "ext4_inode_block_bits_count (2 ^ (10 + ?k)) = 8 + of_nat (?k + 2)"
    using block_bits_power[of "10 + ?k" 8] k by (simp add: ext4_inode_block_bits_count_def)
  then have "ext4_inode_block_bits_count (2 ^ (10 + ?k)) - 9 = of_nat (?k + 1)" by simp
  moreover have "unat (of_nat (?k + 1) :: u32) = ?k + 1" using k by (simp add: unat_of_nat del: of_nat_add of_nat_Suc)
  ultimately show ?thesis using bs by metis
qed

lemma flags_after [simp]:
  "ext4_inode_get_flags (ext4_inode_set_flags inode fl) = fl"
  "ext4_inode_get_flags (put32 inode 28 v) = ext4_inode_get_flags inode"
  "ext4_inode_get_flags (put16 inode 116 w) = ext4_inode_get_flags inode"
  by (simp_all add: ext4_inode_get_flags_def ext4_inode_set_flags_def field_simps_mem)

lemma has_flag_after [simp]:
  "\<not> ext4_inode_has_flag (ext4_inode_clear_flag inode f) f"
  "ext4_inode_has_flag (ext4_inode_set_flag inode f) f = (f \<noteq> 0)"
  "ext4_inode_has_flag (put32 inode 28 v) f = ext4_inode_has_flag inode f"
  "ext4_inode_has_flag (put16 inode 116 w) f = ext4_inode_has_flag inode f"
  by (simp_all add: ext4_inode_has_flag_def ext4_inode_clear_flag_def ext4_inode_set_flag_def ac_simps word_bw_assocs
      bit_eq_iff bit_simps)

lemma count_fields [simp]:
  "get32 (ext4_inode_clear_flag inode f) 28 = get32 inode 28" "get16 (ext4_inode_clear_flag inode f) 116 = get16 inode 116"
  "get32 (put16 inode 116 w) 28 = get32 inode 28" "get32 (put32 inode 28 v) 28 = v"
  by (simp_all add: ext4_inode_clear_flag_def ext4_inode_set_flags_def field_simps_mem)

text \<open>The block count of an inode reads back as it was set, as long as it fits: exactly below
  two to the 48, rounded down to whole blocks for larger counts, which are stored in units of
  blocks. Without the feature for huge files a count of more than 32 bits is refused and the inode
  left alone.\<close>

theorem inode_blocks_roundtrip:
  assumes "log_block_size sb < 21" "unat count < 2 ^ (49 + unat (log_block_size sb))"
  shows "\<exists>r inode'. ext4_inode_set_blocks_count sb inode count = Some (r, inode') \<and>
    (if 0xffffffff < count \<and> \<not> ext4_sb_feature_ro_com sb EXT4_FRO_COM_HUGE_FILE then r = EINVAL \<and> inode' = inode
     else r = EOK \<and> ext4_inode_get_blocks_count sb inode' = Some (if count \<le> 0xffffffffffff then count
       else push_bit (unat (log_block_size sb) + 1) (drop_bit (unat (log_block_size sb) + 1) count)))"
proof -
  let ?s = "unat (log_block_size sb) + 1" and ?huge = "ext4_sb_feature_ro_com sb EXT4_FRO_COM_HUGE_FILE"
  obtain bs where bs: "ext4_sb_get_block_size sb = Some bs" "unat (ext4_inode_block_bits_count bs - 9) = ?s"
    using block_size_bits[OF assms(1)] by blast
  have s: "ext4_inode_block_bits_count bs - 9 < 64"
    using bs(2) assms(1) by (simp add: word_less_nat_alt)
  consider "count \<le> 0xffffffff" | "0xffffffff < count" "\<not> ?huge" | "0xffffffff < count" "?huge" "count \<le> 0xffffffffffff"
    | "0xffffffff < count" "?huge" "0xffffffffffff < count" by fastforce
  then show ?thesis
  proof cases
    case 1
    then have "(ucast (ucast count :: u32) :: u64) = count" "count \<le> 0xffffffffffff"
      by (simp_all add: word_unat_eq_iff unat_ucast_mod word_le_nat_alt)
    moreover have "\<not> 0xffffffff < count" using 1 by simp
    ultimately show ?thesis using 1
      by (simp add: ext4_inode_set_blocks_count_def ext4_inode_get_blocks_count_def Let_def)
  next
    case 2
    then have "\<not> count \<le> 0xffffffff" by simp
    with 2 show ?thesis by (simp add: ext4_inode_set_blocks_count_def)
  next
    case 3
    then have "take_bit 48 count = count" by (simp add: take_bit_eq_mod word_unat_eq_iff unat_mod word_le_nat_alt)
    moreover have "\<not> count \<le> 0xffffffff" using 3 by simp
    ultimately show ?thesis using 3 glue_48[of count]
      by (simp add: ext4_inode_set_blocks_count_def ext4_inode_get_blocks_count_def Let_def)
  next
    case 4
    let ?c = "drop_bit ?s count"
    have "unat ?c = unat count div 2 ^ ?s" by (rule unat_drop_bit)
    also have "\<dots> < 2 ^ 48" using assms(2) by (simp add: less_mult_imp_div_less power_add)
    finally have "take_bit 48 ?c = ?c" by (simp add: take_bit_eq_mod word_unat_eq_iff unat_mod)
    moreover have "\<not> count \<le> 0xffffffff" "\<not> count \<le> 0xffffffffffff" using 4 by simp_all
    ultimately show ?thesis using 4 bs s glue_48[of ?c]
      by (simp add: ext4_inode_set_blocks_count_def ext4_inode_get_blocks_count_def Let_def EXT4_INODE_FLAG_HUGE_FILE_def)
  qed
qed

theorem inode_blocks_roundtrip_witness:
  "\<exists>r inode'. ext4_inode_set_blocks_count (\<lambda>i. if i = 100 then 8 else 0) (\<lambda>_. 0) 0x1000000000003 = Some (r, inode') \<and>
    (if 0xffffffff < (0x1000000000003 :: u64) \<and> \<not> ext4_sb_feature_ro_com (\<lambda>i. if i = 100 then 8 else 0) EXT4_FRO_COM_HUGE_FILE
     then r = EINVAL \<and> inode' = (\<lambda>_. 0)
     else r = EOK \<and> ext4_inode_get_blocks_count (\<lambda>i. if i = 100 then 8 else 0) inode' =
       Some (if (0x1000000000003 :: u64) \<le> 0xffffffffffff then 0x1000000000003
         else push_bit (unat (log_block_size (\<lambda>i. if i = 100 then 8 else 0)) + 1)
           (drop_bit (unat (log_block_size (\<lambda>i. if i = 100 then 8 else 0)) + 1) 0x1000000000003)))"
  by (rule inode_blocks_roundtrip) (simp_all add: log_block_size_def get32_def of_le32_def)

text \<open>The address of the extended attribute block does not survive in general: on a file system
  made by Linux it reads back as it was set exactly if it fits 32 bits.\<close>

theorem inode_file_acl_low:
  assumes "creator_os sb = EXT4_SUPERBLOCK_OS_LINUX"
  shows "ext4_inode_get_file_acl sb (ext4_inode_set_file_acl sb inode acl) = acl \<longleftrightarrow> acl \<le> 0xffffffff"
proof -
  have get: "ext4_inode_get_file_acl sb (ext4_inode_set_file_acl sb inode acl) =
      take_bit 32 acl OR ucast (push_bit 16 (ucast (ucast (drop_bit 32 acl) :: u16)) :: u32)"
    using assms by (simp add: ext4_inode_get_file_acl_def ext4_inode_set_file_acl_def Let_def field_simps_mem ucast_halves)
  show ?thesis
  proof
    assume "acl \<le> 0xffffffff"
    then have "drop_bit 32 acl = 0" "take_bit 32 acl = acl"
      by (simp_all add: word_unat_eq_iff unsigned_drop_bit_eq drop_bit_eq_div take_bit_eq_mod unat_mod unat_div word_le_nat_alt)
    then show "ext4_inode_get_file_acl sb (ext4_inode_set_file_acl sb inode acl) = acl" by (simp add: get)
  next
    assume eq: "ext4_inode_get_file_acl sb (ext4_inode_set_file_acl sb inode acl) = acl"
    have "k < 32" if "bit acl k" for k
      using that arg_cong[OF eq[unfolded get], of "\<lambda>w. bit w k"] by (auto simp: bit_simps)
    then have "take_bit 32 acl = acl" by (auto simp: bit_simps intro!: bit_word_eqI)
    then have "unat acl mod 2 ^ 32 = unat acl" by (metis take_bit_eq_mod unsigned_take_bit_eq)
    then have "unat acl < 2 ^ 32" by (metis mod_less_divisor zero_less_numeral zero_less_power)
    then show "acl \<le> 0xffffffff" by (simp add: word_le_nat_alt)
  qed
qed

theorem inode_file_acl_low_witness:
  "ext4_inode_get_file_acl (\<lambda>_. 0) (ext4_inode_set_file_acl (\<lambda>_. 0) (\<lambda>_. 0) 0x100000000) = 0x100000000 \<longleftrightarrow>
    (0x100000000 :: u64) \<le> 0xffffffff"
  by (rule inode_file_acl_low) (simp add: creator_os_def get32_def of_le32_def EXT4_SUPERBLOCK_OS_LINUX_def)

end
