(* ===== verification/Ext4_Group.thy ===== *)
theory Ext4_Group
  imports Ext4_Inode
begin

text \<open>
  Block group descriptors (lwext4/include/ext4_block_group.h), the conversions between addresses
  and positions in a group (ext4_fs.h, ext4_balloc.c, ext4_ialloc.c) and the checksums of
  descriptors, bitmaps and inodes (ext4_fs.c, ext4_balloc.c, ext4_ialloc.c). A descriptor is the
  memory at its address; its high halves exist when the descriptor size exceeds 32 bytes.
\<close>

section \<open>Definitions\<close>

definition first_data_block :: "mem \<Rightarrow> u32" where "first_data_block sb = get32 sb 20"
definition uuid :: "mem \<Rightarrow> byte list" where "uuid sb = mem_get sb 104 16"

definition EXT4_FINCOM_64BIT :: u32 where "EXT4_FINCOM_64BIT = 0x0080"
definition EXT4_FRO_COM_GDT_CSUM :: u32 where "EXT4_FRO_COM_GDT_CSUM = 0x0010"
definition EXT4_BLOCK_GROUP_INODE_UNINIT :: u16 where "EXT4_BLOCK_GROUP_INODE_UNINIT = 1"
definition EXT4_BLOCK_GROUP_BLOCK_UNINIT :: u16 where "EXT4_BLOCK_GROUP_BLOCK_UNINIT = 2"
definition EXT4_BLOCK_GROUP_ITABLE_ZEROED :: u16 where "EXT4_BLOCK_GROUP_ITABLE_ZEROED = 4"

subsection \<open>Fields of a descriptor\<close>

text \<open>A block number, or a counter, in two halves at the offsets \<open>lo\<close> and \<open>hi\<close>.\<close>

definition has_hi :: "mem \<Rightarrow> bool" where
  "has_hi sb \<longleftrightarrow> ext4_sb_get_desc_size sb > 32"

definition bg_get_blk :: "nat \<Rightarrow> nat \<Rightarrow> mem \<Rightarrow> mem \<Rightarrow> u64" where
  "bg_get_blk lo hi bg sb =
     (let v = ucast (get32 bg lo) in if has_hi sb then v OR push_bit 32 (ucast (get32 bg hi)) else v)"

definition bg_set_blk :: "nat \<Rightarrow> nat \<Rightarrow> mem \<Rightarrow> mem \<Rightarrow> u64 \<Rightarrow> mem" where
  "bg_set_blk lo hi bg sb blk =
     (let bg = put32 bg lo (ucast blk) in if has_hi sb then put32 bg hi (ucast (drop_bit 32 blk)) else bg)"

definition bg_get_cnt :: "nat \<Rightarrow> nat \<Rightarrow> mem \<Rightarrow> mem \<Rightarrow> u32" where
  "bg_get_cnt lo hi bg sb =
     (let v = ucast (get16 bg lo) in if has_hi sb then v OR push_bit 16 (ucast (get16 bg hi)) else v)"

definition bg_set_cnt :: "nat \<Rightarrow> nat \<Rightarrow> mem \<Rightarrow> mem \<Rightarrow> u32 \<Rightarrow> mem" where
  "bg_set_cnt lo hi bg sb cnt =
     (let bg = put16 bg lo (ucast (drop_bit 16 (push_bit 16 cnt))) in
      if has_hi sb then put16 bg hi (ucast (drop_bit 16 cnt)) else bg)"

definition ext4_bg_get_block_bitmap :: "mem \<Rightarrow> mem \<Rightarrow> u64" where
  "ext4_bg_get_block_bitmap = bg_get_blk 0 32"
definition ext4_bg_set_block_bitmap :: "mem \<Rightarrow> mem \<Rightarrow> u64 \<Rightarrow> mem" where
  "ext4_bg_set_block_bitmap = bg_set_blk 0 32"
definition ext4_bg_get_inode_bitmap :: "mem \<Rightarrow> mem \<Rightarrow> u64" where
  "ext4_bg_get_inode_bitmap = bg_get_blk 4 36"
definition ext4_bg_set_inode_bitmap :: "mem \<Rightarrow> mem \<Rightarrow> u64 \<Rightarrow> mem" where
  "ext4_bg_set_inode_bitmap = bg_set_blk 4 36"
definition ext4_bg_get_inode_table_first_block :: "mem \<Rightarrow> mem \<Rightarrow> u64" where
  "ext4_bg_get_inode_table_first_block = bg_get_blk 8 40"
definition ext4_bg_set_inode_table_first_block :: "mem \<Rightarrow> mem \<Rightarrow> u64 \<Rightarrow> mem" where
  "ext4_bg_set_inode_table_first_block = bg_set_blk 8 40"
definition ext4_bg_get_free_blocks_count :: "mem \<Rightarrow> mem \<Rightarrow> u32" where
  "ext4_bg_get_free_blocks_count = bg_get_cnt 12 44"
definition ext4_bg_set_free_blocks_count :: "mem \<Rightarrow> mem \<Rightarrow> u32 \<Rightarrow> mem" where
  "ext4_bg_set_free_blocks_count = bg_set_cnt 12 44"
definition ext4_bg_get_free_inodes_count :: "mem \<Rightarrow> mem \<Rightarrow> u32" where
  "ext4_bg_get_free_inodes_count = bg_get_cnt 14 46"
definition ext4_bg_set_free_inodes_count :: "mem \<Rightarrow> mem \<Rightarrow> u32 \<Rightarrow> mem" where
  "ext4_bg_set_free_inodes_count = bg_set_cnt 14 46"
definition ext4_bg_get_used_dirs_count :: "mem \<Rightarrow> mem \<Rightarrow> u32" where
  "ext4_bg_get_used_dirs_count = bg_get_cnt 16 48"
definition ext4_bg_set_used_dirs_count :: "mem \<Rightarrow> mem \<Rightarrow> u32 \<Rightarrow> mem" where
  "ext4_bg_set_used_dirs_count = bg_set_cnt 16 48"
definition ext4_bg_get_itable_unused :: "mem \<Rightarrow> mem \<Rightarrow> u32" where
  "ext4_bg_get_itable_unused = bg_get_cnt 28 50"
definition ext4_bg_set_itable_unused :: "mem \<Rightarrow> mem \<Rightarrow> u32 \<Rightarrow> mem" where
  "ext4_bg_set_itable_unused = bg_set_cnt 28 50"

definition ext4_bg_set_checksum :: "mem \<Rightarrow> u16 \<Rightarrow> mem" where
  "ext4_bg_set_checksum bg crc = put16 bg 30 crc"

definition ext4_bg_has_flag :: "mem \<Rightarrow> u16 \<Rightarrow> bool" where
  "ext4_bg_has_flag bg f \<longleftrightarrow> get16 bg 18 AND f \<noteq> 0"
definition ext4_bg_set_flag :: "mem \<Rightarrow> u16 \<Rightarrow> mem" where
  "ext4_bg_set_flag bg f = put16 bg 18 (get16 bg 18 OR f)"
definition ext4_bg_clear_flag :: "mem \<Rightarrow> u16 \<Rightarrow> mem" where
  "ext4_bg_clear_flag bg f = put16 bg 18 (get16 bg 18 AND NOT f)"

subsection \<open>Addresses and groups\<close>

text \<open>The products are computed in 32 bits, except in \<open>ext4_fs_first_bg_block_no\<close>.\<close>

definition ext4_fs_addr_to_idx_bg :: "mem \<Rightarrow> u64 \<Rightarrow> u32 option" where
  "ext4_fs_addr_to_idx_bg sb baddr =
     (let baddr = (if first_data_block sb \<noteq> 0 \<and> baddr \<noteq> 0 then baddr - 1 else baddr) in
      if blocks_per_group sb = 0 then None else Some (ucast (baddr mod ucast (blocks_per_group sb))))"

definition ext4_fs_bg_idx_to_addr :: "mem \<Rightarrow> u32 \<Rightarrow> u32 \<Rightarrow> u64" where
  "ext4_fs_bg_idx_to_addr sb index bgid =
     (let index = (if first_data_block sb \<noteq> 0 then index + 1 else index) in
      ucast (blocks_per_group sb * bgid + index))"

definition ext4_fs_first_bg_block_no :: "mem \<Rightarrow> u32 \<Rightarrow> u64" where
  "ext4_fs_first_bg_block_no sb bgid =
     ucast bgid * ucast (blocks_per_group sb) + ucast (first_data_block sb)"

definition ext4_balloc_get_bgid_of_block :: "mem \<Rightarrow> u64 \<Rightarrow> u32 option" where
  "ext4_balloc_get_bgid_of_block sb baddr =
     (let baddr = (if first_data_block sb \<noteq> 0 \<and> baddr \<noteq> 0 then baddr - 1 else baddr) in
      if blocks_per_group sb = 0 then None else Some (ucast (baddr div ucast (blocks_per_group sb))))"

definition ext4_balloc_get_block_of_bgid :: "mem \<Rightarrow> u32 \<Rightarrow> u64" where
  "ext4_balloc_get_block_of_bgid sb bgid =
     (if first_data_block sb \<noteq> 0 then 1 else 0) + ucast (bgid * blocks_per_group sb)"

definition ext4_ialloc_inode_to_bgidx :: "mem \<Rightarrow> u32 \<Rightarrow> u32 option" where
  "ext4_ialloc_inode_to_bgidx sb inode =
     (if inodes_per_group sb = 0 then None else Some ((inode - 1) mod inodes_per_group sb))"

definition ext4_ialloc_bgidx_to_inode :: "mem \<Rightarrow> u32 \<Rightarrow> u32 \<Rightarrow> u32" where
  "ext4_ialloc_bgidx_to_inode sb index bgid = bgid * inodes_per_group sb + (index + 1)"

definition ext4_ialloc_get_bgid_of_inode :: "mem \<Rightarrow> u32 \<Rightarrow> u32 option" where
  "ext4_ialloc_get_bgid_of_inode sb inode =
     (if inodes_per_group sb = 0 then None else Some ((inode - 1) div inodes_per_group sb))"

definition ext4_block_in_group :: "mem \<Rightarrow> u64 \<Rightarrow> u32 \<Rightarrow> bool option" where
  "ext4_block_in_group sb baddr bgid = map_option (\<lambda>g. g = bgid) (ext4_balloc_get_bgid_of_block sb baddr)"

definition ext4_fs_get_descriptor_block :: "mem \<Rightarrow> u32 \<Rightarrow> u32 \<Rightarrow> u64 option" where
  "ext4_fs_get_descriptor_block sb bgid dsc =
     (if dsc = 0 then None
      else let dsc_id = bgid div dsc; meta_bg = ext4_sb_feature_incom sb EXT4_FINCOM_META_BG in
      if \<not> meta_bg \<or> dsc_id < ext4_sb_first_meta_bg sb
      then Some (ucast (first_data_block sb + dsc_id + 1))
      else do {
        has_super \<leftarrow> ext4_sb_is_super_in_bg sb bgid;
        Some ((if has_super then 1 else 0) + ext4_fs_first_bg_block_no sb bgid) })"

subsection \<open>Checksums\<close>

definition ext4_fs_bg_checksum :: "mem \<Rightarrow> u32 \<Rightarrow> mem \<Rightarrow> u16" where
  "ext4_fs_bg_checksum sb bgid bg =
     (let dsize = unat (ext4_sb_get_desc_size sb) in
      if ext4_sb_feature_ro_com sb EXT4_FRO_COM_METADATA_CSUM then
        ucast (ext4_crc32c (ext4_crc32c (ext4_crc32c EXT4_CRC32_INIT (uuid sb)) (le32 bgid))
          (mem_get (put16 bg 30 0) 0 dsize))
      else if ext4_sb_feature_ro_com sb EXT4_FRO_COM_GDT_CSUM then
        let crc = ext4_bg_crc16 (ext4_bg_crc16 (ext4_bg_crc16 (- 1) (uuid sb)) (le32 bgid)) (mem_get bg 0 30) in
        if ext4_sb_feature_incom sb EXT4_FINCOM_64BIT \<and> 32 < dsize
        then ext4_bg_crc16 crc (mem_get bg 32 (dsize - 32)) else crc
      else 0)"

definition ext4_fs_verify_bg_csum :: "mem \<Rightarrow> u32 \<Rightarrow> mem \<Rightarrow> bool" where
  "ext4_fs_verify_bg_csum sb bgid bg \<longleftrightarrow>
     (if \<not> ext4_sb_feature_ro_com sb EXT4_FRO_COM_METADATA_CSUM then True
      else ext4_fs_bg_checksum sb bgid bg = get16 bg 30)"

definition ext4_balloc_bitmap_csum :: "mem \<Rightarrow> mem \<Rightarrow> u32" where
  "ext4_balloc_bitmap_csum sb bitmap =
     (if ext4_sb_feature_ro_com sb EXT4_FRO_COM_METADATA_CSUM
      then ext4_crc32c (ext4_crc32c EXT4_CRC32_INIT (uuid sb)) (mem_get bitmap 0 (unat (blocks_per_group sb div 8)))
      else 0)"

definition ext4_balloc_set_bitmap_csum :: "mem \<Rightarrow> mem \<Rightarrow> mem \<Rightarrow> mem" where
  "ext4_balloc_set_bitmap_csum sb bg bitmap =
     (let csum = ext4_balloc_bitmap_csum sb bitmap in
      if \<not> ext4_sb_feature_ro_com sb EXT4_FRO_COM_METADATA_CSUM then bg
      else let bg = put16 bg 24 (ucast csum) in
      if ext4_sb_get_desc_size sb = 64 then put16 bg 56 (ucast (drop_bit 16 csum)) else bg)"

definition ext4_balloc_verify_bitmap_csum :: "mem \<Rightarrow> mem \<Rightarrow> mem \<Rightarrow> bool" where
  "ext4_balloc_verify_bitmap_csum sb bg bitmap \<longleftrightarrow>
     (let csum = ext4_balloc_bitmap_csum sb bitmap in
      if \<not> ext4_sb_feature_ro_com sb EXT4_FRO_COM_METADATA_CSUM then True
      else if get16 bg 24 \<noteq> ucast csum then False
      else if ext4_sb_get_desc_size sb = 64 then get16 bg 56 = ucast (drop_bit 16 csum) else True)"

definition ext4_ialloc_bitmap_csum :: "mem \<Rightarrow> mem \<Rightarrow> u32" where
  "ext4_ialloc_bitmap_csum sb bitmap =
     (if ext4_sb_feature_ro_com sb EXT4_FRO_COM_METADATA_CSUM
      then ext4_crc32c (ext4_crc32c EXT4_CRC32_INIT (uuid sb)) (mem_get bitmap 0 (unat ((inodes_per_group sb + 7) div 8)))
      else 0)"

definition ext4_ialloc_set_bitmap_csum :: "mem \<Rightarrow> mem \<Rightarrow> mem \<Rightarrow> mem" where
  "ext4_ialloc_set_bitmap_csum sb bg bitmap =
     (let csum = ext4_ialloc_bitmap_csum sb bitmap in
      if \<not> ext4_sb_feature_ro_com sb EXT4_FRO_COM_METADATA_CSUM then bg
      else let bg = put16 bg 26 (ucast csum) in
      if ext4_sb_get_desc_size sb = 64 then put16 bg 58 (ucast (drop_bit 16 csum)) else bg)"

definition ext4_ialloc_verify_bitmap_csum :: "mem \<Rightarrow> mem \<Rightarrow> mem \<Rightarrow> bool" where
  "ext4_ialloc_verify_bitmap_csum sb bg bitmap \<longleftrightarrow>
     (let csum = ext4_ialloc_bitmap_csum sb bitmap in
      if \<not> ext4_sb_feature_ro_com sb EXT4_FRO_COM_METADATA_CSUM then True
      else if get16 bg 26 \<noteq> ucast csum then False
      else if ext4_sb_get_desc_size sb = 64 then get16 bg 58 = ucast (drop_bit 16 csum) else True)"

text \<open>The checksum of an inode is computed with its own field set to 0.\<close>

definition ext4_fs_inode_checksum :: "mem \<Rightarrow> u32 \<Rightarrow> mem \<Rightarrow> u32" where
  "ext4_fs_inode_checksum sb index inode =
     (if ext4_sb_feature_ro_com sb EXT4_FRO_COM_METADATA_CSUM then
        let csum = ext4_crc32c (ext4_crc32c (ext4_crc32c (ext4_crc32c EXT4_CRC32_INIT (uuid sb)) (le32 index))
              (le32 (ext4_inode_get_generation inode)))
              (mem_get (ext4_inode_set_csum sb inode 0) 0 (unat (inode_size sb))) in
        if inode_size sb = EXT4_GOOD_OLD_INODE_SIZE then csum AND 0xFFFF else csum
      else 0)"

definition ext4_fs_set_inode_checksum :: "mem \<Rightarrow> u32 \<Rightarrow> mem \<Rightarrow> mem" where
  "ext4_fs_set_inode_checksum sb index inode =
     (if \<not> ext4_sb_feature_ro_com sb EXT4_FRO_COM_METADATA_CSUM then inode
      else ext4_inode_set_csum sb inode (ext4_fs_inode_checksum sb index inode))"

definition ext4_fs_verify_inode_csum :: "mem \<Rightarrow> u32 \<Rightarrow> mem \<Rightarrow> bool" where
  "ext4_fs_verify_inode_csum sb index inode \<longleftrightarrow>
     (if \<not> ext4_sb_feature_ro_com sb EXT4_FRO_COM_METADATA_CSUM then True
      else ext4_inode_get_csum sb inode = ext4_fs_inode_checksum sb index inode)"

section \<open>Properties\<close>

lemma bg_idx_addr_small: "unat (ext4_fs_bg_idx_to_addr sb idx bgid) < 2 ^ 32"
  unfolding ext4_fs_bg_idx_to_addr_def Let_def unat_ucast_mod
  using unat_less[of "blocks_per_group sb * bgid + (if first_data_block sb \<noteq> 0 then idx + 1 else idx)"]
  by (auto intro: order_le_less_trans[OF mod_less_eq_dividend])

text \<open>The address of a block is the address computed from its group and its index in the group
  exactly if it fits 32 bits: on larger volumes the product of group number and group size wraps
  around.\<close>

theorem block_address_roundtrip:
  assumes "blocks_per_group sb \<noteq> 0" "first_data_block sb \<noteq> 0 \<longrightarrow> baddr \<noteq> 0"
  shows "\<exists>idx bgid. ext4_fs_addr_to_idx_bg sb baddr = Some idx \<and> ext4_balloc_get_bgid_of_block sb baddr = Some bgid \<and>
    (ext4_fs_bg_idx_to_addr sb idx bgid = baddr \<longleftrightarrow> baddr \<le> 0xffffffff)"
proof -
  let ?n = "blocks_per_group sb" and ?b = "if first_data_block sb \<noteq> 0 then baddr - 1 else baddr"
  let ?idx = "ucast (?b mod ucast ?n) :: u32" and ?bg = "ucast (?b div ucast ?n) :: u32"
  have e: "ext4_fs_addr_to_idx_bg sb baddr = Some ?idx" "ext4_balloc_get_bgid_of_block sb baddr = Some ?bg"
    using assms by (auto simp: ext4_fs_addr_to_idx_bg_def ext4_balloc_get_bgid_of_block_def)
  have "ext4_fs_bg_idx_to_addr sb ?idx ?bg = baddr" if small: "baddr \<le> 0xffffffff"
  proof -
    have "1 \<le> unat baddr" if "first_data_block sb \<noteq> 0" using assms(2) that by (simp add: Suc_le_eq unat_gt_0)
    then have b: "unat ?b < 2 ^ 32" "unat baddr < 2 ^ 32" using small by (auto simp: word_le_nat_alt unat_sub_if')
    have idx: "unat ?idx = unat ?b mod unat ?n" "unat ?bg = unat ?b div unat ?n"
      using b(1) by (simp_all add: unat_ucast_mod unat_mod unat_div order_le_less_trans[OF mod_less_eq_dividend]
          order_le_less_trans[OF div_le_dividend])
    have le: "unat ?n * unat ?bg + unat ?idx = unat ?b" unfolding idx by simp
    have sum: "unat (?n * ?bg + ?idx) = unat ?b"
      unfolding unat_word_ariths using le b(1) by (simp add: mod_add_left_eq)
    show ?thesis
    proof (cases "first_data_block sb = 0")
      case True
      with sum show ?thesis
        by (simp add: ext4_fs_bg_idx_to_addr_def word_unat_eq_iff[of _ baddr] unat_ucast_mod b(2))
    next
      case False
      then have b1: "unat (baddr - 1) + 1 = unat baddr" using assms(2) by (simp add: unat_minus_one unat_gt_0 Suc_leI)
      then have "unat (?n * ?bg + ?idx + 1) = unat baddr"
        using sum False unat_Suc_bound[of "?n * ?bg + ?idx"] b(2) by simp
      with False show ?thesis
        by (simp add: ext4_fs_bg_idx_to_addr_def word_unat_eq_iff[of _ baddr] unat_ucast_mod b(2) add.assoc)
    qed
  qed
  moreover have "baddr \<le> 0xffffffff" if "ext4_fs_bg_idx_to_addr sb ?idx ?bg = baddr"
    using bg_idx_addr_small[of sb ?idx ?bg] unfolding that by (simp add: word_le_nat_alt)
  ultimately show ?thesis using e by blast
qed

theorem block_address_roundtrip_witness:
  "\<exists>idx bgid. ext4_fs_addr_to_idx_bg (\<lambda>i. if i = 33 then 0x80 else 0) 70000 = Some idx \<and>
    ext4_balloc_get_bgid_of_block (\<lambda>i. if i = 33 then 0x80 else 0) 70000 = Some bgid \<and>
    (ext4_fs_bg_idx_to_addr (\<lambda>i. if i = 33 then 0x80 else 0) idx bgid = 70000 \<longleftrightarrow> (70000 :: u64) \<le> 0xffffffff)"
  by (rule block_address_roundtrip) (simp_all add: blocks_per_group_def first_data_block_def get32_def of_le32_def)

text \<open>Inode numbers and positions in a group: the number computed from the group and the
  index of an inode is the inode.\<close>

theorem inode_number_roundtrip:
  assumes "inodes_per_group sb \<noteq> 0"
  shows "\<exists>idx bgid. ext4_ialloc_inode_to_bgidx sb inode = Some idx \<and> ext4_ialloc_get_bgid_of_inode sb inode = Some bgid \<and>
    idx < inodes_per_group sb \<and> ext4_ialloc_bgidx_to_inode sb idx bgid = inode"
proof -
  let ?n = "inodes_per_group sb"
  have "(inode - 1) div ?n * ?n + (inode - 1) mod ?n = inode - 1" by (simp add: word_mod_div_equality)
  then have "(inode - 1) div ?n * ?n + ((inode - 1) mod ?n + 1) = inode" by (simp add: add.assoc[symmetric])
  moreover have "(inode - 1) mod ?n < ?n"
    using assms by (simp add: word_less_nat_alt unat_mod unat_gt_0)
  ultimately show ?thesis
    using assms by (simp add: ext4_ialloc_inode_to_bgidx_def ext4_ialloc_get_bgid_of_inode_def ext4_ialloc_bgidx_to_inode_def)
qed

theorem inode_number_roundtrip_witness:
  "\<exists>idx bgid. ext4_ialloc_inode_to_bgidx (\<lambda>i. if i = 40 then 16 else 0) 12 = Some idx \<and>
    ext4_ialloc_get_bgid_of_inode (\<lambda>i. if i = 40 then 16 else 0) 12 = Some bgid \<and>
    idx < inodes_per_group (\<lambda>i. if i = 40 then 16 else 0) \<and>
    ext4_ialloc_bgidx_to_inode (\<lambda>i. if i = 40 then 16 else 0) idx bgid = 12"
  by (rule inode_number_roundtrip) (simp add: inodes_per_group_def get32_def of_le32_def)

text \<open>Where the checksum of an inode is stored, and what zeroing it for the computation erases.\<close>

lemma big_inode: "132 \<le> unat (inode_size sb) \<Longrightarrow> inode_size sb > EXT4_GOOD_OLD_INODE_SIZE"
  by (simp add: EXT4_GOOD_OLD_INODE_SIZE_def word_less_nat_alt)

lemma set_csum_nth:
  assumes "132 \<le> unat (inode_size sb)"
  shows "ext4_inode_set_csum sb inode c i =
    (if i = 124 then ucast c else if i = 125 then ucast (drop_bit 8 c) else if i = 130 then ucast (drop_bit 16 c)
     else if i = 131 then ucast (drop_bit 24 c) else inode i)"
  using big_inode[OF assms]
  by (auto simp: ext4_inode_set_csum_def put16_def mem_put_def nth_Cons' bit_simps intro!: bit_word_eqI)

lemma get_csum_bytes:
  assumes "132 \<le> unat (inode_size sb)"
  shows "ext4_inode_get_csum sb inode = of_le32 (inode 124) (inode 125) (inode 130) (inode 131)"
  using big_inode[OF assms]
  by (auto simp: ext4_inode_get_csum_def get16_def wire_defs bit_simps intro!: bit_word_eqI)

lemma get_set_csum:
  assumes "132 \<le> unat (inode_size sb)"
  shows "ext4_inode_get_csum sb (ext4_inode_set_csum sb inode c) = c"
  using of_le32_le32[of c] unfolding get_csum_bytes[OF assms] set_csum_nth[OF assms] by (simp add: le32_def)

lemma inode_checksum_cong:
  assumes "132 \<le> unat (inode_size sb)" "\<And>i. i \<notin> {124, 125, 130, 131} \<Longrightarrow> inode' i = inode i"
  shows "ext4_fs_inode_checksum sb index inode' = ext4_fs_inode_checksum sb index inode"
proof -
  have "ext4_inode_set_csum sb inode' 0 = ext4_inode_set_csum sb inode 0"
    using assms(2) by (auto simp: fun_eq_iff set_csum_nth[OF assms(1)])
  moreover have "ext4_inode_get_generation inode' = ext4_inode_get_generation inode"
    using assms(2) by (simp add: ext4_inode_get_generation_def get32_def)
  ultimately show ?thesis by (simp add: ext4_fs_inode_checksum_def)
qed

text \<open>C40. What \<open>ext4_fs_set_inode_checksum\<close> writes, \<open>ext4_fs_verify_inode_csum\<close> accepts; and after a
  change of a single byte of the inode, the checksum included, it is rejected (the generation apart,
  which enters the checksum twice). For inodes that hold the full checksum.\<close>

theorem inode_checksum:
  assumes "ext4_sb_feature_ro_com sb EXT4_FRO_COM_METADATA_CSUM" "132 \<le> unat (inode_size sb)"
    and "i < unat (inode_size sb)" "i \<notin> {100, 101, 102, 103}" "v \<noteq> ext4_fs_set_inode_checksum sb index inode i"
  shows "ext4_fs_verify_inode_csum sb index (ext4_fs_set_inode_checksum sb index inode) \<and>
    \<not> ext4_fs_verify_inode_csum sb index ((ext4_fs_set_inode_checksum sb index inode)(i := v))"
proof -
  let ?c = "ext4_fs_inode_checksum sb index inode" and ?m = "ext4_fs_set_inode_checksum sb index inode"
  have m: "?m = ext4_inode_set_csum sb inode ?c" using assms(1) by (simp add: ext4_fs_set_inode_checksum_def)
  have get: "ext4_inode_get_csum sb ?m = ?c" unfolding m by (rule get_set_csum[OF assms(2)])
  have same: "ext4_fs_inode_checksum sb index ?m = ?c"
    unfolding m by (rule inode_checksum_cong[OF assms(2)]) (simp add: set_csum_nth[OF assms(2)])
  have "ext4_inode_get_csum sb (?m(i := v)) \<noteq> ext4_fs_inode_checksum sb index (?m(i := v))"
  proof (cases "i \<in> {124, 125, 130, 131}")
    case True
    then have "ext4_fs_inode_checksum sb index (?m(i := v)) = ?c"
      unfolding same[symmetric] by (intro inode_checksum_cong[OF assms(2)]) auto
    moreover have "ext4_inode_get_csum sb (?m(i := v)) \<noteq> ext4_inode_get_csum sb ?m"
      using True assms(5) unfolding get_csum_bytes[OF assms(2)] of_le32_inject by auto
    ultimately show ?thesis using get by simp
  next
    case False
    let ?z = "mem_get (ext4_inode_set_csum sb ?m 0) 0 (unat (inode_size sb))"
    have "ext4_inode_set_csum sb (?m(i := v)) 0 = (ext4_inode_set_csum sb ?m 0)(i := v)"
      using False by (auto simp: fun_eq_iff set_csum_nth[OF assms(2)])
    then have z: "mem_get (ext4_inode_set_csum sb (?m(i := v)) 0) 0 (unat (inode_size sb)) = ?z[i := v]"
      using assms(3) by (simp add: mem_get_update)
    have "ext4_inode_get_generation (?m(i := v)) = ext4_inode_get_generation ?m"
      using assms(4) by (simp add: ext4_inode_get_generation_def get32_def)
    moreover have "?z ! i \<noteq> v" using False assms(3,5) by (simp add: set_csum_nth[OF assms(2)])
    moreover have "inode_size sb \<noteq> EXT4_GOOD_OLD_INODE_SIZE" using big_inode[OF assms(2)] by simp
    ultimately have "ext4_fs_inode_checksum sb index (?m(i := v)) \<noteq> ext4_fs_inode_checksum sb index ?m"
      using assms(1,3) crc32c.foldl_single_change[of i ?z v] by (simp add: ext4_fs_inode_checksum_def z ext4_crc32c_foldl)
    moreover have "ext4_inode_get_csum sb (?m(i := v)) = ext4_inode_get_csum sb ?m"
      using False by (simp add: get_csum_bytes[OF assms(2)])
    ultimately show ?thesis using get same by simp
  qed
  then show ?thesis using assms(1) get same by (simp add: ext4_fs_verify_inode_csum_def)
qed

theorem inode_checksum_witness:
  "ext4_fs_verify_inode_csum (\<lambda>i. if i = 89 then 1 else if i = 101 then 4 else 0) 12
      (ext4_fs_set_inode_checksum (\<lambda>i. if i = 89 then 1 else if i = 101 then 4 else 0) 12 (\<lambda>_. 7)) \<and>
    \<not> ext4_fs_verify_inode_csum (\<lambda>i. if i = 89 then 1 else if i = 101 then 4 else 0) 12
      ((ext4_fs_set_inode_checksum (\<lambda>i. if i = 89 then 1 else if i = 101 then 4 else 0) 12 (\<lambda>_. 7))(4 := 8))"
proof (rule inode_checksum)
  let ?sb = "\<lambda>i :: nat. if i = 89 then 1 else if i = 101 then 4 else 0 :: byte"
  show big: "132 \<le> unat (inode_size ?sb)" by (simp add: inode_size_def get16_def wire_defs)
  show csum: "ext4_sb_feature_ro_com ?sb EXT4_FRO_COM_METADATA_CSUM"
    by (simp add: ext4_sb_feature_ro_com_def features_read_only_def get32_def of_le32_def EXT4_FRO_COM_METADATA_CSUM_def)
  show "8 \<noteq> ext4_fs_set_inode_checksum ?sb 12 (\<lambda>_. 7) 4"
    using csum by (simp add: ext4_fs_set_inode_checksum_def set_csum_nth[OF big])
qed (simp_all add: inode_size_def get16_def wire_defs)

end
