(* ===== verification/Ext4_Bitmap.thy ===== *)
theory Ext4_Bitmap
  imports Prelude
begin

text \<open>
  lwext4/src/ext4_bitmap.c and the accessors of ext4_bitmap.h: clearing a range of bits and
  searching a clear bit in a block or inode bitmap. The 32- and 16-bit loops are not compiled
  (\<open>CONFIG_UNALIGNED_ACCESS\<close> is 0). A bitmap is a byte memory; \<open>bmap\<close> is the offset the
  pointer of the same name has reached.
\<close>

section \<open>Definitions\<close>

definition ENOSPC :: int where "ENOSPC = 28"

definition ext4_bmap_bit_set :: "mem \<Rightarrow> nat \<Rightarrow> u32 \<Rightarrow> mem" where
  "ext4_bmap_bit_set m bmap b =
     (let a = bmap + unat (drop_bit 3 b) in m(a := m a OR push_bit (unat (b AND 7)) 1))"

definition ext4_bmap_bit_clr :: "mem \<Rightarrow> nat \<Rightarrow> u32 \<Rightarrow> mem" where
  "ext4_bmap_bit_clr m bmap b =
     (let a = bmap + unat (drop_bit 3 b) in m(a := m a AND NOT (push_bit (unat (b AND 7)) 1)))"

definition ext4_bmap_is_bit_set :: "mem \<Rightarrow> nat \<Rightarrow> u32 \<Rightarrow> bool" where
  "ext4_bmap_is_bit_set m bmap b \<longleftrightarrow> m (bmap + unat (drop_bit 3 b)) AND push_bit (unat (b AND 7)) 1 \<noteq> 0"

definition ext4_bmap_is_bit_clr :: "mem \<Rightarrow> nat \<Rightarrow> u32 \<Rightarrow> bool" where
  "ext4_bmap_is_bit_clr m bmap b \<longleftrightarrow> \<not> ext4_bmap_is_bit_set m bmap b"

text \<open>The three loops of \<open>ext4_bmap_bits_free\<close>: bits up to a byte boundary (the result says
  whether the function returned there), whole bytes, and the remaining bits.\<close>

function free_head :: "u32 \<Rightarrow> u32 \<Rightarrow> mem \<Rightarrow> bool \<times> u32 \<times> u32 \<times> mem" where
  "free_head i bcnt m =
     (if i AND 7 = 0 then (False, i, bcnt, m)
      else if bcnt = 0 then (True, i, bcnt, m)
      else free_head (i + 1) (bcnt - 1) (ext4_bmap_bit_clr m 0 i))"
  by pat_completeness auto
termination
  by (relation "measure (\<lambda>(i, bcnt, m). unat bcnt)") (auto simp: unat_minus_one unat_gt_0)

function free_bytes :: "nat \<Rightarrow> u32 \<Rightarrow> mem \<Rightarrow> nat \<times> u32 \<times> mem" where
  "free_bytes bmap bcnt m =
     (if bcnt \<ge> 8 then free_bytes (bmap + 1) (bcnt - 8) (m(bmap := 0)) else (bmap, bcnt, m))"
  by pat_completeness auto
termination
  by (relation "measure (\<lambda>(bmap, bcnt, m). unat bcnt)")
     (auto simp: word_le_nat_alt unat_sub)

function free_tail :: "nat \<Rightarrow> u32 \<Rightarrow> u32 \<Rightarrow> mem \<Rightarrow> mem" where
  "free_tail bmap i bcnt m =
     (if i < bcnt then free_tail bmap (i + 1) bcnt (ext4_bmap_bit_clr m bmap i) else m)"
  by pat_completeness auto
termination
  by (relation "measure (\<lambda>(bmap, i, bcnt, m). unat bcnt - unat i)") (auto simp: unat_Suc_less word_less_nat_alt)

declare free_head.simps [simp del] free_bytes.simps [simp del] free_tail.simps [simp del]

definition ext4_bmap_bits_free :: "mem \<Rightarrow> u32 \<Rightarrow> u32 \<Rightarrow> mem" where
  "ext4_bmap_bits_free m sbit bcnt =
     (case free_head sbit bcnt m of (ret, i, bcnt, m) \<Rightarrow>
        if ret then m
        else case free_bytes (unat (drop_bit 3 i)) bcnt m of (bmap, bcnt, m) \<Rightarrow>
          free_tail bmap 0 bcnt m)"

text \<open>The loops of \<open>ext4_bmap_bit_find_clr\<close>. The head loop stores the start of the search, not
  the bit it found.\<close>

function find_head :: "mem \<Rightarrow> u32 \<Rightarrow> u32 \<Rightarrow> u32 \<Rightarrow> u32 \<Rightarrow> (int \<times> u32) + (u32 \<times> u32)" where
  "find_head m sbit i bcnt bit_id =
     (if i AND 7 = 0 then Inr (i, bcnt)
      else if bcnt = 0 then Inl (ENOSPC, bit_id)
      else if ext4_bmap_is_bit_clr m 0 i then Inl (0, sbit)
      else find_head m sbit (i + 1) (bcnt - 1) bit_id)"
  by pat_completeness auto
termination
  by (relation "measure (\<lambda>(m, sbit, i, bcnt, bit_id). unat bcnt)") (auto simp: unat_minus_one unat_gt_0)

function find_bits :: "mem \<Rightarrow> nat \<Rightarrow> u32 \<Rightarrow> u32 \<Rightarrow> u32 \<Rightarrow> u32 option" where
  "find_bits m bmap sbit i n =
     (if i < n then
        (if ext4_bmap_is_bit_clr m bmap i then Some (sbit + i) else find_bits m bmap sbit (i + 1) n)
      else None)"
  by pat_completeness auto
termination
  by (relation "measure (\<lambda>(m, bmap, sbit, i, n). unat n - unat i)") (auto simp: unat_Suc_less word_less_nat_alt)

function find_bytes :: "mem \<Rightarrow> nat \<Rightarrow> u32 \<Rightarrow> u32 \<Rightarrow> u32 + (nat \<times> u32 \<times> u32)" where
  "find_bytes m bmap sbit bcnt =
     (if bcnt \<ge> 8 then
        (case (if m bmap \<noteq> 0xff then find_bits m bmap sbit 0 8 else None) of
           Some j \<Rightarrow> Inl j
         | None \<Rightarrow> find_bytes m (bmap + 1) (sbit + 8) (bcnt - 8))
      else Inr (bmap, sbit, bcnt))"
  by pat_completeness auto
termination
  by (relation "measure (\<lambda>(m, bmap, sbit, bcnt). unat bcnt)") (auto simp: word_le_nat_alt unat_sub)

declare find_head.simps [simp del] find_bits.simps [simp del] find_bytes.simps [simp del]

definition ext4_bmap_bit_find_clr :: "mem \<Rightarrow> u32 \<Rightarrow> u32 \<Rightarrow> u32 \<Rightarrow> int \<times> u32" where
  "ext4_bmap_bit_find_clr m sbit ebit bit_id =
     (case find_head m sbit sbit (ebit - sbit) bit_id of
        Inl res \<Rightarrow> res
      | Inr (sbit, bcnt) \<Rightarrow>
          (case find_bytes m (unat (drop_bit 3 sbit)) sbit bcnt of
             Inl j \<Rightarrow> (0, j)
           | Inr (bmap, sbit, bcnt) \<Rightarrow>
               (case find_bits m bmap sbit 0 bcnt of
                  Some j \<Rightarrow> (0, j)
                | None \<Rightarrow> (ENOSPC, bit_id))))"

section \<open>Bits of a bitmap\<close>

definition bmap_bit :: "mem \<Rightarrow> nat \<Rightarrow> bool" where
  "bmap_bit m j = bit (m (j div 8)) (j mod 8)"

lemma unat_and_7: "unat (i AND 7 :: u32) = unat i mod 8"
proof -
  have "i AND 7 = take_bit 3 i" by (simp add: take_bit_eq_mask mask_eq_exp_minus_1)
  then have "unat (i AND 7) = take_bit 3 (unat i)" by (simp only: unsigned_take_bit_eq)
  then show ?thesis by (simp only: take_bit_eq_mod) simp
qed

lemma unat_drop_3: "unat (drop_bit 3 i :: u32) = unat i div 8"
  by (simp add: drop_bit_eq_div unat_div)

lemma split_index: "j = 8 * b + i \<longleftrightarrow> j div 8 = b + i div 8 \<and> j mod 8 = i mod (8 :: nat)"
proof
  assume *: "j div 8 = b + i div 8 \<and> j mod 8 = i mod 8"
  have "j = 8 * (j div 8) + j mod 8" by simp
  also have "\<dots> = 8 * b + (8 * (i div 8) + i mod 8)" using * by simp
  finally show "j = 8 * b + i" by simp
qed simp

lemma div_8_iff: "j div 8 = b \<longleftrightarrow> 8 * b \<le> j \<and> j < 8 * b + (8 :: nat)"
  by auto

lemma is_bit_set_iff: "ext4_bmap_is_bit_set m b i = bmap_bit m (8 * b + unat i)"
proof -
  have "x AND push_bit k 1 \<noteq> 0 \<longleftrightarrow> bit x k" if "k < 8" for x :: byte and k
    using that by (simp add: and_exp_eq_0_iff_not_bit push_bit_eq_mult)
  then show ?thesis
    by (simp add: ext4_bmap_is_bit_set_def bmap_bit_def unat_and_7 unat_drop_3)
qed

lemma is_bit_clr_iff: "ext4_bmap_is_bit_clr m b i \<longleftrightarrow> \<not> bmap_bit m (8 * b + unat i)"
  by (simp add: ext4_bmap_is_bit_clr_def is_bit_set_iff)

lemma bit_clr_iff: "bmap_bit (ext4_bmap_bit_clr m b i) j \<longleftrightarrow> bmap_bit m j \<and> j \<noteq> 8 * b + unat i"
  unfolding split_index
  by (auto simp: ext4_bmap_bit_clr_def bmap_bit_def unat_and_7 unat_drop_3 Let_def bit_simps)

lemma bit_set_iff: "bmap_bit (ext4_bmap_bit_set m b i) j \<longleftrightarrow> bmap_bit m j \<or> j = 8 * b + unat i"
  unfolding split_index
  by (auto simp: ext4_bmap_bit_set_def bmap_bit_def unat_and_7 unat_drop_3 Let_def bit_simps)

section \<open>Freeing a range\<close>

lemma cleared_trans:
  "a \<le> b \<Longrightarrow> b \<le> c \<Longrightarrow> (P \<and> j \<notin> {a..<b}) \<and> j \<notin> {b..<c} \<longleftrightarrow> P \<and> j \<notin> {a..<c :: nat}"
  by auto

lemma free_head_ok:
  assumes "free_head i bcnt m = (ret, i', bcnt', m')" "unat i + unat bcnt < 2 ^ 32"
  shows "(if ret then bcnt' = 0 else unat i' mod 8 = 0) \<and> unat i \<le> unat i' \<and>
    unat i' + unat bcnt' = unat i + unat bcnt \<and>
    (\<forall>j. bmap_bit m' j \<longleftrightarrow> bmap_bit m j \<and> j \<notin> {unat i..<unat i'})"
  using assms
proof (induction i bcnt m rule: free_head.induct)
  case (1 i bcnt m)
  show ?case
  proof (cases "i AND 7 = 0 \<or> bcnt = 0")
    case True
    with 1(2) show ?thesis
      by (subst (asm) free_head.simps) (auto simp: unat_and_7[symmetric] split: if_splits)
  next
    case False
    then have b: "unat (bcnt - 1) = unat bcnt - 1" "0 < unat bcnt" by (auto simp: unat_minus_one unat_gt_0)
    have i: "unat (i + 1) = unat i + 1" using 1(3) b by (intro unat_Suc_bound) simp
    have e: "free_head (i + 1) (bcnt - 1) (ext4_bmap_bit_clr m 0 i) = (ret, i', bcnt', m')"
      using 1(2) False by (subst (asm) free_head.simps) simp
    have "unat (i + 1) + unat (bcnt - 1) < 2 ^ 32" using 1(3) i b by simp
    with 1(1)[OF _ _ e] False
    have IH: "if ret then bcnt' = 0 else unat i' mod 8 = 0" "unat i + 1 \<le> unat i'"
        "unat i' + unat bcnt' = unat i + 1 + (unat bcnt - 1)"
        "bmap_bit m' j \<longleftrightarrow> (bmap_bit m j \<and> j \<notin> {unat i..<unat i + 1}) \<and> j \<notin> {unat i + 1..<unat i'}" for j
      by (simp_all add: i b bit_clr_iff)
    have "bmap_bit m' j \<longleftrightarrow> bmap_bit m j \<and> j \<notin> {unat i..<unat i'}" for j
      unfolding IH(4) by (rule cleared_trans) (use IH(2) in simp_all)
    with IH(1-3) b(2) show ?thesis by auto
  qed
qed

lemma free_bytes_ok:
  assumes "free_bytes b bcnt m = (b', bcnt', m')"
  shows "b \<le> b' \<and> 8 * b' + unat bcnt' = 8 * b + unat bcnt \<and>
    (\<forall>j. bmap_bit m' j \<longleftrightarrow> bmap_bit m j \<and> j \<notin> {8 * b..<8 * b'})"
  using assms
proof (induction b bcnt m rule: free_bytes.induct)
  case (1 b bcnt m)
  show ?case
  proof (cases "bcnt \<ge> 8")
    case False
    with 1(2) show ?thesis by (subst (asm) free_bytes.simps) auto
  next
    case True
    have e: "free_bytes (b + 1) (bcnt - 8) (m(b := 0)) = (b', bcnt', m')"
      using 1(2) True by (subst (asm) free_bytes.simps) simp
    have z: "bmap_bit (m(b := 0)) j \<longleftrightarrow> bmap_bit m j \<and> j \<notin> {8 * b..<8 * b + 8}" for j
      using div_8_iff[of j b] by (auto simp: bmap_bit_def)
    have c: "unat (bcnt - 8) = unat bcnt - 8" "8 \<le> unat bcnt"
      using True by (simp_all add: unat_sub word_le_nat_alt)
    note IH = 1(1)[OF True e]
    have "bmap_bit m' j \<longleftrightarrow> (bmap_bit m j \<and> j \<notin> {8 * b..<8 * b + 8}) \<and> j \<notin> {8 * b + 8..<8 * b'}" for j
      using IH by (simp add: z add.commute del: fun_upd_apply atLeastLessThan_iff)
    then have "bmap_bit m' j \<longleftrightarrow> bmap_bit m j \<and> j \<notin> {8 * b..<8 * b'}" for j
      using IH by (subst (asm) cleared_trans) auto
    with IH c show ?thesis by auto
  qed
qed

lemma free_tail_ok:
  "bmap_bit (free_tail b i n m) j \<longleftrightarrow> bmap_bit m j \<and> j \<notin> {8 * b + unat i..<8 * b + unat n}"
proof (induction b i n m rule: free_tail.induct)
  case (1 b i n m)
  show ?case
  proof (cases "i < n")
    case True
    with 1[OF True] show ?thesis
      by (subst free_tail.simps) (auto simp: bit_clr_iff unat_Suc_less word_less_nat_alt)
  next
    case False
    then show ?thesis by (subst free_tail.simps) (auto simp: word_less_nat_alt)
  qed
qed

text \<open>C33. \<open>ext4_bmap_bits_free\<close> clears exactly the bits \<open>sbit\<close> to \<open>sbit + bcnt - 1\<close>, whatever
  their alignment, and no other bit of the bitmap.\<close>

theorem bits_free_correct:
  assumes "unat sbit + unat bcnt < 2 ^ 32"
  shows "bmap_bit (ext4_bmap_bits_free m sbit bcnt) j \<longleftrightarrow>
    bmap_bit m j \<and> j \<notin> {unat sbit..<unat sbit + unat bcnt}"
proof -
  obtain ret i c m1 where h: "free_head sbit bcnt m = (ret, i, c, m1)" by (metis prod_cases4)
  note H = free_head_ok[OF h assms]
  show ?thesis
  proof (cases ret)
    case True
    then have "unat i = unat sbit + unat bcnt" using H by auto
    with H True show ?thesis by (simp add: ext4_bmap_bits_free_def h)
  next
    case False
    obtain b c2 m2 where y: "free_bytes (unat (drop_bit 3 i)) c m1 = (b, c2, m2)" by (metis prod_cases3)
    have i8: "8 * unat (drop_bit 3 i) = unat i" using H False by (auto simp: unat_drop_3)
    note Y = free_bytes_ok[OF y, unfolded i8]
    have "unat i \<le> 8 * b" using Y i8 by linarith
    have "bmap_bit (ext4_bmap_bits_free m sbit bcnt) j \<longleftrightarrow>
        ((bmap_bit m j \<and> j \<notin> {unat sbit..<unat i}) \<and> j \<notin> {unat i..<8 * b}) \<and> j \<notin> {8 * b..<8 * b + unat c2}"
      using False H Y by (simp add: ext4_bmap_bits_free_def h y free_tail_ok del: atLeastLessThan_iff)
    also have "\<dots> \<longleftrightarrow> bmap_bit m j \<and> j \<notin> {unat sbit..<8 * b + unat c2}"
      using H \<open>unat i \<le> 8 * b\<close> by (subst cleared_trans, simp, simp, subst cleared_trans) auto
    also have "8 * b + unat c2 = unat sbit + unat bcnt" using H Y by linarith
    finally show ?thesis .
  qed
qed

theorem bits_free_correct_witness:
  "bmap_bit (ext4_bmap_bits_free (\<lambda>_. 0xff) 3 14) 16 \<longleftrightarrow>
    bmap_bit (\<lambda>_. 0xff) 16 \<and> 16 \<notin> {unat (3 :: u32)..<unat (3 :: u32) + unat (14 :: u32)}"
  by (rule bits_free_correct) simp

section \<open>Searching a clear bit\<close>

text \<open>The specification: the first clear bit of the range.\<close>

definition first_clear :: "mem \<Rightarrow> nat \<Rightarrow> nat \<Rightarrow> nat option" where
  "first_clear m a b = find (\<lambda>j. \<not> bmap_bit m j) [a..<b]"

lemma first_clear_step:
  "a < b \<Longrightarrow> first_clear m a b = (if bmap_bit m a then first_clear m (Suc a) b else Some a)"
  by (simp add: first_clear_def upt_conv_Cons)

lemma first_clear_empty: "b \<le> a \<Longrightarrow> first_clear m a b = None"
  by (simp add: first_clear_def)

lemma first_clear_append:
  assumes "a \<le> b" "b \<le> c"
  shows "first_clear m a c = (case first_clear m a b of Some j \<Rightarrow> Some j | None \<Rightarrow> first_clear m b c)"
proof -
  have "find P (xs @ ys) = (case find P xs of Some j \<Rightarrow> Some j | None \<Rightarrow> find P ys)" for P and xs ys :: "nat list"
    by (induction xs) auto
  moreover have "[a..<c] = [a..<b] @ [b..<c]" using assms by (metis le_Suc_ex upt_add_eq_append)
  ultimately show ?thesis unfolding first_clear_def by simp
qed

lemma find_bits_ok:
  assumes "unat sbit = 8 * b" "8 * b + unat n < 2 ^ 32"
  shows "find_bits m b sbit i n = map_option of_nat (first_clear m (8 * b + unat i) (8 * b + unat n))"
  using assms
proof (induction m b sbit i n rule: find_bits.induct)
  case (1 m b sbit i n)
  show ?case
  proof (cases "i < n")
    case True
    have "sbit + i = of_nat (8 * b + unat i)" by (simp add: 1(2)[symmetric] del: of_nat_mult)
    with True 1 show ?thesis
      by (subst find_bits.simps) (simp add: first_clear_step is_bit_clr_iff unat_Suc_less word_less_nat_alt)
  next
    case False
    then show ?thesis by (subst find_bits.simps) (simp add: first_clear_empty word_less_nat_alt)
  qed
qed

lemma full_byte: "m b = 0xff \<Longrightarrow> first_clear m (8 * b) (8 * b + 8) = None"
proof -
  assume m: "m b = 0xff"
  have "bmap_bit m j" if "8 * b \<le> j" "j < 8 * b + 8" for j
  proof -
    have "j div 8 = b" using that div_8_iff[of j b] by simp
    moreover have "bit (0xff :: byte) k" if "k < 8" for k
      using that mask_eq_exp_minus_1[of 8, where ?'a = byte] bit_mask_iff[of 8 k, where ?'a = byte] by simp
    ultimately show ?thesis by (simp add: bmap_bit_def m)
  qed
  then show ?thesis by (auto simp: first_clear_def find_None_iff)
qed

lemma find_bytes_ok:
  assumes "unat sbit = 8 * b" "8 * b + unat bcnt < 2 ^ 32"
  shows "case find_bytes m b sbit bcnt of
      Inl j \<Rightarrow> first_clear m (8 * b) (8 * b + unat bcnt) = Some (unat j)
    | Inr (b', sbit', bcnt') \<Rightarrow> unat sbit' = 8 * b' \<and> 8 * b' + unat bcnt' = 8 * b + unat bcnt \<and>
        first_clear m (8 * b) (8 * b + unat bcnt) = first_clear m (8 * b') (8 * b' + unat bcnt')"
  using assms
proof (induction m b sbit bcnt rule: find_bytes.induct)
  case (1 m b sbit bcnt)
  show ?case
  proof (cases "bcnt \<ge> 8")
    case False
    with 1 show ?thesis by (subst find_bytes.simps) simp
  next
    case True
    then have c: "8 \<le> unat bcnt" "unat (bcnt - 8) = unat bcnt - 8"
      by (simp_all add: word_le_nat_alt unat_sub)
    have sb: "unat (sbit + 8) = 8 * (b + 1)"
      using 1(2,3) c by (subst unat_add_lem[THEN iffD1]) auto
    let ?f = "first_clear m (8 * b) (8 * b + 8)"
    have f8: "(if m b \<noteq> 0xff then find_bits m b sbit 0 8 else None) = map_option of_nat ?f"
      using find_bits_ok[of sbit b 8 m 0] 1(2,3) c full_byte[of m b] by simp
    have app: "first_clear m (8 * b) (8 * b + unat bcnt) =
        (case ?f of Some j \<Rightarrow> Some j | None \<Rightarrow> first_clear m (8 * b + 8) (8 * b + unat bcnt))"
      using c by (intro first_clear_append) simp_all
    show ?thesis
    proof (cases ?f)
      case (Some j)
      then have "j < 8 * b + 8" by (auto simp: first_clear_def find_Some_iff)
      then have "unat (of_nat j :: u32) = j" using 1(3) c by (simp add: unat_of_nat)
      with True Some show ?thesis by (subst find_bytes.simps) (simp add: f8 app)
    next
      case None
      have e: "8 * (b + 1) + unat (bcnt - 8) = 8 * b + unat bcnt" "8 * (b + 1) = 8 * b + 8" using c by simp_all
      have step: "find_bytes m b sbit bcnt = find_bytes m (b + 1) (sbit + 8) (bcnt - 8)"
        using True f8 None by (subst find_bytes.simps) simp
      have none: "first_clear m (8 * b) (8 * b + unat bcnt) = first_clear m (8 * b + 8) (8 * b + unat bcnt)"
        by (simp add: app None)
      have "8 * (b + 1) + unat (bcnt - 8) < 2 ^ 32" using 1(3) e by simp
      from 1(1)[OF True _ sb this] f8 None show ?thesis
        unfolding step none e(1) unfolding e(2) by simp
    qed
  qed
qed

text \<open>C34. From a byte-aligned start, \<open>ext4_bmap_bit_find_clr\<close> returns \<open>EOK\<close> and the first clear
  bit of the range, or \<open>ENOSPC\<close> (and leaves \<open>bit_id\<close> alone) if all its bits are set.\<close>

theorem find_clr_aligned:
  assumes "sbit AND 7 = 0" "sbit \<le> ebit"
  shows "ext4_bmap_bit_find_clr m sbit ebit bit_id =
    (case first_clear m (unat sbit) (unat ebit) of Some j \<Rightarrow> (0, of_nat j) | None \<Rightarrow> (ENOSPC, bit_id))"
proof -
  have s8: "unat sbit = 8 * unat (drop_bit 3 sbit)"
    using assms(1) unat_and_7[of sbit] by (auto simp: unat_drop_3)
  have cnt: "unat sbit + unat (ebit - sbit) = unat ebit"
    using assms(2) by (simp add: unat_sub word_le_nat_alt)
  then have lt: "8 * unat (drop_bit 3 sbit) + unat (ebit - sbit) < 2 ^ 32"
    using unat_less[of ebit] s8 by simp
  have hd: "find_head m sbit sbit (ebit - sbit) bit_id = Inr (sbit, ebit - sbit)"
    using assms(1) by (subst find_head.simps) simp
  note B = find_bytes_ok[OF s8 lt, of m, folded s8, unfolded cnt]
  show ?thesis
  proof (cases "find_bytes m (unat (drop_bit 3 sbit)) sbit (ebit - sbit)")
    case (Inl j)
    with B show ?thesis by (simp add: ext4_bmap_bit_find_clr_def hd)
  next
    case (Inr r)
    obtain b' sbit' bcnt' where r: "r = (b', sbit', bcnt')" by (metis prod_cases3)
    with B Inr have R: "unat sbit' = 8 * b'" "8 * b' + unat bcnt' = unat ebit"
      "first_clear m (unat sbit) (unat ebit) = first_clear m (8 * b') (unat ebit)" by auto
    have "find_bits m b' sbit' 0 bcnt' = map_option of_nat (first_clear m (unat sbit) (unat ebit))"
      using find_bits_ok[of sbit' b' bcnt' m 0] R unat_less[of ebit] by simp
    with Inr r show ?thesis
      by (simp add: ext4_bmap_bit_find_clr_def hd split: option.splits)
  qed
qed

theorem find_clr_aligned_witness:
  "ext4_bmap_bit_find_clr (\<lambda>a. if a = 1 then 0xff else 0xfb) 8 30 7 =
    (case first_clear (\<lambda>a. if a = 1 then 0xff else 0xfb) (unat (8 :: u32)) (unat (30 :: u32)) of
       Some j \<Rightarrow> (0, of_nat j) | None \<Rightarrow> (ENOSPC, 7))"
  by (rule find_clr_aligned) simp_all

text \<open>From an unaligned start the function is wrong: if the start bit is set and the next one,
  in the same byte, is clear, it reports success and returns the start bit, which is in use.\<close>

theorem find_clr_unaligned:
  assumes "unat sbit mod 8 \<noteq> 0" "unat sbit mod 8 \<noteq> 7" "unat sbit + 1 < unat ebit"
    and "bmap_bit m (unat sbit)" "\<not> bmap_bit m (unat sbit + 1)"
  shows "ext4_bmap_bit_find_clr m sbit ebit bit_id = (0, sbit)"
proof -
  let ?n = "ebit - sbit"
  have s1: "unat (sbit + 1) = unat sbit + 1" using assms(3) unat_less[of ebit] by (intro unat_Suc_bound) simp
  have n: "unat ?n = unat ebit - unat sbit" using assms(3) by (simp add: unat_sub word_le_nat_alt)
  then have n0: "?n \<noteq> 0" "?n - 1 \<noteq> 0"
    using assms(3) by (auto simp: word_unat_eq_iff unat_minus_one)
  have a: "sbit AND 7 \<noteq> 0" "(sbit + 1) AND 7 \<noteq> 0"
  proof -
    show "sbit AND 7 \<noteq> 0" using assms(1) unat_and_7[of sbit] by auto
    have "(unat sbit + 1) mod 8 \<noteq> 0" using assms(2) by presburger
    then show "(sbit + 1) AND 7 \<noteq> 0" using unat_and_7[of "sbit + 1"] s1 by auto
  qed
  have "find_head m sbit (sbit + 1) (?n - 1) bit_id = Inl (0, sbit)"
    using a n0 assms(5) by (subst find_head.simps) (simp add: is_bit_clr_iff s1)
  then have "find_head m sbit sbit ?n bit_id = Inl (0, sbit)"
    using a n0 assms(4) by (subst find_head.simps) (simp add: is_bit_clr_iff)
  then show ?thesis by (simp add: ext4_bmap_bit_find_clr_def)
qed

theorem find_clr_unaligned_witness:
  "ext4_bmap_bit_find_clr (\<lambda>_. 0x0f) 3 8 0 = (0, 3)"
  by (rule find_clr_unaligned) (simp_all add: bmap_bit_def)

end
