(* ===== verification/Ext4_Bcache.thy ===== *)
theory Ext4_Bcache
  imports Ext4_Bdev
begin

text \<open>
  The block cache: lwext4/src/ext4_bcache.c with ext4_bcache.h, and the part of
  lwext4/src/ext4_blockdev.c that goes through the cache. A buffer pointer is the block
  address of the buffer; following one that is no longer in the cache has no result. The two
  red-black trees are modelled by their in-order sequences: \<open>lba_root\<close> holds every buffer
  under its address, \<open>lru_root\<close> the addresses of the unreferenced ones in the order of their LRU
  ids; removing a node that is not in a tree or on the dirty list has no result. What \<open>malloc\<close> returns
  for a new buffer is an argument \<open>fresh\<close>: nothing, or memory with arbitrary contents. The
  \<open>end_write\<close> callbacks are set only by the journal, which is not configured, and are left out.
\<close>

section \<open>Definitions\<close>

definition ENOMEM :: int where "ENOMEM = 12"

datatype bc_flag = BC_UPTODATE | BC_DIRTY | BC_FLUSH | BC_TMP

record ext4_buf =
  flags :: "bc_flag set"
  bdata :: "byte list"
  lru_id :: u32
  refctr :: u32
  on_dirty_list :: bool

record bcache =
  bc_cnt :: u32
  itemsize :: u32
  lru_ctr :: u32
  ref_blocks :: u32
  max_ref_blocks :: u32
  dont_shake :: bool
  lba_root :: "(u64 \<times> ext4_buf) list"
  lru_root :: "u64 list"
  dirty_list :: "u64 list"

text \<open>A handle, \<open>struct ext4_block\<close>; \<open>hbuf\<close> stands for the pointers \<open>buf\<close> and \<open>data\<close>.\<close>

record ext4_block =
  lb_id :: u64
  hbuf :: "u64 option"

text \<open>A block device together with the cache bound to it.\<close>

record 's cdev =
  bdv :: "'s bdev"
  bc :: bcache

subsection \<open>Buffers\<close>

definition upd_buf :: "u64 \<Rightarrow> (ext4_buf \<Rightarrow> ext4_buf) \<Rightarrow> bcache \<Rightarrow> bcache" where
  "upd_buf lba f c = c\<lparr>lba_root := map (\<lambda>(l, b). (l, if l = lba then f b else b)) (lba_root c)\<rparr>"

definition ext4_bcache_test_flag :: "ext4_buf \<Rightarrow> bc_flag \<Rightarrow> bool" where
  "ext4_bcache_test_flag b fl \<longleftrightarrow> fl \<in> flags b"

definition ext4_bcache_set_flag :: "bc_flag \<Rightarrow> ext4_buf \<Rightarrow> ext4_buf" where
  "ext4_bcache_set_flag fl b = b\<lparr>flags := insert fl (flags b)\<rparr>"

definition ext4_bcache_clear_flag :: "bc_flag \<Rightarrow> ext4_buf \<Rightarrow> ext4_buf" where
  "ext4_bcache_clear_flag fl b = b\<lparr>flags := flags b - {fl}\<rparr>"

definition ext4_bcache_set_dirty :: "ext4_buf \<Rightarrow> ext4_buf" where
  "ext4_bcache_set_dirty b = ext4_bcache_set_flag BC_DIRTY (ext4_bcache_set_flag BC_UPTODATE b)"

definition ext4_bcache_clear_dirty :: "ext4_buf \<Rightarrow> ext4_buf" where
  "ext4_bcache_clear_dirty b = ext4_bcache_clear_flag BC_DIRTY (ext4_bcache_clear_flag BC_UPTODATE b)"

definition ext4_bcache_inc_ref :: "ext4_buf \<Rightarrow> ext4_buf" where
  "ext4_bcache_inc_ref b = b\<lparr>refctr := refctr b + 1\<rparr>"

definition ext4_bcache_dec_ref :: "ext4_buf \<Rightarrow> ext4_buf" where
  "ext4_bcache_dec_ref b = b\<lparr>refctr := refctr b - 1\<rparr>"

subsection \<open>The trees and the list\<close>

text \<open>Insertion by address, and by LRU id: of two buffers with the same key the tree keeps
  the first.\<close>

fun lba_insert :: "u64 \<Rightarrow> ext4_buf \<Rightarrow> (u64 \<times> ext4_buf) list \<Rightarrow> (u64 \<times> ext4_buf) list" where
  "lba_insert lba b [] = [(lba, b)]"
| "lba_insert lba b ((l, c) # rest) =
     (if lba < l then (lba, b) # (l, c) # rest
      else if lba = l then (l, c) # rest
      else (l, c) # lba_insert lba b rest)"

fun lru_insert :: "(u64 \<Rightarrow> u32) \<Rightarrow> u64 \<Rightarrow> u64 list \<Rightarrow> u64 list" where
  "lru_insert key lba [] = [lba]"
| "lru_insert key lba (l # rest) =
     (if key lba < key l then lba # l # rest
      else if key lba = key l then l # rest
      else l # lru_insert key lba rest)"

definition ext4_buf_lookup :: "bcache \<Rightarrow> u64 \<Rightarrow> ext4_buf option" where
  "ext4_buf_lookup c lba = map_of (lba_root c) lba"

definition lru_key :: "bcache \<Rightarrow> u64 \<Rightarrow> u32" where
  "lru_key c lba = (case ext4_buf_lookup c lba of None \<Rightarrow> 0 | Some b \<Rightarrow> lru_id b)"

definition lru_remove :: "u64 \<Rightarrow> bcache \<Rightarrow> bcache option" where
  "lru_remove lba c =
     (if lba \<in> set (lru_root c) then Some (c\<lparr>lru_root := remove1 lba (lru_root c)\<rparr>) else None)"

definition ext4_buf_lowest_lru :: "bcache \<Rightarrow> u64 option" where
  "ext4_buf_lowest_lru c = (case lru_root c of [] \<Rightarrow> None | lba # _ \<Rightarrow> Some lba)"

definition ext4_bcache_insert_dirty_node :: "u64 \<Rightarrow> bcache \<Rightarrow> bcache option" where
  "ext4_bcache_insert_dirty_node lba c = do {
     b \<leftarrow> ext4_buf_lookup c lba;
     if on_dirty_list b then Some c
     else Some (upd_buf lba (\<lambda>b. b\<lparr>on_dirty_list := True\<rparr>) (c\<lparr>dirty_list := lba # dirty_list c\<rparr>)) }"

definition ext4_bcache_remove_dirty_node :: "u64 \<Rightarrow> bcache \<Rightarrow> bcache option" where
  "ext4_bcache_remove_dirty_node lba c = do {
     b \<leftarrow> ext4_buf_lookup c lba;
     if \<not> on_dirty_list b then Some c
     else if lba \<notin> set (dirty_list c) then None
     else Some (upd_buf lba (\<lambda>b. b\<lparr>on_dirty_list := False\<rparr>) (c\<lparr>dirty_list := remove1 lba (dirty_list c)\<rparr>)) }"

subsection \<open>Operations on the cache alone\<close>

definition ext4_bcache_init_dynamic :: "u32 \<Rightarrow> u32 \<Rightarrow> bcache option" where
  "ext4_bcache_init_dynamic cnt isize =
     (if cnt = 0 \<or> isize = 0 then None
      else Some \<lparr>bc_cnt = cnt, itemsize = isize, lru_ctr = 0, ref_blocks = 0, max_ref_blocks = 0,
             dont_shake = False, lba_root = [], lru_root = [], dirty_list = []\<rparr>)"

definition ext4_bcache_fini_dynamic :: "bcache \<Rightarrow> bcache" where
  "ext4_bcache_fini_dynamic c =
     \<lparr>bc_cnt = 0, itemsize = 0, lru_ctr = 0, ref_blocks = 0, max_ref_blocks = 0,
      dont_shake = False, lba_root = [], lru_root = [], dirty_list = []\<rparr>"

definition ext4_bcache_is_full :: "bcache \<Rightarrow> bool" where
  "ext4_bcache_is_full c \<longleftrightarrow> bc_cnt c \<le> ref_blocks c"

definition ext4_bcache_drop_buf :: "u64 \<Rightarrow> bcache \<Rightarrow> bcache option" where
  "ext4_bcache_drop_buf lba c = do {
     b \<leftarrow> ext4_buf_lookup c lba;
     c \<leftarrow> (if refctr b \<noteq> 0 then Some c else lru_remove lba c);
     c \<leftarrow> (if ext4_bcache_test_flag b BC_DIRTY then ext4_bcache_remove_dirty_node lba c else Some c);
     Some (c\<lparr>lba_root := filter (\<lambda>(l, b). l \<noteq> lba) (lba_root c), ref_blocks := ref_blocks c - 1\<rparr>) }"

definition ext4_bcache_invalidate_buf :: "u64 \<Rightarrow> bcache \<Rightarrow> bcache option" where
  "ext4_bcache_invalidate_buf lba c = do {
     b \<leftarrow> ext4_buf_lookup c lba;
     c \<leftarrow> (if ext4_bcache_test_flag b BC_DIRTY then ext4_bcache_remove_dirty_node lba c else Some c);
     Some (upd_buf lba ext4_bcache_clear_dirty c) }"

fun invalidate_from :: "u64 \<Rightarrow> u64 list \<Rightarrow> bcache \<Rightarrow> bcache option" where
  "invalidate_from last_lba [] c = Some c"
| "invalidate_from last_lba (lba # rest) c =
     (if lba > last_lba then Some c
      else Option.bind (ext4_bcache_invalidate_buf lba c) (invalidate_from last_lba rest))"

text \<open>The loop starts at the buffer of block \<open>from\<close> and does nothing when that is not cached.\<close>

definition ext4_bcache_invalidate_lba :: "u64 \<Rightarrow> u32 \<Rightarrow> bcache \<Rightarrow> bcache option" where
  "ext4_bcache_invalidate_lba from cnt c =
     (if ext4_buf_lookup c from = None then Some c
      else invalidate_from (from + ucast cnt - 1) (dropWhile (\<lambda>l. l \<noteq> from) (map fst (lba_root c))) c)"

definition ext4_bcache_find_get :: "u64 \<Rightarrow> bcache \<Rightarrow> (ext4_block option \<times> bcache) option" where
  "ext4_bcache_find_get lba c =
     (case ext4_buf_lookup c lba of
        None \<Rightarrow> Some (None, c)
      | Some b \<Rightarrow> do {
          c \<leftarrow> (if refctr b = 0 then do {
                 let c = c\<lparr>lru_ctr := lru_ctr c + 1\<rparr>;
                 let c = upd_buf lba (\<lambda>b. b\<lparr>lru_id := lru_ctr c\<rparr>) c;
                 c \<leftarrow> lru_remove lba c;
                 if ext4_bcache_test_flag b BC_DIRTY then ext4_bcache_remove_dirty_node lba c else Some c }
               else Some c);
          Some (Some \<lparr>lb_id = lba, hbuf = Some lba\<rparr>, upd_buf lba ext4_bcache_inc_ref c) })"

definition ext4_buf_alloc :: "byte list option \<Rightarrow> ext4_buf option" where
  "ext4_buf_alloc fresh =
     map_option (\<lambda>dat. \<lparr>flags = {}, bdata = dat, lru_id = 0, refctr = 0, on_dirty_list = False\<rparr>) fresh"

definition ext4_bcache_alloc ::
  "byte list option \<Rightarrow> ext4_block \<Rightarrow> bcache \<Rightarrow> (int \<times> ext4_block \<times> bool \<times> bcache) option" where
  "ext4_bcache_alloc fresh b c = do {
     (found, c) \<leftarrow> ext4_bcache_find_get (lb_id b) c;
     case found of
       Some b \<Rightarrow> Some (EOK, b, False, c)
     | None \<Rightarrow>
         (case ext4_buf_alloc fresh of
            None \<Rightarrow> Some (ENOMEM, b, False, c)
          | Some buf \<Rightarrow>
              let c = c\<lparr>lba_root := lba_insert (lb_id b) buf (lba_root c), ref_blocks := ref_blocks c + 1\<rparr>;
                  c = (if max_ref_blocks c < ref_blocks c then c\<lparr>max_ref_blocks := ref_blocks c\<rparr> else c);
                  c = upd_buf (lb_id b) ext4_bcache_inc_ref c;
                  c = c\<lparr>lru_ctr := lru_ctr c + 1\<rparr>;
                  c = upd_buf (lb_id b) (\<lambda>b. b\<lparr>lru_id := lru_ctr c\<rparr>) c in
              Some (EOK, b\<lparr>hbuf := Some (lb_id b)\<rparr>, True, c)) }"

subsection \<open>Operations on cache and device\<close>

definition ext4_block_flush_buf :: "'s bdif \<Rightarrow> u64 \<Rightarrow> 's cdev \<Rightarrow> (int \<times> 's cdev) option" where
  "ext4_block_flush_buf ops lba cd = do {
     b \<leftarrow> ext4_buf_lookup (bc cd) lba;
     if ext4_bcache_test_flag b BC_DIRTY \<and> ext4_bcache_test_flag b BC_UPTODATE then do {
       (r, bd) \<leftarrow> ext4_blocks_set_direct ops (bdata b) lba 1 (bdv cd);
       let cd = cd\<lparr>bdv := bd\<rparr>;
       if r \<noteq> 0 then Some (r, cd)
       else do {
         c \<leftarrow> ext4_bcache_remove_dirty_node lba (bc cd);
         Some (EOK, cd\<lparr>bc := upd_buf lba (ext4_bcache_clear_flag BC_DIRTY) c\<rparr>) } }
     else Some (EOK, cd) }"

definition ext4_bcache_free :: "'s bdif \<Rightarrow> ext4_block \<Rightarrow> 's cdev \<Rightarrow> (int \<times> ext4_block \<times> 's cdev) option" where
  "ext4_bcache_free ops h cd = do {
     if lb_id h = 0 then None
     else do {
       lba \<leftarrow> hbuf h;
       b \<leftarrow> ext4_buf_lookup (bc cd) lba;
       if refctr b = 0 then None
       else do {
         let cd = cd\<lparr>bc := upd_buf lba ext4_bcache_dec_ref (bc cd)\<rparr>;
         cd \<leftarrow> (if refctr b - 1 \<noteq> 0 then Some cd
               else do {
                 let cd = cd\<lparr>bc := (bc cd)\<lparr>lru_root := lru_insert (lru_key (bc cd)) lba (lru_root (bc cd))\<rparr>\<rparr>;
                 cd \<leftarrow> (if ext4_bcache_test_flag b BC_DIRTY \<and> ext4_bcache_test_flag b BC_UPTODATE then
                          (if cache_write_back (bdv cd) \<noteq> 0 \<and> \<not> ext4_bcache_test_flag b BC_FLUSH \<and>
                              \<not> ext4_bcache_test_flag b BC_TMP
                           then map_option (\<lambda>c. cd\<lparr>bc := c\<rparr>) (ext4_bcache_insert_dirty_node lba (bc cd))
                           else do {
                             (_, cd) \<leftarrow> ext4_block_flush_buf ops lba cd;
                             Some (cd\<lparr>bc := upd_buf lba (ext4_bcache_clear_flag BC_FLUSH) (bc cd)\<rparr>) })
                        else Some cd);
                 if \<not> ext4_bcache_test_flag b BC_UPTODATE \<or> ext4_bcache_test_flag b BC_TMP
                 then map_option (\<lambda>c. cd\<lparr>bc := c\<rparr>) (ext4_bcache_drop_buf lba (bc cd))
                 else Some cd });
         Some (EOK, h\<lparr>lb_id := 0\<rparr>, cd) } } }"

definition ext4_block_flush_lba :: "'s bdif \<Rightarrow> u64 \<Rightarrow> 's cdev \<Rightarrow> (int \<times> 's cdev) option" where
  "ext4_block_flush_lba ops lba cd = do {
     (h, c) \<leftarrow> ext4_bcache_find_get lba (bc cd);
     let cd = cd\<lparr>bc := c\<rparr>;
     case h of
       None \<Rightarrow> Some (EOK, cd)
     | Some h \<Rightarrow> do {
         (r, cd) \<leftarrow> ext4_block_flush_buf ops lba cd;
         (_, _, cd) \<leftarrow> ext4_bcache_free ops h cd;
         Some (r, cd) } }"

partial_function (option) shake_loop :: "'s bdif \<Rightarrow> 's cdev \<Rightarrow> (int \<times> 's cdev) option" where
  "shake_loop ops cd =
     (if lru_root (bc cd) = [] \<or> \<not> ext4_bcache_is_full (bc cd) then Some (EOK, cd)
      else Option.bind (ext4_buf_lowest_lru (bc cd)) (\<lambda>lba.
        Option.bind (ext4_buf_lookup (bc cd) lba) (\<lambda>b.
          Option.bind (if ext4_bcache_test_flag b BC_DIRTY then ext4_block_flush_buf ops lba cd else Some (EOK, cd))
            (\<lambda>(r, cd). if r \<noteq> EOK then Some (r, cd)
              else Option.bind (ext4_bcache_drop_buf lba (bc cd)) (\<lambda>c. shake_loop ops (cd\<lparr>bc := c\<rparr>))))))"

definition ext4_block_cache_shake :: "'s bdif \<Rightarrow> 's cdev \<Rightarrow> (int \<times> 's cdev) option" where
  "ext4_block_cache_shake ops cd =
     (if dont_shake (bc cd) then Some (EOK, cd)
      else do {
        (r, cd) \<leftarrow> shake_loop ops (cd\<lparr>bc := (bc cd)\<lparr>dont_shake := True\<rparr>\<rparr>);
        Some (r, cd\<lparr>bc := (bc cd)\<lparr>dont_shake := False\<rparr>\<rparr>) })"

definition ext4_block_get_noread ::
  "'s bdif \<Rightarrow> byte list option \<Rightarrow> ext4_block \<Rightarrow> u64 \<Rightarrow> 's cdev \<Rightarrow> (int \<times> ext4_block \<times> 's cdev) option" where
  "ext4_block_get_noread ops fresh h lba cd =
     (if ph_refctr (bdv cd) = 0 then Some (EIO, h, cd)
      else if \<not> lba < lg_bcnt (bdv cd) then Some (ENXIO, h, cd)
      else do {
        let h = h\<lparr>lb_id := lba\<rparr>;
        (r, cd) \<leftarrow> ext4_block_cache_shake ops cd;
        if r \<noteq> EOK then Some (r, h, cd)
        else do {
          (r, h, is_new, c) \<leftarrow> ext4_bcache_alloc fresh h (bc cd);
          Some (r, h, cd\<lparr>bc := c\<rparr>) } })"

definition ext4_block_get ::
  "'s bdif \<Rightarrow> byte list option \<Rightarrow> ext4_block \<Rightarrow> u64 \<Rightarrow> 's cdev \<Rightarrow> (int \<times> ext4_block \<times> 's cdev) option" where
  "ext4_block_get ops fresh h lba cd = do {
     (r, h, cd) \<leftarrow> ext4_block_get_noread ops fresh h lba cd;
     if r \<noteq> EOK then Some (r, h, cd)
     else do {
       l \<leftarrow> hbuf h;
       b \<leftarrow> ext4_buf_lookup (bc cd) l;
       if ext4_bcache_test_flag b BC_UPTODATE then Some (EOK, h, cd)
       else do {
         (r, dat, bd) \<leftarrow> ext4_blocks_get_direct ops lba 1 (bdv cd);
         dat \<leftarrow> buf_set 0 dat (bdata b);
         let cd = \<lparr>bdv = bd, bc = upd_buf l (\<lambda>b. b\<lparr>bdata := dat\<rparr>) (bc cd)\<rparr>;
         if r \<noteq> EOK then do {
           (_, h, cd) \<leftarrow> ext4_bcache_free ops h cd;
           Some (r, h\<lparr>lb_id := 0\<rparr>, cd) }
         else Some (EOK, h, cd\<lparr>bc := upd_buf l (ext4_bcache_set_flag BC_UPTODATE) (bc cd)\<rparr>) } } }"

definition ext4_block_set :: "'s bdif \<Rightarrow> ext4_block \<Rightarrow> 's cdev \<Rightarrow> (int \<times> ext4_block \<times> 's cdev) option" where
  "ext4_block_set ops h cd =
     (if hbuf h = None then None
      else if ph_refctr (bdv cd) = 0 then Some (EIO, h, cd)
      else ext4_bcache_free ops h cd)"

partial_function (option) ext4_block_cache_flush :: "'s bdif \<Rightarrow> 's cdev \<Rightarrow> (int \<times> 's cdev) option" where
  "ext4_block_cache_flush ops cd =
     (case dirty_list (bc cd) of
        [] \<Rightarrow> Some (EOK, cd)
      | lba # _ \<Rightarrow>
          Option.bind (ext4_block_flush_buf ops lba cd) (\<lambda>(r, cd).
            if r \<noteq> EOK then Some (r, cd) else ext4_block_cache_flush ops cd))"

definition ext4_block_cache_write_back :: "'s bdif \<Rightarrow> bool \<Rightarrow> 's cdev \<Rightarrow> (int \<times> 's cdev) option" where
  "ext4_block_cache_write_back ops on_off cd =
     (let n = cache_write_back (bdv cd);
          n = (if on_off then n + 1 else n);
          n = (if \<not> on_off \<and> n \<noteq> 0 then n - 1 else n);
          cd = cd\<lparr>bdv := (bdv cd)\<lparr>cache_write_back := n\<rparr>\<rparr> in
      if n \<noteq> 0 then Some (EOK, cd) else ext4_block_cache_flush ops cd)"

fun cleanup_bufs :: "'s bdif \<Rightarrow> u64 list \<Rightarrow> 's cdev \<Rightarrow> 's cdev option" where
  "cleanup_bufs ops [] cd = Some cd"
| "cleanup_bufs ops (lba # rest) cd =
     Option.bind (ext4_block_flush_buf ops lba cd) (\<lambda>(_, cd).
       Option.bind (ext4_bcache_drop_buf lba (bc cd)) (\<lambda>c. cleanup_bufs ops rest (cd\<lparr>bc := c\<rparr>)))"

definition ext4_bcache_cleanup :: "'s bdif \<Rightarrow> 's cdev \<Rightarrow> 's cdev option" where
  "ext4_bcache_cleanup ops cd = cleanup_bufs ops (map fst (lba_root (bc cd))) cd"

section \<open>Reading the cache\<close>

named_theorems bc_simps "effect of updates on the parts of a cache"

lemma lookup_upd_buf [bc_simps]:
  "ext4_buf_lookup (upd_buf l f c) l' = (if l' = l then map_option f (ext4_buf_lookup c l) else ext4_buf_lookup c l')"
proof -
  have "map_of (map (\<lambda>(k, b). (k, if k = l then f b else b)) xs) l' =
      (if l' = l then map_option f (map_of xs l) else map_of xs l')" for xs
    by (induction xs) auto
  then show ?thesis by (simp add: ext4_buf_lookup_def upd_buf_def)
qed

lemma upd_buf_fields [bc_simps]:
  "lru_root (upd_buf l f c) = lru_root c" "dirty_list (upd_buf l f c) = dirty_list c"
  "lru_ctr (upd_buf l f c) = lru_ctr c" "ref_blocks (upd_buf l f c) = ref_blocks c"
  "itemsize (upd_buf l f c) = itemsize c" "bc_cnt (upd_buf l f c) = bc_cnt c"
  "dont_shake (upd_buf l f c) = dont_shake c" "length (lba_root (upd_buf l f c)) = length (lba_root c)"
  "max_ref_blocks (upd_buf l f c) = max_ref_blocks c"
  by (simp_all add: upd_buf_def)

lemma upd_buf_keys [bc_simps]: "map fst (lba_root (upd_buf l f c)) = map fst (lba_root c)"
  by (simp add: upd_buf_def case_prod_beta comp_def)

lemma lookup_fields [bc_simps]:
  "ext4_buf_lookup (c\<lparr>lru_root := xs\<rparr>) = ext4_buf_lookup c" "ext4_buf_lookup (c\<lparr>dirty_list := xs\<rparr>) = ext4_buf_lookup c"
  "ext4_buf_lookup (c\<lparr>lru_ctr := n\<rparr>) = ext4_buf_lookup c" "ext4_buf_lookup (c\<lparr>ref_blocks := n\<rparr>) = ext4_buf_lookup c"
  "ext4_buf_lookup (c\<lparr>dont_shake := d\<rparr>) = ext4_buf_lookup c" "ext4_buf_lookup (c\<lparr>max_ref_blocks := n\<rparr>) = ext4_buf_lookup c"
  by (simp_all add: fun_eq_iff ext4_buf_lookup_def)

lemma lookup_filter:
  "ext4_buf_lookup (c\<lparr>lba_root := filter (\<lambda>(l', b). l' \<noteq> l) (lba_root c), ref_blocks := n\<rparr>) =
   (ext4_buf_lookup c)(l := None)"
proof -
  have "map_of (filter (\<lambda>(l', b). l' \<noteq> l) xs) = (map_of xs)(l := None)" for xs :: "(u64 \<times> ext4_buf) list"
    by (induction xs) (auto simp: fun_eq_iff)
  then show ?thesis by (simp add: fun_eq_iff ext4_buf_lookup_def)
qed

lemma length_filter_key:
  assumes "distinct (map fst xs)" "map_of xs l = Some b"
  shows "Suc (length (filter (\<lambda>(l', b). l' \<noteq> l) xs)) = length xs"
  using assms
proof (induction xs)
  case (Cons x xs)
  obtain k v where x: "x = (k, v)" by (cases x)
  show ?case
  proof (cases "k = l")
    case True
    then have "filter (\<lambda>(l', b). l' \<noteq> l) xs = xs" using Cons.prems x by (intro filter_True) force
    then show ?thesis by (simp add: x True)
  qed (use Cons x in auto)
qed simp

lemma map_of_lba_insert:
  "map_of xs l = None \<Longrightarrow> map_of (lba_insert l b xs) = (map_of xs)(l \<mapsto> b)"
  by (induction l b xs rule: lba_insert.induct) (auto simp: fun_eq_iff split: if_splits)

lemma lba_insert_keys:
  "map_of xs l = None \<Longrightarrow> distinct (map fst xs) \<Longrightarrow>
   distinct (map fst (lba_insert l b xs)) \<and> length (lba_insert l b xs) = Suc (length xs) \<and>
   set (map fst (lba_insert l b xs)) = insert l (set (map fst xs))"
  by (induction l b xs rule: lba_insert.induct) (auto simp: map_of_eq_None_iff split: if_splits)

lemma lba_insert_sorted:
  "sorted (map fst xs) \<Longrightarrow> sorted (map fst (lba_insert l b xs)) \<and> set (map fst (lba_insert l b xs)) = insert l (set (map fst xs))"
  by (induction l b xs rule: lba_insert.induct) auto

section \<open>The invariant of the cache\<close>

text \<open>The keys of the address tree are distinct and counted by \<open>ref_blocks\<close>; the LRU tree
  holds exactly the unreferenced buffers, by ascending LRU id; the dirty list holds exactly the buffers marked so, which
  are dirty and unreferenced; a dirty buffer is up to date; buffers have the item size and distinct
  LRU ids up to the counter.\<close>

definition keys_inv :: "bcache \<Rightarrow> bool" where
  "keys_inv c \<longleftrightarrow> distinct (map fst (lba_root c)) \<and> sorted (map fst (lba_root c)) \<and>
     unat (ref_blocks c) = length (lba_root c)"

definition lru_inv :: "bcache \<Rightarrow> bool" where
  "lru_inv c \<longleftrightarrow> distinct (lru_root c) \<and> sorted_wrt (\<lambda>l l'. lru_key c l < lru_key c l') (lru_root c) \<and>
     (\<forall>l. l \<in> set (lru_root c) \<longleftrightarrow> (\<exists>b. ext4_buf_lookup c l = Some b \<and> refctr b = 0))"

definition dirty_inv :: "bcache \<Rightarrow> bool" where
  "dirty_inv c \<longleftrightarrow> distinct (dirty_list c) \<and>
     (\<forall>l. l \<in> set (dirty_list c) \<longleftrightarrow> (\<exists>b. ext4_buf_lookup c l = Some b \<and> on_dirty_list b))"

definition buf_ok :: "bcache \<Rightarrow> ext4_buf \<Rightarrow> bool" where
  "buf_ok c b \<longleftrightarrow> (on_dirty_list b \<longrightarrow> refctr b = 0 \<and> BC_DIRTY \<in> flags b) \<and>
     (BC_DIRTY \<in> flags b \<longrightarrow> BC_UPTODATE \<in> flags b) \<and>
     length (bdata b) = unat (itemsize c) \<and> lru_id b \<le> lru_ctr c"

definition bufs_inv :: "bcache \<Rightarrow> bool" where
  "bufs_inv c \<longleftrightarrow> (\<forall>l b. ext4_buf_lookup c l = Some b \<longrightarrow> buf_ok c b) \<and>
     (\<forall>l l' b b'. ext4_buf_lookup c l = Some b \<longrightarrow> ext4_buf_lookup c l' = Some b' \<longrightarrow> lru_id b = lru_id b' \<longrightarrow> l = l')"

definition bc_inv :: "bcache \<Rightarrow> bool" where
  "bc_inv c \<longleftrightarrow> keys_inv c \<and> lru_inv c \<and> dirty_inv c \<and> bufs_inv c"

lemmas bc_inv_defs = bc_inv_def keys_inv_def lru_inv_def dirty_inv_def bufs_inv_def buf_ok_def

lemma sorted_wrt_remove1: "distinct xs \<Longrightarrow> sorted_wrt P xs \<Longrightarrow> sorted_wrt P (remove1 x xs)"
  by (simp add: distinct_remove1_removeAll removeAll_filter_not_eq sorted_wrt_filter)

lemma sorted_wrt_cong_set: "sorted_wrt P xs \<Longrightarrow> (\<And>x y. x \<in> set xs \<Longrightarrow> y \<in> set xs \<Longrightarrow> P x y \<Longrightarrow> Q x y) \<Longrightarrow> sorted_wrt Q xs"
  by (induction xs) auto

lemma lru_insert_sorted:
  assumes "sorted_wrt (\<lambda>l l'. key l < key l') xs" "\<forall>l\<in>set xs. key l \<noteq> key x" "x \<notin> set xs" "distinct xs"
  shows "sorted_wrt (\<lambda>l l'. key l < (key l' :: u32)) (lru_insert key x xs) \<and>
    set (lru_insert key x xs) = insert x (set xs) \<and> distinct (lru_insert key x xs)"
  using assms by (induction xs) (auto intro: less_trans)

section \<open>Operations on the cache keep the invariant\<close>

definition same_cfg :: "bcache \<Rightarrow> bcache \<Rightarrow> bool" where
  "same_cfg c c' \<longleftrightarrow> bc_cnt c' = bc_cnt c \<and> itemsize c' = itemsize c \<and> dont_shake c' = dont_shake c"

lemma same_cfg_trans: "same_cfg c c' \<Longrightarrow> same_cfg c' c'' \<Longrightarrow> same_cfg c c''"
  by (simp add: same_cfg_def)

lemma inv_lookup:
  assumes "bc_inv c" "ext4_buf_lookup c l = Some b"
  shows "buf_ok c b" "refctr b = 0 \<longleftrightarrow> l \<in> set (lru_root c)" "on_dirty_list b \<longleftrightarrow> l \<in> set (dirty_list c)"
  using assms by (auto simp: bc_inv_def bufs_inv_def lru_inv_def dirty_inv_def)

text \<open>Changing a buffer without touching what the trees and the list depend on.\<close>

lemma inv_upd_buf:
  assumes inv: "bc_inv c" and b: "ext4_buf_lookup c l = Some b"
    and f: "refctr (f b) = 0 \<longleftrightarrow> refctr b = 0" "lru_id (f b) = lru_id b" "on_dirty_list (f b) = on_dirty_list b" "buf_ok c (f b)"
  shows "bc_inv (upd_buf l f c)"
proof -
  have key: "lru_key (upd_buf l f c) = lru_key c"
    using b f(2) by (auto simp: fun_eq_iff lru_key_def bc_simps)
  have "keys_inv (upd_buf l f c)" using inv by (simp add: bc_inv_def keys_inv_def bc_simps)
  moreover have "lru_inv (upd_buf l f c)"
    using inv b f(1) by (auto simp: bc_inv_def lru_inv_def key bc_simps)
  moreover have "dirty_inv (upd_buf l f c)"
    using inv b f(3) by (auto simp: bc_inv_def dirty_inv_def bc_simps)
  moreover have "bufs_inv (upd_buf l f c)"
    unfolding bufs_inv_def
  proof (intro conjI allI impI)
    fix l' b' assume "ext4_buf_lookup (upd_buf l f c) l' = Some b'"
    then show "buf_ok (upd_buf l f c) b'"
      using inv_lookup(1)[OF inv] b f(4) by (auto simp: bc_simps buf_ok_def split: if_splits)
  next
    fix l1 l2 b1 b2
    assume "ext4_buf_lookup (upd_buf l f c) l1 = Some b1" "ext4_buf_lookup (upd_buf l f c) l2 = Some b2" "lru_id b1 = lru_id b2"
    then have "\<exists>a1 a2. ext4_buf_lookup c l1 = Some a1 \<and> ext4_buf_lookup c l2 = Some a2 \<and> lru_id a1 = lru_id a2"
      using b f(2) by (auto simp: bc_simps split: if_splits)
    then show "l1 = l2" using inv by (auto simp: bc_inv_def bufs_inv_def)
  qed
  ultimately show ?thesis by (simp add: bc_inv_def)
qed

lemma remove_dirty_raw:
  assumes b: "ext4_buf_lookup c l = Some b" and mem: "on_dirty_list b \<longleftrightarrow> l \<in> set (dirty_list c)"
  shows "\<exists>c'. ext4_bcache_remove_dirty_node l c = Some c' \<and> same_cfg c c' \<and>
    ext4_buf_lookup c' = (ext4_buf_lookup c)(l \<mapsto> b\<lparr>on_dirty_list := False\<rparr>) \<and>
    lru_root c' = lru_root c \<and> lru_ctr c' = lru_ctr c \<and> dirty_list c' = remove1 l (dirty_list c) \<and>
    map fst (lba_root c') = map fst (lba_root c) \<and> ref_blocks c' = ref_blocks c"
proof (cases "on_dirty_list b")
  case False
  then have "l \<notin> set (dirty_list c)" "b\<lparr>on_dirty_list := False\<rparr> = b" using mem by auto
  with False b show ?thesis
    by (auto simp: ext4_bcache_remove_dirty_node_def same_cfg_def remove1_idem fun_eq_iff)
next
  case True
  let ?c = "upd_buf l (\<lambda>b. b\<lparr>on_dirty_list := False\<rparr>) (c\<lparr>dirty_list := remove1 l (dirty_list c)\<rparr>)"
  have look: "ext4_buf_lookup ?c = (ext4_buf_lookup c)(l \<mapsto> b\<lparr>on_dirty_list := False\<rparr>)"
    using b by (auto simp: fun_eq_iff bc_simps)
  show ?thesis
    using True b mem by (auto simp: ext4_bcache_remove_dirty_node_def look same_cfg_def bc_simps)
qed

text \<open>The step the callers take only for a dirty buffer: a clean one is not on the list.\<close>

lemma undirty_raw:
  assumes "ext4_buf_lookup c l = Some b" "on_dirty_list b \<longleftrightarrow> l \<in> set (dirty_list c)" "on_dirty_list b \<longrightarrow> BC_DIRTY \<in> flags b"
  shows "\<exists>c'. (if ext4_bcache_test_flag b BC_DIRTY then ext4_bcache_remove_dirty_node l c else Some c) = Some c' \<and> same_cfg c c' \<and>
    ext4_buf_lookup c' = (ext4_buf_lookup c)(l \<mapsto> b\<lparr>on_dirty_list := False\<rparr>) \<and>
    lru_root c' = lru_root c \<and> lru_ctr c' = lru_ctr c \<and> dirty_list c' = remove1 l (dirty_list c) \<and>
    map fst (lba_root c') = map fst (lba_root c) \<and> ref_blocks c' = ref_blocks c"
proof (cases "BC_DIRTY \<in> flags b")
  case True
  then show ?thesis using remove_dirty_raw[OF assms(1,2)] by (simp add: ext4_bcache_test_flag_def)
next
  case False
  then have "\<not> on_dirty_list b" "l \<notin> set (dirty_list c)" "b\<lparr>on_dirty_list := False\<rparr> = b" using assms by auto
  then show ?thesis using False assms(1)
    by (auto simp: ext4_bcache_test_flag_def same_cfg_def remove1_idem fun_eq_iff)
qed

text \<open>The invariant of a cache that differs from a good one in the buffer \<open>l\<close>, which left
  the dirty list, and possibly the LRU tree.\<close>

lemma inv_change_buf:
  assumes inv: "bc_inv c" and b: "ext4_buf_lookup c l = Some b"
    and c': "ext4_buf_lookup c' = (ext4_buf_lookup c)(l \<mapsto> b')" "itemsize c' = itemsize c" "lru_ctr c \<le> lru_ctr c'"
      "dirty_list c' = remove1 l (dirty_list c)" "map fst (lba_root c') = map fst (lba_root c)" "ref_blocks c' = ref_blocks c"
      "lru_root c' = (if refctr b' = 0 then lru_root c else remove1 l (lru_root c))"
    and b': "buf_ok c' b'" "\<not> on_dirty_list b'" "lru_id b' = lru_id b \<or> lru_ctr c < lru_id b'"
      "refctr b' = 0 \<longrightarrow> refctr b = 0 \<and> lru_id b' = lru_id b"
  shows "bc_inv c'"
proof -
  have key: "lru_key c' k = lru_key c k" if "k \<noteq> l \<or> lru_id b' = lru_id b" for k
    using that b by (auto simp: lru_key_def c'(1))
  have "length (lba_root c') = length (lba_root c)" using c'(5) by (metis length_map)
  then have "keys_inv c'" using inv c'(5,6) by (simp add: bc_inv_def keys_inv_def)
  moreover have "lru_inv c'"
  proof (cases "refctr b' = 0")
    case True
    then have "lru_key c' = lru_key c" using b'(4) key by (auto simp: fun_eq_iff)
    with True inv b b'(4) c'(7) show ?thesis by (auto simp: bc_inv_def lru_inv_def c'(1))
  next
    case False
    have s: "sorted_wrt (\<lambda>k k'. lru_key c k < lru_key c k') (remove1 l (lru_root c))" and d: "distinct (lru_root c)"
      using inv by (auto simp: bc_inv_def lru_inv_def sorted_wrt_remove1)
    have "sorted_wrt (\<lambda>k k'. lru_key c' k < lru_key c' k') (remove1 l (lru_root c))"
      by (rule sorted_wrt_cong_set[OF s]) (use d key in auto)
    with False inv d c'(7) show ?thesis by (auto simp: bc_inv_def lru_inv_def c'(1))
  qed
  moreover have "dirty_inv c'" using inv b'(2) by (auto simp: bc_inv_def dirty_inv_def c'(1,4))
  moreover have "bufs_inv c'"
    unfolding bufs_inv_def
  proof (intro conjI allI impI)
    fix k a assume "ext4_buf_lookup c' k = Some a"
    then show "buf_ok c' a"
      using inv_lookup(1)[OF inv, of k] b'(1) c'(2,3) by (fastforce simp: c'(1) buf_ok_def split: if_splits)
  next
    have le: "lru_id a \<le> lru_ctr c" if "ext4_buf_lookup c k = Some a" for k a
      using inv_lookup(1)[OF inv that] by (simp add: buf_ok_def)
    have inj: "k = k'" if "ext4_buf_lookup c k = Some a" "ext4_buf_lookup c k' = Some a'" "lru_id a = lru_id a'" for k k' a a'
      using inv that by (auto simp: bc_inv_def bufs_inv_def)
    fix k k' a a' assume "ext4_buf_lookup c' k = Some a" "ext4_buf_lookup c' k' = Some a'" "lru_id a = lru_id a'"
    then show "k = k'" using b'(3) b le[of k a] le[of k' a'] inj
      by (auto simp: c'(1) split: if_splits)
  qed
  ultimately show ?thesis by (simp add: bc_inv_def)
qed

lemma find_get_ok:
  assumes inv: "bc_inv c" and b: "ext4_buf_lookup c l = Some b"
    and ctr: "unat (lru_ctr c) + 1 < 2 ^ 32" "unat (refctr b) + 1 < 2 ^ 32"
  shows "\<exists>c' b'. ext4_bcache_find_get l c = Some (Some \<lparr>lb_id = l, hbuf = Some l\<rparr>, c') \<and> bc_inv c' \<and> same_cfg c c' \<and>
    ext4_buf_lookup c' = (ext4_buf_lookup c)(l \<mapsto> b') \<and> flags b' = flags b \<and> bdata b' = bdata b \<and>
    refctr b' = refctr b + 1 \<and> unat (lru_ctr c') \<le> unat (lru_ctr c) + 1"
proof (cases "refctr b = 0")
  case False
  have nz: "refctr b + 1 \<noteq> 0" using ctr(2) unat_Suc_bound[of "refctr b"] by (auto simp: word_unat_eq_iff)
  let ?c = "upd_buf l ext4_bcache_inc_ref c"
  have "bc_inv ?c"
    by (rule inv_upd_buf[OF inv b])
      (use False nz inv_lookup(1)[OF inv b] in \<open>auto simp: ext4_bcache_inc_ref_def buf_ok_def\<close>)
  moreover have "ext4_buf_lookup ?c = (ext4_buf_lookup c)(l \<mapsto> ext4_bcache_inc_ref b)"
    using b by (auto simp: fun_eq_iff bc_simps)
  ultimately show ?thesis
    using b False by (auto simp: ext4_bcache_find_get_def ext4_bcache_inc_ref_def same_cfg_def bc_simps)
next
  case True
  note l = inv_lookup[OF inv b]
  let ?b1 = "b\<lparr>lru_id := lru_ctr c + 1\<rparr>"
  let ?c1 = "(upd_buf l (\<lambda>b. b\<lparr>lru_id := lru_ctr c + 1\<rparr>) (c\<lparr>lru_ctr := lru_ctr c + 1\<rparr>))\<lparr>lru_root := remove1 l (lru_root c)\<rparr>"
  have look1: "ext4_buf_lookup ?c1 = (ext4_buf_lookup c)(l \<mapsto> ?b1)"
    using b by (auto simp: fun_eq_iff bc_simps)
  have "\<exists>c'. (if ext4_bcache_test_flag ?b1 BC_DIRTY then ext4_bcache_remove_dirty_node l ?c1 else Some ?c1) = Some c' \<and> same_cfg ?c1 c' \<and>
    ext4_buf_lookup c' = (ext4_buf_lookup ?c1)(l \<mapsto> ?b1\<lparr>on_dirty_list := False\<rparr>) \<and>
    lru_root c' = lru_root ?c1 \<and> lru_ctr c' = lru_ctr ?c1 \<and> dirty_list c' = remove1 l (dirty_list ?c1) \<and>
    map fst (lba_root c') = map fst (lba_root ?c1) \<and> ref_blocks c' = ref_blocks ?c1"
    by (rule undirty_raw) (use l look1 in \<open>auto simp: bc_simps buf_ok_def\<close>)
  then obtain c2 where 2: "(if ext4_bcache_test_flag b BC_DIRTY then ext4_bcache_remove_dirty_node l ?c1 else Some ?c1) = Some c2"
    "same_cfg c c2" "ext4_buf_lookup c2 = (ext4_buf_lookup c)(l \<mapsto> ?b1\<lparr>on_dirty_list := False\<rparr>)"
    "lru_root c2 = remove1 l (lru_root c)" "lru_ctr c2 = lru_ctr c + 1" "dirty_list c2 = remove1 l (dirty_list c)"
    "map fst (lba_root c2) = map fst (lba_root c)" "ref_blocks c2 = ref_blocks c"
    unfolding look1 by (auto simp: bc_simps same_cfg_def ext4_bcache_test_flag_def)
  let ?c = "upd_buf l ext4_bcache_inc_ref c2" and ?b = "b\<lparr>lru_id := lru_ctr c + 1, refctr := 1, on_dirty_list := False\<rparr>"
  have look: "ext4_buf_lookup ?c = (ext4_buf_lookup c)(l \<mapsto> ?b)"
    using True by (auto simp: fun_eq_iff bc_simps 2(3) ext4_bcache_inc_ref_def)
  have ctr1: "lru_ctr c < lru_ctr c + 1" using unat_Suc_bound[of "lru_ctr c"] ctr(1) by (simp add: word_less_nat_alt)
  have "bc_inv ?c"
  proof (rule inv_change_buf[OF inv b look])
    show "buf_ok ?c ?b" using l(1) 2(2,5) by (auto simp: buf_ok_def same_cfg_def bc_simps)
  qed (use 2 ctr1 in \<open>auto simp: bc_simps same_cfg_def\<close>)
  moreover have "ext4_bcache_find_get l c = Some (Some \<lparr>lb_id = l, hbuf = Some l\<rparr>, ?c)"
    using b True l(2) 2(1) by (simp add: ext4_bcache_find_get_def lru_remove_def Let_def bc_simps)
  moreover have "unat (lru_ctr ?c) \<le> unat (lru_ctr c) + 1"
    using 2(5) ctr(1) by (simp add: bc_simps unat_Suc_bound)
  ultimately show ?thesis using look 2(2) True
    by (intro exI[of _ ?c] exI[of _ ?b]) (auto simp: same_cfg_def bc_simps)
qed

lemma drop_ok:
  assumes inv: "bc_inv c" and b: "ext4_buf_lookup c l = Some b" "refctr b = 0"
  shows "\<exists>c'. ext4_bcache_drop_buf l c = Some c' \<and> bc_inv c' \<and> same_cfg c c' \<and>
    ext4_buf_lookup c' = (ext4_buf_lookup c)(l := None) \<and> lru_root c' = remove1 l (lru_root c) \<and>
    dirty_list c' = remove1 l (dirty_list c) \<and> lru_ctr c' = lru_ctr c"
proof -
  note l = inv_lookup[OF inv b(1)]
  let ?c1 = "c\<lparr>lru_root := remove1 l (lru_root c)\<rparr>"
  have "\<exists>c'. (if ext4_bcache_test_flag b BC_DIRTY then ext4_bcache_remove_dirty_node l ?c1 else Some ?c1) = Some c' \<and> same_cfg ?c1 c' \<and>
    ext4_buf_lookup c' = (ext4_buf_lookup ?c1)(l \<mapsto> b\<lparr>on_dirty_list := False\<rparr>) \<and>
    lru_root c' = lru_root ?c1 \<and> lru_ctr c' = lru_ctr ?c1 \<and> dirty_list c' = remove1 l (dirty_list ?c1) \<and>
    map fst (lba_root c') = map fst (lba_root ?c1) \<and> ref_blocks c' = ref_blocks ?c1"
    by (rule undirty_raw) (use l b in \<open>auto simp: bc_simps buf_ok_def\<close>)
  then obtain c2 where 2: "(if ext4_bcache_test_flag b BC_DIRTY then ext4_bcache_remove_dirty_node l ?c1 else Some ?c1) = Some c2"
    "same_cfg c c2" "ext4_buf_lookup c2 = (ext4_buf_lookup c)(l \<mapsto> b\<lparr>on_dirty_list := False\<rparr>)"
    "lru_root c2 = remove1 l (lru_root c)" "lru_ctr c2 = lru_ctr c" "dirty_list c2 = remove1 l (dirty_list c)"
    "map fst (lba_root c2) = map fst (lba_root c)" "ref_blocks c2 = ref_blocks c"
    by (auto simp: bc_simps same_cfg_def)
  let ?c = "c2\<lparr>lba_root := filter (\<lambda>(l', b). l' \<noteq> l) (lba_root c2), ref_blocks := ref_blocks c2 - 1\<rparr>"
  have look: "ext4_buf_lookup ?c = (ext4_buf_lookup c)(l := None)" unfolding lookup_filter 2(3) by simp
  have key: "lru_key ?c k = lru_key c k" if "k \<noteq> l" for k using that by (simp add: lru_key_def look)
  have len: "length (lba_root c2) = length (lba_root c)" using 2(7) by (metis length_map)
  have k: "distinct (map fst (lba_root c2))" "sorted (map fst (lba_root c2))" "unat (ref_blocks c2) = length (lba_root c2)"
    using inv 2(7,8) len by (auto simp: bc_inv_def keys_inv_def)
  have "map_of (lba_root c2) l = Some (b\<lparr>on_dirty_list := False\<rparr>)"
    using fun_cong[OF 2(3), of l] by (simp add: ext4_buf_lookup_def)
  from length_filter_key[OF k(1) this] have n: "Suc (length (lba_root ?c)) = length (lba_root c2)" by simp
  then have "ref_blocks c2 \<noteq> 0" using k(3) by auto
  then have "unat (ref_blocks c2 - 1) = length (lba_root ?c)" using k(3) n by (simp add: unat_minus_one)
  then have "keys_inv ?c"
    using k by (simp add: keys_inv_def distinct_map_filter sorted_filter)
  moreover have "lru_inv ?c"
  proof -
    have s: "sorted_wrt (\<lambda>k k'. lru_key c k < lru_key c k') (remove1 l (lru_root c))" and d: "distinct (lru_root c)"
      using inv by (auto simp: bc_inv_def lru_inv_def sorted_wrt_remove1)
    have "sorted_wrt (\<lambda>k k'. lru_key ?c k < lru_key ?c k') (remove1 l (lru_root c))"
      by (rule sorted_wrt_cong_set[OF s]) (use d key in auto)
    then show ?thesis using inv d 2(4) by (auto simp: bc_inv_def lru_inv_def look)
  qed
  moreover have "dirty_inv ?c" using inv 2(6) by (auto simp: bc_inv_def dirty_inv_def look)
  moreover have "bufs_inv ?c"
    using inv 2(2,5) by (auto simp: bc_inv_def bufs_inv_def buf_ok_def look same_cfg_def split: if_splits)
  ultimately show ?thesis
    using b l(2) 2 look by (auto simp: ext4_bcache_drop_buf_def lru_remove_def bc_inv_def same_cfg_def)
qed

lemma alloc_new_ok:
  assumes inv: "bc_inv c" and none: "ext4_buf_lookup c (lb_id h) = None" and dat: "length dat = unat (itemsize c)"
    and ctr: "unat (lru_ctr c) + 1 < 2 ^ 32" "length (lba_root c) + 1 < 2 ^ 32"
  shows "\<exists>c'. ext4_bcache_alloc (Some dat) h c = Some (EOK, h\<lparr>hbuf := Some (lb_id h)\<rparr>, True, c') \<and> bc_inv c' \<and> same_cfg c c' \<and>
    ext4_buf_lookup c' = (ext4_buf_lookup c)(lb_id h \<mapsto>
      \<lparr>flags = {}, bdata = dat, lru_id = lru_ctr c + 1, refctr = 1, on_dirty_list = False\<rparr>) \<and>
    unat (lru_ctr c') = unat (lru_ctr c) + 1"
proof -
  let ?l = "lb_id h"
  let ?buf = "\<lparr>flags = {}, bdata = dat, lru_id = 0, refctr = 0, on_dirty_list = False\<rparr>"
  let ?b = "\<lparr>flags = {}, bdata = dat, lru_id = lru_ctr c + 1, refctr = 1, on_dirty_list = False\<rparr>"
  let ?c1 = "c\<lparr>lba_root := lba_insert ?l ?buf (lba_root c), ref_blocks := ref_blocks c + 1\<rparr>"
  define c2 where "c2 = (if max_ref_blocks c < ref_blocks c + 1 then ?c1\<lparr>max_ref_blocks := ref_blocks c + 1\<rparr> else ?c1)"
  let ?c = "upd_buf ?l (\<lambda>b. b\<lparr>lru_id := lru_ctr c + 1\<rparr>) ((upd_buf ?l ext4_bcache_inc_ref c2)\<lparr>lru_ctr := lru_ctr c + 1\<rparr>)"
  have none': "map_of (lba_root c) ?l = None" using none by (simp add: ext4_buf_lookup_def)
  have look1: "ext4_buf_lookup c2 = (ext4_buf_lookup c)(?l \<mapsto> ?buf)"
    using map_of_lba_insert[OF none'] by (simp add: c2_def fun_eq_iff ext4_buf_lookup_def)
  have look: "ext4_buf_lookup ?c = (ext4_buf_lookup c)(?l \<mapsto> ?b)"
    by (simp add: fun_eq_iff bc_simps look1 ext4_bcache_inc_ref_def)
  have fields: "lru_root ?c = lru_root c" "dirty_list ?c = dirty_list c" "lru_ctr ?c = lru_ctr c + 1"
    "itemsize ?c = itemsize c" "same_cfg c ?c" "map fst (lba_root ?c) = map fst (lba_insert ?l ?buf (lba_root c))"
    "ref_blocks ?c = ref_blocks c + 1" "length (lba_root ?c) = length (lba_insert ?l ?buf (lba_root c))"
    by (simp_all add: bc_simps same_cfg_def c2_def)
  have key: "lru_key ?c k = lru_key c k" if "k \<noteq> ?l" for k using that by (simp add: lru_key_def look)
  have ctr1: "unat (lru_ctr c + 1) = unat (lru_ctr c) + 1" using unat_Suc_bound[of "lru_ctr c"] ctr(1) by simp
  have k: "distinct (map fst (lba_root c))" "sorted (map fst (lba_root c))" "unat (ref_blocks c) = length (lba_root c)"
    using inv by (auto simp: bc_inv_def keys_inv_def)
  have notin: "?l \<notin> set (lru_root c)" "?l \<notin> set (dirty_list c)"
    using inv none by (auto simp: bc_inv_def lru_inv_def dirty_inv_def)
  have "unat (ref_blocks c + 1) = length (lba_root c) + 1"
    using unat_Suc_bound[of "ref_blocks c"] ctr(2) k(3) by simp
  then have "keys_inv ?c"
    using lba_insert_keys[OF none' k(1)] lba_insert_sorted[OF k(2)] by (simp add: keys_inv_def fields)
  moreover have "lru_inv ?c"
  proof -
    have s: "sorted_wrt (\<lambda>k k'. lru_key c k < lru_key c k') (lru_root c)" using inv by (auto simp: bc_inv_def lru_inv_def)
    have "sorted_wrt (\<lambda>k k'. lru_key ?c k < lru_key ?c k') (lru_root c)"
      by (rule sorted_wrt_cong_set[OF s]) (metis notin(1) key)
    then show ?thesis using inv notin unfolding bc_inv_def lru_inv_def look fields by auto
  qed
  moreover have "dirty_inv ?c" using inv notin unfolding bc_inv_def dirty_inv_def look fields by auto
  moreover have "bufs_inv ?c"
  proof -
    have "lru_id a \<le> lru_ctr c" if "ext4_buf_lookup c k = Some a" for k a
      using inv_lookup(1)[OF inv that] by (simp add: buf_ok_def)
    then have "lru_id a \<le> lru_ctr c + 1 \<and> lru_id a \<noteq> lru_ctr c + 1" if "ext4_buf_lookup c k = Some a" for k a
      using that ctr1 by (fastforce simp: word_le_nat_alt)
    then show ?thesis
      using inv dat unfolding bc_inv_def bufs_inv_def look buf_ok_def fields by (auto split: if_splits) metis+
  qed
  moreover have "ext4_bcache_alloc (Some dat) h c = Some (EOK, h\<lparr>hbuf := Some ?l\<rparr>, True, ?c)"
    using none by (simp add: ext4_bcache_alloc_def ext4_bcache_find_get_def ext4_buf_alloc_def Let_def upd_buf_fields c2_def)
  ultimately show ?thesis
    using look fields(3,5) ctr1 by (intro exI[of _ ?c]) (simp add: bc_inv_def)
qed

lemma bufs_inv_upd:
  assumes "bc_inv c" "ext4_buf_lookup c l = Some b" "ext4_buf_lookup c' = (ext4_buf_lookup c)(l \<mapsto> b')"
    "lru_id b' = lru_id b" "itemsize c' = itemsize c" "lru_ctr c' = lru_ctr c" "buf_ok c b'"
  shows "bufs_inv c'"
  unfolding bufs_inv_def
proof (intro conjI allI impI)
  fix k a assume "ext4_buf_lookup c' k = Some a"
  then have "buf_ok c a" using inv_lookup(1)[OF assms(1), of k] assms(3,7) by (auto split: if_splits)
  then show "buf_ok c' a" by (simp add: buf_ok_def assms(5,6))
next
  fix k k' a a' assume "ext4_buf_lookup c' k = Some a" "ext4_buf_lookup c' k' = Some a'" "lru_id a = lru_id a'"
  then have "\<exists>a a'. ext4_buf_lookup c k = Some a \<and> ext4_buf_lookup c k' = Some a' \<and> lru_id a = lru_id a'"
    using assms(2-4) by (auto split: if_splits)
  then show "k = k'" using assms(1) by (auto simp: bc_inv_def bufs_inv_def)
qed

lemma release_ok:
  assumes inv: "bc_inv c" and b: "ext4_buf_lookup c l = Some b" "refctr b = 1"
  defines "c1 \<equiv> upd_buf l ext4_bcache_dec_ref c"
  defines "c' \<equiv> c1\<lparr>lru_root := lru_insert (lru_key c1) l (lru_root c1)\<rparr>"
  shows "bc_inv c' \<and> same_cfg c c' \<and> ext4_buf_lookup c' = (ext4_buf_lookup c)(l \<mapsto> b\<lparr>refctr := 0\<rparr>) \<and>
    lru_ctr c' = lru_ctr c \<and> dirty_list c' = dirty_list c"
proof -
  note l = inv_lookup[OF inv b(1)]
  have look1: "ext4_buf_lookup c1 = (ext4_buf_lookup c)(l \<mapsto> b\<lparr>refctr := 0\<rparr>)"
    using b by (auto simp: c1_def fun_eq_iff bc_simps ext4_bcache_dec_ref_def)
  have look: "ext4_buf_lookup c' = (ext4_buf_lookup c)(l \<mapsto> b\<lparr>refctr := 0\<rparr>)"
    unfolding c'_def lookup_fields by (rule look1)
  have key: "lru_key c1 = lru_key c" "lru_key c' = lru_key c"
    using b by (auto simp: fun_eq_iff lru_key_def look1 look)
  have roots: "lru_root c1 = lru_root c" by (simp add: c1_def bc_simps)
  have notin: "l \<notin> set (lru_root c)" using l(2) b(2) by simp
  have "\<forall>k\<in>set (lru_root c). lru_key c k \<noteq> lru_key c l"
  proof
    fix k assume k: "k \<in> set (lru_root c)"
    then obtain a where a: "ext4_buf_lookup c k = Some a" using inv by (auto simp: bc_inv_def lru_inv_def)
    have "k \<noteq> l" using k notin by auto
    then show "lru_key c k \<noteq> lru_key c l" using inv a b(1) by (auto simp: bc_inv_def bufs_inv_def lru_key_def)
  qed
  from lru_insert_sorted[OF _ this notin] inv
  have ins: "sorted_wrt (\<lambda>k k'. lru_key c k < lru_key c k') (lru_root c')" "set (lru_root c') = insert l (set (lru_root c))"
    "distinct (lru_root c')"
    by (auto simp: c'_def key roots bc_inv_def lru_inv_def)
  have flds: "map fst (lba_root c') = map fst (lba_root c)" "ref_blocks c' = ref_blocks c" "length (lba_root c') = length (lba_root c)"
    "dirty_list c' = dirty_list c" "lru_ctr c' = lru_ctr c" "itemsize c' = itemsize c" "same_cfg c c'"
    by (simp_all add: c'_def c1_def bc_simps same_cfg_def)
  have "keys_inv c'" using inv by (simp add: bc_inv_def keys_inv_def flds)
  moreover have "lru_inv c'" using inv ins by (auto simp: lru_inv_def key look bc_inv_def)
  moreover have "dirty_inv c'" using inv b by (auto simp: dirty_inv_def look flds bc_inv_def)
  moreover have "bufs_inv c'"
    by (rule bufs_inv_upd[OF inv b(1) look]) (use l b flds in \<open>auto simp: buf_ok_def\<close>)
  ultimately show ?thesis using look flds by (simp add: bc_inv_def)
qed

lemma insert_dirty_ok:
  assumes inv: "bc_inv c" and b: "ext4_buf_lookup c l = Some b" "refctr b = 0" "BC_DIRTY \<in> flags b"
  shows "\<exists>c'. ext4_bcache_insert_dirty_node l c = Some c' \<and> bc_inv c' \<and> same_cfg c c' \<and>
    ext4_buf_lookup c' = (ext4_buf_lookup c)(l \<mapsto> b\<lparr>on_dirty_list := True\<rparr>) \<and> lru_ctr c' = lru_ctr c"
proof (cases "on_dirty_list b")
  case True
  then have "b\<lparr>on_dirty_list := True\<rparr> = b" by auto
  with True assms show ?thesis by (auto simp: ext4_bcache_insert_dirty_node_def same_cfg_def fun_eq_iff)
next
  case False
  let ?c = "upd_buf l (\<lambda>b. b\<lparr>on_dirty_list := True\<rparr>) (c\<lparr>dirty_list := l # dirty_list c\<rparr>)"
  have look: "ext4_buf_lookup ?c = (ext4_buf_lookup c)(l \<mapsto> b\<lparr>on_dirty_list := True\<rparr>)"
    using b by (auto simp: fun_eq_iff bc_simps)
  have key: "lru_key ?c = lru_key c" using b by (auto simp: fun_eq_iff lru_key_def look)
  have "keys_inv ?c" using inv by (simp add: bc_inv_def keys_inv_def bc_simps)
  moreover have "lru_inv ?c" using inv b by (auto simp: bc_inv_def lru_inv_def key look bc_simps)
  moreover have "dirty_inv ?c"
  proof -
    have d: "dirty_list ?c = l # dirty_list c" by (simp add: bc_simps)
    have "l \<notin> set (dirty_list c)" using False inv_lookup(3)[OF inv b(1)] by simp
    moreover have "distinct (dirty_list c)" "\<And>k. k \<in> set (dirty_list c) \<longleftrightarrow> (\<exists>a. ext4_buf_lookup c k = Some a \<and> on_dirty_list a)"
      using inv by (auto simp: bc_inv_def dirty_inv_def)
    ultimately show ?thesis unfolding dirty_inv_def look d by simp
  qed
  moreover have "bufs_inv ?c"
    by (rule bufs_inv_upd[OF inv b(1) look]) (use inv_lookup[OF inv b(1)] b in \<open>auto simp: buf_ok_def bc_simps\<close>)
  ultimately show ?thesis
    using False b by (auto simp: ext4_bcache_insert_dirty_node_def bc_inv_def look same_cfg_def bc_simps)
qed

lemma invalidate_buf_ok:
  assumes inv: "bc_inv c" and b: "ext4_buf_lookup c l = Some b"
  shows "\<exists>c'. ext4_bcache_invalidate_buf l c = Some c' \<and> bc_inv c' \<and> same_cfg c c' \<and>
    ext4_buf_lookup c' = (ext4_buf_lookup c)(l \<mapsto> b\<lparr>flags := flags b - {BC_UPTODATE, BC_DIRTY}, on_dirty_list := False\<rparr>) \<and>
    map fst (lba_root c') = map fst (lba_root c)"
proof -
  note l = inv_lookup[OF inv b]
  have "on_dirty_list b \<longrightarrow> BC_DIRTY \<in> flags b" using l(1) by (simp add: buf_ok_def)
  from undirty_raw[OF b l(3) this] obtain c1 where 1:
    "(if ext4_bcache_test_flag b BC_DIRTY then ext4_bcache_remove_dirty_node l c else Some c) = Some c1" "same_cfg c c1"
    "ext4_buf_lookup c1 = (ext4_buf_lookup c)(l \<mapsto> b\<lparr>on_dirty_list := False\<rparr>)"
    "lru_root c1 = lru_root c" "lru_ctr c1 = lru_ctr c" "dirty_list c1 = remove1 l (dirty_list c)"
    "map fst (lba_root c1) = map fst (lba_root c)" "ref_blocks c1 = ref_blocks c" by blast
  let ?c = "upd_buf l ext4_bcache_clear_dirty c1"
  let ?b = "b\<lparr>flags := flags b - {BC_UPTODATE, BC_DIRTY}, on_dirty_list := False\<rparr>"
  have "flags b - {BC_UPTODATE} - {BC_DIRTY} = flags b - {BC_UPTODATE, BC_DIRTY}" by blast
  then have look: "ext4_buf_lookup ?c = (ext4_buf_lookup c)(l \<mapsto> ?b)"
    by (simp add: fun_eq_iff bc_simps 1(3) ext4_bcache_clear_dirty_def ext4_bcache_clear_flag_def)
  have lru: "l \<notin> set (lru_root c)" if "refctr b \<noteq> 0" using l(2) that by simp
  have "bc_inv ?c"
  proof (rule inv_change_buf[OF inv b look])
    show "buf_ok ?c ?b" using l(1) 1(2,5) by (auto simp: buf_ok_def same_cfg_def bc_simps)
    show "lru_root ?c = (if refctr ?b = 0 then lru_root c else remove1 l (lru_root c))"
      using 1(4) lru by (simp add: bc_simps remove1_idem)
  qed (use 1 in \<open>auto simp: bc_simps same_cfg_def\<close>)
  then show ?thesis using b 1 look by (auto simp: ext4_bcache_invalidate_buf_def same_cfg_def bc_simps)
qed

text \<open>LRU ids are distinct, so the counter bounds the number of buffers.\<close>

lemma bc_size:
  assumes "bc_inv c"
  shows "length (lba_root c) \<le> unat (lru_ctr c) + 1"
proof -
  let ?f = "\<lambda>l. unat (lru_key c l)"
  have look: "\<exists>b. ext4_buf_lookup c l = Some b" if "l \<in> fst ` set (lba_root c)" for l
    using that by (auto simp: ext4_buf_lookup_def dest: weak_map_of_SomeI)
  have "inj_on ?f (fst ` set (lba_root c))"
  proof (rule inj_onI)
    fix l l' assume "l \<in> fst ` set (lba_root c)" "l' \<in> fst ` set (lba_root c)" "?f l = ?f l'"
    then show "l = l'" using look[of l] look[of l'] assms
      by (auto simp: bc_inv_def bufs_inv_def lru_key_def word_unat_eq_iff[symmetric])
  qed
  then have "card (fst ` set (lba_root c)) = card (?f ` fst ` set (lba_root c))" by (simp add: card_image)
  also have "?f ` fst ` set (lba_root c) \<subseteq> {..unat (lru_ctr c)}"
    using look inv_lookup(1)[OF assms] by (fastforce simp: lru_key_def buf_ok_def word_le_nat_alt)
  then have "card (?f ` fst ` set (lba_root c)) \<le> card {..unat (lru_ctr c)}" by (intro card_mono) auto
  finally show ?thesis
    using assms distinct_card[of "map fst (lba_root c)"] by (simp add: bc_inv_def keys_inv_def)
qed

end
