(* ===== verification/Ext4_Cached.thy ===== *)
theory Ext4_Cached
  imports Ext4_Bcache
begin

text \<open>
  The block cache on top of a device. The locales \<open>logical_source\<close> and \<open>logical_store\<close> state
  what the cache relies on; they follow from the contracts of theory Ext4\_Bdev. The
  view of a cached device is the disk its users see: the buffer where one is up to date, the
  device elsewhere. Getting, releasing and flushing blocks keep the view, and writing to a buffer changes it at
  that block only, so that the cache refines an abstract disk with reference counts.
\<close>

section \<open>The device below the cache\<close>

text \<open>What the cache relies on: logical blocks can be read, and (\<open>logical_store\<close>) written.
  \<open>blk d l\<close> is the contents of block \<open>l\<close> on the device \<open>d\<close>, and the first \<open>N\<close> logical blocks
  are on the device.\<close>

locale logical_source =
  fixes ops :: "'s bdif" and good :: "'s bdev \<Rightarrow> bool" and blk :: "'s bdev \<Rightarrow> u64 \<Rightarrow> byte list" and N :: u64
  assumes get_block: "good d \<Longrightarrow> l < N \<Longrightarrow>
      \<exists>d'. ext4_blocks_get_direct ops l 1 d = Some (EOK, blk d l, d') \<and> good d' \<and> geom d' = geom d \<and> blk d' = blk d"
    and block_length: "good d \<Longrightarrow> l < N \<Longrightarrow> length (blk d l) = unat (lg_bsize d)"
    and blocks_bound: "good d \<Longrightarrow> N \<le> lg_bcnt d"

locale logical_store = logical_source +
  assumes set_block: "good d \<Longrightarrow> l < N \<Longrightarrow> length dat = unat (lg_bsize d) \<Longrightarrow>
      \<exists>d'. ext4_blocks_set_direct ops dat l 1 d = Some (EOK, d') \<and> good d' \<and> geom d' = geom d \<and> blk d' = (blk d)(l := dat)"

text \<open>Both follow from the contracts of the physical device, for a logical block size set by
  \<open>ext4_block_set_lb_size\<close>.\<close>

definition part_block :: "('s \<Rightarrow> byte list) \<Rightarrow> 's bdev \<Rightarrow> u64 \<Rightarrow> byte list" where
  "part_block content d l = take (unat (lg_bsize d)) (drop (unat (part_offset d) + unat l * unat (lg_bsize d)) (content (drv d)))"

definition lb_ok :: "('s \<Rightarrow> byte list) \<Rightarrow> nat \<Rightarrow> u64 \<Rightarrow> 's bdev \<Rightarrow> bool" where
  "lb_ok content bsize N d \<longleftrightarrow> lg_bsize d \<noteq> 0 \<and> bsize dvd unat (lg_bsize d) \<and> N \<le> lg_bcnt d \<and>
     unat (lg_bcnt d) * unat (lg_bsize d) \<le> unat (part_size d) \<and>
     unat (part_offset d) + unat N * unat (lg_bsize d) \<le> length (content (drv d))"

lemma lb_ok_geom:
  "geom d' = geom d \<Longrightarrow> length (content (drv d')) = length (content (drv d)) \<Longrightarrow>
    lb_ok content bsize N d' \<longleftrightarrow> lb_ok content bsize N d"
  by (simp add: lb_ok_def geom_def)

lemma set_lb_size_ok:
  assumes "ext4_block_set_lb_size n d = Some d'" "N \<le> lg_bcnt d'" "unat (part_offset d) + unat N * unat n \<le> length (content (drv d))"
  shows "lb_ok content (unat (ph_bsize d)) N d' \<and> lg_bsize d' = n"
proof -
  have n: "ph_bsize d \<noteq> 0" "n mod ph_bsize d = 0" "n \<noteq> 0" "d' = d\<lparr>lg_bsize := n, lg_bcnt := part_size d div ucast n\<rparr>"
    using assms(1) by (auto simp: ext4_block_set_lb_size_def split: if_splits)
  have "unat (ph_bsize d) dvd unat n" using n(2) by (metis dvd_eq_mod_eq_0 unat_0 unat_mod)
  with n assms(2,3) show ?thesis by (simp add: lb_ok_def unat_div)
qed

lemma slice_patch_other:
  assumes "o1 + length ys \<le> length xs" "a + n \<le> o1 \<or> o1 + length ys \<le> a"
  shows "take n (drop a (patch xs o1 ys)) = take n (drop a xs)"
proof (cases "a + n \<le> o1")
  case True
  then have "take n (drop a (patch xs o1 ys)) = take n (drop a (take o1 xs))"
    using assms(1) by (simp add: patch_def)
  also have "\<dots> = take n (drop a xs)" using True by (simp add: drop_take min_absorb1)
  finally show ?thesis .
next
  case False
  then have "drop a (patch xs o1 ys) = drop a xs"
    using assms by (simp add: patch_def)
  then show ?thesis by simp
qed

lemma distinct_multiples:
  fixes n k l :: nat
  assumes "k \<noteq> l"
  shows "k * n + n \<le> l * n \<or> l * n + n \<le> k * n"
proof (cases "k < l")
  case True
  then have "Suc k * n \<le> l * n" by (intro mult_le_mono1) simp
  then show ?thesis by simp
next
  case False
  then have "Suc l * n \<le> k * n" using assms by (intro mult_le_mono1) simp
  then show ?thesis by simp
qed

lemma lb_block_end:
  assumes "lb_ok content bsize N d" "l < N"
  shows "(unat l + 1) * unat (lg_bsize d) \<le> unat (part_size d)"
    "unat (part_offset d) + (unat l + 1) * unat (lg_bsize d) \<le> length (content (drv d))"
proof -
  have "unat l + 1 \<le> unat N" "unat N \<le> unat (lg_bcnt d)"
    using assms by (simp_all add: lb_ok_def word_less_nat_alt word_le_nat_alt)
  then have "(unat l + 1) * unat (lg_bsize d) \<le> unat N * unat (lg_bsize d)"
    "unat N * unat (lg_bsize d) \<le> unat (lg_bcnt d) * unat (lg_bsize d)" by (simp_all only: mult_le_mono1)
  with assms(1) show "(unat l + 1) * unat (lg_bsize d) \<le> unat (part_size d)"
    "unat (part_offset d) + (unat l + 1) * unat (lg_bsize d) \<le> length (content (drv d))"
    unfolding lb_ok_def by linarith+
qed

lemma part_block_cong:
  "geom d' = geom d \<Longrightarrow> content (drv d') = content (drv d) \<Longrightarrow> part_block content d' = part_block content d"
  by (simp add: fun_eq_iff part_block_def geom_def)

sublocale block_source < lsrc: logical_source ops "\<lambda>d. dev_ok ok content bsize d \<and> lb_ok content bsize N d" "part_block content" N for N
proof
  fix d l assume d: "dev_ok ok content bsize d \<and> lb_ok content bsize N d" and l: "l < N"
  have e: "(unat l + unat (1 :: u32)) * unat (lg_bsize d) \<le> unat (part_size d)" using lb_block_end[of content bsize N d l] d l by simp
  have e2: "unat (part_offset d) + (unat l + unat (1 :: u32)) * unat (lg_bsize d) \<le> length (content (drv d))"
    using lb_block_end[of content bsize N d l] d l by simp
  have dv: "bsize dvd unat (lg_bsize d)" using d by (simp add: lb_ok_def)
  have "unat (lg_bsize d) * unat (1 :: u32) < 2 ^ 32" using unat_less[of "lg_bsize d"] by simp
  from get_direct_ok[OF conjunct1[OF d] dv e e2 this] obtain d' where 1: "ext4_blocks_get_direct ops l 1 d = Some (EOK, part_block content d l, d')"
    "dev_ok ok content bsize d'" "geom d' = geom d" "content (drv d') = content (drv d)"
    by (auto simp: part_block_def)
  from 1 d part_block_cong[OF 1(3,4)] lb_ok_geom[OF 1(3) arg_cong[OF 1(4), of length]] show "\<exists>d'. ext4_blocks_get_direct ops l 1 d = Some (EOK, part_block content d l, d') \<and>
      (dev_ok ok content bsize d' \<and> lb_ok content bsize N d') \<and> geom d' = geom d \<and> part_block content d' = part_block content d"
    by blast
  show "length (part_block content d l) = unat (lg_bsize d)"
    using e2 by (simp add: part_block_def algebra_simps)
next
  show "N \<le> lg_bcnt d" if "dev_ok ok content bsize d \<and> lb_ok content bsize N d" for d
    using that by (simp add: lb_ok_def)
qed

sublocale block_store < lstore: logical_store ops "\<lambda>d. dev_ok ok content bsize d \<and> lb_ok content bsize N d" "part_block content" N for N
proof
  fix d l and dat :: "byte list" assume d: "dev_ok ok content bsize d \<and> lb_ok content bsize N d" and l: "l < N"
    and dat: "length dat = unat (lg_bsize d)"
  let ?n = "unat (lg_bsize d)" and ?a = "unat (part_offset d)"
  have e: "(unat l + unat (1 :: u32)) * ?n \<le> unat (part_size d)" using lb_block_end[of content bsize N d l] d l by simp
  have e2: "unat (part_offset d) + (unat l + unat (1 :: u32)) * unat (lg_bsize d) \<le> length (content (drv d))"
    using lb_block_end[of content bsize N d l] d l by simp
  have dv: "bsize dvd ?n" using d by (simp add: lb_ok_def)
  have n: "?n * unat (1 :: u32) < 2 ^ 32" "?n * unat (1 :: u32) \<le> length dat" using unat_less[of "lg_bsize d"] dat by simp_all
  from set_direct_ok[OF conjunct1[OF d] dv e e2 n] obtain d' where 1: "ext4_blocks_set_direct ops dat l 1 d = Some (EOK, d')"
    "dev_ok ok content bsize d'" "geom d' = geom d" "content (drv d') = patch (content (drv d)) (?a + unat l * ?n) dat"
    using dat by auto
  have fit: "?a + unat l * ?n + length dat \<le> length (content (drv d))" using e2 dat by (simp add: algebra_simps)
  have len: "length (content (drv d')) = length (content (drv d))" unfolding 1(4) using fit by (rule length_patch)
  have "part_block content d' k = ((part_block content d)(l := dat)) k" for k
  proof (cases "k = l")
    case True
    then show ?thesis using slice_patch_same[OF fit] dat geom_eqD[OF 1(3)] by (simp add: part_block_def 1(4))
  next
    case False
    then have "unat k * ?n + ?n \<le> unat l * ?n \<or> unat l * ?n + ?n \<le> unat k * ?n"
      by (intro distinct_multiples) (simp add: word_unat_eq_iff)
    then have "take ?n (drop (?a + unat k * ?n) (content (drv d'))) = take ?n (drop (?a + unat k * ?n) (content (drv d)))"
      unfolding 1(4) using fit dat by (intro slice_patch_other) auto
    with False geom_eqD[OF 1(3)] show ?thesis by (simp add: part_block_def)
  qed
  then have "part_block content d' = (part_block content d)(l := dat)" by blast
  with 1 d lb_ok_geom[OF 1(3) len] show "\<exists>d'. ext4_blocks_set_direct ops dat l 1 d = Some (EOK, d') \<and>
      (dev_ok ok content bsize d' \<and> lb_ok content bsize N d') \<and> geom d' = geom d \<and> part_block content d' = (part_block content d)(l := dat)"
    by blast
qed

section \<open>The disk behind the cache\<close>

definition view :: "('s bdev \<Rightarrow> u64 \<Rightarrow> byte list) \<Rightarrow> 's cdev \<Rightarrow> u64 \<Rightarrow> byte list" where
  "view blk cd l = (case ext4_buf_lookup (bc cd) l of
      Some b \<Rightarrow> if BC_UPTODATE \<in> flags b then bdata b else blk (bdv cd) l
    | None \<Rightarrow> blk (bdv cd) l)"

definition refs :: "'s cdev \<Rightarrow> u64 \<Rightarrow> nat" where
  "refs cd l = (case ext4_buf_lookup (bc cd) l of Some b \<Rightarrow> unat (refctr b) | None \<Rightarrow> 0)"

text \<open>A clean buffer agrees with the device; a dirty one only occurs above a device that
  can be written (\<open>wr\<close>), and waits on the dirty list once it is unreferenced.\<close>

definition buf_coh :: "('s bdev \<Rightarrow> u64 \<Rightarrow> byte list) \<Rightarrow> bool \<Rightarrow> u64 \<Rightarrow> 's bdev \<Rightarrow> u64 \<Rightarrow> ext4_buf \<Rightarrow> bool" where
  "buf_coh blk wr N d l b \<longleftrightarrow> l < N \<and>
     (BC_UPTODATE \<in> flags b \<and> BC_DIRTY \<notin> flags b \<longrightarrow> bdata b = blk d l) \<and>
     (BC_DIRTY \<in> flags b \<longrightarrow> wr \<and> (refctr b = 0 \<longrightarrow> on_dirty_list b))"

definition coherent ::
  "('s bdev \<Rightarrow> bool) \<Rightarrow> ('s bdev \<Rightarrow> u64 \<Rightarrow> byte list) \<Rightarrow> bool \<Rightarrow> u64 \<Rightarrow> 's cdev \<Rightarrow> bool" where
  "coherent good blk wr N cd \<longleftrightarrow> good (bdv cd) \<and> bc_inv (bc cd) \<and> itemsize (bc cd) = lg_bsize (bdv cd) \<and>
     (\<forall>l b. ext4_buf_lookup (bc cd) l = Some b \<longrightarrow> buf_coh blk wr N (bdv cd) l b)"

lemma coherentD:
  assumes "coherent good blk wr N cd"
  shows "good (bdv cd)" "bc_inv (bc cd)" "itemsize (bc cd) = lg_bsize (bdv cd)"
    "ext4_buf_lookup (bc cd) l = Some b \<Longrightarrow> buf_coh blk wr N (bdv cd) l b"
  using assms by (auto simp: coherent_def)

text \<open>Coherence, except that an unreferenced dirty buffer of block \<open>l\<close> need not be queued.\<close>

definition coherent_but ::
  "('s bdev \<Rightarrow> bool) \<Rightarrow> ('s bdev \<Rightarrow> u64 \<Rightarrow> byte list) \<Rightarrow> bool \<Rightarrow> u64 \<Rightarrow> u64 \<Rightarrow> 's cdev \<Rightarrow> bool" where
  "coherent_but good blk wr N l cd \<longleftrightarrow> good (bdv cd) \<and> bc_inv (bc cd) \<and> itemsize (bc cd) = lg_bsize (bdv cd) \<and>
     (\<forall>k b. ext4_buf_lookup (bc cd) k = Some b \<longrightarrow> buf_coh blk wr N (bdv cd) k (if k = l then b\<lparr>refctr := 1\<rparr> else b))"

lemma coherent_butI: "coherent good blk wr N cd \<Longrightarrow> coherent_but good blk wr N l cd"
  by (auto simp: coherent_def coherent_but_def buf_coh_def)

lemma coherent_butD:
  assumes "coherent_but good blk wr N l cd"
  shows "good (bdv cd)" "bc_inv (bc cd)" "itemsize (bc cd) = lg_bsize (bdv cd)"
    "ext4_buf_lookup (bc cd) k = Some b \<Longrightarrow> buf_coh blk wr N (bdv cd) k (if k = l then b\<lparr>refctr := 1\<rparr> else b)"
  using assms by (auto simp: coherent_but_def)

text \<open>Device and cache change at one block.\<close>

lemma coherent_change:
  assumes "coherent_but good blk wr N l cd" "good (bdv cd')" "geom (bdv cd') = geom (bdv cd)" "bc_inv (bc cd')" "same_cfg (bc cd) (bc cd')"
    "ext4_buf_lookup (bc cd') = (ext4_buf_lookup (bc cd))(l := ob)" "\<And>k. k \<noteq> l \<Longrightarrow> blk (bdv cd') k = blk (bdv cd) k"
    "\<And>b. ob = Some b \<Longrightarrow> buf_coh blk wr N (bdv cd') l b"
  shows "coherent good blk wr N cd'"
  unfolding coherent_def
proof (intro conjI allI impI)
  note g = geom_eqD[OF assms(3)]
  show "good (bdv cd')" "bc_inv (bc cd')" by fact+
  show "itemsize (bc cd') = lg_bsize (bdv cd')" using assms(5) g coherent_butD(3)[OF assms(1)] by (simp add: same_cfg_def)
  fix k b assume b: "ext4_buf_lookup (bc cd') k = Some b"
  show "buf_coh blk wr N (bdv cd') k b"
  proof (cases "k = l")
    case True
    then show ?thesis using b assms(6,8) by simp
  next
    case False
    then have "ext4_buf_lookup (bc cd) k = Some b" using b assms(6) by simp
    then show ?thesis using coherent_butD(4)[OF assms(1)] assms(7)[OF False] g False by (fastforce simp: buf_coh_def)
  qed
qed

lemma view_change:
  assumes "ext4_buf_lookup (bc cd') = (ext4_buf_lookup (bc cd))(l := ob)" "\<And>k. k \<noteq> l \<Longrightarrow> blk (bdv cd') k = blk (bdv cd) k"
  shows "view blk cd' = (view blk cd)(l := view blk cd' l)"
  using assms by (auto simp: fun_eq_iff view_def split: option.split)

lemma refs_change:
  assumes "ext4_buf_lookup (bc cd') = (ext4_buf_lookup (bc cd))(l := ob)"
  shows "refs cd' = (refs cd)(l := (case ob of Some b \<Rightarrow> unat (refctr b) | None \<Rightarrow> 0))"
  using assms by (auto simp: fun_eq_iff refs_def)

text \<open>The buffers that are in the cache but not up to date.\<close>

definition raw :: "'s cdev \<Rightarrow> u64 set" where
  "raw cd = {l. \<exists>b. ext4_buf_lookup (bc cd) l = Some b \<and> BC_UPTODATE \<notin> flags b}"

lemma raw_change:
  assumes "ext4_buf_lookup (bc cd') = (ext4_buf_lookup (bc cd))(l := ob)"
  shows "raw cd' \<subseteq> insert l (raw cd)" "(\<And>b. ob = Some b \<Longrightarrow> BC_UPTODATE \<in> flags b) \<Longrightarrow> raw cd' \<subseteq> raw cd"
    "ext4_buf_lookup (bc cd) l = Some a \<Longrightarrow> (\<And>b. ob = Some b \<Longrightarrow> BC_UPTODATE \<in> flags b \<longleftrightarrow> BC_UPTODATE \<in> flags a) \<Longrightarrow> raw cd' \<subseteq> raw cd"
  using assms by (auto simp: raw_def split: if_splits)

lemma held_data:
  assumes "raw cd = {}" "0 < refs cd l"
  shows "\<exists>b. ext4_buf_lookup (bc cd) l = Some b \<and> bdata b = view blk cd l"
  using assms by (auto simp: raw_def refs_def view_def split: option.splits)

text \<open>A device whose logical blocks can be written.\<close>

definition can_write :: "'s bdif \<Rightarrow> ('s bdev \<Rightarrow> bool) \<Rightarrow> ('s bdev \<Rightarrow> u64 \<Rightarrow> byte list) \<Rightarrow> u64 \<Rightarrow> bool" where
  "can_write ops good blk N \<longleftrightarrow> (\<forall>d l dat. good d \<longrightarrow> l < N \<longrightarrow> length dat = unat (lg_bsize d) \<longrightarrow>
     (\<exists>d'. ext4_blocks_set_direct ops dat l 1 d = Some (EOK, d') \<and> good d' \<and> geom d' = geom d \<and> blk d' = (blk d)(l := dat)))"

context logical_source
begin

lemma flush_buf_ok:
  assumes coh: "coherent_but good blk wr N l cd" and wr: "wr \<Longrightarrow> can_write ops good blk N" and b: "ext4_buf_lookup (bc cd) l = Some b"
  shows "\<exists>cd'. ext4_block_flush_buf ops l cd = Some (EOK, cd') \<and> coherent good blk wr N cd' \<and>
    geom (bdv cd') = geom (bdv cd) \<and> same_cfg (bc cd) (bc cd') \<and> view blk cd' = view blk cd \<and>
    ext4_buf_lookup (bc cd') = (ext4_buf_lookup (bc cd))(l \<mapsto> b\<lparr>flags := flags b - {BC_DIRTY}, on_dirty_list := False\<rparr>) \<and>
    lru_root (bc cd') = lru_root (bc cd) \<and> lru_ctr (bc cd') = lru_ctr (bc cd) \<and>
    dirty_list (bc cd') = remove1 l (dirty_list (bc cd))"
proof -
  note c = coherent_butD[OF coh]
  note l = inv_lookup[OF c(2) b] and bcoh = c(4)[OF b, simplified]
  show ?thesis
  proof (cases "BC_DIRTY \<in> flags b")
    case False
    then have "b\<lparr>flags := flags b - {BC_DIRTY}, on_dirty_list := False\<rparr> = b" "\<not> on_dirty_list b"
      using l(1) by (auto simp: buf_ok_def)
    moreover have "coherent good blk wr N cd"
      by (rule coherent_change[OF coh, where ob = "Some b"])
        (use c(1,2) b bcoh False in \<open>auto simp: buf_coh_def same_cfg_def fun_eq_iff\<close>)
    ultimately show ?thesis using False b l(3)
      by (auto simp: ext4_block_flush_buf_def ext4_bcache_test_flag_def same_cfg_def remove1_idem fun_eq_iff)
  next
    case True
    then have up: "BC_UPTODATE \<in> flags b" and len: "length (bdata b) = unat (lg_bsize (bdv cd))"
      using l(1) c(3) by (auto simp: buf_ok_def)
    from bcoh True have "wr" "l < N" by (auto simp: buf_coh_def)
    with wr c(1) len obtain d' where d: "ext4_blocks_set_direct ops (bdata b) l 1 (bdv cd) = Some (EOK, d')"
      "good d'" "geom d' = geom (bdv cd)" "blk d' = (blk (bdv cd))(l := bdata b)" unfolding can_write_def by blast
    obtain c1 where 1: "ext4_bcache_remove_dirty_node l (bc cd) = Some c1" "same_cfg (bc cd) c1"
      "ext4_buf_lookup c1 = (ext4_buf_lookup (bc cd))(l \<mapsto> b\<lparr>on_dirty_list := False\<rparr>)"
      "lru_root c1 = lru_root (bc cd)" "lru_ctr c1 = lru_ctr (bc cd)" "dirty_list c1 = remove1 l (dirty_list (bc cd))"
      "map fst (lba_root c1) = map fst (lba_root (bc cd))" "ref_blocks c1 = ref_blocks (bc cd)"
      using remove_dirty_raw[OF b l(3)] by blast
    let ?b = "b\<lparr>flags := flags b - {BC_DIRTY}, on_dirty_list := False\<rparr>"
    let ?c = "upd_buf l (ext4_bcache_clear_flag BC_DIRTY) c1" and ?cd = "cd\<lparr>bdv := d', bc := upd_buf l (ext4_bcache_clear_flag BC_DIRTY) c1\<rparr>"
    have look: "ext4_buf_lookup ?c = (ext4_buf_lookup (bc cd))(l \<mapsto> ?b)"
      by (simp add: fun_eq_iff bc_simps 1(3) ext4_bcache_clear_flag_def)
    have inv: "bc_inv ?c"
    proof (rule inv_change_buf[OF c(2) b look])
      show "buf_ok ?c ?b" using l(1) 1(2,5) by (auto simp: buf_ok_def same_cfg_def bc_simps)
      show "lru_root ?c = (if refctr ?b = 0 then lru_root (bc cd) else remove1 l (lru_root (bc cd)))"
        using 1(4) l(2) by (simp add: bc_simps remove1_idem)
    qed (use 1 in \<open>auto simp: bc_simps same_cfg_def\<close>)
    have "coherent good blk wr N ?cd"
      by (rule coherent_change[OF coh, where ob = "Some ?b"])
        (use d inv look 1 bcoh geom_eqD[OF d(3)] in \<open>auto simp: buf_coh_def same_cfg_def bc_simps\<close>)
    moreover have "view blk ?cd = view blk cd"
    proof -
      have "view blk ?cd l = view blk cd l" using up b by (simp add: view_def look)
      with view_change[of ?cd cd l "Some ?b" blk] show ?thesis using look d(4) by simp
    qed
    moreover have "ext4_block_flush_buf ops l cd = Some (EOK, ?cd)"
      using b True up d(1) 1(1) by (simp add: ext4_block_flush_buf_def ext4_bcache_test_flag_def EOK_def)
    ultimately show ?thesis
      using d(3) look 1 by (intro exI[of _ ?cd]) (auto simp: same_cfg_def bc_simps)
  qed
qed

text \<open>Dropping an unreferenced clean buffer.\<close>

lemma drop_buf_ok:
  assumes coh: "coherent good blk wr N cd" and b: "ext4_buf_lookup (bc cd) l = Some b" "refctr b = 0" "BC_DIRTY \<notin> flags b"
  shows "\<exists>c'. ext4_bcache_drop_buf l (bc cd) = Some c' \<and> coherent good blk wr N (cd\<lparr>bc := c'\<rparr>) \<and>
    same_cfg (bc cd) c' \<and> view blk (cd\<lparr>bc := c'\<rparr>) = view blk cd \<and> refs (cd\<lparr>bc := c'\<rparr>) = refs cd \<and>
    lru_root c' = remove1 l (lru_root (bc cd)) \<and> lru_ctr c' = lru_ctr (bc cd) \<and> raw (cd\<lparr>bc := c'\<rparr>) \<subseteq> raw cd"
proof -
  note c = coherentD[OF coh]
  from drop_ok[OF c(2) b(1,2)] obtain c' where 1: "ext4_bcache_drop_buf l (bc cd) = Some c'" "bc_inv c'" "same_cfg (bc cd) c'"
    "ext4_buf_lookup c' = (ext4_buf_lookup (bc cd))(l := None)" "lru_root c' = remove1 l (lru_root (bc cd))"
    "lru_ctr c' = lru_ctr (bc cd)" by blast
  have "coherent good blk wr N (cd\<lparr>bc := c'\<rparr>)"
    by (rule coherent_change[OF coherent_butI[OF coh], where l = l and ob = None]) (use c 1 in auto)
  moreover have "view blk (cd\<lparr>bc := c'\<rparr>) l = view blk cd l"
    using b c(4)[OF b(1)] by (auto simp: view_def 1(4) buf_coh_def)
  then have "view blk (cd\<lparr>bc := c'\<rparr>) = view blk cd"
    using view_change[of "cd\<lparr>bc := c'\<rparr>" cd l None blk] 1(4) by simp
  moreover have "refs (cd\<lparr>bc := c'\<rparr>) = refs cd"
    using refs_change[of "cd\<lparr>bc := c'\<rparr>" cd l None] 1(4) b(1,2) by (auto simp: fun_eq_iff refs_def)
  moreover have "raw (cd\<lparr>bc := c'\<rparr>) \<subseteq> raw cd" using raw_change(2)[of "cd\<lparr>bc := c'\<rparr>" cd l None] 1(4) by simp
  ultimately show ?thesis using 1 by blast
qed

lemma shake_loop_ok:
  assumes "coherent good blk wr N cd" and wr: "wr \<Longrightarrow> can_write ops good blk N"
  shows "\<exists>cd'. shake_loop ops cd = Some (EOK, cd') \<and> coherent good blk wr N cd' \<and> geom (bdv cd') = geom (bdv cd) \<and>
    same_cfg (bc cd) (bc cd') \<and> view blk cd' = view blk cd \<and> refs cd' = refs cd \<and> lru_ctr (bc cd') = lru_ctr (bc cd) \<and>
    (lru_root (bc cd') = [] \<or> \<not> ext4_bcache_is_full (bc cd')) \<and> raw cd' \<subseteq> raw cd"
  using assms(1)
proof (induction "length (lru_root (bc cd))" arbitrary: cd rule: less_induct)
  case less
  note coh = less.prems and c = coherentD[OF less.prems]
  show ?case
  proof (cases "lru_root (bc cd) = [] \<or> \<not> ext4_bcache_is_full (bc cd)")
    case True
    then show ?thesis using coh by (subst shake_loop.simps) (auto simp: same_cfg_def)
  next
    case False
    then obtain l ls where ls: "lru_root (bc cd) = l # ls" by (cases "lru_root (bc cd)") auto
    then obtain b where b: "ext4_buf_lookup (bc cd) l = Some b" "refctr b = 0"
      using c(2) by (auto simp: bc_inv_def lru_inv_def)
    let ?b = "b\<lparr>flags := flags b - {BC_DIRTY}, on_dirty_list := False\<rparr>"
    from flush_buf_ok[OF coherent_butI[OF coh] wr b(1)] obtain cd1 where 1: "ext4_block_flush_buf ops l cd = Some (EOK, cd1)"
      "coherent good blk wr N cd1" "geom (bdv cd1) = geom (bdv cd)" "same_cfg (bc cd) (bc cd1)" "view blk cd1 = view blk cd"
      "ext4_buf_lookup (bc cd1) = (ext4_buf_lookup (bc cd))(l \<mapsto> ?b)" "lru_root (bc cd1) = lru_root (bc cd)"
      "lru_ctr (bc cd1) = lru_ctr (bc cd)" by blast
    have refs1: "refs cd1 = refs cd" using refs_change[OF 1(6)] b by (auto simp: fun_eq_iff refs_def)
    have raw1: "raw cd1 \<subseteq> raw cd" by (rule raw_change(3)[OF 1(6) b(1)]) auto
    \<comment> \<open>a clean buffer is not flushed, but flushing would not change anything\<close>
    have step: "\<exists>cd2. (if ext4_bcache_test_flag b BC_DIRTY then ext4_block_flush_buf ops l cd else Some (EOK, cd)) = Some (EOK, cd2) \<and>
      coherent good blk wr N cd2 \<and> geom (bdv cd2) = geom (bdv cd) \<and> same_cfg (bc cd) (bc cd2) \<and> view blk cd2 = view blk cd \<and>
      refs cd2 = refs cd \<and> ext4_buf_lookup (bc cd2) l = Some ?b \<and> lru_root (bc cd2) = lru_root (bc cd) \<and> lru_ctr (bc cd2) = lru_ctr (bc cd) \<and>
      raw cd2 \<subseteq> raw cd"
    proof (cases "BC_DIRTY \<in> flags b")
      case True
      then show ?thesis using 1 refs1 raw1 by (intro exI[of _ cd1]) (simp add: ext4_bcache_test_flag_def)
    next
      case clean: False
      then have "?b = b" using inv_lookup(1)[OF c(2) b(1)] by (auto simp: buf_ok_def)
      then show ?thesis using clean coh b by (intro exI[of _ cd]) (simp add: ext4_bcache_test_flag_def same_cfg_def)
    qed
    then obtain cd2 where 2: "(if ext4_bcache_test_flag b BC_DIRTY then ext4_block_flush_buf ops l cd else Some (EOK, cd)) = Some (EOK, cd2)"
      "coherent good blk wr N cd2" "geom (bdv cd2) = geom (bdv cd)" "same_cfg (bc cd) (bc cd2)" "view blk cd2 = view blk cd" "refs cd2 = refs cd"
      "ext4_buf_lookup (bc cd2) l = Some ?b" "lru_root (bc cd2) = lru_root (bc cd)" "lru_ctr (bc cd2) = lru_ctr (bc cd)" "raw cd2 \<subseteq> raw cd" by blast
    have "refctr ?b = 0" "BC_DIRTY \<notin> flags ?b" using b by simp_all
    from drop_buf_ok[OF 2(2) 2(7) this] obtain c3 where 3: "ext4_bcache_drop_buf l (bc cd2) = Some c3"
      "coherent good blk wr N (cd2\<lparr>bc := c3\<rparr>)" "same_cfg (bc cd2) c3" "view blk (cd2\<lparr>bc := c3\<rparr>) = view blk cd2"
      "refs (cd2\<lparr>bc := c3\<rparr>) = refs cd2" "lru_root c3 = remove1 l (lru_root (bc cd2))" "lru_ctr c3 = lru_ctr (bc cd2)" "raw (cd2\<lparr>bc := c3\<rparr>) \<subseteq> raw cd2" by blast
    have "length (lru_root (bc (cd2\<lparr>bc := c3\<rparr>))) < length (lru_root (bc cd))" using 3(6) 2(8) ls by simp
    from less.hyps[OF this 3(2)] obtain cd' where "shake_loop ops (cd2\<lparr>bc := c3\<rparr>) = Some (EOK, cd')" "coherent good blk wr N cd'"
      "geom (bdv cd') = geom (bdv cd2)" "same_cfg c3 (bc cd')" "view blk cd' = view blk cd" "refs cd' = refs cd"
      "lru_ctr (bc cd') = lru_ctr (bc cd)" "lru_root (bc cd') = [] \<or> \<not> ext4_bcache_is_full (bc cd')" "raw cd' \<subseteq> raw (cd2\<lparr>bc := c3\<rparr>)"
      using 2(5,6,9) 3(4,5,7) by auto
    moreover have "shake_loop ops cd = shake_loop ops (cd2\<lparr>bc := c3\<rparr>)"
      using False ls b(1) 2(1) 3(1) by (subst shake_loop.simps) (simp add: ext4_buf_lowest_lru_def)
    ultimately show ?thesis
      using 2(3,4,10) 3(3,8) by (intro exI[of _ cd']) (auto intro: same_cfg_trans)
  qed
qed

lemma shake_ok:
  assumes coh: "coherent good blk wr N cd" and wr: "wr \<Longrightarrow> can_write ops good blk N"
  shows "\<exists>cd'. ext4_block_cache_shake ops cd = Some (EOK, cd') \<and> coherent good blk wr N cd' \<and> geom (bdv cd') = geom (bdv cd) \<and>
    same_cfg (bc cd) (bc cd') \<and> view blk cd' = view blk cd \<and> refs cd' = refs cd \<and> lru_ctr (bc cd') = lru_ctr (bc cd) \<and>
    raw cd' \<subseteq> raw cd"
proof (cases "dont_shake (bc cd)")
  case True
  then show ?thesis using coh by (auto simp: ext4_block_cache_shake_def same_cfg_def)
next
  case False
  have flag: "coherent good blk wr N (cd\<lparr>bc := (bc cd)\<lparr>dont_shake := v\<rparr>\<rparr>) = coherent good blk wr N cd"
    "view blk (cd\<lparr>bc := (bc cd)\<lparr>dont_shake := v\<rparr>\<rparr>) = view blk cd" "refs (cd\<lparr>bc := (bc cd)\<lparr>dont_shake := v\<rparr>\<rparr>) = refs cd"
    "raw (cd\<lparr>bc := (bc cd)\<lparr>dont_shake := v\<rparr>\<rparr>) = raw cd" for v cd
    by (simp_all add: coherent_def bc_inv_defs view_def refs_def raw_def fun_eq_iff lru_key_def bc_simps split: option.split)
  from shake_loop_ok[OF flag(1)[of True cd, THEN iffD2, OF coh] wr] obtain cd' where
    1: "shake_loop ops (cd\<lparr>bc := (bc cd)\<lparr>dont_shake := True\<rparr>\<rparr>) = Some (EOK, cd')" "coherent good blk wr N cd'"
    "geom (bdv cd') = geom (bdv cd)" "same_cfg ((bc cd)\<lparr>dont_shake := True\<rparr>) (bc cd')" "view blk cd' = view blk cd" "refs cd' = refs cd"
    "lru_ctr (bc cd') = lru_ctr (bc cd)" "raw cd' \<subseteq> raw cd" by (auto simp: flag)
  then show ?thesis using False
    by (intro exI[of _ "cd'\<lparr>bc := (bc cd')\<lparr>dont_shake := False\<rparr>\<rparr>"])
      (auto simp: ext4_block_cache_shake_def flag same_cfg_def)
qed

lemma get_noread_ok:
  assumes coh: "coherent good blk wr N cd" and wr: "wr \<Longrightarrow> can_write ops good blk N"
    and pre: "ph_refctr (bdv cd) \<noteq> 0" "l < N" "length dat = unat (lg_bsize (bdv cd))"
    and ctr: "unat (lru_ctr (bc cd)) + 2 < 2 ^ 32" "refs cd l + 1 < 2 ^ 32"
  shows "\<exists>cd' b. ext4_block_get_noread ops (Some dat) h l cd = Some (EOK, \<lparr>lb_id = l, hbuf = Some l\<rparr>, cd') \<and>
    coherent good blk wr N cd' \<and> geom (bdv cd') = geom (bdv cd) \<and> same_cfg (bc cd) (bc cd') \<and> view blk cd' = view blk cd \<and>
    refs cd' = (refs cd)(l := refs cd l + 1) \<and> ext4_buf_lookup (bc cd') l = Some b \<and> refctr b \<noteq> 0 \<and>
    unat (lru_ctr (bc cd')) \<le> unat (lru_ctr (bc cd)) + 1 \<and> raw cd' \<subseteq> insert l (raw cd)"
proof -
  from shake_ok[OF coh wr] obtain cd1 where 1: "ext4_block_cache_shake ops cd = Some (EOK, cd1)" "coherent good blk wr N cd1"
    "geom (bdv cd1) = geom (bdv cd)" "same_cfg (bc cd) (bc cd1)" "view blk cd1 = view blk cd" "refs cd1 = refs cd"
    "lru_ctr (bc cd1) = lru_ctr (bc cd)" "raw cd1 \<subseteq> raw cd" by blast
  note c = coherentD[OF 1(2)] and g = geom_eqD[OF 1(3)]
  let ?h = "\<lparr>lb_id = l, hbuf = Some l\<rparr>"
  have "\<exists>c' b is_new. ext4_bcache_alloc (Some dat) (h\<lparr>lb_id := l\<rparr>) (bc cd1) = Some (EOK, ?h, is_new, c') \<and>
    bc_inv c' \<and> same_cfg (bc cd1) c' \<and> ext4_buf_lookup c' = (ext4_buf_lookup (bc cd1))(l \<mapsto> b) \<and>
    unat (lru_ctr c') \<le> unat (lru_ctr (bc cd1)) + 1 \<and> buf_coh blk wr N (bdv cd1) l b \<and> refctr b \<noteq> 0 \<and>
    unat (refctr b) = refs cd1 l + 1 \<and> view blk (cd1\<lparr>bc := c'\<rparr>) l = view blk cd1 l"
  proof (cases "ext4_buf_lookup (bc cd1) l")
    case None
    have len: "length dat = unat (itemsize (bc cd1))" using pre(3) c(3) g by simp
    have "length (lba_root (bc cd1)) + 1 < 2 ^ 32" using bc_size[OF c(2)] ctr(1) 1(7) by simp
    with alloc_new_ok[OF c(2) _ len, of "h\<lparr>lb_id := l\<rparr>"] None ctr(1) 1(7) obtain c' where
      n: "ext4_bcache_alloc (Some dat) (h\<lparr>lb_id := l\<rparr>) (bc cd1) = Some (EOK, ?h, True, c')" "bc_inv c'" "same_cfg (bc cd1) c'"
      "ext4_buf_lookup c' = (ext4_buf_lookup (bc cd1))(l \<mapsto>
        \<lparr>flags = {}, bdata = dat, lru_id = lru_ctr (bc cd1) + 1, refctr = 1, on_dirty_list = False\<rparr>)"
      "unat (lru_ctr c') = unat (lru_ctr (bc cd1)) + 1" by auto
    then show ?thesis using None pre(2) g
      by (auto simp: buf_coh_def refs_def view_def)
  next
    case (Some b)
    have r: "unat (refctr b) = refs cd1 l" using Some by (simp add: refs_def)
    with find_get_ok[OF c(2) Some] ctr 1(6,7) obtain c' b' where
      f: "ext4_bcache_find_get l (bc cd1) = Some (Some ?h, c')" "bc_inv c'" "same_cfg (bc cd1) c'"
      "ext4_buf_lookup c' = (ext4_buf_lookup (bc cd1))(l \<mapsto> b')" "flags b' = flags b" "bdata b' = bdata b"
      "refctr b' = refctr b + 1" "unat (lru_ctr c') \<le> unat (lru_ctr (bc cd1)) + 1" by auto
    have "unat (refctr b') = refs cd1 l + 1" using unat_Suc_bound[of "refctr b"] r ctr(2) 1(6) f(7) by simp
    moreover from this have "refctr b' \<noteq> 0" by auto
    ultimately show ?thesis using f c(4)[OF Some] Some
      by (auto simp: ext4_bcache_alloc_def buf_coh_def view_def)
  qed
  then obtain c' b is_new where 2: "ext4_bcache_alloc (Some dat) (h\<lparr>lb_id := l\<rparr>) (bc cd1) = Some (EOK, ?h, is_new, c')"
    "bc_inv c'" "same_cfg (bc cd1) c'" "ext4_buf_lookup c' = (ext4_buf_lookup (bc cd1))(l \<mapsto> b)"
    "unat (lru_ctr c') \<le> unat (lru_ctr (bc cd1)) + 1" "buf_coh blk wr N (bdv cd1) l b" "refctr b \<noteq> 0"
    "unat (refctr b) = refs cd1 l + 1" "view blk (cd1\<lparr>bc := c'\<rparr>) l = view blk cd1 l" by blast
  let ?cd = "cd1\<lparr>bc := c'\<rparr>"
  have "coherent good blk wr N ?cd"
    by (rule coherent_change[OF coherent_butI[OF 1(2)], where l = l and ob = "Some b"]) (use c 2 in auto)
  moreover have "view blk ?cd = view blk cd"
    using view_change[of ?cd cd1 l "Some b" blk] 2(4,9) 1(5) by simp
  moreover have "refs ?cd = (refs cd)(l := refs cd l + 1)"
    using refs_change[of ?cd cd1 l "Some b"] 2(4,8) 1(6) by simp
  moreover have "ext4_block_get_noread ops (Some dat) h l cd = Some (EOK, ?h, ?cd)"
    using pre 1(1) 2(1) order_less_le_trans[OF pre(2) blocks_bound[OF coherentD(1)[OF coh]]]
    by (simp add: ext4_block_get_noread_def)
  moreover have "raw ?cd \<subseteq> insert l (raw cd)" using raw_change(1)[of ?cd cd1 l "Some b"] 2(4) 1(8) by auto
  ultimately show ?thesis
    using 1 2 by (intro exI[of _ ?cd] exI[of _ b]) (auto intro: same_cfg_trans)
qed

lemma get_ok:
  assumes coh: "coherent good blk wr N cd" and wr: "wr \<Longrightarrow> can_write ops good blk N"
    and pre: "ph_refctr (bdv cd) \<noteq> 0" "l < N" "length dat = unat (lg_bsize (bdv cd))"
    and ctr: "unat (lru_ctr (bc cd)) + 2 < 2 ^ 32" "refs cd l + 1 < 2 ^ 32"
  shows "\<exists>cd' b. ext4_block_get ops (Some dat) h l cd = Some (EOK, \<lparr>lb_id = l, hbuf = Some l\<rparr>, cd') \<and>
    coherent good blk wr N cd' \<and> geom (bdv cd') = geom (bdv cd) \<and> same_cfg (bc cd) (bc cd') \<and> view blk cd' = view blk cd \<and>
    refs cd' = (refs cd)(l := refs cd l + 1) \<and> ext4_buf_lookup (bc cd') l = Some b \<and> bdata b = view blk cd l \<and>
    unat (lru_ctr (bc cd')) \<le> unat (lru_ctr (bc cd)) + 1 \<and> raw cd' \<subseteq> raw cd"
proof -
  let ?h = "\<lparr>lb_id = l, hbuf = Some l\<rparr>"
  from get_noread_ok[OF assms] obtain cd1 b where 1: "ext4_block_get_noread ops (Some dat) h l cd = Some (EOK, ?h, cd1)"
    "coherent good blk wr N cd1" "geom (bdv cd1) = geom (bdv cd)" "same_cfg (bc cd) (bc cd1)" "view blk cd1 = view blk cd"
    "refs cd1 = (refs cd)(l := refs cd l + 1)" "ext4_buf_lookup (bc cd1) l = Some b" "refctr b \<noteq> 0"
    "unat (lru_ctr (bc cd1)) \<le> unat (lru_ctr (bc cd)) + 1" "raw cd1 \<subseteq> insert l (raw cd)" by blast
  note c = coherentD[OF 1(2)]
  show ?thesis
  proof (cases "BC_UPTODATE \<in> flags b")
    case True
    then have "bdata b = view blk cd1 l" using 1(7) by (simp add: view_def)
    moreover have "raw cd1 \<subseteq> raw cd" using True 1(7,10) by (auto simp: raw_def)
    ultimately show ?thesis using True 1 by (auto simp: ext4_block_get_def ext4_bcache_test_flag_def)
  next
    case False
    have l: "l < N" by (rule pre(2))
    from get_block[OF c(1) l] obtain d where d: "ext4_blocks_get_direct ops l 1 (bdv cd1) = Some (EOK, blk (bdv cd1) l, d)"
      "good d" "geom d = geom (bdv cd1)" "blk d = blk (bdv cd1)" by blast
    note bok = inv_lookup(1)[OF c(2) 1(7)]
    have len: "length (blk (bdv cd1) l) = length (bdata b)"
      using block_length[OF c(1) l] bok c(3) by (simp add: buf_ok_def)
    have clean: "BC_DIRTY \<notin> flags b" "\<not> on_dirty_list b" using bok False by (auto simp: buf_ok_def)
    let ?b = "b\<lparr>flags := insert BC_UPTODATE (flags b), bdata := blk (bdv cd1) l\<rparr>"
    let ?c1 = "upd_buf l (\<lambda>b. b\<lparr>bdata := blk (bdv cd1) l\<rparr>) (bc cd1)"
    let ?c = "upd_buf l (ext4_bcache_set_flag BC_UPTODATE) ?c1"
    let ?cd = "\<lparr>bdv = d, bc = ?c\<rparr>"
    have look1: "ext4_buf_lookup ?c1 l = Some (b\<lparr>bdata := blk (bdv cd1) l\<rparr>)" using 1(7) by (simp add: bc_simps)
    have look: "ext4_buf_lookup ?c = (ext4_buf_lookup (bc cd1))(l \<mapsto> ?b)"
      using 1(7) by (auto simp: fun_eq_iff bc_simps ext4_bcache_set_flag_def)
    have "bc_inv ?c1" by (rule inv_upd_buf[OF c(2) 1(7)]) (use bok len in \<open>auto simp: buf_ok_def\<close>)
    then have inv: "bc_inv ?c"
      by (rule inv_upd_buf[OF _ look1]) (use bok len clean in \<open>auto simp: buf_ok_def bc_simps ext4_bcache_set_flag_def\<close>)
    have "coherent good blk wr N ?cd"
      by (rule coherent_change[OF coherent_butI[OF 1(2)], where l = l and ob = "Some ?b"])
        (use d inv look clean l geom_eqD[OF d(3)] in \<open>auto simp: buf_coh_def same_cfg_def bc_simps\<close>)
    moreover have vl: "view blk cd1 l = blk (bdv cd1) l" using 1(7) False by (simp add: view_def)
    have "view blk ?cd l = view blk cd1 l" unfolding vl by (simp add: view_def look)
    then have "view blk ?cd = view blk cd"
      using view_change[of ?cd cd1 l "Some ?b" blk] look d(4) 1(5) by simp
    moreover have "refs ?cd = refs cd1"
      using refs_change[of ?cd cd1 l "Some ?b"] look 1(7) by (auto simp: fun_eq_iff refs_def)
    moreover have "ext4_block_get ops (Some dat) h l cd = Some (EOK, ?h, ?cd)"
      using 1(1,7) False d(1) len
      by (simp add: ext4_block_get_def ext4_bcache_test_flag_def buf_set_patch patch_all)
    moreover have "same_cfg (bc cd) ?c" using 1(4) by (simp add: same_cfg_def bc_simps)
    moreover have "unat (lru_ctr ?c) \<le> unat (lru_ctr (bc cd)) + 1" using 1(9) by (simp add: bc_simps)
    moreover have "bdata ?b = view blk cd l" using vl 1(5) by simp
    moreover have "raw ?cd \<subseteq> raw cd" using 1(10) look by (auto simp: raw_def split: if_splits)
    ultimately show ?thesis using 1(3,6) d(3) look by (intro exI[of _ ?cd] exI[of _ ?b]) simp
  qed
qed

text \<open>The last reference is given up: the buffer is queued, flushed, dropped or kept.\<close>

lemma last_put_ok:
  assumes coh: "coherent good blk wr N cd" and wr: "wr \<Longrightarrow> can_write ops good blk N"
    and b: "ext4_buf_lookup (bc cd) l = Some b" "refctr b = 1" and l: "l \<noteq> 0"
  shows "\<exists>cd'. ext4_bcache_free ops \<lparr>lb_id = l, hbuf = Some l\<rparr> cd = Some (EOK, \<lparr>lb_id = 0, hbuf = Some l\<rparr>, cd') \<and>
    coherent good blk wr N cd' \<and> geom (bdv cd') = geom (bdv cd) \<and> same_cfg (bc cd) (bc cd') \<and> view blk cd' = view blk cd \<and>
    refs cd' = (refs cd)(l := 0) \<and> lru_ctr (bc cd') = lru_ctr (bc cd) \<and> raw cd' \<subseteq> raw cd"
proof -
  note c = coherentD[OF coh]
  note bok = inv_lookup[OF c(2) b(1)] and bcoh = c(4)[OF b(1)]
  let ?c1 = "upd_buf l ext4_bcache_dec_ref (bc cd)"
  let ?c2 = "?c1\<lparr>lru_root := lru_insert (lru_key ?c1) l (lru_root ?c1)\<rparr>"
  let ?b = "b\<lparr>refctr := 0\<rparr>"
  have 2: "bc_inv ?c2" "same_cfg (bc cd) ?c2" "ext4_buf_lookup ?c2 = (ext4_buf_lookup (bc cd))(l \<mapsto> ?b)"
    "lru_ctr ?c2 = lru_ctr (bc cd)" using release_ok[OF c(2) b] by simp_all
  define q where "q = (if ext4_bcache_test_flag b BC_DIRTY \<and> ext4_bcache_test_flag b BC_UPTODATE then
       (if cache_write_back (bdv cd) \<noteq> 0 \<and> \<not> ext4_bcache_test_flag b BC_FLUSH \<and> \<not> ext4_bcache_test_flag b BC_TMP
        then map_option (\<lambda>c. cd\<lparr>bc := c\<rparr>) (ext4_bcache_insert_dirty_node l ?c2)
        else do {
          (_, cd) \<leftarrow> ext4_block_flush_buf ops l (cd\<lparr>bc := ?c2\<rparr>);
          Some (cd\<lparr>bc := upd_buf l (ext4_bcache_clear_flag BC_FLUSH) (bc cd)\<rparr>) })
     else Some (cd\<lparr>bc := ?c2\<rparr>))"
  have free: "ext4_bcache_free ops \<lparr>lb_id = l, hbuf = Some l\<rparr> cd = do {
      cd \<leftarrow> q;
      cd \<leftarrow> (if \<not> ext4_bcache_test_flag b BC_UPTODATE \<or> ext4_bcache_test_flag b BC_TMP
            then map_option (\<lambda>c. cd\<lparr>bc := c\<rparr>) (ext4_bcache_drop_buf l (bc cd)) else Some cd);
      Some (EOK, \<lparr>lb_id = 0, hbuf = Some l\<rparr>, cd) }"
    using l b by (simp add: ext4_bcache_free_def q_def Let_def)
  \<comment> \<open>after the queueing or flushing\<close>
  have "\<exists>cd3 b3. q = Some cd3 \<and> coherent good blk wr N cd3 \<and> geom (bdv cd3) = geom (bdv cd) \<and> same_cfg (bc cd) (bc cd3) \<and>
    view blk cd3 = view blk cd \<and> ext4_buf_lookup (bc cd3) = (ext4_buf_lookup (bc cd))(l \<mapsto> b3) \<and> refctr b3 = 0 \<and>
    lru_ctr (bc cd3) = lru_ctr (bc cd) \<and> (BC_DIRTY \<in> flags b3 \<longrightarrow> BC_UPTODATE \<in> flags b \<and> BC_TMP \<notin> flags b) \<and>
    (BC_UPTODATE \<in> flags b3 \<longleftrightarrow> BC_UPTODATE \<in> flags b)"
  proof (cases "BC_DIRTY \<in> flags b")
    case False
    then have q: "q = Some (cd\<lparr>bc := ?c2\<rparr>)" by (simp add: q_def ext4_bcache_test_flag_def)
    have "coherent good blk wr N (cd\<lparr>bc := ?c2\<rparr>)"
      by (rule coherent_change[OF coherent_butI[OF coh], where l = l and ob = "Some ?b"]) (use c 2 False bcoh in \<open>auto simp: buf_coh_def\<close>)
    moreover have "view blk (cd\<lparr>bc := ?c2\<rparr>) l = view blk cd l" using b by (simp add: view_def 2(3))
    then have "view blk (cd\<lparr>bc := ?c2\<rparr>) = view blk cd"
      using view_change[of "cd\<lparr>bc := ?c2\<rparr>" cd l "Some ?b" blk] 2(3) by simp
    ultimately show ?thesis using q 2 False by (intro exI[of _ "cd\<lparr>bc := ?c2\<rparr>"] exI[of _ ?b]) simp
  next
    case dirty: True
    then have up: "BC_UPTODATE \<in> flags b" and w: wr using bok(1) bcoh by (auto simp: buf_ok_def buf_coh_def)
    show ?thesis
    proof (cases "cache_write_back (bdv cd) \<noteq> 0 \<and> BC_FLUSH \<notin> flags b \<and> BC_TMP \<notin> flags b")
      case True
      have "ext4_buf_lookup ?c2 l = Some ?b" "refctr ?b = 0" "BC_DIRTY \<in> flags ?b" using 2(3) dirty by simp_all
      from insert_dirty_ok[OF 2(1) this] obtain c3 where 3: "ext4_bcache_insert_dirty_node l ?c2 = Some c3" "bc_inv c3"
        "same_cfg ?c2 c3" "ext4_buf_lookup c3 = (ext4_buf_lookup (bc cd))(l \<mapsto> ?b\<lparr>on_dirty_list := True\<rparr>)" "lru_ctr c3 = lru_ctr (bc cd)"
        unfolding 2(3,4) by auto
      have q: "q = Some (cd\<lparr>bc := c3\<rparr>)" using True dirty up 3(1) by (simp add: q_def ext4_bcache_test_flag_def)
      have cfg: "same_cfg (bc cd) c3" using same_cfg_trans[OF 2(2) 3(3)] .
      have "coherent good blk wr N (cd\<lparr>bc := c3\<rparr>)"
        by (rule coherent_change[OF coherent_butI[OF coh], where l = l and ob = "Some (?b\<lparr>on_dirty_list := True\<rparr>)"])
          (use c cfg 3 dirty bcoh in \<open>auto simp: buf_coh_def\<close>)
      moreover have "view blk (cd\<lparr>bc := c3\<rparr>) l = view blk cd l" using b by (simp add: view_def 3(4))
      then have "view blk (cd\<lparr>bc := c3\<rparr>) = view blk cd"
        using view_change[of "cd\<lparr>bc := c3\<rparr>" cd l _ blk] 3(4) by simp
      ultimately show ?thesis using q 3 cfg up True
        by (intro exI[of _ "cd\<lparr>bc := c3\<rparr>"] exI[of _ "?b\<lparr>on_dirty_list := True\<rparr>"]) simp
    next
      case False
      \<comment> \<open>flushing does not need the buffer to be queued\<close>
      let ?cd2 = "cd\<lparr>bc := ?c2\<rparr>"
      have but: "coherent_but good blk wr N l ?cd2"
        unfolding coherent_but_def using c 2 bcoh by (auto simp: buf_coh_def same_cfg_def)
      have look2: "ext4_buf_lookup (bc ?cd2) l = Some ?b" using 2(3) by simp
      let ?b3 = "?b\<lparr>flags := flags b - {BC_DIRTY}, on_dirty_list := False\<rparr>"
      from flush_buf_ok[OF but wr look2] obtain cd3 where 3: "ext4_block_flush_buf ops l ?cd2 = Some (EOK, cd3)"
        "coherent good blk wr N cd3" "geom (bdv cd3) = geom (bdv cd)" "same_cfg ?c2 (bc cd3)" "view blk cd3 = view blk ?cd2"
        "ext4_buf_lookup (bc cd3) = (ext4_buf_lookup (bc cd))(l \<mapsto> ?b3)" "lru_ctr (bc cd3) = lru_ctr (bc cd)"
        using 2(3,4) by auto
      let ?c4 = "upd_buf l (ext4_bcache_clear_flag BC_FLUSH) (bc cd3)"
      let ?cd4 = "cd3\<lparr>bc := ?c4\<rparr>" and ?b4 = "?b3\<lparr>flags := flags b - {BC_DIRTY} - {BC_FLUSH}\<rparr>"
      have q: "q = Some ?cd4" using False dirty up 3(1) by (auto simp: q_def ext4_bcache_test_flag_def)
      have look4: "ext4_buf_lookup ?c4 = (ext4_buf_lookup (bc cd3))(l \<mapsto> ?b4)"
        by (simp add: fun_eq_iff bc_simps 3(6) ext4_bcache_clear_flag_def)
      have look3: "ext4_buf_lookup (bc cd3) l = Some ?b3" using 3(6) by simp
      note c3 = coherentD[OF 3(2)]
      have inv4: "bc_inv ?c4"
        by (rule inv_upd_buf[OF c3(2) look3])
          (use inv_lookup(1)[OF c3(2) look3] in \<open>auto simp: buf_ok_def ext4_bcache_clear_flag_def\<close>)
      have "coherent good blk wr N ?cd4"
        by (rule coherent_change[OF coherent_butI[OF 3(2)], where l = l and ob = "Some ?b4"])
          (use c3 inv4 look4 c3(4)[OF look3] in \<open>auto simp: buf_coh_def same_cfg_def bc_simps\<close>)
      moreover have "view blk ?cd4 = view blk cd3"
        using view_change[of ?cd4 cd3 l "Some ?b4" blk] look4 look3 by (simp add: view_def fun_eq_iff)
      moreover have "view blk ?cd2 l = view blk cd l" using b by (simp add: view_def 2(3))
      then have "view blk ?cd2 = view blk cd" using view_change[of ?cd2 cd l "Some ?b" blk] 2(3) by simp
      moreover have "same_cfg (bc cd) ?c4" using same_cfg_trans[OF 2(2) 3(4)] by (simp add: same_cfg_def bc_simps)
      moreover have "ext4_buf_lookup ?c4 = (ext4_buf_lookup (bc cd))(l \<mapsto> ?b4)" unfolding look4 3(6) by simp
      ultimately show ?thesis using q 3 by (intro exI[of _ ?cd4] exI[of _ ?b4]) (simp add: bc_simps)
    qed
  qed
  then obtain cd3 b3 where 3: "q = Some cd3" "coherent good blk wr N cd3" "geom (bdv cd3) = geom (bdv cd)" "same_cfg (bc cd) (bc cd3)"
    "view blk cd3 = view blk cd" "ext4_buf_lookup (bc cd3) = (ext4_buf_lookup (bc cd))(l \<mapsto> b3)" "refctr b3 = 0"
    "lru_ctr (bc cd3) = lru_ctr (bc cd)" "BC_DIRTY \<in> flags b3 \<longrightarrow> BC_UPTODATE \<in> flags b \<and> BC_TMP \<notin> flags b"
    "BC_UPTODATE \<in> flags b3 \<longleftrightarrow> BC_UPTODATE \<in> flags b" by blast
  have raw3: "raw cd3 \<subseteq> raw cd" by (rule raw_change(3)[OF 3(6) b(1)]) (use 3(10) in simp)
  have refs3: "refs cd3 = (refs cd)(l := 0)" using refs_change[OF 3(6)] 3(7) by simp
  show ?thesis
  proof (cases "BC_UPTODATE \<in> flags b \<and> BC_TMP \<notin> flags b")
    case True
    then show ?thesis using 3 refs3 raw3 by (intro exI[of _ cd3]) (simp add: free ext4_bcache_test_flag_def)
  next
    case False
    then have look3: "ext4_buf_lookup (bc cd3) l = Some b3" "BC_DIRTY \<notin> flags b3" using 3(6,9) by auto
    from drop_buf_ok[OF 3(2) look3(1) 3(7) look3(2)] obtain c4 where 4: "ext4_bcache_drop_buf l (bc cd3) = Some c4"
      "coherent good blk wr N (cd3\<lparr>bc := c4\<rparr>)" "same_cfg (bc cd3) c4" "view blk (cd3\<lparr>bc := c4\<rparr>) = view blk cd3"
      "refs (cd3\<lparr>bc := c4\<rparr>) = refs cd3" "lru_ctr c4 = lru_ctr (bc cd3)" "raw (cd3\<lparr>bc := c4\<rparr>) \<subseteq> raw cd3" by blast
    then show ?thesis using 3 refs3 raw3 False
      by (intro exI[of _ "cd3\<lparr>bc := c4\<rparr>"]) (auto simp: free ext4_bcache_test_flag_def intro: same_cfg_trans)
  qed
qed

lemma put_ok:
  assumes coh: "coherent good blk wr N cd" and wr: "wr \<Longrightarrow> can_write ops good blk N" and r: "0 < refs cd l" and l: "l \<noteq> 0"
    and open_dev: "ph_refctr (bdv cd) \<noteq> 0"
  shows "\<exists>cd'. ext4_block_set ops \<lparr>lb_id = l, hbuf = Some l\<rparr> cd = Some (EOK, \<lparr>lb_id = 0, hbuf = Some l\<rparr>, cd') \<and>
    coherent good blk wr N cd' \<and> geom (bdv cd') = geom (bdv cd) \<and> same_cfg (bc cd) (bc cd') \<and> view blk cd' = view blk cd \<and>
    refs cd' = (refs cd)(l := refs cd l - 1) \<and> lru_ctr (bc cd') = lru_ctr (bc cd) \<and> raw cd' \<subseteq> raw cd"
proof -
  note c = coherentD[OF coh]
  obtain b where b: "ext4_buf_lookup (bc cd) l = Some b" "unat (refctr b) = refs cd l"
    using r by (auto simp: refs_def split: option.splits)
  have nz: "refctr b \<noteq> 0" using b(2) r by auto
  have "\<exists>cd'. ext4_bcache_free ops \<lparr>lb_id = l, hbuf = Some l\<rparr> cd = Some (EOK, \<lparr>lb_id = 0, hbuf = Some l\<rparr>, cd') \<and>
    coherent good blk wr N cd' \<and> geom (bdv cd') = geom (bdv cd) \<and> same_cfg (bc cd) (bc cd') \<and> view blk cd' = view blk cd \<and>
    refs cd' = (refs cd)(l := refs cd l - 1) \<and> lru_ctr (bc cd') = lru_ctr (bc cd) \<and> raw cd' \<subseteq> raw cd"
  proof (cases "refctr b = 1")
    case True
    then show ?thesis using last_put_ok[OF coh wr b(1) True l] b(2) by simp
  next
    case False
    let ?c = "upd_buf l ext4_bcache_dec_ref (bc cd)" and ?b = "ext4_bcache_dec_ref b"
    have dec: "refctr b - 1 \<noteq> 0" using False by (metis diff_add_cancel add_0)
    have look: "ext4_buf_lookup ?c = (ext4_buf_lookup (bc cd))(l \<mapsto> ?b)" using b by (auto simp: fun_eq_iff bc_simps)
    have inv: "bc_inv ?c"
      by (rule inv_upd_buf[OF c(2) b(1)])
        (use nz dec inv_lookup(1)[OF c(2) b(1)] in \<open>auto simp: ext4_bcache_dec_ref_def buf_ok_def\<close>)
    have "coherent good blk wr N (cd\<lparr>bc := ?c\<rparr>)"
      by (rule coherent_change[OF coherent_butI[OF coh], where l = l and ob = "Some ?b"])
        (use c inv look c(4)[OF b(1)] dec in \<open>auto simp: buf_coh_def same_cfg_def bc_simps ext4_bcache_dec_ref_def\<close>)
    moreover have "view blk (cd\<lparr>bc := ?c\<rparr>) l = view blk cd l" using b by (simp add: view_def look ext4_bcache_dec_ref_def)
    then have "view blk (cd\<lparr>bc := ?c\<rparr>) = view blk cd" using view_change[of "cd\<lparr>bc := ?c\<rparr>" cd l "Some ?b" blk] look by simp
    moreover have "refs (cd\<lparr>bc := ?c\<rparr>) = (refs cd)(l := refs cd l - 1)"
      using refs_change[of "cd\<lparr>bc := ?c\<rparr>" cd l "Some ?b"] look nz b(2) by (simp add: ext4_bcache_dec_ref_def unat_minus_one)
    moreover have "ext4_bcache_free ops \<lparr>lb_id = l, hbuf = Some l\<rparr> cd = Some (EOK, \<lparr>lb_id = 0, hbuf = Some l\<rparr>, cd\<lparr>bc := ?c\<rparr>)"
      using l b nz dec by (simp add: ext4_bcache_free_def)
    moreover have "raw (cd\<lparr>bc := ?c\<rparr>) \<subseteq> raw cd"
      by (rule raw_change(3)[where l = l and ob = "Some ?b", OF _ b(1)]) (use look in \<open>auto simp: ext4_bcache_dec_ref_def\<close>)
    ultimately show ?thesis by (intro exI[of _ "cd\<lparr>bc := ?c\<rparr>"]) (simp add: same_cfg_def bc_simps)
  qed
  then show ?thesis using open_dev by (simp add: ext4_block_set_def)
qed

text \<open>A user who holds a block overwrites its data and marks it dirty.\<close>

lemma write_ok:
  assumes coh: "coherent good blk wr N cd" and wr: wr and r: "0 < refs cd l" and dat: "length dat = unat (lg_bsize (bdv cd))"
  defines "cd' \<equiv> cd\<lparr>bc := upd_buf l (\<lambda>b. ext4_bcache_set_dirty (b\<lparr>bdata := dat\<rparr>)) (bc cd)\<rparr>"
  shows "coherent good blk wr N cd' \<and> same_cfg (bc cd) (bc cd') \<and> view blk cd' = (view blk cd)(l := dat) \<and>
    refs cd' = refs cd \<and> lru_ctr (bc cd') = lru_ctr (bc cd) \<and> raw cd' \<subseteq> raw cd"
proof -
  note c = coherentD[OF coh]
  obtain b where b: "ext4_buf_lookup (bc cd) l = Some b" "refctr b \<noteq> 0"
    using r by (auto simp: refs_def unat_gt_0 split: option.splits)
  let ?f = "\<lambda>b. ext4_bcache_set_dirty (b\<lparr>bdata := dat\<rparr>)"
  note sd = ext4_bcache_set_dirty_def ext4_bcache_set_flag_def
  have look: "ext4_buf_lookup (bc cd') = (ext4_buf_lookup (bc cd))(l \<mapsto> ?f b)"
    using b by (auto simp: cd'_def fun_eq_iff bc_simps)
  have inv: "bc_inv (bc cd')"
    unfolding cd'_def using inv_upd_buf[OF c(2) b(1), of ?f] inv_lookup(1)[OF c(2) b(1)] dat c(3)
    by (simp add: sd buf_ok_def)
  have "coherent good blk wr N cd'"
    by (rule coherent_change[OF coherent_butI[OF coh], where l = l and ob = "Some (?f b)"])
      (use c inv look c(4)[OF b(1)] b wr in \<open>auto simp: cd'_def buf_coh_def same_cfg_def bc_simps sd\<close>)
  moreover have "view blk cd' l = dat" by (simp add: view_def look sd)
  then have "view blk cd' = (view blk cd)(l := dat)"
    using view_change[of cd' cd l "Some (?f b)" blk] look by (simp add: cd'_def)
  moreover have "refs cd' = refs cd"
    using refs_change[OF look] b by (auto simp: fun_eq_iff refs_def sd)
  moreover have "raw cd' \<subseteq> raw cd" by (rule raw_change(2)[OF look]) (auto simp: sd)
  ultimately show ?thesis by (simp add: cd'_def same_cfg_def bc_simps)
qed

text \<open>Flushing ends with an empty dirty list, and the device then holds every block that
  nobody references.\<close>

lemma cache_flush_ok:
  assumes "coherent good blk wr N cd" and wr: "wr \<Longrightarrow> can_write ops good blk N"
  shows "\<exists>cd'. ext4_block_cache_flush ops cd = Some (EOK, cd') \<and> coherent good blk wr N cd' \<and> geom (bdv cd') = geom (bdv cd) \<and>
    same_cfg (bc cd) (bc cd') \<and> view blk cd' = view blk cd \<and> refs cd' = refs cd \<and> lru_ctr (bc cd') = lru_ctr (bc cd) \<and>
    dirty_list (bc cd') = [] \<and> (\<forall>l. refs cd l = 0 \<longrightarrow> blk (bdv cd') l = view blk cd l) \<and> raw cd' \<subseteq> raw cd"
  using assms(1)
proof (induction "length (dirty_list (bc cd))" arbitrary: cd rule: less_induct)
  case less
  note coh = less.prems and c = coherentD[OF less.prems]
  show ?case
  proof (cases "dirty_list (bc cd)")
    case Nil
    have "blk (bdv cd) l = view blk cd l" if "refs cd l = 0" for l
    proof (cases "ext4_buf_lookup (bc cd) l")
      case (Some b)
      then have "refctr b = 0" using that by (simp add: refs_def unat_eq_zero)
      moreover have "\<not> on_dirty_list b" using inv_lookup(3)[OF c(2) Some] Nil by simp
      ultimately show ?thesis using c(4)[OF Some] Some by (auto simp: buf_coh_def view_def)
    qed (simp add: view_def)
    then show ?thesis using coh Nil by (subst ext4_block_cache_flush.simps) (auto simp: same_cfg_def)
  next
    case (Cons l ls)
    then obtain b where b: "ext4_buf_lookup (bc cd) l = Some b"
      using c(2) by (auto simp: bc_inv_def dirty_inv_def)
    from flush_buf_ok[OF coherent_butI[OF coh] wr b] obtain cd1 where 1: "ext4_block_flush_buf ops l cd = Some (EOK, cd1)"
      "coherent good blk wr N cd1" "geom (bdv cd1) = geom (bdv cd)" "same_cfg (bc cd) (bc cd1)" "view blk cd1 = view blk cd"
      "ext4_buf_lookup (bc cd1) = (ext4_buf_lookup (bc cd))(l \<mapsto> b\<lparr>flags := flags b - {BC_DIRTY}, on_dirty_list := False\<rparr>)"
      "lru_ctr (bc cd1) = lru_ctr (bc cd)" "dirty_list (bc cd1) = remove1 l (dirty_list (bc cd))" by blast
    have refs1: "refs cd1 = refs cd" using refs_change[OF 1(6)] b by (auto simp: fun_eq_iff refs_def)
    have raw1: "raw cd1 \<subseteq> raw cd" by (rule raw_change(3)[OF 1(6) b]) auto
    have "length (dirty_list (bc cd1)) < length (dirty_list (bc cd))" using 1(8) Cons by simp
    from less.hyps[OF this 1(2)] obtain cd' where 2: "ext4_block_cache_flush ops cd1 = Some (EOK, cd')" "coherent good blk wr N cd'"
      "geom (bdv cd') = geom (bdv cd1)" "same_cfg (bc cd1) (bc cd')" "view blk cd' = view blk cd1" "refs cd' = refs cd1"
      "lru_ctr (bc cd') = lru_ctr (bc cd1)" "dirty_list (bc cd') = []" "\<forall>l. refs cd1 l = 0 \<longrightarrow> blk (bdv cd') l = view blk cd1 l" "raw cd' \<subseteq> raw cd1" by blast
    moreover have "ext4_block_cache_flush ops cd = ext4_block_cache_flush ops cd1"
      using Cons 1(1) by (subst ext4_block_cache_flush.simps) simp
    ultimately show ?thesis using 1 refs1 raw1 by (intro exI[of _ cd']) (auto intro: same_cfg_trans)
  qed
qed

end

section \<open>Refinement of an abstract disk\<close>

text \<open>What users of the block layer do: get a block and look at its data, overwrite the data of
  a block they hold, give a block back, flush the cache.\<close>

datatype cop = Get u64 | Put u64 | Write u64 "byte list" | Flush

fun cstep :: "'s bdif \<Rightarrow> (u64 \<Rightarrow> byte list) \<Rightarrow> cop \<Rightarrow> 's cdev \<Rightarrow> (int \<times> byte list \<times> 's cdev) option" where
  "cstep ops fresh (Get l) cd = do {
     (r, h, cd) \<leftarrow> ext4_block_get ops (Some (fresh l)) \<lparr>lb_id = 0, hbuf = None\<rparr> l cd;
     p \<leftarrow> hbuf h;
     b \<leftarrow> ext4_buf_lookup (bc cd) p;
     Some (r, bdata b, cd) }"
| "cstep ops fresh (Put l) cd = do {
     (r, h, cd) \<leftarrow> ext4_block_set ops \<lparr>lb_id = l, hbuf = Some l\<rparr> cd;
     Some (r, [], cd) }"
| "cstep ops fresh (Write l dat) cd = do {
     b \<leftarrow> ext4_buf_lookup (bc cd) l;
     if refctr b = 0 then None
     else Some (EOK, [], cd\<lparr>bc := upd_buf l (\<lambda>b. ext4_bcache_set_dirty (b\<lparr>bdata := dat\<rparr>)) (bc cd)\<rparr>) }"
| "cstep ops fresh Flush cd = do {
     (r, cd) \<leftarrow> ext4_block_cache_flush ops cd;
     Some (r, [], cd) }"

fun crun :: "'s bdif \<Rightarrow> (u64 \<Rightarrow> byte list) \<Rightarrow> cop list \<Rightarrow> 's cdev \<Rightarrow> ((int \<times> byte list) list \<times> 's cdev) option" where
  "crun ops fresh [] cd = Some ([], cd)"
| "crun ops fresh (x # xs) cd = do {
     (r, out, cd) \<leftarrow> cstep ops fresh x cd;
     (outs, cd) \<leftarrow> crun ops fresh xs cd;
     Some ((r, out) # outs, cd) }"

text \<open>The specification: a disk of \<open>N\<close> blocks of \<open>n\<close> bytes without a cache, and who holds what.
  (Block 0 cannot be given back, see below, so it must not be taken.)\<close>

fun astep :: "u64 \<Rightarrow> nat \<Rightarrow> cop \<Rightarrow> (u64 \<Rightarrow> byte list) \<times> (u64 \<Rightarrow> nat) \<Rightarrow> (byte list \<times> (u64 \<Rightarrow> byte list) \<times> (u64 \<Rightarrow> nat)) option" where
  "astep N n (Get l) (D, R) = (if l < N \<and> l \<noteq> 0 then Some (D l, D, R(l := R l + 1)) else None)"
| "astep N n (Put l) (D, R) = (if 0 < R l then Some ([], D, R(l := R l - 1)) else None)"
| "astep N n (Write l dat) (D, R) = (if 0 < R l \<and> length dat = n then Some ([], D(l := dat), R) else None)"
| "astep N n Flush (D, R) = Some ([], D, R)"

fun arun :: "u64 \<Rightarrow> nat \<Rightarrow> cop list \<Rightarrow> (u64 \<Rightarrow> byte list) \<times> (u64 \<Rightarrow> nat) \<Rightarrow>
    (byte list list \<times> (u64 \<Rightarrow> byte list) \<times> (u64 \<Rightarrow> nat)) option" where
  "arun N n [] a = Some ([], a)"
| "arun N n (x # xs) a = do {
     (out, a) \<leftarrow> astep N n x a;
     (outs, a) \<leftarrow> arun N n xs a;
     Some (out # outs, a) }"

definition refines ::
  "('s bdev \<Rightarrow> bool) \<Rightarrow> ('s bdev \<Rightarrow> u64 \<Rightarrow> byte list) \<Rightarrow> bool \<Rightarrow> u64 \<Rightarrow> nat \<Rightarrow> nat \<Rightarrow>
   (u64 \<Rightarrow> byte list) \<times> (u64 \<Rightarrow> nat) \<Rightarrow> 's cdev \<Rightarrow> bool" where
  "refines good blk wr N n k a cd \<longleftrightarrow> coherent good blk wr N cd \<and> ph_refctr (bdv cd) \<noteq> 0 \<and>
     unat (lg_bsize (bdv cd)) = n \<and> fst a = view blk cd \<and> snd a = refs cd \<and> refs cd 0 = 0 \<and> raw cd = {} \<and>
     unat (lru_ctr (bc cd)) \<le> k \<and> (\<forall>l. refs cd l \<le> k)"

lemma refines_step:
  assumes "refines good blk wr N n k a cd" "coherent good blk wr N cd'" "geom (bdv cd') = geom (bdv cd)" "view blk cd' = fst a'"
    "refs cd' = snd a'" "snd a' 0 = 0" "unat (lru_ctr (bc cd')) \<le> unat (lru_ctr (bc cd)) + 1" "\<And>l. snd a' l \<le> refs cd l + 1"
    "raw cd' \<subseteq> raw cd"
  shows "refines good blk wr N n (k + 1) a' cd'"
proof -
  have "snd a' l \<le> k + 1" for l
    using assms(8)[of l] assms(1) by (auto simp: refines_def intro: order_trans)
  moreover have "unat (lru_ctr (bc cd')) \<le> k + 1" using assms(1,7) by (auto simp: refines_def)
  ultimately show ?thesis using assms(1-6,9) geom_eqD[OF assms(3)] by (auto simp: refines_def)
qed

lemma refinesD:
  assumes "refines good blk wr N n k (D, R) cd"
  shows "coherent good blk wr N cd" "good (bdv cd)" "ph_refctr (bdv cd) \<noteq> 0" "unat (lg_bsize (bdv cd)) = n" "view blk cd = D"
    "refs cd = R" "raw cd = {}"
  using assms by (auto simp: refines_def coherent_def)

text \<open>A block somebody holds is in the cache, with the data of the specification.\<close>

lemma refines_held:
  assumes "refines good blk wr N n k (D, R) cd" "0 < R l"
  shows "\<exists>b. ext4_buf_lookup (bc cd) l = Some b \<and> bdata b = D l"
  using held_data[of cd l blk] refinesD(5-7)[OF assms(1)] assms(2) by metis

context logical_source
begin

lemma get_refines:
  assumes ref: "refines good blk wr N n k (D, R) cd" and wr: "wr \<Longrightarrow> can_write ops good blk N"
    and l: "l < N" "l \<noteq> 0" "length dat = n" and k: "k + 2 < 2 ^ 32"
  shows "\<exists>cd'. ext4_block_get ops (Some dat) h l cd = Some (EOK, \<lparr>lb_id = l, hbuf = Some l\<rparr>, cd') \<and>
    refines good blk wr N n (k + 1) (D, R(l := R l + 1)) cd'"
proof -
  note r = ref[unfolded refines_def fst_conv snd_conv]
  have coh: "coherent good blk wr N cd" using r by blast
  have "refs cd l \<le> k" "unat (lru_ctr (bc cd)) \<le> k" using r by blast+
  then have ctr: "unat (lru_ctr (bc cd)) + 2 < 2 ^ 32" "refs cd l + 1 < 2 ^ 32" using k by simp_all
  have pre: "ph_refctr (bdv cd) \<noteq> 0" "l < N" "length dat = unat (lg_bsize (bdv cd))" using r l by auto
  from get_ok[OF coh wr pre ctr] obtain cd' where g:
    "ext4_block_get ops (Some dat) h l cd = Some (EOK, \<lparr>lb_id = l, hbuf = Some l\<rparr>, cd')"
    "coherent good blk wr N cd'" "geom (bdv cd') = geom (bdv cd)" "view blk cd' = view blk cd"
    "refs cd' = (refs cd)(l := refs cd l + 1)" "unat (lru_ctr (bc cd')) \<le> unat (lru_ctr (bc cd)) + 1" "raw cd' \<subseteq> raw cd" by blast
  have "refines good blk wr N n (k + 1) (D, R(l := R l + 1)) cd'"
    by (rule refines_step[OF ref g(2,3)]) (use g l r in auto)
  with g(1) show ?thesis by blast
qed

lemma put_refines:
  assumes ref: "refines good blk wr N n k (D, R) cd" and wr: "wr \<Longrightarrow> can_write ops good blk N" and l: "0 < R l"
  shows "\<exists>cd'. ext4_block_set ops \<lparr>lb_id = l, hbuf = Some l\<rparr> cd = Some (EOK, \<lparr>lb_id = 0, hbuf = Some l\<rparr>, cd') \<and>
    refines good blk wr N n (k + 1) (D, R(l := R l - 1)) cd'"
proof -
  note r = ref[unfolded refines_def fst_conv snd_conv]
  have coh: "coherent good blk wr N cd" using r by blast
  have "0 < refs cd l" "l \<noteq> 0" "ph_refctr (bdv cd) \<noteq> 0" using r l by (auto intro: gr0I)
  from put_ok[OF coh wr this] obtain cd' where p:
    "ext4_block_set ops \<lparr>lb_id = l, hbuf = Some l\<rparr> cd = Some (EOK, \<lparr>lb_id = 0, hbuf = Some l\<rparr>, cd')"
    "coherent good blk wr N cd'" "geom (bdv cd') = geom (bdv cd)" "view blk cd' = view blk cd"
    "refs cd' = (refs cd)(l := refs cd l - 1)" "lru_ctr (bc cd') = lru_ctr (bc cd)" "raw cd' \<subseteq> raw cd" by blast
  have "refines good blk wr N n (k + 1) (D, R(l := R l - 1)) cd'"
    by (rule refines_step[OF ref p(2,3)]) (use p l r in auto)
  with p(1) show ?thesis by blast
qed

lemma cstep_refines:
  assumes ref: "refines good blk wr N n k a cd" and step: "astep N n x a = Some (out, a')"
    and wr: "wr \<Longrightarrow> can_write ops good blk N" "\<not> wr \<Longrightarrow> \<forall>l dat. x \<noteq> Write l dat" and fresh: "\<forall>l. length (fresh l) = n" and k: "k + 2 < 2 ^ 32"
  shows "\<exists>cd'. cstep ops fresh x cd = Some (EOK, out, cd') \<and> refines good blk wr N n (k + 1) a' cd'"
proof -
  obtain D R where a: "a = (D, R)" by (cases a)
  note r = ref[unfolded refines_def a fst_conv snd_conv]
  have coh: "coherent good blk wr N cd" using r by blast
  show ?thesis
  proof (cases x)
    case (Get l)
    then have l: "l < N" "l \<noteq> 0" "out = D l" "a' = (D, R(l := R l + 1))" using step by (auto simp: a split: if_splits)
    from get_refines[OF ref[unfolded a] wr(1) l(1,2) _ k] fresh obtain cd' where g:
      "ext4_block_get ops (Some (fresh l)) \<lparr>lb_id = 0, hbuf = None\<rparr> l cd = Some (EOK, \<lparr>lb_id = l, hbuf = Some l\<rparr>, cd')"
      "refines good blk wr N n (k + 1) a' cd'" unfolding l(4) by blast
    from refines_held[OF g(2)[unfolded l(4)], of l] show ?thesis using Get g l by auto
  next
    case (Put l)
    then have l: "0 < R l" "out = []" "a' = (D, R(l := R l - 1))" using step by (auto simp: a split: if_splits)
    from put_refines[OF ref[unfolded a] wr(1) l(1)] show ?thesis using Put l by auto
  next
    case (Write l dat)
    then have l: "0 < R l" "length dat = n" "out = []" "a' = (D(l := dat), R)" using step by (auto simp: a split: if_splits)
    let ?cd = "cd\<lparr>bc := upd_buf l (\<lambda>b. ext4_bcache_set_dirty (b\<lparr>bdata := dat\<rparr>)) (bc cd)\<rparr>"
    have held: "0 < refs cd l" "length dat = unat (lg_bsize (bdv cd))" wr using r l wr(2) Write by auto
    from write_ok[OF coh held(3,1,2)] have w: "coherent good blk wr N ?cd" "view blk ?cd = (view blk cd)(l := dat)" "refs ?cd = refs cd"
      "lru_ctr (bc ?cd) = lru_ctr (bc cd)" "raw ?cd \<subseteq> raw cd" by blast+
    have "refines good blk wr N n (k + 1) a' ?cd"
      by (rule refines_step[OF ref w(1)]) (use w l r in auto)
    moreover obtain b where "ext4_buf_lookup (bc cd) l = Some b" "refctr b \<noteq> 0"
      using held(1) by (auto simp: refs_def unat_gt_0 split: option.splits)
    ultimately show ?thesis using Write l by auto
  next
    case Flush
    then have out: "out = []" "a' = a" using step by (auto simp: a)
    from cache_flush_ok[OF coh wr(1)] obtain cd' where f: "ext4_block_cache_flush ops cd = Some (EOK, cd')" "coherent good blk wr N cd'"
      "geom (bdv cd') = geom (bdv cd)" "view blk cd' = view blk cd" "refs cd' = refs cd" "lru_ctr (bc cd') = lru_ctr (bc cd)" "raw cd' \<subseteq> raw cd" by blast
    have "refines good blk wr N n (k + 1) a' cd'"
      by (rule refines_step[OF ref f(2,3)]) (use f out r in \<open>auto simp: a\<close>)
    then show ?thesis using Flush f out by auto
  qed
qed

lemma crun_refines:
  assumes "refines good blk wr N n k a cd" "arun N n xs a = Some (outs, a')" and wr: "wr \<Longrightarrow> can_write ops good blk N"
    and ro: "\<not> wr \<Longrightarrow> \<forall>l dat. Write l dat \<notin> set xs" and fresh: "\<forall>l. length (fresh l) = n" and k: "k + length xs + 2 < 2 ^ 32"
  shows "\<exists>cd'. crun ops fresh xs cd = Some (map (Pair EOK) outs, cd') \<and> refines good blk wr N n (k + length xs) a' cd'"
  using assms(1,2) ro k
proof (induction xs arbitrary: a outs cd k)
  case (Cons x xs)
  from Cons.prems(2) obtain out a1 outs1 where 1: "astep N n x a = Some (out, a1)" "arun N n xs a1 = Some (outs1, a')" "outs = out # outs1"
    by (auto simp: bind_Some_iff split: prod.splits)
  have "k + 2 < 2 ^ 32" using Cons.prems(4) by simp
  moreover have "\<not> wr \<Longrightarrow> \<forall>l dat. x \<noteq> Write l dat" using Cons.prems(3) by auto
  ultimately obtain cd1 where 2: "cstep ops fresh x cd = Some (EOK, out, cd1)" "refines good blk wr N n (k + 1) a1 cd1"
    using cstep_refines[OF Cons.prems(1) 1(1) wr _ fresh] by blast
  from Cons.IH[OF 2(2) 1(2)] Cons.prems(3,4) obtain cd' where
    "crun ops fresh xs cd1 = Some (map (Pair EOK) outs1, cd')" "refines good blk wr N n (k + 1 + length xs) a' cd'" by auto
  with 2 1(3) show ?case by auto
qed (auto simp: bind_Some_iff)

end

lemma refines_init:
  assumes "good d" "ph_refctr d \<noteq> 0" "ext4_bcache_init_dynamic cnt (lg_bsize d) = Some c"
  shows "refines good blk wr N (unat (lg_bsize d)) 0 (blk d, \<lambda>_. 0) \<lparr>bdv = d, bc = c\<rparr>"
proof -
  have c: "c = \<lparr>bc_cnt = cnt, itemsize = lg_bsize d, lru_ctr = 0, ref_blocks = 0, max_ref_blocks = 0,
      dont_shake = False, lba_root = [], lru_root = [], dirty_list = []\<rparr>"
    using assms(3) by (auto simp: ext4_bcache_init_dynamic_def split: if_splits)
  show ?thesis
    using assms(1,2)
    by (simp add: refines_def coherent_def bc_inv_defs c ext4_buf_lookup_def view_def refs_def raw_def fun_eq_iff)
qed

section \<open>Properties\<close>

text \<open>C12. The cache refines a disk without a cache. Over an image file with a freshly
  initialised cache, every sequence of getting, overwriting, giving back and flushing blocks
  that the specification allows succeeds and returns the data the specification returns, however small the cache is; and
  after flushing the file holds the specification's contents of every block nobody holds.\<close>

theorem cache_refines_disk:
  assumes "dev_ok image_ok (\<lambda>f. the (image f)) 512 d" "lb_ok (\<lambda>f. the (image f)) 512 N d" "ph_refctr d \<noteq> 0"
    and "ext4_bcache_init_dynamic cnt (lg_bsize d) = Some c" "\<forall>l. length (fresh l) = unat (lg_bsize d)"
    and "arun N (unat (lg_bsize d)) xs (part_block (\<lambda>f. the (image f)) d, \<lambda>_. 0) = Some (outs, D, R)"
    and "length xs + 2 < 2 ^ 32"
  shows "\<exists>cd1 cd2. crun filedev_ops fresh xs \<lparr>bdv = d, bc = c\<rparr> = Some (map (Pair EOK) outs, cd1) \<and>
    ext4_block_cache_flush filedev_ops cd1 = Some (EOK, cd2) \<and>
    (\<forall>l. R l = 0 \<longrightarrow> part_block (\<lambda>f. the (image f)) (bdv cd2) l = D l)"
proof -
  let ?good = "\<lambda>d. dev_ok image_ok (\<lambda>f. the (image f)) 512 d \<and> lb_ok (\<lambda>f. the (image f)) 512 N d" and ?blk = "part_block (\<lambda>f. the (image f))"
  have wr: "can_write filedev_ops ?good ?blk N" unfolding can_write_def using filedev.lstore.set_block by blast
  have init: "refines ?good ?blk True N (unat (lg_bsize d)) 0 (?blk d, \<lambda>_. 0) \<lparr>bdv = d, bc = c\<rparr>"
    by (rule refines_init) (use assms in simp_all)
  obtain cd1 where 1: "crun filedev_ops fresh xs \<lparr>bdv = d, bc = c\<rparr> = Some (map (Pair EOK) outs, cd1)"
    "refines ?good ?blk True N (unat (lg_bsize d)) (0 + length xs) (D, R) cd1"
    using filedev.lsrc.crun_refines[OF init assms(6) wr _ assms(5)] assms(7) by auto
  have coh: "coherent ?good ?blk True N cd1" and a: "view ?blk cd1 = D" "refs cd1 = R" using 1(2) by (auto simp: refines_def)
  from filedev.lsrc.cache_flush_ok[OF coh wr] 1(1) a show ?thesis by auto
qed

lemma image_dev_lb: "lb_ok (\<lambda>f. the (image f)) 512 2 image_dev" "lg_bsize image_dev = 512" "lg_bcnt image_dev = 2"
  by (simp_all add: lb_ok_def image_dev_def filedev_dev_def)

theorem cache_refines_disk_witness:
  "\<exists>cd1 cd2. crun filedev_ops (\<lambda>_. replicate 512 9) [Get 1, Write 1 (replicate 512 7), Put 1, Get 1, Put 1]
      \<lparr>bdv = image_dev, bc = the (ext4_bcache_init_dynamic 1 512)\<rparr> =
      Some (map (Pair EOK) [part_block (\<lambda>f. the (image f)) image_dev 1, [], [], replicate 512 7, []], cd1) \<and>
    ext4_block_cache_flush filedev_ops cd1 = Some (EOK, cd2) \<and>
    (\<forall>l. ((\<lambda>_. 0 :: nat)(1 := 1, 1 := 0, 1 := 1, 1 := 0)) l = 0 \<longrightarrow>
      part_block (\<lambda>f. the (image f)) (bdv cd2) l = ((part_block (\<lambda>f. the (image f)) image_dev)(1 := replicate 512 7)) l)"
  by (rule cache_refines_disk[OF image_dev_ok(1) image_dev_lb(1) image_dev_ok(2), where cnt = 1 and
        D = "(part_block (\<lambda>f. the (image f)) image_dev)(1 := replicate 512 7)" and
        R = "(\<lambda>_. 0)(1 := 1, 1 := 0, 1 := 1, 1 := 0)"])
    (simp_all add: ext4_bcache_init_dynamic_def image_dev_lb)

text \<open>C13. After every such sequence the data structures of the cache agree: the address tree is
  ordered with distinct keys and counted by \<open>ref_blocks\<close>, the LRU tree holds exactly the
  unreferenced buffers in LRU order, the dirty list exactly the buffers marked as queued, and the reference
  count of every buffer is the number of times it is held.\<close>

theorem cache_invariant:
  assumes "dev_ok image_ok (\<lambda>f. the (image f)) 512 d" "lb_ok (\<lambda>f. the (image f)) 512 N d" "ph_refctr d \<noteq> 0"
    and "ext4_bcache_init_dynamic cnt (lg_bsize d) = Some c" "\<forall>l. length (fresh l) = unat (lg_bsize d)"
    and "arun N (unat (lg_bsize d)) xs (part_block (\<lambda>f. the (image f)) d, \<lambda>_. 0) = Some (outs, D, R)"
    and "length xs + 2 < 2 ^ 32"
  shows "\<exists>res cd1. crun filedev_ops fresh xs \<lparr>bdv = d, bc = c\<rparr> = Some (res, cd1) \<and> bc_inv (bc cd1) \<and>
    (\<forall>l. R l = (case ext4_buf_lookup (bc cd1) l of Some b \<Rightarrow> unat (refctr b) | None \<Rightarrow> 0))"
proof -
  let ?good = "\<lambda>d. dev_ok image_ok (\<lambda>f. the (image f)) 512 d \<and> lb_ok (\<lambda>f. the (image f)) 512 N d" and ?blk = "part_block (\<lambda>f. the (image f))"
  have wr: "can_write filedev_ops ?good ?blk N" unfolding can_write_def using filedev.lstore.set_block by blast
  have init: "refines ?good ?blk True N (unat (lg_bsize d)) 0 (?blk d, \<lambda>_. 0) \<lparr>bdv = d, bc = c\<rparr>"
    by (rule refines_init) (use assms in simp_all)
  from filedev.lsrc.crun_refines[OF init assms(6) wr _ assms(5)] assms(7)
  show ?thesis by (auto simp: refines_def coherent_def refs_def)
qed

theorem cache_invariant_witness:
  "\<exists>res cd1. crun filedev_ops (\<lambda>_. replicate 512 9) [Get 1, Put 1, Get 1]
      \<lparr>bdv = image_dev, bc = the (ext4_bcache_init_dynamic 1 512)\<rparr> = Some (res, cd1) \<and> bc_inv (bc cd1) \<and>
    (\<forall>l. ((\<lambda>_. 0)(1 := 1, 1 := 0, 1 := 1)) l = (case ext4_buf_lookup (bc cd1) l of Some b \<Rightarrow> unat (refctr b) | None \<Rightarrow> 0))"
  by (rule cache_invariant[OF image_dev_ok(1) image_dev_lb(1) image_dev_ok(2), where cnt = 1 and
        D = "part_block (\<lambda>f. the (image f)) image_dev" and R = "(\<lambda>_. 0)(1 := 1, 1 := 0, 1 := 1)" and
        outs = "[part_block (\<lambda>f. the (image f)) image_dev 1, [], part_block (\<lambda>f. the (image f)) image_dev 1]"])
    (simp_all add: ext4_bcache_init_dynamic_def image_dev_lb)

text \<open>An invalidated buffer is neither up to date nor dirty and left the dirty list.\<close>

definition invalidated :: "ext4_buf \<Rightarrow> ext4_buf" where
  "invalidated b = b\<lparr>flags := flags b - {BC_UPTODATE, BC_DIRTY}, on_dirty_list := False\<rparr>"

lemma invalidate_from_ok:
  assumes "bc_inv c" "sorted ls" "distinct ls" "\<forall>l\<in>set ls. ext4_buf_lookup c l \<noteq> None"
  shows "\<exists>c'. invalidate_from e ls c = Some c' \<and> bc_inv c' \<and>
    (\<forall>l. ext4_buf_lookup c' l = (if l \<in> set ls \<and> l \<le> e then map_option invalidated (ext4_buf_lookup c l) else ext4_buf_lookup c l))"
  using assms
proof (induction ls arbitrary: c)
  case (Cons k ks)
  show ?case
  proof (cases "e < k")
    case True
    then have "\<forall>l\<in>set (k # ks). \<not> l \<le> e" using Cons.prems(2) by (auto dest: order_trans)
    with True Cons.prems(1) show ?thesis by auto
  next
    case False
    obtain b where b: "ext4_buf_lookup c k = Some b" using Cons.prems(4) by auto
    from invalidate_buf_ok[OF Cons.prems(1) b] obtain c1 where 1: "ext4_bcache_invalidate_buf k c = Some c1" "bc_inv c1"
      "ext4_buf_lookup c1 = (ext4_buf_lookup c)(k \<mapsto> invalidated b)" unfolding invalidated_def by blast
    have "\<forall>l\<in>set ks. ext4_buf_lookup c1 l \<noteq> None" using Cons.prems(4) 1(3) by auto
    from Cons.IH[OF 1(2) _ _ this] Cons.prems(2,3) obtain c2 where "invalidate_from e ks c1 = Some c2" "bc_inv c2"
      "\<forall>l. ext4_buf_lookup c2 l = (if l \<in> set ks \<and> l \<le> e then map_option invalidated (ext4_buf_lookup c1 l) else ext4_buf_lookup c1 l)"
      by auto
    with False b 1 Cons.prems(3) show ?thesis by auto
  qed
qed simp

lemma dropWhile_sorted_from:
  assumes "sorted ks" "distinct ks" "k \<in> set ks"
  shows "set (dropWhile (\<lambda>l. l \<noteq> k) ks) = {l \<in> set ks. k \<le> l}"
  using assms by (induction ks) (auto simp: order.order_iff_strict)

text \<open>C21. \<open>ext4_bcache_invalidate_lba\<close> keeps the invariant of the cache and invalidates exactly
  the cached blocks of the range, provided its first block is cached; otherwise it leaves all of them
  as they are, also the dirty ones.\<close>

theorem invalidate_lba_effect:
  assumes "bc_inv c"
  shows "\<exists>c'. ext4_bcache_invalidate_lba from cnt c = Some c' \<and> bc_inv c' \<and>
    (\<forall>l. ext4_buf_lookup c' l =
      (if ext4_buf_lookup c from \<noteq> None \<and> from \<le> l \<and> l \<le> from + ucast cnt - 1
       then map_option invalidated (ext4_buf_lookup c l) else ext4_buf_lookup c l))"
proof (cases "ext4_buf_lookup c from = None")
  case True
  then show ?thesis using assms by (simp add: ext4_bcache_invalidate_lba_def)
next
  case False
  let ?ks = "map fst (lba_root c)" and ?ls = "dropWhile (\<lambda>l. l \<noteq> from) (map fst (lba_root c))"
  have ks: "sorted ?ks" "distinct ?ks" using assms by (auto simp: bc_inv_def keys_inv_def)
  have dom: "l \<in> set ?ks \<longleftrightarrow> ext4_buf_lookup c l \<noteq> None" for l by (simp add: ext4_buf_lookup_def map_of_eq_None_iff)
  have set: "set ?ls = {l \<in> set ?ks. from \<le> l}" using dropWhile_sorted_from[OF ks] False dom by blast
  have "sorted ?ls" "distinct ?ls" using ks by (simp_all add: sorted_wrt_dropWhile)
  then obtain c' where "invalidate_from (from + ucast cnt - 1) ?ls c = Some c'" "bc_inv c'"
    "\<forall>l. ext4_buf_lookup c' l = (if l \<in> set ?ls \<and> l \<le> from + ucast cnt - 1 then map_option invalidated (ext4_buf_lookup c l)
      else ext4_buf_lookup c l)"
    using invalidate_from_ok[OF assms, of ?ls] set dom by blast
  with False set dom show ?thesis by (auto simp: ext4_bcache_invalidate_lba_def)
qed

definition dirty_cache :: bcache where
  "dirty_cache = (the (ext4_bcache_init_dynamic 2 4))\<lparr>ref_blocks := 1, lru_ctr := 1, lba_root :=
      [(5, \<lparr>flags = {BC_UPTODATE, BC_DIRTY}, bdata = [1, 2, 3, 4], lru_id = 1, refctr = 1, on_dirty_list = False\<rparr>)]\<rparr>"

theorem invalidate_lba_effect_witness:
  "\<exists>c'. ext4_bcache_invalidate_lba 4 3 dirty_cache = Some c' \<and> bc_inv c' \<and>
    (\<forall>l. ext4_buf_lookup c' l =
      (if ext4_buf_lookup dirty_cache 4 \<noteq> None \<and> 4 \<le> l \<and> l \<le> 4 + ucast (3 :: u32) - 1
       then map_option invalidated (ext4_buf_lookup dirty_cache l) else ext4_buf_lookup dirty_cache l))"
  by (rule invalidate_lba_effect)
     (auto simp: dirty_cache_def bc_inv_defs ext4_bcache_init_dynamic_def ext4_buf_lookup_def)

end
