(* ===== verification/Ext4_Fs.thy ===== *)
theory Ext4_Fs
  imports Ext4_Group Ext4_Bitmap Ext4_Cached
begin

text \<open>
  The first half of lwext4/src/ext4_fs.c: mounting a file system, block group references with the
  late initialisation of bitmaps and inode tables, and inode references. The functions of
  ext4_trans.c, without a journal, are those of the block cache. A pointer into a cached block is the
  handle of the block and an offset; reading or writing through it when it leaves the block, or when the
  buffer is gone, has no result. What \<open>malloc\<close> returns for a new buffer is the argument
  \<open>mal\<close>, which may depend on the state of the cache.
\<close>

section \<open>Definitions\<close>

definition ENOTSUP :: int where "ENOTSUP = 95"

definition EXT4_SUPERBLOCK_SIZE :: u32 where "EXT4_SUPERBLOCK_SIZE = 1024"
definition EXT4_SUPERBLOCK_OFFSET :: u64 where "EXT4_SUPERBLOCK_OFFSET = 1024"
definition EXT4_SUPERBLOCK_STATE_VALID_FS :: u16 where "EXT4_SUPERBLOCK_STATE_VALID_FS = 1"
definition EXT4_SUPERBLOCK_STATE_ERROR_FS :: u16 where "EXT4_SUPERBLOCK_STATE_ERROR_FS = 2"
definition EXT4_MAX_BLOCK_SIZE :: u32 where "EXT4_MAX_BLOCK_SIZE = 65536"
definition EXT4_FINCOM_EXTENTS :: u32 where "EXT4_FINCOM_EXTENTS = 0x0040"
definition EXT4_FINCOM_FLEX_BG :: u32 where "EXT4_FINCOM_FLEX_BG = 0x0200"

text \<open>The supported feature sets; what is ignored is supported.\<close>

definition CONFIG_SUPPORTED_FINCOM :: u32 where
  "CONFIG_SUPPORTED_FINCOM = 0x0002 OR EXT4_FINCOM_META_BG OR EXT4_FINCOM_EXTENTS OR EXT4_FINCOM_FLEX_BG OR
     EXT4_FINCOM_64BIT OR 0x0004 OR 0x0100"

definition CONFIG_SUPPORTED_FRO_COM :: u32 where
  "CONFIG_SUPPORTED_FRO_COM = EXT4_FRO_COM_SPARSE_SUPER OR EXT4_FRO_COM_METADATA_CSUM OR 0x0002 OR
     EXT4_FRO_COM_GDT_CSUM OR 0x0020 OR EXT4_FRO_COM_EXTRA_ISIZE OR EXT4_FRO_COM_HUGE_FILE"

record 's fs =
  read_only :: bool
  fs_bdev :: "'s cdev"
  fs_sb :: mem
  inode_block_limits :: "u64 list"
  inode_blocks_per_level :: "u64 list"
  last_inode_bg_id :: u32

text \<open>References: the block that holds the record, the offset of the record in it, its number, and
  whether it was changed.\<close>

record block_group_ref =
  bg_block :: ext4_block
  block_group :: nat
  bg_index :: u32
  bg_dirty :: bool

record inode_ref =
  in_block :: ext4_block
  inode_off :: nat
  in_index :: u32
  in_dirty :: bool

type_synonym malloc = "bcache \<Rightarrow> u64 \<Rightarrow> byte list option"

definition no_block :: ext4_block where "no_block = \<lparr>lb_id = 0, hbuf = None\<rparr>"

subsection \<open>Blocks and pointers into them\<close>

definition ext4_trans_block_get :: "'s bdif \<Rightarrow> malloc \<Rightarrow> ext4_block \<Rightarrow> u64 \<Rightarrow> 's cdev \<Rightarrow> (int \<times> ext4_block \<times> 's cdev) option" where
  "ext4_trans_block_get ops mal h lba cd = ext4_block_get ops (mal (bc cd) lba) h lba cd"

definition ext4_trans_block_get_noread :: "'s bdif \<Rightarrow> malloc \<Rightarrow> ext4_block \<Rightarrow> u64 \<Rightarrow> 's cdev \<Rightarrow> (int \<times> ext4_block \<times> 's cdev) option" where
  "ext4_trans_block_get_noread ops mal h lba cd = ext4_block_get_noread ops (mal (bc cd) lba) h lba cd"

definition blk_data :: "ext4_block \<Rightarrow> 's cdev \<Rightarrow> byte list option" where
  "blk_data h cd = do { p \<leftarrow> hbuf h; b \<leftarrow> ext4_buf_lookup (bc cd) p; Some (bdata b) }"

definition blk_write :: "ext4_block \<Rightarrow> byte list \<Rightarrow> 's cdev \<Rightarrow> 's cdev option" where
  "blk_write h dat cd = do {
     p \<leftarrow> hbuf h;
     b \<leftarrow> ext4_buf_lookup (bc cd) p;
     Some (cd\<lparr>bc := upd_buf p (\<lambda>b. b\<lparr>bdata := dat\<rparr>) (bc cd)\<rparr>) }"

definition ext4_trans_set_block_dirty :: "ext4_block \<Rightarrow> 's cdev \<Rightarrow> 's cdev option" where
  "ext4_trans_set_block_dirty h cd = do {
     p \<leftarrow> hbuf h;
     b \<leftarrow> ext4_buf_lookup (bc cd) p;
     Some (cd\<lparr>bc := upd_buf p ext4_bcache_set_dirty (bc cd)\<rparr>) }"

text \<open>The memory at a pointer at which \<open>n\<close> bytes can be accessed.\<close>

definition mem_at :: "nat \<Rightarrow> nat \<Rightarrow> byte list \<Rightarrow> mem option" where
  "mem_at off n dat = (if off + n \<le> length dat then Some (\<lambda>i. dat ! (off + i)) else None)"

text \<open>A descriptor occupies 64 bytes when it has high halves.\<close>

definition bg_len :: "mem \<Rightarrow> nat" where
  "bg_len sb = (if has_hi sb then 64 else 32)"

definition get_bg :: "block_group_ref \<Rightarrow> 's fs \<Rightarrow> mem option" where
  "get_bg ref fs = do {
     dat \<leftarrow> blk_data (bg_block ref) (fs_bdev fs);
     mem_at (block_group ref) (bg_len (fs_sb fs)) dat }"

definition set_bg :: "block_group_ref \<Rightarrow> mem \<Rightarrow> 's fs \<Rightarrow> 's fs option" where
  "set_bg ref bg fs = do {
     dat \<leftarrow> blk_data (bg_block ref) (fs_bdev fs);
     dat \<leftarrow> buf_set (block_group ref) (mem_get bg 0 (bg_len (fs_sb fs))) dat;
     cd \<leftarrow> blk_write (bg_block ref) dat (fs_bdev fs);
     Some (fs\<lparr>fs_bdev := cd\<rparr>) }"

definition get_inode :: "inode_ref \<Rightarrow> 's fs \<Rightarrow> mem option" where
  "get_inode ref fs = do {
     dat \<leftarrow> blk_data (in_block ref) (fs_bdev fs);
     mem_at (inode_off ref) (unat (inode_size (fs_sb fs))) dat }"

definition set_inode :: "inode_ref \<Rightarrow> mem \<Rightarrow> 's fs \<Rightarrow> 's fs option" where
  "set_inode ref inode fs = do {
     dat \<leftarrow> blk_data (in_block ref) (fs_bdev fs);
     dat \<leftarrow> buf_set (inode_off ref) (mem_get inode 0 (unat (inode_size (fs_sb fs)))) dat;
     cd \<leftarrow> blk_write (in_block ref) dat (fs_bdev fs);
     Some (fs\<lparr>fs_bdev := cd\<rparr>) }"

text \<open>Releasing a block of the file system.\<close>

definition fs_block_set :: "'s bdif \<Rightarrow> ext4_block \<Rightarrow> 's fs \<Rightarrow> (int \<times> 's fs) option" where
  "fs_block_set ops h fs = do {
     (r, _, cd) \<leftarrow> ext4_block_set ops h (fs_bdev fs);
     Some (r, fs\<lparr>fs_bdev := cd\<rparr>) }"

subsection \<open>Mounting\<close>

definition ext4_sb_read :: "'s bdif \<Rightarrow> 's cdev \<Rightarrow> mem \<Rightarrow> (int \<times> mem \<times> 's cdev) option" where
  "ext4_sb_read ops cd sb = do {
     (r, buf, bd) \<leftarrow> ext4_block_readbytes ops EXT4_SUPERBLOCK_OFFSET (mem_get sb 0 1024) EXT4_SUPERBLOCK_SIZE (bdv cd);
     Some (r, mem_put sb 0 buf, cd\<lparr>bdv := bd\<rparr>) }"

definition ext4_sb_write :: "'s bdif \<Rightarrow> 's cdev \<Rightarrow> mem \<Rightarrow> (int \<times> mem \<times> 's cdev) option" where
  "ext4_sb_write ops cd sb = do {
     let sb = ext4_sb_set_csum sb;
     (r, bd) \<leftarrow> ext4_block_writebytes ops EXT4_SUPERBLOCK_OFFSET (mem_get sb 0 1024) EXT4_SUPERBLOCK_SIZE (bdv cd);
     Some (r, sb, cd\<lparr>bdv := bd\<rparr>) }"

text \<open>The result and the value stored through \<open>read_only\<close>.\<close>

definition ext4_fs_check_features :: "mem \<Rightarrow> bool \<Rightarrow> int \<times> bool" where
  "ext4_fs_check_features sb ro =
     (if rev_level sb = 0 then (EOK, False)
      else if features_incompatible sb AND NOT CONFIG_SUPPORTED_FINCOM \<noteq> 0 then (ENOTSUP, ro)
      else if features_read_only sb AND NOT CONFIG_SUPPORTED_FRO_COM \<noteq> 0 then (EOK, True)
      else (EOK, False))"

fun level_limits :: "u64 \<Rightarrow> nat \<Rightarrow> u64 \<Rightarrow> u64 \<Rightarrow> u64 list \<times> u64 list" where
  "level_limits blocks_id 0 lim per = ([lim], [per])"
| "level_limits blocks_id (Suc n) lim per =
     (let (lims, pers) = level_limits blocks_id n (lim + per * blocks_id) (per * blocks_id) in
      (lim # lims, per # pers))"

definition ext4_fs_init :: "'s bdif \<Rightarrow> 's cdev \<Rightarrow> bool \<Rightarrow> 's fs \<Rightarrow> (int \<times> 's fs) option" where
  "ext4_fs_init ops bdev ro fs = do {
     (r, sb, cd) \<leftarrow> ext4_sb_read ops bdev (fs_sb fs);
     let fs = fs\<lparr>read_only := ro, fs_bdev := cd, fs_sb := sb\<rparr>;
     if r \<noteq> EOK then Some (r, fs)
     else if \<not> ext4_sb_check sb then Some (ENOTSUP, fs)
     else do {
       bsize \<leftarrow> ext4_sb_get_block_size sb;
       if bsize > EXT4_MAX_BLOCK_SIZE then Some (ENXIO, fs)
       else
         let (r, ro) = ext4_fs_check_features sb ro in
         if r \<noteq> EOK then Some (r, fs)
         else
           let fs = (if ro then fs\<lparr>read_only := ro\<rparr> else fs);
               (lims, pers) = level_limits (ucast (bsize div 4)) 3 (ucast EXT4_INODE_DIRECT_BLOCK_COUNT) 1;
               fs = fs\<lparr>inode_block_limits := lims, inode_blocks_per_level := pers\<rparr> in
           if \<not> read_only fs then do {
             (r, sb, cd) \<leftarrow> ext4_sb_write ops (fs_bdev fs) (put16 (fs_sb fs) 58 EXT4_SUPERBLOCK_STATE_ERROR_FS);
             let fs = fs\<lparr>fs_bdev := cd, fs_sb := sb\<rparr>;
             if r \<noteq> EOK then Some (r, fs)
             else Some (r, fs\<lparr>fs_sb := put16 sb 52 (get16 sb 52 + 1)\<rparr>) }
           else Some (r, fs) } }"

definition ext4_fs_fini :: "'s bdif \<Rightarrow> 's fs \<Rightarrow> (int \<times> 's fs) option" where
  "ext4_fs_fini ops fs = do {
     let sb = put16 (fs_sb fs) 58 EXT4_SUPERBLOCK_STATE_VALID_FS;
     if \<not> read_only fs then do {
       (r, sb, cd) \<leftarrow> ext4_sb_write ops (fs_bdev fs) sb;
       Some (r, fs\<lparr>fs_bdev := cd, fs_sb := sb\<rparr>) }
     else Some (EOK, fs\<lparr>fs_sb := sb\<rparr>) }"

subsection \<open>Late initialisation of bitmaps and inode tables\<close>

text \<open>Setting a bit, and the bits of a range, of a bitmap in a block.\<close>

definition bit_set_in :: "u32 \<Rightarrow> byte list \<Rightarrow> byte list option" where
  "bit_set_in b dat =
     (if unat (drop_bit 3 b) < length dat
      then Some (mem_get (ext4_bmap_bit_set ((!) dat) 0 b) 0 (length dat)) else None)"

function bits_set_in :: "u32 \<Rightarrow> u32 \<Rightarrow> byte list \<Rightarrow> byte list option" where
  "bits_set_in i n dat =
     (if i < n then Option.bind (bit_set_in i dat) (\<lambda>dat. bits_set_in (i + 1) n dat) else Some dat)"
  by pat_completeness auto
termination
  by (relation "measure (\<lambda>(i, n, dat). unat n - unat i)") (auto simp: unat_Suc_less word_less_nat_alt)

text \<open>The loop over the blocks of the inode table.\<close>

function table_set_in :: "mem \<Rightarrow> u32 \<Rightarrow> bool \<Rightarrow> u64 \<Rightarrow> u64 \<Rightarrow> u64 \<Rightarrow> byte list \<Rightarrow> byte list option" where
  "table_set_in sb bgid flex_bg first_bg i n dat =
     (if i < n then
        Option.bind (ext4_block_in_group sb i bgid) (\<lambda>in_bg.
        Option.bind (if \<not> flex_bg \<or> in_bg then bit_set_in (ucast (i - first_bg)) dat else Some dat) (\<lambda>dat.
          table_set_in sb bgid flex_bg first_bg (i + 1) n dat))
      else Some dat)"
  by pat_completeness auto
termination
  by (relation "measure (\<lambda>(sb, bgid, flex_bg, first_bg, i, n, dat). unat n - unat i)")
     (auto simp: unat_Suc_less word_less_nat_alt)

declare bits_set_in.simps [simp del] table_set_in.simps [simp del]

text \<open>The arguments are converted to \<open>int\<close>; a negative start makes the function write outside
  of the bitmap.\<close>

definition ext4_fs_mark_bitmap_end :: "u32 \<Rightarrow> u32 \<Rightarrow> byte list \<Rightarrow> byte list option" where
  "ext4_fs_mark_bitmap_end start_bit end_bit dat =
     (if sint start_bit \<ge> sint end_bit then Some dat
      else if sint start_bit < 0 then None
      else
        let i = (start_bit + 7) AND NOT 7 in
        Option.bind (bits_set_in start_bit i dat) (\<lambda>dat.
          if i < end_bit then buf_set (unat (drop_bit 3 i)) (replicate (unat (drop_bit 3 (end_bit - i))) 0xff) dat
          else Some dat))"

text \<open>The number of blocks at the start of a group that hold the superblock and descriptors, and the
  number of blocks in a group.\<close>

definition init_bit_max :: "mem \<Rightarrow> u32 \<Rightarrow> u32 option" where
  "init_bit_max sb bgid = do {
     has_super \<leftarrow> ext4_sb_is_super_in_bg sb bgid;
     let bit_max = (if has_super then 1 else 0);
     dsc \<leftarrow> dsc_per_block sb;
     if \<not> ext4_sb_feature_incom sb EXT4_FINCOM_META_BG \<or> bgid < ext4_sb_first_meta_bg sb * dsc then
       (if has_super then do {
          gdb \<leftarrow> ext4_bg_num_gdb sb bgid;
          Some (bit_max + gdb + ucast (reserved_gdt_blocks sb)) }
        else Some bit_max)
     else do {
       gdb \<leftarrow> ext4_bg_num_gdb sb bgid;
       Some (bit_max + gdb) } }"

definition init_group_blocks :: "mem \<Rightarrow> u32 \<Rightarrow> u32 option" where
  "init_group_blocks sb bgid = do {
     n \<leftarrow> ext4_block_group_cnt sb;
     Some (if bgid = n - 1
       then ucast (ext4_sb_get_blocks_cnt sb - ucast (first_data_block sb) - ucast (blocks_per_group sb * (n - 1)))
       else blocks_per_group sb) }"

text \<open>The contents of the new block bitmap, from the addresses in the descriptor.\<close>

definition init_bits :: "mem \<Rightarrow> u32 \<Rightarrow> u64 \<Rightarrow> u64 \<Rightarrow> u64 \<Rightarrow> u32 \<Rightarrow> byte list \<Rightarrow> byte list option" where
  "init_bits sb bgid bmp_blk bmp_inode inode_table block_size dat = do {
     let first_bg = ext4_balloc_get_block_of_bgid sb bgid;
     let flex_bg = ext4_sb_feature_incom sb EXT4_FINCOM_FLEX_BG;
     let inode_table_bcnt = inodes_per_group sb * ucast (inode_size sb) div block_size;
     dat \<leftarrow> buf_set 0 (replicate (unat block_size) 0) dat;
     bit_max \<leftarrow> init_bit_max sb bgid;
     dat \<leftarrow> bits_set_in 0 bit_max dat;
     group_blocks \<leftarrow> init_group_blocks sb bgid;
     in_bg \<leftarrow> ext4_block_in_group sb bmp_blk bgid;
     dat \<leftarrow> (if \<not> flex_bg \<or> in_bg then bit_set_in (ucast (bmp_blk - first_bg)) dat else Some dat);
     in_bg \<leftarrow> ext4_block_in_group sb bmp_inode bgid;
     dat \<leftarrow> (if \<not> flex_bg \<or> in_bg then bit_set_in (ucast (bmp_inode - first_bg)) dat else Some dat);
     dat \<leftarrow> table_set_in sb bgid flex_bg first_bg inode_table (inode_table + ucast inode_table_bcnt) dat;
     ext4_fs_mark_bitmap_end group_blocks (block_size * 8) dat }"

text \<open>Reading a bitmap for its checksum: the bytes must lie in the block.\<close>

definition csum_mem :: "mem \<Rightarrow> u32 \<Rightarrow> byte list \<Rightarrow> mem option" where
  "csum_mem sb n dat =
     mem_at 0 (if ext4_sb_feature_ro_com sb EXT4_FRO_COM_METADATA_CSUM then unat n else 0) dat"

definition ext4_fs_init_block_bitmap ::
  "'s bdif \<Rightarrow> malloc \<Rightarrow> block_group_ref \<Rightarrow> 's fs \<Rightarrow> (int \<times> block_group_ref \<times> 's fs) option" where
  "ext4_fs_init_block_bitmap ops mal ref fs = do {
     let sb = fs_sb fs;
     bg \<leftarrow> get_bg ref fs;
     block_size \<leftarrow> ext4_sb_get_block_size sb;
     let bmp_blk = ext4_bg_get_block_bitmap bg sb;
     let bmp_inode = ext4_bg_get_inode_bitmap bg sb;
     let inode_table = ext4_bg_get_inode_table_first_block bg sb;
     (r, h, cd) \<leftarrow> ext4_trans_block_get_noread ops mal no_block bmp_blk (fs_bdev fs);
     if r \<noteq> EOK then Some (r, ref, fs\<lparr>fs_bdev := cd\<rparr>)
     else do {
       dat \<leftarrow> blk_data h cd;
       dat \<leftarrow> init_bits sb (bg_index ref) bmp_blk bmp_inode inode_table block_size dat;
       cd \<leftarrow> blk_write h dat cd;
       cd \<leftarrow> ext4_trans_set_block_dirty h cd;
       let fs = fs\<lparr>fs_bdev := cd\<rparr>;
       bg \<leftarrow> get_bg ref fs;
       bitmap \<leftarrow> csum_mem sb (blocks_per_group sb div 8) dat;
       fs \<leftarrow> set_bg ref (ext4_balloc_set_bitmap_csum sb bg bitmap) fs;
       (r, fs) \<leftarrow> fs_block_set ops h fs;
       Some (r, ref\<lparr>bg_dirty := True\<rparr>, fs) } }"

definition ext4_fs_init_inode_bitmap ::
  "'s bdif \<Rightarrow> malloc \<Rightarrow> block_group_ref \<Rightarrow> 's fs \<Rightarrow> (int \<times> block_group_ref \<times> 's fs) option" where
  "ext4_fs_init_inode_bitmap ops mal ref fs = do {
     let sb = fs_sb fs;
     bg \<leftarrow> get_bg ref fs;
     (r, h, cd) \<leftarrow> ext4_trans_block_get_noread ops mal no_block (ext4_bg_get_inode_bitmap bg sb) (fs_bdev fs);
     if r \<noteq> EOK then Some (r, ref, fs\<lparr>fs_bdev := cd\<rparr>)
     else do {
       block_size \<leftarrow> ext4_sb_get_block_size sb;
       dat \<leftarrow> blk_data h cd;
       dat \<leftarrow> buf_set 0 (replicate (unat ((inodes_per_group sb + 7) div 8)) 0) dat;
       let start_bit = inodes_per_group sb;
       let end_bit = block_size * 8;
       let i = (if start_bit < (start_bit + 7) AND NOT 7 then (start_bit + 7) AND NOT 7 else start_bit);
       dat \<leftarrow> bits_set_in start_bit i dat;
       dat \<leftarrow> (if i < end_bit then buf_set (unat (drop_bit 3 i)) (replicate (unat (drop_bit 3 (end_bit - i))) 0xff) dat
              else Some dat);
       cd \<leftarrow> blk_write h dat cd;
       cd \<leftarrow> ext4_trans_set_block_dirty h cd;
       let fs = fs\<lparr>fs_bdev := cd\<rparr>;
       bg \<leftarrow> get_bg ref fs;
       bitmap \<leftarrow> csum_mem sb ((inodes_per_group sb + 7) div 8) dat;
       fs \<leftarrow> set_bg ref (ext4_ialloc_set_bitmap_csum sb bg bitmap) fs;
       (r, fs) \<leftarrow> fs_block_set ops h fs;
       Some (r, ref\<lparr>bg_dirty := True\<rparr>, fs) } }"

text \<open>The loop over the blocks of the table counts up to and including \<open>last_block\<close>, and does not
  end when that is the largest number.\<close>

partial_function (option) zero_table :: "'s bdif \<Rightarrow> malloc \<Rightarrow> u32 \<Rightarrow> u64 \<Rightarrow> u64 \<Rightarrow> 's cdev \<Rightarrow> (int \<times> 's cdev) option" where
  "zero_table ops mal block_size fblock last_block cd =
     (if fblock \<le> last_block then
        Option.bind (ext4_trans_block_get_noread ops mal no_block fblock cd) (\<lambda>(r, h, cd).
          if r \<noteq> EOK then Some (r, cd)
          else Option.bind (blk_data h cd) (\<lambda>dat.
            Option.bind (buf_set 0 (replicate (unat block_size) 0) dat) (\<lambda>dat.
            Option.bind (blk_write h dat cd) (\<lambda>cd.
            Option.bind (ext4_trans_set_block_dirty h cd) (\<lambda>cd.
            Option.bind (ext4_block_set ops h cd) (\<lambda>(_, _, cd).
              zero_table ops mal block_size (fblock + 1) last_block cd))))))
      else Some (EOK, cd))"

definition ext4_fs_init_inode_table :: "'s bdif \<Rightarrow> malloc \<Rightarrow> block_group_ref \<Rightarrow> 's fs \<Rightarrow> (int \<times> 's fs) option" where
  "ext4_fs_init_inode_table ops mal ref fs = do {
     let sb = fs_sb fs;
     bg \<leftarrow> get_bg ref fs;
     block_size \<leftarrow> ext4_sb_get_block_size sb;
     if inode_size sb = 0 then None
     else let inodes_per_block = block_size div ucast (inode_size sb) in
     if inodes_per_block = 0 then None
     else do {
       inodes_in_group \<leftarrow> ext4_inodes_in_group_cnt sb (bg_index ref);
       let table_blocks = inodes_in_group div inodes_per_block;
       let table_blocks = (if inodes_in_group mod inodes_per_block \<noteq> 0 then table_blocks + 1 else table_blocks);
       let first_block = ext4_bg_get_inode_table_first_block bg sb;
       let last_block = first_block + ucast table_blocks - 1;
       (r, cd) \<leftarrow> zero_table ops mal block_size first_block last_block (fs_bdev fs);
       Some (r, fs\<lparr>fs_bdev := cd\<rparr>) } }"

subsection \<open>Block group references\<close>

text \<open>The two late initialisations of a group.\<close>

definition init_uninit_blocks ::
  "'s bdif \<Rightarrow> malloc \<Rightarrow> block_group_ref \<Rightarrow> 's fs \<Rightarrow> (int \<times> block_group_ref \<times> 's fs) option" where
  "init_uninit_blocks ops mal ref fs = do {
     bg \<leftarrow> get_bg ref fs;
     if ext4_bg_has_flag bg EXT4_BLOCK_GROUP_BLOCK_UNINIT then do {
       (r, ref, fs) \<leftarrow> ext4_fs_init_block_bitmap ops mal ref fs;
       if r \<noteq> EOK then do {
         (_, fs) \<leftarrow> fs_block_set ops (bg_block ref) fs;
         Some (r, ref, fs) }
       else do {
         bg \<leftarrow> get_bg ref fs;
         fs \<leftarrow> set_bg ref (ext4_bg_clear_flag bg EXT4_BLOCK_GROUP_BLOCK_UNINIT) fs;
         Some (EOK, ref\<lparr>bg_dirty := True\<rparr>, fs) } }
     else Some (EOK, ref, fs) }"

definition init_uninit_inodes ::
  "'s bdif \<Rightarrow> malloc \<Rightarrow> block_group_ref \<Rightarrow> 's fs \<Rightarrow> (int \<times> block_group_ref \<times> 's fs) option" where
  "init_uninit_inodes ops mal ref fs = do {
     bg \<leftarrow> get_bg ref fs;
     if ext4_bg_has_flag bg EXT4_BLOCK_GROUP_INODE_UNINIT then do {
       (r, ref, fs) \<leftarrow> ext4_fs_init_inode_bitmap ops mal ref fs;
       if r \<noteq> EOK then do {
         (_, fs) \<leftarrow> fs_block_set ops (bg_block ref) fs;
         Some (r, ref, fs) }
       else do {
         bg \<leftarrow> get_bg ref fs;
         fs \<leftarrow> set_bg ref (ext4_bg_clear_flag bg EXT4_BLOCK_GROUP_INODE_UNINIT) fs;
         bg \<leftarrow> get_bg ref fs;
         if \<not> ext4_bg_has_flag bg EXT4_BLOCK_GROUP_ITABLE_ZEROED then do {
           (r, fs) \<leftarrow> ext4_fs_init_inode_table ops mal ref fs;
           if r \<noteq> EOK then do {
             (_, fs) \<leftarrow> fs_block_set ops (bg_block ref) fs;
             Some (r, ref, fs) }
           else do {
             bg \<leftarrow> get_bg ref fs;
             fs \<leftarrow> set_bg ref (ext4_bg_set_flag bg EXT4_BLOCK_GROUP_ITABLE_ZEROED) fs;
             Some (EOK, ref\<lparr>bg_dirty := True\<rparr>, fs) } }
         else Some (EOK, ref\<lparr>bg_dirty := True\<rparr>, fs) } }
     else Some (EOK, ref, fs) }"

text \<open>A wrong checksum of the descriptor is only reported.\<close>

definition ext4_fs_get_block_group_ref ::
  "'s bdif \<Rightarrow> malloc \<Rightarrow> u32 \<Rightarrow> 's fs \<Rightarrow> (int \<times> block_group_ref \<times> 's fs) option" where
  "ext4_fs_get_block_group_ref ops mal bgid fs = do {
     let sb = fs_sb fs;
     block_size \<leftarrow> ext4_sb_get_block_size sb;
     let dsize = ucast (ext4_sb_get_desc_size sb);
     let dsc_cnt = block_size div dsize;
     block_id \<leftarrow> ext4_fs_get_descriptor_block sb bgid dsc_cnt;
     let offset = (bgid mod dsc_cnt) * dsize;
     (r, h, cd) \<leftarrow> ext4_trans_block_get ops mal no_block block_id (fs_bdev fs);
     let fs = fs\<lparr>fs_bdev := cd\<rparr>;
     let ref = \<lparr>bg_block = h, block_group = unat offset, bg_index = bgid, bg_dirty = False\<rparr>;
     if r \<noteq> EOK then Some (r, ref, fs)
     else do {
       (r, ref, fs) \<leftarrow> init_uninit_blocks ops mal ref fs;
       if r \<noteq> EOK then Some (r, ref, fs)
       else init_uninit_inodes ops mal ref fs } }"

definition ext4_fs_put_block_group_ref :: "'s bdif \<Rightarrow> block_group_ref \<Rightarrow> 's fs \<Rightarrow> (int \<times> 's fs) option" where
  "ext4_fs_put_block_group_ref ops ref fs = do {
     fs \<leftarrow> (if bg_dirty ref then do {
             bg \<leftarrow> get_bg ref fs;
             fs \<leftarrow> set_bg ref (ext4_bg_set_checksum bg (ext4_fs_bg_checksum (fs_sb fs) (bg_index ref) bg)) fs;
             cd \<leftarrow> ext4_trans_set_block_dirty (bg_block ref) (fs_bdev fs);
             Some (fs\<lparr>fs_bdev := cd\<rparr>) }
           else Some fs);
     fs_block_set ops (bg_block ref) fs }"

subsection \<open>Inode references\<close>

text \<open>A wrong checksum of the inode is only reported, so \<open>initialized\<close> has no effect. The position
  of the inode in its table is computed in 32 bits.\<close>

definition ext4_fs_get_inode_ref ::
  "'s bdif \<Rightarrow> malloc \<Rightarrow> u32 \<Rightarrow> 's fs \<Rightarrow> (int \<times> inode_ref \<times> 's fs) option" where
  "ext4_fs_get_inode_ref ops mal index fs = do {
     let sb = fs_sb fs;
     let index = index - 1;
     let ref = \<lparr>in_block = no_block, inode_off = 0, in_index = 0, in_dirty = False\<rparr>;
     if inodes_per_group sb = 0 then None
     else do {
       let offset_in_group = index mod inodes_per_group sb;
       (r, bg_ref, fs) \<leftarrow> ext4_fs_get_block_group_ref ops mal (index div inodes_per_group sb) fs;
       if r \<noteq> EOK then Some (r, ref, fs)
       else do {
         bg \<leftarrow> get_bg bg_ref fs;
         let inode_table_start = ext4_bg_get_inode_table_first_block bg sb;
         (r, fs) \<leftarrow> ext4_fs_put_block_group_ref ops bg_ref fs;
         if r \<noteq> EOK then Some (r, ref, fs)
         else do {
           block_size \<leftarrow> ext4_sb_get_block_size sb;
           let byte_offset_in_group = offset_in_group * ucast (inode_size sb);
           (r, h, cd) \<leftarrow> ext4_trans_block_get ops mal no_block
             (inode_table_start + ucast (byte_offset_in_group div block_size)) (fs_bdev fs);
           let fs = fs\<lparr>fs_bdev := cd\<rparr>;
           if r \<noteq> EOK then Some (r, ref\<lparr>in_block := h\<rparr>, fs)
           else do {
             let ref = \<lparr>in_block = h, inode_off = unat (byte_offset_in_group mod block_size),
                        in_index = index + 1, in_dirty = False\<rparr>;
             inode \<leftarrow> get_inode ref fs;
             Some (EOK, ref, fs) } } } } }"

definition ext4_fs_put_inode_ref :: "'s bdif \<Rightarrow> inode_ref \<Rightarrow> 's fs \<Rightarrow> (int \<times> 's fs) option" where
  "ext4_fs_put_inode_ref ops ref fs = do {
     fs \<leftarrow> (if in_dirty ref then do {
             inode \<leftarrow> get_inode ref fs;
             fs \<leftarrow> set_inode ref (ext4_fs_set_inode_checksum (fs_sb fs) (in_index ref) inode) fs;
             cd \<leftarrow> ext4_trans_set_block_dirty (in_block ref) (fs_bdev fs);
             Some (fs\<lparr>fs_bdev := cd\<rparr>) }
           else Some fs);
     fs_block_set ops (in_block ref) fs }"

section \<open>Reading through the cache\<close>

text \<open>\<open>malloc\<close> never fails and returns blocks of \<open>n\<close> bytes.\<close>

definition mal_ok :: "nat \<Rightarrow> malloc \<Rightarrow> bool" where
  "mal_ok n mal \<longleftrightarrow> (\<forall>c l. \<exists>dat. mal c l = Some dat \<and> length dat = n)"

abbreviation handle :: "u64 \<Rightarrow> ext4_block" where
  "handle l \<equiv> \<lparr>lb_id = l, hbuf = Some l\<rparr>"

text \<open>The disk as the file system sees it: block \<open>l\<close> has the contents \<open>D l\<close>.\<close>

definition on_disk ::
  "('s bdev \<Rightarrow> bool) \<Rightarrow> ('s bdev \<Rightarrow> u64 \<Rightarrow> byte list) \<Rightarrow> u64 \<Rightarrow> nat \<Rightarrow> nat \<Rightarrow> (u64 \<Rightarrow> byte list) \<Rightarrow> (u64 \<Rightarrow> nat) \<Rightarrow> 's fs \<Rightarrow> bool" where
  "on_disk good blk N n k D R fs \<longleftrightarrow> refines good blk False N n k (D, R) (fs_bdev fs)"

lemma on_disk_held:
  assumes "on_disk good blk N n k D R fs" "0 < R l"
  shows "blk_data (handle l) (fs_bdev fs) = Some (D l)"
  using refines_held[OF assms(1)[unfolded on_disk_def] assms(2)] by (auto simp: blk_data_def)

lemma on_disk_clean:
  assumes "on_disk good blk N n k D R fs" "0 < R l"
  shows "\<exists>b. ext4_buf_lookup (bc (fs_bdev fs)) l = Some b \<and> BC_DIRTY \<notin> flags b"
  using refines_held[OF assms(1)[unfolded on_disk_def] assms(2)] assms(1)
  by (fastforce simp: on_disk_def refines_def coherent_def buf_coh_def)

lemma on_disk_mono: "on_disk good blk N n k D R fs \<Longrightarrow> k \<le> k' \<Longrightarrow> on_disk good blk N n k' D R fs"
  by (auto simp: on_disk_def refines_def intro: order_trans)

context logical_source
begin

lemma trans_get_ok:
  assumes "on_disk good blk N n k D R fs" "mal_ok n mal" "l < N" "l \<noteq> 0" "k + 2 < 2 ^ 32"
  shows "\<exists>cd. ext4_trans_block_get ops mal h l (fs_bdev fs) = Some (EOK, handle l, cd) \<and>
    on_disk good blk N n (k + 1) D (R(l := R l + 1)) (fs\<lparr>fs_bdev := cd\<rparr>) \<and> blk_data (handle l) cd = Some (D l)"
proof -
  obtain dat where dat: "mal (bc (fs_bdev fs)) l = Some dat" "length dat = n" using assms(2) by (auto simp: mal_ok_def)
  from get_refines[OF assms(1)[unfolded on_disk_def] _ assms(3,4) dat(2) assms(5), of h]
  obtain cd where cd: "ext4_block_get ops (Some dat) h l (fs_bdev fs) = Some (EOK, handle l, cd)"
    "refines good blk False N n (k + 1) (D, R(l := R l + 1)) cd" by auto
  have on: "on_disk good blk N n (k + 1) D (R(l := R l + 1)) (fs\<lparr>fs_bdev := cd\<rparr>)" using cd(2) by (simp add: on_disk_def)
  have "blk_data (handle l) cd = Some (D l)" using on_disk_held[OF on, of l] by simp
  with cd(1) on dat(1) show ?thesis by (auto simp: ext4_trans_block_get_def)
qed

lemma block_set_ok:
  assumes "on_disk good blk N n k D R fs" "0 < R l"
  shows "\<exists>cd. fs_block_set ops (handle l) fs = Some (EOK, fs\<lparr>fs_bdev := cd\<rparr>) \<and>
    on_disk good blk N n (k + 1) D (R(l := R l - 1)) (fs\<lparr>fs_bdev := cd\<rparr>)"
  using put_refines[OF assms(1)[unfolded on_disk_def] _ assms(2)] by (auto simp: fs_block_set_def on_disk_def)

end

text \<open>Where the descriptor of a group lies on the disk.\<close>

definition desc_block :: "mem \<Rightarrow> u32 \<Rightarrow> u64 option" where
  "desc_block sb bgid = Option.bind (dsc_per_block sb) (ext4_fs_get_descriptor_block sb bgid)"

definition desc_off :: "mem \<Rightarrow> u32 \<Rightarrow> nat" where
  "desc_off sb bgid = unat ((bgid mod the (dsc_per_block sb)) * ucast (ext4_sb_get_desc_size sb))"

definition desc_at :: "mem \<Rightarrow> (u64 \<Rightarrow> byte list) \<Rightarrow> u32 \<Rightarrow> mem" where
  "desc_at sb D bgid = (\<lambda>i. D (the (desc_block sb bgid)) ! (desc_off sb bgid + i))"

text \<open>A group whose descriptor is on the disk and does not ask for late initialisation.\<close>

definition group_ok :: "mem \<Rightarrow> u64 \<Rightarrow> (u64 \<Rightarrow> byte list) \<Rightarrow> u32 \<Rightarrow> bool" where
  "group_ok sb N D bgid \<longleftrightarrow>
     (\<exists>l. desc_block sb bgid = Some l \<and> l \<noteq> 0 \<and> l < N \<and> desc_off sb bgid + bg_len sb \<le> length (D l)) \<and>
     \<not> ext4_bg_has_flag (desc_at sb D bgid) EXT4_BLOCK_GROUP_BLOCK_UNINIT \<and>
     \<not> ext4_bg_has_flag (desc_at sb D bgid) EXT4_BLOCK_GROUP_INODE_UNINIT"

context logical_source
begin

lemma get_group_ref_ok:
  assumes "on_disk good blk N n k D R fs" "mal_ok n mal" "group_ok (fs_sb fs) N D bgid" "k + 2 < 2 ^ 32"
  shows "\<exists>l cd. let ref = \<lparr>bg_block = handle l, block_group = desc_off (fs_sb fs) bgid, bg_index = bgid, bg_dirty = False\<rparr> in
    ext4_fs_get_block_group_ref ops mal bgid fs = Some (EOK, ref, fs\<lparr>fs_bdev := cd\<rparr>) \<and>
    on_disk good blk N n (k + 1) D (R(l := R l + 1)) (fs\<lparr>fs_bdev := cd\<rparr>) \<and>
    get_bg ref (fs\<lparr>fs_bdev := cd\<rparr>) = Some (desc_at (fs_sb fs) D bgid)"
proof -
  let ?sb = "fs_sb fs"
  from assms(3) obtain l where l: "desc_block ?sb bgid = Some l" "l \<noteq> 0" "l < N" "desc_off ?sb bgid + bg_len ?sb \<le> length (D l)"
    by (auto simp: group_ok_def)
  from trans_get_ok[OF assms(1,2) l(3,2) assms(4)] obtain cd where cd:
    "ext4_trans_block_get ops mal no_block l (fs_bdev fs) = Some (EOK, handle l, cd)"
    "on_disk good blk N n (k + 1) D (R(l := R l + 1)) (fs\<lparr>fs_bdev := cd\<rparr>)" "blk_data (handle l) cd = Some (D l)" by blast
  let ?ref = "\<lparr>bg_block = handle l, block_group = desc_off ?sb bgid, bg_index = bgid, bg_dirty = False\<rparr>"
  have bg: "get_bg ?ref (fs\<lparr>fs_bdev := cd\<rparr>) = Some (desc_at ?sb D bgid)"
    using cd(3) l(1,4) by (simp add: get_bg_def mem_at_def desc_at_def)
  obtain bs where bs: "ext4_sb_get_block_size ?sb = Some bs"
    "ext4_fs_get_descriptor_block ?sb bgid (bs div ucast (ext4_sb_get_desc_size ?sb)) = Some l"
    "unat ((bgid mod (bs div ucast (ext4_sb_get_desc_size ?sb))) * ucast (ext4_sb_get_desc_size ?sb)) = desc_off ?sb bgid"
    using l(1) by (auto simp: desc_block_def desc_off_def dsc_per_block_def bind_Some_iff)
  have "ext4_fs_get_block_group_ref ops mal bgid fs = Some (EOK, ?ref, fs\<lparr>fs_bdev := cd\<rparr>)"
    using assms(3) bg bs cd(1)
    by (simp add: ext4_fs_get_block_group_ref_def Let_def init_uninit_blocks_def init_uninit_inodes_def group_ok_def)
  with cd(2) bg show ?thesis by (auto simp: Let_def)
qed

lemma put_group_ref_ok:
  assumes "on_disk good blk N n k D R fs" "0 < R l" "bg_block ref = handle l" "\<not> bg_dirty ref"
  shows "\<exists>cd. ext4_fs_put_block_group_ref ops ref fs = Some (EOK, fs\<lparr>fs_bdev := cd\<rparr>) \<and>
    on_disk good blk N n (k + 1) D (R(l := R l - 1)) (fs\<lparr>fs_bdev := cd\<rparr>)"
  using block_set_ok[OF assms(1,2)] assms(3,4) by (simp add: ext4_fs_put_block_group_ref_def)

end

text \<open>Where an inode lies on the disk.\<close>

definition inode_pos :: "mem \<Rightarrow> u32 \<Rightarrow> u32" where
  "inode_pos sb index = ((index - 1) mod inodes_per_group sb) * ucast (inode_size sb)"

definition inode_block :: "mem \<Rightarrow> (u64 \<Rightarrow> byte list) \<Rightarrow> u32 \<Rightarrow> u64" where
  "inode_block sb D index =
     ext4_bg_get_inode_table_first_block (desc_at sb D ((index - 1) div inodes_per_group sb)) sb +
     ucast (inode_pos sb index div the (ext4_sb_get_block_size sb))"

definition inode_offset :: "mem \<Rightarrow> u32 \<Rightarrow> nat" where
  "inode_offset sb index = unat (inode_pos sb index mod the (ext4_sb_get_block_size sb))"

definition inode_at :: "mem \<Rightarrow> (u64 \<Rightarrow> byte list) \<Rightarrow> u32 \<Rightarrow> mem" where
  "inode_at sb D index = (\<lambda>i. D (inode_block sb D index) ! (inode_offset sb index + i))"

definition inode_ok :: "mem \<Rightarrow> u64 \<Rightarrow> (u64 \<Rightarrow> byte list) \<Rightarrow> u32 \<Rightarrow> bool" where
  "inode_ok sb N D index \<longleftrightarrow> inodes_per_group sb \<noteq> 0 \<and> group_ok sb N D ((index - 1) div inodes_per_group sb) \<and>
     inode_block sb D index \<noteq> 0 \<and> inode_block sb D index < N \<and>
     inode_offset sb index + unat (inode_size sb) \<le> length (D (inode_block sb D index))"

definition the_ref :: "mem \<Rightarrow> (u64 \<Rightarrow> byte list) \<Rightarrow> u32 \<Rightarrow> inode_ref" where
  "the_ref sb D index = \<lparr>in_block = handle (inode_block sb D index), inode_off = inode_offset sb index,
     in_index = index, in_dirty = False\<rparr>"

lemma get_inode_held:
  assumes "on_disk good blk N n k D R fs" "0 < R (inode_block (fs_sb fs) D index)" "inode_ok (fs_sb fs) N D index"
  shows "get_inode (the_ref (fs_sb fs) D index) fs = Some (inode_at (fs_sb fs) D index)"
  using on_disk_held[OF assms(1,2)] assms(3) by (simp add: get_inode_def the_ref_def mem_at_def inode_at_def inode_ok_def)

context logical_source
begin

lemma get_inode_ref_ok:
  assumes "on_disk good blk N n k D R fs" "mal_ok n mal" "inode_ok (fs_sb fs) N D index" "k + 4 < 2 ^ 32"
  shows "\<exists>cd. ext4_fs_get_inode_ref ops mal index fs = Some (EOK, the_ref (fs_sb fs) D index, fs\<lparr>fs_bdev := cd\<rparr>) \<and>
    on_disk good blk N n (k + 3) D (R(inode_block (fs_sb fs) D index := R (inode_block (fs_sb fs) D index) + 1)) (fs\<lparr>fs_bdev := cd\<rparr>)"
proof -
  let ?sb = "fs_sb fs" and ?g = "(index - 1) div inodes_per_group (fs_sb fs)" and ?b = "inode_block (fs_sb fs) D index"
  note ok = assms(3)[unfolded inode_ok_def]
  from get_group_ref_ok[OF assms(1,2), of ?g] ok assms(4) obtain l cd1 where 1:
    "let ref = \<lparr>bg_block = handle l, block_group = desc_off ?sb ?g, bg_index = ?g, bg_dirty = False\<rparr> in
      ext4_fs_get_block_group_ref ops mal ?g fs = Some (EOK, ref, fs\<lparr>fs_bdev := cd1\<rparr>) \<and>
      on_disk good blk N n (k + 1) D (R(l := R l + 1)) (fs\<lparr>fs_bdev := cd1\<rparr>) \<and>
      get_bg ref (fs\<lparr>fs_bdev := cd1\<rparr>) = Some (desc_at ?sb D ?g)" by auto
  let ?bg = "\<lparr>bg_block = handle l, block_group = desc_off ?sb ?g, bg_index = ?g, bg_dirty = False\<rparr>"
  have on1: "on_disk good blk N n (k + 1) D (R(l := R l + 1)) (fs\<lparr>fs_bdev := cd1\<rparr>)" using 1 by (simp add: Let_def)
  have "\<exists>cd. ext4_fs_put_block_group_ref ops ?bg (fs\<lparr>fs_bdev := cd1\<rparr>) = Some (EOK, fs\<lparr>fs_bdev := cd1\<rparr>\<lparr>fs_bdev := cd\<rparr>) \<and>
    on_disk good blk N n (k + 1 + 1) D ((R(l := R l + 1))(l := (R(l := R l + 1)) l - 1)) (fs\<lparr>fs_bdev := cd1\<rparr>\<lparr>fs_bdev := cd\<rparr>)"
    by (rule put_group_ref_ok[OF on1]) simp_all
  then obtain cd2 where 2: "ext4_fs_put_block_group_ref ops ?bg (fs\<lparr>fs_bdev := cd1\<rparr>) = Some (EOK, fs\<lparr>fs_bdev := cd2\<rparr>)"
    "on_disk good blk N n (k + 2) D R (fs\<lparr>fs_bdev := cd2\<rparr>)" by auto
  have "\<exists>cd. ext4_trans_block_get ops mal no_block ?b (fs_bdev (fs\<lparr>fs_bdev := cd2\<rparr>)) = Some (EOK, handle ?b, cd) \<and>
    on_disk good blk N n (k + 2 + 1) D (R(?b := R ?b + 1)) (fs\<lparr>fs_bdev := cd2\<rparr>\<lparr>fs_bdev := cd\<rparr>) \<and> blk_data (handle ?b) cd = Some (D ?b)"
    by (rule trans_get_ok[OF 2(2) assms(2)]) (use ok assms(4) in simp_all)
  then obtain cd3 where 3: "ext4_trans_block_get ops mal no_block ?b cd2 = Some (EOK, handle ?b, cd3)"
    "on_disk good blk N n (k + 3) D (R(?b := R ?b + 1)) (fs\<lparr>fs_bdev := cd3\<rparr>)" by (auto simp: numeral_3_eq_3)
  have inode: "get_inode (the_ref ?sb D index) (fs\<lparr>fs_bdev := cd3\<rparr>) = Some (inode_at ?sb D index)"
    using get_inode_held[OF 3(2), of index] assms(3) by simp
  obtain bs where bs: "ext4_sb_get_block_size ?sb = Some bs"
    using ok by (auto simp: group_ok_def desc_block_def dsc_per_block_def bind_Some_iff)
  have "ext4_fs_get_inode_ref ops mal index fs = Some (EOK, the_ref ?sb D index, fs\<lparr>fs_bdev := cd3\<rparr>)"
    using 1 2(1) 3(1) inode bs ok
    by (simp add: ext4_fs_get_inode_ref_def Let_def the_ref_def inode_block_def[of ?sb D index] inode_offset_def inode_pos_def)
  with 3(2) show ?thesis by blast
qed

lemma put_inode_ref_ok:
  assumes "on_disk good blk N n k D R fs" "0 < R (inode_block (fs_sb fs) D index)"
  shows "\<exists>cd. ext4_fs_put_inode_ref ops (the_ref (fs_sb fs) D index) fs = Some (EOK, fs\<lparr>fs_bdev := cd\<rparr>) \<and>
    on_disk good blk N n (k + 1) D (R(inode_block (fs_sb fs) D index := R (inode_block (fs_sb fs) D index) - 1)) (fs\<lparr>fs_bdev := cd\<rparr>)"
  using block_set_ok[OF assms] by (simp add: ext4_fs_put_inode_ref_def the_ref_def)

end

end
