(* ===== verification/Ext4_Extent.thy ===== *)
theory Ext4_Extent
  imports Ext4_Fs
begin

text \<open>
  Looking up a block in an extent tree: the reading half of lwext4/src/ext4_extent.c. A node of the
  tree is the sequence of bytes from its header on: the 60 bytes of the block map of the inode for the
  root, a cached block for all others; an access behind its end has no result. Positions of entries
  stand for the pointers \<open>index\<close> and \<open>extent\<close>. \<open>cal\<close> says whether \<open>ext4_calloc\<close> succeeds
  for the array of the path.
\<close>

section \<open>Definitions\<close>

definition EXT4_EXTENT_MAGIC :: u16 where "EXT4_EXTENT_MAGIC = 0xF30A"
definition EXT_INIT_MAX_LEN :: u16 where "EXT_INIT_MAX_LEN = 0x8000"

subsection \<open>Nodes and entries\<close>

definition rd16 :: "byte list \<Rightarrow> nat \<Rightarrow> u16 option" where
  "rd16 node off = (if off + 2 \<le> length node then Some (get16 ((!) node) off) else None)"

definition rd32 :: "byte list \<Rightarrow> nat \<Rightarrow> u32 option" where
  "rd32 node off = (if off + 4 \<le> length node then Some (get32 ((!) node) off) else None)"

abbreviation eh_magic :: "byte list \<Rightarrow> u16 option" where "eh_magic node \<equiv> rd16 node 0"
abbreviation eh_entries_count :: "byte list \<Rightarrow> u16 option" where "eh_entries_count node \<equiv> rd16 node 2"
abbreviation eh_max_entries_count :: "byte list \<Rightarrow> u16 option" where "eh_max_entries_count node \<equiv> rd16 node 4"
abbreviation eh_depth :: "byte list \<Rightarrow> u16 option" where "eh_depth node \<equiv> rd16 node 6"

text \<open>The entry at a position, and its fields: extents of the leaves, indices of the other nodes.\<close>

definition entry :: "byte list \<Rightarrow> nat \<Rightarrow> mem option" where
  "entry node i = mem_at (12 + 12 * i) 12 node"

definition ee_first_block :: "mem \<Rightarrow> u32" where "ee_first_block ex = get32 ex 0"
definition ee_block_count :: "mem \<Rightarrow> u16" where "ee_block_count ex = get16 ex 4"

definition ext4_ext_get_actual_len :: "mem \<Rightarrow> u16" where
  "ext4_ext_get_actual_len ex =
     (if ee_block_count ex \<le> EXT_INIT_MAX_LEN then ee_block_count ex else ee_block_count ex - EXT_INIT_MAX_LEN)"

definition ext4_ext_is_unwritten :: "mem \<Rightarrow> bool" where
  "ext4_ext_is_unwritten ex \<longleftrightarrow> ee_block_count ex > EXT_INIT_MAX_LEN"

definition ext4_ext_pblock :: "mem \<Rightarrow> u64" where
  "ext4_ext_pblock ex = ucast (get32 ex 8) OR push_bit 1 (push_bit 31 (ucast (get16 ex 6)))"

definition ext4_idx_pblock :: "mem \<Rightarrow> u64" where
  "ext4_idx_pblock ix = ucast (get32 ix 4) OR push_bit 1 (push_bit 31 (ucast (get16 ix 8)))"

text \<open>The range test, in 32 bits: an extent of length 0 at block 0 covers everything.\<close>

definition IN_RANGE :: "u32 \<Rightarrow> u32 \<Rightarrow> u32 \<Rightarrow> bool" where
  "IN_RANGE b first len \<longleftrightarrow> b \<ge> first \<and> b \<le> first + len - 1"

subsection \<open>Paths\<close>

record extent_path =
  pa_block :: ext4_block
  pa_header :: "ext4_block option"    \<comment> \<open>the node is that block, or the root in the inode\<close>
  pa_index :: "nat option"
  pa_extent :: "nat option"

definition hdr_data :: "inode_ref \<Rightarrow> ext4_block option \<Rightarrow> 's fs \<Rightarrow> byte list option" where
  "hdr_data ref hdr fs =
     (case hdr of
        None \<Rightarrow> map_option (\<lambda>inode. mem_get (ext4_inode_get_extent_header inode) 0 60) (get_inode ref fs)
      | Some h \<Rightarrow> blk_data h (fs_bdev fs))"

definition ext_depth :: "inode_ref \<Rightarrow> 's fs \<Rightarrow> u16 option" where
  "ext_depth ref fs = Option.bind (hdr_data ref None fs) eh_depth"

subsection \<open>Checksums of nodes\<close>

definition EXT4_EXTENT_TAIL_OFFSET :: "u16 \<Rightarrow> nat" where
  "EXT4_EXTENT_TAIL_OFFSET mx = 12 + 12 * unat mx"

definition ext4_ext_block_csum :: "inode_ref \<Rightarrow> byte list \<Rightarrow> 's fs \<Rightarrow> u32 option" where
  "ext4_ext_block_csum ref node fs =
     (if ext4_sb_feature_ro_com (fs_sb fs) EXT4_FRO_COM_METADATA_CSUM then do {
        inode \<leftarrow> get_inode ref fs;
        mx \<leftarrow> eh_max_entries_count node;
        let n = EXT4_EXTENT_TAIL_OFFSET mx;
        if length node < n then None
        else Some (ext4_crc32c (ext4_crc32c (ext4_crc32c (ext4_crc32c EXT4_CRC32_INIT (uuid (fs_sb fs)))
               (le32 (in_index ref))) (le32 (ext4_inode_get_generation inode))) (take n node)) }
      else Some 0)"

definition ext4_extent_block_csum_set :: "inode_ref \<Rightarrow> ext4_block \<Rightarrow> 's fs \<Rightarrow> 's fs option" where
  "ext4_extent_block_csum_set ref h fs = do {
     node \<leftarrow> blk_data h (fs_bdev fs);
     mx \<leftarrow> eh_max_entries_count node;
     csum \<leftarrow> ext4_ext_block_csum ref node fs;
     node \<leftarrow> buf_set (EXT4_EXTENT_TAIL_OFFSET mx) (le32 csum) node;
     cd \<leftarrow> blk_write h node (fs_bdev fs);
     Some (fs\<lparr>fs_bdev := cd\<rparr>) }"

text \<open>A wrong checksum is only reported, but it is read and computed.\<close>

definition ext4_ext_check :: "inode_ref \<Rightarrow> byte list \<Rightarrow> u16 \<Rightarrow> 's fs \<Rightarrow> int option" where
  "ext4_ext_check ref node depth fs = do {
     mag \<leftarrow> eh_magic node;
     dep \<leftarrow> eh_depth node;
     mx \<leftarrow> eh_max_entries_count node;
     cnt \<leftarrow> eh_entries_count node;
     if mag \<noteq> EXT4_EXTENT_MAGIC then Some EIO
     else if dep \<noteq> depth then Some EIO
     else if mx = 0 then Some EIO
     else if cnt > mx then Some EIO
     else if ext4_sb_feature_ro_com (fs_sb fs) EXT4_FRO_COM_METADATA_CSUM then do {
       _ \<leftarrow> rd32 node (EXT4_EXTENT_TAIL_OFFSET mx);
       _ \<leftarrow> ext4_ext_block_csum ref node fs;
       Some EOK }
     else Some EOK }"

subsection \<open>Reading nodes and giving them back\<close>

fun ext4_ext_drop_refs :: "'s bdif \<Rightarrow> inode_ref \<Rightarrow> extent_path list \<Rightarrow> 's fs \<Rightarrow> 's fs option" where
  "ext4_ext_drop_refs ops ref [] fs = Some fs"
| "ext4_ext_drop_refs ops ref (p # ps) fs =
     (if lb_id (pa_block p) \<noteq> 0 then do {
        l \<leftarrow> hbuf (pa_block p);
        b \<leftarrow> ext4_buf_lookup (bc (fs_bdev fs)) l;
        fs \<leftarrow> (if ext4_bcache_test_flag b BC_DIRTY then ext4_extent_block_csum_set ref (pa_block p) fs else Some fs);
        (_, fs) \<leftarrow> fs_block_set ops (pa_block p) fs;
        ext4_ext_drop_refs ops ref ps fs }
      else ext4_ext_drop_refs ops ref ps fs)"

definition read_extent_tree_block ::
  "'s bdif \<Rightarrow> malloc \<Rightarrow> inode_ref \<Rightarrow> u64 \<Rightarrow> u16 \<Rightarrow> ext4_block \<Rightarrow> 's fs \<Rightarrow> (int \<times> ext4_block \<times> 's fs) option" where
  "read_extent_tree_block ops mal ref pblk depth bh fs = do {
     (r, bh, cd) \<leftarrow> ext4_trans_block_get ops mal bh pblk (fs_bdev fs);
     let fs = fs\<lparr>fs_bdev := cd\<rparr>;
     r \<leftarrow> (if r \<noteq> EOK then Some r
          else do {
            node \<leftarrow> blk_data bh (fs_bdev fs);
            ext4_ext_check ref node depth fs });
     if r = EOK then Some (EOK, bh, fs)
     else if lb_id bh \<noteq> 0 then do {
       (_, bh, cd) \<leftarrow> ext4_block_set ops bh (fs_bdev fs);
       Some (r, bh, fs\<lparr>fs_bdev := cd\<rparr>) }
     else Some (r, bh, fs) }"

subsection \<open>Searching\<close>

text \<open>The loop of both binary searches, over positions.\<close>

function bs_loop :: "u32 \<Rightarrow> byte list \<Rightarrow> int \<Rightarrow> int \<Rightarrow> int option" where
  "bs_loop block node l r =
     (if l \<le> r then
        (let m = l + (r - l) div 2 in
         Option.bind (rd32 node (12 + 12 * nat m)) (\<lambda>k.
           if block < k then bs_loop block node l (m - 1) else bs_loop block node (m + 1) r))
      else Some l)"
  by pat_completeness auto
termination
  by (relation "measure (\<lambda>(block, node, l, r). nat (r - l + 1))") (auto simp: nat_less_iff)

declare bs_loop.simps [simp del]

definition ext4_ext_binsearch_idx :: "u32 \<Rightarrow> byte list \<Rightarrow> nat option" where
  "ext4_ext_binsearch_idx block node = do {
     cnt \<leftarrow> eh_entries_count node;
     l \<leftarrow> bs_loop block node 1 (int (unat cnt) - 1);
     Some (nat (l - 1)) }"

definition ext4_ext_binsearch :: "u32 \<Rightarrow> byte list \<Rightarrow> nat option option" where
  "ext4_ext_binsearch block node = do {
     cnt \<leftarrow> eh_entries_count node;
     if cnt = 0 then Some None
     else do {
       l \<leftarrow> bs_loop block node 1 (int (unat cnt) - 1);
       Some (Some (nat (l - 1))) } }"

text \<open>Walking down the tree. \<open>path\<close> is the path so far, \<open>p\<close> its last element, \<open>bh\<close> the handle variable,
  which keeps its value from level to level; the path is new, so none of its blocks is known. The test
  for a path that is too long never holds here.\<close>

fun find_walk ::
  "'s bdif \<Rightarrow> malloc \<Rightarrow> inode_ref \<Rightarrow> u32 \<Rightarrow> nat \<Rightarrow> ext4_block \<Rightarrow> extent_path list \<Rightarrow> extent_path \<Rightarrow> 's fs \<Rightarrow>
   (int \<times> extent_path list \<times> 's fs) option" where
  "find_walk ops mal ref block 0 bh path p fs = do {
     node \<leftarrow> hdr_data ref (pa_header p) fs;
     ext \<leftarrow> ext4_ext_binsearch block node;
     _ \<leftarrow> (case ext of None \<Rightarrow> Some () | Some i \<Rightarrow> map_option (\<lambda>_. ()) (entry node i));
     Some (EOK, path @ [p\<lparr>pa_index := None, pa_extent := ext\<rparr>], fs) }"
| "find_walk ops mal ref block (Suc i) bh path p fs = do {
     node \<leftarrow> hdr_data ref (pa_header p) fs;
     idx \<leftarrow> ext4_ext_binsearch_idx block node;
     ix \<leftarrow> entry node idx;
     let p = p\<lparr>pa_index := Some idx, pa_extent := None\<rparr>;
     (r, bh, fs) \<leftarrow> read_extent_tree_block ops mal ref (ext4_idx_pblock ix) (of_nat i) bh fs;
     if r \<noteq> EOK then do {
       fs \<leftarrow> ext4_ext_drop_refs ops ref (path @ [p]) fs;
       Some (r, [], fs) }
     else find_walk ops mal ref block i bh (path @ [p])
            \<lparr>pa_block = bh, pa_header = Some bh, pa_index = None, pa_extent = None\<rparr> fs }"

definition ext4_find_extent ::
  "'s bdif \<Rightarrow> malloc \<Rightarrow> (u16 \<Rightarrow> bool) \<Rightarrow> inode_ref \<Rightarrow> u32 \<Rightarrow> 's fs \<Rightarrow> (int \<times> extent_path list \<times> 's fs) option" where
  "ext4_find_extent ops mal cal ref block fs = do {
     depth \<leftarrow> ext_depth ref fs;
     if \<not> cal depth then Some (ENOMEM, [], fs)
     else find_walk ops mal ref block (unat depth) no_block []
            \<lparr>pa_block = no_block, pa_header = None, pa_index = None, pa_extent = None\<rparr> fs }"

text \<open>The block that holds block \<open>iblock\<close> of the file, and how many follow it: the calls that do not
  create blocks. The results are the error, \<open>result\<close> and \<open>blocks_count\<close>.\<close>

definition ext4_extent_get_blocks ::
  "'s bdif \<Rightarrow> malloc \<Rightarrow> (u16 \<Rightarrow> bool) \<Rightarrow> inode_ref \<Rightarrow> u32 \<Rightarrow> u32 \<Rightarrow> 's fs \<Rightarrow> (int \<times> u64 \<times> u32 \<times> 's fs) option" where
  "ext4_extent_get_blocks ops mal cal ref iblock max_blocks fs = do {
     (r, path, fs) \<leftarrow> ext4_find_extent ops mal cal ref iblock fs;
     if r \<noteq> EOK then Some (r, 0, 0, fs)
     else do {
       (result, count) \<leftarrow>
         (case pa_extent (last path) of
            None \<Rightarrow> Some (0, 0)
          | Some i \<Rightarrow> do {
              node \<leftarrow> hdr_data ref (pa_header (last path)) fs;
              ex \<leftarrow> entry node i;
              let ee_block = ee_first_block ex;
              let ee_len = ucast (ext4_ext_get_actual_len ex);
              if IN_RANGE iblock ee_block ee_len then
                (let allocated = ee_len - (iblock - ee_block);
                     newblock = (if \<not> ext4_ext_is_unwritten ex then ucast (iblock - ee_block) + ext4_ext_pblock ex else 0) in
                 Some (newblock, if allocated > max_blocks then max_blocks else allocated))
              else Some (0, 0) });
       fs \<leftarrow> ext4_ext_drop_refs ops ref path fs;
       Some (EOK, result, count, fs) } }"

section \<open>Extent trees\<close>

text \<open>The reference: the extents of a tree from left to right, and the block of the first of them that
  covers a block of the file. A block that is not covered, or only reserved, is 0.\<close>

definition ents :: "byte list \<Rightarrow> nat" where "ents node = unat (get16 ((!) node) 2)"

definition ent :: "byte list \<Rightarrow> nat \<Rightarrow> mem" where "ent node i = (\<lambda>j. node ! (12 + 12 * i + j))"

definition key :: "byte list \<Rightarrow> nat \<Rightarrow> u32" where "key node i = ee_first_block (ent node i)"

definition child :: "byte list \<Rightarrow> nat \<Rightarrow> u64" where "child node i = ext4_idx_pblock (ent node i)"

fun extents :: "(u64 \<Rightarrow> byte list) \<Rightarrow> nat \<Rightarrow> byte list \<Rightarrow> mem list" where
  "extents D 0 node = map (ent node) [0..<ents node]"
| "extents D (Suc d) node = concat (map (\<lambda>i. extents D d (D (child node i))) [0..<ents node])"

definition ext_start :: "mem \<Rightarrow> nat" where "ext_start ex = unat (ee_first_block ex)"
definition ext_end :: "mem \<Rightarrow> nat" where "ext_end ex = ext_start ex + unat (ext4_ext_get_actual_len ex)"

definition covers :: "u32 \<Rightarrow> mem \<Rightarrow> bool" where
  "covers b ex \<longleftrightarrow> ext_start ex \<le> unat b \<and> unat b < ext_end ex"

definition ext_target :: "u32 \<Rightarrow> mem \<Rightarrow> u64" where
  "ext_target b ex = (if ext4_ext_is_unwritten ex then 0 else ext4_ext_pblock ex + ucast (b - ee_first_block ex))"

definition ext_block :: "(u64 \<Rightarrow> byte list) \<Rightarrow> nat \<Rightarrow> byte list \<Rightarrow> u32 \<Rightarrow> u64" where
  "ext_block D d node b = (case find (covers b) (extents D d node) of None \<Rightarrow> 0 | Some ex \<Rightarrow> ext_target b ex)"

text \<open>Well-formed trees: nodes with their entries in bounds and in order, children on the disk with the
  extents of their range. \<open>tail\<close> is what a node needs behind its entries for the checksum.\<close>

definition node_ok :: "nat \<Rightarrow> byte list \<Rightarrow> nat \<Rightarrow> bool" where
  "node_ok tail node d \<longleftrightarrow> 12 \<le> length node \<and> get16 ((!) node) 0 = EXT4_EXTENT_MAGIC \<and>
     get16 ((!) node) 6 = of_nat d \<and> get16 ((!) node) 4 \<noteq> 0 \<and> get16 ((!) node) 2 \<le> get16 ((!) node) 4 \<and>
     12 + 12 * unat (get16 ((!) node) 4) + tail \<le> length node"

fun tree_ok :: "nat \<Rightarrow> u64 \<Rightarrow> (u64 \<Rightarrow> byte list) \<Rightarrow> nat \<Rightarrow> byte list \<Rightarrow> nat \<Rightarrow> nat \<Rightarrow> bool" where
  "tree_ok tail N D 0 node lo hi \<longleftrightarrow> 12 + 12 * ents node \<le> length node \<and>
     (\<forall>i<ents node. lo \<le> ext_start (ent node i) \<and> ext_start (ent node i) < ext_end (ent node i) \<and> ext_end (ent node i) \<le> hi) \<and>
     (\<forall>j<ents node. \<forall>i<j. ext_end (ent node i) \<le> ext_start (ent node j))"
| "tree_ok tail N D (Suc d) node lo hi \<longleftrightarrow> 12 + 12 * ents node \<le> length node \<and> 0 < ents node \<and>
     lo \<le> unat (key node 0) \<and> (\<forall>j<ents node. \<forall>i<j. key node i \<le> key node j) \<and> unat (key node (ents node - 1)) \<le> hi \<and>
     (\<forall>i<ents node. child node i \<noteq> 0 \<and> child node i < N \<and> node_ok tail (D (child node i)) d \<and>
        tree_ok tail N D d (D (child node i)) (unat (key node i)) (if i + 1 < ents node then unat (key node (i + 1)) else hi))"

lemma find_unique: "x \<in> set xs \<Longrightarrow> P x \<Longrightarrow> (\<And>y. y \<in> set xs \<Longrightarrow> P y \<Longrightarrow> y = x) \<Longrightarrow> find P xs = Some x"
  by (induction xs) (simp, metis find.simps(2) list.set_intros set_ConsD)

lemma find_append: "find P (xs @ ys) = (case find P xs of None \<Rightarrow> find P ys | Some x \<Rightarrow> Some x)"
  by (induction xs) auto

lemma find_concat_only:
  assumes "i < n" "\<And>j y. j < n \<Longrightarrow> j \<noteq> i \<Longrightarrow> y \<in> set (f j) \<Longrightarrow> \<not> P y"
  shows "find P (concat (map f [0..<n])) = find P (f i)"
proof -
  have split: "[0..<n] = [0..<i] @ i # [Suc i..<n]" using assms(1) by (metis upt_add_eq_append[of 0 i "n - i"] upt_conv_Cons le_add_diff_inverse less_imp_le zero_le)
  have "\<not> P y" if "y \<in> set (concat (map f [0..<i] @ map f [Suc i..<n]))" for y
  proof -
    from that obtain j where "j \<in> set ([0..<i] @ [Suc i..<n])" "y \<in> set (f j)" by fastforce
    then show ?thesis using assms(1) by (intro assms(2)[of j]) auto
  qed
  then have "find P (concat (map f [0..<i])) = None" "find P (concat (map f [Suc i..<n])) = None"
    unfolding find_None_iff by auto
  then show ?thesis unfolding split by (simp add: find_append split: option.split)
qed

text \<open>The binary search finds the last entry that does not begin behind the block, or the first one.\<close>

definition found :: "u32 \<Rightarrow> byte list \<Rightarrow> nat \<Rightarrow> bool" where
  "found b node i \<longleftrightarrow> i < ents node \<and> (i \<noteq> 0 \<longrightarrow> key node i \<le> b) \<and> (i + 1 < ents node \<longrightarrow> b < key node (i + 1))"

lemma rd32_key: "12 + 12 * ents node \<le> length node \<Longrightarrow> i < ents node \<Longrightarrow> rd32 node (12 + 12 * i) = Some (key node i)"
  by (simp add: rd32_def key_def ent_def ee_first_block_def get32_def)

lemma bs_loop_ok:
  assumes "12 + 12 * ents node \<le> length node" "1 \<le> l" "l \<le> r + 1" "r < int (ents node)"
    "l \<noteq> 1 \<longrightarrow> key node (nat (l - 1)) \<le> b" "nat (r + 1) < ents node \<longrightarrow> b < key node (nat (r + 1))"
  shows "\<exists>x. bs_loop b node l r = Some x \<and> 1 \<le> x \<and> x \<le> int (ents node) \<and> found b node (nat (x - 1))"
  using assms
proof (induction b node l r rule: bs_loop.induct)
  case (1 b node l r)
  show ?case
  proof (cases "l \<le> r")
    case False
    with 1(5) have l: "r = l - 1" by simp
    have "found b node (nat (l - 1))"
      using 1(3-8) unfolding l found_def by (auto simp: nat_less_iff nat_diff_distrib' split: if_splits)
    then show ?thesis using False 1(3-8) l by (intro exI[of _ l]) (simp add: bs_loop.simps[of b node l "l - 1"])
  next
    case True
    let ?m = "l + (r - l) div 2"
    have m: "l \<le> ?m" "?m \<le> r" using True by auto
    have rd: "rd32 node (12 + 12 * nat ?m) = Some (key node (nat ?m))"
      using 1(3,4,6) m by (intro rd32_key) linarith+
    show ?thesis
    proof (cases "b < key node (nat ?m)")
      case lt: True
      have "\<exists>x. bs_loop b node l (?m - 1) = Some x \<and> 1 \<le> x \<and> x \<le> int (ents node) \<and> found b node (nat (x - 1))"
        using 1(3-8) m lt by (intro 1(1)[OF True refl rd]) auto
      then show ?thesis using True rd lt by (simp add: bs_loop.simps[of b node l r] Let_def)
    next
      case ge: False
      have "\<exists>x. bs_loop b node (?m + 1) r = Some x \<and> 1 \<le> x \<and> x \<le> int (ents node) \<and> found b node (nat (x - 1))"
        using 1(3-8) m ge by (intro 1(2)[OF True refl rd]) auto
      then show ?thesis using True rd ge by (simp add: bs_loop.simps[of b node l r] Let_def)
    qed
  qed
qed

lemma binsearch_idx_ok:
  assumes "12 + 12 * ents node \<le> length node" "0 < ents node"
  shows "\<exists>i. ext4_ext_binsearch_idx b node = Some i \<and> found b node i"
proof -
  obtain x where "bs_loop b node 1 (int (ents node) - 1) = Some x" "found b node (nat (x - 1))"
    using bs_loop_ok[OF assms(1), of 1 "int (ents node) - 1" b] assms(2) by auto
  moreover have "rd16 node 2 = Some (get16 ((!) node) 2)" using assms(1) by (simp add: rd16_def)
  ultimately show ?thesis by (simp add: ext4_ext_binsearch_idx_def ents_def del: of_nat_unat)
qed

lemma binsearch_ok:
  assumes "12 + 12 * ents node \<le> length node"
  shows "(ents node = 0 \<and> ext4_ext_binsearch b node = Some None) \<or>
    (\<exists>i. ext4_ext_binsearch b node = Some (Some i) \<and> found b node i)"
proof (cases "ents node = 0")
  case True
  then have "get16 ((!) node) 2 = 0" by (simp add: ents_def unat_eq_zero)
  then show ?thesis using True assms by (simp add: ext4_ext_binsearch_def rd16_def)
next
  case False
  then obtain x where "bs_loop b node 1 (int (ents node) - 1) = Some x" "found b node (nat (x - 1))"
    using bs_loop_ok[OF assms, of 1 "int (ents node) - 1" b] by auto
  moreover have "get16 ((!) node) 2 \<noteq> 0" using False by (auto simp: ents_def)
  moreover have "rd16 node 2 = Some (get16 ((!) node) 2)" using assms by (simp add: rd16_def)
  ultimately show ?thesis by (simp add: ext4_ext_binsearch_def ents_def del: of_nat_unat)
qed

text \<open>All extents of a tree lie in its range, so that the search goes down to the right child.\<close>

lemma tree_fits: "tree_ok tail N D d node lo hi \<Longrightarrow> 12 + 12 * ents node \<le> length node"
  by (cases d) simp_all

lemma key_mono: "\<forall>j<n. \<forall>i<j. key node i \<le> key node j \<Longrightarrow> i \<le> j \<Longrightarrow> j < n \<Longrightarrow> key node i \<le> key node j"
  by (cases "i = j") auto

lemma extents_range:
  assumes "tree_ok tail N D d node lo hi" "ex \<in> set (extents D d node)"
  shows "lo \<le> ext_start ex \<and> ext_end ex \<le> hi"
  using assms
proof (induction d arbitrary: node lo hi)
  case 0
  then show ?case by auto
next
  case (Suc d)
  from Suc.prems(2) obtain i where i: "i < ents node" "ex \<in> set (extents D d (D (child node i)))" by auto
  let ?hi = "if i + 1 < ents node then unat (key node (i + 1)) else hi"
  have ok: "tree_ok tail N D d (D (child node i)) (unat (key node i)) ?hi" using Suc.prems(1) i(1) by auto
  from Suc.IH[OF this i(2)] have "unat (key node i) \<le> ext_start ex" "ext_end ex \<le> ?hi" by auto
  moreover have "key node 0 \<le> key node i" using Suc.prems(1) i(1) by (intro key_mono[of "ents node"]) auto
  moreover have "?hi \<le> hi"
  proof (cases "i + 1 < ents node")
    case True
    then have "key node (i + 1) \<le> key node (ents node - 1)" using Suc.prems(1) by (intro key_mono[of "ents node"]) auto
    then show ?thesis using Suc.prems(1) True by (simp add: word_le_nat_alt)
  qed simp
  moreover have "lo \<le> unat (key node 0)" using Suc.prems(1) by simp
  ultimately show ?case by (auto simp: word_le_nat_alt)
qed

lemma ext_block_idx:
  assumes "tree_ok tail N D (Suc d) node lo hi" "found b node i"
  shows "ext_block D (Suc d) node b = ext_block D d (D (child node i)) b"
proof -
  have "\<not> covers b ex" if j: "j < ents node" "j \<noteq> i" "ex \<in> set (extents D d (D (child node j)))" for j ex
  proof
    assume c: "covers b ex"
    let ?hi = "if j + 1 < ents node then unat (key node (j + 1)) else hi"
    have "tree_ok tail N D d (D (child node j)) (unat (key node j)) ?hi" using assms(1) j(1) by auto
    from extents_range[OF this j(3)] c have r: "unat (key node j) \<le> unat b" "unat b < ?hi" by (auto simp: covers_def)
    have mono: "\<forall>j<ents node. \<forall>i<j. key node i \<le> key node j" using assms(1) by simp
    show False
    proof (cases "i < j")
      case True
      then have "key node (i + 1) \<le> key node j" using j(1) by (intro key_mono[OF mono]) simp_all
      moreover have "b < key node (i + 1)" using assms(2) True j(1) by (simp add: found_def)
      ultimately show False using r(1) by (simp add: word_le_nat_alt word_less_nat_alt)
    next
      case False
      then have "j < i" using j(2) by simp
      then have "key node (j + 1) \<le> key node i" "key node i \<le> b" "j + 1 < ents node"
        using assms(2) by (auto simp: found_def intro: key_mono[OF mono])
      then show False using r(2) by (simp add: word_le_nat_alt)
    qed
  qed
  then have "find (covers b) (extents D (Suc d) node) = find (covers b) (extents D d (D (child node i)))"
    unfolding extents.simps using assms(2) by (intro find_concat_only) (auto simp: found_def)
  then show ?thesis by (simp add: ext_block_def)
qed

lemma covers_in_range:
  assumes "ext_start ex < ext_end ex" "ext_end ex \<le> 2 ^ 32"
  shows "IN_RANGE b (ee_first_block ex) (ucast (ext4_ext_get_actual_len ex)) \<longleftrightarrow> covers b ex"
proof -
  let ?f = "ee_first_block ex" and ?n = "ucast (ext4_ext_get_actual_len ex) :: u32"
  have n: "unat ?n = unat (ext4_ext_get_actual_len ex)" by (simp add: unat_ucast_mod mod_less order_less_le_trans[OF unat_less])
  have "?n \<noteq> 0" using assms(1) n by (auto simp: ext_end_def)
  then have n1: "unat (?n - 1) = unat ?n - 1" by (rule unat_minus_one)
  moreover have "unat ?f + unat (?n - 1) < 2 ^ LENGTH(32)"
    unfolding n1 using assms unfolding ext_start_def ext_end_def n by simp
  then have "unat (?f + (?n - 1)) = unat ?f + unat (?n - 1)" by (rule unat_add_lem[THEN iffD1])
  ultimately have "unat (?f + ?n - 1) = ext_end ex - 1"
    using assms(1) by (simp add: ext_start_def ext_end_def n add_diff_eq)
  then show ?thesis using assms(1) by (auto simp: IN_RANGE_def covers_def word_le_nat_alt ext_start_def)
qed

lemma ext_block_leaf:
  assumes "tree_ok tail N D 0 node lo hi" "found b node i"
  shows "ext_block D 0 node b = (if covers b (ent node i) then ext_target b (ent node i) else 0)"
proof (cases "covers b (ent node i)")
  case True
  have "find (covers b) (extents D 0 node) = Some (ent node i)"
  proof (rule find_unique)
    show "ent node i \<in> set (extents D 0 node)" using assms(2) by (simp add: found_def)
    fix ex assume "ex \<in> set (extents D 0 node)" "covers b ex"
    then obtain j where j: "j < ents node" "ex = ent node j" by auto
    have "\<not> i < j" "\<not> j < i" using assms True \<open>covers b ex\<close> j by (force simp: found_def covers_def)+
    then show "ex = ent node i" using j by simp
  qed (rule True)
  with True show ?thesis by (simp add: ext_block_def)
next
  case False
  have "\<not> covers b (ent node j)" if j: "j < ents node" for j
  proof
    assume c: "covers b (ent node j)"
    then have "j \<noteq> i" using False by auto
    then consider "i < j" | "j < i" by linarith
    then show False
    proof cases
      case 1
      then have b: "b < key node (i + 1)" using assms(2) j by (simp add: found_def)
      have "ext_start (ent node (i + 1)) \<le> ext_start (ent node j)"
      proof (cases "j = i + 1")
        case False
        then have "ext_end (ent node (i + 1)) \<le> ext_start (ent node j)" "ext_start (ent node (i + 1)) < ext_end (ent node (i + 1))"
          using assms(1) 1 j by auto
        then show ?thesis by simp
      qed simp
      then show False using c b by (simp add: covers_def key_def ext_start_def word_less_nat_alt)
    next
      case 2
      then have "ext_end (ent node j) \<le> ext_start (ent node i)" "key node i \<le> b" using assms by (auto simp: found_def)
      then show False using c by (simp add: covers_def key_def ext_start_def word_le_nat_alt)
    qed
  qed
  then have "find (covers b) (extents D 0 node) = None" by (auto simp: find_None_iff)
  with False show ?thesis by (simp add: ext_block_def)
qed

section \<open>The search on the disk\<close>

text \<open>The blocks a path holds.\<close>

definition held :: "extent_path list \<Rightarrow> u64 list" where
  "held ps = filter (\<lambda>l. l \<noteq> 0) (map (\<lambda>p. lb_id (pa_block p)) ps)"

definition handles :: "extent_path list \<Rightarrow> bool" where
  "handles ps \<longleftrightarrow> (\<forall>p\<in>set ps. lb_id (pa_block p) \<noteq> 0 \<longrightarrow> pa_block p = handle (lb_id (pa_block p)))"

lemma held_simps [simp]:
  "held [] = []" "held (p # ps) = (if lb_id (pa_block p) = 0 then held ps else lb_id (pa_block p) # held ps)"
  "held (ps @ qs) = held ps @ held qs" "handles []"
  "handles (p # ps) \<longleftrightarrow> (lb_id (pa_block p) \<noteq> 0 \<longrightarrow> pa_block p = handle (lb_id (pa_block p))) \<and> handles ps"
  "handles (ps @ qs) \<longleftrightarrow> handles ps \<and> handles qs"
  by (auto simp: held_def handles_def)

lemma no_block_id [simp]: "lb_id no_block = 0" by (simp add: no_block_def)

context logical_source
begin

lemma drop_refs_ok:
  assumes "on_disk good blk N n k D (\<lambda>x. R x + count_list (held ps) x) fs" "handles ps"
  shows "\<exists>cd. ext4_ext_drop_refs ops ref ps fs = Some (fs\<lparr>fs_bdev := cd\<rparr>) \<and>
    on_disk good blk N n (k + length ps) D R (fs\<lparr>fs_bdev := cd\<rparr>)"
  using assms
proof (induction ps arbitrary: k fs)
  case Nil
  then show ?case by (auto intro!: exI[of _ "fs_bdev fs"])
next
  case (Cons p ps)
  show ?case
  proof (cases "lb_id (pa_block p) = 0")
    case True
    then have "\<exists>cd. ext4_ext_drop_refs ops ref ps fs = Some (fs\<lparr>fs_bdev := cd\<rparr>) \<and>
      on_disk good blk N n (k + length ps) D R (fs\<lparr>fs_bdev := cd\<rparr>)"
      using Cons.prems by (intro Cons.IH) simp_all
    then obtain cd where "ext4_ext_drop_refs ops ref ps fs = Some (fs\<lparr>fs_bdev := cd\<rparr>)"
      "on_disk good blk N n (k + length ps) D R (fs\<lparr>fs_bdev := cd\<rparr>)" by blast
    then show ?thesis using True by (intro exI[of _ cd]) (simp add: on_disk_mono)
  next
    case False
    define l where "l = lb_id (pa_block p)"
    have p: "pa_block p = handle l" "l \<noteq> 0" using Cons.prems(2) False by (simp_all add: l_def)
    let ?R = "\<lambda>x. R x + count_list (l # held ps) x"
    have on: "on_disk good blk N n k D ?R fs" using Cons.prems(1) p by simp
    obtain b where b: "ext4_buf_lookup (bc (fs_bdev fs)) l = Some b" "BC_DIRTY \<notin> flags b"
      using on_disk_clean[OF on, of l] by auto
    obtain cd where cd: "fs_block_set ops (handle l) fs = Some (EOK, fs\<lparr>fs_bdev := cd\<rparr>)"
      "on_disk good blk N n (k + 1) D (?R(l := ?R l - 1)) (fs\<lparr>fs_bdev := cd\<rparr>)"
      using block_set_ok[OF on, of l] by auto
    have "?R(l := ?R l - 1) = (\<lambda>x. R x + count_list (held ps) x)" by (auto simp: fun_eq_iff)
    then have "\<exists>cd'. ext4_ext_drop_refs ops ref ps (fs\<lparr>fs_bdev := cd\<rparr>) = Some (fs\<lparr>fs_bdev := cd\<rparr>\<lparr>fs_bdev := cd'\<rparr>) \<and>
      on_disk good blk N n (k + 1 + length ps) D R (fs\<lparr>fs_bdev := cd\<rparr>\<lparr>fs_bdev := cd'\<rparr>)"
      using Cons.prems(2) cd(2) by (intro Cons.IH) simp_all
    then show ?thesis using p b cd(1) by (auto simp: ext4_bcache_test_flag_def)
  qed
qed

end

text \<open>The tail a node needs.\<close>

definition tail_len :: "mem \<Rightarrow> nat" where
  "tail_len sb = (if ext4_sb_feature_ro_com sb EXT4_FRO_COM_METADATA_CSUM then 4 else 0)"

lemma ext_check_ok:
  assumes "node_ok (tail_len (fs_sb fs)) node d" "get_inode ref fs = Some inode"
  shows "ext4_ext_check ref node (of_nat d) fs = Some EOK"
  using assms by (auto simp: ext4_ext_check_def node_ok_def rd16_def rd32_def tail_len_def ext4_ext_block_csum_def
      EXT4_EXTENT_TAIL_OFFSET_def Let_def not_less)

context logical_source
begin

lemma read_tree_block_ok:
  assumes "on_disk good blk N n k D R fs" "mal_ok n mal" "l < N" "l \<noteq> 0" "k + 2 < 2 ^ 32"
    and inode: "inode_ok (fs_sb fs) N D index" "0 < R (inode_block (fs_sb fs) D index)"
    and node: "node_ok (tail_len (fs_sb fs)) (D l) d"
  shows "\<exists>cd. read_extent_tree_block ops mal (the_ref (fs_sb fs) D index) l (of_nat d) bh fs = Some (EOK, handle l, fs\<lparr>fs_bdev := cd\<rparr>) \<and>
    on_disk good blk N n (k + 1) D (R(l := R l + 1)) (fs\<lparr>fs_bdev := cd\<rparr>) \<and> blk_data (handle l) cd = Some (D l)"
proof -
  from trans_get_ok[OF assms(1-5), of bh] obtain cd where cd:
    "ext4_trans_block_get ops mal bh l (fs_bdev fs) = Some (EOK, handle l, cd)"
    "on_disk good blk N n (k + 1) D (R(l := R l + 1)) (fs\<lparr>fs_bdev := cd\<rparr>)" "blk_data (handle l) cd = Some (D l)" by blast
  have "get_inode (the_ref (fs_sb fs) D index) (fs\<lparr>fs_bdev := cd\<rparr>) = Some (inode_at (fs_sb fs) D index)"
    using get_inode_held[OF cd(2), of index] inode by simp
  with ext_check_ok[of "fs\<lparr>fs_bdev := cd\<rparr>" "D l" d] node cd show ?thesis
    by (intro exI[of _ cd]) (simp add: read_extent_tree_block_def)
qed

end

text \<open>The end of a walk: the path \<open>qs\<close> leads to the leaf that decides about the block, and the blocks
  \<open>ls\<close> are held in addition.\<close>

definition walked ::
  "('s bdev \<Rightarrow> bool) \<Rightarrow> ('s bdev \<Rightarrow> u64 \<Rightarrow> byte list) \<Rightarrow> u64 \<Rightarrow> nat \<Rightarrow> nat \<Rightarrow> (u64 \<Rightarrow> byte list) \<Rightarrow> (u64 \<Rightarrow> nat) \<Rightarrow>
   inode_ref \<Rightarrow> u32 \<Rightarrow> nat \<Rightarrow> byte list \<Rightarrow> extent_path list \<Rightarrow> u64 list \<Rightarrow> 's fs \<Rightarrow> bool" where
  "walked good blk N n k D R ref b d node qs ls fs \<longleftrightarrow> qs \<noteq> [] \<and> handles qs \<and> length qs = d + 1 \<and>
     on_disk good blk N n k D (\<lambda>x. R x + count_list ls x) fs \<and>
     (\<exists>leaf lo hi. hdr_data ref (pa_header (last qs)) fs = Some leaf \<and> ext4_ext_binsearch b leaf = Some (pa_extent (last qs)) \<and>
        tree_ok (tail_len (fs_sb fs)) N D 0 leaf lo hi \<and> hi \<le> 2 ^ 32 \<and> ext_block D d node b = ext_block D 0 leaf b)"

lemma walked_step:
  assumes "walked good blk N n (k + 1 + d) D (R(l := R l + 1)) ref b d (D l) qs ls fs" "handles [p]"
    "ext_block D (Suc d) node b = ext_block D d (D l) b"
  shows "walked good blk N n (k + Suc d) D R ref b (Suc d) node (p # qs) (l # ls) fs"
proof -
  have "(\<lambda>x. (R(l := R l + 1)) x + count_list ls x) = (\<lambda>x. R x + count_list (l # ls) x)" by (auto simp: fun_eq_iff)
  with assms show ?thesis by (auto simp: walked_def)
qed

context logical_source
begin

lemma find_walk_ok:
  assumes "on_disk good blk N n k D R fs" "mal_ok n mal" "hdr_data (the_ref (fs_sb fs) D index) (pa_header p) fs = Some node"
    and tree: "tree_ok (tail_len (fs_sb fs)) N D d node lo hi" "hi \<le> 2 ^ 32"
    and inode: "inode_ok (fs_sb fs) N D index" "0 < R (inode_block (fs_sb fs) D index)" and k: "k + d + 2 < 2 ^ 32" and p: "handles [p]"
  shows "\<exists>qs ls cd. find_walk ops mal (the_ref (fs_sb fs) D index) b d bh path p fs = Some (EOK, path @ qs, fs\<lparr>fs_bdev := cd\<rparr>) \<and>
    held qs = held [p] @ ls \<and> walked good blk N n (k + d) D R (the_ref (fs_sb fs) D index) b d node qs ls (fs\<lparr>fs_bdev := cd\<rparr>)"
  using assms(1,3) tree inode k p
proof (induction d arbitrary: k R fs node lo hi bh path p)
  case 0
  then have fits: "12 + 12 * ents node \<le> length node" by simp
  from binsearch_ok[OF fits, of b] obtain e where e: "ext4_ext_binsearch b node = Some e"
    "\<forall>i. e = Some i \<longrightarrow> i < ents node" by (auto simp: found_def)
  then have "(case e of None \<Rightarrow> Some () | Some i \<Rightarrow> map_option (\<lambda>_. ()) (entry node i)) = Some ()"
    using fits by (auto simp: entry_def mem_at_def split: option.split)
  then have "find_walk ops mal (the_ref (fs_sb fs) D index) b 0 bh path p fs =
    Some (EOK, path @ [p\<lparr>pa_index := None, pa_extent := e\<rparr>], fs\<lparr>fs_bdev := fs_bdev fs\<rparr>)"
    using e 0(2) by simp
  moreover have "walked good blk N n (k + 0) D R (the_ref (fs_sb fs) D index) b 0 node [p\<lparr>pa_index := None, pa_extent := e\<rparr>] [] fs"
    unfolding walked_def using 0 e by (intro conjI exI[of _ node] exI[of _ lo] exI[of _ hi]) (simp_all del: tree_ok.simps)
  ultimately show ?case
    by (intro exI[of _ "[p\<lparr>pa_index := None, pa_extent := e\<rparr>]"] exI[of _ "[]"] exI[of _ "fs_bdev fs"]) auto
next
  case (Suc d)
  let ?ref = "the_ref (fs_sb fs) D index"
  have fits: "12 + 12 * ents node \<le> length node" "0 < ents node" using Suc.prems(3) by simp_all
  from binsearch_idx_ok[OF this, of b] obtain i where i: "ext4_ext_binsearch_idx b node = Some i" "found b node i" by blast
  then have lt: "i < ents node" by (simp add: found_def)
  let ?l = "child node i" and ?hi = "if i + 1 < ents node then unat (key node (i + 1)) else hi"
  have c: "?l \<noteq> 0" "?l < N" "node_ok (tail_len (fs_sb fs)) (D ?l) d"
    "tree_ok (tail_len (fs_sb fs)) N D d (D ?l) (unat (key node i)) ?hi" using Suc.prems(3) lt by auto
  have ix: "entry node i = Some (ent node i)" using fits lt by (simp add: entry_def mem_at_def ent_def)
  have "k + 2 < 2 ^ 32" using Suc.prems(7) by simp
  from read_tree_block_ok[OF Suc.prems(1) assms(2) c(2,1) this Suc.prems(5,6) c(3), of bh] obtain cd where cd:
    "read_extent_tree_block ops mal ?ref ?l (of_nat d) bh fs = Some (EOK, handle ?l, fs\<lparr>fs_bdev := cd\<rparr>)"
    "on_disk good blk N n (k + 1) D (R(?l := R ?l + 1)) (fs\<lparr>fs_bdev := cd\<rparr>)" "blk_data (handle ?l) cd = Some (D ?l)" by blast
  let ?p = "p\<lparr>pa_index := Some i, pa_extent := None\<rparr>" and ?fs = "fs\<lparr>fs_bdev := cd\<rparr>"
  let ?q = "\<lparr>pa_block = handle ?l, pa_header = Some (handle ?l), pa_index = None, pa_extent = None\<rparr>"
  have "\<exists>qs ls cd. find_walk ops mal (the_ref (fs_sb ?fs) D index) b d (handle ?l) (path @ [?p]) ?q ?fs =
      Some (EOK, (path @ [?p]) @ qs, ?fs\<lparr>fs_bdev := cd\<rparr>) \<and> held qs = held [?q] @ ls \<and>
    walked good blk N n (k + 1 + d) D (R(?l := R ?l + 1)) (the_ref (fs_sb ?fs) D index) b d (D ?l) qs ls (?fs\<lparr>fs_bdev := cd\<rparr>)"
  proof (rule Suc.IH[OF cd(2)])
    show "hdr_data (the_ref (fs_sb ?fs) D index) (pa_header ?q) ?fs = Some (D ?l)" using cd(3) by (simp add: hdr_data_def)
    show "tree_ok (tail_len (fs_sb ?fs)) N D d (D ?l) (unat (key node i)) ?hi" using c(4) by simp
    show "?hi \<le> 2 ^ 32" using Suc.prems(4) unat_less[of "key node (i + 1)"] by simp
  qed (use Suc.prems in simp_all)
  then obtain qs ls cd' where 1:
    "find_walk ops mal ?ref b d (handle ?l) (path @ [?p]) ?q ?fs = Some (EOK, path @ ?p # qs, fs\<lparr>fs_bdev := cd'\<rparr>)"
    "held qs = held [?q] @ ls" "walked good blk N n (k + 1 + d) D (R(?l := R ?l + 1)) ?ref b d (D ?l) qs ls (fs\<lparr>fs_bdev := cd'\<rparr>)"
    by auto
  have "find_walk ops mal ?ref b (Suc d) bh path p fs = Some (EOK, path @ (?p # qs), fs\<lparr>fs_bdev := cd'\<rparr>)"
    using 1(1) Suc.prems(2) i ix cd(1) by (simp add: child_def)
  moreover have "walked good blk N n (k + Suc d) D R ?ref b (Suc d) node (?p # qs) (?l # ls) (fs\<lparr>fs_bdev := cd'\<rparr>)"
    by (rule walked_step[OF 1(3) _ ext_block_idx[OF Suc.prems(3) i(2)]]) (use Suc.prems(8) in simp)
  moreover have "held (?p # qs) = held [p] @ ?l # ls" using 1(2) c(1) by simp
  ultimately show ?case by blast
qed

end

text \<open>The root of the tree of an inode, and its depth. Trees are at most five levels deep.\<close>

definition root_node :: "mem \<Rightarrow> byte list" where
  "root_node inode = mem_get (ext4_inode_get_extent_header inode) 0 60"

definition root_depth :: "mem \<Rightarrow> u16" where
  "root_depth inode = get16 ((!) (root_node inode)) 6"

definition extents_ok :: "mem \<Rightarrow> u64 \<Rightarrow> (u64 \<Rightarrow> byte list) \<Rightarrow> mem \<Rightarrow> bool" where
  "extents_ok sb N D inode \<longleftrightarrow> unat (root_depth inode) \<le> 5 \<and> tree_ok (tail_len sb) N D (unat (root_depth inode)) (root_node inode) 0 (2 ^ 32)"

text \<open>What the last step of the search computes from the leaf.\<close>

lemma leaf_result:
  assumes "tree_ok tail N D 0 leaf lo hi" "hi \<le> 2 ^ 32" "ext4_ext_binsearch b leaf = Some e"
  shows "\<exists>cnt. (case e of
            None \<Rightarrow> Some (0, 0)
          | Some i \<Rightarrow> do {
              ex \<leftarrow> entry leaf i;
              let ee_block = ee_first_block ex;
              let ee_len = ucast (ext4_ext_get_actual_len ex);
              if IN_RANGE b ee_block ee_len then
                (let allocated = ee_len - (b - ee_block);
                     newblock = (if \<not> ext4_ext_is_unwritten ex then ucast (b - ee_block) + ext4_ext_pblock ex else 0) in
                 Some (newblock, if allocated > max_blocks then max_blocks else allocated))
              else Some (0, 0) }) = Some (ext_block D 0 leaf b, cnt)"
proof (cases e)
  case None
  then have "ents leaf = 0" using binsearch_ok[OF tree_fits[OF assms(1)], of b] assms(3) by auto
  then show ?thesis using None by (simp add: ext_block_def)
next
  case (Some i)
  then have f: "found b leaf i" using binsearch_ok[OF tree_fits[OF assms(1)], of b] assms(3) by auto
  then have i: "i < ents leaf" by (simp add: found_def)
  let ?ex = "ent leaf i"
  have "ext_start ?ex < ext_end ?ex" "ext_end ?ex \<le> 2 ^ 32" using assms(1,2) i by fastforce+
  note r = covers_in_range[OF this, of b]
  have "entry leaf i = Some ?ex" using tree_fits[OF assms(1)] i by (simp add: entry_def mem_at_def ent_def)
  then show ?thesis
    using Some by (auto simp: Let_def r ext_block_leaf[OF assms(1) f] ext_target_def add.commute)
qed

context logical_source
begin

lemma get_blocks_ok:
  assumes on: "on_disk good blk N n k D R fs" "mal_ok n mal" and inode: "inode_ok (fs_sb fs) N D index" "0 < R (inode_block (fs_sb fs) D index)"
    and tree: "extents_ok (fs_sb fs) N D (inode_at (fs_sb fs) D index)" and cal: "\<forall>d. cal d"
    and k: "k + 12 < 2 ^ 32"
  shows "\<exists>cnt cd. ext4_extent_get_blocks ops mal cal (the_ref (fs_sb fs) D index) b max_blocks fs =
      Some (EOK, ext_block D (unat (root_depth (inode_at (fs_sb fs) D index))) (root_node (inode_at (fs_sb fs) D index)) b, cnt, fs\<lparr>fs_bdev := cd\<rparr>) \<and>
    on_disk good blk N n (k + 12) D R (fs\<lparr>fs_bdev := cd\<rparr>)"
proof -
  let ?ref = "the_ref (fs_sb fs) D index" and ?inode = "inode_at (fs_sb fs) D index"
  let ?d = "unat (root_depth ?inode)" and ?root = "root_node ?inode"
  let ?p = "\<lparr>pa_block = no_block, pa_header = None, pa_index = None, pa_extent = None\<rparr>"
  have d: "?d \<le> 5" using tree by (simp add: extents_ok_def)
  have root: "hdr_data ?ref None fs = Some ?root"
    using get_inode_held[OF on(1) inode(2,1)] by (simp add: hdr_data_def root_node_def)
  then have depth: "ext_depth ?ref fs = Some (root_depth ?inode)"
    by (simp add: ext_depth_def rd16_def root_depth_def) (simp add: root_node_def)
  have "\<exists>qs ls cd. find_walk ops mal ?ref b ?d no_block [] ?p fs = Some (EOK, [] @ qs, fs\<lparr>fs_bdev := cd\<rparr>) \<and>
    held qs = held [?p] @ ls \<and> walked good blk N n (k + ?d) D R ?ref b ?d ?root qs ls (fs\<lparr>fs_bdev := cd\<rparr>)"
    by (rule find_walk_ok[OF on, where lo = 0 and hi = "2 ^ 32"]) (use root tree inode k d in \<open>simp_all add: extents_ok_def\<close>)
  then obtain qs cd where 1: "find_walk ops mal ?ref b ?d no_block [] ?p fs = Some (EOK, qs, fs\<lparr>fs_bdev := cd\<rparr>)"
    "walked good blk N n (k + ?d) D R ?ref b ?d ?root qs (held qs) (fs\<lparr>fs_bdev := cd\<rparr>)" by auto
  let ?fs = "fs\<lparr>fs_bdev := cd\<rparr>"
  from 1(2) have w: "handles qs" "length qs = ?d + 1" "on_disk good blk N n (k + ?d) D (\<lambda>x. R x + count_list (held qs) x) ?fs"
    by (auto simp: walked_def)
  from 1(2) obtain leaf lo hi where leaf: "hdr_data ?ref (pa_header (last qs)) ?fs = Some leaf"
    "ext4_ext_binsearch b leaf = Some (pa_extent (last qs))" "tree_ok (tail_len (fs_sb ?fs)) N D 0 leaf lo hi" "hi \<le> 2 ^ 32"
    "ext_block D ?d ?root b = ext_block D 0 leaf b" unfolding walked_def by blast
  from leaf_result[OF leaf(3,4,2), of max_blocks] obtain cnt where cnt:
    "(case pa_extent (last qs) of None \<Rightarrow> Some (0, 0)
      | Some i \<Rightarrow> do { ex \<leftarrow> entry leaf i;
              let ee_block = ee_first_block ex;
              let ee_len = ucast (ext4_ext_get_actual_len ex);
              if IN_RANGE b ee_block ee_len then
                (let allocated = ee_len - (b - ee_block);
                     newblock = (if \<not> ext4_ext_is_unwritten ex then ucast (b - ee_block) + ext4_ext_pblock ex else 0) in
                 Some (newblock, if allocated > max_blocks then max_blocks else allocated))
              else Some (0, 0) }) = Some (ext_block D ?d ?root b, cnt)" unfolding leaf(5) by blast
  obtain cd' where cd': "ext4_ext_drop_refs ops ?ref qs ?fs = Some (fs\<lparr>fs_bdev := cd'\<rparr>)"
    "on_disk good blk N n (k + ?d + length qs) D R (fs\<lparr>fs_bdev := cd'\<rparr>)"
    using drop_refs_ok[OF w(3,1), of ?ref] by auto
  have "ext4_extent_get_blocks ops mal cal ?ref b max_blocks fs = Some (EOK, ext_block D ?d ?root b, cnt, fs\<lparr>fs_bdev := cd'\<rparr>)"
    using 1(1) depth cal leaf(1) cnt cd'(1)
    by (simp add: ext4_extent_get_blocks_def ext4_find_extent_def cong: option.case_cong)
  moreover have "on_disk good blk N n (k + 12) D R (fs\<lparr>fs_bdev := cd'\<rparr>)"
    by (rule on_disk_mono[OF cd'(2)]) (use w(2) d in simp)
  ultimately show ?thesis by blast
qed

end

end
