(* ===== verification/Ext4_Dirent.thy ===== *)
theory Ext4_Dirent
  imports Ext4_Extent
begin

text \<open>
  The entries in one block of a directory: the accessors of lwext4/include/ext4_dir.h and the functions
  of lwext4/src/ext4_dir.c that work on a block. A block is the list of its bytes and an entry is the
  position of its first byte; an access behind the end of the block has no result. A name is the list of
  the \<open>name_len\<close> bytes the code compares or copies. The properties relate searching, inserting and removing to
  the list of names and inodes a block holds.
\<close>

section \<open>Definitions\<close>

definition ENOENT :: int where "ENOENT = 2"

definition EXT4_DE_UNKNOWN :: byte where "EXT4_DE_UNKNOWN = 0"
definition EXT4_DE_REG_FILE :: byte where "EXT4_DE_REG_FILE = 1"
definition EXT4_DE_DIR :: byte where "EXT4_DE_DIR = 2"
definition EXT4_DE_CHRDEV :: byte where "EXT4_DE_CHRDEV = 3"
definition EXT4_DE_BLKDEV :: byte where "EXT4_DE_BLKDEV = 4"
definition EXT4_DE_FIFO :: byte where "EXT4_DE_FIFO = 5"
definition EXT4_DE_SOCK :: byte where "EXT4_DE_SOCK = 6"
definition EXT4_DE_SYMLINK :: byte where "EXT4_DE_SYMLINK = 7"
definition EXT4_DIRENTRY_DIR_CSUM :: byte where "EXT4_DIRENTRY_DIR_CSUM = 0xDE"

definition EXT4_INODE_MODE_FIFO :: u32 where "EXT4_INODE_MODE_FIFO = 0x1000"
definition EXT4_INODE_MODE_CHARDEV :: u32 where "EXT4_INODE_MODE_CHARDEV = 0x2000"
definition EXT4_INODE_MODE_BLOCKDEV :: u32 where "EXT4_INODE_MODE_BLOCKDEV = 0x6000"
definition EXT4_INODE_MODE_SOCKET :: u32 where "EXT4_INODE_MODE_SOCKET = 0xC000"

definition minor_rev_level :: "mem \<Rightarrow> u16" where "minor_rev_level sb = get16 sb 62"

subsection \<open>Fields of an entry\<close>

definition rd8 :: "byte list \<Rightarrow> nat \<Rightarrow> byte option" where
  "rd8 dat off = (if off < length dat then Some (dat ! off) else None)"

definition le16 :: "u16 \<Rightarrow> byte list" where
  "le16 w = [ucast w, ucast (drop_bit 8 w)]"

definition ext4_dir_en_get_inode :: "byte list \<Rightarrow> nat \<Rightarrow> u32 option" where
  "ext4_dir_en_get_inode dat de = rd32 dat de"

definition ext4_dir_en_set_inode :: "nat \<Rightarrow> u32 \<Rightarrow> byte list \<Rightarrow> byte list option" where
  "ext4_dir_en_set_inode de inode dat = buf_set de (le32 inode) dat"

definition ext4_dir_en_get_entry_len :: "byte list \<Rightarrow> nat \<Rightarrow> u16 option" where
  "ext4_dir_en_get_entry_len dat de = rd16 dat (de + 4)"

definition ext4_dir_en_set_entry_len :: "nat \<Rightarrow> u16 \<Rightarrow> byte list \<Rightarrow> byte list option" where
  "ext4_dir_en_set_entry_len de l dat = buf_set (de + 4) (le16 l) dat"

text \<open>Before revision 0.5 the byte behind the name length holds its high half, later the type.\<close>

definition old_rev :: "mem \<Rightarrow> bool" where
  "old_rev sb \<longleftrightarrow> rev_level sb = 0 \<and> minor_rev_level sb < 5"

definition ext4_dir_en_get_name_len :: "mem \<Rightarrow> byte list \<Rightarrow> nat \<Rightarrow> u16 option" where
  "ext4_dir_en_get_name_len sb dat de = do {
     v \<leftarrow> rd8 dat (de + 6);
     if old_rev sb then map_option (\<lambda>h. ucast v OR push_bit 8 (ucast h)) (rd8 dat (de + 7)) else Some (ucast v) }"

definition ext4_dir_en_set_name_len :: "mem \<Rightarrow> nat \<Rightarrow> u16 \<Rightarrow> byte list \<Rightarrow> byte list option" where
  "ext4_dir_en_set_name_len sb de len dat = do {
     dat \<leftarrow> buf_set (de + 6) [ucast len] dat;
     if old_rev sb then buf_set (de + 7) [ucast (drop_bit 8 len)] dat else Some dat }"

definition ext4_dir_en_get_inode_type :: "mem \<Rightarrow> byte list \<Rightarrow> nat \<Rightarrow> byte option" where
  "ext4_dir_en_get_inode_type sb dat de =
     (if rev_level sb > 0 \<or> minor_rev_level sb \<ge> 5 then rd8 dat (de + 7) else Some EXT4_DE_UNKNOWN)"

definition ext4_dir_en_set_inode_type :: "mem \<Rightarrow> nat \<Rightarrow> byte \<Rightarrow> byte list \<Rightarrow> byte list option" where
  "ext4_dir_en_set_inode_type sb de t dat =
     (if rev_level sb > 0 \<or> minor_rev_level sb \<ge> 5 then buf_set (de + 7) [t] dat else Some dat)"

subsection \<open>Writing an entry\<close>

definition mode_type :: "u32 \<Rightarrow> byte" where
  "mode_type mode =
     (if mode = EXT4_INODE_MODE_DIRECTORY then EXT4_DE_DIR
      else if mode = EXT4_INODE_MODE_FILE then EXT4_DE_REG_FILE
      else if mode = EXT4_INODE_MODE_SOFTLINK then EXT4_DE_SYMLINK
      else if mode = EXT4_INODE_MODE_CHARDEV then EXT4_DE_CHRDEV
      else if mode = EXT4_INODE_MODE_BLOCKDEV then EXT4_DE_BLKDEV
      else if mode = EXT4_INODE_MODE_FIFO then EXT4_DE_FIFO
      else if mode = EXT4_INODE_MODE_SOCKET then EXT4_DE_SOCK
      else EXT4_DE_UNKNOWN)"

text \<open>The child is its inode and the number of it.\<close>

definition ext4_dir_write_entry ::
  "mem \<Rightarrow> nat \<Rightarrow> u16 \<Rightarrow> mem \<times> u32 \<Rightarrow> byte list \<Rightarrow> byte list \<Rightarrow> byte list option" where
  "ext4_dir_write_entry sb en entry_len ch name dat = do {
     block_size \<leftarrow> ext4_sb_get_block_size sb;
     if ucast entry_len > block_size then None
     else do {
       dat \<leftarrow> ext4_dir_en_set_inode_type sb en (mode_type (ext4_inode_type sb (fst ch))) dat;
       dat \<leftarrow> ext4_dir_en_set_inode en (snd ch) dat;
       dat \<leftarrow> ext4_dir_en_set_entry_len en entry_len dat;
       dat \<leftarrow> ext4_dir_en_set_name_len sb en (of_nat (length name)) dat;
       buf_set (en + 8) name dat } }"

subsection \<open>Searching\<close>

text \<open>The results are the code returned and the entry, if one was found.\<close>

function find_from :: "mem \<Rightarrow> nat \<Rightarrow> byte list \<Rightarrow> byte list \<Rightarrow> nat \<Rightarrow> (int \<times> nat option) option" where
  "find_from sb addr_limit name dat de =
     (if \<not> de < addr_limit then Some (ENOENT, None)
      else if de + length name > addr_limit then Some (ENOENT, None)
      else Option.bind (ext4_dir_en_get_inode dat de) (\<lambda>inode.
        Option.bind (if inode = 0 then Some False
            else Option.bind (ext4_dir_en_get_name_len sb dat de) (\<lambda>el.
              if unat el = length name then
                (if de + 8 + length name \<le> length dat then Some (take (length name) (drop (de + 8) dat) = name) else None)
              else Some False)) (\<lambda>hit.
          if hit then Some (EOK, Some de)
          else Option.bind (ext4_dir_en_get_entry_len dat de) (\<lambda>de_len.
            if de_len = 0 then Some (EINVAL, None)
            else find_from sb addr_limit name dat (de + unat de_len)))))"
  by pat_completeness auto
termination
  by (relation "measure (\<lambda>(sb, addr_limit, name, dat, de). addr_limit - de)") (auto intro!: diff_less_mono2 simp: unat_gt_0)

declare find_from.simps [simp del]

definition ext4_dir_find_in_block :: "mem \<Rightarrow> byte list \<Rightarrow> byte list \<Rightarrow> (int \<times> nat option) option" where
  "ext4_dir_find_in_block sb name dat = do {
     block_size \<leftarrow> ext4_sb_get_block_size sb;
     find_from sb (unat block_size) name dat 0 }"

subsection \<open>Inserting\<close>

definition required_len :: "nat \<Rightarrow> u16" where
  "required_len name_len =
     (let required_len = 8 + of_nat name_len in
      if required_len mod 4 \<noteq> 0 then required_len + (4 - required_len mod 4) else required_len)"

definition used_size :: "u16 \<Rightarrow> u16" where
  "used_size used_len =
     (let sz = 8 + used_len in if used_len mod 4 \<noteq> 0 then sz + (4 - used_len mod 4) else sz)"

text \<open>The loop over the entries; the code returned and the bytes of the block. An entry of length 0 keeps it
  in place for ever. In both places where an entry is written the code then sets the checksum of the block and marks it dirty before it
  returns EOK; as nothing else follows there, \<open>ext4_dir_try_insert_entry\<close> in theory Ext4\_Dir does both once, when the result is EOK.\<close>

partial_function (option) insert_from ::
  "mem \<Rightarrow> nat \<Rightarrow> u16 \<Rightarrow> mem \<times> u32 \<Rightarrow> byte list \<Rightarrow> byte list \<Rightarrow> nat \<Rightarrow> (int \<times> byte list) option" where
  "insert_from sb stop required ch name dat start =
     (if start < stop then
        Option.bind (ext4_dir_en_get_inode dat start) (\<lambda>inode.
        Option.bind (ext4_dir_en_get_entry_len dat start) (\<lambda>rec_len.
        Option.bind (ext4_dir_en_get_inode_type sb dat start) (\<lambda>itype.
          if inode = 0 \<and> itype \<noteq> EXT4_DIRENTRY_DIR_CSUM \<and> rec_len \<ge> required then
            map_option (Pair EOK) (ext4_dir_write_entry sb start rec_len ch name dat)
          else if inode \<noteq> 0 then
            Option.bind (ext4_dir_en_get_name_len sb dat start) (\<lambda>used_len.
              let sz = used_size used_len; free_space = rec_len - sz in
              if free_space \<ge> required then
                Option.bind (ext4_dir_en_set_entry_len start sz dat) (\<lambda>dat.
                  map_option (Pair EOK) (ext4_dir_write_entry sb (start + unat sz) free_space ch name dat))
              else insert_from sb stop required ch name dat (start + unat rec_len))
          else insert_from sb stop required ch name dat (start + unat rec_len))))
      else Some (ENOSPC, dat))"

subsection \<open>Removing\<close>

text \<open>The entry before position \<open>pos\<close>: its position and its length.\<close>

partial_function (option) predecessor :: "byte list \<Rightarrow> nat \<Rightarrow> nat \<Rightarrow> u16 \<Rightarrow> (nat \<times> u16) option" where
  "predecessor dat pos off de_len =
     (if off + unat de_len < pos then
        Option.bind (ext4_dir_en_get_entry_len dat (off + unat de_len)) (\<lambda>l. predecessor dat pos (off + unat de_len) l)
      else Some (off, de_len))"

text \<open>What \<open>ext4_dir_remove_entry\<close> does to the entries of the block: the entry loses its inode and is merged with the one
  before it. The checksum of the block that the function sets afterwards is part of \<open>ext4_dir_remove_entry\<close> in theory Ext4\_Dir.\<close>

definition remove_at :: "byte list \<Rightarrow> nat \<Rightarrow> byte list option" where
  "remove_at dat pos = do {
     dat \<leftarrow> ext4_dir_en_set_inode pos 0 dat;
     if pos = 0 then Some dat
     else do {
       de_len \<leftarrow> ext4_dir_en_get_entry_len dat 0;
       (off, de_len) \<leftarrow> predecessor dat pos 0 de_len;
       if unat de_len + off \<noteq> pos then None
       else do {
         del_len \<leftarrow> ext4_dir_en_get_entry_len dat pos;
         ext4_dir_en_set_entry_len off (de_len + del_len) dat } } }"

subsection \<open>Checksums of a block\<close>

text \<open>The position of the entry with the checksum, if the block has one.\<close>

definition ext4_dir_get_tail :: "mem \<Rightarrow> byte list \<Rightarrow> nat option option" where
  "ext4_dir_get_tail sb dat = do {
     block_size \<leftarrow> ext4_sb_get_block_size sb;
     let t = unat block_size - 12;
     zero1 \<leftarrow> rd32 dat t;
     zero2 \<leftarrow> rd8 dat (t + 6);
     if zero1 \<noteq> 0 \<or> zero2 \<noteq> 0 then Some None
     else do {
       l \<leftarrow> rd16 dat (t + 4);
       if l \<noteq> 12 then Some None
       else do {
         ft \<leftarrow> rd8 dat (t + 7);
         Some (if ft \<noteq> EXT4_DIRENTRY_DIR_CSUM then None else Some t) } } }"

text \<open>The directory is its inode and the number of it.\<close>

definition ext4_dir_csum :: "mem \<Rightarrow> mem \<times> u32 \<Rightarrow> byte list \<Rightarrow> nat \<Rightarrow> u32" where
  "ext4_dir_csum sb dir dat n =
     ext4_crc32c (ext4_crc32c (ext4_crc32c (ext4_crc32c EXT4_CRC32_INIT (uuid sb)) (le32 (snd dir)))
       (le32 (ext4_inode_get_generation (fst dir)))) (take n dat)"

definition ext4_dir_csum_verify :: "mem \<Rightarrow> mem \<times> u32 \<Rightarrow> byte list \<Rightarrow> bool option" where
  "ext4_dir_csum_verify sb dir dat =
     (if ext4_sb_feature_ro_com sb EXT4_FRO_COM_METADATA_CSUM then do {
        t \<leftarrow> ext4_dir_get_tail sb dat;
        case t of
          None \<Rightarrow> Some False
        | Some t \<Rightarrow> map_option (\<lambda>c. c = ext4_dir_csum sb dir dat t) (rd32 dat (t + 8)) }
      else Some True)"

definition ext4_dir_init_entry_tail :: "nat \<Rightarrow> byte list \<Rightarrow> byte list option" where
  "ext4_dir_init_entry_tail t dat = do {
     dat \<leftarrow> buf_set t (replicate 12 0) dat;
     dat \<leftarrow> buf_set (t + 4) (le16 12) dat;
     buf_set (t + 7) [EXT4_DIRENTRY_DIR_CSUM] dat }"

definition ext4_dir_set_csum :: "mem \<Rightarrow> mem \<times> u32 \<Rightarrow> byte list \<Rightarrow> byte list option" where
  "ext4_dir_set_csum sb dir dat =
     (if ext4_sb_feature_ro_com sb EXT4_FRO_COM_METADATA_CSUM then do {
        t \<leftarrow> ext4_dir_get_tail sb dat;
        case t of None \<Rightarrow> Some dat | Some t \<Rightarrow> buf_set (t + 8) (le32 (ext4_dir_csum sb dir dat t)) dat }
      else Some dat)"

section \<open>Blocks as lists of entries\<close>

text \<open>The reference: a block is cut into its entries by their lengths, and an entry with an inode gives a
  name and the number of the inode.\<close>

definition seg_len :: "byte list \<Rightarrow> nat" where "seg_len e = unat (get16 ((!) e) 4)"
definition seg_ino :: "byte list \<Rightarrow> u32" where "seg_ino e = get32 ((!) e) 0"

definition seg_nlen :: "mem \<Rightarrow> byte list \<Rightarrow> nat" where
  "seg_nlen sb e = unat (if old_rev sb then ucast (e ! 6) OR push_bit 8 (ucast (e ! 7)) else ucast (e ! 6) :: u16)"

definition seg_name :: "mem \<Rightarrow> byte list \<Rightarrow> byte list" where
  "seg_name sb e = take (seg_nlen sb e) (drop 8 e)"

definition seg_type :: "mem \<Rightarrow> byte list \<Rightarrow> byte" where
  "seg_type sb e = (if old_rev sb then EXT4_DE_UNKNOWN else e ! 7)"

definition seg_ok :: "mem \<Rightarrow> byte list \<Rightarrow> bool" where
  "seg_ok sb e \<longleftrightarrow> 8 \<le> length e \<and> seg_len e = length e \<and> 4 dvd length e \<and> 8 + seg_nlen sb e \<le> length e"

function segments :: "byte list \<Rightarrow> byte list list" where
  "segments dat =
     (if dat = [] then []
      else if seg_len dat = 0 \<or> length dat < seg_len dat then [dat]
      else take (seg_len dat) dat # segments (drop (seg_len dat) dat))"
  by pat_completeness auto
termination
  by (relation "measure length") auto

declare segments.simps [simp del]

definition block_ok :: "mem \<Rightarrow> byte list \<Rightarrow> bool" where
  "block_ok sb dat \<longleftrightarrow> (\<forall>e\<in>set (segments dat). seg_ok sb e)"

definition live :: "mem \<Rightarrow> byte list \<Rightarrow> (byte list \<times> u32) list" where
  "live sb e = (if seg_ino e = 0 then [] else [(seg_name sb e, seg_ino e)])"

definition dir_entries :: "mem \<Rightarrow> byte list \<Rightarrow> (byte list \<times> u32) list" where
  "dir_entries sb dat = concat (map (live sb) (segments dat))"

lemma concat_segments [simp]: "concat (segments dat) = dat"
  by (induction dat rule: segments.induct) (subst segments.simps, simp)

lemma get16_append: "off + 2 \<le> length e \<Longrightarrow> get16 ((!) (e @ zs)) off = get16 ((!) e) off"
  by (simp add: get16_def nth_append)

lemma seg_len_append: "6 \<le> length e \<Longrightarrow> seg_len (e @ zs) = seg_len e"
  by (simp add: seg_len_def get16_append)

lemma segments_Cons: "seg_ok sb e \<Longrightarrow> segments (e @ zs) = e # segments zs"
  by (subst segments.simps) (auto simp: seg_ok_def seg_len_append)

lemma segments_concat: "(\<forall>e\<in>set es. seg_ok sb e) \<Longrightarrow> segments (concat es) = es"
  by (induction es) (auto simp: segments.simps[of "[]"] intro: segments_Cons[THEN trans])

lemma block_ok_concat: "block_ok sb dat \<longleftrightarrow> (\<exists>es. dat = concat es \<and> (\<forall>e\<in>set es. seg_ok sb e))"
  unfolding block_ok_def using concat_segments segments_concat by metis

lemma dir_entries_concat: "(\<forall>e\<in>set es. seg_ok sb e) \<Longrightarrow> dir_entries sb (concat es) = concat (map (live sb) es)"
  by (simp add: dir_entries_def segments_concat)

text \<open>An access to an entry inside of a block is an access to the entry.\<close>

lemma rd_mid:
  "k + 4 \<le> length e \<Longrightarrow> rd32 (xs @ e @ ys) (length xs + k) = rd32 e k"
  "k + 2 \<le> length e \<Longrightarrow> rd16 (xs @ e @ ys) (length xs + k) = rd16 e k"
  "k < length e \<Longrightarrow> rd8 (xs @ e @ ys) (length xs + k) = rd8 e k"
  by (simp_all add: rd32_def rd16_def rd8_def get32_def get16_def nth_append)

lemma buf_set_in:
  assumes "k + length b \<le> length e"
  shows "buf_set (length xs + k) b (xs @ e @ ys) = map_option (\<lambda>e. xs @ e @ ys) (buf_set k b e)"
  using assms by (simp add: buf_set_def add.assoc)

lemmas en_defs = ext4_dir_en_get_inode_def ext4_dir_en_get_entry_len_def ext4_dir_en_get_name_len_def
  ext4_dir_en_get_inode_type_def ext4_dir_en_set_inode_def ext4_dir_en_set_entry_len_def
  ext4_dir_en_set_name_len_def ext4_dir_en_set_inode_type_def

lemma new_rev: "(rev_level sb > 0 \<or> minor_rev_level sb \<ge> 5) = (\<not> old_rev sb)"
  by (auto simp: old_rev_def word_gt_0 not_less)

lemma seg_fields:
  assumes "seg_ok sb e"
  shows "ext4_dir_en_get_inode (xs @ e @ ys) (length xs) = Some (seg_ino e)"
    "ext4_dir_en_get_entry_len (xs @ e @ ys) (length xs) = Some (of_nat (length e))"
    "ext4_dir_en_get_name_len sb (xs @ e @ ys) (length xs) = Some (of_nat (seg_nlen sb e))"
    "ext4_dir_en_get_inode_type sb (xs @ e @ ys) (length xs) = Some (seg_type sb e)"
proof -
  have l: "8 \<le> length e" "seg_len e = length e" using assms by (auto simp: seg_ok_def)
  have "of_nat (seg_len e) = get16 ((!) e) 4" by (simp add: seg_len_def)
  then have w: "get16 ((!) e) 4 = of_nat (length e)" using l(2) by simp
  show "ext4_dir_en_get_inode (xs @ e @ ys) (length xs) = Some (seg_ino e)"
    using rd_mid(1)[of 0 e xs ys] l by (simp add: en_defs rd32_def seg_ino_def)
  show "ext4_dir_en_get_entry_len (xs @ e @ ys) (length xs) = Some (of_nat (length e))"
    using rd_mid(2)[of 4 e xs ys] l w by (simp add: en_defs rd16_def)
  show "ext4_dir_en_get_name_len sb (xs @ e @ ys) (length xs) = Some (of_nat (seg_nlen sb e))"
    using rd_mid(3)[of 6 e xs ys] rd_mid(3)[of 7 e xs ys] l by (simp add: en_defs rd8_def seg_nlen_def)
  show "ext4_dir_en_get_inode_type sb (xs @ e @ ys) (length xs) = Some (seg_type sb e)"
    unfolding ext4_dir_en_get_inode_type_def new_rev using rd_mid(3)[of 7 e xs ys] l by (simp add: rd8_def seg_type_def)
qed

lemma seg_sizes:
  assumes "seg_ok sb e"
  shows "unat (of_nat (length e) :: u16) = length e" "unat (of_nat (seg_nlen sb e) :: u16) = seg_nlen sb e"
proof -
  have "seg_len e = length e" using assms by (simp add: seg_ok_def)
  then show "unat (of_nat (length e) :: u16) = length e" by (metis seg_len_def of_nat_unat ucast_id)
  show "unat (of_nat (seg_nlen sb e) :: u16) = seg_nlen sb e" unfolding seg_nlen_def by simp
qed

section \<open>Searching\<close>

lemma find_from_ok:
  assumes "\<forall>e\<in>set es. seg_ok sb e"
  shows "\<exists>r. find_from sb (length xs + length (concat es)) name (xs @ concat es) (length xs) = Some r \<and>
    (case map_of (concat (map (live sb) es)) name of
       None \<Rightarrow> r = (ENOENT, None)
     | Some ino \<Rightarrow> \<exists>es1 e es2. es = es1 @ e # es2 \<and> r = (EOK, Some (length xs + length (concat es1))) \<and>
         seg_name sb e = name \<and> seg_ino e = ino \<and> ino \<noteq> 0 \<and> map_of (concat (map (live sb) es1)) name = None)"
  using assms
proof (induction es arbitrary: xs)
  case Nil
  then show ?case by (simp add: find_from.simps)
next
  case (Cons e es)
  have e: "seg_ok sb e" using Cons.prems by simp
  note f = seg_fields[OF e, of xs "concat es"] seg_sizes[OF e]
  have l: "8 \<le> length e" "8 + seg_nlen sb e \<le> length e" "e \<noteq> []" using e by (auto simp: seg_ok_def)
  show ?case
  proof (cases "length xs + length name > length xs + length (concat (e # es))")
    case True
    have "map_of (concat (map (live sb) (e # es))) name = None"
    proof -
      have "length n < length name" if "(n, i) \<in> set (concat (map (live sb) (e # es)))" for n i
      proof -
        from that obtain x where x: "x \<in> set (e # es)" "n = seg_name sb x" by (auto simp: live_def split: if_splits)
        then have "length x \<le> length (concat (e # es))" by (induction es) auto
        moreover have "length n \<le> length x" using x(2) by (auto simp: seg_name_def)
        ultimately show ?thesis using True by simp
      qed
      then have "(name, i) \<notin> set (concat (map (live sb) (e # es)))" for i by fastforce
      then show ?thesis by (simp only: map_of_eq_None_iff) force
    qed
    moreover have "find_from sb (length xs + length (concat (e # es))) name (xs @ concat (e # es)) (length xs) = Some (ENOENT, None)"
      using True by (subst find_from.simps) simp
    ultimately show ?thesis by (simp only: option.case) blast
  next
    case False
    show ?thesis
    proof (cases "seg_ino e \<noteq> 0 \<and> seg_name sb e = name")
      case hit: True
      then have n: "seg_nlen sb e = length name" using l by (auto simp: seg_name_def)
      have "take (length name) (drop (length xs + 8) (xs @ e @ concat es)) = name"
        using hit n l by (simp add: seg_name_def)
      then have "find_from sb (length xs + length (concat (e # es))) name (xs @ concat (e # es)) (length xs) = Some (EOK, Some (length xs))"
        using False hit f n l by (subst find_from.simps) simp
      moreover have "map_of (concat (map (live sb) (e # es))) name = Some (seg_ino e)" using hit by (simp add: live_def)
      ultimately show ?thesis using hit
        by - (rule exI[of _ "(EOK, Some (length xs))"], simp only: option.case, rule conjI, rule refl,
              rule exI[of _ "[]"], rule exI[of _ e], rule exI[of _ es], simp)
    next
      case miss: False
      have t: "take (length name) (drop (length xs + 8) (xs @ e @ concat es)) = name \<longleftrightarrow> seg_name sb e = name" if "seg_nlen sb e = length name"
        using that l by (simp add: seg_name_def)
      have "(of_nat (length e) :: u16) \<noteq> 0" using f(5) l by auto
      then have step: "find_from sb (length xs + length (concat (e # es))) name (xs @ concat (e # es)) (length xs) =
        find_from sb (length (xs @ e) + length (concat es)) name ((xs @ e) @ concat es) (length (xs @ e))"
        using False miss f t l by (subst find_from.simps) (auto simp: add.assoc)
      moreover have same: "map_of (concat (map (live sb) (e # es))) name = map_of (concat (map (live sb) es)) name"
        using miss by (auto simp: live_def)
      moreover from Cons.IH[of "xs @ e"] Cons.prems obtain r where r:
        "find_from sb (length (xs @ e) + length (concat es)) name ((xs @ e) @ concat es) (length (xs @ e)) = Some r"
        "case map_of (concat (map (live sb) es)) name of
           None \<Rightarrow> r = (ENOENT, None)
         | Some ino \<Rightarrow> \<exists>es1 x es2. es = es1 @ x # es2 \<and> r = (EOK, Some (length (xs @ e) + length (concat es1))) \<and>
             seg_name sb x = name \<and> seg_ino x = ino \<and> ino \<noteq> 0 \<and> map_of (concat (map (live sb) es1)) name = None" by auto
      ultimately show ?thesis
      proof (cases "map_of (concat (map (live sb) es)) name")
        case (Some ino)
        with r(2) obtain es1 x es2 where x: "es = es1 @ x # es2" "r = (EOK, Some (length (xs @ e) + length (concat es1)))"
          "seg_name sb x = name" "seg_ino x = ino" "ino \<noteq> 0" "map_of (concat (map (live sb) es1)) name = None" by auto
        moreover have "map_of (live sb e) name = None" using miss by (auto simp: live_def)
        ultimately have "\<exists>es1 x es2. e # es = es1 @ x # es2 \<and> r = (EOK, Some (length xs + length (concat es1))) \<and>
            seg_name sb x = name \<and> seg_ino x = ino \<and> ino \<noteq> 0 \<and> map_of (concat (map (live sb) es1)) name = None"
          by - (rule exI[of _ "e # es1"], rule exI[of _ x], rule exI[of _ es2], simp)
        with step same r(1) Some show ?thesis by (simp only: option.case) blast
      next
        case None
        with r(2) have "r = (ENOENT, None)" by simp
        with step same r(1) None show ?thesis by (simp only: option.case) blast
      qed
    qed
  qed
qed

section \<open>Writing and inserting\<close>

lemma length_le16 [simp]: "length (le16 w) = 2" by (simp add: le16_def)

lemma of_le16_le16: "of_le16 (ucast w) (ucast (drop_bit 8 w)) = w"
  unfolding of_le16_def of_be16_def by (rule bit_word_eqI) (auto simp: bit_simps)

lemma list8: "length xs = 8 \<Longrightarrow> \<exists>b0 b1 b2 b3 b4 b5 b6 b7. xs = [b0, b1, b2, b3, b4, b5, b6, b7]"
  by (auto simp: numeral_eq_Suc length_Suc_conv)

lemma drop8: "drop (8 + k) (b0 # b1 # b2 # b3 # b4 # b5 # b6 # b7 # r) = drop k r"
  by (simp only: add.commute[of 8] drop_drop[symmetric]) simp

text \<open>The bytes of an entry after it was written.\<close>

lemma write_seg:
  assumes bs: "ext4_sb_get_block_size sb = Some bs" "length e \<le> unat bs" "length e < 2 ^ 16"
    and e: "8 + length name \<le> length e" "4 dvd length e" and name: "length name < 256 \<or> old_rev sb"
  shows "\<exists>e'. ext4_dir_write_entry sb 0 (of_nat (length e)) ch name e = Some e' \<and> length e' = length e \<and> seg_ok sb e' \<and>
    seg_ino e' = snd ch \<and> seg_name sb e' = name \<and> (\<not> old_rev sb \<longrightarrow> seg_type sb e' = mode_type (ext4_inode_type sb (fst ch)))"
proof -
  define t where "t = mode_type (ext4_inode_type sb (fst ch))"
  let ?nl = "of_nat (length name) :: u16"
  obtain L :: u16 where L: "of_nat (length e) = L" "unat L = length e" using bs(3) by (simp add: unat_of_nat)
  define e' where "e' = le32 (snd ch) @ le16 L @ [ucast ?nl, if old_rev sb then ucast (drop_bit 8 ?nl) else t] @ name @ drop (8 + length name) e"
  obtain r where len8: "length (take 8 e) = 8" and r: "e = take 8 e @ r" using e(1) by (metis append_take_drop_id length_take min_absorb2 add_leD1)
  obtain b0 b1 b2 b3 b4 b5 b6 b7 where "take 8 e = [b0, b1, b2, b3, b4, b5, b6, b7]"
    using list8[OF len8] by blast
  then have eq: "e = b0 # b1 # b2 # b3 # b4 # b5 # b6 # b7 # r" using r by simp
  have r8: "length name \<le> length r" using e(1) eq by simp
  have "ext4_dir_write_entry sb 0 (of_nat (length e)) ch name e = Some e'"
    using bs r8 L(2) unfolding L(1) ext4_dir_write_entry_def en_defs new_rev
    by (auto simp: eq e'_def t_def[symmetric] buf_set_def le32_def le16_def word_less_nat_alt unat_ucast_mod drop8)
  moreover have "length e' = length e" using r8 by (simp add: e'_def eq)
  moreover have nl: "seg_nlen sb e' = length name"
  proof (cases "old_rev sb")
    case True
    have "ucast (ucast ?nl :: byte) OR push_bit 8 (ucast (ucast (drop_bit 8 ?nl) :: byte)) = ?nl"
      using of_le16_le16[of ?nl] by (simp add: of_le16_def of_be16_def or.commute)
    with True show ?thesis using e(1) bs(3) by (simp add: seg_nlen_def e'_def le32_def le16_def unat_of_nat)
  next
    case False
    then show ?thesis using name by (simp add: seg_nlen_def e'_def le32_def le16_def unat_ucast_mod unat_of_nat)
  qed
  moreover have "seg_len e' = length e" using of_le16_le16[of L] L(2)
    by (simp add: seg_len_def get16_def e'_def le32_def le16_def)
  moreover have "seg_ino e' = snd ch"
    using of_le32_le32[of "snd ch"] by (simp add: seg_ino_def get32_def e'_def le32_def)
  moreover have "seg_name sb e' = name" unfolding seg_name_def nl by (simp add: e'_def le32_def le16_def)
  moreover have "\<not> old_rev sb \<longrightarrow> seg_type sb e' = t" by (simp add: seg_type_def e'_def le32_def le16_def)
  ultimately show ?thesis using e unfolding t_def seg_ok_def by auto
qed

lemma patch_mid: "k + length b \<le> length e \<Longrightarrow> patch (xs @ e @ ys) (length xs + k) b = xs @ patch e k b @ ys"
  by (simp add: patch_def)

lemma write_mid:
  assumes "8 + length name \<le> length e"
  shows "ext4_dir_write_entry sb (length xs) L ch name (xs @ e @ ys) =
    map_option (\<lambda>e. xs @ e @ ys) (ext4_dir_write_entry sb 0 L ch name e)"
  using assms patch_mid[of 0 _ _ xs ys]
  by (simp add: ext4_dir_write_entry_def en_defs buf_set_patch patch_mid split: option.split bind_splits)

lemma unat_mod4: "unat (x mod 4 :: u16) = unat x mod 4" by (simp add: unat_mod)

lemma required_len_ok:
  assumes "n \<le> 65524"
  shows "unat (required_len n) = (n + 11) div 4 * 4" "8 + n \<le> unat (required_len n)" "4 dvd unat (required_len n)"
proof -
  have u: "unat (8 + of_nat n :: u16) = 8 + n" using assms by (simp add: unat_word_ariths unat_of_nat)
  have m: "(8 + of_nat n :: u16) mod 4 \<noteq> 0 \<longleftrightarrow> (8 + n) mod 4 \<noteq> 0"
    by (simp add: word_unat_eq_iff unat_mod4 u del: mod_add_left_eq)
  show e: "unat (required_len n) = (n + 11) div 4 * 4"
  proof (cases "(8 + n) mod 4 = 0")
    case True
    then show ?thesis using m u by (simp add: required_len_def Let_def) presburger
  next
    case False
    have s: "unat (4 - (8 + of_nat n :: u16) mod 4) = 4 - (8 + n) mod 4"
      using unat_mod4[of "8 + of_nat n"] u by (simp add: unat_sub word_le_nat_alt)
    have "unat ((8 + of_nat n) + (4 - (8 + of_nat n :: u16) mod 4)) = 8 + n + (4 - (8 + n) mod 4)"
      using assms u s False by (subst unat_plus_if') auto
    also have "\<dots> = (n + 11) div 4 * 4" using False by presburger
    finally show ?thesis using False m by (simp add: required_len_def Let_def)
  qed
  show "8 + n \<le> unat (required_len n)" "4 dvd unat (required_len n)" unfolding e by presburger+
qed

lemma used_size_required: "used_size (of_nat n) = required_len n"
proof -
  have "(8 + x) mod 4 = x mod (4 :: u16)" for x :: u16
    by (simp add: word_unat_eq_iff unat_mod unat_word_ariths mod_mod_cancel[of 4 65536]) presburger
  then show ?thesis by (simp add: used_size_def required_len_def Let_def)
qed

text \<open>Whether an entry has room for another one.\<close>

definition has_room :: "mem \<Rightarrow> nat \<Rightarrow> byte list \<Rightarrow> bool" where
  "has_room sb n e \<longleftrightarrow>
     (if seg_ino e = 0 then seg_type sb e \<noteq> EXT4_DIRENTRY_DIR_CSUM \<and> unat (required_len n) \<le> length e
      else unat (required_len (seg_nlen sb e)) + unat (required_len n) \<le> length e)"

lemma seg_used:
  assumes "seg_ok sb e" "length e < 2 ^ 16"
  shows "seg_nlen sb e \<le> 65524" "unat (required_len (seg_nlen sb e)) \<le> length e"
proof -
  have e: "8 + seg_nlen sb e \<le> length e" "4 dvd length e" using assms by (auto simp: seg_ok_def)
  show n: "seg_nlen sb e \<le> 65524"
  proof (rule ccontr)
    assume "\<not> ?thesis"
    then have "65533 \<le> length e" using e(1) by simp
    moreover have "length e < 65536" using assms(2) by simp
    ultimately show False using e(2) by presburger
  qed
  have "(seg_nlen sb e + 11) div 4 * 4 \<le> length e" using e by presburger
  then show "unat (required_len (seg_nlen sb e)) \<le> length e" unfolding required_len_ok(1)[OF n] .
qed

text \<open>An entry cut down to the space it uses.\<close>

lemma cut_seg:
  assumes "seg_ok sb e" "length e < 2 ^ 16"
  defines "z \<equiv> required_len (seg_nlen sb e)"
  shows "seg_ok sb (take (unat z) (patch e 4 (le16 z)))" "live sb (take (unat z) (patch e 4 (le16 z))) = live sb e"
    "length (take (unat z) (patch e 4 (le16 z))) = unat z"
proof -
  note u = seg_used[OF assms(1,2)]
  note r = required_len_ok[OF u(1)]
  have e: "8 \<le> length e" "8 + seg_nlen sb e \<le> length e" using assms by (auto simp: seg_ok_def)
  let ?e = "take (unat z) (patch e 4 (le16 z))"
  have z8: "8 \<le> unat z" using r(2) by (simp add: z_def)
  show len: "length ?e = unat z" using u(2) e by (simp add: z_def)
  have nth: "?e ! i = (if i = 4 then ucast z else if i = 5 then ucast (drop_bit 8 z) else e ! i)" if "i < 8 + seg_nlen sb e" for i
    using that r(2) e by (auto simp: z_def[symmetric] patch_def le16_def nth_append nth_Cons')
  have nl: "seg_nlen sb ?e = seg_nlen sb e" unfolding seg_nlen_def using nth[of 6] nth[of 7] by simp
  have ino: "seg_ino ?e = seg_ino e" unfolding seg_ino_def get32_def using nth[of 0] nth[of 1] nth[of 2] nth[of 3] by (simp add: numeral_2_eq_2)
  have "seg_len ?e = unat z" unfolding seg_len_def get16_def using nth[of 4] nth[of 5] of_le16_le16[of z] by simp
  then show "seg_ok sb ?e" using len nl r(2,3) by (simp add: seg_ok_def z_def[symmetric])
  have "seg_name sb ?e = seg_name sb e"
  proof (rule nth_equalityI)
    show "length (seg_name sb ?e) = length (seg_name sb e)" using nl len r(2) e by (simp add: seg_name_def z_def[symmetric])
    fix i assume "i < length (seg_name sb ?e)"
    then have "i < seg_nlen sb e" using nl by (simp add: seg_name_def)
    then show "seg_name sb ?e ! i = seg_name sb e ! i"
      using nth[of "8 + i"] nl len e(2) r(2) by (simp add: seg_name_def z_def[symmetric])
  qed
  then show "live sb ?e = live sb e" using ino by (simp add: live_def)
qed

lemma insert_here:
  assumes e: "seg_ok sb e" "length e < 2 ^ 16" "has_room sb (length name) e"
    and bs: "ext4_sb_get_block_size sb = Some bs" "length e \<le> unat bs"
    and name: "length name < 256 \<or> old_rev sb" "length name \<le> 65524" "snd ch \<noteq> 0" and stop: "length xs < stop"
  shows "\<exists>new. insert_from sb stop (required_len (length name)) ch name (xs @ e @ ys) (length xs) = Some (EOK, xs @ concat new @ ys) \<and>
    (\<forall>x\<in>set new. seg_ok sb x) \<and> length (concat new) = length e \<and> concat (map (live sb) new) = live sb e @ [(name, snd ch)]"
proof -
  note f = seg_fields[OF e(1), of xs ys] seg_sizes[OF e(1)]
  note r = required_len_ok[OF name(2)]
  have l: "8 \<le> length e" "4 dvd length e" using e(1) by (auto simp: seg_ok_def)
  show ?thesis
  proof (cases "seg_ino e = 0")
    case True
    then have h: "seg_type sb e \<noteq> EXT4_DIRENTRY_DIR_CSUM" "unat (required_len (length name)) \<le> length e"
      using e(3) by (auto simp: has_room_def)
    have "8 + length name \<le> length e" using h(2) r(2) by simp
    from write_seg[OF bs e(2) this l(2) name(1), of ch] write_mid[OF this, of sb xs "of_nat (length e)" ch ys] obtain e' where
      w: "ext4_dir_write_entry sb (length xs) (of_nat (length e)) ch name (xs @ e @ ys) = Some (xs @ e' @ ys)"
        "length e' = length e" "seg_ok sb e'" "seg_ino e' = snd ch" "seg_name sb e' = name" by auto
    have "insert_from sb stop (required_len (length name)) ch name (xs @ e @ ys) (length xs) = Some (EOK, xs @ e' @ ys)"
      using f True h stop w(1) by (subst insert_from.simps) (simp add: word_le_nat_alt)
    then show ?thesis using w True name(3) by (intro exI[of _ "[e']"]) (auto simp: live_def)
  next
    case False
    let ?z = "required_len (seg_nlen sb e)" and ?n = "length name"
    note u = seg_used[OF e(1,2)]
    note c = cut_seg[OF e(1,2)]
    have h: "unat ?z + unat (required_len ?n) \<le> length e" using e(3) False by (simp add: has_room_def)
    have fr: "unat (of_nat (length e) - ?z) = length e - unat ?z" "of_nat (length e) - ?z = of_nat (length e - unat ?z)"
      using f(5) u(2) by (simp_all add: unat_sub word_le_nat_alt of_nat_diff)
    let ?p = "patch e 4 (le16 ?z)" and ?d = "drop (unat ?z) (patch e 4 (le16 ?z))" and ?t = "take (unat ?z) (patch e 4 (le16 ?z))"
    have d: "length ?d = length e - unat ?z" using l by simp
    have d4: "4 dvd length ?d" using d l(2) required_len_ok(3)[OF u(1)] by (simp add: dvd_diff_nat)
    have d8: "8 + ?n \<le> length ?d" using d h r(2) by simp
    have "length ?d \<le> unat bs" "length ?d < 2 ^ 16" using d bs(2) e(2) by simp_all
    from write_seg[OF bs(1) this d8 d4 name(1), of ch] write_mid[OF d8, of sb "xs @ ?t" "of_nat (length ?d)" ch ys] obtain e' where
      w: "ext4_dir_write_entry sb (length (xs @ ?t)) (of_nat (length ?d)) ch name ((xs @ ?t) @ ?d @ ys) = Some ((xs @ ?t) @ e' @ ys)"
        "length e' = length ?d" "seg_ok sb e'" "seg_ino e' = snd ch" "seg_name sb e' = name" by auto
    have set: "ext4_dir_en_set_entry_len (length xs) ?z (xs @ e @ ys) = Some ((xs @ ?t) @ ?d @ ys)"
      using l patch_mid[of 4 "le16 ?z" e xs ys] by (simp add: en_defs buf_set_patch)
    have "length (xs @ ?t) = length xs + unat ?z" using c(3) by simp
    moreover have "of_nat (length ?d) = of_nat (length e) - ?z" using fr(2) d by simp
    ultimately have "insert_from sb stop (required_len ?n) ch name (xs @ e @ ys) (length xs) = Some (EOK, (xs @ ?t) @ e' @ ys)"
      using f False h stop w(1) set fr(1) by (subst insert_from.simps) (auto simp: word_le_nat_alt Let_def used_size_required)
    then show ?thesis using w c d u(2) name(3) by (intro exI[of _ "[?t, e']"]) (auto simp: live_def)
  qed
qed

lemma insert_from_ok:
  assumes es: "\<forall>e\<in>set es. seg_ok sb e" and bs: "ext4_sb_get_block_size sb = Some bs" "length (concat es) \<le> unat bs" "unat bs < 2 ^ 16"
    and name: "length name < 256 \<or> old_rev sb" "length name \<le> 65524" "snd ch \<noteq> 0"
  shows "\<exists>r. insert_from sb (length xs + length (concat es)) (required_len (length name)) ch name (xs @ concat es) (length xs) = Some r \<and>
    (if \<exists>e\<in>set es. has_room sb (length name) e then
       \<exists>es1 e es2 new. es = es1 @ e # es2 \<and> r = (EOK, xs @ concat (es1 @ new @ es2)) \<and> (\<forall>x\<in>set new. seg_ok sb x) \<and>
         length (concat new) = length e \<and> concat (map (live sb) new) = live sb e @ [(name, snd ch)]
     else r = (ENOSPC, xs @ concat es))"
  using es bs(2)
proof (induction es arbitrary: xs)
  case Nil
  then show ?case by (subst insert_from.simps) simp
next
  case (Cons e es)
  have e: "seg_ok sb e" "length e < 2 ^ 16" "length e \<le> unat bs" using Cons.prems bs(3) by auto
  note f = seg_fields[OF e(1), of xs "concat es"] seg_sizes[OF e(1)]
  have l: "8 \<le> length e" "e \<noteq> []" using e(1) by (auto simp: seg_ok_def)
  let ?stop = "length xs + length (concat (e # es))"
  show ?case
  proof (cases "has_room sb (length name) e")
    case True
    from insert_here[OF e(1,2) True bs(1) e(3) name, of xs ?stop "concat es"] l obtain new where
      "insert_from sb ?stop (required_len (length name)) ch name (xs @ concat (e # es)) (length xs) = Some (EOK, xs @ concat new @ concat es)"
      "\<forall>x\<in>set new. seg_ok sb x" "length (concat new) = length e" "concat (map (live sb) new) = live sb e @ [(name, snd ch)]" by auto
    then have "\<exists>es1 e' es2 new. e # es = es1 @ e' # es2 \<and> insert_from sb ?stop (required_len (length name)) ch name (xs @ concat (e # es)) (length xs) =
        Some (EOK, xs @ concat (es1 @ new @ es2)) \<and> (\<forall>x\<in>set new. seg_ok sb x) \<and>
      length (concat new) = length e' \<and> concat (map (live sb) new) = live sb e' @ [(name, snd ch)]"
      by - (rule exI[of _ "[]"], rule exI[of _ e], rule exI[of _ es], rule exI[of _ new], simp)
    moreover have "\<exists>x\<in>set (e # es). has_room sb (length name) x" using True by simp
    ultimately show ?thesis by (simp only: if_True simp_thms) blast
  next
    case False
    note u = seg_used[OF e(1,2)]
    have fr: "unat (of_nat (length e) - required_len (seg_nlen sb e)) = length e - unat (required_len (seg_nlen sb e))"
      using f(5) u(2) by (simp add: unat_sub word_le_nat_alt)
    have step: "insert_from sb ?stop (required_len (length name)) ch name (xs @ concat (e # es)) (length xs) =
      insert_from sb (length (xs @ e) + length (concat es)) (required_len (length name)) ch name ((xs @ e) @ concat es) (length (xs @ e))"
      using f False l fr u(2) by (subst insert_from.simps) (auto simp: has_room_def word_le_nat_alt Let_def used_size_required add.assoc)
    from Cons.IH[of "xs @ e"] Cons.prems obtain r where
      r: "insert_from sb (length (xs @ e) + length (concat es)) (required_len (length name)) ch name ((xs @ e) @ concat es) (length (xs @ e)) = Some r"
        "if \<exists>e\<in>set es. has_room sb (length name) e then
           \<exists>es1 x es2 new. es = es1 @ x # es2 \<and> r = (EOK, (xs @ e) @ concat (es1 @ new @ es2)) \<and> (\<forall>x\<in>set new. seg_ok sb x) \<and>
             length (concat new) = length x \<and> concat (map (live sb) new) = live sb x @ [(name, snd ch)]
         else r = (ENOSPC, (xs @ e) @ concat es)" by auto
    show ?thesis
    proof (cases "\<exists>e\<in>set es. has_room sb (length name) e")
      case True
      with r(2) obtain es1 x es2 new where "es = es1 @ x # es2" "r = (EOK, (xs @ e) @ concat (es1 @ new @ es2))" "\<forall>x\<in>set new. seg_ok sb x"
        "length (concat new) = length x" "concat (map (live sb) new) = live sb x @ [(name, snd ch)]" by auto
      then have "\<exists>es1 x es2 new. e # es = es1 @ x # es2 \<and> r = (EOK, xs @ concat (es1 @ new @ es2)) \<and> (\<forall>x\<in>set new. seg_ok sb x) \<and>
             length (concat new) = length x \<and> concat (map (live sb) new) = live sb x @ [(name, snd ch)]"
        by - (rule exI[of _ "e # es1"], rule exI[of _ x], rule exI[of _ es2], rule exI[of _ new], simp)
      moreover have "\<exists>x\<in>set (e # es). has_room sb (length name) x" using True by simp
      ultimately show ?thesis using step r(1) by (simp only: if_True simp_thms) blast
    qed (use step r False in auto)
  qed
qed

section \<open>Removing\<close>

lemma predecessor_ok:
  assumes "\<forall>e\<in>set (x # es). seg_ok sb e"
  shows "predecessor (xs @ concat (x # es) @ zs) (length xs + length (concat (x # es))) (length xs) (of_nat (length x)) =
    Some (length xs + length (concat (butlast (x # es))), of_nat (length (last (x # es))))"
  using assms
proof (induction es arbitrary: xs x)
  case Nil
  then have "seg_ok sb x" by simp
  from seg_sizes(1)[OF this] show ?case by (subst predecessor.simps) simp
next
  case (Cons y es)
  have x: "seg_ok sb x" "seg_ok sb y" using Cons.prems by auto
  note s = seg_sizes(1)[OF x(1)]
  have l: "0 < length y" using x(2) by (auto simp: seg_ok_def)
  have "ext4_dir_en_get_entry_len (xs @ concat (x # y # es) @ zs) (length xs + length x) = Some (of_nat (length y))"
    using seg_fields(2)[OF x(2), of "xs @ x" "concat es @ zs"] by simp
  then have "predecessor (xs @ concat (x # y # es) @ zs) (length xs + length (concat (x # y # es))) (length xs) (of_nat (length x)) =
    predecessor ((xs @ x) @ concat (y # es) @ zs) (length (xs @ x) + length (concat (y # es))) (length (xs @ x)) (of_nat (length y))"
    using s l by (subst predecessor.simps) (simp add: add.assoc)
  also have "\<dots> = Some (length (xs @ x) + length (concat (butlast (y # es))), of_nat (length (last (y # es))))"
    using Cons.prems by (intro Cons.IH) simp
  finally show ?case by (simp add: add.assoc)
qed

text \<open>An entry without its inode, and an entry that swallowed what is behind it.\<close>

lemma clear_seg:
  assumes "seg_ok sb e"
  shows "seg_ok sb (patch e 0 (le32 0))" "live sb (patch e 0 (le32 0)) = []" "length (patch e 0 (le32 0)) = length e"
proof -
  have l: "8 \<le> length e" using assms by (simp add: seg_ok_def)
  let ?e = "patch e 0 (le32 0)"
  have nth: "?e ! i = (if i < 4 then 0 else e ! i)" if "i < length e" for i
  proof -
    have "?e ! i = (if i < 4 then le32 0 ! i else e ! (4 + (i - 4)))" using that l by (simp add: patch_def nth_append)
    moreover have "le32 0 ! i = 0" if "i < 4" using that by (auto simp: le32_def nth_Cons')
    ultimately show ?thesis by simp
  qed
  show len: "length ?e = length e" using l by simp
  have "seg_nlen sb ?e = seg_nlen sb e" "seg_len ?e = seg_len e"
    using l nth[of 4] nth[of 5] nth[of 6] nth[of 7] by (simp_all add: seg_nlen_def seg_len_def get16_def)
  then show "seg_ok sb ?e" using assms len by (simp add: seg_ok_def)
  have "e \<noteq> []" using l by auto
  then show "live sb ?e = []" using l nth[of 0] nth[of 1] nth[of 2] nth[of 3]
    by (simp add: live_def seg_ino_def get32_def of_le32_def numeral_2_eq_2)
qed

lemma merge_seg:
  assumes "seg_ok sb p" "4 dvd length e" "length p + length e < 2 ^ 16"
  defines "q \<equiv> patch (p @ e) 4 (le16 (of_nat (length p + length e)))"
  shows "seg_ok sb q" "live sb q = live sb p" "length q = length p + length e"
proof -
  have l: "8 \<le> length p" "8 + seg_nlen sb p \<le> length p" "4 dvd length p" using assms(1) by (auto simp: seg_ok_def)
  let ?w = "of_nat (length p + length e) :: u16"
  have nth: "q ! i = (if i = 4 then ucast ?w else if i = 5 then ucast (drop_bit 8 ?w) else p ! i)" if "i < 8 + seg_nlen sb p" for i
    using that l by (auto simp: q_def patch_def le16_def nth_append nth_Cons')
  show len: "length q = length p + length e" using l by (simp add: q_def)
  have nl: "seg_nlen sb q = seg_nlen sb p" unfolding seg_nlen_def using nth[of 6] nth[of 7] by simp
  have ino: "seg_ino q = seg_ino p" unfolding seg_ino_def get32_def using nth[of 0] nth[of 1] nth[of 2] nth[of 3] by (simp add: numeral_2_eq_2)
  have "seg_len q = length p + length e" unfolding seg_len_def get16_def
    using nth[of 4] nth[of 5] of_le16_le16[of ?w] assms(3) unat_of_nat[of "length p + length e", where 'a = 16] by simp
  then show "seg_ok sb q" using len nl l assms(2) by (simp add: seg_ok_def)
  have "seg_name sb q = seg_name sb p"
  proof (rule nth_equalityI)
    show "length (seg_name sb q) = length (seg_name sb p)" using nl len l by (simp add: seg_name_def)
    fix i assume "i < length (seg_name sb q)"
    then have "i < seg_nlen sb p" using nl by (simp add: seg_name_def)
    then show "seg_name sb q ! i = seg_name sb p ! i"
      using nth[of "8 + i"] nl len l by (simp add: seg_name_def)
  qed
  then show "live sb q = live sb p" using ino by (simp add: live_def)
qed

lemma remove_at_step:
  assumes "ext4_dir_en_set_inode n 0 dat = Some d1" "n \<noteq> 0" "ext4_dir_en_get_entry_len d1 0 = Some l0"
    "predecessor d1 n 0 l0 = Some (off, l)" "unat l + off = n" "ext4_dir_en_get_entry_len d1 n = Some dl"
    "ext4_dir_en_set_entry_len off (l + dl) d1 = Some d2"
  shows "remove_at dat n = Some d2"
  using assms by (simp add: remove_at_def)

lemma remove_at_ok:
  assumes "\<forall>e\<in>set (es1 @ e # es2). seg_ok sb e" "length (concat (es1 @ e # es2)) < 2 ^ 16"
  shows "\<exists>es. remove_at (concat (es1 @ e # es2)) (length (concat es1)) = Some (concat es) \<and> (\<forall>e\<in>set es. seg_ok sb e) \<and>
    length (concat es) = length (concat (es1 @ e # es2)) \<and> concat (map (live sb) es) = concat (map (live sb) (es1 @ es2))"
proof -
  let ?e = "patch e 0 (le32 0)"
  have e: "seg_ok sb e" "8 \<le> length e" using assms(1) by (auto simp: seg_ok_def)
  note c = clear_seg[OF e(1)]
  have set: "ext4_dir_en_set_inode (length (concat es1)) 0 (concat (es1 @ e # es2)) = Some (concat es1 @ ?e @ concat es2)"
    using e(2) patch_mid[of 0 "le32 0" e "concat es1" "concat es2"] by (simp add: en_defs buf_set_patch)
  show ?thesis
  proof (cases es1 rule: rev_cases)
    case Nil
    then show ?thesis using set c assms(1) by (intro exI[of _ "?e # es2"]) (auto simp: remove_at_def)
  next
    case (snoc es0 p)
    have p: "seg_ok sb p" "8 \<le> length p" using assms(1) snoc by (auto simp: seg_ok_def)
    let ?q = "patch (p @ ?e) 4 (le16 (of_nat (length p + length ?e)))"
    have le: "4 dvd length ?e" "length p + length ?e < 2 ^ 16" using assms snoc c by (auto simp: seg_ok_def)
    note m = merge_seg[OF p(1) le]
    obtain x es where xs: "es1 = x # es" using snoc by (metis append_is_Nil_conv neq_Nil_conv not_Cons_self2)
    have okx: "\<forall>y\<in>set (x # es). seg_ok sb y" using assms(1) xs by auto
    have lastp: "last (x # es) = p" "butlast (x # es) = es0" using xs snoc by (metis last_snoc, metis butlast_snoc)
    let ?dat = "concat es1 @ ?e @ concat es2"
    have first: "ext4_dir_en_get_entry_len ?dat 0 = Some (of_nat (length x))"
      using seg_fields(2)[of sb x "[]" "concat es @ ?e @ concat es2"] okx xs by simp
    have pred: "predecessor ?dat (length (concat es1)) 0 (of_nat (length x)) = Some (length (concat es0), of_nat (length p))"
      using predecessor_ok[OF okx, of "[]" "?e @ concat es2"] lastp xs by simp
    have pos: "length (concat es1) \<noteq> 0" using snoc p(2) by auto
    have del: "ext4_dir_en_get_entry_len ?dat (length (concat es1)) = Some (of_nat (length ?e))"
      using seg_fields(2)[OF c(1), of "concat es1" "concat es2"] .
    have upd: "ext4_dir_en_set_entry_len (length (concat es0)) (of_nat (length p) + of_nat (length ?e)) ?dat = Some (concat es0 @ ?q @ concat es2)"
      using patch_mid[of 4 "le16 (of_nat (length p + length ?e))" "p @ ?e" "concat es0" "concat es2"] p(2) snoc
      by (simp add: en_defs buf_set_patch)
    have "unat (of_nat (length p) :: u16) + length (concat es0) = length (concat es1)" using seg_sizes(1)[OF p(1)] snoc by simp
    from remove_at_step[OF set pos first pred this del upd]
    have "remove_at (concat (es1 @ e # es2)) (length (concat es1)) = Some (concat (es0 @ ?q # es2))" by simp
    then show ?thesis using m c assms(1) snoc p(2) e(2) by (intro exI[of _ "es0 @ ?q # es2"]) auto
  qed
qed

section \<open>Properties\<close>

lemma find_in_block_ok:
  assumes "block_ok sb dat" "ext4_sb_get_block_size sb = Some bs" "length dat = unat bs"
  shows "\<exists>r. ext4_dir_find_in_block sb name dat = Some r \<and>
    (case map_of (dir_entries sb dat) name of
       None \<Rightarrow> r = (ENOENT, None)
     | Some ino \<Rightarrow> \<exists>es1 e es2. segments dat = es1 @ e # es2 \<and> r = (EOK, Some (length (concat es1))) \<and>
         seg_name sb e = name \<and> seg_ino e = ino \<and> ino \<noteq> 0 \<and> map_of (concat (map (live sb) es1)) name = None)"
  using find_from_ok[of "segments dat" sb "[]" name, unfolded list.size(3) add_0 append_Nil concat_segments] assms
  unfolding block_ok_def dir_entries_def ext4_dir_find_in_block_def by simp

lemma seg_at: "block_ok sb dat \<Longrightarrow> segments dat = es1 @ e # es2 \<Longrightarrow>
    dat = concat es1 @ e @ concat es2 \<and> seg_ok sb e \<and> ext4_dir_en_get_inode dat (length (concat es1)) = Some (seg_ino e)"
  using concat_segments[of dat] seg_fields(1)[of sb e "concat es1" "concat es2"] by (simp add: block_ok_def)

text \<open>C15. Searching a block of a directory finds a name exactly if the block has an entry with
  that name, and then the first such entry; names of any bytes and length, empty and removed entries included.\<close>

theorem dir_find_correct:
  assumes "block_ok sb dat" "ext4_sb_get_block_size sb = Some bs" "length dat = unat bs"
  shows "case map_of (dir_entries sb dat) name of
      None \<Rightarrow> ext4_dir_find_in_block sb name dat = Some (ENOENT, None)
    | Some ino \<Rightarrow> \<exists>de. ext4_dir_find_in_block sb name dat = Some (EOK, Some de) \<and> ext4_dir_en_get_inode dat de = Some ino"
proof (cases "map_of (dir_entries sb dat) name")
  case None
  then show ?thesis using find_in_block_ok[OF assms, of name] by simp
next
  case (Some ino)
  then obtain es1 e es2 where "ext4_dir_find_in_block sb name dat = Some (EOK, Some (length (concat es1)))"
    "segments dat = es1 @ e # es2" "seg_ino e = ino" using find_in_block_ok[OF assms, of name] by auto
  then show ?thesis using seg_at[OF assms(1)] Some by auto
qed

text \<open>A block with the entries of an empty directory and one file, whose entry takes the rest.\<close>

definition sb_1k :: mem where "sb_1k = (\<lambda>_. 0)(76 := 1)"

definition dir_segs :: "byte list list" where
  "dir_segs = [[2, 0, 0, 0, 12, 0, 1, 2, 46, 0, 0, 0], [2, 0, 0, 0, 12, 0, 2, 2, 46, 46, 0, 0],
     [12, 0, 0, 0, 0xe8, 3, 1, 1, 97] @ replicate 991 0]"

lemma sb_1k_size: "ext4_sb_get_block_size sb_1k = Some 1024" "\<not> old_rev sb_1k"
  by (simp_all add: sb_1k_def ext4_sb_get_block_size_def log_block_size_def get32_def of_le32_def old_rev_def rev_level_def)

lemma dir_segs_len: "map length dir_segs = [12, 12, 1000]" by (simp add: dir_segs_def)

lemma dir_segs_ok: "\<forall>e\<in>set dir_segs. seg_ok sb_1k e"
proof -
  have "\<forall>e\<in>set dir_segs. seg_len e = length e \<and> 8 + seg_nlen sb_1k e \<le> length e"
    by (simp add: dir_segs_def seg_len_def seg_nlen_def sb_1k_size get16_def of_le16_def of_be16_def)
  moreover have "length e \<in> {12, 1000}" if "e \<in> set dir_segs" for e
    using that dir_segs_len by (auto simp: dir_segs_def)
  ultimately show ?thesis by (fastforce simp: seg_ok_def)
qed

lemma dir_blk_ok: "block_ok sb_1k (concat dir_segs)" "length (concat dir_segs) = unat (1024 :: u32)"
  unfolding block_ok_def segments_concat[OF dir_segs_ok] using dir_segs_ok
  by (simp_all add: length_concat dir_segs_len)

theorem dir_find_correct_witness:
  "case map_of (dir_entries sb_1k (concat dir_segs)) [97] of
      None \<Rightarrow> ext4_dir_find_in_block sb_1k [97] (concat dir_segs) = Some (ENOENT, None)
    | Some ino \<Rightarrow> \<exists>de. ext4_dir_find_in_block sb_1k [97] (concat dir_segs) = Some (EOK, Some de) \<and>
        ext4_dir_en_get_inode (concat dir_segs) de = Some ino"
  by (rule dir_find_correct[OF dir_blk_ok(1) sb_1k_size(1) dir_blk_ok(2)])

text \<open>C16. Inserting an entry into a block: if some entry has room, the new one is added at one place of the
  list of entries, all others stay as they are, and the block stays well-formed; otherwise the block is
  unchanged and the result is ENOSPC.\<close>

theorem dir_insert_correct:
  assumes "block_ok sb dat" "ext4_sb_get_block_size sb = Some bs" "length dat = unat bs" "unat bs < 2 ^ 16"
    and "length name < 256" "snd ch \<noteq> 0"
  shows "if \<exists>e\<in>set (segments dat). has_room sb (length name) e
    then \<exists>dat' xs ys. insert_from sb (unat bs) (required_len (length name)) ch name dat 0 = Some (EOK, dat') \<and>
      block_ok sb dat' \<and> length dat' = length dat \<and> dir_entries sb dat = xs @ ys \<and> dir_entries sb dat' = xs @ (name, snd ch) # ys
    else insert_from sb (unat bs) (required_len (length name)) ch name dat 0 = Some (ENOSPC, dat)"
proof -
  let ?es = "segments dat"
  have ok: "\<forall>e\<in>set ?es. seg_ok sb e" using assms(1) by (simp add: block_ok_def)
  from insert_from_ok[OF ok assms(2), of name ch "[]", unfolded list.size(3) add_0 append_Nil concat_segments] assms(3-6) obtain r where
    r: "insert_from sb (unat bs) (required_len (length name)) ch name dat 0 = Some r"
      "if \<exists>e\<in>set ?es. has_room sb (length name) e then
         \<exists>es1 e es2 new. ?es = es1 @ e # es2 \<and> r = (EOK, concat (es1 @ new @ es2)) \<and> (\<forall>x\<in>set new. seg_ok sb x) \<and>
           length (concat new) = length e \<and> concat (map (live sb) new) = live sb e @ [(name, snd ch)]
       else r = (ENOSPC, dat)" by auto
  show ?thesis
  proof (cases "\<exists>e\<in>set ?es. has_room sb (length name) e")
    case True
    with r(2) obtain es1 e es2 new where n: "?es = es1 @ e # es2" "r = (EOK, concat (es1 @ new @ es2))" "\<forall>x\<in>set new. seg_ok sb x"
      "length (concat new) = length e" "concat (map (live sb) new) = live sb e @ [(name, snd ch)]" by auto
    let ?new = "es1 @ new @ es2"
    have ok': "\<forall>x\<in>set ?new. seg_ok sb x" using ok n(1,3) by auto
    have "dat = concat (es1 @ e # es2)" using concat_segments[of dat] n(1) by simp
    then have "length (concat ?new) = length dat" using n(4) by simp
    moreover have "block_ok sb (concat ?new)" using ok' block_ok_concat by blast
    moreover have "dir_entries sb dat = concat (map (live sb) (es1 @ [e])) @ concat (map (live sb) es2)" by (simp add: dir_entries_def n(1))
    moreover have "dir_entries sb (concat ?new) = concat (map (live sb) (es1 @ [e])) @ (name, snd ch) # concat (map (live sb) es2)"
      unfolding dir_entries_concat[OF ok'] using n(5) by simp
    ultimately show ?thesis using True r(1) n(2) by (simp only: if_True simp_thms) blast
  qed (use r in auto)
qed

theorem dir_insert_correct_witness:
  "if \<exists>e\<in>set (segments (concat dir_segs)). has_room sb_1k (length [98 :: byte, 99]) e
    then \<exists>dat' xs ys. insert_from sb_1k (unat (1024 :: u32)) (required_len (length [98 :: byte, 99])) (\<lambda>_. 0, 13) [98, 99] (concat dir_segs) 0 = Some (EOK, dat') \<and>
      block_ok sb_1k dat' \<and> length dat' = length (concat dir_segs) \<and> dir_entries sb_1k (concat dir_segs) = xs @ ys \<and>
      dir_entries sb_1k dat' = xs @ ([98, 99], snd (\<lambda>_ :: nat. 0 :: byte, 13)) # ys
    else insert_from sb_1k (unat (1024 :: u32)) (required_len (length [98 :: byte, 99])) (\<lambda>_. 0, 13) [98, 99] (concat dir_segs) 0 = Some (ENOSPC, concat dir_segs)"
  by (rule dir_insert_correct[OF dir_blk_ok(1) sb_1k_size(1) dir_blk_ok(2)]) simp_all

text \<open>C17. Removing the entry that the search found: the first entry with the name leaves the list of entries,
  all others stay, and the block stays well-formed.\<close>

theorem dir_remove_correct:
  assumes "block_ok sb dat" "ext4_sb_get_block_size sb = Some bs" "length dat = unat bs" "unat bs < 2 ^ 16"
    and "ext4_dir_find_in_block sb name dat = Some (EOK, Some de)"
  shows "\<exists>dat' xs ino ys. remove_at dat de = Some dat' \<and> block_ok sb dat' \<and> length dat' = length dat \<and>
    dir_entries sb dat = xs @ (name, ino) # ys \<and> name \<notin> fst ` set xs \<and> dir_entries sb dat' = xs @ ys"
proof -
  from find_in_block_ok[OF assms(1-3), of name] assms(5) obtain es1 e es2 where e: "segments dat = es1 @ e # es2" "de = length (concat es1)"
    "seg_name sb e = name" "seg_ino e \<noteq> 0" "map_of (concat (map (live sb) es1)) name = None"
    by (auto simp: ENOENT_def EOK_def split: option.splits)
  have ok: "\<forall>x\<in>set (es1 @ e # es2). seg_ok sb x" using assms(1) e(1) by (simp add: block_ok_def)
  have dat: "dat = concat (es1 @ e # es2)" using concat_segments[of dat] e(1) by simp
  from remove_at_ok[OF ok] assms(3,4) obtain es where r: "remove_at dat de = Some (concat es)" "\<forall>e\<in>set es. seg_ok sb e"
    "length (concat es) = length dat" "concat (map (live sb) es) = concat (map (live sb) (es1 @ es2))" unfolding dat[symmetric] e(2) by auto
  have "dir_entries sb dat = concat (map (live sb) es1) @ (name, seg_ino e) # concat (map (live sb) es2)"
    by (simp add: dir_entries_def e(1)) (simp add: live_def e(3,4))
  moreover have "dir_entries sb (concat es) = concat (map (live sb) es1) @ concat (map (live sb) es2)"
    unfolding dir_entries_concat[OF r(2)] r(4) by simp
  moreover have "block_ok sb (concat es)" using r(2) block_ok_concat by blast
  moreover have "name \<notin> fst ` set (concat (map (live sb) es1))" using e(5) unfolding map_of_eq_None_iff .
  ultimately show ?thesis using r(1,3) by blast
qed

lemma dir_blk_find: "ext4_dir_find_in_block sb_1k [46, 46] (concat dir_segs) = Some (EOK, Some 12)"
proof -
  have 1: "find_from sb_1k 1024 [46, 46] (concat dir_segs) 0 = find_from sb_1k 1024 [46, 46] (concat dir_segs) 12"
    by (subst find_from.simps) (simp add: dir_segs_def sb_1k_size en_defs rd32_def rd16_def rd8_def get32_def get16_def of_le32_def of_le16_def of_be16_def)
  have 2: "find_from sb_1k 1024 [46, 46] (concat dir_segs) 12 = Some (EOK, Some 12)"
    by (subst find_from.simps) (simp add: dir_segs_def sb_1k_size en_defs rd32_def rd16_def rd8_def get32_def get16_def of_le32_def of_le16_def of_be16_def)
  show ?thesis by (simp add: ext4_dir_find_in_block_def sb_1k_size 1 2)
qed

theorem dir_remove_correct_witness:
  "\<exists>dat' xs ino ys. remove_at (concat dir_segs) 12 = Some dat' \<and> block_ok sb_1k dat' \<and> length dat' = length (concat dir_segs) \<and>
    dir_entries sb_1k (concat dir_segs) = xs @ ([46, 46], ino) # ys \<and> [46, 46] \<notin> fst ` set xs \<and> dir_entries sb_1k dat' = xs @ ys"
  by (rule dir_remove_correct[OF dir_blk_ok(1) sb_1k_size(1) dir_blk_ok(2) _ dir_blk_find]) simp

end
