(* ===== verification/Ext4_Hash.thy ===== *)
theory Ext4_Hash
  imports Prelude
begin

text \<open>
  lwext4/src/ext4_hash.c: the directory index hashes (half MD4, TEA and the legacy hash). A
  name is a byte memory from an offset on; all arithmetic is on 32-bit words. The hash
  state is a quadruple, the data block a list of words.
\<close>

section \<open>Definitions\<close>

definition ENOTSUP :: int where "ENOTSUP = 95"

definition EXT2_HTREE_EOF :: u64 where "EXT2_HTREE_EOF = 0x7fffffff"

datatype htree_version =
    EXT2_HTREE_LEGACY | EXT2_HTREE_HALF_MD4 | EXT2_HTREE_TEA
  | EXT2_HTREE_LEGACY_UNSIGNED | EXT2_HTREE_HALF_MD4_UNSIGNED | EXT2_HTREE_TEA_UNSIGNED

definition version_of :: "int \<Rightarrow> htree_version option" where
  "version_of v =
     (if v = 0 then Some EXT2_HTREE_LEGACY else if v = 1 then Some EXT2_HTREE_HALF_MD4
      else if v = 2 then Some EXT2_HTREE_TEA else if v = 3 then Some EXT2_HTREE_LEGACY_UNSIGNED
      else if v = 4 then Some EXT2_HTREE_HALF_MD4_UNSIGNED else if v = 5 then Some EXT2_HTREE_TEA_UNSIGNED
      else None)"

type_synonym hash4 = "u32 \<times> u32 \<times> u32 \<times> u32"

definition md4_F :: "u32 \<Rightarrow> u32 \<Rightarrow> u32 \<Rightarrow> u32" where "md4_F x y z = (x AND y) OR (NOT x AND z)"
definition md4_G :: "u32 \<Rightarrow> u32 \<Rightarrow> u32 \<Rightarrow> u32" where "md4_G x y z = (x AND y) OR (x AND z) OR (y AND z)"
definition md4_H :: "u32 \<Rightarrow> u32 \<Rightarrow> u32 \<Rightarrow> u32" where "md4_H x y z = x XOR y XOR z"

definition ROTATE_LEFT :: "u32 \<Rightarrow> nat \<Rightarrow> u32" where
  "ROTATE_LEFT x n = push_bit n x OR drop_bit (32 - n) x"

definition FF :: "u32 \<Rightarrow> u32 \<Rightarrow> u32 \<Rightarrow> u32 \<Rightarrow> u32 \<Rightarrow> nat \<Rightarrow> u32" where
  "FF a b c d x s = ROTATE_LEFT (a + (md4_F b c d + x)) s"
definition GG :: "u32 \<Rightarrow> u32 \<Rightarrow> u32 \<Rightarrow> u32 \<Rightarrow> u32 \<Rightarrow> nat \<Rightarrow> u32" where
  "GG a b c d x s = ROTATE_LEFT (a + (md4_G b c d + x + 0x5a827999)) s"
definition HH :: "u32 \<Rightarrow> u32 \<Rightarrow> u32 \<Rightarrow> u32 \<Rightarrow> u32 \<Rightarrow> nat \<Rightarrow> u32" where
  "HH a b c d x s = ROTATE_LEFT (a + (md4_H b c d + x + 0x6ed9eba1)) s"

definition ext2_half_md4 :: "hash4 \<Rightarrow> u32 list \<Rightarrow> hash4" where
  "ext2_half_md4 h data =
     (let (h0, h1, h2, h3) = h; a = h0; b = h1; c = h2; d = h3;
        a = FF a b c d (data ! 0) 3;
        d = FF d a b c (data ! 1) 7;
        c = FF c d a b (data ! 2) 11;
        b = FF b c d a (data ! 3) 19;
        a = FF a b c d (data ! 4) 3;
        d = FF d a b c (data ! 5) 7;
        c = FF c d a b (data ! 6) 11;
        b = FF b c d a (data ! 7) 19;
        a = GG a b c d (data ! 1) 3;
        d = GG d a b c (data ! 3) 5;
        c = GG c d a b (data ! 5) 9;
        b = GG b c d a (data ! 7) 13;
        a = GG a b c d (data ! 0) 3;
        d = GG d a b c (data ! 2) 5;
        c = GG c d a b (data ! 4) 9;
        b = GG b c d a (data ! 6) 13;
        a = HH a b c d (data ! 3) 3;
        d = HH d a b c (data ! 7) 9;
        c = HH c d a b (data ! 2) 11;
        b = HH b c d a (data ! 6) 15;
        a = HH a b c d (data ! 1) 3;
        d = HH d a b c (data ! 5) 9;
        c = HH c d a b (data ! 0) 11;
        b = HH b c d a (data ! 4) 15
      in (h0 + a, h1 + b, h2 + c, h3 + d))"

fun tea_rounds :: "nat \<Rightarrow> u32 \<Rightarrow> u32 \<Rightarrow> u32 \<Rightarrow> u32 list \<Rightarrow> u32 \<times> u32" where
  "tea_rounds 0 i x y data = (x, y)"
| "tea_rounds (Suc n) i x y data =
     (let sum = i * 0x9e3779b9;
          x = x + ((push_bit 4 y + data ! 0) XOR (y + sum) XOR (drop_bit 5 y + data ! 1));
          y = y + ((push_bit 4 x + data ! 2) XOR (x + sum) XOR (drop_bit 5 x + data ! 3))
      in tea_rounds n (i + 1) x y data)"

definition ext2_tea :: "hash4 \<Rightarrow> u32 list \<Rightarrow> hash4" where
  "ext2_tea h data =
     (let (h0, h1, h2, h3) = h; (x, y) = tea_rounds 16 1 h0 h1 data in (h0 + x, h1 + y, h2, h3))"

text \<open>A character as an unsigned or a signed one, converted to 32 bits.\<close>

definition char_val :: "bool \<Rightarrow> byte \<Rightarrow> u32" where
  "char_val unsigned_char b = (if unsigned_char then ucast b else scast b)"

fun legacy_loop :: "bool \<Rightarrow> mem \<Rightarrow> nat \<Rightarrow> nat \<Rightarrow> u32 \<Rightarrow> u32 \<Rightarrow> u32" where
  "legacy_loop uc name p 0 h1 h2 = push_bit 1 h1"
| "legacy_loop uc name p (Suc n) h1 h2 =
     (let h0 = h2 + (h1 XOR (char_val uc (name p) * 0x6d22f5));
          h0 = (if h0 AND 0x80000000 \<noteq> 0 then h0 - 0x7fffffff else h0)
      in legacy_loop uc name (Suc p) n h0 h1)"

definition ext2_legacy_hash :: "mem \<Rightarrow> nat \<Rightarrow> int \<Rightarrow> bool \<Rightarrow> u32" where
  "ext2_legacy_hash name p len uc = legacy_loop uc name p (nat len) 0x12a3fe2d 0x37abe8f9"

text \<open>The loop of \<open>ext2_prep_hashbuf\<close> over \<open>k\<close> more characters from index \<open>i\<close> on: the value being
  assembled, the words stored so far and the room left.\<close>

fun prep_loop :: "mem \<Rightarrow> nat \<Rightarrow> bool \<Rightarrow> u32 \<Rightarrow> nat \<Rightarrow> nat \<Rightarrow> u32 \<Rightarrow> u32 list \<Rightarrow> int \<Rightarrow> u32 \<times> u32 list \<times> int" where
  "prep_loop src p uc padding i 0 buf_val dst dlen = (buf_val, dst, dlen)"
| "prep_loop src p uc padding i (Suc k) buf_val dst dlen =
     (let buf_val = (if i mod 4 = 0 then padding else buf_val);
          buf_val = push_bit 8 buf_val + char_val uc (src (p + i))
      in if i mod 4 = 3 then prep_loop src p uc padding (Suc i) k padding (dst @ [buf_val]) (dlen - 4)
         else prep_loop src p uc padding (Suc i) k buf_val dst dlen)"

function pad_loop :: "u32 \<Rightarrow> u32 list \<Rightarrow> int \<Rightarrow> u32 list" where
  "pad_loop padding dst dlen = (if dlen \<ge> 0 then pad_loop padding (dst @ [padding]) (dlen - 4) else dst)"
  by pat_completeness auto
termination
  by (relation "measure (\<lambda>(padding, dst, dlen). nat (dlen + 4))") auto

declare pad_loop.simps [simp del]

definition ext2_prep_hashbuf :: "mem \<Rightarrow> nat \<Rightarrow> u32 \<Rightarrow> int \<Rightarrow> bool \<Rightarrow> u32 list" where
  "ext2_prep_hashbuf src p slen dlen uc =
     (let padding = slen OR push_bit 8 slen OR push_bit 16 slen OR push_bit 24 slen;
          len = (if slen > word_of_int dlen then nat dlen else unat slen);
          (buf_val, dst, dlen) = prep_loop src p uc padding 0 len padding [] dlen;
          dlen = dlen - 4;
          dst = (if dlen \<ge> 0 then dst @ [buf_val] else dst)
      in pad_loop padding dst (dlen - 4))"

text \<open>The block loops of \<open>ext2_htree_hash\<close>: \<open>step\<close> bytes of the name at a time.\<close>

function hash_blocks :: "(hash4 \<Rightarrow> u32 list \<Rightarrow> hash4) \<Rightarrow> nat \<Rightarrow> bool \<Rightarrow> mem \<Rightarrow> nat \<Rightarrow> int \<Rightarrow> hash4 \<Rightarrow> hash4" where
  "hash_blocks f step uc name p len h =
     (if len > 0 \<and> step > 0 then
        hash_blocks f step uc name (p + step) (len - int step)
          (f h (ext2_prep_hashbuf name p (word_of_int len) (int step) uc))
      else h)"
  by pat_completeness auto
termination
  by (relation "measure (\<lambda>(f, step, uc, name, p, len, h). nat len)") auto

declare hash_blocks.simps [simp del]

text \<open>\<open>ext2_htree_hash\<close> on a non-null name: result, major and minor hash.\<close>

definition ext2_htree_hash :: "mem \<Rightarrow> int \<Rightarrow> hash4 option \<Rightarrow> int \<Rightarrow> int \<times> u32 \<times> u32" where
  "ext2_htree_hash name len hash_seed hash_version =
     (if len < 1 \<or> len > 255 then (ENOTSUP, 0, 0)
      else let h = (case hash_seed of None \<Rightarrow> (0x67452301, 0xefcdab89, 0x98badcfe, 0x10325476) | Some h \<Rightarrow> h);
               tea = (\<lambda>uc. let (h0, h1, h2, h3) = hash_blocks ext2_tea 16 uc name 0 len h in (h0, h1));
               md4 = (\<lambda>uc. let (h0, h1, h2, h3) = hash_blocks ext2_half_md4 32 uc name 0 len h in (h1, h2))
      in case (case version_of hash_version of
                 Some EXT2_HTREE_TEA_UNSIGNED \<Rightarrow> Some (tea True)
               | Some EXT2_HTREE_TEA \<Rightarrow> Some (tea False)
               | Some EXT2_HTREE_LEGACY_UNSIGNED \<Rightarrow> Some (ext2_legacy_hash name 0 len True, 0)
               | Some EXT2_HTREE_LEGACY \<Rightarrow> Some (ext2_legacy_hash name 0 len False, 0)
               | Some EXT2_HTREE_HALF_MD4_UNSIGNED \<Rightarrow> Some (md4 True)
               | Some EXT2_HTREE_HALF_MD4 \<Rightarrow> Some (md4 False)
               | None \<Rightarrow> None) of
           None \<Rightarrow> (ENOTSUP, 0, 0)
         | Some (major, minor) \<Rightarrow>
             (let major = major AND NOT 1;
                  major = (if ucast major = push_bit 1 EXT2_HTREE_EOF then ucast (push_bit 1 (EXT2_HTREE_EOF - 1))
                           else major)
              in (0, major, minor)))"

section \<open>The data block\<close>

lemma prep_loop_length:
  "prep_loop src p uc padding i k bv dst dlen = (bv', dst', dlen') \<Longrightarrow>
    length dst' = length dst + ((i mod 4 + k) div 4) \<and> dlen' = dlen - 4 * int ((i mod 4 + k) div 4)"
proof (induction k arbitrary: i bv dst dlen)
  case 0
  then show ?case by simp
next
  case (Suc k)
  show ?case
  proof (cases "i mod 4 = 3")
    case True
    then have "Suc i mod 4 = 0" by presburger
    moreover have "(i mod 4 + Suc k) div 4 = Suc (k div 4)" using True by simp
    moreover note Suc.IH[of "Suc i" padding "dst @ [push_bit 8 bv + char_val uc (src (p + i))]" "dlen - 4"]
    ultimately show ?thesis using Suc.prems True by (simp add: Let_def)
  next
    case False
    then have "Suc i mod 4 = Suc (i mod 4)" by presburger
    moreover note Suc.IH[of "Suc i" "push_bit 8 (if i mod 4 = 0 then padding else bv) + char_val uc (src (p + i))" dst dlen]
    ultimately show ?thesis using Suc.prems False by (simp add: Let_def)
  qed
qed

lemma pad_loop_length: "length (pad_loop padding dst dlen) = length dst + nat ((dlen + 4) div 4)"
proof (induction padding dst dlen rule: pad_loop.induct)
  case (1 padding dst dlen)
  show ?case
  proof (cases "dlen \<ge> 0")
    case True
    then have "nat ((dlen + 4) div 4) = Suc (nat (dlen div 4))" by simp
    with True 1 show ?thesis by (subst pad_loop.simps) simp
  next
    case False
    then have "(dlen + 4) div 4 \<le> 0" by simp
    with False show ?thesis by (subst pad_loop.simps) simp
  qed
qed

lemma prep_len:
  assumes "0 \<le> dlen" "dlen < 2 ^ 31"
  shows "(if (slen :: u32) > word_of_int dlen then nat dlen else unat slen) = min (nat dlen) (unat slen)"
proof -
  have "(word_of_int dlen :: u32) = of_nat (nat dlen)" using assms by simp
  then have "unat (word_of_int dlen :: u32) = nat dlen" using assms by (simp only: unat_of_nat) simp
  then show ?thesis by (auto simp: word_less_nat_alt)
qed

text \<open>\<open>ext2_prep_hashbuf\<close> stores exactly \<open>dlen / 4\<close> words, whatever the length of the name: it
  fills the 4 or 8 words the hash functions read and never writes past them.\<close>

theorem prep_hashbuf_length:
  assumes "dlen = 4 * n" "0 \<le> n" "dlen < 2 ^ 31"
  shows "length (ext2_prep_hashbuf src p slen dlen uc) = nat n"
proof -
  define len where "len = min (nat dlen) (unat slen)"
  have len: "(if slen > word_of_int dlen then nat dlen else unat slen) = len" "len \<le> nat dlen"
    using prep_len[of dlen slen] assms(2,3) unfolding assms(1)[symmetric] len_def by (simp_all add: assms(1))
  obtain bv dst d where p: "prep_loop src p uc (slen OR push_bit 8 slen OR push_bit 16 slen OR push_bit 24 slen)
      0 len (slen OR push_bit 8 slen OR push_bit 16 slen OR push_bit 24 slen) [] dlen = (bv, dst, d)"
    by (metis prod_cases3)
  from prep_loop_length[OF p] have "length dst = len div 4" "d = dlen - 4 * int (len div 4)" by simp_all
  moreover have "int (len div 4) \<le> n" using len(2) assms by linarith
  ultimately show ?thesis
    using assms unfolding ext2_prep_hashbuf_def Let_def len(1) p
    by (auto simp: pad_loop_length)
qed


section \<open>The result\<close>

lemma even_major:
  fixes major :: u32
  defines "m \<equiv> (if ucast (major AND NOT 1) = push_bit 1 EXT2_HTREE_EOF then ucast (push_bit 1 (EXT2_HTREE_EOF - 1))
     else major AND NOT 1)"
  shows "\<not> bit m 0" "m \<noteq> 0xfffffffe"
proof -
  have e: "push_bit 1 EXT2_HTREE_EOF = (0xfffffffe :: u64)" "(ucast (push_bit 1 (EXT2_HTREE_EOF - 1)) :: u32) = 0xfffffffc"
    by (simp_all add: EXT2_HTREE_EOF_def)
  show "\<not> bit m 0" unfolding m_def e by (auto simp: bit_simps)
  show "m \<noteq> 0xfffffffe" unfolding m_def e by auto
qed

text \<open>\<open>ext2_htree_hash\<close> accepts exactly the names of 1 to 255 bytes and the six known
  versions; then the major hash is even (its low bit marks continued blocks) and is never the
  end-of-directory value. Otherwise it returns \<open>ENOTSUP\<close> and clears both hashes.\<close>

theorem htree_hash_result:
  "case ext2_htree_hash name len seed v of (r, major, minor) \<Rightarrow>
     if 1 \<le> len \<and> len \<le> 255 \<and> v \<in> {0..5} then r = 0 \<and> \<not> bit major 0 \<and> major \<noteq> 0xfffffffe
     else r = ENOTSUP \<and> major = 0 \<and> minor = 0"
proof (cases "1 \<le> len \<and> len \<le> 255 \<and> v \<in> {0..5}")
  case False
  then have "len < 1 \<or> len > 255 \<or> version_of v = None" by (auto simp: version_of_def)
  with False show ?thesis by (auto simp: ext2_htree_hash_def Let_def)
next
  case True
  then have v: "v = 0 \<or> v = 1 \<or> v = 2 \<or> v = 3 \<or> v = 4 \<or> v = 5" by auto
  have "\<exists>major minor. ext2_htree_hash name len seed v =
      (0, if ucast (major AND NOT 1) = push_bit 1 EXT2_HTREE_EOF then ucast (push_bit 1 (EXT2_HTREE_EOF - 1))
          else major AND NOT 1, minor)"
    using v True unfolding ext2_htree_hash_def Let_def
    by (elim disjE) (auto simp: version_of_def split: prod.split)
  then show ?thesis using True even_major by (auto simp del: push_bit_numeral)
qed

section \<open>Signed and unsigned characters\<close>

lemma char_val_ascii: "b < 0x80 \<Longrightarrow> char_val uc b = ucast b"
proof -
  assume "b < 0x80"
  then have "unat b div 128 = 0" by (simp add: word_less_nat_alt)
  then have "\<not> bit (unat b) 7" by (simp add: bit_iff_odd)
  then have "\<not> bit b 7" by (simp add: bit_unsigned_iff)
  then have "bit b (min 7 n) = bit b n" for n
    by (cases "n < 7"; cases "n = 7") (auto simp: min_def)
  then have "(scast b :: u32) = ucast b"
    by (intro bit_word_eqI) (auto simp: bit_simps)
  then show ?thesis by (simp add: char_val_def)
qed

lemma legacy_loop_ascii:
  "\<forall>j<n. name (p + j) < 0x80 \<Longrightarrow> legacy_loop True name p n h1 h2 = legacy_loop False name p n h1 h2"
proof (induction n arbitrary: p h1 h2)
  case (Suc n)
  have "name p < 0x80" "\<forall>j<n. name (Suc p + j) < 0x80" using Suc.prems by (auto dest: spec[of _ "Suc _"] spec[of _ 0])
  with Suc.IH show ?case by (simp add: char_val_ascii Let_def)
qed simp

lemma prep_loop_ascii:
  "\<forall>j<i + k. src (p + j) < 0x80 \<Longrightarrow>
    prep_loop src p True padding i k bv dst dlen = prep_loop src p False padding i k bv dst dlen"
  by (induction k arbitrary: i bv dst dlen) (simp_all add: char_val_ascii Let_def)

lemma prep_hashbuf_ascii:
  assumes "\<forall>j<unat slen. src (p + j) < 0x80" "0 \<le> dlen" "dlen < 2 ^ 31"
  shows "ext2_prep_hashbuf src p slen dlen True = ext2_prep_hashbuf src p slen dlen False"
  unfolding ext2_prep_hashbuf_def prep_len[OF assms(2,3)] Let_def
  using prep_loop_ascii[of 0 "min (nat dlen) (unat slen)" src p] assms(1) by simp

lemma hash_blocks_ascii:
  assumes "\<forall>j<nat len. name (p + j) < 0x80" "len < 2 ^ 31" "step < 2 ^ 31"
  shows "hash_blocks f step True name p len h = hash_blocks f step False name p len h"
  using assms
proof (induction f step True name p len h rule: hash_blocks.induct)
  case (1 f step name p len h)
  show ?case
  proof (cases "len > 0 \<and> step > 0")
    case True
    have "(word_of_int len :: u32) = of_nat (nat len)" using True by simp
    then have "unat (word_of_int len :: u32) = nat len" using True 1(3) by (simp only: unat_of_nat) simp
    then have "ext2_prep_hashbuf name p (word_of_int len) (int step) True =
        ext2_prep_hashbuf name p (word_of_int len) (int step) False"
      using 1(2,4) by (intro prep_hashbuf_ascii) simp_all
    moreover have "\<forall>j<nat (len - int step). name (p + step + j) < 0x80"
    proof (intro allI impI)
      fix j assume "j < nat (len - int step)"
      then have "step + j < nat len" by linarith
      then show "name (p + step + j) < 0x80" using 1(2) by (metis add.assoc)
    qed
    ultimately show ?thesis
      using 1 True by (subst (1 2) hash_blocks.simps) simp
  qed (subst (1 2) hash_blocks.simps, simp only: if_False)
qed

text \<open>On names of 7-bit characters the signed and the unsigned version of each hash agree,
  so file systems written on hosts of either kind are read alike.\<close>

theorem htree_hash_ascii:
  assumes "\<forall>j<nat len. name j < 0x80" "v \<in> {0, 1, 2}"
  shows "ext2_htree_hash name len seed (v + 3) = ext2_htree_hash name len seed v"
proof (cases "len < 1 \<or> len > 255")
  case False
  then have "hash_blocks f step True name 0 len h = hash_blocks f step False name 0 len h" if "step < 2 ^ 31" for f step h
    using assms(1) that by (intro hash_blocks_ascii) auto
  moreover have "ext2_legacy_hash name 0 len True = ext2_legacy_hash name 0 len False"
    using assms(1) by (simp add: ext2_legacy_hash_def legacy_loop_ascii)
  ultimately show ?thesis
    using assms(2) by (auto simp: ext2_htree_hash_def version_of_def Let_def)
qed (simp add: ext2_htree_hash_def)

theorem htree_hash_ascii_witness:
  "ext2_htree_hash (\<lambda>i. if i < 3 then 0x61 else 0xff) 3 None (2 + 3) = ext2_htree_hash (\<lambda>i. if i < 3 then 0x61 else 0xff) 3 None 2"
  by (rule htree_hash_ascii) simp_all

end
