(* ===== verification/Ext4_Map.thy ===== *)
theory Ext4_Map
  imports Ext4_Extent
begin

text \<open>
  From blocks of a file to blocks of the disk: \<open>ext4_fs_get_inode_dblk_idx\<close> of lwext4/src/ext4_fs.c,
  for files mapped by extents and for files mapped by direct and indirect block pointers. The
  reference for the second kind is the list of all blocks of the file, the leaves of the pointer trees
  from left to right.
\<close>

section \<open>Definitions\<close>

text \<open>The loop over the levels of indirection, with the number of levels that are left.\<close>

fun indirect_walk ::
  "'s bdif \<Rightarrow> malloc \<Rightarrow> nat \<Rightarrow> u64 \<Rightarrow> u32 \<Rightarrow> u32 \<Rightarrow> 's fs \<Rightarrow> (int \<times> u64 \<times> 's fs) option" where
  "indirect_walk ops mal 0 current_block blk_off_in_lvl off_in_blk fs = Some (EOK, current_block, fs)"
| "indirect_walk ops mal (Suc l) current_block blk_off_in_lvl off_in_blk fs = do {
     (r, block, cd) \<leftarrow> ext4_trans_block_get ops mal no_block current_block (fs_bdev fs);
     let fs = fs\<lparr>fs_bdev := cd\<rparr>;
     if r \<noteq> EOK then Some (r, 0, fs)
     else do {
       dat \<leftarrow> blk_data block cd;
       v \<leftarrow> rd32 dat (4 * unat off_in_blk);
       (r, fs) \<leftarrow> fs_block_set ops block fs;
       if r \<noteq> EOK then Some (r, 0, fs)
       else if v = 0 then Some (EOK, 0, fs)
       else if l = 0 then Some (EOK, ucast v, fs)
       else if inode_blocks_per_level fs ! l = 0 \<or> inode_blocks_per_level fs ! (l - 1) = 0 then None
       else
         let blk_off_in_lvl = ucast (ucast blk_off_in_lvl mod (inode_blocks_per_level fs ! l));
             off_in_blk = ucast (ucast blk_off_in_lvl div (inode_blocks_per_level fs ! (l - 1))) in
         indirect_walk ops mal l (ucast v) blk_off_in_lvl off_in_blk fs } }"

definition level_of :: "u64 list \<Rightarrow> u32 \<Rightarrow> nat" where
  "level_of lims iblock =
     (if ucast iblock < lims ! 1 then 1 else if ucast iblock < lims ! 2 then 2 else if ucast iblock < lims ! 3 then 3 else 0)"

text \<open>The results are the error and the value stored through \<open>fblock\<close>. No block is created.\<close>

definition ext4_fs_get_inode_dblk_idx ::
  "'s bdif \<Rightarrow> malloc \<Rightarrow> (u16 \<Rightarrow> bool) \<Rightarrow> inode_ref \<Rightarrow> u32 \<Rightarrow> bool \<Rightarrow> 's fs \<Rightarrow> (int \<times> u64 \<times> 's fs) option" where
  "ext4_fs_get_inode_dblk_idx ops mal cal ref iblock support_unwritten fs = do {
     inode \<leftarrow> get_inode ref fs;
     if ext4_inode_get_size (fs_sb fs) inode = 0 then Some (EOK, 0, fs)
     else if ext4_sb_feature_incom (fs_sb fs) EXT4_FINCOM_EXTENTS \<and> ext4_inode_has_flag inode EXT4_INODE_FLAG_EXTENTS then do {
       (r, fblock, _, fs) \<leftarrow> ext4_extent_get_blocks ops mal cal ref iblock 1 fs;
       if r \<noteq> EOK then Some (r, 0, fs)
       else if fblock \<noteq> 0 \<or> support_unwritten then Some (EOK, fblock, fs)
       else None }
     else if iblock < EXT4_INODE_DIRECT_BLOCK_COUNT then do {
       b \<leftarrow> ext4_inode_get_direct_block inode iblock;
       Some (EOK, ucast b, fs) }
     else
       let l = level_of (inode_block_limits fs) iblock in
       if l = 0 then Some (EIO, 0, fs)
       else do {
         let blk_off_in_lvl = ucast (ucast iblock - inode_block_limits fs ! (l - 1));
         current_block \<leftarrow> ext4_inode_get_indirect_block inode (of_nat (l - 1));
         if inode_blocks_per_level fs ! (l - 1) = 0 then None
         else
           let off_in_blk = ucast (ucast blk_off_in_lvl div inode_blocks_per_level fs ! (l - 1)) in
           if current_block = 0 then Some (EOK, 0, fs)
           else indirect_walk ops mal l (ucast current_block) blk_off_in_lvl off_in_blk fs } }"

section \<open>The reference\<close>

definition ptr :: "byte list \<Rightarrow> nat \<Rightarrow> u64" where
  "ptr dat i = ucast (get32 ((!) dat) (4 * i))"

text \<open>The leaves below a block at a level of indirection, with \<open>m\<close> pointers to a block; a missing
  block stands for a hole.\<close>

fun leaves :: "(u64 \<Rightarrow> byte list) \<Rightarrow> nat \<Rightarrow> nat \<Rightarrow> u64 \<Rightarrow> u64 list" where
  "leaves D m 0 b = [b]"
| "leaves D m (Suc l) b =
     (if b = 0 then replicate (m ^ Suc l) 0 else concat (map (\<lambda>i. leaves D m l (ptr (D b) i)) [0..<m]))"

fun pointers_ok :: "u64 \<Rightarrow> (u64 \<Rightarrow> byte list) \<Rightarrow> nat \<Rightarrow> nat \<Rightarrow> u64 \<Rightarrow> bool" where
  "pointers_ok N D m 0 b \<longleftrightarrow> True"
| "pointers_ok N D m (Suc l) b \<longleftrightarrow> b = 0 \<or> b < N \<and> (\<forall>i<m. pointers_ok N D m l (ptr (D b) i))"

definition file_blocks :: "(u64 \<Rightarrow> byte list) \<Rightarrow> nat \<Rightarrow> mem \<Rightarrow> u64 list" where
  "file_blocks D m inode = map (\<lambda>i. ptr (mem_get inode 40 60) i) [0..<12] @
     leaves D m 1 (ptr (mem_get inode 40 60) 12) @ leaves D m 2 (ptr (mem_get inode 40 60) 13) @
     leaves D m 3 (ptr (mem_get inode 40 60) 14)"

lemma concat_uniform_nth:
  assumes "\<And>i. i < n \<Longrightarrow> length (f i) = c" "x < n * c"
  shows "concat (map f [0..<n]) ! x = f (x div c) ! (x mod c)"
  using assms
proof (induction n arbitrary: x)
  case (Suc n)
  have "map (\<lambda>i. length (f i)) [0..<n] = map (\<lambda>_. c) [0..<n]" using Suc.prems(1) by simp
  then have len: "length (concat (map f [0..<n])) = n * c"
    by (simp only: length_concat map_map comp_def) (simp add: sum_list_triv)
  show ?case
  proof (cases "x < n * c")
    case True
    then show ?thesis using Suc len by (simp add: nth_append)
  next
    case False
    then have "x - n * c < c" using Suc.prems(2) by auto
    moreover obtain r where "x = r + n * c" using False by (metis add.commute le_iff_add not_less)
    ultimately have "x div c = n" "x mod c = x - n * c" by simp_all
    then show ?thesis using False len by (simp add: nth_append)
  qed
qed simp

lemma length_leaves [simp]: "length (leaves D m l b) = m ^ l"
  by (induction l arbitrary: b) (simp_all add: length_concat comp_def sum_list_triv)

lemma leaves_0: "x < m ^ l \<Longrightarrow> leaves D m l 0 ! x = 0"
  by (cases l) simp_all

lemma leaves_Suc_nth:
  assumes "b \<noteq> 0" "x < m ^ Suc l"
  shows "leaves D m (Suc l) b ! x = leaves D m l (ptr (D b) (x div m ^ l)) ! (x mod m ^ l)"
  using assms concat_uniform_nth[of m "\<lambda>i. leaves D m l (ptr (D b) i)" "m ^ l" x] by simp

section \<open>The walk on the disk\<close>

text \<open>The level table of a mounted file system with \<open>m\<close> pointers to a block.\<close>

definition levels_ok :: "nat \<Rightarrow> 's fs \<Rightarrow> bool" where
  "levels_ok m fs \<longleftrightarrow> 0 < m \<and> m \<le> 16384 \<and>
     inode_blocks_per_level fs = map (\<lambda>i. of_nat (m ^ i)) [0..<4] \<and>
     inode_block_limits fs = map of_nat [12, 12 + m, 12 + m + m ^ 2, 12 + m + m ^ 2 + m ^ 3]"

lemma level_limits_ok:
  "level_limits (of_nat m) 3 12 1 =
     (map of_nat [12, 12 + m, 12 + m + m ^ 2, 12 + m + m ^ 2 + m ^ 3], map (\<lambda>i. of_nat (m ^ i)) [0..<4])"
  by (simp add: numeral_3_eq_3 upt_rec power2_eq_square power3_eq_cube add.assoc mult.assoc)

lemma power_bound:
  fixes m :: nat
  assumes "m \<le> 16384" "i \<le> 3"
  shows "m ^ i \<le> 2 ^ 42"
proof -
  have "m ^ i \<le> 16384 ^ i" using assms(1) by (rule power_mono) simp
  also have "\<dots> \<le> 16384 ^ 3" using assms(2) by (rule power_increasing) simp
  finally show ?thesis by simp
qed

lemma per_level:
  assumes "levels_ok m fs" "i \<le> 3"
  shows "unat (inode_blocks_per_level fs ! i) = m ^ i" "inode_blocks_per_level fs ! i \<noteq> 0"
proof -
  have "m ^ i < 2 ^ 64" using power_bound[of m i] assms by (simp add: levels_ok_def)
  then show 1: "unat (inode_blocks_per_level fs ! i) = m ^ i"
    using assms by (simp add: levels_ok_def unat_of_nat del: of_nat_power)
  have "0 < m ^ i" using assms(1) by (simp add: levels_ok_def)
  with 1 show "inode_blocks_per_level fs ! i \<noteq> 0" by (metis less_not_refl unat_0)
qed

lemma limit_levels:
  assumes "levels_ok m fs"
  shows "unat (inode_block_limits fs ! 0) = 12" "unat (inode_block_limits fs ! 1) = 12 + m"
    "unat (inode_block_limits fs ! 2) = 12 + m + m ^ 2" "unat (inode_block_limits fs ! 3) = 12 + m + m ^ 2 + m ^ 3"
proof -
  have "m \<le> 2 ^ 42" "m ^ 2 \<le> 2 ^ 42" "m ^ 3 \<le> 2 ^ 42" using power_bound[of m] assms by (simp_all add: levels_ok_def)
  then have "12 + m < 2 ^ 64" "12 + m + m ^ 2 < 2 ^ 64" "12 + m + m ^ 2 + m ^ 3 < 2 ^ 64" by simp_all
  then show "unat (inode_block_limits fs ! 0) = 12" "unat (inode_block_limits fs ! 1) = 12 + m"
    "unat (inode_block_limits fs ! 2) = 12 + m + m ^ 2" "unat (inode_block_limits fs ! 3) = 12 + m + m ^ 2 + m ^ 3"
    using assms by (simp_all add: levels_ok_def unat_of_nat del: of_nat_add of_nat_power)
qed

text \<open>Division and remainder in 64 bits, stored in 32.\<close>

lemma unat_div_32: "unat (ucast (ucast (x :: u32) div (y :: u64)) :: u32) = unat x div unat y"
  by (simp add: unat_ucast_mod unat_div order_le_less_trans[OF div_le_dividend] unat_less[of x, simplified])

lemma unat_mod_32: "unat (ucast (ucast (x :: u32) mod (y :: u64)) :: u32) = unat x mod unat y"
  by (simp add: unat_ucast_mod unat_mod order_le_less_trans[OF mod_less_eq_dividend] unat_less[of x, simplified])

text \<open>One level of the walk, with the pointer that was read.\<close>

definition indirect_next :: "'s bdif \<Rightarrow> malloc \<Rightarrow> nat \<Rightarrow> u64 \<Rightarrow> u32 \<Rightarrow> 's fs \<Rightarrow> (int \<times> u64 \<times> 's fs) option" where
  "indirect_next ops mal l v o1 fs =
     (if v = 0 then Some (EOK, 0, fs) else if l = 0 then Some (EOK, v, fs)
      else let o1 = ucast (ucast o1 mod (inode_blocks_per_level fs ! l)) in
        indirect_walk ops mal l v o1 (ucast (ucast o1 div (inode_blocks_per_level fs ! (l - 1)))) fs)"

lemma ptr_0: "(ucast (v :: u32) :: u64) = 0 \<longleftrightarrow> v = 0"
  by (simp add: word_unat_eq_iff unat_ucast_mod order_less_trans[OF unat_less])

context logical_source
begin

lemma indirect_step:
  assumes "on_disk good blk N n k D R fs" "mal_ok n mal" "levels_ok m fs" "4 * m \<le> n" "b < N" "b \<noteq> 0" "l < 3"
    and "unat o2 < m" "length (D b) = n" "k + 2 < 2 ^ 32"
  shows "\<exists>cd. indirect_walk ops mal (Suc l) b o1 o2 fs = indirect_next ops mal l (ptr (D b) (unat o2)) o1 (fs\<lparr>fs_bdev := cd\<rparr>) \<and>
    on_disk good blk N n (k + 2) D R (fs\<lparr>fs_bdev := cd\<rparr>)"
proof -
  from trans_get_ok[OF assms(1,2,5,6,10), of no_block] obtain cd where cd:
    "ext4_trans_block_get ops mal no_block b (fs_bdev fs) = Some (EOK, handle b, cd)"
    "on_disk good blk N n (k + 1) D (R(b := R b + 1)) (fs\<lparr>fs_bdev := cd\<rparr>)" "blk_data (handle b) cd = Some (D b)" by blast
  obtain cd' where cd': "fs_block_set ops (handle b) (fs\<lparr>fs_bdev := cd\<rparr>) = Some (EOK, fs\<lparr>fs_bdev := cd'\<rparr>)"
    "on_disk good blk N n (k + 2) D R (fs\<lparr>fs_bdev := cd'\<rparr>)"
    using block_set_ok[OF cd(2), of b] by auto
  have "rd32 (D b) (4 * unat o2) = Some (get32 ((!) (D b)) (4 * unat o2))"
    using assms(4,8,9) by (simp add: rd32_def)
  moreover have "l \<noteq> 0 \<Longrightarrow> inode_blocks_per_level fs ! l \<noteq> 0 \<and> inode_blocks_per_level fs ! (l - 1) \<noteq> 0"
    using per_level(2)[OF assms(3)] assms(7) by simp
  ultimately have "indirect_walk ops mal (Suc l) b o1 o2 fs = indirect_next ops mal l (ptr (D b) (unat o2)) o1 (fs\<lparr>fs_bdev := cd'\<rparr>)"
    using cd(1,3) cd'(1) by (simp add: indirect_next_def ptr_def ptr_0 Let_def)
  with cd'(2) show ?thesis by blast
qed

lemma indirect_walk_ok:
  assumes "on_disk good blk N n k D R fs" "mal_ok n mal" "levels_ok m fs" "4 * m \<le> n"
    and "pointers_ok N D m (Suc l) b" "b \<noteq> 0" "l < 3"
    and "unat o1 < m ^ Suc l" "unat o2 = unat o1 div m ^ l" "\<And>x. x < N \<Longrightarrow> length (D x) = n" "k + 2 * l + 4 < 2 ^ 32"
  shows "\<exists>cd. indirect_walk ops mal (Suc l) b o1 o2 fs = Some (EOK, leaves D m (Suc l) b ! unat o1, fs\<lparr>fs_bdev := cd\<rparr>) \<and>
    on_disk good blk N n (k + 2 * l + 2) D R (fs\<lparr>fs_bdev := cd\<rparr>)"
  using assms(1,3,5-9,11)
proof (induction l arbitrary: k fs b o1 o2)
  case (0 k fs b o1 o2)
  then have o2: "unat o2 < m" "unat o2 = unat o1" by simp_all
  have "b < N" using 0 by simp
  then obtain cd where "indirect_walk ops mal (Suc 0) b o1 o2 fs = indirect_next ops mal 0 (ptr (D b) (unat o2)) o1 (fs\<lparr>fs_bdev := cd\<rparr>)"
    "on_disk good blk N n (k + 2) D R (fs\<lparr>fs_bdev := cd\<rparr>)"
    using indirect_step[OF 0(1) assms(2) 0(2) assms(4) _ 0(4), of 0 o2 o1] o2 assms(10) 0(8) by auto
  moreover have "leaves D m (Suc 0) b ! unat o1 = ptr (D b) (unat o2)"
    using leaves_Suc_nth[OF 0(4), of "unat o1" m 0 D] 0(6) o2 by simp
  ultimately show ?case by (intro exI[of _ cd]) (simp add: indirect_next_def del: leaves.simps indirect_walk.simps)
next
  case (Suc l k fs b o1 o2)
  let ?v = "ptr (D b) (unat o2)" and ?x = "unat o1"
  have b: "b < N" "\<forall>i<m. pointers_ok N D m (Suc l) (ptr (D b) i)" using Suc.prems(3,4) by auto
  have m: "0 < m" using Suc.prems(2) by (simp add: levels_ok_def)
  have o2: "unat o2 < m" using Suc.prems(6,7) m by (simp add: less_mult_imp_div_less mult.commute)
  have k1: "k + 2 < 2 ^ 32" using Suc.prems(8) by simp
  from indirect_step[OF Suc.prems(1) assms(2) Suc.prems(2) assms(4) b(1) Suc.prems(4,5) o2 assms(10)[OF b(1)] k1, of o1]
  obtain cd where cd: "indirect_walk ops mal (Suc (Suc l)) b o1 o2 fs = indirect_next ops mal (Suc l) ?v o1 (fs\<lparr>fs_bdev := cd\<rparr>)"
    "on_disk good blk N n (k + 2) D R (fs\<lparr>fs_bdev := cd\<rparr>)" by blast
  have leaf: "leaves D m (Suc (Suc l)) b ! ?x = leaves D m (Suc l) ?v ! (?x mod m ^ Suc l)"
    using leaves_Suc_nth[OF Suc.prems(4,6), of D] Suc.prems(7) by simp
  have x: "?x mod m ^ Suc l < m ^ Suc l" using m by simp
  show ?case
  proof (cases "?v = 0")
    case True
    then have "leaves D m (Suc (Suc l)) b ! ?x = 0" unfolding leaf using leaves_0[OF x] by simp
    with True cd show ?thesis
      by (intro exI[of _ cd]) (simp add: indirect_next_def on_disk_mono del: leaves.simps indirect_walk.simps)
  next
    case False
    let ?o1 = "ucast (ucast o1 mod (inode_blocks_per_level fs ! Suc l)) :: u32"
    let ?o2 = "ucast (ucast ?o1 div (inode_blocks_per_level fs ! l)) :: u32"
    have o: "unat ?o1 = ?x mod m ^ Suc l" "unat ?o2 = unat ?o1 div m ^ l"
      using per_level(1)[OF Suc.prems(2)] Suc.prems(5) by (simp_all only: unat_mod_32 unat_div_32 less_imp_le)
    have "\<exists>cd'. indirect_walk ops mal (Suc l) ?v ?o1 ?o2 (fs\<lparr>fs_bdev := cd\<rparr>) =
        Some (EOK, leaves D m (Suc l) ?v ! unat ?o1, fs\<lparr>fs_bdev := cd\<rparr>\<lparr>fs_bdev := cd'\<rparr>) \<and>
      on_disk good blk N n (k + 2 + 2 * l + 2) D R (fs\<lparr>fs_bdev := cd\<rparr>\<lparr>fs_bdev := cd'\<rparr>)"
    proof (rule Suc.IH[OF cd(2)])
      show "levels_ok m (fs\<lparr>fs_bdev := cd\<rparr>)" using Suc.prems(2) by (simp add: levels_ok_def)
      show "pointers_ok N D m (Suc l) ?v" using b(2) o2 by simp
      show "unat ?o1 < m ^ Suc l" using o(1) x by simp
    qed (use Suc.prems False o in simp_all)
    then show ?thesis using cd(1) False leaf o(1)
      by (auto simp: indirect_next_def Let_def simp del: leaves.simps indirect_walk.simps)
  qed
qed

end

text \<open>The block of the disk that holds a block of a file, 0 for a hole.\<close>

definition uses_extents :: "mem \<Rightarrow> mem \<Rightarrow> bool" where
  "uses_extents sb inode \<longleftrightarrow> ext4_sb_feature_incom sb EXT4_FINCOM_EXTENTS \<and> ext4_inode_has_flag inode EXT4_INODE_FLAG_EXTENTS"

definition file_block :: "mem \<Rightarrow> (u64 \<Rightarrow> byte list) \<Rightarrow> nat \<Rightarrow> mem \<Rightarrow> u32 \<Rightarrow> u64" where
  "file_block sb D m inode b =
     (if ext4_inode_get_size sb inode = 0 then 0
      else if uses_extents sb inode then ext_block D (unat (root_depth inode)) (root_node inode) b
      else file_blocks D m inode ! unat b)"

definition map_ok :: "mem \<Rightarrow> u64 \<Rightarrow> (u64 \<Rightarrow> byte list) \<Rightarrow> nat \<Rightarrow> mem \<Rightarrow> bool" where
  "map_ok sb N D m inode \<longleftrightarrow>
     (if uses_extents sb inode then extents_ok sb N D inode
      else \<forall>i<3. pointers_ok N D m (i + 1) (ptr (mem_get inode 40 60) (12 + i)))"

lemma ptr_inode: "i < 15 \<Longrightarrow> ptr (mem_get inode 40 60) i = ucast (get32 inode (40 + 4 * i))"
  by (simp add: ptr_def get32_def add.assoc)

lemma file_blocks_direct: "x < 12 \<Longrightarrow> file_blocks D m inode ! x = ucast (get32 inode (40 + 4 * x))"
  by (simp add: file_blocks_def nth_append ptr_inode)

text \<open>Where the leaves of a level begin.\<close>

definition level_base :: "nat \<Rightarrow> nat \<Rightarrow> nat" where
  "level_base m l = 12 + (\<Sum>i<l. m ^ (i + 1))"

lemma level_base_simps: "level_base m 0 = 12" "level_base m 1 = 12 + m" "level_base m (Suc 0) = 12 + m" "level_base m 2 = 12 + m + m ^ 2"
  "level_base m 3 = 12 + m + m ^ 2 + m ^ 3"
  by (simp_all add: level_base_def numeral_2_eq_2 numeral_3_eq_3)

lemma file_blocks_indirect:
  assumes "l < 3" "level_base m l \<le> x" "x < level_base m (l + 1)"
  shows "file_blocks D m inode ! x = leaves D m (l + 1) (ptr (mem_get inode 40 60) (12 + l)) ! (x - level_base m l)"
proof -
  from assms(1) consider "l = 0" | "l = 1" | "l = 2" by linarith
  then show ?thesis
  proof cases
    case 1
    with assms(2,3) have "12 \<le> x" "x < 12 + m" by (simp_all add: level_base_simps)
    then have "12 \<le> x" "x - 12 < m" by simp_all
    then show ?thesis using 1 by (simp add: file_blocks_def nth_append level_base_simps del: leaves.simps)
  next
    case 2
    with assms(2,3) have "12 + m \<le> x" "x < 12 + m + m ^ 2" by (simp_all add: level_base_simps numeral_2_eq_2[symmetric])
    then obtain y where "x = 12 + m + y" "y < m ^ 2" by (metis add_less_cancel_left le_Suc_ex)
    then show ?thesis using 2 by (simp add: file_blocks_def nth_append level_base_simps numeral_2_eq_2[symmetric] del: leaves.simps One_nat_def)
  next
    case 3
    with assms(2,3) have "12 + m + m ^ 2 \<le> x" "x < 12 + m + m ^ 2 + m ^ 3"
      by (simp_all add: level_base_simps numeral_3_eq_3[symmetric])
    then obtain y where "x = 12 + m + m ^ 2 + y" by (metis le_Suc_ex)
    then show ?thesis using 3
      by (simp add: file_blocks_def nth_append level_base_simps numeral_3_eq_3[symmetric] algebra_simps del: leaves.simps)
  qed
qed

lemma level_of_ok:
  assumes "levels_ok m fs" "12 \<le> unat b" "unat b < level_base m 3"
  shows "\<exists>l<3. level_of (inode_block_limits fs) b = l + 1 \<and> level_base m l \<le> unat b \<and> unat b < level_base m (l + 1) \<and>
    unat (inode_block_limits fs ! l) = level_base m l"
proof -
  note lim = limit_levels[OF assms(1)]
  have lt: "ucast b < inode_block_limits fs ! i \<longleftrightarrow> unat b < unat (inode_block_limits fs ! i)" for i
    by (simp add: word_less_nat_alt unat_ucast_mod order_less_trans[OF unat_less])
  consider "unat b < 12 + m" | "12 + m \<le> unat b" "unat b < 12 + m + m ^ 2" | "12 + m + m ^ 2 \<le> unat b" by linarith
  then show ?thesis
  proof cases
    case 1
    then show ?thesis using assms(2) lim by (intro exI[of _ 0]) (simp add: level_of_def lt level_base_simps)
  next
    case 2
    then show ?thesis using lim
      by (intro exI[of _ 1]) (simp add: level_of_def lt level_base_simps numeral_2_eq_2[symmetric])
  next
    case 3
    then show ?thesis using lim assms(3)
      by (intro exI[of _ 2]) (simp add: level_of_def lt level_base_simps numeral_3_eq_3[symmetric])
  qed
qed

context logical_source
begin

lemma dblk_indirect_ok:
  assumes on: "on_disk good blk N n k D R fs" "mal_ok n mal" and inode: "inode_ok (fs_sb fs) N D index" "0 < R (inode_block (fs_sb fs) D index)"
    and map: "map_ok (fs_sb fs) N D m (inode_at (fs_sb fs) D index)" "\<not> uses_extents (fs_sb fs) (inode_at (fs_sb fs) D index)"
    and lev: "levels_ok m fs" "4 * m \<le> n" "\<And>x. x < N \<Longrightarrow> length (D x) = n" and b: "12 \<le> unat b" "unat b < level_base m 3"
    and size: "ext4_inode_get_size (fs_sb fs) (inode_at (fs_sb fs) D index) \<noteq> 0" and k: "k + 10 < 2 ^ 32"
  shows "\<exists>cd. ext4_fs_get_inode_dblk_idx ops mal cal (the_ref (fs_sb fs) D index) b unw fs =
      Some (EOK, file_blocks D m (inode_at (fs_sb fs) D index) ! unat b, fs\<lparr>fs_bdev := cd\<rparr>) \<and>
    on_disk good blk N n (k + 6) D R (fs\<lparr>fs_bdev := cd\<rparr>)"
proof -
  let ?inode = "inode_at (fs_sb fs) D index" and ?ref = "the_ref (fs_sb fs) D index"
  obtain l where l: "l < 3" "level_of (inode_block_limits fs) b = l + 1" "level_base m l \<le> unat b" "unat b < level_base m (l + 1)"
    "unat (inode_block_limits fs ! l) = level_base m l" using level_of_ok[OF lev(1) b] by blast
  let ?c = "get32 ?inode (40 + 4 * (12 + l))" and ?o1 = "ucast (ucast b - inode_block_limits fs ! l) :: u32"
  let ?o2 = "ucast (ucast ?o1 div inode_blocks_per_level fs ! l) :: u32"
  have ub: "unat (ucast b :: u64) = unat b" by (simp add: unat_ucast_mod order_less_trans[OF unat_less])
  have "inode_block_limits fs ! l \<le> ucast b" using l(3,5) by (simp add: word_le_nat_alt ub)
  then have "unat (ucast b - inode_block_limits fs ! l) = unat b - level_base m l" using l(5) by (simp add: unat_sub ub)
  moreover have "unat b - level_base m l < 2 ^ 32" using unat_less[of b] by simp
  ultimately have o1: "unat ?o1 = unat b - level_base m l" by (simp add: unat_ucast_mod)
  have o2: "unat ?o2 = unat ?o1 div m ^ l" using per_level(1)[OF lev(1), of l] l(1) by (simp only: unat_div_32)
  have lt: "unat ?o1 < m ^ Suc l" unfolding o1 using l(3,4) by (simp add: level_base_def)
  have ptr: "ptr (mem_get ?inode 40 60) (12 + l) = ucast ?c" using l(1) ptr_inode[of "12 + l" ?inode] by simp
  have ind: "ext4_inode_get_indirect_block ?inode (of_nat l) = Some ?c"
  proof -
    have u: "unat (of_nat l + 12 :: u32) = 12 + l" using l(1) by (auto simp: numeral_3_eq_3 less_Suc_eq)
    then have "(of_nat l + 12 :: u32) < 15" using l(1) by (simp add: word_less_nat_alt)
    then show ?thesis by (simp add: ext4_inode_get_indirect_block_def ext4_inode_get_direct_block_def EXT4_INODE_BLOCKS_def u)
  qed
  have target: "file_blocks D m ?inode ! unat b = leaves D m (Suc l) (ucast ?c) ! unat ?o1"
    using file_blocks_indirect[OF l(1,3,4), of D ?inode] by (simp only: ptr o1) simp
  have nd: "\<not> b < EXT4_INODE_DIRECT_BLOCK_COUNT" using b(1) by (simp add: EXT4_INODE_DIRECT_BLOCK_COUNT_def word_less_nat_alt)
  have eq: "ext4_fs_get_inode_dblk_idx ops mal cal ?ref b unw fs =
    (if ?c = 0 then Some (EOK, 0, fs) else indirect_walk ops mal (Suc l) (ucast ?c) ?o1 ?o2 fs)"
    using get_inode_held[OF on(1) inode(2,1)] size map(2) nd l(2) ind per_level(2)[OF lev(1), of l] l(1)
    by (simp add: ext4_fs_get_inode_dblk_idx_def uses_extents_def[symmetric] Let_def del: indirect_walk.simps)
  show ?thesis
  proof (cases "?c = 0")
    case True
    then have "leaves D m (Suc l) (ucast ?c) ! unat ?o1 = 0" using leaves_0[OF lt] by simp
    then show ?thesis unfolding eq target using True on(1)
      by (intro exI[of _ "fs_bdev fs"]) (simp add: on_disk_mono del: leaves.simps)
  next
    case False
    then have c: "(ucast ?c :: u64) \<noteq> 0" by (simp add: ptr_0)
    have "pointers_ok N D m (Suc l) (ucast ?c)" using map l(1) ptr by (auto simp: map_ok_def)
    from indirect_walk_ok[OF on lev(1,2) this c l(1) lt o2 lev(3)] k l(1) obtain cd where
      "indirect_walk ops mal (Suc l) (ucast ?c) ?o1 ?o2 fs = Some (EOK, leaves D m (Suc l) (ucast ?c) ! unat ?o1, fs\<lparr>fs_bdev := cd\<rparr>)"
      "on_disk good blk N n (k + 2 * l + 2) D R (fs\<lparr>fs_bdev := cd\<rparr>)" by auto
    moreover from this(2) have "on_disk good blk N n (k + 6) D R (fs\<lparr>fs_bdev := cd\<rparr>)"
      by (rule on_disk_mono) (use l(1) in simp)
    ultimately show ?thesis unfolding eq target using False by (simp only: if_False) blast
  qed
qed

lemma dblk_idx_ok:
  assumes on: "on_disk good blk N n k D R fs" "mal_ok n mal" "\<forall>d. cal d"
    and inode: "inode_ok (fs_sb fs) N D index" "0 < R (inode_block (fs_sb fs) D index)"
    and map: "map_ok (fs_sb fs) N D m (inode_at (fs_sb fs) D index)" "\<not> uses_extents (fs_sb fs) (inode_at (fs_sb fs) D index) \<Longrightarrow> unat b < level_base m 3"
    and lev: "levels_ok m fs" "4 * m \<le> n" "\<And>x. x < N \<Longrightarrow> length (D x) = n" and k: "k + 16 < 2 ^ 32"
  shows "\<exists>cd. ext4_fs_get_inode_dblk_idx ops mal cal (the_ref (fs_sb fs) D index) b True fs =
      Some (EOK, file_block (fs_sb fs) D m (inode_at (fs_sb fs) D index) b, fs\<lparr>fs_bdev := cd\<rparr>) \<and>
    on_disk good blk N n (k + 16) D R (fs\<lparr>fs_bdev := cd\<rparr>)"
proof -
  let ?inode = "inode_at (fs_sb fs) D index"
  have i: "get_inode (the_ref (fs_sb fs) D index) fs = Some ?inode" using get_inode_held[OF on(1) inode(2,1)] .
  have same: "on_disk good blk N n (k + 16) D R (fs\<lparr>fs_bdev := fs_bdev fs\<rparr>)" using on_disk_mono[OF on(1)] by simp
  consider "ext4_inode_get_size (fs_sb fs) ?inode = 0" | "ext4_inode_get_size (fs_sb fs) ?inode \<noteq> 0" "uses_extents (fs_sb fs) ?inode"
    | "ext4_inode_get_size (fs_sb fs) ?inode \<noteq> 0" "\<not> uses_extents (fs_sb fs) ?inode" "unat b < 12"
    | "ext4_inode_get_size (fs_sb fs) ?inode \<noteq> 0" "\<not> uses_extents (fs_sb fs) ?inode" "12 \<le> unat b" by linarith
  then show ?thesis
  proof cases
    case 1
    with i same show ?thesis by (intro exI[of _ "fs_bdev fs"]) (simp add: ext4_fs_get_inode_dblk_idx_def file_block_def)
  next
    case 2
    then have "extents_ok (fs_sb fs) N D ?inode" using map(1) by (simp add: map_ok_def)
    then have "\<exists>cnt cd. ext4_extent_get_blocks ops mal cal (the_ref (fs_sb fs) D index) b 1 fs =
        Some (EOK, ext_block D (unat (root_depth ?inode)) (root_node ?inode) b, cnt, fs\<lparr>fs_bdev := cd\<rparr>) \<and>
      on_disk good blk N n (k + 12) D R (fs\<lparr>fs_bdev := cd\<rparr>)"
      by (rule get_blocks_ok[OF on(1,2) inode]) (use on(3) k in simp_all)
    then obtain cnt cd where "ext4_extent_get_blocks ops mal cal (the_ref (fs_sb fs) D index) b 1 fs =
        Some (EOK, ext_block D (unat (root_depth ?inode)) (root_node ?inode) b, cnt, fs\<lparr>fs_bdev := cd\<rparr>)"
      "on_disk good blk N n (k + 12) D R (fs\<lparr>fs_bdev := cd\<rparr>)" by blast
    moreover from this(2) have "on_disk good blk N n (k + 16) D R (fs\<lparr>fs_bdev := cd\<rparr>)" by (rule on_disk_mono) simp
    ultimately show ?thesis using i 2 by (auto simp: ext4_fs_get_inode_dblk_idx_def file_block_def uses_extents_def)
  next
    case 3
    then have "b < EXT4_INODE_DIRECT_BLOCK_COUNT" "b < EXT4_INODE_BLOCKS"
      by (simp_all add: EXT4_INODE_DIRECT_BLOCK_COUNT_def EXT4_INODE_BLOCKS_def word_less_nat_alt)
    with i 3 same show ?thesis
      by (intro exI[of _ "fs_bdev fs"])
         (simp add: ext4_fs_get_inode_dblk_idx_def uses_extents_def[symmetric] file_block_def file_blocks_direct ext4_inode_get_direct_block_def)
  next
    case 4
    have "\<exists>cd. ext4_fs_get_inode_dblk_idx ops mal cal (the_ref (fs_sb fs) D index) b True fs =
        Some (EOK, file_blocks D m ?inode ! unat b, fs\<lparr>fs_bdev := cd\<rparr>) \<and> on_disk good blk N n (k + 6) D R (fs\<lparr>fs_bdev := cd\<rparr>)"
      by (rule dblk_indirect_ok[OF on(1,2) inode map(1) 4(2) lev 4(3) map(2)[OF 4(2)] 4(1)]) (use k in simp_all)
    then obtain cd where "ext4_fs_get_inode_dblk_idx ops mal cal (the_ref (fs_sb fs) D index) b True fs =
        Some (EOK, file_blocks D m ?inode ! unat b, fs\<lparr>fs_bdev := cd\<rparr>)" "on_disk good blk N n (k + 6) D R (fs\<lparr>fs_bdev := cd\<rparr>)" by blast
    moreover from this(2) have "on_disk good blk N n (k + 16) D R (fs\<lparr>fs_bdev := cd\<rparr>)" by (rule on_disk_mono) simp
    ultimately show ?thesis using 4 by (auto simp: file_block_def)
  qed
qed

end

end
