(* ===== verification/Ext4_File.thy ===== *)
theory Ext4_File
  imports Ext4_Map
begin

text \<open>
  Open files of lwext4/src/ext4.c: reading, seeking, closing. The file descriptor is a record of the
  fields of \<open>ext4_file\<close>; its mount point is the file system the functions get as an argument, and
  \<open>f_mp\<close> says whether the pointer is set. No locks are installed. A buffer is a byte list of its
  capacity. The whole-block part of \<open>ext4_fread\<close> collects runs of adjacent blocks and reads them past the
  cache; the property shows that for a file without holes this returns the bytes of the file, for every
  position and length.
\<close>

section \<open>Definitions\<close>

definition EPERM :: int where "EPERM = 1"
definition O_RDONLY :: u32 where "O_RDONLY = 0"
definition O_WRONLY :: u32 where "O_WRONLY = 1"
definition O_RDWR :: u32 where "O_RDWR = 2"
definition O_CREAT :: u32 where "O_CREAT = 0x40"
definition O_TRUNC :: u32 where "O_TRUNC = 0x200"
definition O_APPEND :: u32 where "O_APPEND = 0x400"
definition SEEK_SET :: u32 where "SEEK_SET = 0"
definition SEEK_CUR :: u32 where "SEEK_CUR = 1"
definition SEEK_END :: u32 where "SEEK_END = 2"

record ext4_file =
  f_mp :: bool
  f_inode :: u32
  f_flags :: u32
  fsize :: u64
  fpos :: u64

definition ext4_fclose :: "ext4_file \<Rightarrow> (int \<times> ext4_file) option" where
  "ext4_fclose f =
     (if f_mp f then Some (EOK, \<lparr>f_mp = False, f_inode = 0, f_flags = 0, fsize = 0, fpos = 0\<rparr>) else None)"

definition ext4_fseek :: "ext4_file \<Rightarrow> u64 \<Rightarrow> u32 \<Rightarrow> int \<times> ext4_file" where
  "ext4_fseek f offset origin =
     (if origin = SEEK_SET then (if offset > fsize f then (EINVAL, f) else (EOK, f\<lparr>fpos := offset\<rparr>))
      else if origin = SEEK_CUR then (if offset + fpos f > fsize f then (EINVAL, f) else (EOK, f\<lparr>fpos := fpos f + offset\<rparr>))
      else if origin = SEEK_END then (if offset > fsize f then (EINVAL, f) else (EOK, f\<lparr>fpos := fsize f - offset\<rparr>))
      else (EINVAL, f))"

definition ext4_ftell :: "ext4_file \<Rightarrow> u64" where "ext4_ftell f = fpos f"
definition ext4_fsize :: "ext4_file \<Rightarrow> u64" where "ext4_fsize f = fsize f"

subsection \<open>Reading\<close>

text \<open>The state of \<open>ext4_fread\<close> between its parts: the buffer with the offset of \<open>u8_buf\<close>, the
  bytes still to read, the count, and the file.\<close>

record 's rd =
  rd_buf :: "byte list"
  rd_p :: nat
  rd_size :: u64
  rd_cnt :: u64
  rd_file :: ext4_file
  rd_fs :: "'s fs"

definition rd_advance :: "u64 \<Rightarrow> 's rd \<Rightarrow> 's rd" where
  "rd_advance n s = s\<lparr>rd_p := rd_p s + unat n, rd_size := rd_size s - n, rd_cnt := rd_cnt s + n,
     rd_file := (rd_file s)\<lparr>fpos := fpos (rd_file s) + n\<rparr>\<rparr>"

text \<open>Reading bytes, and blocks, of the device to the buffer.\<close>

definition rd_bytes :: "'s bdif \<Rightarrow> u64 \<Rightarrow> u32 \<Rightarrow> 's rd \<Rightarrow> (int \<times> 's rd) option" where
  "rd_bytes ops off len s = do {
     (r, dat, bd) \<leftarrow> ext4_block_readbytes ops off (drop (rd_p s) (rd_buf s)) len (bdv (fs_bdev (rd_fs s)));
     buf \<leftarrow> buf_set (rd_p s) dat (rd_buf s);
     Some (r, s\<lparr>rd_buf := buf, rd_fs := (rd_fs s)\<lparr>fs_bdev := (fs_bdev (rd_fs s))\<lparr>bdv := bd\<rparr>\<rparr>\<rparr>) }"

definition rd_blocks :: "'s bdif \<Rightarrow> u64 \<Rightarrow> u32 \<Rightarrow> 's rd \<Rightarrow> (int \<times> 's rd) option" where
  "rd_blocks ops lba cnt s = do {
     (r, dat, bd) \<leftarrow> ext4_blocks_get_direct ops lba cnt (bdv (fs_bdev (rd_fs s)));
     buf \<leftarrow> buf_set (rd_p s) dat (rd_buf s);
     Some (r, s\<lparr>rd_buf := buf, rd_fs := (rd_fs s)\<lparr>fs_bdev := (fs_bdev (rd_fs s))\<lparr>bdv := bd\<rparr>\<rparr>\<rparr>) }"

text \<open>The part up to a block boundary. The second result is \<open>iblock_idx\<close>.\<close>

definition rd_head ::
  "'s bdif \<Rightarrow> malloc \<Rightarrow> (u16 \<Rightarrow> bool) \<Rightarrow> inode_ref \<Rightarrow> u32 \<Rightarrow> u32 \<Rightarrow> u32 \<Rightarrow> 's rd \<Rightarrow> (int \<times> u32 \<times> 's rd) option" where
  "rd_head ops mal cal ref block_size unalg iblock_idx s =
     (if unalg = 0 then Some (EOK, iblock_idx, s)
      else do {
        let len = (if rd_size s > ucast (block_size - unalg) then ucast (block_size - unalg) else rd_size s);
        (r, fblock, fs) \<leftarrow> ext4_fs_get_inode_dblk_idx ops mal cal ref iblock_idx True (rd_fs s);
        let s = s\<lparr>rd_fs := fs\<rparr>;
        if r \<noteq> EOK then Some (r, iblock_idx, s)
        else do {
          (r, s) \<leftarrow> (if fblock \<noteq> 0 then rd_bytes ops (fblock * ucast block_size + ucast unalg) (ucast len) s
                   else map_option (\<lambda>buf. (EOK, s\<lparr>rd_buf := buf\<rparr>)) (buf_set (rd_p s) (replicate (unat len) 0) (rd_buf s)));
          if r \<noteq> EOK then Some (r, iblock_idx, s)
          else Some (EOK, iblock_idx + 1, rd_advance len s) } })"

text \<open>The inner loop collects adjacent blocks: error, \<open>iblock_idx\<close>, \<open>fblock\<close>, \<open>fblock_start\<close>,
  \<open>fblock_count\<close>.\<close>

function run_loop ::
  "'s bdif \<Rightarrow> malloc \<Rightarrow> (u16 \<Rightarrow> bool) \<Rightarrow> inode_ref \<Rightarrow> u32 \<Rightarrow> u32 \<Rightarrow> u64 \<Rightarrow> u64 \<Rightarrow> u32 \<Rightarrow> 's fs \<Rightarrow>
   (int \<times> u32 \<times> u64 \<times> u64 \<times> u32 \<times> 's fs) option" where
  "run_loop ops mal cal ref iblock_last iblock_idx fblock fblock_start fblock_count fs =
     (if iblock_idx < iblock_last then
        Option.bind (ext4_fs_get_inode_dblk_idx ops mal cal ref iblock_idx True fs) (\<lambda>(r, fblock', fs).
          if r \<noteq> EOK then Some (r, iblock_idx, fblock, fblock_start, fblock_count, fs)
          else
            let fblock_start = (if fblock_start = 0 then fblock' else fblock_start) in
            if fblock_start + ucast fblock_count \<noteq> fblock'
            then Some (EOK, iblock_idx + 1, fblock', fblock_start, fblock_count, fs)
            else run_loop ops mal cal ref iblock_last (iblock_idx + 1) fblock' fblock_start (fblock_count + 1) fs)
      else Some (EOK, iblock_idx, fblock, fblock_start, fblock_count, fs))"
  by pat_completeness auto
termination
  by (relation "measure (\<lambda>(ops, mal, cal, ref, iblock_last, iblock_idx, _). unat iblock_last - unat iblock_idx)")
     (auto simp: unat_Suc_less word_less_nat_alt)

declare run_loop.simps [simp del]

partial_function (option) blocks_loop ::
  "'s bdif \<Rightarrow> malloc \<Rightarrow> (u16 \<Rightarrow> bool) \<Rightarrow> inode_ref \<Rightarrow> u32 \<Rightarrow> u32 \<Rightarrow> u32 \<Rightarrow> u64 \<Rightarrow> u64 \<Rightarrow> u32 \<Rightarrow> 's rd \<Rightarrow> (int \<times> u32 \<times> 's rd) option" where
  "blocks_loop ops mal cal ref block_size iblock_last iblock_idx fblock fblock_start fblock_count s =
     (if rd_size s \<ge> ucast block_size then
        Option.bind (run_loop ops mal cal ref iblock_last iblock_idx fblock fblock_start fblock_count (rd_fs s))
          (\<lambda>(r, iblock_idx, fblock, fblock_start, fblock_count, fs).
            let s = s\<lparr>rd_fs := fs\<rparr> in
            if r \<noteq> EOK then Some (r, iblock_idx, s)
            else Option.bind (rd_blocks ops fblock_start fblock_count s) (\<lambda>(r, s).
              if r \<noteq> EOK then Some (r, iblock_idx, s)
              else blocks_loop ops mal cal ref block_size iblock_last iblock_idx fblock fblock 1
                     (rd_advance (ucast (block_size * fblock_count)) s)))
      else Some (EOK, iblock_idx, s))"

text \<open>The last partial block; a hole is not tested for.\<close>

definition rd_tail ::
  "'s bdif \<Rightarrow> malloc \<Rightarrow> (u16 \<Rightarrow> bool) \<Rightarrow> inode_ref \<Rightarrow> u32 \<Rightarrow> u32 \<Rightarrow> 's rd \<Rightarrow> (int \<times> 's rd) option" where
  "rd_tail ops mal cal ref block_size iblock_idx s =
     (if rd_size s = 0 then Some (EOK, s)
      else do {
        (r, fblock, fs) \<leftarrow> ext4_fs_get_inode_dblk_idx ops mal cal ref iblock_idx True (rd_fs s);
        let s = s\<lparr>rd_fs := fs\<rparr>;
        if r \<noteq> EOK then Some (r, s)
        else do {
          (r, s) \<leftarrow> rd_bytes ops (fblock * ucast block_size) (ucast (rd_size s)) s;
          if r \<noteq> EOK then Some (r, s) else Some (EOK, rd_advance (rd_size s) s) } })"

definition rd_parts ::
  "'s bdif \<Rightarrow> malloc \<Rightarrow> (u16 \<Rightarrow> bool) \<Rightarrow> inode_ref \<Rightarrow> u32 \<Rightarrow> u32 \<Rightarrow> u32 \<Rightarrow> u32 \<Rightarrow> 's rd \<Rightarrow> (int \<times> 's rd) option" where
  "rd_parts ops mal cal ref block_size unalg iblock_idx iblock_last s = do {
     (r, iblock_idx, s) \<leftarrow> rd_head ops mal cal ref block_size unalg iblock_idx s;
     if r \<noteq> EOK then Some (r, s)
     else do {
       (r, iblock_idx, s) \<leftarrow> blocks_loop ops mal cal ref block_size iblock_last iblock_idx 0 0 0 s;
       if r \<noteq> EOK then Some (r, s) else rd_tail ops mal cal ref block_size iblock_idx s } }"

text \<open>A short symbolic link is stored in the inode; reading it does not move the position.\<close>

definition rd_link :: "mem \<Rightarrow> u32 \<Rightarrow> 's rd \<Rightarrow> (int \<times> 's rd) option" where
  "rd_link inode unalg s =
     (let f = rd_file s in
      if fpos f < fsize f then
        let len = (if ucast unalg + rd_size s > ucast (ucast (fsize f) :: u32) then ucast ((ucast (fsize f) :: u32) - unalg) else rd_size s) in
        if 60 < unat unalg + unat len then None
        else map_option (\<lambda>buf. (EOK, s\<lparr>rd_buf := buf, rd_cnt := len\<rparr>))
               (buf_set (rd_p s) (mem_get inode (40 + unat unalg) (unat len)) (rd_buf s))
      else Some (EOK, s))"

text \<open>The results are the error, the buffer, \<open>rcnt\<close>, the descriptor and the file system.\<close>

definition ext4_fread ::
  "'s bdif \<Rightarrow> malloc \<Rightarrow> (u16 \<Rightarrow> bool) \<Rightarrow> ext4_file \<Rightarrow> byte list \<Rightarrow> u64 \<Rightarrow> u64 \<Rightarrow> 's fs \<Rightarrow>
   (int \<times> byte list \<times> u64 \<times> ext4_file \<times> 's fs) option" where
  "ext4_fread ops mal cal f buf sz rcnt fs =
     (if \<not> f_mp f then None
      else if f_flags f AND O_WRONLY \<noteq> 0 then Some (EPERM, buf, rcnt, f, fs)
      else if sz = 0 then Some (EOK, buf, rcnt, f, fs)
      else do {
        (r, ref, fs) \<leftarrow> ext4_fs_get_inode_ref ops mal (f_inode f) fs;
        if r \<noteq> EOK then Some (r, buf, 0, f, fs)
        else do {
          inode \<leftarrow> get_inode ref fs;
          block_size \<leftarrow> ext4_sb_get_block_size (fs_sb fs);
          let f = f\<lparr>fsize := ext4_inode_get_size (fs_sb fs) inode\<rparr>;
          let sz = (if sz > fsize f - fpos f then fsize f - fpos f else sz);
          let iblock_idx = ucast (fpos f div ucast block_size);
          let iblock_last = ucast ((fpos f + sz) div ucast block_size);
          let unalg = ucast (fpos f mod ucast block_size);
          let s = \<lparr>rd_buf = buf, rd_p = 0, rd_size = sz, rd_cnt = 0, rd_file = f, rd_fs = fs\<rparr>;
          link \<leftarrow> (if ext4_inode_is_type (fs_sb fs) inode EXT4_INODE_MODE_SOFTLINK \<and> fsize f < 60
                  then map_option (\<lambda>blocks. blocks = 0) (ext4_inode_get_blocks_count (fs_sb fs) inode) else Some False);
          (r, s) \<leftarrow> (if link then rd_link inode unalg s else rd_parts ops mal cal ref block_size unalg iblock_idx iblock_last s);
          (_, fs) \<leftarrow> ext4_fs_put_inode_ref ops ref (rd_fs s);
          Some (r, rd_buf s, rd_cnt s, rd_file s, fs) } })"

section \<open>Reading past the cache\<close>

lemma view_clean:
  assumes "on_disk good blk N n k D R fs"
  shows "D = blk (bdv (fs_bdev fs))"
proof
  fix l
  have c: "coherent good blk False N (fs_bdev fs)" "D = view blk (fs_bdev fs)" using assms by (auto simp: on_disk_def refines_def)
  show "D l = blk (bdv (fs_bdev fs)) l"
    using coherentD(4)[OF c(1), of l] unfolding c(2) by (auto simp: view_def buf_coh_def split: option.split)
qed

lemma on_disk_bdv:
  assumes "on_disk good blk N n k D R fs" "good bd" "geom bd = geom (bdv (fs_bdev fs))" "blk bd = blk (bdv (fs_bdev fs))"
  shows "on_disk good blk N n k D R (fs\<lparr>fs_bdev := (fs_bdev fs)\<lparr>bdv := bd\<rparr>\<rparr>)"
proof -
  note g = geom_eqD[OF assms(3)]
  have v: "view blk ((fs_bdev fs)\<lparr>bdv := bd\<rparr>) = view blk (fs_bdev fs)" by (rule ext) (simp add: view_def assms(4) split: option.split)
  have r: "refs ((fs_bdev fs)\<lparr>bdv := bd\<rparr>) = refs (fs_bdev fs)" "raw ((fs_bdev fs)\<lparr>bdv := bd\<rparr>) = raw (fs_bdev fs)"
    by (simp_all add: fun_eq_iff refs_def raw_def)
  have "coherent good blk False N ((fs_bdev fs)\<lparr>bdv := bd\<rparr>)"
    using assms(1,2,4) g by (simp add: on_disk_def refines_def coherent_def buf_coh_def)
  then show ?thesis using assms(1) v r g by (simp add: on_disk_def refines_def)
qed

lemma on_disk_bsize: "on_disk good blk N n k D R fs \<Longrightarrow> unat (lg_bsize (bdv (fs_bdev fs))) = n \<and> good (bdv (fs_bdev fs)) \<and> ph_refctr (bdv (fs_bdev fs)) \<noteq> 0"
  by (auto simp: on_disk_def refines_def coherent_def)

lemma slice_in_block: "ua + len \<le> n \<Longrightarrow> take len (drop ua (take n (drop a xs))) = take len (drop (a + ua) xs)"
  by (simp add: drop_take add.commute min_absorb1)

context block_source
begin

abbreviation "ready_dev N d \<equiv> dev_ok ok content bsize d \<and> lb_ok content bsize N d"

lemma rd_bytes_ok:
  assumes on: "on_disk (ready_dev N) (part_block content) N n k D R (rd_fs s)" and l: "l < N" "ua + unat len \<le> n"
    and off: "unat off = unat l * n + ua" and buf: "rd_p s + unat len \<le> length (rd_buf s)"
  shows "\<exists>cd. rd_bytes ops off len s = Some (EOK, s\<lparr>rd_buf := patch (rd_buf s) (rd_p s) (take (unat len) (drop ua (D l))),
      rd_fs := (rd_fs s)\<lparr>fs_bdev := cd\<rparr>\<rparr>) \<and>
    on_disk (ready_dev N) (part_block content) N n k D R ((rd_fs s)\<lparr>fs_bdev := cd\<rparr>)"
proof -
  let ?d = "bdv (fs_bdev (rd_fs s))"
  have d: "dev_ok ok content bsize ?d" "lb_ok content bsize N ?d" "ph_refctr ?d \<noteq> 0" "unat (lg_bsize ?d) = n"
    using on_disk_bsize[OF on] by auto
  have e: "(unat l + 1) * n \<le> unat (part_size ?d)" "unat (part_offset ?d) + (unat l + 1) * n \<le> length (content (drv ?d))"
    using lb_block_end[OF d(2) l(1)] d(4) by simp_all
  have r: "unat off + unat len \<le> unat (part_size ?d)" "unat (part_offset ?d) + unat off + unat len \<le> length (content (drv ?d))"
    using e l(2) unfolding off by (simp_all add: algebra_simps)
  have "unat len \<le> length (drop (rd_p s) (rd_buf s))" using buf by simp
  from readbytes_ok[OF d(1,3) r(1) this r(2)] obtain bd where bd:
    "ext4_block_readbytes ops off (drop (rd_p s) (rd_buf s)) len ?d =
      Some (EOK, take (unat len) (drop (unat (part_offset ?d) + unat off) (content (drv ?d))) @ drop (unat len) (drop (rd_p s) (rd_buf s)), bd)"
    "dev_ok ok content bsize bd" "geom bd = geom ?d" "content (drv bd) = content (drv ?d)" by blast
  have dat: "take (unat len) (drop (unat (part_offset ?d) + unat off) (content (drv ?d))) = take (unat len) (drop ua (D l))"
    unfolding view_clean[OF on] part_block_def d(4) slice_in_block[OF l(2)] off by (simp add: add.assoc)
  have len: "length (take (unat len) (drop ua (D l))) = unat len" unfolding dat[symmetric] using r(2) by simp
  have "lb_ok content bsize N bd" using d(2) lb_ok_geom[OF bd(3), of content bsize N] bd(4) by simp
  then have "on_disk (ready_dev N) (part_block content) N n k D R ((rd_fs s)\<lparr>fs_bdev := (fs_bdev (rd_fs s))\<lparr>bdv := bd\<rparr>\<rparr>)"
    using part_block_cong[OF bd(3), of content] bd(2-4) by (intro on_disk_bdv[OF on]) auto
  moreover have "rd_bytes ops off len s = Some (EOK, s\<lparr>rd_buf := patch (rd_buf s) (rd_p s) (take (unat len) (drop ua (D l))),
      rd_fs := (rd_fs s)\<lparr>fs_bdev := (fs_bdev (rd_fs s))\<lparr>bdv := bd\<rparr>\<rparr>\<rparr>)"
    using bd(1) buf len unfolding dat by (simp add: rd_bytes_def buf_set_def patch_def add.commute)
  ultimately show ?thesis by blast
qed

lemma take_blocks: "take (c * n) (drop a xs) = concat (map (\<lambda>i. take n (drop (a + i * n) xs)) [0..<c])"
proof (induction c)
  case (Suc c)
  have "take (Suc c * n) (drop a xs) = take (c * n) (drop a xs) @ take n (drop (a + c * n) xs)"
    using take_add[of "c * n" n "drop a xs"] by (simp add: add.commute)
  then show ?case using Suc by simp
qed simp

lemma rd_blocks_ok:
  assumes on: "on_disk (ready_dev N) (part_block content) N n k D R (rd_fs s)" and l: "unat l + unat cnt \<le> unat N"
    and cnt: "n * unat cnt < 2 ^ 32" and buf: "rd_p s + n * unat cnt \<le> length (rd_buf s)"
  shows "\<exists>cd. rd_blocks ops l cnt s = Some (EOK, s\<lparr>rd_buf := patch (rd_buf s) (rd_p s) (concat (map (\<lambda>i. D (l + of_nat i)) [0..<unat cnt])),
      rd_fs := (rd_fs s)\<lparr>fs_bdev := cd\<rparr>\<rparr>) \<and>
    on_disk (ready_dev N) (part_block content) N n k D R ((rd_fs s)\<lparr>fs_bdev := cd\<rparr>)"
proof -
  let ?d = "bdv (fs_bdev (rd_fs s))"
  have d: "dev_ok ok content bsize ?d" "lb_ok content bsize N ?d" "unat (lg_bsize ?d) = n"
    using on_disk_bsize[OF on] by auto
  have "unat N \<le> unat (lg_bcnt ?d)" using d(2) by (simp add: lb_ok_def word_le_nat_alt)
  then have "unat l + unat cnt \<le> unat (lg_bcnt ?d)" using l by simp
  then have "(unat l + unat cnt) * n \<le> unat N * n" "(unat l + unat cnt) * n \<le> unat (lg_bcnt ?d) * n"
    using l by (simp_all only: mult_le_mono1)
  then have e: "(unat l + unat cnt) * n \<le> unat (part_size ?d)"
    "unat (part_offset ?d) + (unat l + unat cnt) * n \<le> length (content (drv ?d))"
    using d(2) unfolding lb_ok_def d(3) by linarith+
  from get_direct_ok[OF d(1), of l cnt] d(2,3) e cnt obtain bd where bd:
    "ext4_blocks_get_direct ops l cnt ?d = Some (EOK, take (n * unat cnt) (drop (unat (part_offset ?d) + unat l * n) (content (drv ?d))), bd)"
    "dev_ok ok content bsize bd" "geom bd = geom ?d" "content (drv bd) = content (drv ?d)" by (auto simp: lb_ok_def)
  have u: "unat (l + of_nat i) = unat l + i" if "i < unat cnt" for i
  proof -
    have "unat l + i < 2 ^ 64" using that l unat_less[of N] by simp
    then show ?thesis by (simp add: unat_word_ariths unat_of_nat mod_add_right_eq)
  qed
  have dat: "take (n * unat cnt) (drop (unat (part_offset ?d) + unat l * n) (content (drv ?d))) = concat (map (\<lambda>i. D (l + of_nat i)) [0..<unat cnt])"
    unfolding view_clean[OF on] part_block_def d(3) mult.commute[of n] take_blocks
    by (intro arg_cong[of _ _ concat] map_cong refl) (simp add: u algebra_simps)
  have len: "length (concat (map (\<lambda>i. D (l + of_nat i)) [0..<unat cnt])) = n * unat cnt"
    unfolding dat[symmetric] using e(2) by (simp add: algebra_simps)
  have "lb_ok content bsize N bd" using d(2) lb_ok_geom[OF bd(3), of content bsize N] bd(4) by simp
  then have "on_disk (ready_dev N) (part_block content) N n k D R ((rd_fs s)\<lparr>fs_bdev := (fs_bdev (rd_fs s))\<lparr>bdv := bd\<rparr>\<rparr>)"
    using part_block_cong[OF bd(3), of content] bd(2-4) by (intro on_disk_bdv[OF on]) auto
  moreover have "rd_blocks ops l cnt s = Some (EOK, s\<lparr>rd_buf := patch (rd_buf s) (rd_p s) (concat (map (\<lambda>i. D (l + of_nat i)) [0..<unat cnt])),
      rd_fs := (rd_fs s)\<lparr>fs_bdev := (fs_bdev (rd_fs s))\<lparr>bdv := bd\<rparr>\<rparr>\<rparr>)"
    using bd(1) buf len unfolding dat by (simp add: rd_blocks_def buf_set_def patch_def)
  ultimately show ?thesis by blast
qed

end

section \<open>The contents of a file\<close>

text \<open>The blocks of a file of \<open>c\<close> blocks, in order.\<close>

definition fblk :: "mem \<Rightarrow> (u64 \<Rightarrow> byte list) \<Rightarrow> nat \<Rightarrow> mem \<Rightarrow> nat \<Rightarrow> u64" where
  "fblk sb D m inode i = file_block sb D m inode (of_nat i)"

definition file_data :: "mem \<Rightarrow> (u64 \<Rightarrow> byte list) \<Rightarrow> nat \<Rightarrow> mem \<Rightarrow> nat \<Rightarrow> byte list" where
  "file_data sb D m inode c = concat (map (\<lambda>i. D (fblk sb D m inode i)) [0..<c])"

text \<open>A file of which every block is on the disk.\<close>

definition file_ok :: "mem \<Rightarrow> u64 \<Rightarrow> (u64 \<Rightarrow> byte list) \<Rightarrow> nat \<Rightarrow> mem \<Rightarrow> nat \<Rightarrow> bool" where
  "file_ok sb N D m inode c \<longleftrightarrow> c < 2 ^ 32 \<and> map_ok sb N D m inode \<and> (\<not> uses_extents sb inode \<longrightarrow> c \<le> level_base m 3) \<and>
     (\<forall>i<c. fblk sb D m inode i \<noteq> 0 \<and> fblk sb D m inode i < N)"

lemma length_blocks:
  assumes "\<And>i. a \<le> i \<Longrightarrow> i < b \<Longrightarrow> length (g i) = n"
  shows "length (concat (map g [a..<b])) = (b - a) * n"
proof -
  have "map (\<lambda>i. length (g i)) [a..<b] = map (\<lambda>_. n) [a..<b]" using assms by simp
  then show ?thesis by (simp only: length_concat map_map comp_def) (simp add: sum_list_triv)
qed

lemma slice_blocks:
  assumes "\<And>i. i < c \<Longrightarrow> length (g i) = n" "q + j \<le> c"
  shows "take (j * n) (drop (q * n) (concat (map g [0..<c]))) = concat (map g [q..<q + j])"
proof -
  have "[0..<c] = [0..<q] @ [q..<q + j] @ [q + j..<c]"
    using upt_add_eq_append[of 0 q "j + (c - q - j)"] upt_add_eq_append[of q "q + j" "c - q - j"] assms(2) by simp
  moreover have "length (concat (map g [0..<q])) = q * n" "length (concat (map g [q..<q + j])) = j * n"
    using length_blocks[of 0 q g n] length_blocks[of q "q + j" g n] assms by simp_all
  ultimately show ?thesis by simp
qed

lemma slice_one_block:
  assumes "\<And>i. i < c \<Longrightarrow> length (g i) = n" "q < c" "ua + len \<le> n"
  shows "take len (drop (q * n + ua) (concat (map g [0..<c]))) = take len (drop ua (g q))"
  using slice_blocks[of c g n q 1] slice_in_block[OF assms(3), of "q * n" "concat (map g [0..<c])"] assms by simp

text \<open>What the lookups of blocks rely on.\<close>

definition can_map :: "u64 \<Rightarrow> nat \<Rightarrow> nat \<Rightarrow> (u64 \<Rightarrow> byte list) \<Rightarrow> malloc \<Rightarrow> (u16 \<Rightarrow> bool) \<Rightarrow> u32 \<Rightarrow> nat \<Rightarrow> 's fs \<Rightarrow> bool" where
  "can_map N n m D mal cal index c fs \<longleftrightarrow> mal_ok n mal \<and> (\<forall>d. cal d) \<and> inode_ok (fs_sb fs) N D index \<and>
     file_ok (fs_sb fs) N D m (inode_at (fs_sb fs) D index) c \<and> levels_ok m fs \<and> 4 * m \<le> n \<and> (\<forall>x<N. length (D x) = n)"

lemma can_map_bdev [simp]: "can_map N n m D mal cal index c (fs\<lparr>fs_bdev := cd\<rparr>) = can_map N n m D mal cal index c fs"
  by (simp add: can_map_def levels_ok_def)

context logical_source
begin

lemma lookup_ok:
  assumes "on_disk good blk N n k D R fs" "can_map N n m D mal cal index c fs" "0 < R (inode_block (fs_sb fs) D index)"
    and "unat b < c" "k + 16 < 2 ^ 32"
  shows "\<exists>cd. ext4_fs_get_inode_dblk_idx ops mal cal (the_ref (fs_sb fs) D index) b True fs =
      Some (EOK, fblk (fs_sb fs) D m (inode_at (fs_sb fs) D index) (unat b), fs\<lparr>fs_bdev := cd\<rparr>) \<and>
    on_disk good blk N n (k + 16) D R (fs\<lparr>fs_bdev := cd\<rparr>)"
proof -
  note c = assms(2)[unfolded can_map_def file_ok_def]
  have "fblk (fs_sb fs) D m (inode_at (fs_sb fs) D index) (unat b) = file_block (fs_sb fs) D m (inode_at (fs_sb fs) D index) b"
    by (simp add: fblk_def)
  then show ?thesis
    using dblk_idx_ok[OF assms(1), of mal cal index m b] c assms(3-5) by auto
qed

text \<open>A run of adjacent blocks of the file, from block \<open>q\<close> on.\<close>

lemma run_loop_ok:
  assumes on: "on_disk good blk N n k D R fs" and map: "can_map N n m D mal cal index c fs" "0 < R (inode_block (fs_sb fs) D index)"
    and fb: "fb = fblk (fs_sb fs) D m (inode_at (fs_sb fs) D index)"
    and q: "unat idx = q + unat cnt" "unat idx \<le> unat lst" "q < unat lst" "unat lst \<le> c"
    and run: "\<forall>i<unat cnt. fb (q + i) = fb q + of_nat i" "start = (if cnt = 0 then 0 else fb q)"
    and k: "k + 16 * (unat lst - unat idx) < 2 ^ 32"
  shows "\<exists>idx' f' cnt' cd. run_loop ops mal cal (the_ref (fs_sb fs) D index) lst idx f start cnt fs =
      Some (EOK, idx', f', fb q, cnt', fs\<lparr>fs_bdev := cd\<rparr>) \<and>
    0 < unat cnt' \<and> q + unat cnt' \<le> unat lst \<and> (\<forall>i<unat cnt'. fb (q + i) = fb q + of_nat i) \<and>
    (idx' = lst \<and> q + unat cnt' = unat lst \<or>
     unat idx' = q + unat cnt' + 1 \<and> unat idx' \<le> unat lst \<and> f' = fb (q + unat cnt')) \<and>
    unat idx \<le> unat idx' \<and> on_disk good blk N n (k + 16 * (unat idx' - unat idx)) D R (fs\<lparr>fs_bdev := cd\<rparr>)"
  using on map q run fb k
proof (induction "unat lst - unat idx" arbitrary: k fs idx f start cnt)
  case 0
  then have idx: "idx = lst" by (simp add: word_unat_eq_iff)
  then have "cnt \<noteq> 0" using 0 by auto
  then show ?case using 0 idx
    by (intro exI[of _ lst] exI[of _ f] exI[of _ cnt] exI[of _ "fs_bdev fs"]) (auto simp: run_loop.simps[of ops mal cal _ lst lst] unat_gt_0)
next
  case (Suc j)
  let ?ref = "the_ref (fs_sb fs) D index"
  have lt: "idx < lst" using Suc.hyps(2) by (simp add: word_less_nat_alt)
  have k1: "k + 16 < 2 ^ 32" using Suc.prems(11) Suc.hyps(2) by simp
  have ltc: "unat idx < c" using lt Suc.prems(7) by (simp add: word_less_nat_alt)
  from lookup_ok[OF Suc.prems(1-3) ltc k1] obtain cd where cd:
    "ext4_fs_get_inode_dblk_idx ops mal cal ?ref idx True fs = Some (EOK, fb (unat idx), fs\<lparr>fs_bdev := cd\<rparr>)"
    "on_disk good blk N n (k + 16) D R (fs\<lparr>fs_bdev := cd\<rparr>)" unfolding Suc.prems(10) by blast
  have fbq: "fb q \<noteq> 0" using Suc.prems(2,6,7,10) by (simp add: can_map_def file_ok_def)
  have start: "(if start = 0 then fb (unat idx) else start) = fb q"
    using Suc.prems(4,9) fbq by (cases "cnt = 0") auto
  have i1: "unat (idx + 1) = unat idx + 1" using unat_Suc_less[OF lt] .
  have step: "run_loop ops mal cal ?ref lst idx f start cnt fs =
    (if fb q + ucast cnt \<noteq> fb (unat idx) then Some (EOK, idx + 1, fb (unat idx), fb q, cnt, fs\<lparr>fs_bdev := cd\<rparr>)
     else run_loop ops mal cal ?ref lst (idx + 1) (fb (unat idx)) (fb q) (cnt + 1) (fs\<lparr>fs_bdev := cd\<rparr>))"
    using lt cd(1) start by (subst run_loop.simps) (simp add: Let_def)
  show ?case
  proof (cases "fb q + ucast cnt = fb (unat idx)")
    case False
    then have "cnt \<noteq> 0" using Suc.prems(4) by auto
    then show ?thesis using step False Suc.prems(4,8) lt i1 cd(2)
      by (intro exI[of _ "idx + 1"] exI[of _ "fb (unat idx)"] exI[of _ cnt] exI[of _ cd])
         (auto simp: unat_gt_0 word_less_nat_alt)
  next
    case True
    have c1: "unat (cnt + 1) = unat cnt + 1"
      using Suc.prems(4) lt unat_less[of lst] by (intro unat_Suc_less[of cnt lst]) (simp add: word_less_nat_alt)
    have "\<exists>idx' f' cnt' cd'. run_loop ops mal cal (the_ref (fs_sb (fs\<lparr>fs_bdev := cd\<rparr>)) D index) lst (idx + 1) (fb (unat idx)) (fb q) (cnt + 1) (fs\<lparr>fs_bdev := cd\<rparr>) =
        Some (EOK, idx', f', fb q, cnt', fs\<lparr>fs_bdev := cd\<rparr>\<lparr>fs_bdev := cd'\<rparr>) \<and>
      0 < unat cnt' \<and> q + unat cnt' \<le> unat lst \<and> (\<forall>i<unat cnt'. fb (q + i) = fb q + of_nat i) \<and>
      (idx' = lst \<and> q + unat cnt' = unat lst \<or>
       unat idx' = q + unat cnt' + 1 \<and> unat idx' \<le> unat lst \<and> f' = fb (q + unat cnt')) \<and>
      unat (idx + 1) \<le> unat idx' \<and> on_disk good blk N n (k + 16 + 16 * (unat idx' - unat (idx + 1))) D R (fs\<lparr>fs_bdev := cd\<rparr>\<lparr>fs_bdev := cd'\<rparr>)"
    proof (rule Suc.hyps(1))
      show "\<forall>i<unat (cnt + 1). fb (q + i) = fb q + of_nat i"
        using Suc.prems(4,8) True by (auto simp: c1 less_Suc_eq)
      show "fb q = (if cnt + 1 = 0 then 0 else fb q)" using c1 by auto
    qed (use Suc.hyps(2) Suc.prems cd(2) i1 c1 lt in \<open>simp_all add: word_less_nat_alt\<close>)
    then obtain idx' f' cnt' cd' where r: "run_loop ops mal cal ?ref lst (idx + 1) (fb (unat idx)) (fb q) (cnt + 1) (fs\<lparr>fs_bdev := cd\<rparr>) =
        Some (EOK, idx', f', fb q, cnt', fs\<lparr>fs_bdev := cd'\<rparr>)"
      "0 < unat cnt'" "q + unat cnt' \<le> unat lst" "\<forall>i<unat cnt'. fb (q + i) = fb q + of_nat i"
      "idx' = lst \<and> q + unat cnt' = unat lst \<or> unat idx' = q + unat cnt' + 1 \<and> unat idx' \<le> unat lst \<and> f' = fb (q + unat cnt')"
      "unat (idx + 1) \<le> unat idx'" "on_disk good blk N n (k + 16 + 16 * (unat idx' - unat (idx + 1))) D R (fs\<lparr>fs_bdev := cd'\<rparr>)" by auto
    moreover have "on_disk good blk N n (k + 16 * (unat idx' - unat idx)) D R (fs\<lparr>fs_bdev := cd'\<rparr>)"
      by (rule on_disk_mono[OF r(7)]) (use r(6) i1 in simp)
    ultimately show ?thesis using step True i1
      by - (rule exI[of _ idx'], rule exI[of _ f'], rule exI[of _ cnt'], rule exI[of _ cd'], simp)
  qed
qed

end

section \<open>The parts of a read\<close>

text \<open>So far the first bytes from position \<open>pos\<close> of the file \<open>F\<close> have been stored to the start of the
  buffer \<open>buf\<close>, out of \<open>sz\<close> bytes in all.\<close>

definition rd_inv :: "ext4_file \<Rightarrow> nat \<Rightarrow> byte list \<Rightarrow> byte list \<Rightarrow> nat \<Rightarrow> 's rd \<Rightarrow> bool" where
  "rd_inv g pos F buf sz s \<longleftrightarrow> rd_buf s = take (rd_p s) (drop pos F) @ drop (rd_p s) buf \<and> rd_p s + unat (rd_size s) = sz \<and>
     unat (rd_cnt s) = rd_p s \<and> rd_file s = g\<lparr>fpos := of_nat (pos + rd_p s)\<rparr> \<and> pos + sz \<le> length F \<and> sz \<le> length buf \<and> pos + sz < 2 ^ 64"

lemma rd_inv_length: "rd_inv g pos F buf sz s \<Longrightarrow> length (rd_buf s) = length buf"
  by (auto simp: rd_inv_def min_def)

lemma rd_put:
  assumes "rd_inv g pos F buf sz s" "unat w \<le> unat (rd_size s)" "dat = take (unat w) (drop (pos + rd_p s) F)"
  shows "rd_inv g pos F buf sz (rd_advance w (s\<lparr>rd_buf := patch (rd_buf s) (rd_p s) dat, rd_fs := fs\<rparr>))"
proof -
  note i = assms(1)[unfolded rd_inv_def]
  have p: "rd_p s + unat w \<le> sz" using i assms(2) by simp
  have len: "length dat = unat w" "length (take (rd_p s) (drop pos F)) = rd_p s" using i p assms(3) by auto
  have "take (rd_p s + unat w) (drop pos F) = take (rd_p s) (drop pos F) @ dat"
    unfolding assms(3) by (simp add: take_add add.commute)
  then have "patch (rd_buf s) (rd_p s) dat = take (rd_p s + unat w) (drop pos F) @ drop (rd_p s + unat w) buf"
    using i len by (simp add: patch_def add.commute)
  moreover have "unat (rd_size s - w) = unat (rd_size s) - unat w" using assms(2) by (simp add: unat_sub word_le_nat_alt)
  moreover have "unat (rd_cnt s + w) = rd_p s + unat w" "fpos (rd_file s) + w = of_nat (pos + (rd_p s + unat w))"
    using i p by (simp_all add: unat_word_ariths)
  ultimately show ?thesis using i assms(2) by (simp add: rd_inv_def rd_advance_def)
qed

lemma adjacent:
  assumes "\<forall>i<cnt. fb (q + i) = (fb q :: u64) + of_nat i" "\<forall>i<cnt. fb (q + i) \<noteq> 0" "i < cnt"
  shows "unat (fb q + of_nat i) = unat (fb q) + i"
  using assms(3)
proof (induction i)
  case (Suc i)
  then have "unat (fb q + of_nat i) = unat (fb q) + i" by simp
  moreover have "fb q + of_nat (Suc i) \<noteq> 0" using assms(1,2) Suc.prems by metis
  then have "fb q + of_nat i + 1 \<noteq> 0" by (simp only: of_nat_Suc add.commute[of 1] add.assoc[symmetric]) simp
  ultimately show ?case using unatSuc[of "fb q + of_nat i"] by (simp add: add.assoc add.commute add.left_commute)
qed simp

context block_source
begin

lemma blocks_loop_ok:
  assumes on: "on_disk (ready_dev N) (part_block content) N n k D R (rd_fs s)"
    and map: "can_map N n m D mal cal index c (rd_fs s)" "0 < R (inode_block (fs_sb (rd_fs s)) D index)"
    and fb: "fb = fblk (fs_sb (rd_fs s)) D m (inode_at (fs_sb (rd_fs s)) D index)"
    and F: "F = file_data (fs_sb (rd_fs s)) D m (inode_at (fs_sb (rd_fs s)) D index) c" and inv: "rd_inv g pos F buf sz s"
    and q: "pos + rd_p s = q * n" "unat lst = (pos + sz) div n" "unat lst \<le> c"
    and st: "cnt = 0 \<and> start = 0 \<and> unat idx = q \<or> cnt = 1 \<and> start = fb q \<and> unat idx = q + 1 \<and> q < unat lst \<or> q = unat lst \<and> idx = lst"
    and sz: "sz < 2 ^ 32" "unat bs = n" "0 < n" and k: "k + 16 * (unat lst - unat idx) < 2 ^ 32"
  shows "\<exists>s'. blocks_loop ops mal cal (the_ref (fs_sb (rd_fs s)) D index) bs lst idx f start cnt s = Some (EOK, lst, s') \<and>
    rd_inv g pos F buf sz s' \<and> pos + rd_p s' = unat lst * n \<and> (\<exists>cd. rd_fs s' = (rd_fs s)\<lparr>fs_bdev := cd\<rparr>) \<and>
    on_disk (ready_dev N) (part_block content) N n (k + 16 * (unat lst - unat idx)) D R (rd_fs s')"
  using on map fb F inv q st k
proof (induction "unat lst - q" arbitrary: k s q idx f start cnt rule: less_induct)
  case less
  let ?sb = "fs_sb (rd_fs s)" and ?ref = "the_ref (fs_sb (rd_fs s)) D index"
  note i = less.prems(6)[unfolded rd_inv_def]
  have rest: "q * n + unat (rd_size s) = pos + sz" using i less.prems(7) by simp
  have ge: "rd_size s \<ge> ucast bs \<longleftrightarrow> q < unat lst"
  proof -
    have "ucast bs \<le> rd_size s \<longleftrightarrow> n \<le> unat (rd_size s)"
      using sz(2) by (simp add: word_le_nat_alt unat_ucast_mod order_less_trans[OF unat_less])
    also have "\<dots> \<longleftrightarrow> Suc q * n \<le> pos + sz" using rest by auto
    also have "\<dots> \<longleftrightarrow> q < unat lst" unfolding less.prems(8) using sz(3) by (simp only: less_eq_div_iff_mult_less_eq[symmetric] Suc_le_eq)
    finally show ?thesis .
  qed
  have le: "q \<le> unat lst" unfolding less.prems(8) using rest sz(3) by (simp add: less_eq_div_iff_mult_less_eq)
  show ?case
  proof (cases "q < unat lst")
    case False
    then have "q = unat lst" "idx = lst" using le less.prems(10) by (auto simp: word_unat_eq_iff)
    then show ?thesis using less.prems ge False
      by (intro exI[of _ s]) (auto simp: blocks_loop.simps[of ops mal cal _ bs lst lst] intro!: exI[of _ "fs_bdev (rd_fs s)"])
  next
    case True
    have "\<exists>idx' f' cnt' cd. run_loop ops mal cal ?ref lst idx f start cnt (rd_fs s) = Some (EOK, idx', f', fb q, cnt', (rd_fs s)\<lparr>fs_bdev := cd\<rparr>) \<and>
      0 < unat cnt' \<and> q + unat cnt' \<le> unat lst \<and> (\<forall>i<unat cnt'. fb (q + i) = fb q + of_nat i) \<and>
      (idx' = lst \<and> q + unat cnt' = unat lst \<or> unat idx' = q + unat cnt' + 1 \<and> unat idx' \<le> unat lst \<and> f' = fb (q + unat cnt')) \<and>
      unat idx \<le> unat idx' \<and> on_disk (ready_dev N) (part_block content) N n (k + 16 * (unat idx' - unat idx)) D R ((rd_fs s)\<lparr>fs_bdev := cd\<rparr>)"
      by (rule lsrc.run_loop_ok[OF less.prems(1-4)]) (use less.prems(9-11) True in auto)
    then obtain idx' f' cnt' cd where r: "run_loop ops mal cal ?ref lst idx f start cnt (rd_fs s) = Some (EOK, idx', f', fb q, cnt', (rd_fs s)\<lparr>fs_bdev := cd\<rparr>)"
      "0 < unat cnt'" "q + unat cnt' \<le> unat lst" "\<forall>i<unat cnt'. fb (q + i) = fb q + of_nat i"
      "idx' = lst \<and> q + unat cnt' = unat lst \<or> unat idx' = q + unat cnt' + 1 \<and> unat idx' \<le> unat lst \<and> f' = fb (q + unat cnt')"
      "unat idx \<le> unat idx'" "on_disk (ready_dev N) (part_block content) N n (k + 16 * (unat idx' - unat idx)) D R ((rd_fs s)\<lparr>fs_bdev := cd\<rparr>)"
      by blast
    let ?s = "s\<lparr>rd_fs := (rd_fs s)\<lparr>fs_bdev := cd\<rparr>\<rparr>" and ?w = "ucast (bs * cnt') :: u64"
    have fbs: "\<forall>i<unat cnt'. fb (q + i) \<noteq> 0 \<and> fb (q + i) < N"
      using less.prems(2,4,9) r(3) by (simp add: can_map_def file_ok_def)
    have all: "unat (fb q) + unat cnt' \<le> unat N"
    proof -
      have "unat (fb q + of_nat (unat cnt' - 1)) = unat (fb q) + (unat cnt' - 1)"
        using adjacent[OF r(4), of "unat cnt' - 1"] fbs r(2) by simp
      moreover have "fb q + of_nat (unat cnt' - 1) < N" using r(2,4) fbs by (metis diff_less zero_less_one)
      ultimately show ?thesis using r(2) by (simp add: word_less_nat_alt)
    qed
    have "(q + unat cnt') * n \<le> unat lst * n" using r(3) by (rule mult_le_mono1)
    also have "\<dots> \<le> pos + sz" unfolding less.prems(8) by simp
    finally have fit: "n * unat cnt' \<le> unat (rd_size s)" using rest by (simp add: algebra_simps)
    then have small: "n * unat cnt' < 2 ^ 32" "rd_p ?s + n * unat cnt' \<le> length (rd_buf ?s)"
      using i sz(1) rd_inv_length[OF less.prems(6)] by (simp_all del: length_append)
    have w: "unat ?w = n * unat cnt'"
      using small(1) sz(2) by (simp add: unat_ucast_mod unat_word_ariths order_less_trans[of _ "2 ^ 32"])
    have glen: "length (D (fb i)) = n" if "i < c" for i
      using less.prems(2,4) that by (simp add: can_map_def file_ok_def)
    have dat: "concat (map (\<lambda>i. D (fb q + of_nat i)) [0..<unat cnt']) = take (unat ?w) (drop (pos + rd_p ?s) F)"
    proof -
      have "take (unat cnt' * n) (drop (q * n) F) = concat (map (\<lambda>i. D (fb i)) [q..<q + unat cnt'])"
        unfolding less.prems(5) file_data_def using slice_blocks[of c "\<lambda>i. D (fb i)" n q "unat cnt'"] glen r(3) less.prems(4,9) by simp
      also have "[q..<q + unat cnt'] = map (\<lambda>i. q + i) [0..<unat cnt']" by (simp add: map_add_upt add.commute[of q])
      finally have "take (unat cnt' * n) (drop (q * n) F) = concat (map (\<lambda>i. D (fb (q + i))) [0..<unat cnt'])" by (simp add: comp_def)
      also have "\<dots> = concat (map (\<lambda>i. D (fb q + of_nat i)) [0..<unat cnt'])"
        using r(4) by (intro arg_cong[of _ _ concat] map_cong) simp_all
      finally show ?thesis using w less.prems(7) by (simp add: mult.commute)
    qed
    from rd_blocks_ok[of N n _ D R ?s, OF _ all small] r(7) obtain cd' where b: "rd_blocks ops (fb q) cnt' ?s =
        Some (EOK, s\<lparr>rd_buf := patch (rd_buf s) (rd_p s) (concat (map (\<lambda>i. D (fb q + of_nat i)) [0..<unat cnt'])), rd_fs := (rd_fs s)\<lparr>fs_bdev := cd'\<rparr>\<rparr>)"
      "on_disk (ready_dev N) (part_block content) N n (k + 16 * (unat idx' - unat idx)) D R ((rd_fs s)\<lparr>fs_bdev := cd'\<rparr>)" by auto
    let ?s' = "rd_advance ?w (s\<lparr>rd_buf := patch (rd_buf s) (rd_p s) (concat (map (\<lambda>i. D (fb q + of_nat i)) [0..<unat cnt'])), rd_fs := (rd_fs s)\<lparr>fs_bdev := cd'\<rparr>\<rparr>)"
    have fs': "rd_fs ?s' = (rd_fs s)\<lparr>fs_bdev := cd'\<rparr>" and p': "rd_p ?s' = rd_p s + n * unat cnt'" using w by (simp_all add: rd_advance_def)
    have inv': "rd_inv g pos F buf sz ?s'" by (rule rd_put[OF less.prems(6)]) (use w fit dat in simp_all)
    have "\<exists>s''. blocks_loop ops mal cal (the_ref (fs_sb (rd_fs ?s')) D index) bs lst idx' f' f' 1 ?s' = Some (EOK, lst, s'') \<and>
      rd_inv g pos F buf sz s'' \<and> pos + rd_p s'' = unat lst * n \<and> (\<exists>cd. rd_fs s'' = (rd_fs ?s')\<lparr>fs_bdev := cd\<rparr>) \<and>
      on_disk (ready_dev N) (part_block content) N n (k + 16 * (unat idx' - unat idx) + 16 * (unat lst - unat idx')) D R (rd_fs s'')"
    proof (rule less.hyps[of "q + unat cnt'"])
      show "1 = 0 \<and> f' = 0 \<and> unat idx' = q + unat cnt' \<or> 1 = 1 \<and> f' = fb (q + unat cnt') \<and> unat idx' = q + unat cnt' + 1 \<and> q + unat cnt' < unat lst \<or>
        q + unat cnt' = unat lst \<and> idx' = lst" using r(5) by auto
      show "pos + rd_p ?s' = (q + unat cnt') * n" using p' less.prems(7) by (simp add: algebra_simps)
      show "k + 16 * (unat idx' - unat idx) + 16 * (unat lst - unat idx') < 2 ^ 32"
        using less.prems(11) r(3,5,6) by auto
    qed (use True r(2) less.prems fs' inv' b(2) in simp_all)
    then obtain s'' where e: "blocks_loop ops mal cal ?ref bs lst idx' f' f' 1 ?s' = Some (EOK, lst, s'')"
      "rd_inv g pos F buf sz s''" "pos + rd_p s'' = unat lst * n" "\<exists>cd. rd_fs s'' = (rd_fs s)\<lparr>fs_bdev := cd\<rparr>"
      "on_disk (ready_dev N) (part_block content) N n (k + 16 * (unat idx' - unat idx) + 16 * (unat lst - unat idx')) D R (rd_fs s'')"
      unfolding fs' by auto
    have "blocks_loop ops mal cal ?ref bs lst idx f start cnt s = Some (EOK, lst, s'')"
      using ge True r(1) b(1) e(1) by (subst blocks_loop.simps) (simp add: Let_def)
    moreover have "on_disk (ready_dev N) (part_block content) N n (k + 16 * (unat lst - unat idx)) D R (rd_fs s'')"
      by (rule on_disk_mono[OF e(5)]) (use r(3,5,6) in auto)
    ultimately show ?thesis using e(2-4) by blast
  qed
qed

text \<open>A part of one block of the file goes to the buffer.\<close>

lemma block_offset:
  fixes bs ua :: u32
  assumes "on_disk (ready_dev N) (part_block content) N n k D R fs" "l < N" "unat bs = n" "unat ua < n"
  shows "unat (l * ucast bs + ucast ua) = unat l * n + unat ua"
proof -
  have "(unat l + 1) * n \<le> unat (part_size (bdv (fs_bdev fs)))"
    using lb_block_end(1)[of content bsize N "bdv (fs_bdev fs)" l] on_disk_bsize[OF assms(1)] assms(2) by auto
  then have "unat l * n + unat ua < 2 ^ 64" using assms(4) unat_less[of "part_size (bdv (fs_bdev fs))"] by simp
  moreover have "n < 2 ^ 64" using assms(3) unat_less[of bs] by simp
  ultimately show ?thesis using assms(3)
    by (simp add: unat_word_ariths unat_ucast_mod order_less_trans[OF unat_less])
qed

lemma rd_part_ok:
  fixes bs ua :: u32
  assumes on: "on_disk (ready_dev N) (part_block content) N n k D R (rd_fs s)"
    and map: "can_map N n m D mal cal index c (rd_fs s)" "0 < R (inode_block (fs_sb (rd_fs s)) D index)"
    and fb: "fb = fblk (fs_sb (rd_fs s)) D m (inode_at (fs_sb (rd_fs s)) D index)"
    and F: "F = file_data (fs_sb (rd_fs s)) D m (inode_at (fs_sb (rd_fs s)) D index) c" and inv: "rd_inv g pos F buf sz s"
    and part: "pos + rd_p s = unat idx * n + unat ua" "unat ua + unat len \<le> n" "unat ua < n" "0 < unat ua + unat len" "unat len \<le> unat (rd_size s)"
    and sz: "sz < 2 ^ 32" "unat bs = n" and k: "k + 16 < 2 ^ 32"
  shows "\<exists>cd s'. ext4_fs_get_inode_dblk_idx ops mal cal (the_ref (fs_sb (rd_fs s)) D index) idx True (rd_fs s) =
      Some (EOK, fb (unat idx), (rd_fs s)\<lparr>fs_bdev := cd\<rparr>) \<and> fb (unat idx) \<noteq> 0 \<and>
    rd_bytes ops (fb (unat idx) * ucast bs + ucast ua) (ucast len) (s\<lparr>rd_fs := (rd_fs s)\<lparr>fs_bdev := cd\<rparr>\<rparr>) = Some (EOK, s') \<and>
    rd_size s' = rd_size s \<and> rd_p s' = rd_p s \<and>
    rd_inv g pos F buf sz (rd_advance len s') \<and> (\<exists>cd. rd_fs s' = (rd_fs s)\<lparr>fs_bdev := cd\<rparr>) \<and>
    on_disk (ready_dev N) (part_block content) N n (k + 16) D R (rd_fs s')"
proof -
  let ?i = "unat idx"
  note iv = inv[unfolded rd_inv_def]
  have glen: "length (D (fb i)) = n" if "i < c" for i using map(1) fb that by (simp add: can_map_def file_ok_def)
  have lF: "length F = c * n" unfolding F file_data_def using length_blocks[of 0 c "\<lambda>i. D (fb i)" n] glen fb by simp
  have "?i * n + unat ua + unat len \<le> c * n" using iv part(1,5) lF by simp
  then have "?i * n < c * n" using part(4) by linarith
  then have ic: "?i < c" by simp
  from lsrc.lookup_ok[OF on map ic k] obtain cd where cd:
    "ext4_fs_get_inode_dblk_idx ops mal cal (the_ref (fs_sb (rd_fs s)) D index) idx True (rd_fs s) = Some (EOK, fb ?i, (rd_fs s)\<lparr>fs_bdev := cd\<rparr>)"
    "on_disk (ready_dev N) (part_block content) N n (k + 16) D R ((rd_fs s)\<lparr>fs_bdev := cd\<rparr>)" unfolding fb by blast
  let ?s = "s\<lparr>rd_fs := (rd_fs s)\<lparr>fs_bdev := cd\<rparr>\<rparr>"
  have f: "fb ?i \<noteq> 0" "fb ?i < N" using map(1) fb ic by (simp_all add: can_map_def file_ok_def)
  have l32: "unat (ucast len :: u32) = unat len" using part(5) iv sz(1) by (simp add: unat_ucast_mod)
  have "\<exists>cd'. rd_bytes ops (fb ?i * ucast bs + ucast ua) (ucast len) ?s = Some (EOK, ?s\<lparr>rd_buf := patch (rd_buf ?s) (rd_p ?s) (take (unat (ucast len :: u32)) (drop (unat ua) (D (fb ?i)))),
      rd_fs := (rd_fs ?s)\<lparr>fs_bdev := cd'\<rparr>\<rparr>) \<and>
    on_disk (ready_dev N) (part_block content) N n (k + 16) D R ((rd_fs ?s)\<lparr>fs_bdev := cd'\<rparr>)"
    by (rule rd_bytes_ok) (use cd(2) f(2) part(2-5) l32 block_offset[OF on f(2) sz(2), of ua] rd_inv_length[OF inv] iv in simp_all)
  then obtain cd' where b: "rd_bytes ops (fb ?i * ucast bs + ucast ua) (ucast len) ?s =
      Some (EOK, s\<lparr>rd_buf := patch (rd_buf s) (rd_p s) (take (unat len) (drop (unat ua) (D (fb ?i)))), rd_fs := (rd_fs s)\<lparr>fs_bdev := cd'\<rparr>\<rparr>)"
    "on_disk (ready_dev N) (part_block content) N n (k + 16) D R ((rd_fs s)\<lparr>fs_bdev := cd'\<rparr>)" unfolding l32 by auto
  have "take (unat len) (drop (unat ua) (D (fb ?i))) = take (unat len) (drop (pos + rd_p s) F)"
    unfolding F file_data_def part(1) using slice_one_block[of c "\<lambda>i. D (fb i)" n ?i "unat ua" "unat len"] glen ic part(2) fb by simp
  note rd_put[OF inv part(5) this, of "(rd_fs s)\<lparr>fs_bdev := cd'\<rparr>"]
  then show ?thesis using cd(1) f(1) b by - (rule exI[of _ cd], rule exI, auto)
qed

lemma rd_head_ok:
  assumes on: "on_disk (ready_dev N) (part_block content) N n k D R (rd_fs s)"
    and map: "can_map N n m D mal cal index c (rd_fs s)" "0 < R (inode_block (fs_sb (rd_fs s)) D index)"
    and F: "F = file_data (fs_sb (rd_fs s)) D m (inode_at (fs_sb (rd_fs s)) D index) c" and inv: "rd_inv g pos F buf sz s"
    and part: "rd_p s = 0" "pos = unat idx * n + unat ua" "unat ua < n" "unat idx \<le> c"
    and sz: "sz < 2 ^ 32" "unat bs = n" and k: "k + 16 < 2 ^ 32" "c < 2 ^ 32 - 1"
  shows "\<exists>idx' s'. rd_head ops mal cal (the_ref (fs_sb (rd_fs s)) D index) bs ua idx s = Some (EOK, idx', s') \<and>
    rd_inv g pos F buf sz s' \<and> (\<exists>cd. rd_fs s' = (rd_fs s)\<lparr>fs_bdev := cd\<rparr>) \<and>
    on_disk (ready_dev N) (part_block content) N n (k + 16) D R (rd_fs s') \<and>
    (rd_size s' = 0 \<or> pos + rd_p s' = unat idx' * n) \<and> unat idx \<le> unat idx'"
proof (cases "ua = 0")
  case True
  then show ?thesis using on_disk_mono[OF on] inv part
    by (intro exI[of _ idx] exI[of _ s]) (auto simp: rd_head_def intro!: exI[of _ "fs_bdev (rd_fs s)"])
next
  case False
  let ?len = "if ucast (bs - ua) < rd_size s then ucast (bs - ua) else rd_size s"
  have d: "unat (bs - ua) = n - unat ua" "unat (ucast (bs - ua) :: u64) = n - unat ua"
    using part(3) sz(2) unat_less[of bs] by (simp_all add: unat_sub word_le_nat_alt unat_ucast_mod)
  have "unat ua \<noteq> 0" using False by (simp add: unat_eq_zero)
  then have len: "unat ua + unat ?len \<le> n" "unat ua < n" "0 < unat ua + unat ?len" "unat ?len \<le> unat (rd_size s)"
    using part d(2) by (auto simp: word_less_nat_alt)
  from rd_part_ok[OF on map refl F inv _ len sz k(1), of idx] part(1,2) obtain cd s' where r:
    "ext4_fs_get_inode_dblk_idx ops mal cal (the_ref (fs_sb (rd_fs s)) D index) idx True (rd_fs s) =
      Some (EOK, fblk (fs_sb (rd_fs s)) D m (inode_at (fs_sb (rd_fs s)) D index) (unat idx), (rd_fs s)\<lparr>fs_bdev := cd\<rparr>)"
    "fblk (fs_sb (rd_fs s)) D m (inode_at (fs_sb (rd_fs s)) D index) (unat idx) \<noteq> 0"
    "rd_bytes ops (fblk (fs_sb (rd_fs s)) D m (inode_at (fs_sb (rd_fs s)) D index) (unat idx) * ucast bs + ucast ua) (ucast ?len) (s\<lparr>rd_fs := (rd_fs s)\<lparr>fs_bdev := cd\<rparr>\<rparr>) = Some (EOK, s')"
    "rd_size s' = rd_size s" "rd_p s' = rd_p s" "rd_inv g pos F buf sz (rd_advance ?len s')" "\<exists>cd. rd_fs s' = (rd_fs s)\<lparr>fs_bdev := cd\<rparr>"
    "on_disk (ready_dev N) (part_block content) N n (k + 16) D R (rd_fs s')" by auto
  have i1: "unat (idx + 1) = unat idx + 1" using part(4) k(2) by (simp add: unat_word_ariths)
  have e: "rd_size (rd_advance ?len s') = 0 \<or> pos + rd_p (rd_advance ?len s') = unat (idx + 1) * n"
    using part(1-3) r(4,5) d(2) i1 by (auto simp: rd_advance_def)
  have "rd_head ops mal cal (the_ref (fs_sb (rd_fs s)) D index) bs ua idx s = Some (EOK, idx + 1, rd_advance ?len s')"
    using r(1-3) False by (simp add: rd_head_def Let_def)
  then show ?thesis using r(6-8) e i1
    by - (rule exI[of _ "idx + 1"], rule exI[of _ "rd_advance ?len s'"], simp add: rd_advance_def)
qed

lemma rd_tail_ok:
  assumes on: "on_disk (ready_dev N) (part_block content) N n k D R (rd_fs s)"
    and map: "can_map N n m D mal cal index c (rd_fs s)" "0 < R (inode_block (fs_sb (rd_fs s)) D index)"
    and F: "F = file_data (fs_sb (rd_fs s)) D m (inode_at (fs_sb (rd_fs s)) D index) c" and inv: "rd_inv g pos F buf sz s"
    and part: "rd_size s = 0 \<or> pos + rd_p s = unat idx * n" "unat (rd_size s) \<le> n"
    and sz: "sz < 2 ^ 32" "unat bs = n" and k: "k + 16 < 2 ^ 32"
  shows "\<exists>s'. rd_tail ops mal cal (the_ref (fs_sb (rd_fs s)) D index) bs idx s = Some (EOK, s') \<and>
    rd_inv g pos F buf sz s' \<and> rd_size s' = 0 \<and> (\<exists>cd. rd_fs s' = (rd_fs s)\<lparr>fs_bdev := cd\<rparr>) \<and>
    on_disk (ready_dev N) (part_block content) N n (k + 16) D R (rd_fs s')"
proof (cases "rd_size s = 0")
  case True
  then show ?thesis using on_disk_mono[OF on] inv
    by (intro exI[of _ s]) (auto simp: rd_tail_def intro!: exI[of _ "fs_bdev (rd_fs s)"])
next
  case False
  then have len: "unat (0 :: u32) + unat (rd_size s) \<le> n" "unat (0 :: u32) < n" "0 < unat (0 :: u32) + unat (rd_size s)" "unat (rd_size s) \<le> unat (rd_size s)"
    using part(2) by (auto simp: unat_gt_0 intro: order_less_le_trans[of 0 "unat (rd_size s)"])
  from rd_part_ok[OF on map refl F inv _ len sz k, of idx] part(1) False obtain cd s' where r:
    "ext4_fs_get_inode_dblk_idx ops mal cal (the_ref (fs_sb (rd_fs s)) D index) idx True (rd_fs s) =
      Some (EOK, fblk (fs_sb (rd_fs s)) D m (inode_at (fs_sb (rd_fs s)) D index) (unat idx), (rd_fs s)\<lparr>fs_bdev := cd\<rparr>)"
    "rd_bytes ops (fblk (fs_sb (rd_fs s)) D m (inode_at (fs_sb (rd_fs s)) D index) (unat idx) * ucast bs) (ucast (rd_size s)) (s\<lparr>rd_fs := (rd_fs s)\<lparr>fs_bdev := cd\<rparr>\<rparr>) = Some (EOK, s')"
    "rd_size s' = rd_size s" "rd_inv g pos F buf sz (rd_advance (rd_size s) s')" "\<exists>cd. rd_fs s' = (rd_fs s)\<lparr>fs_bdev := cd\<rparr>"
    "on_disk (ready_dev N) (part_block content) N n (k + 16) D R (rd_fs s')" by auto
  have "rd_tail ops mal cal (the_ref (fs_sb (rd_fs s)) D index) bs idx s = Some (EOK, rd_advance (rd_size s) s')"
    using r(1-3) False by (simp add: rd_tail_def Let_def)
  then show ?thesis using r(3-6)
    by - (rule exI[of _ "rd_advance (rd_size s) s'"], simp add: rd_advance_def)
qed

lemma rd_parts_ok:
  assumes on: "on_disk (ready_dev N) (part_block content) N n k D R (rd_fs s)"
    and map: "can_map N n m D mal cal index c (rd_fs s)" "0 < R (inode_block (fs_sb (rd_fs s)) D index)"
    and F: "F = file_data (fs_sb (rd_fs s)) D m (inode_at (fs_sb (rd_fs s)) D index) c" and inv: "rd_inv g pos F buf sz s"
    and part: "rd_p s = 0" "pos = unat idx * n + unat ua" "unat ua < n" "unat lst = (pos + sz) div n" "unat lst \<le> c" "unat lst - unat idx \<le> t"
    and sz: "sz < 2 ^ 32" "unat bs = n" and k: "k + 32 + 16 * t < 2 ^ 32" "c < 2 ^ 32 - 1"
  shows "\<exists>s'. rd_parts ops mal cal (the_ref (fs_sb (rd_fs s)) D index) bs ua idx lst s = Some (EOK, s') \<and>
    rd_inv g pos F buf sz s' \<and> rd_size s' = 0 \<and> (\<exists>cd. rd_fs s' = (rd_fs s)\<lparr>fs_bdev := cd\<rparr>) \<and>
    on_disk (ready_dev N) (part_block content) N n (k + 32 + 16 * t) D R (rd_fs s')"
proof -
  let ?ref = "the_ref (fs_sb (rd_fs s)) D index"
  have n0: "0 < n" using part(3) by simp
  have "unat idx * n \<le> pos + sz" using part(2) by simp
  then have "unat idx \<le> (pos + sz) div n" using n0 by (simp add: less_eq_div_iff_mult_less_eq)
  then have "unat idx \<le> c" using part(4,5) by simp
  then obtain idx' s1 where h: "rd_head ops mal cal ?ref bs ua idx s = Some (EOK, idx', s1)"
    "rd_inv g pos F buf sz s1" "\<exists>cd. rd_fs s1 = (rd_fs s)\<lparr>fs_bdev := cd\<rparr>"
    "on_disk (ready_dev N) (part_block content) N n (k + 16) D R (rd_fs s1)" "rd_size s1 = 0 \<or> pos + rd_p s1 = unat idx' * n" "unat idx \<le> unat idx'"
    using rd_head_ok[OF on map F inv part(1-3) _ sz] k by auto
  have m1: "can_map N n m D mal cal index c (rd_fs s1)" "0 < R (inode_block (fs_sb (rd_fs s1)) D index)" "fs_sb (rd_fs s1) = fs_sb (rd_fs s)"
    using h(3) map by auto
  have F1: "F = file_data (fs_sb (rd_fs s1)) D m (inode_at (fs_sb (rd_fs s1)) D index) c" using F m1(3) by simp
  have "\<exists>idx2 s2. blocks_loop ops mal cal ?ref bs lst idx' 0 0 0 s1 = Some (EOK, idx2, s2) \<and> rd_inv g pos F buf sz s2 \<and>
    (\<exists>cd. rd_fs s2 = (rd_fs s)\<lparr>fs_bdev := cd\<rparr>) \<and> on_disk (ready_dev N) (part_block content) N n (k + 16 + 16 * t) D R (rd_fs s2) \<and>
    (rd_size s2 = 0 \<or> pos + rd_p s2 = unat idx2 * n) \<and> unat (rd_size s2) \<le> n"
  proof (cases "rd_size s1 = 0")
    case True
    then have "blocks_loop ops mal cal ?ref bs lst idx' 0 0 0 s1 = Some (EOK, idx', s1)"
      using n0 sz(2) by (subst blocks_loop.simps) (auto simp: word_le_nat_alt unat_ucast_mod)
    then show ?thesis using True h on_disk_mono[OF h(4)] by - (rule exI[of _ idx'], rule exI[of _ s1], simp)
  next
    case False
    then have q: "pos + rd_p s1 = unat idx' * n" using h(5) by simp
    have "k + 16 + 16 * (unat lst - unat idx') < 2 ^ 32" using k part(6) h(6) by simp
    from blocks_loop_ok[OF h(4) m1(1,2) refl F1 h(2) q part(4,5) _ sz n0 this, of 0 0 0] obtain s2 where b:
      "blocks_loop ops mal cal ?ref bs lst idx' 0 0 0 s1 = Some (EOK, lst, s2)" "rd_inv g pos F buf sz s2"
      "pos + rd_p s2 = unat lst * n" "\<exists>cd. rd_fs s2 = (rd_fs s1)\<lparr>fs_bdev := cd\<rparr>"
      "on_disk (ready_dev N) (part_block content) N n (k + 16 + 16 * (unat lst - unat idx')) D R (rd_fs s2)" unfolding m1(3) by auto
    have "unat (rd_size s2) = (pos + sz) mod n"
      using b(2,3) div_mult_mod_eq[of "pos + sz" n] unfolding rd_inv_def part(4) by linarith
    then have "unat (rd_size s2) \<le> n" using n0 by simp
    moreover have "on_disk (ready_dev N) (part_block content) N n (k + 16 + 16 * t) D R (rd_fs s2)"
      by (rule on_disk_mono[OF b(5)]) (use part(6) h(6) in simp)
    moreover have "\<exists>cd. rd_fs s2 = (rd_fs s)\<lparr>fs_bdev := cd\<rparr>" using b(4) h(3) by auto
    ultimately show ?thesis using b(1-3) by blast
  qed
  then obtain idx2 s2 where b: "blocks_loop ops mal cal ?ref bs lst idx' 0 0 0 s1 = Some (EOK, idx2, s2)" "rd_inv g pos F buf sz s2"
    "\<exists>cd. rd_fs s2 = (rd_fs s)\<lparr>fs_bdev := cd\<rparr>" "on_disk (ready_dev N) (part_block content) N n (k + 16 + 16 * t) D R (rd_fs s2)"
    "rd_size s2 = 0 \<or> pos + rd_p s2 = unat idx2 * n" "unat (rd_size s2) \<le> n" by blast
  have m2: "can_map N n m D mal cal index c (rd_fs s2)" "0 < R (inode_block (fs_sb (rd_fs s2)) D index)" "fs_sb (rd_fs s2) = fs_sb (rd_fs s)"
    using b(3) map by auto
  have F2: "F = file_data (fs_sb (rd_fs s2)) D m (inode_at (fs_sb (rd_fs s2)) D index) c" using F m2(3) by simp
  from rd_tail_ok[OF b(4) m2(1,2) F2 b(2,5,6) sz] k obtain s3 where t: "rd_tail ops mal cal ?ref bs idx2 s2 = Some (EOK, s3)"
    "rd_inv g pos F buf sz s3" "rd_size s3 = 0" "\<exists>cd. rd_fs s3 = (rd_fs s2)\<lparr>fs_bdev := cd\<rparr>"
    "on_disk (ready_dev N) (part_block content) N n (k + 32 + 16 * t) D R (rd_fs s3)" unfolding m2(3) by (auto simp: add.commute add.left_commute)
  have "rd_parts ops mal cal ?ref bs ua idx lst s = Some (EOK, s3)" using h(1) b(1) t(1) by (simp add: rd_parts_def)
  moreover have "\<exists>cd. rd_fs s3 = (rd_fs s)\<lparr>fs_bdev := cd\<rparr>" using t(4) b(3) by auto
  ultimately show ?thesis using t by blast
qed

text \<open>A read returns the bytes of the file from its position on, as many as were asked for or as the file has.\<close>

lemma fread_ok:
  assumes on: "on_disk (ready_dev N) (part_block content) N n k D R fs" and map: "can_map N n m D mal cal (f_inode f) c fs"
    and F: "F = file_data (fs_sb fs) D m (inode_at (fs_sb fs) D (f_inode f)) c"
    and fz: "fz = ext4_inode_get_size (fs_sb fs) (inode_at (fs_sb fs) D (f_inode f))" "unat fz \<le> c * n" "fpos f \<le> fz"
    and bs: "ext4_sb_get_block_size (fs_sb fs) = Some bs" "unat bs = n" "0 < n"
    and f: "f_mp f" "f_flags f AND O_WRONLY = 0" "\<not> (ext4_inode_is_type (fs_sb fs) (inode_at (fs_sb fs) D (f_inode f)) EXT4_INODE_MODE_SOFTLINK \<and> fz < 60)"
    and len: "len = min (unat sz) (unat fz - unat (fpos f))" "len < 2 ^ 32" "len \<le> length buf" and sz0: "sz \<noteq> 0"
    and k: "k + 60 + 16 * (len div n) < 2 ^ 32" "c < 2 ^ 32 - 1"
  shows "\<exists>cd. ext4_fread ops mal cal f buf sz rcnt fs =
      Some (EOK, take len (drop (unat (fpos f)) F) @ drop len buf, of_nat len, f\<lparr>fsize := fz, fpos := fpos f + of_nat len\<rparr>, fs\<lparr>fs_bdev := cd\<rparr>) \<and>
    on_disk (ready_dev N) (part_block content) N n (k + 60 + 16 * (len div n)) D R (fs\<lparr>fs_bdev := cd\<rparr>)"
proof -
  let ?l = "inode_block (fs_sb fs) D (f_inode f)" and ?ref = "the_ref (fs_sb fs) D (f_inode f)" and ?pos = "unat (fpos f)"
  have ok: "mal_ok n mal" "inode_ok (fs_sb fs) N D (f_inode f)" using map by (auto simp: can_map_def)
  from lsrc.get_inode_ref_ok[OF on ok] k obtain cd where r: "ext4_fs_get_inode_ref ops mal (f_inode f) fs = Some (EOK, ?ref, fs\<lparr>fs_bdev := cd\<rparr>)"
    "on_disk (ready_dev N) (part_block content) N n (k + 3) D (R(?l := R ?l + 1)) (fs\<lparr>fs_bdev := cd\<rparr>)" by auto
  have gi: "get_inode ?ref (fs\<lparr>fs_bdev := cd\<rparr>) = Some (inode_at (fs_sb fs) D (f_inode f))"
    using get_inode_held[OF r(2)] ok(2) by simp
  have lF: "length F = c * n" unfolding F file_data_def
    by (subst length_blocks[of 0 c _ n]) (use map in \<open>auto simp: can_map_def file_ok_def\<close>)
  let ?sz = "if fz - fpos f < sz then fz - fpos f else sz" and ?f = "f\<lparr>fsize := fz\<rparr>" and ?bs = "ucast bs :: u64"
  have usz: "unat ?sz = len" using len(1) fz(3) by (auto simp: word_less_nat_alt unat_sub word_le_nat_alt)
  have ubs: "unat ?bs = n" using bs(2) by (simp add: unat_ucast_mod order_less_trans[OF unat_less])
  have sum: "?pos + len \<le> unat fz" using len(1) fz(3) by (simp add: word_le_nat_alt)
  then have c1: "?pos + len \<le> c * n" using fz(2) by simp
  have "(?pos + len) div n \<le> c * n div n" using c1 by (rule div_le_mono)
  then have c2: "(?pos + len) div n \<le> c" using bs(3) by simp
  have "?pos div n \<le> (?pos + len) div n" by (rule div_le_mono) simp
  then have c3: "?pos div n < 2 ^ 32" "(?pos + len) div n < 2 ^ 32" using c2 k by simp_all
  have "?pos mod n + len mod n < 2 * n" using mod_less_divisor[OF bs(3), of ?pos] mod_less_divisor[OF bs(3), of len] by linarith
  then have "(?pos mod n + len mod n) div n < 2" by (rule less_mult_imp_div_less)
  then have t: "(?pos + len) div n - ?pos div n \<le> len div n + 1" using div_add1_eq[of ?pos len n] by linarith
  let ?s = "\<lparr>rd_buf = buf, rd_p = 0, rd_size = ?sz, rd_cnt = 0, rd_file = ?f, rd_fs = fs\<lparr>fs_bdev := cd\<rparr>\<rparr>"
  let ?idx = "ucast (fpos f div ?bs) :: u32" and ?lst = "ucast ((fpos f + ?sz) div ?bs) :: u32" and ?ua = "ucast (fpos f mod ?bs) :: u32"
  have i1: "unat ?idx = ?pos div n" using c3(1) ubs by (simp add: unat_ucast_mod unat_div)
  have "?pos + len < 2 ^ 64" using sum unat_less[of fz] by simp
  then have "unat (fpos f + ?sz) = ?pos + len" using usz by (simp only: unat_word_ariths) simp
  then have i2: "unat ?lst = (?pos + len) div n" using c3(2) ubs by (simp add: unat_ucast_mod unat_div)
  have "unat (fpos f mod ?bs) < 2 ^ 32" using ubs bs(2,3) unat_less[of bs] order_less_trans[OF mod_less_divisor[OF bs(3)]] by (simp add: unat_mod)
  then have i3: "unat ?ua = ?pos mod n" using ubs by (simp add: unat_ucast_mod unat_mod)
  have inv: "rd_inv ?f ?pos F buf len ?s"
    using usz lF c1 len(3) \<open>?pos + len < 2 ^ 64\<close> by (simp add: rd_inv_def)
  have "\<exists>s'. rd_parts ops mal cal (the_ref (fs_sb (rd_fs ?s)) D (f_inode f)) bs ?ua ?idx ?lst ?s = Some (EOK, s') \<and>
    rd_inv ?f ?pos F buf len s' \<and> rd_size s' = 0 \<and> (\<exists>cd. rd_fs s' = (rd_fs ?s)\<lparr>fs_bdev := cd\<rparr>) \<and>
    on_disk (ready_dev N) (part_block content) N n (k + 3 + 32 + 16 * (len div n + 1)) D (R(?l := R ?l + 1)) (rd_fs s')"
  proof (rule rd_parts_ok[OF _ _ _ _ inv])
    show "unat ?lst - unat ?idx \<le> len div n + 1" unfolding i1 i2 by (rule t)
    show "unat ?lst \<le> c" unfolding i2 by (rule c2)
    show "?pos = unat ?idx * n + unat ?ua" unfolding i1 i3 by simp
    show "unat ?ua < n" unfolding i3 using bs(3) by simp
    show "unat ?lst = (?pos + len) div n" by (rule i2)
    show "k + 3 + 32 + 16 * (len div n + 1) < 2 ^ 32" using k(1) by simp
  qed (use r(2) map F bs len k(2) in simp_all)
  then obtain s' where p: "rd_parts ops mal cal ?ref bs ?ua ?idx ?lst ?s = Some (EOK, s')" "rd_inv ?f ?pos F buf len s'" "rd_size s' = 0"
    "\<exists>cd. rd_fs s' = fs\<lparr>fs_bdev := cd\<rparr>" "on_disk (ready_dev N) (part_block content) N n (k + 51 + 16 * (len div n)) D (R(?l := R ?l + 1)) (rd_fs s')"
    by (auto simp: algebra_simps)
  have "fs_sb (rd_fs s') = fs_sb fs" using p(4) by auto
  with lsrc.put_inode_ref_ok[OF p(5), of "f_inode f"] p(4) obtain cd' where e:
    "ext4_fs_put_inode_ref ops ?ref (rd_fs s') = Some (EOK, fs\<lparr>fs_bdev := cd'\<rparr>)"
    "on_disk (ready_dev N) (part_block content) N n (k + 51 + 16 * (len div n) + 1) D R (fs\<lparr>fs_bdev := cd'\<rparr>)" by auto
  have fin: "rd_buf s' = take len (drop ?pos F) @ drop len buf" "rd_cnt s' = of_nat len" "rd_file s' = f\<lparr>fsize := fz, fpos := fpos f + of_nat len\<rparr>"
    using p(2,3) by (auto simp: rd_inv_def word_unat_eq_iff unat_of_nat)
  have "ext4_fread ops mal cal f buf sz rcnt fs = Some (EOK, rd_buf s', rd_cnt s', rd_file s', fs\<lparr>fs_bdev := cd'\<rparr>)"
    using f sz0 r(1) gi bs(1) p(1) e(1) fz(1) by (auto simp: ext4_fread_def Let_def)
  then show ?thesis using fin on_disk_mono[OF e(2)] by auto
qed

end

end
