(* ===== verification/Ext4_Dir.thy ===== *)
theory Ext4_Dir
  imports Ext4_Dirent Ext4_Hash Ext4_File
begin

text \<open>
  Directories of lwext4: the functions of lwext4/src/ext4_dir.c that read blocks, and looking up a name
  through the hash index of lwext4/src/ext4_dir_idx.c. A search result is a handle of a block and the
  position of an entry in it; \<open>block.lb_id\<close> 0 stands for no result. The index of a directory is the list of the
  blocks on the path with the position of the current entry in each.
\<close>

section \<open>Definitions\<close>

definition ENOTDIR :: int where "ENOTDIR = 20"
definition EXT4_ERR_BAD_DX_DIR :: int where "EXT4_ERR_BAD_DX_DIR = - 25000"
definition EXT4_FCOM_DIR_INDEX :: u32 where "EXT4_FCOM_DIR_INDEX = 0x0020"
definition EXT4_INODE_FLAG_INDEX :: u32 where "EXT4_INODE_FLAG_INDEX = 0x00001000"
definition EXT4_SUPERBLOCK_FLAGS_UNSIGNED_HASH :: u32 where "EXT4_SUPERBLOCK_FLAGS_UNSIGNED_HASH = 0x0002"
definition hash_seed :: "mem \<Rightarrow> hash4" where
  "hash_seed sb = (get32 sb 236, get32 sb 240, get32 sb 244, get32 sb 248)"

record dir_search_result =
  sr_block :: ext4_block
  sr_dentry :: nat

definition no_result :: dir_search_result where
  "no_result = \<lparr>sr_block = no_block, sr_dentry = 0\<rparr>"

definition ext4_dir_destroy_result :: "'s bdif \<Rightarrow> dir_search_result \<Rightarrow> 's fs \<Rightarrow> (int \<times> 's fs) option" where
  "ext4_dir_destroy_result ops result fs =
     (if lb_id (sr_block result) \<noteq> 0 then fs_block_set ops (sr_block result) fs else Some (EOK, fs))"

text \<open>The directory of a reference, as the checksums need it.\<close>

definition dir_of :: "inode_ref \<Rightarrow> 's fs \<Rightarrow> (mem \<times> u32) option" where
  "dir_of ref fs = map_option (\<lambda>inode. (inode, in_index ref)) (get_inode ref fs)"

text \<open>Reading a block of a directory: the address, the block, and the check of its checksum, which is
  only reported. The first result is the error, the second the handle.\<close>

definition leaf_get ::
  "'s bdif \<Rightarrow> malloc \<Rightarrow> (u16 \<Rightarrow> bool) \<Rightarrow> inode_ref \<Rightarrow> u32 \<Rightarrow> 's fs \<Rightarrow> (int \<times> ext4_block \<times> 's fs) option" where
  "leaf_get ops mal cal ref iblock fs = do {
     (r, fblock, fs) \<leftarrow> ext4_fs_get_inode_dblk_idx ops mal cal ref iblock False fs;
     if r \<noteq> EOK then Some (r, no_block, fs)
     else do {
       (r, b, cd) \<leftarrow> ext4_trans_block_get ops mal no_block fblock (fs_bdev fs);
       let fs = fs\<lparr>fs_bdev := cd\<rparr>;
       if r \<noteq> EOK then Some (r, b, fs)
       else do {
         dir \<leftarrow> dir_of ref fs;
         dat \<leftarrow> blk_data b (fs_bdev fs);
         _ \<leftarrow> ext4_dir_csum_verify (fs_sb fs) dir dat;
         Some (EOK, b, fs) } } }"

subsection \<open>The hash index\<close>

text \<open>Entries of a node begin at an offset of the block: the first holds the limit and the count instead of
  a hash, each has 8 bytes.\<close>

definition climit_limit :: "byte list \<Rightarrow> nat \<Rightarrow> u16 option" where "climit_limit dat en = rd16 dat en"
definition climit_count :: "byte list \<Rightarrow> nat \<Rightarrow> u16 option" where "climit_count dat en = rd16 dat (en + 2)"
definition dx_entry_hash :: "byte list \<Rightarrow> nat \<Rightarrow> nat \<Rightarrow> u32 option" where "dx_entry_hash dat en i = rd32 dat (en + 8 * i)"
definition dx_entry_block :: "byte list \<Rightarrow> nat \<Rightarrow> nat \<Rightarrow> u32 option" where "dx_entry_block dat en i = rd32 dat (en + 8 * i + 4)"

record dir_idx_block =
  dx_b :: ext4_block
  dx_entries :: nat
  dx_position :: nat

text \<open>\<open>ext4_dir_dx_get_climit\<close>: the offset of the entries of a node, or nothing.\<close>

definition ext4_dir_dx_get_climit :: "mem \<Rightarrow> byte list \<Rightarrow> nat option option" where
  "ext4_dir_dx_get_climit sb dat = do {
     block_size \<leftarrow> ext4_sb_get_block_size sb;
     entry_len \<leftarrow> ext4_dir_en_get_entry_len dat 0;
     if entry_len = 12 then do {
       l \<leftarrow> ext4_dir_en_get_entry_len dat 12;
       if ucast l \<noteq> block_size - 12 then Some None
       else do {
         z \<leftarrow> rd32 dat 24;
         n \<leftarrow> rd8 dat 29;
         Some (if z \<noteq> 0 then None else if n \<noteq> 8 then None else Some 32) } }
     else if ucast entry_len = block_size then Some (Some 8)
     else Some None }"

text \<open>The checksum is computed with its own field 0; the code stores that and stores the old value back.\<close>

definition ext4_dir_dx_checksum :: "mem \<Rightarrow> mem \<times> u32 \<Rightarrow> byte list \<Rightarrow> nat \<Rightarrow> u16 \<Rightarrow> nat \<Rightarrow> u32 option" where
  "ext4_dir_dx_checksum sb dir dat count_offset count t =
     (if ext4_sb_feature_ro_com sb EXT4_FRO_COM_METADATA_CSUM then do {
        let sz = count_offset + unat count * 8;
        dat \<leftarrow> buf_set (t + 4) [0, 0, 0, 0] dat;
        if length dat < sz then None
        else Some (ext4_crc32c (ext4_crc32c (ext4_crc32c (ext4_crc32c (ext4_crc32c EXT4_CRC32_INIT (uuid sb)) (le32 (snd dir)))
               (le32 (ext4_inode_get_generation (fst dir)))) (take sz dat)) (take 8 (drop t dat))) }
      else Some 0)"

definition dx_tail :: "u32 \<Rightarrow> nat \<Rightarrow> u16 \<Rightarrow> nat option" where
  "dx_tail block_size coff limit = (if coff + unat limit * 8 > unat (block_size - 8) then None else Some (coff + 8 * unat limit))"

definition ext4_dir_dx_csum_verify :: "mem \<Rightarrow> mem \<times> u32 \<Rightarrow> byte list \<Rightarrow> bool option" where
  "ext4_dir_dx_csum_verify sb dir dat =
     (if ext4_sb_feature_ro_com sb EXT4_FRO_COM_METADATA_CSUM then do {
        block_size \<leftarrow> ext4_sb_get_block_size sb;
        climit \<leftarrow> ext4_dir_dx_get_climit sb dat;
        case climit of
          None \<Rightarrow> Some True
        | Some coff \<Rightarrow> do {
            limit \<leftarrow> climit_limit dat coff;
            cnt \<leftarrow> climit_count dat coff;
            case dx_tail block_size coff limit of
              None \<Rightarrow> Some True
            | Some t \<Rightarrow> do {
                c \<leftarrow> ext4_dir_dx_checksum sb dir dat coff cnt t;
                stored \<leftarrow> rd32 dat (t + 4);
                Some (stored = c) } } }
      else Some True)"

definition ext4_dir_set_dx_csum :: "mem \<Rightarrow> mem \<times> u32 \<Rightarrow> byte list \<Rightarrow> byte list option" where
  "ext4_dir_set_dx_csum sb dir dat =
     (if ext4_sb_feature_ro_com sb EXT4_FRO_COM_METADATA_CSUM then do {
        block_size \<leftarrow> ext4_sb_get_block_size sb;
        climit \<leftarrow> ext4_dir_dx_get_climit sb dat;
        case climit of
          None \<Rightarrow> Some dat
        | Some coff \<Rightarrow> do {
            limit \<leftarrow> climit_limit dat coff;
            cnt \<leftarrow> climit_count dat coff;
            case dx_tail block_size coff limit of
              None \<Rightarrow> Some dat
            | Some t \<Rightarrow> do {
                c \<leftarrow> ext4_dir_dx_checksum sb dir dat coff cnt t;
                buf_set (t + 4) (le32 c) dat } } }
      else Some dat)"

text \<open>The number of entries for which a node has room behind \<open>used\<close> bytes.\<close>

definition dx_room :: "mem \<Rightarrow> u32 \<Rightarrow> u32 \<Rightarrow> u32" where
  "dx_room sb block_size used =
     (let entry_space = block_size - used;
          entry_space = (if ext4_sb_feature_ro_com sb EXT4_FRO_COM_METADATA_CSUM then entry_space - 8 else entry_space) in
      entry_space div 8)"

text \<open>\<open>ext4_dir_hinfo_init\<close> on the root of an index: the error and the hash of the name.\<close>

definition ext4_dir_hinfo_init :: "mem \<Rightarrow> byte list \<Rightarrow> byte list \<Rightarrow> (int \<times> u32) option" where
  "ext4_dir_hinfo_init sb root name = do {
     version \<leftarrow> rd8 root 28;
     unused \<leftarrow> rd8 root 31;
     levels \<leftarrow> rd8 root 30;
     if version \<noteq> 0 \<and> version \<noteq> 1 \<and> version \<noteq> 2 then Some (EXT4_ERR_BAD_DX_DIR, 0)
     else if unused \<noteq> 0 then Some (EXT4_ERR_BAD_DX_DIR, 0)
     else if levels > 1 then Some (EXT4_ERR_BAD_DX_DIR, 0)
     else do {
       block_size \<leftarrow> ext4_sb_get_block_size sb;
       limit \<leftarrow> climit_limit root 32;
       if ucast limit \<noteq> dx_room sb block_size 32 then Some (EXT4_ERR_BAD_DX_DIR, 0)
       else
         let v = uint version;
             v = (if v \<le> 2 \<and> ext4_sb_check_flag sb EXT4_SUPERBLOCK_FLAGS_UNSIGNED_HASH then v + 3 else v);
             (r, hash, _) = ext2_htree_hash ((!) name) (int (length name)) (Some (hash_seed sb)) v in
         Some (r, hash) } }"

text \<open>The binary search of a node.\<close>

function dx_bs_loop :: "u32 \<Rightarrow> byte list \<Rightarrow> nat \<Rightarrow> int \<Rightarrow> int \<Rightarrow> int option" where
  "dx_bs_loop hash dat en p q =
     (if p \<le> q then
        (let m = p + (q - p) div 2 in
         Option.bind (dx_entry_hash dat en (nat m)) (\<lambda>h.
           if h > hash then dx_bs_loop hash dat en p (m - 1) else dx_bs_loop hash dat en (m + 1) q))
      else Some p)"
  by pat_completeness auto
termination
  by (relation "measure (\<lambda>(hash, dat, en, p, q). nat (q - p + 1))") (auto simp: nat_less_iff)

declare dx_bs_loop.simps [simp del]

definition dx_search :: "u32 \<Rightarrow> byte list \<Rightarrow> nat \<Rightarrow> u16 \<Rightarrow> nat option option" where
  "dx_search hash dat en limit = do {
     cnt \<leftarrow> climit_count dat en;
     if cnt = 0 \<or> cnt > limit then Some None
     else map_option (\<lambda>p. Some (nat (p - 1))) (dx_bs_loop hash dat en 1 (int (unat cnt) - 1)) }"

text \<open>Going to the node below: the error, the handle and the limit of the node.\<close>

definition dx_child ::
  "'s bdif \<Rightarrow> malloc \<Rightarrow> (u16 \<Rightarrow> bool) \<Rightarrow> inode_ref \<Rightarrow> u32 \<Rightarrow> ext4_block \<Rightarrow> 's fs \<Rightarrow> (int \<times> ext4_block \<times> u16 \<times> 's fs) option" where
  "dx_child ops mal cal ref n_blk tmp_blk fs = do {
     (r, fblk, fs) \<leftarrow> ext4_fs_get_inode_dblk_idx ops mal cal ref n_blk False fs;
     if r \<noteq> EOK then Some (r, tmp_blk, 0, fs)
     else do {
       (r, tmp_blk, cd) \<leftarrow> ext4_trans_block_get ops mal tmp_blk fblk (fs_bdev fs);
       let fs = fs\<lparr>fs_bdev := cd\<rparr>;
       if r \<noteq> EOK then Some (r, tmp_blk, 0, fs)
       else do {
         dat \<leftarrow> blk_data tmp_blk (fs_bdev fs);
         limit \<leftarrow> climit_limit dat 8;
         block_size \<leftarrow> ext4_sb_get_block_size (fs_sb fs);
         let entry_space = (ucast (block_size - 8) :: u16);
         let entry_space = (if ext4_sb_feature_ro_com (fs_sb fs) EXT4_FRO_COM_METADATA_CSUM then entry_space - 8 else entry_space);
         if limit \<noteq> entry_space div 8 then do {
           (_, tmp_blk, cd) \<leftarrow> ext4_block_set ops tmp_blk (fs_bdev fs);
           Some (EXT4_ERR_BAD_DX_DIR, tmp_blk, limit, fs\<lparr>fs_bdev := cd\<rparr>) }
         else do {
           dir \<leftarrow> dir_of ref fs;
           _ \<leftarrow> ext4_dir_dx_csum_verify (fs_sb fs) dir dat;
           Some (EOK, tmp_blk, limit, fs) } } } }"

text \<open>Walking down the index. \<open>tmp_blk\<close> is the handle the caller keeps, which changes with every level; the
  results are the error, that handle and the path.\<close>

primrec get_leaf_walk ::
  "'s bdif \<Rightarrow> malloc \<Rightarrow> (u16 \<Rightarrow> bool) \<Rightarrow> inode_ref \<Rightarrow> u32 \<Rightarrow> nat \<Rightarrow> ext4_block \<Rightarrow> nat \<Rightarrow> u16 \<Rightarrow> dir_idx_block list \<Rightarrow> 's fs \<Rightarrow>
   (int \<times> ext4_block \<times> dir_idx_block list \<times> 's fs) option" where
  "get_leaf_walk ops mal cal ref hash 0 tmp_blk en limit dx_blocks fs = do {
     dat \<leftarrow> blk_data tmp_blk (fs_bdev fs);
     at \<leftarrow> dx_search hash dat en limit;
     case at of
       None \<Rightarrow> Some (EXT4_ERR_BAD_DX_DIR, tmp_blk, dx_blocks, fs)
     | Some at \<Rightarrow> Some (EOK, tmp_blk, dx_blocks @ [\<lparr>dx_b = tmp_blk, dx_entries = en, dx_position = at\<rparr>], fs) }"
| "get_leaf_walk ops mal cal ref hash (Suc ind_level) tmp_blk en limit dx_blocks fs = do {
     dat \<leftarrow> blk_data tmp_blk (fs_bdev fs);
     at \<leftarrow> dx_search hash dat en limit;
     case at of
       None \<Rightarrow> Some (EXT4_ERR_BAD_DX_DIR, tmp_blk, dx_blocks, fs)
     | Some at \<Rightarrow> do {
         let dx_blocks = dx_blocks @ [\<lparr>dx_b = tmp_blk, dx_entries = en, dx_position = at\<rparr>];
         n_blk \<leftarrow> dx_entry_block dat en at;
         (r, tmp_blk, limit, fs) \<leftarrow> dx_child ops mal cal ref n_blk tmp_blk fs;
         if r \<noteq> EOK then Some (r, tmp_blk, dx_blocks, fs)
         else get_leaf_walk ops mal cal ref hash ind_level tmp_blk 8 limit dx_blocks fs } }"

definition ext4_dir_dx_get_leaf ::
  "'s bdif \<Rightarrow> malloc \<Rightarrow> (u16 \<Rightarrow> bool) \<Rightarrow> u32 \<Rightarrow> inode_ref \<Rightarrow> ext4_block \<Rightarrow> 's fs \<Rightarrow>
   (int \<times> ext4_block \<times> dir_idx_block list \<times> 's fs) option" where
  "ext4_dir_dx_get_leaf ops mal cal hash ref root_block fs = do {
     root \<leftarrow> blk_data root_block (fs_bdev fs);
     limit \<leftarrow> climit_limit root 32;
     ind_level \<leftarrow> rd8 root 30;
     get_leaf_walk ops mal cal ref hash (unat ind_level) root_block 32 limit [] fs }"

text \<open>Going to the next leaf: up from the last block of the path to the first one with an entry left, whose number
  is the second result.\<close>

fun next_up :: "dir_idx_block list \<Rightarrow> nat \<Rightarrow> 's fs \<Rightarrow> (dir_idx_block list \<times> nat option) option" where
  "next_up path p fs = do {
     dat \<leftarrow> blk_data (dx_b (path ! p)) (fs_bdev fs);
     cnt \<leftarrow> climit_count dat (dx_entries (path ! p));
     let path = path[p := (path ! p)\<lparr>dx_position := dx_position (path ! p) + 1\<rparr>];
     if dx_position (path ! p) < unat cnt then Some (path, Some p)
     else case p of 0 \<Rightarrow> Some (path, None) | Suc p \<Rightarrow> next_up path p fs }"

declare next_up.simps [simp del]

text \<open>Down again, to the first entry of each node.\<close>

primrec next_down ::
  "'s bdif \<Rightarrow> malloc \<Rightarrow> (u16 \<Rightarrow> bool) \<Rightarrow> inode_ref \<Rightarrow> nat \<Rightarrow> nat \<Rightarrow> dir_idx_block list \<Rightarrow> 's fs \<Rightarrow>
   (int \<times> dir_idx_block list \<times> 's fs) option" where
  "next_down ops mal cal ref 0 p path fs = Some (ENOENT, path, fs)"
| "next_down ops mal cal ref (Suc num_handles) p path fs = do {
     dat \<leftarrow> blk_data (dx_b (path ! p)) (fs_bdev fs);
     blk \<leftarrow> dx_entry_block dat (dx_entries (path ! p)) (dx_position (path ! p));
     (r, blk_adr, fs) \<leftarrow> ext4_fs_get_inode_dblk_idx ops mal cal ref blk False fs;
     if r \<noteq> EOK then Some (r, path, fs)
     else do {
       (r, b, cd) \<leftarrow> ext4_trans_block_get ops mal no_block blk_adr (fs_bdev fs);
       let fs = fs\<lparr>fs_bdev := cd\<rparr>;
       if r \<noteq> EOK then Some (r, path, fs)
       else do {
         dir \<leftarrow> dir_of ref fs;
         dat \<leftarrow> blk_data b (fs_bdev fs);
         _ \<leftarrow> ext4_dir_dx_csum_verify (fs_sb fs) dir dat;
         (r, h, cd) \<leftarrow> ext4_block_set ops (dx_b (path ! (p + 1))) (fs_bdev fs);
         let fs = fs\<lparr>fs_bdev := cd\<rparr>;
         if r \<noteq> EOK then Some (r, path[p + 1 := (path ! (p + 1))\<lparr>dx_b := h\<rparr>], fs)
         else next_down ops mal cal ref num_handles (p + 1) (path[p + 1 := \<lparr>dx_b = b, dx_entries = 8, dx_position = 0\<rparr>]) fs } } }"

definition ext4_dir_dx_next_block ::
  "'s bdif \<Rightarrow> malloc \<Rightarrow> (u16 \<Rightarrow> bool) \<Rightarrow> inode_ref \<Rightarrow> u32 \<Rightarrow> dir_idx_block list \<Rightarrow> 's fs \<Rightarrow>
   (int \<times> dir_idx_block list \<times> 's fs) option" where
  "ext4_dir_dx_next_block ops mal cal ref hash path fs = do {
     (path, p) \<leftarrow> next_up path (length path - 1) fs;
     case p of
       None \<Rightarrow> Some (EOK, path, fs)
     | Some p \<Rightarrow> do {
         dat \<leftarrow> blk_data (dx_b (path ! p)) (fs_bdev fs);
         current_hash \<leftarrow> dx_entry_hash dat (dx_entries (path ! p)) (dx_position (path ! p));
         if hash AND 1 = 0 \<and> current_hash AND NOT 1 \<noteq> hash then Some (0, path, fs)
         else next_down ops mal cal ref (length path - 1 - p) p path fs } }"

text \<open>The search through the leaves; the results are \<open>rc\<close> at the label \<open>cleanup\<close>, the search result and the path. An
  error of \<open>ext4_dir_dx_next_block\<close> is a positive number, so the test for a negative one never holds.\<close>

partial_function (option) dx_leaves ::
  "'s bdif \<Rightarrow> malloc \<Rightarrow> (u16 \<Rightarrow> bool) \<Rightarrow> inode_ref \<Rightarrow> byte list \<Rightarrow> u32 \<Rightarrow> dir_idx_block list \<Rightarrow> 's fs \<Rightarrow>
   (int \<times> dir_search_result \<times> dir_idx_block list \<times> 's fs) option" where
  "dx_leaves ops mal cal ref name hash path fs =
     Option.bind (blk_data (dx_b (last path)) (fs_bdev fs)) (\<lambda>dat.
     Option.bind (dx_entry_block dat (dx_entries (last path)) (dx_position (last path))) (\<lambda>leaf_blk_idx.
     Option.bind (leaf_get ops mal cal ref leaf_blk_idx fs) (\<lambda>(rc, b, fs).
       if rc \<noteq> EOK then Some (rc, no_result, path, fs)
       else
         Option.bind (blk_data b (fs_bdev fs)) (\<lambda>dat.
         Option.bind (ext4_dir_find_in_block (fs_sb fs) name dat) (\<lambda>(rc, de).
           if rc = EOK then Option.bind de (\<lambda>de. Some (EOK, \<lparr>sr_block = b, sr_dentry = de\<rparr>, path, fs))
           else
             Option.bind (fs_block_set ops b fs) (\<lambda>(rc2, fs).
               if rc2 \<noteq> EOK then Some (rc, no_result, path, fs)
               else if rc \<noteq> ENOENT then Some (rc, no_result, path, fs)
               else
                 Option.bind (ext4_dir_dx_next_block ops mal cal ref hash path fs) (\<lambda>(rc, path, fs).
                   if rc < 0 then Some (rc, no_result, path, fs)
                   else if rc = ENOENT then dx_leaves ops mal cal ref name hash path fs
                   else Some (ENOENT, no_result, path, fs))))))))"

fun dx_release :: "'s bdif \<Rightarrow> int \<Rightarrow> dir_idx_block list \<Rightarrow> 's fs \<Rightarrow> (int \<times> 's fs) option" where
  "dx_release ops rc [] fs = Some (rc, fs)"
| "dx_release ops rc (d # ds) fs = do {
     (rc2, fs) \<leftarrow> fs_block_set ops (dx_b d) fs;
     dx_release ops (if rc = EOK \<and> rc2 \<noteq> EOK then rc2 else rc) ds fs }"

definition ext4_dir_dx_find_entry ::
  "'s bdif \<Rightarrow> malloc \<Rightarrow> (u16 \<Rightarrow> bool) \<Rightarrow> inode_ref \<Rightarrow> byte list \<Rightarrow> 's fs \<Rightarrow> (int \<times> dir_search_result \<times> 's fs) option" where
  "ext4_dir_dx_find_entry ops mal cal ref name fs = do {
     (rc, root_block_addr, fs) \<leftarrow> ext4_fs_get_inode_dblk_idx ops mal cal ref 0 False fs;
     if rc \<noteq> EOK then Some (rc, no_result, fs)
     else do {
       (rc, root_block, cd) \<leftarrow> ext4_trans_block_get ops mal no_block root_block_addr (fs_bdev fs);
       let fs = fs\<lparr>fs_bdev := cd\<rparr>;
       if rc \<noteq> EOK then Some (rc, no_result, fs)
       else do {
         dir \<leftarrow> dir_of ref fs;
         root \<leftarrow> blk_data root_block (fs_bdev fs);
         _ \<leftarrow> ext4_dir_dx_csum_verify (fs_sb fs) dir root;
         (rc, hash) \<leftarrow> ext4_dir_hinfo_init (fs_sb fs) root name;
         if rc \<noteq> EOK then do {
           (_, fs) \<leftarrow> fs_block_set ops root_block fs;
           Some (EXT4_ERR_BAD_DX_DIR, no_result, fs) }
         else do {
           (rc, root_block, path, fs) \<leftarrow> ext4_dir_dx_get_leaf ops mal cal hash ref root_block fs;
           if rc \<noteq> EOK then do {
             (_, fs) \<leftarrow> fs_block_set ops root_block fs;
             Some (EXT4_ERR_BAD_DX_DIR, no_result, fs) }
           else do {
             (rc, result, path, fs) \<leftarrow> dx_leaves ops mal cal ref name hash path fs;
             (rc, fs) \<leftarrow> dx_release ops rc path fs;
             Some (rc, result, fs) } } } } }"

subsection \<open>Finding an entry\<close>

text \<open>The linear algorithm.\<close>

function find_blocks ::
  "'s bdif \<Rightarrow> malloc \<Rightarrow> (u16 \<Rightarrow> bool) \<Rightarrow> inode_ref \<Rightarrow> byte list \<Rightarrow> u32 \<Rightarrow> u32 \<Rightarrow> 's fs \<Rightarrow> (int \<times> dir_search_result \<times> 's fs) option" where
  "find_blocks ops mal cal ref name total_blocks iblock fs =
     (if iblock < total_blocks then
        Option.bind (leaf_get ops mal cal ref iblock fs) (\<lambda>(r, b, fs).
          if r \<noteq> EOK then Some (r, no_result, fs)
          else
            Option.bind (blk_data b (fs_bdev fs)) (\<lambda>dat.
            Option.bind (ext4_dir_find_in_block (fs_sb fs) name dat) (\<lambda>(r, de).
              if r = EOK then Option.bind de (\<lambda>de. Some (EOK, \<lparr>sr_block = b, sr_dentry = de\<rparr>, fs))
              else
                Option.bind (fs_block_set ops b fs) (\<lambda>(r, fs).
                  if r \<noteq> EOK then Some (r, no_result, fs)
                  else find_blocks ops mal cal ref name total_blocks (iblock + 1) fs))))
      else Some (ENOENT, no_result, fs))"
  by pat_completeness auto
termination
  by (relation "measure (\<lambda>(ops, mal, cal, ref, name, total_blocks, iblock, fs). unat total_blocks - unat iblock)")
     (auto simp: unat_Suc_less word_less_nat_alt)

declare find_blocks.simps [simp del]

text \<open>A broken index loses its flag in the inode, and the directory is searched as if it had none. The
  reference comes back changed.\<close>

definition ext4_dir_find_entry ::
  "'s bdif \<Rightarrow> malloc \<Rightarrow> (u16 \<Rightarrow> bool) \<Rightarrow> inode_ref \<Rightarrow> byte list \<Rightarrow> 's fs \<Rightarrow> (int \<times> dir_search_result \<times> inode_ref \<times> 's fs) option" where
  "ext4_dir_find_entry ops mal cal parent name fs = do {
     inode \<leftarrow> get_inode parent fs;
     (finished, r, result, parent, fs) \<leftarrow>
       (if ext4_sb_feature_com (fs_sb fs) EXT4_FCOM_DIR_INDEX \<and> ext4_inode_has_flag inode EXT4_INODE_FLAG_INDEX then do {
          (r, result, fs) \<leftarrow> ext4_dir_dx_find_entry ops mal cal parent name fs;
          if r \<noteq> EXT4_ERR_BAD_DX_DIR then Some (True, r, result, parent, fs)
          else do {
            inode \<leftarrow> get_inode parent fs;
            fs \<leftarrow> set_inode parent (ext4_inode_clear_flag inode EXT4_INODE_FLAG_INDEX) fs;
            Some (False, r, result, parent\<lparr>in_dirty := True\<rparr>, fs) } }
        else Some (False, EOK, no_result, parent, fs));
     if finished then Some (r, result, parent, fs)
     else do {
       inode \<leftarrow> get_inode parent fs;
       block_size \<leftarrow> ext4_sb_get_block_size (fs_sb fs);
       let total_blocks = ucast (ext4_inode_get_size (fs_sb fs) inode div ucast block_size);
       (r, result, fs) \<leftarrow> find_blocks ops mal cal parent name total_blocks 0 fs;
       Some (r, result, parent, fs) } }"

subsection \<open>Changing a block\<close>

definition ext4_dir_try_insert_entry ::
  "inode_ref \<Rightarrow> ext4_block \<Rightarrow> inode_ref \<Rightarrow> byte list \<Rightarrow> 's fs \<Rightarrow> (int \<times> 's fs) option" where
  "ext4_dir_try_insert_entry parent dst_blk ch name fs = do {
     block_size \<leftarrow> ext4_sb_get_block_size (fs_sb fs);
     inode \<leftarrow> get_inode ch fs;
     dat \<leftarrow> blk_data dst_blk (fs_bdev fs);
     (r, dat) \<leftarrow> insert_from (fs_sb fs) (unat block_size) (required_len (length name)) (inode, in_index ch) name dat 0;
     if r \<noteq> EOK then Some (r, fs)
     else do {
       dir \<leftarrow> dir_of parent fs;
       dat \<leftarrow> ext4_dir_set_csum (fs_sb fs) dir dat;
       cd \<leftarrow> blk_write dst_blk dat (fs_bdev fs);
       cd \<leftarrow> ext4_trans_set_block_dirty dst_blk cd;
       Some (EOK, fs\<lparr>fs_bdev := cd\<rparr>) } }"

definition ext4_dir_remove_entry ::
  "'s bdif \<Rightarrow> malloc \<Rightarrow> (u16 \<Rightarrow> bool) \<Rightarrow> inode_ref \<Rightarrow> byte list \<Rightarrow> 's fs \<Rightarrow> (int \<times> inode_ref \<times> 's fs) option" where
  "ext4_dir_remove_entry ops mal cal parent name fs = do {
     inode \<leftarrow> get_inode parent fs;
     if \<not> ext4_inode_is_type (fs_sb fs) inode EXT4_INODE_MODE_DIRECTORY then Some (ENOTDIR, parent, fs)
     else do {
       (rc, result, parent, fs) \<leftarrow> ext4_dir_find_entry ops mal cal parent name fs;
       if rc \<noteq> EOK then Some (rc, parent, fs)
       else do {
         dat \<leftarrow> blk_data (sr_block result) (fs_bdev fs);
         dat \<leftarrow> remove_at dat (sr_dentry result);
         dir \<leftarrow> dir_of parent fs;
         dat \<leftarrow> ext4_dir_set_csum (fs_sb fs) dir dat;
         cd \<leftarrow> blk_write (sr_block result) dat (fs_bdev fs);
         cd \<leftarrow> ext4_trans_set_block_dirty (sr_block result) cd;
         (rc, fs) \<leftarrow> ext4_dir_destroy_result ops result (fs\<lparr>fs_bdev := cd\<rparr>);
         Some (rc, parent, fs) } } }"

subsection \<open>Iterating over a directory\<close>

record dir_iter =
  curr_blk :: ext4_block
  curr_off :: u64
  curr :: "nat option"

text \<open>The checks of the entry at the current offset; lengths are compared as \<open>int\<close>.\<close>

definition ext4_dir_iterator_set :: "dir_iter \<Rightarrow> u32 \<Rightarrow> 's fs \<Rightarrow> (int \<times> dir_iter) option" where
  "ext4_dir_iterator_set it block_size fs = do {
     let off_in_block = (ucast (curr_off it mod ucast block_size) :: u32);
     let it = it\<lparr>curr := None\<rparr>;
     if off_in_block mod 4 \<noteq> 0 then Some (EIO, it)
     else if off_in_block > block_size - 8 then Some (EIO, it)
     else do {
       dat \<leftarrow> blk_data (curr_blk it) (fs_bdev fs);
       len \<leftarrow> ext4_dir_en_get_entry_len dat (unat off_in_block);
       if off_in_block + ucast len > block_size then Some (EIO, it)
       else do {
         name_len \<leftarrow> ext4_dir_en_get_name_len (fs_sb fs) dat (unat off_in_block);
         if uint name_len > uint len - 8 then Some (EIO, it)
         else Some (EOK, it\<lparr>curr := Some (unat off_in_block)\<rparr>) } } }"

definition iter_release :: "'s bdif \<Rightarrow> dir_iter \<Rightarrow> 's fs \<Rightarrow> (int \<times> dir_iter \<times> 's fs) option" where
  "iter_release ops it fs =
     (if lb_id (curr_blk it) = 0 then Some (EOK, it, fs)
      else do {
        (r, h, cd) \<leftarrow> ext4_block_set ops (curr_blk it) (fs_bdev fs);
        Some (r, it\<lparr>curr_blk := h\<lparr>lb_id := 0\<rparr>\<rparr>, fs\<lparr>fs_bdev := cd\<rparr>) })"

definition ext4_dir_iterator_seek ::
  "'s bdif \<Rightarrow> malloc \<Rightarrow> (u16 \<Rightarrow> bool) \<Rightarrow> inode_ref \<Rightarrow> dir_iter \<Rightarrow> u64 \<Rightarrow> 's fs \<Rightarrow> (int \<times> dir_iter \<times> 's fs) option" where
  "ext4_dir_iterator_seek ops mal cal ref it pos fs = do {
     inode \<leftarrow> get_inode ref fs;
     let it = it\<lparr>curr := None\<rparr>;
     if pos \<ge> ext4_inode_get_size (fs_sb fs) inode then do {
       (r, it, fs) \<leftarrow> iter_release ops it fs;
       if r \<noteq> EOK then Some (r, it, fs) else Some (EOK, it\<lparr>curr_off := pos\<rparr>, fs) }
     else do {
       block_size \<leftarrow> ext4_sb_get_block_size (fs_sb fs);
       let current_blk_idx = curr_off it div ucast block_size;
       let next_blk_idx = (ucast (pos div ucast block_size) :: u32);
       (r, it, fs) \<leftarrow>
         (if lb_id (curr_blk it) = 0 \<or> current_blk_idx \<noteq> ucast next_blk_idx then do {
            (r, it, fs) \<leftarrow> iter_release ops it fs;
            if r \<noteq> EOK then Some (r, it, fs)
            else do {
              (r, next_blk, fs) \<leftarrow> ext4_fs_get_inode_dblk_idx ops mal cal ref next_blk_idx False fs;
              if r \<noteq> EOK then Some (r, it, fs)
              else do {
                (r, h, cd) \<leftarrow> ext4_trans_block_get ops mal (curr_blk it) next_blk (fs_bdev fs);
                let fs = fs\<lparr>fs_bdev := cd\<rparr>;
                if r \<noteq> EOK then Some (r, it\<lparr>curr_blk := h\<lparr>lb_id := 0\<rparr>\<rparr>, fs)
                else Some (EOK, it\<lparr>curr_blk := h\<rparr>, fs) } } }
          else Some (EOK, it, fs));
       if r \<noteq> EOK then Some (r, it, fs)
       else do {
         (r, it) \<leftarrow> ext4_dir_iterator_set (it\<lparr>curr_off := pos\<rparr>) block_size fs;
         Some (r, it, fs) } } }"

definition ext4_dir_iterator_init ::
  "'s bdif \<Rightarrow> malloc \<Rightarrow> (u16 \<Rightarrow> bool) \<Rightarrow> inode_ref \<Rightarrow> u64 \<Rightarrow> 's fs \<Rightarrow> (int \<times> dir_iter \<times> 's fs) option" where
  "ext4_dir_iterator_init ops mal cal ref pos fs =
     ext4_dir_iterator_seek ops mal cal ref \<lparr>curr_blk = no_block, curr_off = 0, curr = None\<rparr> pos fs"

partial_function (option) ext4_dir_iterator_next ::
  "'s bdif \<Rightarrow> malloc \<Rightarrow> (u16 \<Rightarrow> bool) \<Rightarrow> inode_ref \<Rightarrow> dir_iter \<Rightarrow> 's fs \<Rightarrow> (int \<times> dir_iter \<times> 's fs) option" where
  "ext4_dir_iterator_next ops mal cal ref it fs =
     Option.bind (curr it) (\<lambda>de.
     Option.bind (blk_data (curr_blk it) (fs_bdev fs)) (\<lambda>dat.
     Option.bind (ext4_dir_en_get_entry_len dat de) (\<lambda>skip.
     Option.bind (ext4_dir_iterator_seek ops mal cal ref it (curr_off it + ucast skip) fs) (\<lambda>(r, it, fs).
       case curr it of
         None \<Rightarrow> Some (r, it, fs)
       | Some de \<Rightarrow>
           Option.bind (blk_data (curr_blk it) (fs_bdev fs)) (\<lambda>dat.
           Option.bind (ext4_dir_en_get_inode dat de) (\<lambda>inode.
             if inode \<noteq> 0 then Some (r, it, fs)
             else if r \<noteq> EOK then Some (r, it, fs)
             else ext4_dir_iterator_next ops mal cal ref it fs))))))"

definition ext4_dir_iterator_fini :: "'s bdif \<Rightarrow> dir_iter \<Rightarrow> 's fs \<Rightarrow> (int \<times> 's fs) option" where
  "ext4_dir_iterator_fini ops it fs =
     (if lb_id (curr_blk it) \<noteq> 0 then fs_block_set ops (curr_blk it) fs else Some (EOK, fs))"

section \<open>Looking up names on the disk\<close>

text \<open>The reference: the first entry with the name in the blocks of the directory, in order.\<close>

definition names :: "mem \<Rightarrow> byte list \<Rightarrow> byte list \<Rightarrow> bool" where
  "names sb name e \<longleftrightarrow> seg_ino e \<noteq> 0 \<and> seg_name sb e = name"

definition dir_segs_of :: "mem \<Rightarrow> (u64 \<Rightarrow> byte list) \<Rightarrow> nat \<Rightarrow> mem \<Rightarrow> nat \<Rightarrow> nat \<Rightarrow> byte list list" where
  "dir_segs_of sb D m inode a c = concat (map (\<lambda>i. segments (D (fblk sb D m inode i))) [a..<c])"

lemma map_of_live: "map_of (concat (map (live sb) es)) name = map_option seg_ino (find (names sb name) es)"
  by (induction es) (auto simp: live_def names_def)

lemma find_split: "xs = ys @ x # zs \<Longrightarrow> find P ys = None \<Longrightarrow> P x \<Longrightarrow> find P xs = Some x"
  by (simp add: find_append)

lemma find_in_block_seg:
  assumes "block_ok sb dat" "ext4_sb_get_block_size sb = Some bs" "length dat = unat bs"
  shows "case find (names sb name) (segments dat) of
      None \<Rightarrow> ext4_dir_find_in_block sb name dat = Some (ENOENT, None)
    | Some e \<Rightarrow> \<exists>xs ys. ext4_dir_find_in_block sb name dat = Some (EOK, Some (length xs)) \<and> dat = xs @ e @ ys \<and> seg_ok sb e"
proof (cases "map_of (dir_entries sb dat) name")
  case None
  then show ?thesis using find_in_block_ok[OF assms, of name] by (simp add: dir_entries_def map_of_live)
next
  case (Some ino)
  then obtain es1 e es2 where e: "ext4_dir_find_in_block sb name dat = Some (EOK, Some (length (concat es1)))"
    "segments dat = es1 @ e # es2" "seg_name sb e = name" "seg_ino e \<noteq> 0" "map_of (concat (map (live sb) es1)) name = None"
    using find_in_block_ok[OF assms, of name] by auto
  then have "find (names sb name) (segments dat) = Some e"
    by (intro find_split[OF e(2)]) (simp_all add: map_of_live names_def)
  then show ?thesis using e(1) seg_at[OF assms(1) e(2)] by auto
qed

lemma dblk_unwritten:
  assumes "ext4_fs_get_inode_dblk_idx ops mal cal ref b True fs = Some (EOK, l, fs')" "l \<noteq> 0"
  shows "ext4_fs_get_inode_dblk_idx ops mal cal ref b False fs = Some (EOK, l, fs')"
  using assms unfolding ext4_fs_get_inode_dblk_idx_def by (auto simp: bind_Some_iff Let_def split: if_splits)

lemma csum_verify_some:
  assumes "ext4_sb_get_block_size sb = Some bs" "length dat = unat bs" "12 \<le> unat bs"
  shows "\<exists>v. ext4_dir_csum_verify sb dir dat = Some v"
  using assms by (auto simp: ext4_dir_csum_verify_def ext4_dir_get_tail_def rd32_def rd16_def rd8_def Let_def)

text \<open>A directory of \<open>c\<close> well-formed blocks without an index.\<close>

definition dir_ok :: "u64 \<Rightarrow> nat \<Rightarrow> nat \<Rightarrow> (u64 \<Rightarrow> byte list) \<Rightarrow> malloc \<Rightarrow> (u16 \<Rightarrow> bool) \<Rightarrow> u32 \<Rightarrow> nat \<Rightarrow> 's fs \<Rightarrow> bool" where
  "dir_ok N n m D mal cal index c fs \<longleftrightarrow> can_map N n m D mal cal index c fs \<and> 12 \<le> n \<and>
     (\<exists>bs. ext4_sb_get_block_size (fs_sb fs) = Some bs \<and> unat bs = n) \<and>
     unat (ext4_inode_get_size (fs_sb fs) (inode_at (fs_sb fs) D index)) div n = c \<and>
     (\<forall>i<c. block_ok (fs_sb fs) (D (fblk (fs_sb fs) D m (inode_at (fs_sb fs) D index) i))) \<and>
     \<not> (ext4_sb_feature_com (fs_sb fs) EXT4_FCOM_DIR_INDEX \<and> ext4_inode_has_flag (inode_at (fs_sb fs) D index) EXT4_INODE_FLAG_INDEX)"

lemma dir_ok_bdev [simp]: "dir_ok N n m D mal cal index c (fs\<lparr>fs_bdev := cd\<rparr>) = dir_ok N n m D mal cal index c fs"
  by (simp add: dir_ok_def)

context logical_source
begin

lemma leaf_get_ok:
  assumes on: "on_disk good blk N n k D R fs" and dir: "dir_ok N n m D mal cal index c fs" "0 < R (inode_block (fs_sb fs) D index)"
    and b: "unat b < c" and k: "k + 20 < 2 ^ 32" and l: "l = fblk (fs_sb fs) D m (inode_at (fs_sb fs) D index) (unat b)"
  shows "\<exists>cd. leaf_get ops mal cal (the_ref (fs_sb fs) D index) b fs = Some (EOK, handle l, fs\<lparr>fs_bdev := cd\<rparr>) \<and>
    on_disk good blk N n (k + 17) D (R(l := R l + 1)) (fs\<lparr>fs_bdev := cd\<rparr>) \<and> blk_data (handle l) cd = Some (D l)"
proof -
  have map: "can_map N n m D mal cal index c fs" "mal_ok n mal" "inode_ok (fs_sb fs) N D index" using dir(1) by (auto simp: dir_ok_def can_map_def)
  have l0: "l \<noteq> 0" "l < N" "length (D l) = n" using map(1) b unfolding l by (auto simp: can_map_def file_ok_def)
  obtain bs where bs: "ext4_sb_get_block_size (fs_sb fs) = Some bs" "unat bs = n" "12 \<le> n" using dir(1) by (auto simp: dir_ok_def)
  from lookup_ok[OF on map(1) dir(2) b] k obtain cd1 where 1:
    "ext4_fs_get_inode_dblk_idx ops mal cal (the_ref (fs_sb fs) D index) b True fs = Some (EOK, l, fs\<lparr>fs_bdev := cd1\<rparr>)"
    "on_disk good blk N n (k + 16) D R (fs\<lparr>fs_bdev := cd1\<rparr>)" unfolding l by auto
  have k2: "k + 16 + 2 < 2 ^ 32" using k by simp
  from trans_get_ok[OF 1(2) map(2) l0(2,1) k2, of no_block] obtain cd2 where 2: "ext4_trans_block_get ops mal no_block l cd1 = Some (EOK, handle l, cd2)"
    "on_disk good blk N n (k + 16 + 1) D (R(l := R l + 1)) (fs\<lparr>fs_bdev := cd2\<rparr>)" "blk_data (handle l) cd2 = Some (D l)" by auto
  have held: "get_inode (the_ref (fs_sb fs) D index) (fs\<lparr>fs_bdev := cd2\<rparr>) = Some (inode_at (fs_sb fs) D index)"
    using get_inode_held[OF 2(2), of index] dir(2) map(3) by simp
  obtain v where "ext4_dir_csum_verify (fs_sb fs) (inode_at (fs_sb fs) D index, in_index (the_ref (fs_sb fs) D index)) (D l) = Some v"
    using csum_verify_some[OF bs(1)] bs l0(3) by blast
  then have "leaf_get ops mal cal (the_ref (fs_sb fs) D index) b fs = Some (EOK, handle l, fs\<lparr>fs_bdev := cd2\<rparr>)"
    using dblk_unwritten[OF 1(1) l0(1)] 2(1,3) held by (simp add: leaf_get_def dir_of_def)
  moreover have "k + 16 + 1 = k + 17" by simp
  ultimately show ?thesis using 2(2,3) by metis
qed

text \<open>The linear search returns the first entry with the name, or ENOENT.\<close>

lemma find_blocks_ok:
  assumes on: "on_disk good blk N n k D R fs" and dir: "dir_ok N n m D mal cal index c fs" "0 < R (inode_block (fs_sb fs) D index)"
    and c: "unat tot = c" "unat b \<le> c" and k: "k + 18 * (c - unat b) + 20 < 2 ^ 32"
  shows "case find (names (fs_sb fs) name) (dir_segs_of (fs_sb fs) D m (inode_at (fs_sb fs) D index) (unat b) c) of
      None \<Rightarrow> \<exists>cd. find_blocks ops mal cal (the_ref (fs_sb fs) D index) name tot b fs = Some (ENOENT, no_result, fs\<lparr>fs_bdev := cd\<rparr>) \<and>
        on_disk good blk N n (k + 18 * (c - unat b)) D R (fs\<lparr>fs_bdev := cd\<rparr>)
    | Some e \<Rightarrow> \<exists>cd l xs ys. find_blocks ops mal cal (the_ref (fs_sb fs) D index) name tot b fs =
          Some (EOK, \<lparr>sr_block = handle l, sr_dentry = length xs\<rparr>, fs\<lparr>fs_bdev := cd\<rparr>) \<and>
        D l = xs @ e @ ys \<and> seg_ok (fs_sb fs) e \<and> l \<noteq> 0 \<and>
        on_disk good blk N n (k + 18 * (c - unat b)) D (R(l := R l + 1)) (fs\<lparr>fs_bdev := cd\<rparr>)"
  using on dir c k
proof (induction "c - unat b" arbitrary: k b fs)
  case 0
  then have b: "b = tot" by (simp add: word_unat_eq_iff)
  then have "find_blocks ops mal cal (the_ref (fs_sb fs) D index) name tot b fs = Some (ENOENT, no_result, fs\<lparr>fs_bdev := fs_bdev fs\<rparr>)"
    by (simp add: find_blocks.simps)
  then show ?case using 0 b by (auto simp: dir_segs_of_def intro!: exI[of _ "fs_bdev fs"])
next
  case (Suc j)
  let ?sb = "fs_sb fs" and ?ref = "the_ref (fs_sb fs) D index" and ?inode = "inode_at (fs_sb fs) D index"
  define l where "l = fblk ?sb D m ?inode (unat b)"
  have lt: "unat b < c" "b < tot" using Suc.hyps(2) Suc.prems(4) by (simp_all add: word_less_nat_alt)
  have k1: "k + 20 < 2 ^ 32" using Suc.prems(6) by simp
  from leaf_get_ok[OF Suc.prems(1-3) lt(1) k1 l_def] obtain cd1 where 1:
    "leaf_get ops mal cal ?ref b fs = Some (EOK, handle l, fs\<lparr>fs_bdev := cd1\<rparr>)"
    "on_disk good blk N n (k + 17) D (R(l := R l + 1)) (fs\<lparr>fs_bdev := cd1\<rparr>)" "blk_data (handle l) cd1 = Some (D l)" by blast
  obtain bs where bs: "ext4_sb_get_block_size ?sb = Some bs" "unat bs = n" using Suc.prems(2) by (auto simp: dir_ok_def)
  have l0: "l \<noteq> 0" "length (D l) = unat bs" "block_ok ?sb (D l)"
    using Suc.prems(2) lt(1) bs(2) unfolding l_def by (auto simp: dir_ok_def can_map_def file_ok_def)
  note f = find_in_block_seg[OF l0(3) bs(1) l0(2), of name]
  have split: "dir_segs_of ?sb D m ?inode (unat b) c = segments (D l) @ dir_segs_of ?sb D m ?inode (unat b + 1) c"
    using lt(1) by (simp add: dir_segs_of_def upt_conv_Cons l_def)
  have le17: "k + 17 \<le> k + 18 * (c - unat b)" using lt(1) by simp
  show ?case
  proof (cases "find (names ?sb name) (segments (D l))")
    case (Some e)
    with f obtain xs ys where e: "ext4_dir_find_in_block ?sb name (D l) = Some (EOK, Some (length xs))" "D l = xs @ e @ ys" "seg_ok ?sb e" by auto
    have "find_blocks ops mal cal ?ref name tot b fs = Some (EOK, \<lparr>sr_block = handle l, sr_dentry = length xs\<rparr>, fs\<lparr>fs_bdev := cd1\<rparr>)"
      using lt(2) 1 e(1) by (subst find_blocks.simps) simp
    moreover have "find (names ?sb name) (dir_segs_of ?sb D m ?inode (unat b) c) = Some e" unfolding split find_append Some by simp
    ultimately show ?thesis using e(2,3) l0(1) on_disk_mono[OF 1(2) le17] by (simp only: option.case) blast
  next
    case None
    with f have e: "ext4_dir_find_in_block ?sb name (D l) = Some (ENOENT, None)" by simp
    have eq: "find (names ?sb name) (dir_segs_of ?sb D m ?inode (unat b) c) = find (names ?sb name) (dir_segs_of ?sb D m ?inode (unat b + 1) c)"
      unfolding split find_append None by simp
    have "0 < (R(l := R l + 1)) l" by simp
    from block_set_ok[OF 1(2) this] obtain cd where "fs_block_set ops (handle l) (fs\<lparr>fs_bdev := cd1\<rparr>) = Some (EOK, fs\<lparr>fs_bdev := cd1\<rparr>\<lparr>fs_bdev := cd\<rparr>)"
      "on_disk good blk N n (k + 17 + 1) D ((R(l := R l + 1))(l := (R(l := R l + 1)) l - 1)) (fs\<lparr>fs_bdev := cd1\<rparr>\<lparr>fs_bdev := cd\<rparr>)" by blast
    moreover have "(R(l := R l + 1))(l := (R(l := R l + 1)) l - 1) = R" "k + 17 + 1 = k + 18" by (simp_all add: fun_eq_iff)
    ultimately have 2: "fs_block_set ops (handle l) (fs\<lparr>fs_bdev := cd1\<rparr>) = Some (EOK, fs\<lparr>fs_bdev := cd\<rparr>)"
      "on_disk good blk N n (k + 18) D R (fs\<lparr>fs_bdev := cd\<rparr>)" by (simp_all add: add.commute)
    have i1: "unat (b + 1) = unat b + 1" using unat_Suc_less[OF lt(2)] .
    have step: "find_blocks ops mal cal ?ref name tot b fs = find_blocks ops mal cal ?ref name tot (b + 1) (fs\<lparr>fs_bdev := cd\<rparr>)"
      using lt(2) 1 2(1) e by (subst find_blocks.simps) (simp add: ENOENT_def EOK_def)
    have j: "j = c - unat (b + 1)" "unat (b + 1) \<le> c" "k + 18 + 18 * (c - unat (b + 1)) + 20 < 2 ^ 32"
      using Suc.hyps(2) i1 lt(1) Suc.prems(6) by simp_all
    have kk: "k + 18 + 18 * (c - (unat b + 1)) = k + 18 * (c - unat b)" using i1 lt(1) by simp
    show ?thesis
      using Suc.hyps(1)[OF j(1) 2(2) _ _ Suc.prems(4) j(2,3), unfolded kk i1] Suc.prems(2,3) unfolding eq step
      by (simp cong: option.case_cong)
  qed
qed

lemma find_entry_ok:
  assumes on: "on_disk good blk N n k D R fs" and dir: "dir_ok N n m D mal cal index c fs" "0 < R (inode_block (fs_sb fs) D index)"
    and k: "k + 18 * c + 20 < 2 ^ 32"
  shows "case find (names (fs_sb fs) name) (dir_segs_of (fs_sb fs) D m (inode_at (fs_sb fs) D index) 0 c) of
      None \<Rightarrow> \<exists>cd. ext4_dir_find_entry ops mal cal (the_ref (fs_sb fs) D index) name fs =
          Some (ENOENT, no_result, the_ref (fs_sb fs) D index, fs\<lparr>fs_bdev := cd\<rparr>) \<and>
        on_disk good blk N n (k + 18 * c) D R (fs\<lparr>fs_bdev := cd\<rparr>)
    | Some e \<Rightarrow> \<exists>cd l xs ys. ext4_dir_find_entry ops mal cal (the_ref (fs_sb fs) D index) name fs =
          Some (EOK, \<lparr>sr_block = handle l, sr_dentry = length xs\<rparr>, the_ref (fs_sb fs) D index, fs\<lparr>fs_bdev := cd\<rparr>) \<and>
        D l = xs @ e @ ys \<and> seg_ok (fs_sb fs) e \<and> l \<noteq> 0 \<and>
        on_disk good blk N n (k + 18 * c) D (R(l := R l + 1)) (fs\<lparr>fs_bdev := cd\<rparr>)"
proof -
  let ?inode = "inode_at (fs_sb fs) D index"
  obtain bs where bs: "ext4_sb_get_block_size (fs_sb fs) = Some bs" "unat bs = n" using dir(1) by (auto simp: dir_ok_def)
  have c: "unat (ext4_inode_get_size (fs_sb fs) ?inode) div n = c" "c < 2 ^ 32" using dir(1) by (auto simp: dir_ok_def can_map_def file_ok_def)
  have held: "get_inode (the_ref (fs_sb fs) D index) fs = Some ?inode"
    using get_inode_held[OF on dir(2)] dir(1) by (simp add: dir_ok_def can_map_def)
  have tot: "unat (ucast (ext4_inode_get_size (fs_sb fs) ?inode div ucast bs) :: u32) = c"
    using c bs(2) by (simp add: unat_ucast_mod unat_div order_less_trans[OF unat_less])
  have "ext4_dir_find_entry ops mal cal (the_ref (fs_sb fs) D index) name fs =
    Option.bind (find_blocks ops mal cal (the_ref (fs_sb fs) D index) name (ucast (ext4_inode_get_size (fs_sb fs) ?inode div ucast bs)) 0 fs)
      (\<lambda>(r, result, fs'). Some (r, result, the_ref (fs_sb fs) D index, fs'))"
    using held bs(1) dir(1) by (auto simp: ext4_dir_find_entry_def dir_ok_def)
  moreover have "k + 18 * (c - unat (0 :: u32)) + 20 < 2 ^ 32" using k by simp
  note find_blocks_ok[OF on dir tot _ this, of name]
  ultimately show ?thesis by (fastforce split: option.splits)
qed

end

end
