(* ===== verification/Ext4_Open.thy ===== *)
theory Ext4_Open
  imports Ext4_Dir
begin

text \<open>
  Opening a file by its path: the path walk of lwext4/src/ext4.c on one file system, for files that
  exist (flags without \<open>O_CREAT\<close> and \<open>O_TRUNC\<close>; the program opens with \<open>rb\<close> on a file system mounted
  read-only). A path is the list of its bytes without the terminating 0. The property of this theory
  is that the walk arrives at the inode which the directories on the disk name.
\<close>

section \<open>Definitions\<close>

definition EROFS :: int where "EROFS = 30"
definition EXT4_INODE_ROOT_INDEX :: u32 where "EXT4_INODE_ROOT_INDEX = 2"
definition EXT4_FINCOM_FILETYPE :: u32 where "EXT4_FINCOM_FILETYPE = 0x0002"

definition ext4_fs_correspond_inode_mode :: "byte \<Rightarrow> u32" where
  "ext4_fs_correspond_inode_mode filetype =
     (if filetype = EXT4_DE_DIR then EXT4_INODE_MODE_DIRECTORY
      else if filetype = EXT4_DE_REG_FILE then EXT4_INODE_MODE_FILE
      else if filetype = EXT4_DE_SYMLINK then EXT4_INODE_MODE_SOFTLINK
      else if filetype = EXT4_DE_CHRDEV then EXT4_INODE_MODE_CHARDEV
      else if filetype = EXT4_DE_BLKDEV then EXT4_INODE_MODE_BLOCKDEV
      else if filetype = EXT4_DE_FIFO then EXT4_INODE_MODE_FIFO
      else if filetype = EXT4_DE_SOCK then EXT4_INODE_MODE_SOCKET
      else EXT4_INODE_MODE_FILE)"

text \<open>The length of the first component, and the new value of \<open>is_goal\<close>; a component of 255 bytes or more has
  length 0 and leaves \<open>is_goal\<close> alone.\<close>

definition ext4_path_check :: "byte list \<Rightarrow> bool \<Rightarrow> nat \<times> bool" where
  "ext4_path_check path is_goal =
     (let i = length (takeWhile (\<lambda>c. c \<noteq> 0x2f) path) in
      if 255 \<le> i then (0, is_goal) else if i < length path then (i, False) else (i, True))"

definition ext4_parse_flags :: "string \<Rightarrow> u32 option" where
  "ext4_parse_flags fl =
     (if fl \<in> {''r'', ''rb''} then Some O_RDONLY
      else if fl \<in> {''w'', ''wb''} then Some (O_WRONLY OR O_CREAT OR O_TRUNC)
      else if fl \<in> {''a'', ''ab''} then Some (O_WRONLY OR O_CREAT OR O_APPEND)
      else if fl \<in> {''r+'', ''rb+'', ''r+b''} then Some O_RDWR
      else if fl \<in> {''w+'', ''wb+'', ''w+b''} then Some (O_RDWR OR O_CREAT OR O_TRUNC)
      else if fl \<in> {''a+'', ''ab+'', ''a+b''} then Some (O_RDWR OR O_CREAT OR O_APPEND)
      else None)"

text \<open>The mode of the entry that was found: from its type, or from its inode. The first result says whether the
  loop is left with the error.\<close>

definition entry_mode ::
  "'s bdif \<Rightarrow> malloc \<Rightarrow> dir_search_result \<Rightarrow> u32 \<Rightarrow> u32 \<Rightarrow> 's fs \<Rightarrow> (bool \<times> int \<times> u32 \<times> 's fs) option" where
  "entry_mode ops mal result next_inode imode fs =
     (if ext4_sb_feature_incom (fs_sb fs) EXT4_FINCOM_FILETYPE then do {
        dat \<leftarrow> blk_data (sr_block result) (fs_bdev fs);
        t \<leftarrow> ext4_dir_en_get_inode_type (fs_sb fs) dat (sr_dentry result);
        Some (False, EOK, ext4_fs_correspond_inode_mode t, fs) }
      else do {
        (r, child_ref, fs) \<leftarrow> ext4_fs_get_inode_ref ops mal next_inode fs;
        if r \<noteq> EOK then Some (True, r, imode, fs)
        else do {
          inode \<leftarrow> get_inode child_ref fs;
          (_, fs) \<leftarrow> ext4_fs_put_inode_ref ops child_ref fs;
          Some (False, EOK, ext4_inode_type (fs_sb fs) inode, fs) } })"

text \<open>The loop over the components. The results are the error, the reference, \<open>is_goal\<close> and \<open>imode\<close>.\<close>

function open_walk ::
  "'s bdif \<Rightarrow> malloc \<Rightarrow> (u16 \<Rightarrow> bool) \<Rightarrow> byte \<Rightarrow> inode_ref \<Rightarrow> bool \<Rightarrow> u32 \<Rightarrow> byte list \<Rightarrow> 's fs \<Rightarrow>
   (int \<times> inode_ref \<times> bool \<times> u32 \<times> 's fs) option" where
  "open_walk ops mal cal ftype ref is_goal imode path fs =
     (let (len, is_goal) = ext4_path_check path is_goal in
      if len = 0 then
        Some (if (ftype = EXT4_DE_DIR \<or> ftype = EXT4_DE_UNKNOWN) \<and> is_goal then EOK else ENOENT, ref, is_goal, imode, fs)
      else Option.bind (ext4_dir_find_entry ops mal cal ref (take len path) fs) (\<lambda>(r, result, ref, fs).
        if r \<noteq> EOK then
          map_option (\<lambda>(_, fs). (r, ref, is_goal, imode, fs)) (ext4_dir_destroy_result ops result fs)
        else
          Option.bind (blk_data (sr_block result) (fs_bdev fs)) (\<lambda>dat.
          Option.bind (ext4_dir_en_get_inode dat (sr_dentry result)) (\<lambda>next_inode.
          Option.bind (entry_mode ops mal result next_inode imode fs) (\<lambda>(left, r, imode, fs).
            if left then Some (r, ref, is_goal, imode, fs)
            else Option.bind (ext4_dir_destroy_result ops result fs) (\<lambda>(r, fs).
              if r \<noteq> EOK then Some (r, ref, is_goal, imode, fs)
              else if imode \<noteq> EXT4_INODE_MODE_DIRECTORY \<and> \<not> is_goal then Some (ENOENT, ref, is_goal, imode, fs)
              else if ftype \<noteq> EXT4_DE_UNKNOWN \<and> imode \<noteq> ext4_fs_correspond_inode_mode ftype \<and> is_goal
              then Some (ENOENT, ref, is_goal, imode, fs)
              else Option.bind (ext4_fs_put_inode_ref ops ref fs) (\<lambda>(r, fs).
                if r \<noteq> EOK then Some (r, ref, is_goal, imode, fs)
                else Option.bind (ext4_fs_get_inode_ref ops mal next_inode fs) (\<lambda>(r, ref, fs).
                  if r \<noteq> EOK then Some (r, ref, is_goal, imode, fs)
                  else if is_goal then Some (EOK, ref, is_goal, imode, fs)
                  else open_walk ops mal cal ftype ref is_goal imode (drop (len + 1) path) fs))))))))"
  by pat_completeness auto
termination
  by (relation "measure (\<lambda>(ops, mal, cal, ftype, ref, is_goal, imode, path, fs). length path)")
     (auto simp: ext4_path_check_def Let_def split: if_splits)

declare open_walk.simps [simp del]

text \<open>\<open>ext4_generic_open2\<close> behind the mount point: the error, the descriptor and the file system. Creating
  and truncating files on a file system that is not read-only is left out and has no result here. The
  descriptor keeps old values when the walk fails. When the walk fails after it has released a
  reference, releasing it again stops the program.\<close>

definition ext4_generic_open2 ::
  "'s bdif \<Rightarrow> malloc \<Rightarrow> (u16 \<Rightarrow> bool) \<Rightarrow> ext4_file \<Rightarrow> byte list \<Rightarrow> u32 \<Rightarrow> byte \<Rightarrow> 's fs \<Rightarrow> (int \<times> ext4_file \<times> 's fs) option" where
  "ext4_generic_open2 ops mal cal f path fl ftype fs = do {
     let f = f\<lparr>f_mp := False\<rparr>;
     if read_only fs \<and> fl AND O_CREAT \<noteq> 0 then Some (EROFS, f, fs)
     else if fl AND (O_CREAT OR O_TRUNC) \<noteq> 0 then None
     else do {
       let f = f\<lparr>f_flags := fl\<rparr>;
       (r, ref, fs) \<leftarrow> ext4_fs_get_inode_ref ops mal EXT4_INODE_ROOT_INDEX fs;
       if r \<noteq> EOK then Some (r, f, fs)
       else do {
         (r, ref, is_goal, imode, fs) \<leftarrow> open_walk ops mal cal ftype ref False EXT4_INODE_MODE_DIRECTORY path fs;
         if r \<noteq> EOK then do {
           (_, fs) \<leftarrow> ext4_fs_put_inode_ref ops ref fs;
           Some (r, f, fs) }
         else do {
           f \<leftarrow> (if is_goal then do {
                   inode \<leftarrow> get_inode ref fs;
                   let size = ext4_inode_get_size (fs_sb fs) inode;
                   Some (f\<lparr>f_mp := True, fsize := size, f_inode := in_index ref, fpos := (if fl AND O_APPEND \<noteq> 0 then size else 0)\<rparr>) }
                 else Some f);
           (r, fs) \<leftarrow> ext4_fs_put_inode_ref ops ref fs;
           Some (r, f, fs) } } } }"

definition ext4_generic_open ::
  "'s bdif \<Rightarrow> malloc \<Rightarrow> (u16 \<Rightarrow> bool) \<Rightarrow> ext4_file \<Rightarrow> byte list \<Rightarrow> string \<Rightarrow> bool \<Rightarrow> 's fs \<Rightarrow> (int \<times> ext4_file \<times> 's fs) option" where
  "ext4_generic_open ops mal cal f path fl file_expect fs =
     (case ext4_parse_flags fl of
        None \<Rightarrow> Some (EINVAL, f, fs)
      | Some iflags \<Rightarrow> ext4_generic_open2 ops mal cal f path iflags (if file_expect then EXT4_DE_REG_FILE else EXT4_DE_DIR) fs)"

section \<open>Paths on the disk\<close>

fun join_path :: "byte list list \<Rightarrow> byte list" where
  "join_path [] = []"
| "join_path [name] = name"
| "join_path (name # rest) = name @ 0x2f # join_path rest"

definition name_ok :: "byte list \<Rightarrow> bool" where
  "name_ok name \<longleftrightarrow> name \<noteq> [] \<and> length name < 255 \<and> 0x2f \<notin> set name"

lemma path_check_join:
  assumes "name_ok name"
  shows "ext4_path_check (join_path (name # rest)) g = (length name, rest = [])"
    "take (length name) (join_path (name # rest)) = name" "rest \<noteq> [] \<Longrightarrow> drop (length name + 1) (join_path (name # rest)) = join_path rest"
proof -
  have n: "c \<noteq> 0x2f" if "c \<in> set name" for c using assms that by (auto simp: name_ok_def)
  have tw: "length (takeWhile (\<lambda>c. c \<noteq> 0x2f) (name @ 0x2f # zs)) = length name" for zs
    using takeWhile_append2[of name "\<lambda>c. c \<noteq> 0x2f" "0x2f # zs"] n by simp
  have "takeWhile (\<lambda>c. c \<noteq> 0x2f) name = name" using n by (simp add: takeWhile_eq_all_conv)
  then have tw2: "length (takeWhile (\<lambda>c. c \<noteq> 0x2f) name) = length name" by metis
  show "ext4_path_check (join_path (name # rest)) g = (length name, rest = [])"
    using assms by (cases rest) (simp_all add: ext4_path_check_def name_ok_def tw tw2)
  show "take (length name) (join_path (name # rest)) = name" by (cases rest) simp_all
  show "drop (length name + 1) (join_path (name # rest)) = join_path rest" if "rest \<noteq> []" using that by (cases rest) simp_all
qed

text \<open>The directories on the disk lead from inode \<open>ino\<close> along the names to the file \<open>target\<close>. No directory has
  more than \<open>C\<close> blocks.\<close>

definition dir_blocks :: "mem \<Rightarrow> nat \<Rightarrow> (u64 \<Rightarrow> byte list) \<Rightarrow> u32 \<Rightarrow> nat" where
  "dir_blocks sb n D index = unat (ext4_inode_get_size sb (inode_at sb D index)) div n"

definition dir_entry :: "mem \<Rightarrow> nat \<Rightarrow> nat \<Rightarrow> (u64 \<Rightarrow> byte list) \<Rightarrow> u32 \<Rightarrow> byte list \<Rightarrow> byte list option" where
  "dir_entry sb n m D index name = find (names sb name) (dir_segs_of sb D m (inode_at sb D index) 0 (dir_blocks sb n D index))"

fun path_ok ::
  "byte \<Rightarrow> u64 \<Rightarrow> nat \<Rightarrow> nat \<Rightarrow> (u64 \<Rightarrow> byte list) \<Rightarrow> malloc \<Rightarrow> (u16 \<Rightarrow> bool) \<Rightarrow> nat \<Rightarrow> 's fs \<Rightarrow> u32 \<Rightarrow> byte list list \<Rightarrow> u32 \<Rightarrow> bool" where
  "path_ok ft N n m D mal cal C fs ino [] target \<longleftrightarrow> ino = target"
| "path_ok ft N n m D mal cal C fs ino (name # rest) target \<longleftrightarrow>
     name_ok name \<and> dir_blocks (fs_sb fs) n D ino \<le> C \<and> dir_ok N n m D mal cal ino (dir_blocks (fs_sb fs) n D ino) fs \<and>
     (case dir_entry (fs_sb fs) n m D ino name of
        None \<Rightarrow> False
      | Some e \<Rightarrow> seg_type (fs_sb fs) e = (if rest = [] then ft else EXT4_DE_DIR) \<and>
          inode_ok (fs_sb fs) N D (seg_ino e) \<and> path_ok ft N n m D mal cal C fs (seg_ino e) rest target)"

lemma path_ok_bdev [simp]: "path_ok ft N n m D mal cal C (fs\<lparr>fs_bdev := cd\<rparr>) ino ns target = path_ok ft N n m D mal cal C fs ino ns target"
  by (induction ns arbitrary: ino) (auto split: option.splits)

lemma ref_upd: "(R(l := R l + 1))(l := (R(l := R l + 1)) l - 1) = (R :: u64 \<Rightarrow> nat)"
  by (simp add: fun_eq_iff)

context logical_source
begin

text \<open>One component: the walk reads the entry and moves to the inode of it.\<close>

lemma open_step:
  assumes on: "on_disk good blk N n k D (R(inode_block (fs_sb fs) D ino := R (inode_block (fs_sb fs) D ino) + 1)) fs"
    and sb: "ext4_sb_feature_incom (fs_sb fs) EXT4_FINCOM_FILETYPE"
    and ft: "ft \<in> {EXT4_DE_REG_FILE, EXT4_DE_DIR}" and p: "path_ok ft N n m D mal cal C fs ino (name # rest) target" and k: "k + (18 * C + 5) + 20 < 2 ^ 32"
  shows "\<exists>cd next. open_walk ops mal cal ft (the_ref (fs_sb fs) D ino) g imode (join_path (name # rest)) fs =
      (if rest = [] then Some (EOK, the_ref (fs_sb fs) D next, True, ext4_fs_correspond_inode_mode ft, fs\<lparr>fs_bdev := cd\<rparr>)
       else open_walk ops mal cal ft (the_ref (fs_sb fs) D next) False EXT4_INODE_MODE_DIRECTORY (join_path rest) (fs\<lparr>fs_bdev := cd\<rparr>)) \<and>
    path_ok ft N n m D mal cal C fs next rest target \<and>
    on_disk good blk N n (k + (18 * C + 5)) D (R(inode_block (fs_sb fs) D next := R (inode_block (fs_sb fs) D next) + 1)) (fs\<lparr>fs_bdev := cd\<rparr>)"
proof -
  let ?sb = "fs_sb fs" and ?ref = "the_ref (fs_sb fs) D ino" and ?l = "inode_block (fs_sb fs) D ino" and ?c = "dir_blocks (fs_sb fs) n D ino"
  let ?R = "R(?l := R ?l + 1)"
  obtain e where e: "dir_entry ?sb n m D ino name = Some e" "seg_type ?sb e = (if rest = [] then ft else EXT4_DE_DIR)"
    "inode_ok ?sb N D (seg_ino e)" "path_ok ft N n m D mal cal C fs (seg_ino e) rest target"
    using p by (auto split: option.splits)
  have d: "name_ok name" "?c \<le> C" "dir_ok N n m D mal cal ino ?c fs" "mal_ok n mal" using p by (auto simp: dir_ok_def can_map_def)
  have k1: "k + 18 * ?c + 20 < 2 ^ 32" using k d(2) by simp
  from find_entry_ok[OF on d(3) _ k1, of name] e(1) obtain cd1 lb xs ys where f:
    "ext4_dir_find_entry ops mal cal ?ref name fs = Some (EOK, \<lparr>sr_block = handle lb, sr_dentry = length xs\<rparr>, ?ref, fs\<lparr>fs_bdev := cd1\<rparr>)"
    "D lb = xs @ e @ ys" "seg_ok ?sb e" "lb \<noteq> 0" "on_disk good blk N n (k + 18 * ?c) D (?R(lb := ?R lb + 1)) (fs\<lparr>fs_bdev := cd1\<rparr>)"
    by (auto simp: dir_entry_def)
  have held: "blk_data (handle lb) cd1 = Some (D lb)" using on_disk_held[OF f(5), of lb] by simp
  note s = seg_fields[OF f(3), of xs ys, folded f(2)]
  have "0 < (?R(lb := ?R lb + 1)) lb" by simp
  from block_set_ok[OF f(5) this] obtain cd2 where 2: "fs_block_set ops (handle lb) (fs\<lparr>fs_bdev := cd1\<rparr>) = Some (EOK, fs\<lparr>fs_bdev := cd1\<rparr>\<lparr>fs_bdev := cd2\<rparr>)"
    "on_disk good blk N n (k + 18 * ?c + 1) D ((?R(lb := ?R lb + 1))(lb := (?R(lb := ?R lb + 1)) lb - 1)) (fs\<lparr>fs_bdev := cd1\<rparr>\<lparr>fs_bdev := cd2\<rparr>)" by blast
  have on2: "on_disk good blk N n (k + 18 * ?c + 1) D ?R (fs\<lparr>fs_bdev := cd2\<rparr>)" using 2(2) unfolding ref_upd[of ?R lb] by simp
  from put_inode_ref_ok[OF on2, of ino] obtain cd3 where 3: "ext4_fs_put_inode_ref ops ?ref (fs\<lparr>fs_bdev := cd2\<rparr>) = Some (EOK, fs\<lparr>fs_bdev := cd3\<rparr>)"
    "on_disk good blk N n (k + 18 * ?c + 1 + 1) D (?R(?l := ?R ?l - 1)) (fs\<lparr>fs_bdev := cd3\<rparr>)" by auto
  have on3: "on_disk good blk N n (k + 18 * ?c + 2) D R (fs\<lparr>fs_bdev := cd3\<rparr>)" using 3(2) unfolding ref_upd by simp
  have "inode_ok (fs_sb (fs\<lparr>fs_bdev := cd3\<rparr>)) N D (seg_ino e)" "k + 18 * ?c + 2 + 4 < 2 ^ 32" using e(3) k1 by simp_all
  from get_inode_ref_ok[OF on3 d(4) this] obtain cd4 where 4:
    "ext4_fs_get_inode_ref ops mal (seg_ino e) (fs\<lparr>fs_bdev := cd3\<rparr>) = Some (EOK, the_ref ?sb D (seg_ino e), fs\<lparr>fs_bdev := cd4\<rparr>)"
    "on_disk good blk N n (k + 18 * ?c + 2 + 3) D (R(inode_block ?sb D (seg_ino e) := R (inode_block ?sb D (seg_ino e)) + 1)) (fs\<lparr>fs_bdev := cd4\<rparr>)" by auto
  have mode: "entry_mode ops mal \<lparr>sr_block = handle lb, sr_dentry = length xs\<rparr> (seg_ino e) imode (fs\<lparr>fs_bdev := cd1\<rparr>) =
      Some (False, EOK, if rest = [] then ext4_fs_correspond_inode_mode ft else EXT4_INODE_MODE_DIRECTORY, fs\<lparr>fs_bdev := cd1\<rparr>)"
    using sb held s(4) e(2) ft
    by (simp add: entry_mode_def ext4_fs_correspond_inode_mode_def EXT4_DE_REG_FILE_def EXT4_DE_DIR_def)
  have "open_walk ops mal cal ft ?ref g imode (join_path (name # rest)) fs =
      (if rest = [] then Some (EOK, the_ref ?sb D (seg_ino e), True, ext4_fs_correspond_inode_mode ft, fs\<lparr>fs_bdev := cd4\<rparr>)
       else open_walk ops mal cal ft (the_ref ?sb D (seg_ino e)) False EXT4_INODE_MODE_DIRECTORY (join_path rest) (fs\<lparr>fs_bdev := cd4\<rparr>))"
    using path_check_join[OF d(1), of rest] d(1) f(1,4) held s(1) mode 2(1) 3(1) 4(1) ft
    by (subst open_walk.simps)
       (auto simp: name_ok_def ext4_dir_destroy_result_def ext4_fs_correspond_inode_mode_def EXT4_DE_REG_FILE_def EXT4_DE_DIR_def EXT4_DE_UNKNOWN_def)
  moreover have "on_disk good blk N n (k + (18 * C + 5)) D (R(inode_block ?sb D (seg_ino e) := R (inode_block ?sb D (seg_ino e)) + 1)) (fs\<lparr>fs_bdev := cd4\<rparr>)"
    by (rule on_disk_mono[OF 4(2)]) (use d(2) in simp)
  ultimately show ?thesis using e(4) by blast
qed

lemma open_walk_ok:
  assumes on: "on_disk good blk N n k D (R(inode_block (fs_sb fs) D ino := R (inode_block (fs_sb fs) D ino) + 1)) fs"
    and sb: "ext4_sb_feature_incom (fs_sb fs) EXT4_FINCOM_FILETYPE"
    and ft: "ft \<in> {EXT4_DE_REG_FILE, EXT4_DE_DIR}" and p: "path_ok ft N n m D mal cal C fs ino ns target" "ns \<noteq> []" and k: "k + (18 * C + 5) * length ns + 20 < 2 ^ 32"
  shows "\<exists>cd. open_walk ops mal cal ft (the_ref (fs_sb fs) D ino) g imode (join_path ns) fs =
      Some (EOK, the_ref (fs_sb fs) D target, True, ext4_fs_correspond_inode_mode ft, fs\<lparr>fs_bdev := cd\<rparr>) \<and>
    on_disk good blk N n (k + (18 * C + 5) * length ns) D (R(inode_block (fs_sb fs) D target := R (inode_block (fs_sb fs) D target) + 1)) (fs\<lparr>fs_bdev := cd\<rparr>)"
  using on sb p k
proof (induction ns arbitrary: k fs ino g imode)
  case (Cons name rest)
  have k1: "k + (18 * C + 5) + 20 < 2 ^ 32" using Cons.prems(5) by simp
  from open_step[OF Cons.prems(1,2) ft Cons.prems(3) k1, of g imode] obtain cd nxt where s:
    "open_walk ops mal cal ft (the_ref (fs_sb fs) D ino) g imode (join_path (name # rest)) fs =
      (if rest = [] then Some (EOK, the_ref (fs_sb fs) D nxt, True, ext4_fs_correspond_inode_mode ft, fs\<lparr>fs_bdev := cd\<rparr>)
       else open_walk ops mal cal ft (the_ref (fs_sb fs) D nxt) False EXT4_INODE_MODE_DIRECTORY (join_path rest) (fs\<lparr>fs_bdev := cd\<rparr>))"
    "path_ok ft N n m D mal cal C fs nxt rest target"
    "on_disk good blk N n (k + (18 * C + 5)) D (R(inode_block (fs_sb fs) D nxt := R (inode_block (fs_sb fs) D nxt) + 1)) (fs\<lparr>fs_bdev := cd\<rparr>)" by blast
  show ?case
  proof (cases "rest = []")
    case True
    then have "nxt = target" and l: "(18 * C + 5) * length (name # rest) = 18 * C + 5" using s(2) by simp_all
    then show ?thesis unfolding l using s(1,3) True by - (rule exI[of _ cd], simp only: if_True simp_thms)
  next
    case False
    have k2: "k + (18 * C + 5) + (18 * C + 5) * length rest + 20 < 2 ^ 32" using Cons.prems(5) by simp
    have "\<exists>cd'. open_walk ops mal cal ft (the_ref (fs_sb (fs\<lparr>fs_bdev := cd\<rparr>)) D nxt) False EXT4_INODE_MODE_DIRECTORY (join_path rest) (fs\<lparr>fs_bdev := cd\<rparr>) =
        Some (EOK, the_ref (fs_sb (fs\<lparr>fs_bdev := cd\<rparr>)) D target, True, ext4_fs_correspond_inode_mode ft, fs\<lparr>fs_bdev := cd\<rparr>\<lparr>fs_bdev := cd'\<rparr>) \<and>
      on_disk good blk N n (k + (18 * C + 5) + (18 * C + 5) * length rest) D (R(inode_block (fs_sb (fs\<lparr>fs_bdev := cd\<rparr>)) D target := R (inode_block (fs_sb (fs\<lparr>fs_bdev := cd\<rparr>)) D target) + 1)) (fs\<lparr>fs_bdev := cd\<rparr>\<lparr>fs_bdev := cd'\<rparr>)"
    proof (rule Cons.IH)
      have "fs_sb (fs\<lparr>fs_bdev := cd\<rparr>) = fs_sb fs" by simp
      then show "on_disk good blk N n (k + (18 * C + 5)) D (R(inode_block (fs_sb (fs\<lparr>fs_bdev := cd\<rparr>)) D nxt :=
          R (inode_block (fs_sb (fs\<lparr>fs_bdev := cd\<rparr>)) D nxt) + 1)) (fs\<lparr>fs_bdev := cd\<rparr>)" using s(3) by argo
    qed (use s(2) Cons.prems(2) False k2 in simp_all)
    then obtain cd' where e: "open_walk ops mal cal ft (the_ref (fs_sb fs) D nxt) False EXT4_INODE_MODE_DIRECTORY (join_path rest) (fs\<lparr>fs_bdev := cd\<rparr>) =
        Some (EOK, the_ref (fs_sb fs) D target, True, ext4_fs_correspond_inode_mode ft, fs\<lparr>fs_bdev := cd'\<rparr>)"
      "on_disk good blk N n (k + (18 * C + 5) + (18 * C + 5) * length rest) D (R(inode_block (fs_sb fs) D target := R (inode_block (fs_sb fs) D target) + 1)) (fs\<lparr>fs_bdev := cd'\<rparr>)"
      by auto
    have l: "k + (18 * C + 5) + (18 * C + 5) * length rest = k + (18 * C + 5) * length (name # rest)" by simp
    show ?thesis using s(1) e[unfolded l] False by - (rule exI[of _ cd'], simp only: if_False simp_thms)
  qed
qed simp

text \<open>Opening a file or directory for reading; the empty path is the root directory.\<close>

lemma open_ok:
  assumes on: "on_disk good blk N n k D R fs" and sb: "ext4_sb_feature_incom (fs_sb fs) EXT4_FINCOM_FILETYPE"
    and ft: "ft \<in> {EXT4_DE_REG_FILE, EXT4_DE_DIR}" "ns \<noteq> [] \<or> ft = EXT4_DE_DIR" "mal_ok n mal"
    and p: "path_ok ft N n m D mal cal C fs EXT4_INODE_ROOT_INDEX ns target" "inode_ok (fs_sb fs) N D target"
    and k: "k + (18 * C + 5) * length ns + 30 < 2 ^ 32"
  shows "\<exists>cd. ext4_generic_open2 ops mal cal f (join_path ns) O_RDONLY ft fs =
      Some (EOK, \<lparr>f_mp = True, f_inode = target, f_flags = O_RDONLY,
        fsize = ext4_inode_get_size (fs_sb fs) (inode_at (fs_sb fs) D target), fpos = 0\<rparr>, fs\<lparr>fs_bdev := cd\<rparr>) \<and>
    on_disk good blk N n (k + (18 * C + 5) * length ns + 4) D R (fs\<lparr>fs_bdev := cd\<rparr>)"
proof -
  let ?sb = "fs_sb fs" and ?t = "inode_block (fs_sb fs) D target" and ?l = "inode_block (fs_sb fs) D EXT4_INODE_ROOT_INDEX"
  have d: "inode_ok ?sb N D EXT4_INODE_ROOT_INDEX" using p by (cases ns) (auto simp: dir_ok_def can_map_def)
  have "k + 4 < 2 ^ 32" using k by simp
  from get_inode_ref_ok[OF on ft(3) d this] obtain cd1 where 1:
    "ext4_fs_get_inode_ref ops mal EXT4_INODE_ROOT_INDEX fs = Some (EOK, the_ref ?sb D EXT4_INODE_ROOT_INDEX, fs\<lparr>fs_bdev := cd1\<rparr>)"
    "on_disk good blk N n (k + 3) D (R(?l := R ?l + 1)) (fs\<lparr>fs_bdev := cd1\<rparr>)" by blast
  have "\<exists>cd. open_walk ops mal cal ft (the_ref ?sb D EXT4_INODE_ROOT_INDEX) False EXT4_INODE_MODE_DIRECTORY (join_path ns) (fs\<lparr>fs_bdev := cd1\<rparr>) =
      Some (EOK, the_ref ?sb D target, True, ext4_fs_correspond_inode_mode ft, fs\<lparr>fs_bdev := cd\<rparr>) \<and>
    on_disk good blk N n (k + 3 + (18 * C + 5) * length ns) D (R(?t := R ?t + 1)) (fs\<lparr>fs_bdev := cd\<rparr>)"
  proof (cases "ns = []")
    case True
    with ft(2) p(1) 1(2) show ?thesis
      by (intro exI[of _ cd1]) (simp add: open_walk.simps ext4_path_check_def ext4_fs_correspond_inode_mode_def)
  next
    case False
    from open_walk_ok[where k = "k + 3" and fs = "fs\<lparr>fs_bdev := cd1\<rparr>" and g = False and imode = EXT4_INODE_MODE_DIRECTORY, OF _ _ ft(1) _ False]
    show ?thesis using 1(2) sb p(1) k by fastforce
  qed
  then obtain cd2 where 2: "open_walk ops mal cal ft (the_ref ?sb D EXT4_INODE_ROOT_INDEX) False EXT4_INODE_MODE_DIRECTORY (join_path ns) (fs\<lparr>fs_bdev := cd1\<rparr>) =
      Some (EOK, the_ref ?sb D target, True, ext4_fs_correspond_inode_mode ft, fs\<lparr>fs_bdev := cd2\<rparr>)"
    "on_disk good blk N n (k + 3 + (18 * C + 5) * length ns) D (R(?t := R ?t + 1)) (fs\<lparr>fs_bdev := cd2\<rparr>)" by blast
  have g: "get_inode (the_ref ?sb D target) (fs\<lparr>fs_bdev := cd2\<rparr>) = Some (inode_at ?sb D target)"
    using get_inode_held[OF 2(2), of target] p(2) by simp
  from put_inode_ref_ok[OF 2(2), of target] obtain cd3 where 3: "ext4_fs_put_inode_ref ops (the_ref ?sb D target) (fs\<lparr>fs_bdev := cd2\<rparr>) = Some (EOK, fs\<lparr>fs_bdev := cd3\<rparr>)"
    "on_disk good blk N n (k + 3 + (18 * C + 5) * length ns + 1) D ((R(?t := R ?t + 1))(?t := (R(?t := R ?t + 1)) ?t - 1)) (fs\<lparr>fs_bdev := cd3\<rparr>)" by auto
  have "ext4_generic_open2 ops mal cal f (join_path ns) O_RDONLY ft fs =
      Some (EOK, \<lparr>f_mp = True, f_inode = target, f_flags = O_RDONLY, fsize = ext4_inode_get_size ?sb (inode_at ?sb D target), fpos = 0\<rparr>, fs\<lparr>fs_bdev := cd3\<rparr>)"
    using 1(1) 2(1) g 3(1) by (simp add: ext4_generic_open2_def O_RDONLY_def the_ref_def)
  moreover have "on_disk good blk N n (k + (18 * C + 5) * length ns + 4) D R (fs\<lparr>fs_bdev := cd3\<rparr>)"
    by (rule on_disk_mono[OF 3(2)[unfolded ref_upd]]) simp
  ultimately show ?thesis by blast
qed

end

end
