(* ===== verification/Ext4_Mount.thy ===== *)
theory Ext4_Mount
  imports Ext4_Open
begin

text \<open>
  The interface of lwext4/src/ext4.c that the program uses: the table of devices and the table of mount
  points with \<open>ext4_device_register\<close>, \<open>ext4_mount\<close>, \<open>ext4_umount\<close> and \<open>ext4_get_mount\<close>, and the calls on
  paths and open files above them; and the functions \<open>test_lwext4_mount\<close>, \<open>test_lwext4_umount\<close> and
  \<open>test_lwext4_dir_ls\<close> of fs\_test/common/test\_lwext4.c which main.c calls.

  A device is named by a value of type \<open>'i\<close>; its structure is kept in a store, as \<open>bd\<close> of the device table and
  \<open>fs.bdev\<close> of a mount point are pointers to the same structure. The state of the drivers is passed
  through the calls. The program registers devices without a cache, so \<open>ext4_mount\<close> allocates one; that
  allocation does not fail. The locks of mount points are not used. Names are byte lists without the
  terminating 0.
\<close>

section \<open>Definitions\<close>

definition ENODEV :: int where "ENODEV = 19"
definition CONFIG_EXT4_BLOCKDEVS_COUNT :: nat where "CONFIG_EXT4_BLOCKDEVS_COUNT = 2"
definition CONFIG_EXT4_MOUNTPOINTS_COUNT :: nat where "CONFIG_EXT4_MOUNTPOINTS_COUNT = 2"
definition CONFIG_BLOCK_DEV_CACHE_SIZE :: u32 where "CONFIG_BLOCK_DEV_CACHE_SIZE = 16"

record ('i, 's) mountpoint =
  mounted :: bool
  mp_name :: "byte list"
  mp_fs :: "'s fs"
  mp_bdev :: "'i option"
  cache_dynamic :: bool

record 'i bdevice =
  dev_name :: "byte list"
  dev_bd :: "'i option"

text \<open>The tables \<open>_bdevices\<close> and \<open>_mp\<close>, the device structures, and the caches they point to.\<close>

record ('i, 's) lwext4 =
  bdevices :: "'i bdevice list"
  mps :: "('i, 's) mountpoint list"
  blockdevs :: "'i \<Rightarrow> 's bdev"
  bdev_bc :: "'i \<Rightarrow> bcache option"

text \<open>What a device without a cache is passed with; nothing looks at it.\<close>

definition no_cache :: bcache where
  "no_cache = \<lparr>bc_cnt = 0, itemsize = 0, lru_ctr = 0, ref_blocks = 0, max_ref_blocks = 0,
     dont_shake = False, lba_root = [], lru_root = [], dirty_list = []\<rparr>"

text \<open>The static tables at the start of the program.\<close>

definition zero_fs :: "'s bdev \<Rightarrow> 's fs" where
  "zero_fs bd = \<lparr>read_only = False, fs_bdev = \<lparr>bdv = bd, bc = no_cache\<rparr>, fs_sb = (\<lambda>_. 0), inode_block_limits = replicate 4 0,
     inode_blocks_per_level = replicate 4 0, last_inode_bg_id = 0\<rparr>"

definition lwext4_init :: "('i \<Rightarrow> 's bdev) \<Rightarrow> 's bdev \<Rightarrow> ('i, 's) lwext4" where
  "lwext4_init bds bd = \<lparr>bdevices = replicate CONFIG_EXT4_BLOCKDEVS_COUNT \<lparr>dev_name = [], dev_bd = None\<rparr>,
     mps = replicate CONFIG_EXT4_MOUNTPOINTS_COUNT
       \<lparr>mounted = False, mp_name = [], mp_fs = zero_fs bd, mp_bdev = None, cache_dynamic = False\<rparr>,
     blockdevs = bds, bdev_bc = (\<lambda>_. None)\<rparr>"

subsection \<open>Devices and mount points\<close>

text \<open>Names are copied to arrays of 32 bytes.\<close>

fun register_from :: "'i \<Rightarrow> byte list \<Rightarrow> 'i bdevice list \<Rightarrow> (int \<times> 'i bdevice list) option" where
  "register_from i name [] = Some (ENOSPC, [])"
| "register_from i name (d # ds) =
     (if dev_bd d = None then
        if 32 \<le> length name then None else Some (EOK, \<lparr>dev_name = name, dev_bd = Some i\<rparr> # ds)
      else if dev_name d = name then Some (EOK, d # ds)
      else map_option (\<lambda>(r, ds). (r, d # ds)) (register_from i name ds))"

definition ext4_device_register :: "'i \<Rightarrow> byte list \<Rightarrow> ('i, 's) lwext4 \<Rightarrow> (int \<times> ('i, 's) lwext4) option" where
  "ext4_device_register i name w = map_option (\<lambda>(r, ds). (r, w\<lparr>bdevices := ds\<rparr>)) (register_from i name (bdevices w))"

text \<open>The free mount point, or the result when there is none.\<close>

fun free_slot :: "byte list \<Rightarrow> nat \<Rightarrow> ('i, 's) mountpoint list \<Rightarrow> int + nat" where
  "free_slot name j [] = Inl ENOMEM"
| "free_slot name j (m # ms) =
     (if \<not> mounted m then Inr j else if mp_name m = name then Inl EOK else free_slot name (j + 1) ms)"

definition upd_mp :: "nat \<Rightarrow> (('i, 's) mountpoint \<Rightarrow> ('i, 's) mountpoint) \<Rightarrow> ('i, 's) lwext4 \<Rightarrow> ('i, 's) lwext4" where
  "upd_mp j f w = w\<lparr>mps := (mps w)[j := f (mps w ! j)]\<rparr>"

definition put_dev :: "'i \<Rightarrow> 's bdev \<Rightarrow> ('i, 's) lwext4 \<Rightarrow> ('i, 's) lwext4" where
  "put_dev i bd w = w\<lparr>blockdevs := (blockdevs w)(i := bd)\<rparr>"

definition ext4_mount ::
  "('i \<Rightarrow> 's bdif) \<Rightarrow> byte list \<Rightarrow> byte list \<Rightarrow> bool \<Rightarrow> ('i, 's) lwext4 \<Rightarrow> 's \<Rightarrow> (int \<times> ('i, 's) lwext4 \<times> 's) option" where
  "ext4_mount ops dname mount_point ro w s =
     (if mount_point = [] then None
      else if last mount_point \<noteq> 0x2f then Some (ENOTSUP, w, s)
      else case Option.bind (find (\<lambda>d. dev_name d = dname) (bdevices w)) dev_bd of
        None \<Rightarrow> Some (ENODEV, w, s)
      | Some i \<Rightarrow>
          (case free_slot mount_point 0 (mps w) of
             Inl r \<Rightarrow> Some (r, w, s)
           | Inr j \<Rightarrow>
               if 32 \<le> length mount_point then None
               else do {
                 let w = upd_mp j (\<lambda>m. m\<lparr>mp_name := mount_point, mounted := True\<rparr>) w;
                 (r, bd) \<leftarrow> ext4_block_init (ops i) ((blockdevs w i)\<lparr>drv := s\<rparr>);
                 if r \<noteq> EOK then Some (r, put_dev i bd w, drv bd)
                 else do {
                   (r, fs) \<leftarrow> ext4_fs_init (ops i) \<lparr>bdv = bd, bc = no_cache\<rparr> ro (mp_fs (mps w ! j));
                   let bd = bdv (fs_bdev fs);
                   let w = upd_mp j (\<lambda>m. m\<lparr>mp_fs := fs, mp_bdev := Some i\<rparr>) w;
                   if r \<noteq> EOK then do {
                     (_, bd) \<leftarrow> ext4_block_fini (ops i) bd;
                     Some (r, put_dev i bd w, drv bd) }
                   else do {
                     bsize \<leftarrow> ext4_sb_get_block_size (fs_sb fs);
                     bd \<leftarrow> ext4_block_set_lb_size bsize bd;
                     c \<leftarrow> ext4_bcache_init_dynamic CONFIG_BLOCK_DEV_CACHE_SIZE bsize;
                     let w = put_dev i bd (upd_mp j (\<lambda>m. m\<lparr>cache_dynamic := True\<rparr>) w);
                     if bsize \<noteq> itemsize c then Some (ENOTSUP, w, drv bd)
                     else Some (EOK, w\<lparr>bdev_bc := (bdev_bc w)(i \<mapsto> c)\<rparr>, drv bd) } } }))"

text \<open>The file system of a mount point with the current device and driver state, and back.\<close>

definition mp_load :: "nat \<Rightarrow> ('i, 's) lwext4 \<Rightarrow> 's \<Rightarrow> 's fs option" where
  "mp_load j w s = do {
     i \<leftarrow> mp_bdev (mps w ! j);
     c \<leftarrow> bdev_bc w i;
     Some ((mp_fs (mps w ! j))\<lparr>fs_bdev := \<lparr>bdv = (blockdevs w i)\<lparr>drv := s\<rparr>, bc = c\<rparr>\<rparr>) }"

definition mp_store :: "nat \<Rightarrow> 's fs \<Rightarrow> ('i, 's) lwext4 \<Rightarrow> ('i, 's) lwext4" where
  "mp_store j fs w =
     (case mp_bdev (mps w ! j) of
        None \<Rightarrow> w
      | Some i \<Rightarrow> (put_dev i (bdv (fs_bdev fs)) (upd_mp j (\<lambda>m. m\<lparr>mp_fs := fs\<rparr>) w))\<lparr>bdev_bc := (bdev_bc w)(i \<mapsto> bc (fs_bdev fs))\<rparr>)"

abbreviation fs_drv :: "'s fs \<Rightarrow> 's" where "fs_drv fs \<equiv> drv (bdv (fs_bdev fs))"

text \<open>The mount point is looked for by its name only. The cache is freed but the device keeps pointing to it.\<close>

fun slot_named :: "byte list \<Rightarrow> nat \<Rightarrow> ('i, 's) mountpoint list \<Rightarrow> nat option" where
  "slot_named name j [] = None"
| "slot_named name j (m # ms) = (if mp_name m = name then Some j else slot_named name (j + 1) ms)"

definition ext4_umount ::
  "('i \<Rightarrow> 's bdif) \<Rightarrow> byte list \<Rightarrow> ('i, 's) lwext4 \<Rightarrow> 's \<Rightarrow> (int \<times> ('i, 's) lwext4 \<times> 's) option" where
  "ext4_umount ops mount_point w s =
     (case slot_named mount_point 0 (mps w) of
        None \<Rightarrow> Some (ENODEV, w, s)
      | Some j \<Rightarrow> do {
          i \<leftarrow> mp_bdev (mps w ! j);
          fs \<leftarrow> mp_load j w s;
          (r, fs) \<leftarrow> ext4_fs_fini (ops i) fs;
          if r \<noteq> EOK then Some (r, mp_store j fs w, fs_drv fs)
          else do {
            let w = upd_mp j (\<lambda>m. m\<lparr>mounted := False\<rparr>) (mp_store j fs w);
            cd \<leftarrow> ext4_bcache_cleanup (ops i) (fs_bdev fs);
            let w = w\<lparr>bdev_bc := (bdev_bc w)(i := if cache_dynamic (mps w ! j) then None else Some (bc cd))\<rparr>;
            (r, bd) \<leftarrow> ext4_block_fini (ops i) (bdv cd);
            Some (r, put_dev i bd w, drv bd) } })"

fun get_mount_from :: "byte list \<Rightarrow> nat \<Rightarrow> ('i, 's) mountpoint list \<Rightarrow> nat option" where
  "get_mount_from path j [] = None"
| "get_mount_from path j (m # ms) =
     (if mounted m \<and> take (length (mp_name m)) path = mp_name m then Some j else get_mount_from path (j + 1) ms)"

definition ext4_get_mount :: "byte list \<Rightarrow> ('i, 's) lwext4 \<Rightarrow> nat option" where
  "ext4_get_mount path w = get_mount_from path 0 (mps w)"

subsection \<open>Calls on paths and files\<close>

text \<open>An operation on the file system of a mount point.\<close>

definition on_mp ::
  "('i \<Rightarrow> 's bdif) \<Rightarrow> nat \<Rightarrow> ('s bdif \<Rightarrow> 's fs \<Rightarrow> ('r \<times> 's fs) option) \<Rightarrow> ('i, 's) lwext4 \<Rightarrow> 's \<Rightarrow> ('r \<times> ('i, 's) lwext4 \<times> 's) option" where
  "on_mp ops j f w s = do {
     i \<leftarrow> mp_bdev (mps w ! j);
     fs \<leftarrow> mp_load j w s;
     (r, fs) \<leftarrow> f (ops i) fs;
     Some (r, mp_store j fs w, fs_drv fs) }"

definition write_back :: "bool \<Rightarrow> 's bdif \<Rightarrow> 's fs \<Rightarrow> (int \<times> 's fs) option" where
  "write_back on ops fs = map_option (\<lambda>(r, cd). (r, fs\<lparr>fs_bdev := cd\<rparr>)) (ext4_block_cache_write_back ops on (fs_bdev fs))"

definition ext4_cache_write_back ::
  "('i \<Rightarrow> 's bdif) \<Rightarrow> byte list \<Rightarrow> bool \<Rightarrow> ('i, 's) lwext4 \<Rightarrow> 's \<Rightarrow> (int \<times> ('i, 's) lwext4 \<times> 's) option" where
  "ext4_cache_write_back ops path on w s =
     (case ext4_get_mount path w of
        None \<Rightarrow> Some (ENOENT, w, s)
      | Some j \<Rightarrow> map_option (\<lambda>(_, w, s). (EOK, w, s)) (on_mp ops j (write_back on) w s))"

text \<open>An open file: the descriptor and, when its \<open>mp\<close> is set, the number of the mount point.\<close>

type_synonym mfile = "nat \<times> ext4_file"

definition ext4_fopen ::
  "('i \<Rightarrow> 's bdif) \<Rightarrow> malloc \<Rightarrow> (u16 \<Rightarrow> bool) \<Rightarrow> mfile \<Rightarrow> byte list \<Rightarrow> string \<Rightarrow> ('i, 's) lwext4 \<Rightarrow> 's \<Rightarrow>
   (int \<times> mfile \<times> ('i, 's) lwext4 \<times> 's) option" where
  "ext4_fopen ops mal cal f path fl w s =
     (case ext4_get_mount path w of
        None \<Rightarrow> Some (ENOENT, f, w, s)
      | Some j \<Rightarrow> do {
          ((r, g), w, s) \<leftarrow> on_mp ops j (\<lambda>ops fs. do {
            (_, fs) \<leftarrow> write_back True ops fs;
            (r, g, fs) \<leftarrow> ext4_generic_open ops mal cal (snd f) (drop (length (mp_name (mps w ! j))) path) fl True fs;
            (_, fs) \<leftarrow> write_back False ops fs;
            Some ((r, g), fs) }) w s;
          Some (r, (j, g), w, s) })"

definition ext4_fopen2 ::
  "('i \<Rightarrow> 's bdif) \<Rightarrow> malloc \<Rightarrow> (u16 \<Rightarrow> bool) \<Rightarrow> mfile \<Rightarrow> byte list \<Rightarrow> u32 \<Rightarrow> ('i, 's) lwext4 \<Rightarrow> 's \<Rightarrow>
   (int \<times> mfile \<times> ('i, 's) lwext4 \<times> 's) option" where
  "ext4_fopen2 ops mal cal f path fl w s =
     (case ext4_get_mount path w of
        None \<Rightarrow> Some (ENOENT, f, w, s)
      | Some j \<Rightarrow> do {
          ((r, g), w, s) \<leftarrow> on_mp ops j (\<lambda>ops fs. do {
            (_, fs) \<leftarrow> write_back True ops fs;
            (r, g, fs) \<leftarrow> ext4_generic_open2 ops mal cal (snd f) (drop (length (mp_name (mps w ! j))) path) fl EXT4_DE_REG_FILE fs;
            (_, fs) \<leftarrow> write_back False ops fs;
            Some ((r, g), fs) }) w s;
          Some (r, (j, g), w, s) })"

text \<open>Reading from an open file of any mount point.\<close>

definition mp_fread ::
  "('i \<Rightarrow> 's bdif) \<Rightarrow> malloc \<Rightarrow> (u16 \<Rightarrow> bool) \<Rightarrow> mfile \<Rightarrow> byte list \<Rightarrow> u64 \<Rightarrow> u64 \<Rightarrow> ('i, 's) lwext4 \<Rightarrow> 's \<Rightarrow>
   ((int \<times> byte list \<times> u64 \<times> mfile) \<times> ('i, 's) lwext4 \<times> 's) option" where
  "mp_fread ops mal cal f buf sz rcnt w s =
     (if \<not> f_mp (snd f) then None
      else on_mp ops (fst f) (\<lambda>ops fs. map_option (\<lambda>(r, buf, rcnt, g, fs). ((r, buf, rcnt, fst f, g), fs))
             (ext4_fread ops mal cal (snd f) buf sz rcnt fs)) w s)"

record ext4_direntry =
  de_inode :: u32
  de_entry_length :: u16
  de_name_length :: byte
  de_inode_type :: byte
  de_name :: "byte list"

record ext4_dir =
  d_f :: mfile
  d_de :: ext4_direntry
  next_off :: u64

definition ext4_dir_open ::
  "('i \<Rightarrow> 's bdif) \<Rightarrow> malloc \<Rightarrow> (u16 \<Rightarrow> bool) \<Rightarrow> ext4_dir \<Rightarrow> byte list \<Rightarrow> ('i, 's) lwext4 \<Rightarrow> 's \<Rightarrow>
   (int \<times> ext4_dir \<times> ('i, 's) lwext4 \<times> 's) option" where
  "ext4_dir_open ops mal cal d path w s =
     (case ext4_get_mount path w of
        None \<Rightarrow> Some (ENOENT, d, w, s)
      | Some j \<Rightarrow> do {
          ((r, g), w, s) \<leftarrow> on_mp ops j (\<lambda>ops fs. do {
            (r, g, fs) \<leftarrow> ext4_generic_open ops mal cal (snd (d_f d)) (drop (length (mp_name (mps w ! j))) path) ''r'' False fs;
            Some ((r, g), fs) }) w s;
          Some (r, d\<lparr>d_f := (j, g), next_off := 0\<rparr>, w, s) })"

definition ext4_dir_close :: "ext4_dir \<Rightarrow> (int \<times> ext4_dir) option" where
  "ext4_dir_close d = map_option (\<lambda>(r, g). (r, d\<lparr>d_f := (fst (d_f d), g)\<rparr>)) (ext4_fclose (snd (d_f d)))"

text \<open>The entry is copied before the iterator moves on; reading an entry behind the last one has no result. The
  first result says whether there was an entry.\<close>

definition EXT4_DIR_ENTRY_OFFSET_TERM :: u64 where "EXT4_DIR_ENTRY_OFFSET_TERM = - 1"

definition dirent_copy :: "mem \<Rightarrow> byte list \<Rightarrow> nat \<Rightarrow> ext4_direntry option" where
  "dirent_copy sb dat p = do {
     name_length \<leftarrow> ext4_dir_en_get_name_len sb dat p;
     name \<leftarrow> (if p + 8 + unat name_length \<le> length dat \<and> unat name_length \<le> 255
             then Some (take (unat name_length) (drop (p + 8) dat)) else None);
     inode \<leftarrow> ext4_dir_en_get_inode dat p;
     len \<leftarrow> ext4_dir_en_get_entry_len dat p;
     t \<leftarrow> ext4_dir_en_get_inode_type sb dat p;
     Some \<lparr>de_inode = inode, de_entry_length = len, de_name_length = ucast name_length, de_inode_type = t,
       de_name = name @ replicate (255 - unat name_length) 0\<rparr> }"

definition dir_next ::
  "malloc \<Rightarrow> (u16 \<Rightarrow> bool) \<Rightarrow> ext4_dir \<Rightarrow> 's bdif \<Rightarrow> 's fs \<Rightarrow> ((bool \<times> ext4_dir) \<times> 's fs) option" where
  "dir_next mal cal d ops fs = do {
     (r, ref, fs) \<leftarrow> ext4_fs_get_inode_ref ops mal (f_inode (snd (d_f d))) fs;
     if r \<noteq> EOK then Some ((False, d), fs)
     else do {
       (r, it, fs) \<leftarrow> ext4_dir_iterator_init ops mal cal ref (next_off d) fs;
       if r \<noteq> EOK then do {
         (_, fs) \<leftarrow> ext4_fs_put_inode_ref ops ref fs;
         Some ((False, d), fs) }
       else do {
         p \<leftarrow> curr it;
         dat \<leftarrow> blk_data (curr_blk it) (fs_bdev fs);
         de \<leftarrow> dirent_copy (fs_sb fs) dat p;
         (_, it, fs) \<leftarrow> ext4_dir_iterator_next ops mal cal ref it fs;
         let d = d\<lparr>d_de := de, next_off := (if curr it = None then EXT4_DIR_ENTRY_OFFSET_TERM else curr_off it)\<rparr>;
         (_, fs) \<leftarrow> ext4_dir_iterator_fini ops it fs;
         (_, fs) \<leftarrow> ext4_fs_put_inode_ref ops ref fs;
         Some ((True, d), fs) } } }"

definition ext4_dir_entry_next ::
  "('i \<Rightarrow> 's bdif) \<Rightarrow> malloc \<Rightarrow> (u16 \<Rightarrow> bool) \<Rightarrow> ext4_dir \<Rightarrow> ('i, 's) lwext4 \<Rightarrow> 's \<Rightarrow>
   ((bool \<times> ext4_dir) \<times> ('i, 's) lwext4 \<times> 's) option" where
  "ext4_dir_entry_next ops mal cal d w s =
     (if \<not> f_mp (snd (d_f d)) then None
      else if next_off d = EXT4_DIR_ENTRY_OFFSET_TERM then Some ((False, d), w, s)
      else on_mp ops (fst (d_f d)) (dir_next mal cal d) w s)"

definition ext4_dir_entry_rewind :: "ext4_dir \<Rightarrow> ext4_dir" where
  "ext4_dir_entry_rewind d = d\<lparr>next_off := 0\<rparr>"

subsection \<open>The functions of test\_lwext4.c\<close>

text \<open>Without journaling \<open>ext4_recover\<close>, \<open>ext4_journal_start\<close> and \<open>ext4_journal_stop\<close> do nothing.\<close>

definition ext4_recover :: int where "ext4_recover = EOK"
definition ext4_journal_start :: int where "ext4_journal_start = EOK"
definition ext4_journal_stop :: int where "ext4_journal_stop = EOK"

definition test_lwext4_mount ::
  "('i \<Rightarrow> 's bdif) \<Rightarrow> 'i \<Rightarrow> ('i, 's) lwext4 \<Rightarrow> 's \<Rightarrow> (bool \<times> ('i, 's) lwext4 \<times> 's) option" where
  "test_lwext4_mount ops i w s = do {
     (r, w) \<leftarrow> ext4_device_register i (ascii ''ext4_fs'') w;
     if r \<noteq> EOK then Some (False, w, s)
     else do {
       (r, w, s) \<leftarrow> ext4_mount ops (ascii ''ext4_fs'') (ascii ''/'') True w s;
       if r \<noteq> EOK then Some (False, w, s)
       else if ext4_recover \<noteq> EOK \<and> ext4_recover \<noteq> ENOTSUP then Some (False, w, s)
       else if ext4_journal_start \<noteq> EOK then Some (False, w, s)
       else do {
         (_, w, s) \<leftarrow> ext4_cache_write_back ops (ascii ''/'') True w s;
         Some (True, w, s) } } }"

definition test_lwext4_umount ::
  "('i \<Rightarrow> 's bdif) \<Rightarrow> ('i, 's) lwext4 \<Rightarrow> 's \<Rightarrow> (bool \<times> ('i, 's) lwext4 \<times> 's) option" where
  "test_lwext4_umount ops w s = do {
     (_, w, s) \<leftarrow> ext4_cache_write_back ops (ascii ''/'') False w s;
     if ext4_journal_stop \<noteq> EOK then Some (False, w, s)
     else do {
       (r, w, s) \<leftarrow> ext4_umount ops (ascii ''/'') w s;
       Some (r = EOK, w, s) } }"

definition entry_to_str :: "byte \<Rightarrow> string" where
  "entry_to_str t =
     (if t = EXT4_DE_UNKNOWN then ''[unk] '' else if t = EXT4_DE_REG_FILE then ''[fil] '' else if t = EXT4_DE_DIR then ''[dir] ''
      else if t = EXT4_DE_CHRDEV then ''[cha] '' else if t = EXT4_DE_BLKDEV then ''[blk] '' else if t = EXT4_DE_FIFO then ''[fif] ''
      else if t = EXT4_DE_SOCK then ''[soc] '' else if t = EXT4_DE_SYMLINK then ''[sym] '' else ''[???]'')"

text \<open>One line of the listing: the name is copied to an array of 255 bytes and printed up to its first 0.\<close>

definition ls_line :: "ext4_direntry \<Rightarrow> byte list option" where
  "ls_line de =
     (if 255 \<le> unat (de_name_length de) then None
      else Some (ascii ''  '' @ ascii (entry_to_str (de_inode_type de)) @
             takeWhile (\<lambda>c. c \<noteq> 0) (take (unat (de_name_length de)) (de_name de)) @ [0x0a]))"

partial_function (option) ls_loop ::
  "('i \<Rightarrow> 's bdif) \<Rightarrow> malloc \<Rightarrow> (u16 \<Rightarrow> bool) \<Rightarrow> byte list \<Rightarrow> bool \<Rightarrow> ext4_dir \<Rightarrow> ('i, 's) lwext4 \<Rightarrow> 's \<Rightarrow>
   (byte list \<times> ext4_dir \<times> ('i, 's) lwext4 \<times> 's) option" where
  "ls_loop ops mal cal out have_de d w s =
     (if have_de then
        Option.bind (ls_line (d_de d)) (\<lambda>line.
        Option.bind (ext4_dir_entry_next ops mal cal d w s) (\<lambda>((have_de, d), w, s).
          ls_loop ops mal cal (out @ line) have_de d w s))
      else Some (out, d, w, s))"

text \<open>The result of \<open>ext4_dir_open\<close> is ignored. \<open>d0\<close> is the uninitialised local variable.\<close>

definition test_lwext4_dir_ls ::
  "('i \<Rightarrow> 's bdif) \<Rightarrow> malloc \<Rightarrow> (u16 \<Rightarrow> bool) \<Rightarrow> ext4_dir \<Rightarrow> byte list \<Rightarrow> ('i, 's) lwext4 \<Rightarrow> 's \<Rightarrow>
   (byte list \<times> ('i, 's) lwext4 \<times> 's) option" where
  "test_lwext4_dir_ls ops mal cal d0 path w s = do {
     (_, d, w, s) \<leftarrow> ext4_dir_open ops mal cal d0 path w s;
     ((have_de, d), w, s) \<leftarrow> ext4_dir_entry_next ops mal cal d w s;
     (out, d, w, s) \<leftarrow> ls_loop ops mal cal [] have_de d w s;
     (_, d) \<leftarrow> ext4_dir_close d;
     Some (out, w, s) }"

section \<open>Device and cache of a mounted file system\<close>

text \<open>Replacing the device structure below the cache by one that shows the same blocks.\<close>

lemma on_disk_dev:
  assumes "on_disk good blk N n k D R fs" "good' bd" "ph_refctr bd \<noteq> 0" "lg_bsize bd = lg_bsize (bdv (fs_bdev fs))" "blk' bd = blk (bdv (fs_bdev fs))"
  shows "on_disk good' blk' N n k D R (fs\<lparr>fs_bdev := (fs_bdev fs)\<lparr>bdv := bd\<rparr>\<rparr>)"
proof -
  have v: "view blk' ((fs_bdev fs)\<lparr>bdv := bd\<rparr>) = view blk (fs_bdev fs)" by (rule ext) (simp add: view_def assms(5) split: option.split)
  have r: "refs ((fs_bdev fs)\<lparr>bdv := bd\<rparr>) = refs (fs_bdev fs)" "raw ((fs_bdev fs)\<lparr>bdv := bd\<rparr>) = raw (fs_bdev fs)"
    by (simp_all add: fun_eq_iff refs_def raw_def)
  have "coherent good' blk' False N ((fs_bdev fs)\<lparr>bdv := bd\<rparr>)"
    using assms(1,2,4,5) by (simp add: on_disk_def refines_def coherent_def buf_coh_def)
  then show ?thesis using assms(1,3,4) v r by (simp add: on_disk_def refines_def)
qed

context logical_source
begin

lemma flush_on_disk:
  assumes "on_disk good blk N n k D R fs"
  shows "\<exists>cd. ext4_block_cache_flush ops (fs_bdev fs) = Some (EOK, cd) \<and> on_disk good blk N n k D R (fs\<lparr>fs_bdev := cd\<rparr>)"
proof -
  note r = assms[unfolded on_disk_def refines_def fst_conv snd_conv]
  have coh: "coherent good blk False N (fs_bdev fs)" using r by blast
  from cache_flush_ok[OF coh] obtain cd where c: "ext4_block_cache_flush ops (fs_bdev fs) = Some (EOK, cd)" "coherent good blk False N cd"
    "geom (bdv cd) = geom (bdv (fs_bdev fs))" "view blk cd = view blk (fs_bdev fs)" "refs cd = refs (fs_bdev fs)"
    "lru_ctr (bc cd) = lru_ctr (bc (fs_bdev fs))" "raw cd \<subseteq> raw (fs_bdev fs)" by blast
  then show ?thesis using r geom_eqD[OF c(3)] by (auto simp: on_disk_def refines_def)
qed

end

text \<open>Dropping every buffer of a clean cache that nobody uses.\<close>

lemma cleanup_bufs_ok:
  assumes "bc_inv (bc cd)" "distinct ls" "\<forall>l\<in>set ls. ext4_buf_lookup (bc cd) l \<noteq> None"
    "\<forall>l b. ext4_buf_lookup (bc cd) l = Some b \<longrightarrow> BC_DIRTY \<notin> flags b \<and> refctr b = 0"
  shows "\<exists>c. cleanup_bufs ops ls cd = Some (cd\<lparr>bc := c\<rparr>)"
  using assms
proof (induction ls arbitrary: cd)
  case Nil
  then show ?case by (intro exI[of _ "bc cd"]) simp
next
  case (Cons l ls)
  obtain b where b: "ext4_buf_lookup (bc cd) l = Some b" "BC_DIRTY \<notin> flags b" "refctr b = 0" using Cons.prems by auto
  from drop_ok[OF Cons.prems(1) b(1,3)] obtain c where c: "ext4_bcache_drop_buf l (bc cd) = Some c" "bc_inv c"
    "ext4_buf_lookup c = (ext4_buf_lookup (bc cd))(l := None)" by blast
  have "\<exists>c'. cleanup_bufs ops ls (cd\<lparr>bc := c\<rparr>) = Some (cd\<lparr>bc := c\<rparr>\<lparr>bc := c'\<rparr>)"
    by (rule Cons.IH) (use Cons.prems(2-4) c(2,3) in auto)
  moreover have "ext4_block_flush_buf ops l cd = Some (EOK, cd)"
    using b by (simp add: ext4_block_flush_buf_def ext4_bcache_test_flag_def)
  ultimately show ?case using c(1) by auto
qed

lemma cleanup_on_disk:
  assumes "on_disk good blk N n k D (\<lambda>_. 0) fs"
  shows "\<exists>c. ext4_bcache_cleanup ops (fs_bdev fs) = Some ((fs_bdev fs)\<lparr>bc := c\<rparr>)"
  unfolding ext4_bcache_cleanup_def
proof (rule cleanup_bufs_ok)
  note r = assms[unfolded on_disk_def refines_def fst_conv snd_conv]
  show "bc_inv (bc (fs_bdev fs))" using r by (simp add: coherent_def)
  then show "distinct (map fst (lba_root (bc (fs_bdev fs))))" by (simp add: bc_inv_def keys_inv_def)
  show "\<forall>l\<in>set (map fst (lba_root (bc (fs_bdev fs)))). ext4_buf_lookup (bc (fs_bdev fs)) l \<noteq> None"
    by (auto simp: ext4_buf_lookup_def map_of_eq_None_iff)
  show "\<forall>l b. ext4_buf_lookup (bc (fs_bdev fs)) l = Some b \<longrightarrow> BC_DIRTY \<notin> flags b \<and> refctr b = 0"
  proof (intro allI impI)
    fix l b assume b: "ext4_buf_lookup (bc (fs_bdev fs)) l = Some b"
    have "refs (fs_bdev fs) l = 0" using r by (metis (mono_tags))
    then have "refctr b = 0" using b by (simp add: refs_def unat_eq_zero)
    moreover have "BC_DIRTY \<notin> flags b" using r b by (auto simp: coherent_def buf_coh_def)
    ultimately show "BC_DIRTY \<notin> flags b \<and> refctr b = 0" by simp
  qed
qed

text \<open>The superblock as it lies on the disk, and the file system that mounting makes of it.\<close>

definition sb_of :: "byte list \<Rightarrow> mem" where
  "sb_of img = mem_put (\<lambda>_. 0) 0 (take 1024 (drop 1024 img))"

definition mountable :: "mem \<Rightarrow> bool" where
  "mountable sb \<longleftrightarrow> ext4_sb_check sb \<and> (\<exists>bs. ext4_sb_get_block_size sb = Some bs \<and> bs \<le> EXT4_MAX_BLOCK_SIZE) \<and>
     (rev_level sb = 0 \<or> features_incompatible sb AND NOT CONFIG_SUPPORTED_FINCOM = 0)"

definition mounted_fs :: "mem \<Rightarrow> 's cdev \<Rightarrow> 's fs" where
  "mounted_fs sb cd =
     (let m = unat (the (ext4_sb_get_block_size sb)) div 4 in
      \<lparr>read_only = True, fs_bdev = cd, fs_sb = sb,
       inode_block_limits = map of_nat [12, 12 + m, 12 + m + m ^ 2, 12 + m + m ^ 2 + m ^ 3],
       inode_blocks_per_level = map (\<lambda>i. of_nat (m ^ i)) [0..<4], last_inode_bg_id = 0\<rparr>)"

lemma mounted_fs_simps [simp]:
  "fs_sb (mounted_fs sb cd) = sb" "fs_bdev (mounted_fs sb cd) = cd" "read_only (mounted_fs sb cd)"
  "(mounted_fs sb cd)\<lparr>fs_bdev := cd'\<rparr> = mounted_fs sb cd'"
  by (simp_all add: mounted_fs_def Let_def)

lemma block_size_range:
  assumes "ext4_sb_get_block_size sb = Some bs" "bs \<le> EXT4_MAX_BLOCK_SIZE"
  shows "1024 \<le> unat bs" "unat bs \<le> 65536" "512 dvd unat bs" "4 dvd unat bs"
proof -
  have bs: "bs = push_bit (unat (log_block_size sb)) 1024" "log_block_size sb < 21"
    using assms(1) by (auto simp: ext4_sb_get_block_size_def split: if_splits)
  let ?l = "unat (log_block_size sb)"
  have l: "?l < 21" using bs(2) by (simp add: word_less_nat_alt)
  then have "(2 :: nat) ^ ?l \<le> 2 ^ 20" by (intro power_increasing) simp_all
  then have small: "1024 * 2 ^ ?l < (2 :: nat) ^ 32" by simp
  have "unat ((2 :: u32) ^ ?l) = 2 ^ ?l" using small unat_of_nat[of "2 ^ ?l", where ?'a = 32] by simp
  then have u: "unat bs = 1024 * 2 ^ ?l" unfolding bs(1) push_bit_eq_mult using small by (simp add: unat_word_ariths)
  show "1024 \<le> unat bs" "512 dvd unat bs" "4 dvd unat bs" unfolding u by (simp_all add: dvd_mult2)
  show "unat bs \<le> 65536" using assms(2) by (simp add: word_le_nat_alt EXT4_MAX_BLOCK_SIZE_def)
qed

lemma levels_mounted:
  assumes "ext4_sb_get_block_size sb = Some bs" "bs \<le> EXT4_MAX_BLOCK_SIZE"
  shows "levels_ok (unat bs div 4) (mounted_fs sb cd)"
    "level_limits (ucast (bs div 4)) 3 (ucast EXT4_INODE_DIRECT_BLOCK_COUNT) 1 =
      (inode_block_limits (mounted_fs sb cd), inode_blocks_per_level (mounted_fs sb cd))"
proof -
  note b = block_size_range[OF assms]
  show "levels_ok (unat bs div 4) (mounted_fs sb cd)"
    using b(1,2) assms(1) by (auto simp: levels_ok_def mounted_fs_def Let_def div_greater_zero_iff)
  have "(ucast (bs div 4) :: u64) = of_nat (unat bs div 4)"
    by (simp add: word_unat_eq_iff unat_ucast_mod unat_div unat_of_nat order_le_less_trans[OF div_le_dividend] order_less_trans[OF unat_less])
  then show "level_limits (ucast (bs div 4)) 3 (ucast EXT4_INODE_DIRECT_BLOCK_COUNT) 1 =
      (inode_block_limits (mounted_fs sb cd), inode_blocks_per_level (mounted_fs sb cd))"
    using level_limits_ok[of "unat bs div 4"] assms(1)
    by (simp add: mounted_fs_def Let_def EXT4_INODE_DIRECT_BLOCK_COUNT_def)
qed

text \<open>The first mount point is ``/'', it belongs to device \<open>i\<close>, and its file system is \<open>fs\<close>.\<close>

definition mp_holds :: "'i \<Rightarrow> 's fs \<Rightarrow> ('i, 's) lwext4 \<Rightarrow> 's \<Rightarrow> bool" where
  "mp_holds i fs w s \<longleftrightarrow> mp_load 0 w s = Some fs \<and>
     (\<exists>m ms. mps w = m # ms \<and> mounted m \<and> mp_name m = ascii ''/'' \<and> mp_bdev m = Some i \<and> cache_dynamic m)"

lemma on_mp_holds:
  assumes "mp_holds i fs w s" "f (ops i) fs = Some (r, fs')"
  shows "on_mp ops 0 f w s = Some (r, mp_store 0 fs' w, fs_drv fs')" "mp_holds i fs' (mp_store 0 fs' w) (fs_drv fs')"
  using assms by (auto simp: mp_holds_def on_mp_def mp_load_def mp_store_def put_dev_def upd_mp_def bind_Some_iff)

lemma mp_holds_mount: "mp_holds i fs w s \<Longrightarrow> ext4_get_mount (0x2f # path) w = Some 0 \<and> mp_name (mps w ! 0) = [0x2f]"
  by (auto simp: mp_holds_def ext4_get_mount_def ascii_def)

text \<open>Between two calls the driver state may be replaced.\<close>

lemma mp_holds_drv:
  assumes "mp_holds i fs w s"
  shows "mp_holds i (fs\<lparr>fs_bdev := (fs_bdev fs)\<lparr>bdv := (bdv (fs_bdev fs))\<lparr>drv := s'\<rparr>\<rparr>\<rparr>) w s'"
  using assms by (auto simp: mp_holds_def mp_load_def bind_Some_iff)

definition img_block :: "byte list \<Rightarrow> nat \<Rightarrow> u64 \<Rightarrow> byte list" where
  "img_block img n l = take n (drop (unat l * n) img)"

context block_source
begin

lemma write_back_ok:
  assumes "on_disk (ready_dev N) (part_block content) N n k D R fs"
  shows "\<exists>cd. write_back on ops fs = Some (EOK, fs\<lparr>fs_bdev := cd\<rparr>) \<and>
    on_disk (ready_dev N) (part_block content) N n k D R (fs\<lparr>fs_bdev := cd\<rparr>)"
proof -
  let ?m = "\<lambda>x. fs\<lparr>fs_bdev := (fs_bdev fs)\<lparr>bdv := (bdv (fs_bdev fs))\<lparr>cache_write_back := x\<rparr>\<rparr>\<rparr>"
  have m: "on_disk (ready_dev N) (part_block content) N n k D R (?m x)" for x
    by (rule on_disk_dev[OF assms]) (use on_disk_bsize[OF assms] in \<open>auto simp: dev_ok_def lb_ok_def part_block_def fun_eq_iff\<close>)
  define x where "x = (let n = cache_write_back (bdv (fs_bdev fs)); n = (if on then n + 1 else n) in if \<not> on \<and> n \<noteq> 0 then n - 1 else n)"
  have "write_back on ops fs = (if x \<noteq> 0 then Some (EOK, ?m x)
      else map_option (\<lambda>(r, cd). (r, fs\<lparr>fs_bdev := cd\<rparr>)) (ext4_block_cache_flush ops (fs_bdev (?m x))))"
    by (simp add: write_back_def ext4_block_cache_write_back_def Let_def x_def)
  then show ?thesis
    using m[of x] lsrc.flush_on_disk[OF m[of x]] by (cases "x = 0") auto
qed

lemma fs_init_ok:
  assumes d: "dev_ok ok content bsize d" "ph_refctr d \<noteq> 0" "part_offset d = 0" "2048 \<le> unat (part_size d)" "2048 \<le> length (content (drv d))"
    and fs0: "\<forall>i\<ge>1024. fs_sb fs0 i = 0" "last_inode_bg_id fs0 = 0" and sb: "mountable (sb_of (content (drv d)))"
  shows "\<exists>d'. ext4_fs_init ops \<lparr>bdv = d, bc = c\<rparr> True fs0 = Some (EOK, mounted_fs (sb_of (content (drv d))) \<lparr>bdv = d', bc = c\<rparr>) \<and>
    dev_ok ok content bsize d' \<and> geom d' = geom d \<and> content (drv d') = content (drv d)"
proof -
  let ?c = "content (drv d)" and ?sb = "sb_of (content (drv d))"
  from readbytes_ok[OF d(1,2), of EXT4_SUPERBLOCK_OFFSET EXT4_SUPERBLOCK_SIZE "mem_get (fs_sb fs0) 0 1024"] d(3-5)
  obtain d' where r: "ext4_block_readbytes ops EXT4_SUPERBLOCK_OFFSET (mem_get (fs_sb fs0) 0 1024) EXT4_SUPERBLOCK_SIZE d =
      Some (EOK, take 1024 (drop 1024 ?c), d')" "dev_ok ok content bsize d'" "geom d' = geom d" "content (drv d') = ?c"
    by (auto simp: EXT4_SUPERBLOCK_OFFSET_def EXT4_SUPERBLOCK_SIZE_def)
  have "mem_put (fs_sb fs0) 0 (take 1024 (drop 1024 ?c)) = ?sb"
    using d(5) fs0(1) by (auto simp: sb_of_def mem_put_def fun_eq_iff)
  then have rd: "ext4_sb_read ops \<lparr>bdv = d, bc = c\<rparr> (fs_sb fs0) = Some (EOK, ?sb, \<lparr>bdv = d', bc = c\<rparr>)"
    using r(1) by (simp add: ext4_sb_read_def)
  obtain bs where bs: "ext4_sb_get_block_size ?sb = Some bs" "bs \<le> EXT4_MAX_BLOCK_SIZE" using sb by (auto simp: mountable_def)
  have chk: "ext4_sb_check ?sb" "fst (ext4_fs_check_features ?sb True) = EOK"
    using sb by (auto simp: mountable_def ext4_fs_check_features_def)
  obtain ro where ro: "ext4_fs_check_features ?sb True = (EOK, ro)" using chk(2) by (cases "ext4_fs_check_features ?sb True") simp
  have "ext4_fs_init ops \<lparr>bdv = d, bc = c\<rparr> True fs0 = Some (EOK, mounted_fs ?sb \<lparr>bdv = d', bc = c\<rparr>)"
    using rd bs chk(1) ro levels_mounted(2)[OF bs, of "\<lparr>bdv = d', bc = c\<rparr>"] fs0(2)
    by (auto simp: ext4_fs_init_def Let_def mounted_fs_def)
  with r show ?thesis by blast
qed

text \<open>Mounting a device that opens, and whose contents are a file system.\<close>

lemma mount_ok:
  assumes dv: "opsf i = ops" "Option.bind (find (\<lambda>d. dev_name d = dname) (bdevices w)) dev_bd = Some i"
    and mp: "mps w = mp # rest" "\<not> mounted mp" "\<forall>i\<ge>1024. fs_sb (mp_fs mp) i = 0" "last_inode_bg_id (mp_fs mp) = 0"
    and init: "ext4_block_init ops ((blockdevs w i)\<lparr>drv := s\<rparr>) = Some (EOK, d)" "dev_ok ok content bsize d" "ph_refctr d \<noteq> 0"
      "part_offset d = 0" "length (content (drv d)) \<le> unat (part_size d)"
    and img: "img = content (drv d)" "2048 \<le> length img" "mountable (sb_of img)" "ext4_sb_get_block_size (sb_of img) = Some bs"
      "bsize dvd unat bs" "N = of_nat (length img div unat bs)"
  shows "\<exists>w' cd. ext4_mount opsf dname (ascii ''/'') True w s = Some (EOK, w', drv (bdv cd)) \<and>
    mp_holds i (mounted_fs (sb_of img) cd) w' (drv (bdv cd)) \<and>
    on_disk (ready_dev N) (part_block content) N (unat bs) 0 (img_block img (unat bs)) (\<lambda>_. 0) (mounted_fs (sb_of img) cd)"
proof -
  let ?n = "unat bs" and ?sb = "sb_of img"
  have bmax: "bs \<le> EXT4_MAX_BLOCK_SIZE" using img(3,4) by (auto simp: mountable_def)
  note b = block_size_range[OF img(4) bmax]
  from fs_init_ok[OF init(2-4), of "mp_fs mp" no_cache] init(5) img(1-3) mp(3,4) obtain d1 where f:
    "ext4_fs_init ops \<lparr>bdv = d, bc = no_cache\<rparr> True (mp_fs mp) = Some (EOK, mounted_fs ?sb \<lparr>bdv = d1, bc = no_cache\<rparr>)"
    "dev_ok ok content bsize d1" "geom d1 = geom d" "content (drv d1) = img" by auto
  note g = geom_eqD[OF f(3)]
  have ph: "unat (ph_bsize d1) = bsize" using f(2) by (simp add: dev_ok_def)
  then have ph0: "ph_bsize d1 \<noteq> 0" using power by (auto simp: word_unat_eq_iff)
  let ?d = "d1\<lparr>lg_bsize := bs, lg_bcnt := part_size d1 div ucast bs\<rparr>"
  have "bs mod ph_bsize d1 = 0" using img(5) ph by (simp add: word_unat_eq_iff unat_mod dvd_imp_mod_0)
  then have set: "ext4_block_set_lb_size bs d1 = Some ?d" using ph0 b(1) by (auto simp: ext4_block_set_lb_size_def)
  have le: "length img div ?n \<le> unat (part_size d1) div ?n" using init(5) img(1) g by (intro div_le_mono) simp
  have ps: "unat (part_size d1) < 2 ^ 64" using unat_less[of "part_size d1"] by simp
  have "length img div ?n < 2 ^ 64" using le ps order_le_less_trans[OF div_le_dividend[of "unat (part_size d1)" ?n] ps] by linarith
  then have N: "unat N = length img div ?n" by (simp add: img(6) unat_of_nat)
  have "unat (lg_bcnt ?d) = unat (part_size d1) div ?n" by (simp add: unat_div)
  then have "N \<le> lg_bcnt ?d" using le N by (simp add: word_le_nat_alt)
  moreover have "unat (part_offset d1) + unat N * ?n \<le> length (content (drv d1))" using g init(4) N f(4) by simp
  ultimately have lb: "lb_ok content bsize N ?d" "lg_bsize ?d = bs" using set_lb_size_ok[OF set] ph by auto
  have dok: "dev_ok ok content bsize ?d" using f(2) by (simp add: dev_ok_def)
  obtain c where c: "ext4_bcache_init_dynamic CONFIG_BLOCK_DEV_CACHE_SIZE bs = Some c" "itemsize c = bs"
    using b(1) by (cases "bs = 0") (auto simp: ext4_bcache_init_dynamic_def CONFIG_BLOCK_DEV_CACHE_SIZE_def)
  let ?cd = "\<lparr>bdv = ?d, bc = c\<rparr>" and ?fs1 = "mounted_fs ?sb \<lparr>bdv = d1, bc = no_cache\<rparr>"
  let ?m = "mp\<lparr>mp_name := ascii ''/'', mounted := True, mp_fs := ?fs1, mp_bdev := Some i, cache_dynamic := True\<rparr>"
  let ?w = "w\<lparr>mps := ?m # rest, blockdevs := (blockdevs w)(i := ?d), bdev_bc := (bdev_bc w)(i \<mapsto> c)\<rparr>"
  have slot: "free_slot (ascii ''/'') 0 (mps w) = Inr 0" using mp(1,2) by simp
  have "ext4_mount opsf dname (ascii ''/'') True w s = Some (EOK, ?w, drv ?d)"
    unfolding ext4_mount_def dv(2) slot
    using dv(1) mp(1) init(1) f(1) img(4) set c
    by (simp add: ascii_def upd_mp_def put_dev_def Let_def)
  moreover have "mp_holds i (mounted_fs ?sb ?cd) ?w (drv ?d)"
    by (simp add: mp_holds_def mp_load_def)
  moreover have "on_disk (ready_dev N) (part_block content) N ?n 0 (img_block img ?n) (\<lambda>_. 0) (mounted_fs ?sb ?cd)"
  proof -
    have "refines (ready_dev N) (part_block content) False N (unat (lg_bsize ?d)) 0 (part_block content ?d, \<lambda>_. 0) ?cd"
      by (rule refines_init) (use dok lb c(1) g init(3) in simp_all)
    moreover have "part_block content ?d = img_block img ?n"
      using g init(4) f(4) by (simp add: part_block_def img_block_def fun_eq_iff)
    ultimately show ?thesis by (simp add: on_disk_def)
  qed
  ultimately show ?thesis by (intro exI[of _ ?w] exI[of _ ?cd]) simp
qed

text \<open>Unmounting, when the device closes.\<close>

lemma umount_ok:
  assumes dv: "opsf i = ops" and w: "mp_holds i (mounted_fs sb cd) w s"
    and on: "on_disk (ready_dev N) (part_block content) N n k D (\<lambda>_. 0) (mounted_fs sb cd)"
    and close: "\<And>bd. ok (drv bd) \<Longrightarrow> \<exists>s'. p_close ops bd = Some (EOK, bd\<lparr>drv := s'\<rparr>) \<and> Q s'" "\<And>s. ok s \<Longrightarrow> Q s"
  shows "\<exists>w' s'. ext4_umount opsf (ascii ''/'') w s = Some (EOK, w', s') \<and> Q s'"
proof -
  obtain m ms where m: "mps w = m # ms" "mp_name m = ascii ''/''" "mp_bdev m = Some i" "cache_dynamic m"
    "mp_load 0 w s = Some (mounted_fs sb cd)" using w by (auto simp: mp_holds_def)
  let ?fs = "(mounted_fs sb cd)\<lparr>fs_sb := put16 sb 58 EXT4_SUPERBLOCK_STATE_VALID_FS\<rparr>"
  have fini: "ext4_fs_fini ops (mounted_fs sb cd) = Some (EOK, ?fs)" by (simp add: ext4_fs_fini_def Let_def)
  from cleanup_on_disk[OF on, of ops] obtain c where c: "ext4_bcache_cleanup ops cd = Some (cd\<lparr>bc := c\<rparr>)" by auto
  have ok: "ok (drv (bdv cd))" using on_disk_bsize[OF on] by (auto simp: dev_ok_def)
  obtain bd where bd: "ext4_block_fini ops (bdv cd) = Some (EOK, bd)" "Q (drv bd)"
    using close(1)[of "(bdv cd)\<lparr>ph_refctr := ph_refctr (bdv cd) - 1\<rparr>"] close(2)[OF ok] ok
    by (cases "ph_refctr (bdv cd) = 0"; cases "ph_refctr (bdv cd) - 1 = 0") (auto simp: ext4_block_fini_def Let_def)
  show ?thesis using m dv fini c bd
    by (simp add: ext4_umount_def Let_def mp_store_def upd_mp_def put_dev_def)
qed

lemma cache_write_back_ok:
  assumes "opsf i = ops" "mp_holds i (mounted_fs sb cd) w s" "on_disk (ready_dev N) (part_block content) N n k D R (mounted_fs sb cd)"
  shows "\<exists>w' cd'. ext4_cache_write_back opsf (ascii ''/'') on w s = Some (EOK, w', drv (bdv cd')) \<and>
    mp_holds i (mounted_fs sb cd') w' (drv (bdv cd')) \<and> on_disk (ready_dev N) (part_block content) N n k D R (mounted_fs sb cd')"
proof -
  from write_back_ok[OF assms(3), of on] obtain cd' where c: "write_back on (opsf i) (mounted_fs sb cd) = Some (EOK, mounted_fs sb cd')"
    "on_disk (ready_dev N) (part_block content) N n k D R (mounted_fs sb cd')" using assms(1) by auto
  note o = on_mp_holds[of i _ w s "write_back on" opsf, OF assms(2) c(1)]
  show ?thesis using o c(2) mp_holds_mount[OF assms(2), of "[]"]
    by (intro exI[of _ "mp_store 0 (mounted_fs sb cd') w"] exI[of _ cd']) (simp add: ext4_cache_write_back_def ascii_def)
qed

text \<open>\<open>test_lwext4_mount\<close> and \<open>test_lwext4_umount\<close>.\<close>

lemma test_mount_ok:
  assumes dv: "opsf i = ops" "bdevices w = \<lparr>dev_name = [], dev_bd = None\<rparr> # devs"
    and mp: "mps w = mp # rest" "\<not> mounted mp" "\<forall>i\<ge>1024. fs_sb (mp_fs mp) i = 0" "last_inode_bg_id (mp_fs mp) = 0"
    and init: "ext4_block_init ops ((blockdevs w i)\<lparr>drv := s\<rparr>) = Some (EOK, d)" "dev_ok ok content bsize d" "ph_refctr d \<noteq> 0"
      "part_offset d = 0" "length (content (drv d)) \<le> unat (part_size d)"
    and img: "img = content (drv d)" "2048 \<le> length img" "mountable (sb_of img)" "ext4_sb_get_block_size (sb_of img) = Some bs"
      "bsize dvd unat bs" "N = of_nat (length img div unat bs)"
  shows "\<exists>w' cd. test_lwext4_mount opsf i w s = Some (True, w', drv (bdv cd)) \<and> mp_holds i (mounted_fs (sb_of img) cd) w' (drv (bdv cd)) \<and>
    on_disk (ready_dev N) (part_block content) N (unat bs) 0 (img_block img (unat bs)) (\<lambda>_. 0) (mounted_fs (sb_of img) cd)"
proof -
  let ?w = "w\<lparr>bdevices := \<lparr>dev_name = ascii ''ext4_fs'', dev_bd = Some i\<rparr> # devs\<rparr>"
  have reg: "ext4_device_register i (ascii ''ext4_fs'') w = Some (EOK, ?w)"
    using dv(2) by (simp add: ext4_device_register_def ascii_def)
  have "\<exists>w' cd. ext4_mount opsf (ascii ''ext4_fs'') (ascii ''/'') True ?w s = Some (EOK, w', drv (bdv cd)) \<and>
    mp_holds i (mounted_fs (sb_of img) cd) w' (drv (bdv cd)) \<and>
    on_disk (ready_dev N) (part_block content) N (unat bs) 0 (img_block img (unat bs)) (\<lambda>_. 0) (mounted_fs (sb_of img) cd)"
    by (rule mount_ok[where opsf = opsf and i = i, OF dv(1) _ _ mp(2-4) _ init(2-5) img]) (use mp(1) init(1) in simp_all)
  then obtain w1 cd1 where 1: "ext4_mount opsf (ascii ''ext4_fs'') (ascii ''/'') True ?w s = Some (EOK, w1, drv (bdv cd1))"
    "mp_holds i (mounted_fs (sb_of img) cd1) w1 (drv (bdv cd1))"
    "on_disk (ready_dev N) (part_block content) N (unat bs) 0 (img_block img (unat bs)) (\<lambda>_. 0) (mounted_fs (sb_of img) cd1)" by blast
  from cache_write_back_ok[where opsf = opsf and i = i, OF dv(1) 1(2,3), of True] obtain w2 cd2 where 2:
    "ext4_cache_write_back opsf (ascii ''/'') True w1 (drv (bdv cd1)) = Some (EOK, w2, drv (bdv cd2))"
    "mp_holds i (mounted_fs (sb_of img) cd2) w2 (drv (bdv cd2))"
    "on_disk (ready_dev N) (part_block content) N (unat bs) 0 (img_block img (unat bs)) (\<lambda>_. 0) (mounted_fs (sb_of img) cd2)" by blast
  show ?thesis using reg 1(1) 2
    by (intro exI[of _ w2] exI[of _ cd2]) (simp add: test_lwext4_mount_def ext4_recover_def ext4_journal_start_def)
qed

lemma test_umount_ok:
  assumes dv: "opsf i = ops" and w: "mp_holds i (mounted_fs sb cd) w s"
    and on: "on_disk (ready_dev N) (part_block content) N n k D (\<lambda>_. 0) (mounted_fs sb cd)"
    and close: "\<And>bd. ok (drv bd) \<Longrightarrow> \<exists>s'. p_close ops bd = Some (EOK, bd\<lparr>drv := s'\<rparr>) \<and> Q s'" "\<And>s. ok s \<Longrightarrow> Q s"
  shows "\<exists>w' s'. test_lwext4_umount opsf w s = Some (True, w', s') \<and> Q s'"
proof -
  from cache_write_back_ok[where opsf = opsf and i = i, OF dv w on, of False] obtain w1 cd1 where 1:
    "ext4_cache_write_back opsf (ascii ''/'') False w s = Some (EOK, w1, drv (bdv cd1))"
    "mp_holds i (mounted_fs sb cd1) w1 (drv (bdv cd1))"
    "on_disk (ready_dev N) (part_block content) N n k D (\<lambda>_. 0) (mounted_fs sb cd1)" by blast
  from umount_ok[where opsf = opsf and i = i, OF dv 1(2,3) close] 1(1) show ?thesis by (auto simp: test_lwext4_umount_def ext4_journal_stop_def)
qed

text \<open>Opening a file by a path below ``/'', and reading from it.\<close>

lemma fopen_ok:
  assumes dv: "opsf i = ops" and w: "mp_holds i (mounted_fs sb cd) w s"
    and on: "on_disk (ready_dev N) (part_block content) N n k D R (mounted_fs sb cd)" and ft: "ext4_sb_feature_incom sb EXT4_FINCOM_FILETYPE"
    and p: "path_ok EXT4_DE_REG_FILE N n m D mal cal C (mounted_fs sb cd) EXT4_INODE_ROOT_INDEX ns target" "ns \<noteq> []" "inode_ok sb N D target"
    and k: "k + (18 * C + 5) * length ns + 30 < 2 ^ 32"
  shows "\<exists>w' cd'. ext4_fopen opsf mal cal f (0x2f # join_path ns) ''rb'' w s =
      Some (EOK, (0, \<lparr>f_mp = True, f_inode = target, f_flags = O_RDONLY, fsize = ext4_inode_get_size sb (inode_at sb D target), fpos = 0\<rparr>),
        w', drv (bdv cd')) \<and>
    mp_holds i (mounted_fs sb cd') w' (drv (bdv cd')) \<and>
    on_disk (ready_dev N) (part_block content) N n (k + (18 * C + 5) * length ns + 4) D R (mounted_fs sb cd')"
proof -
  let ?g = "\<lparr>f_mp = True, f_inode = target, f_flags = O_RDONLY, fsize = ext4_inode_get_size sb (inode_at sb D target), fpos = 0\<rparr>"
  from write_back_ok[OF on, of True] obtain cd1 where 1: "write_back True ops (mounted_fs sb cd) = Some (EOK, mounted_fs sb cd1)"
    "on_disk (ready_dev N) (part_block content) N n k D R (mounted_fs sb cd1)" by auto
  have p1: "path_ok EXT4_DE_REG_FILE N n m D mal cal C (mounted_fs sb cd1) EXT4_INODE_ROOT_INDEX ns target"
    using p(1) path_ok_bdev[of EXT4_DE_REG_FILE N n m D mal cal C cd1 "mounted_fs sb cd"] by simp
  have mal: "mal_ok n mal" using p(1,2) by (cases ns) (auto simp: dir_ok_def can_map_def)
  from lsrc.open_ok[OF 1(2) _ _ _ mal p1 _ k, of "snd f"] ft p(2,3) obtain cd2 where 2:
    "ext4_generic_open2 ops mal cal (snd f) (join_path ns) O_RDONLY EXT4_DE_REG_FILE (mounted_fs sb cd1) = Some (EOK, ?g, mounted_fs sb cd2)"
    "on_disk (ready_dev N) (part_block content) N n (k + (18 * C + 5) * length ns + 4) D R (mounted_fs sb cd2)" by auto
  from write_back_ok[OF 2(2), of False] obtain cd3 where 3: "write_back False ops (mounted_fs sb cd2) = Some (EOK, mounted_fs sb cd3)"
    "on_disk (ready_dev N) (part_block content) N n (k + (18 * C + 5) * length ns + 4) D R (mounted_fs sb cd3)" by auto
  let ?f = "\<lambda>ops fs. do {
            (_, fs) \<leftarrow> write_back True ops fs;
            (r, g, fs) \<leftarrow> ext4_generic_open ops mal cal (snd f) (drop (length (mp_name (mps w ! 0))) (0x2f # join_path ns)) ''rb'' True fs;
            (_, fs) \<leftarrow> write_back False ops fs;
            Some ((r, g), fs) }"
  note m = mp_holds_mount[OF w]
  have "?f (opsf i) (mounted_fs sb cd) = Some ((EOK, ?g), mounted_fs sb cd3)"
    using dv 1(1) 2(1) 3(1) m by (simp add: ext4_generic_open_def ext4_parse_flags_def)
  note o = on_mp_holds[of i _ w s ?f opsf, OF w this]
  show ?thesis using o 3(2) m by (intro exI[of _ "mp_store 0 (mounted_fs sb cd3) w"] exI[of _ cd3]) (simp add: ext4_fopen_def)
qed

lemma dir_open_ok:
  assumes dv: "opsf i = ops" and w: "mp_holds i (mounted_fs sb cd) w s" and mal: "mal_ok n mal"
    and on: "on_disk (ready_dev N) (part_block content) N n k D R (mounted_fs sb cd)" and ft: "ext4_sb_feature_incom sb EXT4_FINCOM_FILETYPE"
    and p: "path_ok EXT4_DE_DIR N n m D mal cal C (mounted_fs sb cd) EXT4_INODE_ROOT_INDEX ns target" "inode_ok sb N D target"
    and k: "k + (18 * C + 5) * length ns + 30 < 2 ^ 32"
  shows "\<exists>w' cd'. ext4_dir_open opsf mal cal d (0x2f # join_path ns) w s =
      Some (EOK, d\<lparr>d_f := (0, \<lparr>f_mp = True, f_inode = target, f_flags = O_RDONLY, fsize = ext4_inode_get_size sb (inode_at sb D target), fpos = 0\<rparr>),
        next_off := 0\<rparr>, w', drv (bdv cd')) \<and>
    mp_holds i (mounted_fs sb cd') w' (drv (bdv cd')) \<and>
    on_disk (ready_dev N) (part_block content) N n (k + (18 * C + 5) * length ns + 4) D R (mounted_fs sb cd')"
proof -
  let ?g = "\<lparr>f_mp = True, f_inode = target, f_flags = O_RDONLY, fsize = ext4_inode_get_size sb (inode_at sb D target), fpos = 0\<rparr>"
  from lsrc.open_ok[OF on _ _ _ mal p(1) _ k, of "snd (d_f d)"] ft p(2) obtain cd2 where 2:
    "ext4_generic_open2 ops mal cal (snd (d_f d)) (join_path ns) O_RDONLY EXT4_DE_DIR (mounted_fs sb cd) = Some (EOK, ?g, mounted_fs sb cd2)"
    "on_disk (ready_dev N) (part_block content) N n (k + (18 * C + 5) * length ns + 4) D R (mounted_fs sb cd2)" by auto
  let ?f = "\<lambda>ops fs. do {
            (r, g, fs) \<leftarrow> ext4_generic_open ops mal cal (snd (d_f d)) (drop (length (mp_name (mps w ! 0))) (0x2f # join_path ns)) ''r'' False fs;
            Some ((r, g), fs) }"
  note m = mp_holds_mount[OF w]
  have "?f (opsf i) (mounted_fs sb cd) = Some ((EOK, ?g), mounted_fs sb cd2)"
    using dv 2(1) m by (simp add: ext4_generic_open_def ext4_parse_flags_def)
  note o = on_mp_holds[of i _ w s ?f opsf, OF w this]
  show ?thesis using o 2(2) m by (intro exI[of _ "mp_store 0 (mounted_fs sb cd2) w"] exI[of _ cd2]) (simp add: ext4_dir_open_def)
qed

lemma mp_fread_ok:
  assumes dv: "opsf i = ops" and w: "mp_holds i (mounted_fs sb cd) w s"
    and on: "on_disk (ready_dev N) (part_block content) N n k D R (mounted_fs sb cd)" and map: "can_map N n m D mal cal (f_inode f) c (mounted_fs sb cd)"
    and F: "F = file_data sb D m (inode_at sb D (f_inode f)) c"
    and fz: "fz = ext4_inode_get_size sb (inode_at sb D (f_inode f))" "unat fz \<le> c * n" "fpos f \<le> fz"
    and bs: "ext4_sb_get_block_size sb = Some bs" "unat bs = n" "0 < n"
    and f: "f_mp f" "f_flags f AND O_WRONLY = 0" "\<not> (ext4_inode_is_type sb (inode_at sb D (f_inode f)) EXT4_INODE_MODE_SOFTLINK \<and> fz < 60)"
    and len: "len = min (unat sz) (unat fz - unat (fpos f))" "len < 2 ^ 32" "len \<le> length buf" "sz \<noteq> 0"
    and k: "k + 60 + 16 * (len div n) < 2 ^ 32" "c < 2 ^ 32 - 1"
  shows "\<exists>w' cd'. mp_fread opsf mal cal (0, f) buf sz rcnt w s =
      Some ((EOK, take len (drop (unat (fpos f)) F) @ drop len buf, of_nat len, 0, f\<lparr>fsize := fz, fpos := fpos f + of_nat len\<rparr>), w', drv (bdv cd')) \<and>
    mp_holds i (mounted_fs sb cd') w' (drv (bdv cd')) \<and>
    on_disk (ready_dev N) (part_block content) N n (k + 60 + 16 * (len div n)) D R (mounted_fs sb cd')"
proof -
  have "\<exists>cd'. ext4_fread ops mal cal f buf sz rcnt (mounted_fs sb cd) =
      Some (EOK, take len (drop (unat (fpos f)) F) @ drop len buf, of_nat len, f\<lparr>fsize := fz, fpos := fpos f + of_nat len\<rparr>, (mounted_fs sb cd)\<lparr>fs_bdev := cd'\<rparr>) \<and>
    on_disk (ready_dev N) (part_block content) N n (k + 60 + 16 * (len div n)) D R ((mounted_fs sb cd)\<lparr>fs_bdev := cd'\<rparr>)"
    by (rule fread_ok[OF on map _ _ _ _ _ bs(2,3) f(1,2) _ len k]) (use F fz bs(1) f(3) in simp_all)
  then obtain cd' where r: "ext4_fread ops mal cal f buf sz rcnt (mounted_fs sb cd) =
      Some (EOK, take len (drop (unat (fpos f)) F) @ drop len buf, of_nat len, f\<lparr>fsize := fz, fpos := fpos f + of_nat len\<rparr>, mounted_fs sb cd')"
    "on_disk (ready_dev N) (part_block content) N n (k + 60 + 16 * (len div n)) D R (mounted_fs sb cd')" by auto
  let ?f = "\<lambda>ops fs. map_option (\<lambda>(r, buf, rcnt, g, fs). ((r, buf, rcnt, 0 :: nat, g), fs)) (ext4_fread ops mal cal f buf sz rcnt fs)"
  have "?f (opsf i) (mounted_fs sb cd) =
      Some ((EOK, take len (drop (unat (fpos f)) F) @ drop len buf, of_nat len, 0, f\<lparr>fsize := fz, fpos := fpos f + of_nat len\<rparr>), mounted_fs sb cd')"
    using dv r(1) by simp
  note o = on_mp_holds[of i _ w s ?f opsf, OF w this]
  show ?thesis using o r(2) f(1) by (intro exI[of _ "mp_store 0 (mounted_fs sb cd') w"] exI[of _ cd']) (simp add: mp_fread_def)
qed

end

section \<open>Files of an image\<close>

text \<open>The image has a file with the contents \<open>c\<close> at the path \<open>ns\<close>; the directories on the way have at most
  \<open>C\<close> blocks and no hash index, and the file has no holes.\<close>

definition some_cdev :: "unit cdev" where
  "some_cdev = \<lparr>bdv = \<lparr>ph_bsize = 0, ph_bcnt = 0, ph_bbuf = [], ph_refctr = 0, bread_ctr = 0, bwrite_ctr = 0, part_offset = 0,
     part_size = 0, lg_bsize = 0, lg_bcnt = 0, cache_write_back = 0, drv = ()\<rparr>, bc = no_cache\<rparr>"

definition file_at :: "nat \<Rightarrow> byte list \<Rightarrow> byte list list \<Rightarrow> u32 \<Rightarrow> nat \<Rightarrow> byte list \<Rightarrow> bool" where
  "file_at C img ns target bl c \<longleftrightarrow>
     (let sb = sb_of img; n = unat (the (ext4_sb_get_block_size sb)); D = img_block img n; N = of_nat (length img div n);
          fs = mounted_fs sb some_cdev; mal = (\<lambda>_ _. Some (replicate n 0)); cal = (\<lambda>_. True); inode = inode_at sb D target;
          fz = ext4_inode_get_size sb inode in
      2048 \<le> length img \<and> mountable sb \<and> ext4_sb_feature_incom sb EXT4_FINCOM_FILETYPE \<and> ns \<noteq> [] \<and>
      path_ok EXT4_DE_REG_FILE N n (n div 4) D mal cal C fs EXT4_INODE_ROOT_INDEX ns target \<and>
      can_map N n (n div 4) D mal cal target bl fs \<and> bl < 2 ^ 32 - 1 \<and> unat fz \<le> bl * n \<and>
      \<not> ext4_inode_is_type sb inode EXT4_INODE_MODE_SOFTLINK \<and> c = take (unat fz) (file_data sb D (n div 4) inode bl))"

lemma can_map_transfer:
  assumes "can_map N n m D mal0 cal0 index c fs0" "mal_ok n mal" "\<forall>d. cal d" "fs_sb fs = fs_sb fs0"
    "inode_block_limits fs = inode_block_limits fs0" "inode_blocks_per_level fs = inode_blocks_per_level fs0"
  shows "can_map N n m D mal cal index c fs"
  using assms by (simp add: can_map_def levels_ok_def)

lemma path_ok_transfer:
  assumes "path_ok ft N n m D mal0 cal0 C fs0 ino ns target" "mal_ok n mal" "\<forall>d. cal d" "fs_sb fs = fs_sb fs0"
    "inode_block_limits fs = inode_block_limits fs0" "inode_blocks_per_level fs = inode_blocks_per_level fs0"
  shows "path_ok ft N n m D mal cal C fs ino ns target"
  using assms(1)
proof (induction ns arbitrary: ino)
  case (Cons name rest)
  have "dir_ok N n m D mal cal ino c fs" if "dir_ok N n m D mal0 cal0 ino c fs0" for c
    using that can_map_transfer[of N n m D mal0 cal0 ino c fs0 mal cal fs, OF _ assms(2-6)] assms(4) by (simp add: dir_ok_def)
  then show ?case using Cons assms(4) by (auto split: option.splits)
qed simp

end
