(* ===== verification/Ext4_List.thy ===== *)
theory Ext4_List
  imports Ext4_Mount
begin

text \<open>
  Listing a directory: the iterator of ext4\_dir.c visits the entries of the blocks of a directory in order, skipping
  entries without an inode, and \<open>test_lwext4_dir_ls\<close> prints one line for each. An entry is named by its number in
  the list of all entries of the directory; its offset is the length of the entries before it.
\<close>

section \<open>Offsets of entries\<close>

definition seg_off :: "byte list list \<Rightarrow> nat \<Rightarrow> nat" where
  "seg_off es j = length (concat (take j es))"

lemma seg_off_Suc: "j < length es \<Longrightarrow> seg_off es (Suc j) = seg_off es j + length (es ! j)"
  by (simp add: seg_off_def take_Suc_conv_app_nth)

lemma seg_off_mono: "i \<le> j \<Longrightarrow> seg_off es i \<le> seg_off es j"
  by (auto simp: seg_off_def dest!: le_Suc_ex) (metis concat_append le_add1 length_append take_add)

lemma dvd_length_concat: "\<forall>e\<in>set es. n dvd length e \<Longrightarrow> n dvd length (concat es)"
  by (induction es) auto

lemma seg_pos:
  assumes "0 < n" "\<forall>b\<in>set bs. length b = n \<and> block_ok sb b" "j < length es" "es = concat (map segments bs)"
  shows "seg_off es j div n < length bs \<and> seg_ok sb (es ! j) \<and> 4 dvd seg_off es j mod n \<and>
    (\<exists>xs ys. bs ! (seg_off es j div n) = xs @ es ! j @ ys \<and> length xs = seg_off es j mod n)"
  using assms
proof (induction bs arbitrary: j es)
  case (Cons b bs)
  let ?s = "segments b" and ?r = "concat (map segments bs)"
  have b: "length b = n" "block_ok sb b" using Cons.prems(2) by simp_all
  have es: "es = ?s @ ?r" using Cons.prems(4) by simp
  show ?case
  proof (cases "j < length ?s")
    case True
    let ?xs = "concat (take j ?s)" and ?ys = "concat (drop (Suc j) ?s)"
    have split: "b = ?xs @ es ! j @ ?ys"
      using True arg_cong[OF id_take_nth_drop[OF True], of concat] by (simp add: es nth_append)
    have ok: "seg_ok sb (es ! j)" "\<forall>e\<in>set (take j ?s). 4 dvd length e"
      using b(2) True by (auto simp: block_ok_def es nth_append seg_ok_def dest: in_set_takeD)
    have o: "seg_off es j = length ?xs" using True by (simp add: seg_off_def es)
    have lt: "length ?xs < n" using arg_cong[OF split, of length] b(1) ok(1) by (auto simp: seg_ok_def)
    have "\<exists>xs ys. b = xs @ es ! j @ ys \<and> length xs = seg_off es j"
      by (intro exI conjI, rule split, simp only: o)
    then show ?thesis using ok lt o dvd_length_concat[OF ok(2)] by simp
  next
    case False
    let ?j = "j - length ?s"
    have j: "?j < length ?r" "es ! j = ?r ! ?j" using False Cons.prems(3) es by (auto simp: nth_append)
    have o: "seg_off es j = n + seg_off ?r ?j" using False b(1) by (simp add: seg_off_def es)
    have d: "seg_off es j div n = Suc (seg_off ?r ?j div n)" "seg_off es j mod n = seg_off ?r ?j mod n" unfolding o using Cons.prems(1) by (simp_all add: div_add_self1)
    show ?thesis using Cons.IH[OF Cons.prems(1) _ j(1) refl] Cons.prems(2) unfolding d j(2) by simp
  qed
qed simp

lemma seg_off_total:
  assumes "\<forall>b\<in>set bs. length b = n" "es = concat (map segments bs)"
  shows "seg_off es (length es) = length bs * n"
proof -
  have "concat es = concat bs" unfolding assms(2) by (induction bs) simp_all
  moreover have "length (concat bs) = length bs * n" using assms(1) by (induction bs) simp_all
  ultimately show ?thesis by (simp add: seg_off_def)
qed

section \<open>The iterator\<close>

text \<open>A directory that can be listed: whole blocks, no name of 255 bytes, and at least one entry.\<close>

definition entries_of :: "mem \<Rightarrow> nat \<Rightarrow> (u64 \<Rightarrow> byte list) \<Rightarrow> u32 \<Rightarrow> byte list list" where
  "entries_of sb n D index = dir_segs_of sb D (n div 4) (inode_at sb D index) 0 (dir_blocks sb n D index)"

definition list_ok :: "u64 \<Rightarrow> nat \<Rightarrow> (u64 \<Rightarrow> byte list) \<Rightarrow> malloc \<Rightarrow> (u16 \<Rightarrow> bool) \<Rightarrow> u32 \<Rightarrow> 's fs \<Rightarrow> bool" where
  "list_ok N n D mal cal index fs \<longleftrightarrow> dir_ok N n (n div 4) D mal cal index (dir_blocks (fs_sb fs) n D index) fs \<and>
     unat (ext4_inode_get_size (fs_sb fs) (inode_at (fs_sb fs) D index)) = dir_blocks (fs_sb fs) n D index * n \<and>
     0 < dir_blocks (fs_sb fs) n D index \<and> (\<forall>e\<in>set (entries_of (fs_sb fs) n D index). seg_nlen (fs_sb fs) e < 255)"

lemma list_ok_bdev [simp]: "list_ok N n D mal cal index (fs\<lparr>fs_bdev := cd\<rparr>) = list_ok N n D mal cal index fs"
  by (simp add: list_ok_def)

lemma list_ok_mounted: "list_ok N n D mal cal index (mounted_fs sb cd) \<Longrightarrow> list_ok N n D mal cal index (mounted_fs sb cd')"
  by (simp add: list_ok_def dir_ok_def can_map_def levels_ok_def) (simp add: mounted_fs_def Let_def)

text \<open>The block number of an entry and its place in the block.\<close>

lemma entry_pos:
  assumes "list_ok N n D mal cal index fs" "j < length es" "es = entries_of (fs_sb fs) n D index"
  defines "oo \<equiv> seg_off es j" and "l \<equiv> fblk (fs_sb fs) D (n div 4) (inode_at (fs_sb fs) D index) (seg_off es j div n)"
  shows "oo div n < dir_blocks (fs_sb fs) n D index" "seg_ok (fs_sb fs) (es ! j)" "4 dvd oo mod n" "l \<noteq> 0" "l < N" "length (D l) = n"
    "\<exists>xs ys. D l = xs @ es ! j @ ys \<and> length xs = oo mod n"
proof -
  let ?sb = "fs_sb fs" and ?inode = "inode_at (fs_sb fs) D index" and ?c = "dir_blocks (fs_sb fs) n D index"
  note d = assms(1)[unfolded list_ok_def dir_ok_def can_map_def file_ok_def]
  let ?bs = "map (\<lambda>i. D (fblk ?sb D (n div 4) ?inode i)) [0..<?c]"
  have bs: "\<forall>b\<in>set ?bs. length b = n \<and> block_ok ?sb b" using d by auto
  have es: "es = concat (map segments ?bs)" by (simp add: assms(3) entries_of_def dir_segs_of_def comp_def)
  have "0 < n" using d by simp
  note p = seg_pos[OF this bs assms(2) es, folded oo_def]
  then show lt: "oo div n < ?c" by simp
  have "?bs ! (oo div n) = D l" using lt by (simp add: l_def oo_def)
  with p show "seg_ok ?sb (es ! j)" "4 dvd oo mod n" "\<exists>xs ys. D l = xs @ es ! j @ ys \<and> length xs = oo mod n" by auto
  show "l \<noteq> 0" "l < N" using d lt by (simp_all add: l_def oo_def)
  then show "length (D l) = n" using d by blast
qed

lemma entries_total:
  assumes "list_ok N n D mal cal index fs" "es = entries_of (fs_sb fs) n D index"
  shows "seg_off es (length es) = unat (ext4_inode_get_size (fs_sb fs) (inode_at (fs_sb fs) D index))" "es \<noteq> []"
proof -
  let ?sb = "fs_sb fs" and ?inode = "inode_at (fs_sb fs) D index" and ?c = "dir_blocks (fs_sb fs) n D index"
  note d = assms(1)[unfolded list_ok_def dir_ok_def can_map_def file_ok_def]
  let ?bs = "map (\<lambda>i. D (fblk ?sb D (n div 4) ?inode i)) [0..<?c]"
  have "\<forall>b\<in>set ?bs. length b = n" using d by auto
  from seg_off_total[OF this, of es] d show t: "seg_off es (length es) = unat (ext4_inode_get_size ?sb ?inode)"
    by (simp add: assms(2) entries_of_def dir_segs_of_def comp_def)
  have "0 < ?c * n" using d by simp
  with t d show "es \<noteq> []" by (auto simp: seg_off_def)
qed

lemma seg_off_less:
  assumes "\<forall>e\<in>set es. seg_ok sb e" "i < j" "j \<le> length es"
  shows "seg_off es i < seg_off es j"
proof -
  have "8 \<le> length (es ! i)" using assms by (auto simp: seg_ok_def)
  then show ?thesis using seg_off_Suc[of i es] seg_off_mono[of "Suc i" j es] assms(2,3) by simp
qed

text \<open>The number of the next entry that has an inode, or the number of all entries.\<close>

definition next_live :: "byte list list \<Rightarrow> nat \<Rightarrow> nat" where
  "next_live es j = Suc j + length (takeWhile (\<lambda>e. seg_ino e = 0) (drop (Suc j) es))"

lemma next_live:
  assumes "j < length es"
  shows "j < next_live es j" "next_live es j \<le> length es"
    "Suc j = length es \<or> seg_ino (es ! Suc j) \<noteq> 0 \<Longrightarrow> next_live es j = Suc j"
    "Suc j < length es \<Longrightarrow> seg_ino (es ! Suc j) = 0 \<Longrightarrow> next_live es j = next_live es (Suc j)"
    "filter (\<lambda>e. seg_ino e \<noteq> 0) (drop (Suc j) es) =
      (if next_live es j < length es then es ! next_live es j # filter (\<lambda>e. seg_ino e \<noteq> 0) (drop (Suc (next_live es j)) es) else [])"
proof -
  let ?P = "\<lambda>e. seg_ino e = 0" and ?ds = "drop (Suc j) es"
  show "j < next_live es j" by (simp add: next_live_def)
  have le: "length (takeWhile ?P ?ds) \<le> length ?ds" by (rule length_takeWhile_le)
  then show "next_live es j \<le> length es" using assms by (simp add: next_live_def)
  show "Suc j = length es \<or> seg_ino (es ! Suc j) \<noteq> 0 \<Longrightarrow> next_live es j = Suc j"
    by (cases "Suc j < length es") (auto simp: next_live_def simp flip: Cons_nth_drop_Suc)
  show "Suc j < length es \<Longrightarrow> seg_ino (es ! Suc j) = 0 \<Longrightarrow> next_live es j = next_live es (Suc j)"
    by (simp add: next_live_def flip: Cons_nth_drop_Suc)
  have "filter (\<lambda>e. \<not> ?P e) xs = (case dropWhile ?P xs of [] \<Rightarrow> [] | y # ys \<Rightarrow> y # filter (\<lambda>e. \<not> ?P e) ys)" for xs
    by (induction xs) auto
  moreover have "dropWhile ?P ?ds = drop (next_live es j) es" by (simp add: next_live_def dropWhile_eq_drop add.commute)
  ultimately show "filter (\<lambda>e. seg_ino e \<noteq> 0) ?ds =
      (if next_live es j < length es then es ! next_live es j # filter (\<lambda>e. seg_ino e \<noteq> 0) (drop (Suc (next_live es j)) es) else [])"
    by (simp flip: Cons_nth_drop_Suc)
qed

text \<open>The iterator's block, and what it adds to the reference counts.\<close>

definition it_refs :: "dir_iter \<Rightarrow> (u64 \<Rightarrow> nat) \<Rightarrow> u64 \<Rightarrow> nat" where
  "it_refs it R = (if lb_id (curr_blk it) = 0 then R else R(lb_id (curr_blk it) := R (lb_id (curr_blk it)) + 1))"

definition it_ok :: "mem \<Rightarrow> nat \<Rightarrow> (u64 \<Rightarrow> byte list) \<Rightarrow> u32 \<Rightarrow> dir_iter \<Rightarrow> bool" where
  "it_ok sb n D index it \<longleftrightarrow> lb_id (curr_blk it) = 0 \<or>
     curr_blk it = handle (fblk sb D (n div 4) (inode_at sb D index) (unat (curr_off it) div n))"

lemma iterator_set_ok:
  assumes ok: "list_ok N n D mal cal index fs" "j < length es" "es = entries_of (fs_sb fs) n D index"
    and bs: "ext4_sb_get_block_size (fs_sb fs) = Some bs" "unat bs = n"
    and it: "curr_off it = of_nat (seg_off es j)" "seg_off es j < 2 ^ 64"
      "blk_data (curr_blk it) (fs_bdev fs) = Some (D (fblk (fs_sb fs) D (n div 4) (inode_at (fs_sb fs) D index) (seg_off es j div n)))"
  shows "ext4_dir_iterator_set it bs fs = Some (EOK, it\<lparr>curr := Some (seg_off es j mod n)\<rparr>)"
proof -
  let ?o = "seg_off es j mod n" and ?e = "es ! j"
  note p = entry_pos[OF ok]
  obtain xs ys where s: "D (fblk (fs_sb fs) D (n div 4) (inode_at (fs_sb fs) D index) (seg_off es j div n)) = xs @ ?e @ ys" "length xs = ?o"
    using p(7) by blast
  have le: "?o + length ?e \<le> n" using arg_cong[OF s(1), of length] p(6) s(2) by simp
  have e: "8 \<le> length ?e" "8 + seg_nlen (fs_sb fs) ?e \<le> length ?e" "length ?e < 2 ^ 16"
    using p(2) unsigned_less[of "get16 ((!) ?e) 4", where 'a = nat] by (auto simp: seg_ok_def seg_len_def)
  have n32: "n < 2 ^ 32" using bs(2) unsigned_less[of bs, where 'a = nat] by simp
  define off where "off = (ucast (curr_off it mod ucast bs) :: u32)"
  have off: "unat off = ?o"
  proof -
    have "unat (curr_off it mod ucast bs) = ?o" using it(1,2) bs(2) n32 by (simp add: unat_mod unat_of_nat unat_ucast_mod)
    moreover have "?o < 2 ^ 32" using le e(1) n32 by simp
    ultimately show ?thesis by (simp add: off_def unat_ucast_mod)
  qed
  note f = seg_fields[OF p(2), of xs ys, folded s(1), unfolded s(2)]
  have c1: "off mod 4 = 0" using p(3) off by (simp add: word_unat_eq_iff unat_mod)
  have c2: "\<not> off > bs - 8" using le e(1) off bs(2) by (simp add: word_less_nat_alt unat_sub word_le_nat_alt)
  have c3: "\<not> off + ucast (of_nat (length ?e) :: u16) > bs"
  proof -
    have u: "unat (ucast (of_nat (length ?e) :: u16) :: u32) = length ?e" using e(3) by (simp add: unat_ucast_mod unat_of_nat)
    then have "unat (off + ucast (of_nat (length ?e) :: u16)) = ?o + length ?e" using le n32 off by (subst unat_add_lem[THEN iffD1]) simp_all
    then show ?thesis using le bs(2) by (simp add: word_less_nat_alt)
  qed
  have c4: "\<not> uint (of_nat (seg_nlen (fs_sb fs) ?e) :: u16) > uint (of_nat (length ?e) :: u16) - 8"
  proof -
    have "uint (of_nat (seg_nlen (fs_sb fs) ?e) :: u16) = int (seg_nlen (fs_sb fs) ?e)" "uint (of_nat (length ?e) :: u16) = int (length ?e)"
      using e by (simp_all add: uint_nat unat_of_nat)
    then show ?thesis using e(2) by simp
  qed
  show ?thesis
    unfolding ext4_dir_iterator_set_def off_def[symmetric] Let_def using c1 c2 c3 c4 it(3) f(2,3) off by simp
qed

context logical_source
begin

lemma iter_release_ok:
  assumes on: "on_disk good blk N n k D (it_refs it R) fs" and it: "it_ok sb n D index it"
  shows "\<exists>h cd. iter_release ops it fs = Some (EOK, it\<lparr>curr_blk := h\<rparr>, fs\<lparr>fs_bdev := cd\<rparr>) \<and> lb_id h = 0 \<and>
    on_disk good blk N n (k + 1) D R (fs\<lparr>fs_bdev := cd\<rparr>)"
proof (cases "lb_id (curr_blk it) = 0")
  case True
  then have "on_disk good blk N n (k + 1) D R (fs\<lparr>fs_bdev := fs_bdev fs\<rparr>)" using on_disk_mono[OF on, of "k + 1"] by (simp add: it_refs_def)
  then show ?thesis using True by (intro exI[of _ "curr_blk it"] exI[of _ "fs_bdev fs"]) (simp add: iter_release_def)
next
  case False
  define l where "l = lb_id (curr_blk it)"
  have h: "curr_blk it = handle l" "l \<noteq> 0" using it False by (auto simp: it_ok_def l_def)
  have on': "on_disk good blk N n k D (R(l := R l + 1)) fs" using on h by (simp add: it_refs_def)
  have "0 < (R(l := R l + 1)) l" by simp
  from put_refines[OF on'[unfolded on_disk_def] _ this, unfolded ref_upd] obtain cd where
    cd: "ext4_block_set ops (handle l) (fs_bdev fs) = Some (EOK, \<lparr>lb_id = 0, hbuf = Some l\<rparr>, cd)"
    "refines good blk False N n (k + 1) (D, R) cd" by auto
  have "on_disk good blk N n (k + 1) D R (fs\<lparr>fs_bdev := cd\<rparr>)" using cd(2) by (simp add: on_disk_def)
  then show ?thesis using cd(1) h by (intro exI[of _ "\<lparr>lb_id = 0, hbuf = Some l\<rparr>"] exI[of _ cd]) (simp add: iter_release_def)
qed

text \<open>Moving to an entry, possibly in another block, or to the end.\<close>

lemma seek_ok:
  assumes on: "on_disk good blk N n k D (it_refs it R) fs" and ok: "list_ok N n D mal cal index fs" "0 < R (inode_block (fs_sb fs) D index)"
    and it: "it_ok (fs_sb fs) n D index it" and j: "j \<le> length es" "es = entries_of (fs_sb fs) n D index" and k: "k + 21 < 2 ^ 32"
  shows "\<exists>it' cd. ext4_dir_iterator_seek ops mal cal (the_ref (fs_sb fs) D index) it (of_nat (seg_off es j)) fs = Some (EOK, it', fs\<lparr>fs_bdev := cd\<rparr>) \<and>
    it_ok (fs_sb fs) n D index it' \<and> curr_off it' = of_nat (seg_off es j) \<and>
    (if j < length es then curr it' = Some (seg_off es j mod n) \<and> lb_id (curr_blk it') \<noteq> 0 else curr it' = None) \<and>
    on_disk good blk N n (k + 18) D (it_refs it' R) (fs\<lparr>fs_bdev := cd\<rparr>)"
proof -
  let ?sb = "fs_sb fs" and ?inode = "inode_at (fs_sb fs) D index" and ?ref = "the_ref (fs_sb fs) D index" and ?o = "seg_off es j"
  let ?size = "ext4_inode_get_size ?sb ?inode" and ?it = "it\<lparr>curr := None\<rparr>"
  have dir: "dir_ok N n (n div 4) D mal cal index (dir_blocks ?sb n D index) fs" using ok(1) by (simp add: list_ok_def)
  then have map: "can_map N n (n div 4) D mal cal index (dir_blocks ?sb n D index) fs" "inode_ok ?sb N D index" "mal_ok n mal" "dir_blocks ?sb n D index < 2 ^ 32"
    by (auto simp: dir_ok_def can_map_def file_ok_def)
  obtain bs where bs: "ext4_sb_get_block_size ?sb = Some bs" "unat bs = n" using dir by (auto simp: dir_ok_def)
  have n32: "n < 2 ^ 32" "0 < n" using bs(2) unsigned_less[of bs, where 'a = nat] dir by (auto simp: dir_ok_def)
  have tot: "seg_off es (length es) = unat ?size" using entries_total(1)[OF ok(1) j(2)] .
  have o64: "?o < 2 ^ 64" using seg_off_mono[OF j(1), of es] tot unsigned_less[of ?size, where 'a = nat] by simp
  have uo: "unat (of_nat ?o :: u64) = ?o" using o64 by (simp add: unat_of_nat)
  have R': "0 < it_refs it R (inode_block ?sb D index)" using ok(2) by (simp add: it_refs_def)
  have held: "get_inode ?ref fs = Some ?inode" using get_inode_held[OF on R' map(2)] .
  have it2: "it_refs ?it R = it_refs it R" "it_ok ?sb n D index ?it" using it by (simp_all add: it_refs_def it_ok_def)
  note on2 = on[folded it2(1)]
  show ?thesis
  proof (cases "j < length es")
    case False
    then have "j = length es" using j(1) by simp
    then have ge: "of_nat ?o \<ge> ?size" using tot uo by (simp add: word_le_nat_alt)
    from iter_release_ok[OF on2 it2(2)] obtain h cd where r: "iter_release ops ?it fs = Some (EOK, ?it\<lparr>curr_blk := h\<rparr>, fs\<lparr>fs_bdev := cd\<rparr>)" "lb_id h = 0"
      "on_disk good blk N n (k + 1) D R (fs\<lparr>fs_bdev := cd\<rparr>)" by blast
    show ?thesis using r held ge False on_disk_mono[OF r(3), of "k + 18"]
      by (intro exI[of _ "?it\<lparr>curr_blk := h, curr_off := of_nat ?o\<rparr>"] exI[of _ cd]) (simp add: ext4_dir_iterator_seek_def it_ok_def it_refs_def)
  next
    case True
    note p = entry_pos[OF ok(1) True j(2)]
    have esok: "\<forall>e\<in>set es. seg_ok ?sb e" using entry_pos(2)[OF ok(1) _ j(2)] by (auto simp: in_set_conv_nth)
    have lt: "\<not> of_nat ?o \<ge> ?size" using seg_off_less[OF esok True] tot uo by (simp add: word_le_nat_alt)
    define b where "b = (ucast (of_nat ?o div ucast bs :: u64) :: u32)"
    define l where "l = fblk ?sb D (n div 4) ?inode (?o div n)"
    have ub: "unat (of_nat ?o div ucast bs :: u64) = ?o div n" using uo bs(2) n32 by (simp add: unat_div unat_ucast_mod)
    have b: "unat b = ?o div n" using ub p(1) map(4) by (simp add: b_def unat_ucast_mod)
    have cb: "unat (curr_off it div ucast bs :: u64) = unat (curr_off it) div n" using bs(2) n32 by (simp add: unat_div unat_ucast_mod)
    let ?get = "if lb_id (curr_blk ?it) = 0 \<or> curr_off ?it div ucast bs \<noteq> ucast b then do {
            (r, it, fs) \<leftarrow> iter_release ops ?it fs;
            if r \<noteq> EOK then Some (r, it, fs)
            else do {
              (r, next_blk, fs) \<leftarrow> ext4_fs_get_inode_dblk_idx ops mal cal ?ref b False fs;
              if r \<noteq> EOK then Some (r, it, fs)
              else do {
                (r, h, cd) \<leftarrow> ext4_trans_block_get ops mal (curr_blk it) next_blk (fs_bdev fs);
                let fs = fs\<lparr>fs_bdev := cd\<rparr>;
                if r \<noteq> EOK then Some (r, it\<lparr>curr_blk := h\<lparr>lb_id := 0\<rparr>\<rparr>, fs)
                else Some (EOK, it\<lparr>curr_blk := h\<rparr>, fs) } } }
          else Some (EOK, ?it, fs)"
    have "\<exists>cd. ?get = Some (EOK, ?it\<lparr>curr_blk := handle l\<rparr>, fs\<lparr>fs_bdev := cd\<rparr>) \<and> on_disk good blk N n (k + 18) D (R(l := R l + 1)) (fs\<lparr>fs_bdev := cd\<rparr>)"
    proof (cases "lb_id (curr_blk ?it) = 0 \<or> curr_off ?it div ucast bs \<noteq> ucast b")
      case False
      then have same: "lb_id (curr_blk it) \<noteq> 0" "curr_off it div ucast bs = ucast b" by simp_all
      then have "unat (curr_off it) div n = ?o div n" using cb b by (simp add: unat_ucast_mod order_less_trans[OF unsigned_less])
      then have c: "curr_blk it = handle l" using it same(1) by (simp add: it_ok_def l_def)
      have "on_disk good blk N n (k + 18) D (R(l := R l + 1)) (fs\<lparr>fs_bdev := fs_bdev fs\<rparr>)"
        using on_disk_mono[OF on, of "k + 18"] c same(1) by (simp add: it_refs_def)
      then show ?thesis using False c by (intro exI[of _ "fs_bdev fs"]) simp
    next
      case True
      from iter_release_ok[OF on2 it2(2)] obtain h cd1 where r: "iter_release ops ?it fs = Some (EOK, ?it\<lparr>curr_blk := h\<rparr>, fs\<lparr>fs_bdev := cd1\<rparr>)" "lb_id h = 0"
        "on_disk good blk N n (k + 1) D R (fs\<lparr>fs_bdev := cd1\<rparr>)" by blast
      have "unat b < dir_blocks ?sb n D index" "k + 1 + 16 < 2 ^ 32" using b p(1) k by simp_all
      moreover have "can_map N n (n div 4) D mal cal index (dir_blocks ?sb n D index) (fs\<lparr>fs_bdev := cd1\<rparr>)" "0 < R (inode_block (fs_sb (fs\<lparr>fs_bdev := cd1\<rparr>)) D index)"
        using map(1) ok(2) by simp_all
      ultimately obtain cd2 where 2:
        "ext4_fs_get_inode_dblk_idx ops mal cal ?ref b True (fs\<lparr>fs_bdev := cd1\<rparr>) = Some (EOK, l, fs\<lparr>fs_bdev := cd2\<rparr>)"
        "on_disk good blk N n (k + 1 + 16) D R (fs\<lparr>fs_bdev := cd2\<rparr>)" using lookup_ok[OF r(3)] by (fastforce simp: b l_def)
      have k2: "k + 1 + 16 + 2 < 2 ^ 32" using k by simp
      from trans_get_ok[OF 2(2) map(3) p(5,4) k2, folded l_def, of h] obtain cd3 where 3: "ext4_trans_block_get ops mal h l cd2 = Some (EOK, handle l, cd3)"
        "on_disk good blk N n (k + 1 + 16 + 1) D (R(l := R l + 1)) (fs\<lparr>fs_bdev := cd3\<rparr>)" by auto
      have "on_disk good blk N n (k + 18) D (R(l := R l + 1)) (fs\<lparr>fs_bdev := cd3\<rparr>)" by (rule on_disk_mono[OF 3(2)]) simp
      then show ?thesis using True r(1) dblk_unwritten[OF 2(1)] p(4) 3(1) by (intro exI[of _ cd3]) (simp add: l_def)
    qed
    then obtain cd where g: "?get = Some (EOK, ?it\<lparr>curr_blk := handle l\<rparr>, fs\<lparr>fs_bdev := cd\<rparr>)"
      "on_disk good blk N n (k + 18) D (R(l := R l + 1)) (fs\<lparr>fs_bdev := cd\<rparr>)" by blast
    let ?it' = "?it\<lparr>curr_blk := handle l, curr_off := of_nat ?o\<rparr>"
    have "blk_data (handle l) cd = Some (D l)" using on_disk_held[OF g(2), of l] by simp
    then have set: "ext4_dir_iterator_set ?it' bs (fs\<lparr>fs_bdev := cd\<rparr>) = Some (EOK, ?it'\<lparr>curr := Some (?o mod n)\<rparr>)"
      by (intro iterator_set_ok[OF _ True]) (use ok(1) j(2) bs o64 in \<open>simp_all add: l_def\<close>)
    have "ext4_dir_iterator_seek ops mal cal ?ref it (of_nat ?o) fs = Some (EOK, ?it'\<lparr>curr := Some (?o mod n)\<rparr>, fs\<lparr>fs_bdev := cd\<rparr>)"
      unfolding ext4_dir_iterator_seek_def Let_def using held lt bs(1) g(1)[unfolded Let_def b_def] set by simp
    then show ?thesis using g(2) True p(4) uo
      by (intro exI[of _ "?it'\<lparr>curr := Some (?o mod n)\<rparr>"] exI[of _ cd]) (simp add: it_ok_def it_refs_def l_def)
  qed
qed

text \<open>An iterator that stands at an entry gives access to its bytes.\<close>

lemma at_entry:
  assumes on: "on_disk good blk N n k D (it_refs it R) fs" and ok: "list_ok N n D mal cal index fs"
    and it: "it_ok (fs_sb fs) n D index it" "curr_off it = of_nat (seg_off es j)" "lb_id (curr_blk it) \<noteq> 0"
    and j: "j < length es" "es = entries_of (fs_sb fs) n D index"
  shows "\<exists>dat xs ys. blk_data (curr_blk it) (fs_bdev fs) = Some dat \<and> dat = xs @ es ! j @ ys \<and> length xs = seg_off es j mod n \<and>
    ext4_dir_en_get_entry_len dat (seg_off es j mod n) = Some (of_nat (length (es ! j))) \<and>
    ext4_dir_en_get_inode dat (seg_off es j mod n) = Some (seg_ino (es ! j))"
    "curr_off it + ucast (of_nat (length (es ! j)) :: u16) = of_nat (seg_off es (Suc j))"
proof -
  let ?sb = "fs_sb fs" and ?e = "es ! j"
  define l where "l = fblk ?sb D (n div 4) (inode_at ?sb D index) (seg_off es j div n)"
  have "seg_off es j \<le> unat (ext4_inode_get_size ?sb (inode_at ?sb D index))"
    using seg_off_mono[of j "length es" es] j entries_total(1)[OF ok j(2)] by simp
  then have "seg_off es j < 2 ^ 64" using unsigned_less[of "ext4_inode_get_size ?sb (inode_at ?sb D index)", where 'a = nat] by simp
  then have "unat (curr_off it) = seg_off es j" using it(2) by (simp add: unat_of_nat)
  then have c: "curr_blk it = handle l" using it(1,3) by (simp add: it_ok_def l_def)
  note p = entry_pos[OF ok j, folded l_def]
  have "0 < it_refs it R l" using c it(3) by (simp add: it_refs_def)
  then have d: "blk_data (curr_blk it) (fs_bdev fs) = Some (D l)" using on_disk_held[OF on] c by simp
  obtain xs ys where s: "D l = xs @ ?e @ ys" "length xs = seg_off es j mod n" using p(7) by blast
  note f = seg_fields[OF p(2), of xs ys, folded s(1), unfolded s(2)]
  show "\<exists>dat xs ys. blk_data (curr_blk it) (fs_bdev fs) = Some dat \<and> dat = xs @ es ! j @ ys \<and> length xs = seg_off es j mod n \<and>
    ext4_dir_en_get_entry_len dat (seg_off es j mod n) = Some (of_nat (length (es ! j))) \<and>
    ext4_dir_en_get_inode dat (seg_off es j mod n) = Some (seg_ino (es ! j))"
    by (rule exI[of _ "D l"], rule exI[of _ xs], rule exI[of _ ys]) (intro conjI d s f)
  have len: "length ?e < 2 ^ 16" using p(2) unsigned_less[of "get16 ((!) ?e) 4", where 'a = nat] by (simp add: seg_ok_def seg_len_def)
  have "ucast (of_nat (length ?e) :: u16) = (of_nat (length ?e) :: u64)" using len by (simp add: word_unat_eq_iff unat_ucast_mod unat_of_nat)
  then show "curr_off it + ucast (of_nat (length ?e) :: u16) = of_nat (seg_off es (Suc j))" using it(2) seg_off_Suc[OF j(1)] by simp
qed

text \<open>The next entry with an inode, or the end.\<close>

lemma iterator_next_ok:
  assumes on: "on_disk good blk N n k D (it_refs it R) fs" and ok: "list_ok N n D mal cal index fs" "0 < R (inode_block (fs_sb fs) D index)"
    and it: "it_ok (fs_sb fs) n D index it" "curr_off it = of_nat (seg_off es j)" "curr it = Some (seg_off es j mod n)" "lb_id (curr_blk it) \<noteq> 0"
    and j: "j < length es" "es = entries_of (fs_sb fs) n D index" and k: "k + 18 * (next_live es j - j) + 4 < 2 ^ 32"
  shows "\<exists>it' cd. ext4_dir_iterator_next ops mal cal (the_ref (fs_sb fs) D index) it fs = Some (EOK, it', fs\<lparr>fs_bdev := cd\<rparr>) \<and>
    it_ok (fs_sb fs) n D index it' \<and> curr_off it' = of_nat (seg_off es (next_live es j)) \<and> (curr it' = None \<longleftrightarrow> next_live es j = length es) \<and>
    on_disk good blk N n (k + 18 * (next_live es j - j)) D (it_refs it' R) (fs\<lparr>fs_bdev := cd\<rparr>)"
  using on ok it j k
proof (induction "length es - j" arbitrary: j k it fs rule: less_induct)
  case less
  let ?sb = "fs_sb fs" and ?ref = "the_ref (fs_sb fs) D index" and ?n = "next_live es j"
  note prem = less.prems
  from at_entry[OF prem(1,2,4,5,7,8,9)] obtain dat where
    e: "blk_data (curr_blk it) (fs_bdev fs) = Some dat" "ext4_dir_en_get_entry_len dat (seg_off es j mod n) = Some (of_nat (length (es ! j)))"
    "curr_off it + ucast (of_nat (length (es ! j)) :: u16) = of_nat (seg_off es (Suc j))" by blast
  note nl = next_live[OF prem(8)]
  have k1: "k + 21 < 2 ^ 32" using prem(10) nl(1) by simp
  from seek_ok[OF prem(1-4) _ prem(9) k1, of "Suc j"] prem(8) obtain it1 cd1 where
    1: "ext4_dir_iterator_seek ops mal cal ?ref it (of_nat (seg_off es (Suc j))) fs = Some (EOK, it1, fs\<lparr>fs_bdev := cd1\<rparr>)"
    "it_ok ?sb n D index it1" "curr_off it1 = of_nat (seg_off es (Suc j))"
    "if Suc j < length es then curr it1 = Some (seg_off es (Suc j) mod n) \<and> lb_id (curr_blk it1) \<noteq> 0 else curr it1 = None"
    "on_disk good blk N n (k + 18) D (it_refs it1 R) (fs\<lparr>fs_bdev := cd1\<rparr>)" by auto
  let ?next = "ext4_dir_iterator_next ops mal cal ?ref"
  have step: "?next it fs = (case curr it1 of None \<Rightarrow> Some (EOK, it1, fs\<lparr>fs_bdev := cd1\<rparr>)
       | Some de \<Rightarrow> Option.bind (blk_data (curr_blk it1) cd1) (\<lambda>dat. Option.bind (ext4_dir_en_get_inode dat de) (\<lambda>inode.
             if inode \<noteq> 0 then Some (EOK, it1, fs\<lparr>fs_bdev := cd1\<rparr>) else ?next it1 (fs\<lparr>fs_bdev := cd1\<rparr>))))"
    by (subst ext4_dir_iterator_next.simps) (simp add: prem(6) e 1(1) cong: option.case_cong if_cong)
  have k18: "k + 18 \<le> k + 18 * (?n - j)" using nl(1) by simp
  show ?case
  proof (cases "Suc j < length es")
    case False
    then have "Suc j = length es" using prem(8) by simp
    then have n: "?n = Suc j" "?n = length es" using nl(3) by simp_all
    show ?thesis unfolding step using 1(2-5) False n on_disk_mono[OF 1(5) k18]
      by (intro exI[of _ it1] exI[of _ cd1]) simp
  next
    case True
    have c: "curr it1 = Some (seg_off es (Suc j) mod n)" "lb_id (curr_blk it1) \<noteq> 0" using 1(4) True by simp_all
    have fs1: "fs_sb (fs\<lparr>fs_bdev := cd1\<rparr>) = ?sb" by simp
    from at_entry[OF 1(5) _ _ 1(3) c(2) True, unfolded fs1 list_ok_bdev, OF prem(2) 1(2) prem(9)] obtain dat1 where
      d: "blk_data (curr_blk it1) cd1 = Some dat1" "ext4_dir_en_get_inode dat1 (seg_off es (Suc j) mod n) = Some (seg_ino (es ! Suc j))" by auto
    show ?thesis
    proof (cases "seg_ino (es ! Suc j) = 0")
      case False
      then have n: "?n = Suc j" using nl(3) by simp
      show ?thesis unfolding step using 1(2,3) c d False n True on_disk_mono[OF 1(5) k18]
        by (intro exI[of _ it1] exI[of _ cd1]) simp
    next
      case z: True
      then have n: "?n = next_live es (Suc j)" using nl(4) True by simp
      note nl2 = next_live(1)[OF True]
      have kk: "k + 18 + 18 * (next_live es (Suc j) - Suc j) = k + 18 * (?n - j)" using n nl2 by simp
      have step2: "?next it fs = ?next it1 (fs\<lparr>fs_bdev := cd1\<rparr>)" unfolding step using c d z by simp
      have "\<exists>it' cd. ext4_dir_iterator_next ops mal cal (the_ref (fs_sb (fs\<lparr>fs_bdev := cd1\<rparr>)) D index) it1 (fs\<lparr>fs_bdev := cd1\<rparr>) = Some (EOK, it', fs\<lparr>fs_bdev := cd1\<rparr>\<lparr>fs_bdev := cd\<rparr>) \<and>
        it_ok (fs_sb (fs\<lparr>fs_bdev := cd1\<rparr>)) n D index it' \<and> curr_off it' = of_nat (seg_off es (next_live es (Suc j))) \<and> (curr it' = None \<longleftrightarrow> next_live es (Suc j) = length es) \<and>
        on_disk good blk N n (k + 18 + 18 * (next_live es (Suc j) - Suc j)) D (it_refs it' R) (fs\<lparr>fs_bdev := cd1\<rparr>\<lparr>fs_bdev := cd\<rparr>)"
      proof (rule less.hyps[OF _ 1(5)])
        show "k + 18 + 18 * (next_live es (Suc j) - Suc j) + 4 < 2 ^ 32" unfolding kk by (rule prem(10))
      qed (use prem(2,3,9) 1(2,3) c True prem(8) in simp_all)
      then show ?thesis unfolding step2 kk n by simp
    qed
  qed
qed

lemma iterator_fini_ok:
  assumes on: "on_disk good blk N n k D (it_refs it R) fs" and it: "it_ok sb n D index it"
  shows "\<exists>cd. ext4_dir_iterator_fini ops it fs = Some (EOK, fs\<lparr>fs_bdev := cd\<rparr>) \<and> on_disk good blk N n (k + 1) D R (fs\<lparr>fs_bdev := cd\<rparr>)"
  using iter_release_ok[OF assms]
  by (auto simp: iter_release_def ext4_dir_iterator_fini_def fs_block_set_def bind_Some_iff split: if_splits intro: exI[of _ "fs_bdev fs"])

end

section \<open>Reading entries\<close>

definition seg_dirent :: "mem \<Rightarrow> byte list \<Rightarrow> ext4_direntry" where
  "seg_dirent sb e = \<lparr>de_inode = seg_ino e, de_entry_length = of_nat (length e), de_name_length = of_nat (seg_nlen sb e),
     de_inode_type = seg_type sb e, de_name = seg_name sb e @ replicate (255 - seg_nlen sb e) 0\<rparr>"

lemma dirent_copy_ok:
  assumes "seg_ok sb e" "seg_nlen sb e < 255"
  shows "dirent_copy sb (xs @ e @ ys) (length xs) = Some (seg_dirent sb e)"
proof -
  have u: "unat (of_nat (seg_nlen sb e) :: u16) = seg_nlen sb e" using assms(2) by (simp add: unat_of_nat)
  have "(ucast (of_nat (seg_nlen sb e) :: u16) :: byte) = of_nat (seg_nlen sb e)"
    using assms(2) u by (simp add: word_unat_eq_iff unat_ucast_mod unat_of_nat)
  moreover have "take (seg_nlen sb e) (drop (length xs + 8) (xs @ e @ ys)) = seg_name sb e" "length xs + 8 + seg_nlen sb e \<le> length (xs @ e @ ys)"
    using assms(1) by (simp_all add: seg_name_def seg_ok_def)
  ultimately show ?thesis using assms(2) u seg_fields[OF assms(1), of xs ys] unfolding dirent_copy_def
    by (simp add: seg_dirent_def add.commute)
qed

text \<open>The directory stream before entry \<open>j\<close>, and at the end.\<close>

definition stream_at :: "byte list list \<Rightarrow> nat \<Rightarrow> u64" where
  "stream_at es j = (if j < length es then of_nat (seg_off es j) else EXT4_DIR_ENTRY_OFFSET_TERM)"

context logical_source
begin

lemma dir_next_ok:
  assumes on: "on_disk good blk N n k D R fs" and ok: "list_ok N n D mal cal index fs"
    and d: "f_inode (snd (d_f d)) = index" "next_off d = stream_at es j" and j: "j < length es" "es = entries_of (fs_sb fs) n D index"
    and k: "k + 18 * (next_live es j - j) + 40 < 2 ^ 32"
  shows "\<exists>cd. dir_next mal cal d ops fs = Some ((True, d\<lparr>d_de := seg_dirent (fs_sb fs) (es ! j), next_off := stream_at es (next_live es j)\<rparr>), fs\<lparr>fs_bdev := cd\<rparr>) \<and>
    on_disk good blk N n (k + 18 * (next_live es j - j) + 23) D R (fs\<lparr>fs_bdev := cd\<rparr>)"
proof -
  let ?sb = "fs_sb fs" and ?ref = "the_ref (fs_sb fs) D index" and ?l = "inode_block (fs_sb fs) D index" and ?j = "next_live es j"
  define R1 where "R1 = R(?l := R ?l + 1)"
  have R1: "0 < R1 ?l" by (simp add: R1_def)
  let ?it0 = "\<lparr>curr_blk = no_block, curr_off = 0, curr = None\<rparr>"
  have io: "mal_ok n mal" "inode_ok ?sb N D index" using ok by (auto simp: list_ok_def dir_ok_def can_map_def)
  have "k + 4 < 2 ^ 32" using k by simp
  from get_inode_ref_ok[OF on io this, folded R1_def] obtain cd1 where 1: "ext4_fs_get_inode_ref ops mal index fs = Some (EOK, ?ref, fs\<lparr>fs_bdev := cd1\<rparr>)"
    "on_disk good blk N n (k + 3) D R1 (fs\<lparr>fs_bdev := cd1\<rparr>)" by blast
  have it0: "it_refs ?it0 R1 = R1" "it_ok ?sb n D index ?it0" by (simp_all add: it_refs_def it_ok_def no_block_def)
  have k1: "k + 3 + 21 < 2 ^ 32" using k by simp
  from seek_ok[where it = ?it0 and fs = "fs\<lparr>fs_bdev := cd1\<rparr>" and R = R1 and index = index, unfolded it0(1), OF 1(2) _ _ _ _ _ k1, of mal cal j es] ok it0(2) j R1
  obtain it cd2 where 2: "ext4_dir_iterator_seek ops mal cal ?ref ?it0 (of_nat (seg_off es j)) (fs\<lparr>fs_bdev := cd1\<rparr>) = Some (EOK, it, fs\<lparr>fs_bdev := cd2\<rparr>)"
    "it_ok ?sb n D index it" "curr_off it = of_nat (seg_off es j)" "curr it = Some (seg_off es j mod n)" "lb_id (curr_blk it) \<noteq> 0"
    "on_disk good blk N n (k + 3 + 18) D (it_refs it R1) (fs\<lparr>fs_bdev := cd2\<rparr>)" by auto
  from at_entry(1)[OF 2(6), of mal cal index es j] ok 2(2-5) j obtain dat xs ys where
    e: "blk_data (curr_blk it) cd2 = Some dat" "dat = xs @ es ! j @ ys" "length xs = seg_off es j mod n" by auto
  have "seg_nlen ?sb (es ! j) < 255" using ok j by (auto simp: list_ok_def)
  from dirent_copy_ok[OF entry_pos(2)[OF ok j] this, of xs ys] have copy: "dirent_copy ?sb dat (seg_off es j mod n) = Some (seg_dirent ?sb (es ! j))"
    using e(2,3) by simp
  have "k + 3 + 18 + 18 * (?j - j) + 4 < 2 ^ 32" using k by simp
  from iterator_next_ok[OF 2(6), of mal cal index es j, OF _ _ _ 2(3,4,5) j(1) _ this] ok 2(2) j(2) R1 obtain it3 cd3 where
    3: "ext4_dir_iterator_next ops mal cal ?ref it (fs\<lparr>fs_bdev := cd2\<rparr>) = Some (EOK, it3, fs\<lparr>fs_bdev := cd3\<rparr>)" "it_ok ?sb n D index it3"
    "curr_off it3 = of_nat (seg_off es ?j)" "curr it3 = None \<longleftrightarrow> ?j = length es"
    "on_disk good blk N n (k + 3 + 18 + 18 * (?j - j)) D (it_refs it3 R1) (fs\<lparr>fs_bdev := cd3\<rparr>)" by auto
  from iterator_fini_ok[OF 3(5,2)] obtain cd4 where 4: "ext4_dir_iterator_fini ops it3 (fs\<lparr>fs_bdev := cd3\<rparr>) = Some (EOK, fs\<lparr>fs_bdev := cd4\<rparr>)"
    "on_disk good blk N n (k + 3 + 18 + 18 * (?j - j) + 1) D R1 (fs\<lparr>fs_bdev := cd4\<rparr>)" by auto
  from put_inode_ref_ok[OF 4(2)[unfolded R1_def], of index, unfolded ref_upd] obtain cd5 where 5: "ext4_fs_put_inode_ref ops ?ref (fs\<lparr>fs_bdev := cd4\<rparr>) = Some (EOK, fs\<lparr>fs_bdev := cd5\<rparr>)"
    "on_disk good blk N n (k + 3 + 18 + 18 * (?j - j) + 1 + 1) D R (fs\<lparr>fs_bdev := cd5\<rparr>)" by (auto simp: ref_upd)
  have nj: "next_off d = of_nat (seg_off es j)" "stream_at es ?j = (if curr it3 = None then EXT4_DIR_ENTRY_OFFSET_TERM else curr_off it3)"
    using d(2) j(1) 3(3,4) next_live(2)[OF j(1)] by (auto simp: stream_at_def)
  have "dir_next mal cal d ops fs = Some ((True, d\<lparr>d_de := seg_dirent ?sb (es ! j), next_off := stream_at es ?j\<rparr>), fs\<lparr>fs_bdev := cd5\<rparr>)"
    unfolding dir_next_def d(1) nj using 1(1) 2(1,4) e(1) copy 3(1) 4(1) 5(1) by (simp add: ext4_dir_iterator_init_def)
  moreover have "on_disk good blk N n (k + 18 * (?j - j) + 23) D R (fs\<lparr>fs_bdev := cd5\<rparr>)" by (rule on_disk_mono[OF 5(2)]) simp
  ultimately show ?thesis by blast
qed

end

section \<open>The listing\<close>

text \<open>One line for the first entry, which is not tested, and for every other entry with an inode.\<close>

definition dir_line :: "mem \<Rightarrow> byte list \<Rightarrow> byte list" where
  "dir_line sb e = ascii ''  '' @ ascii (entry_to_str (seg_type sb e)) @ takeWhile (\<lambda>c. c \<noteq> 0) (seg_name sb e) @ [0x0a]"

definition listed :: "byte list list \<Rightarrow> nat \<Rightarrow> byte list list" where
  "listed es j = es ! j # filter (\<lambda>e. seg_ino e \<noteq> 0) (drop (Suc j) es)"

lemma listed_next:
  assumes "j < length es"
  shows "listed es j = es ! j # (if next_live es j < length es then listed es (next_live es j) else [])"
  by (simp only: listed_def next_live(5)[OF assms])

lemma mp_holds_state:
  assumes "mp_holds i (mounted_fs sb cd) w s"
  shows "drv (bdv cd) = s"
proof -
  from assms obtain f c where "(f :: 'b fs)\<lparr>fs_bdev := \<lparr>bdv = (blockdevs w i)\<lparr>drv := s\<rparr>, bc = c\<rparr>\<rparr> = mounted_fs sb cd"
    by (auto simp: mp_holds_def mp_load_def bind_Some_iff)
  from arg_cong[OF this, of fs_drv] show ?thesis by simp
qed

lemma ls_line_ok:
  assumes "seg_ok sb e" "seg_nlen sb e < 255"
  shows "ls_line (seg_dirent sb e) = Some (dir_line sb e)"
proof -
  have "unat (of_nat (seg_nlen sb e) :: byte) = seg_nlen sb e" using assms(2) by (simp add: unat_of_nat)
  moreover have "length (seg_name sb e) = seg_nlen sb e" using assms(1) by (auto simp: seg_name_def seg_ok_def)
  ultimately show ?thesis using assms(2) by (simp add: ls_line_def seg_dirent_def dir_line_def)
qed

lemma stream_not_end:
  assumes "list_ok N n D mal cal index fs" "j < length es" "es = entries_of (fs_sb fs) n D index"
  shows "stream_at es j \<noteq> EXT4_DIR_ENTRY_OFFSET_TERM"
proof -
  have "\<forall>e\<in>set es. seg_ok (fs_sb fs) e" using entry_pos(2)[OF assms(1) _ assms(3)] by (auto simp: in_set_conv_nth)
  from seg_off_less[OF this assms(2)] entries_total(1)[OF assms(1,3)]
    unsigned_less[of "ext4_inode_get_size (fs_sb fs) (inode_at (fs_sb fs) D index)", where 'a = nat]
  have "seg_off es j < 2 ^ 64 - 1" by simp
  then show ?thesis using assms(2)
    by (auto simp: stream_at_def EXT4_DIR_ENTRY_OFFSET_TERM_def word_unat_eq_iff unat_of_nat unsigned_minus_1_eq_mask mask_eq_exp_minus_1)
qed

context block_source
begin

lemma entry_next_ok:
  assumes dv: "opsf i = ops" and w: "mp_holds i (mounted_fs sb cd) w s"
    and on: "on_disk (ready_dev N) (part_block content) N n k D R (mounted_fs sb cd)" and ok: "list_ok N n D mal cal index (mounted_fs sb cd)"
    and d: "d_f d = (0, g)" "f_mp g" "f_inode g = index" "next_off d = stream_at es j" and j: "j < length es" "es = entries_of sb n D index"
    and k: "k + 18 * (next_live es j - j) + 40 < 2 ^ 32"
  shows "\<exists>w' cd'. ext4_dir_entry_next opsf mal cal d w s =
      Some ((True, d\<lparr>d_de := seg_dirent sb (es ! j), next_off := stream_at es (next_live es j)\<rparr>), w', drv (bdv cd')) \<and>
    mp_holds i (mounted_fs sb cd') w' (drv (bdv cd')) \<and>
    on_disk (ready_dev N) (part_block content) N n (k + 18 * (next_live es j - j) + 23) D R (mounted_fs sb cd')"
proof -
  from lsrc.dir_next_ok[OF on ok _ d(4) j(1) _ k] d(1,3) j(2) obtain cd' where
    r: "dir_next mal cal d ops (mounted_fs sb cd) = Some ((True, d\<lparr>d_de := seg_dirent sb (es ! j), next_off := stream_at es (next_live es j)\<rparr>), mounted_fs sb cd')"
    "on_disk (ready_dev N) (part_block content) N n (k + 18 * (next_live es j - j) + 23) D R (mounted_fs sb cd')" by auto
  have "next_off d \<noteq> EXT4_DIR_ENTRY_OFFSET_TERM" using stream_not_end[OF ok j(1)] j(2) d(4) by simp
  then have "ext4_dir_entry_next opsf mal cal d w s = on_mp opsf 0 (dir_next mal cal d) w s" using d(1,2) by (simp add: ext4_dir_entry_next_def)
  moreover note o = on_mp_holds[of i _ w s "dir_next mal cal d" opsf, OF w r(1)[folded dv]]
  ultimately show ?thesis using r(2) by (intro exI[of _ "mp_store 0 (mounted_fs sb cd') w"] exI[of _ cd']) simp
qed

lemma ls_loop_ok:
  assumes dv: "opsf i = ops" and w: "mp_holds i (mounted_fs sb cd) w s"
    and on: "on_disk (ready_dev N) (part_block content) N n k D R (mounted_fs sb cd)" and ok0: "list_ok N n D mal cal index (mounted_fs sb cd)"
    and d: "d_f d = (0, g)" "f_mp g" "f_inode g = index" "d_de d = seg_dirent sb (es ! j)" "next_off d = stream_at es (next_live es j)"
    and j: "j < length es" "es = entries_of sb n D index" and k: "k + 41 * (length es - next_live es j) + 40 < 2 ^ 32"
  shows "\<exists>w' cd' d'. ls_loop opsf mal cal out True d w s = Some (out @ concat (map (dir_line sb) (listed es j)), d', w', drv (bdv cd')) \<and>
    d_f d' = (0, g) \<and> mp_holds i (mounted_fs sb cd') w' (drv (bdv cd')) \<and>
    on_disk (ready_dev N) (part_block content) N n (k + 41 * (length es - next_live es j)) D R (mounted_fs sb cd')"
  using w on d j(1) k
proof (induction "length es - j" arbitrary: j k cd w s d out rule: less_induct)
  case less
  note prem = less.prems
  let ?j = "next_live es j" and ?e = "es ! j"
  have ok: "list_ok N n D mal cal index (mounted_fs sb cd)" by (rule list_ok_mounted[OF ok0])
  have es: "es = entries_of (fs_sb (mounted_fs sb cd)) n D index" using j(2) by simp
  have e: "seg_ok sb ?e" "seg_nlen sb ?e < 255"
    using entry_pos(2)[OF ok prem(8) es] ok prem(8) es by (auto simp: list_ok_def)
  note line = ls_line_ok[OF e]
  note nl = next_live(1,2)[OF prem(8)]
  have loop: "ls_loop opsf mal cal out True d w s = Option.bind (ext4_dir_entry_next opsf mal cal d w s) (\<lambda>((have_de, d), w, s).
      ls_loop opsf mal cal (out @ dir_line sb ?e) have_de d w s)"
    by (subst ls_loop.simps) (simp add: prem(6) line)
  show ?case
  proof (cases "?j < length es")
    case False
    then have "next_off d = EXT4_DIR_ENTRY_OFFSET_TERM" using prem(7) by (simp add: stream_at_def)
    then have "ext4_dir_entry_next opsf mal cal d w s = Some ((False, d), w, s)" using prem(3,4) by (simp add: ext4_dir_entry_next_def)
    then have "ls_loop opsf mal cal out True d w s = Some (out @ concat (map (dir_line sb) (listed es j)), d, w, s)"
      unfolding loop listed_next[OF prem(8)] using False by (simp add: ls_loop.simps)
    moreover have "drv (bdv cd) = s" using prem(1) by (rule mp_holds_state)
    ultimately show ?thesis using prem(1-3) False
      by (intro exI[of _ w] exI[of _ cd] exI[of _ d]) simp
  next
    case True
    have nl2: "?j < next_live es ?j" "next_live es ?j \<le> length es" using next_live(1,2)[OF True] by auto
    have "k + 18 * (next_live es ?j - ?j) + 40 < 2 ^ 32" using prem(9) nl2 by simp
    from entry_next_ok[where opsf = opsf and i = i, OF dv prem(1,2) ok prem(3,4,5,7) True j(2) this] obtain w' cd' where
      1: "ext4_dir_entry_next opsf mal cal d w s = Some ((True, d\<lparr>d_de := seg_dirent sb (es ! ?j), next_off := stream_at es (next_live es ?j)\<rparr>), w', drv (bdv cd'))"
      "mp_holds i (mounted_fs sb cd') w' (drv (bdv cd'))"
      "on_disk (ready_dev N) (part_block content) N n (k + 18 * (next_live es ?j - ?j) + 23) D R (mounted_fs sb cd')" by blast
    let ?d = "d\<lparr>d_de := seg_dirent sb (es ! ?j), next_off := stream_at es (next_live es ?j)\<rparr>"
    have le: "k + 18 * (next_live es ?j - ?j) + 23 + 41 * (length es - next_live es ?j) \<le> k + 41 * (length es - ?j)" using nl2 by simp
    have "\<exists>w'' cd'' d'. ls_loop opsf mal cal (out @ dir_line sb ?e) True ?d w' (drv (bdv cd')) =
        Some ((out @ dir_line sb ?e) @ concat (map (dir_line sb) (listed es ?j)), d', w'', drv (bdv cd'')) \<and>
      d_f d' = (0, g) \<and> mp_holds i (mounted_fs sb cd'') w'' (drv (bdv cd'')) \<and>
      on_disk (ready_dev N) (part_block content) N n (k + 18 * (next_live es ?j - ?j) + 23 + 41 * (length es - next_live es ?j)) D R (mounted_fs sb cd'')"
      by (rule less.hyps[OF _ 1(2,3)]) (use prem(3-5,8,9) True nl le in simp_all)
    then obtain w'' cd'' d' where 2: "ls_loop opsf mal cal (out @ dir_line sb ?e) True ?d w' (drv (bdv cd')) =
        Some ((out @ dir_line sb ?e) @ concat (map (dir_line sb) (listed es ?j)), d', w'', drv (bdv cd''))"
      "d_f d' = (0, g)" "mp_holds i (mounted_fs sb cd'') w'' (drv (bdv cd''))"
      "on_disk (ready_dev N) (part_block content) N n (k + 18 * (next_live es ?j - ?j) + 23 + 41 * (length es - next_live es ?j)) D R (mounted_fs sb cd'')" by blast
    have "ls_loop opsf mal cal out True d w s = Some (out @ concat (map (dir_line sb) (listed es j)), d', w'', drv (bdv cd''))"
      unfolding loop listed_next[OF prem(8)] using 1(1) 2(1) True by simp
    then show ?thesis using 2(2,3) on_disk_mono[OF 2(4) le] by blast
  qed
qed

lemma dir_ls_ok:
  assumes dv: "opsf i = ops" and w: "mp_holds i (mounted_fs sb cd) w s" and ft: "ext4_sb_feature_incom sb EXT4_FINCOM_FILETYPE"
    and on: "on_disk (ready_dev N) (part_block content) N n k D R (mounted_fs sb cd)" and ok: "list_ok N n D mal cal index (mounted_fs sb cd)"
    and p: "path_ok EXT4_DE_DIR N n (n div 4) D mal cal C (mounted_fs sb cd) EXT4_INODE_ROOT_INDEX ns index" and es: "es = entries_of sb n D index"
    and k: "k + (18 * C + 5) * length ns + 41 * length es + 80 < 2 ^ 32"
  shows "\<exists>w' cd'. test_lwext4_dir_ls opsf mal cal d0 (0x2f # join_path ns) w s =
      Some (concat (map (dir_line sb) (listed es 0)), w', drv (bdv cd')) \<and> mp_holds i (mounted_fs sb cd') w' (drv (bdv cd')) \<and>
    on_disk (ready_dev N) (part_block content) N n (k + (18 * C + 5) * length ns + 41 * length es + 27) D R (mounted_fs sb cd')"
proof -
  have mi: "mal_ok n mal" "inode_ok sb N D index" using ok by (auto simp: list_ok_def dir_ok_def can_map_def)
  let ?K = "k + (18 * C + 5) * length ns + 4" and ?j = "next_live es 0"
  have "k + (18 * C + 5) * length ns + 30 < 2 ^ 32" using k by simp
  from dir_open_ok[where opsf = opsf and i = i and d = d0, OF dv w mi(1) on ft p mi(2) this] obtain w1 cd1 d g where
    1: "ext4_dir_open opsf mal cal d0 (0x2f # join_path ns) w s = Some (EOK, d, w1, drv (bdv cd1))" "mp_holds i (mounted_fs sb cd1) w1 (drv (bdv cd1))"
    "on_disk (ready_dev N) (part_block content) N n ?K D R (mounted_fs sb cd1)" and d: "d_f d = (0, g)" "f_mp g" "f_inode g = index" "next_off d = 0" by fastforce
  note ok1 = list_ok_mounted[OF ok, of cd1]
  have j: "0 < length es" "next_off d = stream_at es 0" using entries_total(2)[OF ok] es d(4) by (simp_all add: stream_at_def seg_off_def)
  note nl = next_live(1,2)[OF j(1)]
  have "?K + 18 * (?j - 0) + 40 < 2 ^ 32" using k nl by simp
  from entry_next_ok[where opsf = opsf and i = i, OF dv 1(2,3) ok1 d(1-3) j(2,1) es this] obtain w2 cd2 d2 where
    2: "ext4_dir_entry_next opsf mal cal d w1 (drv (bdv cd1)) = Some ((True, d2), w2, drv (bdv cd2))" "mp_holds i (mounted_fs sb cd2) w2 (drv (bdv cd2))"
    "on_disk (ready_dev N) (part_block content) N n (?K + 18 * (?j - 0) + 23) D R (mounted_fs sb cd2)"
    and d2: "d_f d2 = (0, g)" "d_de d2 = seg_dirent sb (es ! 0)" "next_off d2 = stream_at es ?j" using d(1) by fastforce
  have "?K + 18 * (?j - 0) + 23 + 41 * (length es - ?j) + 40 < 2 ^ 32" using k nl by simp
  from ls_loop_ok[where opsf = opsf and i = i and out = "[]", OF dv 2(2,3) list_ok_mounted[OF ok] d2(1) d(2,3) d2(2,3) j(1) es this] obtain w3 cd3 d3 where
    3: "ls_loop opsf mal cal [] True d2 w2 (drv (bdv cd2)) = Some (concat (map (dir_line sb) (listed es 0)), d3, w3, drv (bdv cd3))" "d_f d3 = (0, g)"
    "mp_holds i (mounted_fs sb cd3) w3 (drv (bdv cd3))"
    "on_disk (ready_dev N) (part_block content) N n (?K + 18 * (?j - 0) + 23 + 41 * (length es - ?j)) D R (mounted_fs sb cd3)" by auto
  have "test_lwext4_dir_ls opsf mal cal d0 (0x2f # join_path ns) w s = Some (concat (map (dir_line sb) (listed es 0)), w3, drv (bdv cd3))"
    using 1(1) 2(1) 3(1,2) d(2) by (simp add: test_lwext4_dir_ls_def ext4_dir_close_def ext4_fclose_def)
  moreover have "on_disk (ready_dev N) (part_block content) N n (k + (18 * C + 5) * length ns + 41 * length es + 27) D R (mounted_fs sb cd3)"
    by (rule on_disk_mono[OF 3(4)]) (use nl in simp)
  ultimately show ?thesis using 3(3) by blast
qed

end

text \<open>A directory of an image, by the bytes of the image only: its path and its entries.\<close>

definition dir_at :: "nat \<Rightarrow> byte list \<Rightarrow> byte list list \<Rightarrow> u32 \<Rightarrow> byte list list \<Rightarrow> bool" where
  "dir_at C img ns index es \<longleftrightarrow>
     (let sb = sb_of img; n = unat (the (ext4_sb_get_block_size sb)); D = img_block img n; N = of_nat (length img div n);
          fs = mounted_fs sb some_cdev; mal = (\<lambda>_ _. Some (replicate n 0)); cal = (\<lambda>_. True) in
      2048 \<le> length img \<and> mountable sb \<and> ext4_sb_feature_incom sb EXT4_FINCOM_FILETYPE \<and>
      path_ok EXT4_DE_DIR N n (n div 4) D mal cal C fs EXT4_INODE_ROOT_INDEX ns index \<and>
      list_ok N n D mal cal index fs \<and> es = entries_of sb n D index)"

lemma list_ok_transfer:
  assumes "list_ok N n D mal0 cal0 index (mounted_fs sb cd0)" "mal_ok n mal" "\<forall>d. cal d"
  shows "list_ok N n D mal cal index (mounted_fs sb cd)"
  using assms by (simp add: list_ok_def dir_ok_def can_map_def levels_ok_def) (simp add: mounted_fs_def Let_def)

end
