(* ===== verification/Ext4_Phone.thy ===== *)
theory Ext4_Phone
  imports Phone Ext4_List
begin

text \<open>
  lwext4 on the phone: the file calls that main.c makes, as an instance \<open>lw_ops\<close> of the record \<open>ext4_ops\<close>, and
  what they do when the partition on the phone is an ext4 image. The state of the instance is the state of
  lwext4 and the variables of the command (the open file, the buffer and the count).
\<close>

section \<open>Definitions\<close>

record 'd lwx =
  lw :: "(bdev_id, 'd st) lwext4"
  lw_file :: mfile
  lw_buf :: "byte list"
  lw_rcnt :: u64

definition lw_ops :: "'d usb \<Rightarrow> mem \<Rightarrow> malloc \<Rightarrow> (u16 \<Rightarrow> bool) \<Rightarrow> ext4_dir \<Rightarrow> ('d, 'd lwx) ext4_ops" where
  "lw_ops U junk mal cal d0 = \<lparr>
     lw_mount = \<lambda>bd x s. map_option (\<lambda>(r, w, s). (r, x\<lparr>lw := w\<rparr>, s)) (test_lwext4_mount (phone_ops U junk) bd (lw x) s),
     lw_umount = \<lambda>x s. map_option (\<lambda>(r, w, s). (r, x\<lparr>lw := w\<rparr>, s)) (test_lwext4_umount (phone_ops U junk) (lw x) s),
     lw_dir_ls = \<lambda>path x s. map_option (\<lambda>(out, w, s). (out, x\<lparr>lw := w\<rparr>, s))
       (test_lwext4_dir_ls (phone_ops U junk) mal cal d0 (ascii path) (lw x) s),
     lw_fopen = \<lambda>path x s. map_option (\<lambda>(r, f, w, s). (r, x\<lparr>lw := w, lw_file := f\<rparr>, s))
       (ext4_fopen (phone_ops U junk) mal cal (lw_file x) (ascii path) ''rb'' (lw x) s),
     lw_fread = \<lambda>n x s. map_option (\<lambda>((r, buf, rcnt, f), w, s). (r, take (unat rcnt) buf, x\<lparr>lw := w, lw_file := f, lw_buf := buf, lw_rcnt := rcnt\<rparr>, s))
       (mp_fread (phone_ops U junk) mal cal (lw_file x) (lw_buf x) (of_nat n) (lw_rcnt x) (lw x) s),
     lw_fsize = \<lambda>x. ext4_fsize (snd (lw_file x)),
     lw_fclose = \<lambda>x s. map_option (\<lambda>(r, f). (r, x\<lparr>lw_file := (fst (lw_file x), f)\<rparr>, s)) (ext4_fclose (snd (lw_file x)))\<rparr>"

text \<open>The state at the start of a command: static variables, an uninitialised descriptor and the buffer of
  the command.\<close>

definition lw_start :: "'d st \<Rightarrow> 'd lwx \<Rightarrow> bool" where
  "lw_start s x \<longleftrightarrow> lw x = lwext4_init (\<lambda>_. phone_dev s) (phone_dev s) \<and> length (lw_buf x) = 0x3000"

section \<open>The session of a device\<close>

text \<open>The frame that opens the session of a device, and its acknowledgement.\<close>

definition session_frame :: "bdev_id \<Rightarrow> byte list" where
  "session_frame dv = (if dv = Syberfsdev then syberfs_partition else data_partition)"

definition opens :: "'d usb \<Rightarrow> bdev_id \<Rightarrow> ('d \<Rightarrow> bool) \<Rightarrow> byte list \<Rightarrow> 'd st \<Rightarrow> bool" where
  "opens U dv ready flash s \<longleftrightarrow> dv \<noteq> Other_bdev \<and>
     (\<exists>d0. starts U (checksum_type s) 20 (session_frame dv) (dev s) d0 \<and> flash_ok U ready flash (s\<lparr>dev := d0\<rparr>)) \<and>
     512 dvd length flash"

lemma phone_init_ok:
  assumes "opens U dv ready flash s"
  shows "\<exists>b. ext4_block_init (phone_ops U junk dv) (phone_dev s) = Some (EOK, b) \<and>
    dev_ok (phone_ok U ready flash dv s) (\<lambda>_. flash) 512 b \<and> ph_refctr b = 1 \<and> part_offset b = 0 \<and> part_size b = 2 ^ 32"
proof -
  obtain d0 where d: "dv \<noteq> Other_bdev" "starts U (checksum_type s) 20 (session_frame dv) (dev s) d0"
    "flash_ok U ready flash (s\<lparr>dev := d0\<rparr>)" "512 dvd length flash" using assms by (auto simp: opens_def)
  have wire: "on_wire (session_frame dv) = session_frame dv" by (simp add: session_frame_def bdev_no_escape)
  from send_start_ok[OF d(2) wire, of junk] have "blockdev_open U junk dv s = Some (0, s\<lparr>dev := d0\<rparr>)"
    using d(1) by (cases dv) (simp_all add: blockdev_open_def session_frame_def)
  then show ?thesis
    using d by (auto simp: ext4_block_init_def phone_dev_def phone_ops_def dev_ok_def phone_ok_def EOK_def
        EXT4_BLOCKDEV_BSIZE_def EXT4_BLOCKDEV_BCNT_def intro!: exI[of _ d0] exI[of _ "data_buffer s"])
qed

section \<open>The mounted image\<close>

text \<open>\<open>lw_at\<close>: in state \<open>x\<close> of the instance, with the phone in state \<open>d\<close>, the image is mounted and nothing is
  referenced in the cache. \<open>k\<close> bounds the operations on the cache so far.\<close>

definition img_n :: "byte list \<Rightarrow> nat" where
  "img_n img = unat (the (ext4_sb_get_block_size (sb_of img)))"

definition img_N :: "byte list \<Rightarrow> u64" where
  "img_N img = of_nat (length img div img_n img)"

definition shows_img :: "'d usb \<Rightarrow> ('d \<Rightarrow> bool) \<Rightarrow> bdev_id \<Rightarrow> byte list \<Rightarrow> 'd st \<Rightarrow> nat \<Rightarrow> 'd st fs \<Rightarrow> bool" where
  "shows_img U ready dv img h k fs \<longleftrightarrow>
     on_disk (\<lambda>d. dev_ok (phone_ok U ready img dv h) (\<lambda>_. img) 512 d \<and> lb_ok (\<lambda>_. img) 512 (img_N img) d) (part_block (\<lambda>_. img))
       (img_N img) (img_n img) k (img_block img (img_n img)) (\<lambda>_. 0) fs"

definition lw_at :: "'d usb \<Rightarrow> ('d \<Rightarrow> bool) \<Rightarrow> bdev_id \<Rightarrow> byte list \<Rightarrow> byte \<Rightarrow> nat \<Rightarrow> 'd lwx \<Rightarrow> 'd \<Rightarrow> bool" where
  "lw_at U ready dv img ct k x d \<longleftrightarrow>
     (\<exists>cd. let s = drv (bdv cd) in dev s = d \<and> checksum_type s = ct \<and> mp_holds dv (mounted_fs (sb_of img) cd) (lw x) s \<and>
        shows_img U ready dv img s k (mounted_fs (sb_of img) cd))"

lemma lw_atD:
  assumes "lw_at U ready dv img ct k x (dev s)" "checksum_type s = ct"
  shows "\<exists>cd. mp_holds dv (mounted_fs (sb_of img) cd) (lw x) s \<and> shows_img U ready dv img s k (mounted_fs (sb_of img) cd)"
proof -
  let ?sb = "sb_of img"
  obtain cd where cd: "dev (drv (bdv cd)) = dev s" "checksum_type (drv (bdv cd)) = ct" "mp_holds dv (mounted_fs ?sb cd) (lw x) (drv (bdv cd))"
    "shows_img U ready dv img (drv (bdv cd)) k (mounted_fs ?sb cd)" using assms(1) by (auto simp: lw_at_def Let_def)
  let ?bd = "(bdv cd)\<lparr>drv := s\<rparr>" let ?cd = "cd\<lparr>bdv := ?bd\<rparr>"
  note on = cd(4)[unfolded shows_img_def]
  have "phone_ok U ready img dv s s" if "phone_ok U ready img dv (drv (bdv cd)) (drv (bdv cd))"
    using that cd(1,2) assms(2) by (auto simp: phone_ok_def flash_ok_def intro!: exI[of _ "dev s"] exI[of _ "data_buffer s"])
  then have "dev_ok (phone_ok U ready img dv s) (\<lambda>_. img) 512 ?bd \<and> lb_ok (\<lambda>_. img) 512 (img_N img) ?bd"
    using on_disk_bsize[OF on] by (auto simp: dev_ok_def lb_ok_def)
  then have "shows_img U ready dv img s k ((mounted_fs ?sb cd)\<lparr>fs_bdev := (fs_bdev (mounted_fs ?sb cd))\<lparr>bdv := ?bd\<rparr>\<rparr>)"
    unfolding shows_img_def by (rule on_disk_dev[OF on]) (use on_disk_bsize[OF on] in \<open>auto simp: part_block_def fun_eq_iff\<close>)
  moreover have "mp_holds dv (mounted_fs ?sb ?cd) (lw x) s" using mp_holds_drv[OF cd(3), of s] by simp
  ultimately show ?thesis by (intro exI[of _ ?cd]) simp
qed

lemma shows_imgD:
  assumes "shows_img U ready dv img h k (mounted_fs sb cd)"
  shows "\<exists>d m. drv (bdv cd) = h\<lparr>dev := d, data_buffer := m\<rparr>" "shows_img U ready dv img (drv (bdv cd)) k (mounted_fs sb cd)"
proof -
  note on = assms[unfolded shows_img_def]
  have p: "phone_ok U ready img dv h (drv (bdv cd))" using on_disk_bsize[OF on] by (auto simp: dev_ok_def)
  then show "\<exists>d m. drv (bdv cd) = h\<lparr>dev := d, data_buffer := m\<rparr>" by (auto simp: phone_ok_def)
  have "phone_ok U ready img dv (drv (bdv cd)) (drv (bdv cd))"
    using p by (auto simp: phone_ok_def intro!: exI[of _ "dev (drv (bdv cd))"] exI[of _ "data_buffer (drv (bdv cd))"])
  then have "dev_ok (phone_ok U ready img dv (drv (bdv cd))) (\<lambda>_. img) 512 (bdv cd) \<and> lb_ok (\<lambda>_. img) 512 (img_N img) (bdv cd)"
    using on_disk_bsize[OF on] by (auto simp: dev_ok_def)
  then have "shows_img U ready dv img (drv (bdv cd)) k ((mounted_fs sb cd)\<lparr>fs_bdev := (fs_bdev (mounted_fs sb cd))\<lparr>bdv := bdv cd\<rparr>\<rparr>)"
    unfolding shows_img_def by (rule on_disk_dev[OF on]) (use on_disk_bsize[OF on] in auto)
  then show "shows_img U ready dv img (drv (bdv cd)) k (mounted_fs sb cd)" by simp
qed

lemma lw_atI:
  assumes "mp_holds dv (mounted_fs (sb_of img) cd) (lw x) (drv (bdv cd))" "shows_img U ready dv img h k (mounted_fs (sb_of img) cd)" "checksum_type h = ct"
  shows "\<exists>d m. drv (bdv cd) = h\<lparr>dev := d, data_buffer := m\<rparr> \<and> lw_at U ready dv img ct k x d"
proof -
  obtain d m where d: "drv (bdv cd) = h\<lparr>dev := d, data_buffer := m\<rparr>" using shows_imgD(1)[OF assms(2)] by blast
  have "lw_at U ready dv img ct k x d"
    unfolding lw_at_def Let_def using assms(1,3) shows_imgD(2)[OF assms(2)] d by (intro exI[of _ cd]) simp
  with d show ?thesis by blast
qed

lemma lw_at_cong: "lw x' = lw x \<Longrightarrow> lw_at U ready dv img ct k x' = lw_at U ready dv img ct k x"
  by (simp add: lw_at_def fun_eq_iff)

section \<open>The calls on the phone\<close>

lemma opens_cong: "checksum_type s' = checksum_type s \<Longrightarrow> dev s' = dev s \<Longrightarrow> opens U dv ready img s' = opens U dv ready img s"
  by (simp add: opens_def flash_ok_def)

lemma img_facts:
  assumes "file_at C img ns target bl c"
  shows "2048 \<le> length img" "mountable (sb_of img)" "\<exists>bs. ext4_sb_get_block_size (sb_of img) = Some bs \<and> unat bs = img_n img \<and> bs \<le> EXT4_MAX_BLOCK_SIZE"
  using assms by (auto simp: file_at_def Let_def mountable_def img_n_def)

lemma runs_weaken:
  fixes f :: "'x \<Rightarrow> 'd st \<Rightarrow> ('r \<times> 'x \<times> 'd st) option"
  shows "runs ct f P r Q \<Longrightarrow> (\<And>x d. Q x d \<Longrightarrow> Q' x d) \<Longrightarrow> runs ct f P r Q'"
  unfolding runs_def
proof (intro allI impI)
  fix x and s :: "'d st" assume r: "\<forall>x s. checksum_type s = ct \<longrightarrow> P x (dev s) \<longrightarrow> (\<exists>x' d m. f x s = Some (r, x', s\<lparr>dev := d, data_buffer := m\<rparr>) \<and> Q x' d)"
    and Q: "\<And>x d. Q x d \<Longrightarrow> Q' x d" and s: "checksum_type s = ct" "P x (dev s)"
  from r s obtain x' d m where "f x s = Some (r, x', s\<lparr>dev := d, data_buffer := m\<rparr>)" "Q x' d" by blast
  with Q show "\<exists>x' d m. f x s = Some (r, x', s\<lparr>dev := d, data_buffer := m\<rparr>) \<and> Q' x' d" by blast
qed

lemma mount_runs:
  assumes x0: "lw_start s0 x0" and op: "opens U dv ready img s"
    and img: "2048 \<le> length img" "mountable (sb_of img)" "ext4_sb_get_block_size (sb_of img) = Some bs" "unat bs = img_n img" "bs \<le> EXT4_MAX_BLOCK_SIZE"
  shows "runs (checksum_type s) (lw_mount (lw_ops U junk mal cal d0) dv) (\<lambda>x d. x = x0 \<and> d = dev s) True
    (\<lambda>x d. lw_at U ready dv img (checksum_type s) 0 x d \<and> length (lw_buf x) = 0x3000)"
  unfolding runs_def
proof (intro allI impI, elim conjE)
  fix x and h :: "'a st" assume h: "checksum_type h = checksum_type s" "x = x0" "dev h = dev s"
  let ?w = "lwext4_init (\<lambda>_. phone_dev s0) (phone_dev s0)"
  have x: "lw x = ?w" using x0 h(2) by (simp add: lw_start_def)
  have "opens U dv ready img h" using op opens_cong[OF h(1,3)] by simp
  from phone_init_ok[OF this, of junk] obtain b where b: "ext4_block_init (phone_ops U junk dv) (phone_dev h) = Some (EOK, b)"
    "dev_ok (phone_ok U ready img dv h) (\<lambda>_. img) 512 b" "ph_refctr b = 1" "part_offset b = 0" "part_size b = 2 ^ 32" by blast
  have len: "length img \<le> 2 ^ 32" using op by (auto simp: opens_def flash_ok_def)
  note br = block_size_range[OF img(3,5)]
  have "\<exists>w' cd. test_lwext4_mount (phone_ops U junk) dv ?w h = Some (True, w', drv (bdv cd)) \<and> mp_holds dv (mounted_fs (sb_of img) cd) w' (drv (bdv cd)) \<and>
    on_disk (\<lambda>d. dev_ok (phone_ok U ready img dv h) (\<lambda>_. img) 512 d \<and> lb_ok (\<lambda>_. img) 512 (img_N img) d) (part_block (\<lambda>_. img))
       (img_N img) (unat bs) 0 (img_block img (unat bs)) (\<lambda>_. 0) (mounted_fs (sb_of img) cd)"
  proof (rule phone.test_mount_ok[where opsf = "phone_ops U junk" and i = dv])
    show "ext4_block_init (phone_ops U junk dv) ((blockdevs ?w dv)\<lparr>drv := h\<rparr>) = Some (EOK, b)"
      using b(1) by (simp add: lwext4_init_def phone_dev_def)
    show "bdevices ?w = \<lparr>dev_name = [], dev_bd = None\<rparr> # [\<lparr>dev_name = [], dev_bd = None\<rparr>]"
      by (simp add: lwext4_init_def CONFIG_EXT4_BLOCKDEVS_COUNT_def numeral_2_eq_2)
    let ?mp = "\<lparr>mounted = False, mp_name = [], mp_fs = zero_fs (phone_dev s0), mp_bdev = None, cache_dynamic = False\<rparr>"
    show "mps ?w = ?mp # [?mp]" by (simp add: lwext4_init_def CONFIG_EXT4_MOUNTPOINTS_COUNT_def numeral_2_eq_2)
    show "\<forall>i\<ge>1024. fs_sb (mp_fs ?mp) i = 0" "last_inode_bg_id (mp_fs ?mp) = 0" by (simp_all add: zero_fs_def)
    show "length img \<le> unat (part_size b)" using len b(5) by simp
    show "img_N img = of_nat (length img div unat bs)" by (simp add: img_N_def img(4))
  qed (use b img br(3) in simp_all)
  then obtain w' cd where m: "test_lwext4_mount (phone_ops U junk) dv ?w h = Some (True, w', drv (bdv cd))"
    "mp_holds dv (mounted_fs (sb_of img) cd) w' (drv (bdv cd))" "shows_img U ready dv img h 0 (mounted_fs (sb_of img) cd)"
    unfolding shows_img_def img(4) by blast
  from lw_atI[of dv img cd "x\<lparr>lw := w'\<rparr>", OF _ m(3) h(1)] m(2) obtain d mm where
    e: "drv (bdv cd) = h\<lparr>dev := d, data_buffer := mm\<rparr>" "lw_at U ready dv img (checksum_type s) 0 (x\<lparr>lw := w'\<rparr>) d" by auto
  show "\<exists>x' d m. lw_mount (lw_ops U junk mal cal d0) dv x h = Some (True, x', h\<lparr>dev := d, data_buffer := m\<rparr>) \<and>
      lw_at U ready dv img (checksum_type s) 0 x' d \<and> length (lw_buf x') = 0x3000"
    using m(1) e x x0 h(2) by (intro exI[of _ "x\<lparr>lw := w'\<rparr>"] exI[of _ d] exI[of _ mm]) (simp add: lw_ops_def lw_start_def)
qed

lemma umount_runs:
  assumes close: "\<And>d. ready d \<Longrightarrow> \<exists>d'. acks U ct (bsl BSL_CMD_READ_FLASH_END) d d'"
  shows "runs ct (lw_umount (lw_ops U junk mal cal d0)) (\<lambda>x d. \<exists>k. lw_at U ready dv img ct k x d) True (\<lambda>_ _. True)"
  unfolding runs_def
proof (intro allI impI, elim exE)
  fix x and h :: "'a st" and k assume h: "checksum_type h = ct" "lw_at U ready dv img ct k x (dev h)"
  from lw_atD[OF h(2,1)] obtain cd where cd: "mp_holds dv (mounted_fs (sb_of img) cd) (lw x) h" "shows_img U ready dv img h k (mounted_fs (sb_of img) cd)" by blast
  have "\<exists>w' s'. test_lwext4_umount (phone_ops U junk) (lw x) h = Some (True, w', s') \<and> (\<exists>d m. s' = h\<lparr>dev := d, data_buffer := m\<rparr>)"
  proof (rule phone.test_umount_ok[where opsf = "phone_ops U junk" and i = dv, OF refl cd(1) cd(2)[unfolded shows_img_def]])
    fix bd :: "'a st bdev" assume ok: "phone_ok U ready img dv h (drv bd)"
    then obtain d m where d: "drv bd = h\<lparr>dev := d, data_buffer := m\<rparr>" "ready (dev (drv bd))" by (auto simp: phone_ok_def flash_ok_def)
    from close[OF d(2)] obtain d' where "acks U (checksum_type (drv bd)) (bsl BSL_CMD_READ_FLASH_END) (dev (drv bd)) d'" using d(1) h(1) by auto
    from send_end_ok[OF this] d(1) show "\<exists>s'. p_close (phone_ops U junk dv) bd = Some (EOK, bd\<lparr>drv := s'\<rparr>) \<and> (\<exists>d m. s' = h\<lparr>dev := d, data_buffer := m\<rparr>)"
      by (auto simp: phone_ops_def blockdev_close_def EOK_def)
  next
    fix s assume "phone_ok U ready img dv h s"
    then show "\<exists>d m. s = h\<lparr>dev := d, data_buffer := m\<rparr>" by (simp add: phone_ok_def)
  qed
  then show "\<exists>x' d m. lw_umount (lw_ops U junk mal cal d0) x h = Some (True, x', h\<lparr>dev := d, data_buffer := m\<rparr>) \<and> True"
    by (auto simp: lw_ops_def)
qed

text \<open>A file of the image: what \<open>file_at\<close> says, for the mounted file system and any allocator that does not fail.\<close>

definition walk_ops :: "nat \<Rightarrow> byte list list \<Rightarrow> nat" where
  "walk_ops C ns = (18 * C + 5) * length ns + 4"

definition file_desc :: "byte list \<Rightarrow> u32 \<Rightarrow> nat \<Rightarrow> mfile" where
  "file_desc img target p = (0, \<lparr>f_mp = True, f_inode = target, f_flags = O_RDONLY,
     fsize = ext4_inode_get_size (sb_of img) (inode_at (sb_of img) (img_block img (img_n img)) target), fpos = of_nat p\<rparr>)"

lemma file_at_mounted:
  assumes "file_at C img ns target bl c" "mal_ok (img_n img) mal" "\<forall>d. cal d"
  defines "sb \<equiv> sb_of img" and "n \<equiv> img_n img" and "D \<equiv> img_block img (img_n img)"
  shows "ext4_sb_feature_incom sb EXT4_FINCOM_FILETYPE" "ns \<noteq> []"
    "path_ok EXT4_DE_REG_FILE (img_N img) n (n div 4) D mal cal C (mounted_fs sb cd) EXT4_INODE_ROOT_INDEX ns target"
    "can_map (img_N img) n (n div 4) D mal cal target bl (mounted_fs sb cd)" "bl < 2 ^ 32 - 1"
    "unat (ext4_inode_get_size sb (inode_at sb D target)) \<le> bl * n" "length c = unat (ext4_inode_get_size sb (inode_at sb D target))"
    "\<not> ext4_inode_is_type sb (inode_at sb D target) EXT4_INODE_MODE_SOFTLINK"
    "c = take (length c) (file_data sb D (n div 4) (inode_at sb D target) bl)"
proof -
  let ?mal = "\<lambda>_ _. Some (replicate n 0)" and ?cal = "\<lambda>_ :: u16. True" and ?fz = "ext4_inode_get_size sb (inode_at sb D target)"
  let ?F = "file_data sb D (n div 4) (inode_at sb D target) bl"
  have N: "img_N img = of_nat (length img div n)" by (simp add: img_N_def n_def)
  have lev: "fs_sb (mounted_fs sb cd) = fs_sb (mounted_fs sb some_cdev)"
    "inode_block_limits (mounted_fs sb cd) = inode_block_limits (mounted_fs sb some_cdev)"
    "inode_blocks_per_level (mounted_fs sb cd) = inode_blocks_per_level (mounted_fs sb some_cdev)" by (simp_all add: mounted_fs_def Let_def)
  have f: "ext4_sb_feature_incom sb EXT4_FINCOM_FILETYPE" "ns \<noteq> []"
    "path_ok EXT4_DE_REG_FILE (img_N img) n (n div 4) D ?mal ?cal C (mounted_fs sb some_cdev) EXT4_INODE_ROOT_INDEX ns target"
    "can_map (img_N img) n (n div 4) D ?mal ?cal target bl (mounted_fs sb some_cdev)" "bl < 2 ^ 32 - 1" "unat ?fz \<le> bl * n"
    "\<not> ext4_inode_is_type sb (inode_at sb D target) EXT4_INODE_MODE_SOFTLINK" "c = take (unat ?fz) ?F"
    using assms(1) unfolding file_at_def Let_def sb_def[symmetric] n_def[unfolded img_n_def, folded sb_def, symmetric] D_def[folded n_def, symmetric] N[symmetric]
    by blast+
  show "ext4_sb_feature_incom sb EXT4_FINCOM_FILETYPE" "ns \<noteq> []" "bl < 2 ^ 32 - 1" "unat ?fz \<le> bl * n"
    "\<not> ext4_inode_is_type sb (inode_at sb D target) EXT4_INODE_MODE_SOFTLINK" by fact+
  show "path_ok EXT4_DE_REG_FILE (img_N img) n (n div 4) D mal cal C (mounted_fs sb cd) EXT4_INODE_ROOT_INDEX ns target"
    by (rule path_ok_transfer[OF f(3) assms(2)[folded n_def] assms(3) lev])
  show "can_map (img_N img) n (n div 4) D mal cal target bl (mounted_fs sb cd)"
    by (rule can_map_transfer[OF f(4) assms(2)[folded n_def] assms(3) lev])
  have "length ?F = bl * n" unfolding file_data_def
    by (subst length_blocks[of 0 bl _ n]) (use f(4) in \<open>auto simp: can_map_def file_ok_def\<close>)
  then show "length c = unat ?fz" using f(6,8) by simp
  with f(8) show "c = take (length c) ?F" by simp
qed

lemma fopen_runs:
  assumes fl: "file_at C img ns target bl c" and mal: "mal_ok (img_n img) mal" "\<forall>d. cal d" and path: "ascii path = 0x2f # join_path ns"
    and k: "walk_ops C ns + 30 < 2 ^ 32"
  shows "runs ct (lw_fopen (lw_ops U junk mal cal d0) path) (\<lambda>x d. lw_at U ready dv img ct 0 x d \<and> length (lw_buf x) = 0x3000) 0
    (\<lambda>x d. lw_file x = file_desc img target 0 \<and> length (lw_buf x) = 0x3000 \<and> lw_at U ready dv img ct (walk_ops C ns) x d)"
  unfolding runs_def
proof (intro allI impI, elim conjE)
  fix x and h :: "'a st" assume h: "checksum_type h = ct" "lw_at U ready dv img ct 0 x (dev h)" "length (lw_buf x) = 0x3000"
  let ?sb = "sb_of img" and ?n = "img_n img" and ?D = "img_block img (img_n img)"
  from lw_atD[OF h(2,1)] obtain cd where cd: "mp_holds dv (mounted_fs ?sb cd) (lw x) h" "shows_img U ready dv img h 0 (mounted_fs ?sb cd)" by blast
  note f = file_at_mounted[OF fl mal]
  have ino: "inode_ok ?sb (img_N img) ?D target" using f(4)[of cd] by (simp add: can_map_def)
  from phone.fopen_ok[where opsf = "phone_ops U junk" and i = dv, OF refl cd(1) cd(2)[unfolded shows_img_def] f(1) f(3) f(2) ino, of "lw_file x"] k
  obtain w' cd' where o: "ext4_fopen (phone_ops U junk) mal cal (lw_file x) (0x2f # join_path ns) ''rb'' (lw x) h = Some (EOK, file_desc img target 0, w', drv (bdv cd'))"
    "mp_holds dv (mounted_fs ?sb cd') w' (drv (bdv cd'))" "shows_img U ready dv img h (walk_ops C ns) (mounted_fs ?sb cd')"
    by (auto simp: shows_img_def walk_ops_def file_desc_def)
  let ?x = "x\<lparr>lw := w', lw_file := file_desc img target 0\<rparr>"
  from lw_atI[of dv img cd' ?x, OF _ o(3) h(1)] o(2) obtain d m where
    e: "drv (bdv cd') = h\<lparr>dev := d, data_buffer := m\<rparr>" "lw_at U ready dv img ct (walk_ops C ns) ?x d" by auto
  show "\<exists>x' d m. lw_fopen (lw_ops U junk mal cal d0) path x h = Some (0, x', h\<lparr>dev := d, data_buffer := m\<rparr>) \<and>
      lw_file x' = file_desc img target 0 \<and> length (lw_buf x') = 0x3000 \<and> lw_at U ready dv img ct (walk_ops C ns) x' d"
    using o(1) e h(3) path by (intro exI[of _ ?x] exI[of _ d] exI[of _ m]) (simp add: lw_ops_def EOK_def)
qed


text \<open>Reading in pieces of 0x3000 bytes: at most 252 operations on the cache for each piece.\<close>

definition read_ops :: "nat \<Rightarrow> nat" where
  "read_ops p = 252 * ((p + 0x2fff) div 0x3000)"

definition lw_pos :: "'d usb \<Rightarrow> ('d \<Rightarrow> bool) \<Rightarrow> bdev_id \<Rightarrow> byte list \<Rightarrow> byte \<Rightarrow> nat \<Rightarrow> u32 \<Rightarrow> nat \<Rightarrow> 'd lwx \<Rightarrow> 'd \<Rightarrow> nat \<Rightarrow> bool" where
  "lw_pos U ready dv img ct W target sz x d p \<longleftrightarrow>
     (p mod 0x3000 = 0 \<or> p = sz) \<and> lw_file x = file_desc img target p \<and> length (lw_buf x) = 0x3000 \<and>
     lw_at U ready dv img ct (W + read_ops p) x d"

lemma shows_img_mono: "shows_img U ready dv img h k fs \<Longrightarrow> k \<le> k' \<Longrightarrow> shows_img U ready dv img h k' fs"
  unfolding shows_img_def by (rule on_disk_mono)

lemma lw_at_mono: "lw_at U ready dv img ct k x d \<Longrightarrow> k \<le> k' \<Longrightarrow> lw_at U ready dv img ct k' x d"
  unfolding lw_at_def Let_def by (blast intro: shows_img_mono)

lemma read_ops_step: "p mod 0x3000 = 0 \<Longrightarrow> 0 < l \<Longrightarrow> read_ops p + 252 \<le> read_ops (p + l)"
proof -
  assume p: "p mod 0x3000 = 0" "0 < l"
  then have "p div 0x3000 + 1 = (p + 0x3000) div 0x3000" "(p + 0x3000) div 0x3000 \<le> (p + l + 0x2fff) div 0x3000" by (auto intro: div_le_mono)
  moreover have "(p + 0x2fff) div 0x3000 = p div 0x3000" using p(1) by (simp add: div_add1_eq)
  ultimately show ?thesis by (simp add: read_ops_def)
qed

lemma read_ops_bound: "p < 2 ^ 32 \<Longrightarrow> read_ops p + 252 \<le> 2 ^ 27"
  by (simp add: read_ops_def)

lemma fread_runs:
  assumes fl: "file_at C img ns target bl c" and mal: "mal_ok (img_n img) mal" "\<forall>d. cal d"
    and W: "W < 2 ^ 31" and sz: "length c < 2 ^ 32"
  shows "reads_file ct (lw_fread (lw_ops U junk mal cal d0) 0x3000) (lw_pos U ready dv img ct W target (length c))
    (\<lambda>x d. f_mp (snd (lw_file x)) \<and> (\<exists>k. lw_at U ready dv img ct k x d)) c"
  unfolding reads_file_def
proof (intro allI impI)
  fix x and h :: "'a st" and p
  assume h: "checksum_type h = ct" "lw_pos U ready dv img ct W target (length c) x (dev h) p" "p \<le> length c"
  let ?sb = "sb_of img" and ?n = "img_n img" and ?D = "img_block img (img_n img)"
  let ?f = "snd (file_desc img target p)" and ?l = "min 0x3000 (length c - p)" and ?F = "file_data ?sb ?D (?n div 4) (inode_at ?sb ?D target) bl"
  let ?fz = "ext4_inode_get_size ?sb (inode_at ?sb ?D target)"
  note pos = h(2)[unfolded lw_pos_def]
  from lw_atD[OF conjunct2[OF conjunct2[OF conjunct2[OF pos]]] h(1)] obtain cd where
    cd: "mp_holds dv (mounted_fs ?sb cd) (lw x) h" "shows_img U ready dv img h (W + read_ops p) (mounted_fs ?sb cd)" by blast
  note f = file_at_mounted[OF fl mal]
  obtain bs where bs: "ext4_sb_get_block_size ?sb = Some bs" "unat bs = ?n" "bs \<le> EXT4_MAX_BLOCK_SIZE" using img_facts(3)[OF fl] by blast
  have n: "1024 \<le> ?n" using block_size_range[OF bs(1,3)] bs(2) by simp
  have up: "unat (of_nat p :: u64) = p" using h(3) sz by (simp add: unat_of_nat)
  have ln: "?l div ?n \<le> 12"
  proof -
    have "?l div ?n \<le> 0x3000 div 1024" by (rule order_trans[OF div_le_mono div_le_mono2]) (use n in simp_all)
    then show ?thesis by simp
  qed
  have k: "W + read_ops p + 60 + 16 * (?l div ?n) < 2 ^ 32" using ln W read_ops_bound[of p] h(3) sz by simp
  have "\<exists>w' cd'. mp_fread (phone_ops U junk) mal cal (0, ?f) (lw_buf x) 0x3000 (lw_rcnt x) (lw x) h =
      Some ((EOK, take ?l (drop (unat (fpos ?f)) ?F) @ drop ?l (lw_buf x), of_nat ?l, 0, ?f\<lparr>fsize := ?fz, fpos := fpos ?f + of_nat ?l\<rparr>), w', drv (bdv cd')) \<and>
    mp_holds dv (mounted_fs ?sb cd') w' (drv (bdv cd')) \<and> shows_img U ready dv img h (W + read_ops p + 60 + 16 * (?l div ?n)) (mounted_fs ?sb cd')"
    unfolding shows_img_def
  proof (rule phone.mp_fread_ok[where opsf = "phone_ops U junk" and i = dv, OF refl cd(1) cd(2)[unfolded shows_img_def] _ _ _ _ _ bs(1,2) _ _ _ _ _ _ _ _ k])
    show "can_map (img_N img) ?n (?n div 4) ?D mal cal (f_inode ?f) bl (mounted_fs ?sb cd)" using f(4) by (simp add: file_desc_def)
    show "fpos ?f \<le> ?fz" using h(3) f(7) up by (simp add: file_desc_def word_le_nat_alt)
    show "?l = min (unat (0x3000 :: u64)) (unat ?fz - unat (fpos ?f))" using up f(7) by (simp add: file_desc_def)
  qed (use f(5-8) n pos in \<open>simp_all add: file_desc_def O_RDONLY_def\<close>)
  then obtain w' cd' where r: "mp_fread (phone_ops U junk) mal cal (0, ?f) (lw_buf x) 0x3000 (lw_rcnt x) (lw x) h =
      Some ((EOK, take ?l (drop p ?F) @ drop ?l (lw_buf x), of_nat ?l, file_desc img target (p + ?l)), w', drv (bdv cd'))"
    "mp_holds dv (mounted_fs ?sb cd') w' (drv (bdv cd'))" "shows_img U ready dv img h (W + read_ops p + 60 + 16 * (?l div ?n)) (mounted_fs ?sb cd')"
    by (auto simp: file_desc_def up)
  let ?buf = "take ?l (drop p ?F) @ drop ?l (lw_buf x)"
  let ?x = "x\<lparr>lw := w', lw_file := file_desc img target (p + ?l), lw_buf := ?buf, lw_rcnt := of_nat ?l\<rparr>"
  have piece: "take ?l (drop p ?F) = take 0x3000 (drop p c)"
  proof -
    have "drop p c = take (length c - p) (drop p ?F)" using arg_cong[OF f(9), of "drop p"] by (simp add: drop_take)
    then show ?thesis by (simp only: take_take)
  qed
  then have lb: "length (take ?l (drop p ?F)) = ?l" "length ?buf = 0x3000" using pos by auto
  have k2: "W + read_ops p + 60 + 16 * (?l div ?n) \<le> W + (read_ops p + 252)" using ln by simp
  from lw_atI[of dv img cd' ?x, OF _ shows_img_mono[OF r(3) k2] h(1)] r(2) obtain d m where
    e: "drv (bdv cd') = h\<lparr>dev := d, data_buffer := m\<rparr>" "lw_at U ready dv img ct (W + (read_ops p + 252)) ?x d" by auto
  have call: "lw_fread (lw_ops U junk mal cal d0) 0x3000 x h = Some (0, take 0x3000 (drop p c), ?x, h\<lparr>dev := d, data_buffer := m\<rparr>)"
  proof -
    have "take (unat (of_nat ?l :: u64)) ?buf = take 0x3000 (drop p c)"
    proof -
      have "unat (of_nat ?l :: u64) = ?l" by (simp add: unat_of_nat)
      moreover have "take (length A) (A @ B) = A" for A B :: "byte list" by simp
      ultimately show ?thesis using lb(1) piece by metis
    qed
    moreover have "lw_file x = (0, ?f)" using pos by (simp add: file_desc_def)
    ultimately show ?thesis using r(1) e(1) by (simp add: lw_ops_def EOK_def)
  qed
  show "\<exists>n x' d m. lw_fread (lw_ops U junk mal cal d0) 0x3000 x h = Some (0, take n (drop p c), x', h\<lparr>dev := d, data_buffer := m\<rparr>) \<and>
      (if p < length c then 0 < n \<and> lw_pos U ready dv img ct W target (length c) x' d (p + length (take n (drop p c)))
       else f_mp (snd (lw_file x')) \<and> (\<exists>k. lw_at U ready dv img ct k x' d))"
  proof (cases "p < length c")
    case True
    then have p: "p mod 0x3000 = 0" "0 < ?l" using pos by auto
    then have "lw_at U ready dv img ct (W + read_ops (p + ?l)) ?x d" using lw_at_mono[OF e(2)] read_ops_step[OF p] by simp
    moreover have "(p + ?l) mod 0x3000 = 0 \<or> p + ?l = length c" using p(1) True by (auto simp: min_def)
    moreover have "length (take 0x3000 (drop p c)) = ?l" by simp
    ultimately have "lw_pos U ready dv img ct W target (length c) ?x d (p + length (take 0x3000 (drop p c)))"
      unfolding lw_pos_def using lb(2) by simp
    with call True show ?thesis by (intro exI[of _ "0x3000"] exI[of _ ?x] exI[of _ d] exI[of _ m]) simp
  next
    case False
    with call e(2) show ?thesis by (intro exI[of _ "0x3000"] exI[of _ ?x] exI[of _ d] exI[of _ m]) (auto simp: file_desc_def)
  qed
qed


lemma fclose_runs:
  "runs ct (lw_fclose (lw_ops U junk mal cal d0)) (\<lambda>x d. f_mp (snd (lw_file x)) \<and> (\<exists>k. lw_at U ready dv img ct k x d)) EOK
     (\<lambda>x d. \<exists>k. lw_at U ready dv img ct k x d)"
  unfolding runs_def
proof (intro allI impI, elim conjE exE)
  fix x and h :: "'a st" and k assume h: "f_mp (snd (lw_file x))" "lw_at U ready dv img ct k x (dev h)"
  let ?x = "x\<lparr>lw_file := (fst (lw_file x), \<lparr>f_mp = False, f_inode = 0, f_flags = 0, fsize = 0, fpos = 0\<rparr>)\<rparr>"
  have "lw_at U ready dv img ct k ?x (dev h)" using h(2) lw_at_cong[of ?x x] by simp
  then show "\<exists>x' d m. lw_fclose (lw_ops U junk mal cal d0) x h = Some (EOK, x', h\<lparr>dev := d, data_buffer := m\<rparr>) \<and> (\<exists>k. lw_at U ready dv img ct k x' d)"
    using h(1) by (intro exI[of _ ?x] exI[of _ "dev h"] exI[of _ "data_buffer h"]) (auto simp: lw_ops_def ext4_fclose_def)
qed

lemma phone_serves_file:
  assumes x0: "lw_start s0 x0" and op: "opens U dv ready img s"
    and close: "\<And>d. ready d \<Longrightarrow> \<exists>d'. acks U (checksum_type s) (bsl BSL_CMD_READ_FLASH_END) d d'"
    and fl: "file_at C img ns target bl c" and mal: "mal_ok (img_n img) mal" "\<forall>d. cal d" and path: "ascii path = 0x2f # join_path ns"
    and W: "walk_ops C ns < 2 ^ 31" and sz: "length c < 2 ^ 32"
  shows "serves_file (lw_ops U junk mal cal d0) (checksum_type s) dv path x0 (dev s) c"
proof -
  let ?L = "lw_ops U junk mal cal d0" and ?ct = "checksum_type s" and ?W = "walk_ops C ns"
  let ?pos = "lw_pos U ready dv img ?ct ?W target (length c)"
  obtain bs where bs: "ext4_sb_get_block_size (sb_of img) = Some bs" "unat bs = img_n img" "bs \<le> EXT4_MAX_BLOCK_SIZE" using img_facts(3)[OF fl] by blast
  have mount: "runs ?ct (lw_mount ?L dv) (\<lambda>x d. x = x0 \<and> d = dev s) True (\<lambda>x d. lw_at U ready dv img ?ct 0 x d \<and> length (lw_buf x) = 0x3000)"
    by (rule mount_runs[OF x0 op img_facts(1,2)[OF fl] bs])
  have at0: "?pos x d 0 \<and> lw_fsize ?L x = of_nat (length c)"
    if "lw_file x = file_desc img target 0" "length (lw_buf x) = 0x3000" "lw_at U ready dv img ?ct ?W x d" for x d
    using that file_at_mounted(7)[OF fl mal] by (simp add: lw_pos_def read_ops_def lw_ops_def file_desc_def ext4_fsize_def)
  have fopen: "runs ?ct (lw_fopen ?L path) (\<lambda>x d. lw_at U ready dv img ?ct 0 x d \<and> length (lw_buf x) = 0x3000) 0
      (\<lambda>x d. ?pos x d 0 \<and> lw_fsize ?L x = of_nat (length c))"
    by (rule runs_weaken[OF fopen_runs[OF fl mal path]]) (use W at0 in auto)
  show ?thesis unfolding serves_file_def
    by (intro exI conjI, rule mount, rule fopen, rule fread_runs[OF fl mal W sz], rule fclose_runs, rule umount_runs[OF close])
qed

section \<open>Listing a directory\<close>

lemma dir_at_mounted:
  assumes "dir_at C img ns index es" "mal_ok (img_n img) mal" "\<forall>d. cal d"
  defines "sb \<equiv> sb_of img" and "n \<equiv> img_n img" and "D \<equiv> img_block img (img_n img)"
  shows "2048 \<le> length img" "mountable sb" "ext4_sb_feature_incom sb EXT4_FINCOM_FILETYPE" "es = entries_of sb n D index"
    "path_ok EXT4_DE_DIR (img_N img) n (n div 4) D mal cal C (mounted_fs sb cd) EXT4_INODE_ROOT_INDEX ns index"
    "list_ok (img_N img) n D mal cal index (mounted_fs sb cd)"
proof -
  let ?mal = "\<lambda>_ _. Some (replicate n 0)" and ?cal = "\<lambda>_ :: u16. True"
  have N: "img_N img = of_nat (length img div n)" by (simp add: img_N_def n_def)
  have f: "2048 \<le> length img" "mountable sb" "ext4_sb_feature_incom sb EXT4_FINCOM_FILETYPE"
    "path_ok EXT4_DE_DIR (img_N img) n (n div 4) D ?mal ?cal C (mounted_fs sb some_cdev) EXT4_INODE_ROOT_INDEX ns index"
    "list_ok (img_N img) n D ?mal ?cal index (mounted_fs sb some_cdev)" "es = entries_of sb n D index"
    using assms(1) unfolding dir_at_def Let_def sb_def[symmetric] n_def[unfolded img_n_def, folded sb_def, symmetric] D_def[folded n_def, symmetric] N[symmetric]
    by blast+
  show "2048 \<le> length img" "mountable sb" "ext4_sb_feature_incom sb EXT4_FINCOM_FILETYPE" "es = entries_of sb n D index" by fact+
  show "list_ok (img_N img) n D mal cal index (mounted_fs sb cd)" by (rule list_ok_transfer[OF f(5) assms(2)[folded n_def] assms(3)])
  show "path_ok EXT4_DE_DIR (img_N img) n (n div 4) D mal cal C (mounted_fs sb cd) EXT4_INODE_ROOT_INDEX ns index"
    by (rule path_ok_transfer[OF f(4) assms(2)[folded n_def] assms(3)]) (simp_all add: mounted_fs_def Let_def)
qed

lemma ls_runs:
  assumes fl: "dir_at C img ns index es" and mal: "mal_ok (img_n img) mal" "\<forall>d. cal d" and path: "ascii path = 0x2f # join_path ns"
    and k: "(18 * C + 5) * length ns + 41 * length es + 80 < 2 ^ 32"
    and h: "checksum_type h = ct" "lw_at U ready dv img ct 0 x (dev h)"
  shows "\<exists>x' d m. lw_dir_ls (lw_ops U junk mal cal d0) path x h = Some (concat (map (dir_line (sb_of img)) (listed es 0)), x', h\<lparr>dev := d, data_buffer := m\<rparr>) \<and>
    (\<exists>k. lw_at U ready dv img ct k x' d)"
proof -
  let ?sb = "sb_of img" and ?n = "img_n img" and ?D = "img_block img (img_n img)" and ?out = "concat (map (dir_line (sb_of img)) (listed es 0))"
  let ?K = "0 + (18 * C + 5) * length ns + 41 * length es + 27"
  from lw_atD[OF h(2,1)] obtain cd where cd: "mp_holds dv (mounted_fs ?sb cd) (lw x) h" "shows_img U ready dv img h 0 (mounted_fs ?sb cd)" by blast
  note f = dir_at_mounted[OF fl mal]
  from phone.dir_ls_ok[where opsf = "phone_ops U junk" and i = dv and ?d0.0 = d0, OF refl cd(1) f(3) cd(2)[unfolded shows_img_def] f(6) f(5) f(4)] k
  obtain w' cd' where o: "test_lwext4_dir_ls (phone_ops U junk) mal cal d0 (0x2f # join_path ns) (lw x) h = Some (?out, w', drv (bdv cd'))"
    "mp_holds dv (mounted_fs ?sb cd') w' (drv (bdv cd'))" "shows_img U ready dv img h ?K (mounted_fs ?sb cd')"
    by (auto simp: shows_img_def)
  let ?x = "x\<lparr>lw := w'\<rparr>"
  from lw_atI[of dv img cd' ?x, OF _ o(3) h(1)] o(2) obtain d m where
    e: "drv (bdv cd') = h\<lparr>dev := d, data_buffer := m\<rparr>" "lw_at U ready dv img ct ?K ?x d" by auto
  show ?thesis using o(1) e path by (intro exI[of _ ?x] exI[of _ d] exI[of _ m]) (auto simp: lw_ops_def)
qed

lemma phone_lists:
  assumes route: "ext4_route path = (dv, red)" and x0: "lw_start s0 x0" and op: "opens U dv ready img s"
    and close: "\<And>d. ready d \<Longrightarrow> \<exists>d'. acks U (checksum_type s) (bsl BSL_CMD_READ_FLASH_END) d d'"
    and fl: "dir_at C img ns index es" and mal: "mal_ok (img_n img) mal" "\<forall>d. cal d" and red: "ascii red = 0x2f # join_path ns"
    and k: "(18 * C + 5) * length ns + 41 * length es + 80 < 2 ^ 32"
  shows "\<exists>x d m. sprd_ls_ext4fs (lw_ops U junk mal cal d0) path x0 s =
    Some (0, concat (map (dir_line (sb_of img)) (listed es 0)), x, s\<lparr>dev := d, data_buffer := m\<rparr>)"
proof (rule sprd_ls_ext4fs_ok[OF route])
  note f = dir_at_mounted(1,2)[OF fl mal]
  obtain bs where bs: "ext4_sb_get_block_size (sb_of img) = Some bs" "unat bs = img_n img" "bs \<le> EXT4_MAX_BLOCK_SIZE"
    using f(2) by (auto simp: mountable_def img_n_def)
  show "runs (checksum_type s) (lw_mount (lw_ops U junk mal cal d0) dv) (\<lambda>x d. x = x0 \<and> d = dev s) True
      (\<lambda>x d. lw_at U ready dv img (checksum_type s) 0 x d \<and> length (lw_buf x) = 0x3000)"
    by (rule mount_runs[OF x0 op f bs])
  show "runs (checksum_type s) (lw_umount (lw_ops U junk mal cal d0)) (\<lambda>x d. \<exists>k. lw_at U ready dv img (checksum_type s) k x d) True (\<lambda>_ _. True)"
    by (rule umount_runs[OF close])
  fix x and s' :: "'a st" assume s': "checksum_type s' = checksum_type s" "lw_at U ready dv img (checksum_type s) 0 x (dev s') \<and> length (lw_buf x) = 0x3000"
  show "\<exists>x' d m. lw_dir_ls (lw_ops U junk mal cal d0) red x s' = Some (concat (map (dir_line (sb_of img)) (listed es 0)), x', s'\<lparr>dev := d, data_buffer := m\<rparr>) \<and>
      (\<exists>k. lw_at U ready dv img (checksum_type s) k x' d)"
    by (rule ls_runs[OF fl mal red k s'(1) conjunct1[OF s'(2)]])
qed

end
