(* ===== verification/Ext4_Image.thy ===== *)
theory Ext4_Image
  imports Ext4_List
begin

text \<open>
  A small ext4 image, eight blocks of 1 KiB, with a directory \<open>etc\<close> and a file \<open>etc/motd\<close> in it. It shows that
  the conditions on an image can hold, and the results about the file commands are applied to it.
\<close>

section \<open>Definitions\<close>

definition sparse :: "(nat \<times> byte) list \<Rightarrow> byte list" where
  "sparse u = map (\<lambda>i. case map_of u i of None \<Rightarrow> 0 | Some b \<Rightarrow> b) [0..<1024]"

text \<open>16 inodes of 128 bytes, first data block 1, 8192 blocks in a group, revision 1, entries with file types.\<close>

definition img_super :: "byte list" where
  "img_super = sparse [(0, 16), (4, 8), (20, 1), (33, 0x20), (40, 16), (56, 0x53), (57, 0xef), (76, 1), (84, 11), (88, 128), (96, 2)]"

text \<open>The inode table of the only group starts at block 3.\<close>

definition img_desc :: "byte list" where "img_desc = sparse [(8, 3)]"

text \<open>Inodes 1 to 8: the root directory is 2, one block, at block 5. Inodes 9 to 16: 11 is the directory, at
  block 6, and 12 the file of five bytes, at block 7.\<close>

definition img_inodes1 :: "byte list" where
  "img_inodes1 = sparse [(128, 0xed), (129, 0x41), (133, 4), (168, 5)]"

definition img_inodes2 :: "byte list" where
  "img_inodes2 = sparse [(256, 0xed), (257, 0x41), (261, 4), (296, 6), (384, 0xa4), (385, 0x81), (388, 5), (424, 7)]"

definition img_root :: "byte list list" where
  "img_root = [[2, 0, 0, 0, 12, 0, 1, 2, 46, 0, 0, 0], [2, 0, 0, 0, 12, 0, 2, 2, 46, 46, 0, 0],
     [11, 0, 0, 0, 0xe8, 3, 3, 2, 0x65, 0x74, 0x63] @ replicate 989 0]"

definition img_etc :: "byte list list" where
  "img_etc = [[11, 0, 0, 0, 12, 0, 1, 2, 46, 0, 0, 0], [2, 0, 0, 0, 12, 0, 2, 2, 46, 46, 0, 0],
     [12, 0, 0, 0, 0xe8, 3, 4, 1, 0x6d, 0x6f, 0x74, 0x64] @ replicate 988 0]"

definition hello :: "byte list" where "hello = [0x68, 0x65, 0x6c, 0x6c, 0x6f]"

definition img_blocks :: "byte list list" where
  "img_blocks = [replicate 1024 0, img_super, img_desc, img_inodes1, img_inodes2, concat img_root, concat img_etc,
     hello @ replicate 1019 0]"

definition img0 :: "byte list" where "img0 = concat img_blocks"

section \<open>Blocks of the image\<close>

lemma length_sparse [simp]: "length (sparse u) = 1024"
  by (simp add: sparse_def)

lemma sparse_nth [simp]: "i < 1024 \<Longrightarrow> sparse u ! i = (case map_of u i of None \<Rightarrow> 0 | Some b \<Rightarrow> b)"
  by (simp add: sparse_def)

lemmas img_len = img_super_def img_desc_def img_inodes1_def img_inodes2_def img_root_def img_etc_def hello_def

lemma img_block_concat:
  assumes "\<forall>b\<in>set bs. length b = n" "i < length bs" "unat l = i"
  shows "img_block (concat bs) n l = bs ! i"
  unfolding img_block_def assms(3) using assms(1,2)
proof (induction bs arbitrary: i)
  case (Cons b bs)
  then show ?case by (cases i) simp_all
qed simp

lemma img_blocks_len: "\<forall>b\<in>set img_blocks. length b = 1024" "length img_blocks = 8"
  by (simp_all add: img_blocks_def img_len)

lemma length_img0: "length img0 = 8192"
  using length_blocks[of 0 8 "(!) img_blocks" 1024] img_blocks_len
  by (simp add: img0_def map_nth[of img_blocks, unfolded img_blocks_len(2)])

lemma img0_blocks:
  "img_block img0 1024 1 = img_super" "img_block img0 1024 2 = img_desc" "img_block img0 1024 3 = img_inodes1"
  "img_block img0 1024 4 = img_inodes2" "img_block img0 1024 5 = concat img_root" "img_block img0 1024 6 = concat img_etc"
  "img_block img0 1024 7 = hello @ replicate 1019 0"
  using img_block_concat[OF img_blocks_len(1), of _ _, unfolded img_blocks_len(2), folded img0_def, OF _ refl]
  by (simp_all add: img_blocks_def)

lemma img0_block_len: "l < 8 \<Longrightarrow> length (img_block img0 1024 l) = 1024"
  using img_block_concat[OF img_blocks_len(1), of "unat l" l] img_blocks_len by (simp add: img0_def word_less_nat_alt)

lemma sb0_nth: "sb_of img0 i = (if i < 1024 then img_super ! i else 0)"
proof -
  have "take 1024 (drop 1024 img0) = img_super" using img0_blocks(1) by (simp add: img_block_def)
  then show ?thesis by (simp add: sb_of_def mem_put_def img_super_def)
qed

lemmas le_bytes = get16_def get32_def of_le16_def of_be16_def of_le32_def

lemma sb0_fields:
  "inodes_count (sb_of img0) = 16" "ext4_sb_get_blocks_cnt (sb_of img0) = 8" "first_data_block (sb_of img0) = 1"
  "log_block_size (sb_of img0) = 0" "blocks_per_group (sb_of img0) = 0x2000" "inodes_per_group (sb_of img0) = 16"
  "magic (sb_of img0) = 0xef53" "rev_level (sb_of img0) = 1" "first_inode (sb_of img0) = 11" "inode_size (sb_of img0) = 128"
  "features_incompatible (sb_of img0) = 2" "features_compatible (sb_of img0) = 0" "features_read_only (sb_of img0) = 0"
  "ext4_sb_get_desc_size (sb_of img0) = 32" "creator_os (sb_of img0) = 0"
  by (simp_all add: inodes_count_def ext4_sb_get_blocks_cnt_def first_data_block_def log_block_size_def blocks_per_group_def
      inodes_per_group_def magic_def rev_level_def first_inode_def inode_size_def features_incompatible_def features_compatible_def
      features_read_only_def ext4_sb_get_desc_size_def creator_os_def le_bytes sb0_nth img_super_def)

section \<open>The file of the image\<close>

abbreviation "sbi \<equiv> sb_of img0"
abbreviation "Di \<equiv> img_block img0 1024"

lemma sb0_facts:
  "ext4_sb_get_block_size sbi = Some 1024" "mountable sbi" "ext4_sb_feature_incom sbi EXT4_FINCOM_FILETYPE" "\<not> uses_extents sbi inode"
  "\<not> old_rev sbi" "\<not> ext4_sb_feature_com sbi v" "\<not> has_hi sbi"
proof -
  show bs: "ext4_sb_get_block_size sbi = Some 1024" by (simp add: ext4_sb_get_block_size_def sb0_fields)
  show "mountable sbi"
    by (simp add: mountable_def bs ext4_sb_check_def sb0_fields EXT4_SUPERBLOCK_MAGIC_def ext4_sb_verify_csum_def ext4_sb_feature_ro_com_def
        EXT4_MAX_BLOCK_SIZE_def CONFIG_SUPPORTED_FINCOM_def EXT4_FINCOM_META_BG_def EXT4_FINCOM_EXTENTS_def EXT4_FINCOM_FLEX_BG_def EXT4_FINCOM_64BIT_def)
qed (simp_all add: ext4_sb_feature_incom_def uses_extents_def old_rev_def ext4_sb_feature_com_def has_hi_def sb0_fields
    EXT4_FINCOM_FILETYPE_def EXT4_FINCOM_EXTENTS_def)

lemma desc0: "desc_block sbi 0 = Some 2" "desc_at sbi Di 0 i = img_desc ! i" "desc_off sbi 0 = 0"
  by (simp_all add: desc_block_def desc_off_def desc_at_def dsc_per_block_def sb0_facts sb0_fields ext4_fs_get_descriptor_block_def
      ext4_sb_feature_incom_def EXT4_FINCOM_META_BG_def img0_blocks)

lemma group0: "group_ok sbi 8 Di 0"
  by (simp add: group_ok_def desc0(1,3) img0_blocks bg_len_def sb0_facts ext4_bg_has_flag_def le_bytes desc0(2) img_desc_def)

lemma inode0_block:
  "inode_block sbi Di 2 = 3" "inode_block sbi Di 11 = 4" "inode_block sbi Di 12 = 4"
  "inode_offset sbi 2 = 128" "inode_offset sbi 11 = 256" "inode_offset sbi 12 = 384"
  by (simp_all add: inode_block_def inode_offset_def inode_pos_def sb0_fields sb0_facts ext4_bg_get_inode_table_first_block_def bg_get_blk_def
      le_bytes desc0(2) img_desc_def)

lemma inode0_ok: "inode_ok sbi 8 Di 2" "inode_ok sbi 8 Di 11" "inode_ok sbi 8 Di 12"
  by (simp_all add: inode_ok_def inode0_block sb0_fields group0 img0_blocks img_inodes1_def img_inodes2_def)

lemma inode0_at:
  "inode_at sbi Di 2 i = img_inodes1 ! (128 + i)" "inode_at sbi Di 11 i = img_inodes2 ! (256 + i)" "inode_at sbi Di 12 i = img_inodes2 ! (384 + i)"
  by (simp_all add: inode_at_def inode0_block img0_blocks)

lemmas img_inode = inode0_at img_inodes1_def img_inodes2_def le_bytes

lemma inode0_size:
  "ext4_inode_get_size sbi (inode_at sbi Di 2) = 1024" "ext4_inode_get_size sbi (inode_at sbi Di 11) = 1024"
  "ext4_inode_get_size sbi (inode_at sbi Di 12) = 5"
  by (simp_all add: ext4_inode_get_size_def ext4_inode_is_type_def ext4_inode_type_def ext4_inode_get_mode_def sb0_fields
      EXT4_SUPERBLOCK_OS_HURD_def EXT4_INODE_MODE_FILE_def EXT4_INODE_MODE_TYPE_MASK_def img_inode)

lemma fblk0:
  "fblk sbi Di 256 (inode_at sbi Di 2) 0 = 5" "fblk sbi Di 256 (inode_at sbi Di 11) 0 = 6" "fblk sbi Di 256 (inode_at sbi Di 12) 0 = 7"
  by (simp_all add: fblk_def file_block_def inode0_size sb0_facts file_blocks_direct img_inode)

lemma map0: "map_ok sbi 8 Di 256 (inode_at sbi Di 2)" "map_ok sbi 8 Di 256 (inode_at sbi Di 11)" "map_ok sbi 8 Di 256 (inode_at sbi Di 12)"
  by (auto simp: map_ok_def sb0_facts less_Suc_eq numeral_3_eq_3 ptr_inode img_inode)


lemma levels0: "levels_ok 256 (mounted_fs sbi cd)"
  using levels_mounted[of sbi 1024 cd] by (simp add: sb0_facts EXT4_MAX_BLOCK_SIZE_def)

lemma can_map0:
  assumes "ino \<in> {2, 11, 12}"
  shows "can_map 8 1024 256 Di (\<lambda>_ _. Some (replicate 1024 0)) (\<lambda>_. True) ino 1 (mounted_fs sbi cd)"
  using assms levels0[of cd] by (auto simp: can_map_def mal_ok_def inode0_ok file_ok_def map0 fblk0 level_base_def img0_block_len)

lemma img_segs_ok: "\<forall>e\<in>set img_root. seg_ok sbi e" "\<forall>e\<in>set img_etc. seg_ok sbi e"
  by (simp_all add: img_root_def img_etc_def seg_ok_def seg_len_def seg_nlen_def sb0_facts le_bytes) presburger+

lemma img_segs: "segments (concat img_root) = img_root" "segments (concat img_etc) = img_etc"
  using segments_concat[OF img_segs_ok(1)] segments_concat[OF img_segs_ok(2)] by simp_all

lemma dir_ok0:
  assumes "ino \<in> {2, 11}"
  shows "dir_ok 8 1024 256 Di (\<lambda>_ _. Some (replicate 1024 0)) (\<lambda>_. True) ino 1 (mounted_fs sbi cd)" "dir_blocks sbi 1024 Di ino = 1"
  using assms can_map0[of ino cd] img_segs_ok
  by (auto simp: dir_ok_def sb0_facts inode0_size fblk0 img0_blocks block_ok_def img_segs dir_blocks_def)

definition etc_name :: "byte list" where "etc_name = [0x65, 0x74, 0x63]"
definition motd_name :: "byte list" where "motd_name = [0x6d, 0x6f, 0x74, 0x64]"

lemma dir_entry0:
  "dir_entry sbi 1024 256 Di 2 etc_name = Some (img_root ! 2)" "dir_entry sbi 1024 256 Di 11 motd_name = Some (img_etc ! 2)"
proof -
  have "dir_segs_of sbi Di 256 (inode_at sbi Di 2) 0 1 = img_root" "dir_segs_of sbi Di 256 (inode_at sbi Di 11) 0 1 = img_etc"
    by (simp_all add: dir_segs_of_def fblk0 img0_blocks img_segs)
  then show "dir_entry sbi 1024 256 Di 2 etc_name = Some (img_root ! 2)" "dir_entry sbi 1024 256 Di 11 motd_name = Some (img_etc ! 2)"
    by (simp_all add: dir_entry_def dir_ok0(2) names_def seg_ino_def seg_name_def seg_nlen_def sb0_facts le_bytes img_root_def img_etc_def etc_name_def motd_name_def)
qed

lemma img0_file: "file_at 1 img0 [etc_name, motd_name] 12 1 hello"
proof -
  have "img_root ! 2 = [11, 0, 0, 0, 0xe8, 3, 3, 2, 0x65, 0x74, 0x63] @ replicate 989 0" "img_etc ! 2 = [12, 0, 0, 0, 0xe8, 3, 4, 1, 0x6d, 0x6f, 0x74, 0x64] @ replicate 988 0"
    by (simp_all add: img_root_def img_etc_def)
  then have e: "seg_ino (img_root ! 2) = 11" "seg_ino (img_etc ! 2) = 12" "seg_type sbi (img_root ! 2) = EXT4_DE_DIR" "seg_type sbi (img_etc ! 2) = EXT4_DE_REG_FILE"
    by (simp_all add: seg_ino_def seg_type_def sb0_facts le_bytes EXT4_DE_DIR_def EXT4_DE_REG_FILE_def)
  have p: "path_ok EXT4_DE_REG_FILE 8 1024 256 Di (\<lambda>_ _. Some (replicate 1024 0)) (\<lambda>_. True) 1 (mounted_fs sbi some_cdev) EXT4_INODE_ROOT_INDEX [etc_name, motd_name] 12"
    by (simp add: EXT4_INODE_ROOT_INDEX_def dir_entry0 dir_ok0 e inode0_ok name_ok_def del: One_nat_def) (simp add: etc_name_def motd_name_def)
  have ty: "\<not> ext4_inode_is_type sbi (inode_at sbi Di 12) EXT4_INODE_MODE_SOFTLINK"
    by (simp add: ext4_inode_is_type_def ext4_inode_type_def ext4_inode_get_mode_def sb0_fields EXT4_SUPERBLOCK_OS_HURD_def
        EXT4_INODE_MODE_SOFTLINK_def EXT4_INODE_MODE_TYPE_MASK_def img_inode)
  have dat: "take 5 (file_data sbi Di 256 (inode_at sbi Di 12) 1) = hello" by (simp add: file_data_def fblk0 img0_blocks hello_def)
  show ?thesis
    by (simp add: file_at_def Let_def sb0_facts length_img0 p can_map0 inode0_size ty dat del: path_ok.simps One_nat_def)
qed

lemma entries0: "entries_of sbi 1024 Di 2 = img_root" "entries_of sbi 1024 Di 11 = img_etc"
  by (simp_all add: entries_of_def dir_segs_of_def dir_ok0(2) fblk0 img0_blocks img_segs)

lemma img_nlen: "\<forall>e\<in>set img_etc. seg_nlen sbi e < 255"
  by (simp add: img_etc_def seg_nlen_def sb0_facts)

lemma img0_dir: "dir_at 1 img0 [etc_name] 11 img_etc"
proof -
  have "img_root ! 2 = [11, 0, 0, 0, 0xe8, 3, 3, 2, 0x65, 0x74, 0x63] @ replicate 989 0" by (simp add: img_root_def)
  then have e: "seg_ino (img_root ! 2) = 11" "seg_type sbi (img_root ! 2) = EXT4_DE_DIR"
    by (simp_all add: seg_ino_def seg_type_def sb0_facts le_bytes EXT4_DE_DIR_def)
  have p: "path_ok EXT4_DE_DIR 8 1024 256 Di (\<lambda>_ _. Some (replicate 1024 0)) (\<lambda>_. True) 1 (mounted_fs sbi some_cdev) EXT4_INODE_ROOT_INDEX [etc_name] 11"
    by (simp add: EXT4_INODE_ROOT_INDEX_def dir_entry0 dir_ok0 e inode0_ok name_ok_def del: One_nat_def) (simp add: etc_name_def)
  have l: "list_ok 8 1024 Di (\<lambda>_ _. Some (replicate 1024 0)) (\<lambda>_. True) 11 (mounted_fs sbi some_cdev)"
    by (simp add: list_ok_def dir_ok0 inode0_size entries0 img_nlen del: One_nat_def)
  show ?thesis
    by (simp add: dir_at_def Let_def sb0_facts length_img0 p l entries0 del: path_ok.simps One_nat_def)
qed

lemma img0_listing: "concat (map (dir_line sbi) (listed img_etc 0)) =
    ascii ''  [dir] .'' @ [0x0a] @ ascii ''  [dir] ..'' @ [0x0a] @ ascii ''  [fil] motd'' @ [0x0a]"
  by (simp add: listed_def img_etc_def dir_line_def seg_ino_def seg_type_def seg_name_def seg_nlen_def sb0_facts le_bytes entry_to_str_def
      EXT4_DE_UNKNOWN_def EXT4_DE_REG_FILE_def EXT4_DE_DIR_def ascii_def)

end
