(* ===== verification/Fat_Name.thy ===== *)
theory Fat_Name
  imports Prelude
begin

text \<open>
  File names in FatFs (ff12b/src/ff.c, option/ccsbcs.c), in the configuration of \<open>ffconf.h\<close>: read only, long
  names in a static buffer, code page 437, no Unicode API, no relative paths, one volume, 512-byte sectors. Conversion
  between the code page and Unicode, upper case, wildcard patterns, the two forms of a path segment that a lookup uses (the
  long name in \<open>LfnBuf\<close> and the 11-byte short name), and the pieces of a long name in directory entries. A C string is
  the list of its bytes before the terminator. Plain \<open>char\<close> is signed, which the comparisons below account for.
\<close>

section \<open>Definitions\<close>

subsection \<open>Results and constants\<close>

datatype fresult =
    FR_OK | FR_DISK_ERR | FR_INT_ERR | FR_NOT_READY | FR_NO_FILE | FR_NO_PATH | FR_INVALID_NAME
  | FR_DENIED | FR_EXIST | FR_INVALID_OBJECT | FR_WRITE_PROTECTED | FR_INVALID_DRIVE | FR_NOT_ENABLED
  | FR_NO_FILESYSTEM | FR_MKFS_ABORTED | FR_TIMEOUT | FR_LOCKED | FR_NOT_ENOUGH_CORE
  | FR_TOO_MANY_OPEN_FILES | FR_INVALID_PARAMETER

primrec fres :: "fresult \<Rightarrow> int" where
  "fres FR_OK = 0"
| "fres FR_DISK_ERR = 1"
| "fres FR_INT_ERR = 2"
| "fres FR_NOT_READY = 3"
| "fres FR_NO_FILE = 4"
| "fres FR_NO_PATH = 5"
| "fres FR_INVALID_NAME = 6"
| "fres FR_DENIED = 7"
| "fres FR_EXIST = 8"
| "fres FR_INVALID_OBJECT = 9"
| "fres FR_WRITE_PROTECTED = 10"
| "fres FR_INVALID_DRIVE = 11"
| "fres FR_NOT_ENABLED = 12"
| "fres FR_NO_FILESYSTEM = 13"
| "fres FR_MKFS_ABORTED = 14"
| "fres FR_TIMEOUT = 15"
| "fres FR_LOCKED = 16"
| "fres FR_NOT_ENOUGH_CORE = 17"
| "fres FR_TOO_MANY_OPEN_FILES = 18"
| "fres FR_INVALID_PARAMETER = 19"

definition NS_LOSS :: byte where "NS_LOSS = 0x01"
definition NS_LFN :: byte where "NS_LFN = 0x02"
definition NS_LAST :: byte where "NS_LAST = 0x04"
definition NS_BODY :: byte where "NS_BODY = 0x08"
definition NS_EXT :: byte where "NS_EXT = 0x10"
definition NS_DOT :: byte where "NS_DOT = 0x20"
definition NS_NOLFN :: byte where "NS_NOLFN = 0x40"
definition NS_NONAME :: byte where "NS_NONAME = 0x80"
definition LLEF :: byte where "LLEF = 0x40"
definition DDEM :: byte where "DDEM = 0xe5"
definition RDDEM :: byte where "RDDEM = 0x05"
definition NSFLAG :: nat where "NSFLAG = 11"
definition MAX_LFN :: nat where "MAX_LFN = 255"

lemmas name_consts = NS_LOSS_def NS_LFN_def NS_LAST_def NS_BODY_def NS_EXT_def NS_DOT_def NS_NOLFN_def NS_NONAME_def
  LLEF_def DDEM_def RDDEM_def NSFLAG_def MAX_LFN_def

subsection \<open>Little-endian fields\<close>

definition ld_word :: "mem \<Rightarrow> nat \<Rightarrow> u16" where
  "ld_word m p = push_bit 8 (ucast (m (p + 1))) OR ucast (m p)"

definition ld_dword :: "mem \<Rightarrow> nat \<Rightarrow> u32" where
  "ld_dword m p = (
     let rv = ucast (m (p + 3));
         rv = push_bit 8 rv OR ucast (m (p + 2));
         rv = push_bit 8 rv OR ucast (m (p + 1))
     in push_bit 8 rv OR ucast (m p))"

subsection \<open>Characters\<close>

text \<open>Upper case of the extended characters of code page 437.\<close>

definition ExCvt :: "byte list" where
  "ExCvt = [
      0x80, 0x9a, 0x45, 0x41, 0x8e, 0x41, 0x8f, 0x80, 0x45, 0x45, 0x45, 0x49, 0x49, 0x49, 0x8e, 0x8f,
      0x90, 0x92, 0x92, 0x4f, 0x99, 0x4f, 0x55, 0x55, 0x59, 0x99, 0x9a, 0x9b, 0x9c, 0x9d, 0x9e, 0x9f,
      0x41, 0x49, 0x4f, 0x55, 0xa5, 0xa5, 0xa6, 0xa7, 0xa8, 0xa9, 0xaa, 0xab, 0xac, 0xad, 0xae, 0xaf,
      0xb0, 0xb1, 0xb2, 0xb3, 0xb4, 0xb5, 0xb6, 0xb7, 0xb8, 0xb9, 0xba, 0xbb, 0xbc, 0xbd, 0xbe, 0xbf,
      0xc0, 0xc1, 0xc2, 0xc3, 0xc4, 0xc5, 0xc6, 0xc7, 0xc8, 0xc9, 0xca, 0xcb, 0xcc, 0xcd, 0xce, 0xcf,
      0xd0, 0xd1, 0xd2, 0xd3, 0xd4, 0xd5, 0xd6, 0xd7, 0xd8, 0xd9, 0xda, 0xdb, 0xdc, 0xdd, 0xde, 0xdf,
      0xe0, 0xe1, 0xe2, 0xe3, 0xe4, 0xe5, 0xe6, 0xe7, 0xe8, 0xe9, 0xea, 0xeb, 0xec, 0xed, 0xee, 0xef,
      0xf0, 0xf1, 0xf2, 0xf3, 0xf4, 0xf5, 0xf6, 0xf7, 0xf8, 0xf9, 0xfa, 0xfb, 0xfc, 0xfd, 0xfe, 0xff]"

text \<open>Code page 437 above 0x7f to Unicode.\<close>

definition Tbl :: "u16 list" where
  "Tbl = [
      0xc7, 0xfc, 0xe9, 0xe2, 0xe4, 0xe0, 0xe5, 0xe7, 0xea, 0xeb, 0xe8, 0xef, 0xee, 0xec, 0xc4, 0xc5,
      0xc9, 0xe6, 0xc6, 0xf4, 0xf6, 0xf2, 0xfb, 0xf9, 0xff, 0xd6, 0xdc, 0xa2, 0xa3, 0xa5, 0x20a7, 0x192,
      0xe1, 0xed, 0xf3, 0xfa, 0xf1, 0xd1, 0xaa, 0xba, 0xbf, 0x2310, 0xac, 0xbd, 0xbc, 0xa1, 0xab, 0xbb,
      0x2591, 0x2592, 0x2593, 0x2502, 0x2524, 0x2561, 0x2562, 0x2556, 0x2555, 0x2563, 0x2551, 0x2557, 0x255d, 0x255c, 0x255b, 0x2510,
      0x2514, 0x2534, 0x252c, 0x251c, 0x2500, 0x253c, 0x255e, 0x255f, 0x255a, 0x2554, 0x2569, 0x2566, 0x2560, 0x2550, 0x256c, 0x2567,
      0x2568, 0x2564, 0x2565, 0x2559, 0x2558, 0x2552, 0x2553, 0x256b, 0x256a, 0x2518, 0x250c, 0x2588, 0x2584, 0x258c, 0x2590, 0x2580,
      0x3b1, 0xdf, 0x393, 0x3c0, 0x3a3, 0x3c3, 0xb5, 0x3c4, 0x3a6, 0x398, 0x3a9, 0x3b4, 0x221e, 0x3c6, 0x3b5, 0x2229,
      0x2261, 0xb1, 0x2265, 0x2264, 0x2320, 0x2321, 0xf7, 0x2248, 0xb0, 0x2219, 0xb7, 0x221a, 0x207f, 0xb2, 0x25a0, 0xa0]"

definition cvt1 :: "u16 list" where
  "cvt1 = [
      0x61, 0x31a, 0xe0, 0x317, 0xf8, 0x307, 0xff, 0x1, 0x178, 0x100, 0x130, 0x132, 0x106, 0x139,
      0x110, 0x14a, 0x12e, 0x179, 0x106, 0x180, 0x4d, 0x243, 0x181, 0x182, 0x182, 0x184, 0x184, 0x186,
      0x187, 0x187, 0x189, 0x18a, 0x18b, 0x18b, 0x18d, 0x18e, 0x18f, 0x190, 0x191, 0x191, 0x193, 0x194,
      0x1f6, 0x196, 0x197, 0x198, 0x198, 0x23d, 0x19b, 0x19c, 0x19d, 0x220, 0x19f, 0x1a0, 0x1a0, 0x1a2,
      0x1a2, 0x1a4, 0x1a4, 0x1a6, 0x1a7, 0x1a7, 0x1a9, 0x1aa, 0x1ab, 0x1ac, 0x1ac, 0x1ae, 0x1af, 0x1af,
      0x1b1, 0x1b2, 0x1b3, 0x1b3, 0x1b5, 0x1b5, 0x1b7, 0x1b8, 0x1b8, 0x1ba, 0x1bb, 0x1bc, 0x1bc, 0x1be,
      0x1f7, 0x1c0, 0x1c1, 0x1c2, 0x1c3, 0x1c4, 0x1c5, 0x1c4, 0x1c7, 0x1c8, 0x1c7, 0x1ca, 0x1cb, 0x1ca,
      0x1cd, 0x110, 0x1dd, 0x1, 0x18e, 0x1de, 0x112, 0x1f3, 0x3, 0x1f1, 0x1f4, 0x1f4, 0x1f8, 0x128,
      0x222, 0x112, 0x23a, 0x9, 0x2c65, 0x23b, 0x23b, 0x23d, 0x2c66, 0x23f, 0x240, 0x241, 0x241, 0x246,
      0x10a, 0x253, 0x40, 0x181, 0x186, 0x255, 0x189, 0x18a, 0x258, 0x18f, 0x25a, 0x190, 0x25c, 0x25d,
      0x25e, 0x25f, 0x193, 0x261, 0x262, 0x194, 0x264, 0x265, 0x266, 0x267, 0x197, 0x196, 0x26a, 0x2c62,
      0x26c, 0x26d, 0x26e, 0x19c, 0x270, 0x271, 0x19d, 0x273, 0x274, 0x19f, 0x276, 0x277, 0x278, 0x279,
      0x27a, 0x27b, 0x27c, 0x2c64, 0x27e, 0x27f, 0x1a6, 0x281, 0x282, 0x1a9, 0x284, 0x285, 0x286, 0x287,
      0x1ae, 0x244, 0x1b1, 0x1b2, 0x245, 0x28d, 0x28e, 0x28f, 0x290, 0x291, 0x1b7, 0x37b, 0x3, 0x3fd,
      0x3fe, 0x3ff, 0x3ac, 0x4, 0x386, 0x388, 0x389, 0x38a, 0x3b1, 0x311, 0x3c2, 0x2, 0x3a3, 0x3a3,
      0x3c4, 0x308, 0x3cc, 0x3, 0x38c, 0x38e, 0x38f, 0x3d8, 0x118, 0x3f2, 0xa, 0x3f9, 0x3f3, 0x3f4,
      0x3f5, 0x3f6, 0x3f7, 0x3f7, 0x3f9, 0x3fa, 0x3fa, 0x430, 0x320, 0x450, 0x710, 0x460, 0x122, 0x48a,
      0x136, 0x4c1, 0x10e, 0x4cf, 0x1, 0x4c0, 0x4d0, 0x144, 0x561, 0x426, 0]"

definition cvt2 :: "u16 list" where
  "cvt2 = [
      0x1d7d, 0x1, 0x2c63, 0x1e00, 0x196, 0x1ea0, 0x15a, 0x1f00, 0x608, 0x1f10, 0x606, 0x1f20, 0x608, 0x1f30,
      0x608, 0x1f40, 0x606, 0x1f51, 0x7, 0x1f59, 0x1f52, 0x1f5b, 0x1f54, 0x1f5d, 0x1f56, 0x1f5f, 0x1f60, 0x608,
      0x1f70, 0xe, 0x1fba, 0x1fbb, 0x1fc8, 0x1fc9, 0x1fca, 0x1fcb, 0x1fda, 0x1fdb, 0x1ff8, 0x1ff9, 0x1fea, 0x1feb,
      0x1ffa, 0x1ffb, 0x1f80, 0x608, 0x1f90, 0x608, 0x1fa0, 0x608, 0x1fb0, 0x4, 0x1fb8, 0x1fb9, 0x1fb2, 0x1fbc,
      0x1fcc, 0x1, 0x1fc3, 0x1fd0, 0x602, 0x1fe0, 0x602, 0x1fe5, 0x1, 0x1fec, 0x1ff2, 0x1, 0x1ffc, 0x214e,
      0x1, 0x2132, 0x2170, 0x210, 0x2184, 0x1, 0x2183, 0x24d0, 0x51a, 0x2c30, 0x42f, 0x2c60, 0x102, 0x2c67,
      0x106, 0x2c75, 0x102, 0x2c80, 0x164, 0x2d00, 0x826, 0xff41, 0x31a, 0]"

text \<open>The search loop of the conversion to the code page: the position of a character in the table.\<close>

fun tbl_index :: "u16 list \<Rightarrow> u16 \<Rightarrow> u16 \<Rightarrow> u16" where
  "tbl_index [] chr c = c"
| "tbl_index (t # ts) chr c = (if chr = t then c else tbl_index ts chr (c + 1))"

definition ff_convert :: "u16 \<Rightarrow> bool \<Rightarrow> u16" where
  "ff_convert chr dir =
     (if chr < 0x80 then chr
      else if dir then (if 0x100 \<le> chr then 0 else Tbl ! unat (chr - 0x80))
      else (tbl_index Tbl chr 0 + 0x80) AND 0xff)"

text \<open>The compressed table is a sequence of blocks: base, command and size, and for command 0 as many entries.\<close>

fun wtoupper_block :: "u16 list \<Rightarrow> u16 \<Rightarrow> u16" where
  "wtoupper_block [] chr = chr"
| "wtoupper_block [bc] chr = chr"
| "wtoupper_block (bc # nc # p) chr =
     (if bc = 0 \<or> chr < bc then chr
      else
        let cmd = drop_bit 8 nc; nc = nc AND 0xff in
        if unat chr < unat bc + unat nc then
          (if cmd = 0 then p ! unat (chr - bc)
           else if cmd = 1 then chr - ((chr - bc) AND 1)
           else if cmd = 2 then chr - 16
           else if cmd = 3 then chr - 32
           else if cmd = 4 then chr - 48
           else if cmd = 5 then chr - 26
           else if cmd = 6 then chr + 8
           else if cmd = 7 then chr - 80
           else if cmd = 8 then chr - 0x1c60
           else chr)
        else wtoupper_block (if cmd = 0 then drop (unat nc) p else p) chr)"

definition ff_wtoupper :: "u16 \<Rightarrow> u16" where
  "ff_wtoupper chr = wtoupper_block (if chr < 0x1000 then cvt1 else cvt2) chr"

definition IsUpper :: "'a::len word \<Rightarrow> bool" where
  "IsUpper c \<longleftrightarrow> 0x41 \<le> c \<and> c \<le> 0x5a"

definition IsLower :: "'a::len word \<Rightarrow> bool" where
  "IsLower c \<longleftrightarrow> 0x61 \<le> c \<and> c \<le> 0x7a"

definition chk_chr :: "u16 list \<Rightarrow> u16 \<Rightarrow> bool" where
  "chk_chr str chr \<longleftrightarrow> chr \<in> set str"

subsection \<open>Wildcard patterns\<close>

definition str_hd :: "byte list \<Rightarrow> byte" where
  "str_hd p = (case p of [] \<Rightarrow> 0 | c # _ \<Rightarrow> c)"

text \<open>The character in upper case; the pointer moves on to the tail.\<close>

definition get_achar :: "byte list \<Rightarrow> u16" where
  "get_achar p = (
     let chr = ucast (str_hd p);
         chr = if IsLower chr then chr - 0x20 else chr
     in if 0x80 \<le> chr then ucast (ExCvt ! unat (chr - 0x80)) else chr)"

definition wildcard :: "byte \<Rightarrow> bool" where
  "wildcard c \<longleftrightarrow> c = 0x3f \<or> c = 0x2a"

text \<open>The wildcards at the front of the pattern: the number of question marks, and whether there is an asterisk.\<close>

fun wild_block :: "byte list \<Rightarrow> nat \<Rightarrow> bool \<Rightarrow> nat \<times> bool \<times> byte list" where
  "wild_block [] nm nx = (nm, nx, [])"
| "wild_block (c # pp) nm nx =
     (if wildcard c then (if c = 0x3f then wild_block pp (nm + 1) nx else wild_block pp nm True)
      else (nm, nx, c # pp))"

text \<open>Skipping name characters; \<open>None\<close> if there are too few.\<close>

fun pre_skip :: "nat \<Rightarrow> byte list \<Rightarrow> byte list option" where
  "pre_skip 0 nam = Some nam"
| "pre_skip (Suc n) nam = (if get_achar nam = 0 then None else pre_skip n (tl nam))"

lemma wild_block_shrinks: "length (snd (snd (wild_block pp nm nx))) \<le> length pp"
  by (induction pp nm nx rule: wild_block.induct) auto

lemma wild_block_less: "wildcard (str_hd pp) \<Longrightarrow> wild_block pp 0 False = (nm, nx, pp') \<Longrightarrow> length pp' < length pp"
  using wild_block_shrinks[of "tl pp" 1 False] wild_block_shrinks[of "tl pp" 0 True]
  by (cases pp) (auto simp: str_hd_def wildcard_def split: if_splits)

text \<open>The three nested loops: \<open>pattern_matching\<close> itself, its loop over start positions in the name, and the
  comparison from one of them. The comparison answers \<open>Inl ()\<close> for a match and \<open>Inr nc\<close> for a mismatch at \<open>nc\<close>. Moving
  \<open>nam\<close> beyond the terminator would be undefined.\<close>

function (sequential) pattern_matching :: "byte list \<Rightarrow> byte list \<Rightarrow> nat \<Rightarrow> bool \<Rightarrow> bool option"
  and match_starts :: "byte list \<Rightarrow> byte list \<Rightarrow> bool \<Rightarrow> bool option"
  and match_here :: "byte list \<Rightarrow> byte list \<Rightarrow> (unit + u16) option" where
  "pattern_matching pat nam skip infin =
     (case pre_skip skip nam of
        None \<Rightarrow> Some False
      | Some nam \<Rightarrow> if pat = [] \<and> infin then Some True else match_starts pat nam infin)"
| "match_starts pat nam infin =
     (case match_here pat nam of
        None \<Rightarrow> None
      | Some (Inl _) \<Rightarrow> Some True
      | Some (Inr nc) \<Rightarrow>
          if infin \<and> nc \<noteq> 0 then (case nam of [] \<Rightarrow> None | _ # nam \<Rightarrow> match_starts pat nam infin)
          else Some False)"
| "match_here pp np =
     (if wildcard (str_hd pp) then
        let (nm, nx, pp') = wild_block pp 0 False in
        (case pattern_matching pp' np nm nx of
           None \<Rightarrow> None
         | Some True \<Rightarrow> Some (Inl ())
         | Some False \<Rightarrow> Some (Inr (ucast (str_hd np))))
      else
        let pc = get_achar pp; nc = get_achar np in
        if pc \<noteq> nc then Some (Inr nc)
        else if pc = 0 then Some (Inl ())
        else (case (pp, np) of (_ # pp, _ # np) \<Rightarrow> match_here pp np | _ \<Rightarrow> None))"
  by pat_completeness auto
termination
  by (relation "inv_image (less_than <*lex*> less_than <*lex*> less_than)
       (\<lambda>x. case x of
          Inl (pat, nam, skip, infin) \<Rightarrow> (length pat, 2, length nam)
        | Inr (Inl (pat, nam, infin)) \<Rightarrow> (length pat, 1, length nam)
        | Inr (Inr (pp, np)) \<Rightarrow> (length pp, 0, length np))")
     (auto dest: wild_block_less[OF _ sym])

declare pattern_matching.simps [simp del] match_starts.simps [simp del] match_here.simps [simp del]

subsection \<open>Path segments\<close>

text \<open>The first loop of \<open>create_name\<close>: the segment in Unicode. On success, whether the path ended, the remaining
  path, the buffer and the length of the name.\<close>

fun segment_lfn :: "byte list \<Rightarrow> (nat \<Rightarrow> u16) \<Rightarrow> nat \<Rightarrow> (bool \<times> byte list \<times> nat) option \<times> (nat \<Rightarrow> u16)" where
  "segment_lfn [] lfn di = (Some (True, [], di), lfn)"
| "segment_lfn (c # p) lfn di =
     (if c < 0x20 then (Some (True, p, di), lfn)
      else if c = 0x2f \<or> c = 0x5c then (Some (False, dropWhile (\<lambda>c. c = 0x2f \<or> c = 0x5c) p, di), lfn)
      else if MAX_LFN \<le> di then (None, lfn)
      else
        let w = ff_convert (ucast c) True in
        if w = 0 then (None, lfn)
        else if w < 0x80 \<and> chk_chr [0x22, 0x2a, 0x3a, 0x3c, 0x3e, 0x3f, 0x7c, 0x7f] w then (None, lfn)
        else segment_lfn p (lfn(di := w)) (di + 1))"

text \<open>Cutting off trailing spaces and dots, the number of leading ones, and the position behind the last dot.\<close>

fun snip_tail :: "(nat \<Rightarrow> u16) \<Rightarrow> nat \<Rightarrow> nat" where
  "snip_tail lfn 0 = 0"
| "snip_tail lfn (Suc di) = (if lfn di \<noteq> 0x20 \<and> lfn di \<noteq> 0x2e then Suc di else snip_tail lfn di)"

function strip_lead :: "(nat \<Rightarrow> u16) \<Rightarrow> nat \<Rightarrow> nat option" where
  "strip_lead lfn si =
     (if MAX_LFN < si then None
      else if lfn si = 0x20 \<or> lfn si = 0x2e then strip_lead lfn (si + 1) else Some si)"
  by pat_completeness auto
termination by (relation "measure (\<lambda>(lfn, si). Suc MAX_LFN - si)") auto

fun find_ext :: "(nat \<Rightarrow> u16) \<Rightarrow> nat \<Rightarrow> nat" where
  "find_ext lfn 0 = 0"
| "find_ext lfn (Suc di) = (if lfn di \<noteq> 0x2e then find_ext lfn di else Suc di)"

text \<open>One character of the short name: its code in the directory and what it adds to the flags \<open>b\<close> and \<open>cf\<close>.\<close>

definition sfn_char :: "u16 \<Rightarrow> byte \<Rightarrow> byte \<Rightarrow> byte \<times> byte \<times> byte" where
  "sfn_char w b cf = (
     let (w, cf) =
       if 0x80 \<le> w then
         (let w = ff_convert w False in
          (if w \<noteq> 0 then ucast (ExCvt ! unat (w - 0x80)) else w, cf OR NS_LFN))
       else (w, cf)
     in
     if w = 0 \<or> chk_chr [0x2b, 0x2c, 0x3b, 0x3d, 0x5b, 0x5d] w then (0x5f, b, cf OR (NS_LOSS OR NS_LFN))
     else if IsUpper w then (ucast w, b OR 2, cf)
     else if IsLower w then (ucast (w - 0x20), b OR 1, cf)
     else (ucast w, b, cf))"

function segment_sfn ::
  "(nat \<Rightarrow> u16) \<Rightarrow> nat \<Rightarrow> nat \<Rightarrow> nat \<Rightarrow> nat \<Rightarrow> byte \<Rightarrow> byte \<Rightarrow> mem \<Rightarrow> (nat \<times> byte \<times> byte \<times> mem) option" where
  "segment_sfn lfn di si i ni b cf fn =
     (if MAX_LFN < si then None
      else
        let w = lfn si; si' = si + 1 in
        if w = 0 then Some (ni, b, cf, fn)
        else if w = 0x20 \<or> (w = 0x2e \<and> si' \<noteq> di) then
          segment_sfn lfn di si' i ni b (cf OR (NS_LOSS OR NS_LFN)) fn
        else if ni \<le> i \<or> si' = di then
          (if ni = 11 then Some (ni, b, cf OR (NS_LOSS OR NS_LFN), fn)
           else
             let cf = if si' \<noteq> di then cf OR (NS_LOSS OR NS_LFN) else cf in
             if di < si' then Some (ni, b, cf, fn)
             else segment_sfn lfn di di 8 11 (push_bit 2 b) cf fn)
        else
          let (w, b, cf) = sfn_char w b cf in
          segment_sfn lfn di si' (i + 1) ni b cf (fn(i := w)))"
  by pat_completeness auto
termination by (relation "measure (\<lambda>(lfn, di, si, i, ni, b, cf, fn). Suc MAX_LFN - si)") auto

declare strip_lead.simps [simp del] segment_sfn.simps [simp del]

text \<open>The flags at the end: a name of mixed case needs a long name, one of small letters is marked.\<close>

definition name_flags :: "nat \<Rightarrow> byte \<Rightarrow> byte \<Rightarrow> byte" where
  "name_flags ni b cf = (
     let b = (if ni = 8 then push_bit 2 b else b);
         cf = (if b AND 0x0c = 0x0c \<or> b AND 0x03 = 0x03 then cf OR NS_LFN else cf)
     in if cf AND NS_LFN = 0 then
          (let cf = if b AND 0x03 = 0x01 then cf OR NS_EXT else cf in
           if b AND 0x0c = 0x04 then cf OR NS_BODY else cf)
        else cf)"

text \<open>\<open>create_name\<close>: the result, the remaining path, the long name buffer and the short name with its status byte.\<close>

definition create_name :: "byte list \<Rightarrow> (nat \<Rightarrow> u16) \<Rightarrow> mem \<Rightarrow> (fresult \<times> byte list \<times> (nat \<Rightarrow> u16) \<times> mem) option" where
  "create_name path lfn fn =
     (case segment_lfn path lfn 0 of
        (None, lfn) \<Rightarrow> Some (FR_INVALID_NAME, path, lfn, fn)
      | (Some (end, path, di), lfn) \<Rightarrow>
          let cf = if end then NS_LAST else 0;
              di = snip_tail lfn di;
              lfn = lfn(di := 0)
          in
          if di = 0 then Some (FR_INVALID_NAME, path, lfn, fn)
          else do {
            let fn = mem_put fn 0 (replicate 11 0x20);
            si \<leftarrow> strip_lead lfn 0;
            let cf = (if si \<noteq> 0 then cf OR (NS_LOSS OR NS_LFN) else cf);
            (ni, b, cf, fn) \<leftarrow> segment_sfn lfn (find_ext lfn di) si 0 8 0 cf fn;
            let fn = (if fn 0 = DDEM then fn(0 := RDDEM) else fn);
            Some (FR_OK, path, lfn, fn(NSFLAG := name_flags ni b cf)) })"

text \<open>Drive numbers: a path without colon means drive 0, ``0:'' is cut off, everything else is invalid.\<close>

definition get_ldnumber :: "byte list \<Rightarrow> int \<times> byte list" where
  "get_ldnumber path =
     (let pre = takeWhile (\<lambda>c. 0x20 \<le> c \<and> c \<noteq> 0x3a) path; tt = drop (length pre) path in
      if str_hd tt = 0x3a then
        (if length pre = 1 \<and> pre ! 0 - 0x30 < 10 \<and> pre ! 0 - 0x30 < 1 then (0, tl tt) else (- 1, path))
      else (0, path))"

subsection \<open>Long names in directory entries\<close>

definition LfnOfs :: "nat list" where
  "LfnOfs = [1, 3, 5, 7, 9, 14, 16, 18, 20, 22, 24, 28, 30]"

definition lfn_pos :: "mem \<Rightarrow> u32" where
  "lfn_pos dir = ((ucast (dir 0) AND 0x3f) - 1) * 13"

fun cmp_lfn_loop :: "(nat \<Rightarrow> u16) \<Rightarrow> mem \<Rightarrow> nat list \<Rightarrow> u16 \<Rightarrow> u32 \<Rightarrow> (u16 \<times> u32) option" where
  "cmp_lfn_loop lfnbuf dir [] wc i = Some (wc, i)"
| "cmp_lfn_loop lfnbuf dir (ofs # rest) wc i =
     (let uc = ld_word dir ofs in
      if wc \<noteq> 0 then
        (if of_nat MAX_LFN \<le> i \<or> ff_wtoupper uc \<noteq> ff_wtoupper (lfnbuf (unat i)) then None
         else cmp_lfn_loop lfnbuf dir rest uc (i + 1))
      else if uc \<noteq> 0xffff then None
      else cmp_lfn_loop lfnbuf dir rest wc i)"

definition cmp_lfn :: "(nat \<Rightarrow> u16) \<Rightarrow> mem \<Rightarrow> bool" where
  "cmp_lfn lfnbuf dir =
     (if ld_word dir 26 \<noteq> 0 then False
      else case cmp_lfn_loop lfnbuf dir LfnOfs 1 (lfn_pos dir) of
        None \<Rightarrow> False
      | Some (wc, i) \<Rightarrow> \<not> (dir 0 AND LLEF \<noteq> 0 \<and> wc \<noteq> 0 \<and> lfnbuf (unat i) \<noteq> 0))"

fun pick_lfn_loop :: "mem \<Rightarrow> nat list \<Rightarrow> u16 \<Rightarrow> u32 \<Rightarrow> (nat \<Rightarrow> u16) \<Rightarrow> u32 option \<times> (nat \<Rightarrow> u16)" where
  "pick_lfn_loop dir [] wc i lfnbuf = (Some i, lfnbuf)"
| "pick_lfn_loop dir (ofs # rest) wc i lfnbuf =
     (let uc = ld_word dir ofs in
      if wc \<noteq> 0 then
        (if of_nat MAX_LFN \<le> i then (None, lfnbuf)
         else pick_lfn_loop dir rest uc (i + 1) (lfnbuf(unat i := uc)))
      else if uc \<noteq> 0xffff then (None, lfnbuf)
      else pick_lfn_loop dir rest wc i lfnbuf)"

definition pick_lfn :: "mem \<Rightarrow> (nat \<Rightarrow> u16) \<Rightarrow> bool \<times> (nat \<Rightarrow> u16)" where
  "pick_lfn dir lfnbuf =
     (if ld_word dir 26 \<noteq> 0 then (False, lfnbuf)
      else case pick_lfn_loop dir LfnOfs 1 (lfn_pos dir) lfnbuf of
        (None, lfnbuf) \<Rightarrow> (False, lfnbuf)
      | (Some i, lfnbuf) \<Rightarrow>
          if dir 0 AND LLEF \<noteq> 0 then
            (if of_nat MAX_LFN \<le> i then (False, lfnbuf) else (True, lfnbuf(unat i := 0)))
          else (True, lfnbuf))"

definition sum_sfn :: "mem \<Rightarrow> byte" where
  "sum_sfn dir = foldl (\<lambda>sum c. drop_bit 1 sum + push_bit 7 sum + c) 0 (mem_get dir 0 11)"

section \<open>Wildcard patterns\<close>

text \<open>What a pattern means: a question mark stands for one character, an asterisk for any number, everything else
  for itself up to case.\<close>

definition up :: "byte \<Rightarrow> u16" where
  "up c = get_achar [c]"

fun glob :: "byte list \<Rightarrow> byte list \<Rightarrow> bool" where
  "glob [] nam = (nam = [])"
| "glob (p # ps) [] = (p = 0x2a \<and> glob ps [])"
| "glob (p # ps) (c # nam) =
     (if p = 0x2a then glob ps (c # nam) \<or> glob (p # ps) nam
      else if p = 0x3f then glob ps nam
      else up p = up c \<and> glob ps nam)"

lemma get_achar_Cons: "get_achar (c # p) = up c"
  by (simp add: get_achar_def up_def str_hd_def)

lemma get_achar_Nil [simp]: "get_achar [] = 0"
  by (simp add: get_achar_def str_hd_def IsLower_def)

lemma up_nonzero:
  assumes "c \<noteq> 0"
  shows "up c \<noteq> 0"
proof (cases "c < 0x80")
  case True
  then have "unat (ucast c :: u16) = unat c" "unat c < 128" by (simp_all add: unat_ucast_mod word_less_nat_alt)
  with assms show ?thesis
    by (auto simp: up_def get_achar_def str_hd_def IsLower_def word_unat_eq_iff word_le_nat_alt unat_sub_if' Let_def)
next
  case False
  let ?i = "unat (ucast c - 0x80 :: u16)"
  have u: "unat (ucast c :: u16) = unat c" using unat_less[of c] by (simp add: unat_ucast_mod)
  have le: "(0x80 :: u16) \<le> ucast c" using False by (simp add: word_le_nat_alt word_less_nat_alt u)
  have "?i = unat c - 128" using le by (simp add: unat_sub_if' word_le_nat_alt u)
  then have "?i < length ExCvt" using unat_less[of c] by (simp add: ExCvt_def)
  moreover have "\<forall>b \<in> set ExCvt. b \<noteq> 0" by (simp add: ExCvt_def)
  ultimately have "ExCvt ! ?i \<noteq> 0" using nth_mem by blast
  moreover have "\<not> IsLower (ucast c :: u16)" using le by (auto simp: IsLower_def word_le_nat_alt)
  ultimately show ?thesis
    using le unat_less[of "ExCvt ! ?i"] by (simp add: up_def get_achar_def str_hd_def word_unat_eq_iff unat_ucast_mod)
qed

lemma get_achar_0: "0 \<notin> set p \<Longrightarrow> get_achar p = 0 \<longleftrightarrow> p = []"
  by (cases p) (auto simp: get_achar_Cons up_nonzero)

text \<open>The rest of a pattern behind a block of wildcards.\<close>

definition glob_skip :: "nat \<Rightarrow> bool \<Rightarrow> byte list \<Rightarrow> byte list \<Rightarrow> bool" where
  "glob_skip nm nx ps nam \<longleftrightarrow>
     (\<exists>k. nm \<le> k \<and> k \<le> length nam \<and> (nx \<or> k = nm) \<and> glob ps (drop k nam))"

lemma glob_star: "glob (0x2a # ps) nam \<longleftrightarrow> (\<exists>k \<le> length nam. glob ps (drop k nam))"
proof (induction nam)
  case (Cons c nam)
  have "(\<exists>k \<le> length (c # nam). glob ps (drop k (c # nam))) \<longleftrightarrow>
      glob ps (c # nam) \<or> (\<exists>k \<le> length nam. glob ps (drop k nam))"
    by (metis Suc_le_mono drop0 drop_Suc_Cons le0 length_Cons not0_implies_Suc)
  with Cons show ?case by simp
qed simp

lemma glob_quest: "glob (0x3f # ps) nam \<longleftrightarrow> nam \<noteq> [] \<and> glob ps (tl nam)"
  by (cases nam) simp_all

lemma glob_skip_quest: "glob_skip nm nx (0x3f # ps) nam \<longleftrightarrow> glob_skip (nm + 1) nx ps nam" (is "?l \<longleftrightarrow> ?r")
proof
  assume ?l
  then obtain k where "nm \<le> k" "k < length nam" "nx \<or> k = nm" "glob ps (drop (Suc k) nam)"
    by (auto simp: glob_skip_def glob_quest drop_Suc tl_drop le_less)
  then show ?r unfolding glob_skip_def by (intro exI[of _ "Suc k"]) auto
next
  assume ?r
  then obtain k where "nm + 1 \<le> k" "k \<le> length nam" "nx \<or> k = nm + 1" "glob ps (drop k nam)"
    by (auto simp: glob_skip_def)
  then show ?l unfolding glob_skip_def
    by (intro exI[of _ "k - 1"]) (auto simp: glob_quest tl_drop simp flip: drop_Suc)
qed

lemma glob_skip_star: "glob_skip nm nx (0x2a # ps) nam \<longleftrightarrow> glob_skip nm True ps nam" (is "?l \<longleftrightarrow> ?r")
proof
  assume ?l
  then obtain k j where "nm \<le> k" "k \<le> length nam" "j \<le> length nam - k" "glob ps (drop (j + k) nam)"
    by (auto simp: glob_skip_def glob_star)
  then show ?r unfolding glob_skip_def by (intro exI[of _ "j + k"]) auto
next
  assume ?r
  then obtain k where "nm \<le> k" "k \<le> length nam" "glob ps (drop k nam)" by (auto simp: glob_skip_def)
  then show ?l unfolding glob_skip_def glob_star by (intro exI[of _ nm]) (auto intro!: exI[of _ "k - nm"])
qed

lemma wild_block_glob: "wild_block pp nm nx = (nm', nx', pp') \<Longrightarrow> glob_skip nm nx pp nam = glob_skip nm' nx' pp' nam"
  by (induction pp nm nx rule: wild_block.induct)
     (auto simp: wildcard_def glob_skip_quest glob_skip_star split: if_splits)

lemma glob_skip_0 [simp]: "glob_skip 0 False pp nam = glob pp nam"
  by (auto simp: glob_skip_def)

lemma wild_block_set: "wild_block pp nm nx = (nm', nx', pp') \<Longrightarrow> set pp' \<subseteq> set pp"
  by (induction pp nm nx rule: wild_block.induct) (auto split: if_splits)

lemma pre_skip_drop: "0 \<notin> set nam \<Longrightarrow> pre_skip n nam = (if n \<le> length nam then Some (drop n nam) else None)"
proof (induction n arbitrary: nam)
  case (Suc n)
  then show ?case using get_achar_0[of nam] by (cases nam) auto
qed simp

lemma glob_literal: "\<not> wildcard p \<Longrightarrow> glob (p # ps) nam \<longleftrightarrow> nam \<noteq> [] \<and> up p = up (hd nam) \<and> glob ps (tl nam)"
  by (cases nam) (auto simp: wildcard_def)

lemma ucast_byte_0: "ucast (c :: byte) = (0 :: u16) \<longleftrightarrow> c = 0"
  using unat_less[of c] by (simp add: word_unat_eq_iff unat_ucast_mod)

lemma pattern_matching_correct:
  "0 \<notin> set pat \<Longrightarrow> 0 \<notin> set nam \<Longrightarrow> pattern_matching pat nam skip infin = Some (glob_skip skip infin pat nam)"
  "0 \<notin> set pat \<Longrightarrow> 0 \<notin> set nam \<Longrightarrow> match_starts pat nam infin = Some (glob_skip 0 infin pat nam)"
  "0 \<notin> set pp \<Longrightarrow> 0 \<notin> set np \<Longrightarrow>
     (glob pp np \<longrightarrow> match_here pp np = Some (Inl ())) \<and>
     (\<not> glob pp np \<longrightarrow> (\<exists>nc. match_here pp np = Some (Inr nc) \<and>
        (if nc = 0 then \<forall>k. \<not> glob pp (drop k np) else np \<noteq> [])))"
proof (induction pat nam skip infin and pat nam infin and pp np
    rule: pattern_matching_match_starts_match_here.induct)
  case (1 pat nam skip infin)
  show ?case
  proof (cases "skip \<le> length nam")
    case True
    have "0 \<notin> set (drop skip nam)" using 1(3) by (meson in_set_dropD)
    then have "pattern_matching pat nam skip infin = Some (pat = [] \<and> infin \<or> glob_skip 0 infin pat (drop skip nam))"
      using 1 True by (auto simp add: pattern_matching.simps pre_skip_drop)
    moreover have "glob_skip 0 infin pat (drop skip nam) = glob_skip skip infin pat nam"
    proof
      assume "glob_skip 0 infin pat (drop skip nam)"
      then obtain k where "k \<le> length nam - skip" "infin \<or> k = 0" "glob pat (drop (k + skip) nam)"
        by (auto simp: glob_skip_def)
      then show "glob_skip skip infin pat nam" using True unfolding glob_skip_def by (intro exI[of _ "k + skip"]) auto
    next
      assume "glob_skip skip infin pat nam"
      then obtain k where "skip \<le> k" "k \<le> length nam" "infin \<or> k = skip" "glob pat (drop k nam)"
        by (auto simp: glob_skip_def)
      then show "glob_skip 0 infin pat (drop skip nam)" unfolding glob_skip_def by (intro exI[of _ "k - skip"]) auto
    qed
    moreover have "glob_skip skip infin pat nam" if "pat = []" infin
      using that True unfolding glob_skip_def by (intro exI[of _ "length nam"]) auto
    ultimately show ?thesis by auto
  next
    case False
    then show ?thesis using 1 by (simp add: pattern_matching.simps pre_skip_drop glob_skip_def)
  qed
next
  case (2 pat nam infin)
  show ?case
  proof (cases "glob pat nam")
    case True
    then have "match_here pat nam = Some (Inl ())" "glob_skip 0 infin pat nam"
      using 2 by (auto simp: glob_skip_def intro: exI[of _ 0])
    then show ?thesis by (simp add: match_starts.simps)
  next
    case False
    then obtain nc where nc: "match_here pat nam = Some (Inr nc)"
      "if nc = 0 then \<forall>k. \<not> glob pat (drop k nam) else nam \<noteq> []" using 2 by auto
    show ?thesis
    proof (cases "infin \<and> nc \<noteq> 0")
      case True
      then obtain c n where n: "nam = c # n" using nc by (cases nam) auto
      have "match_starts pat n infin = Some (glob_skip 0 infin pat n)" using 2(2)[OF nc(1) refl True n] 2(3,4) n by simp
      moreover have "glob_skip 0 infin pat nam = glob_skip 0 infin pat n"
        using False True n unfolding glob_skip_def
        by (metis Suc_le_mono drop0 drop_Suc_Cons le0 length_Cons not0_implies_Suc)
      ultimately show ?thesis using nc True n by (simp add: match_starts.simps[of pat "c # n"])
    next
      case F: False
      then show ?thesis using nc False by (cases "nc = 0") (auto simp: match_starts.simps glob_skip_def)
    qed
  qed
next
  case (3 pp np)
  show ?case
  proof (cases "wildcard (str_hd pp)")
    case True
    obtain nm nx pp' where w: "wild_block pp 0 False = (nm, nx, pp')" by (metis prod_cases3)
    have "pattern_matching pp' np nm nx = Some (glob pp np)"
      using 3(1)[OF True w[symmetric] refl] 3(3,4) wild_block_set[OF w] wild_block_glob[OF w] by auto
    then have "match_here pp np = Some (if glob pp np then Inl () else Inr (ucast (str_hd np)))"
      using True w by (simp add: match_here.simps)
    moreover have "ucast (str_hd np) = (0 :: u16) \<longleftrightarrow> np = []"
      using 3(4) by (cases np) (auto simp: str_hd_def ucast_byte_0)
    ultimately show ?thesis by auto
  next
    case False
    show ?thesis
    proof (cases pp)
      case Nil
      then show ?thesis using False 3(4) by (cases np) (auto simp: match_here.simps get_achar_Cons up_nonzero)
    next
      case (Cons p ps)
      then have p: "\<not> wildcard p" "up p \<noteq> 0" using False 3(3) by (auto simp: str_hd_def up_nonzero)
      show ?thesis
      proof (cases "np \<noteq> [] \<and> up p = up (hd np)")
        case True
        then obtain c n where n: "np = c # n" "up p = up c" by (cases np) auto
        have IH: "(glob ps n \<longrightarrow> match_here ps n = Some (Inl ())) \<and>
            (\<not> glob ps n \<longrightarrow> (\<exists>nc. match_here ps n = Some (Inr nc) \<and>
              (if nc = 0 then \<forall>k. \<not> glob ps (drop k n) else n \<noteq> [])))"
          using 3(2)[OF False refl refl, of pp np p ps c n] 3(3,4) Cons n p by (simp add: get_achar_Cons)
        have "match_here pp np = match_here ps n"
          using False Cons n p by (simp add: match_here.simps[of "p # ps" "c # n"] get_achar_Cons)
        moreover have "glob pp np \<longleftrightarrow> glob ps n"
          unfolding Cons n(1) glob_literal[OF p(1)] using n(2) by simp
        moreover have "\<not> glob pp (drop k np)" if "\<forall>k. \<not> glob ps (drop k n)" for k
          using that unfolding Cons n(1) glob_literal[OF p(1)] by (simp add: tl_drop flip: drop_Suc)
        ultimately show ?thesis using IH by (cases "glob ps n") (auto simp: n(1))
      next
        case F: False
        have "match_here pp np = Some (Inr (get_achar np))"
          using False Cons F p by (cases np) (auto simp: match_here.simps get_achar_Cons)
        moreover have "\<not> glob pp np" "np = [] \<Longrightarrow> \<not> glob pp (drop k np)" for k
          unfolding Cons glob_literal[OF p(1)] using F by auto
        ultimately show ?thesis using 3(4) get_achar_0[of np] by auto
      qed
    qed
  qed
qed

text \<open>C26. The wildcard matcher of FatFs, with its nested loops and its short cuts, decides what the pattern
  means, and always returns.\<close>

theorem pattern_matching_glob:
  assumes "0 \<notin> set pat" "0 \<notin> set nam"
  shows "pattern_matching pat nam 0 False = Some (glob pat nam)"
  using pattern_matching_correct(1)[OF assms] by simp

theorem pattern_matching_glob_witness:
  "pattern_matching [0x2a, 0x2e, 0x6a, 0x70, 0x67] [0x41, 0x2e, 0x4a, 0x50, 0x47] 0 False = Some True"
  using pattern_matching_glob[of "[0x2a, 0x2e, 0x6a, 0x70, 0x67]" "[0x41, 0x2e, 0x4a, 0x50, 0x47]"]
  by (simp add: up_def get_achar_def str_hd_def IsLower_def)

section \<open>The code page\<close>

lemma tbl_index_nth:
  assumes "distinct ts" "i < length ts"
  shows "tbl_index ts (ts ! i) c = c + of_nat i"
  using assms
proof (induction ts arbitrary: i c)
  case (Cons t ts)
  then show ?case by (cases i) (auto simp: in_set_conv_nth)
qed simp

lemma unat_and_mask_255: "unat ((w :: u16) AND 0xff) = unat w mod 256"
proof -
  have "w AND 0xff = take_bit 8 w" by (simp add: take_bit_eq_mask mask_eq_exp_minus_1)
  then have "unat (w AND 0xff) = unat (take_bit 8 w)" by simp
  then show ?thesis unfolding unsigned_take_bit_eq by (simp add: take_bit_eq_mod)
qed

lemma Tbl_facts: "length Tbl = 128" "distinct Tbl" "\<forall>w \<in> set Tbl. 0x80 \<le> w"
proof -
  have "distinct (map unat Tbl)" by (simp add: Tbl_def)
  then show "distinct Tbl" unfolding distinct_map by (rule conjunct1)
qed (simp_all add: Tbl_def)

text \<open>C27. Every byte of the code page survives the way to Unicode and back.\<close>

theorem code_page_roundtrip:
  "ff_convert (ff_convert (ucast (b :: byte)) True) False = ucast b"
proof -
  have u: "unat (ucast b :: u16) = unat b" "unat b < 256" using unat_less[of b] by (simp_all add: unat_ucast_mod)
  show ?thesis
  proof (cases "(ucast b :: u16) < 0x80")
    case False
    then have "128 \<le> unat b" using u(1) unfolding word_less_nat_alt by simp
    then have ge: "(0x80 :: u16) \<le> ucast b" "128 \<le> unat b" unfolding word_le_nat_alt u by simp_all
    let ?i = "unat b - 128"
    have i: "?i < length Tbl" "unat (ucast b - 0x80 :: u16) = ?i"
      using ge u by (simp_all add: Tbl_facts unat_sub_if' word_le_nat_alt)
    have "ff_convert (ucast b) True = Tbl ! ?i"
      using False ge u by (simp add: ff_convert_def i word_le_nat_alt)
    moreover have "\<not> Tbl ! ?i < 0x80" using i(1) Tbl_facts(3) nth_mem by fastforce
    moreover have "(word_of_nat ?i + 0x80) AND 0xff = (ucast b :: u16)"
    proof -
      have "word_of_nat ?i + 0x80 = (ucast b :: u16)"
        using ge(2) u by (simp add: word_unat_eq_iff unat_word_ariths unat_of_nat)
      moreover have "ucast b AND 0xff = (ucast b :: u16)"
        using unat_less[of b] by (simp add: word_unat_eq_iff unat_and_mask_255 u)
      ultimately show ?thesis by simp
    qed
    ultimately show ?thesis by (simp add: ff_convert_def tbl_index_nth[OF Tbl_facts(2) i(1)])
  qed (simp add: ff_convert_def)
qed

end
