(* ===== verification/Fat_Vol.thy ===== *)
theory Fat_Vol
  imports Fat_Name Diskio
begin

text \<open>
  Volumes of FatFs (ff12b/src/ff.c): the file system object with its one-sector window, the file allocation
  table, finding and mounting the volume, and the validity of open objects. There is one logical drive and the program has
  one file system object, so pointers to it are booleans (false is the null pointer). The disk layer is an argument (record \<open>disk_ops\<close>);
  \<open>diskio.c\<close> is the instance the program is linked with.
\<close>

section \<open>Definitions\<close>

subsection \<open>Data\<close>

record 's disk_ops =
  dk_status :: "byte \<Rightarrow> byte option"
  dk_initialize :: "byte \<Rightarrow> 's \<Rightarrow> (byte \<times> 's) option"
  dk_read :: "byte \<Rightarrow> u32 \<Rightarrow> u32 \<Rightarrow> 's \<Rightarrow> (int \<times> byte list \<times> 's) option"

record fatfs =
  fs_type :: byte
  drv :: byte
  n_fats :: byte
  wflag :: byte
  fat_id :: u16
  n_rootdir :: u16
  csize :: u16
  n_fatent :: u32
  fat_fsize :: u32
  volbase :: u32
  fatbase :: u32
  dirbase :: u32
  database :: u32
  winsect :: u32
  win :: mem

text \<open>The variables of the module (whether \<open>FatFs[0]\<close> is set, the mount counter, the static name buffer), the file
  system object, and the state of the disk.\<close>

record 's ff =
  FatFs :: bool
  Fsid :: u16
  LfnBuf :: "nat \<Rightarrow> u16"
  ff_fs :: fatfs
  ff_disk :: 's

record fdid =
  obj_fs :: bool
  obj_id :: u16
  obj_attr :: byte
  sclust :: u32
  objsize :: u32

definition FS_FAT12 :: byte where "FS_FAT12 = 1"
definition FS_FAT16 :: byte where "FS_FAT16 = 2"
definition FS_FAT32 :: byte where "FS_FAT32 = 3"
definition MAX_FAT12 :: u32 where "MAX_FAT12 = 0xff5"
definition MAX_FAT16 :: u32 where "MAX_FAT16 = 0xfff5"
definition SZDIRE :: u32 where "SZDIRE = 32"
definition SS :: u32 where "SS = of_nat MAX_SS"

lemmas vol_consts = FS_FAT12_def FS_FAT16_def FS_FAT32_def MAX_FAT12_def MAX_FAT16_def SZDIRE_def SS_def MAX_SS_def

subsection \<open>The window and the table\<close>

text \<open>Reading one sector into a buffer of 512 bytes. More bytes would overrun it.\<close>

definition read_sector :: "'s disk_ops \<Rightarrow> u32 \<Rightarrow> mem \<Rightarrow> 's ff \<Rightarrow> (int \<times> mem \<times> 's ff) option" where
  "read_sector D sector buf x = do {
     (r, bs, d) \<leftarrow> dk_read D (drv (ff_fs x)) sector 1 (ff_disk x);
     if MAX_SS < length bs then None else Some (r, mem_put buf 0 bs, x\<lparr>ff_disk := d\<rparr>) }"

definition move_window :: "'s disk_ops \<Rightarrow> u32 \<Rightarrow> 's ff \<Rightarrow> (fresult \<times> 's ff) option" where
  "move_window D sector x =
     (if sector = winsect (ff_fs x) then Some (FR_OK, x)
      else do {
        (r, m, x) \<leftarrow> read_sector D sector (win (ff_fs x)) x;
        Some (if r \<noteq> dres RES_OK
          then (FR_DISK_ERR, x\<lparr>ff_fs := (ff_fs x)\<lparr>win := m, winsect := 0xffffffff\<rparr>\<rparr>)
          else (FR_OK, x\<lparr>ff_fs := (ff_fs x)\<lparr>win := m, winsect := sector\<rparr>\<rparr>)) })"

definition clust2sect :: "fatfs \<Rightarrow> u32 \<Rightarrow> u32" where
  "clust2sect fs clst =
     (let clst = clst - 2 in
      if n_fatent fs - 2 \<le> clst then 0 else clst * ucast (csize fs) + database fs)"

definition get_fat :: "'s disk_ops \<Rightarrow> u32 \<Rightarrow> 's ff \<Rightarrow> (u32 \<times> 's ff) option" where
  "get_fat D clst x =
     (let fs = ff_fs x in
      if clst < 2 \<or> n_fatent fs \<le> clst then Some (1, x)
      else if fs_type fs = FS_FAT12 then do {
        let bc = clst + clst div 2;
        (r, x) \<leftarrow> move_window D (fatbase fs + bc div SS) x;
        if r \<noteq> FR_OK then Some (0xffffffff, x)
        else do {
          let wc = ucast (win (ff_fs x) (unat (bc mod SS)));
          let bc = bc + 1;
          (r, x) \<leftarrow> move_window D (fatbase fs + bc div SS) x;
          if r \<noteq> FR_OK then Some (0xffffffff, x)
          else do {
            let wc = wc OR push_bit 8 (ucast (win (ff_fs x) (unat (bc mod SS))));
            Some (if clst AND 1 \<noteq> 0 then drop_bit 4 wc else wc AND 0xfff, x) } } }
      else if fs_type fs = FS_FAT16 then do {
        (r, x) \<leftarrow> move_window D (fatbase fs + clst div (SS div 2)) x;
        if r \<noteq> FR_OK then Some (0xffffffff, x)
        else Some (ucast (ld_word (win (ff_fs x)) (unat (clst * 2 mod SS))), x) }
      else if fs_type fs = FS_FAT32 then do {
        (r, x) \<leftarrow> move_window D (fatbase fs + clst div (SS div 4)) x;
        if r \<noteq> FR_OK then Some (0xffffffff, x)
        else Some (ld_dword (win (ff_fs x)) (unat (clst * 4 mod SS)) AND 0x0fffffff, x) }
      else Some (1, x))"

subsection \<open>Mounting\<close>

text \<open>0: a FAT boot sector, 2: another boot sector, 3: none, 4: disk error.\<close>

definition check_fs :: "'s disk_ops \<Rightarrow> u32 \<Rightarrow> 's ff \<Rightarrow> (nat \<times> 's ff) option" where
  "check_fs D sect x = do {
     (r, x) \<leftarrow> move_window D sect (x\<lparr>ff_fs := (ff_fs x)\<lparr>wflag := 0, winsect := 0xffffffff\<rparr>\<rparr>);
     let w = win (ff_fs x);
     Some (if r \<noteq> FR_OK then 4
       else if ld_word w 510 \<noteq> 0xaa55 then 3
       else if (w 0 = 0xe9 \<or> (w 0 = 0xeb \<and> w 2 = 0x90)) \<and>
           (ld_dword w 54 AND 0xffffff = 0x544146 \<or> ld_dword w 82 = 0x33544146) then 0
       else 2, x) }"

text \<open>The loop over the partition table: the first partition with a FAT boot sector, or the state after the last.\<close>

fun find_partition :: "'s disk_ops \<Rightarrow> u32 list \<Rightarrow> u32 \<Rightarrow> nat \<Rightarrow> 's ff \<Rightarrow> (u32 \<times> nat \<times> 's ff) option" where
  "find_partition D [] bsect fmt x = Some (bsect, fmt, x)"
| "find_partition D (b # br) bsect fmt x = do {
     (fmt, x) \<leftarrow> (if b \<noteq> 0 then check_fs D b x else Some (3, x));
     if 2 \<le> fmt then find_partition D br b fmt x else Some (b, fmt, x) }"

definition br_table :: "mem \<Rightarrow> u32 list" where
  "br_table w = map (\<lambda>i. let pt = 446 + i * 16 in if w (pt + 4) \<noteq> 0 then ld_dword w (pt + 8) else 0) [0, 1, 2, 3]"

text \<open>The file system object from the boot sector in the window. Fields are set as the code goes along, so a volume that is
  rejected leaves some of them changed; the type stays 0 until the end.\<close>

definition read_bpb :: "u32 \<Rightarrow> fatfs \<Rightarrow> fresult \<times> byte \<times> fatfs" where
  "read_bpb bsect fs =
     (let w = win fs in
      if ld_word w 11 \<noteq> ucast SS then (FR_NO_FILESYSTEM, 0, fs)
      else
        let fasize = ucast (ld_word w 22) :: u32;
            fasize = if fasize = 0 then ld_dword w 36 else fasize;
            fs = fs\<lparr>fat_fsize := fasize, n_fats := w 16\<rparr>
        in
        if n_fats fs \<noteq> 1 \<and> n_fats fs \<noteq> 2 then (FR_NO_FILESYSTEM, 0, fs)
        else
          let fasize = fasize * ucast (n_fats fs); fs = fs\<lparr>csize := ucast (w 13)\<rparr> in
          if csize fs = 0 \<or> csize fs AND (csize fs - 1) \<noteq> 0 then (FR_NO_FILESYSTEM, 0, fs)
          else
            let fs = fs\<lparr>n_rootdir := ld_word w 17\<rparr> in
            if n_rootdir fs mod ucast (SS div SZDIRE) \<noteq> 0 then (FR_NO_FILESYSTEM, 0, fs)
            else
              let tsect = ucast (ld_word w 19) :: u32;
                  tsect = if tsect = 0 then ld_dword w 32 else tsect;
                  nrsv = ld_word w 14
              in
              if nrsv = 0 then (FR_NO_FILESYSTEM, 0, fs)
              else
                let sysect = ucast nrsv + fasize + ucast (n_rootdir fs div ucast (SS div SZDIRE)) in
                if tsect < sysect then (FR_NO_FILESYSTEM, 0, fs)
                else
                  let nclst = (tsect - sysect) div ucast (csize fs) in
                  if nclst = 0 then (FR_NO_FILESYSTEM, 0, fs)
                  else
                    let fmt = if nclst \<le> MAX_FAT12 then FS_FAT12 else if nclst \<le> MAX_FAT16 then FS_FAT16 else FS_FAT32;
                        fs = fs\<lparr>n_fatent := nclst + 2, volbase := bsect, fatbase := bsect + ucast nrsv,
                          database := bsect + sysect\<rparr>
                    in
                    if fmt = FS_FAT32 \<and> ld_word w 42 \<noteq> 0 then (FR_NO_FILESYSTEM, 0, fs)
                    else if fmt = FS_FAT32 \<and> n_rootdir fs \<noteq> 0 then (FR_NO_FILESYSTEM, 0, fs)
                    else if fmt \<noteq> FS_FAT32 \<and> n_rootdir fs = 0 then (FR_NO_FILESYSTEM, 0, fs)
                    else
                      let (fs, szbfat) =
                        if fmt = FS_FAT32 then (fs\<lparr>dirbase := ld_dword w 44\<rparr>, n_fatent fs * 4)
                        else (fs\<lparr>dirbase := fatbase fs + fasize\<rparr>,
                          if fmt = FS_FAT16 then n_fatent fs * 2
                          else n_fatent fs * 3 div 2 + (n_fatent fs AND 1))
                      in
                      if fat_fsize fs < (szbfat + (SS - 1)) div SS then (FR_NO_FILESYSTEM, 0, fs)
                      else (FR_OK, fmt, fs))"

text \<open>\<open>find_volume\<close>, with its parts: the search for a FAT volume, its initialisation, and mounting. The result is
  the code, the path behind the drive number, and the state. On every return but the first two the file system
  object pointer is the registered one. Write protection is not looked at in the read-only configuration.\<close>

definition find_fat :: "'s disk_ops \<Rightarrow> 's ff \<Rightarrow> (u32 \<times> nat \<times> 's ff) option" where
  "find_fat D x = do {
     (fmt, x) \<leftarrow> check_fs D 0 x;
     if fmt = 2 then find_partition D (br_table (win (ff_fs x))) 0 fmt x else Some (0, fmt, x) }"

definition init_fs :: "u32 \<Rightarrow> 's ff \<Rightarrow> fresult \<times> 's ff" where
  "init_fs bsect x = (
     let (r, fmt, fs) = read_bpb bsect (ff_fs x) in
     if r \<noteq> FR_OK then (r, x\<lparr>ff_fs := fs\<rparr>)
     else (FR_OK, x\<lparr>Fsid := Fsid x + 1, ff_fs := fs\<lparr>fs_type := fmt, fat_id := Fsid x + 1\<rparr>\<rparr>))"

definition mount_volume :: "'s disk_ops \<Rightarrow> byte \<Rightarrow> 's ff \<Rightarrow> (fresult \<times> 's ff) option" where
  "mount_volume D vol x = do {
     let x = x\<lparr>ff_fs := (ff_fs x)\<lparr>fs_type := 0, drv := vol\<rparr>\<rparr>;
     (stat, d) \<leftarrow> dk_initialize D (drv (ff_fs x)) (ff_disk x);
     let x = x\<lparr>ff_disk := d\<rparr>;
     if stat AND STA_NOINIT \<noteq> 0 then Some (FR_NOT_READY, x)
     else do {
       (bsect, fmt, x) \<leftarrow> find_fat D x;
       Some (if fmt = 4 then (FR_DISK_ERR, x)
         else if 2 \<le> fmt then (FR_NO_FILESYSTEM, x)
         else init_fs bsect x) } }"

definition find_volume :: "'s disk_ops \<Rightarrow> byte list \<Rightarrow> 's ff \<Rightarrow> (fresult \<times> byte list \<times> 's ff) option" where
  "find_volume D path x =
     (let (vol, path) = get_ldnumber path in
      if vol < 0 then Some (FR_INVALID_DRIVE, path, x)
      else if \<not> FatFs x then Some (FR_NOT_ENABLED, path, x)
      else do {
        ready \<leftarrow> (if fs_type (ff_fs x) \<noteq> 0 then do {
            stat \<leftarrow> dk_status D (drv (ff_fs x));
            Some (stat AND STA_NOINIT = 0) }
          else Some False);
        if ready then Some (FR_OK, path, x)
        else do {
          (r, x) \<leftarrow> mount_volume D (word_of_int vol) x;
          Some (r, path, x) } })"

definition validate :: "'s disk_ops \<Rightarrow> fdid \<Rightarrow> 's ff \<Rightarrow> fresult option" where
  "validate D obj x =
     (if \<not> obj_fs obj \<or> fs_type (ff_fs x) = 0 \<or> fat_id (ff_fs x) \<noteq> obj_id obj then Some FR_INVALID_OBJECT
      else do {
        stat \<leftarrow> dk_status D (drv (ff_fs x));
        Some (if stat AND STA_NOINIT \<noteq> 0 then FR_INVALID_OBJECT else FR_OK) })"

text \<open>\<open>f_mount\<close>; \<open>fs\<close> says whether the file system object or a null pointer is registered.\<close>

definition ff_mount :: "'s disk_ops \<Rightarrow> bool \<Rightarrow> byte list \<Rightarrow> byte \<Rightarrow> 's ff \<Rightarrow> (fresult \<times> 's ff) option" where
  "ff_mount D fs path opt x =
     (if fst (get_ldnumber path) < 0 then Some (FR_INVALID_DRIVE, x)
      else
        let x = if FatFs x \<or> fs then x\<lparr>ff_fs := (ff_fs x)\<lparr>fs_type := 0\<rparr>\<rparr> else x;
            x = x\<lparr>FatFs := fs\<rparr>
        in
        if \<not> fs \<or> opt \<noteq> 1 then Some (FR_OK, x)
        else do {
          (r, _, x) \<leftarrow> find_volume D path x;
          Some (r, x) })"

section \<open>Numbers on the disk\<close>

lemma ld_word_le16: "ld_word m p = of_le16 (m p) (m (p + 1))"
  by (simp add: ld_word_def of_le16_def of_be16_def)

lemma unat_ld_word: "unat (ld_word m p) = unat (m p) + 256 * unat (m (p + 1))"
  by (simp add: ld_word_le16 unat_of_le16)

lemma unat_shift_in:
  assumes "unat (a :: u32) < 2 ^ 24"
  shows "unat (push_bit 8 a OR ucast (b :: byte)) = 256 * unat a + unat b"
proof -
  have "push_bit 8 a OR ucast b = push_bit 8 a + ucast b"
    by (subst disjunctive_add_eq_or) (auto simp: bit_simps intro!: bit_word_eqI)
  moreover have "push_bit 8 a = a * 256" by (simp add: push_bit_eq_mult)
  ultimately show ?thesis
    using assms unat_less[of b] by (simp add: unat_word_ariths unat_ucast_mod)
qed

lemma unat_ld_dword:
  "unat (ld_dword m p) = unat (m p) + 256 * (unat (m (p + 1)) + 256 * (unat (m (p + 2)) + 256 * unat (m (p + 3))))"
proof -
  let ?b = "\<lambda>i. unat (m (p + i))"
  have b: "?b i < 256" for i using unat_less[of "m (p + i)"] by simp
  have 3: "unat (ucast (m (p + 3)) :: u32) = ?b 3" using b[of 3] by (simp add: unat_ucast_mod)
  have 2: "unat (push_bit 8 (ucast (m (p + 3))) OR ucast (m (p + 2)) :: u32) = 256 * ?b 3 + ?b 2"
    by (subst unat_shift_in) (use 3 b[of 3] in simp_all)
  have 1: "unat (push_bit 8 (push_bit 8 (ucast (m (p + 3))) OR ucast (m (p + 2))) OR ucast (m (p + 1)) :: u32) =
      256 * (256 * ?b 3 + ?b 2) + ?b 1"
    by (subst unat_shift_in) (use 2 b[of 3] b[of 2] in simp_all)
  show ?thesis unfolding ld_dword_def Let_def
    by (subst unat_shift_in) (use 1 b[of 3] b[of 2] b[of 1] in simp_all)
qed

section \<open>The allocation table\<close>

text \<open>The part of the file system object that describes the volume. Reading only changes the window.\<close>

definition geo :: "fatfs \<Rightarrow> fatfs" where
  "geo fs = fs\<lparr>winsect := 0, win := \<lambda>_. 0\<rparr>"

definition core :: "'s ff \<Rightarrow> bool \<times> u16 \<times> (nat \<Rightarrow> u16) \<times> fatfs" where
  "core x = (FatFs x, Fsid x, LfnBuf x, geo (ff_fs x))"

lemma geo_eq_fields:
  assumes "geo fs = geo fs'"
  shows "fs_type fs = fs_type fs'" "drv fs = drv fs'" "fat_id fs = fat_id fs'" "n_rootdir fs = n_rootdir fs'"
    "csize fs = csize fs'" "n_fatent fs = n_fatent fs'" "fat_fsize fs = fat_fsize fs'" "fatbase fs = fatbase fs'"
    "dirbase fs = dirbase fs'" "database fs = database fs'" "volbase fs = volbase fs'" "wflag fs = wflag fs'"
  using assms by (cases fs; cases fs'; simp add: geo_def)+

lemma core_eqD:
  assumes "core x = core y"
  shows "FatFs x = FatFs y" "LfnBuf x = LfnBuf y" "geo (ff_fs x) = geo (ff_fs y)"
  using assms by (simp_all add: core_def)

lemmas core_fields = core_eqD geo_eq_fields[OF core_eqD(3)]

text \<open>The entry of a cluster in the table of the image, read as plain numbers, and the bytes the table needs.\<close>

definition fat_at :: "byte list \<Rightarrow> fatfs \<Rightarrow> nat \<Rightarrow> nat" where
  "fat_at img fs c = (
     let b = (\<lambda>i. unat (img ! (512 * unat (fatbase fs) + i))) in
     if fs_type fs = FS_FAT12 then
       (let v = b (c + c div 2) + 256 * b (c + c div 2 + 1) in if odd c then v div 16 else v mod 4096)
     else if fs_type fs = FS_FAT16 then b (2 * c) + 256 * b (2 * c + 1)
     else (b (4 * c) + 256 * (b (4 * c + 1) + 256 * (b (4 * c + 2) + 256 * b (4 * c + 3)))) mod 2 ^ 28)"

definition fat_bytes :: "fatfs \<Rightarrow> nat" where
  "fat_bytes fs = (let n = unat (n_fatent fs) in
     if fs_type fs = FS_FAT12 then n * 3 div 2 + n mod 2 else if fs_type fs = FS_FAT16 then 2 * n else 4 * n)"

text \<open>What mounting establishes about the object whatever is on the disk, and what it takes for table and data to lie in
  the image.\<close>

definition geom :: "fatfs \<Rightarrow> bool" where
  "geom fs \<longleftrightarrow> fs_type fs \<in> {FS_FAT12, FS_FAT16, FS_FAT32} \<and> 2 < n_fatent fs \<and>
     (\<exists>k \<le> 7. unat (csize fs) = 2 ^ k) \<and> 16 dvd unat (n_rootdir fs) \<and>
     (fs_type fs = FS_FAT32 \<longleftrightarrow> n_rootdir fs = 0) \<and>
     (fs_type fs = FS_FAT12 \<longrightarrow> n_fatent fs \<le> 0xff7) \<and> (fs_type fs = FS_FAT16 \<longrightarrow> n_fatent fs \<le> 0xfff7)"

definition vol_ok :: "byte list \<Rightarrow> fatfs \<Rightarrow> bool" where
  "vol_ok img fs \<longleftrightarrow> geom fs \<and> fat_bytes fs \<le> 512 * unat (fat_fsize fs) \<and>
     512 * (unat (fatbase fs) + unat (fat_fsize fs)) \<le> length img \<and>
     0 < database fs \<and> 512 * (unat (database fs) + (unat (n_fatent fs) - 2) * unat (csize fs)) \<le> length img \<and>
     (fs_type fs \<noteq> FS_FAT32 \<longrightarrow> 0 < dirbase fs \<and> 512 * unat (dirbase fs) + 32 * unat (n_rootdir fs) \<le> length img)"

definition win_ok :: "byte list \<Rightarrow> fatfs \<Rightarrow> bool" where
  "win_ok img fs \<longleftrightarrow> winsect fs = 0xffffffff \<or>
     (512 * (unat (winsect fs) + 1) \<le> length img \<and> (\<forall>i < 512. win fs i = img ! (512 * unat (winsect fs) + i)))"

lemma SS_facts: "unat SS = 512" "SS = 512" "unat (SS div 2) = 256" "unat (SS div 4) = 128"
  by (simp_all add: SS_def MAX_SS_def)

lemma mod_sector: "2 * c mod 512 = 2 * (c mod 256)" "4 * c mod 512 = 4 * (c mod 128)" for c :: nat
  using mult_mod_right[of 2 c 256] mult_mod_right[of 4 c 128] by simp_all

lemma sector_fits: "512 * (a + s) \<le> (L :: nat) \<Longrightarrow> d < s \<Longrightarrow> 512 * (a + d + 1) \<le> L"
  by (rule order_trans[of _ "512 * (a + s)"]) simp_all

lemma table_sector:
  assumes "512 * (unat fb + sz) \<le> L" "L \<le> 2 ^ 32" "p < 512 * sz" "unat w = p"
  shows "512 * (unat (fb + w div SS) + 1) \<le> L" "512 * unat (fb + w div SS :: u32) + unat (w mod SS) = 512 * unat fb + p"
    "unat (w mod SS) < 512"
proof -
  have "unat fb + p div 512 < 4294967296" using assms(1,2,3) by simp
  then have q: "unat (fb + w div SS) = unat fb + p div 512"
    using assms(4) by (simp add: unat_word_ariths unat_div SS_facts)
  have "p div 512 < sz" using assms(3) by (simp add: less_mult_imp_div_less mult.commute)
  then show "512 * (unat (fb + w div SS) + 1) \<le> L" unfolding q using sector_fits[OF assms(1)] by simp
  show "512 * unat (fb + w div SS :: u32) + unat (w mod SS) = 512 * unat fb + p"
    unfolding q using assms(4) by (simp add: unat_mod SS_facts)
  show "unat (w mod SS) < 512" by (simp add: unat_mod SS_facts)
qed

lemma fat12_room: "(c :: nat) < n \<Longrightarrow> n * 3 div 2 + n mod 2 \<le> L \<Longrightarrow> c + c div 2 + 1 < L"
  by (cases "even n") (auto elim!: evenE oddE)

lemma unat_le_mod: "unat ((w :: u32) AND 0xfff) = unat w mod 4096" "unat (w AND 0x0fffffff) = unat w mod 2 ^ 28"
  "w AND 1 = (0 :: u32) \<longleftrightarrow> even (unat w)"
proof -
  have "w AND 0xfff = take_bit 12 w" "w AND 0x0fffffff = take_bit 28 w" "w AND 1 = take_bit 1 w"
    by (simp_all add: take_bit_eq_mask mask_eq_exp_minus_1)
  then have "unat (w AND 0xfff) = unat (take_bit 12 w)" "unat (w AND 0x0fffffff) = unat (take_bit 28 w)"
    "unat (w AND 1) = unat (take_bit 1 w)" by simp_all
  then show "unat (w AND 0xfff) = unat w mod 4096" "unat (w AND 0x0fffffff) = unat w mod 2 ^ 28"
    "w AND 1 = 0 \<longleftrightarrow> even (unat w)"
    unfolding unsigned_take_bit_eq word_unat_eq_iff by (simp_all add: take_bit_eq_mod even_iff_mod_2_eq_zero)
qed

lemma ucast_bytes: "unat (ucast (a :: byte) OR push_bit 8 (ucast (b :: byte)) :: u32) = unat a + 256 * unat b"
proof -
  have "unat (ucast b :: u32) = unat b" using unat_less[of b] by (simp add: unat_ucast_mod)
  then show ?thesis using unat_shift_in[of "ucast b" a] unat_less[of b] by (simp add: or.commute)
qed

text \<open>The contract of a disk that shows an image: reads within it succeed.\<close>

locale sector_source =
  fixes D :: "'s disk_ops" and good :: "'s \<Rightarrow> bool" and img :: "byte list"
  assumes sectors: "good d \<Longrightarrow> 0 < c \<Longrightarrow> 512 * (n + c) \<le> length img \<Longrightarrow> 512 * c < 2 ^ 32 \<Longrightarrow>
      \<exists>d'. dk_read D 0 (of_nat n) (of_nat c) d = Some (0, take (512 * c) (drop (512 * n) img), d') \<and> good d'"
    and ready: "dk_status D 0 = Some 0"
    and img_size: "good d \<Longrightarrow> length img \<le> 2 ^ 32"
begin

definition src :: "'s ff \<Rightarrow> bool" where
  "src x \<longleftrightarrow> good (ff_disk x) \<and> drv (ff_fs x) = 0 \<and> win_ok img (ff_fs x)"

lemma src_size: "src x \<Longrightarrow> length img \<le> 2 ^ 32"
  unfolding src_def by (blast intro: img_size)

lemma read_sector_ok:
  assumes "good (ff_disk x)" "drv (ff_fs x) = 0" "512 * (unat sec + 1) \<le> length img"
  shows "\<exists>m d. read_sector D sec buf x = Some (0, m, x\<lparr>ff_disk := d\<rparr>) \<and> good d \<and>
    (\<forall>i < 512. m i = img ! (512 * unat sec + i))"
proof -
  obtain d where d: "dk_read D 0 sec 1 (ff_disk x) = Some (0, take 512 (drop (512 * unat sec) img), d)" "good d"
    using sectors[OF assms(1), of 1 "unat sec"] assms(3) by auto
  then show ?thesis using assms
    by (auto simp: read_sector_def MAX_SS_def mem_put_def)
qed

lemma move_window_ok:
  assumes "src x" "512 * (unat sec + 1) \<le> length img"
  shows "\<exists>x'. move_window D sec x = Some (FR_OK, x') \<and> src x' \<and> core x' = core x \<and>
    (\<forall>i < 512. win (ff_fs x') i = img ! (512 * unat sec + i))"
proof (cases "sec = winsect (ff_fs x)")
  case True
  have "sec \<noteq> 0xffffffff" using assms(2) src_size[OF assms(1)] by (auto simp: word_unat_eq_iff)
  with True assms show ?thesis by (auto simp: move_window_def src_def win_ok_def)
next
  case False
  obtain m d where "read_sector D sec (win (ff_fs x)) x = Some (0, m, x\<lparr>ff_disk := d\<rparr>)" "good d"
    "\<forall>i < 512. m i = img ! (512 * unat sec + i)"
    using read_sector_ok[of x sec] assms unfolding src_def by blast
  with False assms show ?thesis
    by (simp add: move_window_def src_def win_ok_def core_def geo_def)
qed


lemma get_fat_ok:
  assumes "src x" "vol_ok img (ff_fs x)" "2 \<le> clst" "clst < n_fatent (ff_fs x)"
  shows "\<exists>v x'. get_fat D clst x = Some (v, x') \<and> unat v = fat_at img (ff_fs x) (unat clst) \<and> src x' \<and> core x' = core x"
proof -
  let ?fs = "ff_fs x" and ?c = "unat clst"
  have tab: "512 * (unat (fatbase ?fs) + unat (fat_fsize ?fs)) \<le> length img" "fat_bytes ?fs \<le> 512 * unat (fat_fsize ?fs)"
    and ty: "fs_type ?fs \<in> {FS_FAT12, FS_FAT16, FS_FAT32}"
    and lim: "fs_type ?fs = FS_FAT12 \<Longrightarrow> unat (n_fatent ?fs) \<le> 0xff7" "fs_type ?fs = FS_FAT16 \<Longrightarrow> unat (n_fatent ?fs) \<le> 0xfff7"
    using assms(2) by (auto simp: vol_ok_def geom_def word_le_nat_alt)
  have c: "?c < unat (n_fatent ?fs)" "\<not> clst < 2" "\<not> n_fatent ?fs \<le> clst"
    using assms(3,4) by (simp_all add: word_less_nat_alt word_le_nat_alt)
  consider (12) "fs_type ?fs = FS_FAT12" | (16) "fs_type ?fs = FS_FAT16" | (32) "fs_type ?fs = FS_FAT32" using ty by blast
  then show ?thesis
  proof cases
    case 12
    let ?bc = "clst + clst div 2" and ?p = "?c + ?c div 2"
    have cl: "?c < 0xff7" using c(1) lim(1)[OF 12] by simp
    have p: "unat ?bc = ?p" "unat (?bc + 1) = ?p + 1" using cl by (simp_all add: unat_word_ariths unat_div)
    have "?p + 1 < 512 * unat (fat_fsize ?fs)"
      using fat12_room[OF c(1)] tab(2) 12 by (simp add: fat_bytes_def Let_def)
    then have b: "?p < 512 * unat (fat_fsize ?fs)" "?p + 1 < 512 * unat (fat_fsize ?fs)" by simp_all
    note s1 = table_sector[OF tab(1) src_size[OF assms(1)] b(1) p(1)] and s2 = table_sector[OF tab(1) src_size[OF assms(1)] b(2) p(2)]
    obtain x1 where x1: "move_window D (fatbase ?fs + ?bc div SS) x = Some (FR_OK, x1)" "src x1" "core x1 = core x"
      "win (ff_fs x1) (unat (?bc mod SS)) = img ! (512 * unat (fatbase ?fs) + ?p)"
      using move_window_ok[OF assms(1) s1(1)] s1(2,3) by metis
    obtain x2 where x2: "move_window D (fatbase ?fs + (?bc + 1) div SS) x1 = Some (FR_OK, x2)" "src x2" "core x2 = core x1"
      "win (ff_fs x2) (unat ((?bc + 1) mod SS)) = img ! (512 * unat (fatbase ?fs) + (?p + 1))"
      using move_window_ok[OF x1(2) s2(1)] s2(2,3) by metis
    let ?v = "ucast (img ! (512 * unat (fatbase ?fs) + ?p)) OR push_bit 8 (ucast (img ! (512 * unat (fatbase ?fs) + (?p + 1)))) :: u32"
    have "get_fat D clst x = Some (if clst AND 1 \<noteq> 0 then drop_bit 4 ?v else ?v AND 0xfff, x2)"
      using c 12 x1 x2 by (simp add: get_fat_def Let_def)
    then show ?thesis using x1 x2 12
      unfolding fat_at_def by (simp add: Let_def drop_bit_eq_div unat_div unat_le_mod ucast_bytes add.assoc)
  next
    case 16
    let ?i = "unat (clst * 2 mod SS)"
    have i: "?i = 2 * ?c mod 512" using c(1) lim(2)[OF 16] by (simp add: unat_word_ariths SS_facts mult.commute)
    have q: "unat (clst div (SS div 2)) = ?c div 256" by (simp add: unat_div SS_facts)
    have b: "2 * ?c < 512 * unat (fat_fsize ?fs)"
      using tab(2) c(1) 16 by (simp add: fat_bytes_def vol_consts Let_def)
    have f: "unat (fatbase ?fs + clst div (SS div 2)) = unat (fatbase ?fs) + ?c div 256"
      using tab(1) b src_size[OF assms(1)] q by (simp add: unat_word_ariths)
    have r: "512 * (unat (fatbase ?fs + clst div (SS div 2)) + 1) \<le> length img"
      unfolding f using b by (intro sector_fits[OF tab(1)]) (simp add: less_mult_imp_div_less)
    obtain x1 where x1: "move_window D (fatbase ?fs + clst div (SS div 2)) x = Some (FR_OK, x1)" "src x1" "core x1 = core x"
      "\<forall>i < 512. win (ff_fs x1) i = img ! (512 * unat (fatbase ?fs + clst div (SS div 2)) + i)"
      using move_window_ok[OF assms(1) r] by blast
    have e: "512 * (?c div 256) + ?i = 2 * ?c" "?i + 1 < 512"
      using mult_div_mod_eq[of 256 ?c] mod_less_divisor[of 256 ?c] unfolding i mod_sector by linarith+
    have w: "win (ff_fs x1) (?i + k) = img ! (512 * unat (fatbase ?fs) + (2 * ?c + k))" if "k < 2" for k
    proof -
      have "win (ff_fs x1) (?i + k) = img ! (512 * unat (fatbase ?fs + clst div (SS div 2)) + (?i + k))"
        using x1(4) e(2) that by simp
      also have "512 * unat (fatbase ?fs + clst div (SS div 2)) + (?i + k) = 512 * unat (fatbase ?fs) + (2 * ?c + k)"
        unfolding f by (simp add: distrib_left flip: e(1))
      finally show ?thesis .
    qed
    have "unat (ld_word (win (ff_fs x1)) ?i) = fat_at img ?fs ?c"
      using 16 w[of 0] w[of 1] by (simp add: unat_ld_word fat_at_def Let_def FS_FAT12_def FS_FAT16_def)
    moreover have "get_fat D clst x = Some (ucast (ld_word (win (ff_fs x1)) ?i), x1)"
      using c 16 x1 by (simp add: get_fat_def Let_def FS_FAT12_def FS_FAT16_def)
    ultimately show ?thesis using x1 unat_less[of "ld_word (win (ff_fs x1)) ?i"] by (simp add: unat_ucast_mod)
  next
    case 32
    let ?i = "unat (clst * 4 mod SS)"
    have b: "4 * ?c + 3 < 512 * unat (fat_fsize ?fs)"
      using tab(2) c(1) 32 by (simp add: fat_bytes_def vol_consts Let_def)
    have i: "?i = 4 * ?c mod 512" by (simp add: unat_word_ariths SS_facts mod_mod_cancel mult.commute)
    have q: "unat (clst div (SS div 4)) = ?c div 128" by (simp add: unat_div SS_facts)
    have f: "unat (fatbase ?fs + clst div (SS div 4)) = unat (fatbase ?fs) + ?c div 128"
      using tab(1) b src_size[OF assms(1)] q by (simp add: unat_word_ariths)
    have r: "512 * (unat (fatbase ?fs + clst div (SS div 4)) + 1) \<le> length img"
      unfolding f using b by (intro sector_fits[OF tab(1)]) (simp add: less_mult_imp_div_less)
    obtain x1 where x1: "move_window D (fatbase ?fs + clst div (SS div 4)) x = Some (FR_OK, x1)" "src x1" "core x1 = core x"
      "\<forall>i < 512. win (ff_fs x1) i = img ! (512 * unat (fatbase ?fs + clst div (SS div 4)) + i)"
      using move_window_ok[OF assms(1) r] by blast
    have e: "512 * (?c div 128) + ?i = 4 * ?c" "?i + 3 < 512"
      using mult_div_mod_eq[of 128 ?c] mod_less_divisor[of 128 ?c] unfolding i mod_sector by linarith+
    have w: "win (ff_fs x1) (?i + k) = img ! (512 * unat (fatbase ?fs) + (4 * ?c + k))" if "k < 4" for k
    proof -
      have "win (ff_fs x1) (?i + k) = img ! (512 * unat (fatbase ?fs + clst div (SS div 4)) + (?i + k))"
        using x1(4) e(2) that by simp
      also have "512 * unat (fatbase ?fs + clst div (SS div 4)) + (?i + k) = 512 * unat (fatbase ?fs) + (4 * ?c + k)"
        unfolding f by (simp add: distrib_left flip: e(1))
      finally show ?thesis .
    qed
    have "unat (ld_dword (win (ff_fs x1)) ?i AND 0x0fffffff) = fat_at img ?fs ?c"
      using 32 w[of 0] w[of 1] w[of 2] w[of 3] unfolding unat_le_mod unat_ld_dword
      by (simp add: fat_at_def Let_def FS_FAT12_def FS_FAT16_def FS_FAT32_def)
    moreover have "get_fat D clst x = Some (ld_dword (win (ff_fs x1)) ?i AND 0x0fffffff, x1)"
      using c 32 x1 by (simp add: get_fat_def Let_def FS_FAT12_def FS_FAT16_def FS_FAT32_def)
    ultimately show ?thesis using x1 by simp
  qed
qed

end

section \<open>Mounting\<close>

lemma pow2_byte:
  assumes "(w :: u16) AND (w - 1) = 0" "w = ucast (c :: byte)" "c \<noteq> 0"
  shows "\<exists>k \<le> 7. unat c = 2 ^ k"
proof -
  have "unat w = unat c" "unat c < 256" using unat_less[of c] by (simp_all add: assms(2) unat_ucast_mod)
  moreover have "0 < unat c" using assms(3) by (simp add: unat_gt_0)
  moreover from calculation have "w \<noteq> 0" by auto
  ultimately have u: "unat w = unat c" "unat c < 256" "0 < unat c" "unat (w - 1) = unat c - 1"
    by (simp_all add: unat_minus_one)
  obtain k where k: "2 ^ k \<le> unat c" "unat c < 2 ^ (k + 1)" using ex_power_ivl1[of 2 "unat c"] u(3) by auto
  have "k \<le> 7" using k(1) u(2) power_increasing[of 8 k "2 :: nat"] by (cases "8 \<le> k") auto
  moreover have "unat c = 2 ^ k"
  proof (rule ccontr)
    assume "unat c \<noteq> 2 ^ k"
    then have "unat c div 2 ^ k = 1" "(unat c - 1) div 2 ^ k = 1" using k by (auto intro!: div_nat_eqI)
    then have "bit (unat w) k" "bit (unat (w - 1)) k" by (simp_all add: u bit_iff_odd)
    then have "bit w k" "bit (w - 1) k" by (simp_all add: bit_unsigned_iff)
    then have "bit (w AND (w - 1)) k" by (simp add: bit_and_iff)
    with assms(1) show False by simp
  qed
  ultimately show ?thesis by blast
qed

lemma read_bpb_facts:
  assumes "read_bpb b fs = (FR_OK, fmt, fs')"
  shows "csize fs' = ucast (win fs 13) \<and> csize fs' \<noteq> 0 \<and> csize fs' AND (csize fs' - 1) = 0 \<and>
    n_rootdir fs' mod ucast (SS div SZDIRE) = 0 \<and>
    n_fatent fs' - 2 \<noteq> 0 \<and>
    fmt = (if n_fatent fs' - 2 \<le> MAX_FAT12 then FS_FAT12 else if n_fatent fs' - 2 \<le> MAX_FAT16 then FS_FAT16 else FS_FAT32) \<and>
    (fmt = FS_FAT32 \<longleftrightarrow> n_rootdir fs' = 0) \<and>
    \<not> fat_fsize fs' < ((if fmt = FS_FAT32 then n_fatent fs' * 4 else if fmt = FS_FAT16 then n_fatent fs' * 2
                          else n_fatent fs' * 3 div 2 + (n_fatent fs' AND 1)) + (SS - 1)) div SS"
proof -
  have neq: "FS_FAT12 \<noteq> FS_FAT32" "FS_FAT16 \<noteq> FS_FAT32" "FS_FAT12 \<noteq> FS_FAT16" by (simp_all add: vol_consts)
  show ?thesis
  using assms neq unfolding read_bpb_def Let_def
  by (simp split: if_split_asm prod.split_asm del: not_less) (elim conjE, hypsubst, simp)+
qed
text \<open>The type is the one that belongs to the number of clusters: 12 bits up to 4085 clusters, 16 bits up to 65525, 32 bits
  beyond (the limits \<open>MAX_FAT12\<close> and \<open>MAX_FAT16\<close> of the code).\<close>

definition type_fits :: "fatfs \<Rightarrow> bool" where
  "type_fits fs \<longleftrightarrow> (let clusters = unat (n_fatent fs) - 2 in
     fs_type fs = (if clusters \<le> 4085 then FS_FAT12 else if clusters \<le> 65525 then FS_FAT16 else FS_FAT32))"

text \<open>The invariant of the file system object: it is not mounted, or, unless the number of clusters is beyond what FAT32 can
  have (a limit the code does not check, and beyond which its arithmetic wraps around), its geometry is sound, its type fits the number of clusters, and the table
  has room for an entry of every cluster.\<close>

definition mount_inv :: "fatfs \<Rightarrow> bool" where
  "mount_inv fs \<longleftrightarrow> fs_type fs = 0 \<or>
     (2 < n_fatent fs \<and> n_fatent fs < 2 ^ 28 \<longrightarrow> geom fs \<and> type_fits fs \<and> fat_bytes fs \<le> 512 * unat (fat_fsize fs))"

lemma div_SS_le:
  assumes "\<not> f < (w + (SS - 1)) div SS" "unat w + 511 < 2 ^ 32"
  shows "unat w \<le> 512 * unat (f :: u32)"
proof -
  have "unat ((w + (SS - 1)) div SS) = (unat w + 511) div 512"
    using assms(2) by (simp add: unat_div SS_facts unat_word_ariths)
  then have "(unat w + 511) div 512 \<le> unat f" using assms(1) by (simp add: word_less_nat_alt)
  then have "(unat w + 511) div 512 * 512 \<le> unat f * 512" by simp
  moreover have "unat w \<le> (unat w + 511) div 512 * 512" using div_mult_mod_eq[of "unat w + 511" 512] mod_less_divisor[of 512 "unat w + 511"] by linarith
  ultimately show ?thesis by simp
qed

lemma read_bpb_inv:
  assumes "read_bpb b fs = (FR_OK, fmt, fs')"
  shows "mount_inv (fs'\<lparr>fs_type := fmt, fat_id := i\<rparr>)"
proof (cases "2 < n_fatent fs' \<and> n_fatent fs' < 2 ^ 28")
  case True
  let ?n = "unat (n_fatent fs')"
  note f = read_bpb_facts[OF assms]
  have n: "2 < ?n" "?n < 2 ^ 28" using True by (simp_all add: word_less_nat_alt)
  then have n2: "unat (n_fatent fs' - 2) = ?n - 2" by (simp add: unat_sub_if')
  have neq: "FS_FAT12 \<noteq> FS_FAT32" "FS_FAT16 \<noteq> FS_FAT32" "FS_FAT12 \<noteq> FS_FAT16" by (simp_all add: vol_consts)
  have lim: "fmt = FS_FAT12 \<Longrightarrow> n_fatent fs' \<le> 0xff7" "fmt = FS_FAT16 \<Longrightarrow> n_fatent fs' \<le> 0xfff7"
    using f neq n2 by (auto simp: MAX_FAT12_def MAX_FAT16_def word_le_nat_alt split: if_splits)
  have fits: "type_fits (fs'\<lparr>fs_type := fmt, fat_id := i\<rparr>)"
    using f n2 by (auto simp: type_fits_def Let_def MAX_FAT12_def MAX_FAT16_def word_le_nat_alt split: if_splits)
  have "win fs 13 \<noteq> 0" using f by auto
  then have "\<exists>k \<le> 7. unat (win fs 13) = 2 ^ k" using f by (intro pow2_byte[of "csize fs'"]) auto
  then have k: "\<exists>k \<le> 7. unat (csize fs') = 2 ^ k"
    using f unat_less[of "win fs 13"] by (auto simp: unat_ucast_mod)
  have r: "16 dvd unat (n_rootdir fs')"
    using f by (simp add: word_unat_eq_iff unat_mod vol_consts unat_ucast_mod unat_div dvd_eq_mod_eq_0)
  have "fat_bytes (fs'\<lparr>fs_type := fmt, fat_id := i\<rparr>) \<le> 512 * unat (fat_fsize fs')"
  proof -
    consider "fmt = FS_FAT12" | "fmt = FS_FAT16" | "fmt = FS_FAT32" using f by metis
    then show ?thesis
    proof cases
      case 1
      have m: "n_fatent fs' AND 1 = n_fatent fs' mod 2" by (simp add: and_one_eq)
      have "?n \<le> 0xff7" using lim(1)[OF 1] by (simp add: word_le_nat_alt)
      then have "unat (n_fatent fs' * 3 div 2 + (n_fatent fs' AND 1)) = ?n * 3 div 2 + ?n mod 2"
        unfolding m by (simp add: unat_word_ariths unat_div unat_mod)
      moreover have "?n * 3 div 2 + ?n mod 2 + 511 < 2 ^ 32"
        using \<open>?n \<le> 0xff7\<close> div_le_dividend[of "?n * 3" 2] mod_less_divisor[of 2 ?n] by simp
      moreover have "\<not> fat_fsize fs' < (n_fatent fs' * 3 div 2 + (n_fatent fs' AND 1) + (SS - 1)) div SS"
        using f 1 neq by simp
      ultimately show ?thesis
        using div_SS_le[of "fat_fsize fs'" "n_fatent fs' * 3 div 2 + (n_fatent fs' AND 1)"] 1
        by (simp add: fat_bytes_def Let_def)
    next
      case 2
      have "unat (n_fatent fs' * 2) = ?n * 2" using n by (simp add: unat_word_ariths)
      moreover have "\<not> fat_fsize fs' < (n_fatent fs' * 2 + (SS - 1)) div SS" using f 2 neq by simp
      ultimately show ?thesis
        using div_SS_le[of "fat_fsize fs'" "n_fatent fs' * 2"] n 2 neq by (simp add: fat_bytes_def Let_def mult.commute)
    next
      case 3
      have "unat (n_fatent fs' * 4) = ?n * 4" using n by (simp add: unat_word_ariths)
      moreover have "\<not> fat_fsize fs' < (n_fatent fs' * 4 + (SS - 1)) div SS" using f 3 neq by simp
      ultimately show ?thesis
        using div_SS_le[of "fat_fsize fs'" "n_fatent fs' * 4"] n 3 neq by (simp add: fat_bytes_def Let_def mult.commute)
    qed
  qed
  with f neq lim k r n fits show ?thesis
    unfolding mount_inv_def geom_def by (auto simp: word_less_nat_alt)
qed (auto simp: mount_inv_def)

text \<open>Nothing but a successful mount changes the type, whatever the disk does.\<close>

lemma move_window_type: "move_window D sec x = Some (r, y) \<Longrightarrow> fs_type (ff_fs y) = fs_type (ff_fs x)"
  by (auto simp: move_window_def read_sector_def bind_Some_iff split: if_splits)

lemma check_fs_type: "check_fs D sec x = Some (r, y) \<Longrightarrow> fs_type (ff_fs y) = fs_type (ff_fs x)"
  by (auto simp: check_fs_def bind_Some_iff Let_def dest!: move_window_type)

lemma find_partition_type:
  "find_partition D br b fmt x = Some (b', fmt', y) \<Longrightarrow> fs_type (ff_fs y) = fs_type (ff_fs x)"
  by (induction br arbitrary: b fmt x)
     (auto simp: bind_Some_iff split: if_splits dest!: check_fs_type)

definition keeps :: "fatfs \<Rightarrow> fresult \<times> byte \<times> fatfs \<Rightarrow> bool" where
  "keeps fs t \<longleftrightarrow> (let g = snd (snd t) in
     fs_type g = fs_type fs \<and> drv g = drv fs \<and> wflag g = wflag fs \<and> fat_id g = fat_id fs)"

lemma keeps_if: "keeps fs s \<Longrightarrow> keeps fs t \<Longrightarrow> keeps fs (if c then s else t)"
  by simp

lemma read_bpb_keeps: "keeps fs (read_bpb b fs)"
  unfolding read_bpb_def Let_def by (intro keeps_if) (simp_all add: keeps_def split: prod.split)

lemma read_bpb_type: "read_bpb b fs = (r, fmt, fs') \<Longrightarrow> fs_type fs' = fs_type fs"
  using read_bpb_keeps[of fs b] by (simp add: keeps_def Let_def)

lemma find_fat_type: "find_fat D x = Some (b, fmt, y) \<Longrightarrow> fs_type (ff_fs y) = fs_type (ff_fs x)"
  by (auto simp: find_fat_def bind_Some_iff split: if_splits dest!: check_fs_type find_partition_type)

lemma init_fs_inv:
  assumes "fs_type (ff_fs x) = 0"
  shows "mount_inv (ff_fs (snd (init_fs b x)))"
proof -
  obtain r fmt fs where b: "read_bpb b (ff_fs x) = (r, fmt, fs)" by (metis prod_cases3)
  then have "fs_type fs = 0" using read_bpb_type assms by metis
  moreover have "mount_inv (fs\<lparr>fs_type := fmt, fat_id := Fsid x + 1\<rparr>)" if "r = FR_OK" using read_bpb_inv b that by metis
  ultimately show ?thesis using b by (cases "r = FR_OK") (simp_all add: init_fs_def mount_inv_def)
qed

lemma mount_volume_inv:
  assumes "mount_volume D vol x = Some (r, y)"
  shows "mount_inv (ff_fs y)"
proof -
  let ?x = "x\<lparr>ff_fs := (ff_fs x)\<lparr>fs_type := 0, drv := vol\<rparr>\<rparr>"
  obtain stat d where i: "dk_initialize D vol (ff_disk x) = Some (stat, d)"
    using assms by (auto simp: mount_volume_def bind_Some_iff Let_def)
  show ?thesis
  proof (cases "stat AND STA_NOINIT = 0")
    case True
    then obtain b fmt x2 where f: "find_fat D (?x\<lparr>ff_disk := d\<rparr>) = Some (b, fmt, x2)"
      "(r, y) = (if fmt = 4 then (FR_DISK_ERR, x2) else if 2 \<le> fmt then (FR_NO_FILESYSTEM, x2) else init_fs b x2)"
      using assms i by (auto simp: mount_volume_def bind_Some_iff Let_def)
    have t: "fs_type (ff_fs x2) = 0" using find_fat_type[OF f(1)] by simp
    then show ?thesis using f(2) init_fs_inv[OF t, of b]
      by (cases "init_fs b x2") (auto simp: mount_inv_def split: if_splits)
  qed (use assms i in \<open>auto simp: mount_volume_def Let_def mount_inv_def\<close>)
qed

text \<open>C25. Mounting keeps the invariant of the file system object, whatever the disk answers and whatever it contains: an object that is
  mounted has a consistent geometry (\<open>geom\<close>: clusters of a power of two of sectors, a root directory of whole sectors if and only if it is not FAT32),
  the FAT type that belongs to its number of clusters (\<open>type_fits\<close>), and its allocation table has room for the entries of all clusters, as long as there are less than \<open>2 ^ 28\<close> of them.\<close>

theorem find_volume_inv:
  assumes "mount_inv (ff_fs x)" "find_volume D path x = Some (r, rest, y)"
  shows "mount_inv (ff_fs y)"
  using assms
  by (auto simp: find_volume_def bind_Some_iff split: if_splits prod.splits dest: mount_volume_inv)

section \<open>The volume of an image\<close>

text \<open>What the first 512 bytes at a sector make of a file system object, and which sector is mounted: sector 0 if it is a FAT boot
  sector, otherwise the first entry of its partition table that leads to one.\<close>

definition sector_at :: "byte list \<Rightarrow> u32 \<Rightarrow> mem" where
  "sector_at img b = (\<lambda>i. img ! (512 * unat b + i))"

definition blank :: "mem \<Rightarrow> fatfs" where
  "blank w = \<lparr>fs_type = 0, drv = 0, n_fats = 0, wflag = 0, fat_id = 0, n_rootdir = 0, csize = 0, n_fatent = 0, fat_fsize = 0,
     volbase = 0, fatbase = 0, dirbase = 0, database = 0, winsect = 0, win = w\<rparr>"

definition has_sig :: "mem \<Rightarrow> bool" where
  "has_sig w \<longleftrightarrow> ld_word w 510 = 0xaa55"

definition fat_vbr :: "mem \<Rightarrow> bool" where
  "fat_vbr w \<longleftrightarrow> has_sig w \<and> (w 0 = 0xe9 \<or> (w 0 = 0xeb \<and> w 2 = 0x90)) \<and>
     (ld_dword w 54 AND 0xffffff = 0x544146 \<or> ld_dword w 82 = 0x33544146)"

definition boots :: "byte list \<Rightarrow> u32 \<Rightarrow> bool" where
  "boots img b \<longleftrightarrow> 512 * (unat b + 1) \<le> length img \<and> fat_vbr (sector_at img b) \<and>
     (b = 0 \<or> has_sig (sector_at img 0) \<and> \<not> fat_vbr (sector_at img 0) \<and>
       (\<exists>pre post. br_table (sector_at img 0) = pre @ b # post \<and>
         (\<forall>p \<in> set pre. p = 0 \<or> 512 * (unat p + 1) \<le> length img \<and> \<not> fat_vbr (sector_at img p))))"

definition fat_volume :: "byte list \<Rightarrow> u32 \<Rightarrow> fatfs \<Rightarrow> bool" where
  "fat_volume img b g \<longleftrightarrow> boots img b \<and> vol_ok img g \<and>
     (\<exists>fmt g'. read_bpb b (blank (sector_at img b)) = (FR_OK, fmt, g') \<and> g = geo (g'\<lparr>fs_type := fmt\<rparr>))"

lemma ld_cong:
  assumes "\<forall>i < 512. m i = w i"
  shows "p + 1 < 512 \<Longrightarrow> ld_word m p = ld_word w p" "p + 3 < 512 \<Longrightarrow> ld_dword m p = ld_dword w p"
  using assms by (simp_all add: ld_word_def ld_dword_def)

lemma fat_vbr_cong:
  assumes "\<forall>i < 512. m i = w i"
  shows "has_sig m = has_sig w" "fat_vbr m = fat_vbr w" "br_table m = br_table w"
  using assms by (simp_all add: has_sig_def fat_vbr_def br_table_def ld_cong[OF assms])

definition bpb_rel :: "fatfs \<Rightarrow> fresult \<times> byte \<times> fatfs \<Rightarrow> fresult \<times> byte \<times> fatfs \<Rightarrow> bool" where
  "bpb_rel fs s t \<longleftrightarrow> fst s = fst t \<and> fst (snd s) = fst (snd t) \<and>
     (fst s = FR_OK \<longrightarrow> snd (snd t) = (snd (snd s))\<lparr>fs_type := fs_type fs, drv := drv fs, wflag := wflag fs, fat_id := fat_id fs,
       winsect := winsect fs, win := win fs\<rparr>)"

lemma bpb_rel_if: "c = c' \<Longrightarrow> bpb_rel fs s s' \<Longrightarrow> bpb_rel fs t t' \<Longrightarrow> bpb_rel fs (if c then s else t) (if c' then s' else t')"
  by simp

lemma bpb_rel_case: "c = c' \<Longrightarrow> bpb_rel fs (f (fst s) (snd s)) (f' (fst s') (snd s')) \<Longrightarrow>
    bpb_rel fs (f (fst t) (snd t)) (f' (fst t') (snd t')) \<Longrightarrow>
    bpb_rel fs (case if c then s else t of (a, b) \<Rightarrow> f a b) (case if c' then s' else t' of (a, b) \<Rightarrow> f' a b)"
  by (simp add: case_prod_beta)

lemma bpb_rel_fail: "bpb_rel fs (FR_NO_FILESYSTEM, 0, g) (FR_NO_FILESYSTEM, 0, g')"
  by (simp add: bpb_rel_def)

lemma read_bpb_blank:
  assumes "read_bpb b (blank w) = (FR_OK, fmt, g)" "\<forall>i < 512. win fs i = w i"
  shows "read_bpb b fs = (FR_OK, fmt, g\<lparr>fs_type := fs_type fs, drv := drv fs, wflag := wflag fs, fat_id := fat_id fs,
    winsect := winsect fs, win := win fs\<rparr>)"
proof -
  note c = ld_cong[OF assms(2)]
  have w: "win fs 16 = w 16" "win fs 13 = w 13" "win (blank w) = w" using assms(2) by (simp_all add: blank_def)
  have r: "ld_word (win fs) 11 = ld_word w 11" "ld_word (win fs) 22 = ld_word w 22" "ld_dword (win fs) 36 = ld_dword w 36"
    "ld_word (win fs) 17 = ld_word w 17" "ld_word (win fs) 19 = ld_word w 19" "ld_dword (win fs) 32 = ld_dword w 32"
    "ld_word (win fs) 14 = ld_word w 14" "ld_word (win fs) 42 = ld_word w 42" "ld_dword (win fs) 44 = ld_dword w 44"
    by (simp_all add: c)
  have "bpb_rel fs (read_bpb b (blank w)) (read_bpb b fs)"
    unfolding read_bpb_def Let_def r w
    by (intro bpb_rel_if bpb_rel_case bpb_rel_fail) (simp_all add: bpb_rel_def blank_def)
  with assms(1) show ?thesis by (cases "read_bpb b fs") (auto simp: bpb_rel_def)
qed

lemma vol_ok_geo: "geo fs = geo fs' \<Longrightarrow> vol_ok img fs = vol_ok img fs'"
  using geo_eq_fields[of fs fs'] by (simp add: vol_ok_def geom_def fat_bytes_def Let_def)

lemma fat_at_geo: "geo fs = geo fs' \<Longrightarrow> fat_at img fs = fat_at img fs'"
  using geo_eq_fields[of fs fs'] by (simp add: fat_at_def fun_eq_iff)

lemma vol_ok_update [simp]: "vol_ok img (fs\<lparr>fat_id := i\<rparr>) = vol_ok img fs" "vol_ok img (geo fs) = vol_ok img fs"
  by (simp_all add: vol_ok_def geom_def fat_bytes_def geo_def Let_def)

text \<open>Sectors of clusters.\<close>

lemma clust2sect_ok:
  assumes "vol_ok img fs" "length img \<le> 2 ^ 32" "2 \<le> c" "c < n_fatent fs"
  shows "unat (clust2sect fs c) = unat (database fs) + (unat c - 2) * unat (csize fs)" "clust2sect fs c \<noteq> 0"
    "512 * (unat (clust2sect fs c) + unat (csize fs)) \<le> length img"
proof -
  let ?n = "unat (n_fatent fs)" and ?c = "unat c" and ?s = "unat (csize fs)"
  have v: "512 * (unat (database fs) + (?n - 2) * ?s) \<le> length img" "0 < unat (database fs)"
    using assms(1) by (simp_all add: vol_ok_def word_less_nat_alt)
  have c: "2 \<le> ?c" "?c < ?n" using assms(3,4) by (simp_all add: word_le_nat_alt word_less_nat_alt)
  then have c2: "unat (c - 2) = ?c - 2" "unat (n_fatent fs - 2) = ?n - 2"
    by (simp_all add: unat_sub_if' word_le_nat_alt)
  have le: "(?c - 2) * ?s + ?s \<le> (?n - 2) * ?s"
  proof -
    have "(?c - 2) * ?s + ?s = (?c - 2 + 1) * ?s" by simp
    also have "\<dots> \<le> (?n - 2) * ?s" using c by (intro mult_right_mono) simp_all
    finally show ?thesis .
  qed
  then have b: "unat (database fs) + (?c - 2) * ?s + ?s \<le> 2 ^ 23" using v(1) assms(2) by simp
  have cs: "unat (ucast (csize fs) :: u32) = ?s" using unat_less[of "csize fs"] by (simp add: unat_ucast_mod)
  have "\<not> n_fatent fs - 2 \<le> c - 2" using c c2 by (simp add: word_le_nat_alt)
  then have e: "clust2sect fs c = (c - 2) * ucast (csize fs) + database fs" by (simp add: clust2sect_def)
  show u: "unat (clust2sect fs c) = unat (database fs) + (?c - 2) * ?s"
    unfolding e using b c2 cs by (simp add: unat_word_ariths)
  show "clust2sect fs c \<noteq> 0" using u v(2) by (auto simp: word_unat_eq_iff)
  show "512 * (unat (clust2sect fs c) + ?s) \<le> length img" unfolding u using le v(1) by simp
qed

context sector_source
begin

lemma check_fs_ok:
  assumes "good (ff_disk x)" "drv (ff_fs x) = 0" "512 * (unat sec + 1) \<le> length img"
  shows "\<exists>x'. check_fs D sec x = Some (if fat_vbr (sector_at img sec) then 0 else if has_sig (sector_at img sec) then 2 else 3, x') \<and>
    src x' \<and> core x' = core (x\<lparr>ff_fs := (ff_fs x)\<lparr>wflag := 0\<rparr>\<rparr>) \<and> (\<forall>i < 512. win (ff_fs x') i = sector_at img sec i)"
proof -
  let ?x = "x\<lparr>ff_fs := (ff_fs x)\<lparr>wflag := 0, winsect := 0xffffffff\<rparr>\<rparr>"
  have "src ?x" using assms by (simp add: src_def win_ok_def)
  then obtain x' where x': "move_window D sec ?x = Some (FR_OK, x')" "src x'" "core x' = core ?x"
    "\<forall>i < 512. win (ff_fs x') i = sector_at img sec i"
    using move_window_ok[of ?x sec] assms(3) unfolding sector_at_def by blast
  have "core ?x = core (x\<lparr>ff_fs := (ff_fs x)\<lparr>wflag := 0\<rparr>\<rparr>)" by (simp add: core_def geo_def)
  moreover have "check_fs D sec x = Some (if fat_vbr (win (ff_fs x')) then 0 else if has_sig (win (ff_fs x')) then 2 else 3, x')"
    using x'(1) by (simp add: check_fs_def Let_def has_sig_def fat_vbr_def)
  ultimately show ?thesis using x' unfolding fat_vbr_cong[OF x'(4)] by (intro exI[of _ x']) simp
qed

lemma find_partition_ok:
  assumes "src x" "br = pre @ b # post" "b \<noteq> 0" "fat_vbr (sector_at img b)" "512 * (unat b + 1) \<le> length img"
    and "\<forall>p \<in> set pre. p = 0 \<or> 512 * (unat p + 1) \<le> length img \<and> \<not> fat_vbr (sector_at img p)" "wflag (ff_fs x) = 0"
  shows "\<exists>x'. find_partition D br b0 fmt x = Some (b, 0, x') \<and> src x' \<and> core x' = core x \<and>
    (\<forall>i < 512. win (ff_fs x') i = sector_at img b i)"
  using assms
proof (induction br arbitrary: pre b0 fmt x)
  case (Cons p br)
  have sx: "good (ff_disk x)" "drv (ff_fs x) = 0" using Cons.prems(1) by (simp_all add: src_def)
  have wf: "x\<lparr>ff_fs := (ff_fs x)\<lparr>wflag := 0\<rparr>\<rparr> = x" using Cons.prems(7) by simp
  show ?case
  proof (cases pre)
    case Nil
    then show ?thesis using Cons.prems check_fs_ok[OF sx Cons.prems(5)] wf by auto
  next
    case (Cons p' pre')
    note pre = this
    show ?thesis
    proof (cases "p = 0")
      case True
      then show ?thesis using Cons.IH[OF Cons.prems(1) _ Cons.prems(3-5), of pre' p 3] Cons.prems(2,6,7) pre by simp
    next
      case False
      then have r: "512 * (unat p + 1) \<le> length img" "\<not> fat_vbr (sector_at img p)" using Cons.prems(2,6) pre by auto
      define f :: nat where "f = (if has_sig (sector_at img p) then 2 else 3)"
      obtain x' where x': "check_fs D p x = Some (f, x')" "src x'" "core x' = core x"
        using check_fs_ok[OF sx r(1)] r(2) wf unfolding f_def by auto
      moreover have "2 \<le> f" by (simp add: f_def)
      moreover have "wflag (ff_fs x') = 0" using core_fields(15)[OF x'(3)] Cons.prems(7) by simp
      ultimately show ?thesis
        using Cons.IH[OF x'(2) _ Cons.prems(3-5), of pre' p f] Cons.prems(2,6) pre False by simp
    qed
  qed
qed simp


lemma find_fat_ok:
  assumes "good (ff_disk x)" "drv (ff_fs x) = 0" "boots img b"
  shows "\<exists>x'. find_fat D x = Some (b, 0, x') \<and> src x' \<and> core x' = core (x\<lparr>ff_fs := (ff_fs x)\<lparr>wflag := 0\<rparr>\<rparr>) \<and>
    (\<forall>i < 512. win (ff_fs x') i = sector_at img b i)"
proof -
  note b = assms(3)[unfolded boots_def]
  have "512 * (unat (0 :: u32) + 1) \<le> length img" using b by simp
  from check_fs_ok[OF assms(1,2) this] obtain x1 where x1:
    "check_fs D 0 x = Some (if fat_vbr (sector_at img 0) then 0 else if has_sig (sector_at img 0) then 2 else 3, x1)"
    "src x1" "core x1 = core (x\<lparr>ff_fs := (ff_fs x)\<lparr>wflag := 0\<rparr>\<rparr>)" "\<forall>i < 512. win (ff_fs x1) i = sector_at img 0 i" by blast
  have wf: "wflag (ff_fs x1) = 0" using core_fields(15)[OF x1(3)] by simp
  show ?thesis
  proof (cases "fat_vbr (sector_at img 0)")
    case True
    then have "b = 0" using b by auto
    then show ?thesis using True x1 by (simp add: find_fat_def)
  next
    case False
    then obtain pre post where p: "b \<noteq> 0" "has_sig (sector_at img 0)" "br_table (sector_at img 0) = pre @ b # post"
      "\<forall>p \<in> set pre. p = 0 \<or> 512 * (unat p + 1) \<le> length img \<and> \<not> fat_vbr (sector_at img p)" using b by auto
    have "br_table (win (ff_fs x1)) = pre @ b # post" using fat_vbr_cong(3)[OF x1(4)] p(3) by simp
    from find_partition_ok[OF x1(2) this p(1) _ _ p(4) wf, of 0 2] b obtain x2 where
      "find_partition D (br_table (win (ff_fs x1))) 0 2 x1 = Some (b, 0, x2)" "src x2" "core x2 = core x1"
      "\<forall>i < 512. win (ff_fs x2) i = sector_at img b i" by auto
    then show ?thesis using False p(2) x1 by (simp add: find_fat_def)
  qed
qed

lemma mount_volume_ok:
  assumes "dk_initialize D 0 (ff_disk x) = Some (0, d)" "good d" "fat_volume img b g"
  shows "\<exists>x'. mount_volume D 0 x = Some (FR_OK, x') \<and> src x' \<and> vol_ok img (ff_fs x') \<and>
    core x' = (FatFs x, Fsid x + 1, LfnBuf x, g\<lparr>fat_id := Fsid x + 1\<rparr>)"
proof -
  let ?x = "x\<lparr>ff_fs := (ff_fs x)\<lparr>fs_type := 0, drv := 0\<rparr>, ff_disk := d\<rparr>"
  obtain fmt g' where g: "read_bpb b (blank (sector_at img b)) = (FR_OK, fmt, g')" "g = geo (g'\<lparr>fs_type := fmt\<rparr>)"
    "vol_ok img g" "boots img b" using assms(3) by (auto simp: fat_volume_def)
  obtain x1 where x1: "find_fat D ?x = Some (b, 0, x1)" "src x1" "core x1 = core (?x\<lparr>ff_fs := (ff_fs ?x)\<lparr>wflag := 0\<rparr>\<rparr>)"
    "\<forall>i < 512. win (ff_fs x1) i = sector_at img b i" using find_fat_ok[of ?x b] assms(2) g(4) by auto
  define fs where "fs = g'\<lparr>fs_type := fmt, drv := 0, wflag := 0, fat_id := Fsid x + 1, winsect := winsect (ff_fs x1),
    win := win (ff_fs x1)\<rparr>"
  have f: "drv (ff_fs x1) = 0" "wflag (ff_fs x1) = 0" "Fsid x1 = Fsid x" "FatFs x1 = FatFs x" "LfnBuf x1 = LfnBuf x"
    using core_fields(5,15)[OF x1(3)] x1(3) by (simp_all add: core_def)
  have m: "mount_volume D 0 x = Some (FR_OK, x1\<lparr>Fsid := Fsid x + 1, ff_fs := fs\<rparr>)"
    using assms(1) x1(1) read_bpb_blank[OF g(1) x1(4)] f by (simp add: mount_volume_def init_fs_def fs_def)
  have g0: "drv g' = 0" "wflag g' = 0" "fat_id g' = 0"
    using read_bpb_keeps[of "blank (sector_at img b)" b] g(1) by (simp_all add: keeps_def Let_def blank_def)
  have "geo fs = g\<lparr>fat_id := Fsid x + 1\<rparr>" using g0 unfolding g(2) by (simp add: fs_def geo_def)
  moreover have "vol_ok img fs" using g(3) calculation vol_ok_update by metis
  moreover have "win_ok img fs" using x1(2) by (simp add: src_def win_ok_def fs_def)
  ultimately show ?thesis
    using x1(2) f m by (intro exI[of _ "x1\<lparr>Fsid := Fsid x + 1, ff_fs := fs\<rparr>"]) (simp add: src_def core_def fs_def)
qed

end

end
