(* ===== verification/Fat_Dir.thy ===== *)
theory Fat_Dir
  imports Fat_Vol
begin

text \<open>
  Directories of FatFs (ff12b/src/ff.c): stepping through a directory along its cluster chain, reading
  the next object with its long name, looking a name up, walking a path, and the public directory calls.
  \<open>dp->dir\<close> points into the window, so it is an offset here, and an entry is the window from there on.
\<close>

section \<open>Definitions\<close>

record dir =
  dobj :: fdid
  dptr :: u32
  dclust :: u32
  dsect :: u32
  ddir :: nat
  dfn :: mem
  blk_ofs :: u32
  pat :: "byte list"

record filinfo =
  fi_fsize :: u32
  fi_fdate :: u16
  fi_ftime :: u16
  fi_attrib :: byte
  fi_altname :: "byte list"
  fi_fname :: "byte list"

definition MAX_DIR :: u32 where "MAX_DIR = 0x200000"
definition AM_VOL :: byte where "AM_VOL = 0x08"
definition AM_LFN :: byte where "AM_LFN = 0x0f"
definition AM_DIR :: byte where "AM_DIR = 0x10"
definition AM_ARC :: byte where "AM_ARC = 0x20"
definition AM_MASK :: byte where "AM_MASK = 0x3f"

lemmas dir_consts = MAX_DIR_def AM_VOL_def AM_LFN_def AM_DIR_def AM_ARC_def AM_MASK_def

definition entry :: "'s ff \<Rightarrow> dir \<Rightarrow> mem" where
  "entry x dp = (\<lambda>i. win (ff_fs x) (ddir dp + i))"

subsection \<open>Positions\<close>

text \<open>Following the chain to the cluster that holds offset \<open>ofs\<close>.\<close>

partial_function (option) sdi_chain :: "'s disk_ops \<Rightarrow> u32 \<Rightarrow> u32 \<Rightarrow> u32 \<Rightarrow> 's ff \<Rightarrow> ((fresult + u32 \<times> u32) \<times> 's ff) option" where
  "sdi_chain D csz clst ofs x =
     (if csz \<le> ofs then
        Option.bind (get_fat D clst x) (\<lambda>(clst, x).
          if clst = 0xffffffff then Some (Inl FR_DISK_ERR, x)
          else if clst < 2 \<or> n_fatent (ff_fs x) \<le> clst then Some (Inl FR_INT_ERR, x)
          else sdi_chain D csz clst (ofs - csz) x)
      else Some (Inr (clst, ofs), x))"

text \<open>Cluster 0 stands for the root directory, which has a cluster of its own on FAT32.\<close>

definition start_clust :: "fatfs \<Rightarrow> u32 \<Rightarrow> u32" where
  "start_clust fs clst = (if clst = 0 \<and> FS_FAT32 \<le> fs_type fs then dirbase fs else clst)"

definition dir_sdi :: "'s disk_ops \<Rightarrow> u32 \<Rightarrow> dir \<Rightarrow> 's ff \<Rightarrow> (fresult \<times> dir \<times> 's ff) option" where
  "dir_sdi D ofs dp x =
     (if MAX_DIR \<le> ofs \<or> ofs mod SZDIRE \<noteq> 0 then Some (FR_INT_ERR, dp, x)
      else do {
        let fs = ff_fs x;
        let dp = dp\<lparr>dptr := ofs\<rparr>;
        let clst = start_clust fs (sclust (dobj dp));
        if clst = 0 \<and> ucast (n_rootdir fs) \<le> ofs div SZDIRE then Some (FR_INT_ERR, dp, x)
        else do {
          (res, x) \<leftarrow> (if clst = 0 then Some (Inr (clst, ofs), x)
            else sdi_chain D (ucast (csize fs) * SS) clst ofs x);
          case res of
            Inl r \<Rightarrow> Some (r, dp, x)
          | Inr (clst', ofs) \<Rightarrow>
              let dp = dp\<lparr>dsect := if clst = 0 then dirbase fs else clust2sect fs clst', dclust := clst'\<rparr> in
              if dsect dp = 0 then Some (FR_INT_ERR, dp, x)
              else Some (FR_OK, dp\<lparr>dsect := dsect dp + ofs div SS, ddir := unat (ofs mod SS)\<rparr>, x) } })"

definition dir_next :: "'s disk_ops \<Rightarrow> dir \<Rightarrow> 's ff \<Rightarrow> (fresult \<times> dir \<times> 's ff) option" where
  "dir_next D dp x =
     (let ofs = dptr dp + SZDIRE;
          moved = (\<lambda>dp. dp\<lparr>dptr := ofs, ddir := unat (ofs mod SS)\<rparr>)
      in
      if dsect dp = 0 \<or> MAX_DIR \<le> ofs then Some (FR_NO_FILE, dp, x)
      else if ofs mod SS \<noteq> 0 then Some (FR_OK, moved dp, x)
      else
        let dp = dp\<lparr>dsect := dsect dp + 1\<rparr> in
        if dclust dp = 0 then
          (if ucast (n_rootdir (ff_fs x)) \<le> ofs div SZDIRE then Some (FR_NO_FILE, dp\<lparr>dsect := 0\<rparr>, x)
           else Some (FR_OK, moved dp, x))
        else if (ofs div SS) AND (ucast (csize (ff_fs x)) - 1) \<noteq> 0 then Some (FR_OK, moved dp, x)
        else do {
          (clst, x) \<leftarrow> get_fat D (dclust dp) x;
          Some (if clst \<le> 1 then (FR_INT_ERR, dp, x)
            else if clst = 0xffffffff then (FR_DISK_ERR, dp, x)
            else if n_fatent (ff_fs x) \<le> clst then (FR_NO_FILE, dp\<lparr>dsect := 0\<rparr>, x)
            else (FR_OK, moved (dp\<lparr>dclust := clst, dsect := clust2sect (ff_fs x) clst\<rparr>), x)) })"

definition ld_clust :: "fatfs \<Rightarrow> mem \<Rightarrow> u32" where
  "ld_clust fs dir =
     (let cl = ucast (ld_word dir 26) in
      if fs_type fs = FS_FAT32 then cl OR push_bit 16 (ucast (ld_word dir 20)) else cl)"

subsection \<open>Reading the next object\<close>

text \<open>What \<open>dir_read\<close> does with an entry that is not the end mark: \<open>Inl\<close> stops at a short name entry, \<open>Inr\<close> goes on with
  the state of the long name sequence.\<close>

definition read_entry :: "mem \<Rightarrow> bool \<Rightarrow> byte \<Rightarrow> byte \<Rightarrow> dir \<Rightarrow> (nat \<Rightarrow> u16) \<Rightarrow> (unit + byte \<times> byte) \<times> dir \<times> (nat \<Rightarrow> u16)" where
  "read_entry e vol ord lsum dp lfn =
     (let c = e 0; a = e 11 AND AM_MASK; dp = dp\<lparr>dobj := (dobj dp)\<lparr>obj_attr := a\<rparr>\<rparr> in
      if c = DDEM \<or> c = 0x2e \<or> (a AND NOT AM_ARC = AM_VOL) \<noteq> vol then (Inr (0xff, lsum), dp, lfn)
      else if a = AM_LFN then
        let (c, ord, lsum, dp) =
              if c AND LLEF \<noteq> 0 then (c AND NOT LLEF, c AND NOT LLEF, e 13, dp\<lparr>blk_ofs := dptr dp\<rparr>)
              else (c, ord, lsum, dp);
            (ok, lfn) = if c = ord \<and> lsum = e 13 then pick_lfn e lfn else (False, lfn)
        in (Inr (if ok then ord - 1 else 0xff, lsum), dp, lfn)
      else (Inl (), if ord \<noteq> 0 \<or> lsum \<noteq> sum_sfn e then dp\<lparr>blk_ofs := 0xffffffff\<rparr> else dp, lfn))"

partial_function (option) read_loop ::
  "'s disk_ops \<Rightarrow> bool \<Rightarrow> fresult \<Rightarrow> byte \<Rightarrow> byte \<Rightarrow> dir \<Rightarrow> 's ff \<Rightarrow> (fresult \<times> dir \<times> 's ff) option" where
  "read_loop D vol res ord lsum dp x =
     (if dsect dp = 0 then Some (res, dp, x)
      else
        Option.bind (move_window D (dsect dp) x) (\<lambda>(res, x).
          if res \<noteq> FR_OK then Some (res, dp, x)
          else if entry x dp 0 = 0 then Some (FR_NO_FILE, dp, x)
          else
            case read_entry (entry x dp) vol ord lsum dp (LfnBuf x) of
              (Inl _, dp, lfn) \<Rightarrow> Some (FR_OK, dp, x\<lparr>LfnBuf := lfn\<rparr>)
            | (Inr (ord, lsum), dp, lfn) \<Rightarrow>
                Option.bind (dir_next D dp (x\<lparr>LfnBuf := lfn\<rparr>)) (\<lambda>(res, dp, x).
                  if res \<noteq> FR_OK then Some (res, dp, x) else read_loop D vol res ord lsum dp x)))"

definition dir_read :: "'s disk_ops \<Rightarrow> bool \<Rightarrow> dir \<Rightarrow> 's ff \<Rightarrow> (fresult \<times> dir \<times> 's ff) option" where
  "dir_read D vol dp x = do {
     (res, dp, x) \<leftarrow> read_loop D vol FR_NO_FILE 0xff 0xff dp x;
     Some (res, if res \<noteq> FR_OK then dp\<lparr>dsect := 0\<rparr> else dp, x) }"

subsection \<open>Looking a name up\<close>

text \<open>The same for \<open>dir_find\<close>, which compares names: \<open>Inl\<close> is a match.\<close>

definition find_entry :: "mem \<Rightarrow> byte \<Rightarrow> byte \<Rightarrow> (nat \<Rightarrow> u16) \<Rightarrow> dir \<Rightarrow> (unit + byte \<times> byte) \<times> dir" where
  "find_entry e ord lsum lfn dp =
     (let c = e 0; a = e 11 AND AM_MASK; dp = dp\<lparr>dobj := (dobj dp)\<lparr>obj_attr := a\<rparr>\<rparr> in
      if c = DDEM \<or> (a AND AM_VOL \<noteq> 0 \<and> a \<noteq> AM_LFN) then (Inr (0xff, lsum), dp\<lparr>blk_ofs := 0xffffffff\<rparr>)
      else if a = AM_LFN then
        (if dfn dp NSFLAG AND NS_NOLFN = 0 then
           let (c, ord, lsum, dp) =
             if c AND LLEF \<noteq> 0 then (c AND NOT LLEF, c AND NOT LLEF, e 13, dp\<lparr>blk_ofs := dptr dp\<rparr>)
             else (c, ord, lsum, dp)
           in (Inr (if c = ord \<and> lsum = e 13 \<and> cmp_lfn lfn e then ord - 1 else 0xff, lsum), dp)
         else (Inr (ord, lsum), dp))
      else if ord = 0 \<and> lsum = sum_sfn e then (Inl (), dp)
      else if dfn dp NSFLAG AND NS_LOSS = 0 \<and> mem_get e 0 11 = mem_get (dfn dp) 0 11 then (Inl (), dp)
      else (Inr (0xff, lsum), dp\<lparr>blk_ofs := 0xffffffff\<rparr>))"

partial_function (option) find_loop ::
  "'s disk_ops \<Rightarrow> byte \<Rightarrow> byte \<Rightarrow> dir \<Rightarrow> 's ff \<Rightarrow> (fresult \<times> dir \<times> 's ff) option" where
  "find_loop D ord lsum dp x =
     Option.bind (move_window D (dsect dp) x) (\<lambda>(res, x).
       if res \<noteq> FR_OK then Some (res, dp, x)
       else if entry x dp 0 = 0 then Some (FR_NO_FILE, dp, x)
       else
         case find_entry (entry x dp) ord lsum (LfnBuf x) dp of
           (Inl _, dp) \<Rightarrow> Some (FR_OK, dp, x)
         | (Inr (ord, lsum), dp) \<Rightarrow>
             Option.bind (dir_next D dp x) (\<lambda>(res, dp, x).
               if res \<noteq> FR_OK then Some (res, dp, x) else find_loop D ord lsum dp x))"

definition dir_find :: "'s disk_ops \<Rightarrow> dir \<Rightarrow> 's ff \<Rightarrow> (fresult \<times> dir \<times> 's ff) option" where
  "dir_find D dp x = do {
     (res, dp, x) \<leftarrow> dir_sdi D 0 dp x;
     if res \<noteq> FR_OK then Some (res, dp, x)
     else find_loop D 0xff 0xff (dp\<lparr>blk_ofs := 0xffffffff\<rparr>) x }"

subsection \<open>File information\<close>

text \<open>The long name in the code page; empty if a character has no code or the name is too long. Running through the whole
  buffer without a terminator would leave it.\<close>

fun lfn_oem :: "u16 list \<Rightarrow> byte list \<Rightarrow> byte list option" where
  "lfn_oem [] acc = None"
| "lfn_oem (w # ws) acc =
     (if w = 0 then Some acc
      else
        let w = ff_convert w False in
        if w = 0 then Some []
        else if MAX_LFN \<le> length acc then Some []
        else lfn_oem ws (acc @ [ucast w]))"

text \<open>The name in short form: \<open>altname\<close>, and in \<open>fname\<close> the same with the lower case flags applied.\<close>

fun sfn_names :: "mem \<Rightarrow> nat list \<Rightarrow> byte list \<Rightarrow> byte list \<Rightarrow> byte list \<times> byte list" where
  "sfn_names e [] alt nam = (alt, nam)"
| "sfn_names e (i # is) alt nam =
     (let c = e i in
      if c = 0x20 then sfn_names e is alt nam
      else
        let c = if c = RDDEM then DDEM else c;
            dot = if i = 8 then [0x2e] else [];
            lower = IsUpper c \<and> e 12 AND (if 8 \<le> i then NS_EXT else NS_BODY) \<noteq> 0
        in sfn_names e is (alt @ dot @ [c]) (nam @ dot @ [if lower then c + 0x20 else c]))"

abbreviation cstr :: "byte list \<Rightarrow> byte list" where
  "cstr \<equiv> takeWhile (\<lambda>c. c \<noteq> 0)"

definition get_fileinfo :: "dir \<Rightarrow> 's ff \<Rightarrow> filinfo \<Rightarrow> filinfo option" where
  "get_fileinfo dp x fno =
     (let fno = fno\<lparr>fi_fname := []\<rparr>; e = entry x dp in
      if dsect dp = 0 then Some fno
      else do {
        lname \<leftarrow> (if blk_ofs dp \<noteq> 0xffffffff then lfn_oem (map (LfnBuf x) [0..<Suc MAX_LFN]) [] else Some []);
        let (alt, nam) = sfn_names e [0..<11] [] [];
        let tm = ld_dword e 22;
        Some (fno\<lparr>fi_fname := if cstr lname = [] then cstr nam else cstr lname,
          fi_altname := if cstr lname = [] \<and> e 12 = 0 then [] else cstr alt,
          fi_attrib := e 11, fi_fsize := ld_dword e 28, fi_ftime := ucast tm, fi_fdate := ucast (drop_bit 16 tm)\<rparr>) })"

subsection \<open>Paths\<close>

partial_function (option) path_loop ::
  "'s disk_ops \<Rightarrow> byte list \<Rightarrow> dir \<Rightarrow> 's ff \<Rightarrow> (fresult \<times> dir \<times> 's ff) option" where
  "path_loop D path dp x =
     Option.bind (create_name path (LfnBuf x) (dfn dp)) (\<lambda>(res, path, lfn, fn).
       let dp = dp\<lparr>dfn := fn\<rparr>; x = x\<lparr>LfnBuf := lfn\<rparr> in
       if res \<noteq> FR_OK then Some (res, dp, x)
       else
         Option.bind (dir_find D dp x) (\<lambda>(res, dp, x).
           let ns = dfn dp NSFLAG in
           if res \<noteq> FR_OK then Some (if res = FR_NO_FILE \<and> ns AND NS_LAST = 0 then FR_NO_PATH else res, dp, x)
           else if ns AND NS_LAST \<noteq> 0 then Some (FR_OK, dp, x)
           else if obj_attr (dobj dp) AND AM_DIR = 0 then Some (FR_NO_PATH, dp, x)
           else
             path_loop D path (dp\<lparr>dobj := (dobj dp)\<lparr>sclust :=
               ld_clust (ff_fs x) (\<lambda>i. win (ff_fs x) (unat (dptr dp mod SS) + i))\<rparr>\<rparr>) x))"

definition follow_path :: "'s disk_ops \<Rightarrow> byte list \<Rightarrow> dir \<Rightarrow> 's ff \<Rightarrow> (fresult \<times> dir \<times> 's ff) option" where
  "follow_path D path dp x =
     (let path = dropWhile (\<lambda>c. c = 0x2f \<or> c = 0x5c) path; dp = dp\<lparr>dobj := (dobj dp)\<lparr>sclust := 0\<rparr>\<rparr> in
      if str_hd path < 0x20 then dir_sdi D 0 (dp\<lparr>dfn := (dfn dp)(NSFLAG := NS_NONAME)\<rparr>) x
      else path_loop D path dp x)"

subsection \<open>Directory calls\<close>

definition ff_opendir :: "'s disk_ops \<Rightarrow> byte list \<Rightarrow> dir \<Rightarrow> 's ff \<Rightarrow> (fresult \<times> dir \<times> 's ff) option" where
  "ff_opendir D path dp x = do {
     (res, path, x) \<leftarrow> find_volume D path x;
     (res, dp, x) \<leftarrow> (if res = FR_OK then do {
         (res, dp, x) \<leftarrow> follow_path D path (dp\<lparr>dobj := (dobj dp)\<lparr>obj_fs := True\<rparr>\<rparr>) x;
         (res, dp, x) \<leftarrow> (if res = FR_OK then
             let named = dfn dp NSFLAG AND NS_NONAME = 0 in
             if named \<and> obj_attr (dobj dp) AND AM_DIR = 0 then Some (FR_NO_PATH, dp, x)
             else
               let dp = if named then dp\<lparr>dobj := (dobj dp)\<lparr>sclust := ld_clust (ff_fs x) (entry x dp)\<rparr>\<rparr> else dp
               in dir_sdi D 0 (dp\<lparr>dobj := (dobj dp)\<lparr>obj_id := fat_id (ff_fs x)\<rparr>\<rparr>) x
           else Some (res, dp, x));
         Some (if res = FR_NO_FILE then FR_NO_PATH else res, dp, x) }
       else Some (res, dp, x));
     Some (res, if res \<noteq> FR_OK then dp\<lparr>dobj := (dobj dp)\<lparr>obj_fs := False\<rparr>\<rparr> else dp, x) }"

definition ff_closedir :: "'s disk_ops \<Rightarrow> dir \<Rightarrow> 's ff \<Rightarrow> (fresult \<times> dir) option" where
  "ff_closedir D dp x = do {
     res \<leftarrow> validate D (dobj dp) x;
     Some (res, if res = FR_OK then dp\<lparr>dobj := (dobj dp)\<lparr>obj_fs := False\<rparr>\<rparr> else dp) }"

text \<open>\<open>f_readdir\<close> with a place for the result, and with a null pointer, which rewinds.\<close>

definition ff_readdir :: "'s disk_ops \<Rightarrow> dir \<Rightarrow> filinfo \<Rightarrow> 's ff \<Rightarrow> (fresult \<times> dir \<times> filinfo \<times> 's ff) option" where
  "ff_readdir D dp fno x = do {
     res \<leftarrow> validate D (dobj dp) x;
     if res \<noteq> FR_OK then Some (res, dp, fno, x)
     else do {
       (res, dp, x) \<leftarrow> dir_read D False dp x;
       if res \<noteq> FR_OK \<and> res \<noteq> FR_NO_FILE then Some (res, dp, fno, x)
       else do {
         fno \<leftarrow> get_fileinfo dp x fno;
         (res, dp, x) \<leftarrow> dir_next D dp x;
         Some (if res = FR_NO_FILE then FR_OK else res, dp, fno, x) } } }"

definition ff_rewinddir :: "'s disk_ops \<Rightarrow> dir \<Rightarrow> 's ff \<Rightarrow> (fresult \<times> dir \<times> 's ff) option" where
  "ff_rewinddir D dp x = do {
     res \<leftarrow> validate D (dobj dp) x;
     if res \<noteq> FR_OK then Some (res, dp, x) else dir_sdi D 0 dp x }"

partial_function (option) ff_findnext ::
  "'s disk_ops \<Rightarrow> dir \<Rightarrow> filinfo \<Rightarrow> 's ff \<Rightarrow> (fresult \<times> dir \<times> filinfo \<times> 's ff) option" where
  "ff_findnext D dp fno x =
     Option.bind (ff_readdir D dp fno x) (\<lambda>(res, dp, fno, x).
       if res \<noteq> FR_OK \<or> fi_fname fno = [] then Some (res, dp, fno, x)
       else
         Option.bind (pattern_matching (pat dp) (fi_fname fno) 0 False) (\<lambda>m.
           if m then Some (res, dp, fno, x) else ff_findnext D dp fno x))"

definition ff_findfirst ::
  "'s disk_ops \<Rightarrow> byte list \<Rightarrow> byte list \<Rightarrow> dir \<Rightarrow> filinfo \<Rightarrow> 's ff \<Rightarrow> (fresult \<times> dir \<times> filinfo \<times> 's ff) option" where
  "ff_findfirst D path pattern dp fno x = do {
     (res, dp, x) \<leftarrow> ff_opendir D path (dp\<lparr>pat := pattern\<rparr>) x;
     if res = FR_OK then ff_findnext D dp fno x else Some (res, dp, fno, x) }"

definition ff_stat :: "'s disk_ops \<Rightarrow> byte list \<Rightarrow> dir \<Rightarrow> filinfo \<Rightarrow> 's ff \<Rightarrow> (fresult \<times> filinfo \<times> 's ff) option" where
  "ff_stat D path dj fno x = do {
     (res, path, x) \<leftarrow> find_volume D path x;
     if res \<noteq> FR_OK then Some (res, fno, x)
     else do {
       (res, dj, x) \<leftarrow> follow_path D path (dj\<lparr>dobj := (dobj dj)\<lparr>obj_fs := True\<rparr>\<rparr>) x;
       if res \<noteq> FR_OK then Some (res, fno, x)
       else if dfn dj NSFLAG AND NS_NONAME \<noteq> 0 then Some (FR_INVALID_NAME, fno, x)
       else do {
         fno \<leftarrow> get_fileinfo dj x fno;
         Some (FR_OK, fno, x) } } }"

end
