(* ===== verification/Fat_Chain.thy ===== *)
theory Fat_Chain
  imports Fat_Vol
begin

text \<open>
  Cluster chains: what the allocation table makes of a first cluster, and the bytes of the image that belong to it. Files
  and directories are read along chains.
\<close>

section \<open>Chains\<close>

definition valid_clust :: "fatfs \<Rightarrow> nat \<Rightarrow> bool" where
  "valid_clust fs c \<longleftrightarrow> 2 \<le> c \<and> c < unat (n_fatent fs)"

fun chain :: "byte list \<Rightarrow> fatfs \<Rightarrow> nat list \<Rightarrow> bool" where
  "chain img fs [] = True"
| "chain img fs (c # cs) = (valid_clust fs c \<and> (cs \<noteq> [] \<longrightarrow> fat_at img fs c = hd cs) \<and> chain img fs cs)"

text \<open>Bytes of a cluster, where it starts, its contents, and where byte \<open>p\<close> of a chain is in the image.\<close>

definition clust_size :: "fatfs \<Rightarrow> nat" where
  "clust_size fs = 512 * unat (csize fs)"

definition clust_pos :: "fatfs \<Rightarrow> nat \<Rightarrow> nat" where
  "clust_pos fs c = 512 * (unat (database fs) + (c - 2) * unat (csize fs))"

definition clust_bytes :: "byte list \<Rightarrow> fatfs \<Rightarrow> nat \<Rightarrow> byte list" where
  "clust_bytes img fs c = take (clust_size fs) (drop (clust_pos fs c) img)"

definition chain_bytes :: "byte list \<Rightarrow> fatfs \<Rightarrow> nat list \<Rightarrow> byte list" where
  "chain_bytes img fs cs = concat (map (clust_bytes img fs) cs)"

definition byte_pos :: "fatfs \<Rightarrow> nat list \<Rightarrow> nat \<Rightarrow> nat" where
  "byte_pos fs cs p = clust_pos fs (cs ! (p div clust_size fs)) + p mod clust_size fs"

lemma chain_nth: "chain img fs cs \<Longrightarrow> i < length cs \<Longrightarrow> valid_clust fs (cs ! i)"
  by (induction cs arbitrary: i) (auto simp: nth_Cons')

lemma chain_next: "chain img fs cs \<Longrightarrow> Suc i < length cs \<Longrightarrow> fat_at img fs (cs ! i) = cs ! Suc i"
proof (induction cs arbitrary: i)
  case (Cons c cs)
  then show ?case by (cases i) (auto simp: hd_conv_nth)
qed simp

lemma chain_geo:
  assumes "geo fs = geo fs'"
  shows "chain img fs = chain img fs'" "valid_clust fs = valid_clust fs'" "clust_size fs = clust_size fs'"
    "byte_pos fs = byte_pos fs'" "clust_pos fs = clust_pos fs'" "chain_bytes img fs = chain_bytes img fs'"
proof -
  note g = geo_eq_fields[OF assms]
  show v: "valid_clust fs = valid_clust fs'" by (simp add: valid_clust_def g fun_eq_iff)
  have "chain img fs cs = chain img fs' cs" for cs
    by (induction cs) (simp_all add: v fat_at_geo[OF assms])
  then show "chain img fs = chain img fs'" by blast
  show s: "clust_size fs = clust_size fs'" by (simp add: clust_size_def g)
  show p: "clust_pos fs = clust_pos fs'" by (simp add: clust_pos_def g fun_eq_iff)
  show "byte_pos fs = byte_pos fs'" by (simp add: byte_pos_def s p fun_eq_iff)
  have b: "clust_bytes img fs = clust_bytes img fs'" by (rule ext) (simp only: clust_bytes_def s p)
  show "chain_bytes img fs = chain_bytes img fs'" by (rule ext) (simp only: chain_bytes_def b)
qed

section \<open>Positions\<close>

lemma clust_size_pos: "vol_ok img fs \<Longrightarrow> 0 < clust_size fs"
  by (auto simp: clust_size_def vol_ok_def geom_def)

lemma clust_fits:
  assumes "vol_ok img fs" "valid_clust fs c"
  shows "clust_pos fs c + clust_size fs \<le> length img"
proof -
  let ?n = "unat (n_fatent fs)" and ?s = "unat (csize fs)"
  have c: "c - 2 + 1 \<le> ?n - 2" using assms(2) by (auto simp: valid_clust_def)
  have "(c - 2) * ?s + ?s = (c - 2 + 1) * ?s" by simp
  also have "\<dots> \<le> (?n - 2) * ?s" using c by (rule mult_right_mono) simp
  finally show ?thesis using assms(1) by (simp add: vol_ok_def clust_pos_def clust_size_def)
qed

lemma length_clust_bytes: "vol_ok img fs \<Longrightarrow> valid_clust fs c \<Longrightarrow> length (clust_bytes img fs c) = clust_size fs"
  using clust_fits[of img fs c] by (simp add: clust_bytes_def)

lemma length_chain_bytes:
  assumes "vol_ok img fs"
  shows "chain img fs cs \<Longrightarrow> length (chain_bytes img fs cs) = clust_size fs * length cs"
  by (induction cs) (simp_all add: chain_bytes_def length_clust_bytes[OF assms])

lemma chain_bytes_nth:
  assumes "vol_ok img fs"
  shows "chain img fs cs \<Longrightarrow> p < clust_size fs * length cs \<Longrightarrow> chain_bytes img fs cs ! p = img ! byte_pos fs cs p"
proof (induction cs arbitrary: p)
  case (Cons c cs)
  have l: "length (clust_bytes img fs c) = clust_size fs" "clust_pos fs c + clust_size fs \<le> length img"
    using Cons.prems(1) assms by (simp_all add: length_clust_bytes clust_fits)
  show ?case
  proof (cases "p < clust_size fs")
    case True
    then show ?thesis using l by (simp add: chain_bytes_def nth_append byte_pos_def clust_bytes_def)
  next
    case False
    have "chain_bytes img fs (c # cs) ! p = chain_bytes img fs cs ! (p - clust_size fs)"
      using False l by (simp add: chain_bytes_def nth_append)
    also have "\<dots> = img ! byte_pos fs cs (p - clust_size fs)" using Cons False by simp
    also have "byte_pos fs cs (p - clust_size fs) = byte_pos fs (c # cs) p"
      using False clust_size_pos[OF assms] by (simp add: byte_pos_def le_div_geq le_mod_geq)
    finally show ?thesis .
  qed
qed simp

lemma byte_pos_near:
  assumes "vol_ok img fs" "p mod clust_size fs + k < clust_size fs"
  shows "byte_pos fs cs (p + k) = byte_pos fs cs p + k" "(p + k) div clust_size fs = p div clust_size fs"
proof -
  let ?z = "clust_size fs"
  obtain q r where p: "p = r + ?z * q" "r < ?z" using clust_size_pos[OF assms(1)]
    by (metis add.commute mod_less_divisor mult_div_mod_eq)
  have d: "p div ?z = q" "p mod ?z = r" using p by simp_all
  have e: "p + k = (r + k) + ?z * q" using p by simp
  have "r + k < ?z" using assms(2) d by simp
  then have m: "(p + k) div ?z = q" "(p + k) mod ?z = r + k" unfolding e by simp_all
  show "(p + k) div ?z = p div ?z" using m d by simp
  show "byte_pos fs cs (p + k) = byte_pos fs cs p + k" using m d by (simp add: byte_pos_def)
qed

text \<open>A piece of the chain that lies in one cluster is a piece of the image.\<close>

lemma chain_piece:
  assumes "vol_ok img fs" "chain img fs cs" "p < clust_size fs * length cs" "p mod clust_size fs + n \<le> clust_size fs"
  shows "take n (drop p (chain_bytes img fs cs)) = take n (drop (byte_pos fs cs p) img)"
    "byte_pos fs cs p + n \<le> length img" "p + n \<le> clust_size fs * length cs"
proof -
  let ?z = "clust_size fs"
  have i: "p div ?z < length cs" using assms(3) by (simp add: less_mult_imp_div_less mult.commute)
  show b: "byte_pos fs cs p + n \<le> length img"
    using clust_fits[OF assms(1) chain_nth[OF assms(2) i]] assms(4) by (simp add: byte_pos_def)
  have "p + n = ?z * (p div ?z) + (p mod ?z + n)" by simp
  also have "\<dots> \<le> ?z * (p div ?z) + ?z" by (rule add_left_mono[OF assms(4)])
  also have "\<dots> = ?z * (p div ?z + 1)" by simp
  also have "\<dots> \<le> ?z * length cs" using i by (intro mult_left_mono) simp_all
  finally show le: "p + n \<le> ?z * length cs" .
  have len: "length (chain_bytes img fs cs) = ?z * length cs" by (rule length_chain_bytes[OF assms(1,2)])
  show "take n (drop p (chain_bytes img fs cs)) = take n (drop (byte_pos fs cs p) img)"
  proof (rule nth_equalityI)
    fix j assume "j < length (take n (drop p (chain_bytes img fs cs)))"
    then have "j < n" "j < ?z * length cs - p" using len by simp_all
    then have j: "j < n" "p + j < ?z * length cs" by linarith+
    have "p mod ?z + j < ?z" using j(1) assms(4) by simp
    then show "take n (drop p (chain_bytes img fs cs)) ! j = take n (drop (byte_pos fs cs p) img) ! j"
      using j chain_bytes_nth[OF assms(1,2), of "p + j"] byte_pos_near(1)[OF assms(1), of p j cs] b len by simp
  qed (use b le len in simp)
qed

section \<open>Sectors within a cluster\<close>

lemma csize_mask:
  assumes "geom fs"
  shows "unat (w AND (ucast (csize fs) - 1) :: u32) = unat w mod unat (csize fs)" "0 < unat (csize fs)" "unat (csize fs) \<le> 128"
proof -
  obtain k where k: "k \<le> 7" "unat (csize fs) = 2 ^ k" using assms by (auto simp: geom_def)
  have p: "(2 :: nat) ^ k \<le> 2 ^ 7" using k(1) by (intro power_increasing) simp_all
  have c: "unat (ucast (csize fs) :: u32) = 2 ^ k" using k p by (simp add: unat_ucast_mod)
  moreover have "(ucast (csize fs) :: u32) = of_nat (unat (ucast (csize fs) :: u32))" by simp
  ultimately have "(ucast (csize fs) :: u32) = 2 ^ k" by simp
  then have "w AND (ucast (csize fs) - 1) = take_bit k w" by (simp add: take_bit_eq_mask mask_eq_exp_minus_1)
  then have "unat (w AND (ucast (csize fs) - 1)) = unat (take_bit k w)" by simp
  then show "unat (w AND (ucast (csize fs) - 1)) = unat w mod unat (csize fs)"
    unfolding unsigned_take_bit_eq using k by (simp add: take_bit_eq_mod)
  show "0 < unat (csize fs)" "unat (csize fs) \<le> 128" using k p by simp_all
qed

lemma sector_split: "p mod (512 * s) = 512 * (p div 512 mod s) + p mod 512" for p s :: nat
  by (rule mod_mult2_eq)

lemma pos_of_sector:
  assumes "vol_ok img fs" "valid_clust fs c" "s < unat (csize fs)" "length img \<le> 2 ^ 32" "unat v = s"
  shows "512 * unat (clust2sect fs (of_nat c) + v) = clust_pos fs c + 512 * s" "clust2sect fs (of_nat c) \<noteq> 0"
    "unat (of_nat c :: u32) = c" "clust2sect fs (of_nat c) + v \<noteq> 0"
proof -
  have c: "unat (of_nat c :: u32) = c" using assms(2) unat_less[of "n_fatent fs"] by (auto simp: valid_clust_def unat_of_nat)
  have v: "(2 :: u32) \<le> of_nat c" "of_nat c < n_fatent fs" using assms(2) by (simp_all add: word_le_nat_alt word_less_nat_alt c valid_clust_def)
  note s = clust2sect_ok[OF assms(1,4) v]
  show "unat (of_nat c :: u32) = c" "clust2sect fs (of_nat c) \<noteq> 0" using c s(2) by simp_all
  have "unat (clust2sect fs (of_nat c)) + s < 2 ^ 32" using s(3) assms(3,4) by simp
  then have u: "unat (clust2sect fs (of_nat c) + v) = unat (clust2sect fs (of_nat c)) + s"
    using assms(5) by (simp add: unat_word_ariths)
  then show "512 * unat (clust2sect fs (of_nat c) + v) = clust_pos fs c + 512 * s" using s(1) c by (simp add: clust_pos_def)
  show "clust2sect fs (of_nat c) + v \<noteq> 0" using u s(2) by (auto simp: word_unat_eq_iff)
qed

lemma unat_eq_of_nat: "unat (w :: 'a::len word) = n \<Longrightarrow> w = of_nat n"
  by auto

lemma in_cluster:
  assumes "vol_ok img fs"
  shows "p mod clust_size fs = 512 * (p div 512 mod unat (csize fs)) + p mod 512"
    "p mod clust_size fs + (512 - p mod 512) \<le> clust_size fs"
    "(p - p mod 512) mod clust_size fs = 512 * (p div 512 mod unat (csize fs))"
    "(p - p mod 512) mod clust_size fs + p mod 512 < clust_size fs"
proof -
  let ?s = "unat (csize fs)"
  have s: "p div 512 mod ?s + 1 \<le> ?s" using assms csize_mask(2)[of fs] by (simp add: vol_ok_def Suc_le_eq)
  show e: "p mod clust_size fs = 512 * (p div 512 mod ?s) + p mod 512" unfolding clust_size_def by (rule sector_split)
  have m: "p mod 512 < 512" by simp
  have le: "512 * (p div 512 mod ?s) + 512 \<le> clust_size fs"
    using mult_le_mono2[OF s, of 512] by (simp add: clust_size_def)
  show "p mod clust_size fs + (512 - p mod 512) \<le> clust_size fs" unfolding e using le m by linarith
  have "p - p mod 512 = 512 * (p div 512)" by (simp add: minus_mod_eq_mult_div)
  then show q: "(p - p mod 512) mod clust_size fs = 512 * (p div 512 mod ?s)" by (simp add: clust_size_def)
  show "(p - p mod 512) mod clust_size fs + p mod 512 < clust_size fs" unfolding q using le m by linarith
qed

lemma sector_start:
  assumes "vol_ok img fs"
  shows "byte_pos fs cs p = byte_pos fs cs (p - p mod 512) + p mod 512" "p div clust_size fs = (p - p mod 512) div clust_size fs"
  using byte_pos_near(1)[OF assms in_cluster(4)[OF assms, of p], of cs] byte_pos_near(2)[OF assms in_cluster(4)[OF assms, of p]]
  by simp_all

lemma clust2sect_geo: "geo fs = geo fs' \<Longrightarrow> clust2sect fs = clust2sect fs'"
  by (rule ext) (simp add: clust2sect_def Let_def geo_eq_fields[of fs fs'])

lemma valid_word:
  assumes "valid_clust fs c"
  shows "unat (of_nat c :: u32) = c" "(2 :: u32) \<le> of_nat c" "of_nat c < n_fatent fs" "\<not> of_nat c < (2 :: u32)"
    "of_nat c \<noteq> (0xffffffff :: u32)" "\<not> n_fatent fs \<le> of_nat c"
proof -
  show c: "unat (of_nat c :: u32) = c" using assms unat_less[of "n_fatent fs"] by (auto simp: valid_clust_def unat_of_nat)
  show l: "(2 :: u32) \<le> of_nat c" "of_nat c < n_fatent fs" using assms by (simp_all add: word_le_nat_alt word_less_nat_alt c valid_clust_def)
  show "\<not> of_nat c < (2 :: u32)" "\<not> n_fatent fs \<le> of_nat c" using l by simp_all
  show "of_nat c \<noteq> (0xffffffff :: u32)"
  proof
    assume e: "of_nat c = (0xffffffff :: u32)"
    have "c = 0xffffffff" using arg_cong[OF e, of unat] c by simp
    then show False using assms unat_less[of "n_fatent fs"] by (simp add: valid_clust_def)
  qed
qed

context sector_source
begin

lemma fat_next:
  assumes "src x" "vol_ok img (ff_fs x)" "chain img (ff_fs x) cs" "Suc j < length cs"
  shows "\<exists>x'. get_fat D (of_nat (cs ! j)) x = Some (of_nat (cs ! Suc j), x') \<and> src x' \<and> core x' = core x"
proof -
  have v: "valid_clust (ff_fs x) (cs ! j)" using chain_nth[OF assms(3)] assms(4) by simp
  obtain w x' where w: "get_fat D (of_nat (cs ! j)) x = Some (w, x')" "unat w = cs ! Suc j" "src x'" "core x' = core x"
    using get_fat_ok[OF assms(1,2) valid_word(2,3)[OF v]] valid_word(1)[OF v] chain_next[OF assms(3,4)] by auto
  have "w = of_nat (unat w)" by simp
  with w show ?thesis by simp
qed

lemma validate_ok:
  assumes "src x" "vol_ok img (ff_fs x)" "obj_fs obj" "obj_id obj = fat_id (ff_fs x)"
  shows "validate D obj x = Some FR_OK"
proof -
  have "fs_type (ff_fs x) \<noteq> 0" "drv (ff_fs x) = 0" using assms(1,2) by (auto simp: vol_ok_def geom_def vol_consts src_def)
  then show ?thesis using assms(3,4) by (simp add: validate_def ready)
qed

end

end
