(* ===== verification/Fat_Items.thy ===== *)
theory Fat_Items
  imports Fat_Dir Fat_Chain
begin

text \<open>
  Directories as lists of objects: the entries of a directory in order, wherever its clusters are, groups of entries that
  form one object with a long name, and what \<open>dir_read\<close> and \<open>dir_find\<close> do on them.
\<close>

section \<open>The entries of a directory\<close>

text \<open>The clusters of a directory are \<open>cs\<close>; no clusters mean the static root directory. \<open>dir_span\<close>: the directory with
  start cluster \<open>c0\<close> has room for \<open>N\<close> entries. Entry \<open>k\<close> is in sector \<open>esec\<close>.\<close>

definition dir_span :: "byte list \<Rightarrow> fatfs \<Rightarrow> u32 \<Rightarrow> nat list \<Rightarrow> nat \<Rightarrow> bool" where
  "dir_span img fs c0 cs N \<longleftrightarrow>
     (if cs = [] then fs_type fs \<noteq> FS_FAT32 \<and> c0 = 0 \<and> N = unat (n_rootdir fs)
      else chain img fs cs \<and> hd cs = unat (start_clust fs c0) \<and>
        N = 16 * (unat (csize fs) * length cs))"

definition esec :: "fatfs \<Rightarrow> nat list \<Rightarrow> nat \<Rightarrow> nat" where
  "esec fs cs k = (let j = k div 16; s = unat (csize fs) in
     if cs = [] then unat (dirbase fs) + j else unat (database fs) + (cs ! (j div s) - 2) * s + j mod s)"

definition ent :: "byte list \<Rightarrow> fatfs \<Rightarrow> nat list \<Rightarrow> nat \<Rightarrow> mem" where
  "ent img fs cs k = (\<lambda>i. img ! (512 * esec fs cs k + 32 * (k mod 16) + i))"

definition chain_ends :: "byte list \<Rightarrow> fatfs \<Rightarrow> nat list \<Rightarrow> bool" where
  "chain_ends img fs cs \<longleftrightarrow> cs = [] \<or> unat (n_fatent fs) \<le> fat_at img fs (last cs)"

text \<open>The directory holds \<open>E\<close> entries: up to the end mark, or up to the end of its room. It is below the
  limit on the size of directories.\<close>

definition dir_holds :: "byte list \<Rightarrow> fatfs \<Rightarrow> u32 \<Rightarrow> nat list \<Rightarrow> nat \<Rightarrow> nat \<Rightarrow> bool" where
  "dir_holds img fs c0 cs N E \<longleftrightarrow> dir_span img fs c0 cs N \<and> 0 < N \<and> (\<forall>k < E. ent img fs cs k 0 \<noteq> 0) \<and>
     (if E < N then ent img fs cs E 0 = 0 else E = N \<and> chain_ends img fs cs) \<and> 32 * E < unat MAX_DIR"

text \<open>A directory object that stands at entry \<open>k\<close>.\<close>

definition at_ent :: "fatfs \<Rightarrow> nat list \<Rightarrow> nat \<Rightarrow> nat \<Rightarrow> dir \<Rightarrow> bool" where
  "at_ent fs cs N k dp \<longleftrightarrow> k < N \<and> 32 * k < unat MAX_DIR \<and> unat (dptr dp) = 32 * k \<and>
     unat (dsect dp) = esec fs cs k \<and> ddir dp = 32 * (k mod 16) \<and>
     dclust dp = (if cs = [] then 0 else of_nat (cs ! (k div 16 div unat (csize fs))))"

lemma dir_geo:
  assumes "geo fs = geo fs'"
  shows "dir_span img fs = dir_span img fs'" "esec fs = esec fs'" "ent img fs = ent img fs'"
    "dir_holds img fs = dir_holds img fs'" "at_ent fs = at_ent fs'"
proof -
  note g = geo_eq_fields[OF assms] chain_geo[OF assms]
  have c: "start_clust fs = start_clust fs'" by (intro ext) (simp add: start_clust_def g)
  show s: "dir_span img fs = dir_span img fs'" by (intro ext) (simp add: dir_span_def g c)
  show p: "esec fs = esec fs'" by (intro ext) (simp add: esec_def Let_def g)
  show e: "ent img fs = ent img fs'" by (intro ext) (simp add: ent_def p)
  show "dir_holds img fs = dir_holds img fs'"
    by (intro ext) (simp add: dir_holds_def s e chain_ends_def g fat_at_geo[OF assms])
  show "at_ent fs = at_ent fs'" by (intro ext) (simp add: at_ent_def p g)
qed

lemma fat_at_small: "fat_at img fs c < 2 ^ 28"
proof -
  have b: "unat (img ! i) < 256" for i using unat_less[of "img ! i"] by simp
  show ?thesis using b[of "512 * unat (fatbase fs) + 2 * c"] b[of "512 * unat (fatbase fs) + (2 * c + 1)"]
      b[of "512 * unat (fatbase fs) + (c + c div 2)"] b[of "512 * unat (fatbase fs) + (c + c div 2 + 1)"]
    unfolding fat_at_def Let_def by (auto simp: le_less_trans[OF div_le_dividend] add.assoc intro!: less_trans[OF mod_less_divisor])
qed

lemma ent_in_sector: "32 * k mod 512 = 32 * (k mod 16)" "32 * (k mod 16) + 32 \<le> (512 :: nat)" "32 * k div 512 = k div 16" for k :: nat
proof -
  show "32 * k mod 512 = 32 * (k mod 16)" using mult_mod_right[of 32 k 16] by simp
  have "k mod 16 \<le> 15" using mod_less_divisor[of 16 k] by linarith
  then show "32 * (k mod 16) + 32 \<le> 512" by simp
  show "32 * k div 512 = k div 16" using div_mult_mult1[of 32 k 16] by simp
qed

lemma esec_fits:
  assumes "vol_ok img fs" "dir_span img fs c0 cs N" "k < N"
  shows "512 * (esec fs cs k + 1) \<le> length img" "0 < esec fs cs k"
    "cs \<noteq> [] \<Longrightarrow> k div 16 div unat (csize fs) < length cs"
proof -
  show i: "k div 16 div unat (csize fs) < length cs" if "cs \<noteq> []"
  proof -
    have "k < 16 * (unat (csize fs) * length cs)" using that assms(2,3) by (simp add: dir_span_def)
    then have "k div 16 < unat (csize fs) * length cs" by (simp add: less_mult_imp_div_less mult.commute)
    then show ?thesis by (simp add: less_mult_imp_div_less mult.commute)
  qed
  have "512 * (esec fs cs k + 1) \<le> length img \<and> 0 < esec fs cs k"
  proof (cases "cs = []")
    case True
    then have f: "fs_type fs \<noteq> FS_FAT32" "N = unat (n_rootdir fs)" using assms(2) by (simp_all add: dir_span_def)
    then have v: "0 < unat (dirbase fs)" "512 * unat (dirbase fs) + 32 * N \<le> length img" "16 dvd N"
      using assms(1) by (simp_all add: vol_ok_def geom_def word_less_nat_alt)
    obtain n where n: "N = 16 * n" using v(3) by blast
    have "k div 16 < n" using assms(3) n by (simp add: less_mult_imp_div_less mult.commute)
    then have "512 * (unat (dirbase fs) + k div 16 + 1) \<le> length img"
      using v(2) n by (intro sector_fits[of _ n]) simp_all
    then show ?thesis using v(1) True by (simp add: esec_def)
  next
    case False
    let ?s = "unat (csize fs)"
    have c: "chain img fs cs" using False assms(2) by (simp add: dir_span_def)
    note cf = clust_fits[OF assms(1) chain_nth[OF c i[OF False]]]
    have s: "0 < ?s" "0 < unat (database fs)" using assms(1) csize_mask(2)[of fs] by (simp_all add: vol_ok_def word_less_nat_alt)
    have "512 * (unat (database fs) + (cs ! (k div 16 div ?s) - 2) * ?s + k div 16 mod ?s + 1) \<le> length img"
      using cf mod_less_divisor[OF s(1), of "k div 16"] by (intro sector_fits[of _ ?s]) (simp_all add: clust_pos_def clust_size_def)
    then show ?thesis using s(2) False by (simp add: esec_def Let_def)
  qed
  then show "512 * (esec fs cs k + 1) \<le> length img" "0 < esec fs cs k" by blast+
qed

context sector_source
begin

lemma load_entry:
  assumes "src x" "vol_ok img (ff_fs x)" "dir_span img (ff_fs x) c0 cs N" "at_ent (ff_fs x) cs N k dp"
  shows "dsect dp \<noteq> 0" "\<exists>x'. move_window D (dsect dp) x = Some (FR_OK, x') \<and> src x' \<and> core x' = core x \<and>
    (\<forall>i < 32. entry x' dp i = ent img (ff_fs x) cs k i)"
proof -
  have a: "k < N" "unat (dsect dp) = esec (ff_fs x) cs k" "ddir dp = 32 * (k mod 16)" using assms(4) by (simp_all add: at_ent_def)
  note f = esec_fits[OF assms(2,3) a(1)]
  show "dsect dp \<noteq> 0" using f(2) a(2) by auto
  obtain x' where x': "move_window D (dsect dp) x = Some (FR_OK, x')" "src x'" "core x' = core x"
    "\<forall>i < 512. win (ff_fs x') i = img ! (512 * unat (dsect dp) + i)"
    using move_window_ok[OF assms(1), of "dsect dp"] f(1) a(2) by auto
  then have "\<forall>i < 32. entry x' dp i = ent img (ff_fs x) cs k i"
    using ent_in_sector(2)[of k] a by (simp add: entry_def ent_def add.assoc)
  with x' show "\<exists>x'. move_window D (dsect dp) x = Some (FR_OK, x') \<and> src x' \<and> core x' = core x \<and>
    (\<forall>i < 32. entry x' dp i = ent img (ff_fs x) cs k i)" by blast
qed

text \<open>Rewinding.\<close>

lemma dir_sdi_ok:
  assumes "src x" "vol_ok img (ff_fs x)" "dir_span img (ff_fs x) (sclust (dobj dp)) cs N" "0 < N"
  shows "\<exists>dp'. dir_sdi D 0 dp x = Some (FR_OK, dp', x) \<and> at_ent (ff_fs x) cs N 0 dp' \<and>
    dp' = dp\<lparr>dptr := 0, dclust := dclust dp', dsect := dsect dp', ddir := 0\<rparr>"
proof -
  let ?fs = "ff_fs x"
  let ?c = "start_clust ?fs (sclust (dobj dp))"
  have "fs_type ?fs \<in> {FS_FAT12, FS_FAT16, FS_FAT32}" using assms(2) by (auto simp: vol_ok_def geom_def)
  then have ty: "FS_FAT32 \<le> fs_type ?fs \<longleftrightarrow> fs_type ?fs = FS_FAT32" by (auto simp: vol_consts word_le_nat_alt)
  have chain0: "sdi_chain D z c 0 x = Some (Inr (c, 0), x)" if "z \<noteq> 0" for z c
    using that by (subst sdi_chain.simps) simp
  have geom: "geom ?fs" using assms(2) by (simp add: vol_ok_def)
  have z: "ucast (csize ?fs) * SS \<noteq> (0 :: u32)"
  proof -
    have "unat (ucast (csize ?fs) * SS :: u32) = 512 * unat (csize ?fs)"
      using csize_mask(3)[OF geom] by (simp add: unat_word_ariths unat_ucast_mod SS_facts)
    then show ?thesis using csize_mask(2)[OF geom] by auto
  qed
  show ?thesis
  proof (cases "cs = []")
    case True
    then have s: "?c = 0" "N = unat (n_rootdir ?fs)" "sclust (dobj dp) = 0" using assms(3) ty by (simp_all add: dir_span_def start_clust_def)
    have "0 < unat (dirbase ?fs)" "0 < unat (ucast (n_rootdir ?fs) :: u32)"
      using assms(2,4) s True assms(3) unat_less[of "n_rootdir ?fs"] by (auto simp: vol_ok_def word_less_nat_alt dir_span_def unat_ucast_mod)
    with s True assms(4) show ?thesis
      by (intro exI[of _ "dp\<lparr>dptr := 0, dclust := 0, dsect := dirbase ?fs, ddir := 0\<rparr>"])
         (auto simp: dir_sdi_def Let_def at_ent_def esec_def MAX_DIR_def SS_facts SZDIRE_def unat_gt_0 word_le_nat_alt)
  next
    case False
    have c: "chain img ?fs cs" "hd cs = unat ?c" using False assms(3) by (simp_all add: dir_span_def)
    have v: "valid_clust ?fs (unat ?c)" using chain_nth[OF c(1), of 0] False c(2) by (simp add: hd_conv_nth)
    then have nz: "?c \<noteq> 0" by (auto simp: valid_clust_def)
    have k: "0 < unat (csize ?fs)" using csize_mask(2)[OF geom] .
    note w = valid_word[OF v]
    have cu: "(of_nat (unat ?c) :: u32) = ?c" by simp
    note c2 = clust2sect_ok[OF assms(2) src_size[OF assms(1)] w(2,3), unfolded cu]
    have "dir_sdi D 0 dp x = Some (FR_OK, dp\<lparr>dptr := 0, dclust := ?c, dsect := clust2sect ?fs ?c, ddir := 0\<rparr>, x)"
      using nz z chain0 c2(2) by (simp add: dir_sdi_def Let_def MAX_DIR_def SS_facts SZDIRE_def)
    moreover have "cs ! 0 = unat ?c" using c(2) False by (simp add: hd_conv_nth)
    ultimately show ?thesis using assms(4) False c2(1)
      by (intro exI[of _ "dp\<lparr>dptr := 0, dclust := ?c, dsect := clust2sect ?fs ?c, ddir := 0\<rparr>"])
         (simp add: at_ent_def esec_def Let_def MAX_DIR_def)
  qed
qed


text \<open>Moving on: within a sector, to the next sector, and to the next cluster.\<close>

lemma next_offset:
  assumes "at_ent fs cs N k dp" "32 * (k + 1) < unat MAX_DIR"
  shows "unat (dptr dp + SZDIRE) = 32 * (k + 1)" "\<not> MAX_DIR \<le> dptr dp + SZDIRE"
    "unat ((dptr dp + SZDIRE) mod SS) = 32 * ((k + 1) mod 16)" "unat ((dptr dp + SZDIRE) div SS) = (k + 1) div 16"
    "unat ((dptr dp + SZDIRE) div SZDIRE) = k + 1" "(dptr dp + SZDIRE) mod SS = 0 \<longleftrightarrow> (k + 1) mod 16 = 0"
proof -
  have "unat (dptr dp) = 32 * k" using assms(1) by (simp add: at_ent_def)
  then show u: "unat (dptr dp + SZDIRE) = 32 * (k + 1)"
    using assms(2) by (simp add: unat_word_ariths SZDIRE_def MAX_DIR_def)
  show "\<not> MAX_DIR \<le> dptr dp + SZDIRE" using assms(2) by (simp only: word_le_nat_alt u not_le)
  show m: "unat ((dptr dp + SZDIRE) mod SS) = 32 * ((k + 1) mod 16)" by (simp only: unat_mod u SS_facts(1) ent_in_sector)
  show "unat ((dptr dp + SZDIRE) div SS) = (k + 1) div 16" by (simp only: unat_div u SS_facts(1) ent_in_sector)
  show "unat ((dptr dp + SZDIRE) div SZDIRE) = k + 1" by (simp only: unat_div u) (simp add: SZDIRE_def)
  show "(dptr dp + SZDIRE) mod SS = 0 \<longleftrightarrow> (k + 1) mod 16 = 0" by (simp only: word_unat_eq_iff m) simp
qed

lemma mod_Suc_0: "0 < s \<Longrightarrow> Suc j mod s = 0 \<Longrightarrow> Suc j div s = Suc (j div s)" "Suc j mod s \<noteq> 0 \<Longrightarrow> Suc j div s = j div s \<and> Suc j mod s = Suc (j mod s)" for j s :: nat
  by (simp_all add: div_Suc mod_Suc split: if_splits)

abbreviation moved :: "dir \<Rightarrow> dir \<Rightarrow> bool" where
  "moved dp dp' \<equiv> dp' = dp\<lparr>dptr := dptr dp', dclust := dclust dp', dsect := dsect dp', ddir := ddir dp'\<rparr>"

lemma dir_next_more:
  assumes "src x" "vol_ok img (ff_fs x)" "dir_span img (ff_fs x) c0 cs N" "at_ent (ff_fs x) cs N k dp"
    and "k + 1 < N" "32 * (k + 1) < unat MAX_DIR"
  shows "\<exists>dp' x'. dir_next D dp x = Some (FR_OK, dp', x') \<and> at_ent (ff_fs x) cs N (k + 1) dp' \<and> moved dp dp' \<and>
    src x' \<and> core x' = core x"
proof -
  let ?fs = "ff_fs x" and ?s = "unat (csize (ff_fs x))" and ?o = "dptr dp + SZDIRE"
  have a: "k < N" "unat (dsect dp) = esec ?fs cs k" "dclust dp = (if cs = [] then 0 else of_nat (cs ! (k div 16 div ?s)))"
    using assms(4) by (simp_all add: at_ent_def)
  note f = esec_fits[OF assms(2,3) a(1)] and f1 = esec_fits[OF assms(2,3) assms(5)]
  note o = next_offset[OF assms(4,6)]
  have nz: "dsect dp \<noteq> 0" using f(2) a(2) by auto
  have geom: "geom ?fs" using assms(2) by (simp add: vol_ok_def)
  note sp = csize_mask(2,3)[OF geom]
  have msk: "(?o div SS) AND (ucast (csize ?fs) - 1) = 0 \<longleftrightarrow> (k + 1) div 16 mod ?s = 0"
    using csize_mask(1)[OF geom, of "?o div SS"] o(4) by (simp add: word_unat_eq_iff)
  have sx: "unat (dsect dp + 1) = esec ?fs cs k + 1"
    using f(1) a(2) src_size[OF assms(1)] by (simp add: unat_word_ariths)
  let ?m = "dp\<lparr>dptr := ?o, ddir := unat (?o mod SS)\<rparr>" and ?n = "dp\<lparr>dptr := ?o, ddir := unat (?o mod SS), dsect := dsect dp + 1\<rparr>"
  consider (same) "(k + 1) mod 16 \<noteq> 0" | (static) "(k + 1) mod 16 = 0" "cs = []"
    | (sector) "(k + 1) mod 16 = 0" "cs \<noteq> []" "(k + 1) div 16 mod ?s \<noteq> 0"
    | (clust) "(k + 1) mod 16 = 0" "cs \<noteq> []" "(k + 1) div 16 mod ?s = 0" by blast
  then show ?thesis
  proof cases
    case same
    have "(k + 1) div 16 = k div 16" using mod_Suc_0(2)[of k 16] same by simp
    then have "at_ent ?fs cs N (k + 1) ?m" using assms(4,5,6) o(1,3) by (simp add: at_ent_def esec_def)
    moreover have "dir_next D dp x = Some (FR_OK, ?m, x)" using same o nz by (simp add: dir_next_def Let_def)
    ultimately show ?thesis using assms(1) by (intro exI[of _ ?m] exI[of _ x]) simp
  next
    case static
    have d: "(k + 1) div 16 = k div 16 + 1" using mod_Suc_0(1)[of 16 k] static(1) by simp
    have "N = unat (n_rootdir ?fs)" using assms(3) static(2) by (simp add: dir_span_def)
    then have "\<not> ucast (n_rootdir ?fs) \<le> ?o div SZDIRE"
      using assms(5) o(5) unat_less[of "n_rootdir ?fs"] by (simp add: word_le_nat_alt unat_ucast_mod)
    then have "dir_next D dp x = Some (FR_OK, ?n, x)" using static o nz a(3) by (simp add: dir_next_def Let_def)
    moreover have "at_ent ?fs cs N (k + 1) ?n"
      using assms(4,5,6) o(1,3) d sx static by (simp add: at_ent_def esec_def)
    ultimately show ?thesis using assms(1) by (intro exI[of _ ?n] exI[of _ x]) simp
  next
    case sector
    have d: "(k + 1) div 16 = Suc (k div 16)" using mod_Suc_0(1)[of 16 k] sector(1) by simp
    have e: "(k + 1) div 16 div ?s = k div 16 div ?s" "(k + 1) div 16 mod ?s = Suc (k div 16 mod ?s)"
      using mod_Suc_0(2)[of "k div 16" ?s] sector(3) d by simp_all
    have v: "valid_clust ?fs (cs ! (k div 16 div ?s))" using assms(3) sector(2) chain_nth[of img ?fs cs, OF _ f(3)[OF sector(2)]] by (simp add: dir_span_def)
    have "dclust dp \<noteq> 0" using a(3) sector(2) valid_word(2)[OF v] by auto
    then have "dir_next D dp x = Some (FR_OK, ?n, x)" using sector o nz msk by (simp add: dir_next_def Let_def)
    moreover have "at_ent ?fs cs N (k + 1) ?n"
      using assms(4,5,6) o(1,3) e sx sector by (simp add: at_ent_def esec_def Let_def)
    ultimately show ?thesis using assms(1) by (intro exI[of _ ?n] exI[of _ x]) simp
  next
    case clust
    have d: "(k + 1) div 16 = Suc (k div 16)" using mod_Suc_0(1)[of 16 k] clust(1) by simp
    have e: "(k + 1) div 16 div ?s = Suc (k div 16 div ?s)" using mod_Suc_0(1)[OF sp(1), of "k div 16"] clust(3) d by simp
    have c: "chain img ?fs cs" using assms(3) clust(2) by (simp add: dir_span_def)
    have len: "Suc (k div 16 div ?s) < length cs" using f1(3)[OF clust(2)] e by simp
    have v: "valid_clust ?fs (cs ! (k div 16 div ?s))" "valid_clust ?fs (cs ! Suc (k div 16 div ?s))" using chain_nth[OF c] len by simp_all
    have dn: "dclust dp \<noteq> 0" using a(3) clust(2) valid_word(2)[OF v(1)] by auto
    obtain x1 where x1: "get_fat D (dclust dp) x = Some (of_nat (cs ! Suc (k div 16 div ?s)), x1)" "src x1" "core x1 = core x"
      using fat_next[OF assms(1,2) c len] a(3) clust(2) by auto
    note w = valid_word[OF v(2)] and g = core_eqD(3)[OF x1(3)]
    let ?w = "of_nat (cs ! Suc (k div 16 div ?s)) :: u32"
    let ?c = "dp\<lparr>dptr := ?o, ddir := unat (?o mod SS), dclust := ?w, dsect := clust2sect ?fs ?w\<rparr>"
    have "\<not> ?w \<le> 1" using w(4) by (simp add: word_le_nat_alt word_less_nat_alt)
    then have "dir_next D dp x = Some (FR_OK, ?c, x1)"
      using clust o nz msk dn x1(1) w(5,6) geo_eq_fields(6)[OF g] clust2sect_geo[OF g] by (simp add: dir_next_def Let_def)
    moreover have "at_ent ?fs cs N (k + 1) ?c"
      using assms(4,5,6) o(1,3) e clust clust2sect_ok(1)[OF assms(2) src_size[OF assms(1)] w(2,3)] w(1)
      by (simp add: at_ent_def esec_def Let_def)
    ultimately show ?thesis using x1 by (intro exI[of _ ?c] exI[of _ x1]) simp
  qed
qed

lemma dir_next_end:
  assumes "src x" "vol_ok img (ff_fs x)" "dir_span img (ff_fs x) c0 cs N" "at_ent (ff_fs x) cs N k dp"
    and "k + 1 = N" "32 * N < unat MAX_DIR" "chain_ends img (ff_fs x) cs"
  shows "\<exists>x'. dir_next D dp x = Some (FR_NO_FILE, dp\<lparr>dsect := 0\<rparr>, x') \<and> src x' \<and> core x' = core x"
proof -
  let ?fs = "ff_fs x" and ?s = "unat (csize (ff_fs x))" and ?o = "dptr dp + SZDIRE"
  have a: "k < N" "unat (dsect dp) = esec ?fs cs k" "dclust dp = (if cs = [] then 0 else of_nat (cs ! (k div 16 div ?s)))"
    using assms(4) by (simp_all add: at_ent_def)
  note f = esec_fits[OF assms(2,3) a(1)]
  have k1: "32 * (k + 1) < unat MAX_DIR" using assms(5,6) by simp
  note o = next_offset[OF assms(4) k1]
  have nz: "dsect dp \<noteq> 0" using f(2) a(2) by auto
  have geom: "geom ?fs" using assms(2) by (simp add: vol_ok_def)
  note sp = csize_mask(2,3)[OF geom]
  show ?thesis
  proof (cases "cs = []")
    case True
    then have n: "N = unat (n_rootdir ?fs)" "16 dvd N" using assms(2,3) by (simp_all add: dir_span_def vol_ok_def geom_def)
    then have "(k + 1) mod 16 = 0" using assms(5) by (simp add: dvd_eq_mod_eq_0)
    moreover have "ucast (n_rootdir ?fs) \<le> ?o div SZDIRE"
      using assms(5) o(5) n(1) unat_less[of "n_rootdir ?fs"] by (simp add: word_le_nat_alt unat_ucast_mod)
    ultimately have "dir_next D dp x = Some (FR_NO_FILE, dp\<lparr>dsect := 0\<rparr>, x)" using True o nz a(3) by (simp add: dir_next_def Let_def)
    then show ?thesis using assms(1) by simp
  next
    case False
    have c: "chain img ?fs cs" "N = 16 * (?s * length cs)" using assms(3) False by (simp_all add: dir_span_def)
    have q: "(k + 1) mod 16 = 0" "(k + 1) div 16 = ?s * length cs" using assms(5) c(2) by simp_all
    have d: "Suc (k div 16) = ?s * length cs" using mod_Suc_0(1)[of 16 k] q by simp
    have "Suc (k div 16) mod ?s = 0" using d by simp
    from mod_Suc_0(1)[OF sp(1) this] have i: "Suc (k div 16 div ?s) = length cs" using d sp(1) by simp
    let ?l = "cs ! (k div 16 div ?s)"
    have l: "?l = last cs" using i False by (metis diff_Suc_1 last_conv_nth)
    have v: "valid_clust ?fs ?l" using chain_nth[OF c(1)] i by simp
    have dn: "dclust dp \<noteq> 0" using a(3) False valid_word(2)[OF v] by auto
    obtain w x1 where w: "get_fat D (of_nat ?l) x = Some (w, x1)" "unat w = fat_at img ?fs ?l" "src x1" "core x1 = core x"
      using get_fat_ok[OF assms(1,2) valid_word(2,3)[OF v]] valid_word(1)[OF v] by auto
    have big: "unat (n_fatent ?fs) \<le> unat w" using assms(7) False w(2) l by (simp add: chain_ends_def)
    have "2 < unat (n_fatent ?fs)" using geom by (simp add: geom_def word_less_nat_alt)
    then have "\<not> w \<le> 1" "n_fatent (ff_fs x1) \<le> w" using big geo_eq_fields(6)[OF core_eqD(3)[OF w(4)]] by (simp_all add: word_le_nat_alt)
    moreover have "w \<noteq> 0xffffffff"
    proof
      assume "w = 0xffffffff"
      then have "fat_at img ?fs ?l = 0xffffffff" using w(2) by simp
      then show False using fat_at_small[of img ?fs ?l] by simp
    qed
    moreover have "(?o div SS) AND (ucast (csize ?fs) - 1) = 0"
      using csize_mask(1)[OF geom, of "?o div SS"] o(4) q(2) by (simp add: word_unat_eq_iff)
    ultimately have "dir_next D dp x = Some (FR_NO_FILE, dp\<lparr>dsect := 0\<rparr>, x1)"
      using False o nz dn a(3) q(1) w(1) by (simp add: dir_next_def Let_def)
    then show ?thesis using w by simp
  qed
qed

end

end
