(* ===== verification/Fat_Scan.thy ===== *)
theory Fat_Scan
  imports Fat_Items
begin

text \<open>
  Directory search on lists of entries: \<open>read_scan\<close> and \<open>find_scan\<close> do to a sequence of entries what the loops of
  \<open>dir_read\<close> and \<open>dir_find\<close> do to the sectors of a directory. The loops on the disk agree with them, wherever the sectors are.
\<close>

section \<open>Entries in the window\<close>

text \<open>An entry has 32 bytes; what lies behind it in the window does not matter.\<close>

definition same_entry :: "mem \<Rightarrow> mem \<Rightarrow> bool" where
  "same_entry e e' \<longleftrightarrow> (\<forall>i < 32. e i = e' i)"

lemma same_entry_at: "same_entry e e' \<Longrightarrow> i < 32 \<Longrightarrow> e i = e' i"
  by (simp add: same_entry_def)

lemma same_entry_ld:
  assumes "same_entry e e'"
  shows "p + 1 < 32 \<Longrightarrow> ld_word e p = ld_word e' p" "p + 3 < 32 \<Longrightarrow> ld_dword e p = ld_dword e' p"
  using assms by (simp_all add: ld_word_def ld_dword_def same_entry_def)

lemma pick_loop_cong:
  "same_entry e e' \<Longrightarrow> \<forall>p \<in> set ofs. p + 1 < 32 \<Longrightarrow> pick_lfn_loop e ofs wc i lfn = pick_lfn_loop e' ofs wc i lfn"
  by (induction ofs arbitrary: wc i lfn) (simp_all add: Let_def same_entry_ld)

lemma cmp_loop_cong:
  "same_entry e e' \<Longrightarrow> \<forall>p \<in> set ofs. p + 1 < 32 \<Longrightarrow> cmp_lfn_loop lfn e ofs wc i = cmp_lfn_loop lfn e' ofs wc i"
  by (induction ofs arbitrary: wc i) (simp_all add: Let_def same_entry_ld)

lemma LfnOfs_inside: "\<forall>p \<in> set LfnOfs. p + 1 < 32"
  by (simp add: LfnOfs_def)

lemma lfn_cong:
  assumes "same_entry e e'"
  shows "pick_lfn e lfn = pick_lfn e' lfn" "cmp_lfn lfn e = cmp_lfn lfn e'" "sum_sfn e = sum_sfn e'"
    "mem_get e 0 11 = mem_get e' 0 11"
proof -
  have z: "e 0 = e' 0" "ld_word e 26 = ld_word e' 26" using assms by (simp_all add: same_entry_def same_entry_ld)
  show "pick_lfn e lfn = pick_lfn e' lfn"
    unfolding pick_lfn_def lfn_pos_def z pick_loop_cong[OF assms LfnOfs_inside] ..
  show "cmp_lfn lfn e = cmp_lfn lfn e'"
    unfolding cmp_lfn_def lfn_pos_def z cmp_loop_cong[OF assms LfnOfs_inside] ..
  show g: "mem_get e 0 11 = mem_get e' 0 11" using assms by (simp add: mem_get_def same_entry_def)
  show "sum_sfn e = sum_sfn e'" by (simp only: sum_sfn_def g)
qed

section \<open>One entry\<close>

text \<open>What an entry does to the state of a search, without the directory object: \<open>p\<close> is the offset of the entry and
  \<open>blk\<close> the offset of the long name.\<close>

definition item_step :: "mem \<Rightarrow> bool \<Rightarrow> byte \<Rightarrow> byte \<Rightarrow> u32 \<Rightarrow> u32 \<Rightarrow> (nat \<Rightarrow> u16) \<Rightarrow> (unit + byte \<times> byte) \<times> u32 \<times> (nat \<Rightarrow> u16)" where
  "item_step e vol ord lsum p blk lfn =
     (let c = e 0; a = e 11 AND AM_MASK in
      if c = DDEM \<or> c = 0x2e \<or> (a AND NOT AM_ARC = AM_VOL) \<noteq> vol then (Inr (0xff, lsum), blk, lfn)
      else if a = AM_LFN then
        let head = (c AND LLEF \<noteq> 0); c = (if head then c AND NOT LLEF else c); ord = (if head then c else ord);
            lsum = (if head then e 13 else lsum); blk = (if head then p else blk)
        in if c = ord \<and> lsum = e 13 then
             (case pick_lfn e lfn of (ok, lfn) \<Rightarrow> (Inr (if ok then ord - 1 else 0xff, lsum), blk, lfn))
           else (Inr (0xff, lsum), blk, lfn)
      else (Inl (), if ord \<noteq> 0 \<or> lsum \<noteq> sum_sfn e then 0xffffffff else blk, lfn))"

definition name_step :: "mem \<Rightarrow> byte \<Rightarrow> byte \<Rightarrow> (nat \<Rightarrow> u16) \<Rightarrow> mem \<Rightarrow> unit + byte \<times> byte" where
  "name_step e ord lsum lfn fn =
     (let c = e 0; a = e 11 AND AM_MASK in
      if c = DDEM \<or> (a AND AM_VOL \<noteq> 0 \<and> a \<noteq> AM_LFN) then Inr (0xff, lsum)
      else if a = AM_LFN then
        (if fn NSFLAG AND NS_NOLFN = 0 then
           let head = (c AND LLEF \<noteq> 0); c = (if head then c AND NOT LLEF else c); ord = (if head then c else ord);
               lsum = (if head then e 13 else lsum)
           in Inr (if c = ord \<and> lsum = e 13 \<and> cmp_lfn lfn e then ord - 1 else 0xff, lsum)
         else Inr (ord, lsum))
      else if ord = 0 \<and> lsum = sum_sfn e then Inl ()
      else if fn NSFLAG AND NS_LOSS = 0 \<and> mem_get e 0 11 = mem_get fn 0 11 then Inl ()
      else Inr (0xff, lsum))"

lemma item_step_cong:
  assumes "same_entry e e'"
  shows "item_step e = item_step e'"
proof -
  have z: "e 0 = e' 0" "e 11 = e' 11" "e 13 = e' 13" using assms by (simp_all add: same_entry_def)
  show ?thesis by (intro ext) (simp only: item_step_def z lfn_cong[OF assms])
qed

lemma name_step_cong:
  assumes "same_entry e e'"
  shows "name_step e = name_step e'"
proof -
  have z: "e 0 = e' 0" "e 11 = e' 11" "e 13 = e' 13" using assms by (simp_all add: same_entry_def)
  show ?thesis by (intro ext) (simp only: name_step_def z lfn_cong[OF assms])
qed

lemma read_entry_step:
  "read_entry e vol ord lsum dp lfn =
     (case item_step e vol ord lsum (dptr dp) (blk_ofs dp) lfn of
        (r, blk, lfn) \<Rightarrow> (r, dp\<lparr>dobj := (dobj dp)\<lparr>obj_attr := e 11 AND AM_MASK\<rparr>, blk_ofs := blk\<rparr>, lfn))"
  by (cases dp) (auto simp: read_entry_def item_step_def Let_def split: prod.split)

lemma find_entry_step:
  "\<exists>blk. find_entry e ord lsum lfn dp =
     (name_step e ord lsum lfn (dfn dp), dp\<lparr>dobj := (dobj dp)\<lparr>obj_attr := e 11 AND AM_MASK\<rparr>, blk_ofs := blk\<rparr>)"
  by (cases dp) (auto simp: find_entry_def name_step_def Let_def)

section \<open>Scans\<close>

text \<open>The next object among \<open>n\<close> entries from number \<open>k\<close> on, with its long name.\<close>

fun read_scan :: "(nat \<Rightarrow> mem) \<Rightarrow> bool \<Rightarrow> nat \<Rightarrow> nat \<Rightarrow> byte \<Rightarrow> byte \<Rightarrow> u32 \<Rightarrow> (nat \<Rightarrow> u16) \<Rightarrow> nat option \<times> u32 \<times> (nat \<Rightarrow> u16)" where
  "read_scan e vol k 0 ord lsum blk lfn = (None, blk, lfn)"
| "read_scan e vol k (Suc n) ord lsum blk lfn =
     (case item_step (e k) vol ord lsum (of_nat (32 * k)) blk lfn of
        (Inl _, blk, lfn) \<Rightarrow> (Some k, blk, lfn)
      | (Inr (ord, lsum), blk, lfn) \<Rightarrow> read_scan e vol (Suc k) n ord lsum blk lfn)"

text \<open>The first entry among them with a name.\<close>

fun find_scan :: "(nat \<Rightarrow> mem) \<Rightarrow> nat \<Rightarrow> nat \<Rightarrow> byte \<Rightarrow> byte \<Rightarrow> (nat \<Rightarrow> u16) \<Rightarrow> mem \<Rightarrow> nat option" where
  "find_scan e k 0 ord lsum lfn fn = None"
| "find_scan e k (Suc n) ord lsum lfn fn =
     (case name_step (e k) ord lsum lfn fn of
        Inl _ \<Rightarrow> Some k
      | Inr (ord, lsum) \<Rightarrow> find_scan e (Suc k) n ord lsum lfn fn)"

section \<open>The loops on the disk\<close>

text \<open>A directory object at entry \<open>k\<close> or, behind the last one, at the end.\<close>

definition dir_pos :: "byte list \<Rightarrow> fatfs \<Rightarrow> nat list \<Rightarrow> nat \<Rightarrow> nat \<Rightarrow> nat \<Rightarrow> dir \<Rightarrow> bool" where
  "dir_pos img fs cs N E k dp \<longleftrightarrow> k \<le> E \<and> (if k < N then at_ent fs cs N k dp else dsect dp = 0)"

text \<open>What moving does not touch, and searching only in part.\<close>

definition dir_key :: "dir \<Rightarrow> dir" where
  "dir_key dp = dp\<lparr>dobj := (dobj dp)\<lparr>obj_attr := 0\<rparr>, dptr := 0, dclust := 0, dsect := 0, ddir := 0, blk_ofs := 0\<rparr>"

lemma dir_key_fields:
  assumes "dir_key dp = dir_key dq"
  shows "dfn dp = dfn dq" "pat dp = pat dq" "obj_fs (dobj dp) = obj_fs (dobj dq)" "obj_id (dobj dp) = obj_id (dobj dq)"
    "sclust (dobj dp) = sclust (dobj dq)" "objsize (dobj dp) = objsize (dobj dq)"
  using assms by (cases dp; cases dq; cases "dobj dp"; cases "dobj dq"; simp add: dir_key_def)+

lemma dir_key_update [simp]:
  "dir_key (dp\<lparr>blk_ofs := b\<rparr>) = dir_key dp" "dir_key (dp\<lparr>dsect := sx\<rparr>) = dir_key dp"
  "dir_key (dp\<lparr>dobj := (dobj dp)\<lparr>obj_attr := a\<rparr>\<rparr>) = dir_key dp"
  by (simp_all add: dir_key_def)

lemma moved_key: "dp' = dp\<lparr>dptr := dptr dp', dclust := dclust dp', dsect := dsect dp', ddir := ddir dp'\<rparr> \<Longrightarrow> dir_key dp' = dir_key dp \<and> blk_ofs dp' = blk_ofs dp \<and> obj_attr (dobj dp') = obj_attr (dobj dp)"
  by (cases dp; cases dp') (simp add: dir_key_def)

lemma at_ent_found:
  "at_ent fs cs N k (dp\<lparr>dobj := ob, blk_ofs := b\<rparr>) = at_ent fs cs N k dp"
  by (simp add: at_ent_def)

context sector_source
begin

text \<open>Moving to the next entry, or off the end.\<close>

lemma dir_next_pos:
  assumes "src x" "vol_ok img (ff_fs x)" "dir_holds img (ff_fs x) c0 cs N E" "at_ent (ff_fs x) cs N k dp" "k < E"
  shows "\<exists>dp' x'. dir_next D dp x = Some (if k + 1 < N then FR_OK else FR_NO_FILE, dp', x') \<and>
    dir_pos img (ff_fs x) cs N E (k + 1) dp' \<and> dir_key dp' = dir_key dp \<and> blk_ofs dp' = blk_ofs dp \<and> obj_attr (dobj dp') = obj_attr (dobj dp) \<and>
    src x' \<and> core x' = core x"
proof -
  have h: "dir_span img (ff_fs x) c0 cs N" "32 * E < unat MAX_DIR" "E \<le> N" "E = N \<Longrightarrow> chain_ends img (ff_fs x) cs"
    using assms(3) by (auto simp: dir_holds_def split: if_splits)
  show ?thesis
  proof (cases "k + 1 < N")
    case True
    have "32 * (k + 1) < unat MAX_DIR" using h(2) assms(5) by simp
    from dir_next_more[OF assms(1,2) h(1) assms(4) True this] obtain dp' x' where
      "dir_next D dp x = Some (FR_OK, dp', x')" "at_ent (ff_fs x) cs N (k + 1) dp'" "moved dp dp'" "src x'" "core x' = core x" by blast
    with moved_key[of dp' dp] True assms(5) show ?thesis
      by (intro exI[of _ dp'] exI[of _ x']) (simp add: dir_pos_def)
  next
    case False
    then have "k + 1 = N" "E = N" using assms(4,5) h(3) by (simp_all add: at_ent_def)
    from dir_next_end[OF assms(1,2) h(1) assms(4) this(1)] h(2,4) this obtain x' where
      "dir_next D dp x = Some (FR_NO_FILE, dp\<lparr>dsect := 0\<rparr>, x')" "src x'" "core x' = core x" by auto
    with False assms(5) show ?thesis
      by (intro exI[of _ "dp\<lparr>dsect := 0\<rparr>"] exI[of _ x']) (simp add: dir_pos_def)
  qed
qed

text \<open>Reading: the loop of \<open>dir_read\<close> is the scan.\<close>

definition read_result ::
  "fatfs \<Rightarrow> nat list \<Rightarrow> nat \<Rightarrow> nat \<Rightarrow> nat \<Rightarrow> nat option \<times> u32 \<times> (nat \<Rightarrow> u16) \<Rightarrow> 's ff \<Rightarrow> dir \<Rightarrow> fresult \<Rightarrow> dir \<Rightarrow> 's ff \<Rightarrow> bool" where
  "read_result fs cs N E k scan x dp r dp' x' \<longleftrightarrow>
     src x' \<and> dir_key dp' = dir_key dp \<and> core x' = core (x\<lparr>LfnBuf := snd (snd scan)\<rparr>) \<and>
     (case fst scan of
        None \<Rightarrow> r = FR_NO_FILE
      | Some j \<Rightarrow> r = FR_OK \<and> k \<le> j \<and> j < E \<and> at_ent fs cs N j dp' \<and> blk_ofs dp' = fst (snd scan) \<and>
          obj_attr (dobj dp') = ent img fs cs j 11 AND AM_MASK \<and> same_entry (entry x' dp') (ent img fs cs j))"

lemma core_lfn: "core x = core y \<Longrightarrow> core (x\<lparr>LfnBuf := l\<rparr>) = core (y\<lparr>LfnBuf := l\<rparr>)"
  by (simp add: core_def)

lemma src_lfn [simp]: "src (x\<lparr>LfnBuf := l\<rparr>) = src x"
  by (simp add: src_def)

lemma read_loop_scan:
  assumes "src x" "vol_ok img (ff_fs x)" "dir_holds img (ff_fs x) c0 cs N E" "dir_pos img (ff_fs x) cs N E k dp"
    and "k < N \<or> res = FR_NO_FILE"
  shows "\<exists>r dp' x'. read_loop D vol res ord lsum dp x = Some (r, dp', x') \<and>
    read_result (ff_fs x) cs N E k (read_scan (ent img (ff_fs x) cs) vol k (E - k) ord lsum (blk_ofs dp) (LfnBuf x)) x dp r dp' x'"
  using assms
proof (induction "E - k" arbitrary: k res ord lsum dp x rule: less_induct)
  case less
  let ?fs = "ff_fs x" and ?e = "ent img (ff_fs x) cs"
  have h: "dir_span img ?fs c0 cs N" "k < N \<Longrightarrow> k = E \<Longrightarrow> ?e k 0 = 0" "k < E \<Longrightarrow> ?e k 0 \<noteq> 0" "E \<le> N" "k \<le> E"
    using less.prems(3,4) by (auto simp: dir_holds_def dir_pos_def split: if_splits)
  show ?case
  proof (cases "k < N")
    case False
    then have "E - k = 0" "dsect dp = 0" using h(4,5) less.prems(4) by (simp_all add: dir_pos_def)
    then show ?thesis using less.prems(1,5) False
      by (subst read_loop.simps) (simp add: read_result_def)
  next
    case True
    then have a: "at_ent ?fs cs N k dp" using less.prems(4) by (simp add: dir_pos_def)
    note l = load_entry[OF less.prems(1,2) h(1) a]
    obtain x1 where x1: "move_window D (dsect dp) x = Some (FR_OK, x1)" "src x1" "core x1 = core x" "same_entry (entry x1 dp) (?e k)"
      using l(2) by (auto simp: same_entry_def)
    have e0: "entry x1 dp 0 = ?e k 0" "entry x1 dp 11 = ?e k 11" using x1(4) by (simp_all add: same_entry_def)
    have lb: "LfnBuf x1 = LfnBuf x" and g: "geo (ff_fs x1) = geo ?fs" using core_eqD[OF x1(3)] by simp_all
    show ?thesis
    proof (cases "k = E")
      case True
      then have "E - k = 0" "?e k 0 = 0" using h(2) \<open>k < N\<close> by simp_all
      then have "read_loop D vol res ord lsum dp x = Some (FR_NO_FILE, dp, x1)"
        using x1(1) l(1) e0 by (subst read_loop.simps) simp
      moreover have "core x1 = core (x\<lparr>LfnBuf := LfnBuf x\<rparr>)" using x1(3) by simp
      ultimately show ?thesis using x1(2) \<open>E - k = 0\<close> by (simp add: read_result_def)
    next
      case False
      then have kE: "k < E" using h(5) by simp
      then have n: "E - k = Suc (E - Suc k)" by simp
      have p: "dptr dp = of_nat (32 * k)" using a by (intro unat_eq_of_nat) (simp add: at_ent_def)
      obtain r blk lfn where st: "item_step (?e k) vol ord lsum (of_nat (32 * k)) (blk_ofs dp) (LfnBuf x) = (r, blk, lfn)"
        by (metis prod_cases3)
      let ?d = "dp\<lparr>dobj := (dobj dp)\<lparr>obj_attr := ?e k 11 AND AM_MASK\<rparr>, blk_ofs := blk\<rparr>" and ?x = "x1\<lparr>LfnBuf := lfn\<rparr>"
      have re: "read_entry (entry x1 dp) vol ord lsum dp (LfnBuf x1) = (r, ?d, lfn)"
        unfolding read_entry_step item_step_cong[OF x1(4)] p lb st e0 by simp
      have cx: "core ?x = core (x\<lparr>LfnBuf := lfn\<rparr>)" by (rule core_lfn[OF x1(3)])
      have ad: "at_ent ?fs cs N k ?d" using a by (simp add: at_ent_found)
      show ?thesis
      proof (cases r)
        case (Inl u)
        then have "read_loop D vol res ord lsum dp x = Some (FR_OK, ?d, ?x)"
          using x1(1) l(1) e0 h(3)[OF kE] re by (subst read_loop.simps) simp
        moreover have "same_entry (entry ?x ?d) (?e k)" using x1(4) by (simp add: entry_def)
        moreover have sc: "read_scan ?e vol k (E - k) ord lsum (blk_ofs dp) (LfnBuf x) = (Some k, blk, lfn)"
          unfolding n read_scan.simps st Inl by simp
        ultimately show ?thesis using x1(2) cx ad kE unfolding sc
          by (intro exI[of _ FR_OK] exI[of _ ?d] exI[of _ ?x]) (simp add: read_result_def)
      next
        case (Inr ol)
        obtain ord' lsum' where ol: "ol = (ord', lsum')" by (cases ol)
        have g1: "geo (ff_fs ?x) = geo ?fs" using g by simp
        note dg = dir_geo[OF g1] vol_ok_geo[OF g1]
        obtain d2 x2 where nx: "dir_next D ?d ?x = Some (if k + 1 < N then FR_OK else FR_NO_FILE, d2, x2)"
          "dir_pos img ?fs cs N E (k + 1) d2" "dir_key d2 = dir_key dp" "blk_ofs d2 = blk" "src x2" "core x2 = core ?x"
          using dir_next_pos[of ?x c0 cs N E k ?d] x1(2) less.prems(2,3) ad kE
          unfolding dg dir_pos_def by auto
        have c2: "core x2 = core (x\<lparr>LfnBuf := lfn\<rparr>)" using nx(6) cx by simp
        have l2: "LfnBuf x2 = lfn" and g2: "geo (ff_fs x2) = geo ?fs" using core_eqD[OF c2] by simp_all
        note dg2 = dir_geo[OF g2] vol_ok_geo[OF g2]
        have lp: "read_loop D vol res ord lsum dp x =
            (if k + 1 < N then read_loop D vol FR_OK ord' lsum' d2 x2 else Some (FR_NO_FILE, d2, x2))"
          using x1(1) l(1) e0 h(3)[OF kE] re nx(1) Inr ol by (subst read_loop.simps) simp
        have sc: "read_scan ?e vol k (E - k) ord lsum (blk_ofs dp) (LfnBuf x) =
            read_scan ?e vol (k + 1) (E - (k + 1)) ord' lsum' blk lfn"
          unfolding n read_scan.simps st Inr ol by simp
        show ?thesis
        proof (cases "k + 1 < N")
          case True
          have "E - (k + 1) < E - k" using kE by simp
          from less.hyps[OF this, of x2 d2 FR_OK ord' lsum'] nx(2,5) less.prems(2,3) True
          obtain r' d3 x3 where "read_loop D vol FR_OK ord' lsum' d2 x2 = Some (r', d3, x3)"
            "read_result (ff_fs x2) cs N E (k + 1) (read_scan ?e vol (k + 1) (E - (k + 1)) ord' lsum' blk lfn) x2 d2 r' d3 x3"
            unfolding dg2 dir_pos_def l2 nx(4) by auto
          with True show ?thesis unfolding lp sc
            by (intro exI[of _ r'] exI[of _ d3] exI[of _ x3])
               (auto simp: read_result_def dg2 nx(3) core_lfn[OF c2] split: option.splits)
        next
          case False
          then have "E - (k + 1) = 0" using h(4) by simp
          with False show ?thesis unfolding lp sc
            using nx c2 by (simp add: read_result_def)
        qed
      qed
    qed
  qed
qed

lemma dir_read_scan:
  assumes "src x" "vol_ok img (ff_fs x)" "dir_holds img (ff_fs x) c0 cs N E" "dir_pos img (ff_fs x) cs N E k dp"
  shows "\<exists>r dp' x'. dir_read D vol dp x = Some (r, if r = FR_OK then dp' else dp'\<lparr>dsect := 0\<rparr>, x') \<and>
    read_result (ff_fs x) cs N E k (read_scan (ent img (ff_fs x) cs) vol k (E - k) 0xff 0xff (blk_ofs dp) (LfnBuf x)) x dp r dp' x'"
proof -
  obtain r dp' x' where "read_loop D vol FR_NO_FILE 0xff 0xff dp x = Some (r, dp', x')"
    "read_result (ff_fs x) cs N E k (read_scan (ent img (ff_fs x) cs) vol k (E - k) 0xff 0xff (blk_ofs dp) (LfnBuf x)) x dp r dp' x'"
    using read_loop_scan[OF assms, of FR_NO_FILE] by blast
  then show ?thesis by (intro exI[of _ r] exI[of _ dp'] exI[of _ x']) (simp add: dir_read_def)
qed

text \<open>Looking up: the loop of \<open>dir_find\<close> is the scan.\<close>

definition find_result ::
  "fatfs \<Rightarrow> nat list \<Rightarrow> nat \<Rightarrow> nat \<Rightarrow> nat option \<Rightarrow> 's ff \<Rightarrow> dir \<Rightarrow> fresult \<Rightarrow> dir \<Rightarrow> 's ff \<Rightarrow> bool" where
  "find_result fs cs N E scan x dp r dp' x' \<longleftrightarrow>
     src x' \<and> dir_key dp' = dir_key dp \<and> core x' = core x \<and>
     (case scan of
        None \<Rightarrow> r = FR_NO_FILE
      | Some j \<Rightarrow> r = FR_OK \<and> j < E \<and> at_ent fs cs N j dp' \<and> obj_attr (dobj dp') = ent img fs cs j 11 AND AM_MASK \<and>
          same_entry (entry x' dp') (ent img fs cs j))"

lemma find_loop_scan:
  assumes "src x" "vol_ok img (ff_fs x)" "dir_holds img (ff_fs x) c0 cs N E" "at_ent (ff_fs x) cs N k dp" "k \<le> E"
  shows "\<exists>r dp' x'. find_loop D ord lsum dp x = Some (r, dp', x') \<and>
    find_result (ff_fs x) cs N E (find_scan (ent img (ff_fs x) cs) k (E - k) ord lsum (LfnBuf x) (dfn dp)) x dp r dp' x'"
  using assms
proof (induction "E - k" arbitrary: k ord lsum dp x rule: less_induct)
  case less
  let ?fs = "ff_fs x" and ?e = "ent img (ff_fs x) cs"
  have h: "dir_span img ?fs c0 cs N" "k = E \<Longrightarrow> ?e k 0 = 0" "k < E \<Longrightarrow> ?e k 0 \<noteq> 0" "E \<le> N"
    using less.prems(3,4) by (auto simp: dir_holds_def at_ent_def split: if_splits)
  note l = load_entry[OF less.prems(1,2) h(1) less.prems(4)]
  obtain x1 where x1: "move_window D (dsect dp) x = Some (FR_OK, x1)" "src x1" "core x1 = core x" "same_entry (entry x1 dp) (?e k)"
    using l(2) by (auto simp: same_entry_def)
  have e0: "entry x1 dp 0 = ?e k 0" "entry x1 dp 11 = ?e k 11" using x1(4) by (simp_all add: same_entry_def)
  have lb: "LfnBuf x1 = LfnBuf x" and g: "geo (ff_fs x1) = geo ?fs" using core_eqD[OF x1(3)] by simp_all
  show ?case
  proof (cases "k = E")
    case True
    then have "find_loop D ord lsum dp x = Some (FR_NO_FILE, dp, x1)"
      using x1(1) h(2) e0 by (subst find_loop.simps) simp
    then show ?thesis using x1(2,3) True by (simp add: find_result_def)
  next
    case False
    then have kE: "k < E" using less.prems(5) by simp
    then have n: "E - k = Suc (E - Suc k)" by simp
    define st where "st = name_step (?e k) ord lsum (LfnBuf x) (dfn dp)"
    obtain blk where fe: "find_entry (entry x1 dp) ord lsum (LfnBuf x1) dp =
        (st, dp\<lparr>dobj := (dobj dp)\<lparr>obj_attr := ?e k 11 AND AM_MASK\<rparr>, blk_ofs := blk\<rparr>)"
      using find_entry_step[of "entry x1 dp" ord lsum "LfnBuf x1" dp] unfolding name_step_cong[OF x1(4)] lb e0 st_def by blast
    let ?d = "dp\<lparr>dobj := (dobj dp)\<lparr>obj_attr := ?e k 11 AND AM_MASK\<rparr>, blk_ofs := blk\<rparr>"
    have ad: "at_ent ?fs cs N k ?d" using less.prems(4) by (simp add: at_ent_found)
    show ?thesis
    proof (cases st)
      case (Inl u)
      then have "find_loop D ord lsum dp x = Some (FR_OK, ?d, x1)"
        using x1(1) e0 h(3)[OF kE] fe by (subst find_loop.simps) simp
      moreover have "same_entry (entry x1 ?d) (?e k)" using x1(4) by (simp add: entry_def)
      moreover have sc: "find_scan ?e k (E - k) ord lsum (LfnBuf x) (dfn dp) = Some k"
        unfolding n find_scan.simps st_def[symmetric] Inl by simp
      ultimately show ?thesis using x1(2,3) ad kE unfolding sc
        by (intro exI[of _ FR_OK] exI[of _ ?d] exI[of _ x1]) (simp add: find_result_def)
    next
      case (Inr ol)
      obtain ord' lsum' where ol: "ol = (ord', lsum')" by (cases ol)
      note dg = dir_geo[OF g] vol_ok_geo[OF g]
      obtain d2 x2 where nx: "dir_next D ?d x1 = Some (if k + 1 < N then FR_OK else FR_NO_FILE, d2, x2)"
        "dir_pos img ?fs cs N E (k + 1) d2" "dir_key d2 = dir_key dp" "src x2" "core x2 = core x1"
        using dir_next_pos[of x1 c0 cs N E k ?d] x1(2) less.prems(2,3) ad kE
        unfolding dg dir_pos_def by auto
      have c2: "core x2 = core x" using nx(5) x1(3) by simp
      have l2: "LfnBuf x2 = LfnBuf x" "dfn d2 = dfn dp" and g2: "geo (ff_fs x2) = geo ?fs"
        using core_eqD[OF c2] dir_key_fields(1)[OF nx(3)] by simp_all
      note dg2 = dir_geo[OF g2] vol_ok_geo[OF g2]
      have lp: "find_loop D ord lsum dp x =
          (if k + 1 < N then find_loop D ord' lsum' d2 x2 else Some (FR_NO_FILE, d2, x2))"
        using x1(1) e0 h(3)[OF kE] fe nx(1) Inr ol by (subst find_loop.simps) simp
      have sc: "find_scan ?e k (E - k) ord lsum (LfnBuf x) (dfn dp) =
          find_scan ?e (k + 1) (E - (k + 1)) ord' lsum' (LfnBuf x) (dfn dp)"
        unfolding n find_scan.simps st_def[symmetric] Inr ol by simp
      show ?thesis
      proof (cases "k + 1 < N")
        case True
        have "E - (k + 1) < E - k" using kE by simp
        from less.hyps[OF this, of x2 d2 ord' lsum'] nx(2,4) less.prems(2,3) True
        obtain r' d3 x3 where "find_loop D ord' lsum' d2 x2 = Some (r', d3, x3)"
          "find_result (ff_fs x2) cs N E (find_scan ?e (k + 1) (E - (k + 1)) ord' lsum' (LfnBuf x) (dfn dp)) x2 d2 r' d3 x3"
          unfolding dg2 dir_pos_def l2 by auto
        with True show ?thesis unfolding lp sc
          by (intro exI[of _ r'] exI[of _ d3] exI[of _ x3])
             (auto simp: find_result_def dg2 nx(3) c2 split: option.splits)
      next
        case False
        then have "E - (k + 1) = 0" using h(4) by simp
        with False show ?thesis unfolding lp sc
          using nx c2 by (simp add: find_result_def)
      qed
    qed
  qed
qed

lemma dir_find_scan:
  assumes "src x" "vol_ok img (ff_fs x)" "dir_holds img (ff_fs x) (sclust (dobj dp)) cs N E"
  shows "\<exists>r dp' x'. dir_find D dp x = Some (r, dp', x') \<and>
    find_result (ff_fs x) cs N E (find_scan (ent img (ff_fs x) cs) 0 E 0xff 0xff (LfnBuf x) (dfn dp)) x dp r dp' x'"
proof -
  have h: "dir_span img (ff_fs x) (sclust (dobj dp)) cs N" "0 < N" using assms(3) by (simp_all add: dir_holds_def)
  obtain d1 where d1: "dir_sdi D 0 dp x = Some (FR_OK, d1, x)" "at_ent (ff_fs x) cs N 0 d1"
    "d1 = dp\<lparr>dptr := 0, dclust := dclust d1, dsect := dsect d1, ddir := 0\<rparr>"
    using dir_sdi_ok[OF assms(1,2) h] by blast
  let ?d = "d1\<lparr>blk_ofs := 0xffffffff\<rparr>"
  have f: "dfn ?d = dfn dp" "dir_key ?d = dir_key dp" by (subst d1(3), simp add: dir_key_def)+
  have "at_ent (ff_fs x) cs N 0 ?d" using d1(2) by (simp add: at_ent_def)
  from find_loop_scan[OF assms this, of "0xff" "0xff"] obtain r dp' x' where "find_loop D 0xff 0xff ?d x = Some (r, dp', x')"
    "find_result (ff_fs x) cs N E (find_scan (ent img (ff_fs x) cs) 0 E 0xff 0xff (LfnBuf x) (dfn dp)) x ?d r dp' x'"
    unfolding f(1) by (auto simp del: find_scan.simps)
  with d1(1) f(2) show ?thesis
    by (intro exI[of _ r] exI[of _ dp'] exI[of _ x']) (simp add: dir_find_def find_result_def split: option.splits)
qed

end

end
