(* ===== verification/Fat_File.thy ===== *)
theory Fat_File
  imports Fat_Dir Commands
begin

text \<open>
  Files of FatFs (ff12b/src/ff.c): opening, reading, seeking and closing, and the calls of FatFs as the
  \<open>camera\<close> command of main.c uses them, on the disk layer of \<open>diskio.c\<close>. The buffer of the caller is a byte memory.
\<close>

section \<open>Definitions\<close>

record fil =
  fobj :: fdid
  f_flag :: byte
  f_err :: fresult
  f_fptr :: u32
  f_clust :: u32
  f_sect :: u32
  f_buf :: mem

definition FA_READ :: byte where "FA_READ = 0x01"

subsection \<open>Opening and closing\<close>

text \<open>The directory object on the stack of \<open>f_open\<close> is uninitialised; \<open>dj\<close> stands for its contents.\<close>

definition ff_open :: "'s disk_ops \<Rightarrow> dir \<Rightarrow> byte list \<Rightarrow> byte \<Rightarrow> fil \<Rightarrow> 's ff \<Rightarrow> (fresult \<times> fil \<times> 's ff) option" where
  "ff_open D dj path mode fp x = do {
     (res, path, x) \<leftarrow> find_volume D path x;
     (res, fp, x) \<leftarrow> (if res = FR_OK then do {
         (res, dj, x) \<leftarrow> follow_path D path (dj\<lparr>dobj := (dobj dj)\<lparr>obj_fs := True\<rparr>\<rparr>) x;
         let res =
           (if res = FR_OK then
              if dfn dj NSFLAG AND NS_NONAME \<noteq> 0 then FR_INVALID_NAME
              else if obj_attr (dobj dj) AND AM_DIR \<noteq> 0 then FR_NO_FILE
              else FR_OK
            else res);
         Some (res,
           if res = FR_OK then
             fp\<lparr>fobj := (fobj fp)\<lparr>sclust := ld_clust (ff_fs x) (entry x dj), objsize := ld_dword (entry x dj) 28,
                 obj_fs := True, obj_id := fat_id (ff_fs x)\<rparr>,
               f_flag := mode AND FA_READ, f_err := FR_OK, f_sect := 0, f_fptr := 0\<rparr>
           else fp, x) }
       else Some (res, fp, x));
     Some (res, if res \<noteq> FR_OK then fp\<lparr>fobj := (fobj fp)\<lparr>obj_fs := False\<rparr>\<rparr> else fp, x) }"

definition ff_close :: "'s disk_ops \<Rightarrow> fil \<Rightarrow> 's ff \<Rightarrow> (fresult \<times> fil) option" where
  "ff_close D fp x = do {
     res \<leftarrow> validate D (fobj fp) x;
     Some (res, if res = FR_OK then fp\<lparr>fobj := (fobj fp)\<lparr>obj_fs := False\<rparr>\<rparr> else fp) }"

subsection \<open>Reading\<close>

text \<open>At a cluster boundary: the cluster that holds the file pointer.\<close>

definition enter_cluster :: "'s disk_ops \<Rightarrow> fil \<Rightarrow> 's ff \<Rightarrow> (fresult \<times> fil \<times> 's ff) option" where
  "enter_cluster D fp x = do {
     (clst, x) \<leftarrow> (if f_fptr fp = 0 then Some (sclust (fobj fp), x) else get_fat D (f_clust fp) x);
     Some (if clst < 2 then (FR_INT_ERR, fp, x)
       else if clst = 0xffffffff then (FR_DISK_ERR, fp, x)
       else (FR_OK, fp\<lparr>f_clust := clst\<rparr>, x)) }"

text \<open>Several whole sectors straight into the buffer of the caller at \<open>pos\<close>. More bytes would overrun it.\<close>

definition read_direct :: "'s disk_ops \<Rightarrow> u32 \<Rightarrow> u32 \<Rightarrow> mem \<Rightarrow> nat \<Rightarrow> 's ff \<Rightarrow> (int \<times> mem \<times> 's ff) option" where
  "read_direct D sect cc buff pos x = do {
     (r, bs, d) \<leftarrow> dk_read D (drv (ff_fs x)) sect cc (ff_disk x);
     if MAX_SS * unat cc < length bs then None else Some (r, mem_put buff pos bs, x\<lparr>ff_disk := d\<rparr>) }"

text \<open>The end of the loop body: part of the sector in \<open>fp->buf\<close>.\<close>

definition read_partial :: "fil \<Rightarrow> u32 \<Rightarrow> mem \<Rightarrow> nat \<Rightarrow> u32 \<times> mem" where
  "read_partial fp btr buff pos = (
     let ofs = f_fptr fp mod SS; rcnt = min (SS - ofs) btr
     in (rcnt, mem_put buff pos (mem_get (f_buf fp) (unat ofs) (unat rcnt))))"

text \<open>Filling the buffer of the file unless the sector is there already, and clipping at the cluster boundary.\<close>

definition load_buffer :: "'s disk_ops \<Rightarrow> u32 \<Rightarrow> fil \<Rightarrow> 's ff \<Rightarrow> (int \<times> mem \<times> 's ff) option" where
  "load_buffer D sect fp x =
     (if f_sect fp \<noteq> sect then read_sector D sect (f_buf fp) x else Some (dres RES_OK, f_buf fp, x))"

definition clip_sectors :: "u32 \<Rightarrow> u32 \<Rightarrow> u32 \<Rightarrow> u32" where
  "clip_sectors csz csect cc = (if csz < csect + cc then csz - csect else cc)"

text \<open>The body of the loop of \<open>f_read\<close>: the result, the number of bytes, and the new file object, buffer and state.\<close>

definition read_step ::
  "'s disk_ops \<Rightarrow> u32 \<Rightarrow> fil \<Rightarrow> mem \<Rightarrow> nat \<Rightarrow> 's ff \<Rightarrow> (fresult \<times> u32 \<times> fil \<times> mem \<times> 's ff) option" where
  "read_step D btr fp buff pos x =
     (if f_fptr fp mod SS \<noteq> 0 then
        let (rcnt, buff) = read_partial fp btr buff pos in Some (FR_OK, rcnt, fp, buff, x)
      else do {
        let csect = (f_fptr fp div SS) AND (ucast (csize (ff_fs x)) - 1);
        (res, fp, x) \<leftarrow> (if csect = 0 then enter_cluster D fp x else Some (FR_OK, fp, x));
        let sect = clust2sect (ff_fs x) (f_clust fp);
        if res \<noteq> FR_OK then Some (res, 0, fp, buff, x)
        else if sect = 0 then Some (FR_INT_ERR, 0, fp, buff, x)
        else do {
          let sect = sect + csect;
          let cc = btr div SS;
          if cc \<noteq> 0 then do {
            let cc = clip_sectors (ucast (csize (ff_fs x))) csect cc;
            (r, buff, x) \<leftarrow> read_direct D sect cc buff pos x;
            Some (if r \<noteq> dres RES_OK then FR_DISK_ERR else FR_OK, SS * cc, fp, buff, x) }
          else do {
            (r, m, x) \<leftarrow> load_buffer D sect fp x;
            let fp = fp\<lparr>f_buf := m\<rparr>;
            if r \<noteq> dres RES_OK then Some (FR_DISK_ERR, 0, fp, buff, x)
            else
              let fp = fp\<lparr>f_sect := sect\<rparr>; (rcnt, buff) = read_partial fp btr buff pos
              in Some (FR_OK, rcnt, fp, buff, x) } } })"

partial_function (option) read_bytes ::
  "'s disk_ops \<Rightarrow> u32 \<Rightarrow> u32 \<Rightarrow> fil \<Rightarrow> mem \<Rightarrow> 's ff \<Rightarrow> (fresult \<times> u32 \<times> fil \<times> mem \<times> 's ff) option" where
  "read_bytes D btr br fp buff x =
     (if btr = 0 then Some (FR_OK, br, fp, buff, x)
      else
        Option.bind (read_step D btr fp buff (unat br) x) (\<lambda>(res, rcnt, fp, buff, x).
          if res \<noteq> FR_OK then Some (res, br, fp\<lparr>f_err := res\<rparr>, buff, x)
          else read_bytes D (btr - rcnt) (br + rcnt) (fp\<lparr>f_fptr := f_fptr fp + rcnt\<rparr>) buff x))"

definition ff_read :: "'s disk_ops \<Rightarrow> u32 \<Rightarrow> fil \<Rightarrow> mem \<Rightarrow> 's ff \<Rightarrow> (fresult \<times> u32 \<times> fil \<times> mem \<times> 's ff) option" where
  "ff_read D btr fp buff x = do {
     res \<leftarrow> validate D (fobj fp) x;
     if res \<noteq> FR_OK then Some (res, 0, fp, buff, x)
     else if f_err fp \<noteq> FR_OK then Some (f_err fp, 0, fp, buff, x)
     else if f_flag fp AND FA_READ = 0 then Some (FR_DENIED, 0, fp, buff, x)
     else
       let remain = objsize (fobj fp) - f_fptr fp in
       read_bytes D (if remain < btr then remain else btr) 0 fp buff x }"

subsection \<open>Seeking\<close>

partial_function (option) seek_chain ::
  "'s disk_ops \<Rightarrow> u32 \<Rightarrow> u32 \<Rightarrow> u32 \<Rightarrow> fil \<Rightarrow> 's ff \<Rightarrow> (fresult \<times> u32 \<times> u32 \<times> fil \<times> 's ff) option" where
  "seek_chain D bcs ofs clst fp x =
     (if bcs < ofs then
        let fp = fp\<lparr>f_fptr := f_fptr fp + bcs\<rparr> in
        Option.bind (get_fat D clst x) (\<lambda>(clst, x).
          if clst = 0xffffffff then Some (FR_DISK_ERR, ofs - bcs, clst, fp, x)
          else if clst \<le> 1 \<or> n_fatent (ff_fs x) \<le> clst then Some (FR_INT_ERR, ofs - bcs, clst, fp, x)
          else seek_chain D bcs (ofs - bcs) clst (fp\<lparr>f_clust := clst\<rparr>) x)
      else Some (FR_OK, ofs, clst, fp, x))"

text \<open>Where the search starts: the current cluster if the target is there or behind, otherwise the first one.\<close>

definition seek_start :: "u32 \<Rightarrow> u32 \<Rightarrow> u32 \<Rightarrow> fil \<Rightarrow> u32 \<times> u32 \<times> fil" where
  "seek_start bcs ofs ifptr fp =
     (if 0 < ifptr \<and> (ifptr - 1) div bcs \<le> (ofs - 1) div bcs then
        let p = (ifptr - 1) AND NOT (bcs - 1) in (ofs - p, f_clust fp, fp\<lparr>f_fptr := p\<rparr>)
      else (ofs, sclust (fobj fp), fp\<lparr>f_clust := sclust (fobj fp)\<rparr>))"

text \<open>Moving the pointer of a non-empty target; the result also has the sector that belongs into the buffer.\<close>

definition seek_to :: "'s disk_ops \<Rightarrow> u32 \<Rightarrow> u32 \<Rightarrow> fil \<Rightarrow> 's ff \<Rightarrow> (fresult \<times> u32 \<times> fil \<times> 's ff) option" where
  "seek_to D ofs ifptr fp x = do {
     let bcs = ucast (csize (ff_fs x)) * SS;
     if bcs = 0 \<and> 0 < ifptr then None
     else do {
       let (ofs, clst, fp) = seek_start bcs ofs ifptr fp;
       if clst = 0 then Some (FR_OK, 0, fp, x)
       else do {
         (res, ofs, clst, fp, x) \<leftarrow> seek_chain D bcs ofs clst fp x;
         if res \<noteq> FR_OK then Some (res, 0, fp, x)
         else
           let fp = fp\<lparr>f_fptr := f_fptr fp + ofs\<rparr>; nsect = clust2sect (ff_fs x) clst in
           Some (if ofs mod SS = 0 then (FR_OK, 0, fp, x)
             else if nsect = 0 then (FR_INT_ERR, 0, fp, x)
             else (FR_OK, nsect + ofs div SS, fp, x)) } } }"

definition ff_lseek :: "'s disk_ops \<Rightarrow> u32 \<Rightarrow> fil \<Rightarrow> 's ff \<Rightarrow> (fresult \<times> fil \<times> 's ff) option" where
  "ff_lseek D ofs fp x = do {
     res \<leftarrow> validate D (fobj fp) x;
     if res \<noteq> FR_OK then Some (res, fp, x)
     else if f_err fp \<noteq> FR_OK then Some (f_err fp, fp, x)
     else do {
       let ofs = (if objsize (fobj fp) < ofs then objsize (fobj fp) else ofs);
       let ifptr = f_fptr fp;
       let fp = fp\<lparr>f_fptr := 0\<rparr>;
       (res, nsect, fp, x) \<leftarrow> (if ofs \<noteq> 0 then seek_to D ofs ifptr fp x else Some (FR_OK, 0, fp, x));
       if res \<noteq> FR_OK then Some (res, fp\<lparr>f_err := res\<rparr>, x)
       else if f_fptr fp mod SS \<noteq> 0 \<and> nsect \<noteq> f_sect fp then do {
         (r, m, x) \<leftarrow> read_sector D nsect (f_buf fp) x;
         Some (if r \<noteq> dres RES_OK then (FR_DISK_ERR, fp\<lparr>f_buf := m, f_err := FR_DISK_ERR\<rparr>, x)
           else (FR_OK, fp\<lparr>f_buf := m, f_sect := nsect\<rparr>, x)) }
       else Some (FR_OK, fp, x) } }"

subsection \<open>FatFs as main.c calls it\<close>

definition usb_disk_ops :: "'d usb \<Rightarrow> mem \<Rightarrow> 'd st disk_ops" where
  "usb_disk_ops U junk = \<lparr>dk_status = disk_status, dk_initialize = disk_initialize U junk, dk_read = disk_read U\<rparr>"

text \<open>The variables of \<open>sprd_read_camera\<close> that FatFs works on, with the state of the module.\<close>

record 'd ffx =
  fx_ff :: "'d st ff"
  fx_dj :: dir
  fx_fno :: filinfo
  fx_fil :: fil
  fx_buf :: mem

definition on_disk_of :: "'d ffx \<Rightarrow> 'd st \<Rightarrow> 'd st ff" where
  "on_disk_of x s = (fx_ff x)\<lparr>ff_disk := s\<rparr>"

definition ff_ops :: "'d usb \<Rightarrow> mem \<Rightarrow> dir \<Rightarrow> ('d, 'd ffx) fat_ops" where
  "ff_ops U junk dj0 = (
     let D = usb_disk_ops U junk;
         found = map_option (\<lambda>(r, dp, fno, f). (fres r, chars (fi_fname fno), dp, fno, f))
     in \<lparr>
     f_mount = \<lambda>x. case ff_mount D True (ascii ''0:'') 0 (fx_ff x) of None \<Rightarrow> x | Some (_, f) \<Rightarrow> x\<lparr>fx_ff := f\<rparr>,
     f_findfirst = \<lambda>x s. map_option (\<lambda>(r, n, dp, fno, f). (r, n, x\<lparr>fx_dj := dp, fx_fno := fno, fx_ff := f\<rparr>, ff_disk f))
       (found (ff_findfirst D (ascii ''0:/DCIM/Camera'') (ascii ''*.jpg'') (fx_dj x) (fx_fno x) (on_disk_of x s))),
     f_findnext = \<lambda>x s. map_option (\<lambda>(r, n, dp, fno, f). (r, n, x\<lparr>fx_dj := dp, fx_fno := fno, fx_ff := f\<rparr>, ff_disk f))
       (found (ff_findnext D (fx_dj x) (fx_fno x) (on_disk_of x s))),
     f_open = \<lambda>path x s. map_option (\<lambda>(r, fp, f). (fres r, x\<lparr>fx_fil := fp, fx_ff := f\<rparr>, ff_disk f))
       (ff_open D dj0 (ascii path) FA_READ (fx_fil x) (on_disk_of x s)),
     f_read = \<lambda>n x s. map_option (\<lambda>(r, br, fp, m, f).
         (fres r, mem_get m 0 (unat br), x\<lparr>fx_fil := fp, fx_buf := m, fx_ff := f\<rparr>, ff_disk f))
       (ff_read D (of_nat n) (fx_fil x) (fx_buf x) (on_disk_of x s)),
     f_size = \<lambda>x. objsize (fobj (fx_fil x)),
     f_close = \<lambda>x s. map_option (\<lambda>(r, fp). (fres r, x\<lparr>fx_fil := fp\<rparr>, s)) (ff_close D (fx_fil x) (on_disk_of x s)),
     f_closedir = \<lambda>x. case ff_closedir D (fx_dj x) (fx_ff x) of None \<Rightarrow> x | Some (_, dp) \<Rightarrow> x\<lparr>fx_dj := dp\<rparr>\<rparr>)"

end
