(* ===== verification/Fat_Read.thy ===== *)
theory Fat_Read
  imports Fat_File Fat_Chain
begin

text \<open>
  Correctness of \<open>f_read\<close> and \<open>f_lseek\<close>: on a mounted volume whose disk shows an image, reading returns
  the bytes of the cluster chain at the file pointer, whatever mixture of whole sectors and the sector buffer is used.
\<close>

section \<open>Open files\<close>

definition file_in :: "byte list \<Rightarrow> fatfs \<Rightarrow> nat list \<Rightarrow> nat \<Rightarrow> fdid \<Rightarrow> bool" where
  "file_in img fs cs sz obj \<longleftrightarrow> chain img fs cs \<and> sz \<le> clust_size fs * length cs \<and> sz < 2 ^ 32 \<and>
     (cs \<noteq> [] \<longrightarrow> sclust obj = of_nat (hd cs)) \<and> objsize obj = of_nat sz"

definition file_bytes :: "byte list \<Rightarrow> fatfs \<Rightarrow> nat list \<Rightarrow> nat \<Rightarrow> byte list" where
  "file_bytes img fs cs sz = take sz (chain_bytes img fs cs)"

text \<open>The sector in the buffer of the file is the one \<open>f_sect\<close> names, and in the middle of a sector it is that of the
  file pointer.\<close>

definition cached :: "byte list \<Rightarrow> fil \<Rightarrow> bool" where
  "cached img fp \<longleftrightarrow> f_sect fp = 0 \<or> (512 * (unat (f_sect fp) + 1) \<le> length img \<and>
     (\<forall>i < 512. f_buf fp i = img ! (512 * unat (f_sect fp) + i)))"

definition holds_sector :: "byte list \<Rightarrow> fatfs \<Rightarrow> nat list \<Rightarrow> nat \<Rightarrow> mem \<Rightarrow> bool" where
  "holds_sector img fs cs p m \<longleftrightarrow> (\<forall>i < 512. m i = img ! (byte_pos fs cs (p - p mod 512) + i))"

definition opened :: "byte list \<Rightarrow> fatfs \<Rightarrow> nat list \<Rightarrow> nat \<Rightarrow> nat \<Rightarrow> fil \<Rightarrow> bool" where
  "opened img fs cs sz p fp \<longleftrightarrow> file_in img fs cs sz (fobj fp) \<and> p \<le> sz \<and> f_fptr fp = of_nat p \<and> cached img fp"

definition at_pos :: "byte list \<Rightarrow> fatfs \<Rightarrow> nat list \<Rightarrow> nat \<Rightarrow> nat \<Rightarrow> fil \<Rightarrow> bool" where
  "at_pos img fs cs sz p fp \<longleftrightarrow> opened img fs cs sz p fp \<and>
     (0 < p \<longrightarrow> f_clust fp = of_nat (cs ! ((p - 1) div clust_size fs))) \<and>
     (p mod 512 \<noteq> 0 \<longrightarrow> holds_sector img fs cs p (f_buf fp))"

lemma file_geo:
  assumes "geo fs = geo fs'"
  shows "file_in img fs = file_in img fs'" "file_bytes img fs = file_bytes img fs'" "at_pos img fs = at_pos img fs'"
  by (simp_all add: fun_eq_iff file_in_def file_bytes_def at_pos_def opened_def holds_sector_def chain_geo[OF assms, symmetric])

section \<open>Sectors, clusters and the pointer\<close>

lemma same_sector:
  assumes "vol_ok img fs" "p mod 512 + n < 512"
  shows "holds_sector img fs cs (p + n) m = holds_sector img fs cs p m" "(p + n) mod 512 = p mod 512 + n"
    "(p + n) div clust_size fs = p div clust_size fs"
proof -
  have e: "(p + n) mod 512 = p mod 512 + n" using assms(2) by (metis mod_add_left_eq mod_less)
  then have "p + n - (p + n) mod 512 = p - p mod 512" by simp
  then show "holds_sector img fs cs (p + n) m = holds_sector img fs cs p m" by (simp add: holds_sector_def)
  show "(p + n) mod 512 = p mod 512 + n" by (rule e)
  show "(p + n) div clust_size fs = p div clust_size fs"
    using sector_start(2)[OF assms(1), of "p + n"] sector_start(2)[OF assms(1), of p] e by simp
qed

lemma buffer_piece:
  assumes "vol_ok img fs" "chain img fs cs" "holds_sector img fs cs p m" "n \<le> 512 - p mod 512" "p < clust_size fs * length cs"
  shows "mem_get m (p mod 512) n = take n (drop p (chain_bytes img fs cs))"
proof -
  have "p mod clust_size fs + n \<le> clust_size fs" using in_cluster(2)[OF assms(1), of p] assms(4) by linarith
  note c = chain_piece[OF assms(1,2,5) this]
  show ?thesis unfolding c(1)
  proof (rule nth_equalityI)
    fix i assume "i < length (mem_get m (p mod 512) n)"
    then have "i < n" by simp
    moreover have "p mod 512 + i < 512" using calculation assms(4) mod_less_divisor[of 512 p] by linarith
    ultimately show "mem_get m (p mod 512) n ! i = take n (drop (byte_pos fs cs p) img) ! i"
      using assms(3) sector_start(1)[OF assms(1), of cs p] c(2) by (simp add: holds_sector_def add.assoc)
  qed (use c(2) in simp)
qed

lemma clip: "k < s \<Longrightarrow> (if s < k + q then s - k else q) = min q (s - k)" for k q s :: nat
  by auto

lemma div_pred: "0 < p \<Longrightarrow> (p - 1) div z = (if p mod z = 0 then p div z - 1 else p div z)" for p z :: nat
  using div_Suc[of "p - 1" z] by (auto split: if_splits)

text \<open>The last cluster read from after \<open>n > 0\<close> bytes within the cluster of \<open>p\<close>.\<close>

lemma last_cluster:
  assumes "p mod z + n \<le> z" "0 < n" "0 < z"
  shows "(p + n - 1) div z = p div (z :: nat)"
proof -
  obtain q r where p: "p = r + z * q" "r < z" using assms(3) by (metis add.commute mod_less_divisor mult_div_mod_eq)
  have "p mod z = r" "p div z = q" using p by simp_all
  moreover have "p + n - 1 = (r + n - 1) + z * q" using p assms(2) by simp
  moreover have "r + n - 1 < z" using calculation(1) assms by simp
  ultimately show ?thesis by simp
qed

lemma openedD:
  assumes "opened img fs cs sz p fp"
  shows "unat (f_fptr fp) = p" "chain img fs cs" "sz \<le> clust_size fs * length cs" "unat (objsize (fobj fp)) = sz" "p \<le> sz" "sz < 2 ^ 32"
  using assms by (auto simp: opened_def file_in_def unat_of_nat)

lemma at_pos_opened: "at_pos img fs cs sz p fp \<Longrightarrow> opened img fs cs sz p fp"
  by (simp add: at_pos_def)

lemmas at_posD = openedD[OF at_pos_opened]

context sector_source
begin

lemma enter_ok:
  assumes "src x" "vol_ok img (ff_fs x)" "at_pos img (ff_fs x) cs sz p fp" "p < sz" "p mod 512 = 0"
  defines "csect \<equiv> (f_fptr fp div SS) AND (ucast (csize (ff_fs x)) - 1)"
  shows "unat csect = p div 512 mod unat (csize (ff_fs x))"
    "\<exists>x'. (if csect = 0 then enter_cluster D fp x else Some (FR_OK, fp, x)) =
      Some (FR_OK, fp\<lparr>f_clust := of_nat (cs ! (p div clust_size (ff_fs x)))\<rparr>, x') \<and> src x' \<and> core x' = core x"
proof -
  let ?fs = "ff_fs x" and ?z = "clust_size (ff_fs x)" and ?j = "p div clust_size (ff_fs x)"
  note a = at_posD[OF assms(3)]
  have "geom ?fs" using assms(2) by (simp add: vol_ok_def)
  then show cs: "unat csect = p div 512 mod unat (csize ?fs)"
    unfolding csect_def by (simp add: csize_mask unat_div SS_facts a(1))
  have z: "p mod ?z = 512 * unat csect" using in_cluster(1)[OF assms(2), of p] cs assms(5) by simp
  have j: "?j < length cs" using a(3) assms(4) by (simp add: less_mult_imp_div_less mult.commute)
  note v = chain_nth[OF a(2) j]
  show "\<exists>x'. (if csect = 0 then enter_cluster D fp x else Some (FR_OK, fp, x)) =
      Some (FR_OK, fp\<lparr>f_clust := of_nat (cs ! ?j)\<rparr>, x') \<and> src x' \<and> core x' = core x"
  proof (cases "csect = 0")
    case False
    then have nz: "p mod ?z \<noteq> 0" using z by (simp add: word_unat_eq_iff)
    then have "0 < p" by (auto intro: gr0I)
    then have "f_clust fp = of_nat (cs ! ?j)" using assms(3) div_pred[of p ?z] nz by (simp add: at_pos_def)
    then have "fp\<lparr>f_clust := of_nat (cs ! ?j)\<rparr> = fp" by simp
    with False assms(1) show ?thesis by simp
  next
    case True
    then have z0: "p mod ?z = 0" using z by simp
    have "\<exists>x'. (if f_fptr fp = 0 then Some (sclust (fobj fp), x) else get_fat D (f_clust fp) x) = Some (of_nat (cs ! ?j), x') \<and>
        src x' \<and> core x' = core x"
    proof (cases "p = 0")
      case True
      then have "f_fptr fp = 0" "cs \<noteq> []" using a(1,3) assms(4) by (auto simp: word_unat_eq_iff)
      then show ?thesis using True assms(1,3) by (auto simp: at_pos_def opened_def file_in_def hd_conv_nth)
    next
      case False
      then have "f_fptr fp \<noteq> 0" "0 < ?j" using a(1) z0 by (auto simp: word_unat_eq_iff)
      moreover have "f_clust fp = of_nat (cs ! (?j - 1))" using assms(3) False div_pred[of p ?z] z0 by (simp add: at_pos_def)
      ultimately show ?thesis using fat_next[OF assms(1,2) a(2), of "?j - 1"] j by simp
    qed
    then show ?thesis using True valid_word[OF v] by (auto simp: enter_cluster_def)
  qed
qed


lemma partial_ok:
  assumes "vol_ok img fs" "opened img fs cs sz p fp" "holds_sector img fs cs p (f_buf fp)" "p < sz" "0 < unat btr" "p + unat btr \<le> sz"
    and "f_clust fp = of_nat (cs ! (p div clust_size fs))"
  shows "\<exists>n. read_partial fp btr buff pos = (of_nat n, mem_put buff pos (take n (drop p (file_bytes img fs cs sz)))) \<and>
    0 < n \<and> n \<le> unat btr \<and> at_pos img fs cs sz (p + n) (fp\<lparr>f_fptr := f_fptr fp + of_nat n\<rparr>)"
proof -
  note a = openedD[OF assms(2)]
  let ?n = "min (512 - p mod 512) (unat btr)"
  have o: "unat (f_fptr fp mod SS) = p mod 512" by (simp add: unat_mod SS_facts a(1))
  have lt: "p mod 512 < 512" by simp
  have "f_fptr fp mod SS \<le> SS" unfolding word_le_nat_alt o SS_facts(1) using lt by simp
  then have ss: "unat (SS - f_fptr fp mod SS) = 512 - p mod 512" by (simp only: unat_sub o SS_facts(1))
  have m: "unat (min (SS - f_fptr fp mod SS) btr) = ?n"
    by (simp add: min_def word_le_nat_alt ss)
  then have r: "min (SS - f_fptr fp mod SS) btr = of_nat ?n" by (rule unat_eq_of_nat)
  have pl: "p < clust_size fs * length cs" using a(3) assms(4) by simp
  have get: "mem_get (f_buf fp) (p mod 512) ?n = take ?n (drop p (file_bytes img fs cs sz))"
    using buffer_piece[OF assms(1) a(2) assms(3) _ pl, of ?n] assms(6) by (simp add: file_bytes_def drop_take min_def)
  have n: "0 < ?n" "?n \<le> unat btr" using lt assms(5) by simp_all
  have f: "f_fptr fp + of_nat ?n = of_nat (p + ?n)" using unat_eq_of_nat[OF a(1)] by simp
  have in_c: "p mod clust_size fs + ?n \<le> clust_size fs" using in_cluster(2)[OF assms(1), of p] by linarith
  have "at_pos img fs cs sz (p + ?n) (fp\<lparr>f_fptr := f_fptr fp + of_nat ?n\<rparr>)"
  proof -
    have "(p + ?n - 1) div clust_size fs = p div clust_size fs"
      by (rule last_cluster[OF in_c n(1) clust_size_pos[OF assms(1)]])
    moreover have "holds_sector img fs cs (p + ?n) (f_buf fp)" if "(p + ?n) mod 512 \<noteq> 0"
    proof -
      have "p mod 512 + ?n < 512"
      proof (rule ccontr)
        assume "\<not> ?thesis"
        then have "?n = 512 - p mod 512" by linarith
        then have "(p + ?n) mod 512 = 0" using lt by (metis add_diff_inverse_nat less_imp_not_less mod_add_left_eq mod_self)
        with that show False ..
      qed
      from same_sector(1)[OF assms(1) this] assms(3) show ?thesis by simp
    qed
    ultimately show ?thesis
      using assms(2,6,7) n f unfolding at_pos_def opened_def cached_def by auto
  qed
  with r get n show ?thesis unfolding read_partial_def Let_def o m by (intro exI[of _ ?n]) (simp add: r unat_of_nat)
qed


text \<open>The body of the loop of \<open>f_read\<close> puts the next bytes of the file behind those already there. What it keeps of the
  file object is its identity and mode.\<close>

definition same_file :: "fil \<Rightarrow> fil \<Rightarrow> bool" where
  "same_file fp fp' \<longleftrightarrow> fobj fp' = fobj fp \<and> f_flag fp' = f_flag fp \<and> f_err fp' = f_err fp"

definition step_result :: "'s ff \<Rightarrow> nat list \<Rightarrow> nat \<Rightarrow> nat \<Rightarrow> u32 \<Rightarrow> fil \<Rightarrow> mem \<Rightarrow> nat \<Rightarrow> bool" where
  "step_result x cs sz p btr fp buff pos \<longleftrightarrow>
     (\<exists>n fp' x'. read_step D btr fp buff pos x =
         Some (FR_OK, of_nat n, fp', mem_put buff pos (take n (drop p (file_bytes img (ff_fs x) cs sz))), x') \<and>
       0 < n \<and> n \<le> unat btr \<and> at_pos img (ff_fs x) cs sz (p + n) (fp'\<lparr>f_fptr := f_fptr fp' + of_nat n\<rparr>) \<and>
       same_file fp fp' \<and> src x' \<and> core x' = core x)"

lemma step_partial:
  assumes "src x" "vol_ok img (ff_fs x)" "at_pos img (ff_fs x) cs sz p fp" "p + unat btr \<le> sz" "0 < unat btr" "p mod 512 \<noteq> 0"
  shows "step_result x cs sz p btr fp buff pos"
proof -
  let ?fs = "ff_fs x"
  note a = at_posD[OF assms(3)]
  have "p mod clust_size ?fs \<noteq> 0" "0 < p" using in_cluster(1)[OF assms(2), of p] assms(6) by (auto intro: gr0I)
  then have "f_clust fp = of_nat (cs ! (p div clust_size ?fs))"
    using assms(3) div_pred[of p "clust_size ?fs"] by (simp add: at_pos_def)
  moreover have "holds_sector img ?fs cs p (f_buf fp)" using assms(3,6) by (simp add: at_pos_def)
  ultimately obtain n where
    "read_partial fp btr buff pos = (of_nat n, mem_put buff pos (take n (drop p (file_bytes img ?fs cs sz))))"
    "0 < n" "n \<le> unat btr" "at_pos img ?fs cs sz (p + n) (fp\<lparr>f_fptr := f_fptr fp + of_nat n\<rparr>)"
    using partial_ok[OF assms(2) at_pos_opened[OF assms(3)], of btr buff pos] assms(4,5) by auto
  moreover have "f_fptr fp mod SS \<noteq> 0" using a(1) assms(6) by (simp add: word_unat_eq_iff unat_mod SS_facts)
  ultimately show ?thesis
    unfolding step_result_def using assms(1)
    by (intro exI[of _ n] exI[of _ fp] exI[of _ x]) (simp add: read_step_def same_file_def)
qed

lemma step_sector:
  assumes "src x" "vol_ok img (ff_fs x)" "at_pos img (ff_fs x) cs sz p fp" "p + unat btr \<le> sz" "0 < unat btr" "p mod 512 = 0"
  shows "step_result x cs sz p btr fp buff pos"
proof -
  let ?fs = "ff_fs x" and ?z = "clust_size (ff_fs x)" and ?s = "unat (csize (ff_fs x))"
  let ?c = "cs ! (p div clust_size (ff_fs x))" and ?k = "p div 512 mod unat (csize (ff_fs x))"
  define csect where "csect = (f_fptr fp div SS) AND (ucast (csize ?fs) - 1)"
  note a = at_posD[OF assms(3)]
  have lt: "p < sz" "p < ?z * length cs" using assms(4,5) a(3) by simp_all
  have geom: "geom ?fs" using assms(2) by (simp add: vol_ok_def)
  note sp = csize_mask(2,3)[OF geom]
  note e = enter_ok[OF assms(1-3) lt(1) assms(6), folded csect_def]
  obtain x1 where x1: "(if csect = 0 then enter_cluster D fp x else Some (FR_OK, fp, x)) = Some (FR_OK, fp\<lparr>f_clust := of_nat ?c\<rparr>, x1)"
    "src x1" "core x1 = core x" using e(2) by blast
  let ?fp = "fp\<lparr>f_clust := of_nat ?c\<rparr>"
  have fs1: "csize (ff_fs x1) = csize ?fs" "clust2sect (ff_fs x1) = clust2sect ?fs" "drv (ff_fs x1) = 0"
    using core_fields(8)[OF x1(3)] clust2sect_geo[OF core_eqD(3)[OF x1(3)]] x1(2) by (simp_all add: src_def)
  have j: "p div ?z < length cs" using lt(2) by (simp add: less_mult_imp_div_less mult.commute)
  have k: "?k < ?s" using sp(1) by simp
  let ?sect = "clust2sect ?fs (of_nat ?c) + csect"
  note ps = pos_of_sector[OF assms(2) chain_nth[OF a(2) j] k src_size[OF assms(1)] e(1)]
  have zk: "p mod ?z = 512 * ?k" using in_cluster(1)[OF assms(2), of p] assms(6) by simp
  then have sect: "512 * unat ?sect = byte_pos ?fs cs p" using ps(1) by (simp add: byte_pos_def)
  have room: "p mod ?z + 512 * m \<le> ?z" if "m \<le> ?s - ?k" for m
  proof -
    have "?k + m \<le> ?s" using that k by linarith
    then have "512 * (?k + m) \<le> 512 * ?s" by simp
    then show ?thesis unfolding zk by (simp add: clust_size_def)
  qed
  have fits: "byte_pos ?fs cs p + 512 * m \<le> length img" if "m \<le> ?s - ?k" for m
    by (rule chain_piece(2)[OF assms(2) a(2) lt(2) room[OF that]])
  have f0: "f_fptr fp mod SS = 0" using a(1) assms(6) by (simp add: word_unat_eq_iff unat_mod SS_facts)
  show ?thesis
  proof (cases "btr div SS = 0")
    case False
    define cc where "cc = clip_sectors (ucast (csize ?fs)) csect (btr div SS)"
    define n where "n = min (unat btr div 512) (?s - ?k)"
    have u: "unat (ucast (csize ?fs) :: u32) = ?s" using sp(2) by (simp add: unat_ucast_mod)
    have q: "unat (btr div SS) = unat btr div 512" by (simp add: unat_div SS_facts)
    have "unat btr div 512 \<le> 2 ^ 23" using unat_less[of btr] by simp
    then have s: "unat (csect + btr div SS) = ?k + unat btr div 512"
      using e(1) q k sp(2) by (simp add: unat_word_ariths)
    have le: "csect \<le> ucast (csize ?fs)" using e(1) u k by (simp add: word_le_nat_alt)
    have "unat cc = (if ?s < ?k + unat btr div 512 then ?s - ?k else unat btr div 512)"
      using e(1) q s u by (simp add: cc_def clip_sectors_def word_less_nat_alt unat_sub[OF le])
    then have cc: "unat cc = n" unfolding n_def using clip[OF k] by simp
    have nz: "0 < n" "512 * n \<le> unat btr" using False q k by (auto simp: n_def word_unat_eq_iff)
    have b: "512 * n < 2 ^ 32" using nz(2) unat_less[of btr] by simp
    have nk: "n \<le> ?s - ?k" by (simp add: n_def)
    have "512 * (unat ?sect + n) \<le> length img" using fits[OF nk] sect by simp
    from sectors[OF _ nz(1) this b, of "ff_disk x1"] x1(2) sect
    obtain d where d: "dk_read D 0 ?sect cc (ff_disk x1) = Some (0, take (512 * n) (drop (byte_pos ?fs cs p) img), d)" "good d"
      using unat_eq_of_nat[OF cc] by (auto simp: src_def)
    note in_c = room[OF nk]
    note piece = chain_piece[OF assms(2) a(2) lt(2) in_c]
    have le_sz: "p + 512 * n \<le> sz" using assms(4) nz(2) by simp
    have dat: "take (512 * n) (drop (byte_pos ?fs cs p) img) = take (512 * n) (drop p (file_bytes img ?fs cs sz))"
      using piece(1) le_sz by (simp add: file_bytes_def drop_take)
    have rd: "read_direct D ?sect cc buff pos x1 =
        Some (0, mem_put buff pos (take (512 * n) (drop p (file_bytes img ?fs cs sz))), x1\<lparr>ff_disk := d\<rparr>)"
      using d(1) fs1(3) cc piece(2) by (simp add: read_direct_def MAX_SS_def dat)
    have "read_step D btr fp buff pos x = Some (FR_OK, SS * cc, ?fp,
        mem_put buff pos (take (512 * n) (drop p (file_bytes img ?fs cs sz))), x1\<lparr>ff_disk := d\<rparr>)"
      using f0 x1(1) ps(2) False rd
      by (simp add: read_step_def csect_def[symmetric] cc_def[symmetric] fs1 Let_def)
    moreover have "unat (SS * cc) = 512 * n" using b cc by (simp add: unat_word_ariths SS_facts)
    moreover have "at_pos img ?fs cs sz (p + 512 * n) (?fp\<lparr>f_fptr := f_fptr ?fp + of_nat (512 * n)\<rparr>)"
      using assms(3,6) le_sz nz(1) unat_eq_of_nat[OF a(1)] last_cluster[OF in_c _ clust_size_pos[OF assms(2)]]
      by (auto simp: at_pos_def opened_def cached_def)
    moreover have "src (x1\<lparr>ff_disk := d\<rparr>)" "core (x1\<lparr>ff_disk := d\<rparr>) = core x"
      using x1(2,3) d(2) by (simp_all add: src_def core_def)
    ultimately show ?thesis unfolding step_result_def using nz unat_eq_of_nat[of "SS * cc" "512 * n"]
      by (intro exI[of _ "512 * n"] exI[of _ ?fp] exI[of _ "x1\<lparr>ff_disk := d\<rparr>"]) (simp add: same_file_def)
  next
    case True
    have f1: "512 * (unat ?sect + 1) \<le> length img"
    proof -
      have "1 \<le> ?s - ?k" using k by linarith
      from fits[OF this] show ?thesis using sect by simp
    qed
    obtain m x2 where x2: "load_buffer D ?sect ?fp x1 = Some (0, m, x2)" "\<forall>i < 512. m i = img ! (512 * unat ?sect + i)" "src x2" "core x2 = core x1"
    proof (cases "f_sect fp = ?sect")
      case True
      then have "\<forall>i < 512. f_buf fp i = img ! (512 * unat ?sect + i)"
        using assms(3) ps(4) by (auto simp: at_pos_def opened_def cached_def)
      with that[of "f_buf fp" x1] True x1(2) show ?thesis by (simp add: load_buffer_def)
    next
      case False
      obtain m d where "read_sector D ?sect (f_buf fp) x1 = Some (0, m, x1\<lparr>ff_disk := d\<rparr>)" "good d"
        "\<forall>i < 512. m i = img ! (512 * unat ?sect + i)"
        using read_sector_ok[OF _ fs1(3) f1, of "f_buf fp"] x1(2) by (auto simp: src_def)
      with that[of m "x1\<lparr>ff_disk := d\<rparr>"] False x1(2) show ?thesis by (simp add: src_def core_def load_buffer_def)
    qed
    let ?fp2 = "?fp\<lparr>f_buf := m, f_sect := ?sect\<rparr>"
    have h: "holds_sector img ?fs cs p (f_buf ?fp2)" using x2(2) sect assms(6) by (simp add: holds_sector_def)
    have "opened img ?fs cs sz p ?fp2" using assms(3) x2(2) f1 by (simp add: at_pos_def opened_def cached_def)
    from partial_ok[OF assms(2) this h lt(1) assms(5,4)] obtain n where n:
      "read_partial ?fp2 btr buff pos = (of_nat n, mem_put buff pos (take n (drop p (file_bytes img ?fs cs sz))))"
      "0 < n" "n \<le> unat btr" "at_pos img ?fs cs sz (p + n) (?fp2\<lparr>f_fptr := f_fptr ?fp2 + of_nat n\<rparr>)" by auto
    have "read_step D btr fp buff pos x =
        Some (FR_OK, of_nat n, ?fp2, mem_put buff pos (take n (drop p (file_bytes img ?fs cs sz))), x2)"
      using f0 x1(1) ps(2) True x2(1) n(1) by (simp add: read_step_def csect_def[symmetric] fs1 Let_def)
    then show ?thesis unfolding step_result_def using n x2 x1(3)
      by (intro exI[of _ n] exI[of _ ?fp2] exI[of _ x2]) (simp add: same_file_def)
  qed
qed


lemma step_ok:
  assumes "src x" "vol_ok img (ff_fs x)" "at_pos img (ff_fs x) cs sz p fp" "p + unat btr \<le> sz" "0 < unat btr"
  shows "step_result x cs sz p btr fp buff pos"
  using step_partial[OF assms] step_sector[OF assms] by blast

lemma read_bytes_ok:
  assumes "src x" "vol_ok img (ff_fs x)" "at_pos img (ff_fs x) cs sz p fp" "p + unat btr \<le> sz" "unat br + unat btr < 2 ^ 32"
  shows "\<exists>fp' x'. read_bytes D btr br fp buff x = Some (FR_OK, br + btr, fp',
      mem_put buff (unat br) (take (unat btr) (drop p (file_bytes img (ff_fs x) cs sz))), x') \<and>
    at_pos img (ff_fs x) cs sz (p + unat btr) fp' \<and> same_file fp fp' \<and> src x' \<and> core x' = core x"
  using assms
proof (induction "unat btr" arbitrary: btr br fp buff x p rule: less_induct)
  case less
  show ?case
  proof (cases "btr = 0")
    case True
    then show ?thesis using less.prems
      by (intro exI[of _ fp] exI[of _ x]) (simp add: read_bytes.simps[of D 0] same_file_def)
  next
    case False
    then have pos: "0 < unat btr" by (simp add: unat_gt_0)
    let ?c = "file_bytes img (ff_fs x) cs sz"
    obtain n fp1 x1 where st: "read_step D btr fp buff (unat br) x =
        Some (FR_OK, of_nat n, fp1, mem_put buff (unat br) (take n (drop p ?c)), x1)" "0 < n" "n \<le> unat btr"
      "at_pos img (ff_fs x) cs sz (p + n) (fp1\<lparr>f_fptr := f_fptr fp1 + of_nat n\<rparr>)" "same_file fp fp1" "src x1" "core x1 = core x"
      using step_ok[OF less.prems(1-4) pos] unfolding step_result_def by blast
    let ?fp1 = "fp1\<lparr>f_fptr := f_fptr fp1 + of_nat n\<rparr>"
    have g: "geo (ff_fs x1) = geo (ff_fs x)" using core_eqD(3)[OF st(7)] .
    have nb: "unat (of_nat n :: u32) = n" using st(3) unat_less[of btr] by (simp add: unat_of_nat)
    have "(of_nat n :: u32) \<le> btr" using st(3) by (simp add: word_le_nat_alt nb)
    then have b1: "unat (btr - of_nat n) = unat btr - n" by (simp add: unat_sub nb)
    have b2: "unat (br + of_nat n) = unat br + n" using less.prems(5) st(3) nb by (simp add: unat_word_ariths)
    have "vol_ok img (ff_fs x1)" "at_pos img (ff_fs x1) cs sz (p + n) ?fp1"
      using less.prems(2) st(4) vol_ok_geo[OF g] file_geo[OF g] by simp_all
    with less.hyps[of "btr - of_nat n" x1 "p + n" ?fp1 "br + of_nat n"] st(2,3,6) b1 b2 less.prems(4,5)
    obtain fp2 x2 where IH: "read_bytes D (btr - of_nat n) (br + of_nat n) ?fp1 (mem_put buff (unat br) (take n (drop p ?c))) x1 =
        Some (FR_OK, br + of_nat n + (btr - of_nat n), fp2, mem_put (mem_put buff (unat br) (take n (drop p ?c)))
          (unat br + n) (take (unat btr - n) (drop (p + n) (file_bytes img (ff_fs x1) cs sz))), x2)"
      "at_pos img (ff_fs x1) cs sz (p + n + (unat btr - n)) fp2" "same_file ?fp1 fp2" "src x2" "core x2 = core x1" by fastforce
    have len: "length (take n (drop p ?c)) = n"
    proof -
      have "length ?c = sz" using at_posD(2,3)[OF less.prems(3)] length_chain_bytes[OF less.prems(2)] by (simp add: file_bytes_def)
      then show ?thesis using less.prems(4) st(3) by simp
    qed
    have "take n (drop p ?c) @ take (unat btr - n) (drop (p + n) ?c) = take (unat btr) (drop p ?c)"
      using st(3) take_add[of n "unat btr - n" "drop p ?c"] by (simp add: add.commute)
    then have "mem_put (mem_put buff (unat br) (take n (drop p ?c))) (unat br + n) (take (unat btr - n) (drop (p + n) ?c)) =
        mem_put buff (unat br) (take (unat btr) (drop p ?c))"
      using mem_put_put_append[of buff "unat br" "take n (drop p ?c)"] len by simp
    moreover have "read_bytes D btr br fp buff x =
        read_bytes D (btr - of_nat n) (br + of_nat n) ?fp1 (mem_put buff (unat br) (take n (drop p ?c))) x1"
      using False st(1) by (simp add: read_bytes.simps[of D btr])
    ultimately show ?thesis
      using IH st(3,5,7) file_geo[OF g] by (intro exI[of _ fp2] exI[of _ x2]) (simp add: same_file_def)
  qed
qed

definition readable :: "'s ff \<Rightarrow> fil \<Rightarrow> bool" where
  "readable x fp \<longleftrightarrow> obj_fs (fobj fp) \<and> obj_id (fobj fp) = fat_id (ff_fs x) \<and> f_err fp = FR_OK \<and> f_flag fp AND FA_READ \<noteq> 0"

lemma ff_read_ok:
  assumes "src x" "vol_ok img (ff_fs x)" "at_pos img (ff_fs x) cs sz p fp" "readable x fp"
  shows "\<exists>fp' x'. let n = min (unat btr) (sz - p) in
    ff_read D btr fp buff x =
      Some (FR_OK, of_nat n, fp', mem_put buff 0 (take n (drop p (file_bytes img (ff_fs x) cs sz))), x') \<and>
    at_pos img (ff_fs x) cs sz (p + n) fp' \<and> readable x' fp' \<and> same_file fp fp' \<and> src x' \<and> core x' = core x"
proof -
  note a = at_posD[OF assms(3)]
  let ?n = "min (unat btr) (sz - p)" and ?r = "objsize (fobj fp) - f_fptr fp"
  let ?b = "if ?r < btr then ?r else btr"
  have "f_fptr fp \<le> objsize (fobj fp)" using a(1,4,5) by (simp add: word_le_nat_alt)
  then have r: "unat ?r = sz - p" by (simp only: unat_sub a(1,4))
  then have b: "unat ?b = ?n" by (simp add: word_less_nat_alt)
  have "p + unat ?b \<le> sz" "unat (0 :: u32) + unat ?b < 2 ^ 32" using b a(5) unat_less[of ?b] by simp_all
  from read_bytes_ok[OF assms(1-3) this, of buff] obtain fp' x' where
    rd: "read_bytes D ?b 0 fp buff x = Some (FR_OK, ?b, fp', mem_put buff 0 (take ?n (drop p (file_bytes img (ff_fs x) cs sz))), x')"
    "at_pos img (ff_fs x) cs sz (p + ?n) fp'" "same_file fp fp'" "src x'" "core x' = core x" unfolding b by auto
  have "validate D (fobj fp) x = Some FR_OK" using assms(4) by (intro validate_ok[OF assms(1,2)]) (simp_all add: readable_def)
  then have "ff_read D btr fp buff x = Some (FR_OK, ?b, fp', mem_put buff 0 (take ?n (drop p (file_bytes img (ff_fs x) cs sz))), x')"
    using assms(4) rd(1) by (simp add: ff_read_def readable_def)
  moreover have "?b = of_nat ?n" by (rule unat_eq_of_nat[OF b])
  moreover have "readable x' fp'" using assms(4) rd(3) core_fields(6)[OF rd(5)] by (simp add: readable_def same_file_def)
  ultimately show ?thesis using rd unfolding Let_def by (intro exI[of _ fp'] exI[of _ x']) simp
qed


end

section \<open>Seeking\<close>

lemma unat_and_not_mask: "unat (w AND NOT (mask n) :: u32) = 2 ^ n * (unat w div 2 ^ n)" if "n < 32"
proof -
  have "w AND NOT (mask n) = push_bit n (drop_bit n w)"
    by (intro bit_word_eqI) (auto simp: bit_simps)
  then have "unat (w AND NOT (mask n)) = unat (push_bit n (drop_bit n w))" by simp
  also have "\<dots> = take_bit 32 (2 ^ n * (unat w div 2 ^ n))"
    unfolding unsigned_push_bit_eq unsigned_drop_bit_eq using unat_less[of w]
    by (simp add: push_bit_eq_mult drop_bit_eq_div mult.commute take_bit_eq_mod)
  also have "\<dots> = 2 ^ n * (unat w div 2 ^ n)"
    using le_less_trans[OF times_div_less_eq_dividend unat_less[of w], of "2 ^ n"] by (simp add: take_bit_eq_mod)
  finally show ?thesis .
qed

lemma bcs_facts:
  assumes "geom fs"
  shows "unat (ucast (csize fs) * SS) = clust_size fs" "clust_size fs \<le> 2 ^ 16" "0 < clust_size fs"
    "unat (w AND NOT (ucast (csize fs) * SS - 1)) = clust_size fs * (unat w div clust_size fs)"
proof -
  obtain k where k: "k \<le> 7" "unat (csize fs) = 2 ^ k" using assms by (auto simp: geom_def)
  have p: "(2 :: nat) ^ k \<le> 2 ^ 7" using k(1) by (intro power_increasing) simp_all
  have c: "unat (ucast (csize fs) :: u32) = 2 ^ k" using k p by (simp add: unat_ucast_mod)
  show u: "unat (ucast (csize fs) * SS) = clust_size fs" using c p k by (simp add: unat_word_ariths SS_facts clust_size_def)
  show "clust_size fs \<le> 2 ^ 16" "0 < clust_size fs" using p k by (simp_all add: clust_size_def)
  have z: "clust_size fs = 2 ^ (k + 9)" using k by (simp add: clust_size_def power_add)
  have "ucast (csize fs) * SS = (of_nat (2 ^ (k + 9)) :: u32)" using unat_eq_of_nat[OF u] z by simp
  then have "ucast (csize fs) * SS - 1 = (mask (k + 9) :: u32)" by (simp add: mask_eq_exp_minus_1)
  then show "unat (w AND NOT (ucast (csize fs) * SS - 1)) = clust_size fs * (unat w div clust_size fs)"
    using unat_and_not_mask[of "k + 9" w] k(1) z by simp
qed

context sector_source
begin

lemma seek_chain_ok:
  assumes "src x" "vol_ok img (ff_fs x)" "chain img (ff_fs x) cs" "a < length cs" "clst = of_nat (cs ! a)" "f_clust fp = clst"
    and "unat (f_fptr fp) = clust_size (ff_fs x) * a" "unat ofs = q - clust_size (ff_fs x) * a" "clust_size (ff_fs x) * a < q"
    and "q \<le> clust_size (ff_fs x) * length cs" "q < 2 ^ 32"
  shows "\<exists>x'. let b = (q - 1) div clust_size (ff_fs x) in
    seek_chain D (ucast (csize (ff_fs x)) * SS) ofs clst fp x = Some (FR_OK, of_nat (q - clust_size (ff_fs x) * b), of_nat (cs ! b),
      fp\<lparr>f_fptr := of_nat (clust_size (ff_fs x) * b), f_clust := of_nat (cs ! b)\<rparr>, x') \<and> src x' \<and> core x' = core x"
  using assms
proof (induction "q - clust_size (ff_fs x) * a" arbitrary: a clst fp ofs x rule: less_induct)
  case less
  let ?z = "clust_size (ff_fs x)" and ?bcs = "ucast (csize (ff_fs x)) * SS :: u32"
  have geom: "geom (ff_fs x)" using less.prems(2) by (simp add: vol_ok_def)
  note bc = bcs_facts[OF geom]
  show ?case
  proof (cases "?bcs < ofs")
    case False
    then have le: "q - ?z * a \<le> ?z" using less.prems(8) bc(1) by (simp add: word_less_nat_alt)
    have "(q - 1) div ?z = a"
      by (rule div_nat_eqI) (use le less.prems(9) bc(3) in \<open>simp_all add: mult.commute\<close>)
    moreover have "fp\<lparr>f_fptr := of_nat (?z * a), f_clust := of_nat (cs ! a)\<rparr> = fp"
      using less.prems(5,6) unat_eq_of_nat[OF less.prems(7)] by (simp del: of_nat_mult)
    moreover have "seek_chain D ?bcs ofs clst fp x = Some (FR_OK, ofs, clst, fp, x)"
      using False by (subst seek_chain.simps) simp
    ultimately show ?thesis using less.prems(1,5) unat_eq_of_nat[OF less.prems(8)]
      by (intro exI[of _ x]) (simp add: Let_def)
  next
    case True
    then have gt: "?z < q - ?z * a" using less.prems(8) bc(1) by (simp add: word_less_nat_alt)
    then have "?z * (a + 1) < ?z * length cs" using less.prems(10) by (simp add: distrib_left)
    then have len: "a + 1 < length cs" by (simp only: mult_less_cancel1)
    obtain x1 where x1: "get_fat D clst x = Some (of_nat (cs ! (a + 1)), x1)" "src x1" "core x1 = core x"
      using fat_next[OF less.prems(1-3), of a] len less.prems(5) by auto
    have g: "geo (ff_fs x1) = geo (ff_fs x)" using core_eqD(3)[OF x1(3)] .
    have v: "valid_clust (ff_fs x) (cs ! (a + 1))" by (rule chain_nth[OF less.prems(3) len])
    let ?fp = "fp\<lparr>f_fptr := f_fptr fp + ?bcs, f_clust := of_nat (cs ! (a + 1))\<rparr>"
    have f: "unat (f_fptr ?fp) = ?z * (a + 1)"
      using less.prems(7,11) gt bc(1) by (simp add: unat_word_ariths)
    have o: "unat (ofs - ?bcs) = q - ?z * (a + 1)"
      using less.prems(8) bc(1) True by (simp add: unat_sub order_less_imp_le)
    have lt: "?z * (a + 1) < q" using gt by (simp add: distrib_left)
    have dec: "q - ?z * (a + 1) < q - ?z * a" using gt bc(3) by simp
    have "seek_chain D ?bcs ofs clst fp x = seek_chain D ?bcs (ofs - ?bcs) (of_nat (cs ! (a + 1))) ?fp x1"
      using True x1(1) valid_word[OF v] geo_eq_fields(6)[OF g] by (simp add: seek_chain.simps[of D ?bcs ofs] word_le_nat_alt)
    moreover have "\<exists>x'. let b = (q - 1) div clust_size (ff_fs x1) in
        seek_chain D (ucast (csize (ff_fs x1)) * SS) (ofs - ?bcs) (of_nat (cs ! (a + 1))) ?fp x1 =
          Some (FR_OK, of_nat (q - clust_size (ff_fs x1) * b), of_nat (cs ! b),
            ?fp\<lparr>f_fptr := of_nat (clust_size (ff_fs x1) * b), f_clust := of_nat (cs ! b)\<rparr>, x') \<and> src x' \<and> core x' = core x1"
    proof (rule less.hyps)
      show "q - clust_size (ff_fs x1) * (a + 1) < q - ?z * a" using dec chain_geo(3)[OF g] by simp
      show "vol_ok img (ff_fs x1)" "chain img (ff_fs x1) cs" "q \<le> clust_size (ff_fs x1) * length cs"
        "unat (f_fptr ?fp) = clust_size (ff_fs x1) * (a + 1)" "unat (ofs - ?bcs) = q - clust_size (ff_fs x1) * (a + 1)"
        "clust_size (ff_fs x1) * (a + 1) < q"
        using less.prems(2,3,10) f o lt chain_geo[OF g] vol_ok_geo[OF g] by (simp_all del: mult_Suc_right add: distrib_left)
    qed (use x1(2) len less.prems(11) in simp_all)
    ultimately show ?thesis using x1(3) chain_geo(3)[OF g] geo_eq_fields(5)[OF g] by (simp add: Let_def)
  qed
qed


text \<open>Seeking into the file: the sector that belongs into the buffer is that of the new position.\<close>

lemma seek_to_ok:
  assumes "src x" "vol_ok img (ff_fs x)" "at_pos img (ff_fs x) cs sz p fp" "unat q' = q" "0 < q" "q \<le> sz"
  shows "\<exists>nsect fp' x'. seek_to D q' (f_fptr fp) (fp\<lparr>f_fptr := 0\<rparr>) x = Some (FR_OK, nsect, fp', x') \<and>
    opened img (ff_fs x) cs sz q fp' \<and> f_clust fp' = of_nat (cs ! ((q - 1) div clust_size (ff_fs x))) \<and>
    (q mod 512 \<noteq> 0 \<longrightarrow> nsect \<noteq> 0 \<and> 512 * unat nsect = byte_pos (ff_fs x) cs (q - q mod 512) \<and> 512 * (unat nsect + 1) \<le> length img) \<and>
    same_file fp fp' \<and> f_sect fp' = f_sect fp \<and> f_buf fp' = f_buf fp \<and> src x' \<and> core x' = core x"
proof -
  let ?fs = "ff_fs x" and ?z = "clust_size (ff_fs x)" and ?bcs = "ucast (csize (ff_fs x)) * SS :: u32"
  let ?b = "(q - 1) div clust_size (ff_fs x)"
  note a = at_posD[OF assms(3)]
  have geom: "geom ?fs" using assms(2) by (simp add: vol_ok_def)
  note bc = bcs_facts[OF geom]
  have q: "q \<le> ?z * length cs" "q < 2 ^ 32" "q - 1 < ?z * length cs" using a(3,6) assms(5,6) by simp_all
  have bl: "?b < length cs" using q(3) by (simp add: less_mult_imp_div_less mult.commute)
  have f0: "unat (f_fptr fp - 1) = p - 1" if "0 < p" using that a(1) by (metis unat_minus_one unat_0 less_irrefl)
  have q1: "unat (q' - 1) = q - 1" using assms(4,5) by (metis unat_minus_one unat_0 less_irrefl)
  have cond: "0 < f_fptr fp \<and> (f_fptr fp - 1) div ?bcs \<le> (q' - 1) div ?bcs \<longleftrightarrow> 0 < p \<and> (p - 1) div ?z \<le> ?b"
    using a(1) f0 q1 bc(1) by (auto simp: word_le_nat_alt word_less_nat_alt unat_div)
  define c0 where "c0 = (if 0 < p \<and> (p - 1) div ?z \<le> ?b then (p - 1) div ?z else 0)"
  have c0: "c0 \<le> ?b" "?z * c0 < q" "c0 < length cs"
  proof -
    show "c0 \<le> ?b" by (simp add: c0_def)
    then have "?z * c0 \<le> ?z * ?b" by simp
    also have "\<dots> \<le> q - 1" by (rule times_div_less_eq_dividend)
    finally show "?z * c0 < q" using assms(5) by simp
    show "c0 < length cs" using \<open>c0 \<le> ?b\<close> bl by simp
  qed
  obtain ofs clst fp1 where st: "seek_start ?bcs q' (f_fptr fp) (fp\<lparr>f_fptr := 0\<rparr>) = (ofs, clst, fp1)" by (metis prod_cases3)
  have s: "clst = of_nat (cs ! c0)" "f_clust fp1 = clst" "unat (f_fptr fp1) = ?z * c0" "unat ofs = q - ?z * c0"
    "fp1 = fp\<lparr>f_fptr := f_fptr fp1, f_clust := clst\<rparr>"
  proof -
    have "clst = of_nat (cs ! c0) \<and> f_clust fp1 = clst \<and> unat (f_fptr fp1) = ?z * c0 \<and> unat ofs = q - ?z * c0 \<and>
      fp1 = fp\<lparr>f_fptr := f_fptr fp1, f_clust := clst\<rparr>"
    proof (cases "0 < p \<and> (p - 1) div ?z \<le> ?b")
      case True
      let ?p = "(f_fptr fp - 1) AND NOT (?bcs - 1)"
      have e: "ofs = q' - ?p" "clst = f_clust fp" "fp1 = fp\<lparr>f_fptr := ?p\<rparr>" "c0 = (p - 1) div ?z"
        using st True cond by (simp_all add: seek_start_def c0_def Let_def)
      have u: "unat ?p = ?z * c0" using bc(4)[of "f_fptr fp - 1"] f0 True e(4) by simp
      have "?p \<le> q'" using u c0(2) assms(4) by (simp add: word_le_nat_alt)
      then have "unat (q' - ?p) = q - ?z * c0" using u assms(4) by (simp add: unat_sub)
      then show ?thesis using e u True assms(3) by (simp add: at_pos_def)
    next
      case False
      then have e: "ofs = q'" "clst = sclust (fobj fp)" "fp1 = fp\<lparr>f_fptr := 0, f_clust := sclust (fobj fp)\<rparr>" "c0 = 0"
        using st cond unfolding seek_start_def c0_def by auto
      have "cs \<noteq> []" using c0(3) by auto
      then have "sclust (fobj fp) = of_nat (cs ! 0)" using assms(3) by (simp add: at_pos_def opened_def file_in_def hd_conv_nth)
      then show ?thesis using e assms(4) by simp
    qed
    then show "clst = of_nat (cs ! c0)" "f_clust fp1 = clst" "unat (f_fptr fp1) = ?z * c0" "unat ofs = q - ?z * c0"
      "fp1 = fp\<lparr>f_fptr := f_fptr fp1, f_clust := clst\<rparr>" by blast+
  qed
  let ?fp2 = "fp1\<lparr>f_fptr := of_nat (?z * ?b), f_clust := of_nat (cs ! ?b)\<rparr>" and ?o = "q - ?z * ?b"
  obtain x1 where x1: "seek_chain D ?bcs ofs clst fp1 x = Some (FR_OK, of_nat ?o, of_nat (cs ! ?b), ?fp2, x1)" "src x1" "core x1 = core x"
    using seek_chain_ok[OF assms(1,2) a(2) c0(3) s(1,2,3,4) c0(2) q(1,2)] by (auto simp: Let_def)
  have bq: "?z * ?b < q" "?o \<le> ?z" "q = ?z * ?b + ?o"
  proof -
    have "?z * ?b \<le> q - 1" by (rule times_div_less_eq_dividend)
    from le_less_trans[OF this] show lt: "?z * ?b < q" using assms(5) by simp
    show "q = ?z * ?b + ?o" using le_add_diff_inverse[OF less_imp_le[OF lt]] by simp
    have "q - 1 < ?z * ?b + ?z" using dividend_less_times_div[of ?z "q - 1"] bc(3) by (simp add: add.commute)
    then show "?o \<le> ?z" by simp
  qed
  let ?fp3 = "?fp2\<lparr>f_fptr := of_nat (?z * ?b) + of_nat ?o\<rparr>"
  have v: "valid_clust ?fs (cs ! ?b)" by (rule chain_nth[OF a(2) bl])
  obtain p1 where p1: "fp1 = fp\<lparr>f_fptr := p1, f_clust := clst\<rparr>" using s(5) by blast
  have "of_nat (?z * ?b) + of_nat ?o = (of_nat (?z * ?b + ?o) :: u32)" by (rule of_nat_add[symmetric])
  also have "\<dots> = of_nat q" using bq(3) by simp
  finally have fp3: "?fp3 = fp\<lparr>f_fptr := of_nat q, f_clust := of_nat (cs ! ?b)\<rparr>" by (simp only: p1) simp
  have opened: "opened img ?fs cs sz q ?fp3"
    using assms(3,6) unfolding fp3 by (simp add: at_pos_def opened_def cached_def)
  define ns where "ns = clust2sect ?fs (of_nat (cs ! ?b)) + of_nat ?o div SS"
  have z512: "?z mod 512 = 0" by (simp add: clust_size_def)
  have om: "?o mod 512 = q mod 512"
  proof -
    have "(?z * ?b + ?o) mod 512 = ?o mod 512" using z512 by (metis add_0 mod_add_left_eq mod_mult_left_eq mult_0 mod_0)
    from trans[OF this[symmetric] arg_cong[OF bq(3)[symmetric], of "\<lambda>t. t mod 512"]] show ?thesis .
  qed
  have ou: "unat (of_nat ?o :: u32) = ?o" using q(2) by (simp add: unat_of_nat)
  have sec: "512 * unat ns = byte_pos ?fs cs (q - q mod 512)" "512 * (unat ns + 1) \<le> length img" "ns \<noteq> 0"
    "clust2sect ?fs (of_nat (cs ! ?b)) \<noteq> 0" if "q mod 512 \<noteq> 0"
  proof -
    have "?o \<noteq> ?z" using that om z512 by auto
    then have oz: "?o < ?z" using bq(2) by simp
    then have k: "?o div 512 < unat (csize ?fs)" by (simp add: clust_size_def less_mult_imp_div_less mult.commute)
    have e1: "(?z * ?b + ?o) div ?z = ?b" "(?z * ?b + ?o) mod ?z = ?o" using oz by simp_all
    have qd: "q div ?z = ?b" "q mod ?z = ?o"
      by (rule trans[OF arg_cong[OF bq(3), of "\<lambda>t. t div ?z"] e1(1)], rule trans[OF arg_cong[OF bq(3), of "\<lambda>t. t mod ?z"] e1(2)])
    have "512 * (q div 512 mod unat (csize ?fs)) + q mod 512 = ?o" using in_cluster(1)[OF assms(2), of q] qd(2) by simp
    then have e: "512 * (q div 512 mod unat (csize ?fs)) = 512 * (?o div 512)" using om mult_div_mod_eq[of 512 ?o] by linarith
    have "unat (of_nat ?o div SS :: u32) = ?o div 512" using ou by (simp add: unat_div SS_facts)
    note ps = pos_of_sector[OF assms(2) v k src_size[OF assms(1)] this]
    show "512 * unat ns = byte_pos ?fs cs (q - q mod 512)"
      unfolding byte_pos_def in_cluster(3)[OF assms(2)] e using ps(1) sector_start(2)[OF assms(2), of q] qd(1) by (simp add: ns_def)
    have "512 * (?o div 512) + 512 \<le> ?z"
    proof -
      have "?o div 512 + 1 \<le> unat (csize ?fs)" using k by simp
      from mult_le_mono2[OF this, of 512] show ?thesis by (simp add: clust_size_def)
    qed
    then show "512 * (unat ns + 1) \<le> length img" using ps(1) clust_fits[OF assms(2) v] by (simp add: ns_def)
    show "ns \<noteq> 0" "clust2sect ?fs (of_nat (cs ! ?b)) \<noteq> 0" using ps(2,4) by (simp_all add: ns_def)
  qed
  define n where "n = (if q mod 512 = 0 then 0 else ns)"
  have fs1: "clust2sect (ff_fs x1) = clust2sect ?fs" using clust2sect_geo[OF core_eqD(3)[OF x1(3)]] .
  have bcs: "?bcs \<noteq> 0" using bc(1,3) by auto
  have c0n: "clst \<noteq> 0" using valid_word(2)[OF chain_nth[OF a(2) c0(3)]] s(1) by auto
  have oS: "(of_nat ?o mod SS = (0 :: u32)) \<longleftrightarrow> q mod 512 = 0"
    using ou om by (simp add: word_unat_eq_iff unat_mod SS_facts)
  have "seek_to D q' (f_fptr fp) (fp\<lparr>f_fptr := 0\<rparr>) x = Some (FR_OK, n, ?fp3, x1)"
    using bcs c0n x1(1) st sec(4) oS by (simp add: seek_to_def Let_def fs1 n_def ns_def del: of_nat_diff)
  with opened sec x1(2,3) show ?thesis
    unfolding fp3 by (intro exI[of _ n] exI[of _ "fp\<lparr>f_fptr := of_nat q, f_clust := of_nat (cs ! ?b)\<rparr>"] exI[of _ x1])
      (simp add: n_def same_file_def)
qed

lemma ff_lseek_ok:
  assumes "src x" "vol_ok img (ff_fs x)" "at_pos img (ff_fs x) cs sz p fp" "readable x fp"
  shows "\<exists>fp' x'. ff_lseek D ofs fp x = Some (FR_OK, fp', x') \<and>
    at_pos img (ff_fs x) cs sz (min (unat ofs) sz) fp' \<and> readable x' fp' \<and> same_file fp fp' \<and> src x' \<and> core x' = core x"
proof -
  let ?fs = "ff_fs x"
  note a = at_posD[OF assms(3)]
  define q' where "q' = (if objsize (fobj fp) < ofs then objsize (fobj fp) else ofs)"
  have q: "unat q' = min (unat ofs) sz" by (auto simp: q'_def word_less_nat_alt a(4))
  have val: "validate D (fobj fp) x = Some FR_OK" using assms(4) by (intro validate_ok[OF assms(1,2)]) (simp_all add: readable_def)
  have err: "f_err fp = FR_OK" using assms(4) by (simp add: readable_def)
  note L = ff_lseek_def[of D ofs fp x, unfolded Let_def, folded q'_def]
  show ?thesis
  proof (cases "q' = 0")
    case True
    let ?fp = "fp\<lparr>f_fptr := 0\<rparr>"
    have "ff_lseek D ofs fp x = Some (FR_OK, ?fp, x)" unfolding L using val err True by (simp add: SS_facts)
    moreover have "min (unat ofs) sz = 0" using q True by simp
    moreover have "at_pos img ?fs cs sz 0 ?fp" using assms(3) by (simp add: at_pos_def opened_def cached_def)
    ultimately show ?thesis using assms(1,4) by (intro exI[of _ ?fp] exI[of _ x]) (simp add: readable_def same_file_def)
  next
    case False
    let ?q = "unat q'"
    have "0 < ?q" using False by (simp add: unat_gt_0)
    then have q0: "0 < ?q" "?q \<le> sz" using q by simp_all
    obtain ns fp1 x1 where s: "seek_to D q' (f_fptr fp) (fp\<lparr>f_fptr := 0\<rparr>) x = Some (FR_OK, ns, fp1, x1)"
      "opened img ?fs cs sz ?q fp1" "f_clust fp1 = of_nat (cs ! ((?q - 1) div clust_size ?fs))"
      "?q mod 512 \<noteq> 0 \<longrightarrow> ns \<noteq> 0 \<and> 512 * unat ns = byte_pos ?fs cs (?q - ?q mod 512) \<and> 512 * (unat ns + 1) \<le> length img"
      "same_file fp fp1" "src x1" "core x1 = core x"
      using seek_to_ok[OF assms(1-3) refl q0] by blast
    have fm: "f_fptr fp1 mod SS \<noteq> 0 \<longleftrightarrow> ?q mod 512 \<noteq> 0" using openedD(1)[OF s(2)] by (simp add: word_unat_eq_iff unat_mod SS_facts)
    have rd1: "readable x1 fp1" using assms(4) s(5) core_fields(6)[OF s(7)] by (simp add: readable_def same_file_def)
    show ?thesis
    proof (cases "f_fptr fp1 mod SS \<noteq> 0 \<and> ns \<noteq> f_sect fp1")
      case True
      then have n: "512 * (unat ns + 1) \<le> length img" "512 * unat ns = byte_pos ?fs cs (?q - ?q mod 512)" using s(4) fm by simp_all
      obtain m d where m: "read_sector D ns (f_buf fp1) x1 = Some (0, m, x1\<lparr>ff_disk := d\<rparr>)" "good d"
        "\<forall>i < 512. m i = img ! (512 * unat ns + i)" using read_sector_ok[OF _ _ n(1), of x1 "f_buf fp1"] s(6) by (auto simp: src_def)
      let ?fp = "fp1\<lparr>f_buf := m, f_sect := ns\<rparr>"
      have "ff_lseek D ofs fp x = Some (FR_OK, ?fp, x1\<lparr>ff_disk := d\<rparr>)" unfolding L using val err False s(1) True m(1) by simp
      moreover have "at_pos img ?fs cs sz ?q ?fp"
        using s(2,3) m(3) n by (simp add: at_pos_def opened_def cached_def holds_sector_def)
      moreover have "src (x1\<lparr>ff_disk := d\<rparr>)" "core (x1\<lparr>ff_disk := d\<rparr>) = core x" using s(6,7) m(2) by (simp_all add: src_def core_def)
      ultimately show ?thesis using q rd1 s(5) by (intro exI[of _ ?fp] exI[of _ "x1\<lparr>ff_disk := d\<rparr>"]) (simp add: readable_def same_file_def)
    next
      case F: False
      have "ff_lseek D ofs fp x = Some (FR_OK, fp1, x1)" unfolding L using val err False s(1) F by auto
      moreover have "at_pos img ?fs cs sz ?q fp1"
        using s(2,3,4) fm F by (auto simp: at_pos_def opened_def cached_def holds_sector_def)
      ultimately show ?thesis using q rd1 s(5,6,7) by (intro exI[of _ fp1] exI[of _ x1]) simp
    qed
  qed
qed

end

end
