(* ===== verification/Fat_Walk.thy ===== *)
theory Fat_Walk
  imports Fat_Scan Fat_Read
begin

text \<open>
  Paths, directory listings and opening files on a mounted volume: \<open>resolves\<close> and \<open>dir_lists\<close> say on the image what a path leads to and
  what a directory lists, and the calls of FatFs return just that.
\<close>

section \<open>Names on the image\<close>

text \<open>Looking a path up from the directory that starts at cluster \<open>c0\<close>, with the contents \<open>lfn\<close> and \<open>fn\<close> of the name
  buffers, leads to entry \<open>e\<close>; \<open>ns\<close> are the flags of its name.\<close>

inductive resolves :: "byte list \<Rightarrow> fatfs \<Rightarrow> u32 \<Rightarrow> byte list \<Rightarrow> (nat \<Rightarrow> u16) \<Rightarrow> mem \<Rightarrow> byte \<Rightarrow> mem \<Rightarrow> bool" for img fs where
  resolves_last:
    "create_name path lfn fn = Some (FR_OK, rest, lfn', fn') \<Longrightarrow> fn' NSFLAG AND NS_LAST \<noteq> 0 \<Longrightarrow>
     dir_holds img fs c0 cs N E \<Longrightarrow> find_scan (ent img fs cs) 0 E 0xff 0xff lfn' fn' = Some j \<Longrightarrow>
     resolves img fs c0 path lfn fn (fn' NSFLAG) (ent img fs cs j)"
| resolves_dir:
    "create_name path lfn fn = Some (FR_OK, rest, lfn', fn') \<Longrightarrow> fn' NSFLAG AND NS_LAST = 0 \<Longrightarrow>
     dir_holds img fs c0 cs N E \<Longrightarrow> find_scan (ent img fs cs) 0 E 0xff 0xff lfn' fn' = Some j \<Longrightarrow>
     (ent img fs cs j 11 AND AM_MASK) AND AM_DIR \<noteq> 0 \<Longrightarrow>
     resolves img fs (ld_clust fs (ent img fs cs j)) rest lfn' fn' ns e \<Longrightarrow>
     resolves img fs c0 path lfn fn ns e"

text \<open>What the file information of an entry is.\<close>

definition item_info :: "mem \<Rightarrow> u32 \<Rightarrow> (nat \<Rightarrow> u16) \<Rightarrow> filinfo option" where
  "item_info e blk lfn = do {
     lname \<leftarrow> (if blk \<noteq> 0xffffffff then lfn_oem (map lfn [0..<Suc MAX_LFN]) [] else Some []);
     let (alt, nam) = sfn_names e [0..<11] [] [];
     Some \<lparr>fi_fsize = ld_dword e 28, fi_fdate = ucast (drop_bit 16 (ld_dword e 22)), fi_ftime = ucast (ld_dword e 22), fi_attrib = e 11,
       fi_altname = (if cstr lname = [] \<and> e 12 = 0 then [] else cstr alt),
       fi_fname = (if cstr lname = [] then cstr nam else cstr lname)\<rparr> }"

text \<open>The objects a directory with entries \<open>e\<close> lists from number \<open>k\<close> on, whatever was in the name buffer.\<close>

inductive dir_lists :: "(nat \<Rightarrow> mem) \<Rightarrow> nat \<Rightarrow> nat \<Rightarrow> filinfo list \<Rightarrow> bool" for e E where
  lists_end: "(\<forall>blk lfn. fst (read_scan e False k (E - k) 0xff 0xff blk lfn) = None) \<Longrightarrow> dir_lists e E k []"
| lists_item:
    "(\<forall>blk lfn. \<exists>blk' lfn'. read_scan e False k (E - k) 0xff 0xff blk lfn = (Some j, blk', lfn') \<and> item_info (e j) blk' lfn' = Some i) \<Longrightarrow>
     fi_fname i \<noteq> [] \<Longrightarrow> 0 \<notin> set (fi_fname i) \<Longrightarrow> dir_lists e E (Suc j) is \<Longrightarrow> dir_lists e E k (i # is)"

lemma resolves_geo:
  assumes "geo fs = geo fs'" "resolves img fs c0 path lfn fn ns e"
  shows "resolves img fs' c0 path lfn fn ns e"
  using assms(2)
proof induction
  case (resolves_last path lfn fn rest lfn' fn' c0 cs N E j)
  then show ?case unfolding dir_geo[OF assms(1)] by (rule resolves.resolves_last)
next
  case (resolves_dir path lfn fn rest lfn' fn' c0 cs N E j ns e)
  note d = dir_geo[OF assms(1)]
  have c: "ld_clust fs = ld_clust fs'" by (rule ext) (simp add: ld_clust_def geo_eq_fields[OF assms(1)])
  show ?case
    by (rule resolves.resolves_dir[OF resolves_dir.hyps(1,2) resolves_dir.hyps(3,4,5)[unfolded d] resolves_dir.IH[unfolded d c]])
qed

lemma sfn_names_cong: "\<forall>i \<in> set is. e i = e' i \<Longrightarrow> e 12 = e' 12 \<Longrightarrow> sfn_names e is alt nam = sfn_names e' is alt nam"
  by (induction "is" arbitrary: alt nam) (simp_all add: Let_def)

lemma get_fileinfo_item:
  assumes "dsect dp \<noteq> 0" "same_entry (entry x dp) e"
  shows "get_fileinfo dp x fno = item_info e (blk_ofs dp) (LfnBuf x)"
proof -
  have z: "entry x dp 12 = e 12" "entry x dp 11 = e 11" "ld_dword (entry x dp) 22 = ld_dword e 22" "ld_dword (entry x dp) 28 = ld_dword e 28"
    using assms(2) by (simp_all add: same_entry_def same_entry_ld)
  have s: "sfn_names (entry x dp) [0..<11] [] [] = sfn_names e [0..<11] [] []"
    using assms(2) by (intro sfn_names_cong) (auto simp: same_entry_def)
  show ?thesis
    using assms(1) by (auto simp: get_fileinfo_def item_info_def Let_def z s split: Option.bind_splits prod.split)
qed

lemma ld_clust_cong: "geo fs = geo fs' \<Longrightarrow> same_entry e e' \<Longrightarrow> ld_clust fs e = ld_clust fs' e'"
  by (simp add: ld_clust_def Let_def geo_eq_fields[of fs fs'] same_entry_ld)

text \<open>\<open>create_name\<close> never sets the flag of an empty path.\<close>

lemma noname_bit: "cf AND NS_NONAME = 0 \<longleftrightarrow> \<not> bit (cf :: byte) 7"
  using and_exp_eq_0_iff_not_bit[of cf 7] by (simp add: NS_NONAME_def)

lemma sfn_char_flags: "sfn_char w b cf = (c, b', cf') \<Longrightarrow> bit cf' 7 = bit cf 7"
  by (auto simp: sfn_char_def Let_def bit_or_iff name_consts split: if_splits)

lemma segment_sfn_flags: "segment_sfn lfn di si i ni b cf fn = Some (ni', b', cf', fn') \<Longrightarrow> bit cf' 7 = bit cf 7"
proof (induction "Suc MAX_LFN - si" arbitrary: si i ni b cf fn rule: less_induct)
  case less
  have IH: "si < s \<Longrightarrow> \<not> MAX_LFN < si \<Longrightarrow> segment_sfn lfn di s i ni b cf fn = Some (ni', b', cf', fn') \<Longrightarrow> bit cf' 7 = bit cf 7"
    for s i ni b cf fn by (rule less.hyps) simp_all
  have IH2: "\<not> di < Suc si \<Longrightarrow> \<not> MAX_LFN < si \<Longrightarrow> segment_sfn lfn di di i ni b cf fn = Some (ni', b', cf', fn') \<Longrightarrow> bit cf' 7 = bit cf 7"
    for i ni b cf fn by (rule IH) simp_all
  note IH1 = IH[OF lessI]
  have o: "bit (cf OR (NS_LOSS OR NS_LFN)) 7 = bit cf 7" for cf by (simp add: bit_or_iff name_consts)
  from less.prems show ?case
    by (subst (asm) segment_sfn.simps)
       (auto simp: Let_def o dest: IH1 IH2 sfn_char_flags simp del: bit_or_iff split: if_split_asm prod.split_asm)
qed

lemma name_flags_bit: "bit (name_flags ni b cf) 7 = bit cf 7"
  by (simp add: name_flags_def Let_def bit_or_iff name_consts)

lemma create_name_flags:
  assumes "create_name path lfn fn = Some (FR_OK, rest, lfn', fn')"
  shows "fn' NSFLAG AND NS_NONAME = 0"
proof -
  have o: "bit (cf OR (NS_LOSS OR NS_LFN)) 7 = bit cf 7" "\<not> bit NS_LAST 7" "\<not> bit (NS_LOSS OR NS_LFN) 7" for cf by (simp_all add: bit_or_iff name_consts)
  obtain en p di l where sl: "segment_lfn path lfn 0 = (Some (en, p, di), l)"
    using assms by (auto simp: create_name_def split: option.splits prod.splits)
  show ?thesis using assms unfolding noname_bit create_name_def sl
    by (auto simp: Let_def bind_Some_iff name_flags_bit o dest!: segment_sfn_flags simp del: bit_or_iff split: if_split_asm)
qed

lemma resolves_flags: "resolves img fs c0 path lfn fn ns e \<Longrightarrow> ns AND NS_NONAME = 0"
  by (induction rule: resolves.induct) (simp_all add: create_name_flags)

text \<open>The entry of a path from the root directory, whatever the name buffers held.\<close>

definition path_entry :: "byte list \<Rightarrow> fatfs \<Rightarrow> byte list \<Rightarrow> mem \<Rightarrow> bool" where
  "path_entry img fs path e \<longleftrightarrow> (let p = dropWhile (\<lambda>c. c = 0x2f \<or> c = 0x5c) path in
     0x20 \<le> str_hd p \<and> (\<forall>lfn fn. \<exists>ns. resolves img fs 0 p lfn fn ns e))"

text \<open>The entry of a file of \<open>sz\<close> bytes in the clusters \<open>cs\<close>.\<close>

definition file_entry :: "byte list \<Rightarrow> fatfs \<Rightarrow> mem \<Rightarrow> nat list \<Rightarrow> nat \<Rightarrow> bool" where
  "file_entry img fs e cs sz \<longleftrightarrow> (e 11 AND AM_MASK) AND AM_DIR = 0 \<and> chain img fs cs \<and> sz \<le> clust_size fs * length cs \<and>
     (cs \<noteq> [] \<longrightarrow> ld_clust fs e = of_nat (hd cs)) \<and> sz = unat (ld_dword e 28)"

text \<open>\<open>f_findnext\<close> goes to the next object whose name the pattern matches.\<close>

definition next_match :: "byte list \<Rightarrow> filinfo list \<Rightarrow> filinfo list" where
  "next_match p is = dropWhile (\<lambda>i. \<not> glob p (fi_fname i)) is"

text \<open>The identification of the mount plays no part in this.\<close>

lemma any_id [simp]:
  "chain img (fs\<lparr>fat_id := n\<rparr>) = chain img fs" "clust_size (fs\<lparr>fat_id := n\<rparr>) = clust_size fs" "file_bytes img (fs\<lparr>fat_id := n\<rparr>) = file_bytes img fs"
    "ent img (fs\<lparr>fat_id := n\<rparr>) = ent img fs" "dir_holds img (fs\<lparr>fat_id := n\<rparr>) = dir_holds img fs" "ld_clust (fs\<lparr>fat_id := n\<rparr>) = ld_clust fs" "file_entry img (fs\<lparr>fat_id := n\<rparr>) = file_entry img fs"
proof -
  let ?g = "fs\<lparr>fat_id := n\<rparr>"
  have v: "valid_clust ?g = valid_clust fs" by (simp add: valid_clust_def fun_eq_iff)
  have a: "fat_at img ?g = fat_at img fs" by (simp add: fat_at_def fun_eq_iff)
  have "chain img ?g cs = chain img fs cs" for cs by (induction cs) (simp_all add: v a)
  then show c: "chain img ?g = chain img fs" by blast
  show z: "clust_size ?g = clust_size fs" by (simp add: clust_size_def)
  have "clust_bytes img ?g = clust_bytes img fs" by (rule ext) (simp add: clust_bytes_def clust_pos_def clust_size_def)
  then have "chain_bytes img ?g = chain_bytes img fs" by (intro ext) (simp only: chain_bytes_def)
  then show "file_bytes img ?g = file_bytes img fs" by (intro ext) (simp only: file_bytes_def)
  show e: "ent img ?g = ent img fs" by (intro ext) (simp add: ent_def esec_def Let_def)
  show l: "ld_clust ?g = ld_clust fs" by (rule ext) (simp add: ld_clust_def)
  have "start_clust ?g = start_clust fs" by (intro ext) (simp add: start_clust_def)
  then have s: "dir_span img ?g = dir_span img fs" by (intro ext) (simp add: dir_span_def c)
  show "dir_holds img ?g = dir_holds img fs" by (intro ext) (simp add: dir_holds_def s e chain_ends_def a)
  show "file_entry img ?g = file_entry img fs" by (intro ext) (simp add: file_entry_def c z l)
qed

lemma resolves_any_id: "resolves img fs c0 path lfn fn ns e \<Longrightarrow> resolves img (fs\<lparr>fat_id := n\<rparr>) c0 path lfn fn ns e"
proof (induction rule: resolves.induct)
  case (resolves_last path lfn fn rest lfn' fn' c0 cs N E j)
  from resolves.resolves_last[OF this(1,2), of img "fs\<lparr>fat_id := n\<rparr>"] this(3,4) show ?case by (simp del: find_scan.simps)
next
  case (resolves_dir path lfn fn rest lfn' fn' c0 cs N E j ns e)
  from resolves.resolves_dir[OF this(1,2), of img "fs\<lparr>fat_id := n\<rparr>" c0 cs N E j ns e] this(3-7) show ?case by (simp del: find_scan.simps)
qed

lemma path_entry_any_id: "path_entry img fs path e \<Longrightarrow> path_entry img (fs\<lparr>fat_id := n\<rparr>) path e"
  by (simp add: path_entry_def Let_def) (blast intro: resolves_any_id)

section \<open>Walking a path\<close>

text \<open>The state of the module up to the window and the name buffer.\<close>

definition vol_core :: "'s ff \<Rightarrow> bool \<times> u16 \<times> fatfs" where
  "vol_core x = (FatFs x, Fsid x, geo (ff_fs x))"

lemma vol_core_core: "core x = core (y\<lparr>LfnBuf := l\<rparr>) \<Longrightarrow> vol_core x = vol_core y"
  by (simp add: core_def vol_core_def)

lemma vol_coreD: "vol_core x = vol_core y \<Longrightarrow> geo (ff_fs x) = geo (ff_fs y) \<and> FatFs x = FatFs y \<and> Fsid x = Fsid y"
  by (simp add: vol_core_def)

lemma vol_core_lfn [simp]: "vol_core (x\<lparr>LfnBuf := l\<rparr>) = vol_core x"
  by (simp add: vol_core_def)

context sector_source
begin

lemma dir_find_at:
  assumes "geo (ff_fs x) = geo fs" "src x" "vol_ok img fs" "dir_holds img fs (sclust (dobj dp)) cs N E"
    and "find_scan (ent img fs cs) 0 E 0xff 0xff (LfnBuf x) (dfn dp) = Some j"
  shows "\<exists>dp' x'. dir_find D dp x = Some (FR_OK, dp', x') \<and> src x' \<and> core x' = core x \<and> dir_key dp' = dir_key dp \<and>
    at_ent fs cs N j dp' \<and> dsect dp' \<noteq> 0 \<and> obj_attr (dobj dp') = ent img fs cs j 11 AND AM_MASK \<and>
    same_entry (entry x' dp') (ent img fs cs j)"
proof -
  note dg = dir_geo[OF assms(1)] vol_ok_geo[OF assms(1)]
  obtain r d1 x1 where f: "dir_find D dp x = Some (r, d1, x1)" "find_result (ff_fs x) cs N E (Some j) x dp r d1 x1"
    using dir_find_scan[of x dp cs N E] assms(2-5) unfolding dg by metis
  have r: "r = FR_OK" "j < E" "at_ent fs cs N j d1" "src x1" "core x1 = core x" "dir_key d1 = dir_key dp"
    "obj_attr (dobj d1) = ent img fs cs j 11 AND AM_MASK" "same_entry (entry x1 d1) (ent img fs cs j)"
    using f(2) by (simp_all add: find_result_def dg)
  have "dir_span img fs (sclust (dobj dp)) cs N" using assms(4) by (simp add: dir_holds_def)
  from esec_fits(2)[OF assms(3) this, of j] r(3) have "dsect d1 \<noteq> 0" by (auto simp: at_ent_def)
  with f(1) r show ?thesis by blast
qed

lemma entry_by_offset:
  assumes "at_ent fs cs N k dp"
  shows "(\<lambda>i. win (ff_fs x) (unat (dptr dp mod SS) + i)) = entry x dp"
proof -
  have "unat (dptr dp mod SS) = ddir dp"
    using assms ent_in_sector(1)[of k] by (simp add: unat_mod SS_facts at_ent_def)
  then show ?thesis by (simp add: entry_def)
qed

text \<open>The state a call on a path leaves.\<close>

definition found :: "'s ff \<Rightarrow> dir \<Rightarrow> byte \<Rightarrow> mem \<Rightarrow> 's ff \<Rightarrow> dir \<Rightarrow> bool" where
  "found x dp ns e x' dp' \<longleftrightarrow> src x' \<and> vol_core x' = vol_core x \<and> dsect dp' \<noteq> 0 \<and> same_entry (entry x' dp') e \<and>
     dfn dp' NSFLAG = ns \<and> obj_attr (dobj dp') = e 11 AND AM_MASK \<and> obj_fs (dobj dp') = obj_fs (dobj dp) \<and> pat dp' = pat dp"

lemma path_loop_resolves:
  assumes "resolves img fs c0 path lfn fn ns e"
  shows "geo (ff_fs x) = geo fs \<Longrightarrow> sclust (dobj dp) = c0 \<Longrightarrow> LfnBuf x = lfn \<Longrightarrow> dfn dp = fn \<Longrightarrow> src x \<Longrightarrow> vol_ok img fs \<Longrightarrow>
    \<exists>dp' x'. path_loop D path dp x = Some (FR_OK, dp', x') \<and> found x dp ns e x' dp'"
  using assms
proof (induction arbitrary: dp x)
  case (resolves_last path lfn fn rest lfn' fn' c0 cs N E j)
  let ?d = "dp\<lparr>dfn := fn'\<rparr>" and ?x = "x\<lparr>LfnBuf := lfn'\<rparr>"
  obtain d1 x1 where f: "dir_find D ?d ?x = Some (FR_OK, d1, x1)" "src x1" "core x1 = core ?x" "dir_key d1 = dir_key ?d"
    "dsect d1 \<noteq> 0" "obj_attr (dobj d1) = ent img fs cs j 11 AND AM_MASK" "same_entry (entry x1 d1) (ent img fs cs j)"
    using dir_find_at[of ?x fs ?d cs N E j] resolves_last by (auto simp del: find_scan.simps)
  note k = dir_key_fields[OF f(4)]
  have "path_loop D path dp x = Some (FR_OK, d1, x1)"
    using resolves_last.hyps(1,2) resolves_last.prems(3,4) f(1) k(1) by (subst path_loop.simps) simp
  moreover have "found x dp (fn' NSFLAG) (ent img fs cs j) x1 d1"
    using f k vol_core_core[OF f(3)] by (simp add: found_def)
  ultimately show ?case by blast
next
  case (resolves_dir path lfn fn rest lfn' fn' c0 cs N E j ns e)
  let ?d = "dp\<lparr>dfn := fn'\<rparr>" and ?x = "x\<lparr>LfnBuf := lfn'\<rparr>"
  obtain d1 x1 where f: "dir_find D ?d ?x = Some (FR_OK, d1, x1)" "src x1" "core x1 = core ?x" "dir_key d1 = dir_key ?d"
    "at_ent fs cs N j d1" "obj_attr (dobj d1) = ent img fs cs j 11 AND AM_MASK" "same_entry (entry x1 d1) (ent img fs cs j)"
    using dir_find_at[of ?x fs ?d cs N E j] resolves_dir by (auto simp del: find_scan.simps)
  note k = dir_key_fields[OF f(4)]
  have g: "geo (ff_fs x1) = geo fs" "LfnBuf x1 = lfn'" using core_eqD[OF f(3)] resolves_dir.prems(1) by simp_all
  let ?c = "ld_clust fs (ent img fs cs j)"
  let ?d1 = "d1\<lparr>dobj := (dobj d1)\<lparr>sclust := ?c\<rparr>\<rparr>"
  have "path_loop D path dp x = path_loop D rest ?d1 x1"
    using resolves_dir.hyps(1,2,5) resolves_dir.prems(3,4) f(1,6) k(1)
    by (subst path_loop.simps) (simp add: entry_by_offset[OF f(5)] ld_clust_cong[OF g(1) f(7)])
  moreover obtain d2 x2 where "path_loop D rest ?d1 x1 = Some (FR_OK, d2, x2)" "found x1 ?d1 ns e x2 d2"
    using resolves_dir.IH[of x1 ?d1] g f(2) k(1) resolves_dir.prems(6) by auto
  moreover from this(2) have "found x dp ns e x2 d2"
    using k vol_core_core[OF f(3)] by (simp add: found_def)
  ultimately show ?case by (intro exI[of _ d2] exI[of _ x2]) simp
qed

text \<open>The mounted volume.\<close>

definition on_volume :: "fatfs \<Rightarrow> 's ff \<Rightarrow> bool" where
  "on_volume fs x \<longleftrightarrow> src x \<and> vol_ok img fs \<and> geo (ff_fs x) = geo fs \<and> FatFs x"

lemma on_volumeD:
  assumes "on_volume fs x"
  shows "src x" "vol_ok img fs" "geo (ff_fs x) = geo fs" "FatFs x" "vol_ok img (ff_fs x)" "fat_id (ff_fs x) = fat_id fs"
  using assms vol_ok_geo[of "ff_fs x" fs] geo_eq_fields(3)[of "ff_fs x" fs] by (auto simp: on_volume_def)

lemma on_volume_core: "vol_core x' = vol_core x \<Longrightarrow> src x' \<Longrightarrow> on_volume fs x \<Longrightarrow> on_volume fs x'"
  by (simp add: on_volume_def vol_core_def)

lemma find_volume_mounted:
  assumes "on_volume fs x" "get_ldnumber path = (0, rest)"
  shows "find_volume D path x = Some (FR_OK, rest, x)"
proof -
  note v = on_volumeD[OF assms(1)]
  have "fs_type (ff_fs x) \<noteq> 0" "drv (ff_fs x) = 0" using v(1,5) by (auto simp: vol_ok_def geom_def vol_consts src_def)
  then show ?thesis using v(4) assms(2) by (simp add: find_volume_def ready)
qed

lemma follow_path_ok:
  assumes "path_entry img fs path e" "on_volume fs x"
  shows "\<exists>ns dp' x'. follow_path D path dp x = Some (FR_OK, dp', x') \<and> found x dp ns e x' dp' \<and> ns AND NS_NONAME = 0"
proof -
  note v = on_volumeD[OF assms(2)]
  let ?p = "dropWhile (\<lambda>c. c = 0x2f \<or> c = 0x5c) path" and ?d = "dp\<lparr>dobj := (dobj dp)\<lparr>sclust := 0\<rparr>\<rparr>"
  obtain ns where r: "\<not> str_hd ?p < 0x20" "resolves img fs 0 ?p (LfnBuf x) (dfn dp) ns e"
    using assms(1) by (auto simp: path_entry_def Let_def not_less)
  obtain dp' x' where "path_loop D ?p ?d x = Some (FR_OK, dp', x')" "found x ?d ns e x' dp'"
    using path_loop_resolves[OF r(2) v(3), of ?d] v(1,2) by auto
  with r resolves_flags[OF r(2)] show ?thesis
    by (intro exI[of _ ns] exI[of _ dp'] exI[of _ x']) (simp add: follow_path_def found_def)
qed

text \<open>A directory object in use.\<close>

definition listing :: "fatfs \<Rightarrow> nat list \<Rightarrow> nat \<Rightarrow> nat \<Rightarrow> nat \<Rightarrow> 's ff \<Rightarrow> dir \<Rightarrow> bool" where
  "listing fs cs N E k x dp \<longleftrightarrow> on_volume fs x \<and> dir_pos img fs cs N E k dp \<and> obj_fs (dobj dp) \<and> obj_id (dobj dp) = fat_id fs"

lemma ff_opendir_ok:
  assumes "find_volume D path x = Some (FR_OK, rest, x1)" "on_volume fs x1" "path_entry img fs rest e"
    and "(e 11 AND AM_MASK) AND AM_DIR \<noteq> 0" "dir_holds img fs (ld_clust fs e) cs N E"
  shows "\<exists>dp' x'. ff_opendir D path dp x = Some (FR_OK, dp', x') \<and> listing fs cs N E 0 x' dp' \<and> pat dp' = pat dp"
proof -
  let ?d = "dp\<lparr>dobj := (dobj dp)\<lparr>obj_fs := True\<rparr>\<rparr>"
  obtain ns d2 x2 where f: "follow_path D rest ?d x1 = Some (FR_OK, d2, x2)" "found x1 ?d ns e x2 d2" "ns AND NS_NONAME = 0"
    using follow_path_ok[OF assms(3,2)] by blast
  note fo = f(2)[unfolded found_def]
  have v2: "on_volume fs x2" using on_volume_core[OF _ _ assms(2)] fo by blast
  note v = on_volumeD[OF v2] and dg = dir_geo[OF on_volumeD(3)[OF v2]]
  let ?c = "ld_clust fs e"
  have c: "ld_clust (ff_fs x2) (entry x2 d2) = ?c" using fo v(3) by (intro ld_clust_cong) simp_all
  let ?d3 = "d2\<lparr>dobj := (dobj d2)\<lparr>sclust := ?c, obj_id := fat_id fs\<rparr>\<rparr>"
  have h: "dir_span img (ff_fs x2) (sclust (dobj ?d3)) cs N" "0 < N" using assms(5) by (simp_all add: dir_holds_def dg)
  obtain d4 where d4: "dir_sdi D 0 ?d3 x2 = Some (FR_OK, d4, x2)" "at_ent fs cs N 0 d4"
    "d4 = ?d3\<lparr>dptr := 0, dclust := dclust d4, dsect := dsect d4, ddir := 0\<rparr>"
    using dir_sdi_ok[OF v(1,5) h] unfolding dg by blast
  have k: "obj_fs (dobj d4)" "obj_id (dobj d4) = fat_id fs" "pat d4 = pat dp" using fo by (subst d4(3), simp)+
  have "ff_opendir D path dp x = Some (FR_OK, d4, x2)"
    using assms(1,4) f(1,3) fo c d4(1) v(6) by (simp add: ff_opendir_def Let_def)
  moreover have "dir_pos img fs cs N E 0 d4" using d4(2) h(2) by (simp add: dir_pos_def)
  ultimately show ?thesis using v2 k by (simp add: listing_def)
qed

text \<open>Reading the directory.\<close>

definition dir_open :: "fatfs \<Rightarrow> 's ff \<Rightarrow> dir \<Rightarrow> bool" where
  "dir_open fs x dp \<longleftrightarrow> on_volume fs x \<and> obj_fs (dobj dp) \<and> obj_id (dobj dp) = fat_id fs"

lemma listing_open: "listing fs cs N E k x dp \<Longrightarrow> dir_open fs x dp"
  by (simp add: listing_def dir_open_def)

lemma dir_validate: "dir_open fs x dp \<Longrightarrow> validate D (dobj dp) x = Some FR_OK"
  using validate_ok[of x "dobj dp"] on_volumeD[of fs x] by (auto simp: dir_open_def)

lemma ff_readdir_item:
  assumes "listing fs cs N E k x dp" "dir_holds img fs c0 cs N E"
    and "read_scan (ent img fs cs) False k (E - k) 0xff 0xff (blk_ofs dp) (LfnBuf x) = (Some j, blk, lfn)"
    and "item_info (ent img fs cs j) blk lfn = Some i"
  shows "\<exists>dp' x'. ff_readdir D dp fno x = Some (FR_OK, dp', i, x') \<and> listing fs cs N E (Suc j) x' dp' \<and> pat dp' = pat dp \<and>
    k \<le> j \<and> j < E"
proof -
  have o: "on_volume fs x" "dir_pos img fs cs N E k dp" using assms(1) by (simp_all add: listing_def)
  note v = on_volumeD[OF o(1)] and dg = dir_geo[OF on_volumeD(3)[OF o(1)]]
  obtain r d1 x1 where d: "dir_read D False dp x = Some (r, if r = FR_OK then d1 else d1\<lparr>dsect := 0\<rparr>, x1)"
    "read_result (ff_fs x) cs N E k (Some j, blk, lfn) x dp r d1 x1"
    using dir_read_scan[of x c0 cs N E k dp False] v(1,5) assms(2) o(2) unfolding dg dir_pos_def assms(3) by blast
  have f: "src x1" "dir_key d1 = dir_key dp" "core x1 = core (x\<lparr>LfnBuf := lfn\<rparr>)" "r = FR_OK" "k \<le> j" "j < E" "at_ent fs cs N j d1"
    "blk_ofs d1 = blk" "same_entry (entry x1 d1) (ent img fs cs j)" using d(2) by (simp_all add: read_result_def dg)
  have v1: "on_volume fs x1" by (rule on_volume_core[OF vol_core_core[OF f(3)] f(1) o(1)])
  note w = on_volumeD[OF v1] and dg1 = dir_geo[OF on_volumeD(3)[OF v1]]
  have sp: "dir_span img fs c0 cs N" using assms(2) by (simp add: dir_holds_def)
  have nz: "dsect d1 \<noteq> 0" using esec_fits(2)[OF v(2) sp, of j] f(7) by (auto simp: at_ent_def)
  have gi: "get_fileinfo d1 x1 fno = Some i"
    using get_fileinfo_item[OF nz f(9)] f(8) assms(4) core_eqD(2)[OF f(3)] by simp
  obtain d2 x2 where n: "dir_next D d1 x1 = Some (if j + 1 < N then FR_OK else FR_NO_FILE, d2, x2)" "dir_pos img fs cs N E (j + 1) d2"
    "dir_key d2 = dir_key d1" "src x2" "core x2 = core x1"
    using dir_next_pos[of x1 c0 cs N E j d1] w(1,5) assms(2) f(6,7) unfolding dg1 dir_pos_def by auto
  have v2: "on_volume fs x2" by (rule on_volume_core[OF _ n(4) v1]) (use n(5) in \<open>simp add: core_def vol_core_def\<close>)
  note k1 = dir_key_fields[OF f(2)] and k2 = dir_key_fields[OF n(3)]
  have "ff_readdir D dp fno x = Some (FR_OK, d2, i, x2)"
    using dir_validate[OF listing_open[OF assms(1)]] d(1) f(4) gi n(1) by (simp add: ff_readdir_def)
  moreover have "listing fs cs N E (Suc j) x2 d2" using v2 n(2) k1 k2 assms(1) by (simp add: listing_def)
  ultimately show ?thesis using f(5,6) k1 k2 by (intro exI[of _ d2] exI[of _ x2]) simp
qed

lemma ff_readdir_end:
  assumes "listing fs cs N E k x dp" "dir_holds img fs c0 cs N E"
    and "fst (read_scan (ent img fs cs) False k (E - k) 0xff 0xff (blk_ofs dp) (LfnBuf x)) = None"
  shows "\<exists>dp' x'. ff_readdir D dp fno x = Some (FR_OK, dp', fno\<lparr>fi_fname := []\<rparr>, x') \<and> dir_open fs x' dp'"
proof -
  have o: "on_volume fs x" "dir_pos img fs cs N E k dp" using assms(1) by (simp_all add: listing_def)
  note v = on_volumeD[OF o(1)] and dg = dir_geo[OF on_volumeD(3)[OF o(1)]]
  obtain blk lfn where s: "read_scan (ent img fs cs) False k (E - k) 0xff 0xff (blk_ofs dp) (LfnBuf x) = (None, blk, lfn)"
    using assms(3) by (metis prod.collapse)
  obtain r d1 x1 where d: "dir_read D False dp x = Some (r, if r = FR_OK then d1 else d1\<lparr>dsect := 0\<rparr>, x1)"
    "read_result (ff_fs x) cs N E k (None, blk, lfn) x dp r d1 x1"
    using dir_read_scan[of x c0 cs N E k dp False] v(1,5) assms(2) o(2) unfolding dg dir_pos_def s by blast
  have f: "src x1" "dir_key d1 = dir_key dp" "core x1 = core (x\<lparr>LfnBuf := lfn\<rparr>)" "r = FR_NO_FILE"
    using d(2) by (simp_all add: read_result_def)
  have v1: "on_volume fs x1" by (rule on_volume_core[OF vol_core_core[OF f(3)] f(1) o(1)])
  let ?d = "d1\<lparr>dsect := 0\<rparr>"
  have "dir_next D ?d x1 = Some (FR_NO_FILE, ?d, x1)" by (simp add: dir_next_def Let_def)
  then have "ff_readdir D dp fno x = Some (FR_OK, ?d, fno\<lparr>fi_fname := []\<rparr>, x1)"
    using dir_validate[OF listing_open[OF assms(1)]] d(1) f(4) by (simp add: ff_readdir_def get_fileinfo_def)
  moreover have "dir_open fs x1 ?d" using v1 dir_key_fields[OF f(2)] assms(1) by (simp add: dir_open_def listing_def)
  ultimately show ?thesis by blast
qed

lemma ff_findnext_lists:
  assumes "dir_lists (ent img fs cs) E k is" "dir_holds img fs c0 cs N E" "0 \<notin> set p"
  shows "listing fs cs N E k x dp \<Longrightarrow> pat dp = p \<Longrightarrow>
    (case next_match p is of
       [] \<Rightarrow> \<exists>dp' fno' x'. ff_findnext D dp fno x = Some (FR_OK, dp', fno', x') \<and> fi_fname fno' = [] \<and> dir_open fs x' dp'
     | i # is' \<Rightarrow> \<exists>k' dp' x'. ff_findnext D dp fno x = Some (FR_OK, dp', i, x') \<and> listing fs cs N E k' x' dp' \<and> pat dp' = p \<and>
         dir_lists (ent img fs cs) E k' is')"
  using assms(1)
proof (induction arbitrary: dp fno x)
  case (lists_end k)
  have "fst (read_scan (ent img fs cs) False k (E - k) 0xff 0xff (blk_ofs dp) (LfnBuf x)) = None" using lists_end.hyps by blast
  from ff_readdir_end[OF lists_end.prems(1) assms(2) this, of fno] obtain dp' x' where
    "ff_readdir D dp fno x = Some (FR_OK, dp', fno\<lparr>fi_fname := []\<rparr>, x')" "dir_open fs x' dp'" by blast
  then show ?case by (subst ff_findnext.simps) (simp add: next_match_def)
next
  case (lists_item k j i "is")
  obtain blk lfn where "read_scan (ent img fs cs) False k (E - k) 0xff 0xff (blk_ofs dp) (LfnBuf x) = (Some j, blk, lfn)"
    "item_info (ent img fs cs j) blk lfn = Some i" using lists_item.hyps(1) by blast
  from ff_readdir_item[OF lists_item.prems(1) assms(2) this, of fno] obtain d1 x1 where r:
    "ff_readdir D dp fno x = Some (FR_OK, d1, i, x1)" "listing fs cs N E (Suc j) x1 d1" "pat d1 = p" using lists_item.prems(2) by auto
  have m: "pattern_matching p (fi_fname i) 0 False = Some (glob p (fi_fname i))"
    using pattern_matching_correct(1)[OF assms(3) lists_item.hyps(3), of 0 False] by simp
  show ?case
  proof (cases "glob p (fi_fname i)")
    case True
    then have "ff_findnext D dp fno x = Some (FR_OK, d1, i, x1)"
      using r m lists_item.hyps(2) by (subst ff_findnext.simps) simp
    then show ?thesis using True r lists_item.hyps(4) by (auto simp: next_match_def)
  next
    case False
    then have a: "ff_findnext D dp fno x = ff_findnext D d1 i x1"
      using r m lists_item.hyps(2) by (subst ff_findnext.simps) simp
    have b: "next_match p (i # is) = next_match p is" using False by (simp add: next_match_def)
    show ?thesis unfolding a b by (rule lists_item.IH[OF r(2,3)])
  qed
qed

lemma ff_closedir_ok:
  assumes "dir_open fs x dp"
  shows "ff_closedir D dp x = Some (FR_OK, dp\<lparr>dobj := (dobj dp)\<lparr>obj_fs := False\<rparr>\<rparr>)"
  using dir_validate[OF assms] by (simp add: ff_closedir_def)

text \<open>Opening a file puts its object at the start.\<close>

lemma ff_open_ok:
  assumes "find_volume D path x = Some (FR_OK, rest, x1)" "on_volume fs x1" "path_entry img fs rest e" "file_entry img fs e cs sz"
  shows "\<exists>fp' x'. ff_open D dj path FA_READ fp x = Some (FR_OK, fp', x') \<and> on_volume fs x' \<and>
    at_pos img fs cs sz 0 fp' \<and> readable x' fp'"
proof -
  let ?d = "dj\<lparr>dobj := (dobj dj)\<lparr>obj_fs := True\<rparr>\<rparr>"
  obtain ns d2 x2 where f: "follow_path D rest ?d x1 = Some (FR_OK, d2, x2)" "found x1 ?d ns e x2 d2" "ns AND NS_NONAME = 0"
    using follow_path_ok[OF assms(3,2)] by blast
  note fo = f(2)[unfolded found_def] and fe = assms(4)[unfolded file_entry_def]
  have v2: "on_volume fs x2" using on_volume_core[OF _ _ assms(2)] fo by blast
  note v = on_volumeD[OF v2]
  let ?fp = "fp\<lparr>fobj := (fobj fp)\<lparr>sclust := ld_clust fs e, objsize := ld_dword e 28, obj_fs := True, obj_id := fat_id fs\<rparr>,
    f_flag := FA_READ AND FA_READ, f_err := FR_OK, f_sect := 0, f_fptr := 0\<rparr>"
  have c: "ld_clust (ff_fs x2) (entry x2 d2) = ld_clust fs e" "ld_dword (entry x2 d2) 28 = ld_dword e 28"
    using fo v(3) by (auto intro: ld_clust_cong same_entry_ld(2))
  have "ff_open D dj path FA_READ fp x = Some (FR_OK, ?fp, x2)"
    using assms(1) f(1,3) fo fe c v(6) by (simp add: ff_open_def Let_def)
  moreover have "at_pos img fs cs sz 0 ?fp"
    using fe unat_less[of "ld_dword e 28"] by (auto simp: at_pos_def opened_def file_in_def cached_def)
  moreover have "readable x2 ?fp" using v(6) by (simp add: readable_def FA_READ_def)
  ultimately show ?thesis using v2 by blast
qed

text \<open>Reading from an open file, and closing it.\<close>

definition file_open :: "fatfs \<Rightarrow> nat list \<Rightarrow> nat \<Rightarrow> nat \<Rightarrow> 's ff \<Rightarrow> fil \<Rightarrow> bool" where
  "file_open fs cs sz p x fp \<longleftrightarrow> on_volume fs x \<and> at_pos img fs cs sz p fp \<and> readable x fp"

lemma ff_read_open:
  assumes "file_open fs cs sz p x fp"
  shows "\<exists>fp' x'. let n = min (unat btr) (sz - p) in
    ff_read D btr fp buff x = Some (FR_OK, of_nat n, fp', mem_put buff 0 (take n (drop p (file_bytes img fs cs sz))), x') \<and>
    file_open fs cs sz (p + n) x' fp' \<and> same_file fp fp'"
proof -
  have o: "on_volume fs x" "readable x fp" using assms by (simp_all add: file_open_def)
  note v = on_volumeD[OF o(1)] and fg = file_geo[OF on_volumeD(3)[OF o(1)]]
  have "at_pos img (ff_fs x) cs sz p fp" using assms by (simp add: file_open_def fg)
  from ff_read_ok[OF v(1,5) this o(2), of btr buff] obtain fp' x' where r:
    "ff_read D btr fp buff x = Some (FR_OK, of_nat (min (unat btr) (sz - p)), fp',
       mem_put buff 0 (take (min (unat btr) (sz - p)) (drop p (file_bytes img fs cs sz))), x')"
    "at_pos img fs cs sz (p + min (unat btr) (sz - p)) fp'" "readable x' fp'" "same_file fp fp'" "src x'" "core x' = core x"
    unfolding fg Let_def by blast
  have "on_volume fs x'" by (rule on_volume_core[OF _ r(5) o(1)]) (use r(6) in \<open>simp add: core_def vol_core_def\<close>)
  with r show ?thesis by (simp add: Let_def file_open_def)
qed

lemma ff_lseek_open:
  assumes "file_open fs cs sz p x fp"
  shows "\<exists>fp' x'. ff_lseek D ofs fp x = Some (FR_OK, fp', x') \<and> file_open fs cs sz (min (unat ofs) sz) x' fp' \<and> same_file fp fp'"
proof -
  have o: "on_volume fs x" "readable x fp" using assms by (simp_all add: file_open_def)
  note v = on_volumeD[OF o(1)] and fg = file_geo[OF on_volumeD(3)[OF o(1)]]
  have "at_pos img (ff_fs x) cs sz p fp" using assms by (simp add: file_open_def fg)
  from ff_lseek_ok[OF v(1,5) this o(2), of ofs] obtain fp' x' where r:
    "ff_lseek D ofs fp x = Some (FR_OK, fp', x')" "at_pos img fs cs sz (min (unat ofs) sz) fp'" "readable x' fp'" "same_file fp fp'"
    "src x'" "core x' = core x" unfolding fg by blast
  have "on_volume fs x'" by (rule on_volume_core[OF _ r(5) o(1)]) (use r(6) in \<open>simp add: core_def vol_core_def\<close>)
  with r show ?thesis by (simp add: file_open_def)
qed

lemma ff_close_ok:
  assumes "file_open fs cs sz p x fp"
  shows "ff_close D fp x = Some (FR_OK, fp\<lparr>fobj := (fobj fp)\<lparr>obj_fs := False\<rparr>\<rparr>)"
proof -
  have "on_volume fs x" "readable x fp" using assms by (simp_all add: file_open_def)
  then show ?thesis using validate_ok[of x "fobj fp"] on_volumeD[of fs x] by (auto simp: ff_close_def readable_def)
qed

text \<open>The first object of a directory whose name matches.\<close>

lemma ff_findfirst_ok:
  assumes "find_volume D path x = Some (FR_OK, rest, x1)" "on_volume fs x1" "path_entry img fs rest e"
    and "(e 11 AND AM_MASK) AND AM_DIR \<noteq> 0" "dir_holds img fs (ld_clust fs e) cs N E" "dir_lists (ent img fs cs) E 0 is" "0 \<notin> set p"
  shows "case next_match p is of
       [] \<Rightarrow> \<exists>dp' fno' x'. ff_findfirst D path p dp fno x = Some (FR_OK, dp', fno', x') \<and> fi_fname fno' = [] \<and> dir_open fs x' dp'
     | i # is' \<Rightarrow> \<exists>k' dp' x'. ff_findfirst D path p dp fno x = Some (FR_OK, dp', i, x') \<and> listing fs cs N E k' x' dp' \<and> pat dp' = p \<and>
         dir_lists (ent img fs cs) E k' is'"
proof -
  obtain d1 x1 where o: "ff_opendir D path (dp\<lparr>pat := p\<rparr>) x = Some (FR_OK, d1, x1)" "listing fs cs N E 0 x1 d1" "pat d1 = p"
    using ff_opendir_ok[OF assms(1-5), of "dp\<lparr>pat := p\<rparr>"] by auto
  have a: "ff_findfirst D path p dp fno x = ff_findnext D d1 fno x1" using o(1) by (simp add: ff_findfirst_def)
  show ?thesis unfolding a by (rule ff_findnext_lists[OF assms(6,5,7) o(2,3)])
qed

end

end
