(* ===== verification/Fat_Image.thy ===== *)
theory Fat_Image
  imports Fat_Chain Fat_Read
begin

text \<open>
  A small FAT12 image, eight sectors with one sector per cluster: a directory \<open>DCIM\<close>, in it a directory \<open>CAMERA\<close>, and in that
  a file with a long name, \<open>photo one.jpg\<close>, in two clusters, and a file \<open>B.TXT\<close>. It shows that the conditions on an image can hold, and the
  results are applied to it.
\<close>

section \<open>Definitions\<close>

definition sparse512 :: "(nat \<times> byte) list \<Rightarrow> byte list" where
  "sparse512 u = map (\<lambda>i. case map_of u i of None \<Rightarrow> 0 | Some b \<Rightarrow> b) [0..<512]"

text \<open>One sector per cluster, one reserved sector, one table of one sector, 16 root entries, 8 sectors.\<close>

definition fat_boot :: "byte list" where
  "fat_boot = sparse512 [(0, 0xeb), (2, 0x90), (12, 2), (13, 1), (14, 1), (16, 1), (17, 16), (19, 8), (22, 1),
     (54, 0x46), (55, 0x41), (56, 0x54), (510, 0x55), (511, 0xaa)]"

text \<open>Clusters 2 and 3 are the directories, 4 and 5 the file.\<close>

definition fat_table :: "byte list" where
  "fat_table = sparse512 [(0, 0xf8), (1, 0xff), (2, 0xff), (3, 0xff), (4, 0xff), (5, 0xff), (6, 5), (7, 0xf0), (8, 0xff)]"

definition fat_root :: "byte list list" where
  "fat_root = [ascii ''DCIM       '' @ [0x10] @ replicate 14 0 @ [2, 0, 0, 0, 0, 0], replicate 480 0]"

definition fat_dcim :: "byte list list" where
  "fat_dcim = [ascii ''.          '' @ [0x10] @ replicate 14 0 @ [2, 0, 0, 0, 0, 0], ascii ''..         '' @ [0x10] @ replicate 20 0,
     ascii ''CAMERA     '' @ [0x10] @ replicate 14 0 @ [3, 0, 0, 0, 0, 0], replicate 416 0]"

text \<open>The long name entry carries the sum of the short name.\<close>

definition fat_camera :: "byte list list" where
  "fat_camera = [ascii ''.          '' @ [0x10] @ replicate 14 0 @ [3, 0, 0, 0, 0, 0], ascii ''..         '' @ [0x10] @ replicate 14 0 @ [2, 0, 0, 0, 0, 0],
     [0x41, 0x70, 0, 0x68, 0, 0x6f, 0, 0x74, 0, 0x6f, 0, 0x0f, 0, 0xb5, 0x20, 0, 0x6f, 0, 0x6e, 0, 0x65, 0, 0x2e, 0, 0x6a, 0, 0, 0, 0x70, 0, 0x67, 0],
     ascii ''PHOTOO~1JPG'' @ [0x20] @ replicate 14 0 @ [4, 0, 0x58, 2, 0, 0],
     ascii ''B       TXT'' @ [0x20] @ replicate 20 0, replicate 352 0]"

definition fat_secs :: "byte list list" where
  "fat_secs = [fat_boot, fat_table, concat fat_root, concat fat_dcim, concat fat_camera, replicate 512 0x41, replicate 512 0x42,
     replicate 512 0]"

definition fat_img :: "byte list" where "fat_img = concat fat_secs"

definition fat_geo :: fatfs where
  "fat_geo = \<lparr>fs_type = FS_FAT12, drv = 0, n_fats = 1, wflag = 0, fat_id = 0, n_rootdir = 16, csize = 1, n_fatent = 7,
     fat_fsize = 1, volbase = 0, fatbase = 1, dirbase = 2, database = 3, winsect = 0, win = \<lambda>_. 0\<rparr>"

section \<open>The volume of the image\<close>

lemma length_sparse512 [simp]: "length (sparse512 u) = 512"
  by (simp add: sparse512_def)

lemma sparse512_nth [simp]: "i < 512 \<Longrightarrow> sparse512 u ! i = (case map_of u i of None \<Rightarrow> 0 | Some b \<Rightarrow> b)"
  by (simp add: sparse512_def)

lemma length_ascii [simp]: "length (ascii s) = length s"
  by (simp add: ascii_def)

lemmas fat_sector_defs = fat_boot_def fat_table_def fat_root_def fat_dcim_def fat_camera_def

lemma fat_secs_len: "\<forall>b \<in> set fat_secs. length b = 512" "length fat_secs = 8"
  by (simp_all add: fat_secs_def fat_sector_defs)

lemma concat_nth:
  "\<forall>b \<in> set bs. length b = n \<Longrightarrow> k < length bs \<Longrightarrow> i < n \<Longrightarrow> concat bs ! (n * k + i) = bs ! k ! i"
proof (induction bs arbitrary: k)
  case (Cons b bs)
  then show ?case by (cases k) (simp_all add: nth_append)
qed simp

lemma length_concat_const: "\<forall>b \<in> set bs. length b = n \<Longrightarrow> length (concat bs) = n * length bs"
  by (induction bs) simp_all

lemma length_fat_img: "length fat_img = 4096"
  unfolding fat_img_def by (subst length_concat_const[OF fat_secs_len(1)]) (simp add: fat_secs_len(2))

lemma fat_img_nth: "k < 8 \<Longrightarrow> i < 512 \<Longrightarrow> fat_img ! (512 * k + i) = fat_secs ! k ! i"
  unfolding fat_img_def by (rule concat_nth) (simp_all add: fat_secs_len)

lemma fat_sec0: "i < 512 \<Longrightarrow> sector_at fat_img 0 i = fat_boot ! i"
  using fat_img_nth[of 0 i] by (simp add: sector_at_def fat_secs_def)

lemma fat_vbr0: "fat_vbr (sector_at fat_img 0)"
  by (simp add: fat_vbr_def has_sig_def ld_word_def ld_dword_def fat_sec0 fat_boot_def)

lemma fat_bpb: "read_bpb 0 (blank (sector_at fat_img 0)) = (FR_OK, FS_FAT12, (blank (sector_at fat_img 0))\<lparr>n_fats := 1, n_rootdir := 16, csize := 1,
    n_fatent := 7, fat_fsize := 1, fatbase := 1, dirbase := 2, database := 3\<rparr>)"
  by (simp add: read_bpb_def Let_def blank_def ld_word_def ld_dword_def fat_sec0 fat_boot_def vol_consts)

lemma fat_geo_ok: "vol_ok fat_img fat_geo"
  by (auto simp: vol_ok_def geom_def fat_geo_def length_fat_img fat_bytes_def vol_consts intro: exI[of _ 0])

lemma fat_volume_img: "fat_volume fat_img 0 fat_geo"
  unfolding fat_volume_def boots_def
  using fat_vbr0 fat_bpb fat_geo_ok by (simp add: length_fat_img) (simp add: geo_def blank_def fat_geo_def)

lemma fat_at_img: "fat_at fat_img fat_geo 4 = 5" "4088 \<le> fat_at fat_img fat_geo 5" "4088 \<le> fat_at fat_img fat_geo 2" "4088 \<le> fat_at fat_img fat_geo 3"
  using fat_img_nth[of 1 6] fat_img_nth[of 1 7] fat_img_nth[of 1 8] fat_img_nth[of 1 3] fat_img_nth[of 1 4] fat_img_nth[of 1 5]
  by (simp_all add: fat_at_def fat_geo_def Let_def fat_secs_def fat_table_def)

lemma fat_chain_img: "chain fat_img fat_geo [4, 5]" "chain fat_img fat_geo [2]" "chain fat_img fat_geo [3]"
  using fat_at_img by (simp_all add: valid_clust_def fat_geo_def)

end
