(* ===== verification/Fat_Phone.thy ===== *)
theory Fat_Phone
  imports Phone Fat_Walk Fat_Image
begin

text \<open>
  FatFs on the phone: the disk of \<open>diskio.c\<close> as a source of sectors, and what the calls of FatFs and the camera command
  do when the partition \<open>internalsd\<close> on the phone is a FAT volume.
\<close>

section \<open>The disk\<close>

text \<open>The state \<open>h\<close> of the program up to the device and the buffer of the protocol, while the session is open.\<close>

definition sd_ok :: "'d usb \<Rightarrow> ('d \<Rightarrow> bool) \<Rightarrow> byte list \<Rightarrow> 'd st \<Rightarrow> 'd st \<Rightarrow> bool" where
  "sd_ok U ready flash h s \<longleftrightarrow> (\<exists>d m. s = h\<lparr>dev := d, data_buffer := m\<rparr>) \<and> flash_ok U ready flash s"

lemma disk_ops_sel [simp]:
  "dk_status (usb_disk_ops U junk) = disk_status" "dk_initialize (usb_disk_ops U junk) = disk_initialize U junk"
  "dk_read (usb_disk_ops U junk) = disk_read U"
  by (simp_all add: usb_disk_ops_def)

interpretation internalsd: sector_source "usb_disk_ops U junk" "sd_ok U ready flash h" flash
  for U junk ready flash h
proof
  fix s c n assume s: "sd_ok U ready flash h s" and r: "512 * (n + c) \<le> length flash" "512 * c < 2 ^ 32"
  from s have f: "flash_ok U ready flash s" by (simp add: sd_ok_def)
  from s obtain d m where h: "s = h\<lparr>dev := d, data_buffer := m\<rparr>" by (auto simp: sd_ok_def)
  obtain d' m' where "USB_disk_read U (of_nat n) (of_nat c) s = Some (0, take (512 * c) (drop (512 * n) flash), s\<lparr>dev := d', data_buffer := m'\<rparr>)"
    "flash_ok U ready flash (s\<lparr>dev := d', data_buffer := m'\<rparr>)" using USB_disk_read_state[OF f r] by blast
  then show "\<exists>s'. dk_read (usb_disk_ops U junk) 0 (of_nat n) (of_nat c) s = Some (0, take (512 * c) (drop (512 * n) flash), s') \<and>
      sd_ok U ready flash h s'"
    by (auto simp: disk_read_def sd_ok_def h)
next
  show "dk_status (usb_disk_ops U junk) 0 = Some 0" by (simp add: disk_status_def USB_disk_status_def)
next
  fix s assume "sd_ok U ready flash h s"
  then show "length flash \<le> 2 ^ 32" by (simp add: sd_ok_def flash_ok_def)
qed

section \<open>FatFs in the state of the camera command\<close>

text \<open>\<open>sd_at\<close>: the volume \<open>fs\<close> is mounted, with the phone in state \<open>d\<close>.\<close>

definition sd_at :: "'d usb \<Rightarrow> ('d \<Rightarrow> bool) \<Rightarrow> byte list \<Rightarrow> byte \<Rightarrow> fatfs \<Rightarrow> 'd ffx \<Rightarrow> 'd \<Rightarrow> bool" where
  "sd_at U ready flash ct fs x d \<longleftrightarrow>
     serves_flash U ct 0x6000 0x3000 ready flash \<and> ready d \<and> length flash \<le> 2 ^ 32 \<and> vol_ok flash fs \<and>
     geo (ff_fs (fx_ff x)) = geo fs \<and> FatFs (fx_ff x) \<and> drv (ff_fs (fx_ff x)) = 0 \<and> win_ok flash (ff_fs (fx_ff x))"

lemma on_disk_of_sel [simp]: "ff_disk (on_disk_of x s) = s" "ff_fs (on_disk_of x s) = ff_fs (fx_ff x)" "FatFs (on_disk_of x s) = FatFs (fx_ff x)"
  "LfnBuf (on_disk_of x s) = LfnBuf (fx_ff x)" "Fsid (on_disk_of x s) = Fsid (fx_ff x)"
  by (simp_all add: on_disk_of_def)

lemma sd_at_volume:
  assumes "checksum_type s = ct"
  shows "sd_at U ready flash ct fs x (dev s) \<longleftrightarrow> internalsd.on_volume U ready flash s fs (on_disk_of x s)"
proof -
  have "\<exists>d m. s = s\<lparr>dev := d, data_buffer := m\<rparr>" by (intro exI[of _ "dev s"] exI[of _ "data_buffer s"]) simp
  then show ?thesis using assms
    by (auto simp: sd_at_def internalsd.on_volume_def internalsd.src_def sd_ok_def flash_ok_def)
qed

text \<open>After a call: the phone moved on, the rest of the program state is as it was.\<close>

lemma sd_at_after:
  assumes "internalsd.on_volume U ready flash s fs f" "checksum_type s = ct" "fx_ff x' = f"
  shows "\<exists>d m. ff_disk f = s\<lparr>dev := d, data_buffer := m\<rparr> \<and> sd_at U ready flash ct fs x' d"
proof -
  obtain d m where d: "ff_disk f = s\<lparr>dev := d, data_buffer := m\<rparr>" "flash_ok U ready flash (ff_disk f)"
    using assms(1) by (auto simp: internalsd.on_volume_def internalsd.src_def sd_ok_def)
  then have "sd_at U ready flash ct fs x' d"
    using assms by (auto simp: sd_at_def internalsd.on_volume_def internalsd.src_def flash_ok_def)
  with d(1) show ?thesis by blast
qed

section \<open>Mounting\<close>

text \<open>The phone accepts the session of the partition.\<close>

definition sd_opens :: "'d usb \<Rightarrow> ('d \<Rightarrow> bool) \<Rightarrow> byte list \<Rightarrow> 'd st \<Rightarrow> bool" where
  "sd_opens U ready flash s \<longleftrightarrow>
     (\<exists>d. starts U (checksum_type s) 20 internalsd_partition (dev s) d \<and> flash_ok U ready flash (s\<lparr>dev := d\<rparr>))"

lemma disk_initialize_ok:
  assumes "sd_opens U ready flash s"
  obtains d where "disk_initialize U junk 0 s = Some (0, s\<lparr>dev := d\<rparr>)" "sd_ok U ready flash s (s\<lparr>dev := d\<rparr>)"
proof -
  obtain d where d: "starts U (checksum_type s) 20 internalsd_partition (dev s) d" "flash_ok U ready flash (s\<lparr>dev := d\<rparr>)"
    using assms by (auto simp: sd_opens_def)
  have "s\<lparr>dev := d\<rparr> = s\<lparr>dev := d, data_buffer := data_buffer s\<rparr>" by simp
  with d(2) have ok: "sd_ok U ready flash s (s\<lparr>dev := d\<rparr>)" unfolding sd_ok_def by blast
  have "disk_initialize U junk 0 s = Some (0, s\<lparr>dev := d\<rparr>)"
    using send_start_ok[OF d(1) internalsd_no_escape] by (simp add: disk_initialize_def USB_disk_initialize_def)
  then show ?thesis using ok by (rule that)
qed

lemma find_volume_mounts:
  assumes "sd_opens U ready flash s" "fat_volume flash b g" "FatFs f" "fs_type (ff_fs f) = 0" "ff_disk f = s"
    and "get_ldnumber path = (0, rest)"
  shows "\<exists>f'. find_volume (usb_disk_ops U junk) path f = Some (FR_OK, rest, f') \<and>
    internalsd.on_volume U ready flash s (g\<lparr>fat_id := Fsid f + 1\<rparr>) f'"
proof -
  obtain d where d: "disk_initialize U junk 0 s = Some (0, s\<lparr>dev := d\<rparr>)" "sd_ok U ready flash s (s\<lparr>dev := d\<rparr>)"
    using disk_initialize_ok[OF assms(1)] by blast
  have g: "geo (g\<lparr>fat_id := Fsid f + 1\<rparr>) = g\<lparr>fat_id := Fsid f + 1\<rparr>" "vol_ok flash g"
    using assms(2) by (auto simp: fat_volume_def geo_def)
  have "dk_initialize (usb_disk_ops U junk) 0 (ff_disk f) = Some (0, s\<lparr>dev := d\<rparr>)" using d(1) assms(5) by simp
  from internalsd.mount_volume_ok[OF this d(2) assms(2)] obtain f' where f':
    "mount_volume (usb_disk_ops U junk) 0 f = Some (FR_OK, f')" "internalsd.src U ready flash s f'"
    "core f' = (FatFs f, Fsid f + 1, LfnBuf f, g\<lparr>fat_id := Fsid f + 1\<rparr>)" by blast
  then have "internalsd.on_volume U ready flash s (g\<lparr>fat_id := Fsid f + 1\<rparr>) f'"
    using g assms(3) by (simp add: internalsd.on_volume_def core_def)
  moreover have "find_volume (usb_disk_ops U junk) path f = Some (FR_OK, rest, f')"
    using f'(1) assms(3,4,6) by (simp add: find_volume_def)
  ultimately show ?thesis by blast
qed

section \<open>Paths of the camera command\<close>

definition camera_path :: "byte list" where "camera_path = ascii ''/DCIM/Camera''"

lemma of_char_byte: "of_char (char_of (unat b)) = (b :: byte)"
  by (use unat_less[of b] in \<open>simp add: word_unat_eq_iff unat_of_char of_char_of\<close>)

lemma ascii_chars [simp]: "ascii (chars bs) = bs"
  by (simp add: ascii_def chars_def comp_def of_char_byte)

lemma ascii_append: "ascii (xs @ ys) = ascii xs @ ascii ys"
  by (simp add: ascii_def)

lemma camera_numbers:
  "get_ldnumber (ascii ''0:/DCIM/Camera'') = (0, camera_path)"
  "get_ldnumber (ascii (''0:/DCIM/Camera/'' @ chars nm)) = (0, camera_path @ 0x2f # nm)"
  by (simp add: get_ldnumber_def camera_path_def str_hd_def ascii_def)
    (simp only: ascii_append ascii_chars, simp add: get_ldnumber_def camera_path_def str_hd_def ascii_def)

section \<open>Copying a file\<close>

text \<open>The file in the clusters \<open>cs\<close> is open at position \<open>p\<close>; the directory object is \<open>dj\<close>.\<close>

definition photo_at ::
  "'d usb \<Rightarrow> ('d \<Rightarrow> bool) \<Rightarrow> byte list \<Rightarrow> byte \<Rightarrow> fatfs \<Rightarrow> dir \<Rightarrow> nat list \<Rightarrow> nat \<Rightarrow> 'd ffx \<Rightarrow> 'd \<Rightarrow> nat \<Rightarrow> bool" where
  "photo_at U ready flash ct fs dj cs sz x d p \<longleftrightarrow> sd_at U ready flash ct fs x d \<and> fx_dj x = dj \<and>
     at_pos flash fs cs sz p (fx_fil x) \<and> internalsd.readable (fx_ff x) (fx_fil x)"

lemma readable_disk [simp]: "internalsd.readable (on_disk_of x s) = internalsd.readable (fx_ff x)"
  by (simp add: internalsd.readable_def fun_eq_iff)

lemma photo_open:
  assumes "checksum_type s = ct"
  shows "photo_at U ready flash ct fs dj cs sz x (dev s) p \<longleftrightarrow>
    internalsd.file_open U ready flash s fs cs sz p (on_disk_of x s) (fx_fil x) \<and> fx_dj x = dj"
  by (auto simp: photo_at_def internalsd.file_open_def sd_at_volume[OF assms])

lemma photo_length:
  assumes "photo_at U ready flash ct fs dj cs sz x d p"
  shows "length (file_bytes flash fs cs sz) = sz"
proof -
  have "at_pos flash fs cs sz p (fx_fil x)" "vol_ok flash fs" using assms by (simp_all add: photo_at_def sd_at_def)
  with at_posD(2,3)[OF this(1)] show ?thesis by (simp add: file_bytes_def length_chain_bytes)
qed

lemma photo_reads:
  assumes "length (file_bytes flash fs cs sz) = sz"
  shows "reads_file ct (f_read (ff_ops U junk dj0) 0x3000) (photo_at U ready flash ct fs dj cs sz)
    (\<lambda>x d. \<exists>p. photo_at U ready flash ct fs dj cs sz x d p) (file_bytes flash fs cs sz)"
  unfolding reads_file_def
proof (intro allI impI)
  fix x and s :: "'a st" and p
  let ?c = "file_bytes flash fs cs sz" and ?n = "min 0x3000 (sz - p)"
  assume ct: "checksum_type s = ct" and pos: "photo_at U ready flash ct fs dj cs sz x (dev s) p" and p: "p \<le> length ?c"
  from pos have o: "internalsd.file_open U ready flash s fs cs sz p (on_disk_of x s) (fx_fil x)" "fx_dj x = dj"
    by (simp_all add: photo_open[OF ct])
  from internalsd.ff_read_open[OF o(1), where junk = junk and btr = "of_nat 0x3000" and buff = "fx_buf x"] obtain fp f where r:
    "ff_read (usb_disk_ops U junk) (of_nat 0x3000) (fx_fil x) (fx_buf x) (on_disk_of x s) =
       Some (FR_OK, of_nat ?n, fp, mem_put (fx_buf x) 0 (take ?n (drop p ?c)), f)"
    "internalsd.file_open U ready flash s fs cs sz (p + ?n) f fp" by (auto simp: Let_def)
  let ?x = "x\<lparr>fx_fil := fp, fx_buf := mem_put (fx_buf x) 0 (take ?n (drop p ?c)), fx_ff := f\<rparr>"
  have v: "internalsd.on_volume U ready flash s fs f" "at_pos flash fs cs sz (p + ?n) fp" "internalsd.readable f fp"
    using r(2) by (simp_all add: internalsd.file_open_def)
  obtain d m where d: "ff_disk f = s\<lparr>dev := d, data_buffer := m\<rparr>" "sd_at U ready flash ct fs ?x d"
    using sd_at_after[OF v(1) ct, of ?x] by fastforce
  have len: "length (take ?n (drop p ?c)) = ?n" using assms by simp
  have "unat (of_nat ?n :: u32) = ?n" by (simp add: unat_of_nat)
  moreover have "mem_get (mem_put (fx_buf x) 0 (take ?n (drop p ?c))) 0 ?n = take ?n (drop p ?c)"
    using mem_get_put_all[of "fx_buf x" 0 "take ?n (drop p ?c)"] len by simp
  ultimately have "f_read (ff_ops U junk dj0) 0x3000 x s = Some (0, take ?n (drop p ?c), ?x, s\<lparr>dev := d, data_buffer := m\<rparr>)"
    using r(1) d(1) by (simp add: ff_ops_def Let_def)
  moreover have "photo_at U ready flash ct fs dj cs sz ?x d (p + ?n)" using v d(2) o(2) by (simp add: photo_at_def)
  ultimately show "\<exists>n x' d m. f_read (ff_ops U junk dj0) 0x3000 x s = Some (0, take n (drop p ?c), x', s\<lparr>dev := d, data_buffer := m\<rparr>) \<and>
      (if p < length ?c then 0 < n \<and> photo_at U ready flash ct fs dj cs sz x' d (p + length (take n (drop p ?c)))
       else \<exists>p. photo_at U ready flash ct fs dj cs sz x' d p)"
    using p assms len by (intro exI[of _ ?n] exI[of _ ?x] exI[of _ d] exI[of _ m]) auto
qed

text \<open>The local file of a photo.\<close>

definition camera_dest :: "byte list \<Rightarrow> string" where
  "camera_dest nm = ''./syberos_camera/'' @ chars nm"

lemma length_chars [simp]: "length (chars nm) = length nm"
  by (simp add: chars_def)

text \<open>What \<open>camera_file\<close> does with one name, above any state it leaves alone.\<close>

lemma camera_file_ok:
  assumes ct: "checksum_type s = ct" and at: "sd_at U ready flash ct fs x (dev s)"
    and e: "path_entry flash fs (camera_path @ 0x2f # nm) e" "file_entry flash fs e cs sz" and nm: "length nm \<le> 82"
    and host: "\<not> denied s (camera_dest nm)" "\<not> nonreg s (camera_dest nm)" "sz \<le> space s"
  shows "\<exists>x' d m. camera_file (ff_ops U junk dj0) (chars nm) x s = Some (Inr (), x',
      s\<lparr>files := (files s)(camera_dest nm \<mapsto> file_bytes flash fs cs sz), space := space s - sz, dev := d, data_buffer := m\<rparr>) \<and>
    sd_at U ready flash ct fs x' d \<and> fx_dj x' = fx_dj x"
proof -
  let ?D = "usb_disk_ops U junk" and ?F = "ff_ops U junk dj0" and ?c = "file_bytes flash fs cs sz" and ?t = "camera_dest nm"
  let ?P = "ascii (''0:/DCIM/Camera/'' @ chars nm)"
  let ?s1 = "s\<lparr>files := (files s)(?t \<mapsto> []), fds := Suc (fds s)\<rparr>"
  have 1: "open_wr ?t s = (True, ?s1)" using host by (simp add: open_wr_def)
  have v1: "internalsd.on_volume U ready flash ?s1 fs (on_disk_of x ?s1)" using at ct sd_at_volume[of ?s1 ct] by simp
  from internalsd.ff_open_ok[OF internalsd.find_volume_mounted[OF v1 camera_numbers(2), where junk = junk] v1 e, where dj = dj0 and fp = "fx_fil x"]
  obtain fp f where o: "ff_open ?D dj0 ?P FA_READ (fx_fil x) (on_disk_of x ?s1) = Some (FR_OK, fp, f)"
    "internalsd.on_volume U ready flash ?s1 fs f" "at_pos flash fs cs sz 0 fp" "internalsd.readable f fp" by blast
  let ?x2 = "x\<lparr>fx_fil := fp, fx_ff := f\<rparr>"
  obtain d2 m2 where d2: "ff_disk f = ?s1\<lparr>dev := d2, data_buffer := m2\<rparr>" "sd_at U ready flash ct fs ?x2 d2"
    using sd_at_after[OF o(2), of ct ?x2] ct by fastforce
  let ?s2 = "?s1\<lparr>dev := d2, data_buffer := m2\<rparr>"
  have 2: "f_open ?F (''0:/DCIM/Camera/'' @ chars nm) x ?s1 = Some (0, ?x2, ?s2)"
    using o(1) d2(1) by (simp add: ff_ops_def Let_def)
  have ph: "photo_at U ready flash ct fs (fx_dj x) cs sz ?x2 (dev ?s2) 0" using o(3,4) d2(2) by (simp add: photo_at_def)
  note len = photo_length[OF ph]
  have fsz: "f_size ?F ?x2 \<noteq> 0 \<or> 0 = length ?c"
    using at_posD(4)[OF o(3)] len by (auto simp: ff_ops_def Let_def)
  have ct2: "checksum_type ?s2 = ct" using ct by simp
  have rd: "reads_file ct (f_read ?F 0x3000) (photo_at U ready flash ct fs (fx_dj x) cs sz)
      (\<lambda>y d. \<exists>p. photo_at U ready flash ct fs (fx_dj x) cs sz y d p) ?c" by (rule photo_reads[OF len])
  obtain x3 d3 m3 p where 3: "copy_loop (f_read ?F 0x3000) (f_size ?F ?x2) ?t ?x2 ?s2 =
      Some (Inr 0, x3, ?s2\<lparr>dev := d3, data_buffer := m3, files := (files ?s2)(?t \<mapsto> [] @ drop 0 ?c), space := space ?s2 - (length ?c - 0)\<rparr>)"
    "photo_at U ready flash ct fs (fx_dj x) cs sz x3 d3 p"
    using copy_loop_ok[OF rd ct2 ph _ fsz, of ?t "[]"] host(3) len by auto
  let ?s3 = "?s2\<lparr>dev := d3, data_buffer := m3, files := (files ?s2)(?t \<mapsto> [] @ drop 0 ?c), space := space ?s2 - (length ?c - 0)\<rparr>"
  have "internalsd.file_open U ready flash ?s3 fs cs sz p (on_disk_of x3 ?s3) (fx_fil x3)"
    using 3(2) ct photo_open[of ?s3 ct] by simp
  from internalsd.ff_close_ok[OF this, where junk = junk]
  obtain fp4 where 4: "f_close ?F x3 ?s3 = Some (0, x3\<lparr>fx_fil := fp4\<rparr>, ?s3)" by (auto simp: ff_ops_def Let_def)
  have 5: "snd (close_fd ?s3) = s\<lparr>files := (files s)(?t \<mapsto> ?c), space := space s - sz, dev := d3, data_buffer := m3\<rparr>"
    using len by (simp add: close_fd_def)
  have "camera_file ?F (chars nm) x s = Some (Inr (), x3\<lparr>fx_fil := fp4\<rparr>, snd (close_fd ?s3))"
    using 1 2 3(1) 4 nm unfolding camera_file_def Let_def camera_dest_def by simp
  then show ?thesis unfolding 5 using 3(2)
    by (intro exI[of _ "x3\<lparr>fx_fil := fp4\<rparr>"] exI[of _ d3] exI[of _ m3]) (simp add: photo_at_def sd_at_def)
qed

section \<open>The camera command\<close>

text \<open>The directory \<open>/DCIM/Camera\<close> of a volume lists \<open>is\<close>; the file \<open>nm\<close> in it has contents \<open>c\<close> (and a name that
  fits the arrays of the command).\<close>

definition camera_dir :: "byte list \<Rightarrow> fatfs \<Rightarrow> filinfo list \<Rightarrow> bool" where
  "camera_dir img fs is \<longleftrightarrow> (\<exists>e cs N E. path_entry img fs camera_path e \<and> (e 11 AND AM_MASK) AND AM_DIR \<noteq> 0 \<and>
     dir_holds img fs (ld_clust fs e) cs N E \<and> dir_lists (ent img fs cs) E 0 is)"

definition photo :: "byte list \<Rightarrow> fatfs \<Rightarrow> byte list \<Rightarrow> byte list \<Rightarrow> bool" where
  "photo img fs nm c \<longleftrightarrow> length nm \<le> 82 \<and>
     (\<exists>e cs. path_entry img fs (camera_path @ 0x2f # nm) e \<and> file_entry img fs e cs (length c) \<and> c = file_bytes img fs cs (length c))"

definition jpg :: "byte list" where "jpg = ascii ''*.jpg''"

definition jpg_names :: "filinfo list \<Rightarrow> byte list list" where
  "jpg_names is = map fi_fname (filter (\<lambda>i. glob jpg (fi_fname i)) is)"

definition saved :: "(byte list \<Rightarrow> byte list) \<Rightarrow> byte list list \<Rightarrow> (string \<rightharpoonup> byte list) \<Rightarrow> (string \<rightharpoonup> byte list)" where
  "saved con names fls = fold (\<lambda>nm fls. fls(camera_dest nm \<mapsto> con nm)) names fls"

definition host_takes :: "(byte list \<Rightarrow> byte list) \<Rightarrow> byte list list \<Rightarrow> 'd st \<Rightarrow> bool" where
  "host_takes con names s \<longleftrightarrow> (\<forall>nm \<in> set names. \<not> denied s (camera_dest nm) \<and> \<not> nonreg s (camera_dest nm)) \<and>
     (\<Sum>nm\<leftarrow>names. length (con nm)) \<le> space s"

lemma next_match_names:
  "(case next_match jpg is of [] \<Rightarrow> jpg_names is = []
    | i # is' \<Rightarrow> jpg_names is = fi_fname i # jpg_names is' \<and> length is' < length is)"
proof (induction "is")
  case (Cons i "is")
  show ?case
  proof (cases "glob jpg (fi_fname i)")
    case True
    then show ?thesis by (simp add: next_match_def jpg_names_def)
  next
    case False
    then have "next_match jpg (i # is) = next_match jpg is" "jpg_names (i # is) = jpg_names is"
      by (simp_all add: next_match_def jpg_names_def)
    then show ?thesis using Cons by (auto split: list.splits)
  qed
qed (simp add: next_match_def jpg_names_def)

lemma photo_any_id: "photo img fs nm c \<Longrightarrow> photo img (fs\<lparr>fat_id := n\<rparr>) nm c"
  by (auto simp: photo_def intro: path_entry_any_id)

lemma jpg_0: "0 \<notin> set jpg"
  by (simp add: jpg_def ascii_def)

lemma listing_iff:
  assumes "checksum_type s = ct"
  shows "internalsd.listing U ready flash s fs cs N E k (on_disk_of x s) dp \<longleftrightarrow>
    sd_at U ready flash ct fs x (dev s) \<and> dir_pos flash fs cs N E k dp \<and> obj_fs (dobj dp) \<and> obj_id (dobj dp) = fat_id fs"
  using sd_at_volume[OF assms] by (auto simp: internalsd.listing_def)

text \<open>The result of searching for the next photo, as the command sees it.\<close>

definition searched ::
  "'d usb \<Rightarrow> ('d \<Rightarrow> bool) \<Rightarrow> byte list \<Rightarrow> byte \<Rightarrow> fatfs \<Rightarrow> nat list \<Rightarrow> nat \<Rightarrow> nat \<Rightarrow> byte list list \<Rightarrow> 'd st \<Rightarrow>
     (int \<times> string \<times> 'd ffx \<times> 'd st) option \<Rightarrow> bool" where
  "searched U ready flash ct fs cs N E names s r \<longleftrightarrow>
     (\<exists>nm x' d m. r = Some (0, chars nm, x', s\<lparr>dev := d, data_buffer := m\<rparr>) \<and> sd_at U ready flash ct fs x' d \<and>
        (case names of [] \<Rightarrow> nm = []
         | n # ns \<Rightarrow> nm = n \<and> nm \<noteq> [] \<and> (\<exists>k is. dir_pos flash fs cs N E k (fx_dj x') \<and> obj_fs (dobj (fx_dj x')) \<and> obj_id (dobj (fx_dj x')) = fat_id fs \<and>
             pat (fx_dj x') = jpg \<and> dir_lists (ent flash fs cs) E k is \<and> ns = jpg_names is)))"

lemma lists_named: "dir_lists e E k is \<Longrightarrow> \<forall>i \<in> set is. fi_fname i \<noteq> []"
  by (induction rule: dir_lists.induct) auto

lemma next_match_mem: "next_match p is = i # is' \<Longrightarrow> i \<in> set is"
  unfolding next_match_def by (metis dropWhile_eq_Cons_conv in_set_conv_decomp)

text \<open>A search by FatFs, put into the state of the command.\<close>

lemma searched_by:
  assumes ct: "checksum_type s = ct" and l: "dir_lists (ent flash fs cs) E k is"
    and r: "case next_match jpg is of
       [] \<Rightarrow> \<exists>dp' fno' f. q = Some (FR_OK, dp', fno', f) \<and> fi_fname fno' = [] \<and> internalsd.dir_open U ready flash s fs f dp'
     | i # is' \<Rightarrow> \<exists>k' dp' f. q = Some (FR_OK, dp', i, f) \<and> internalsd.listing U ready flash s fs cs N E k' f dp' \<and> pat dp' = jpg \<and>
         dir_lists (ent flash fs cs) E k' is'"
  shows "searched U ready flash ct fs cs N E (jpg_names is) s
    (map_option (\<lambda>(r, n, dp, fno, f). (r, n, x\<lparr>fx_dj := dp, fx_fno := fno, fx_ff := f\<rparr>, ff_disk f))
      (map_option (\<lambda>(r, dp, fno, f). (fres r, chars (fi_fname fno), dp, fno, f)) q))"
proof (cases "next_match jpg is")
  case Nil
  then obtain dp' fno' f where q: "q = Some (FR_OK, dp', fno', f)" "fi_fname fno' = []" "internalsd.on_volume U ready flash s fs f"
    using r by (auto simp: internalsd.dir_open_def)
  let ?x = "x\<lparr>fx_dj := dp', fx_fno := fno', fx_ff := f\<rparr>"
  obtain d m where "ff_disk f = s\<lparr>dev := d, data_buffer := m\<rparr>" "sd_at U ready flash ct fs ?x d"
    using sd_at_after[OF q(3) ct, of ?x] by fastforce
  then show ?thesis using q(1,2) next_match_names[of "is"] Nil unfolding searched_def
    by (intro exI[of _ "[]"] exI[of _ ?x] exI[of _ d] exI[of _ m]) simp
next
  case (Cons i is')
  then obtain k' dp' f where q: "q = Some (FR_OK, dp', i, f)" "internalsd.listing U ready flash s fs cs N E k' f dp'" "pat dp' = jpg"
    "dir_lists (ent flash fs cs) E k' is'" using r by auto
  have v: "internalsd.on_volume U ready flash s fs f" using q(2) by (simp add: internalsd.listing_def)
  let ?x = "x\<lparr>fx_dj := dp', fx_fno := i, fx_ff := f\<rparr>"
  obtain d m where "ff_disk f = s\<lparr>dev := d, data_buffer := m\<rparr>" "sd_at U ready flash ct fs ?x d"
    using sd_at_after[OF v ct, of ?x] by fastforce
  moreover have "fi_fname i \<noteq> []" using lists_named[OF l] next_match_mem[OF Cons] by blast
  ultimately show ?thesis using q next_match_names[of "is"] Cons unfolding searched_def
    by (intro exI[of _ "fi_fname i"] exI[of _ ?x] exI[of _ d] exI[of _ m]) (auto simp: internalsd.listing_def)
qed

text \<open>The loop over the photos: with one found, it copies that and all that follow.\<close>

lemma camera_loop_ok:
  assumes h: "dir_holds flash fs c0 cs N E"
  shows "checksum_type s = ct \<Longrightarrow> searched U ready flash ct fs cs N E names s0 (Some (0, fname, x, s)) \<Longrightarrow>
    \<forall>nm \<in> set names. photo flash fs nm (con nm) \<Longrightarrow> host_takes con names s \<Longrightarrow>
    \<exists>x' d m. camera_loop (ff_ops U junk dj0) 0 fname x s = Some (Inr 0, x',
      s\<lparr>files := saved con names (files s), space := space s - (\<Sum>nm\<leftarrow>names. length (con nm)), dev := d, data_buffer := m\<rparr>) \<and>
      sd_at U ready flash ct fs x' d"
proof (induction names arbitrary: fname x s s0)
  case Nil
  then have "fname = []" "sd_at U ready flash ct fs x (dev s)" by (auto simp: searched_def chars_def)
  then show ?case
    by (subst camera_loop.simps) (intro exI[of _ x] exI[of _ "dev s"] exI[of _ "data_buffer s"], simp add: saved_def)
next
  case (Cons nm names)
  let ?F = "ff_ops U junk dj0" and ?D = "usb_disk_ops U junk" and ?c = "con nm"
  from Cons.prems(2) obtain k "is" where f: "fname = chars nm" "nm \<noteq> []" "sd_at U ready flash ct fs x (dev s)"
    "dir_pos flash fs cs N E k (fx_dj x)" "obj_fs (dobj (fx_dj x))" "obj_id (dobj (fx_dj x)) = fat_id fs" "pat (fx_dj x) = jpg"
    "dir_lists (ent flash fs cs) E k is" "names = jpg_names is" by (auto simp: searched_def)
  obtain e fcs where ph: "length nm \<le> 82" "path_entry flash fs (camera_path @ 0x2f # nm) e" "file_entry flash fs e fcs (length ?c)"
    "?c = file_bytes flash fs fcs (length ?c)" using Cons.prems(3) by (auto simp: photo_def)
  have ho: "\<not> denied s (camera_dest nm)" "\<not> nonreg s (camera_dest nm)" "length ?c \<le> space s"
    using Cons.prems(4) by (simp_all add: host_takes_def)
  let ?s1 = "\<lambda>d m. s\<lparr>files := (files s)(camera_dest nm \<mapsto> ?c), space := space s - length ?c, dev := d, data_buffer := m\<rparr>"
  obtain x1 d1 m1 where 1: "camera_file ?F (chars nm) x s = Some (Inr (), x1, ?s1 d1 m1)" "sd_at U ready flash ct fs x1 d1" "fx_dj x1 = fx_dj x"
    using camera_file_ok[OF Cons.prems(1) f(3) ph(2,3,1) ho, of junk dj0] unfolding ph(4)[symmetric] by blast
  have ct1: "checksum_type (?s1 d1 m1) = ct" using Cons.prems(1) by simp
  have l: "internalsd.listing U ready flash (?s1 d1 m1) fs cs N E k (on_disk_of x1 (?s1 d1 m1)) (fx_dj x1)"
    using 1(2,3) f(4-6) ct1 by (simp add: listing_iff)
  have p: "pat (fx_dj x1) = jpg" using 1(3) f(7) by simp
  have sr: "searched U ready flash ct fs cs N E names (?s1 d1 m1) (f_findnext ?F x1 (?s1 d1 m1))"
    using searched_by[OF ct1 f(8) internalsd.ff_findnext_lists[OF f(8) h jpg_0 l p, where junk = junk and fno = "fx_fno x1"], of x1]
    unfolding f(9) by (simp add: ff_ops_def Let_def)
  then obtain nm2 x2 d2 m2 where eq: "f_findnext ?F x1 (?s1 d1 m1) = Some (0, chars nm2, x2, (?s1 d1 m1)\<lparr>dev := d2, data_buffer := m2\<rparr>)"
    unfolding searched_def by blast
  obtain n2 where 2: "f_findnext ?F x1 (?s1 d1 m1) = Some (0, n2, x2, ?s1 d2 m2)"
    "searched U ready flash ct fs cs N E names (?s1 d1 m1) (Some (0, n2, x2, ?s1 d2 m2))"
    using sr unfolding eq by simp
  have ho2: "host_takes con names (?s1 d2 m2)" using Cons.prems(4) by (auto simp: host_takes_def)
  have ct2: "checksum_type (?s1 d2 m2) = ct" and ph2: "\<forall>nm \<in> set names. photo flash fs nm (con nm)"
    using Cons.prems(1,3) by simp_all
  from Cons.IH[OF ct2 2(2) ph2 ho2] obtain x3 d3 m3 where 3: "camera_loop ?F 0 n2 x2 (?s1 d2 m2) = Some (Inr 0, x3,
      (?s1 d2 m2)\<lparr>files := saved con names (files (?s1 d2 m2)), space := space (?s1 d2 m2) - (\<Sum>nm\<leftarrow>names. length (con nm)), dev := d3, data_buffer := m3\<rparr>)"
    "sd_at U ready flash ct fs x3 d3" by blast
  have "camera_loop ?F 0 fname x s = camera_loop ?F 0 n2 x2 (?s1 d2 m2)"
    using f(1,2) 1(1) 2(1) by (subst camera_loop.simps) (auto simp: chars_def)
  with 3 show ?case
    by (intro exI[of _ x3] exI[of _ d3] exI[of _ m3]) (simp add: saved_def)
qed

text \<open>The whole command: it mounts the volume, searches \<open>/DCIM/Camera\<close> for photos, copies every one and ends the session.\<close>

lemma ff_mount_later: "f_mount (ff_ops U junk dj0) x = x\<lparr>fx_ff := (fx_ff x)\<lparr>ff_fs := (ff_fs (fx_ff x))\<lparr>fs_type := 0\<rparr>, FatFs := True\<rparr>\<rparr>"
  by (simp add: ff_ops_def ff_mount_def Let_def get_ldnumber_def ascii_def str_hd_def)

lemma camera_search_ok:
  assumes o: "sd_opens U ready flash s" and vol: "fat_volume flash b g" and dir: "camera_dir flash g is"
  shows "\<exists>fs c0 cs N E. (\<exists>n. fs = g\<lparr>fat_id := n\<rparr>) \<and> dir_holds flash fs c0 cs N E \<and>
    searched U ready flash (checksum_type s) fs cs N E (jpg_names is) s (f_findfirst (ff_ops U junk dj0) (f_mount (ff_ops U junk dj0) x) s)"
proof -
  let ?x = "f_mount (ff_ops U junk dj0) x" and ?fs = "g\<lparr>fat_id := Fsid (fx_ff x) + 1\<rparr>"
  obtain f where f: "find_volume (usb_disk_ops U junk) (ascii ''0:/DCIM/Camera'') (on_disk_of ?x s) = Some (FR_OK, camera_path, f)"
    "internalsd.on_volume U ready flash s ?fs f"
    using find_volume_mounts[OF o vol _ _ _ camera_numbers(1), of "on_disk_of ?x s"] by (auto simp: ff_mount_later)
  obtain e cs N E where d: "path_entry flash g camera_path e" "(e 11 AND AM_MASK) AND AM_DIR \<noteq> 0"
    "dir_holds flash g (ld_clust g e) cs N E" "dir_lists (ent flash g cs) E 0 is" using dir by (auto simp: camera_dir_def)
  then have d': "path_entry flash ?fs camera_path e" "dir_holds flash ?fs (ld_clust ?fs e) cs N E" "dir_lists (ent flash ?fs cs) E 0 is"
    by (simp_all add: path_entry_any_id)
  have "searched U ready flash (checksum_type s) ?fs cs N E (jpg_names is) s (f_findfirst (ff_ops U junk dj0) ?x s)"
    using searched_by[OF refl d'(3) internalsd.ff_findfirst_ok[OF f d'(1) d(2) d'(2,3) jpg_0, where dp = "fx_dj ?x" and fno = "fx_fno ?x"], of ?x]
    unfolding jpg_def by (simp add: ff_ops_def Let_def)
  then show ?thesis using d'(2) by blast
qed

lemma sprd_read_camera_ok:
  assumes o: "sd_opens U ready flash s" and fin: "\<And>d. ready d \<Longrightarrow> \<exists>d'. acks U (checksum_type s) (bsl BSL_CMD_READ_FLASH_END) d d'"
    and vol: "fat_volume flash b g" "camera_dir flash g is" and ph: "\<forall>nm \<in> set (jpg_names is). photo flash g nm (con nm)"
    and host: "sys (malloc s0) = (0, malloc s)" "host_takes con (jpg_names is) s" and heap: "heap_ok s0"
  shows "\<exists>x' d m. sprd_read_camera U (ff_ops U junk dj0) sys x s0 = Some (0, x',
    s\<lparr>files := saved con (jpg_names is) (files s), space := space s - (\<Sum>nm\<leftarrow>jpg_names is. length (con nm)), dev := d, data_buffer := m\<rparr>)"
proof -
  let ?F = "ff_ops U junk dj0" and ?s = "malloc s"
  have o': "sd_opens U ready flash ?s" using o by (simp add: sd_opens_def flash_ok_def malloc_def)
  obtain fs c0 cs N E where f: "\<exists>n. fs = g\<lparr>fat_id := n\<rparr>" "dir_holds flash fs c0 cs N E"
    "searched U ready flash (checksum_type ?s) fs cs N E (jpg_names is) ?s (f_findfirst ?F (f_mount ?F x) ?s)"
    using camera_search_ok[OF o' vol, of junk dj0 x] by metis
  then obtain nm x1 d1 m1 where 1: "f_findfirst ?F (f_mount ?F x) ?s = Some (0, chars nm, x1, ?s\<lparr>dev := d1, data_buffer := m1\<rparr>)"
    unfolding searched_def by blast
  let ?s1 = "?s\<lparr>dev := d1, data_buffer := m1\<rparr>"
  have ct: "checksum_type ?s1 = checksum_type ?s" by simp
  have ph': "\<forall>nm \<in> set (jpg_names is). photo flash fs nm (con nm)" using ph f(1) photo_any_id by blast
  have ho: "host_takes con (jpg_names is) ?s1" using host(2) by (simp add: host_takes_def malloc_def)
  obtain x2 d2 m2 where 2: "camera_loop ?F 0 (chars nm) x1 ?s1 = Some (Inr 0, x2,
      ?s1\<lparr>files := saved con (jpg_names is) (files ?s1), space := space ?s1 - (\<Sum>nm\<leftarrow>jpg_names is. length (con nm)), dev := d2, data_buffer := m2\<rparr>)"
    "sd_at U ready flash (checksum_type ?s) fs x2 d2"
    using camera_loop_ok[OF f(2) ct f(3)[unfolded 1] ph' ho] by blast
  let ?s2 = "?s1\<lparr>files := saved con (jpg_names is) (files ?s1), space := space ?s1 - (\<Sum>nm\<leftarrow>jpg_names is. length (con nm)), dev := d2, data_buffer := m2\<rparr>"
  have "ready d2" using 2(2) by (simp add: sd_at_def)
  with fin obtain d3 where "acks U (checksum_type s) (bsl BSL_CMD_READ_FLASH_END) d2 d3" by blast
  then have "acks U (checksum_type ?s2) (bsl BSL_CMD_READ_FLASH_END) (dev ?s2) d3" by (simp add: malloc_def)
  from send_end_ok[OF this] obtain m3 where 3: "disk_ioctl U 0 1 ?s2 = Some (0, ?s2\<lparr>dev := d3, data_buffer := m3\<rparr>)"
    by (auto simp: disk_ioctl_def USB_disk_ioctl_def)
  have not0: "\<not> ((0::int) \<noteq> 0)" by simp
  have bind_simps: "\<And>v f. Option.bind (Some v) f = f v" by simp
  have "sprd_read_camera U ?F sys x s0 = Some (0, f_closedir ?F x2, free (?s2\<lparr>dev := d3, data_buffer := m3\<rparr>))"
    unfolding sprd_read_camera_def if_not_P[OF heap_tested[OF heap]] Let_def host(1) prod.case if_not_P[OF not0] 1 bind_simps 2(1) sum.case 3
    by (simp only: simp_thms if_False prod.case bind_simps)
  moreover have "free (?s2\<lparr>dev := d3, data_buffer := m3\<rparr>) = s\<lparr>files := saved con (jpg_names is) (files s),
      space := space s - (\<Sum>nm\<leftarrow>jpg_names is. length (con nm)), dev := d3, data_buffer := m3\<rparr>"
    by (simp add: malloc_def free_def)
  ultimately show ?thesis by (intro exI[of _ "f_closedir ?F x2"] exI[of _ d3] exI[of _ m3]) simp
qed

end
