(* ===== verification/Fat_Lfn.thy ===== *)
theory Fat_Lfn
  imports Fat_Name
begin

text \<open>
  Long names: how a name is cut into directory entries, what \<open>pick_lfn\<close> collects from them, and when \<open>cmp_lfn\<close> accepts
  them.
\<close>

section \<open>The pieces of a name\<close>

text \<open>The units of the entries of a name: the name, a terminator, and filler.\<close>

definition lfn_unit :: "u16 list \<Rightarrow> nat \<Rightarrow> u16" where
  "lfn_unit name t = (if t < length name then name ! t else if t = length name then 0 else 0xffff)"

definition lfn_parts :: "u16 list \<Rightarrow> nat" where
  "lfn_parts name = (length name + 12) div 13"

text \<open>Entry number \<open>n\<close> (from 1) of the entries of a name; the last part of the name comes first and is marked.\<close>

definition lfn_part :: "u16 list \<Rightarrow> byte \<Rightarrow> nat \<Rightarrow> mem \<Rightarrow> bool" where
  "lfn_part name chk n e \<longleftrightarrow> e 0 = of_nat n OR (if n = lfn_parts name then LLEF else 0) \<and> e 13 = chk \<and> ld_word e 26 = 0 \<and>
     (\<forall>j < 13. ld_word e (LfnOfs ! j) = lfn_unit name (13 * (n - 1) + j))"

text \<open>Names that FatFs can handle: not empty, no zero inside, at most 253 units. (Behind the terminator of a longer name
  the index has reached 255, where \<open>pick_lfn\<close> gives up.)\<close>

definition lfn_ok :: "u16 list \<Rightarrow> bool" where
  "lfn_ok name \<longleftrightarrow> name \<noteq> [] \<and> 0 \<notin> set name \<and> length name \<le> 253"

lemma lfn_unit_0: "lfn_ok name \<Longrightarrow> t \<le> length name \<Longrightarrow> lfn_unit name t = 0 \<longleftrightarrow> t = length name"
  by (auto simp: lfn_unit_def lfn_ok_def in_set_conv_nth)

lemma lfn_parts_bounds:
  assumes "lfn_ok name"
  shows "length name \<le> 13 * lfn_parts name" "13 * lfn_parts name < length name + 13" "1 \<le> lfn_parts name" "lfn_parts name \<le> 20"
proof -
  have L: "0 < length name" "length name \<le> 253" using assms by (simp_all add: lfn_ok_def)
  show "length name \<le> 13 * lfn_parts name" "13 * lfn_parts name < length name + 13"
    using mult_div_mod_eq[of 13 "length name + 12"] mod_less_divisor[of 13 "length name + 12"] unfolding lfn_parts_def by linarith+
  then show "1 \<le> lfn_parts name" "lfn_parts name \<le> 20" using L by linarith+
qed

lemma ordinal_facts:
  assumes "1 \<le> n" "n \<le> 20" "b = of_nat n OR (if l then LLEF else 0)"
  shows "b \<noteq> 0" "b \<noteq> DDEM" "b \<noteq> 0x2e" "b AND LLEF \<noteq> 0 \<longleftrightarrow> l" "b AND NOT LLEF = of_nat n"
    "unat (((ucast b AND 0x3f) - 1) * 13 :: u32) = 13 * (n - 1)" "(of_nat n :: byte) - 1 = of_nat (n - 1)" "of_nat n \<noteq> (0xff :: byte)"
proof -
  have "list_all (\<lambda>n. \<forall>l. let b = of_nat n OR (if l then LLEF else 0) in b \<noteq> 0 \<and> b \<noteq> DDEM \<and> b \<noteq> 0x2e \<and> (b AND LLEF \<noteq> 0 \<longleftrightarrow> l) \<and>
      b AND NOT LLEF = of_nat n \<and> unat (((ucast b AND 0x3f) - 1) * 13 :: u32) = 13 * (n - 1) \<and> (of_nat n :: byte) - 1 = of_nat (n - 1) \<and>
      of_nat n \<noteq> (0xff :: byte)) [1..<21]"
    by (simp add: upt_rec LLEF_def DDEM_def all_bool_eq)
  then have "\<forall>n \<in> set [1..<21]. \<forall>l. let b = of_nat n OR (if l then LLEF else 0) in b \<noteq> 0 \<and> b \<noteq> DDEM \<and> b \<noteq> 0x2e \<and> (b AND LLEF \<noteq> 0 \<longleftrightarrow> l) \<and>
      b AND NOT LLEF = of_nat n \<and> unat (((ucast b AND 0x3f) - 1) * 13 :: u32) = 13 * (n - 1) \<and> (of_nat n :: byte) - 1 = of_nat (n - 1) \<and>
      of_nat n \<noteq> (0xff :: byte)"
    unfolding list_all_iff .
  moreover have "n \<in> set [1..<21]" using assms(1,2) by simp
  ultimately have "let b = of_nat n OR (if l then LLEF else 0) in b \<noteq> 0 \<and> b \<noteq> DDEM \<and> b \<noteq> 0x2e \<and> (b AND LLEF \<noteq> 0 \<longleftrightarrow> l) \<and>
      b AND NOT LLEF = of_nat n \<and> unat (((ucast b AND 0x3f) - 1) * 13 :: u32) = 13 * (n - 1) \<and> (of_nat n :: byte) - 1 = of_nat (n - 1) \<and>
      of_nat n \<noteq> (0xff :: byte)" by blast
  then show "b \<noteq> 0" "b \<noteq> DDEM" "b \<noteq> 0x2e" "b AND LLEF \<noteq> 0 \<longleftrightarrow> l" "b AND NOT LLEF = of_nat n"
    "unat (((ucast b AND 0x3f) - 1) * 13 :: u32) = 13 * (n - 1)" "(of_nat n :: byte) - 1 = of_nat (n - 1)" "of_nat n \<noteq> (0xff :: byte)"
    unfolding assms(3) Let_def by blast+
qed

section \<open>Collecting a name\<close>

lemma length_LfnOfs: "length LfnOfs = 13"
  by (simp add: LfnOfs_def)

lemma LfnOfs_Cons: "j < 13 \<Longrightarrow> drop j LfnOfs = LfnOfs ! j # drop (Suc j) LfnOfs"
  by (simp add: Cons_nth_drop_Suc length_LfnOfs)

lemma unat_small: "i < 2 ^ 32 \<Longrightarrow> unat (of_nat i :: u32) = i"
  by (simp add: unat_of_nat)

text \<open>Both loops from entry position \<open>j\<close> on; \<open>B\<close> is the position of the entry in the name.\<close>

lemma pick_loop_ok:
  assumes "lfn_ok name" "B < length name" "\<forall>j < 13. ld_word e (LfnOfs ! j) = lfn_unit name (B + j)"
  shows "j \<le> 13 \<Longrightarrow> (wc \<noteq> 0 \<longleftrightarrow> B + j \<le> length name) \<Longrightarrow> unat i = B + min j (length name + 1 - B) \<Longrightarrow>
    \<exists>i'. pick_lfn_loop e (drop j LfnOfs) wc i lfn =
      (Some i', \<lambda>t. if B + j \<le> t \<and> t < B + 13 \<and> t \<le> length name then lfn_unit name t else lfn t) \<and>
      unat i' = B + min 13 (length name + 1 - B)"
proof (induction "13 - j" arbitrary: j wc i lfn)
  case 0
  then have "j = 13" by simp
  moreover have "(\<lambda>t. if B + 13 \<le> t \<and> t < B + 13 \<and> t \<le> length name then lfn_unit name t else lfn t) = lfn" by (rule ext) auto
  ultimately show ?case using 0 by (simp add: length_LfnOfs)
next
  case (Suc d)
  then have j: "j < 13" by simp
  have L: "length name \<le> 253" using assms(1) by (simp add: lfn_ok_def)
  have h: "d = 13 - Suc j" "Suc j \<le> 13" using Suc.hyps(2) j by simp_all
  let ?u = "lfn_unit name (B + j)"
  show ?case
  proof (cases "B + j \<le> length name")
    case True
    have i: "unat i = B + j" using Suc.prems(3) True by (simp add: min_def)
    then have lt: "\<not> of_nat MAX_LFN \<le> i" using True L by (simp add: MAX_LFN_def word_le_nat_alt)
    have i1: "unat (i + 1) = B + min (Suc j) (length name + 1 - B)"
      using i True L assms(2) by (subst unat_Suc_bound) (simp_all add: min_def)
    have "?u \<noteq> 0 \<longleftrightarrow> B + Suc j \<le> length name" using lfn_unit_0[OF assms(1) True] True by auto
    from Suc.hyps(1)[OF h this i1, of "lfn(B + j := ?u)"] obtain i' where
      "pick_lfn_loop e (drop (Suc j) LfnOfs) ?u (i + 1) (lfn(B + j := ?u)) =
        (Some i', \<lambda>t. if B + Suc j \<le> t \<and> t < B + 13 \<and> t \<le> length name then lfn_unit name t else (lfn(B + j := ?u)) t)"
      "unat i' = B + min 13 (length name + 1 - B)" by blast
    moreover have "(\<lambda>t. if B + Suc j \<le> t \<and> t < B + 13 \<and> t \<le> length name then lfn_unit name t else (lfn(B + j := ?u)) t) =
        (\<lambda>t. if B + j \<le> t \<and> t < B + 13 \<and> t \<le> length name then lfn_unit name t else lfn t)"
      using True j by (auto simp: fun_eq_iff)
    ultimately show ?thesis using Suc.prems(2) True lt i assms(3) j by (simp add: LfnOfs_Cons[OF j])
  next
    case False
    have "?u = 0xffff" using False by (simp add: lfn_unit_def)
    moreover have "unat i = B + min (Suc j) (length name + 1 - B)" using Suc.prems(3) False
      by (subst min_absorb2; simp; subst (asm) min_absorb2; simp)
    moreover from Suc.hyps(1)[OF h, of wc i lfn] calculation(2) Suc.prems(2) False obtain i' where
      "pick_lfn_loop e (drop (Suc j) LfnOfs) wc i lfn =
        (Some i', \<lambda>t. if B + Suc j \<le> t \<and> t < B + 13 \<and> t \<le> length name then lfn_unit name t else lfn t)"
      "unat i' = B + min 13 (length name + 1 - B)" by auto
    moreover have "(\<lambda>t. if B + Suc j \<le> t \<and> t < B + 13 \<and> t \<le> length name then lfn_unit name t else lfn t) =
        (\<lambda>t. if B + j \<le> t \<and> t < B + 13 \<and> t \<le> length name then lfn_unit name t else lfn t)"
      using False by (auto simp: fun_eq_iff)
    ultimately show ?thesis using Suc.prems(2) False assms(3) j by (simp add: LfnOfs_Cons[OF j])
  qed
qed

text \<open>An entry of the name puts its part at its place; the first one read (the last part) also terminates the name.\<close>

lemma pick_lfn_ok:
  assumes "lfn_ok name" "lfn_part name chk n e" "1 \<le> n" "n \<le> lfn_parts name"
    and "n < lfn_parts name \<Longrightarrow> \<forall>t. 13 * n \<le> t \<and> t \<le> length name \<longrightarrow> lfn t = lfn_unit name t"
  shows "\<exists>lfn'. pick_lfn e lfn = (True, lfn') \<and> (\<forall>t. 13 * (n - 1) \<le> t \<and> t \<le> length name \<longrightarrow> lfn' t = lfn_unit name t)"
proof -
  let ?B = "13 * (n - 1)" and ?L = "length name" and ?m = "lfn_parts name"
  note p = lfn_parts_bounds[OF assms(1)]
  have n20: "n \<le> 20" using assms(4) p(4) by simp
  have e: "e 0 = of_nat n OR (if n = ?m then LLEF else 0)" "ld_word e 26 = 0"
    "\<forall>j < 13. ld_word e (LfnOfs ! j) = lfn_unit name (?B + j)" using assms(2) by (simp_all add: lfn_part_def)
  note o = ordinal_facts[OF assms(3) n20 e(1)]
  have nm: "13 * n \<le> 13 * ?m" using assms(4) by simp
  have n1: "13 * (n - 1) + 13 = 13 * n" using assms(3) by (simp add: diff_mult_distrib2)
  have B: "?B < ?L" using p(2) nm n1 by linarith
  have L: "?L \<le> 253" using assms(1) by (simp add: lfn_ok_def)
  obtain i' where i': "pick_lfn_loop e LfnOfs 1 (lfn_pos e) lfn =
      (Some i', \<lambda>t. if ?B \<le> t \<and> t < ?B + 13 \<and> t \<le> ?L then lfn_unit name t else lfn t)" "unat i' = ?B + min 13 (?L + 1 - ?B)"
    using pick_loop_ok[OF assms(1) B e(3), of 0 1 "lfn_pos e" lfn] o(6) B by (auto simp: lfn_pos_def)
  let ?l = "\<lambda>t. if ?B \<le> t \<and> t < ?B + 13 \<and> t \<le> ?L then lfn_unit name t else lfn t"
  show ?thesis
  proof (cases "n = ?m")
    case False
    then have lt: "n < ?m" using assms(4) by simp
    have "pick_lfn e lfn = (True, ?l)" using e(2) i'(1) o(4) False by (simp add: pick_lfn_def)
    moreover have "\<forall>t. ?B \<le> t \<and> t \<le> ?L \<longrightarrow> ?l t = lfn_unit name t" using assms(5)[OF lt] n1 by auto
    ultimately show ?thesis by blast
  next
    case True
    have iL: "unat i' \<le> ?L + 1" using i'(2) B by simp
    have "?L + 1 \<le> ?B + 13 \<or> ?L = ?B + 13" using p(1,2) n1 True by linarith
    then have cases: "unat i' = ?L + 1 \<and> ?L < ?B + 13 \<or> unat i' = ?L \<and> ?L = ?B + 13" using i'(2) B by auto
    then have "\<not> of_nat MAX_LFN \<le> i'" using L by (auto simp: MAX_LFN_def word_le_nat_alt)
    then have "pick_lfn e lfn = (True, ?l(unat i' := 0))" using e(2) i'(1) o(4) True by (simp add: pick_lfn_def)
    moreover have "\<forall>t. ?B \<le> t \<and> t \<le> ?L \<longrightarrow> (?l(unat i' := 0)) t = lfn_unit name t"
      using cases by (auto simp: lfn_unit_def)
    ultimately show ?thesis by blast
  qed
qed

end
