(* ===== verification/Fat_Camera.thy ===== *)
theory Fat_Camera
  imports Fat_Phone Fat_Lfn
begin

text \<open>
  The photo of the sample image: the path \<open>/DCIM/Camera\<close> leads to its directory, which lists \<open>photo one.jpg\<close> by its long name and \<open>B.TXT\<close>,
  and the path of the photo leads to the file in clusters 4 and 5.
\<close>

section \<open>The entries\<close>

definition dcim_entry :: "byte list" where
  "dcim_entry = [0x44, 0x43, 0x49, 0x4d, 0x20, 0x20, 0x20, 0x20, 0x20, 0x20, 0x20, 0x10, 0, 0, 0, 0, 0, 0, 0, 0, 0, 0, 0, 0, 0, 0, 2, 0, 0, 0, 0, 0]"

definition dot_entry :: "byte \<Rightarrow> byte list" where
  "dot_entry c = [0x2e, 0x20, 0x20, 0x20, 0x20, 0x20, 0x20, 0x20, 0x20, 0x20, 0x20, 0x10, 0, 0, 0, 0, 0, 0, 0, 0, 0, 0, 0, 0, 0, 0, c, 0, 0, 0, 0, 0]"

definition dotdot_entry :: "byte \<Rightarrow> byte list" where
  "dotdot_entry c = [0x2e, 0x2e, 0x20, 0x20, 0x20, 0x20, 0x20, 0x20, 0x20, 0x20, 0x20, 0x10, 0, 0, 0, 0, 0, 0, 0, 0, 0, 0, 0, 0, 0, 0, c, 0, 0, 0, 0, 0]"

definition camera_entry :: "byte list" where
  "camera_entry = [0x43, 0x41, 0x4d, 0x45, 0x52, 0x41, 0x20, 0x20, 0x20, 0x20, 0x20, 0x10, 0, 0, 0, 0, 0, 0, 0, 0, 0, 0, 0, 0, 0, 0, 3, 0, 0, 0, 0, 0]"

definition lname_entry :: "byte list" where
  "lname_entry = [0x41, 0x70, 0, 0x68, 0, 0x6f, 0, 0x74, 0, 0x6f, 0, 0x0f, 0, 0xb5, 0x20, 0, 0x6f, 0, 0x6e, 0, 0x65, 0, 0x2e, 0, 0x6a, 0, 0, 0, 0x70, 0, 0x67, 0]"

definition photo_entry :: "byte list" where
  "photo_entry = [0x50, 0x48, 0x4f, 0x54, 0x4f, 0x4f, 0x7e, 0x31, 0x4a, 0x50, 0x47, 0x20, 0, 0, 0, 0, 0, 0, 0, 0, 0, 0, 0, 0, 0, 0, 4, 0, 0x58, 2, 0, 0]"

definition text_entry :: "byte list" where
  "text_entry = [0x42, 0x20, 0x20, 0x20, 0x20, 0x20, 0x20, 0x20, 0x54, 0x58, 0x54, 0x20, 0, 0, 0, 0, 0, 0, 0, 0, 0, 0, 0, 0, 0, 0, 0, 0, 0, 0, 0, 0]"

lemma entries_len: "length dcim_entry = 32" "length (dot_entry c) = 32" "length (dotdot_entry c) = 32" "length camera_entry = 32"
  "length lname_entry = 32" "length photo_entry = 32" "length text_entry = 32"
  by (simp_all add: dcim_entry_def dot_entry_def dotdot_entry_def camera_entry_def lname_entry_def photo_entry_def text_entry_def)

lemma zeros: "replicate (numeral n) x = x # replicate (pred_numeral n) x"
  by (simp add: numeral_eq_Suc)

lemma fat_root_entries: "fat_root = [dcim_entry, replicate 480 0]"
  by (simp add: fat_root_def dcim_entry_def ascii_def zeros[of "_" 0] del: replicate_numeral)

lemma fat_dcim_entries: "fat_dcim = [dot_entry 2, dotdot_entry 0, camera_entry, replicate 416 0]"
  by (simp add: fat_dcim_def dot_entry_def dotdot_entry_def camera_entry_def ascii_def zeros[of "_" 0] del: replicate_numeral)

lemma fat_camera_entries: "fat_camera = [dot_entry 3, dotdot_entry 2, lname_entry, photo_entry, text_entry, replicate 352 0]"
  by (simp add: fat_camera_def dot_entry_def dotdot_entry_def lname_entry_def photo_entry_def text_entry_def ascii_def zeros[of "_" 0] del: replicate_numeral)

lemma entry_nth:
  assumes "s < 8" "fat_secs ! s = concat (es @ [replicate n 0])" "\<forall>e \<in> set es. length e = 32" "32 * length es + n = 512" "k < 16" "i < 32"
  shows "fat_img ! (512 * s + 32 * k + i) = (if k < length es then es ! k ! i else 0)"
proof -
  have l: "length (concat es) = 32 * length es" using length_concat_const[OF assms(3)] by simp
  have "32 * k + i < 512" using assms(5,6) by linarith
  from fat_img_nth[OF assms(1) this] have "fat_img ! (512 * s + 32 * k + i) = (concat es @ replicate n 0) ! (32 * k + i)"
    using assms(2) by (simp add: add.assoc)
  also have "\<dots> = (if k < length es then es ! k ! i else 0)"
  proof (cases "k < length es")
    case True
    then have "32 * k + i < length (concat es)" unfolding l using assms(6) by linarith
    then show ?thesis using True concat_nth[OF assms(3) True assms(6)] by (simp add: nth_append)
  next
    case False
    then have "\<not> 32 * k + i < length (concat es)" "32 * k + i - length (concat es) < n" unfolding l using assms(4-6) by linarith+
    then show ?thesis using False by (simp add: nth_append)
  qed
  finally show ?thesis .
qed

lemma root_ent: "k < 16 \<Longrightarrow> i < 32 \<Longrightarrow> ent fat_img fat_geo [] k i = (if k < 1 then [dcim_entry] ! k ! i else 0)"
  unfolding ent_def esec_def Let_def using entry_nth[of 2 "[dcim_entry]" 480 k i]
  by (simp add: fat_secs_def fat_root_entries entries_len fat_geo_def)

lemma dcim_ent: "k < 16 \<Longrightarrow> i < 32 \<Longrightarrow> ent fat_img fat_geo [2] k i = (if k < 3 then [dot_entry 2, dotdot_entry 0, camera_entry] ! k ! i else 0)"
  unfolding ent_def esec_def Let_def using entry_nth[of 3 "[dot_entry 2, dotdot_entry 0, camera_entry]" 416 k i]
  by (simp add: fat_secs_def fat_dcim_entries entries_len fat_geo_def)

lemma camera_ent: "k < 16 \<Longrightarrow> i < 32 \<Longrightarrow> ent fat_img fat_geo [3] k i =
    (if k < 5 then [dot_entry 3, dotdot_entry 2, lname_entry, photo_entry, text_entry] ! k ! i else 0)"
  unfolding ent_def esec_def Let_def using entry_nth[of 4 "[dot_entry 3, dotdot_entry 2, lname_entry, photo_entry, text_entry]" 352 k i]
  by (simp add: fat_secs_def fat_camera_entries entries_len fat_geo_def)

lemma first_bytes: "dcim_entry ! 0 = 0x44" "dot_entry c ! 0 = 0x2e" "dotdot_entry c ! 0 = 0x2e" "camera_entry ! 0 = 0x43"
  "lname_entry ! 0 = 0x41" "photo_entry ! 0 = 0x50" "text_entry ! 0 = 0x42"
  by (simp_all add: dcim_entry_def dot_entry_def dotdot_entry_def camera_entry_def lname_entry_def photo_entry_def text_entry_def)

lemma less_cases: "(\<forall>k < 3. P k) \<longleftrightarrow> P 0 \<and> P 1 \<and> P (2::nat)" "(\<forall>k < 5. P k) \<longleftrightarrow> P 0 \<and> P 1 \<and> P 2 \<and> P 3 \<and> P (4::nat)"
  by (auto simp: less_Suc_eq numeral_eq_Suc)

lemma fat_spans: "dir_span fat_img fat_geo 0 [] 16" "dir_span fat_img fat_geo 2 [2] 16" "dir_span fat_img fat_geo 3 [3] 16"
  using fat_chain_img(2,3) by (simp_all add: dir_span_def start_clust_def fat_geo_def vol_consts)

lemma fat_holds:
  "dir_holds fat_img fat_geo 0 [] 16 1" "dir_holds fat_img fat_geo 2 [2] 16 3" "dir_holds fat_img fat_geo 3 [3] 16 5"
proof -
  have "\<forall>k < 1. ent fat_img fat_geo [] k 0 \<noteq> 0" "\<forall>k < 3. ent fat_img fat_geo [2] k 0 \<noteq> 0" "\<forall>k < 5. ent fat_img fat_geo [3] k 0 \<noteq> 0"
    unfolding less_cases by (simp_all add: root_ent dcim_ent camera_ent first_bytes)
  then show "dir_holds fat_img fat_geo 0 [] 16 1" "dir_holds fat_img fat_geo 2 [2] 16 3" "dir_holds fat_img fat_geo 3 [3] 16 5"
    unfolding dir_holds_def using fat_spans by (simp_all add: root_ent dcim_ent camera_ent MAX_DIR_def)
qed

section \<open>The path\<close>

text \<open>What \<open>create_name\<close> makes of the names, whatever was in its buffers.\<close>

lemmas name_eval = create_name_def ascii_def ff_convert_def chk_chr_def strip_lead.simps segment_sfn.simps sfn_char_def IsUpper_def IsLower_def
  name_flags_def mem_put_def mem_get_def upt_rec[of _ "numeral _"]

lemma name_dcim: "\<exists>lfn' fn'. create_name (ascii (''DCIM/'' @ p)) lfn fn = Some (FR_OK, dropWhile (\<lambda>c. c = 0x2f \<or> c = 0x5c) (ascii p), lfn', fn') \<and>
    fn' NSFLAG = 0 \<and> mem_get fn' 0 11 = take 11 dcim_entry"
  by (simp add: name_eval Let_def name_consts dcim_entry_def)

lemma name_camera:
  "\<exists>lfn' fn'. create_name (ascii ''Camera'') lfn fn = Some (FR_OK, [], lfn', fn') \<and> fn' NSFLAG = NS_LFN OR NS_LAST \<and> mem_get fn' 0 11 = take 11 camera_entry"
  "\<exists>lfn' fn'. create_name (ascii (''Camera/'' @ p)) lfn fn = Some (FR_OK, dropWhile (\<lambda>c. c = 0x2f \<or> c = 0x5c) (ascii p), lfn', fn') \<and>
     fn' NSFLAG = NS_LFN \<and> mem_get fn' 0 11 = take 11 camera_entry"
  by (simp_all add: name_eval Let_def name_consts camera_entry_def)

definition photo_name :: "byte list" where
  "photo_name = ascii ''photo one.jpg''"

lemma name_photo:
  "\<exists>lfn' fn'. create_name photo_name lfn fn = Some (FR_OK, [], lfn', fn') \<and> fn' NSFLAG AND NS_LAST \<noteq> 0 \<and> fn' NSFLAG AND NS_NOLFN = 0 \<and> fn' NSFLAG AND NS_LOSS \<noteq> 0 \<and>
     map lfn' [0..<14] = map ucast (photo_name @ [0])"
  by (simp add: photo_name_def name_eval Let_def name_consts)

section \<open>Looking up\<close>

lemma steps:
  "name_step (ent fat_img fat_geo [] 0) = name_step ((!) dcim_entry)"
  "name_step (ent fat_img fat_geo [2] 0) = name_step ((!) (dot_entry 2))" "name_step (ent fat_img fat_geo [2] 1) = name_step ((!) (dotdot_entry 0))"
  "name_step (ent fat_img fat_geo [2] 2) = name_step ((!) camera_entry)"
  "name_step (ent fat_img fat_geo [3] 0) = name_step ((!) (dot_entry 3))" "name_step (ent fat_img fat_geo [3] 1) = name_step ((!) (dotdot_entry 2))"
  "name_step (ent fat_img fat_geo [3] 2) = name_step ((!) lname_entry)" "name_step (ent fat_img fat_geo [3] 3) = name_step ((!) photo_entry)"
  by (intro name_step_cong, simp add: same_entry_def root_ent dcim_ent camera_ent)+

lemma mem_get_take: "length l = 32 \<Longrightarrow> mem_get ((!) l) 0 11 = take 11 l"
  by (intro nth_equalityI) (simp_all add: mem_get_def)

lemmas sfn_eval = mem_get_take entries_len dcim_entry_def dot_entry_def dotdot_entry_def camera_entry_def photo_entry_def name_consts
  DDEM_def dir_consts

lemma find_dcim:
  assumes "fn NSFLAG = 0" "mem_get fn 0 11 = take 11 dcim_entry"
  shows "find_scan (ent fat_img fat_geo []) 0 1 0xff 0xff lfn fn = Some 0"
  using assms by (simp add: steps name_step_def Let_def sfn_eval One_nat_def)

lemma find_camera:
  assumes "fn NSFLAG = NS_LFN OR NS_LAST \<or> fn NSFLAG = NS_LFN" "mem_get fn 0 11 = take 11 camera_entry"
  shows "find_scan (ent fat_img fat_geo [2]) 0 3 0xff 0xff lfn fn = Some 2"
proof -
  have l: "fn NSFLAG AND NS_LOSS = 0" using assms(1) by (auto simp: name_consts)
  have "name_step ((!) (dot_entry 2)) 0xff 0xff lfn fn = Inr (0xff, 0xff)" "name_step ((!) (dotdot_entry 0)) 0xff 0xff lfn fn = Inr (0xff, 0xff)"
    "name_step ((!) camera_entry) 0xff 0xff lfn fn = Inl ()"
    using l assms(2) by (simp_all add: name_step_def Let_def sfn_eval)
  then show ?thesis using steps(2,3) by (simp add: numeral_eq_Suc steps(4)[unfolded numeral_eq_Suc, simplified])
qed

lemma upt_14: "[0..<14] = [0, 1, 2, 3, 4, 5, 6, 7, 8, 9, 10, 11, 12, 13 :: nat]"
  by (simp add: upt_rec[of _ "numeral _"] numeral_eq_Suc)

lemma cmp_photo:
  assumes "map lfn [0..<14] = map ucast (photo_name @ [0])"
  shows "cmp_lfn lfn ((!) lname_entry)"
proof -
  have "\<not> (255 :: u32) \<le> 1" by (simp add: word_le_nat_alt)
  then show ?thesis
    using assms by (simp add: cmp_lfn_def lfn_pos_def LfnOfs_def lname_entry_def ld_word_def Let_def photo_name_def ascii_def upt_14 MAX_LFN_def LLEF_def)
qed

lemma find_photo:
  assumes "fn NSFLAG AND NS_NOLFN = 0" "fn NSFLAG AND NS_LOSS \<noteq> 0" "map lfn [0..<14] = map ucast (photo_name @ [0])"
  shows "find_scan (ent fat_img fat_geo [3]) 0 5 0xff 0xff lfn fn = Some 3"
proof -
  have "name_step ((!) (dot_entry 3)) 0xff 0xff lfn fn = Inr (0xff, 0xff)" "name_step ((!) (dotdot_entry 2)) 0xff 0xff lfn fn = Inr (0xff, 0xff)"
    using assms(2) by (simp_all add: name_step_def Let_def sfn_eval)
  moreover have "name_step ((!) lname_entry) 0xff 0xff lfn fn = Inr (0, 0xb5)"
    using assms(1) cmp_photo[OF assms(3)] by (simp add: name_step_def Let_def lname_entry_def dir_consts DDEM_def LLEF_def)
  moreover have "name_step ((!) photo_entry) 0 0xb5 lfn fn = Inl ()"
    by (simp add: name_step_def Let_def sfn_eval sum_sfn_def)
  ultimately show ?thesis using steps(5-8) by (simp add: numeral_eq_Suc)
qed

lemma fat_geo_type: "fs_type fat_geo \<noteq> FS_FAT32"
  by (simp add: fat_geo_def vol_consts)

lemma ents:
  "(ent fat_img fat_geo [] 0 11 AND AM_MASK) AND AM_DIR \<noteq> 0" "ld_clust fat_geo (ent fat_img fat_geo [] 0) = 2"
  "(ent fat_img fat_geo [2] 2 11 AND AM_MASK) AND AM_DIR \<noteq> 0" "ld_clust fat_geo (ent fat_img fat_geo [2] 2) = 3"
  "(ent fat_img fat_geo [3] 3 11 AND AM_MASK) AND AM_DIR = 0" "ld_clust fat_geo (ent fat_img fat_geo [3] 3) = 4"
  "ld_dword (ent fat_img fat_geo [3] 3) 28 = 600"
  by (simp_all add: root_ent dcim_ent camera_ent dcim_entry_def camera_entry_def photo_entry_def dir_consts ld_clust_def ld_word_def ld_dword_def fat_geo_type Let_def)

lemma resolves_camera: "\<exists>ns. resolves fat_img fat_geo 0 (ascii ''DCIM/Camera'') lfn fn ns (ent fat_img fat_geo [2] 2)"
proof -
  obtain l1 f1 where 1: "create_name (ascii ''DCIM/Camera'') lfn fn = Some (FR_OK, ascii ''Camera'', l1, f1)" "f1 NSFLAG = 0" "mem_get f1 0 11 = take 11 dcim_entry"
    using name_dcim[of "''Camera''" lfn fn] by (auto simp: ascii_def)
  obtain l2 f2 where 2: "create_name (ascii ''Camera'') l1 f1 = Some (FR_OK, [], l2, f2)" "f2 NSFLAG = NS_LFN OR NS_LAST" "mem_get f2 0 11 = take 11 camera_entry"
    using name_camera(1)[of l1 f1] by blast
  have "resolves fat_img fat_geo 2 (ascii ''Camera'') l1 f1 (f2 NSFLAG) (ent fat_img fat_geo [2] 2)"
    by (rule resolves_last[OF 2(1) _ fat_holds(2) find_camera[OF _ 2(3)]]) (use 2(2) in \<open>simp_all add: name_consts\<close>)
  then have "resolves fat_img fat_geo 0 (ascii ''DCIM/Camera'') lfn fn (f2 NSFLAG) (ent fat_img fat_geo [2] 2)"
    by (intro resolves_dir[OF 1(1) _ fat_holds(1) find_dcim[OF 1(2,3)] ents(1)]) (use 1(2) in \<open>simp_all add: ents\<close>)
  then show ?thesis by blast
qed

lemma resolves_photo: "\<exists>ns. resolves fat_img fat_geo 0 (ascii ''DCIM/Camera/photo one.jpg'') lfn fn ns (ent fat_img fat_geo [3] 3)"
proof -
  obtain l1 f1 where 1: "create_name (ascii ''DCIM/Camera/photo one.jpg'') lfn fn = Some (FR_OK, ascii ''Camera/photo one.jpg'', l1, f1)" "f1 NSFLAG = 0"
    "mem_get f1 0 11 = take 11 dcim_entry" using name_dcim[of "''Camera/photo one.jpg''" lfn fn] by (auto simp: ascii_def)
  obtain l2 f2 where 2: "create_name (ascii ''Camera/photo one.jpg'') l1 f1 = Some (FR_OK, photo_name, l2, f2)" "f2 NSFLAG = NS_LFN" "mem_get f2 0 11 = take 11 camera_entry"
    using name_camera(2)[of "''photo one.jpg''" l1 f1] by (auto simp: ascii_def photo_name_def)
  obtain l3 f3 where 3: "create_name photo_name l2 f2 = Some (FR_OK, [], l3, f3)" "f3 NSFLAG AND NS_LAST \<noteq> 0" "f3 NSFLAG AND NS_NOLFN = 0"
    "f3 NSFLAG AND NS_LOSS \<noteq> 0" "map l3 [0..<14] = map ucast (photo_name @ [0])" using name_photo[of l2 f2] by blast
  have "resolves fat_img fat_geo 3 photo_name l2 f2 (f3 NSFLAG) (ent fat_img fat_geo [3] 3)"
    by (rule resolves_last[OF 3(1,2) fat_holds(3) find_photo[of f3 l3, OF 3(3-5)]])
  then have "resolves fat_img fat_geo 2 (ascii ''Camera/photo one.jpg'') l1 f1 (f3 NSFLAG) (ent fat_img fat_geo [3] 3)"
    by (intro resolves_dir[OF 2(1) _ fat_holds(2) find_camera[OF _ 2(3)] ents(3)]) (use 2(2) in \<open>simp_all add: ents name_consts\<close>)
  then have "resolves fat_img fat_geo 0 (ascii ''DCIM/Camera/photo one.jpg'') lfn fn (f3 NSFLAG) (ent fat_img fat_geo [3] 3)"
    by (intro resolves_dir[OF 1(1) _ fat_holds(1) find_dcim[OF 1(2,3)] ents(1)]) (use 1(2) in \<open>simp_all add: ents\<close>)
  then show ?thesis by blast
qed

lemma entry_camera: "path_entry fat_img fat_geo camera_path (ent fat_img fat_geo [2] 2)"
proof -
  have "dropWhile (\<lambda>c. c = 0x2f \<or> c = 0x5c) camera_path = ascii ''DCIM/Camera''" "0x20 \<le> str_hd (ascii ''DCIM/Camera'')"
    by (simp_all add: camera_path_def ascii_def str_hd_def)
  then show ?thesis using resolves_camera by (simp add: path_entry_def)
qed

lemma entry_photo: "path_entry fat_img fat_geo (camera_path @ 0x2f # photo_name) (ent fat_img fat_geo [3] 3)"
proof -
  have "dropWhile (\<lambda>c. c = 0x2f \<or> c = 0x5c) (camera_path @ 0x2f # photo_name) = ascii ''DCIM/Camera/photo one.jpg''"
    "0x20 \<le> str_hd (ascii ''DCIM/Camera/photo one.jpg'')"
    by (simp_all add: camera_path_def ascii_def str_hd_def photo_name_def)
  then show ?thesis using resolves_photo by (simp add: path_entry_def)
qed

section \<open>The listing\<close>

lemma item_steps:
  "item_step (ent fat_img fat_geo [3] 0) = item_step ((!) (dot_entry 3))" "item_step (ent fat_img fat_geo [3] 1) = item_step ((!) (dotdot_entry 2))"
  "item_step (ent fat_img fat_geo [3] 2) = item_step ((!) lname_entry)" "item_step (ent fat_img fat_geo [3] 3) = item_step ((!) photo_entry)"
  "item_step (ent fat_img fat_geo [3] 4) = item_step ((!) text_entry)"
  by (intro item_step_cong, simp add: same_entry_def camera_ent)+

definition photo_info :: filinfo where
  "photo_info = \<lparr>fi_fsize = 600, fi_fdate = 0, fi_ftime = 0, fi_attrib = 0x20, fi_altname = ascii ''PHOTOO~1.JPG'', fi_fname = photo_name\<rparr>"

definition text_info :: filinfo where
  "text_info = \<lparr>fi_fsize = 0, fi_fdate = 0, fi_ftime = 0, fi_attrib = 0x20, fi_altname = [], fi_fname = ascii ''B.TXT''\<rparr>"

lemma pick_photo: "\<exists>lfn'. pick_lfn ((!) lname_entry) lfn = (True, lfn') \<and> map lfn' [0..<14] = map ucast (photo_name @ [0])"
proof -
  have "\<not> (255 :: u32) \<le> 1" by (simp add: word_le_nat_alt)
  then show ?thesis
    by (simp add: pick_lfn_def lfn_pos_def LfnOfs_def lname_entry_def ld_word_def Let_def photo_name_def ascii_def upt_14 MAX_LFN_def LLEF_def)
qed

lemma oem_photo:
  assumes "map lfn [0..<14] = map ucast (photo_name @ [0])"
  shows "lfn_oem (map lfn [0..<Suc MAX_LFN]) [] = Some photo_name"
proof -
  have "[0..<Suc MAX_LFN] = [0..<14] @ [14..<Suc MAX_LFN]" using upt_add_eq_append[of 0 14 "Suc MAX_LFN - 14"] by (simp add: MAX_LFN_def)
  then have "lfn_oem (map lfn [0..<Suc MAX_LFN]) [] = lfn_oem (map ucast (photo_name @ [0]) @ map lfn [14..<Suc MAX_LFN]) []" using assms by simp
  also have "\<dots> = Some photo_name" by (simp add: photo_name_def ascii_def ff_convert_def MAX_LFN_def)
  finally show ?thesis .
qed

lemma scan_photo:
  "\<exists>blk' lfn'. read_scan (ent fat_img fat_geo [3]) False 0 5 0xff 0xff blk lfn = (Some 3, blk', lfn') \<and>
     item_info (ent fat_img fat_geo [3] 3) blk' lfn' = Some photo_info"
proof -
  obtain lfn' where l: "pick_lfn ((!) lname_entry) lfn = (True, lfn')" "map lfn' [0..<14] = map ucast (photo_name @ [0])" using pick_photo by blast
  have "item_step ((!) (dot_entry 3)) False 0xff 0xff p blk lfn = (Inr (0xff, 0xff), blk, lfn)"
    "item_step ((!) (dotdot_entry 2)) False 0xff 0xff p blk lfn = (Inr (0xff, 0xff), blk, lfn)" for p
    by (simp_all add: item_step_def Let_def dot_entry_def dotdot_entry_def)
  moreover have "item_step ((!) lname_entry) False 0xff 0xff p blk lfn = (Inr (0, 0xb5), p, lfn')" for p
    using l(1) by (simp add: item_step_def Let_def lname_entry_def dir_consts DDEM_def LLEF_def)
  moreover have "item_step ((!) photo_entry) False 0 0xb5 p 64 lfn' = (Inl (), 64, lfn')" for p
    by (simp add: item_step_def Let_def sfn_eval sum_sfn_def)
  ultimately have "read_scan (ent fat_img fat_geo [3]) False 0 5 0xff 0xff blk lfn = (Some 3, 64, lfn')"
    using item_steps(1-4) by (simp add: numeral_eq_Suc)
  moreover have "item_info (ent fat_img fat_geo [3] 3) 64 lfn' = Some photo_info"
    using oem_photo[OF l(2)]
    by (simp add: item_info_def Let_def camera_ent photo_entry_def ld_dword_def photo_info_def upt_rec[of _ "numeral _"] RDDEM_def IsUpper_def ascii_def photo_name_def)
  ultimately show ?thesis by blast
qed

lemma scan_text:
  "read_scan (ent fat_img fat_geo [3]) False 4 1 0xff 0xff blk lfn = (Some 4, 0xffffffff, lfn) \<and>
     item_info (ent fat_img fat_geo [3] 4) 0xffffffff lfn = Some text_info"
proof -
  have "item_step ((!) text_entry) False 0xff 0xff p blk lfn = (Inl (), 0xffffffff, lfn)" for p
    by (simp add: item_step_def Let_def text_entry_def dir_consts DDEM_def)
  then have "read_scan (ent fat_img fat_geo [3]) False 4 1 0xff 0xff blk lfn = (Some 4, 0xffffffff, lfn)"
    using item_steps(5) by (simp add: One_nat_def)
  moreover have "item_info (ent fat_img fat_geo [3] 4) 0xffffffff lfn = Some text_info"
    by (simp add: item_info_def Let_def camera_ent text_entry_def ld_dword_def text_info_def upt_rec[of _ "numeral _"] RDDEM_def IsUpper_def ascii_def)
  ultimately show ?thesis by blast
qed

lemma info_names: "fi_fname photo_info = photo_name" "fi_fname text_info = ascii ''B.TXT''" "photo_name \<noteq> []" "0 \<notin> set photo_name"
  "ascii ''B.TXT'' \<noteq> []" "0 \<notin> set (ascii ''B.TXT'')"
  by (simp_all add: photo_info_def text_info_def photo_name_def ascii_def)

lemma fat_lists: "dir_lists (ent fat_img fat_geo [3]) 5 0 [photo_info, text_info]"
proof -
  have 1: "dir_lists (ent fat_img fat_geo [3]) 5 (Suc 4) []" by (rule lists_end) simp
  have 2: "dir_lists (ent fat_img fat_geo [3]) 5 (Suc 3) [text_info]"
    by (rule lists_item[OF _ _ _ 1]) (use scan_text in \<open>simp_all add: info_names\<close>)
  show ?thesis
    by (rule lists_item[OF _ _ _ 2]) (use scan_photo in \<open>simp_all add: info_names\<close>)
qed

lemma fat_camera_dir: "camera_dir fat_img fat_geo [photo_info, text_info]"
  unfolding camera_dir_def using entry_camera ents(3,4) fat_holds(3) fat_lists by (metis)

lemma fat_jpgs: "jpg_names [photo_info, text_info] = [photo_name]"
  by (simp add: jpg_names_def info_names photo_name_def jpg_def ascii_def up_def get_achar_def str_hd_def IsLower_def)

definition photo_bytes :: "byte list" where
  "photo_bytes = replicate 512 0x41 @ replicate 88 0x42"

lemma fat_cluster: "2 \<le> c \<Longrightarrow> c \<le> 6 \<Longrightarrow> clust_bytes fat_img fat_geo c = fat_secs ! (c + 1)"
proof (rule nth_equalityI)
  assume c: "2 \<le> c" "c \<le> 6"
  have p: "clust_pos fat_geo c = 512 * (c + 1)" "clust_size fat_geo = 512" using c by (simp_all add: clust_pos_def clust_size_def fat_geo_def)
  have s: "length (fat_secs ! (c + 1)) = 512" using fat_secs_len c by simp
  show "length (clust_bytes fat_img fat_geo c) = length (fat_secs ! (c + 1))"
    using c unfolding s clust_bytes_def p by (simp add: length_fat_img)
  fix i assume "i < length (clust_bytes fat_img fat_geo c)"
  then have i: "i < 512" unfolding clust_bytes_def p by simp
  have "c + 1 < 8" using c by simp
  from fat_img_nth[OF this i] show "clust_bytes fat_img fat_geo c ! i = fat_secs ! (c + 1) ! i"
    unfolding clust_bytes_def p using i c by (simp add: length_fat_img)
qed

lemma fat_photo_bytes: "file_bytes fat_img fat_geo [4, 5] 600 = photo_bytes"
proof -
  have "chain_bytes fat_img fat_geo [4, 5] = replicate 512 0x41 @ replicate 512 0x42"
    by (simp add: chain_bytes_def fat_cluster) (simp add: fat_secs_def)
  then show ?thesis by (simp add: file_bytes_def photo_bytes_def)
qed

lemma fat_photo_entry: "file_entry fat_img fat_geo (ent fat_img fat_geo [3] 3) [4, 5] 600"
  using ents(5-7) fat_chain_img(1) by (simp add: file_entry_def clust_size_def fat_geo_def)

lemma fat_photo: "photo fat_img fat_geo photo_name photo_bytes"
proof -
  have l: "length photo_name \<le> 82" "length photo_bytes = 600" by (simp_all add: photo_name_def photo_bytes_def ascii_def)
  show ?thesis unfolding photo_def l(2) using l(1) fat_photo_entry entry_photo fat_photo_bytes by metis
qed

section \<open>The command\<close>

text \<open>C6. \<open>syber_usb camera\<close>: if the partition \<open>internalsd\<close> on the phone is a FAT volume whose directory \<open>/DCIM/Camera\<close>
  lists \<open>is\<close>, \<open>main\<close> mounts the volume, searches the directory with the pattern \<open>*.jpg\<close>, copies every file the pattern matches, in the
  order of the directory, and returns 0; the local files then hold exactly the contents of the photos, and nothing else has changed on the host.
  The phone has to accept the session, serve the partition and acknowledge the end, the local directory has been recreated, and there is room on
  the host. What the directory lists and what a photo contains speak of the bytes of the partition only: \<open>camera_dir\<close> and \<open>photo\<close>;
  the matches are regular files with names of at most 82 bytes, as the path arrays of the command have 100. Without memory for the buffer the command
  returns -1 and leaves the phone and the host alone.\<close>

theorem main_camera_correct:
  assumes "setup_ok E" "sys (malloc (s0\<lparr>checksum_type := TYPE_IPSUM\<rparr>)) = (0, malloc s)"
    and "sd_opens U ready flash s" "\<And>d. ready d \<Longrightarrow> \<exists>d'. acks U (checksum_type s) (bsl BSL_CMD_READ_FLASH_END) d d'"
    and "fat_volume flash b g" "camera_dir flash g is" "\<forall>nm \<in> set (jpg_names is). photo flash g nm (con nm)"
    and "host_takes con (jpg_names is) s"
  shows "if heap_ok s0 then
      \<exists>x' d m. main U E L (ff_ops U junk dj0) sys exe [prog, ''camera''] x s0 = Some (0, x',
        s\<lparr>files := fold (\<lambda>nm fls. fls(camera_dest nm \<mapsto> con nm)) (jpg_names is) (files s),
          space := space s - (\<Sum>nm\<leftarrow>jpg_names is. length (con nm)), dev := d, data_buffer := m\<rparr>)
    else main U E L (ff_ops U junk dj0) sys exe [prog, ''camera''] x s0 = Some (- 1, x, s0\<lparr>checksum_type := TYPE_IPSUM\<rparr>)"
proof -
  have "main U E L (ff_ops U junk dj0) sys exe [prog, ''camera''] x s0 = sprd_read_camera U (ff_ops U junk dj0) sys x (s0\<lparr>checksum_type := TYPE_IPSUM\<rparr>)"
    using assms(1) by (auto simp: main_def setup_ok_def Let_def command_def split: sum.splits)
  then show ?thesis
    using sprd_read_camera_ok[where con = con and junk = junk and x = x and ?dj0.0 = dj0 and sys = sys and ready = ready and ?s0.0 = "s0\<lparr>checksum_type := TYPE_IPSUM\<rparr>", OF assms(3-7,2,8)]
      no_buffer(3)[of "s0\<lparr>checksum_type := TYPE_IPSUM\<rparr>" U "ff_ops U junk dj0" sys x] unfolding saved_def by simp
qed

definition camera_st :: "byte list list st" where
  "camera_st = st0 TYPE_IPSUM Map.empty"

lemma fat_phone_opens: "sd_opens (phone_usb TYPE_IPSUM fat_img) idle fat_img camera_st"
proof -
  have "starts (phone_usb TYPE_IPSUM fat_img) TYPE_IPSUM 20 internalsd_partition [] []"
    by (rule phone_starts) (simp_all add: internalsd_partition_def)
  moreover have "checksum_type camera_st = TYPE_IPSUM" "dev camera_st = []" by (simp_all add: camera_st_def st0_def)
  moreover have "flash_ok (phone_usb TYPE_IPSUM fat_img) idle fat_img (camera_st\<lparr>dev := []\<rparr>)"
    by (simp add: camera_st_def flash_ok_def phone_serves st0_def idle_def length_fat_img)
  ultimately show ?thesis unfolding sd_opens_def by (intro exI[of _ "[]"]) simp
qed

theorem main_camera_correct_witness:
  "\<forall>L junk dj0 exe x. \<exists>x' d m. main (phone_usb TYPE_IPSUM fat_img) setup0 L (ff_ops (phone_usb TYPE_IPSUM fat_img) junk dj0) (Pair 0) exe
      [''syber_usb'', ''camera''] x (st0 TYPE_CRC Map.empty) = Some (0, x',
    camera_st\<lparr>files := fold (\<lambda>nm fls. fls(camera_dest nm \<mapsto> photo_bytes)) [photo_name] (files camera_st),
      space := space camera_st - (\<Sum>nm\<leftarrow>[photo_name]. length photo_bytes), dev := d, data_buffer := m\<rparr>)"
  unfolding fat_jpgs[symmetric]
proof (intro allI, rule if_trueD[OF main_camera_correct[OF setup0_ok _ fat_phone_opens _ fat_volume_img fat_camera_dir]])
  show "heap_ok (st0 TYPE_CRC Map.empty)" by (simp add: st0_def)
  show "Pair 0 (malloc ((st0 TYPE_CRC Map.empty)\<lparr>checksum_type := TYPE_IPSUM\<rparr>)) = (0, malloc camera_st)"
    by (simp add: camera_st_def st0_def)
  show "\<exists>d'. acks (phone_usb TYPE_IPSUM fat_img) (checksum_type camera_st) (bsl BSL_CMD_READ_FLASH_END) d d'" if "idle d" for d
    by (intro exI[of _ "[]"]) (simp add: phone_acks camera_st_def st0_def)
  show "\<forall>nm \<in> set (jpg_names [photo_info, text_info]). photo fat_img fat_geo nm photo_bytes"
    using fat_photo by (simp add: fat_jpgs)
  show "host_takes (\<lambda>nm. photo_bytes) (jpg_names [photo_info, text_info]) camera_st"
    by (simp add: host_takes_def fat_jpgs camera_st_def st0_def photo_bytes_def)
qed

section \<open>Seeking and reading\<close>

text \<open>A sequence of \<open>f_lseek\<close> and \<open>f_read\<close> on an open file, with what the reads returned, and the same on a plain list of bytes.\<close>

datatype file_op = FSeek u32 | FRead u32

fun file_run :: "'s disk_ops \<Rightarrow> file_op list \<Rightarrow> fil \<Rightarrow> mem \<Rightarrow> 's ff \<Rightarrow> (fresult \<times> byte list list) option" where
  "file_run D [] fp buff x = Some (FR_OK, [])"
| "file_run D (FSeek ofs # ops) fp buff x = do {
     (r, fp, x) \<leftarrow> ff_lseek D ofs fp x;
     if r \<noteq> FR_OK then Some (r, []) else file_run D ops fp buff x }"
| "file_run D (FRead n # ops) fp buff x = do {
     (r, br, fp, buff, x) \<leftarrow> ff_read D n fp buff x;
     if r \<noteq> FR_OK then Some (r, [])
     else do {
       (r, outs) \<leftarrow> file_run D ops fp buff x;
       Some (r, mem_get buff 0 (unat br) # outs) } }"

fun plain_run :: "byte list \<Rightarrow> nat \<Rightarrow> file_op list \<Rightarrow> byte list list" where
  "plain_run c p [] = []"
| "plain_run c p (FSeek ofs # ops) = plain_run c (min (unat ofs) (length c)) ops"
| "plain_run c p (FRead n # ops) = take (unat n) (drop p c) # plain_run c (min (length c) (p + unat n)) ops"

lemma open_length: "internalsd.file_open U ready flash s fs cs sz p x fp \<Longrightarrow> length (file_bytes flash fs cs sz) = sz"
  using at_posD(2,3)[of flash fs cs sz p fp]
  by (auto simp: internalsd.file_open_def internalsd.on_volume_def file_bytes_def length_chain_bytes)

lemma file_run_plain:
  assumes "internalsd.file_open U ready flash s fs cs sz p x fp" "p \<le> sz"
  shows "file_run (usb_disk_ops U junk) ops fp buff x = Some (FR_OK, plain_run (file_bytes flash fs cs sz) p ops)"
  using assms
proof (induction ops arbitrary: p fp buff x)
  case (Cons op ops)
  note len = open_length[OF Cons.prems(1)]
  show ?case
  proof (cases op)
    case (FSeek ofs)
    from internalsd.ff_lseek_open[OF Cons.prems(1), where junk = junk and ofs = ofs] obtain fp' x' where
      "ff_lseek (usb_disk_ops U junk) ofs fp x = Some (FR_OK, fp', x')" "internalsd.file_open U ready flash s fs cs sz (min (unat ofs) sz) x' fp'" by blast
    then show ?thesis using Cons.IH FSeek len by simp
  next
    case (FRead n)
    let ?n = "min (unat n) (sz - p)" and ?c = "file_bytes flash fs cs sz"
    from internalsd.ff_read_open[OF Cons.prems(1), where junk = junk and btr = n and buff = buff] obtain fp' x' where
      r: "ff_read (usb_disk_ops U junk) n fp buff x = Some (FR_OK, of_nat ?n, fp', mem_put buff 0 (take ?n (drop p ?c)), x')"
      "internalsd.file_open U ready flash s fs cs sz (p + ?n) x' fp'" unfolding Let_def by blast
    have n: "unat (of_nat ?n :: u32) = ?n" using unat_less[of n] by (simp add: unat_of_nat min_def)
    have d: "take ?n (drop p ?c) = take (unat n) (drop p ?c)" "length (take ?n (drop p ?c)) = ?n" using len by (simp_all add: min_def)
    have "mem_get (mem_put buff 0 (take ?n (drop p ?c))) 0 ?n = take ?n (drop p ?c)"
      using mem_get_put_all[of buff 0 "take ?n (drop p ?c)"] d(2) by simp
    moreover have "p + ?n = min sz (p + unat n)" using Cons.prems(2) by simp
    ultimately show ?thesis using r(1) Cons.IH[OF r(2)] Cons.prems(2) FRead n d(1) len by simp
  qed
qed simp

text \<open>C11. Random access to a file of the phone: if the partition is a FAT volume in which a path leads to a file with contents \<open>c\<close>, \<open>f_open\<close>
  mounts the volume and opens the file, and then every sequence of \<open>f_lseek\<close> and \<open>f_read\<close> succeeds and returns what the same sequence returns on the
  bytes \<open>c\<close>: seeking forwards and backwards over clusters, reads across sectors and clusters, and positions behind the end, which are cut off there.\<close>

theorem phone_random_access:
  assumes "sd_opens U ready flash (ff_disk f)" "fat_volume flash b g" "get_ldnumber path = (0, rest)"
    and "path_entry flash g rest e" "file_entry flash g e cs (length c)" "c = file_bytes flash g cs (length c)"
    and "FatFs f" "fs_type (ff_fs f) = 0"
  shows "\<exists>fp f'. ff_open (usb_disk_ops U junk) dj path FA_READ fp0 f = Some (FR_OK, fp, f') \<and>
    file_run (usb_disk_ops U junk) ops fp buff f' = Some (FR_OK, plain_run c 0 ops)"
proof -
  let ?g = "g\<lparr>fat_id := Fsid f + 1\<rparr>"
  obtain f1 where v: "find_volume (usb_disk_ops U junk) path f = Some (FR_OK, rest, f1)" "internalsd.on_volume U ready flash (ff_disk f) ?g f1"
    using find_volume_mounts[OF assms(1,2,7,8) refl assms(3)] by blast
  have e: "path_entry flash ?g rest e" "file_entry flash ?g e cs (length c)" using assms(4,5) by (simp_all add: path_entry_any_id)
  from internalsd.ff_open_ok[OF v e, where dj = dj and fp = fp0] obtain fp f' where o:
    "ff_open (usb_disk_ops U junk) dj path FA_READ fp0 f = Some (FR_OK, fp, f')"
    "internalsd.file_open U ready flash (ff_disk f) ?g cs (length c) 0 f' fp" by (auto simp: internalsd.file_open_def)
  from file_run_plain[OF o(2)] have "file_run (usb_disk_ops U junk) ops fp buff f' = Some (FR_OK, plain_run (file_bytes flash ?g cs (length c)) 0 ops)"
    by simp
  with o(1) assms(6) show ?thesis by simp
qed

definition fat_unmounted :: "byte list list st ff" where
  "fat_unmounted = \<lparr>FatFs = True, Fsid = 0, LfnBuf = \<lambda>_. 0, ff_fs = fat_geo\<lparr>fs_type := 0\<rparr>, ff_disk = camera_st\<rparr>"

lemma unmounted_facts: "FatFs fat_unmounted" "fs_type (ff_fs fat_unmounted) = 0" "ff_disk fat_unmounted = camera_st"
  by (simp_all add: fat_unmounted_def)

lemma photo_number: "get_ldnumber (ascii ''0:/DCIM/Camera/photo one.jpg'') = (0, camera_path @ 0x2f # photo_name)"
  by (simp add: get_ldnumber_def str_hd_def camera_path_def photo_name_def ascii_def)

lemma photo_pieces: "plain_run photo_bytes 0 [FSeek 510, FRead 4, FSeek 0, FRead 1, FSeek 1000, FRead 9] = [[0x41, 0x41, 0x42, 0x42], [0x41], []]"
  by (simp add: photo_bytes_def) (simp add: numeral_2_eq_2)

theorem phone_random_access_witness:
  "\<forall>junk dj fp0 buff. \<exists>fp f'. ff_open (usb_disk_ops (phone_usb TYPE_IPSUM fat_img) junk) dj (ascii ''0:/DCIM/Camera/photo one.jpg'') FA_READ fp0 fat_unmounted =
      Some (FR_OK, fp, f') \<and>
    file_run (usb_disk_ops (phone_usb TYPE_IPSUM fat_img) junk) [FSeek 510, FRead 4, FSeek 0, FRead 1, FSeek 1000, FRead 9] fp buff f' =
      Some (FR_OK, [[0x41, 0x41, 0x42, 0x42], [0x41], []])"
proof -
  have l: "length photo_bytes = 600" by (simp add: photo_bytes_def)
  show ?thesis unfolding photo_pieces[symmetric]
    by (intro allI, rule phone_random_access[where ready = idle and cs = "[4, 5]", OF _ fat_volume_img photo_number entry_photo])
      (simp_all add: unmounted_facts fat_phone_opens fat_photo_entry fat_photo_bytes l)
qed

text \<open>The result on mounting applies to the sample image on the reference phone.\<close>

theorem find_volume_inv_witness:
  "\<forall>junk. \<exists>y. find_volume (usb_disk_ops (phone_usb TYPE_IPSUM fat_img) junk) (ascii ''0:/DCIM/Camera'') fat_unmounted = Some (FR_OK, camera_path, y) \<and>
     mount_inv (ff_fs y)"
proof
  fix junk
  obtain y where y: "find_volume (usb_disk_ops (phone_usb TYPE_IPSUM fat_img) junk) (ascii ''0:/DCIM/Camera'') fat_unmounted = Some (FR_OK, camera_path, y)"
    using find_volume_mounts[OF fat_phone_opens fat_volume_img unmounted_facts camera_numbers(1)] by blast
  moreover have "mount_inv (ff_fs y)"
    by (rule find_volume_inv[OF _ y]) (simp add: mount_inv_def unmounted_facts)
  ultimately show "\<exists>y. find_volume (usb_disk_ops (phone_usb TYPE_IPSUM fat_img) junk) (ascii ''0:/DCIM/Camera'') fat_unmounted = Some (FR_OK, camera_path, y) \<and>
     mount_inv (ff_fs y)" by blast
qed

end
