(* ===== verification/Spec2Isabelle.thy ===== *)
theory Spec2Isabelle
  imports Ext4_Phone Ext4_Image Fat_Camera
begin

text \<open>
  syber_usb copies partitions and files between a phone in download mode and the host. This
  development models the program in \<open>main.c\<close> with its helpers \<open>checksum.c\<close> and
  \<open>protocol.h\<close>, the glue to the two bundled file systems (\<open>ff12b/src/diskio.c\<close>,
  \<open>lwext4/blockdev/blockdev.c\<close>), and of the two bundled file systems, lwext4 and FatFs, everything from the
  block layer up to the calls that the program makes.

  \<^bold>\<open>How the parts interact.\<close> \<open>main\<close> finds the device, claims it through libusb and
  dispatches on its arguments. A session with the phone is a sequence of frames: a start frame naming
  a partition, then window requests (reading) or data frames (writing), then an end frame; every
  frame carries a checksum and is escaped between two delimiters. Commands that read files
  mount a file system whose block device is this session: \<open>blockdev.c\<close> serves lwext4,
  \<open>diskio.c\<close> serves FatFs. Inside lwext4, \<open>ext4_blockdev.c\<close> turns device blocks
  into byte ranges and logical blocks, \<open>ext4_bcache.c\<close> caches logical blocks, and superblock,
  group descriptors and inodes are records in such blocks.

  \<^bold>\<open>Theories.\<close>
    \<^item> Prelude: machine integers, byte memories, byte orders; the conventions on undefined results.
    \<^item> Crc: bit-serial CRC registers and the contracts \<open>msb_crc16\<close>, \<open>lsb_crc\<close> of table-driven ones.
    \<^item> Checksum (\<open>checksum.c\<close>): \<open>crc16\<close>, \<open>ipcheck\<close>, \<open>checksum\<close>; equal to
      the bit-serial CRC and the Internet checksum.
    \<^item> Framing (\<open>protocol.h\<close>; \<open>sprd_frame_exchange\<close>, \<open>sprd_verify_frame\<close>): escaping is
      invertible, delimiters occur only at the ends, corruption is rejected.
    \<^item> Transport (\<open>sprd_usb_transfer\<close>, \<open>sprd_usb_receive\<close> and the commands without data): the program
      state \<open>st\<close> (buffers, checksum type, host files, descriptors, heap blocks, the device).
    \<^item> Flash\_Link: the protocol of reading windows; what the phone is relied on to do
      (\<open>serves_flash\<close>, \<open>starts\<close>, \<open>acks\<close>) and the contract \<open>block_reader\<close> of the two block readers.
    \<^item> Upload (\<open>sprd_upload\<close>), Download (\<open>sprd_download\<close>, \<open>get_sum_file\<close>,
      \<open>sprd_download_partition\<close>), Tasks (\<open>sprd_task_bootrom\<close>, \<open>sprd_task_fdl1\<close>): whole transfers.
    \<^item> Diskio (\<open>diskio.c\<close>) and Blockdev (\<open>blockdev.c\<close>): the two block readers, each an
      interpretation of \<open>block_reader\<close>.
    \<^item> Commands (\<open>sprd_ls_ext4fs\<close>, \<open>sprd_read_ext4fs\<close>, \<open>sprd_cat_ext4fs\<close>,
      \<open>sprd_read_camera\<close>): above any file calls of the two libraries.
    \<^item> Cli (\<open>main\<close>, device search, partition table, size argument).
    \<^item> Phone: a reference phone, which satisfies everything assumed of the device, and the transfer
      results with their witnesses on it.
    \<^item> Ext4\_Bdev (\<open>ext4_blockdev.c\<close> without cache, \<open>ext4_filedev.c\<close>): contracts
      \<open>block_source\<close> and \<open>block_store\<close>, interpreted on the phone and on an image file; byte-granular
      reads and writes are reads and updates of the partition's contents.
    \<^item> Ext4\_Bcache (\<open>ext4_bcache.c\<close>, the cached half of \<open>ext4_blockdev.c\<close>) and Ext4\_Cached: the
      cache invariant, and the cache as a refinement of a disk without one (contracts
      \<open>logical_source\<close>, \<open>logical_store\<close>, which follow from those of Ext4\_Bdev).
    \<^item> Ext4\_Bitmap (\<open>ext4_bitmap.c\<close>), Ext4\_Crc (\<open>ext4_crc32.c\<close>,
      \<open>ext4_block_group.c\<close>), Ext4\_Hash (\<open>ext4_hash.c\<close>): the computations they hold.
    \<^item> Ext4\_Super (\<open>ext4_super.c\<close>), Ext4\_Inode (\<open>ext4_inode.c\<close>), Ext4\_Group
      (\<open>ext4_block_group.h\<close> and the address and checksum functions of \<open>ext4_fs.c\<close>,
      \<open>ext4_balloc.c\<close>, \<open>ext4_ialloc.c\<close>): records on the disk as byte memories, with round trips,
      bounds and checksums.
    \<^item> Ext4\_Fs (first half of \<open>ext4_fs.c\<close>): mounting, references to block groups and inodes.
      Ext4\_Extent (\<open>ext4_extent.c\<close>) and Ext4\_Map (\<open>ext4_fs_get_inode_dblk_idx\<close>): from blocks of a
      file to blocks of the disk, by extents or by indirect blocks.
    \<^item> Ext4\_Dirent, Ext4\_Dir (\<open>ext4_dir.c\<close>, \<open>ext4_dir_idx.c\<close>): the entries of a directory block as
      a list of names, searching, inserting and removing; looking a name up by scan or hash index; iteration.
    \<^item> Ext4\_File, Ext4\_Open, Ext4\_Mount, Ext4\_List (\<open>ext4.c\<close>, \<open>test_lwext4.c\<close>): open files, the
      path walk, the tables of devices and mount points, listing. \<open>file_at\<close> and \<open>dir_at\<close> say on the bytes of an image what a
      path leads to, and the calls return just that.
    \<^item> Ext4\_Phone: these calls as the instance \<open>lw_ops\<close> of \<open>ext4_ops\<close>, on the phone. Ext4\_Image: a sample image.
    \<^item> Fat\_Name, Fat\_Vol, Fat\_Dir, Fat\_File (\<open>ff.c\<close>, \<open>ccsbcs.c\<close>): the definitions of FatFs from names and
      the window on a volume up to \<open>f_open\<close>, \<open>f_read\<close>, \<open>f_lseek\<close>, \<open>f_findfirst\<close>, with the invariant of
      mounting and the meaning of wildcard patterns. The disk is the contract \<open>sector_source\<close> of Fat\_Vol.
    \<^item> Fat\_Chain, Fat\_Read: cluster chains on an image; reading and seeking return the bytes of the chain.
      Fat\_Items, Fat\_Scan, Fat\_Lfn: directories as lists of entries, and long names in them. Fat\_Walk: \<open>resolves\<close> and
      \<open>dir_lists\<close> say on the bytes of an image what a path leads to and what a directory lists, and the calls
      return just that.
    \<^item> Fat\_Phone: \<open>diskio.c\<close> on the phone as the interpretation \<open>internalsd\<close> of \<open>sector_source\<close>, and
      \<open>sprd_read_camera\<close> on it. Fat\_Image, Fat\_Camera: a sample volume with a photo, the command \<open>camera\<close> and random access to
      files of the phone, with witnesses on the sample.
    \<^item> This theory: the commands end to end, and lwext4's block layer and cache on the phone.

  \<^bold>\<open>Errors and termination.\<close> C functions return their integer codes as they do in the source.
  \<open>None\<close> stands for undefined behaviour, a failed assertion, or a loop that never ends; theorems
  about a function conclude \<open>Some\<close>, so they include that it returns. Loops that the phone or the contents of a disk can keep
  running for ever are \<open>partial_function (option)\<close>: the receive and window loops of the transfer functions, the copy loops of the
  commands, in lwext4 the cache, extent, read and directory loops, in FatFs following a cluster chain (\<open>sdi_chain\<close>, \<open>seek_chain\<close>), reading
  (\<open>read_bytes\<close>), searching a directory (\<open>read_loop\<close>, \<open>find_loop\<close>, \<open>ff_findnext\<close>) and the path walk (\<open>path_loop\<close>). They
  are proved to return on the images and phones that the properties assume. All other loops are structural
  or have a termination proof. There is no fuel in the development.

  \<^bold>\<open>Configuration.\<close> The host is little-endian, \<open>int\<close> has 32 bits, assertions abort;
  lwext4 is configured with \<open>CONFIG_JOURNALING_ENABLE\<close> 0 and \<open>CONFIG_META_CSUM_ENABLE\<close> 1; FatFs as in
  \<open>ffconf.h\<close>: read only, long names of up to 255 characters in a static buffer, code page 437, sectors of 512 bytes, one volume, no
  relative paths; \<open>char\<close> is signed.

  \<^bold>\<open>Outside the sources.\<close> libusb with the phone behind it (a record \<open>usb\<close> of transfer
  functions over any device state; the results of the setup calls are a record), the operating system (a
  store of files with the failures the code tests for), and the results of \<open>malloc\<close> where the code tests them.

  \<^bold>\<open>Not modelled.\<close> Printing (\<open>print_descriptor\<close>, \<open>print_hex\<close>, debug output). In lwext4, the journal and
  transactions (not configured), \<open>mkfs\<close>, extended attributes, partition tables (\<open>ext4_mbr.c\<close>) and what changes a file system:
  allocation, truncation, creating and removing files. In FatFs, what is not configured: writing, exFAT, other code pages, relative paths.
\<close>

section \<open>The commands end to end\<close>



text \<open>C2. \<open>syber_usb write\<close>: with a partition of the table, a non-empty regular file below 4 GiB
  whose windows fit the send buffer and a phone that accepts the session, collects the data and
  acknowledges the end, \<open>main\<close> returns 0 and the phone has exactly the contents of the file.\<close>

theorem main_write_correct:
  assumes "setup_ok E" "find_part part_table part \<noteq> []"
    and "starts_ack U TYPE_IPSUM (frame_bytes TYPE_IPSUM (bsl BSL_CMD_START_DATA)
      (part_data part (start_fields part (of_nat (length c)) c))) (dev s) d0"
    and "collects U TYPE_IPSUM 0x5000 got" "got d0 []" and "finishes U TYPE_IPSUM got"
    and "fits TYPE_IPSUM 0xa000 0x5000 c" and "c \<noteq> []" "length c < 2 ^ 32"
    and "files s fname = Some c" "\<not> nonreg s fname" "\<not> denied s fname" "close_ok s"
  shows "\<exists>d m. main U E L F sys exe [prog, ''write'', part, fname] x s =
      Some (0, x, s\<lparr>checksum_type := TYPE_IPSUM, dev := d, data_buffer := m\<rparr>) \<and> got d c"
proof -
  let ?s = "s\<lparr>checksum_type := TYPE_IPSUM\<rparr>"
  have sz: "unat (of_nat (length c) :: u32) = length c" "(of_nat (length c) :: u32) \<noteq> 0"
    "(ucast (get_file_size fname ?s) :: u32) = of_nat (length c)"
    using assms(8-10) by (simp_all add: get_file_size_def word_unat_eq_iff unat_ucast_mod unat_of_nat)
  obtain d m where "sprd_download_partition U (Some part) (Some fname) (of_nat (length c)) 0x5000 ?s =
      Some (0, ?s\<lparr>dev := d, data_buffer := m\<rparr>)" "got d (take (length c) c)"
    using sprd_download_partition_ok[of U ?s part "of_nat (length c)" c d0 "0x5000" got fname]
      assms sz known_names_short[OF assms(2)] by (auto simp: DATA_BUFFER_SIZE_def)
  with assms(1,2) show ?thesis
    by (intro exI[of _ d] exI[of _ m]) (simp add: main_command command_def Let_def sz(3))
qed

theorem main_write_correct_witness:
  "\<forall>L F sys exe (x :: unit). \<exists>d m. main (sink_usb TYPE_IPSUM) setup0 L F sys exe
      [''syber_usb'', ''write'', ''logo'', ''logo.bmp''] x (sink_st TYPE_CRC [''logo.bmp'' \<mapsto> [0x7e, 2, 3]]) =
      Some (0, x, (sink_st TYPE_CRC [''logo.bmp'' \<mapsto> [0x7e, 2, 3]])\<lparr>checksum_type := TYPE_IPSUM,
        dev := d, data_buffer := m\<rparr>) \<and> sink_got d [0x7e, 2, 3]"
  by (intro allI, rule main_write_correct[where ?d0.0 = "([], [])"])
     (simp_all add: setup0_ok part_table_def sink_st_def sink_starts_ack sink_collects sink_finishes
       fits_short sink_got_start del: bsl.simps)

section \<open>Files of the ext4 partitions\<close>

text \<open>C3. \<open>syber_usb ext4fs get\<close>: if the partition that the path selects is an ext4 image on the phone, and the rest of
  the path leads to a file with contents \<open>c\<close> below 4 GiB in it (no directory on the way has a hash index and the file has no holes), \<open>main\<close> mounts the image, walks to the file, copies it in pieces through
  the block cache, unmounts, and returns 0; the local file named by the last component holds exactly \<open>c\<close>. The phone has to
  accept the session, serve the image and acknowledge the end; the allocations of lwext4 succeed. \<open>file_at\<close> speaks of the bytes
  of the image only. Without memory for the buffer of the command it returns -1 and leaves the phone and the host alone.\<close>

theorem main_get_correct:
  assumes "setup_ok E" "ext4_route path = (dv, red)" "ascii red = 0x2f # join_path ns" "base_from red red = dest" "dest \<noteq> []"
    and "opens U dv ready img (s\<lparr>checksum_type := TYPE_IPSUM\<rparr>)" "\<And>d. ready d \<Longrightarrow> \<exists>d'. acks U TYPE_IPSUM (bsl BSL_CMD_READ_FLASH_END) d d'"
    and "file_at C img ns target bl c" "length c < 2 ^ 32" "(18 * C + 5) * length ns + 4 < 2 ^ 31"
    and "mal_ok (img_n img) mal" "\<forall>d. cal d" "lw_start s0 x0"
    and "\<not> denied s dest" "\<not> nonreg s dest" "length c \<le> space s"
  shows "if heap_ok s then
      \<exists>x d m. main U E (lw_ops U junk mal cal d0) F sys exe [prog, ''ext4fs'', ''get'', path] x0 s =
        Some (0, x, s\<lparr>checksum_type := TYPE_IPSUM, files := (files s)(dest \<mapsto> c), space := space s - length c, dev := d, data_buffer := m\<rparr>)
    else main U E (lw_ops U junk mal cal d0) F sys exe [prog, ''ext4fs'', ''get'', path] x0 s = Some (- 1, x0, s\<lparr>checksum_type := TYPE_IPSUM\<rparr>)"
proof (cases "heap_ok s")
  case True
  let ?s = "s\<lparr>checksum_type := TYPE_IPSUM\<rparr>"
  have "serves_file (lw_ops U junk mal cal d0) (checksum_type ?s) dv red x0 (dev ?s) c"
    by (rule phone_serves_file[OF assms(13,6) _ assms(8,11,12,3)]) (use assms(7,9,10) in \<open>simp_all add: walk_ops_def\<close>)
  from sprd_read_ext4fs_ok[OF assms(2,4,5) this assms(9)] assms(14-16) True obtain x d m where
    "sprd_read_ext4fs (lw_ops U junk mal cal d0) path x0 ?s = Some (0, x, ?s\<lparr>files := (files ?s)(dest \<mapsto> c),
      space := space ?s - length c, dev := d, data_buffer := m\<rparr>)" by auto
  with assms(1) True show ?thesis
    by (simp only: if_True, intro exI[of _ x] exI[of _ d] exI[of _ m]) (simp add: main_command command_def Let_def)
qed (use assms(1) in \<open>simp add: main_command command_def Let_def no_buffer\<close>)

lemma img0_opens: "opens (phone_usb TYPE_IPSUM img0) Syberfsdev idle img0 ((st0 ct fs)\<lparr>checksum_type := TYPE_IPSUM\<rparr>)"
proof -
  have "starts (phone_usb TYPE_IPSUM img0) TYPE_IPSUM 20 (session_frame Syberfsdev) [] []"
    by (rule phone_starts) (simp_all add: session_frame_def syberfs_partition_def)
  moreover have "flash_ok (phone_usb TYPE_IPSUM img0) idle img0 ((st0 ct fs)\<lparr>checksum_type := TYPE_IPSUM, dev := []\<rparr>)"
    by (simp add: flash_ok_def phone_serves st0_def idle_def length_img0)
  ultimately show ?thesis unfolding opens_def by (intro conjI exI[of _ "[]"]) (simp_all add: st0_def length_img0)
qed

lemma img0_closes: "\<exists>d'. acks (phone_usb TYPE_IPSUM img0) TYPE_IPSUM (bsl BSL_CMD_READ_FLASH_END) d d'"
  by (intro exI[of _ "[]"]) (simp add: phone_acks)

lemma img0_n: "img_n img0 = 1024"
  by (simp add: img_n_def sb0_facts)

definition lw0 :: "byte list list lwx" where
  "lw0 = \<lparr>lw = lwext4_init (\<lambda>_. phone_dev (st0 TYPE_CRC Map.empty)) (phone_dev (st0 TYPE_CRC Map.empty)),
     lw_file = (0, \<lparr>f_mp = False, f_inode = 0, f_flags = 0, fsize = 0, fpos = 0\<rparr>), lw_buf = replicate 0x3000 0, lw_rcnt = 0\<rparr>"

lemma lw0_start: "lw_start (st0 TYPE_CRC Map.empty) lw0"
  by (simp add: lw_start_def lw0_def)

lemma motd_path: "ascii ''/etc/motd'' = 0x2f # join_path [etc_name, motd_name]"
  by (simp add: ascii_def etc_name_def motd_name_def)

theorem main_get_correct_witness:
  "\<forall>junk d0 F sys exe. \<exists>x d m. main (phone_usb TYPE_IPSUM img0) setup0 (lw_ops (phone_usb TYPE_IPSUM img0) junk (\<lambda>_ _. Some (replicate 1024 9)) (\<lambda>_. True) d0)
      F sys exe [''syber_usb'', ''ext4fs'', ''get'', ''/etc/motd''] lw0 (st0 TYPE_CRC Map.empty) =
    Some (0, x, (st0 TYPE_CRC Map.empty)\<lparr>checksum_type := TYPE_IPSUM, files := (files (st0 TYPE_CRC Map.empty))(''motd'' \<mapsto> hello),
      space := space (st0 TYPE_CRC Map.empty) - length hello, dev := d, data_buffer := m\<rparr>)"
proof (intro allI, rule if_trueD[OF main_get_correct[OF setup0_ok _ motd_path _ _ img0_opens img0_closes img0_file]])
  show "ext4_route ''/etc/motd'' = (Syberfsdev, ''/etc/motd'')" by (simp add: ext4_route_def ext4_syberfsdev_get_def)
  show "lw_start (st0 TYPE_CRC Map.empty) lw0" by (rule lw0_start)
qed (simp_all add: img0_n mal_ok_def hello_def st0_def)

text \<open>C4. \<open>syber_usb ext4fs cat\<close>: under the same conditions on the phone and the image, \<open>sprd_cat_ext4fs\<close> returns 0 and
  prints exactly the contents of the file; without memory for its buffer it returns -1, prints nothing and changes nothing.\<close>

theorem phone_cat_correct:
  assumes "ext4_route path = (dv, red)" "ascii red = 0x2f # join_path ns"
    and "opens U dv ready img s" "\<And>d. ready d \<Longrightarrow> \<exists>d'. acks U (checksum_type s) (bsl BSL_CMD_READ_FLASH_END) d d'"
    and "file_at C img ns target bl c" "length c < 2 ^ 32" "(18 * C + 5) * length ns + 4 < 2 ^ 31"
    and "mal_ok (img_n img) mal" "\<forall>d. cal d" "lw_start s0 x0"
  shows "if heap_ok s then \<exists>x d m. sprd_cat_ext4fs (lw_ops U junk mal cal d0) path x0 s = Some (0, c, x, s\<lparr>dev := d, data_buffer := m\<rparr>)
    else sprd_cat_ext4fs (lw_ops U junk mal cal d0) path x0 s = Some (- 1, [], x0, s)"
proof (cases "heap_ok s")
  case True
  have "\<exists>x d m. sprd_cat_ext4fs (lw_ops U junk mal cal d0) path x0 s = Some (0, c, x, s\<lparr>dev := d, data_buffer := m\<rparr>)"
    by (rule sprd_cat_ext4fs_ok[OF assms(1) phone_serves_file[OF assms(10,3,4,5,8,9,2)] True]) (use assms(6,7) in \<open>simp_all add: walk_ops_def\<close>)
  with True show ?thesis by simp
qed (simp add: no_buffer)

theorem phone_cat_correct_witness:
  "\<forall>junk d0. \<exists>x d m. sprd_cat_ext4fs (lw_ops (phone_usb TYPE_IPSUM img0) junk (\<lambda>_ _. Some (replicate 1024 9)) (\<lambda>_. True) d0) ''/etc/motd'' lw0
      ((st0 TYPE_CRC Map.empty)\<lparr>checksum_type := TYPE_IPSUM\<rparr>) =
    Some (0, hello, x, (st0 TYPE_CRC Map.empty)\<lparr>checksum_type := TYPE_IPSUM\<rparr>\<lparr>dev := d, data_buffer := m\<rparr>)"
proof (intro allI, rule if_trueD[OF phone_cat_correct[OF _ motd_path img0_opens _ img0_file _ _ _ _ lw0_start]])
  show "ext4_route ''/etc/motd'' = (Syberfsdev, ''/etc/motd'')" by (simp add: ext4_route_def ext4_syberfsdev_get_def)
qed (simp_all add: img0_n mal_ok_def hello_def img0_closes del: bsl.simps)

text \<open>C5. \<open>syber_usb ext4fs ls\<close>: if the path leads to a directory of the image, \<open>sprd_ls_ext4fs\<close> returns 0 and prints one
  line for the first entry and for every further entry with an inode, in the order of the blocks of the directory; removed
  entries and entries without a name are skipped. The listing ends for every directory.\<close>

theorem phone_ls_correct:
  assumes "ext4_route path = (dv, red)" "ascii red = 0x2f # join_path ns"
    and "opens U dv ready img s" "\<And>d. ready d \<Longrightarrow> \<exists>d'. acks U (checksum_type s) (bsl BSL_CMD_READ_FLASH_END) d d'"
    and "dir_at C img ns index es" "(18 * C + 5) * length ns + 41 * length es + 80 < 2 ^ 32"
    and "mal_ok (img_n img) mal" "\<forall>d. cal d" "lw_start s0 x0"
  shows "\<exists>x d m. sprd_ls_ext4fs (lw_ops U junk mal cal d0) path x0 s =
    Some (0, concat (map (dir_line (sb_of img)) (es ! 0 # filter (\<lambda>e. seg_ino e \<noteq> 0) (drop 1 es))), x, s\<lparr>dev := d, data_buffer := m\<rparr>)"
  using phone_lists[OF assms(1,9,3,4,5,7,8,2,6)] by (simp add: listed_def)

theorem phone_ls_correct_witness:
  "\<forall>junk d0. \<exists>x d m. sprd_ls_ext4fs (lw_ops (phone_usb TYPE_IPSUM img0) junk (\<lambda>_ _. Some (replicate 1024 9)) (\<lambda>_. True) d0) ''/etc'' lw0
      ((st0 TYPE_CRC Map.empty)\<lparr>checksum_type := TYPE_IPSUM\<rparr>) =
    Some (0, ascii ''  [dir] .'' @ [0x0a] @ ascii ''  [dir] ..'' @ [0x0a] @ ascii ''  [fil] motd'' @ [0x0a], x,
      (st0 TYPE_CRC Map.empty)\<lparr>checksum_type := TYPE_IPSUM\<rparr>\<lparr>dev := d, data_buffer := m\<rparr>)"
  unfolding img0_listing[symmetric] listed_def One_nat_def[symmetric]
proof (intro allI, rule phone_ls_correct[OF _ _ img0_opens _ img0_dir _ _ _ lw0_start])
  show "ext4_route ''/etc'' = (Syberfsdev, ''/etc'')" by (simp add: ext4_route_def ext4_syberfsdev_get_def)
  show "ascii ''/etc'' = 0x2f # join_path [etc_name]" by (simp add: ascii_def etc_name_def)
qed (simp_all add: img0_n mal_ok_def img_etc_def img0_closes del: bsl.simps)

section \<open>The ext4 block layer above the phone\<close>


definition opened :: "byte list list st" where
  "opened = st0 TYPE_IPSUM Map.empty"

lemma phone_opens: "opens (phone_usb TYPE_IPSUM (replicate 1024 7)) Datadev idle (replicate 1024 7) opened"
proof -
  have "starts (phone_usb TYPE_IPSUM (replicate 1024 7)) TYPE_IPSUM 20 (session_frame Datadev) [] []"
    by (rule phone_starts) (simp_all add: session_frame_def data_partition_def)
  moreover have "checksum_type opened = TYPE_IPSUM" "dev opened = []"
    by (simp_all add: opened_def st0_def)
  moreover have "flash_ok (phone_usb TYPE_IPSUM (replicate 1024 7)) idle (replicate 1024 7) (opened\<lparr>dev := []\<rparr>)"
    by (simp add: opened_def flash_ok_def phone_serves st0_def idle_def)
  ultimately show ?thesis unfolding opens_def by (intro conjI exI[of _ "[]"]) simp_all
qed


text \<open>C10. Block access through the cache: after opening the device, setting the logical block
  size and binding a cache of any size, every sequence of getting, giving back and flushing blocks that is defined on a disk
  without a cache (\<open>arun\<close>: every block got is on the partition and is not block 0, and a block is given back only while somebody holds it) and
  has less than \<open>2 ^ 32 - 2\<close> operations succeeds, and every block got holds exactly its bytes of the partition. Block 0 can be got, but
  giving it back fails an assertion of the cache; giving back a block that nobody holds is an error of the caller.\<close>

theorem phone_cached_correct:
  assumes "opens U dv ready flash s" "ext4_bcache_init_dynamic cnt n = Some c" "512 dvd unat n" "\<forall>l. length (fresh l) = unat n"
    and "unat N * unat n \<le> length flash" "arun N (unat n) xs (\<lambda>l. take (unat n) (drop (unat l * unat n) flash), \<lambda>_. 0) = Some (outs, D, R)"
    and "\<forall>l dat. Write l dat \<notin> set xs" "length xs + 2 < 2 ^ 32"
  shows "\<exists>b b1 cd. ext4_block_init (phone_ops U junk dv) (phone_dev s) = Some (EOK, b) \<and>
    ext4_block_set_lb_size n b = Some b1 \<and>
    crun (phone_ops U junk dv) fresh xs \<lparr>bdv = b1, bc = c\<rparr> = Some (map (Pair EOK) outs, cd)"
proof -
  obtain b where b: "ext4_block_init (phone_ops U junk dv) (phone_dev s) = Some (EOK, b)"
    "dev_ok (phone_ok U ready flash dv s) (\<lambda>_. flash) 512 b" "ph_refctr b = 1" "part_offset b = 0" "part_size b = 2 ^ 32"
    using phone_init_ok[OF assms(1)] by blast
  have len: "length flash \<le> 2 ^ 32" using assms(1) by (auto simp: opens_def flash_ok_def)
  have n: "n \<noteq> 0" using assms(2) by (auto simp: ext4_bcache_init_dynamic_def split: if_splits)
  have bs: "unat (ph_bsize b) = 512" using b(2) by (simp add: dev_ok_def)
  let ?b = "b\<lparr>lg_bsize := n, lg_bcnt := part_size b div ucast n\<rparr>"
  have "n mod ph_bsize b = 0" using assms(3) bs by (simp add: word_unat_eq_iff unat_mod dvd_imp_mod_0)
  moreover have "ph_bsize b \<noteq> 0" using bs by auto
  ultimately have set: "ext4_block_set_lb_size n b = Some ?b" using n by (simp add: ext4_block_set_lb_size_def)
  have "unat N \<le> 2 ^ 32 div unat n"
    using assms(5) len n by (simp add: less_eq_div_iff_mult_less_eq unat_gt_0)
  then have "N \<le> lg_bcnt ?b" using b(5) by (simp add: word_le_nat_alt unat_div)
  from set_lb_size_ok[OF set this, of "\<lambda>_. flash"] have lb: "lb_ok (\<lambda>_. flash) 512 N ?b" using assms(5) b(4) bs by simp
  have dev: "dev_ok (phone_ok U ready flash dv s) (\<lambda>_. flash) 512 ?b" using b(2) by (simp add: dev_ok_def)
  have blk: "part_block (\<lambda>_. flash) ?b = (\<lambda>l. take (unat n) (drop (unat l * unat n) flash))"
    by (simp add: fun_eq_iff part_block_def b(4))
  let ?good = "\<lambda>d. dev_ok (phone_ok U ready flash dv s) (\<lambda>_. flash) 512 d \<and> lb_ok (\<lambda>_. flash) 512 N d"
  have "refines ?good (part_block (\<lambda>_. flash)) False N (unat (lg_bsize ?b)) 0 (part_block (\<lambda>_. flash) ?b, \<lambda>_. 0) \<lparr>bdv = ?b, bc = c\<rparr>"
    by (rule refines_init) (use dev lb b(3) assms(2) in simp_all)
  from phone.lsrc.crun_refines[OF this, of xs outs "(D, R)" junk fresh] assms(4,6-8)
  obtain cd where "crun (phone_ops U junk dv) fresh xs \<lparr>bdv = ?b, bc = c\<rparr> = Some (map (Pair EOK) outs, cd)"
    by (auto simp: blk)
  with b(1) set show ?thesis by blast
qed

theorem phone_cached_correct_witness:
  "\<forall>junk. \<exists>b b1 cd. ext4_block_init (phone_ops (phone_usb TYPE_IPSUM (replicate 1024 7)) junk Datadev) (phone_dev opened) = Some (EOK, b) \<and>
    ext4_block_set_lb_size 512 b = Some b1 \<and>
    crun (phone_ops (phone_usb TYPE_IPSUM (replicate 1024 7)) junk Datadev) (\<lambda>_. replicate 512 9) [Get 1, Put 1]
      \<lparr>bdv = b1, bc = the (ext4_bcache_init_dynamic 1 512)\<rparr> =
    Some (map (Pair EOK) [take (unat (512 :: u32)) (drop (unat (1 :: u64) * unat (512 :: u32)) (replicate 1024 7)), []], cd)"
  by (intro allI, rule phone_cached_correct[OF phone_opens, where N = 2 and cnt = 1 and
        D = "\<lambda>l. take (unat (512 :: u32)) (drop (unat l * unat (512 :: u32)) (replicate 1024 7))" and R = "(\<lambda>_. 0)(1 := 1, 1 := 0)"])
    (simp_all add: ext4_bcache_init_dynamic_def)

end
